(* ===== verification/Prelude.thy ===== *)
theory Prelude
  imports Main "HOL-Library.Word" "HOL-Library.Code_Target_Nat"
begin

text \<open>
  What every component theory shares: byte strings and the big-endian integer encodings
  of Go's \<open>encoding/binary\<close>, bounds-checked slices, Go strings as byte-sized characters,
  UTF-8 validity as \<open>unicode/utf8\<close> decides it, and the collections of facts the component
  proofs draw on (\<open>codec\<close> for encoders and decoders, \<open>go_str\<close> for string operations).
\<close>

unbundle bit_operations_syntax

named_theorems codec \<open>lengths, takes and drops of encoded values, and decode-after-encode laws\<close>
named_theorems go_str \<open>laws of the Go string operations the sources call\<close>

type_synonym byte = "8 word"
type_synonym bytes = "8 word list"

section \<open>Big-endian integers (encoding/binary)\<close>

text \<open>
  \<open>be_put n v\<close> is the \<open>n\<close>-byte big-endian image of \<open>v\<close> (high bytes first, the low byte of
  what is left last), as \<open>binary.BigEndian.PutUint16\<close>, \<open>PutUint32\<close> and \<open>PutUint64\<close> write it;
  \<open>be_get\<close> reads a byte string back as \<open>binary.BigEndian.Uint16\<close> and its siblings do.
\<close>

primrec be_put :: "nat \<Rightarrow> nat \<Rightarrow> bytes" where
  "be_put 0 v = []"
| "be_put (Suc n) v = be_put n (v div 256) @ [word_of_nat (v mod 256)]"

definition be_get :: "bytes \<Rightarrow> nat" where
  "be_get bs = foldl (\<lambda>a b. a * 256 + unat b) 0 bs"

lemma unat_less_pow: "unat (w :: 'a::len word) < 2 ^ LENGTH('a)"
  by (rule unsigned_less)

lemma length_be_put [simp, codec]: "length (be_put n v) = n"
  by (induction n arbitrary: v) simp_all

lemma be_get_Nil [simp]: "be_get [] = 0"
  by (simp add: be_get_def)

lemma be_get_snoc [simp]: "be_get (bs @ [b]) = be_get bs * 256 + unat b"
  by (simp add: be_get_def)

lemma unat_byte_mod [simp]: "unat (word_of_nat (v mod 256) :: byte) = v mod 256"
  by (simp add: unat_of_nat)

lemma be_get_put [simp, codec]: "v < 256 ^ n \<Longrightarrow> be_get (be_put n v) = v"
proof (induction n arbitrary: v)
  case 0
  then show ?case by simp
next
  case (Suc n)
  then have "v div 256 < 256 ^ n"
    by (simp add: less_mult_imp_div_less mult.commute)
  with Suc.IH show ?case by simp
qed

lemma be_get_less: "be_get bs < 256 ^ length bs"
proof (induction bs rule: rev_induct)
  case Nil
  then show ?case by simp
next
  case (snoc b bs)
  have "unat b < 256" using unat_less_pow [of b] by simp
  then have "be_get bs * 256 + unat b < (be_get bs + 1) * 256" by simp
  also have "\<dots> \<le> 256 ^ length bs * 256"
    using snoc by (intro mult_right_mono) simp_all
  finally show ?case by simp
qed

lemma be_put_get [simp, codec]: "be_put (length bs) (be_get bs) = bs"
proof (induction bs rule: rev_induct)
  case Nil
  then show ?case by simp
next
  case (snoc b bs)
  have "unat b < 256" using unat_less_pow [of b] by simp
  then have "(be_get bs * 256 + unat b) div 256 = be_get bs"
    and "(be_get bs * 256 + unat b) mod 256 = unat b"
    by simp_all
  with snoc show ?case by simp
qed

lemma be_put_inject: "v < 256 ^ n \<Longrightarrow> w < 256 ^ n \<Longrightarrow> be_put n v = be_put n w \<longleftrightarrow> v = w"
  by (metis be_get_put)

text \<open>The three widths the sources use, on machine words.\<close>

definition PutUint16 :: "16 word \<Rightarrow> bytes" where
  "PutUint16 w = be_put 2 (unat w)"

definition Uint16 :: "bytes \<Rightarrow> 16 word" where
  "Uint16 bs = word_of_nat (be_get (take 2 bs))"

definition PutUint32 :: "32 word \<Rightarrow> bytes" where
  "PutUint32 w = be_put 4 (unat w)"

definition Uint32 :: "bytes \<Rightarrow> 32 word" where
  "Uint32 bs = word_of_nat (be_get (take 4 bs))"

definition PutUint64 :: "64 word \<Rightarrow> bytes" where
  "PutUint64 w = be_put 8 (unat w)"

definition Uint64 :: "bytes \<Rightarrow> 64 word" where
  "Uint64 bs = word_of_nat (be_get (take 8 bs))"

lemma length_PutUint [simp, codec]:
  "length (PutUint16 w) = 2" "length (PutUint32 x) = 4" "length (PutUint64 y) = 8"
  by (simp_all add: PutUint16_def PutUint32_def PutUint64_def)

lemma Uint16_PutUint16 [simp, codec]: "Uint16 (PutUint16 w @ bs) = w"
  using unat_less_pow [of w] by (simp add: Uint16_def PutUint16_def)

lemma Uint32_PutUint32 [simp, codec]: "Uint32 (PutUint32 w @ bs) = w"
  using unat_less_pow [of w] by (simp add: Uint32_def PutUint32_def)

lemma Uint64_PutUint64 [simp, codec]: "Uint64 (PutUint64 w @ bs) = w"
  using unat_less_pow [of w] by (simp add: Uint64_def PutUint64_def)

lemmas Uint_PutUint_Nil [simp, codec] =
  Uint16_PutUint16 [where bs = "[]", simplified]
  Uint32_PutUint32 [where bs = "[]", simplified]
  Uint64_PutUint64 [where bs = "[]", simplified]

lemma PutUint16_Uint16: "2 \<le> length bs \<Longrightarrow> PutUint16 (Uint16 bs) = take 2 bs"
  using be_get_less [of "take 2 bs"] be_put_get [of "take 2 bs"]
  by (simp add: PutUint16_def Uint16_def unat_of_nat)

lemma PutUint32_Uint32: "4 \<le> length bs \<Longrightarrow> PutUint32 (Uint32 bs) = take 4 bs"
  using be_get_less [of "take 4 bs"] be_put_get [of "take 4 bs"]
  by (simp add: PutUint32_def Uint32_def unat_of_nat)

lemma PutUint64_Uint64: "8 \<le> length bs \<Longrightarrow> PutUint64 (Uint64 bs) = take 8 bs"
  using be_get_less [of "take 8 bs"] be_put_get [of "take 8 bs"]
  by (simp add: PutUint64_def Uint64_def unat_of_nat)

section \<open>Slices\<close>

text \<open>
  The slice expression \<open>b[i:j]\<close> panics unless \<open>i \<le> j\<close> and \<open>j\<close> is within the capacity of \<open>b\<close>;
  the model asks for \<open>j \<le> len(b)\<close>, which is stricter. A definition that reads with \<open>slice\<close> has
  the panic as \<open>None\<close>, so a proof that it never happens is a bounds proof.
\<close>

definition slice :: "'a list \<Rightarrow> nat \<Rightarrow> nat \<Rightarrow> 'a list option" where
  "slice b i j = (if i \<le> j \<and> j \<le> length b then Some (take (j - i) (drop i b)) else None)"

definition index :: "'a list \<Rightarrow> nat \<Rightarrow> 'a option" where
  "index b i = (if i < length b then Some (b ! i) else None)"

lemma slice_Some [simp]: "i \<le> j \<Longrightarrow> j \<le> length b \<Longrightarrow> slice b i j = Some (take (j - i) (drop i b))"
  by (simp add: slice_def)

lemma index_Some [simp]: "i < length b \<Longrightarrow> index b i = Some (b ! i)"
  by (simp add: index_def)

lemma slice_SomeD: "slice b i j = Some s \<Longrightarrow> i \<le> j \<and> j \<le> length b \<and> length s = j - i"
  by (auto simp: slice_def split: if_splits)

lemma slice_mid: "b = pre @ mid @ post \<Longrightarrow> i = length pre \<Longrightarrow> j = i + length mid \<Longrightarrow> slice b i j = Some mid"
  by simp

lemma index_mid: "b = pre @ x # post \<Longrightarrow> i = length pre \<Longrightarrow> index b i = Some x"
  by simp

lemma unat_byte_of_nat: "n \<le> 255 \<Longrightarrow> unat (word_of_nat n :: byte) = n"
  by (simp add: unat_of_nat take_bit_nat_eq_self)

section \<open>Go strings\<close>

text \<open>
  A Go string is a sequence of bytes; HOL's \<open>char\<close> is a byte, so \<open>string\<close> is the type and
  \<open>length\<close> counts what \<open>len\<close> counts.
\<close>

definition string_bytes :: "string \<Rightarrow> bytes" where
  "string_bytes s = map of_char s"

definition bytes_string :: "bytes \<Rightarrow> string" where
  "bytes_string bs = map (\<lambda>b. char_of (unat b)) bs"

lemma length_string_bytes [simp, codec]: "length (string_bytes s) = length s"
  by (simp add: string_bytes_def)

lemma bytes_string_Nil [simp]: "bytes_string [] = []"
  by (simp add: bytes_string_def)

lemma length_bytes_string [simp, codec]: "length (bytes_string bs) = length bs"
  by (simp add: bytes_string_def)

lemma of_char_byte: "(of_char c :: byte) = word_of_nat (of_char c)"
  by (simp add: of_nat_of_char)

lemma unat_of_char [simp]: "unat (of_char c :: byte) = of_char c"
  by (simp add: of_char_byte unat_of_nat)

lemma bytes_string_bytes [simp, codec]: "bytes_string (string_bytes s) = s"
  by (induction s) (simp_all add: bytes_string_def string_bytes_def)

lemma string_bytes_string [simp, codec]: "string_bytes (bytes_string bs) = bs"
proof (induction bs)
  case Nil
  then show ?case by (simp add: bytes_string_def string_bytes_def)
next
  case (Cons b bs)
  have "unat b < 256" using unat_less_pow [of b] by simp
  then have "(of_char (char_of (unat b) :: char) :: byte) = b"
    by (simp add: of_char_byte)
  with Cons show ?case by (simp add: bytes_string_def string_bytes_def)
qed

lemma string_bytes_inject [simp]: "string_bytes s = string_bytes t \<longleftrightarrow> s = t"
  by (metis bytes_string_bytes)

lemma bytes_string_inject [simp]: "bytes_string s = bytes_string t \<longleftrightarrow> s = t"
  by (metis string_bytes_string)

lemma string_bytes_append [simp]: "string_bytes (s @ t) = string_bytes s @ string_bytes t"
  by (simp add: string_bytes_def)

lemma string_bytes_Nil [simp]: "string_bytes [] = []"
  by (simp add: string_bytes_def)

section \<open>UTF-8 validity (unicode/utf8)\<close>

text \<open>
  \<open>utf8.Valid\<close> accepts exactly the well-formed sequences of RFC 3629: the first byte fixes
  the number of continuation bytes and the range of the second byte.
\<close>

definition cont :: "byte \<Rightarrow> bool" where
  "cont b \<longleftrightarrow> 128 \<le> b \<and> b \<le> 191"

fun utf8_Valid :: "bytes \<Rightarrow> bool" where
  "utf8_Valid [] \<longleftrightarrow> True"
| "utf8_Valid (a # bs) \<longleftrightarrow>
     (if a < 128 then utf8_Valid bs
      else if 194 \<le> a \<and> a \<le> 223 then
        (case bs of b # rest \<Rightarrow> cont b \<and> utf8_Valid rest | _ \<Rightarrow> False)
      else if 224 \<le> a \<and> a \<le> 239 then
        (case bs of
           b # c # rest \<Rightarrow>
             (if a = 224 then 160 else 128) \<le> b \<and> b \<le> (if a = 237 then 159 else 191)
             \<and> cont c \<and> utf8_Valid rest
         | _ \<Rightarrow> False)
      else if 240 \<le> a \<and> a \<le> 244 then
        (case bs of
           b # c # d # rest \<Rightarrow>
             (if a = 240 then 144 else 128) \<le> b \<and> b \<le> (if a = 244 then 143 else 191)
             \<and> cont c \<and> cont d \<and> utf8_Valid rest
         | _ \<Rightarrow> False)
      else False)"

definition utf8_ValidString :: "string \<Rightarrow> bool" where
  "utf8_ValidString s \<longleftrightarrow> utf8_Valid (string_bytes s)"

lemma utf8_ValidString_Nil [simp]: "utf8_ValidString []"
  by (simp add: utf8_ValidString_def string_bytes_def)

lemma utf8_ValidString_bytes [simp, codec]: "utf8_ValidString (bytes_string bs) = utf8_Valid bs"
  by (simp add: utf8_ValidString_def)

lemma utf8_Valid_ascii: "list_all (\<lambda>b. b < 128) bs \<Longrightarrow> utf8_Valid bs"
  by (induction bs) auto

section \<open>Options and maps\<close>

text \<open>
  A Go map read \<open>v, ok := m[k]\<close> is \<open>m k\<close>; \<open>delete(m, k)\<close> is \<open>m(k := None)\<close>. The iteration of
  a map visits every key once in an order the language leaves open: where a result
  depends on it, the order is an argument \<open>ks\<close> with \<open>distinct ks\<close> and \<open>set ks = dom m\<close>.
\<close>

definition iter_order :: "('k \<rightharpoonup> 'v) \<Rightarrow> 'k list \<Rightarrow> bool" where
  "iter_order m ks \<longleftrightarrow> distinct ks \<and> set ks = dom m"

lemma iter_order_empty [simp]: "iter_order Map.empty ks \<longleftrightarrow> ks = []"
  by (auto simp: iter_order_def)

lemma map_sum_Inr_iff: "map_sum f g x = Inr y \<longleftrightarrow> (\<exists>z. x = Inr z \<and> g z = y)"
  by (cases x) auto

lemma map_eqI: "(\<And>k v. f k = Some v \<longleftrightarrow> g k = Some v) \<Longrightarrow> f = g"
  by (rule ext) (metis option.exhaust)

lemma dom_delete [simp]: "dom (m(k := None)) = dom m - {k}"
  by auto

lemma ran_delete: "ran (m(k := None)) \<subseteq> ran m"
  by (auto simp: ran_def)

end
