(* ===== verification/Interfaces.thy ===== *)
theory Interfaces
  imports Prelude
begin

text \<open>
  The contracts that several components share, each as a locale with the lemmas its clients
  need. \<open>prefix_codec\<close> is a self-delimiting encoding (the wire frames, the UDP addresses);
  \<open>op_machine\<close> is a component whose operations keep an invariant under a condition on each
  call (the port manager, the registries, the controllers).
\<close>

section \<open>Self-delimiting encodings\<close>

text \<open>\<open>dec_many dec n bs\<close> decodes \<open>n\<close> values in sequence and returns what is left.\<close>

primrec dec_many :: "(bytes \<Rightarrow> 'e + 'a \<times> bytes) \<Rightarrow> nat \<Rightarrow> bytes \<Rightarrow> 'e + 'a list \<times> bytes" where
  "dec_many dec 0 bs = Inr ([], bs)"
| "dec_many dec (Suc n) bs =
     (case dec bs of
        Inl e \<Rightarrow> Inl e
      | Inr (x, rest) \<Rightarrow>
          (case dec_many dec n rest of
             Inl e \<Rightarrow> Inl e
           | Inr (xs, rest') \<Rightarrow> Inr (x # xs, rest')))"

locale prefix_codec =
  fixes enc :: "'a \<Rightarrow> bytes"
    and dec :: "bytes \<Rightarrow> 'e + 'a \<times> bytes"
    and ok :: "'a \<Rightarrow> bool"
  assumes dec_enc: "ok x \<Longrightarrow> dec (enc x @ rest) = Inr (x, rest)"
begin

lemma dec_many_concat:
  "list_all ok xs \<Longrightarrow> dec_many dec (length xs) (concat (map enc xs) @ rest) = Inr (xs, rest)"
  by (induction xs) (simp_all add: dec_enc)

lemma enc_append_inject:
  assumes "ok x" and "ok y" and "enc x @ r = enc y @ s"
  shows "x = y \<and> r = s"
proof -
  from dec_enc [OF assms(1), of r] dec_enc [OF assms(2), of s]
  show ?thesis unfolding assms(3) by simp
qed

lemma concat_enc_inject:
  assumes "list_all ok xs" and "list_all ok ys" and "length xs = length ys"
    and "concat (map enc xs) = concat (map enc ys)"
  shows "xs = ys"
proof -
  from dec_many_concat [OF assms(1), of "[]"] dec_many_concat [OF assms(2), of "[]"]
  show ?thesis using assms(3,4) by simp
qed

end

section \<open>Operations that keep an invariant\<close>

text \<open>
  \<open>run_ops step s ops\<close> applies the operations in order. An operation is admissible in a
  state when \<open>ok s op\<close> holds (what the environment promises: an iteration order that lists
  the keys, a fresh object); \<open>ops_ok\<close> says that of a whole sequence.
\<close>

primrec run_ops :: "('s \<Rightarrow> 'o \<Rightarrow> 's) \<Rightarrow> 's \<Rightarrow> 'o list \<Rightarrow> 's" where
  "run_ops step s [] = s"
| "run_ops step s (p # ps) = run_ops step (step s p) ps"

primrec ops_ok :: "('s \<Rightarrow> 'o \<Rightarrow> bool) \<Rightarrow> ('s \<Rightarrow> 'o \<Rightarrow> 's) \<Rightarrow> 's \<Rightarrow> 'o list \<Rightarrow> bool" where
  "ops_ok ok step s [] \<longleftrightarrow> True"
| "ops_ok ok step s (p # ps) \<longleftrightarrow> ok s p \<and> ops_ok ok step (step s p) ps"

lemma run_ops_append [simp]: "run_ops step s (ps @ qs) = run_ops step (run_ops step s ps) qs"
  by (induction ps arbitrary: s) simp_all

lemma ops_ok_True [simp]: "ops_ok (\<lambda>_ _. True) step s ps"
  by (induction ps arbitrary: s) simp_all

locale op_machine =
  fixes step :: "'s \<Rightarrow> 'o \<Rightarrow> 's"
    and ok :: "'s \<Rightarrow> 'o \<Rightarrow> bool"
    and inv :: "'s \<Rightarrow> bool"
  assumes step_inv: "inv s \<Longrightarrow> ok s p \<Longrightarrow> inv (step s p)"
begin

lemma run_inv: "inv s \<Longrightarrow> ops_ok ok step s ps \<Longrightarrow> inv (run_ops step s ps)"
  by (induction ps arbitrary: s) (auto dest: step_inv)

lemma run_measure_le:
  assumes "inv s" and "ops_ok ok step s ps"
    and "\<And>s p. inv s \<Longrightarrow> ok s p \<Longrightarrow> f (step s p) \<le> (f s :: nat)"
  shows "f (run_ops step s ps) \<le> f s"
  using assms(1,2)
proof (induction ps arbitrary: s)
  case Nil
  then show ?case by simp
next
  case (Cons p ps)
  then have "f (run_ops step (step s p) ps) \<le> f (step s p)"
    by (auto dest: step_inv)
  also have "\<dots> \<le> f s"
    using Cons.prems assms(3) by simp
  finally show ?case by simp
qed

end

end
