(* ===== verification/Wire.thy ===== *)
theory Wire
  imports Interfaces
begin

text \<open>
  The framing layer of wire protocol v2 and its hello negotiation
  (\<open>pkg/proto/wire/wire.go\<close>, \<open>pkg/proto/wire/crypto.go\<close>). A connection is the bytes still to
  be read, the bytes written so far and, for writes that fail, the number of bytes the peer
  will still take. Random bytes, the CPU feature flags, JSON and SHA-256 are arguments of the
  definitions that use them.
\<close>

section \<open>Reader and writer\<close>

datatype wire_err =
    EOF
  | ErrUnexpectedEOF
  | ErrWrite
  | UnsupportedFlags "16 word"
  | PayloadTooLong nat "32 word"
  | UnexpectedFrameType "16 word" "16 word"
  | ErrJSON
  | ErrMessageCodec string
  | ErrUDPCodec string
  | ErrUDPCodecNotAdvertised string
  | ErrRandomLen nat
  | ErrNoAlgorithm
  | ErrUnknownAlgorithm string
  | ErrAlgorithmNotAdvertised string
  | ErrRandom

record rwc =
  rd :: bytes
  wr :: bytes
  room :: "nat option"

text \<open>\<open>io.ReadFull\<close>: nothing read at the end of the input is EOF, a partial read is not.\<close>

definition ReadFull :: "rwc \<Rightarrow> nat \<Rightarrow> (wire_err + bytes) \<times> rwc" where
  "ReadFull c n =
     (if n \<le> length (rd c) then (Inr (take n (rd c)), c\<lparr>rd := drop n (rd c)\<rparr>)
      else (Inl (if rd c = [] then EOF else ErrUnexpectedEOF), c\<lparr>rd := []\<rparr>))"

definition WriteAll :: "rwc \<Rightarrow> bytes \<Rightarrow> wire_err option \<times> rwc" where
  "WriteAll c bs =
     (case room c of
        None \<Rightarrow> (None, c\<lparr>wr := wr c @ bs\<rparr>)
      | Some k \<Rightarrow>
          if length bs \<le> k then (None, c\<lparr>wr := wr c @ bs, room := Some (k - length bs)\<rparr>)
          else (Some ErrWrite, c\<lparr>wr := wr c @ take k bs, room := Some 0\<rparr>))"

section \<open>Frames\<close>

record Frame =
  Type :: "16 word"
  Flags :: "16 word"
  Payload :: bytes

record Conn =
  rw :: rwc
  maxFramePayloadSize :: "32 word"

definition DefaultMaxFramePayloadSize :: "32 word" where
  "DefaultMaxFramePayloadSize = 64 * 1024"

definition NewConn :: "rwc \<Rightarrow> Conn" where
  "NewConn c = \<lparr>rw = c, maxFramePayloadSize = DefaultMaxFramePayloadSize\<rparr>"

definition ReadFrame :: "Conn \<Rightarrow> (wire_err + Frame) \<times> Conn" where
  "ReadFrame c =
     (case ReadFull (rw c) 8 of
        (Inl e, r) \<Rightarrow> (Inl e, c\<lparr>rw := r\<rparr>)
      | (Inr header, r) \<Rightarrow>
          let frameType = Uint16 header;
              flags = Uint16 (drop 2 header);
              len = Uint32 (drop 4 header)
          in if flags \<noteq> 0 then (Inl (UnsupportedFlags flags), c\<lparr>rw := r\<rparr>)
             else if maxFramePayloadSize c < len
             then (Inl (PayloadTooLong (unat len) (maxFramePayloadSize c)), c\<lparr>rw := r\<rparr>)
             else (case ReadFull r (unat len) of
                     (Inl e, r') \<Rightarrow> (Inl e, c\<lparr>rw := r'\<rparr>)
                   | (Inr payload, r') \<Rightarrow>
                       (Inr \<lparr>Type = frameType, Flags = flags, Payload = payload\<rparr>, c\<lparr>rw := r'\<rparr>)))"

definition WriteFrame :: "Conn \<Rightarrow> Frame \<Rightarrow> wire_err option \<times> Conn" where
  "WriteFrame c f =
     (if Flags f \<noteq> 0 then (Some (UnsupportedFlags (Flags f)), c)
      else if unat (maxFramePayloadSize c) < length (Payload f)
      then (Some (PayloadTooLong (length (Payload f)) (maxFramePayloadSize c)), c)
      else let header = PutUint16 (Type f) @ PutUint16 (Flags f) @
                        PutUint32 (word_of_nat (length (Payload f)))
           in (case WriteAll (rw c) header of
                 (Some e, w) \<Rightarrow> (Some e, c\<lparr>rw := w\<rparr>)
               | (None, w) \<Rightarrow>
                   (case WriteAll w (Payload f) of (err, w') \<Rightarrow> (err, c\<lparr>rw := w'\<rparr>))))"

text \<open>JSON frames: \<open>marshal\<close> and \<open>unmarshal\<close> stand for \<open>json.Marshal\<close> and \<open>json.Unmarshal\<close>.\<close>

definition UnmarshalFrame :: "(bytes \<Rightarrow> 'a option) \<Rightarrow> Frame \<Rightarrow> wire_err + 'a" where
  "UnmarshalFrame unmarshal f = (case unmarshal (Payload f) of None \<Rightarrow> Inl ErrJSON | Some x \<Rightarrow> Inr x)"

definition ReadJSONFrame :: "(bytes \<Rightarrow> 'a option) \<Rightarrow> Conn \<Rightarrow> 16 word \<Rightarrow> (wire_err + 'a) \<times> Conn" where
  "ReadJSONFrame unmarshal c frameType =
     (case ReadFrame c of
        (Inl e, c') \<Rightarrow> (Inl e, c')
      | (Inr f, c') \<Rightarrow>
          if Type f \<noteq> frameType then (Inl (UnexpectedFrameType (Type f) frameType), c')
          else (UnmarshalFrame unmarshal f, c'))"

definition NewJSONFrame :: "('a \<Rightarrow> bytes option) \<Rightarrow> 16 word \<Rightarrow> 'a \<Rightarrow> wire_err + Frame" where
  "NewJSONFrame marshal frameType x =
     (case marshal x of
        None \<Rightarrow> Inl ErrJSON
      | Some payload \<Rightarrow> Inr \<lparr>Type = frameType, Flags = 0, Payload = payload\<rparr>)"

definition WriteJSONFrame ::
    "('a \<Rightarrow> bytes option) \<Rightarrow> Conn \<Rightarrow> 16 word \<Rightarrow> 'a \<Rightarrow> wire_err option \<times> Conn" where
  "WriteJSONFrame marshal c frameType x =
     (case NewJSONFrame marshal frameType x of
        Inl e \<Rightarrow> (Some e, c)
      | Inr f \<Rightarrow> WriteFrame c f)"

section \<open>The protocol magic\<close>

definition ProtocolV2 :: string where "ProtocolV2 = ''v2''"

definition MagicV2 :: bytes where
  "MagicV2 = [0x46, 0x52, 0x50, 0x00, 0x02, 0x0D, 0x0A]"

definition WriteMagic :: "rwc \<Rightarrow> wire_err option \<times> rwc" where
  "WriteMagic w = WriteAll w MagicV2"

definition WriteMagicIfV2 :: "rwc \<Rightarrow> string \<Rightarrow> wire_err option \<times> rwc" where
  "WriteMagicIfV2 w wireProtocol =
     (if wireProtocol \<noteq> ProtocolV2 then (None, w) else WriteMagic w)"

text \<open>
  \<open>shared buf c\<close> stands for the connection of \<open>libnet.NewSharedConnSize\<close> once \<open>buf\<close> has been
  read through its reader and \<open>c\<close> is what is left of the underlying connection. The first
  component of the result is the connection to go on with and the flag \<open>isV2\<close>.
\<close>

primrec magic_mismatch :: "bytes \<Rightarrow> bytes \<Rightarrow> bool" where
  "magic_mismatch [] buf \<longleftrightarrow> False"
| "magic_mismatch (m # ms) buf \<longleftrightarrow> hd buf \<noteq> m \<or> magic_mismatch ms (tl buf)"

definition CheckMagic :: "(bytes \<Rightarrow> rwc \<Rightarrow> rwc) \<Rightarrow> rwc \<Rightarrow> wire_err + rwc \<times> bool" where
  "CheckMagic shared c =
     (case ReadFull c (length MagicV2) of
        (Inl e, _) \<Rightarrow> Inl e
      | (Inr buf, c') \<Rightarrow>
          if magic_mismatch MagicV2 buf then Inr (shared buf c', False) else Inr (c', True))"

section \<open>Hello messages\<close>

record BootstrapInfo =
  Transport :: string
  TLS :: bool
  TCPMux :: bool

record MessageCapabilities =
  Codecs :: "string list"
  UDPPacketCodecs :: "string list"

record CryptoCapabilities =
  Algorithms :: "string list"
  ClientRandom :: bytes

record ClientCapabilities =
  CapMessage :: MessageCapabilities
  CapCrypto :: CryptoCapabilities

record ClientHello =
  Bootstrap :: BootstrapInfo
  Capabilities :: ClientCapabilities

record MessageSelection =
  Codec :: string
  UDPPacketCodec :: string

record CryptoSelection =
  Algorithm :: string
  ServerRandom :: bytes

record ServerSelection =
  SelMessage :: MessageSelection
  SelCrypto :: CryptoSelection

record ServerHello =
  Selected :: ServerSelection
  Error :: string

record CryptoContext =
  CtxAlgorithm :: string
  TranscriptHash :: bytes

definition MessageCodecJSON :: string where "MessageCodecJSON = ''json''"

definition UDPPacketCodecBinary :: string where "UDPPacketCodecBinary = ''binary-v1''"

definition AEADAlgorithmAES256GCM :: string where "AEADAlgorithmAES256GCM = ''aes-256-gcm''"

definition AEADAlgorithmXChaCha20Poly1305 :: string where
  "AEADAlgorithmXChaCha20Poly1305 = ''xchacha20-poly1305''"

definition CryptoRandomSize :: nat where "CryptoRandomSize = 32"

definition supportedAEADAlgorithms :: "string list" where
  "supportedAEADAlgorithms = [AEADAlgorithmAES256GCM, AEADAlgorithmXChaCha20Poly1305]"

definition Supports :: "string list \<Rightarrow> string \<Rightarrow> bool" where
  "Supports l v \<longleftrightarrow> v \<in> set l"

definition IsSupportedAEADAlgorithm :: "string \<Rightarrow> bool" where
  "IsSupportedAEADAlgorithm a \<longleftrightarrow> Supports supportedAEADAlgorithms a"

fun SelectAEADAlgorithm :: "string list \<Rightarrow> string option" where
  "SelectAEADAlgorithm [] = None"
| "SelectAEADAlgorithm (a # as) =
     (if IsSupportedAEADAlgorithm a then Some a else SelectAEADAlgorithm as)"

text \<open>The target architecture and the CPU feature flags that \<open>golang.org/x/sys/cpu\<close> reports.\<close>

record cpu =
  GOARCH :: string
  X86_HasAES :: bool
  X86_HasPCLMULQDQ :: bool
  X86_HasSSE41 :: bool
  X86_HasSSSE3 :: bool
  ARM64_HasAES :: bool
  ARM64_HasPMULL :: bool
  S390X_HasAES :: bool
  S390X_HasAESCTR :: bool
  S390X_HasGHASH :: bool

definition hasFastAESGCM :: "cpu \<Rightarrow> bool" where
  "hasFastAESGCM m =
     (if GOARCH m = ''amd64''
      then X86_HasAES m \<and> X86_HasPCLMULQDQ m \<and> X86_HasSSE41 m \<and> X86_HasSSSE3 m
      else if GOARCH m = ''arm64'' then ARM64_HasAES m \<and> ARM64_HasPMULL m
      else if GOARCH m = ''s390x''
      then S390X_HasAES m \<and> S390X_HasAESCTR m \<and> S390X_HasGHASH m
      else if GOARCH m = ''ppc64'' \<or> GOARCH m = ''ppc64le'' then True
      else False)"

definition PreferredAEADAlgorithms :: "cpu \<Rightarrow> string list" where
  "PreferredAEADAlgorithms m =
     (if hasFastAESGCM m then [AEADAlgorithmAES256GCM, AEADAlgorithmXChaCha20Poly1305]
      else [AEADAlgorithmXChaCha20Poly1305, AEADAlgorithmAES256GCM])"

text \<open>\<open>rand n\<close> is what \<open>crypto/rand.Read\<close> puts into a buffer of \<open>n\<close> bytes, None if it fails.\<close>

definition newCryptoRandom :: "(nat \<Rightarrow> bytes option) \<Rightarrow> wire_err + bytes" where
  "newCryptoRandom rand = (case rand CryptoRandomSize of None \<Rightarrow> Inl ErrRandom | Some b \<Rightarrow> Inr b)"

definition clientHelloWithCryptoRandom :: "cpu \<Rightarrow> BootstrapInfo \<Rightarrow> bytes \<Rightarrow> ClientHello" where
  "clientHelloWithCryptoRandom m bootstrap clientRandom =
     \<lparr>Bootstrap = bootstrap,
      Capabilities =
        \<lparr>CapMessage = \<lparr>Codecs = [MessageCodecJSON], UDPPacketCodecs = [UDPPacketCodecBinary]\<rparr>,
         CapCrypto = \<lparr>Algorithms = PreferredAEADAlgorithms m, ClientRandom = clientRandom\<rparr>\<rparr>\<rparr>"

definition NewClientHello ::
    "cpu \<Rightarrow> (nat \<Rightarrow> bytes option) \<Rightarrow> BootstrapInfo \<Rightarrow> wire_err + ClientHello" where
  "NewClientHello m rand bootstrap =
     (case newCryptoRandom rand of
        Inl e \<Rightarrow> Inl e
      | Inr clientRandom \<Rightarrow> Inr (clientHelloWithCryptoRandom m bootstrap clientRandom))"

definition DefaultServerHello :: ServerHello where
  "DefaultServerHello =
     \<lparr>Selected =
        \<lparr>SelMessage = \<lparr>Codec = MessageCodecJSON, UDPPacketCodec = []\<rparr>,
         SelCrypto = \<lparr>Algorithm = [], ServerRandom = []\<rparr>\<rparr>,
      Error = []\<rparr>"

definition ValidateCryptoCapabilities :: "CryptoCapabilities \<Rightarrow> wire_err option" where
  "ValidateCryptoCapabilities c =
     (if length (ClientRandom c) \<noteq> CryptoRandomSize
      then Some (ErrRandomLen (length (ClientRandom c)))
      else if SelectAEADAlgorithm (Algorithms c) = None then Some ErrNoAlgorithm
      else None)"

definition ValidateClientHello :: "ClientHello \<Rightarrow> wire_err option" where
  "ValidateClientHello h =
     (if \<not> Supports (Codecs (CapMessage (Capabilities h))) MessageCodecJSON
      then Some (ErrMessageCodec [])
      else ValidateCryptoCapabilities (CapCrypto (Capabilities h)))"

definition selectUDPPacketCodec :: "string list \<Rightarrow> string" where
  "selectUDPPacketCodec codecs =
     (if Supports codecs UDPPacketCodecBinary then UDPPacketCodecBinary else [])"

definition NewServerHello ::
    "(nat \<Rightarrow> bytes option) \<Rightarrow> ClientHello \<Rightarrow> wire_err + ServerHello" where
  "NewServerHello rand ch =
     (case ValidateClientHello ch of
        Some e \<Rightarrow> Inl e
      | None \<Rightarrow>
          (case SelectAEADAlgorithm (Algorithms (CapCrypto (Capabilities ch))) of
             None \<Rightarrow> Inl ErrNoAlgorithm
           | Some algorithm \<Rightarrow>
               (case newCryptoRandom rand of
                  Inl e \<Rightarrow> Inl e
                | Inr serverRandom \<Rightarrow>
                    Inr \<lparr>Selected =
                           \<lparr>SelMessage =
                              \<lparr>Codec = MessageCodecJSON,
                               UDPPacketCodec =
                                 selectUDPPacketCodec (UDPPacketCodecs (CapMessage (Capabilities ch)))\<rparr>,
                            SelCrypto = \<lparr>Algorithm = algorithm, ServerRandom = serverRandom\<rparr>\<rparr>,
                         Error = []\<rparr>)))"

definition ValidateServerHelloForClient :: "ClientHello \<Rightarrow> ServerHello \<Rightarrow> wire_err option" where
  "ValidateServerHelloForClient ch sh =
     (let udp = UDPPacketCodec (SelMessage (Selected sh));
          sel = SelCrypto (Selected sh);
          cap = Capabilities ch
      in
      if Codec (SelMessage (Selected sh)) \<noteq> MessageCodecJSON
      then Some (ErrMessageCodec (Codec (SelMessage (Selected sh))))
      else if udp \<noteq> [] \<and> udp \<noteq> UDPPacketCodecBinary then Some (ErrUDPCodec udp)
      else if udp \<noteq> [] \<and> \<not> Supports (UDPPacketCodecs (CapMessage cap)) udp
      then Some (ErrUDPCodecNotAdvertised udp)
      else if \<not> IsSupportedAEADAlgorithm (Algorithm sel)
      then Some (ErrUnknownAlgorithm (Algorithm sel))
      else if \<not> Supports (Algorithms (CapCrypto cap)) (Algorithm sel)
      then Some (ErrAlgorithmNotAdvertised (Algorithm sel))
      else if length (ServerRandom sel) \<noteq> CryptoRandomSize
      then Some (ErrRandomLen (length (ServerRandom sel)))
      else None)"

section \<open>The crypto transcript\<close>

text \<open>A running hash is the bytes written to it; \<open>H\<close> is SHA-256 of the whole.\<close>

definition writeCryptoTranscriptPart :: "bytes \<Rightarrow> string \<Rightarrow> bytes \<Rightarrow> bytes" where
  "writeCryptoTranscriptPart h label payload =
     h @ [0] @ string_bytes label @ [0] @ PutUint64 (word_of_nat (length payload)) @ payload"

definition cryptoTranscript :: "bytes \<Rightarrow> bytes \<Rightarrow> bytes" where
  "cryptoTranscript clientHelloPayload serverHelloPayload =
     writeCryptoTranscriptPart
       (writeCryptoTranscriptPart (string_bytes ''frp wire v2 crypto transcript'')
          ''client hello'' clientHelloPayload)
       ''server hello'' serverHelloPayload"

definition HashCryptoTranscript :: "(bytes \<Rightarrow> bytes) \<Rightarrow> bytes \<Rightarrow> bytes \<Rightarrow> bytes" where
  "HashCryptoTranscript H clientHelloPayload serverHelloPayload =
     H (cryptoTranscript clientHelloPayload serverHelloPayload)"

definition NewCryptoContext :: "(bytes \<Rightarrow> bytes) \<Rightarrow> string \<Rightarrow> bytes \<Rightarrow> bytes \<Rightarrow> CryptoContext" where
  "NewCryptoContext H algorithm cp sp =
     \<lparr>CtxAlgorithm = algorithm, TranscriptHash = HashCryptoTranscript H cp sp\<rparr>"

definition NewClientCryptoContext ::
    "(bytes \<Rightarrow> ClientHello option) \<Rightarrow> (bytes \<Rightarrow> ServerHello option) \<Rightarrow> (bytes \<Rightarrow> bytes) \<Rightarrow>
     bytes \<Rightarrow> bytes \<Rightarrow> wire_err + CryptoContext" where
  "NewClientCryptoContext unmarshalC unmarshalS H cp sp =
     (case unmarshalC cp of
        None \<Rightarrow> Inl ErrJSON
      | Some ch \<Rightarrow>
          (case unmarshalS sp of
             None \<Rightarrow> Inl ErrJSON
           | Some sh \<Rightarrow>
               (case ValidateServerHelloForClient ch sh of
                  Some e \<Rightarrow> Inl e
                | None \<Rightarrow> Inr (NewCryptoContext H (Algorithm (SelCrypto (Selected sh))) cp sp))))"

section \<open>Frames as an encoding\<close>

definition frame_bytes :: "Frame \<Rightarrow> bytes" where
  "frame_bytes f =
     PutUint16 (Type f) @ PutUint16 (Flags f) @ PutUint32 (word_of_nat (length (Payload f))) @ Payload f"

definition frame_ok :: "32 word \<Rightarrow> Frame \<Rightarrow> bool" where
  "frame_ok m f \<longleftrightarrow> Flags f = 0 \<and> length (Payload f) \<le> unat m"

text \<open>The frame at the head of a byte stream, as a reader with payload limit \<open>m\<close> sees it.\<close>

definition recv :: "32 word \<Rightarrow> bytes \<Rightarrow> wire_err + Frame \<times> bytes" where
  "recv m bs =
     (case ReadFrame \<lparr>rw = \<lparr>rd = bs, wr = [], room = None\<rparr>, maxFramePayloadSize = m\<rparr> of
        (Inl e, _) \<Rightarrow> Inl e
      | (Inr f, c) \<Rightarrow> Inr (f, rd (rw c)))"

lemma unat_len32: "n \<le> unat (m :: 32 word) \<Longrightarrow> unat (word_of_nat n :: 32 word) = n"
  using unat_less_pow [of m] by (simp add: unat_of_nat take_bit_nat_eq_self)

lemma len32_le: "n \<le> unat (m :: 32 word) \<Longrightarrow> \<not> m < word_of_nat n"
  by (metis leD unat_len32 word_less_iff_unsigned word_less_nat_alt)

lemma ReadFrame_frame_bytes [codec]:
  assumes "frame_ok (maxFramePayloadSize c) f" and "rd (rw c) = frame_bytes f @ rest"
  shows "ReadFrame c = (Inr f, c\<lparr>rw := (rw c)\<lparr>rd := rest\<rparr>\<rparr>)"
  using assms
  by (cases f) (auto simp: ReadFrame_def ReadFull_def frame_bytes_def frame_ok_def unat_len32
    len32_le Let_def codec)

interpretation frames: prefix_codec frame_bytes "recv m" "frame_ok m" for m
  by unfold_locales (simp add: recv_def ReadFrame_frame_bytes)

text \<open>A session: a sequence of frames sent, and \<open>n\<close> frames received.\<close>

primrec WriteFrames :: "Conn \<Rightarrow> Frame list \<Rightarrow> wire_err option \<times> Conn" where
  "WriteFrames c [] = (None, c)"
| "WriteFrames c (f # fs) =
     (case WriteFrame c f of
        (Some e, c') \<Rightarrow> (Some e, c')
      | (None, c') \<Rightarrow> WriteFrames c' fs)"

primrec ReadFrames :: "Conn \<Rightarrow> nat \<Rightarrow> (wire_err + Frame list) \<times> Conn" where
  "ReadFrames c 0 = (Inr [], c)"
| "ReadFrames c (Suc n) =
     (case ReadFrame c of
        (Inl e, c') \<Rightarrow> (Inl e, c')
      | (Inr f, c') \<Rightarrow>
          (case ReadFrames c' n of
             (Inl e, c'') \<Rightarrow> (Inl e, c'')
           | (Inr fs, c'') \<Rightarrow> (Inr (f # fs), c'')))"

lemma WriteAll_SomeD: "WriteAll w bs = (None, w') \<Longrightarrow> wr w' = wr w @ bs \<and> rd w' = rd w"
  by (auto simp: WriteAll_def split: option.splits if_splits)

lemma WriteFrame_success:
  assumes "WriteFrame c f = (None, c')"
  shows "frame_ok (maxFramePayloadSize c) f \<and> wr (rw c') = wr (rw c) @ frame_bytes f \<and>
    rd (rw c') = rd (rw c) \<and> maxFramePayloadSize c' = maxFramePayloadSize c"
  using assms
  by (auto simp: WriteFrame_def frame_ok_def frame_bytes_def Let_def
      split: if_splits prod.splits option.splits dest!: WriteAll_SomeD)

lemma WriteFrames_success:
  assumes "WriteFrames c fs = (None, c')"
  shows "list_all (frame_ok (maxFramePayloadSize c)) fs \<and>
    wr (rw c') = wr (rw c) @ concat (map frame_bytes fs)"
  using assms
proof (induction fs arbitrary: c)
  case Nil
  then show ?case by simp
next
  case (Cons f fs)
  then obtain c1 where w: "WriteFrame c f = (None, c1)" "WriteFrames c1 fs = (None, c')"
    by (auto split: prod.splits option.splits)
  with Cons.IH [OF w(2)] WriteFrame_success [OF w(1)] show ?case by simp
qed

lemma ReadFrames_concat:
  assumes "list_all (frame_ok (maxFramePayloadSize d)) fs"
    and "rd (rw d) = concat (map frame_bytes fs) @ rest"
  shows "ReadFrames d (length fs) = (Inr fs, d\<lparr>rw := (rw d)\<lparr>rd := rest\<rparr>\<rparr>)"
  using assms
proof (induction fs arbitrary: d)
  case Nil
  then show ?case by simp
next
  case (Cons f fs)
  then have r: "ReadFrame d = (Inr f, d\<lparr>rw := (rw d)\<lparr>rd := concat (map frame_bytes fs) @ rest\<rparr>\<rparr>)"
    by (intro ReadFrame_frame_bytes) simp_all
  show ?case
    using Cons.IH [of "d\<lparr>rw := (rw d)\<lparr>rd := concat (map frame_bytes fs) @ rest\<rparr>\<rparr>"] Cons.prems
    by (simp add: r)
qed

lemma take_drop_split: "take a (drop b xs) @ drop (a + b) xs = drop b xs"
  by (metis append_take_drop_id drop_drop)

lemma header_eq:
  assumes "8 \<le> length bs"
  shows "bs = PutUint16 (Uint16 (take 8 bs)) @ PutUint16 (Uint16 (drop 2 (take 8 bs))) @
    PutUint32 (Uint32 (drop 4 (take 8 bs))) @ drop 8 bs"
proof -
  have "bs = take 2 bs @ take 2 (drop 2 bs) @ take 4 (drop 4 bs) @ drop 8 bs"
    using take_drop_split [of 2 0 bs] take_drop_split [of 2 2 bs] take_drop_split [of 4 4 bs]
    by simp
  then show ?thesis using assms
    by (simp add: PutUint16_Uint16 PutUint32_Uint32 take_drop min_def)
qed

lemma ReadFrame_success:
  assumes "ReadFrame c = (Inr f, c')"
  shows "frame_ok (maxFramePayloadSize c) f" and "rd (rw c) = frame_bytes f @ rd (rw c')"
    and "wr (rw c') = wr (rw c)" and "maxFramePayloadSize c' = maxFramePayloadSize c"
proof -
  let ?h = "take 8 (rd (rw c))" and ?r = "drop 8 (rd (rw c))"
  let ?n = "Uint32 (drop 4 ?h)"
  have *: "8 \<le> length (rd (rw c))" "Uint16 (drop 2 ?h) = 0" "?n \<le> maxFramePayloadSize c"
    "unat ?n \<le> length ?r" "f = \<lparr>Type = Uint16 ?h, Flags = 0, Payload = take (unat ?n) ?r\<rparr>"
    "c' = c\<lparr>rw := (rw c)\<lparr>rd := drop (unat ?n) ?r\<rparr>\<rparr>"
    using assms by (auto simp: ReadFrame_def ReadFull_def Let_def split: if_splits)
  show "frame_ok (maxFramePayloadSize c) f"
    using * by (simp add: frame_ok_def word_le_nat_alt min_def)
  have "rd (rw c) = PutUint16 (Uint16 ?h) @ PutUint16 0 @ PutUint32 ?n @ ?r"
    using header_eq [OF *(1)] *(2) by simp
  then have "rd (rw c) = PutUint16 (Uint16 ?h) @ PutUint16 0 @ PutUint32 ?n @
      take (unat ?n) ?r @ drop (unat ?n) ?r"
    by (simp only: append_take_drop_id)
  then show "rd (rw c) = frame_bytes f @ rd (rw c')"
    using *(4) unfolding *(5,6) by (simp add: frame_bytes_def min_absorb2)
  show "wr (rw c') = wr (rw c)" "maxFramePayloadSize c' = maxFramePayloadSize c"
    using * by simp_all
qed

text \<open>
  C1. Whatever sequence of frames \<open>WriteFrame\<close> accepts on a connection, a peer whose payload
  limit is the same reads back exactly that sequence with \<open>ReadFrame\<close> and is left with the
  bytes that follow.
\<close>

theorem frames_roundtrip:
  assumes "WriteFrames c fs = (None, c')"
    and "maxFramePayloadSize d = maxFramePayloadSize c"
    and "rd (rw d) = drop (length (wr (rw c))) (wr (rw c')) @ rest"
  shows "ReadFrames d (length fs) = (Inr fs, d\<lparr>rw := (rw d)\<lparr>rd := rest\<rparr>\<rparr>)"
  using WriteFrames_success [OF assms(1)] assms(2,3)
  by (intro ReadFrames_concat) simp_all

definition demo_frames :: "Frame list" where
  "demo_frames = [\<lparr>Type = 1, Flags = 0, Payload = [123, 125]\<rparr>,
                  \<lparr>Type = 16, Flags = 0, Payload = []\<rparr>, \<lparr>Type = 16, Flags = 0, Payload = [0, 9, 255]\<rparr>]"

definition idle :: rwc where "idle = \<lparr>rd = [], wr = [], room = None\<rparr>"

lemma demo_frames_written:
  "WriteFrames (NewConn idle) demo_frames =
     (None, NewConn (idle\<lparr>wr := concat (map frame_bytes demo_frames)\<rparr>))"
  by (simp add: NewConn_def idle_def demo_frames_def WriteFrame_def WriteAll_def frame_bytes_def
      DefaultMaxFramePayloadSize_def Let_def)

theorem frames_roundtrip_witness:
  "ReadFrames (NewConn (idle\<lparr>rd := concat (map frame_bytes demo_frames) @ [7]\<rparr>)) (length demo_frames) =
     (Inr demo_frames, NewConn (idle\<lparr>rd := [7]\<rparr>))"
  using frames_roundtrip [OF demo_frames_written,
      of "NewConn (idle\<lparr>rd := concat (map frame_bytes demo_frames) @ [7]\<rparr>)" "[7]"]
  by (simp add: NewConn_def idle_def)

text \<open>
  A frame that \<open>ReadFrame\<close> returns has no flags and a payload within the limit of the
  connection, and the bytes taken from the stream are exactly its encoding: a hostile length
  or flag field is refused, and a frame has only one encoding that is accepted.
\<close>

lemma ReadFrame_sound:
  assumes "ReadFrame c = (Inr f, c')"
  shows "Flags f = 0 \<and> length (Payload f) \<le> unat (maxFramePayloadSize c) \<and>
    rd (rw c) = frame_bytes f @ rd (rw c') \<and> wr (rw c') = wr (rw c)"
  using ReadFrame_success [OF assms] by (simp add: frame_ok_def)

theorem ReadFrame_sound_witness:
  "rd (rw (NewConn (idle\<lparr>rd := [0, 16, 0, 0, 0, 0, 0, 1, 65, 66]\<rparr>))) =
     frame_bytes \<lparr>Type = 16, Flags = 0, Payload = [65]\<rparr> @ [66]"
proof -
  have "ReadFrame (NewConn (idle\<lparr>rd := [0, 16, 0, 0, 0, 0, 0, 1, 65, 66]\<rparr>)) =
      (Inr \<lparr>Type = 16, Flags = 0, Payload = [65]\<rparr>, NewConn (idle\<lparr>rd := [66]\<rparr>))"
    by code_simp
  from ReadFrame_sound [OF this] show ?thesis by (simp add: NewConn_def idle_def)
qed

section \<open>Properties of the negotiation\<close>

lemma SelectAEADAlgorithm_SomeD:
  "SelectAEADAlgorithm as = Some a \<Longrightarrow>
     IsSupportedAEADAlgorithm a \<and> (\<exists>bs cs. as = bs @ a # cs \<and> \<not> list_ex IsSupportedAEADAlgorithm bs)"
proof (induction as)
  case Nil
  then show ?case by simp
next
  case (Cons x xs)
  show ?case
  proof (cases "IsSupportedAEADAlgorithm x")
    case True
    with Cons.prems have "x = a" by simp
    with True have "IsSupportedAEADAlgorithm a \<and> x # xs = [] @ a # xs \<and> \<not> list_ex IsSupportedAEADAlgorithm []"
      by simp
    then show ?thesis by blast
  next
    case False
    with Cons obtain bs cs where "xs = bs @ a # cs" "\<not> list_ex IsSupportedAEADAlgorithm bs"
      "IsSupportedAEADAlgorithm a" by auto
    with False have "x # xs = (x # bs) @ a # cs \<and> \<not> list_ex IsSupportedAEADAlgorithm (x # bs)" by simp
    with \<open>IsSupportedAEADAlgorithm a\<close> show ?thesis by blast
  qed
qed

lemma NewServerHello_accepted:
  assumes "NewServerHello rand ch = Inr sh" and "\<And>n b. rand n = Some b \<Longrightarrow> length b = n"
  shows "ValidateServerHelloForClient ch sh = None"
    and "SelectAEADAlgorithm (Algorithms (CapCrypto (Capabilities ch))) = Some (Algorithm (SelCrypto (Selected sh)))"
proof -
  obtain a b where *: "SelectAEADAlgorithm (Algorithms (CapCrypto (Capabilities ch))) = Some a"
    "rand CryptoRandomSize = Some b"
    "sh = \<lparr>Selected = \<lparr>SelMessage = \<lparr>Codec = MessageCodecJSON, UDPPacketCodec =
           selectUDPPacketCodec (UDPPacketCodecs (CapMessage (Capabilities ch)))\<rparr>,
           SelCrypto = \<lparr>Algorithm = a, ServerRandom = b\<rparr>\<rparr>, Error = []\<rparr>"
    using assms(1) by (auto simp: NewServerHello_def newCryptoRandom_def split: option.splits sum.splits)
  from SelectAEADAlgorithm_SomeD [OF *(1)] have "IsSupportedAEADAlgorithm a"
    "a \<in> set (Algorithms (CapCrypto (Capabilities ch)))" by auto
  with *(3) assms(2) [OF *(2)] show "ValidateServerHelloForClient ch sh = None"
    by (simp add: ValidateServerHelloForClient_def Let_def Supports_def selectUDPPacketCodec_def
        UDPPacketCodecBinary_def)
  show "SelectAEADAlgorithm (Algorithms (CapCrypto (Capabilities ch))) = Some (Algorithm (SelCrypto (Selected sh)))"
    using * by simp
qed

lemma NewServerHello_ValidateClientHello:
  assumes "ValidateClientHello ch = None" and "rand CryptoRandomSize \<noteq> None"
  obtains sh where "NewServerHello rand ch = Inr sh"
  using assms that
  by (auto simp: NewServerHello_def ValidateClientHello_def ValidateCryptoCapabilities_def
      newCryptoRandom_def split: if_splits)

text \<open>
  The hello exchange agrees for every client the server accepts: whenever the server
  answers a client hello, the client's own check of the answer passes, and the algorithm in
  use is the first one of the client's list that is supported. The hypothesis on \<open>rand\<close> is
  what \<open>crypto/rand.Read\<close> documents: it fills the whole buffer.
\<close>

lemma hello_agreement:
  assumes "NewServerHello rand ch = Inr sh" and "\<And>n b. rand n = Some b \<Longrightarrow> length b = n"
  shows "ValidateServerHelloForClient ch sh = None \<and>
    (\<exists>bs cs. Algorithms (CapCrypto (Capabilities ch)) = bs @ Algorithm (SelCrypto (Selected sh)) # cs \<and>
       \<not> list_ex IsSupportedAEADAlgorithm bs \<and>
       IsSupportedAEADAlgorithm (Algorithm (SelCrypto (Selected sh))))"
  using NewServerHello_accepted [OF assms] SelectAEADAlgorithm_SomeD by blast

definition demo_rand :: "nat \<Rightarrow> bytes option" where "demo_rand n = Some (replicate n 7)"

definition demo_hello :: ClientHello where
  "demo_hello =
     \<lparr>Bootstrap = \<lparr>Transport = ''tcp'', TLS = True, TCPMux = True\<rparr>,
      Capabilities = \<lparr>CapMessage = \<lparr>Codecs = [''json''], UDPPacketCodecs = []\<rparr>,
        CapCrypto = \<lparr>Algorithms = [''rot13'', ''xchacha20-poly1305'', ''aes-256-gcm''],
          ClientRandom = replicate 32 1\<rparr>\<rparr>\<rparr>"

definition demo_server_hello :: ServerHello where
  "demo_server_hello =
     \<lparr>Selected = \<lparr>SelMessage = \<lparr>Codec = ''json'', UDPPacketCodec = []\<rparr>,
        SelCrypto = \<lparr>Algorithm = ''xchacha20-poly1305'', ServerRandom = replicate 32 7\<rparr>\<rparr>, Error = []\<rparr>"

theorem hello_agreement_witness:
  "NewServerHello demo_rand demo_hello = Inr demo_server_hello \<and>
   ValidateServerHelloForClient demo_hello demo_server_hello = None"
proof -
  have *: "NewServerHello demo_rand demo_hello = Inr demo_server_hello" by code_simp
  from hello_agreement [OF *] * show ?thesis by (auto simp: demo_rand_def)
qed

text \<open>
  Between a client and a server of this code base the negotiation always succeeds: the
  hello that \<open>NewClientHello\<close> builds is accepted, the answer passes the client's check, the
  selected algorithm is the client's first preference for its hardware, and the binary UDP
  codec is selected.
\<close>

lemma hello_negotiation:
  assumes "randC CryptoRandomSize \<noteq> None" and "randS CryptoRandomSize \<noteq> None"
    and "\<And>n b. randC n = Some b \<Longrightarrow> length b = n" and "\<And>n b. randS n = Some b \<Longrightarrow> length b = n"
  shows "\<exists>ch sh. NewClientHello m randC bootstrap = Inr ch \<and> NewServerHello randS ch = Inr sh \<and>
    ValidateServerHelloForClient ch sh = None \<and>
    Algorithm (SelCrypto (Selected sh)) = hd (PreferredAEADAlgorithms m) \<and>
    UDPPacketCodec (SelMessage (Selected sh)) = UDPPacketCodecBinary"
proof -
  obtain rc where rc: "randC CryptoRandomSize = Some rc" "length rc = CryptoRandomSize"
    using assms(1,3) by blast
  let ?ch = "clientHelloWithCryptoRandom m bootstrap rc"
  have ch: "NewClientHello m randC bootstrap = Inr ?ch"
    by (simp add: NewClientHello_def newCryptoRandom_def rc)
  have sel: "SelectAEADAlgorithm (PreferredAEADAlgorithms m) = Some (hd (PreferredAEADAlgorithms m))"
    by (simp add: PreferredAEADAlgorithms_def IsSupportedAEADAlgorithm_def Supports_def supportedAEADAlgorithms_def)
  have "ValidateClientHello ?ch = None"
    by (simp add: ValidateClientHello_def ValidateCryptoCapabilities_def rc sel Supports_def clientHelloWithCryptoRandom_def)
  then obtain sh where sh: "NewServerHello randS ?ch = Inr sh"
    using assms(2) by (rule NewServerHello_ValidateClientHello)
  moreover have "UDPPacketCodec (SelMessage (Selected sh)) = UDPPacketCodecBinary"
    using sh by (auto simp: NewServerHello_def clientHelloWithCryptoRandom_def selectUDPPacketCodec_def
        Supports_def split: option.splits sum.splits)
  ultimately show ?thesis
    using NewServerHello_accepted [OF sh assms(4)] ch sel by (auto simp: clientHelloWithCryptoRandom_def)
qed

definition demo_cpu :: cpu where
  "demo_cpu = \<lparr>GOARCH = ''arm64'', X86_HasAES = False, X86_HasPCLMULQDQ = False, X86_HasSSE41 = False,
     X86_HasSSSE3 = False, ARM64_HasAES = True, ARM64_HasPMULL = True, S390X_HasAES = False,
     S390X_HasAESCTR = False, S390X_HasGHASH = False\<rparr>"

theorem hello_negotiation_witness:
  "\<exists>ch sh. NewClientHello demo_cpu demo_rand \<lparr>Transport = ''tcp'', TLS = True, TCPMux = True\<rparr> = Inr ch \<and>
     NewServerHello demo_rand ch = Inr sh \<and> ValidateServerHelloForClient ch sh = None \<and>
     Algorithm (SelCrypto (Selected sh)) = ''aes-256-gcm''"
  using hello_negotiation [of demo_rand demo_rand demo_cpu "\<lparr>Transport = ''tcp'', TLS = True, TCPMux = True\<rparr>"]
  by (auto simp: demo_rand_def PreferredAEADAlgorithms_def hasFastAESGCM_def demo_cpu_def
      AEADAlgorithmAES256GCM_def)

lemma writeCryptoTranscriptPart_inject:
  assumes "length p < 2 ^ 64" and "length q < 2 ^ 64"
    and "writeCryptoTranscriptPart h l p @ r = writeCryptoTranscriptPart h l q @ s"
  shows "p = q \<and> r = s"
proof -
  have *: "PutUint64 (word_of_nat (length p)) @ p @ r = PutUint64 (word_of_nat (length q)) @ q @ s"
    using assms(3) by (simp add: writeCryptoTranscriptPart_def)
  then have "(word_of_nat (length p) :: 64 word) = word_of_nat (length q)"
    by (metis Uint64_PutUint64)
  moreover have "unat (word_of_nat (length p) :: 64 word) = length p"
    "unat (word_of_nat (length q) :: 64 word) = length q"
    using assms(1,2) by (simp_all add: unat_of_nat take_bit_nat_eq_self)
  ultimately have "length p = length q" by metis
  with * show ?thesis by simp
qed

text \<open>
  C2. The crypto transcript binds both hello payloads: two exchanges that hash to the same
  value either are the same exchange or exhibit a collision of the hash on two different
  preimages. No shifting of bytes between the client's and the server's payload goes
  unnoticed. A Go slice is shorter than \<open>2 ^ 63\<close>.
\<close>

theorem transcript_binding:
  assumes "length cp < 2 ^ 63" and "length sp < 2 ^ 63" and "length cp' < 2 ^ 63" and "length sp' < 2 ^ 63"
    and "HashCryptoTranscript H cp sp = HashCryptoTranscript H cp' sp'"
  shows "(cp = cp' \<and> sp = sp') \<or>
    (cryptoTranscript cp sp \<noteq> cryptoTranscript cp' sp' \<and>
     H (cryptoTranscript cp sp) = H (cryptoTranscript cp' sp'))"
proof (cases "cryptoTranscript cp sp = cryptoTranscript cp' sp'")
  case True
  define part where "part q = [0] @ string_bytes ''server hello'' @ [0] @ PutUint64 (word_of_nat (length q)) @ q" for q :: bytes
  define lab where "lab = string_bytes ''frp wire v2 crypto transcript''"
  have "writeCryptoTranscriptPart lab ''client hello'' cp @ part sp =
        writeCryptoTranscriptPart lab ''client hello'' cp' @ part sp'"
    using True by (simp add: cryptoTranscript_def writeCryptoTranscriptPart_def part_def lab_def)
  then have "cp = cp' \<and> part sp = part sp'"
    using assms by (intro writeCryptoTranscriptPart_inject) simp_all
  moreover from this have "sp = sp'"
    using assms writeCryptoTranscriptPart_inject [of sp sp' "[]" "''server hello''" "[]" "[]"]
    by (simp add: part_def writeCryptoTranscriptPart_def)
  ultimately show ?thesis by simp
next
  case False
  with assms(5) show ?thesis by (simp add: HashCryptoTranscript_def)
qed

theorem transcript_binding_witness:
  "HashCryptoTranscript (\<lambda>b. b) [1, 2] [3] \<noteq> HashCryptoTranscript (\<lambda>b. b) [1] [2, 3]"
  using transcript_binding [of "[1, 2]" "[3]" "[1]" "[2, 3]" "\<lambda>b. b"] by auto

section \<open>The magic dispatch\<close>

lemma magic_mismatch_iff: "length buf = length ms \<Longrightarrow> magic_mismatch ms buf \<longleftrightarrow> buf \<noteq> ms"
  by (induction ms arbitrary: buf) (auto simp: length_Suc_conv)

text \<open>
  \<open>CheckMagic\<close> tells the two wire protocols apart without losing input: it reports v2
  exactly when the stream starts with the magic and then hands over what follows the magic;
  otherwise it hands over a connection that delivers the whole stream from its first byte. It
  fails exactly when the stream is shorter than the magic. The hypothesis is what
  \<open>libnet.NewSharedConnSize\<close> is for: the shared connection first delivers what was read
  through its reader.
\<close>

lemma CheckMagic_correct:
  assumes "\<And>buf c. rd (shared buf c) = buf @ rd c"
  shows "(case CheckMagic shared c of
            Inl e \<Rightarrow> length (rd c) < 7
          | Inr (c', isV2) \<Rightarrow>
              7 \<le> length (rd c) \<and> isV2 = (take 7 (rd c) = MagicV2) \<and>
              rd c' = (if isV2 then drop 7 (rd c) else rd c))"
proof -
  have "length MagicV2 = 7" by (simp add: MagicV2_def)
  moreover have "7 \<le> length (rd c) \<Longrightarrow>
      magic_mismatch MagicV2 (take 7 (rd c)) \<longleftrightarrow> take 7 (rd c) \<noteq> MagicV2"
    by (rule magic_mismatch_iff) (simp add: MagicV2_def)
  ultimately show ?thesis
    by (auto simp: CheckMagic_def ReadFull_def assms)
qed

theorem CheckMagic_correct_witness:
  "\<exists>c'. CheckMagic (\<lambda>buf c. c\<lparr>rd := buf @ rd c\<rparr>) (idle\<lparr>rd := [111, 0, 0, 0, 0, 0, 1, 2]\<rparr>) = Inr (c', False) \<and>
     rd c' = [111, 0, 0, 0, 0, 0, 1, 2]"
  using CheckMagic_correct [of "\<lambda>buf c. c\<lparr>rd := buf @ rd c\<rparr>" "idle\<lparr>rd := [111, 0, 0, 0, 0, 0, 1, 2]\<rparr>"]
  by (auto simp: MagicV2_def split: sum.splits prod.splits)

end
