(* ===== verification/Msg.thy ===== *)
theory Msg
  imports Wire "HOL-Library.Multiset"
begin

text \<open>
  The control messages (\<open>pkg/msg/msg.go\<close>) and their wire protocol v2 codec
  (\<open>pkg/msg/wire_v2.go\<close>). Every message struct is a record, \<open>Message\<close> is the union of them,
  \<open>rtype\<close> their \<open>reflect.Type\<close>. \<open>encoding/json\<close> is a pair of arguments: \<open>marshal\<close> and
  \<open>unmarshal\<close>, the latter filling a given value of the target type.
\<close>

section \<open>Messages\<close>

type_synonym str_map = "string \<rightharpoonup> string"

record UDPAddr =
  IP :: bytes
  Port :: int
  Zone :: string

record ClientSpec =
  cs_Type :: string
  cs_AlwaysAuthPass :: bool

record Login =
  lg_XTCPBindingProtocol :: string
  lg_Version :: string
  lg_Hostname :: string
  lg_Os :: string
  lg_Arch :: string
  lg_User :: string
  lg_PrivilegeKey :: string
  lg_Timestamp :: int
  lg_RunID :: string
  lg_ClientID :: string
  lg_Metas :: str_map
  lg_ClientSpec :: ClientSpec
  lg_PoolCount :: int

record LoginResp =
  lr_XTCPControlID :: bytes
  lr_Version :: string
  lr_RunID :: string
  lr_Error :: string

record NewProxy =
  np_ProxyName :: string
  np_ProxyType :: string
  np_UseEncryption :: bool
  np_UseCompression :: bool
  np_BandwidthLimit :: string
  np_BandwidthLimitMode :: string
  np_Group :: string
  np_GroupKey :: string
  np_Metas :: str_map
  np_Annotations :: str_map
  np_RemotePort :: int
  np_CustomDomains :: "string list"
  np_SubDomain :: string
  np_Locations :: "string list"
  np_HTTPUser :: string
  np_HTTPPwd :: string
  np_HostHeaderRewrite :: string
  np_Headers :: str_map
  np_ResponseHeaders :: str_map
  np_RouteByHTTPUser :: string
  np_Sk :: string
  np_AllowUsers :: "string list"
  np_Multiplexer :: string

record NewProxyResp =
  nr_ProxyName :: string
  nr_RemoteAddr :: string
  nr_Error :: string

record CloseProxy =
  cp_ProxyName :: string

record NewWorkConn =
  nw_RunID :: string
  nw_PrivilegeKey :: string
  nw_Timestamp :: int

record StartWorkConn =
  sw_ProxyName :: string
  sw_SrcAddr :: string
  sw_DstAddr :: string
  sw_SrcPort :: "16 word"
  sw_DstPort :: "16 word"
  sw_Error :: string

record NewVisitorConn =
  nv_RunID :: string
  nv_ProxyName :: string
  nv_SignKey :: string
  nv_Timestamp :: int
  nv_UseEncryption :: bool
  nv_UseCompression :: bool

record NewVisitorConnResp =
  vr_ProxyName :: string
  vr_Error :: string

record Ping =
  pi_PrivilegeKey :: string
  pi_Timestamp :: int

record Pong =
  po_Error :: string

record UDPPacket =
  Content :: bytes
  LocalAddr :: "UDPAddr option"
  RemoteAddr :: "UDPAddr option"

record NatHoleVisitor =
  hv_ControlID :: bytes
  hv_Nonce :: bytes
  hv_SPKISHA256 :: bytes
  hv_Certificate :: bytes
  hv_SignalProof :: bytes
  hv_TransactionID :: string
  hv_ProxyName :: string
  hv_PreCheck :: bool
  hv_Protocol :: string
  hv_SignKey :: string
  hv_Timestamp :: int
  hv_MappedAddrs :: "string list"
  hv_AssistedAddrs :: "string list"

record NatHoleClient =
  hc_ControlID :: bytes
  hc_Nonce :: bytes
  hc_SPKISHA256 :: bytes
  hc_Certificate :: bytes
  hc_SignalProof :: bytes
  hc_Timestamp :: int
  hc_TransactionID :: string
  hc_ProxyName :: string
  hc_Sid :: string
  hc_MappedAddrs :: "string list"
  hc_AssistedAddrs :: "string list"

record PortsRange =
  From :: int
  To :: int

record NatHoleDetectBehavior =
  Role :: string
  Mode :: int
  TTL :: int
  SendDelayMs :: int
  ReadTimeoutMs :: int
  CandidatePorts :: "PortsRange list"
  SendRandomPorts :: int
  ListenRandomPorts :: int

record NatHoleResp =
  hr_BindingManifest :: bytes
  hr_PeerCertificate :: bytes
  hr_TransactionID :: string
  hr_Sid :: string
  hr_Protocol :: string
  hr_CandidateAddrs :: "string list"
  hr_AssistedAddrs :: "string list"
  hr_DetectBehavior :: NatHoleDetectBehavior
  hr_Error :: string

record NatHoleSid =
  hs_TransactionID :: string
  hs_Sid :: string
  hs_Response :: bool
  hs_Nonce :: string

record NatHoleReport =
  rp_Sid :: string
  rp_Success :: bool

datatype Message =
    MLogin Login
  | MLoginResp LoginResp
  | MNewProxy NewProxy
  | MNewProxyResp NewProxyResp
  | MCloseProxy CloseProxy
  | MNewWorkConn NewWorkConn
  | MReqWorkConn
  | MStartWorkConn StartWorkConn
  | MNewVisitorConn NewVisitorConn
  | MNewVisitorConnResp NewVisitorConnResp
  | MPing Ping
  | MPong Pong
  | MUDPPacket UDPPacket
  | MNatHoleVisitor NatHoleVisitor
  | MNatHoleClient NatHoleClient
  | MNatHoleResp NatHoleResp
  | MNatHoleSid NatHoleSid
  | MNatHoleReport NatHoleReport

text \<open>The \<open>reflect.Type\<close> of a struct; \<open>TOther\<close> is any type that is not a message.\<close>

datatype rtype =
    TLogin | TLoginResp | TNewProxy | TNewProxyResp | TCloseProxy | TNewWorkConn | TReqWorkConn
  | TStartWorkConn | TNewVisitorConn | TNewVisitorConnResp | TPing | TPong | TUDPPacket
  | TNatHoleVisitor | TNatHoleClient | TNatHoleResp | TNatHoleSid | TNatHoleReport
  | TOther string

fun rtype_of :: "Message \<Rightarrow> rtype" where
  "rtype_of (MLogin _) = TLogin"
| "rtype_of (MLoginResp _) = TLoginResp"
| "rtype_of (MNewProxy _) = TNewProxy"
| "rtype_of (MNewProxyResp _) = TNewProxyResp"
| "rtype_of (MCloseProxy _) = TCloseProxy"
| "rtype_of (MNewWorkConn _) = TNewWorkConn"
| "rtype_of MReqWorkConn = TReqWorkConn"
| "rtype_of (MStartWorkConn _) = TStartWorkConn"
| "rtype_of (MNewVisitorConn _) = TNewVisitorConn"
| "rtype_of (MNewVisitorConnResp _) = TNewVisitorConnResp"
| "rtype_of (MPing _) = TPing"
| "rtype_of (MPong _) = TPong"
| "rtype_of (MUDPPacket _) = TUDPPacket"
| "rtype_of (MNatHoleVisitor _) = TNatHoleVisitor"
| "rtype_of (MNatHoleClient _) = TNatHoleClient"
| "rtype_of (MNatHoleResp _) = TNatHoleResp"
| "rtype_of (MNatHoleSid _) = TNatHoleSid"
| "rtype_of (MNatHoleReport _) = TNatHoleReport"

text \<open>The zero value of a message type; a type that is no message never reaches a decoder.\<close>

fun fresh :: "rtype \<Rightarrow> Message option" where
  "fresh TLogin = Some (MLogin \<lparr>lg_XTCPBindingProtocol = [], lg_Version = [], lg_Hostname = [],
       lg_Os = [], lg_Arch = [], lg_User = [], lg_PrivilegeKey = [], lg_Timestamp = 0, lg_RunID =
       [], lg_ClientID = [], lg_Metas = Map.empty, lg_ClientSpec = \<lparr>cs_Type = [],
       cs_AlwaysAuthPass = False\<rparr>, lg_PoolCount = 0\<rparr>)"
| "fresh TLoginResp = Some (MLoginResp \<lparr>lr_XTCPControlID = [], lr_Version = [], lr_RunID = [],
       lr_Error = []\<rparr>)"
| "fresh TNewProxy = Some (MNewProxy \<lparr>np_ProxyName = [], np_ProxyType = [], np_UseEncryption =
       False, np_UseCompression = False, np_BandwidthLimit = [], np_BandwidthLimitMode = [],
       np_Group = [], np_GroupKey = [], np_Metas = Map.empty, np_Annotations = Map.empty,
       np_RemotePort = 0, np_CustomDomains = [], np_SubDomain = [], np_Locations = [], np_HTTPUser =
       [], np_HTTPPwd = [], np_HostHeaderRewrite = [], np_Headers = Map.empty, np_ResponseHeaders =
       Map.empty, np_RouteByHTTPUser = [], np_Sk = [], np_AllowUsers = [], np_Multiplexer =
       []\<rparr>)"
| "fresh TNewProxyResp = Some (MNewProxyResp \<lparr>nr_ProxyName = [], nr_RemoteAddr = [], nr_Error =
       []\<rparr>)"
| "fresh TCloseProxy = Some (MCloseProxy \<lparr>cp_ProxyName = []\<rparr>)"
| "fresh TNewWorkConn = Some (MNewWorkConn \<lparr>nw_RunID = [], nw_PrivilegeKey = [], nw_Timestamp =
       0\<rparr>)"
| "fresh TReqWorkConn = Some (MReqWorkConn)"
| "fresh TStartWorkConn = Some (MStartWorkConn \<lparr>sw_ProxyName = [], sw_SrcAddr = [], sw_DstAddr
       = [], sw_SrcPort = 0, sw_DstPort = 0, sw_Error = []\<rparr>)"
| "fresh TNewVisitorConn = Some (MNewVisitorConn \<lparr>nv_RunID = [], nv_ProxyName = [], nv_SignKey
       = [], nv_Timestamp = 0, nv_UseEncryption = False, nv_UseCompression = False\<rparr>)"
| "fresh TNewVisitorConnResp = Some (MNewVisitorConnResp \<lparr>vr_ProxyName = [], vr_Error =
       []\<rparr>)"
| "fresh TPing = Some (MPing \<lparr>pi_PrivilegeKey = [], pi_Timestamp = 0\<rparr>)"
| "fresh TPong = Some (MPong \<lparr>po_Error = []\<rparr>)"
| "fresh TUDPPacket = Some (MUDPPacket \<lparr>Content = [], LocalAddr = None, RemoteAddr =
       None\<rparr>)"
| "fresh TNatHoleVisitor = Some (MNatHoleVisitor \<lparr>hv_ControlID = [], hv_Nonce = [],
       hv_SPKISHA256 = [], hv_Certificate = [], hv_SignalProof = [], hv_TransactionID = [],
       hv_ProxyName = [], hv_PreCheck = False, hv_Protocol = [], hv_SignKey = [], hv_Timestamp = 0,
       hv_MappedAddrs = [], hv_AssistedAddrs = []\<rparr>)"
| "fresh TNatHoleClient = Some (MNatHoleClient \<lparr>hc_ControlID = [], hc_Nonce = [], hc_SPKISHA256
       = [], hc_Certificate = [], hc_SignalProof = [], hc_Timestamp = 0, hc_TransactionID = [],
       hc_ProxyName = [], hc_Sid = [], hc_MappedAddrs = [], hc_AssistedAddrs = []\<rparr>)"
| "fresh TNatHoleResp = Some (MNatHoleResp \<lparr>hr_BindingManifest = [], hr_PeerCertificate = [],
       hr_TransactionID = [], hr_Sid = [], hr_Protocol = [], hr_CandidateAddrs = [],
       hr_AssistedAddrs = [], hr_DetectBehavior = \<lparr>Role = [], Mode = 0, TTL = 0, SendDelayMs
       = 0, ReadTimeoutMs = 0, CandidatePorts = [], SendRandomPorts = 0, ListenRandomPorts =
       0\<rparr>, hr_Error = []\<rparr>)"
| "fresh TNatHoleSid = Some (MNatHoleSid \<lparr>hs_TransactionID = [], hs_Sid = [], hs_Response =
       False, hs_Nonce = []\<rparr>)"
| "fresh TNatHoleReport = Some (MNatHoleReport \<lparr>rp_Sid = [], rp_Success = False\<rparr>)"
| "fresh (TOther _) = None"

text \<open>
  A value of Go's interface type as the codecs receive it: nil, a struct, a pointer to a struct
  (\<open>PtrNil\<close> when the pointer is nil), or a value of a type that is no message.
\<close>

datatype any =
    AnyNil
  | Val Message
  | Ptr Message
  | PtrNil rtype
  | ValOther string

section \<open>The type table\<close>

definition FrameTypeMessage :: "16 word" where "FrameTypeMessage = 16"

definition V2TypeUDPPacket :: "16 word" where "V2TypeUDPPacket = 13"

definition V2TypeUDPPacketBinary :: "16 word" where "V2TypeUDPPacketBinary = 19"

definition v2MsgTypeMap :: "(16 word \<times> rtype) list" where
  "v2MsgTypeMap =
     [(1, TLogin), (2, TLoginResp), (3, TNewProxy), (4, TNewProxyResp), (5, TCloseProxy),
      (6, TNewWorkConn), (7, TReqWorkConn), (8, TStartWorkConn), (9, TNewVisitorConn),
      (10, TNewVisitorConnResp), (11, TPing), (12, TPong), (V2TypeUDPPacket, TUDPPacket),
      (20, TNatHoleVisitor), (21, TNatHoleClient), (22, TNatHoleResp), (23, TNatHoleSid),
      (24, TNatHoleReport)]"

text \<open>\<open>order\<close> is the order in which the \<open>range\<close> over the table delivers its entries.\<close>

definition buildV2MsgTypeMaps ::
    "(16 word \<times> rtype) list \<Rightarrow> (16 word \<rightharpoonup> rtype) \<times> (rtype \<rightharpoonup> 16 word)" where
  "buildV2MsgTypeMaps order =
     fold (\<lambda>(i, t) (rm, im). (rm(i \<mapsto> t), im(t \<mapsto> i))) order (Map.empty, Map.empty)"

definition v2MsgReflectTypeMap :: "16 word \<rightharpoonup> rtype" where
  "v2MsgReflectTypeMap = fst (buildV2MsgTypeMaps v2MsgTypeMap)"

definition v2MsgTypeIDMap :: "rtype \<rightharpoonup> 16 word" where
  "v2MsgTypeIDMap = snd (buildV2MsgTypeMaps v2MsgTypeMap)"

section \<open>Encoding and decoding\<close>

datatype msg_err =
    EWire wire_err
  | EFrameType "16 word"
  | EPayloadShort
  | EUnknownTypeID "16 word"
  | EUnknownType rtype
  | EUnexpectedType rtype rtype
  | ENotPointer
  | ENilMessage
  | EJSON
  | ENilPacket
  | ENoRemoteAddr
  | EPayloadLen nat
  | EFrameLen nat
  | EPort int
  | EIPv4Zone
  | EInvalidIP
  | EZoneLen
  | EZoneUTF8
  | EBodyShort nat
  | EReservedFlags byte
  | ETruncated string
  | ETrailing nat
  | EUnknownFamily byte
  | EJSONAfterBinary
  | EUnexpectedTypeID "16 word"
  | ECodecNeedsV2 string
  | ECodec string
  | EProtocol string

fun elem_type :: "any \<Rightarrow> rtype option" where
  "elem_type AnyNil = None"
| "elem_type (Val m) = Some (rtype_of m)"
| "elem_type (Ptr m) = Some (rtype_of m)"
| "elem_type (PtrNil t) = Some t"
| "elem_type (ValOther n) = Some (TOther n)"

definition EncodeV2MessageFrame :: "(any \<Rightarrow> bytes option) \<Rightarrow> any \<Rightarrow> msg_err + Frame" where
  "EncodeV2MessageFrame marshal m =
     (case elem_type m of
        None \<Rightarrow> Inl ENilMessage
      | Some t \<Rightarrow>
          (case v2MsgTypeIDMap t of
             None \<Rightarrow> Inl (EUnknownType t)
           | Some typeID \<Rightarrow>
               (case marshal m of
                  None \<Rightarrow> Inl EJSON
                | Some content \<Rightarrow>
                    Inr \<lparr>Type = FrameTypeMessage, Flags = 0, Payload = PutUint16 typeID @ content\<rparr>)))"

text \<open>
  \<open>unmarshal bs m\<close> is what \<open>json.Unmarshal\<close> makes of the struct \<open>m\<close>; \<open>DecodeV2MessageFrame\<close>
  passes it the zero value that \<open>reflect.New\<close> allocates.
\<close>

definition DecodeV2MessageFrame ::
    "(bytes \<Rightarrow> Message \<Rightarrow> Message option) \<Rightarrow> Frame \<Rightarrow> msg_err + any" where
  "DecodeV2MessageFrame unmarshal f =
     (if Type f \<noteq> FrameTypeMessage then Inl (EFrameType (Type f))
      else if length (Payload f) < 2 then Inl EPayloadShort
      else let typeID = Uint16 (take 2 (Payload f)) in
        (case v2MsgReflectTypeMap typeID of
           None \<Rightarrow> Inl (EUnknownTypeID typeID)
         | Some t \<Rightarrow>
             (case Option.bind (fresh t) (unmarshal (drop 2 (Payload f))) of
                None \<Rightarrow> Inl EJSON
              | Some m \<Rightarrow> Inr (Ptr m))))"

fun pointer_type :: "any \<Rightarrow> rtype option" where
  "pointer_type (Ptr m) = Some (rtype_of m)"
| "pointer_type (PtrNil t) = Some t"
| "pointer_type _ = None"

text \<open>The second component of a successful result is the target after the call.\<close>

definition DecodeV2MessageFrameInto ::
    "(bytes \<Rightarrow> Message \<Rightarrow> Message option) \<Rightarrow> Frame \<Rightarrow> any \<Rightarrow> msg_err + any" where
  "DecodeV2MessageFrameInto unmarshal f out =
     (if Type f \<noteq> FrameTypeMessage then Inl (EFrameType (Type f))
      else if length (Payload f) < 2 then Inl EPayloadShort
      else let typeID = Uint16 (take 2 (Payload f)) in
        (case pointer_type out of
           None \<Rightarrow> Inl ENotPointer
         | Some elemType \<Rightarrow>
             (case v2MsgTypeIDMap elemType of
                None \<Rightarrow> Inl (EUnknownType elemType)
              | Some expected \<Rightarrow>
                  if typeID \<noteq> expected
                  then (case v2MsgReflectTypeMap typeID of
                          None \<Rightarrow> Inl (EUnknownTypeID typeID)
                        | Some actual \<Rightarrow> Inl (EUnexpectedType actual elemType))
                  else (case out of
                          Ptr m \<Rightarrow>
                            (case unmarshal (drop 2 (Payload f)) m of
                               None \<Rightarrow> Inl EJSON
                             | Some m' \<Rightarrow> Inr (Ptr m'))
                        | _ \<Rightarrow> Inl EJSON))))"

record V2ReadWriter =
  conn :: Conn

definition NewV2ReadWriter :: "rwc \<Rightarrow> V2ReadWriter" where
  "NewV2ReadWriter c = \<lparr>conn = NewConn c\<rparr>"

definition V2_ReadMsg ::
    "(bytes \<Rightarrow> Message \<Rightarrow> Message option) \<Rightarrow> V2ReadWriter \<Rightarrow>
     (msg_err + any) \<times> V2ReadWriter" where
  "V2_ReadMsg unmarshal rwr =
     (case ReadFrame (conn rwr) of
        (Inl e, c) \<Rightarrow> (Inl (EWire e), rwr\<lparr>conn := c\<rparr>)
      | (Inr f, c) \<Rightarrow> (DecodeV2MessageFrame unmarshal f, rwr\<lparr>conn := c\<rparr>))"

definition V2_ReadMsgInto ::
    "(bytes \<Rightarrow> Message \<Rightarrow> Message option) \<Rightarrow> V2ReadWriter \<Rightarrow> any \<Rightarrow>
     (msg_err + any) \<times> V2ReadWriter" where
  "V2_ReadMsgInto unmarshal rwr out =
     (case ReadFrame (conn rwr) of
        (Inl e, c) \<Rightarrow> (Inl (EWire e), rwr\<lparr>conn := c\<rparr>)
      | (Inr f, c) \<Rightarrow> (DecodeV2MessageFrameInto unmarshal f out, rwr\<lparr>conn := c\<rparr>))"

definition V2_WriteMsg ::
    "(any \<Rightarrow> bytes option) \<Rightarrow> V2ReadWriter \<Rightarrow> any \<Rightarrow> msg_err option \<times> V2ReadWriter" where
  "V2_WriteMsg marshal rwr m =
     (case EncodeV2MessageFrame marshal m of
        Inl e \<Rightarrow> (Some e, rwr)
      | Inr f \<Rightarrow>
          (case WriteFrame (conn rwr) f of (err, c) \<Rightarrow> (map_option EWire err, rwr\<lparr>conn := c\<rparr>)))"

section \<open>The type tables are inverse to each other\<close>

lemma build_fold_notin:
  "i \<notin> fst ` set ps \<Longrightarrow> fst (fold (\<lambda>(i, t) (rm, im). (rm(i \<mapsto> t), im(t \<mapsto> i))) ps (rm, im)) i = rm i"
  "t \<notin> snd ` set ps \<Longrightarrow> snd (fold (\<lambda>(i, t) (rm, im). (rm(i \<mapsto> t), im(t \<mapsto> i))) ps (rm, im)) t = im t"
  by (induction ps arbitrary: rm im) auto

lemma build_fold_in:
  assumes "distinct (map fst ps)" and "distinct (map snd ps)" and "(i, t) \<in> set ps"
  shows "fst (fold (\<lambda>(i, t) (rm, im). (rm(i \<mapsto> t), im(t \<mapsto> i))) ps (rm, im)) i = Some t"
    and "snd (fold (\<lambda>(i, t) (rm, im). (rm(i \<mapsto> t), im(t \<mapsto> i))) ps (rm, im)) t = Some i"
  using assms by (induction ps arbitrary: rm im) (auto simp: build_fold_notin)

lemma buildV2MsgTypeMaps_iff:
  assumes "distinct (map fst ps)" and "distinct (map snd ps)"
  shows "fst (buildV2MsgTypeMaps ps) i = Some t \<longleftrightarrow> (i, t) \<in> set ps"
    and "snd (buildV2MsgTypeMaps ps) t = Some i \<longleftrightarrow> (i, t) \<in> set ps"
proof -
  show "fst (buildV2MsgTypeMaps ps) i = Some t \<longleftrightarrow> (i, t) \<in> set ps"
    unfolding buildV2MsgTypeMaps_def
  proof (cases "i \<in> fst ` set ps")
    case True
    then obtain t' where "(i, t') \<in> set ps" by force
    with build_fold_in(1) [OF assms this] assms(1)
    show "fst (fold (\<lambda>(i, t) (rm, im). (rm(i \<mapsto> t), im(t \<mapsto> i))) ps (Map.empty, Map.empty)) i = Some t \<longleftrightarrow> (i, t) \<in> set ps"
      by (auto dest: eq_key_imp_eq_value)
  qed (auto simp: build_fold_notin intro: rev_image_eqI)
  show "snd (buildV2MsgTypeMaps ps) t = Some i \<longleftrightarrow> (i, t) \<in> set ps"
    unfolding buildV2MsgTypeMaps_def
  proof (cases "t \<in> snd ` set ps")
    case True
    then obtain i' where i': "(i', t) \<in> set ps" by force
    have "(i, t) \<in> set ps \<Longrightarrow> i = i'"
      using assms(2) i' inj_onD [of snd "set ps" "(i, t)" "(i', t)"] by (simp add: distinct_map)
    with build_fold_in(2) [OF assms i'] i'
    show "snd (fold (\<lambda>(i, t) (rm, im). (rm(i \<mapsto> t), im(t \<mapsto> i))) ps (Map.empty, Map.empty)) t = Some i \<longleftrightarrow> (i, t) \<in> set ps"
      by auto
  qed (auto simp: build_fold_notin intro: rev_image_eqI)
qed

lemma v2MsgTypeMap_distinct:
  "distinct (map fst v2MsgTypeMap)" "distinct (map snd v2MsgTypeMap)"
  by (simp_all add: v2MsgTypeMap_def V2TypeUDPPacket_def)

lemma v2_maps_iff:
  "v2MsgReflectTypeMap i = Some t \<longleftrightarrow> (i, t) \<in> set v2MsgTypeMap"
  "v2MsgTypeIDMap t = Some i \<longleftrightarrow> (i, t) \<in> set v2MsgTypeMap"
  by (simp_all add: v2MsgReflectTypeMap_def v2MsgTypeIDMap_def
      buildV2MsgTypeMaps_iff v2MsgTypeMap_distinct)

lemma v2_maps_inverse: "v2MsgTypeIDMap t = Some i \<Longrightarrow> v2MsgReflectTypeMap i = Some t"
  by (simp add: v2_maps_iff)

lemma v2MsgTypeIDMap_message: "\<exists>i. v2MsgTypeIDMap (rtype_of m) = Some i"
  by (cases m) (auto simp: v2_maps_iff v2MsgTypeMap_def)

lemma v2_binary_unassigned: "v2MsgReflectTypeMap V2TypeUDPPacketBinary = None"
  by (cases "v2MsgReflectTypeMap V2TypeUDPPacketBinary")
    (auto simp: v2_maps_iff v2MsgTypeMap_def V2TypeUDPPacketBinary_def V2TypeUDPPacket_def)

lemma fresh_rtype_of: "\<exists>z. fresh (rtype_of m) = Some z \<and> rtype_of z = rtype_of m"
  by (cases m) simp_all

text \<open>
  The two type tables do not depend on the order in which the map literal is ranged over,
  they are inverse to each other, every message type has an id, and the id of the binary UDP
  packet is assigned to none of them, so a reader can tell the two encodings apart.
\<close>

lemma v2_type_tables:
  assumes "mset order = mset v2MsgTypeMap"
  shows "buildV2MsgTypeMaps order = (v2MsgReflectTypeMap, v2MsgTypeIDMap) \<and>
    (\<forall>i t. v2MsgReflectTypeMap i = Some t \<longleftrightarrow> v2MsgTypeIDMap t = Some i) \<and>
    (\<forall>m. \<exists>i. v2MsgTypeIDMap (rtype_of m) = Some i) \<and>
    v2MsgReflectTypeMap V2TypeUDPPacketBinary = None"
proof -
  have set: "set order = set v2MsgTypeMap" using assms by (rule mset_eq_setD)
  have "distinct (map fst order)" "distinct (map snd order)"
    using assms v2MsgTypeMap_distinct by (metis mset_eq_imp_distinct_iff mset_map)+
  then have "fst (buildV2MsgTypeMaps order) i = Some t \<longleftrightarrow> v2MsgReflectTypeMap i = Some t"
    "snd (buildV2MsgTypeMaps order) t = Some i \<longleftrightarrow> v2MsgTypeIDMap t = Some i" for i t
    by (simp_all add: buildV2MsgTypeMaps_iff v2_maps_iff set)
  then have "fst (buildV2MsgTypeMaps order) = v2MsgReflectTypeMap"
    "snd (buildV2MsgTypeMaps order) = v2MsgTypeIDMap"
    by (simp_all add: map_eqI)
  then have "buildV2MsgTypeMaps order = (v2MsgReflectTypeMap, v2MsgTypeIDMap)"
    by (simp add: prod_eq_iff)
  then show ?thesis
    using v2MsgTypeIDMap_message v2_binary_unassigned by (simp add: v2_maps_iff)
qed

theorem v2_type_tables_witness:
  "buildV2MsgTypeMaps (rev v2MsgTypeMap) = (v2MsgReflectTypeMap, v2MsgTypeIDMap)"
  using v2_type_tables [of "rev v2MsgTypeMap"] by simp

section \<open>Round trip\<close>

lemma EncodeV2MessageFrame_SomeD:
  assumes "EncodeV2MessageFrame marshal a = Inr f" and "elem_type a = Some t"
  obtains i content where "v2MsgTypeIDMap t = Some i" "marshal a = Some content"
    "f = \<lparr>Type = FrameTypeMessage, Flags = 0, Payload = PutUint16 i @ content\<rparr>"
  using assms by (auto simp: EncodeV2MessageFrame_def split: option.splits)

text \<open>
  C3. What \<open>WriteMsg\<close> sends, a value or a pointer, \<open>ReadMsg\<close> on the peer returns as a pointer to
  an equal struct, leaving the bytes that follow; \<open>ReadMsgInto\<close> with a target of any other type
  fails with both types in the error and does not decode. The hypothesis on JSON asks for the
  round trip of this one message.
\<close>

theorem v2_message_roundtrip:
  assumes "V2_WriteMsg marshal w a = (None, w')" and "a = Val m \<or> a = Ptr m"
    and "\<And>bs z. marshal a = Some bs \<Longrightarrow> fresh (rtype_of m) = Some z \<Longrightarrow> unmarshal bs z = Some m"
    and "maxFramePayloadSize (conn r) = maxFramePayloadSize (conn w)"
    and "rd (rw (conn r)) = drop (length (wr (rw (conn w)))) (wr (rw (conn w'))) @ rest"
  shows "\<exists>r'. V2_ReadMsg unmarshal r = (Inr (Ptr m), r') \<and> rd (rw (conn r')) = rest \<and>
    (\<forall>z. rtype_of z \<noteq> rtype_of m \<longrightarrow>
       V2_ReadMsgInto unmarshal r (Ptr z) = (Inl (EUnexpectedType (rtype_of m) (rtype_of z)), r'))"
proof -
  have t: "elem_type a = Some (rtype_of m)" using assms(2) by auto
  obtain f where f: "EncodeV2MessageFrame marshal a = Inr f" "WriteFrame (conn w) f = (None, conn w')"
    using assms(1) by (auto simp: V2_WriteMsg_def split: sum.splits prod.splits)
  from EncodeV2MessageFrame_SomeD [OF f(1) t] obtain i content where
    i: "v2MsgTypeIDMap (rtype_of m) = Some i" "marshal a = Some content"
       "f = \<lparr>Type = FrameTypeMessage, Flags = 0, Payload = PutUint16 i @ content\<rparr>" .
  obtain z where z: "fresh (rtype_of m) = Some z" using fresh_rtype_of by blast
  let ?c = "(conn r)\<lparr>rw := (rw (conn r))\<lparr>rd := rest\<rparr>\<rparr>"
  have rf: "ReadFrame (conn r) = (Inr f, ?c)"
    using WriteFrame_success [OF f(2)] assms(4,5) by (intro ReadFrame_frame_bytes) simp_all
  have "V2_ReadMsg unmarshal r = (Inr (Ptr m), r\<lparr>conn := ?c\<rparr>)"
    using assms(3) [OF i(2) z] i z v2_maps_inverse [OF i(1)] rf
    by (simp add: V2_ReadMsg_def DecodeV2MessageFrame_def)
  moreover have "V2_ReadMsgInto unmarshal r (Ptr y) =
      (Inl (EUnexpectedType (rtype_of m) (rtype_of y)), r\<lparr>conn := ?c\<rparr>)"
    if "rtype_of y \<noteq> rtype_of m" for y
  proof -
    obtain j where j: "v2MsgTypeIDMap (rtype_of y) = Some j" using v2MsgTypeIDMap_message by blast
    then have "j \<noteq> i"
      using that v2_maps_inverse [OF i(1)] v2_maps_inverse [OF j] by auto
    with rf i j v2_maps_inverse [OF i(1)] show ?thesis
      by (simp add: V2_ReadMsgInto_def DecodeV2MessageFrameInto_def)
  qed
  ultimately show ?thesis by auto
qed

text \<open>A JSON codec for one message type, for the witness.\<close>

fun demo_marshal :: "any \<Rightarrow> bytes option" where
  "demo_marshal (Ptr (MCloseProxy c)) = Some (string_bytes (cp_ProxyName c))"
| "demo_marshal _ = None"

fun demo_unmarshal :: "bytes \<Rightarrow> Message \<Rightarrow> Message option" where
  "demo_unmarshal bs (MCloseProxy c) = Some (MCloseProxy (c\<lparr>cp_ProxyName := bytes_string bs\<rparr>))"
| "demo_unmarshal _ _ = None"

theorem v2_message_roundtrip_witness:
  "\<exists>r'. V2_ReadMsg demo_unmarshal (NewV2ReadWriter (idle\<lparr>rd := [0, 16, 0, 0, 0, 0, 0, 5, 0, 5, 119, 101, 98, 9]\<rparr>)) =
     (Inr (Ptr (MCloseProxy \<lparr>cp_ProxyName = ''web''\<rparr>)), r') \<and> rd (rw (conn r')) = [9]"
proof -
  let ?m = "MCloseProxy \<lparr>cp_ProxyName = ''web''\<rparr>"
  let ?o = "[0, 16, 0, 0, 0, 0, 0, 5, 0, 5, 119, 101, 98]"
  have "v2MsgTypeIDMap TCloseProxy = Some 5" by (simp add: v2_maps_iff v2MsgTypeMap_def)
  moreover have "string_bytes ''web'' = [119, 101, 98]" "PutUint16 5 = [0, 5]" by code_simp+
  ultimately have c: "EncodeV2MessageFrame demo_marshal (Ptr ?m) =
      Inr \<lparr>Type = 16, Flags = 0, Payload = [0, 5, 119, 101, 98]\<rparr>"
    by (simp add: EncodeV2MessageFrame_def FrameTypeMessage_def)
  have o: "PutUint16 16 = [0, 16]" "PutUint16 0 = [0, 0]" "PutUint32 5 = [0, 0, 0, 5]" by code_simp+
  have "WriteFrame (NewConn idle) \<lparr>Type = 16, Flags = 0, Payload = [0, 5, 119, 101, 98]\<rparr> =
      (None, NewConn (idle\<lparr>wr := ?o\<rparr>))"
    using o by (simp add: WriteFrame_def WriteAll_def NewConn_def idle_def Let_def
        DefaultMaxFramePayloadSize_def)
  with c have w: "V2_WriteMsg demo_marshal (NewV2ReadWriter idle) (Ptr ?m) = (None, NewV2ReadWriter (idle\<lparr>wr := ?o\<rparr>))"
    by (simp add: V2_WriteMsg_def NewV2ReadWriter_def)
  have j: "demo_unmarshal bs z = Some ?m"
    if "demo_marshal (Ptr ?m) = Some bs" "fresh (rtype_of ?m) = Some z" for bs z
    using that by auto
  have "\<exists>r'. V2_ReadMsg demo_unmarshal (NewV2ReadWriter (idle\<lparr>rd := ?o @ [9]\<rparr>)) = (Inr (Ptr ?m), r') \<and>
      rd (rw (conn r')) = [9] \<and>
      (\<forall>z. rtype_of z \<noteq> rtype_of ?m \<longrightarrow> V2_ReadMsgInto demo_unmarshal (NewV2ReadWriter (idle\<lparr>rd := ?o @ [9]\<rparr>)) (Ptr z) =
         (Inl (EUnexpectedType (rtype_of ?m) (rtype_of z)), r'))"
    by (rule v2_message_roundtrip [OF w _ j]) (simp_all add: NewV2ReadWriter_def NewConn_def idle_def)
  then show ?thesis by auto
qed

end
