(* ===== verification/UdpBinary.thy ===== *)
theory UdpBinary
  imports Msg "HOL-Library.Monad_Syntax"
begin

text \<open>
  The binary encoding of UDP packets (\<open>pkg/msg/udp_binary.go\<close>). The encoder fills a buffer of
  a computed length through offsets and the decoder reads through offsets, so both are
  modelled with the bounds checks of the Go runtime: a result \<open>None\<close> is a panic. A value
  \<open>Some (Inl e)\<close> is a returned error.
\<close>

section \<open>Buffers\<close>

definition store :: "bytes \<Rightarrow> nat \<Rightarrow> byte \<Rightarrow> bytes option" where
  "store b i v = (if i < length b then Some (b[i := v]) else None)"

text \<open>\<open>copy(b[i:], src)\<close> copies as much as fits and panics only when \<open>i\<close> is out of range.\<close>

definition copy_into :: "bytes \<Rightarrow> nat \<Rightarrow> bytes \<Rightarrow> bytes option" where
  "copy_into b i src =
     (if i \<le> length b
      then let n = min (length b - i) (length src)
           in Some (take i b @ take n src @ drop (i + n) b)
      else None)"

definition put16 :: "bytes \<Rightarrow> nat \<Rightarrow> 16 word \<Rightarrow> bytes option" where
  "put16 b i v = (if i + 2 \<le> length b then copy_into b i (PutUint16 v) else None)"

lemma store_at [codec]:
  "0 < k \<Longrightarrow> store (pre @ replicate k 0) (length pre) v = Some ((pre @ [v]) @ replicate (k - 1) 0)"
  by (cases k) (simp_all add: store_def)

lemma copy_at [codec]:
  "length src \<le> k \<Longrightarrow>
   copy_into (pre @ replicate k 0) (length pre) src = Some ((pre @ src) @ replicate (k - length src) 0)"
  by (simp add: copy_into_def)

lemma put16_at [codec]:
  "2 \<le> k \<Longrightarrow> put16 (pre @ replicate k 0) (length pre) v = Some ((pre @ PutUint16 v) @ replicate (k - 2) 0)"
  by (simp add: put16_def copy_at)

section \<open>Addresses\<close>

definition MaxUDPPayloadSize :: nat where "MaxUDPPayloadSize = 65507"

definition udpPacketFlagLocalAddr :: byte where "udpPacketFlagLocalAddr = 1"

definition udpPacketFlagRemoteAddr :: byte where "udpPacketFlagRemoteAddr = 2"

definition udpPacketValidFlags :: byte where
  "udpPacketValidFlags = udpPacketFlagLocalAddr OR udpPacketFlagRemoteAddr"

text \<open>\<open>net.IP.To4\<close> and \<open>net.IP.To16\<close>.\<close>

definition v4_prefix :: bytes where "v4_prefix = replicate 10 0 @ [255, 255]"

definition To4 :: "bytes \<Rightarrow> bytes option" where
  "To4 ip =
     (if length ip = 4 then Some ip
      else if length ip = 16 \<and> take 12 ip = v4_prefix then Some (drop 12 ip)
      else None)"

definition To16 :: "bytes \<Rightarrow> bytes option" where
  "To16 ip =
     (if length ip = 4 then Some (v4_prefix @ ip)
      else if length ip = 16 then Some ip
      else None)"

record binaryUDPAddr =
  family :: byte
  ip :: bytes
  port :: "16 word"
  zone :: string

definition validateBinaryUDPAddr :: "UDPAddr \<Rightarrow> msg_err + binaryUDPAddr" where
  "validateBinaryUDPAddr addr =
     (if Port addr < 0 \<or> Port addr > 65535 then Inl (EPort (Port addr))
      else case To4 (IP addr) of
        Some ip4 \<Rightarrow>
          if Zone addr \<noteq> [] then Inl EIPv4Zone
          else Inr \<lparr>family = 4, ip = ip4, port = word_of_int (Port addr), zone = []\<rparr>
      | None \<Rightarrow>
          (case To16 (IP addr) of
             None \<Rightarrow> Inl EInvalidIP
           | Some ip16 \<Rightarrow>
               if length (Zone addr) > 255 then Inl EZoneLen
               else if \<not> utf8_ValidString (Zone addr) then Inl EZoneUTF8
               else Inr \<lparr>family = 6, ip = ip16, port = word_of_int (Port addr), zone = Zone addr\<rparr>))"

definition binaryUDPAddrLen :: "binaryUDPAddr \<Rightarrow> nat" where
  "binaryUDPAddrLen addr = 1 + length (ip addr) + 2 + 1 + length (zone addr)"

definition putBinaryUDPAddr :: "bytes \<Rightarrow> nat \<Rightarrow> binaryUDPAddr \<Rightarrow> (bytes \<times> nat) option" where
  "putBinaryUDPAddr body offset addr = do {
     body \<leftarrow> store body offset (family addr);
     let offset = offset + 1;
     body \<leftarrow> copy_into body offset (ip addr);
     let offset = offset + length (ip addr);
     body \<leftarrow> put16 body offset (port addr);
     let offset = offset + 2;
     body \<leftarrow> store body offset (word_of_nat (length (zone addr)));
     let offset = offset + 1;
     body \<leftarrow> copy_into body offset (string_bytes (zone addr));
     Some (body, offset + length (zone addr))
   }"

definition EncodeUDPPacketBinary :: "UDPPacket option \<Rightarrow> (msg_err + bytes) option" where
  "EncodeUDPPacketBinary packet =
     (case packet of
        None \<Rightarrow> Some (Inl ENilPacket)
      | Some p \<Rightarrow>
          (case RemoteAddr p of
             None \<Rightarrow> Some (Inl ENoRemoteAddr)
           | Some remote \<Rightarrow>
               if length (Content p) > MaxUDPPayloadSize then Some (Inl (EPayloadLen (length (Content p))))
               else
                 (case (case LocalAddr p of
                          None \<Rightarrow> Inr None
                        | Some a \<Rightarrow> map_sum id Some (validateBinaryUDPAddr a)) of
                    Inl e \<Rightarrow> Some (Inl e)
                  | Inr localAddr \<Rightarrow>
                      (case validateBinaryUDPAddr remote of
                         Inl e \<Rightarrow> Some (Inl e)
                       | Inr remoteAddr \<Rightarrow>
                           let bodyLen = 1 + 2 + length (Content p) +
                                 (case localAddr of None \<Rightarrow> 0 | Some a \<Rightarrow> binaryUDPAddrLen a) +
                                 binaryUDPAddrLen remoteAddr;
                               flags = (if localAddr \<noteq> None then udpPacketFlagLocalAddr else 0) OR
                                 udpPacketFlagRemoteAddr
                           in if 2 + bodyLen > unat DefaultMaxFramePayloadSize
                              then Some (Inl (EFrameLen (2 + bodyLen)))
                              else do {
                                body \<leftarrow> store (replicate bodyLen 0) 0 flags;
                                (body, offset) \<leftarrow>
                                  (case localAddr of
                                     None \<Rightarrow> Some (body, 1)
                                   | Some a \<Rightarrow> putBinaryUDPAddr body 1 a);
                                (body, offset) \<leftarrow> putBinaryUDPAddr body offset remoteAddr;
                                body \<leftarrow> put16 body offset (word_of_nat (length (Content p)));
                                body \<leftarrow> copy_into body (offset + 2) (Content p);
                                Some (Inr body)
                              }))))"

text \<open>The reader returns the address and the offset behind it.\<close>

definition readBinaryUDPAddr :: "bytes \<Rightarrow> nat \<Rightarrow> (msg_err + UDPAddr \<times> nat) option" where
  "readBinaryUDPAddr body offset =
     (if offset \<ge> length body then Some (Inl (ETruncated ''address family''))
      else do {
        fam \<leftarrow> index body offset;
        let offset = offset + 1;
        (if fam \<noteq> 4 \<and> fam \<noteq> 6 then Some (Inl (EUnknownFamily fam))
         else let ipLen = (if fam = 4 then 4 else 16) in
           if length body - offset < ipLen + 3 then Some (Inl (ETruncated ''address''))
           else do {
             ip \<leftarrow> slice body offset (offset + ipLen);
             let offset = offset + ipLen;
             p \<leftarrow> slice body offset (offset + 2);
             let offset = offset + 2;
             z \<leftarrow> index body offset;
             let zoneLen = unat z;
             let offset = offset + 1;
             (if length body - offset < zoneLen then Some (Inl (ETruncated ''zone''))
              else do {
                zoneBytes \<leftarrow> slice body offset (offset + zoneLen);
                (if fam = 4 \<and> zoneLen \<noteq> 0 then Some (Inl EIPv4Zone)
                 else if \<not> utf8_Valid zoneBytes then Some (Inl EZoneUTF8)
                 else Some (Inr (\<lparr>IP = ip, Port = uint (Uint16 p), Zone = bytes_string zoneBytes\<rparr>,
                                 offset + zoneLen)))
              })
           })
      })"

definition DecodeUDPPacketBinary :: "bytes \<Rightarrow> (msg_err + UDPPacket) option" where
  "DecodeUDPPacketBinary body =
     (if length body < 3 then Some (Inl (EBodyShort (length body)))
      else if 2 + length body > unat DefaultMaxFramePayloadSize then Some (Inl (EFrameLen (2 + length body)))
      else do {
        flags \<leftarrow> index body 0;
        (if flags AND NOT udpPacketValidFlags \<noteq> 0 then Some (Inl (EReservedFlags flags))
         else if flags AND udpPacketFlagRemoteAddr = 0 then Some (Inl ENoRemoteAddr)
         else do {
           l \<leftarrow> (if flags AND udpPacketFlagLocalAddr \<noteq> 0
                 then map_option (map_sum id (map_prod Some id)) (readBinaryUDPAddr body 1)
                 else Some (Inr (None, 1)));
           (case l of
              Inl e \<Rightarrow> Some (Inl e)
            | Inr (localAddr, offset) \<Rightarrow> do {
                r \<leftarrow> readBinaryUDPAddr body offset;
                (case r of
                   Inl e \<Rightarrow> Some (Inl e)
                 | Inr (remoteAddr, offset) \<Rightarrow>
                     if length body - offset < 2 then Some (Inl (ETruncated ''UDP payload length''))
                     else do {
                       n \<leftarrow> slice body offset (offset + 2);
                       let payloadLen = unat (Uint16 n);
                       let offset = offset + 2;
                       let remaining = length body - offset;
                       (if payloadLen > MaxUDPPayloadSize then Some (Inl (EPayloadLen payloadLen))
                        else if remaining < payloadLen then Some (Inl (ETruncated ''UDP payload''))
                        else if remaining > payloadLen then Some (Inl (ETrailing (remaining - payloadLen)))
                        else do {
                          content \<leftarrow> slice body offset (offset + payloadLen);
                          Some (Inr \<lparr>Content = content, LocalAddr = localAddr, RemoteAddr = Some remoteAddr\<rparr>)
                        })
                     })
              })
         })
      })"

section \<open>The reader and writer\<close>

definition isV2MessageType :: "Frame \<Rightarrow> 16 word \<Rightarrow> bool" where
  "isV2MessageType frame typeID \<longleftrightarrow>
     Type frame = FrameTypeMessage \<and> length (Payload frame) \<ge> 2 \<and> Uint16 (take 2 (Payload frame)) = typeID"

definition unexpectedV2UDPPacketType :: "Frame \<Rightarrow> msg_err" where
  "unexpectedV2UDPPacketType frame =
     (if Type frame \<noteq> FrameTypeMessage then EFrameType (Type frame)
      else if length (Payload frame) < 2 then EPayloadShort
      else let typeID = Uint16 (take 2 (Payload frame)) in
        if typeID = V2TypeUDPPacket then EJSONAfterBinary else EUnexpectedTypeID typeID)"

definition decodeV2BinaryUDPPacketFrame :: "Frame \<Rightarrow> (msg_err + UDPPacket) option" where
  "decodeV2BinaryUDPPacketFrame frame =
     (if Type frame \<noteq> FrameTypeMessage then Some (Inl (EFrameType (Type frame)))
      else if length (Payload frame) < 2 then Some (Inl EPayloadShort)
      else if Uint16 (take 2 (Payload frame)) \<noteq> V2TypeUDPPacketBinary
      then Some (Inl (unexpectedV2UDPPacketType frame))
      else DecodeUDPPacketBinary (drop 2 (Payload frame)))"

text \<open>The state of a \<open>V2BinaryUDPPacketReadWriter\<close> is its wire connection; None is a panic.\<close>

definition Bin_ReadMsg ::
    "(bytes \<Rightarrow> Message \<Rightarrow> Message option) \<Rightarrow> Conn \<Rightarrow> ((msg_err + any) \<times> Conn) option" where
  "Bin_ReadMsg unmarshal c =
     (case ReadFrame c of
        (Inl e, c') \<Rightarrow> Some (Inl (EWire e), c')
      | (Inr frame, c') \<Rightarrow>
          if isV2MessageType frame V2TypeUDPPacketBinary
          then map_option (\<lambda>r. (map_sum id (\<lambda>p. Ptr (MUDPPacket p)) r, c'))
                 (decodeV2BinaryUDPPacketFrame frame)
          else if isV2MessageType frame V2TypeUDPPacket then Some (Inl EJSONAfterBinary, c')
          else Some (DecodeV2MessageFrame unmarshal frame, c'))"

definition Bin_ReadMsgInto ::
    "(bytes \<Rightarrow> Message \<Rightarrow> Message option) \<Rightarrow> Conn \<Rightarrow> any \<Rightarrow> ((msg_err + any) \<times> Conn) option" where
  "Bin_ReadMsgInto unmarshal c out =
     (case ReadFrame c of
        (Inl e, c') \<Rightarrow> Some (Inl (EWire e), c')
      | (Inr frame, c') \<Rightarrow>
          if pointer_type out = Some TUDPPacket
          then if \<not> isV2MessageType frame V2TypeUDPPacketBinary
               then Some (Inl (unexpectedV2UDPPacketType frame), c')
               else (case decodeV2BinaryUDPPacketFrame frame of
                       None \<Rightarrow> None
                     | Some (Inl e) \<Rightarrow> Some (Inl e, c')
                     | Some (Inr p) \<Rightarrow>
                         (case out of
                            Ptr _ \<Rightarrow> Some (Inr (Ptr (MUDPPacket p)), c')
                          | _ \<Rightarrow> None))
          else Some (DecodeV2MessageFrameInto unmarshal frame out, c'))"

fun as_udp_packet :: "any \<Rightarrow> UDPPacket option option" where
  "as_udp_packet (Val (MUDPPacket p)) = Some (Some p)"
| "as_udp_packet (Ptr (MUDPPacket p)) = Some (Some p)"
| "as_udp_packet (PtrNil TUDPPacket) = Some None"
| "as_udp_packet _ = None"

definition Bin_WriteMsg ::
    "(any \<Rightarrow> bytes option) \<Rightarrow> Conn \<Rightarrow> any \<Rightarrow> (msg_err option \<times> Conn) option" where
  "Bin_WriteMsg marshal c message =
     (case as_udp_packet message of
        None \<Rightarrow>
          (case EncodeV2MessageFrame marshal message of
             Inl e \<Rightarrow> Some (Some e, c)
           | Inr frame \<Rightarrow> (case WriteFrame c frame of (err, c') \<Rightarrow> Some (map_option EWire err, c')))
      | Some packet \<Rightarrow>
          (case EncodeUDPPacketBinary packet of
             None \<Rightarrow> None
           | Some (Inl e) \<Rightarrow> Some (Some e, c)
           | Some (Inr body) \<Rightarrow>
               (case WriteFrame c \<lparr>Type = FrameTypeMessage, Flags = 0,
                                   Payload = PutUint16 V2TypeUDPPacketBinary @ body\<rparr> of
                  (err, c') \<Rightarrow> Some (map_option EWire err, c'))))"

text \<open>The codec that a pair of wire protocol and negotiated UDP codec selects.\<close>

datatype ReadWriter = V1ReadWriter | V2ReadWriterJSON | V2BinaryUDPPacketReadWriter

definition NewUDPPacketReadWriter :: "string \<Rightarrow> string \<Rightarrow> msg_err + ReadWriter" where
  "NewUDPPacketReadWriter wireProtocol udpPacketCodec =
     (if wireProtocol = [] \<or> wireProtocol = ''v1''
      then if udpPacketCodec \<noteq> [] then Inl (ECodecNeedsV2 udpPacketCodec) else Inr V1ReadWriter
      else if wireProtocol = ProtocolV2
      then if udpPacketCodec = [] then Inr V2ReadWriterJSON
           else if udpPacketCodec = UDPPacketCodecBinary then Inr V2BinaryUDPPacketReadWriter
           else Inl (ECodec udpPacketCodec)
      else Inl (EProtocol wireProtocol))"

section \<open>The encoder as concatenation\<close>

definition addr_bytes :: "binaryUDPAddr \<Rightarrow> bytes" where
  "addr_bytes a =
     [family a] @ ip a @ PutUint16 (port a) @ [word_of_nat (length (zone a))] @ string_bytes (zone a)"

definition body_bytes :: "binaryUDPAddr option \<Rightarrow> binaryUDPAddr \<Rightarrow> bytes \<Rightarrow> bytes" where
  "body_bytes l r content =
     [(if l \<noteq> None then udpPacketFlagLocalAddr else 0) OR udpPacketFlagRemoteAddr] @
     (case l of None \<Rightarrow> [] | Some a \<Rightarrow> addr_bytes a) @ addr_bytes r @
     PutUint16 (word_of_nat (length content)) @ content"

lemma length_addr_bytes [simp]: "length (addr_bytes a) = binaryUDPAddrLen a"
  by (simp add: addr_bytes_def binaryUDPAddrLen_def)

lemma putBinaryUDPAddr_at:
  assumes "binaryUDPAddrLen a \<le> k"
  shows "putBinaryUDPAddr (pre @ replicate k 0) (length pre) a =
    Some ((pre @ addr_bytes a) @ replicate (k - binaryUDPAddrLen a) 0, length pre + binaryUDPAddrLen a)"
proof -
  let ?p1 = "pre @ [family a]"
  let ?p2 = "?p1 @ ip a"
  let ?p3 = "?p2 @ PutUint16 (port a)"
  let ?p4 = "?p3 @ [word_of_nat (length (zone a))]"
  have s: "store (pre @ replicate k 0) (length pre) (family a) = Some (?p1 @ replicate (k - 1) 0)"
    "copy_into (?p1 @ replicate (k - 1) 0) (length ?p1) (ip a) =
       Some (?p2 @ replicate (k - 1 - length (ip a)) 0)"
    "put16 (?p2 @ replicate (k - 1 - length (ip a)) 0) (length ?p2) (port a) =
       Some (?p3 @ replicate (k - 1 - length (ip a) - 2) 0)"
    "store (?p3 @ replicate (k - 1 - length (ip a) - 2) 0) (length ?p3) (word_of_nat (length (zone a))) =
       Some (?p4 @ replicate (k - 1 - length (ip a) - 2 - 1) 0)"
    "copy_into (?p4 @ replicate (k - 1 - length (ip a) - 2 - 1) 0) (length ?p4) (string_bytes (zone a)) =
       Some ((?p4 @ string_bytes (zone a)) @ replicate (k - 1 - length (ip a) - 2 - 1 - length (zone a)) 0)"
    using assms by (subst store_at copy_at put16_at; simp add: binaryUDPAddrLen_def)+
  have l: "length ?p1 = length pre + 1" "length ?p2 = length pre + 1 + length (ip a)"
    "length ?p3 = length pre + 1 + length (ip a) + 2" "length ?p4 = length pre + 1 + length (ip a) + 2 + 1"
    by simp_all
  show ?thesis
    unfolding putBinaryUDPAddr_def Let_def s(1) Option.bind.bind_lunit s(2) [unfolded l] s(3) [unfolded l]
      s(4) [unfolded l] s(5) [unfolded l]
    by (simp add: addr_bytes_def binaryUDPAddrLen_def)
qed

lemma fill_body:
  assumes "n = 1 + 2 + length content + (case l of None \<Rightarrow> 0 | Some a \<Rightarrow> binaryUDPAddrLen a) + binaryUDPAddrLen r"
    and "flags = (if l \<noteq> None then udpPacketFlagLocalAddr else 0) OR udpPacketFlagRemoteAddr"
  shows "do {
      body \<leftarrow> store (replicate n 0) 0 flags;
      (body, offset) \<leftarrow> (case l of None \<Rightarrow> Some (body, 1) | Some a \<Rightarrow> putBinaryUDPAddr body 1 a);
      (body, offset) \<leftarrow> putBinaryUDPAddr body offset r;
      body \<leftarrow> put16 body offset (word_of_nat (length content));
      body \<leftarrow> copy_into body (offset + 2) content;
      Some (Inr body)
    } = Some (Inr (body_bytes l r content))"
proof -
  let ?lb = "case l of None \<Rightarrow> [] | Some a \<Rightarrow> addr_bytes a"
  let ?p2 = "[flags] @ ?lb" let ?k2 = "n - 1 - length ?lb"
  let ?p3 = "?p2 @ addr_bytes r" let ?k3 = "?k2 - binaryUDPAddrLen r"
  let ?p4 = "?p3 @ PutUint16 (word_of_nat (length content))" let ?k4 = "?k3 - 2"
  have ln: "length ?lb = (case l of None \<Rightarrow> 0 | Some a \<Rightarrow> binaryUDPAddrLen a)" by (cases l) simp_all
  have s1: "store (replicate n 0) 0 flags = Some ([flags] @ replicate (n - 1) 0)"
    using store_at [of n "[]" flags] assms(1) by simp
  have s2: "(case l of None \<Rightarrow> Some ([flags] @ replicate (n - 1) 0, 1)
      | Some a \<Rightarrow> putBinaryUDPAddr ([flags] @ replicate (n - 1) 0) 1 a) = Some (?p2 @ replicate ?k2 0, length ?p2)"
    using putBinaryUDPAddr_at [of _ "n - 1" "[flags]"] assms(1) by (cases l) simp_all
  have s3: "putBinaryUDPAddr (?p2 @ replicate ?k2 0) (length ?p2) r = Some (?p3 @ replicate ?k3 0, length ?p3)"
    using putBinaryUDPAddr_at [of r ?k2 ?p2] assms(1) ln by simp
  have s4: "put16 (?p3 @ replicate ?k3 0) (length ?p3) (word_of_nat (length content)) = Some (?p4 @ replicate ?k4 0)"
    using assms(1) ln by (intro put16_at) simp
  have s5: "copy_into (?p4 @ replicate ?k4 0) (length ?p3 + 2) content = Some (?p4 @ content)"
    using copy_at [of content ?k4 ?p4] assms(1) ln by simp
  show ?thesis
    unfolding s1 Option.bind.bind_lunit s2 prod.case s3 s4 s5
    by (simp add: body_bytes_def assms(2))
qed

definition validateLocal :: "UDPPacket \<Rightarrow> msg_err + binaryUDPAddr option" where
  "validateLocal p =
     (case LocalAddr p of None \<Rightarrow> Inr None | Some a \<Rightarrow> map_sum id Some (validateBinaryUDPAddr a))"

lemma EncodeUDPPacketBinary_eq:
  "EncodeUDPPacketBinary (Some p) =
     (case RemoteAddr p of
        None \<Rightarrow> Some (Inl ENoRemoteAddr)
      | Some remote \<Rightarrow>
          if length (Content p) > MaxUDPPayloadSize then Some (Inl (EPayloadLen (length (Content p))))
          else (case validateLocal p of
                  Inl e \<Rightarrow> Some (Inl e)
                | Inr l \<Rightarrow>
                    (case validateBinaryUDPAddr remote of
                       Inl e \<Rightarrow> Some (Inl e)
                     | Inr r \<Rightarrow>
                         if 2 + length (body_bytes l r (Content p)) > unat DefaultMaxFramePayloadSize
                         then Some (Inl (EFrameLen (2 + length (body_bytes l r (Content p)))))
                         else Some (Inr (body_bytes l r (Content p))))))"
proof -
  have len: "length (body_bytes l r c) =
      1 + 2 + length c + (case l of None \<Rightarrow> 0 | Some a \<Rightarrow> binaryUDPAddrLen a) + binaryUDPAddrLen r" for l r c
    by (cases l) (simp_all add: body_bytes_def)
  show ?thesis
    unfolding EncodeUDPPacketBinary_def len option.case Let_def fill_body [OF refl refl]
      validateLocal_def [symmetric] ..
qed

section \<open>Reading what was written\<close>

definition addr_ok :: "binaryUDPAddr \<Rightarrow> bool" where
  "addr_ok a \<longleftrightarrow>
     (family a = 4 \<and> length (ip a) = 4 \<and> zone a = []) \<or>
     (family a = 6 \<and> length (ip a) = 16 \<and> length (zone a) \<le> 255 \<and> utf8_ValidString (zone a))"

definition addr_of :: "binaryUDPAddr \<Rightarrow> UDPAddr" where
  "addr_of a = \<lparr>IP = ip a, Port = uint (port a), Zone = zone a\<rparr>"

lemma readBinaryUDPAddr_at:
  assumes "addr_ok a" and "body = pre @ addr_bytes a @ post"
  shows "readBinaryUDPAddr body (length pre) = Some (Inr (addr_of a, length pre + binaryUDPAddrLen a))"
proof -
  let ?ipLen = "if family a = 4 then 4 else 16"
  let ?o = "length pre + 1"
  have ipLen: "length (ip a) = ?ipLen" and fam: "family a = 4 \<or> family a = 6"
    and z: "length (zone a) \<le> 255" "utf8_Valid (string_bytes (zone a))" "family a = 4 \<Longrightarrow> zone a = []"
    using assms(1) by (auto simp: addr_ok_def utf8_ValidString_def string_bytes_def)
  have b: "body = pre @ family a # ip a @ PutUint16 (port a) @ word_of_nat (length (zone a)) # string_bytes (zone a) @ post"
    using assms(2) by (simp add: addr_bytes_def)
  have f: "index body (length pre) = Some (family a)" using b by simp
  have s1: "slice body ?o (?o + ?ipLen) = Some (ip a)"
    by (rule slice_mid [of _ "pre @ [family a]" _ "PutUint16 (port a) @ word_of_nat (length (zone a)) # string_bytes (zone a) @ post"])
      (simp_all add: b ipLen)
  have s2: "slice body (?o + ?ipLen) (?o + ?ipLen + 2) = Some (PutUint16 (port a))"
    by (rule slice_mid [of _ "pre @ family a # ip a" _ "word_of_nat (length (zone a)) # string_bytes (zone a) @ post"])
      (simp_all add: b ipLen)
  have s3: "index body (?o + ?ipLen + 2) = Some (word_of_nat (length (zone a)))"
    by (rule index_mid [of _ "pre @ family a # ip a @ PutUint16 (port a)" _ "string_bytes (zone a) @ post"])
      (simp_all add: b ipLen)
  have s4: "slice body (?o + ?ipLen + 2 + 1) (?o + ?ipLen + 2 + 1 + length (zone a)) = Some (string_bytes (zone a))"
    by (rule slice_mid [of _ "pre @ family a # ip a @ PutUint16 (port a) @ [word_of_nat (length (zone a))]" _ post])
      (simp_all add: b ipLen)
  have len: "length body = length pre + 1 + ?ipLen + 3 + length (zone a) + length post"
    using b ipLen by simp
  have u: "unat (word_of_nat (length (zone a)) :: byte) = length (zone a)" using z(1) by (rule unat_byte_of_nat)
  have *: "\<not> length body \<le> length pre" "\<not> (family a \<noteq> 4 \<and> family a \<noteq> 6)" "\<not> length body - ?o < ?ipLen + 3"
    "\<not> length body - (?o + ?ipLen + 2 + 1) < length (zone a)" "\<not> (family a = 4 \<and> length (zone a) \<noteq> 0)"
    using len fam z by auto
  show ?thesis
    unfolding readBinaryUDPAddr_def Let_def f s1 s2 s3 s4 Option.bind.bind_lunit u if_not_P [OF *(1)]
      if_not_P [OF *(2)] if_not_P [OF *(3)] if_not_P [OF *(4)] if_not_P [OF *(5)]
    by (simp add: z addr_of_def binaryUDPAddrLen_def ipLen)
qed

text \<open>The address a peer sees: an IPv4-mapped IP is delivered in its four-byte form.\<close>

definition canonUDPAddr :: "UDPAddr \<Rightarrow> UDPAddr" where
  "canonUDPAddr a = a\<lparr>IP := (case To4 (IP a) of Some ip4 \<Rightarrow> ip4 | None \<Rightarrow> IP a)\<rparr>"

definition canonUDPPacket :: "UDPPacket \<Rightarrow> UDPPacket" where
  "canonUDPPacket p =
     \<lparr>Content = Content p, LocalAddr = map_option canonUDPAddr (LocalAddr p),
      RemoteAddr = map_option canonUDPAddr (RemoteAddr p)\<rparr>"

lemma validateBinaryUDPAddr_InrD:
  assumes "validateBinaryUDPAddr a = Inr b"
  shows "addr_ok b" and "addr_of b = canonUDPAddr a"
proof -
  have p: "0 \<le> Port a" "Port a \<le> 65535" using assms by (auto simp: validateBinaryUDPAddr_def split: if_splits)
  then have u: "uint (word_of_int (Port a) :: 16 word) = Port a"
    by (simp add: uint_word_of_int)
  show "addr_ok b" using assms
    by (auto simp: validateBinaryUDPAddr_def To4_def To16_def addr_ok_def split: if_splits option.splits)
  show "addr_of b = canonUDPAddr a" using assms u
    by (cases a) (auto simp: validateBinaryUDPAddr_def To4_def To16_def addr_of_def canonUDPAddr_def
        split: if_splits option.splits)
qed

lemma validateLocal_InrD:
  assumes "validateLocal p = Inr l"
  shows "pred_option addr_ok l" and "map_option addr_of l = map_option canonUDPAddr (LocalAddr p)"
  using assms validateBinaryUDPAddr_InrD
  by (cases "LocalAddr p"; force simp: validateLocal_def map_sum_def split: sum.splits)+

lemma flag_bits:
  "(udpPacketFlagLocalAddr OR udpPacketFlagRemoteAddr) AND NOT udpPacketValidFlags = 0"
  "udpPacketFlagRemoteAddr AND NOT udpPacketValidFlags = 0"
  "(udpPacketFlagLocalAddr OR udpPacketFlagRemoteAddr) AND udpPacketFlagRemoteAddr \<noteq> 0"
  "udpPacketFlagRemoteAddr AND udpPacketFlagRemoteAddr \<noteq> 0"
  "(udpPacketFlagLocalAddr OR udpPacketFlagRemoteAddr) AND udpPacketFlagLocalAddr \<noteq> 0"
  "udpPacketFlagRemoteAddr AND udpPacketFlagLocalAddr = 0"
  "udpPacketFlagLocalAddr \<noteq> 0" "udpPacketFlagRemoteAddr \<noteq> 0"
  by (simp_all add: udpPacketFlagLocalAddr_def udpPacketFlagRemoteAddr_def udpPacketValidFlags_def)

lemma DecodeUDPPacketBinary_body_bytes:
  assumes "pred_option addr_ok l" and "addr_ok r" and "length c \<le> MaxUDPPayloadSize"
    and "2 + length (body_bytes l r c) \<le> unat DefaultMaxFramePayloadSize"
  shows "DecodeUDPPacketBinary (body_bytes l r c) =
    Some (Inr \<lparr>Content = c, LocalAddr = map_option addr_of l, RemoteAddr = Some (addr_of r)\<rparr>)"
proof -
  let ?flags = "(if l \<noteq> None then udpPacketFlagLocalAddr else 0) OR udpPacketFlagRemoteAddr"
  let ?lb = "case l of None \<Rightarrow> [] | Some a \<Rightarrow> addr_bytes a"
  let ?n = "PutUint16 (word_of_nat (length c))"
  let ?b = "body_bytes l r c" let ?p2 = "?flags # ?lb" let ?o = "length ?p2 + binaryUDPAddrLen r"
  have b: "?b = ?p2 @ addr_bytes r @ ?n @ c" by (simp add: body_bytes_def)
  have local: "(if ?flags AND udpPacketFlagLocalAddr \<noteq> 0
      then map_option (map_sum id (map_prod Some id)) (readBinaryUDPAddr ?b 1) else Some (Inr (None, 1))) =
      Some (Inr (map_option addr_of l, length ?p2))"
  proof (cases l)
    case None
    then show ?thesis by (simp add: flag_bits)
  next
    case (Some a)
    then have "readBinaryUDPAddr ?b (length [?flags]) = Some (Inr (addr_of a, length [?flags] + binaryUDPAddrLen a))"
      using assms(1) by (intro readBinaryUDPAddr_at [where post = "addr_bytes r @ ?n @ c"]) (simp_all add: body_bytes_def)
    with Some show ?thesis by (simp add: flag_bits)
  qed
  have remote: "readBinaryUDPAddr ?b (length ?p2) = Some (Inr (addr_of r, ?o))"
    using assms(2) b by (rule readBinaryUDPAddr_at)
  have n: "slice ?b ?o (?o + 2) = Some ?n"
    by (rule slice_mid [of _ "?p2 @ addr_bytes r" _ c]) (simp_all add: b)
  have content: "slice ?b (?o + 2) (?o + 2 + length c) = Some c"
    by (rule slice_mid [of _ "?p2 @ addr_bytes r @ ?n" _ "[]"]) (simp_all add: b)
  have u: "unat (word_of_nat (length c) :: 16 word) = length c"
    using assms(3) by (simp add: unat_of_nat take_bit_nat_eq_self MaxUDPPayloadSize_def)
  have len: "length ?b = ?o + 2 + length c" by (simp add: b)
  have *: "\<not> length ?b < 3" "\<not> unat DefaultMaxFramePayloadSize < 2 + length ?b" "\<not> ?flags AND NOT udpPacketValidFlags \<noteq> 0"
    "?flags AND udpPacketFlagRemoteAddr \<noteq> 0" "\<not> length ?b - ?o < 2" "\<not> MaxUDPPayloadSize < length c"
    "\<not> length ?b - (?o + 2) < length c" "\<not> length c < length ?b - (?o + 2)"
    using assms(3,4) len by (auto simp: flag_bits)
  have i0: "index ?b 0 = Some ?flags" by (simp add: b)
  show ?thesis
    unfolding DecodeUDPPacketBinary_def if_not_P [OF *(1)] if_not_P [OF *(2)] i0 Option.bind.bind_lunit
      if_not_P [OF *(3)] if_not_P [OF *(4)] local sum.case prod.case remote if_not_P [OF *(5)] n Let_def
      Uint_PutUint_Nil u if_not_P [OF *(6)] if_not_P [OF *(7)] if_not_P [OF *(8)] content ..
qed

lemma EncodeUDPPacketBinary_InrD:
  assumes "EncodeUDPPacketBinary q = Some (Inr body)"
  obtains p where "q = Some p" "DecodeUDPPacketBinary body = Some (Inr (canonUDPPacket p))"
    "2 + length body \<le> unat DefaultMaxFramePayloadSize"
proof -
  obtain p where q: "q = Some p" using assms by (cases q) (auto simp: EncodeUDPPacketBinary_def)
  then obtain remote l r where *: "RemoteAddr p = Some remote" "length (Content p) \<le> MaxUDPPayloadSize"
    "validateLocal p = Inr l" "validateBinaryUDPAddr remote = Inr r" "body = body_bytes l r (Content p)"
    "2 + length body \<le> unat DefaultMaxFramePayloadSize"
    using assms by (auto simp: EncodeUDPPacketBinary_eq split: option.splits if_splits sum.splits)
  then have "DecodeUDPPacketBinary body = Some (Inr (canonUDPPacket p))"
    using DecodeUDPPacketBinary_body_bytes [of l r "Content p"] validateLocal_InrD [of p l]
      validateBinaryUDPAddr_InrD [of remote r]
    by (simp add: canonUDPPacket_def)
  with q * that show ?thesis by blast
qed

text \<open>
  C4. A UDP packet that the binary writer sends arrives at the peer's binary reader with the
  same payload, local and remote address, IPv4 addresses in their four-byte form, and the
  reader is left with the bytes that follow; neither side panics on the way.
\<close>

theorem udp_packet_roundtrip:
  assumes "as_udp_packet a = Some (Some p)"
    and "Bin_WriteMsg marshal c a = Some (None, c')"
    and "maxFramePayloadSize d = maxFramePayloadSize c"
    and "rd (rw d) = drop (length (wr (rw c))) (wr (rw c')) @ rest"
  shows "Bin_ReadMsg unmarshal d =
    Some (Inr (Ptr (MUDPPacket (canonUDPPacket p))), d\<lparr>rw := (rw d)\<lparr>rd := rest\<rparr>\<rparr>)"
proof -
  obtain body where e: "EncodeUDPPacketBinary (Some p) = Some (Inr body)"
    and w: "WriteFrame c \<lparr>Type = FrameTypeMessage, Flags = 0,
              Payload = PutUint16 V2TypeUDPPacketBinary @ body\<rparr> = (None, c')"
    using assms(1,2) by (auto simp: Bin_WriteMsg_def split: option.splits sum.splits prod.splits)
  have "ReadFrame d = (Inr \<lparr>Type = FrameTypeMessage, Flags = 0,
      Payload = PutUint16 V2TypeUDPPacketBinary @ body\<rparr>, d\<lparr>rw := (rw d)\<lparr>rd := rest\<rparr>\<rparr>)"
    using WriteFrame_success [OF w] assms(3,4) by (intro ReadFrame_frame_bytes) simp_all
  moreover from e have "DecodeUDPPacketBinary body = Some (Inr (canonUDPPacket p))"
    by (rule EncodeUDPPacketBinary_InrD) simp
  ultimately show ?thesis
    by (simp add: Bin_ReadMsg_def isV2MessageType_def decodeV2BinaryUDPPacketFrame_def)
qed

definition demo_packet :: UDPPacket where
  "demo_packet = \<lparr>Content = [1, 2, 3],
     LocalAddr = Some \<lparr>IP = [254, 128, 0, 0, 0, 0, 0, 0, 0, 0, 0, 0, 0, 0, 0, 1], Port = 53, Zone = ''eth0''\<rparr>,
     RemoteAddr = Some \<lparr>IP = v4_prefix @ [10, 0, 0, 1], Port = 4096, Zone = []\<rparr>\<rparr>"

definition demo_body :: bytes where
  "demo_body = [3, 6, 254, 128, 0, 0, 0, 0, 0, 0, 0, 0, 0, 0, 0, 0, 0, 1, 0, 53, 4, 101, 116, 104, 48,
     4, 10, 0, 0, 1, 16, 0, 0, 0, 3, 1, 2, 3]"

lemma demo_packet_encoded: "EncodeUDPPacketBinary (Some demo_packet) = Some (Inr demo_body)"
  by code_simp

theorem udp_packet_roundtrip_witness:
  "Bin_ReadMsg (\<lambda>_ _. None) (NewConn (idle\<lparr>rd := [0, 16, 0, 0, 0, 0, 0, 40, 0, 19] @ demo_body @ [5]\<rparr>)) =
     Some (Inr (Ptr (MUDPPacket
       (demo_packet\<lparr>RemoteAddr := Some \<lparr>IP = [10, 0, 0, 1], Port = 4096, Zone = []\<rparr>\<rparr>))),
       NewConn (idle\<lparr>rd := [5]\<rparr>))"
proof -
  let ?o = "[0, 16, 0, 0, 0, 0, 0, 40, 0, 19] @ demo_body"
  have h: "PutUint16 16 = [0, 16]" "PutUint16 0 = [0, 0]" "PutUint16 19 = [0, 19]" "PutUint32 40 = [0, 0, 0, 40]"
    "length demo_body = 38" by code_simp+
  have w: "Bin_WriteMsg (\<lambda>_. None) (NewConn idle) (Ptr (MUDPPacket demo_packet)) =
      Some (None, NewConn (idle\<lparr>wr := ?o\<rparr>))"
    using h by (simp add: Bin_WriteMsg_def demo_packet_encoded WriteFrame_def WriteAll_def NewConn_def idle_def
        DefaultMaxFramePayloadSize_def FrameTypeMessage_def V2TypeUDPPacketBinary_def Let_def)
  have p: "as_udp_packet (Ptr (MUDPPacket demo_packet)) = Some (Some demo_packet)" by simp
  have "canonUDPPacket demo_packet = demo_packet\<lparr>RemoteAddr := Some \<lparr>IP = [10, 0, 0, 1], Port = 4096, Zone = []\<rparr>\<rparr>"
    by code_simp
  then show ?thesis
    using udp_packet_roundtrip [OF p w, of "NewConn (idle\<lparr>rd := ?o @ [5]\<rparr>)" "[5]" "\<lambda>_ _. None"]
    by (simp add: NewConn_def idle_def)
qed

section \<open>Safety of the decoder\<close>

lemma readBinaryUDPAddr_no_panic: "readBinaryUDPAddr body offset \<noteq> None"
  by (auto simp: readBinaryUDPAddr_def Let_def)

definition addr_valid :: "UDPAddr \<Rightarrow> bool" where
  "addr_valid a \<longleftrightarrow> 0 \<le> Port a \<and> Port a \<le> 65535 \<and>
     (length (IP a) = 4 \<and> Zone a = [] \<or> length (IP a) = 16) \<and>
     length (Zone a) \<le> 255 \<and> utf8_ValidString (Zone a)"

lemma readBinaryUDPAddr_InrD:
  assumes "readBinaryUDPAddr body offset = Some (Inr (a, o'))"
  shows "offset < o' \<and> o' \<le> length body" and "addr_valid a"
proof -
  have u: "uint (w :: 16 word) \<le> 65535" for w
    using uint_bounded [of w] by simp
  have z: "unat (w :: byte) \<le> 255" for w
    using unat_less_pow [of w] by simp
  show "offset < o' \<and> o' \<le> length body"
    using assms by (auto simp: readBinaryUDPAddr_def Let_def split: if_splits)
  show "addr_valid a"
    using assms u z
    by (auto simp: addr_valid_def readBinaryUDPAddr_def Let_def split: if_splits)
qed

lemma DecodeUDPPacketBinary_no_panic: "DecodeUDPPacketBinary body \<noteq> None"
proof
  assume "DecodeUDPPacketBinary body = None"
  then show False
    by (auto simp: DecodeUDPPacketBinary_def readBinaryUDPAddr_no_panic Let_def bind_eq_None_conv slice_def index_def
        split: if_splits sum.splits)
qed

lemma DecodeUDPPacketBinary_InrD:
  assumes "DecodeUDPPacketBinary body = Some (Inr p)"
  shows "length (Content p) \<le> MaxUDPPayloadSize" and "pred_option addr_valid (LocalAddr p)"
    and "RemoteAddr p \<noteq> None" and "pred_option addr_valid (RemoteAddr p)"
  using assms
  by (auto simp: DecodeUDPPacketBinary_def Let_def map_sum_Inr_iff
      split: Option.bind_splits if_splits sum.splits dest!: readBinaryUDPAddr_InrD(2) slice_SomeD)

text \<open>
  The decoder is safe on every input a peer can send: it never reads out of bounds, and a
  packet it delivers has a payload within the UDP limit, a remote address, and only addresses
  with a port of 16 bits, an IP of four or sixteen bytes and a valid UTF-8 zone of at most 255
  bytes, none for a four-byte IP.
\<close>

lemma udp_decode_safe:
  "case DecodeUDPPacketBinary body of
     None \<Rightarrow> False
   | Some (Inl e) \<Rightarrow> True
   | Some (Inr p) \<Rightarrow>
       length (Content p) \<le> 65507 \<and> RemoteAddr p \<noteq> None \<and>
       pred_option addr_valid (LocalAddr p) \<and> pred_option addr_valid (RemoteAddr p)"
  using DecodeUDPPacketBinary_no_panic [of body] DecodeUDPPacketBinary_InrD [of body]
  by (auto simp: MaxUDPPayloadSize_def split: option.splits sum.splits)

text \<open>
  The encoder never panics, and what it produces fits into one frame of the default size
  together with the message type id, so the frame writer does not refuse it.
\<close>

lemma udp_encode_fits:
  "case EncodeUDPPacketBinary q of
     None \<Rightarrow> False
   | Some (Inl e) \<Rightarrow> True
   | Some (Inr body) \<Rightarrow>
       room (rw c) = None \<and> maxFramePayloadSize c = DefaultMaxFramePayloadSize \<longrightarrow>
       fst (WriteFrame c \<lparr>Type = FrameTypeMessage, Flags = 0,
              Payload = PutUint16 V2TypeUDPPacketBinary @ body\<rparr>) = None"
proof -
  have "EncodeUDPPacketBinary q \<noteq> None"
  proof (cases q)
    case None
    then show ?thesis by (simp add: EncodeUDPPacketBinary_def)
  next
    case (Some p)
    then show ?thesis by (auto simp: EncodeUDPPacketBinary_eq split: option.splits sum.splits)
  qed
  moreover have "2 + length body \<le> unat DefaultMaxFramePayloadSize"
    if "EncodeUDPPacketBinary q = Some (Inr body)" for body
    using that by (rule EncodeUDPPacketBinary_InrD)
  ultimately show ?thesis
    by (auto simp: WriteFrame_def WriteAll_def Let_def split: option.splits sum.splits)
qed

theorem udp_encode_fits_witness:
  "fst (WriteFrame (NewConn idle) \<lparr>Type = FrameTypeMessage, Flags = 0,
      Payload = PutUint16 V2TypeUDPPacketBinary @ demo_body\<rparr>) = None"
  using udp_encode_fits [of "NewConn idle" "Some demo_packet"]
  by (simp add: demo_packet_encoded NewConn_def idle_def)

end
