(* ===== verification/Go_Strings.thy ===== *)
theory Go_Strings
  imports Prelude "HOL-Library.Sublist" "HOL-Library.Char_ord" "HOL-Library.List_Lexorder"
begin

text \<open>
  The operations of Go's \<open>strings\<close>, \<open>strconv\<close> and \<open>net\<close> packages that the modelled sources
  call: prefixes, splitting and joining, ASCII lower case, decimal printing and parsing of
  64-bit integers, and \<open>net.SplitHostPort\<close>.
\<close>

section \<open>strings\<close>

definition HasPrefix :: "string \<Rightarrow> string \<Rightarrow> bool" where
  "HasPrefix s p \<longleftrightarrow> prefix p s"

definition HasSuffix :: "string \<Rightarrow> string \<Rightarrow> bool" where
  "HasSuffix s p \<longleftrightarrow> suffix p s"

text \<open>\<open>strings.Split\<close> with a one-byte separator: never empty, one more part than separators.\<close>

fun Split :: "char \<Rightarrow> string \<Rightarrow> string list" where
  "Split c [] = [[]]"
| "Split c (x # xs) =
     (if x = c then [] # Split c xs
      else (case Split c xs of [] \<Rightarrow> [[x]] | p # ps \<Rightarrow> (x # p) # ps))"

fun Join :: "string list \<Rightarrow> string \<Rightarrow> string" where
  "Join [] sep = []"
| "Join [p] sep = p"
| "Join (p # q # ps) sep = p @ sep @ Join (q # ps) sep"

lemma Split_nonempty [simp, go_str]: "Split c s \<noteq> []"
  by (induction s) (auto split: list.splits)

lemma Join_Split [simp, go_str]: "Join (Split c s) [c] = s"
proof (induction s)
  case Nil
  then show ?case by simp
next
  case (Cons x xs)
  obtain p ps where "Split c xs = p # ps"
    by (cases "Split c xs") auto
  with Cons show ?case
    by (cases ps) auto
qed

lemma Split_no_sep: "p \<in> set (Split c s) \<Longrightarrow> c \<notin> set p"
proof (induction s arbitrary: p)
  case Nil
  then show ?case by simp
next
  case (Cons x xs)
  then show ?case
    by (cases "Split c xs") (auto split: if_splits)
qed

lemma Split_plain: "c \<notin> set s \<Longrightarrow> Split c s = [s]"
  by (induction s) auto

lemma Split_append: "c \<notin> set p \<Longrightarrow> Split c (p @ c # s) = p # Split c s"
  by (induction p) auto

lemma Split_Join:
  "ps \<noteq> [] \<Longrightarrow> \<forall>p \<in> set ps. c \<notin> set p \<Longrightarrow> Split c (Join ps [c]) = ps"
  by (induction ps "[c]" rule: Join.induct) (auto simp: Split_plain Split_append)

text \<open>
  \<open>strings.ToLower\<close> maps the bytes of an ASCII string one by one; for any other string it
  applies the Unicode case tables, which are the argument \<open>uni\<close>.
\<close>

definition lower_char :: "char \<Rightarrow> char" where
  "lower_char c = (if CHR ''A'' \<le> c \<and> c \<le> CHR ''Z'' then char_of (of_char c + 32 :: nat) else c)"

definition is_ascii :: "string \<Rightarrow> bool" where
  "is_ascii s \<longleftrightarrow> list_all (\<lambda>c. (of_char c :: nat) < 128) s"

definition ToLower :: "(string \<Rightarrow> string) \<Rightarrow> string \<Rightarrow> string" where
  "ToLower uni s = (if is_ascii s then map lower_char s else uni s)"

section \<open>strconv\<close>

definition digit :: "nat \<Rightarrow> char" where
  "digit d = char_of (48 + d)"

fun nat_str :: "nat \<Rightarrow> string" where
  "nat_str n = (if n < 10 then [digit n] else nat_str (n div 10) @ [digit (n mod 10)])"

declare nat_str.simps [simp del]

definition Itoa :: "int \<Rightarrow> string" where
  "Itoa i = (if i < 0 then CHR ''-'' # nat_str (nat (- i)) else nat_str (nat i))"

definition is_digit :: "char \<Rightarrow> bool" where
  "is_digit c \<longleftrightarrow> CHR ''0'' \<le> c \<and> c \<le> CHR ''9''"

definition digits_val :: "string \<Rightarrow> nat" where
  "digits_val s = foldl (\<lambda>a c. a * 10 + (of_char c - 48)) 0 s"

text \<open>
  \<open>strconv.ParseUint(s, 10, bits)\<close> and \<open>strconv.ParseInt(s, 10, 64)\<close>: \<open>None\<close> is a syntax or a
  range error. \<open>strconv.Atoi\<close> is \<open>ParseInt\<close> at the width of \<open>int\<close>, 64 bits.
\<close>

definition ParseUint :: "nat \<Rightarrow> string \<Rightarrow> nat option" where
  "ParseUint bits s =
     (if s \<noteq> [] \<and> list_all is_digit s \<and> digits_val s < 2 ^ bits then Some (digits_val s) else None)"

definition ParseInt :: "string \<Rightarrow> int option" where
  "ParseInt s =
     (case s of
        [] \<Rightarrow> None
      | c # cs \<Rightarrow>
          (if c = CHR ''-'' then
             (case ParseUint 64 cs of
                None \<Rightarrow> None
              | Some u \<Rightarrow> if u > 2 ^ 63 then None else Some (- int u))
           else
             (case ParseUint 64 (if c = CHR ''+'' then cs else s) of
                None \<Rightarrow> None
              | Some u \<Rightarrow> if u \<ge> 2 ^ 63 then None else Some (int u))))"

definition Atoi :: "string \<Rightarrow> int option" where
  "Atoi s = ParseInt s"

lemma of_char_digit: "d < 10 \<Longrightarrow> (of_char (digit d) :: nat) = 48 + d"
  by (simp add: digit_def)

lemma is_digit_code: "is_digit c \<longleftrightarrow> 48 \<le> (of_char c :: nat) \<and> (of_char c :: nat) \<le> 57"
  by (simp add: is_digit_def less_eq_char_def)

lemma is_digit_digit [simp, go_str]: "d < 10 \<Longrightarrow> is_digit (digit d)"
  by (simp add: is_digit_code of_char_digit)

lemma digits_val_snoc [simp]: "digits_val (s @ [c]) = digits_val s * 10 + (of_char c - 48)"
  by (simp add: digits_val_def)

lemma nat_str_digits [simp, go_str]: "list_all is_digit (nat_str n)"
proof (induction n rule: nat_str.induct)
  case (1 n)
  then show ?case by (cases "n < 10") (simp_all add: nat_str.simps [of n])
qed

lemma digits_val_nat_str [simp, go_str]: "digits_val (nat_str n) = n"
proof (induction n rule: nat_str.induct)
  case (1 n)
  show ?case
  proof (cases "n < 10")
    case True
    then show ?thesis
      by (simp add: nat_str.simps [of n] digits_val_def of_char_digit)
  next
    case False
    with "1.IH" show ?thesis
      by (simp add: nat_str.simps [of n] of_char_digit)
  qed
qed

lemma nat_str_nonempty [simp, go_str]: "nat_str n \<noteq> []"
  by (subst nat_str.simps) simp

lemma ParseUint_nat_str [simp, go_str]: "n < 2 ^ bits \<Longrightarrow> ParseUint bits (nat_str n) = Some n"
  by (simp add: ParseUint_def)

lemma nat_str_hd: "c \<in> set (nat_str n) \<Longrightarrow> is_digit c"
  using nat_str_digits [of n] by (simp add: list_all_iff)

lemma nat_str_no_sign [simp, go_str]:
  "CHR ''-'' \<notin> set (nat_str n)" "CHR ''+'' \<notin> set (nat_str n)" "CHR '','' \<notin> set (nat_str n)"
  "CHR '':'' \<notin> set (nat_str n)" "CHR '' '' \<notin> set (nat_str n)"
  by (auto dest!: nat_str_hd simp: is_digit_code)

lemma ParseInt_nat_str: "n < 2 ^ 63 \<Longrightarrow> ParseInt (nat_str n) = Some (int n)"
proof -
  assume n: "n < 2 ^ 63"
  obtain c cs where s: "nat_str n = c # cs"
    by (cases "nat_str n") auto
  then have "c \<noteq> CHR ''-''" "c \<noteq> CHR ''+''"
    using nat_str_no_sign [of n] by (metis list.set_intros(1))+
  moreover have "ParseUint 64 (c # cs) = Some n"
    using n by (simp flip: s)
  ultimately show ?thesis
    using n by (simp add: ParseInt_def s)
qed

lemma ParseInt_Itoa [simp, go_str]: "- (2 ^ 63) \<le> i \<Longrightarrow> i < 2 ^ 63 \<Longrightarrow> ParseInt (Itoa i) = Some i"
proof (cases "i < 0")
  case True
  assume "- (2 ^ 63) \<le> i"
  with True have "ParseUint 64 (nat_str (nat (- i))) = Some (nat (- i))" and "nat (- i) \<le> 2 ^ 63"
    by (simp_all add: nat_le_iff)
  with True show ?thesis
    by (simp add: Itoa_def ParseInt_def)
next
  case False
  assume "i < 2 ^ 63"
  with False show ?thesis
    by (simp add: Itoa_def ParseInt_nat_str nat_less_iff)
qed

lemma ParseInt_range: "ParseInt s = Some i \<Longrightarrow> - (2 ^ 63) \<le> i \<and> i < 2 ^ 63"
  by (auto simp: ParseInt_def split: list.splits if_splits option.splits)

section \<open>net.SplitHostPort\<close>

text \<open>
  The host and the port of \<open>host:port\<close>, \<open>[host]:port\<close> or \<open>[host%zone]:port\<close>; \<open>None\<close> is the
  address error. \<open>first_index\<close> and \<open>last_index\<close> are the byte searches of \<open>internal/bytealg\<close>.
\<close>

fun first_index :: "char \<Rightarrow> string \<Rightarrow> nat option" where
  "first_index c [] = None"
| "first_index c (x # xs) = (if x = c then Some 0 else map_option Suc (first_index c xs))"

definition last_index :: "char \<Rightarrow> string \<Rightarrow> nat option" where
  "last_index c s = map_option (\<lambda>i. length s - 1 - i) (first_index c (rev s))"

definition SplitHostPort :: "string \<Rightarrow> (string \<times> string) option" where
  "SplitHostPort hp =
     (case last_index CHR '':'' hp of
        None \<Rightarrow> None
      | Some i \<Rightarrow>
          (if hp ! 0 = CHR ''['' then
             (case first_index CHR '']'' hp of
                None \<Rightarrow> None
              | Some e \<Rightarrow>
                  (if e + 1 = i \<and> e + 1 \<noteq> length hp
                      \<and> CHR ''['' \<notin> set (drop 1 hp) \<and> CHR '']'' \<notin> set (drop (e + 1) hp)
                   then Some (take (e - 1) (drop 1 hp), drop (i + 1) hp)
                   else None))
           else
             (if CHR '':'' \<notin> set (take i hp)
                 \<and> CHR ''['' \<notin> set hp \<and> CHR '']'' \<notin> set hp
              then Some (take i hp, drop (i + 1) hp)
              else None)))"

lemma SplitHostPort_plain: "SplitHostPort ''1.2.3.4:80'' = Some (''1.2.3.4'', ''80'')"
  by code_simp

lemma SplitHostPort_brackets: "SplitHostPort ''[::1]:80'' = Some (''::1'', ''80'')"
  by code_simp

lemma SplitHostPort_missing: "SplitHostPort ''example'' = None"
  by code_simp

end
