(* ===== verification/Registry.thy ===== *)
theory Registry
  imports Go_Strings Interfaces
begin

text \<open>
  The client registry of the server (\<open>server/registry/registry.go\<close>). Every client object is
  stored under one key only, so the map of pointers is a map of records. Times are integers
  with 0 the zero \<open>time.Time\<close>; \<open>now\<close> is the clock at the call.
\<close>

section \<open>State and operations\<close>

record ClientInfo =
  Key :: string
  User :: string
  RawClientID :: string
  RunID :: string
  ControlID :: "64 word"
  Hostname :: string
  ClientIP :: string
  Version :: string
  WireProtocol :: string
  FirstConnectedAt :: int
  LastConnectedAt :: int
  DisconnectedAt :: int
  Online :: bool

record ClientRegistry =
  clients :: "string \<rightharpoonup> ClientInfo"
  runIndex :: "string \<rightharpoonup> string"

definition NewClientRegistry :: ClientRegistry where
  "NewClientRegistry = \<lparr>clients = Map.empty, runIndex = Map.empty\<rparr>"

definition composeClientKey :: "string \<Rightarrow> string \<Rightarrow> string" where
  "composeClientKey user i = (if user = [] then i else if i = [] then user else user @ ''.'' @ i)"

definition setClientOffline :: "ClientInfo \<Rightarrow> int \<Rightarrow> ClientInfo" where
  "setClientOffline info now = info\<lparr>RunID := [], ControlID := 0, Online := False, DisconnectedAt := now\<rparr>"

text \<open>The registration data of a login.\<close>

record reg_args =
  ra_user :: string
  ra_rawClientID :: string
  ra_runID :: string
  ra_hostname :: string
  ra_version :: string
  ra_remoteAddr :: string
  ra_wireProtocol :: string

definition client_key :: "reg_args \<Rightarrow> string" where
  "client_key a = composeClientKey (ra_user a) (if ra_rawClientID a = [] then ra_runID a else ra_rawClientID a)"

text \<open>Dropping the entry that the run id was registered under before, when the key changes.\<close>

definition drop_previous :: "ClientRegistry \<Rightarrow> string \<Rightarrow> string \<Rightarrow> int \<Rightarrow> ClientRegistry" where
  "drop_previous cr runID key now =
     (case runIndex cr runID of
        None \<Rightarrow> cr
      | Some previousKey \<Rightarrow>
          if previousKey = key then cr
          else
            (case clients cr previousKey of
               None \<Rightarrow> cr
             | Some previous \<Rightarrow>
                 if RunID previous \<noteq> runID then cr
                 else if RawClientID previous = [] then cr\<lparr>clients := (clients cr)(previousKey := None)\<rparr>
                 else cr\<lparr>clients := (clients cr)(previousKey \<mapsto> setClientOffline previous now)\<rparr>)
            \<lparr>runIndex := (runIndex cr)(runID := None)\<rparr>)"

definition fill_info :: "ClientInfo \<Rightarrow> reg_args \<Rightarrow> 64 word \<Rightarrow> int \<Rightarrow> ClientInfo" where
  "fill_info info a controlID now =
     info\<lparr>RawClientID := ra_rawClientID a, RunID := ra_runID a, ControlID := controlID,
          Hostname := ra_hostname a, ClientIP := ra_remoteAddr a, Version := ra_version a,
          WireProtocol := ra_wireProtocol a,
          FirstConnectedAt := (if FirstConnectedAt info = 0 then now else FirstConnectedAt info),
          LastConnectedAt := now, DisconnectedAt := 0, Online := True\<rparr>"

definition new_info :: "string \<Rightarrow> string \<Rightarrow> int \<Rightarrow> ClientInfo" where
  "new_info key user now =
     \<lparr>Key = key, User = user, RawClientID = [], RunID = [], ControlID = 0, Hostname = [], ClientIP = [],
      Version = [], WireProtocol = [], FirstConnectedAt = now, LastConnectedAt = 0, DisconnectedAt = 0,
      Online = False\<rparr>"

definition RegisterWithControlID ::
    "ClientRegistry \<Rightarrow> reg_args \<Rightarrow> 64 word \<Rightarrow> int \<Rightarrow> ClientRegistry \<times> string \<times> bool" where
  "RegisterWithControlID cr a controlID now =
     (if ra_runID a = [] then (cr, [], False)
      else
        let key = client_key a; existing = clients cr key in
        if ra_rawClientID a \<noteq> [] \<and>
           (case existing of None \<Rightarrow> False | Some info \<Rightarrow> Online info \<and> RunID info \<noteq> [] \<and> RunID info \<noteq> ra_runID a)
        then (cr, key, True)
        else
          let cr1 = drop_previous cr (ra_runID a) key now;
              info = (case existing of None \<Rightarrow> new_info key (ra_user a) now | Some info \<Rightarrow> info);
              idx = (case existing of
                       None \<Rightarrow> runIndex cr1
                     | Some info \<Rightarrow>
                         if RunID info \<noteq> [] then (runIndex cr1)(RunID info := None) else runIndex cr1)
          in (\<lparr>clients = (clients cr1)(key \<mapsto> fill_info info a controlID now),
               runIndex = idx(ra_runID a \<mapsto> key)\<rparr>, key, False))"

definition Register :: "ClientRegistry \<Rightarrow> reg_args \<Rightarrow> int \<Rightarrow> ClientRegistry \<times> string \<times> bool" where
  "Register cr a now = RegisterWithControlID cr a 0 now"

definition markOfflineByRunID ::
    "ClientRegistry \<Rightarrow> string \<Rightarrow> 64 word \<Rightarrow> bool \<Rightarrow> int \<Rightarrow> ClientRegistry" where
  "markOfflineByRunID cr runID controlID matchControlID now =
     (case runIndex cr runID of
        None \<Rightarrow> cr
      | Some key \<Rightarrow>
          let cs = (case clients cr key of
                      None \<Rightarrow> clients cr
                    | Some info \<Rightarrow>
                        if RunID info = runID \<and> (\<not> matchControlID \<or> ControlID info = controlID)
                        then if RawClientID info = [] then (clients cr)(key := None)
                             else (clients cr)(key \<mapsto> setClientOffline info now)
                        else clients cr);
              idx = (case cs key of
                       None \<Rightarrow> (runIndex cr)(runID := None)
                     | Some info \<Rightarrow>
                         if RunID info \<noteq> runID then (runIndex cr)(runID := None) else runIndex cr)
          in \<lparr>clients = cs, runIndex = idx\<rparr>)"

definition MarkOfflineByRunID :: "ClientRegistry \<Rightarrow> string \<Rightarrow> int \<Rightarrow> ClientRegistry" where
  "MarkOfflineByRunID cr runID now = markOfflineByRunID cr runID 0 False now"

definition MarkOfflineByRunIDAndControlID ::
    "ClientRegistry \<Rightarrow> string \<Rightarrow> 64 word \<Rightarrow> int \<Rightarrow> ClientRegistry" where
  "MarkOfflineByRunIDAndControlID cr runID controlID now = markOfflineByRunID cr runID controlID True now"

text \<open>\<open>List\<close> in the iteration order \<open>ks\<close> of the keys.\<close>

definition ListClients :: "ClientRegistry \<Rightarrow> string list \<Rightarrow> ClientInfo list" where
  "ListClients cr ks = List.map_filter (clients cr) ks"

definition GetByKey :: "ClientRegistry \<Rightarrow> string \<Rightarrow> ClientInfo option" where
  "GetByKey cr key = clients cr key"

definition ClientID :: "ClientInfo \<Rightarrow> string" where
  "ClientID info = (if RawClientID info \<noteq> [] then RawClientID info else RunID info)"

section \<open>Invariant\<close>

text \<open>
  The index lists exactly the online entries: a run id leads to the entry that carries it, an
  entry is online exactly when it carries a run id, and an entry without a client id of its
  own is never kept offline.
\<close>

definition reg_inv :: "ClientRegistry \<Rightarrow> bool" where
  "reg_inv cr \<longleftrightarrow>
     (\<forall>r k. runIndex cr r = Some k \<longrightarrow> r \<noteq> [] \<and> (\<exists>info. clients cr k = Some info \<and> RunID info = r)) \<and>
     (\<forall>k info. clients cr k = Some info \<longrightarrow>
        Key info = k \<and> Online info = (RunID info \<noteq> []) \<and>
        (RunID info \<noteq> [] \<longrightarrow> runIndex cr (RunID info) = Some k) \<and>
        (\<not> Online info \<longrightarrow> RawClientID info \<noteq> [] \<and> ControlID info = 0))"

lemma NewClientRegistry_inv: "reg_inv NewClientRegistry"
  by (simp add: reg_inv_def NewClientRegistry_def)

lemma reg_invD:
  assumes "reg_inv cr"
  shows "runIndex cr r = Some k \<Longrightarrow> \<exists>info. clients cr k = Some info \<and> RunID info = r \<and> r \<noteq> []"
    and "clients cr k = Some info \<Longrightarrow> RunID info \<noteq> [] \<Longrightarrow> runIndex cr (RunID info) = Some k"
    and "clients cr k = Some info \<Longrightarrow> Key info = k \<and> Online info = (RunID info \<noteq> [])"
    and "clients cr k = Some info \<Longrightarrow> \<not> Online info \<Longrightarrow> RawClientID info \<noteq> [] \<and> ControlID info = 0"
  using assms unfolding reg_inv_def by blast+

lemma drop_previous_spec:
  assumes "reg_inv cr" and "runID \<noteq> []"
  shows "runIndex (drop_previous cr runID key now) r =
      (if r = runID \<and> runIndex cr runID \<noteq> Some key then None else runIndex cr r)"
    and "clients (drop_previous cr runID key now) k =
      (case clients cr k of
         None \<Rightarrow> None
       | Some info \<Rightarrow>
           if RunID info = runID \<and> k \<noteq> key
           then if RawClientID info = [] then None else Some (setClientOffline info now)
           else Some info)"
proof -
  note i = reg_invD [OF assms(1)]
  show "runIndex (drop_previous cr runID key now) r =
      (if r = runID \<and> runIndex cr runID \<noteq> Some key then None else runIndex cr r)"
    using i(1) [of runID] by (auto simp: drop_previous_def split: option.splits)
  show "clients (drop_previous cr runID key now) k =
      (case clients cr k of
         None \<Rightarrow> None
       | Some info \<Rightarrow>
           if RunID info = runID \<and> k \<noteq> key
           then if RawClientID info = [] then None else Some (setClientOffline info now)
           else Some info)"
  proof (cases "runIndex cr runID")
    case None
    then have "RunID info \<noteq> runID" if "clients cr k = Some info" for info
      using i(2) [OF that] assms(2) by auto
    then show ?thesis using None by (auto simp: drop_previous_def split: option.splits)
  next
    case (Some p)
    from i(1) [OF this] obtain pi where pi: "clients cr p = Some pi" "RunID pi = runID" by auto
    have "k = p" if "clients cr k = Some info" "RunID info = runID" for info
      using i(2) [OF that(1)] that(2) assms(2) Some by auto
    then have "k \<noteq> p \<Longrightarrow> clients cr k = Some info \<Longrightarrow> RunID info \<noteq> runID" for info by blast
    then show ?thesis
      using Some pi by (cases "k = p"; cases "clients cr k"; cases "p = key") (simp_all add: drop_previous_def)
  qed
qed

lemma RegisterWithControlID_eq:
  assumes "ra_runID a \<noteq> []" and "\<not> snd (snd (RegisterWithControlID cr a cid now))"
    and "cr' = fst (RegisterWithControlID cr a cid now)" and "reg_inv cr"
  shows "clients cr' k =
      (if k = client_key a
       then Some (fill_info (case clients cr k of None \<Rightarrow> new_info k (ra_user a) now | Some info \<Rightarrow> info) a cid now)
       else clients (drop_previous cr (ra_runID a) (client_key a) now) k)"
    and "runIndex cr' r =
      (if r = ra_runID a then Some (client_key a)
       else if (case clients cr (client_key a) of None \<Rightarrow> False | Some info \<Rightarrow> RunID info = r \<and> r \<noteq> []) then None
       else runIndex cr r)"
  using assms drop_previous_spec [OF assms(4,1)]
  by (auto simp: RegisterWithControlID_def Let_def split: option.splits if_splits)

lemma Register_inv:
  assumes "reg_inv cr"
  shows "reg_inv (fst (RegisterWithControlID cr a cid now))"
proof (cases "ra_runID a = [] \<or> snd (snd (RegisterWithControlID cr a cid now))")
  case True
  with assms show ?thesis by (auto simp: RegisterWithControlID_def Let_def split: option.splits if_splits)
next
  case False
  define cr' where "cr' = fst (RegisterWithControlID cr a cid now)"
  have r: "ra_runID a \<noteq> []" and nc: "\<not> snd (snd (RegisterWithControlID cr a cid now))" using False by auto
  note eq = RegisterWithControlID_eq [OF r nc cr'_def assms]
  note dp = drop_previous_spec [OF assms r]
  note i = reg_invD [OF assms]
  have "\<exists>info. clients cr' k = Some info \<and> RunID info = q \<and> q \<noteq> []" if q: "runIndex cr' q = Some k" for q k
  proof (cases "q = ra_runID a")
    case True
    with q eq r show ?thesis by (simp add: fill_info_def)
  next
    case False
    with q eq(2) [of q] have old: "runIndex cr q = Some k"
      and nk: "\<not> (case clients cr (client_key a) of None \<Rightarrow> False | Some info \<Rightarrow> RunID info = q \<and> q \<noteq> [])"
      by (auto split: if_splits)
    from i(1) [OF old] obtain info where info: "clients cr k = Some info" "RunID info = q" "q \<noteq> []" by auto
    with nk have "k \<noteq> client_key a" by auto
    with info False eq(1) [of k] dp(2) show ?thesis by simp
  qed
  moreover have "Key info = k \<and> Online info = (RunID info \<noteq> []) \<and>
      (RunID info \<noteq> [] \<longrightarrow> runIndex cr' (RunID info) = Some k) \<and>
      (\<not> Online info \<longrightarrow> RawClientID info \<noteq> [] \<and> ControlID info = 0)" if k: "clients cr' k = Some info" for k info
  proof (cases "k = client_key a")
    case True
    with k eq r i(3) [of k] show ?thesis by (auto simp: fill_info_def new_info_def split: option.splits)
  next
    case False
    with k eq(1) [of k] dp(2) [where key = "client_key a" and now = now and k = k] obtain old where
      old: "clients cr k = Some old" "info = old \<and> RunID old \<noteq> ra_runID a \<or> info = setClientOffline old now \<and> RawClientID old \<noteq> []"
      by (auto split: option.splits if_splits)
    have "runIndex cr' (RunID old) = Some k" if "RunID old \<noteq> ra_runID a" "RunID old \<noteq> []"
    proof -
      have "runIndex cr (RunID old) = Some k" using i(2) [OF old(1) that(2)] .
      moreover have "RunID x \<noteq> RunID old" if "clients cr (client_key a) = Some x" for x
        using i(2) [OF that] \<open>RunID old \<noteq> []\<close> calculation False by auto
      ultimately show ?thesis using eq(2) [of "RunID old"] that by (auto split: option.splits)
    qed
    with old(2) i(3,4) [OF old(1)] show ?thesis by (auto simp: setClientOffline_def)
  qed
  ultimately show ?thesis unfolding cr'_def [symmetric] reg_inv_def by blast
qed

text \<open>The effect of a disconnect, given the invariant.\<close>

lemma markOffline_eq:
  assumes "reg_inv cr"
  shows "markOfflineByRunID cr runID cid m now =
    (case runIndex cr runID of
       None \<Rightarrow> cr
     | Some key \<Rightarrow>
         (case clients cr key of
            None \<Rightarrow> cr
          | Some info \<Rightarrow>
              if m \<and> ControlID info \<noteq> cid then cr
              else \<lparr>clients = (clients cr)(key := (if RawClientID info = [] then None
                                                 else Some (setClientOffline info now))),
                    runIndex = (runIndex cr)(runID := None)\<rparr>))"
proof (cases "runIndex cr runID")
  case None
  then show ?thesis by (simp add: markOfflineByRunID_def)
next
  case (Some key)
  from reg_invD(1) [OF assms Some] obtain info where "clients cr key = Some info" "RunID info = runID" "runID \<noteq> []"
    by auto
  with Some show ?thesis by (auto simp: markOfflineByRunID_def Let_def setClientOffline_def)
qed

lemma markOffline_inv:
  assumes "reg_inv cr"
  shows "reg_inv (markOfflineByRunID cr runID cid m now)"
proof (cases "markOfflineByRunID cr runID cid m now = cr")
  case False
  then obtain key info where k: "runIndex cr runID = Some key" "clients cr key = Some info"
    "markOfflineByRunID cr runID cid m now =
       \<lparr>clients = (clients cr)(key := (if RawClientID info = [] then None else Some (setClientOffline info now))),
        runIndex = (runIndex cr)(runID := None)\<rparr>"
    by (auto simp: markOffline_eq [OF assms] split: option.splits if_splits)
  have r: "RunID info = runID" "runID \<noteq> []" using reg_invD(1) [OF assms k(1)] k(2) by auto
  have only: "x = key" if "clients cr x = Some y" "RunID y = runID" for x y
    using reg_invD(2) [OF assms that(1)] that(2) r k(1) by auto
  let ?e = "if RawClientID info = [] then None else Some (setClientOffline info now)"
  have "q \<noteq> [] \<and> (\<exists>y. ((clients cr)(key := ?e)) x = Some y \<and> RunID y = q)"
    if "((runIndex cr)(runID := None)) q = Some x" for q x
  proof -
    have q: "q \<noteq> runID" "runIndex cr q = Some x" using that by (auto split: if_splits)
    with reg_invD(1) [OF assms q(2)] k(2) r have "x \<noteq> key" by auto
    with reg_invD(1) [OF assms q(2)] show ?thesis by auto
  qed
  moreover have "Key y = x \<and> Online y = (RunID y \<noteq> []) \<and> (RunID y \<noteq> [] \<longrightarrow> ((runIndex cr)(runID := None)) (RunID y) = Some x) \<and>
      (\<not> Online y \<longrightarrow> RawClientID y \<noteq> [] \<and> ControlID y = 0)" if "((clients cr)(key := ?e)) x = Some y" for x y
  proof (cases "x = key")
    case True
    with that reg_invD(3) [OF assms k(2)] show ?thesis by (auto simp: setClientOffline_def split: if_splits)
  next
    case False
    with that have y: "clients cr x = Some y" by simp
    with only False have "RunID y \<noteq> runID" by blast
    with reg_invD(2,3,4) [OF assms y] show ?thesis by auto
  qed
  ultimately show ?thesis unfolding k(3) reg_inv_def ClientRegistry.select_convs by blast
qed (use assms in simp)

section \<open>Runs\<close>

datatype reg_op =
    OpRegister reg_args "64 word" int
  | OpOffline string int
  | OpOfflineControl string "64 word" int

fun reg_step :: "ClientRegistry \<Rightarrow> reg_op \<Rightarrow> ClientRegistry" where
  "reg_step cr (OpRegister a cid now) = fst (RegisterWithControlID cr a cid now)"
| "reg_step cr (OpOffline runID now) = MarkOfflineByRunID cr runID now"
| "reg_step cr (OpOfflineControl runID cid now) = MarkOfflineByRunIDAndControlID cr runID cid now"

interpretation registry: op_machine reg_step "\<lambda>_ _. True" reg_inv
proof
  show "reg_inv (reg_step cr p)" if "reg_inv cr" for cr p
    using that by (cases p)
      (simp_all add: Register_inv markOffline_inv MarkOfflineByRunID_def MarkOfflineByRunIDAndControlID_def)
qed

section \<open>Properties\<close>

text \<open>
  C16. After any sequence of logins and disconnects the registry is consistent: at most one
  entry is online for a run id, and it is the one that the run index names; an entry is online
  exactly when it carries a run id; and entries without a client id of their own are not kept
  once they are offline.
\<close>

theorem registry_consistent:
  "let cr = run_ops reg_step NewClientRegistry ops in
   (\<forall>r k. runIndex cr r = Some k \<longleftrightarrow> r \<noteq> [] \<and> (\<exists>info. GetByKey cr k = Some info \<and> RunID info = r)) \<and>
   (\<forall>k info. GetByKey cr k = Some info \<longrightarrow>
      Key info = k \<and> Online info = (RunID info \<noteq> []) \<and> (RawClientID info = [] \<longrightarrow> Online info))"
proof -
  have "reg_inv (run_ops reg_step NewClientRegistry ops)"
    by (rule registry.run_inv [OF NewClientRegistry_inv]) simp
  note i = reg_invD [OF this]
  let ?cr = "run_ops reg_step NewClientRegistry ops"
  have "runIndex ?cr r = Some k \<longleftrightarrow> r \<noteq> [] \<and> (\<exists>info. clients ?cr k = Some info \<and> RunID info = r)" for r k
    using i(1) [of r k] i(2) [of k] by blast
  moreover have "Key info = k \<and> Online info = (RunID info \<noteq> []) \<and> (RawClientID info = [] \<longrightarrow> Online info)"
    if "clients ?cr k = Some info" for k info
    using i(3,4) [OF that] by blast
  ultimately show ?thesis unfolding Let_def GetByKey_def by blast
qed

definition demo_login :: reg_args where
  "demo_login = \<lparr>ra_user = ''alice'', ra_rawClientID = ''pi'', ra_runID = ''r1'', ra_hostname = ''h'',
     ra_version = ''0.66'', ra_remoteAddr = ''10.0.0.1'', ra_wireProtocol = ''v2''\<rparr>"

theorem registry_consistent_witness:
  "runIndex (run_ops reg_step NewClientRegistry [OpRegister demo_login 3 10]) ''r1'' = Some ''alice.pi''"
  using registry_consistent [of "[OpRegister demo_login 3 10]"]
  by (simp add: Let_def GetByKey_def RegisterWithControlID_def NewClientRegistry_def demo_login_def client_key_def
      composeClientKey_def drop_previous_def fill_info_def)

text \<open>
  A disconnect that names a control generation only ever affects the entry of that
  generation: if the registry entry for the run id belongs to another control, the registry is
  unchanged; if it belongs to this one, the entry goes offline, or away when it has no client
  id of its own, the run id is free again, and every other entry is as before.
\<close>

lemma offline_by_generation:
  assumes "reg_inv cr"
  shows "MarkOfflineByRunIDAndControlID cr runID cid now =
    (case runIndex cr runID of
       None \<Rightarrow> cr
     | Some key \<Rightarrow>
         (case clients cr key of
            None \<Rightarrow> cr
          | Some info \<Rightarrow>
              if ControlID info \<noteq> cid then cr
              else \<lparr>clients = (clients cr)(key := (if RawClientID info = [] then None
                                                 else Some (setClientOffline info now))),
                    runIndex = (runIndex cr)(runID := None)\<rparr>))"
  using markOffline_eq [OF assms, of runID cid True now]
  by (auto simp: MarkOfflineByRunIDAndControlID_def split: option.splits)

theorem offline_by_generation_witness:
  "MarkOfflineByRunIDAndControlID (fst (RegisterWithControlID NewClientRegistry demo_login 3 10)) ''r1'' 2 20 =
   fst (RegisterWithControlID NewClientRegistry demo_login 3 10)"
proof -
  let ?cr = "fst (RegisterWithControlID NewClientRegistry demo_login 3 10)"
  have "runIndex ?cr ''r1'' = Some ''alice.pi''" "map_option ControlID (clients ?cr ''alice.pi'') = Some 3"
    by code_simp+
  then show ?thesis
    using offline_by_generation [OF Register_inv [OF NewClientRegistry_inv], of demo_login 3 10 "''r1''" 2 20]
    by auto
qed

text \<open>
  A login with a client id is refused exactly when another run id is online under its key,
  and then nothing changes; otherwise the entry under the key is online with this run id and
  this control, and no other run id leads to that key any more.
\<close>

lemma register_outcome:
  assumes "reg_inv cr" and "ra_runID a \<noteq> []" and "ra_rawClientID a \<noteq> []"
  shows "case RegisterWithControlID cr a cid now of (cr', key, conflict) \<Rightarrow>
    key = client_key a \<and>
    conflict = (\<exists>info. clients cr key = Some info \<and> Online info \<and> RunID info \<noteq> ra_runID a) \<and>
    (if conflict then cr' = cr
     else (\<exists>info. clients cr' key = Some info \<and> Online info \<and> RunID info = ra_runID a \<and> ControlID info = cid) \<and>
          (\<forall>r. runIndex cr' r = Some key \<longleftrightarrow> r = ra_runID a))"
proof (cases "snd (snd (RegisterWithControlID cr a cid now))")
  case True
  then show ?thesis
    using assms by (auto simp: RegisterWithControlID_def Let_def split: option.splits if_splits)
next
  case False
  define cr' where "cr' = fst (RegisterWithControlID cr a cid now)"
  have q: "RegisterWithControlID cr a cid now = (cr', client_key a, False)"
    using False assms(2) by (auto simp: cr'_def RegisterWithControlID_def Let_def)
  have inv: "reg_inv cr'" unfolding cr'_def by (rule Register_inv [OF assms(1)])
  obtain info where info: "clients cr' (client_key a) = Some info" "Online info" "RunID info = ra_runID a" "ControlID info = cid"
    using RegisterWithControlID_eq(1) [OF assms(2) False cr'_def assms(1), of "client_key a"]
    by (auto simp: fill_info_def)
  moreover have "runIndex cr' r = Some (client_key a) \<longleftrightarrow> r = ra_runID a" for r
    using reg_invD(1) [OF inv, of r "client_key a"] reg_invD(2) [OF inv info(1)] info assms(2) by auto
  moreover have "\<not> (\<exists>info. clients cr (client_key a) = Some info \<and> Online info \<and> RunID info \<noteq> ra_runID a)"
    using False assms(2,3) reg_invD(3) [OF assms(1)]
    by (auto simp: RegisterWithControlID_def Let_def split: option.splits if_splits)
  ultimately show ?thesis by (simp add: q)
qed

theorem register_outcome_witness:
  "case RegisterWithControlID (fst (RegisterWithControlID NewClientRegistry demo_login 3 10))
          (demo_login\<lparr>ra_runID := ''r2''\<rparr>) 4 20 of
     (cr', key, conflict) \<Rightarrow> key = ''alice.pi'' \<and> conflict \<and> cr' = fst (RegisterWithControlID NewClientRegistry demo_login 3 10)"
proof -
  let ?cr = "fst (RegisterWithControlID NewClientRegistry demo_login 3 10)"
  let ?a = "demo_login\<lparr>ra_runID := ''r2''\<rparr>"
  have "client_key ?a = ''alice.pi''"
    "(case clients ?cr ''alice.pi'' of None \<Rightarrow> False | Some info \<Rightarrow> Online info \<and> RunID info = ''r1'')"
    by code_simp+
  moreover have "ra_runID ?a \<noteq> []" "ra_rawClientID ?a \<noteq> []" by (simp_all add: demo_login_def)
  note register_outcome [OF Register_inv [OF NewClientRegistry_inv] this, of demo_login 3 10 4 20]
  ultimately show ?thesis by (auto split: option.splits prod.splits)
qed

text \<open>
  Two users can have the same key: a dot in the user name moves the boundary. Here the login
  of user \<open>a.b\<close> with client id \<open>c\<close> is refused because user \<open>a\<close> is online with client id \<open>b.c\<close>.
\<close>

lemma key_collision_between_users:
  "let a1 = demo_login\<lparr>ra_user := ''a'', ra_rawClientID := ''b.c'', ra_runID := ''r1''\<rparr>;
       a2 = demo_login\<lparr>ra_user := ''a.b'', ra_rawClientID := ''c'', ra_runID := ''r2''\<rparr>
   in client_key a1 = client_key a2 \<and>
      snd (snd (RegisterWithControlID (fst (RegisterWithControlID NewClientRegistry a1 1 10)) a2 2 20))"
  by code_simp

end
