(* ===== verification/Binding.thy ===== *)
theory Binding
  imports Wire "HOL-Library.Monad_Syntax"
begin

text \<open>
  The XTCP peer binding (\<open>pkg/xtcpbinding/binding.go\<close> and the proof exchange of \<open>peer.go\<close>):
  the manifest both peers agree on, its encoding, the role proofs and the signal proof. A
  Go array \<open>[32]byte\<close> is a byte list, and \<open>manifest_wf\<close> states the lengths that the type
  gives. SHA-256 and HMAC are the arguments \<open>H\<close> and \<open>mac\<close>. A result \<open>None\<close> is a panic.
\<close>

section \<open>Manifests\<close>

datatype binding_err = ErrBinding | ErrIO wire_err

definition Provider :: byte where "Provider = 1"

definition Visitor :: byte where "Visitor = 2"

definition ProofBytes :: nat where "ProofBytes = 69"

record Manifest =
  ProxyName :: string
  SID :: bytes
  ProviderControl :: bytes
  VisitorControl :: bytes
  ProviderNonce :: bytes
  VisitorNonce :: bytes
  ProviderSPKI :: bytes
  VisitorSPKI :: bytes
  IssuedAt :: "64 word"
  ExpiresAt :: "64 word"

definition Nonzero :: "bytes \<Rightarrow> bool" where
  "Nonzero b \<longleftrightarrow> list_ex (\<lambda>v. v \<noteq> 0) b"

definition ID :: "bytes \<Rightarrow> binding_err + bytes" where
  "ID b = (if length b \<noteq> 32 \<or> \<not> Nonzero b then Inl ErrBinding else Inr b)"

definition manifest_fields :: "Manifest \<Rightarrow> bytes list" where
  "manifest_fields m =
     [SID m, ProviderControl m, VisitorControl m, ProviderNonce m, VisitorNonce m, ProviderSPKI m, VisitorSPKI m]"

definition manifest_wf :: "Manifest \<Rightarrow> bool" where
  "manifest_wf m \<longleftrightarrow> list_all (\<lambda>f. length f = 32) (manifest_fields m)"

definition magic :: bytes where "magic = string_bytes ''EFRPXTC1''"

fun append_fields :: "bytes \<Rightarrow> bytes list \<Rightarrow> bytes option" where
  "append_fields out [] = Some out"
| "append_fields out (f # fs) = (if \<not> Nonzero f then None else append_fields (out @ f) fs)"

definition Encode :: "Manifest \<Rightarrow> binding_err + bytes" where
  "Encode m =
     (if length (ProxyName m) < 1 \<or> length (ProxyName m) > 128 \<or> \<not> utf8_ValidString (ProxyName m) \<or>
         IssuedAt m = 0 \<or> ExpiresAt m \<le> IssuedAt m \<or> ExpiresAt m - IssuedAt m > 60
      then Inl ErrBinding
      else if list_ex (\<lambda>v. v < 0x20 \<or> v = 0x7f) (string_bytes (ProxyName m)) then Inl ErrBinding
      else case append_fields (magic @ [word_of_nat (length (ProxyName m))] @ string_bytes (ProxyName m))
                  (manifest_fields m) of
        None \<Rightarrow> Inl ErrBinding
      | Some out \<Rightarrow> Inr (out @ PutUint64 (IssuedAt m) @ PutUint64 (ExpiresAt m)))"

text \<open>Seven fields of 32 bytes, each read with a bounds check.\<close>

fun read_fields :: "bytes \<Rightarrow> nat \<Rightarrow> nat \<Rightarrow> bytes list option" where
  "read_fields wire at 0 = Some []"
| "read_fields wire at (Suc n) = do {
     f \<leftarrow> slice wire at (at + 32);
     fs \<leftarrow> read_fields wire (at + 32) n;
     Some (f # fs)
   }"

definition Decode :: "bytes \<Rightarrow> 64 word \<Rightarrow> (binding_err + Manifest) option" where
  "Decode wire now =
     (if length wire < 250 \<or> length wire > 377 then Some (Inl ErrBinding)
      else do {
        h \<leftarrow> slice wire 0 8;
        n \<leftarrow> index wire 8;
        (if h \<noteq> magic \<or> n = 0 \<or> n > 128 \<or> length wire \<noteq> 249 + unat n then Some (Inl ErrBinding)
         else do {
           name \<leftarrow> slice wire 9 (9 + unat n);
           let at = 9 + unat n;
           fs \<leftarrow> read_fields wire at 7;
           let at = at + 7 * 32;
           t1 \<leftarrow> slice wire at (length wire);
           t2 \<leftarrow> slice wire (at + 8) (length wire);
           (let m = \<lparr>ProxyName = bytes_string name, SID = fs ! 0, ProviderControl = fs ! 1,
                  VisitorControl = fs ! 2, ProviderNonce = fs ! 3, VisitorNonce = fs ! 4,
                  ProviderSPKI = fs ! 5, VisitorSPKI = fs ! 6, IssuedAt = Uint64 t1, ExpiresAt = Uint64 t2\<rparr>
            in (case Encode m of
                  Inl e \<Rightarrow> Some (Inl ErrBinding)
                | Inr _ \<Rightarrow>
                    if now < IssuedAt m \<or> now \<ge> ExpiresAt m then Some (Inl ErrBinding)
                    else Some (Inr m)))
         })
      })"

definition Hash :: "(bytes \<Rightarrow> bytes) \<Rightarrow> Manifest \<Rightarrow> binding_err + bytes" where
  "Hash H m = map_sum id H (Encode m)"

definition CheckLocal :: "Manifest \<Rightarrow> byte \<Rightarrow> bytes \<Rightarrow> bytes \<Rightarrow> bytes \<Rightarrow> binding_err option" where
  "CheckLocal m role control nonce spki =
     (case Encode m of
        Inl e \<Rightarrow> Some e
      | Inr _ \<Rightarrow>
          if role \<noteq> Visitor \<and> role \<noteq> Provider then Some ErrBinding
          else let (c, n, s) = (if role = Visitor then (VisitorControl m, VisitorNonce m, VisitorSPKI m)
                                else (ProviderControl m, ProviderNonce m, ProviderSPKI m))
               in if control \<noteq> c \<or> nonce \<noteq> n \<or> spki \<noteq> s then Some ErrBinding else None)"

definition Proof ::
    "(bytes \<Rightarrow> bytes) \<Rightarrow> (bytes \<Rightarrow> bytes \<Rightarrow> bytes) \<Rightarrow> Manifest \<Rightarrow> byte \<Rightarrow> bytes \<Rightarrow> binding_err + bytes" where
  "Proof H mac m role exporter =
     (if role \<noteq> Provider \<and> role \<noteq> Visitor \<or> length exporter \<noteq> 32 \<or> \<not> Nonzero exporter then Inl ErrBinding
      else case Hash H m of
        Inl e \<Rightarrow> Inl e
      | Inr d \<Rightarrow>
          Inr (string_bytes ''XTP1'' @ [role] @ d @
               mac exporter (string_bytes ''esp-frp-xtcp-proof-v1'' @ [role] @ d)))"

definition Verify ::
    "(bytes \<Rightarrow> bytes) \<Rightarrow> (bytes \<Rightarrow> bytes \<Rightarrow> bytes) \<Rightarrow> Manifest \<Rightarrow> byte \<Rightarrow> bytes \<Rightarrow> bytes \<Rightarrow> binding_err option" where
  "Verify H mac m role exporter proof =
     (case Proof H mac m role exporter of
        Inl e \<Rightarrow> Some e
      | Inr expected \<Rightarrow> if proof \<noteq> expected then Some ErrBinding else None)"

definition signal_message :: "byte \<Rightarrow> string \<Rightarrow> bytes \<Rightarrow> bytes \<Rightarrow> bytes \<Rightarrow> int \<Rightarrow> bytes" where
  "signal_message role proxy control nonce spki timestamp =
     string_bytes ''esp-frp-xtcp-signal-v1'' @ [role, word_of_nat (length proxy)] @ string_bytes proxy @
     control @ nonce @ spki @ PutUint64 (word_of_int timestamp)"

definition SignalProof ::
    "(bytes \<Rightarrow> bytes \<Rightarrow> bytes) \<Rightarrow> string \<Rightarrow> byte \<Rightarrow> string \<Rightarrow> bytes \<Rightarrow> bytes \<Rightarrow> bytes \<Rightarrow> int \<Rightarrow>
     binding_err + bytes" where
  "SignalProof mac secret role proxy control nonce spki timestamp =
     (if length secret < 1 \<or> length secret > 128 \<or> length proxy < 1 \<or> length proxy > 128 \<or>
         \<not> utf8_ValidString proxy \<or> (role \<noteq> Provider \<and> role \<noteq> Visitor) \<or> timestamp \<le> 0
      then Inl ErrBinding
      else if list_ex (\<lambda>f. ID f = Inl ErrBinding) [control, nonce, spki] then Inl ErrBinding
      else Inr (mac (string_bytes secret) (signal_message role proxy control nonce spki timestamp)))"

section \<open>The encoding\<close>

definition manifest_bytes :: "Manifest \<Rightarrow> bytes" where
  "manifest_bytes m =
     magic @ [word_of_nat (length (ProxyName m))] @ string_bytes (ProxyName m) @
     concat (manifest_fields m) @ PutUint64 (IssuedAt m) @ PutUint64 (ExpiresAt m)"

definition manifest_valid :: "Manifest \<Rightarrow> bool" where
  "manifest_valid m \<longleftrightarrow>
     1 \<le> length (ProxyName m) \<and> length (ProxyName m) \<le> 128 \<and> utf8_ValidString (ProxyName m) \<and>
     \<not> list_ex (\<lambda>v. v < 0x20 \<or> v = 0x7f) (string_bytes (ProxyName m)) \<and>
     IssuedAt m \<noteq> 0 \<and> IssuedAt m < ExpiresAt m \<and> ExpiresAt m - IssuedAt m \<le> 60 \<and>
     list_all Nonzero (manifest_fields m)"

lemma append_fields_eq: "append_fields out fs = (if list_all Nonzero fs then Some (out @ concat fs) else None)"
  by (induction fs arbitrary: out) auto

lemma Encode_iff: "Encode m = Inr w \<longleftrightarrow> manifest_valid m \<and> w = manifest_bytes m"
  by (auto simp: Encode_def manifest_valid_def manifest_bytes_def append_fields_eq not_less Suc_le_eq)

lemma Encode_InlD: "Encode m = Inl e \<Longrightarrow> e = ErrBinding \<and> \<not> manifest_valid m"
  by (cases "manifest_valid m")
    (auto simp: Encode_def manifest_valid_def append_fields_eq split: if_splits)

lemma Encode_eq: "Encode m = (if manifest_valid m then Inr (manifest_bytes m) else Inl ErrBinding)"
  using Encode_iff [of m] Encode_InlD [of m] by (cases "Encode m") auto

lemma length_magic [simp]: "length magic = 8"
  by (simp add: magic_def)

lemma length_concat_fields: "list_all (\<lambda>f. length f = 32) fs \<Longrightarrow> length (concat fs) = 32 * length fs"
  by (induction fs) auto

lemma concat_fields_inject:
  "list_all (\<lambda>f. length f = 32) fs \<Longrightarrow> list_all (\<lambda>f. length f = 32) gs \<Longrightarrow> length fs = length gs \<Longrightarrow>
   concat fs = concat gs \<Longrightarrow> fs = gs"
  by (induction fs gs rule: list_induct2') auto

lemma read_fields_spec:
  "at + 32 * n \<le> length w \<Longrightarrow>
   \<exists>fs. read_fields w at n = Some fs \<and> length fs = n \<and> list_all (\<lambda>f. length f = 32) fs \<and>
        concat fs = take (32 * n) (drop at w)"
proof (induction n arbitrary: at)
  case 0
  then show ?case by simp
next
  case (Suc n)
  then obtain fs where fs: "read_fields w (at + 32) n = Some fs" "length fs = n"
    "list_all (\<lambda>f. length f = 32) fs" "concat fs = take (32 * n) (drop (at + 32) w)"
    by force
  have "take 32 (drop at w) @ take (32 * n) (drop (at + 32) w) = take (32 * Suc n) (drop at w)"
    by (simp add: take_add add.commute)
  with Suc.prems fs show ?case by simp
qed

lemma manifest_fields_nth:
  "length fs = 7 \<Longrightarrow> manifest_fields \<lparr>ProxyName = n, SID = fs ! 0, ProviderControl = fs ! 1,
     VisitorControl = fs ! 2, ProviderNonce = fs ! 3, VisitorNonce = fs ! 4,
     ProviderSPKI = fs ! 5, VisitorSPKI = fs ! 6, IssuedAt = i, ExpiresAt = e\<rparr> = fs"
  by (auto simp: manifest_fields_def numeral_eq_Suc length_Suc_conv)

lemma manifest_bytes_inject:
  assumes "manifest_wf m" and "manifest_wf m'" and "length (ProxyName m) \<le> 128" and "length (ProxyName m') \<le> 128"
    and "manifest_bytes m = manifest_bytes m'"
  shows "m = m'"
proof -
  have w: "(word_of_nat (length (ProxyName m)) :: byte) = word_of_nat (length (ProxyName m'))"
    and r: "string_bytes (ProxyName m) @ concat (manifest_fields m) @ PutUint64 (IssuedAt m) @ PutUint64 (ExpiresAt m) =
      string_bytes (ProxyName m') @ concat (manifest_fields m') @ PutUint64 (IssuedAt m') @ PutUint64 (ExpiresAt m')"
    using assms(5) by (simp_all add: manifest_bytes_def)
  have "length (ProxyName m) \<le> 255" "length (ProxyName m') \<le> 255" using assms(3,4) by linarith+
  with arg_cong [OF w, of unat] have "length (ProxyName m) = length (ProxyName m')"
    by (simp only: unat_byte_of_nat)
  with r have n: "ProxyName m = ProxyName m'"
    and r2: "concat (manifest_fields m) @ PutUint64 (IssuedAt m) @ PutUint64 (ExpiresAt m) =
      concat (manifest_fields m') @ PutUint64 (IssuedAt m') @ PutUint64 (ExpiresAt m')"
    by simp_all
  have "length (concat (manifest_fields m)) = length (concat (manifest_fields m'))"
    using assms(1,2) by (simp add: manifest_wf_def length_concat_fields manifest_fields_def)
  with r2 have f: "concat (manifest_fields m) = concat (manifest_fields m')"
    and t: "PutUint64 (IssuedAt m) @ PutUint64 (ExpiresAt m) = PutUint64 (IssuedAt m') @ PutUint64 (ExpiresAt m')"
    by simp_all
  from arg_cong [OF t, of Uint64] have "IssuedAt m = IssuedAt m'"
    by (simp only: Uint64_PutUint64)
  moreover from this t have "ExpiresAt m = ExpiresAt m'"
    by (metis Uint_PutUint_Nil(3) same_append_eq)
  moreover have "manifest_fields m = manifest_fields m'"
    using assms(1,2) f
    by (intro concat_fields_inject) (simp_all add: manifest_wf_def manifest_fields_def)
  ultimately show ?thesis
    using n by (intro Manifest.equality) (simp_all add: manifest_fields_def)
qed

text \<open>The header test of \<open>Decode\<close> and the manifest it assembles from the rest.\<close>

definition header_ok :: "bytes \<Rightarrow> bool" where
  "header_ok w \<longleftrightarrow> 250 \<le> length w \<and> length w \<le> 377 \<and> take 8 w = magic \<and> w ! 8 \<noteq> 0 \<and> w ! 8 \<le> 128 \<and>
     length w = 249 + unat (w ! 8)"

lemma Decode_bad_header: "\<not> header_ok w \<Longrightarrow> Decode w now = Some (Inl ErrBinding)"
  by (auto simp: Decode_def header_ok_def not_le not_less)

lemma Decode_good_header:
  assumes "header_ok w"
  obtains m where "manifest_wf m" "manifest_bytes m = w" "length (ProxyName m) \<le> 128"
    "Decode w now = Some (if manifest_valid m \<and> IssuedAt m \<le> now \<and> now < ExpiresAt m then Inr m else Inl ErrBinding)"
proof -
  define n where "n = unat (w ! 8)"
  have len: "length w = 249 + n" and n128: "n \<le> 128"
    using assms by (auto simp: header_ok_def n_def word_le_nat_alt)
  obtain fs where fs: "read_fields w (9 + n) 7 = Some fs" "length fs = 7"
    "list_all (\<lambda>f. length f = 32) fs" "concat fs = take 224 (drop (9 + n) w)"
    using read_fields_spec [of "9 + n" 7 w] len by auto
  let ?at = "9 + n + 7 * 32"
  let ?m = "\<lparr>ProxyName = bytes_string (take n (drop 9 w)), SID = fs ! 0, ProviderControl = fs ! 1,
    VisitorControl = fs ! 2, ProviderNonce = fs ! 3, VisitorNonce = fs ! 4, ProviderSPKI = fs ! 5,
    VisitorSPKI = fs ! 6, IssuedAt = Uint64 (drop ?at w), ExpiresAt = Uint64 (drop (?at + 8) w)\<rparr>"
  have mf: "manifest_fields ?m = fs" using fs(2) by (rule manifest_fields_nth)
  have "w = take 8 w @ take 1 (drop 8 w) @ take n (drop 9 w) @ take 224 (drop (9 + n) w) @
      take 8 (drop ?at w) @ take 8 (drop (?at + 8) w)"
    using take_drop_split [of 8 0 w] take_drop_split [of 1 8 w] take_drop_split [of n 9 w]
      take_drop_split [of 224 "9 + n" w] take_drop_split [of 8 ?at w] take_drop_split [of 8 "?at + 8" w] len
    by (simp add: add.commute)
  moreover have "take 8 w = magic" using assms by (simp add: header_ok_def)
  moreover have "take 1 (drop 8 w) = [w ! 8]" using len by (simp add: take_Suc_conv_app_nth)
  moreover have "w ! 8 = word_of_nat n" by (simp add: n_def)
  ultimately have "manifest_bytes ?m = w"
    using len fs(4) mf by (simp add: manifest_bytes_def PutUint64_Uint64 min_def)
  moreover have "manifest_wf ?m" using fs(3) mf by (simp add: manifest_wf_def)
  moreover have "length (ProxyName ?m) \<le> 128" using n128 by simp
  moreover have "Decode w now = Some (if manifest_valid ?m \<and> IssuedAt ?m \<le> now \<and> now < ExpiresAt ?m
      then Inr ?m else Inl ErrBinding)"
  proof -
    have h: "\<not> (length w < 250 \<or> length w > 377)"
      "\<not> (take 8 w \<noteq> magic \<or> w ! 8 = 0 \<or> w ! 8 > 128 \<or> length w \<noteq> 249 + n)"
      using assms by (auto simp: header_ok_def not_less n_def)
    have e: "slice w 0 8 = Some (take 8 w)" "index w 8 = Some (w ! 8)" "slice w 9 (9 + n) = Some (take n (drop 9 w))"
      "slice w ?at (length w) = Some (drop ?at w)" "slice w (?at + 8) (length w) = Some (drop (?at + 8) w)"
      using len by simp_all
    show ?thesis
      unfolding Decode_def if_not_P [OF h(1)] e(1,2) Option.bind.bind_lunit n_def [symmetric] if_not_P [OF h(2)]
        e(3) Let_def fs(1) e(4,5) Encode_eq
      by (auto simp: not_le)
  qed
  ultimately show ?thesis using that by blast
qed

lemma Decode_iff:
  "Decode w now \<noteq> None \<and>
   (Decode w now = Some (Inr m) \<longleftrightarrow>
      manifest_wf m \<and> Encode m = Inr w \<and> IssuedAt m \<le> now \<and> now < ExpiresAt m)"
proof (cases "header_ok w")
  case True
  then obtain m' where m': "manifest_wf m'" "manifest_bytes m' = w" "length (ProxyName m') \<le> 128"
    "Decode w now = Some (if manifest_valid m' \<and> IssuedAt m' \<le> now \<and> now < ExpiresAt m' then Inr m' else Inl ErrBinding)"
    by (rule Decode_good_header)
  moreover have "m = m'" if "manifest_wf m" "manifest_valid m" "w = manifest_bytes m"
    using that m' by (intro manifest_bytes_inject) (auto simp: manifest_valid_def)
  ultimately show ?thesis by (auto simp: Encode_iff)
next
  case False
  moreover have "\<not> (manifest_wf m \<and> Encode m = Inr w)"
  proof
    assume a: "manifest_wf m \<and> Encode m = Inr w"
    let ?n = "length (ProxyName m)"
    have v: "manifest_valid m" and w: "w = manifest_bytes m" using a by (auto simp: Encode_iff)
    have n: "1 \<le> ?n" "?n \<le> 128" using v by (auto simp: manifest_valid_def)
    have u: "unat (word_of_nat ?n :: byte) = ?n" using n by (intro unat_byte_of_nat) simp
    have l: "length w = 249 + ?n"
      using a w by (simp add: manifest_bytes_def manifest_wf_def length_concat_fields manifest_fields_def)
    have "take 8 w = magic" "w ! 8 = word_of_nat ?n"
      using w by (simp_all add: manifest_bytes_def nth_append)
    moreover have "(word_of_nat ?n :: byte) \<noteq> 0" "(word_of_nat ?n :: byte) \<le> 128"
      using u n by (metis not_one_le_zero unat_0) (simp add: word_le_nat_alt u n)
    ultimately have "header_ok w" using l n u by (simp add: header_ok_def)
    with False show False by simp
  qed
  ultimately show ?thesis by (auto simp: Decode_bad_header)
qed

text \<open>
  C5. Decoding is exactly the inverse of encoding within the validity window: on any input
  \<open>Decode\<close> neither panics nor returns a manifest other than the one whose encoding the input
  is, and it returns that one exactly when the time lies between issue (inclusive) and expiry
  (exclusive). So a manifest has one wire form, which is what its hash identifies.
\<close>

theorem manifest_decode_iff:
  "Decode w now \<noteq> None \<and>
   (Decode w now = Some (Inr m) \<longleftrightarrow>
      manifest_wf m \<and> Encode m = Inr w \<and> IssuedAt m \<le> now \<and> now < ExpiresAt m)"
  by (rule Decode_iff)

section \<open>The proof exchange\<close>

definition ALPN :: string where "ALPN = ''esp-frp-xtcp/1''"

definition ExporterLabel :: string where "ExporterLabel = ''EXPORTER-esp-frp-xtcp-peer-v1''"

text \<open>
  What a QUIC connection shows to the exchange: the negotiated protocol, the TLS exporter, and
  the first stream, opened or accepted, with its id. The bytes \<open>rd\<close> of the stream are what the
  peer sends before it closes its side.
\<close>

record quic_conn =
  NegotiatedProtocol :: string
  ExportKeyingMaterial :: "string \<Rightarrow> bytes \<Rightarrow> nat \<Rightarrow> binding_err + bytes"
  first_stream :: "binding_err + nat \<times> rwc"

definition Exporter :: "(bytes \<Rightarrow> bytes) \<Rightarrow> quic_conn \<Rightarrow> Manifest \<Rightarrow> binding_err + bytes" where
  "Exporter H conn m =
     (case Hash H m of
        Inl e \<Rightarrow> Inl e
      | Inr digest \<Rightarrow>
          if NegotiatedProtocol conn \<noteq> ALPN then Inl ErrBinding
          else ExportKeyingMaterial conn ExporterLabel digest 32)"

text \<open>The closures \<open>read\<close> and \<open>write\<close> of \<open>ExchangeProof\<close>.\<close>

definition read_proof ::
    "(bytes \<Rightarrow> bytes) \<Rightarrow> (bytes \<Rightarrow> bytes \<Rightarrow> bytes) \<Rightarrow> Manifest \<Rightarrow> bytes \<Rightarrow> byte \<Rightarrow> rwc \<Rightarrow>
     binding_err option \<times> rwc" where
  "read_proof H mac m exporter expected s =
     (case ReadFull s ProofBytes of
        (Inl e, s) \<Rightarrow> (Some (ErrIO e), s)
      | (Inr peer, s) \<Rightarrow>
          (case Verify H mac m expected exporter peer of
             Some e \<Rightarrow> (Some e, s)
           | None \<Rightarrow> (if rd s \<noteq> [] then Some ErrBinding else None, s\<lparr>rd := drop 1 (rd s)\<rparr>)))"

definition write_proof :: "bytes \<Rightarrow> rwc \<Rightarrow> binding_err option \<times> rwc" where
  "write_proof local s = (case WriteAll s local of (err, s) \<Rightarrow> (map_option ErrIO err, s))"

definition ExchangeProof ::
    "(bytes \<Rightarrow> bytes) \<Rightarrow> (bytes \<Rightarrow> bytes \<Rightarrow> bytes) \<Rightarrow> quic_conn \<Rightarrow> Manifest \<Rightarrow> byte \<Rightarrow>
     binding_err option \<times> rwc option" where
  "ExchangeProof H mac conn m role =
     (case Encode m of
        Inl e \<Rightarrow> (Some e, None)
      | Inr _ \<Rightarrow>
          (case Exporter H conn m of
             Inl e \<Rightarrow> (Some e, None)
           | Inr exporter \<Rightarrow>
               if role \<noteq> Visitor \<and> role \<noteq> Provider then (Some ErrBinding, None)
               else (case first_stream conn of
                       Inl e \<Rightarrow> (Some e, None)
                     | Inr (sid, s) \<Rightarrow>
                         if sid \<noteq> 0 then (Some ErrBinding, None)
                         else (case Proof H mac m role exporter of
                                 Inl e \<Rightarrow> (Some e, Some s)
                               | Inr local \<Rightarrow>
                                   if role = Visitor
                                   then (case write_proof local s of
                                           (Some e, s) \<Rightarrow> (Some e, Some s)
                                         | (None, s) \<Rightarrow>
                                             map_prod id Some (read_proof H mac m exporter Provider s))
                                   else (case read_proof H mac m exporter Visitor s of
                                           (Some e, s) \<Rightarrow> (Some e, Some s)
                                         | (None, s) \<Rightarrow> map_prod id Some (write_proof local s))))))"

definition peer_role :: "byte \<Rightarrow> byte" where
  "peer_role role = (if role = Visitor then Provider else Visitor)"

lemma Proof_InrD:
  assumes "Proof H mac m role e = Inr p"
  shows "role = Provider \<or> role = Visitor" and "p ! 4 = role" and "manifest_valid m"
    and "p = string_bytes ''XTP1'' @ [role] @ H (manifest_bytes m) @
             mac e (string_bytes ''esp-frp-xtcp-proof-v1'' @ [role] @ H (manifest_bytes m))"
  using assms by (auto simp: Proof_def Hash_def Encode_eq nth_append split: if_splits)

lemma Proof_role_inject: "Proof H mac m r e = Inr p \<Longrightarrow> Proof H mac m' r' e' = Inr p \<Longrightarrow> r = r'"
  by (metis Proof_InrD(2))

lemma read_proof_NoneD:
  assumes "read_proof H mac m e r s = (None, s')"
  shows "\<exists>p. Proof H mac m r e = Inr p \<and> rd s = p \<and> wr s' = wr s"
proof -
  let ?b = "take ProofBytes (rd s)"
  have r: "ReadFull s ProofBytes = (Inr ?b, s\<lparr>rd := drop ProofBytes (rd s)\<rparr>)" "Verify H mac m r e ?b = None"
    "drop ProofBytes (rd s) = []" "wr s' = wr s"
    using assms by (auto simp: read_proof_def ReadFull_def split: if_splits option.splits)
  then obtain p where "Proof H mac m r e = Inr p" "?b = p"
    by (auto simp: Verify_def split: sum.splits if_splits)
  with r show ?thesis by simp
qed

lemma write_proof_NoneD: "write_proof p s = (None, s') \<Longrightarrow> wr s' = wr s @ p \<and> rd s' = rd s"
  by (auto simp: write_proof_def split: prod.splits dest!: WriteAll_SomeD)

lemma map_prod_id_Some: "map_prod id Some q = (a, out) \<longleftrightarrow> (\<exists>s. q = (a, s) \<and> out = Some s)"
  by (cases q) auto

lemma ExchangeProof_NoneD:
  assumes "ExchangeProof H mac c m role = (None, out)"
  obtains e s own peer s' where "Exporter H c m = Inr e" "first_stream c = Inr (0, s)" "out = Some s'"
    "Proof H mac m role e = Inr own" "Proof H mac m (peer_role role) e = Inr peer"
    "rd s = peer" "wr s' = wr s @ own"
proof -
  obtain e s own where *: "Exporter H c m = Inr e" "first_stream c = Inr (0, s)" "Proof H mac m role e = Inr own"
    "role = Visitor \<or> role = Provider"
    using assms by (auto simp: ExchangeProof_def split: sum.splits prod.splits if_splits)
  show ?thesis
  proof (cases "role = Visitor")
    case True
    with assms * obtain s1 s2 where **: "write_proof own s = (None, s1)"
      "read_proof H mac m e Provider s1 = (None, s2)" "out = Some s2"
      by (auto simp: ExchangeProof_def map_prod_id_Some split: sum.splits prod.splits if_splits option.splits)
    from read_proof_NoneD [OF **(2)] write_proof_NoneD [OF **(1)] * ** True show ?thesis
      by (auto intro!: that simp: peer_role_def)
  next
    case False
    with assms * obtain s1 s2 where **: "read_proof H mac m e Visitor s = (None, s1)"
      "write_proof own s1 = (None, s2)" "out = Some s2"
      by (auto simp: ExchangeProof_def map_prod_id_Some split: sum.splits prod.splits if_splits option.splits)
    from read_proof_NoneD [OF **(1)] write_proof_NoneD [OF **(2)] * ** False show ?thesis
      by (auto intro!: that simp: peer_role_def)
  qed
qed

text \<open>
  C6. A peer completes the proof exchange only on the first stream of a connection, only when
  the other side sent exactly the proof of the opposite role for the same manifest and the
  same exporter secret, and after it has itself sent its own proof, which differs: echoing a
  peer's proof back never passes. This holds for any hash and MAC function.
\<close>

theorem proof_exchange_authentic:
  assumes "ExchangeProof H mac c m role = (None, out)"
  shows "\<exists>e s own peer s'. Exporter H c m = Inr e \<and> first_stream c = Inr (0, s) \<and> out = Some s' \<and>
    Proof H mac m role e = Inr own \<and> Proof H mac m (peer_role role) e = Inr peer \<and>
    rd s = peer \<and> wr s' = wr s @ own \<and> own \<noteq> peer"
proof -
  from assms obtain e s own peer s' where *: "Exporter H c m = Inr e" "first_stream c = Inr (0, s)" "out = Some s'"
    "Proof H mac m role e = Inr own" "Proof H mac m (peer_role role) e = Inr peer" "rd s = peer" "wr s' = wr s @ own"
    by (rule ExchangeProof_NoneD)
  moreover have "own \<noteq> peer"
    using Proof_role_inject [of H mac m role e own m "peer_role role" e] *(4,5)
    by (auto simp: peer_role_def Visitor_def Provider_def split: if_splits)
  ultimately show ?thesis by blast
qed

lemma ExchangeProof_completes:
  assumes "\<And>x. length (H x) = 32" and "\<And>k x. length (mac k x) = 32"
    and "Exporter H cv m = Inr e" and "Exporter H cp m = Inr e" and "length e = 32" and "Nonzero e"
    and "first_stream cv = Inr (0, \<lparr>rd = pp, wr = [], room = None\<rparr>)"
    and "first_stream cp = Inr (0, \<lparr>rd = pv, wr = [], room = None\<rparr>)"
    and "Proof H mac m Visitor e = Inr pv" and "Proof H mac m Provider e = Inr pp"
  shows "ExchangeProof H mac cv m Visitor = (None, Some \<lparr>rd = [], wr = pv, room = None\<rparr>) \<and>
    ExchangeProof H mac cp m Provider = (None, Some \<lparr>rd = [], wr = pp, room = None\<rparr>)"
proof -
  have "manifest_valid m" using assms(9) by (rule Proof_InrD(3))
  moreover have "length pv = ProofBytes" "length pp = ProofBytes"
    using Proof_InrD(4) [OF assms(9)] Proof_InrD(4) [OF assms(10)] by (simp_all add: assms(1,2) ProofBytes_def)
  moreover have "Visitor \<noteq> Provider" by (simp add: Visitor_def Provider_def)
  ultimately show ?thesis
    using assms(3-10)
    by (simp add: ExchangeProof_def Encode_eq read_proof_def write_proof_def ReadFull_def WriteAll_def Verify_def)
qed


definition demo_manifest :: Manifest where
  "demo_manifest = \<lparr>ProxyName = ''cam'', SID = replicate 32 1, ProviderControl = replicate 32 2,
     VisitorControl = replicate 32 3, ProviderNonce = replicate 32 4, VisitorNonce = replicate 32 5,
     ProviderSPKI = replicate 32 6, VisitorSPKI = replicate 32 7, IssuedAt = 1000, ExpiresAt = 1060\<rparr>"

definition demo_hash :: "bytes \<Rightarrow> bytes" where
  "demo_hash x = replicate 31 0 @ [fold (+) x 0]"

definition demo_mac :: "bytes \<Rightarrow> bytes \<Rightarrow> bytes" where
  "demo_mac k x = demo_hash (k @ x)"

definition demo_quic :: "bytes \<Rightarrow> quic_conn" where
  "demo_quic incoming = \<lparr>NegotiatedProtocol = ALPN, ExportKeyingMaterial = (\<lambda>_ _ n. Inr (replicate n 9)),
     first_stream = Inr (0, \<lparr>rd = incoming, wr = [], room = None\<rparr>)\<rparr>"

definition demo_proof :: "byte \<Rightarrow> bytes" where
  "demo_proof role = (case Proof demo_hash demo_mac demo_manifest role (replicate 32 9) of Inr p \<Rightarrow> p | Inl _ \<Rightarrow> [])"

lemma demo_facts:
  "\<And>x. length (demo_hash x) = 32" "\<And>k x. length (demo_mac k x) = 32"
  "\<And>b. Exporter demo_hash (demo_quic b) demo_manifest = Inr (replicate 32 9)"
  "Nonzero (replicate 32 9)"
  "Proof demo_hash demo_mac demo_manifest Visitor (replicate 32 9) = Inr (demo_proof Visitor)"
  "Proof demo_hash demo_mac demo_manifest Provider (replicate 32 9) = Inr (demo_proof Provider)"
proof -
  show "length (demo_hash x) = 32" "length (demo_mac k x) = 32" for x k
    by (simp_all add: demo_hash_def demo_mac_def)
  have v: "manifest_valid demo_manifest" by code_simp
  then show "Exporter demo_hash (demo_quic b) demo_manifest = Inr (replicate 32 9)" for b
    by (simp add: Exporter_def Hash_def Encode_eq demo_quic_def)
  show n: "Nonzero (replicate 32 9)" by code_simp
  show "Proof demo_hash demo_mac demo_manifest Visitor (replicate 32 9) = Inr (demo_proof Visitor)"
    "Proof demo_hash demo_mac demo_manifest Provider (replicate 32 9) = Inr (demo_proof Provider)"
    using v n by (simp_all add: demo_proof_def Proof_def Hash_def Encode_eq)
qed


lemma demo_exchange:
  "ExchangeProof demo_hash demo_mac (demo_quic (demo_proof Provider)) demo_manifest Visitor =
     (None, Some \<lparr>rd = [], wr = demo_proof Visitor, room = None\<rparr>)"
  using ExchangeProof_completes [OF demo_facts(1,2) demo_facts(3) demo_facts(3) _ demo_facts(4) _ _ demo_facts(5,6),
      of "demo_proof Provider" "demo_proof Visitor"]
  by (simp add: demo_quic_def)

theorem proof_exchange_authentic_witness:
  "\<exists>own peer. Proof demo_hash demo_mac demo_manifest Visitor (replicate 32 9) = Inr own \<and>
     Proof demo_hash demo_mac demo_manifest Provider (replicate 32 9) = Inr peer \<and>
     demo_proof Provider = peer \<and> own \<noteq> peer"
  using proof_exchange_authentic [OF demo_exchange] demo_facts(3)
  by (auto simp: peer_role_def demo_quic_def)

section \<open>The signal proof\<close>

lemma signal_message_inject:
  assumes "length proxy \<le> 128" and "length proxy' \<le> 128"
    and "length control = 32" "length control' = 32" "length nonce = 32" "length nonce' = 32"
    and "length spki = 32" "length spki' = 32"
    and "0 < t" "t < 2 ^ 63" "0 < t'" "t' < 2 ^ 63"
    and "signal_message role proxy control nonce spki t = signal_message role' proxy' control' nonce' spki' t'"
  shows "role = role' \<and> proxy = proxy' \<and> control = control' \<and> nonce = nonce' \<and> spki = spki' \<and> t = t'"
proof -
  have w: "role = role'" "(word_of_nat (length proxy) :: byte) = word_of_nat (length proxy')"
    and r: "string_bytes proxy @ control @ nonce @ spki @ PutUint64 (word_of_int t) =
      string_bytes proxy' @ control' @ nonce' @ spki' @ PutUint64 (word_of_int t')"
    using assms(13) by (simp_all add: signal_message_def)
  have "length proxy \<le> 255" "length proxy' \<le> 255" using assms(1,2) by linarith+
  with arg_cong [OF w(2), of unat] have "length proxy = length proxy'"
    by (simp only: unat_byte_of_nat)
  with r assms(3-8) have e: "proxy = proxy'" "control = control'" "nonce = nonce'" "spki = spki'"
    and t: "PutUint64 (word_of_int t) = PutUint64 (word_of_int t')"
    by simp_all
  from arg_cong [OF t, of Uint64] have "(word_of_int t :: 64 word) = word_of_int t'"
    by (simp only: Uint_PutUint_Nil)
  from arg_cong [OF this, of uint] have "t = t'"
    using assms(9-12) by (simp add: uint_word_of_int)
  with w e show ?thesis by simp
qed

lemma SignalProof_InrD:
  assumes "SignalProof mac secret role proxy control nonce spki t = Inr p"
  shows "length proxy \<le> 128" "length control = 32" "length nonce = 32" "length spki = 32" "0 < t"
    "p = mac (string_bytes secret) (signal_message role proxy control nonce spki t)"
  using assms by (auto simp: SignalProof_def ID_def split: if_splits)

text \<open>
  C8. A signal proof binds all it covers: if two requests made with the same secret carry the
  same proof, then role, proxy name, control id, nonce, key and timestamp are the same, or
  the two exhibit a collision of the MAC under that secret on different messages. In
  particular a provider's proof is not a visitor's, and no proof can be reused for another
  control instance. Timestamps are of type \<open>int64\<close>.
\<close>

theorem signal_proof_binding:
  assumes "SignalProof mac secret role proxy control nonce spki t = Inr p"
    and "SignalProof mac secret role' proxy' control' nonce' spki' t' = Inr p"
    and "t < 2 ^ 63" and "t' < 2 ^ 63"
  shows "(role = role' \<and> proxy = proxy' \<and> control = control' \<and> nonce = nonce' \<and> spki = spki' \<and> t = t') \<or>
    (signal_message role proxy control nonce spki t \<noteq> signal_message role' proxy' control' nonce' spki' t' \<and>
     mac (string_bytes secret) (signal_message role proxy control nonce spki t) =
     mac (string_bytes secret) (signal_message role' proxy' control' nonce' spki' t'))"
proof (cases "signal_message role proxy control nonce spki t = signal_message role' proxy' control' nonce' spki' t'")
  case True
  then show ?thesis
    using SignalProof_InrD [OF assms(1)] SignalProof_InrD [OF assms(2)] assms(3,4)
    by (intro disjI1 signal_message_inject) simp_all
next
  case False
  then show ?thesis
    using SignalProof_InrD(6) [OF assms(1)] SignalProof_InrD(6) [OF assms(2)] by simp
qed

theorem signal_proof_binding_witness:
  "signal_message Provider ''cam'' (replicate 32 1) (replicate 32 2) (replicate 32 3) 7 \<noteq>
   signal_message Visitor ''cam'' (replicate 32 1) (replicate 32 2) (replicate 32 3) 7"
proof -
  have "SignalProof (\<lambda>_ _. []) ''s'' Provider ''cam'' (replicate 32 1) (replicate 32 2) (replicate 32 3) 7 = Inr []"
    "SignalProof (\<lambda>_ _. []) ''s'' Visitor ''cam'' (replicate 32 1) (replicate 32 2) (replicate 32 3) 7 = Inr []"
    by code_simp+
  from signal_proof_binding [OF this] show ?thesis by (auto simp: Provider_def Visitor_def)
qed

end
