(* ===== verification/Control.thy ===== *)
theory Control
  imports Registry Binding
begin

text \<open>
  The control sessions of the server (\<open>server/control.go\<close>) and the part of \<open>server/service.go\<close>
  that drives a login: the control manager with its generations per run ID, the lifecycle of a
  control, the hand-over from a control to its replacement, and the pool of work connections.

  Controls live in a heap, \<open>ctls\<close>, because goroutines hold on to controls that were replaced.
  A method of the manager holds the run gate from its first lookup to its return, so that it is
  one step; the goroutine of a login and the worker goroutine of a control are sequences of
  such steps that interleave freely with those of other controls. A channel is modelled by
  whether it is closed; \<open>None\<close> is the panic of closing a closed channel or of sending to one.
\<close>

section \<open>Data\<close>

datatype controlState = CtlCreated | CtlPending | CtlRunning | CtlClosing | CtlClosed

record SessionContext =
  sc_login :: reg_args
  sc_XTCPBindingProtocol :: string
  sc_PoolCount :: int
  sc_MaxPoolCount :: int
  sc_UDPPacketCodec :: string
  sc_xtcpEnabled :: bool

text \<open>
  \<open>handoffBarrier\<close> names the control whose \<open>doneCh\<close> it is; \<open>connClosed\<close> says that reading from the
  connection fails: it was closed by \<open>interruptReadAndClose\<close>, or it was lost.
\<close>

record Control =
  sessionCtx :: SessionContext
  poolCount :: int
  workConnCap :: nat
  workConnCh :: "nat list"
  workConnClosed :: bool
  runID :: string
  controlID :: "64 word"
  xtcpControlID :: bytes
  ctl_state :: controlState
  activated :: bool
  handoffBarrier :: "nat option"
  doneClosed :: bool
  connClosed :: bool

record controlEntry =
  entry_ctl :: nat
  entry_id :: "64 word"
  registryOnline :: bool
  registryControlID :: "64 word"

text \<open>
  The manager, the heap of controls, the counter \<open>nextControlID\<close> and the proxies of the whole
  server by name, each with the control that owns it.
\<close>

record server =
  ctlsByRunID :: "string \<rightharpoonup> controlEntry"
  registry :: ClientRegistry
  cm_closed :: bool
  nextControlID :: "64 word"
  ctls :: "nat \<Rightarrow> Control"
  n_ctls :: nat
  pxys :: "string \<rightharpoonup> nat"

datatype ctl_err =
    ErrXTCPAdmission
  | ErrPoolCount
  | ErrMaxPoolCount
  | ErrPoolCapacity
  | ErrEntropy
  | ErrManagerClosed
  | ErrNotCreated
  | ErrClientOnline
  | ErrWriteResp
  | ErrControlReplaced
  | ErrNotCurrent
  | ErrNotRunning
  | ErrPoolFull
  | ErrCtlClosed
  | ErrAlreadyClosed
  | ErrTimeout

section \<open>A control\<close>

definition workConnPoolCapacityOffset :: int where "workConnPoolCapacityOffset = 10"

definition MaxInt :: int where "MaxInt = 2 ^ 63 - 1"

text \<open>\<open>rand\<close> is the result of reading the 32 bytes of the identity.\<close>

definition NewControl :: "bytes option \<Rightarrow> SessionContext \<Rightarrow> ctl_err + Control" where
  "NewControl rand s =
     (if sc_XTCPBindingProtocol s \<noteq> [] \<and> (\<not> sc_xtcpEnabled s \<or> sc_XTCPBindingProtocol s \<noteq> ALPN)
      then Inl ErrXTCPAdmission
      else if sc_PoolCount s < 0 then Inl ErrPoolCount
      else if sc_MaxPoolCount s < 0 then Inl ErrMaxPoolCount
      else
        let effective = min (sc_PoolCount s) (sc_MaxPoolCount s) in
        if effective > MaxInt - workConnPoolCapacityOffset then Inl ErrPoolCapacity
        else
          let c = \<lparr>sessionCtx = s, poolCount = effective,
                   workConnCap = nat (effective + workConnPoolCapacityOffset), workConnCh = [], workConnClosed = False,
                   runID = ra_runID (sc_login s), controlID = 0, xtcpControlID = replicate 32 0,
                   ctl_state = CtlCreated, activated = False, handoffBarrier = None,
                   doneClosed = False, connClosed = False\<rparr>
          in if sc_xtcpEnabled s
             then (case rand of
                     None \<Rightarrow> Inl ErrEntropy
                   | Some b \<Rightarrow> if \<not> Nonzero b then Inl ErrEntropy else Inr (c\<lparr>xtcpControlID := b\<rparr>))
             else Inr c)"

definition admit :: "64 word \<Rightarrow> Control \<Rightarrow> Control option" where
  "admit i c = (if ctl_state c \<noteq> CtlCreated then None else Some (c\<lparr>controlID := i, ctl_state := CtlPending\<rparr>))"

definition setHandoffBarrier :: "nat option \<Rightarrow> Control \<Rightarrow> Control" where
  "setHandoffBarrier barrier c = c\<lparr>handoffBarrier := barrier\<rparr>"

definition finishLocked :: "Control \<Rightarrow> Control option" where
  "finishLocked c =
     (if ctl_state c = CtlClosed then Some c
      else if doneClosed c then None
      else Some (c\<lparr>ctl_state := CtlClosed, doneClosed := True\<rparr>))"

text \<open>\<open>RegisterControl\<close> of the NAT hole controller succeeds when \<open>xtcp_ok\<close>.\<close>

definition startLocked :: "bool \<Rightarrow> Control \<Rightarrow> Control \<times> bool" where
  "startLocked xtcp_ok c =
     (if ctl_state c \<noteq> CtlPending \<or> \<not> activated c then (c, False)
      else if sc_xtcpEnabled (sessionCtx c) \<and> \<not> xtcp_ok then (c, False)
      else (c\<lparr>ctl_state := CtlRunning\<rparr>, True))"

definition markReplaced :: "nat \<Rightarrow> Control \<Rightarrow> (Control \<times> nat option) option" where
  "markReplaced a c =
     (case ctl_state c of
        CtlCreated \<Rightarrow> map_option (\<lambda>c. (c, None)) (finishLocked (c\<lparr>ctl_state := CtlClosing\<rparr>))
      | CtlPending \<Rightarrow> map_option (\<lambda>c'. (c', handoffBarrier c)) (finishLocked (c\<lparr>ctl_state := CtlClosing\<rparr>))
      | CtlRunning \<Rightarrow> Some (c\<lparr>ctl_state := CtlClosing\<rparr>, Some a)
      | CtlClosing \<Rightarrow> Some (c, Some a)
      | CtlClosed \<Rightarrow> Some (c, Some a))"

definition interruptReadAndClose :: "Control \<Rightarrow> Control" where
  "interruptReadAndClose c = c\<lparr>connClosed := True\<rparr>"

definition closeState :: "Control \<Rightarrow> Control option" where
  "closeState c =
     (case ctl_state c of
        CtlCreated \<Rightarrow> finishLocked (c\<lparr>ctl_state := CtlClosing\<rparr>)
      | CtlPending \<Rightarrow> finishLocked (c\<lparr>ctl_state := CtlClosing\<rparr>)
      | CtlRunning \<Rightarrow> Some (c\<lparr>ctl_state := CtlClosing\<rparr>)
      | _ \<Rightarrow> Some c)"

definition Control_Close :: "Control \<Rightarrow> Control option" where
  "Control_Close c = map_option interruptReadAndClose (closeState c)"

definition Replaced :: "nat \<Rightarrow> Control \<Rightarrow> Control option" where
  "Replaced a c = map_option (\<lambda>r. interruptReadAndClose (fst r)) (markReplaced a c)"

definition xtcpBindingID :: "Control \<Rightarrow> bytes option" where
  "xtcpBindingID c = (if sc_xtcpEnabled (sessionCtx c) then Some (xtcpControlID c) else None)"

definition xtcpCallerID :: "Control \<Rightarrow> bytes option" where
  "xtcpCallerID c = (if ctl_state c = CtlRunning then xtcpBindingID c else None)"

text \<open>
  Receiving from the pool: a pooled connection, the end of a closed channel, or nothing yet. A
  caller that finds nothing asks the client for a connection (\<open>send_ok\<close>) and waits: \<open>late\<close> is the
  control when the channel is ready, \<open>None\<close> if the timer fires first.
\<close>

datatype recv_result = RecvConn nat | RecvClosed | RecvEmpty

definition recv_workConn :: "Control \<Rightarrow> Control \<times> recv_result" where
  "recv_workConn c =
     (case workConnCh c of
        w # ws \<Rightarrow> (c\<lparr>workConnCh := ws\<rparr>, RecvConn w)
      | [] \<Rightarrow> (c, if workConnClosed c then RecvClosed else RecvEmpty))"

definition GetWorkConn :: "bool \<Rightarrow> Control option \<Rightarrow> Control \<Rightarrow> Control \<times> (ctl_err + nat)" where
  "GetWorkConn send_ok late c =
     (case recv_workConn c of
        (c', RecvConn w) \<Rightarrow> (c', Inr w)
      | (c', RecvClosed) \<Rightarrow> (c', Inl ErrCtlClosed)
      | (c', RecvEmpty) \<Rightarrow>
          if \<not> send_ok then (c', Inl ErrAlreadyClosed)
          else (case late of
                  None \<Rightarrow> (c', Inl ErrTimeout)
                | Some d \<Rightarrow>
                    (case recv_workConn d of
                       (d', RecvConn w) \<Rightarrow> (d', Inr w)
                     | (d', RecvClosed) \<Rightarrow> (d', Inl ErrCtlClosed)
                     | (d', RecvEmpty) \<Rightarrow> (d', Inl ErrTimeout))))"

section \<open>The manager\<close>

definition no_ctl :: Control where
  "no_ctl =
     \<lparr>sessionCtx = \<lparr>sc_login = \<lparr>ra_user = [], ra_rawClientID = [], ra_runID = [], ra_hostname = [], ra_version = [],
        ra_remoteAddr = [], ra_wireProtocol = []\<rparr>, sc_XTCPBindingProtocol = [], sc_PoolCount = 0, sc_MaxPoolCount = 0,
        sc_UDPPacketCodec = [], sc_xtcpEnabled = False\<rparr>,
      poolCount = 0, workConnCap = 0, workConnCh = [], workConnClosed = False, runID = [], controlID = 0,
      xtcpControlID = [], ctl_state = CtlCreated, activated = False, handoffBarrier = None,
      doneClosed = False, connClosed = False\<rparr>"

definition NewControlManager :: "ClientRegistry \<Rightarrow> server" where
  "NewControlManager reg =
     \<lparr>ctlsByRunID = Map.empty, registry = reg, cm_closed = False, nextControlID = 0,
      ctls = (\<lambda>_. no_ctl), n_ctls = 0, pxys = Map.empty\<rparr>"

definition set_ctl :: "server \<Rightarrow> nat \<Rightarrow> Control \<Rightarrow> server" where
  "set_ctl s a c = s\<lparr>ctls := (ctls s)(a := c)\<rparr>"

definition lockCurrentRun :: "server \<Rightarrow> string \<Rightarrow> bool \<Rightarrow> controlEntry option" where
  "lockCurrentRun s r allowClosed = (if cm_closed s \<and> \<not> allowClosed then None else ctlsByRunID s r)"

definition owns :: "server \<Rightarrow> controlEntry \<Rightarrow> nat \<Rightarrow> bool" where
  "owns s e a \<longleftrightarrow> entry_ctl e = a \<and> entry_id e = controlID (ctls s a)"

definition Add_ctl :: "server \<Rightarrow> nat \<Rightarrow> (server \<times> (ctl_err + nat option)) option" where
  "Add_ctl s a =
     (if cm_closed s then Some (s, Inl ErrManagerClosed)
      else
        let i = nextControlID s + 1; s1 = s\<lparr>nextControlID := i\<rparr>; r = runID (ctls s a) in
        (case admit i (ctls s a) of
           None \<Rightarrow> Some (s1, Inl ErrNotCreated)
         | Some c \<Rightarrow>
             (case ctlsByRunID s r of
                None \<Rightarrow>
                  Some ((set_ctl s1 a c)\<lparr>ctlsByRunID := (ctlsByRunID s)
                          (r \<mapsto> \<lparr>entry_ctl = a, entry_id = i, registryOnline = False, registryControlID = 0\<rparr>)\<rparr>,
                        Inr None)
              | Some old \<Rightarrow>
                  (case markReplaced (entry_ctl old) (ctls s (entry_ctl old)) of
                     None \<Rightarrow> None
                   | Some (oc, barrier) \<Rightarrow>
                       Some ((set_ctl (set_ctl s1 (entry_ctl old) oc) a (setHandoffBarrier barrier c))
                               \<lparr>ctlsByRunID := (ctlsByRunID s)
                                 (r \<mapsto> \<lparr>entry_ctl = a, entry_id = i, registryOnline = registryOnline old,
                                        registryControlID = registryControlID old\<rparr>)\<rparr>,
                             Inr (Some (entry_ctl old)))))))"

definition login_args :: "Control \<Rightarrow> reg_args" where
  "login_args c =
     (let l = sc_login (sessionCtx c) in
      l\<lparr>ra_runID := runID c,
        ra_remoteAddr := (case SplitHostPort (ra_remoteAddr l) of Some (h, _) \<Rightarrow> h | None \<Rightarrow> ra_remoteAddr l)\<rparr>)"

definition Activate :: "server \<Rightarrow> nat \<Rightarrow> int \<Rightarrow> server \<times> bool \<times> ctl_err option" where
  "Activate s a now =
     (let c = ctls s a in
      case lockCurrentRun s (runID c) False of
        None \<Rightarrow> (s, False, None)
      | Some e \<Rightarrow>
          if \<not> owns s e a then (s, False, None)
          else if ctl_state c \<noteq> CtlPending then (s, False, None)
          else if activated c then (s, True, None)
          else (case RegisterWithControlID (registry s) (login_args c) (entry_id e) now of
                  (reg, _, conflict) \<Rightarrow>
                    if conflict then (s\<lparr>registry := reg\<rparr>, True, Some ErrClientOnline)
                    else ((set_ctl s a (c\<lparr>activated := True\<rparr>))
                            \<lparr>registry := reg,
                             ctlsByRunID := (ctlsByRunID s)
                               (runID c \<mapsto> e\<lparr>registryOnline := True, registryControlID := entry_id e\<rparr>)\<rparr>,
                          True, None)))"

definition completeLogin :: "server \<Rightarrow> nat \<Rightarrow> bool \<Rightarrow> bool \<Rightarrow> server \<times> bool \<times> ctl_err option" where
  "completeLogin s a write_ok xtcp_ok =
     (let c = ctls s a in
      case lockCurrentRun s (runID c) False of
        None \<Rightarrow> (s, False, None)
      | Some e \<Rightarrow>
          if \<not> owns s e a then (s, False, None)
          else if ctl_state c \<noteq> CtlPending \<or> \<not> activated c then (s, False, None)
          else if \<not> write_ok then (s, False, Some ErrWriteResp)
          else (case startLocked xtcp_ok c of (c', started) \<Rightarrow> (set_ctl s a c', started, None)))"

definition Remove :: "server \<Rightarrow> nat \<Rightarrow> int \<Rightarrow> server \<times> bool" where
  "Remove s a now =
     (let r = runID (ctls s a) in
      case lockCurrentRun s r True of
        None \<Rightarrow> (s, False)
      | Some e \<Rightarrow>
          if \<not> owns s e a then (s, False)
          else (s\<lparr>ctlsByRunID := (ctlsByRunID s)(r := None),
                  registry := (if registryOnline e then MarkOfflineByRunIDAndControlID (registry s) r (registryControlID e) now
                               else registry s)\<rparr>, True))"

definition GetByID :: "server \<Rightarrow> string \<Rightarrow> nat option" where
  "GetByID s r =
     (case lockCurrentRun s r False of
        None \<Rightarrow> None
      | Some e \<Rightarrow> if ctl_state (ctls s (entry_ctl e)) \<noteq> CtlRunning then None else Some (entry_ctl e))"

definition admitVisitorByRunID :: "server \<Rightarrow> string \<Rightarrow> (string \<Rightarrow> string \<Rightarrow> string \<Rightarrow> 'e option) \<Rightarrow> bool \<times> 'e option" where
  "admitVisitorByRunID s r adm =
     (case lockCurrentRun s r False of
        None \<Rightarrow> (False, None)
      | Some e \<Rightarrow>
          let c = ctls s (entry_ctl e) in
          if ctl_state c \<noteq> CtlRunning then (False, None)
          else (True, adm (ra_user (sc_login (sessionCtx c))) (ra_wireProtocol (sc_login (sessionCtx c)))
                        (sc_UDPPacketCodec (sessionCtx c))))"

definition RegisterWorkConn :: "server \<Rightarrow> nat \<Rightarrow> nat \<Rightarrow> (server \<times> ctl_err option) option" where
  "RegisterWorkConn s a conn =
     (let c = ctls s a in
      case lockCurrentRun s (runID c) False of
        None \<Rightarrow> Some (s, Some (if cm_closed s then ErrManagerClosed else ErrNotCurrent))
      | Some e \<Rightarrow>
          if \<not> owns s e a then Some (s, Some ErrNotCurrent)
          else if ctl_state c \<noteq> CtlRunning then Some (s, Some ErrNotRunning)
          else if workConnClosed c then None
          else if length (workConnCh c) < workConnCap c
          then Some (set_ctl s a (c\<lparr>workConnCh := workConnCh c @ [conn]\<rparr>), None)
          else Some (s, Some ErrPoolFull))"

text \<open>\<open>Close\<close> of the manager, with the controls in the order \<open>as\<close> of the iteration over the map.\<close>

definition close_one :: "int \<Rightarrow> nat \<Rightarrow> server option \<Rightarrow> server option" where
  "close_one now a os =
     (case os of
        None \<Rightarrow> None
      | Some s \<Rightarrow>
          let s1 = fst (Remove s a now) in map_option (set_ctl s1 a) (Control_Close (ctls s1 a)))"

definition ControlManager_Close :: "server \<Rightarrow> nat list \<Rightarrow> int \<Rightarrow> server option" where
  "ControlManager_Close s as now = fold (close_one now) as (Some (s\<lparr>cm_closed := True\<rparr>))"

end
