(* ===== verification/Sessions.thy ===== *)
theory Sessions
  imports Control
begin

text \<open>
  The goroutines of the control sessions and their interleavings. A login runs \<open>RegisterControl\<close>
  and \<open>completeControlLogin\<close> of \<open>server/service.go\<close>, with the error path of
  \<open>handleConnection\<close>; a control that has started has a worker (\<open>worker\<close> in
  \<open>server/control.go\<close>) and a heartbeat; work connections, proxies and the shutdown of the
  manager come at any time. A step is one critical section.
\<close>

section \<open>Steps\<close>

text \<open>Where the goroutine of a login is: the call that it makes next.\<close>

datatype login_pc =
    LAdd
  | LInterrupt nat
  | LWait
  | LActivate
  | LComplete
  | LRemove
  | LClose
  | LServed
  | LEnd

text \<open>
  Where the worker of a control is: serving messages, then closing the pool, the proxies, the
  entry of the manager and \<open>doneCh\<close>.
\<close>

datatype worker_pc = WNone | WServe | WPool | WProxies | WRemove | WFinish | WExit

record sys =
  srv :: server
  lpc :: "nat \<Rightarrow> login_pc"
  wpc :: "nat \<Rightarrow> worker_pc"

definition init_sys :: sys where
  "init_sys = \<lparr>srv = NewControlManager NewClientRegistry, lpc = \<lambda>_. LEnd, wpc = \<lambda>_. WNone\<rparr>"

definition barrier_open :: "server \<Rightarrow> Control \<Rightarrow> bool" where
  "barrier_open s c = (case handoffBarrier c of None \<Rightarrow> True | Some b \<Rightarrow> doneClosed (ctls s b))"

definition dispatcher_done :: "Control \<Rightarrow> Control" where
  "dispatcher_done c = interruptReadAndClose (if ctl_state c = CtlRunning then c\<lparr>ctl_state := CtlClosing\<rparr> else c)"

definition closePool :: "Control \<Rightarrow> Control option" where
  "closePool c = (if workConnClosed c then None else Some (c\<lparr>workConnClosed := True, workConnCh := []\<rparr>))"

text \<open>The goroutine of a login.\<close>

inductive login_step :: "sys \<Rightarrow> sys \<Rightarrow> bool" where
  login_new:
    "NewControl rand sc = Inr c \<Longrightarrow> ra_runID (sc_login sc) \<noteq> [] \<Longrightarrow> n = n_ctls (srv \<sigma>) \<Longrightarrow>
     login_step \<sigma> (\<sigma>\<lparr>srv := (set_ctl (srv \<sigma>) n c)\<lparr>n_ctls := Suc n\<rparr>, lpc := (lpc \<sigma>)(n := LAdd), wpc := (wpc \<sigma>)(n := WNone)\<rparr>)"
| login_add:
    "a < n_ctls (srv \<sigma>) \<Longrightarrow> lpc \<sigma> a = LAdd \<Longrightarrow> Add_ctl (srv \<sigma>) a = Some (s', r) \<Longrightarrow>
     login_step \<sigma> (\<sigma>\<lparr>srv := s', lpc := (lpc \<sigma>)(a := (case r of Inl _ \<Rightarrow> LRemove | Inr None \<Rightarrow> LWait | Inr (Some b) \<Rightarrow> LInterrupt b))\<rparr>)"
| login_interrupt:
    "a < n_ctls (srv \<sigma>) \<Longrightarrow> lpc \<sigma> a = LInterrupt b \<Longrightarrow> Replaced b (ctls (srv \<sigma>) b) = Some c \<Longrightarrow>
     login_step \<sigma> (\<sigma>\<lparr>srv := set_ctl (srv \<sigma>) b c, lpc := (lpc \<sigma>)(a := LWait)\<rparr>)"
| login_wait:
    "a < n_ctls (srv \<sigma>) \<Longrightarrow> lpc \<sigma> a = LWait \<Longrightarrow> barrier_open (srv \<sigma>) (ctls (srv \<sigma>) a) \<Longrightarrow>
     login_step \<sigma> (\<sigma>\<lparr>lpc := (lpc \<sigma>)(a := LActivate)\<rparr>)"
| login_activate:
    "a < n_ctls (srv \<sigma>) \<Longrightarrow> lpc \<sigma> a = LActivate \<Longrightarrow> Activate (srv \<sigma>) a now = (s', active, err) \<Longrightarrow>
     login_step \<sigma> (\<sigma>\<lparr>srv := s', lpc := (lpc \<sigma>)(a := (if active \<and> err = None then LComplete else LRemove))\<rparr>)"
| login_complete:
    "a < n_ctls (srv \<sigma>) \<Longrightarrow> lpc \<sigma> a = LComplete \<Longrightarrow> completeLogin (srv \<sigma>) a write_ok xtcp_ok = (s', committed, err) \<Longrightarrow>
     login_step \<sigma> (\<sigma>\<lparr>srv := s', lpc := (lpc \<sigma>)(a := (if committed then LServed else LRemove)),
                     wpc := (wpc \<sigma>)(a := (if committed then WServe else wpc \<sigma> a))\<rparr>)"
| login_remove:
    "a < n_ctls (srv \<sigma>) \<Longrightarrow> lpc \<sigma> a = LRemove \<Longrightarrow>
     login_step \<sigma> (\<sigma>\<lparr>srv := fst (Remove (srv \<sigma>) a now), lpc := (lpc \<sigma>)(a := LClose)\<rparr>)"
| login_close:
    "a < n_ctls (srv \<sigma>) \<Longrightarrow> lpc \<sigma> a = LClose \<Longrightarrow> Control_Close (ctls (srv \<sigma>) a) = Some c \<Longrightarrow>
     login_step \<sigma> (\<sigma>\<lparr>srv := set_ctl (srv \<sigma>) a c, lpc := (lpc \<sigma>)(a := LEnd)\<rparr>)"

text \<open>The worker of a control, its heartbeat and the handlers of its dispatcher.\<close>

inductive worker_step :: "sys \<Rightarrow> sys \<Rightarrow> bool" where
  heartbeat:
    "a < n_ctls (srv \<sigma>) \<Longrightarrow> wpc \<sigma> a \<noteq> WNone \<Longrightarrow> Control_Close (ctls (srv \<sigma>) a) = Some c \<Longrightarrow>
     worker_step \<sigma> (\<sigma>\<lparr>srv := set_ctl (srv \<sigma>) a c\<rparr>)"
| new_proxy:
    "a < n_ctls (srv \<sigma>) \<Longrightarrow> wpc \<sigma> a = WServe \<Longrightarrow> pxys (srv \<sigma>) name = None \<Longrightarrow>
     worker_step \<sigma> (\<sigma>\<lparr>srv := (srv \<sigma>)\<lparr>pxys := (pxys (srv \<sigma>))(name \<mapsto> a)\<rparr>\<rparr>)"
| close_proxy:
    "a < n_ctls (srv \<sigma>) \<Longrightarrow> wpc \<sigma> a \<in> {WServe, WProxies} \<Longrightarrow> pxys (srv \<sigma>) name = Some a \<Longrightarrow>
     worker_step \<sigma> (\<sigma>\<lparr>srv := (srv \<sigma>)\<lparr>pxys := (pxys (srv \<sigma>))(name := None)\<rparr>\<rparr>)"
| worker_done:
    "a < n_ctls (srv \<sigma>) \<Longrightarrow> wpc \<sigma> a = WServe \<Longrightarrow> connClosed (ctls (srv \<sigma>) a) \<Longrightarrow>
     worker_step \<sigma> (\<sigma>\<lparr>srv := set_ctl (srv \<sigma>) a (dispatcher_done (ctls (srv \<sigma>) a)), wpc := (wpc \<sigma>)(a := WPool)\<rparr>)"
| worker_pool:
    "a < n_ctls (srv \<sigma>) \<Longrightarrow> wpc \<sigma> a = WPool \<Longrightarrow> closePool (ctls (srv \<sigma>) a) = Some c \<Longrightarrow>
     worker_step \<sigma> (\<sigma>\<lparr>srv := set_ctl (srv \<sigma>) a c, wpc := (wpc \<sigma>)(a := WProxies)\<rparr>)"
| worker_proxies:
    "a < n_ctls (srv \<sigma>) \<Longrightarrow> wpc \<sigma> a = WProxies \<Longrightarrow> (\<And>name. pxys (srv \<sigma>) name \<noteq> Some a) \<Longrightarrow>
     worker_step \<sigma> (\<sigma>\<lparr>wpc := (wpc \<sigma>)(a := WRemove)\<rparr>)"
| worker_remove:
    "a < n_ctls (srv \<sigma>) \<Longrightarrow> wpc \<sigma> a = WRemove \<Longrightarrow>
     worker_step \<sigma> (\<sigma>\<lparr>srv := fst (Remove (srv \<sigma>) a now), wpc := (wpc \<sigma>)(a := WFinish)\<rparr>)"
| worker_finish:
    "a < n_ctls (srv \<sigma>) \<Longrightarrow> wpc \<sigma> a = WFinish \<Longrightarrow> finishLocked (ctls (srv \<sigma>) a) = Some c \<Longrightarrow>
     worker_step \<sigma> (\<sigma>\<lparr>srv := set_ctl (srv \<sigma>) a c, wpc := (wpc \<sigma>)(a := WExit)\<rparr>)"

text \<open>Work connections, connections that fail, and the shutdown of the manager.\<close>

inductive env_step :: "sys \<Rightarrow> sys \<Rightarrow> bool" where
  work_conn:
    "a < n_ctls (srv \<sigma>) \<Longrightarrow> RegisterWorkConn (srv \<sigma>) a conn = Some (s', err) \<Longrightarrow> env_step \<sigma> (\<sigma>\<lparr>srv := s'\<rparr>)"
| take_conn:
    "a < n_ctls (srv \<sigma>) \<Longrightarrow> env_step \<sigma> (\<sigma>\<lparr>srv := set_ctl (srv \<sigma>) a (fst (recv_workConn (ctls (srv \<sigma>) a)))\<rparr>)"
| conn_lost:
    "a < n_ctls (srv \<sigma>) \<Longrightarrow> env_step \<sigma> (\<sigma>\<lparr>srv := set_ctl (srv \<sigma>) a ((ctls (srv \<sigma>) a)\<lparr>connClosed := True\<rparr>)\<rparr>)"
| shutdown:
    "env_step \<sigma> (\<sigma>\<lparr>srv := (srv \<sigma>)\<lparr>cm_closed := True\<rparr>\<rparr>)"
| shutdown_remove:
    "cm_closed (srv \<sigma>) \<Longrightarrow> a < n_ctls (srv \<sigma>) \<Longrightarrow> env_step \<sigma> (\<sigma>\<lparr>srv := fst (Remove (srv \<sigma>) a now)\<rparr>)"
| shutdown_close:
    "cm_closed (srv \<sigma>) \<Longrightarrow> a < n_ctls (srv \<sigma>) \<Longrightarrow> ctl_state (ctls (srv \<sigma>) a) \<noteq> CtlCreated \<Longrightarrow>
     Control_Close (ctls (srv \<sigma>) a) = Some c \<Longrightarrow> env_step \<sigma> (\<sigma>\<lparr>srv := set_ctl (srv \<sigma>) a c\<rparr>)"

definition ctl_step :: "sys \<Rightarrow> sys \<Rightarrow> bool" where
  "ctl_step \<sigma> \<sigma>' \<longleftrightarrow> login_step \<sigma> \<sigma>' \<or> worker_step \<sigma> \<sigma>' \<or> env_step \<sigma> \<sigma>'"

inductive reachable :: "sys \<Rightarrow> bool" where
  reachable_init: "reachable init_sys"
| reachable_step: "reachable \<sigma> \<Longrightarrow> ctl_step \<sigma> \<sigma>' \<Longrightarrow> reachable \<sigma>'"

section \<open>Invariants\<close>

text \<open>The state of a control agrees with the positions of its goroutines.\<close>

definition ctl_ok :: "login_pc \<Rightarrow> worker_pc \<Rightarrow> Control \<Rightarrow> bool" where
  "ctl_ok l w c \<longleftrightarrow>
     runID c \<noteq> [] \<and> (doneClosed c \<longleftrightarrow> ctl_state c = CtlClosed) \<and> length (workConnCh c) \<le> workConnCap c \<and>
     (case w of
        WNone \<Rightarrow>
          l \<noteq> LServed \<and> \<not> workConnClosed c \<and> (l = LAdd \<longrightarrow> ctl_state c = CtlCreated) \<and>
          (ctl_state c = CtlCreated \<longrightarrow> l = LAdd \<or> l = LRemove \<or> l = LClose) \<and>
          (ctl_state c = CtlCreated \<or> ctl_state c = CtlPending \<or> ctl_state c = CtlClosed)
      | WServe \<Rightarrow> l = LServed \<and> \<not> workConnClosed c \<and> (ctl_state c = CtlRunning \<or> ctl_state c = CtlClosing)
      | WPool \<Rightarrow> l = LServed \<and> \<not> workConnClosed c \<and> ctl_state c = CtlClosing
      | WExit \<Rightarrow> l = LServed \<and> workConnClosed c \<and> ctl_state c = CtlClosed
      | _ \<Rightarrow> l = LServed \<and> workConnClosed c \<and> ctl_state c = CtlClosing)"

definition ctls_ok :: "sys \<Rightarrow> bool" where
  "ctls_ok \<sigma> \<longleftrightarrow> (\<forall>a < n_ctls (srv \<sigma>). ctl_ok (lpc \<sigma> a) (wpc \<sigma> a) (ctls (srv \<sigma>) a))"

text \<open>The entry of a run ID leads to an admitted control of that run ID that still owns it.\<close>

definition entries_ok :: "sys \<Rightarrow> bool" where
  "entries_ok \<sigma> \<longleftrightarrow>
     (\<forall>r e. ctlsByRunID (srv \<sigma>) r = Some e \<longrightarrow>
        entry_ctl e < n_ctls (srv \<sigma>) \<and> runID (ctls (srv \<sigma>) (entry_ctl e)) = r \<and>
        entry_id e = controlID (ctls (srv \<sigma>) (entry_ctl e)) \<and>
        lpc \<sigma> (entry_ctl e) \<notin> {LAdd, LClose, LEnd} \<and> wpc \<sigma> (entry_ctl e) \<notin> {WFinish, WExit} \<and>
        (\<not> cm_closed (srv \<sigma>) \<longrightarrow> ctl_state (ctls (srv \<sigma>) (entry_ctl e)) \<notin> {CtlCreated, CtlClosed}))"

text \<open>A control is live while its worker may still serve or holds resources.\<close>

definition live :: "sys \<Rightarrow> nat \<Rightarrow> bool" where
  "live \<sigma> a \<longleftrightarrow> a < n_ctls (srv \<sigma>) \<and> wpc \<sigma> a \<in> {WServe, WPool, WProxies, WRemove}"

text \<open>A live control is the current one of its run ID, or the current one still waits for it.\<close>

definition waits_for :: "sys \<Rightarrow> nat \<Rightarrow> nat \<Rightarrow> bool" where
  "waits_for \<sigma> b a \<longleftrightarrow>
     handoffBarrier (ctls (srv \<sigma>) b) = Some a \<and> ctl_state (ctls (srv \<sigma>) b) = CtlPending \<and>
     (lpc \<sigma> b = LWait \<or> (\<exists>d. lpc \<sigma> b = LInterrupt d))"

definition handoff_ok :: "sys \<Rightarrow> bool" where
  "handoff_ok \<sigma> \<longleftrightarrow>
     (\<forall>a. live \<sigma> a \<longrightarrow> \<not> cm_closed (srv \<sigma>) \<longrightarrow>
        (\<exists>e. ctlsByRunID (srv \<sigma>) (runID (ctls (srv \<sigma>) a)) = Some e \<and>
             (entry_ctl e = a \<or> waits_for \<sigma> (entry_ctl e) a))) \<and>
     (\<forall>a b. live \<sigma> a \<longrightarrow> live \<sigma> b \<longrightarrow> runID (ctls (srv \<sigma>) a) = runID (ctls (srv \<sigma>) b) \<longrightarrow> a = b)"

definition pxys_ok :: "sys \<Rightarrow> bool" where
  "pxys_ok \<sigma> \<longleftrightarrow>
     (\<forall>name a. pxys (srv \<sigma>) name = Some a \<longrightarrow> a < n_ctls (srv \<sigma>) \<and> wpc \<sigma> a \<in> {WServe, WPool, WProxies})"

definition registry_ok :: "sys \<Rightarrow> bool" where
  "registry_ok \<sigma> \<longleftrightarrow>
     reg_inv (registry (srv \<sigma>)) \<and>
     (\<forall>k info. clients (registry (srv \<sigma>)) k = Some info \<longrightarrow> Online info \<longrightarrow>
        (\<exists>e. ctlsByRunID (srv \<sigma>) (RunID info) = Some e \<and> registryOnline e \<and> registryControlID e = ControlID info))"

text \<open>The controls that a login has still to interrupt or waits for are on their way out.\<close>

definition ptrs_ok :: "sys \<Rightarrow> bool" where
  "ptrs_ok \<sigma> \<longleftrightarrow>
     (\<forall>a < n_ctls (srv \<sigma>). \<forall>b. lpc \<sigma> a = LInterrupt b \<or> handoffBarrier (ctls (srv \<sigma>) a) = Some b \<longrightarrow>
        b < n_ctls (srv \<sigma>) \<and> ctl_state (ctls (srv \<sigma>) b) \<in> {CtlClosing, CtlClosed})"

definition sys_inv :: "sys \<Rightarrow> bool" where
  "sys_inv \<sigma> \<longleftrightarrow> ctls_ok \<sigma> \<and> ptrs_ok \<sigma> \<and> entries_ok \<sigma> \<and> handoff_ok \<sigma> \<and> pxys_ok \<sigma> \<and> registry_ok \<sigma>"

subsection \<open>What the operations do to one control\<close>

lemmas close_defs = Control_Close_def closeState_def Replaced_def markReplaced_def finishLocked_def
  interruptReadAndClose_def

lemma NewControl_ok:
  assumes "NewControl rand sc = Inr c" and "ra_runID (sc_login sc) \<noteq> []"
  shows "ctl_ok LAdd WNone c \<and> handoffBarrier c = None"
  using assms
  by (simp add: NewControl_def Let_def split: if_splits option.splits; hypsubst; simp add: ctl_ok_def)

text \<open>Closing never closes \<open>doneCh\<close> a second time.\<close>

lemma Control_Close_eq:
  assumes "ctl_ok l w c"
  shows "Control_Close c = Some (case ctl_state c of
      CtlCreated \<Rightarrow> c\<lparr>ctl_state := CtlClosed, doneClosed := True, connClosed := True\<rparr>
    | CtlPending \<Rightarrow> c\<lparr>ctl_state := CtlClosed, doneClosed := True, connClosed := True\<rparr>
    | CtlRunning \<Rightarrow> c\<lparr>ctl_state := CtlClosing, connClosed := True\<rparr>
    | _ \<Rightarrow> c\<lparr>connClosed := True\<rparr>)"
  using assms by (cases "ctl_state c") (simp_all add: close_defs ctl_ok_def)

lemma markReplaced_eq:
  assumes "ctl_ok l w c"
  shows "markReplaced a c = Some (case ctl_state c of
      CtlCreated \<Rightarrow> (c\<lparr>ctl_state := CtlClosed, doneClosed := True\<rparr>, None)
    | CtlPending \<Rightarrow> (c\<lparr>ctl_state := CtlClosed, doneClosed := True\<rparr>, handoffBarrier c)
    | CtlRunning \<Rightarrow> (c\<lparr>ctl_state := CtlClosing\<rparr>, Some a)
    | _ \<Rightarrow> (c, Some a))"
  using assms by (cases "ctl_state c") (simp_all add: close_defs ctl_ok_def)

lemma ctl_ok_closed:
  assumes "ctl_ok l w c" and "l \<noteq> LAdd" and "ctl_state c = CtlCreated \<or> ctl_state c = CtlPending"
  shows "ctl_ok l w (c\<lparr>ctl_state := CtlClosed, doneClosed := True\<rparr>)"
  using assms by (cases w) (auto simp: ctl_ok_def)

lemma ctl_ok_closing:
  assumes "ctl_ok l w c" and "ctl_state c = CtlRunning"
  shows "ctl_ok l w (c\<lparr>ctl_state := CtlClosing\<rparr>)"
  using assms by (cases w) (auto simp: ctl_ok_def)

lemma ctl_ok_frame [simp]:
  "ctl_ok l w (c\<lparr>connClosed := i\<rparr>) = ctl_ok l w c"
  "ctl_ok l w (c\<lparr>activated := v\<rparr>) = ctl_ok l w c"
  "ctl_ok l w (c\<lparr>handoffBarrier := b\<rparr>) = ctl_ok l w c"
  "ctl_ok l w (c\<lparr>controlID := k\<rparr>) = ctl_ok l w c"
  by (cases w; simp add: ctl_ok_def)+

lemma Control_Close_ok:
  assumes "ctl_ok l w c" and "l \<noteq> LAdd" and "Control_Close c = Some c'"
  shows "ctl_ok l w c'" and "runID c' = runID c" and "controlID c' = controlID c"
    and "handoffBarrier c' = handoffBarrier c"
    and "ctl_state c' = (if ctl_state c = CtlCreated \<or> ctl_state c = CtlPending then CtlClosed
           else if ctl_state c = CtlRunning then CtlClosing else ctl_state c)"
proof -
  have c': "c' = (case ctl_state c of
      CtlCreated \<Rightarrow> c\<lparr>ctl_state := CtlClosed, doneClosed := True\<rparr>
    | CtlPending \<Rightarrow> c\<lparr>ctl_state := CtlClosed, doneClosed := True\<rparr>
    | CtlRunning \<Rightarrow> c\<lparr>ctl_state := CtlClosing\<rparr>
    | _ \<Rightarrow> c)\<lparr>connClosed := True\<rparr>"
    using assms(3) unfolding Control_Close_eq [OF assms(1)] by (cases "ctl_state c") simp_all
  show "ctl_ok l w c'"
    unfolding c' using assms ctl_ok_closed [OF assms(1,2)] ctl_ok_closing [OF assms(1)] by (cases "ctl_state c") simp_all
  show "runID c' = runID c" "controlID c' = controlID c" "handoffBarrier c' = handoffBarrier c"
    "ctl_state c' = (if ctl_state c = CtlCreated \<or> ctl_state c = CtlPending then CtlClosed
           else if ctl_state c = CtlRunning then CtlClosing else ctl_state c)"
    unfolding c' by (cases "ctl_state c"; simp)+
qed

lemma markReplaced_ok:
  assumes "ctl_ok l w c" and "l \<noteq> LAdd" and "markReplaced a c = Some (c', b)"
  shows "ctl_ok l w c'" and "runID c' = runID c" and "controlID c' = controlID c"
    and "handoffBarrier c' = handoffBarrier c"
    and "ctl_state c' = (if ctl_state c = CtlCreated \<or> ctl_state c = CtlPending then CtlClosed
           else if ctl_state c = CtlRunning then CtlClosing else ctl_state c)"
    and "b = (if ctl_state c = CtlCreated then None else if ctl_state c = CtlPending then handoffBarrier c else Some a)"
proof -
  have c': "c' = (case ctl_state c of
      CtlCreated \<Rightarrow> c\<lparr>ctl_state := CtlClosed, doneClosed := True\<rparr>
    | CtlPending \<Rightarrow> c\<lparr>ctl_state := CtlClosed, doneClosed := True\<rparr>
    | CtlRunning \<Rightarrow> c\<lparr>ctl_state := CtlClosing\<rparr>
    | _ \<Rightarrow> c)"
    and "b = (if ctl_state c = CtlCreated then None else if ctl_state c = CtlPending then handoffBarrier c else Some a)"
    using assms(3) unfolding markReplaced_eq [OF assms(1)] by (cases "ctl_state c"; simp)+
  then show "b = (if ctl_state c = CtlCreated then None else if ctl_state c = CtlPending then handoffBarrier c else Some a)"
    by blast
  show "ctl_ok l w c'"
    unfolding c' using assms ctl_ok_closed [OF assms(1,2)] ctl_ok_closing [OF assms(1)] by (cases "ctl_state c") simp_all
  show "runID c' = runID c" "controlID c' = controlID c" "handoffBarrier c' = handoffBarrier c"
    "ctl_state c' = (if ctl_state c = CtlCreated \<or> ctl_state c = CtlPending then CtlClosed
           else if ctl_state c = CtlRunning then CtlClosing else ctl_state c)"
    unfolding c' by (cases "ctl_state c"; simp)+
qed

lemma Replaced_gone:
  assumes "ctl_state c = CtlClosing \<or> ctl_state c = CtlClosed"
  shows "Replaced b c = Some (c\<lparr>connClosed := True\<rparr>)"
  using assms by (cases "ctl_state c") (simp_all add: close_defs)

lemma dispatcher_done_ok:
  assumes "ctl_ok l WServe c"
  shows "ctl_ok l WPool (dispatcher_done c)" and "ctl_state (dispatcher_done c) = CtlClosing"
    and "runID (dispatcher_done c) = runID c" and "controlID (dispatcher_done c) = controlID c"
    and "handoffBarrier (dispatcher_done c) = handoffBarrier c"
  using assms by (cases "ctl_state c"; simp add: dispatcher_done_def interruptReadAndClose_def ctl_ok_def)+

lemma closePool_ok:
  assumes "ctl_ok l WPool c" and "closePool c = Some c'"
  shows "ctl_ok l WProxies c'" and "ctl_state c' = ctl_state c" and "runID c' = runID c" and "controlID c' = controlID c"
    and "handoffBarrier c' = handoffBarrier c"
  using assms by (auto simp: closePool_def ctl_ok_def)

lemma finish_ok:
  assumes "ctl_ok l WFinish c" and "finishLocked c = Some c'"
  shows "ctl_ok l WExit c'" and "ctl_state c' = CtlClosed" and "runID c' = runID c" and "controlID c' = controlID c"
    and "handoffBarrier c' = handoffBarrier c"
  using assms by (auto simp: finishLocked_def ctl_ok_def)

lemma recv_ok:
  assumes "ctl_ok l w c"
  shows "ctl_ok l w (fst (recv_workConn c))" and "ctl_state (fst (recv_workConn c)) = ctl_state c"
    and "runID (fst (recv_workConn c)) = runID c" and "controlID (fst (recv_workConn c)) = controlID c"
    and "handoffBarrier (fst (recv_workConn c)) = handoffBarrier c"
  using assms by (cases "workConnCh c"; cases w; simp add: recv_workConn_def ctl_ok_def)+

lemma ctl_ok_worker: "ctl_ok l w c \<Longrightarrow> w = WNone \<longleftrightarrow> l \<noteq> LServed"
  by (cases w) (auto simp: ctl_ok_def)

subsection \<open>Steps of one goroutine\<close>

lemma ctls_okD: "ctls_ok \<sigma> \<Longrightarrow> a < n_ctls (srv \<sigma>) \<Longrightarrow> ctl_ok (lpc \<sigma> a) (wpc \<sigma> a) (ctls (srv \<sigma>) a)"
  by (simp add: ctls_ok_def)

lemma entries_okD:
  assumes "entries_ok \<sigma>" and "ctlsByRunID (srv \<sigma>) r = Some e"
  shows "entry_ctl e < n_ctls (srv \<sigma>)" and "runID (ctls (srv \<sigma>) (entry_ctl e)) = r"
    and "entry_id e = controlID (ctls (srv \<sigma>) (entry_ctl e))" and "lpc \<sigma> (entry_ctl e) \<notin> {LAdd, LClose, LEnd}"
    and "wpc \<sigma> (entry_ctl e) \<notin> {WFinish, WExit}"
    and "\<not> cm_closed (srv \<sigma>) \<Longrightarrow> ctl_state (ctls (srv \<sigma>) (entry_ctl e)) \<notin> {CtlCreated, CtlClosed}"
  using assms unfolding entries_ok_def by blast+

lemma handoff_okD:
  assumes "handoff_ok \<sigma>" and "live \<sigma> a"
  shows "\<not> cm_closed (srv \<sigma>) \<Longrightarrow>
      \<exists>e. ctlsByRunID (srv \<sigma>) (runID (ctls (srv \<sigma>) a)) = Some e \<and> (entry_ctl e = a \<or> waits_for \<sigma> (entry_ctl e) a)"
    and "live \<sigma> b \<Longrightarrow> runID (ctls (srv \<sigma>) a) = runID (ctls (srv \<sigma>) b) \<Longrightarrow> a = b"
  using assms unfolding handoff_ok_def by blast+

lemma ptrs_okD:
  assumes "ptrs_ok \<sigma>" and "a < n_ctls (srv \<sigma>)" and "lpc \<sigma> a = LInterrupt b \<or> handoffBarrier (ctls (srv \<sigma>) a) = Some b"
  shows "b < n_ctls (srv \<sigma>)" and "ctl_state (ctls (srv \<sigma>) b) = CtlClosing \<or> ctl_state (ctls (srv \<sigma>) b) = CtlClosed"
  using assms unfolding ptrs_ok_def by blast+

lemma pxys_okD: "pxys_ok \<sigma> \<Longrightarrow> pxys (srv \<sigma>) name = Some a \<Longrightarrow> wpc \<sigma> a \<in> {WServe, WPool, WProxies}"
  unfolding pxys_ok_def by blast

lemma no_pxys: "pxys_ok \<sigma> \<Longrightarrow> wpc \<sigma> a \<notin> {WServe, WPool, WProxies} \<Longrightarrow> pxys (srv \<sigma>) name \<noteq> Some a"
  using pxys_okD by blast

lemma sys_invD:
  assumes "sys_inv \<sigma>"
  shows "ctls_ok \<sigma>" and "ptrs_ok \<sigma>" and "entries_ok \<sigma>" and "handoff_ok \<sigma>" and "pxys_ok \<sigma>" and "registry_ok \<sigma>"
  using assms by (simp_all add: sys_inv_def)

text \<open>A goroutine changes its own control and its own position, and no shared table.\<close>

definition upd :: "sys \<Rightarrow> nat \<Rightarrow> Control \<Rightarrow> login_pc \<Rightarrow> worker_pc \<Rightarrow> sys" where
  "upd \<sigma> a c l w = \<sigma>\<lparr>srv := set_ctl (srv \<sigma>) a c, lpc := (lpc \<sigma>)(a := l), wpc := (wpc \<sigma>)(a := w)\<rparr>"

lemma upd_simps [simp]:
  "n_ctls (srv (upd \<sigma> a c l w)) = n_ctls (srv \<sigma>)" "ctlsByRunID (srv (upd \<sigma> a c l w)) = ctlsByRunID (srv \<sigma>)"
  "registry (srv (upd \<sigma> a c l w)) = registry (srv \<sigma>)" "cm_closed (srv (upd \<sigma> a c l w)) = cm_closed (srv \<sigma>)"
  "pxys (srv (upd \<sigma> a c l w)) = pxys (srv \<sigma>)" "ctls (srv (upd \<sigma> a c l w)) = (ctls (srv \<sigma>))(a := c)"
  "lpc (upd \<sigma> a c l w) = (lpc \<sigma>)(a := l)" "wpc (upd \<sigma> a c l w) = (wpc \<sigma>)(a := w)"
  by (simp_all add: upd_def set_ctl_def)

lemma upd_srv: "\<sigma>\<lparr>srv := set_ctl (srv \<sigma>) a c\<rparr> = upd \<sigma> a c (lpc \<sigma> a) (wpc \<sigma> a)"
  by (simp add: upd_def)

lemma upd_lpc: "\<sigma>\<lparr>srv := set_ctl (srv \<sigma>) a c, lpc := (lpc \<sigma>)(a := l)\<rparr> = upd \<sigma> a c l (wpc \<sigma> a)"
  by (simp add: upd_def)

lemma upd_wpc: "\<sigma>\<lparr>srv := set_ctl (srv \<sigma>) a c, wpc := (wpc \<sigma>)(a := w)\<rparr> = upd \<sigma> a c (lpc \<sigma> a) w"
  by (simp add: upd_def)

lemma upd_pc:
  "\<sigma>\<lparr>lpc := (lpc \<sigma>)(a := l)\<rparr> = upd \<sigma> a (ctls (srv \<sigma>) a) l (wpc \<sigma> a)"
  "\<sigma>\<lparr>wpc := (wpc \<sigma>)(a := w)\<rparr> = upd \<sigma> a (ctls (srv \<sigma>) a) (lpc \<sigma> a) w"
  by (simp_all add: upd_def set_ctl_def)

definition leaving :: "Control \<Rightarrow> bool" where
  "leaving c \<longleftrightarrow> ctl_state c = CtlClosing \<or> ctl_state c = CtlClosed"

definition current :: "sys \<Rightarrow> nat \<Rightarrow> bool" where
  "current \<sigma> a \<longleftrightarrow> (\<exists>e. ctlsByRunID (srv \<sigma>) (runID (ctls (srv \<sigma>) a)) = Some e \<and> entry_ctl e = a)"

lemma currentD:
  assumes "entries_ok \<sigma>" and "current \<sigma> a"
  shows "lpc \<sigma> a \<notin> {LAdd, LClose, LEnd} \<and> wpc \<sigma> a \<notin> {WFinish, WExit} \<and>
    (\<not> cm_closed (srv \<sigma>) \<longrightarrow> ctl_state (ctls (srv \<sigma>) a) \<notin> {CtlCreated, CtlClosed})"
  using assms entries_okD [OF assms(1)] unfolding current_def by blast

lemma sys_inv_upd:
  assumes inv: "sys_inv \<sigma>" and a: "a < n_ctls (srv \<sigma>)" and ok: "ctl_ok l w c"
    and same: "runID c = runID (ctls (srv \<sigma>) a)" "controlID c = controlID (ctls (srv \<sigma>) a)"
      "handoffBarrier c = handoffBarrier (ctls (srv \<sigma>) a)"
    and ptr: "\<And>b. l = LInterrupt b \<Longrightarrow> lpc \<sigma> a = LInterrupt b" and out: "leaving (ctls (srv \<sigma>) a) \<Longrightarrow> leaving c"
    and ent: "current \<sigma> a \<Longrightarrow> l \<notin> {LAdd, LClose, LEnd} \<and> w \<notin> {WFinish, WExit} \<and>
      (\<not> cm_closed (srv \<sigma>) \<longrightarrow> ctl_state c \<notin> {CtlCreated, CtlClosed})"
    and alive: "w \<in> {WServe, WPool, WProxies, WRemove} \<Longrightarrow> live \<sigma> a"
    and wait: "\<And>b. waits_for \<sigma> a b \<Longrightarrow> live \<sigma> b \<Longrightarrow> \<not> cm_closed (srv \<sigma>) \<Longrightarrow> current \<sigma> a \<Longrightarrow>
      ctl_state c = CtlPending \<and> (l = LWait \<or> (\<exists>d. l = LInterrupt d))"
    and px: "\<And>name. pxys (srv \<sigma>) name = Some a \<Longrightarrow> w \<in> {WServe, WPool, WProxies}"
  shows "sys_inv (upd \<sigma> a c l w)"
  unfolding sys_inv_def
proof (intro conjI)
  note d = sys_invD [OF inv]
  let ?\<sigma> = "upd \<sigma> a c l w"
  show "ctls_ok ?\<sigma>"
    using ctls_okD [OF d(1)] ok by (simp add: ctls_ok_def)
  show "ptrs_ok ?\<sigma>"
    unfolding ptrs_ok_def
  proof (intro allI impI)
    fix x b
    assume x: "x < n_ctls (srv ?\<sigma>)" and p: "lpc ?\<sigma> x = LInterrupt b \<or> handoffBarrier (ctls (srv ?\<sigma>) x) = Some b"
    then have "lpc \<sigma> x = LInterrupt b \<or> handoffBarrier (ctls (srv \<sigma>) x) = Some b"
      using ptr same(3) by (cases "x = a") auto
    with x ptrs_okD [OF d(2)] have "b < n_ctls (srv \<sigma>)" "leaving (ctls (srv \<sigma>) b)" by (auto simp: leaving_def)
    with out show "b < n_ctls (srv ?\<sigma>) \<and> ctl_state (ctls (srv ?\<sigma>) b) \<in> {CtlClosing, CtlClosed}"
      by (cases "b = a") (auto simp: leaving_def)
  qed
  show "entries_ok ?\<sigma>"
    unfolding entries_ok_def
  proof (intro allI impI)
    fix r e
    assume "ctlsByRunID (srv ?\<sigma>) r = Some e"
    then have e: "ctlsByRunID (srv \<sigma>) r = Some e" by simp
    note f = entries_okD [OF d(3) e]
    have "current \<sigma> a" if "entry_ctl e = a" using e f(2) that by (auto simp: current_def)
    with ent f same show "entry_ctl e < n_ctls (srv ?\<sigma>) \<and> runID (ctls (srv ?\<sigma>) (entry_ctl e)) = r \<and>
        entry_id e = controlID (ctls (srv ?\<sigma>) (entry_ctl e)) \<and>
        lpc ?\<sigma> (entry_ctl e) \<notin> {LAdd, LClose, LEnd} \<and> wpc ?\<sigma> (entry_ctl e) \<notin> {WFinish, WExit} \<and>
        (\<not> cm_closed (srv ?\<sigma>) \<longrightarrow> ctl_state (ctls (srv ?\<sigma>) (entry_ctl e)) \<notin> {CtlCreated, CtlClosed})"
      by (cases "entry_ctl e = a") simp_all
  qed
  have lv: "live \<sigma> b" if "live ?\<sigma> b" for b
    using that alive by (cases "b = a") (auto simp: live_def)
  have rid: "runID (ctls (srv ?\<sigma>) b) = runID (ctls (srv \<sigma>) b)" for b using same(1) by simp
  show "handoff_ok ?\<sigma>"
    unfolding handoff_ok_def rid
  proof (intro conjI allI impI)
    fix b
    assume b: "live ?\<sigma> b" and nc: "\<not> cm_closed (srv ?\<sigma>)"
    from nc have nc': "\<not> cm_closed (srv \<sigma>)" by simp
    from handoff_okD(1) [OF d(4) lv [OF b] nc'] obtain e where
      e: "ctlsByRunID (srv \<sigma>) (runID (ctls (srv \<sigma>) b)) = Some e" "entry_ctl e = b \<or> waits_for \<sigma> (entry_ctl e) b" by blast
    have cur: "current \<sigma> a" if "entry_ctl e = a"
      using e(1) entries_okD(2) [OF d(3) e(1)] that by (auto simp: current_def)
    have "entry_ctl e = b \<or> waits_for ?\<sigma> (entry_ctl e) b"
    proof (cases "entry_ctl e = a")
      case True
      with e(2) wait [of b] lv [OF b] nc' cur same(3) show ?thesis by (auto simp: waits_for_def)
    next
      case False
      with e(2) show ?thesis by (simp add: waits_for_def)
    qed
    with e(1) show "\<exists>e. ctlsByRunID (srv ?\<sigma>) (runID (ctls (srv \<sigma>) b)) = Some e \<and> (entry_ctl e = b \<or> waits_for ?\<sigma> (entry_ctl e) b)"
      by simp
  next
    fix b b'
    assume "live ?\<sigma> b" "live ?\<sigma> b'" "runID (ctls (srv \<sigma>) b) = runID (ctls (srv \<sigma>) b')"
    then show "b = b'" using handoff_okD(2) [OF d(4)] lv by blast
  qed
  show "pxys_ok ?\<sigma>"
    using d(5) px by (auto simp: pxys_ok_def)
  show "registry_ok ?\<sigma>"
    using d(6) by (simp add: registry_ok_def)
qed

subsection \<open>Removing, adding and starting a control\<close>

lemma Remove_cases:
  assumes "entries_ok \<sigma>"
  obtains (none) "fst (Remove (srv \<sigma>) a now) = srv \<sigma>" and "\<not> current \<sigma> a"
  | (removed) e where "ctlsByRunID (srv \<sigma>) (runID (ctls (srv \<sigma>) a)) = Some e" and "entry_ctl e = a"
      and "fst (Remove (srv \<sigma>) a now) = (srv \<sigma>)\<lparr>
        ctlsByRunID := (ctlsByRunID (srv \<sigma>))(runID (ctls (srv \<sigma>) a) := None),
        registry := (if registryOnline e
          then MarkOfflineByRunIDAndControlID (registry (srv \<sigma>)) (runID (ctls (srv \<sigma>) a)) (registryControlID e) now
          else registry (srv \<sigma>))\<rparr>"
proof (cases "current \<sigma> a")
  case False
  then have "fst (Remove (srv \<sigma>) a now) = srv \<sigma>"
    by (auto simp: Remove_def lockCurrentRun_def owns_def current_def Let_def split: option.splits)
  with False show thesis using none by blast
next
  case True
  then obtain e where e: "ctlsByRunID (srv \<sigma>) (runID (ctls (srv \<sigma>) a)) = Some e" "entry_ctl e = a"
    by (auto simp: current_def)
  have "owns (srv \<sigma>) e a" using entries_okD(3) [OF assms e(1)] e(2) by (simp add: owns_def)
  with e show thesis by (intro removed) (simp_all add: Remove_def lockCurrentRun_def Let_def)
qed

lemma registry_offline:
  assumes "reg_inv cr"
    and on: "\<forall>k info. clients cr k = Some info \<longrightarrow> Online info \<longrightarrow>
      (\<exists>e. m (RunID info) = Some e \<and> registryOnline e \<and> registryControlID e = ControlID info)"
    and e: "m r = Some e" "registryOnline e" and r: "r \<noteq> []"
    and k: "clients (MarkOfflineByRunIDAndControlID cr r (registryControlID e) now) k = Some info" "Online info"
  shows "clients cr k = Some info \<and> RunID info \<noteq> r"
proof -
  have "RunID i \<noteq> r" if "clients cr k' = Some i" "runIndex cr r = None" for k' i
    using reg_invD(2) [OF assms(1) that(1)] that(2) r by auto
  moreover have "k' = key" if "clients cr k' = Some i" "RunID i = r" "runIndex cr r = Some key" for k' i key
    using reg_invD(2) [OF assms(1) that(1)] that(2,3) r by auto
  moreover have "ControlID i = registryControlID e" if "clients cr key = Some i" "RunID i = r" for key i
    using on that reg_invD(3) [OF assms(1) that(1)] e r by fastforce
  moreover have "\<exists>i. clients cr key = Some i \<and> RunID i = r" if "runIndex cr r = Some key" for key
    using reg_invD(1) [OF assms(1) that] by blast
  ultimately show ?thesis
    using k unfolding MarkOfflineByRunIDAndControlID_def markOffline_eq [OF assms(1)]
    by (auto simp: setClientOffline_def split: option.splits if_splits)
qed

lemma registry_removed:
  assumes "registry_ok \<sigma>" and e: "ctlsByRunID (srv \<sigma>) r = Some e" and "r \<noteq> []"
    and reg: "reg = (if registryOnline e then MarkOfflineByRunIDAndControlID (registry (srv \<sigma>)) r (registryControlID e) now
           else registry (srv \<sigma>))"
  shows "reg_inv reg \<and> (\<forall>k info. clients reg k = Some info \<longrightarrow> Online info \<longrightarrow>
      (\<exists>e. ((ctlsByRunID (srv \<sigma>))(r := None)) (RunID info) = Some e \<and> registryOnline e \<and> registryControlID e = ControlID info))"
proof -
  have ri: "reg_inv (registry (srv \<sigma>))"
    and on: "\<forall>k info. clients (registry (srv \<sigma>)) k = Some info \<longrightarrow> Online info \<longrightarrow>
      (\<exists>e. ctlsByRunID (srv \<sigma>) (RunID info) = Some e \<and> registryOnline e \<and> registryControlID e = ControlID info)"
    using assms(1) by (simp_all add: registry_ok_def)
  have keep: "clients (registry (srv \<sigma>)) k = Some info \<and> RunID info \<noteq> r" if k: "clients reg k = Some info" "Online info" for k info
  proof (cases "registryOnline e")
    case True
    from registry_offline [OF ri on e True assms(3), of now] k True show ?thesis by (simp add: reg)
  next
    case False
    with k on e show ?thesis by (fastforce simp: reg)
  qed
  have "reg_inv reg"
    using ri markOffline_inv [OF ri] by (simp add: reg MarkOfflineByRunIDAndControlID_def)
  moreover have "\<exists>e. ((ctlsByRunID (srv \<sigma>))(r := None)) (RunID info) = Some e \<and> registryOnline e \<and> registryControlID e = ControlID info"
    if "clients reg k = Some info" "Online info" for k info
    using keep [OF that] on that(2) by fastforce
  ultimately show ?thesis by blast
qed

lemma sys_inv_remove:
  assumes inv: "sys_inv \<sigma>" and a: "a < n_ctls (srv \<sigma>)" and ok: "ctl_ok l w (ctls (srv \<sigma>) a)"
    and l: "\<And>b. l = LInterrupt b \<Longrightarrow> lpc \<sigma> a = LInterrupt b"
    and alive: "w \<in> {WServe, WPool, WProxies, WRemove} \<Longrightarrow> live \<sigma> a \<and> cm_closed (srv \<sigma>)"
    and why: "cm_closed (srv \<sigma>) \<or> lpc \<sigma> a = LRemove \<or> wpc \<sigma> a = WRemove"
    and px: "\<And>name. pxys (srv \<sigma>) name = Some a \<Longrightarrow> w \<in> {WServe, WPool, WProxies}"
  shows "sys_inv (\<sigma>\<lparr>srv := fst (Remove (srv \<sigma>) a now), lpc := (lpc \<sigma>)(a := l), wpc := (wpc \<sigma>)(a := w)\<rparr>)" (is "sys_inv ?\<sigma>")
proof -
  note d = sys_invD [OF inv]
  let ?r = "runID (ctls (srv \<sigma>) a)"
  have oka: "ctl_ok (lpc \<sigma> a) (wpc \<sigma> a) (ctls (srv \<sigma>) a)" by (rule ctls_okD [OF d(1) a])
  have nw: "\<not> waits_for \<sigma> a b" if "\<not> cm_closed (srv \<sigma>)" for b
    using why that oka by (auto simp: waits_for_def ctl_ok_def)
  from d(3) show ?thesis
  proof (cases rule: Remove_cases [where a = a and now = now])
    case none
    have "?\<sigma> = upd \<sigma> a (ctls (srv \<sigma>) a) l w"
      using none(1) by (simp add: upd_def set_ctl_def)
    moreover have "sys_inv (upd \<sigma> a (ctls (srv \<sigma>) a) l w)"
      by (rule sys_inv_upd [OF inv a ok refl refl refl l]) (use none(2) alive nw px in auto)
    ultimately show ?thesis by simp
  next
      case (removed e)
    define \<tau> where "\<tau> = ?\<sigma>"
    have s: "ctls (srv \<tau>) = ctls (srv \<sigma>)" "n_ctls (srv \<tau>) = n_ctls (srv \<sigma>)" "pxys (srv \<tau>) = pxys (srv \<sigma>)"
      "cm_closed (srv \<tau>) = cm_closed (srv \<sigma>)" "ctlsByRunID (srv \<tau>) = (ctlsByRunID (srv \<sigma>))(?r := None)"
      "registry (srv \<tau>) = (if registryOnline e
          then MarkOfflineByRunIDAndControlID (registry (srv \<sigma>)) ?r (registryControlID e) now else registry (srv \<sigma>))"
      and pc: "lpc \<tau> = (lpc \<sigma>)(a := l)" "wpc \<tau> = (wpc \<sigma>)(a := w)"
      using removed(3) by (simp_all add: \<tau>_def)
    have ne: "?r \<noteq> []" using oka by (simp add: ctl_ok_def)
    have lv: "live \<sigma> b \<and> (b = a \<longrightarrow> cm_closed (srv \<sigma>))" if "live \<tau> b" for b
      using that alive by (cases "b = a") (auto simp: live_def s pc)
    have "sys_inv \<tau>"
      unfolding sys_inv_def
    proof (intro conjI)
      show "ctls_ok \<tau>" using ctls_okD [OF d(1)] ok by (simp add: ctls_ok_def s pc)
      show "ptrs_ok \<tau>"
        unfolding ptrs_ok_def s pc
      proof (intro allI impI)
        fix x b
        assume x: "x < n_ctls (srv \<sigma>)" "((lpc \<sigma>)(a := l)) x = LInterrupt b \<or> handoffBarrier (ctls (srv \<sigma>) x) = Some b"
        then have "lpc \<sigma> x = LInterrupt b \<or> handoffBarrier (ctls (srv \<sigma>) x) = Some b" using l by (cases "x = a") auto
        from ptrs_okD [OF d(2) x(1) this]
        show "b < n_ctls (srv \<sigma>) \<and> ctl_state (ctls (srv \<sigma>) b) \<in> {CtlClosing, CtlClosed}" by blast
      qed
      show "entries_ok \<tau>"
        unfolding entries_ok_def s pc
      proof (intro allI impI)
        fix r' e'
        assume "((ctlsByRunID (srv \<sigma>))(?r := None)) r' = Some e'"
        then have e': "ctlsByRunID (srv \<sigma>) r' = Some e'" "r' \<noteq> ?r" by (auto split: if_splits)
        note f = entries_okD [OF d(3) e'(1)]
        have "entry_ctl e' \<noteq> a" using f(2) e'(2) by auto
        with f show "entry_ctl e' < n_ctls (srv \<sigma>) \<and> runID (ctls (srv \<sigma>) (entry_ctl e')) = r' \<and>
          entry_id e' = controlID (ctls (srv \<sigma>) (entry_ctl e')) \<and>
          ((lpc \<sigma>)(a := l)) (entry_ctl e') \<notin> {LAdd, LClose, LEnd} \<and> ((wpc \<sigma>)(a := w)) (entry_ctl e') \<notin> {WFinish, WExit} \<and>
          (\<not> cm_closed (srv \<sigma>) \<longrightarrow> ctl_state (ctls (srv \<sigma>) (entry_ctl e')) \<notin> {CtlCreated, CtlClosed})" by simp
      qed
      show "handoff_ok \<tau>"
        unfolding handoff_ok_def s
      proof (intro conjI allI impI)
        fix b
        assume b: "live \<tau> b" and nc: "\<not> cm_closed (srv \<sigma>)"
        from lv [OF b] nc have lb: "live \<sigma> b" "b \<noteq> a" by auto
        from handoff_okD(1) [OF d(4) lb(1) nc] obtain e' where
          e': "ctlsByRunID (srv \<sigma>) (runID (ctls (srv \<sigma>) b)) = Some e'" "entry_ctl e' = b \<or> waits_for \<sigma> (entry_ctl e') b" by blast
        have r': "runID (ctls (srv \<sigma>) b) \<noteq> ?r"
        proof
          assume "runID (ctls (srv \<sigma>) b) = ?r"
          with e'(1) removed(1,2) have "entry_ctl e' = a" by simp
          with e'(2) nw [OF nc, of b] lb(2) show False by blast
        qed
        then have "entry_ctl e' \<noteq> a" using entries_okD(2) [OF d(3) e'(1)] by auto
        then have "entry_ctl e' = b \<or> waits_for \<tau> (entry_ctl e') b"
          using e'(2) by (simp add: waits_for_def s pc)
        with e'(1) r' show "\<exists>e. ((ctlsByRunID (srv \<sigma>))(?r := None)) (runID (ctls (srv \<sigma>) b)) = Some e \<and>
            (entry_ctl e = b \<or> waits_for \<tau> (entry_ctl e) b)" by simp
      next
        fix b b'
        assume "live \<tau> b" "live \<tau> b'" "runID (ctls (srv \<sigma>) b) = runID (ctls (srv \<sigma>) b')"
        then show "b = b'" using handoff_okD(2) [OF d(4)] lv by blast
      qed
      show "pxys_ok \<tau>" using d(5) px by (auto simp: pxys_ok_def s pc)
      show "registry_ok \<tau>"
        using registry_removed [OF d(6) removed(1) ne refl, of now] by (simp add: registry_ok_def s)
    qed
    then show ?thesis unfolding \<tau>_def .
  qed
qed

text \<open>A new control becomes the pending current generation of its run ID.\<close>

lemma Add_ctl_cases:
  assumes inv: "sys_inv \<sigma>" and a: "a < n_ctls (srv \<sigma>)" and l: "lpc \<sigma> a = LAdd" and add: "Add_ctl (srv \<sigma>) a = Some (s', res)"
  obtains (fail) err where "res = Inl err" and "s' = srv \<sigma>" and "cm_closed (srv \<sigma>)"
  | (first) c e where "res = Inr None" and "ctlsByRunID (srv \<sigma>) (runID c) = None"
      and "c = (ctls (srv \<sigma>) a)\<lparr>controlID := nextControlID (srv \<sigma>) + 1, ctl_state := CtlPending\<rparr>"
      and "entry_ctl e = a" and "entry_id e = controlID c" and "\<not> registryOnline e"
      and "s' = (set_ctl ((srv \<sigma>)\<lparr>nextControlID := controlID c\<rparr>) a c)\<lparr>ctlsByRunID := (ctlsByRunID (srv \<sigma>))(runID c \<mapsto> e)\<rparr>"
  | (replace) c e old oc b where "res = Inr (Some (entry_ctl old))" and "ctlsByRunID (srv \<sigma>) (runID c) = Some old"
      and "markReplaced (entry_ctl old) (ctls (srv \<sigma>) (entry_ctl old)) = Some (oc, b)"
      and "c = (ctls (srv \<sigma>) a)\<lparr>controlID := nextControlID (srv \<sigma>) + 1, ctl_state := CtlPending, handoffBarrier := b\<rparr>"
      and "entry_ctl e = a" and "entry_id e = controlID c" and "registryOnline e = registryOnline old"
      and "registryControlID e = registryControlID old" and "entry_ctl old \<noteq> a"
      and "s' = (set_ctl (set_ctl ((srv \<sigma>)\<lparr>nextControlID := controlID c\<rparr>) (entry_ctl old) oc) a c)
        \<lparr>ctlsByRunID := (ctlsByRunID (srv \<sigma>))(runID c \<mapsto> e)\<rparr>"
proof -
  note d = sys_invD [OF inv]
  have ok: "ctl_ok LAdd (wpc \<sigma> a) (ctls (srv \<sigma>) a)" using ctls_okD [OF d(1) a] l by simp
  then have created: "ctl_state (ctls (srv \<sigma>) a) = CtlCreated" by (cases "wpc \<sigma> a") (simp_all add: ctl_ok_def)
  have old: "entry_ctl old \<noteq> a" if "ctlsByRunID (srv \<sigma>) r = Some old" for r old
    using entries_okD(4) [OF d(3) that] l by auto
  show thesis
  proof (cases "cm_closed (srv \<sigma>)")
    case True
    with add fail show thesis by (auto simp: Add_ctl_def)
  next
    case nc: False
    show thesis
    proof (cases "ctlsByRunID (srv \<sigma>) (runID (ctls (srv \<sigma>) a))")
      case None
      with add nc created show thesis
        by (intro first [of "(ctls (srv \<sigma>) a)\<lparr>controlID := nextControlID (srv \<sigma>) + 1, ctl_state := CtlPending\<rparr>"
              "\<lparr>entry_ctl = a, entry_id = nextControlID (srv \<sigma>) + 1, registryOnline = False, registryControlID = 0\<rparr>"])
          (simp_all add: Add_ctl_def admit_def set_ctl_def Let_def)
    next
      case (Some o')
      obtain oc b where m: "markReplaced (entry_ctl o') (ctls (srv \<sigma>) (entry_ctl o')) = Some (oc, b)"
        using markReplaced_eq [OF ctls_okD [OF d(1) entries_okD(1) [OF d(3) Some]]] by fastforce
      with add nc created Some old [OF Some] show thesis
        by (intro replace [of o' "(ctls (srv \<sigma>) a)\<lparr>controlID := nextControlID (srv \<sigma>) + 1, ctl_state := CtlPending, handoffBarrier := b\<rparr>"
              oc b "\<lparr>entry_ctl = a, entry_id = nextControlID (srv \<sigma>) + 1, registryOnline = registryOnline o',
                    registryControlID = registryControlID o'\<rparr>"])
          (simp_all add: Add_ctl_def admit_def set_ctl_def setHandoffBarrier_def Let_def)
    qed
  qed
qed

text \<open>
  What admission does, in both cases: the previous current control, if any, is marked as leaving and
  its duty to wait passes to the new one.
\<close>

lemma sys_inv_admit:
  assumes inv: "sys_inv \<sigma>" and a: "a < n_ctls (srv \<sigma>)" and l: "lpc \<sigma> a = LAdd" and nc: "\<not> cm_closed (srv \<sigma>)"
    and c: "ctl_ok l' WNone c" "runID c = runID (ctls (srv \<sigma>) a)" "ctl_state c = CtlPending"
    and e: "entry_ctl e = a" "entry_id e = controlID c"
    and s: "ctlsByRunID (srv \<tau>) = (ctlsByRunID (srv \<sigma>))(runID c \<mapsto> e)" "registry (srv \<tau>) = registry (srv \<sigma>)"
      "cm_closed (srv \<tau>) = cm_closed (srv \<sigma>)" "n_ctls (srv \<tau>) = n_ctls (srv \<sigma>)" "pxys (srv \<tau>) = pxys (srv \<sigma>)"
      "ctls (srv \<tau>) = (ctls (srv \<sigma>))(o' := oc, a := c)" "lpc \<tau> = (lpc \<sigma>)(a := l')" "wpc \<tau> = wpc \<sigma>"
    and oc: "o' < n_ctls (srv \<sigma>)" "ctl_ok (lpc \<sigma> o') (wpc \<sigma> o') oc" "runID oc = runID (ctls (srv \<sigma>) o')"
      "controlID oc = controlID (ctls (srv \<sigma>) o')" "handoffBarrier oc = handoffBarrier (ctls (srv \<sigma>) o')"
      "leaving (ctls (srv \<sigma>) o') \<Longrightarrow> leaving oc"
    and ptr: "\<And>b. l' = LInterrupt b \<or> handoffBarrier c = Some b \<Longrightarrow> b \<noteq> a \<and> b < n_ctls (srv \<sigma>) \<and> leaving (if b = o' then oc else ctls (srv \<sigma>) b)"
    and wait: "\<And>b. live \<sigma> b \<Longrightarrow> runID (ctls (srv \<sigma>) b) = runID c \<Longrightarrow> handoffBarrier c = Some b \<and> (l' = LWait \<or> (\<exists>d. l' = LInterrupt d))"
    and owner: "\<And>r e'. ctlsByRunID (srv \<sigma>) r = Some e' \<Longrightarrow> r \<noteq> runID c \<Longrightarrow> entry_ctl e' \<noteq> o' \<or> oc = ctls (srv \<sigma>) o'"
    and l': "l' = LWait \<or> (\<exists>b. l' = LInterrupt b)"
    and reg: "\<And>k info. clients (registry (srv \<sigma>)) k = Some info \<Longrightarrow> Online info \<Longrightarrow> RunID info = runID c \<Longrightarrow>
      registryOnline e \<and> registryControlID e = ControlID info"
  shows "sys_inv \<tau>"
  unfolding sys_inv_def
proof (intro conjI)
  note d = sys_invD [OF inv]
  have wa: "wpc \<sigma> a = WNone" using ctls_okD [OF d(1) a] l by (cases "wpc \<sigma> a") (simp_all add: ctl_ok_def)
  have h: "ctls (srv \<tau>) b = (if b = a then c else if b = o' then oc else ctls (srv \<sigma>) b)" for b by (simp add: s)
  have rid: "runID (ctls (srv \<tau>) b) = runID (ctls (srv \<sigma>) b)" for b by (simp add: h c(2) oc(3))
  have cid: "b \<noteq> a \<Longrightarrow> controlID (ctls (srv \<tau>) b) = controlID (ctls (srv \<sigma>) b)"
    "b \<noteq> a \<Longrightarrow> handoffBarrier (ctls (srv \<tau>) b) = handoffBarrier (ctls (srv \<sigma>) b)" for b by (simp_all add: h oc)
  have lv: "live \<tau> b \<longleftrightarrow> live \<sigma> b" for b by (simp add: live_def s)
  have na: "\<not> live \<sigma> a" by (simp add: live_def wa)
  show "ctls_ok \<tau>"
    using ctls_okD [OF d(1)] c(1) oc(2) wa by (simp add: ctls_ok_def h s)
  show "ptrs_ok \<tau>"
    unfolding ptrs_ok_def
  proof (intro allI impI)
    fix x b
    assume x: "x < n_ctls (srv \<tau>)" and p: "lpc \<tau> x = LInterrupt b \<or> handoffBarrier (ctls (srv \<tau>) x) = Some b"
    have "b \<noteq> a \<and> b < n_ctls (srv \<sigma>) \<and> leaving (if b = o' then oc else ctls (srv \<sigma>) b)"
    proof (cases "x = a")
      case True
      with p ptr show ?thesis by (simp add: h s)
    next
      case False
      with p cid(2) [OF False] have "lpc \<sigma> x = LInterrupt b \<or> handoffBarrier (ctls (srv \<sigma>) x) = Some b" by (simp add: s(7))
      from ptrs_okD [OF d(2) _ this] x have b: "b < n_ctls (srv \<sigma>)" "leaving (ctls (srv \<sigma>) b)" by (simp_all add: leaving_def s)
      moreover have "b \<noteq> a" using b(2) ctls_okD [OF d(1) a] l wa by (auto simp: leaving_def ctl_ok_def)
      ultimately show ?thesis using oc(6) by auto
    qed
    then show "b < n_ctls (srv \<tau>) \<and> ctl_state (ctls (srv \<tau>) b) \<in> {CtlClosing, CtlClosed}"
      by (simp add: h s leaving_def)
  qed
  show "entries_ok \<tau>"
    unfolding entries_ok_def
  proof (intro allI impI)
    fix r e'
    assume r: "ctlsByRunID (srv \<tau>) r = Some e'"
    show "entry_ctl e' < n_ctls (srv \<tau>) \<and> runID (ctls (srv \<tau>) (entry_ctl e')) = r \<and>
        entry_id e' = controlID (ctls (srv \<tau>) (entry_ctl e')) \<and> lpc \<tau> (entry_ctl e') \<notin> {LAdd, LClose, LEnd} \<and>
        wpc \<tau> (entry_ctl e') \<notin> {WFinish, WExit} \<and>
        (\<not> cm_closed (srv \<tau>) \<longrightarrow> ctl_state (ctls (srv \<tau>) (entry_ctl e')) \<notin> {CtlCreated, CtlClosed})"
    proof (cases "r = runID c")
      case True
      with r e a c l' wa show ?thesis by (auto simp: s)
    next
      case False
      with r have r': "ctlsByRunID (srv \<sigma>) r = Some e'" by (simp add: s)
      note f = entries_okD [OF d(3) r']
      have "entry_ctl e' \<noteq> a" using f(4) l by auto
      with f owner [OF r' False] nc show ?thesis by (auto simp: h rid cid s)
    qed
  qed
  show "handoff_ok \<tau>"
    unfolding handoff_ok_def rid lv
  proof (intro conjI allI impI)
    fix b
    assume b: "live \<sigma> b"
    then have ba: "b \<noteq> a" using na by auto
    show "\<exists>e. ctlsByRunID (srv \<tau>) (runID (ctls (srv \<sigma>) b)) = Some e \<and> (entry_ctl e = b \<or> waits_for \<tau> (entry_ctl e) b)"
    proof (cases "runID (ctls (srv \<sigma>) b) = runID c")
      case True
      with wait [OF b] e(1) c(3) show ?thesis by (simp add: s waits_for_def)
    next
      case False
      from handoff_okD(1) [OF d(4) b nc] obtain e' where
        e': "ctlsByRunID (srv \<sigma>) (runID (ctls (srv \<sigma>) b)) = Some e'" "entry_ctl e' = b \<or> waits_for \<sigma> (entry_ctl e') b" by blast
      have "entry_ctl e' \<noteq> a" using entries_okD(4) [OF d(3) e'(1)] l by auto
      with e'(2) owner [OF e'(1) False] have "entry_ctl e' = b \<or> waits_for \<tau> (entry_ctl e') b"
        by (auto simp: waits_for_def h s)
      with e'(1) False show ?thesis by (simp add: s)
    qed
  next
    fix b b'
    assume "live \<sigma> b" "live \<sigma> b'" "runID (ctls (srv \<sigma>) b) = runID (ctls (srv \<sigma>) b')"
    then show "b = b'" using handoff_okD(2) [OF d(4)] by blast
  qed
  show "pxys_ok \<tau>" using d(5) by (simp add: pxys_ok_def s)
  show "registry_ok \<tau>" using d(6) reg unfolding registry_ok_def s by (auto split: if_splits)
qed

lemma sys_inv_add:
  assumes inv: "sys_inv \<sigma>" and a: "a < n_ctls (srv \<sigma>)" and l: "lpc \<sigma> a = LAdd" and add: "Add_ctl (srv \<sigma>) a = Some (s', res)"
    and \<tau>: "\<tau> = \<sigma>\<lparr>srv := s', lpc := (lpc \<sigma>)(a := (case res of Inl _ \<Rightarrow> LRemove | Inr None \<Rightarrow> LWait | Inr (Some b) \<Rightarrow> LInterrupt b))\<rparr>"
  shows "sys_inv \<tau>"
proof -
  note d = sys_invD [OF inv]
  have oka: "ctl_ok LAdd WNone (ctls (srv \<sigma>) a)"
    using ctls_okD [OF d(1) a] l by (cases "wpc \<sigma> a") (simp_all add: ctl_ok_def)
  have okc: "ctl_ok l' WNone ((ctls (srv \<sigma>) a)\<lparr>controlID := i, ctl_state := CtlPending, handoffBarrier := b\<rparr>)"
    if "l' = LWait \<or> (\<exists>b. l' = LInterrupt b)" for l' i b
    using oka that by (auto simp: ctl_ok_def)
  have noptr: "handoffBarrier (ctls (srv \<sigma>) a) \<noteq> Some a" "\<not> leaving (ctls (srv \<sigma>) a)"
    using ptrs_okD(2) [OF d(2) a, of a] oka by (auto simp: ctl_ok_def leaving_def)
  from inv a l add show ?thesis
  proof (cases rule: Add_ctl_cases)
    case (fail err)
    have w: "wpc \<sigma> a = WNone" using ctl_ok_worker [OF ctls_okD [OF d(1) a]] l by simp
    have \<tau>': "\<tau> = upd \<sigma> a (ctls (srv \<sigma>) a) LRemove (wpc \<sigma> a)"
      using fail \<tau> by (simp add: upd_pc)
    show ?thesis
      unfolding \<tau>' w
      by (rule sys_inv_upd [OF inv a _ refl refl refl])
        (use oka l w fail(3) no_pxys [OF d(5), of a] in \<open>auto simp: ctl_ok_def waits_for_def\<close>)
  next
    case (first c e)
    have nc: "\<not> cm_closed (srv \<sigma>)" using add first(1) by (auto simp: Add_ctl_def)
    have r: "runID c = runID (ctls (srv \<sigma>) a)" by (simp add: first(3))
    have nolive: "runID (ctls (srv \<sigma>) b) \<noteq> runID c" if "live \<sigma> b" for b
      using handoff_okD(1) [OF d(4) that nc] first(2) by auto
    have noreg: "RunID info \<noteq> runID c" if "clients (registry (srv \<sigma>)) k = Some info" "Online info" for k info
      using d(6) that first(2) by (fastforce simp: registry_ok_def)
    have bar: "handoffBarrier c = handoffBarrier (ctls (srv \<sigma>) a)" by (simp add: first(3))
    show ?thesis
      by (rule sys_inv_admit [OF inv a l nc, where c = c and e = e and l' = LWait and o' = a and oc = "ctls (srv \<sigma>) a"])
        (use first okc [of LWait "handoffBarrier (ctls (srv \<sigma>) a)" "nextControlID (srv \<sigma>) + 1"] r a ctls_okD [OF d(1) a] nolive noreg bar
            ptrs_okD [OF d(2) a] noptr in \<open>auto simp: \<tau> set_ctl_def leaving_def\<close>)
  next
    case (replace c e old oc b)
    have nc: "\<not> cm_closed (srv \<sigma>)" using add replace(1) by (auto simp: Add_ctl_def)
    have r: "runID c = runID (ctls (srv \<sigma>) a)" by (simp add: replace(4))
    note f = entries_okD [OF d(3) replace(2)]
    note oko = ctls_okD [OF d(1) f(1)]
    have lo: "lpc \<sigma> (entry_ctl old) \<noteq> LAdd" using f(4) by auto
    note m = markReplaced_ok [OF oko lo replace(3)]
    have st: "ctl_state (ctls (srv \<sigma>) (entry_ctl old)) \<in> {CtlPending, CtlRunning, CtlClosing}"
      using f(6) [OF nc] by (cases "ctl_state (ctls (srv \<sigma>) (entry_ctl old))") auto
    have b: "handoffBarrier c = b" by (simp add: replace(4))
    have wait: "b = Some x" if x: "live \<sigma> x" "runID (ctls (srv \<sigma>) x) = runID c" for x
    proof -
      from handoff_okD(1) [OF d(4) x(1) nc] x(2) replace(2)
      have "entry_ctl old = x \<or> waits_for \<sigma> (entry_ctl old) x" by simp
      moreover have "ctl_state (ctls (srv \<sigma>) x) \<noteq> CtlPending"
        using ctls_okD [OF d(1), of x] x(1) by (auto simp: live_def ctl_ok_def)
      ultimately show ?thesis using m(6) st by (auto simp: waits_for_def)
    qed
    show ?thesis
    proof (rule sys_inv_admit [OF inv a l nc, where c = c and e = e and l' = "LInterrupt (entry_ctl old)" and o' = "entry_ctl old" and oc = oc])
      show "ctl_ok (LInterrupt (entry_ctl old)) WNone c" unfolding replace(4) by (rule okc) simp
      fix x
      assume "LInterrupt (entry_ctl old) = LInterrupt x \<or> handoffBarrier c = Some x"
      then have "x = entry_ctl old \<or> handoffBarrier (ctls (srv \<sigma>) (entry_ctl old)) = Some x"
        using b m(6) st by (auto split: if_splits)
      then show "x \<noteq> a \<and> x < n_ctls (srv \<sigma>) \<and> leaving (if x = entry_ctl old then oc else ctls (srv \<sigma>) x)"
        using f(1) replace(9) m(5) st noptr ptrs_okD [OF d(2) f(1)] by (auto simp: leaving_def)
    next
      fix r' e'
      assume "ctlsByRunID (srv \<sigma>) r' = Some e'" "r' \<noteq> runID c"
      then show "entry_ctl e' \<noteq> entry_ctl old \<or> oc = ctls (srv \<sigma>) (entry_ctl old)"
        using entries_okD(2) [OF d(3)] f(2) by metis
    next
      fix k info
      assume "clients (registry (srv \<sigma>)) k = Some info" "Online info" "RunID info = runID c"
      then show "registryOnline e \<and> registryControlID e = ControlID info"
        using d(6) replace(2,7,8) by (fastforce simp: registry_ok_def)
    qed (use replace r f(1) m wait b in \<open>auto simp: \<tau> set_ctl_def leaving_def\<close>)
  qed
qed

lemma registry_activate:
  assumes "registry_ok \<sigma>" and e: "ctlsByRunID (srv \<sigma>) r = Some e"
    and reg: "RegisterWithControlID (registry (srv \<sigma>)) x (entry_id e) now = (reg, k, False)"
    and r: "ra_runID x = r" "r \<noteq> []"
  shows "reg_inv reg \<and> (\<forall>k info. clients reg k = Some info \<longrightarrow> Online info \<longrightarrow>
      (\<exists>e'. ((ctlsByRunID (srv \<sigma>))(r \<mapsto> e\<lparr>registryOnline := True, registryControlID := entry_id e\<rparr>)) (RunID info) = Some e' \<and>
        registryOnline e' \<and> registryControlID e' = ControlID info))"
proof -
  have ri: "reg_inv (registry (srv \<sigma>))"
    and on: "\<forall>k info. clients (registry (srv \<sigma>)) k = Some info \<longrightarrow> Online info \<longrightarrow>
      (\<exists>e. ctlsByRunID (srv \<sigma>) (RunID info) = Some e \<and> registryOnline e \<and> registryControlID e = ControlID info)"
    using assms(1) by (simp_all add: registry_ok_def)
  have reg': "reg = fst (RegisterWithControlID (registry (srv \<sigma>)) x (entry_id e) now)"
    and nc: "\<not> snd (snd (RegisterWithControlID (registry (srv \<sigma>)) x (entry_id e) now))" by (simp_all add: reg)
  have rx: "ra_runID x \<noteq> []" using r by simp
  note eq = RegisterWithControlID_eq(1) [OF rx nc reg' ri]
  note dp = drop_previous_spec(2) [OF ri rx]
  have "RunID info = r \<and> ControlID info = entry_id e \<or> clients (registry (srv \<sigma>)) k = Some info \<and> RunID info \<noteq> r"
    if k: "clients reg k = Some info" "Online info" for k info
  proof (cases "k = client_key x")
    case True
    with k(1) eq [of k] r(1) show ?thesis by (auto simp: fill_info_def)
  next
    case False
    with k eq [of k] dp [where key = "client_key x" and now = now and k = k] r(1) show ?thesis
      by (auto simp: setClientOffline_def split: option.splits if_splits)
  qed
  then have "\<exists>e'. ((ctlsByRunID (srv \<sigma>))(r \<mapsto> e\<lparr>registryOnline := True, registryControlID := entry_id e\<rparr>)) (RunID info) = Some e' \<and>
        registryOnline e' \<and> registryControlID e' = ControlID info" if "clients reg k = Some info" "Online info" for k info
    using on that by fastforce
  moreover have "reg_inv reg" unfolding reg' by (rule Register_inv [OF ri])
  ultimately show ?thesis by blast
qed

text \<open>
  Changing the registry, the proxies and the flags of entries, but not which control they name, and
  closing the manager.
\<close>

lemma sys_inv_flags:
  assumes inv: "sys_inv \<rho>" and reg: "registry_ok \<tau>"
    and s: "ctls (srv \<tau>) = ctls (srv \<rho>)" "n_ctls (srv \<tau>) = n_ctls (srv \<rho>)" "lpc \<tau> = lpc \<rho>" "wpc \<tau> = wpc \<rho>"
    and px: "pxys_ok \<tau>" and cl: "\<not> cm_closed (srv \<tau>) \<Longrightarrow> \<not> cm_closed (srv \<rho>)"
    and e: "\<And>r. map_option (\<lambda>e. (entry_ctl e, entry_id e)) (ctlsByRunID (srv \<tau>) r) =
      map_option (\<lambda>e. (entry_ctl e, entry_id e)) (ctlsByRunID (srv \<rho>) r)"
  shows "sys_inv \<tau>"
proof -
  note f = sys_invD [OF inv]
  have lv: "live \<tau> = live \<rho>" and wf: "waits_for \<tau> = waits_for \<rho>"
    by (simp_all add: live_def waits_for_def s fun_eq_iff)
  have bk: "\<exists>e. ctlsByRunID (srv \<rho>) r = Some e \<and> entry_ctl e = entry_ctl e' \<and> entry_id e = entry_id e'"
    if "ctlsByRunID (srv \<tau>) r = Some e'" for r e'
    using e [of r] that by (cases "ctlsByRunID (srv \<rho>) r") auto
  have forth: "\<exists>e'. ctlsByRunID (srv \<tau>) r = Some e' \<and> entry_ctl e' = entry_ctl e"
    if "ctlsByRunID (srv \<rho>) r = Some e" for r e
  proof -
    from that e [of r] have "map_option (\<lambda>e. (entry_ctl e, entry_id e)) (ctlsByRunID (srv \<tau>) r) = Some (entry_ctl e, entry_id e)"
      by simp
    then show ?thesis by (simp only: map_option_eq_Some prod.inject) blast
  qed
  have "ctls_ok \<tau>" using f(1) by (simp add: ctls_ok_def s)
  moreover have "ptrs_ok \<tau>" using f(2) unfolding ptrs_ok_def s .
  moreover have "entries_ok \<tau>"
    unfolding entries_ok_def
  proof (intro allI impI)
    fix r e'
    assume "ctlsByRunID (srv \<tau>) r = Some e'"
    then obtain e where e: "ctlsByRunID (srv \<rho>) r = Some e" "entry_ctl e = entry_ctl e'" "entry_id e = entry_id e'"
      using bk by blast
    from entries_okD [OF f(3) e(1)]
    show "entry_ctl e' < n_ctls (srv \<tau>) \<and> runID (ctls (srv \<tau>) (entry_ctl e')) = r \<and>
        entry_id e' = controlID (ctls (srv \<tau>) (entry_ctl e')) \<and> lpc \<tau> (entry_ctl e') \<notin> {LAdd, LClose, LEnd} \<and>
        wpc \<tau> (entry_ctl e') \<notin> {WFinish, WExit} \<and>
        (\<not> cm_closed (srv \<tau>) \<longrightarrow> ctl_state (ctls (srv \<tau>) (entry_ctl e')) \<notin> {CtlCreated, CtlClosed})"
      using cl by (simp add: s e(2,3))
  qed
  moreover have "handoff_ok \<tau>"
    unfolding handoff_ok_def lv wf s
  proof (intro conjI allI impI)
    fix b
    assume b: "live \<rho> b" "\<not> cm_closed (srv \<tau>)"
    from handoff_okD(1) [OF f(4) b(1) cl [OF b(2)]] obtain e where
      "ctlsByRunID (srv \<rho>) (runID (ctls (srv \<rho>) b)) = Some e" "entry_ctl e = b \<or> waits_for \<rho> (entry_ctl e) b" by blast
    with forth show "\<exists>e. ctlsByRunID (srv \<tau>) (runID (ctls (srv \<rho>) b)) = Some e \<and> (entry_ctl e = b \<or> waits_for \<rho> (entry_ctl e) b)"
      by metis
  qed (rule handoff_okD(2) [OF f(4)])
  ultimately show ?thesis using reg px by (simp add: sys_inv_def)
qed

lemma sys_inv_activate:
  assumes inv: "sys_inv \<sigma>" and a: "a < n_ctls (srv \<sigma>)" and l: "lpc \<sigma> a = LActivate"
    and act: "Activate (srv \<sigma>) a now = (s', active, err)"
    and \<tau>: "\<tau> = \<sigma>\<lparr>srv := s', lpc := (lpc \<sigma>)(a := (if active \<and> err = None then LComplete else LRemove))\<rparr>"
  shows "sys_inv \<tau>"
proof -
  note d = sys_invD [OF inv]
  let ?c = "ctls (srv \<sigma>) a"
  have w: "wpc \<sigma> a = WNone" using ctl_ok_worker [OF ctls_okD [OF d(1) a]] l by simp
  have pc: "sys_inv (upd \<sigma> a (?c\<lparr>activated := v\<rparr>) l' WNone)" if l': "l' = LComplete \<or> l' = LRemove" for l' v
  proof (rule sys_inv_upd [OF inv a])
    show "ctl_ok l' WNone (?c\<lparr>activated := v\<rparr>)"
      using ctls_okD [OF d(1) a] l w l' by (auto simp: ctl_ok_def)
  qed (use l' l w no_pxys [OF d(5), of a] currentD [OF d(3), of a] in \<open>auto simp: waits_for_def leaving_def\<close>)
  show ?thesis
  proof (cases "s' = srv \<sigma>")
    case True
    have \<tau>': "\<tau> = upd \<sigma> a (?c\<lparr>activated := activated ?c\<rparr>) (if active \<and> err = None then LComplete else LRemove) WNone"
      unfolding \<tau> True using w by (simp add: upd_def set_ctl_def fun_upd_idem)
    show ?thesis unfolding \<tau>' by (rule pc) simp
  next
    case changed: False
    have "RegisterWithControlID cr x i now = (cr', k, True) \<Longrightarrow> cr' = cr" for cr x i cr' k
      by (auto simp: RegisterWithControlID_def Let_def split: if_splits)
    with act changed obtain e reg k where e: "ctlsByRunID (srv \<sigma>) (runID ?c) = Some e"
      and reg: "RegisterWithControlID (registry (srv \<sigma>)) (login_args ?c) (entry_id e) now = (reg, k, False)"
      and s': "s' = (set_ctl (srv \<sigma>) a (?c\<lparr>activated := True\<rparr>))\<lparr>registry := reg,
        ctlsByRunID := (ctlsByRunID (srv \<sigma>))(runID ?c \<mapsto> e\<lparr>registryOnline := True, registryControlID := entry_id e\<rparr>)\<rparr>"
      and res: "active" "err = None"
      by (auto simp: Activate_def lockCurrentRun_def Let_def split: if_splits option.splits prod.splits)
    have r: "ra_runID (login_args ?c) = runID ?c" "runID ?c \<noteq> []"
      using ctls_okD [OF d(1) a] by (simp_all add: login_args_def Let_def ctl_ok_def)
    show ?thesis
    proof (rule sys_inv_flags [OF pc [of LComplete True]])
      show "registry_ok \<tau>"
        using registry_activate [OF d(6) e reg r] by (simp add: registry_ok_def \<tau> s')
      show "pxys_ok \<tau>" using d(5) by (simp add: pxys_ok_def \<tau> s' set_ctl_def)
    qed (use e w res in \<open>auto simp: \<tau> s' set_ctl_def fun_upd_idem\<close>)
  qed
qed

text \<open>A control starts only when no other control of its run ID is live.\<close>

lemma sys_inv_start:
  assumes inv: "sys_inv \<sigma>" and a: "a < n_ctls (srv \<sigma>)" and l: "lpc \<sigma> a = LComplete" and nc: "\<not> cm_closed (srv \<sigma>)"
    and cur: "current \<sigma> a" and st: "ctl_state (ctls (srv \<sigma>) a) = CtlPending"
  shows "sys_inv (upd \<sigma> a ((ctls (srv \<sigma>) a)\<lparr>ctl_state := CtlRunning\<rparr>) LServed WServe)" (is "sys_inv ?\<tau>")
  unfolding sys_inv_def
proof (intro conjI)
  note d = sys_invD [OF inv]
  let ?c = "ctls (srv \<sigma>) a"
  have w: "wpc \<sigma> a = WNone" using ctl_ok_worker [OF ctls_okD [OF d(1) a]] l by simp
  obtain e where e: "ctlsByRunID (srv \<sigma>) (runID ?c) = Some e" "entry_ctl e = a" using cur by (auto simp: current_def)
  have alone: "runID (ctls (srv \<sigma>) b) \<noteq> runID ?c" if "live \<sigma> b" for b
  proof
    assume r: "runID (ctls (srv \<sigma>) b) = runID ?c"
    with handoff_okD(1) [OF d(4) that nc] e have "a = b \<or> waits_for \<sigma> a b" by auto
    then show False using that w l by (auto simp: live_def waits_for_def)
  qed
  have lv: "live ?\<tau> b \<longleftrightarrow> b = a \<or> live \<sigma> b" for b using a by (auto simp: live_def)
  have h: "runID (ctls (srv ?\<tau>) b) = runID (ctls (srv \<sigma>) b)" "controlID (ctls (srv ?\<tau>) b) = controlID (ctls (srv \<sigma>) b)"
    "handoffBarrier (ctls (srv ?\<tau>) b) = handoffBarrier (ctls (srv \<sigma>) b)" for b by simp_all
  show "ctls_ok ?\<tau>"
    using ctls_okD [OF d(1)] ctls_okD [OF d(1) a] l w st by (simp add: ctls_ok_def ctl_ok_def [of LServed] ctl_ok_def [of LComplete])
  show "ptrs_ok ?\<tau>"
    unfolding ptrs_ok_def h
  proof (intro allI impI)
    fix x b
    assume x: "x < n_ctls (srv ?\<tau>)" and "lpc ?\<tau> x = LInterrupt b \<or> handoffBarrier (ctls (srv \<sigma>) x) = Some b"
    then have "lpc \<sigma> x = LInterrupt b \<or> handoffBarrier (ctls (srv \<sigma>) x) = Some b" by (auto split: if_splits)
    from ptrs_okD [OF d(2) _ this] x st show "b < n_ctls (srv ?\<tau>) \<and> ctl_state (ctls (srv ?\<tau>) b) \<in> {CtlClosing, CtlClosed}"
      by auto
  qed
  show "entries_ok ?\<tau>"
    unfolding entries_ok_def h
  proof (intro allI impI)
    fix r e'
    assume "ctlsByRunID (srv ?\<tau>) r = Some e'"
    then have e': "ctlsByRunID (srv \<sigma>) r = Some e'" by simp
    from entries_okD [OF d(3) e']
    show "entry_ctl e' < n_ctls (srv ?\<tau>) \<and> runID (ctls (srv \<sigma>) (entry_ctl e')) = r \<and>
        entry_id e' = controlID (ctls (srv \<sigma>) (entry_ctl e')) \<and> lpc ?\<tau> (entry_ctl e') \<notin> {LAdd, LClose, LEnd} \<and>
        wpc ?\<tau> (entry_ctl e') \<notin> {WFinish, WExit} \<and>
        (\<not> cm_closed (srv ?\<tau>) \<longrightarrow> ctl_state (ctls (srv ?\<tau>) (entry_ctl e')) \<notin> {CtlCreated, CtlClosed})"
      by simp
  qed
  show "handoff_ok ?\<tau>"
    unfolding handoff_ok_def lv h
  proof (intro conjI allI impI)
    fix b
    assume b: "b = a \<or> live \<sigma> b"
    show "\<exists>e. ctlsByRunID (srv ?\<tau>) (runID (ctls (srv \<sigma>) b)) = Some e \<and> (entry_ctl e = b \<or> waits_for ?\<tau> (entry_ctl e) b)"
    proof (cases "b = a")
      case True
      with e show ?thesis by simp
    next
      case False
      with b have lb: "live \<sigma> b" by simp
      from handoff_okD(1) [OF d(4) lb nc] obtain e' where
        e': "ctlsByRunID (srv \<sigma>) (runID (ctls (srv \<sigma>) b)) = Some e'" "entry_ctl e' = b \<or> waits_for \<sigma> (entry_ctl e') b" by blast
      have "entry_ctl e' \<noteq> a" using entries_okD(2) [OF d(3) e'(1)] alone [OF lb] by auto
      with e' show ?thesis by (auto simp: waits_for_def)
    qed
  next
    fix b b'
    assume "b = a \<or> live \<sigma> b" "b' = a \<or> live \<sigma> b'" "runID (ctls (srv \<sigma>) b) = runID (ctls (srv \<sigma>) b')"
    then show "b = b'" using handoff_okD(2) [OF d(4)] alone by metis
  qed
  show "pxys_ok ?\<tau>" using d(5) by (auto simp: pxys_ok_def)
  show "registry_ok ?\<tau>" using d(6) by (simp add: registry_ok_def)
qed

subsection \<open>Every step\<close>

lemma init_sys_inv: "sys_inv init_sys"
  by (simp add: sys_inv_def init_sys_def NewControlManager_def ctls_ok_def ptrs_ok_def entries_ok_def handoff_ok_def
      live_def pxys_ok_def registry_ok_def NewClientRegistry_inv) (simp add: NewClientRegistry_def)

lemma sys_inv_new:
  assumes inv: "sys_inv \<sigma>" and c: "ctl_ok LAdd WNone c" "handoffBarrier c = None" and n: "n = n_ctls (srv \<sigma>)"
  shows "sys_inv (\<sigma>\<lparr>srv := (set_ctl (srv \<sigma>) n c)\<lparr>n_ctls := Suc n\<rparr>, lpc := (lpc \<sigma>)(n := LAdd), wpc := (wpc \<sigma>)(n := WNone)\<rparr>)" (is "sys_inv ?\<tau>")
proof -
  note d = sys_invD [OF inv]
  define \<tau> where "\<tau> = ?\<tau>"
  have s: "ctls (srv \<tau>) = (ctls (srv \<sigma>))(n := c)" "n_ctls (srv \<tau>) = Suc n" "pxys (srv \<tau>) = pxys (srv \<sigma>)"
    "cm_closed (srv \<tau>) = cm_closed (srv \<sigma>)" "ctlsByRunID (srv \<tau>) = ctlsByRunID (srv \<sigma>)"
    "registry (srv \<tau>) = registry (srv \<sigma>)" "lpc \<tau> = (lpc \<sigma>)(n := LAdd)" "wpc \<tau> = (wpc \<sigma>)(n := WNone)"
    by (simp_all add: \<tau>_def set_ctl_def)
  have lt: "entry_ctl e < n" if "ctlsByRunID (srv \<sigma>) r = Some e" for r e using entries_okD(1) [OF d(3) that] n by simp
  have lv: "live \<tau> b \<longleftrightarrow> live \<sigma> b" for b by (auto simp: live_def s n)
  have old: "b \<noteq> n" if "live \<sigma> b" for b using that by (auto simp: live_def n)
  have "ctls_ok \<tau>" using ctls_okD [OF d(1)] c n by (auto simp: ctls_ok_def s less_Suc_eq)
  moreover have "ptrs_ok \<tau>"
    unfolding ptrs_ok_def
  proof (intro allI impI)
    fix x b
    assume x: "x < n_ctls (srv \<tau>)" and p: "lpc \<tau> x = LInterrupt b \<or> handoffBarrier (ctls (srv \<tau>) x) = Some b"
    then have "x < n_ctls (srv \<sigma>)" "lpc \<sigma> x = LInterrupt b \<or> handoffBarrier (ctls (srv \<sigma>) x) = Some b"
      using c(2) n by (auto simp: s less_Suc_eq split: if_splits)
    from ptrs_okD [OF d(2) this] n show "b < n_ctls (srv \<tau>) \<and> ctl_state (ctls (srv \<tau>) b) \<in> {CtlClosing, CtlClosed}"
      by (auto simp: s)
  qed
  moreover have "entries_ok \<tau>"
    unfolding entries_ok_def s
  proof (intro allI impI)
    fix r e
    assume e: "ctlsByRunID (srv \<sigma>) r = Some e"
    from entries_okD [OF d(3) e] lt [OF e]
    show "entry_ctl e < Suc n \<and> runID (((ctls (srv \<sigma>))(n := c)) (entry_ctl e)) = r \<and>
        entry_id e = controlID (((ctls (srv \<sigma>))(n := c)) (entry_ctl e)) \<and>
        ((lpc \<sigma>)(n := LAdd)) (entry_ctl e) \<notin> {LAdd, LClose, LEnd} \<and> ((wpc \<sigma>)(n := WNone)) (entry_ctl e) \<notin> {WFinish, WExit} \<and>
        (\<not> cm_closed (srv \<sigma>) \<longrightarrow> ctl_state (((ctls (srv \<sigma>))(n := c)) (entry_ctl e)) \<notin> {CtlCreated, CtlClosed})"
      by simp
  qed
  moreover have "handoff_ok \<tau>"
    unfolding handoff_ok_def lv
  proof (intro conjI allI impI)
    fix b
    assume b: "live \<sigma> b" and "\<not> cm_closed (srv \<tau>)"
    then have nc: "\<not> cm_closed (srv \<sigma>)" by (simp add: s)
    from handoff_okD(1) [OF d(4) b nc] obtain e where
      e: "ctlsByRunID (srv \<sigma>) (runID (ctls (srv \<sigma>) b)) = Some e" "entry_ctl e = b \<or> waits_for \<sigma> (entry_ctl e) b" by blast
    then have "entry_ctl e = b \<or> waits_for \<tau> (entry_ctl e) b"
      using lt [OF e(1)] by (simp add: waits_for_def s)
    with e(1) old [OF b] show "\<exists>e. ctlsByRunID (srv \<tau>) (runID (ctls (srv \<tau>) b)) = Some e \<and> (entry_ctl e = b \<or> waits_for \<tau> (entry_ctl e) b)"
      by (simp add: s)
  next
    fix b b'
    assume "live \<sigma> b" "live \<sigma> b'" "runID (ctls (srv \<tau>) b) = runID (ctls (srv \<tau>) b')"
    then show "b = b'" using handoff_okD(2) [OF d(4)] old by (simp add: s)
  qed
  moreover have "pxys_ok \<tau>" using d(5) n unfolding pxys_ok_def s by (auto simp: less_Suc_eq)
  moreover have "registry_ok \<tau>" using d(6) by (simp add: registry_ok_def s)
  ultimately have "sys_inv \<tau>" by (simp add: sys_inv_def)
  then show ?thesis unfolding \<tau>_def .
qed

lemma sys_inv_pxys:
  assumes inv: "sys_inv \<sigma>" and p: "\<And>name a. p name = Some a \<Longrightarrow> a < n_ctls (srv \<sigma>) \<and> wpc \<sigma> a \<in> {WServe, WPool, WProxies}"
  shows "sys_inv (\<sigma>\<lparr>srv := (srv \<sigma>)\<lparr>pxys := p\<rparr>\<rparr>)" (is "sys_inv ?\<tau>")
proof (rule sys_inv_flags [OF inv])
  show "registry_ok ?\<tau>" using sys_invD(6) [OF inv] by (simp add: registry_ok_def)
  show "pxys_ok ?\<tau>" using p by (simp add: pxys_ok_def)
qed simp_all

lemma sys_inv_shutdown:
  assumes inv: "sys_inv \<sigma>"
  shows "sys_inv (\<sigma>\<lparr>srv := (srv \<sigma>)\<lparr>cm_closed := True\<rparr>\<rparr>)" (is "sys_inv ?\<tau>")
proof (rule sys_inv_flags [OF inv])
  show "registry_ok ?\<tau>" using sys_invD(6) [OF inv] by (simp add: registry_ok_def)
  show "pxys_ok ?\<tau>" using sys_invD(5) [OF inv] by (simp add: pxys_ok_def)
qed simp_all

lemma sys_inv_close:
  assumes inv: "sys_inv \<sigma>" and a: "a < n_ctls (srv \<sigma>)" and l: "lpc \<sigma> a \<noteq> LAdd"
    and c: "Control_Close (ctls (srv \<sigma>) a) = Some c"
    and why: "cm_closed (srv \<sigma>) \<or> \<not> current \<sigma> a \<or> wpc \<sigma> a \<noteq> WNone"
    and l': "l' = lpc \<sigma> a \<or> lpc \<sigma> a = LClose \<and> l' = LEnd"
  shows "sys_inv (upd \<sigma> a c l' (wpc \<sigma> a))"
proof -
  note d = sys_invD [OF inv]
  note ok = ctls_okD [OF d(1) a]
  note k = Control_Close_ok [OF ok l c]
  have gone: "ctl_state c \<noteq> CtlCreated" "ctl_state c \<noteq> CtlPending" using k(5) by (auto split: if_splits)
  have live': "ctl_state c \<noteq> CtlClosed" if "wpc \<sigma> a \<noteq> WNone" "wpc \<sigma> a \<noteq> WExit"
    using k(5) ok that by (cases "wpc \<sigma> a") (auto simp: ctl_ok_def)
  show ?thesis
  proof (rule sys_inv_upd [OF inv a])
    show "ctl_ok l' (wpc \<sigma> a) c"
      using k(1) l' gone(1) by (cases "wpc \<sigma> a") (auto simp: ctl_ok_def)
    show "current \<sigma> a \<Longrightarrow> l' \<notin> {LAdd, LClose, LEnd} \<and> wpc \<sigma> a \<notin> {WFinish, WExit} \<and>
        (\<not> cm_closed (srv \<sigma>) \<longrightarrow> ctl_state c \<notin> {CtlCreated, CtlClosed})"
      using currentD [OF d(3)] why l' gone(1) live' by auto
    show "ctl_state c = CtlPending \<and> (l' = LWait \<or> (\<exists>d. l' = LInterrupt d))"
      if "waits_for \<sigma> a b" "\<not> cm_closed (srv \<sigma>)" "current \<sigma> a" for b
      using that why ok by (auto simp: waits_for_def dest: ctl_ok_worker)
  qed (use k l' a pxys_okD [OF d(5)] in \<open>auto simp: leaving_def live_def\<close>)
qed

lemma sys_inv_complete:
  assumes inv: "sys_inv \<sigma>" and a: "a < n_ctls (srv \<sigma>)" and l: "lpc \<sigma> a = LComplete"
    and c: "completeLogin (srv \<sigma>) a write_ok xtcp_ok = (s', committed, err)"
    and \<tau>: "\<tau> = \<sigma>\<lparr>srv := s', lpc := (lpc \<sigma>)(a := (if committed then LServed else LRemove)),
                   wpc := (wpc \<sigma>)(a := (if committed then WServe else wpc \<sigma> a))\<rparr>"
  shows "sys_inv \<tau>"
proof (cases committed)
  case True
  let ?c = "ctls (srv \<sigma>) a"
  have "current \<sigma> a" "\<not> cm_closed (srv \<sigma>)" "ctl_state ?c = CtlPending" "s' = set_ctl (srv \<sigma>) a (?c\<lparr>ctl_state := CtlRunning\<rparr>)"
    using c True
    by (auto simp: completeLogin_def lockCurrentRun_def startLocked_def owns_def current_def Let_def split: if_splits option.splits)
  with sys_inv_start [OF inv a l] True show ?thesis by (simp add: \<tau> upd_def)
next
  case False
  note d = sys_invD [OF inv]
  have w: "wpc \<sigma> a = WNone" using ctl_ok_worker [OF ctls_okD [OF d(1) a]] l by simp
  have "s' = srv \<sigma>"
    using c False
    by (auto simp: completeLogin_def startLocked_def set_ctl_def Let_def split: if_splits option.splits)
  then have \<tau>': "\<tau> = upd \<sigma> a (ctls (srv \<sigma>) a) LRemove WNone"
    using False w by (simp add: \<tau> upd_def set_ctl_def fun_upd_idem)
  show ?thesis
    unfolding \<tau>'
    by (rule sys_inv_upd [OF inv a _ refl refl refl])
      (use ctls_okD [OF d(1) a] l w no_pxys [OF d(5), of a] currentD [OF d(3), of a] in \<open>auto simp: ctl_ok_def waits_for_def\<close>)
qed

lemma sys_inv_work_conn:
  assumes inv: "sys_inv \<sigma>" and a: "a < n_ctls (srv \<sigma>)" and c: "RegisterWorkConn (srv \<sigma>) a conn = Some (s', err)"
    and \<tau>: "\<tau> = \<sigma>\<lparr>srv := s'\<rparr>"
  shows "sys_inv \<tau>"
proof (cases "s' = srv \<sigma>")
  case True
  with inv show ?thesis by (simp add: \<tau>)
next
  case False
  note d = sys_invD [OF inv]
  let ?c = "ctls (srv \<sigma>) a" let ?c' = "?c\<lparr>workConnCh := workConnCh ?c @ [conn]\<rparr>"
  have s': "s' = set_ctl (srv \<sigma>) a ?c'" "length (workConnCh ?c) < workConnCap ?c"
    using c False by (auto simp: RegisterWorkConn_def Let_def split: if_splits option.splits)
  have ok: "ctl_ok (lpc \<sigma> a) (wpc \<sigma> a) ?c'"
    using ctls_okD [OF d(1) a] s'(2) by (cases "wpc \<sigma> a") (simp_all add: ctl_ok_def)
  show ?thesis
    unfolding \<tau> s'(1) upd_srv
    by (rule sys_inv_upd [OF inv a ok])
      (use a currentD [OF d(3), of a] pxys_okD [OF d(5), of _ a] in \<open>auto simp: leaving_def live_def waits_for_def\<close>)
qed

lemma sys_inv_interrupt:
  assumes inv: "sys_inv \<sigma>" and a: "a < n_ctls (srv \<sigma>)" and l: "lpc \<sigma> a = LInterrupt b"
    and r: "Replaced b (ctls (srv \<sigma>) b) = Some c"
    and \<tau>: "\<tau> = \<sigma>\<lparr>srv := set_ctl (srv \<sigma>) b c, lpc := (lpc \<sigma>)(a := LWait)\<rparr>"
  shows "sys_inv \<tau>"
proof -
  note d = sys_invD [OF inv]
  note ok = ctls_okD [OF d(1)]
  note p = ptrs_okD [OF d(2) a] 
  have b: "b < n_ctls (srv \<sigma>)" "ctl_state (ctls (srv \<sigma>) b) = CtlClosing \<or> ctl_state (ctls (srv \<sigma>) b) = CtlClosed"
    using p l by auto
  have c: "c = (ctls (srv \<sigma>) b)\<lparr>connClosed := True\<rparr>" using Replaced_gone [OF b(2)] r by simp
  define \<rho> where "\<rho> = upd \<sigma> b c (lpc \<sigma> b) (wpc \<sigma> b)"
  have "sys_inv \<rho>"
    unfolding \<rho>_def
    by (rule sys_inv_upd [OF inv b(1)])
      (use ok [OF b(1)] currentD [OF d(3), of b] pxys_okD [OF d(5), of _ b] b(1) in \<open>auto simp: c leaving_def live_def waits_for_def\<close>)
  note f = sys_invD [OF this]
  have "\<tau> = upd \<rho> a (ctls (srv \<rho>) a) LWait (wpc \<rho> a)"
    unfolding \<tau> \<rho>_def by (simp add: upd_def set_ctl_def fun_upd_idem fun_upd_twist)
  moreover have "sys_inv (upd \<rho> a (ctls (srv \<rho>) a) LWait (wpc \<rho> a))"
  proof (rule sys_inv_upd [OF \<open>sys_inv \<rho>\<close>])
    show a\<rho>: "a < n_ctls (srv \<rho>)" using a by (simp add: \<rho>_def)
    have "lpc \<rho> a = LInterrupt b" using l by (simp add: \<rho>_def)
    with ctls_okD [OF f(1) a\<rho>] show "ctl_ok LWait (wpc \<rho> a) (ctls (srv \<rho>) a)"
      by (cases "wpc \<rho> a") (auto simp: ctl_ok_def)
  qed (use currentD [OF f(3), of a] pxys_okD [OF f(5), of _ a] a in \<open>auto simp: live_def \<rho>_def waits_for_def\<close>)
  ultimately show ?thesis by simp
qed

lemma login_step_inv:
  assumes "login_step \<sigma> \<sigma>'" and inv: "sys_inv \<sigma>"
  shows "sys_inv \<sigma>'"
  using assms(1)
proof cases
  note d = sys_invD [OF inv]
  note ok = ctls_okD [OF d(1)]
  {
    case (login_new rand sc c n)
    with NewControl_ok [OF login_new(2,3)] show ?thesis by (simp add: sys_inv_new [OF inv])
  next
    case (login_add a s' r)
    with sys_inv_add [OF inv login_add(2,3,4)] show ?thesis by blast
  next
    case (login_interrupt a b c)
    show ?thesis by (rule sys_inv_interrupt [OF inv login_interrupt(2,3,4,1)])
  next
    case (login_wait a)
    have w: "wpc \<sigma> a = WNone" using ctl_ok_worker [OF ok [OF login_wait(2)]] login_wait(3) by simp
    have "\<not> live \<sigma> b" if "handoffBarrier (ctls (srv \<sigma>) a) = Some b" for b
      using ok [of b] ptrs_okD [OF d(2) login_wait(2)] login_wait(4) that
      by (cases "wpc \<sigma> b") (auto simp: barrier_open_def ctl_ok_def live_def)
    then show ?thesis
      unfolding login_wait(1) upd_pc
      by (intro sys_inv_upd [OF inv login_wait(2)])
        (use ok [OF login_wait(2)] w login_wait(3) currentD [OF d(3), of a] no_pxys [OF d(5), of a] in \<open>auto simp: ctl_ok_def waits_for_def\<close>)
  next
    case (login_activate a now s' active err)
    show ?thesis by (rule sys_inv_activate [OF inv login_activate(2,3,4,1)])
  next
    case (login_complete a write_ok xtcp_ok s' committed err)
    show ?thesis by (rule sys_inv_complete [OF inv login_complete(2,3,4,1)])
  next
    case (login_remove a now)
    have w: "wpc \<sigma> a = WNone" using ctl_ok_worker [OF ok [OF login_remove(2)]] login_remove(3) by simp
    have "\<sigma>' = \<sigma>\<lparr>srv := fst (Remove (srv \<sigma>) a now), lpc := (lpc \<sigma>)(a := LClose), wpc := (wpc \<sigma>)(a := WNone)\<rparr>"
      unfolding login_remove(1) using w by (simp add: fun_upd_idem)
    moreover have "ctl_ok LClose WNone (ctls (srv \<sigma>) a)"
      using ok [OF login_remove(2)] login_remove(3) w by (auto simp: ctl_ok_def)
    ultimately show ?thesis
      using sys_inv_remove [OF inv login_remove(2), of LClose WNone now] login_remove(3) w no_pxys [OF d(5), of a] by auto
  next
    case (login_close a c)
    show ?thesis
      unfolding login_close(1) upd_lpc
      by (rule sys_inv_close [OF inv login_close(2) _ login_close(4)]) (use login_close(3) currentD [OF d(3), of a] in auto)
  }
qed

lemma worker_step_inv:
  assumes "worker_step \<sigma> \<sigma>'" and inv: "sys_inv \<sigma>"
  shows "sys_inv \<sigma>'"
  using assms(1)
proof cases
  note d = sys_invD [OF inv]
  note ok = ctls_okD [OF d(1)]
  {
    case (heartbeat a c)
    have "lpc \<sigma> a \<noteq> LAdd" using ctl_ok_worker [OF ok [OF heartbeat(2)]] heartbeat(3) by auto
    then show ?thesis
      unfolding heartbeat(1) upd_srv by (rule sys_inv_close [OF inv heartbeat(2) _ heartbeat(4)]) (use heartbeat(3) in auto)
  next
    case (new_proxy a name)
    show ?thesis
      unfolding new_proxy(1)
      by (rule sys_inv_pxys [OF inv]) (use new_proxy d(5) in \<open>auto simp: pxys_ok_def split: if_splits\<close>)
  next
    case (close_proxy a name)
    show ?thesis
      unfolding close_proxy(1)
      by (rule sys_inv_pxys [OF inv]) (use close_proxy d(5) in \<open>auto simp: pxys_ok_def split: if_splits\<close>)
  next
    case (worker_done a)
    have o: "ctl_ok (lpc \<sigma> a) WServe (ctls (srv \<sigma>) a)" using ok [OF worker_done(2)] worker_done(3) by simp
    show ?thesis
      unfolding worker_done(1) upd_wpc
      by (rule sys_inv_upd [OF inv worker_done(2) dispatcher_done_ok(1) [OF o]])
        (use dispatcher_done_ok [OF o] worker_done currentD [OF d(3), of a] o in
          \<open>auto simp: leaving_def live_def waits_for_def ctl_ok_def\<close>)
  next
    case (worker_pool a c)
    have o: "ctl_ok (lpc \<sigma> a) WPool (ctls (srv \<sigma>) a)" using ok [OF worker_pool(2)] worker_pool(3) by simp
    show ?thesis
      unfolding worker_pool(1) upd_wpc
      by (rule sys_inv_upd [OF inv worker_pool(2) closePool_ok(1) [OF o worker_pool(4)]])
        (use closePool_ok [OF o worker_pool(4)] worker_pool currentD [OF d(3), of a] in
          \<open>auto simp: leaving_def live_def waits_for_def\<close>)
  next
    case (worker_proxies a)
    have o: "ctl_ok (lpc \<sigma> a) WRemove (ctls (srv \<sigma>) a)"
      using ok [OF worker_proxies(2)] worker_proxies(3) by (simp add: ctl_ok_def)
    show ?thesis
      unfolding worker_proxies(1) upd_pc
      by (rule sys_inv_upd [OF inv worker_proxies(2) o])
        (use worker_proxies currentD [OF d(3), of a] in \<open>auto simp: live_def waits_for_def\<close>)
  next
    case (worker_remove a now)
    have l: "lpc \<sigma> a = LServed" using ctl_ok_worker [OF ok [OF worker_remove(2)]] worker_remove(3) by auto
    have "\<sigma>' = \<sigma>\<lparr>srv := fst (Remove (srv \<sigma>) a now), lpc := (lpc \<sigma>)(a := LServed), wpc := (wpc \<sigma>)(a := WFinish)\<rparr>"
      unfolding worker_remove(1) using l by (simp add: fun_upd_idem)
    moreover have "ctl_ok LServed WFinish (ctls (srv \<sigma>) a)"
      using ok [OF worker_remove(2)] worker_remove(3) l by (simp add: ctl_ok_def)
    ultimately show ?thesis
      using sys_inv_remove [OF inv worker_remove(2), of LServed WFinish now] worker_remove(3) no_pxys [OF d(5), of a] by auto
  next
    case (worker_finish a c)
    have o: "ctl_ok (lpc \<sigma> a) WFinish (ctls (srv \<sigma>) a)" using ok [OF worker_finish(2)] worker_finish(3) by simp
    show ?thesis
      unfolding worker_finish(1) upd_wpc
      by (rule sys_inv_upd [OF inv worker_finish(2) finish_ok(1) [OF o worker_finish(4)]])
        (use finish_ok [OF o worker_finish(4)] worker_finish currentD [OF d(3), of a] no_pxys [OF d(5), of a] in
          \<open>auto simp: leaving_def live_def waits_for_def\<close>)
  }
qed

lemma env_step_inv:
  assumes "env_step \<sigma> \<sigma>'" and inv: "sys_inv \<sigma>"
  shows "sys_inv \<sigma>'"
  using assms(1)
proof cases
  note d = sys_invD [OF inv]
  note ok = ctls_okD [OF d(1)]
  {
    case (work_conn a conn s' err)
    show ?thesis by (rule sys_inv_work_conn [OF inv work_conn(2,3,1)])
  next
    case (take_conn a)
    show ?thesis
      unfolding take_conn(1) upd_srv
      by (rule sys_inv_upd [OF inv take_conn(2) recv_ok(1) [OF ok [OF take_conn(2)]]])
        (use recv_ok [OF ok [OF take_conn(2)]] take_conn(2) currentD [OF d(3), of a] pxys_okD [OF d(5), of _ a] in
          \<open>auto simp: leaving_def live_def waits_for_def\<close>)
  next
    case (conn_lost a)
    show ?thesis
      unfolding conn_lost(1) upd_srv
      by (rule sys_inv_upd [OF inv conn_lost(2)])
        (use ok [OF conn_lost(2)] conn_lost(2) currentD [OF d(3), of a] pxys_okD [OF d(5), of _ a] in
          \<open>auto simp: leaving_def live_def waits_for_def\<close>)
  next
    case shutdown
    show ?thesis unfolding shutdown by (rule sys_inv_shutdown [OF inv])
  next
    case (shutdown_remove a now)
    have "\<sigma>' = \<sigma>\<lparr>srv := fst (Remove (srv \<sigma>) a now), lpc := (lpc \<sigma>)(a := lpc \<sigma> a), wpc := (wpc \<sigma>)(a := wpc \<sigma> a)\<rparr>"
      unfolding shutdown_remove(1) by simp
    moreover have "sys_inv (\<sigma>\<lparr>srv := fst (Remove (srv \<sigma>) a now), lpc := (lpc \<sigma>)(a := lpc \<sigma> a), wpc := (wpc \<sigma>)(a := wpc \<sigma> a)\<rparr>)"
      by (rule sys_inv_remove [OF inv shutdown_remove(3) ok [OF shutdown_remove(3)]])
        (use shutdown_remove pxys_okD [OF d(5), of _ a] in \<open>auto simp: live_def\<close>)
    ultimately show ?thesis by simp
  next
    case (shutdown_close a c)
    have "lpc \<sigma> a \<noteq> LAdd" using ok [OF shutdown_close(3)] shutdown_close(4) by (cases "wpc \<sigma> a") (auto simp: ctl_ok_def)
    then show ?thesis
      unfolding shutdown_close(1) upd_srv
      by (rule sys_inv_close [OF inv shutdown_close(3) _ shutdown_close(5)]) (use shutdown_close(2) in auto)
  }
qed

lemma sys_inv_step: "ctl_step \<sigma> \<sigma>' \<Longrightarrow> sys_inv \<sigma> \<Longrightarrow> sys_inv \<sigma>'"
  unfolding ctl_step_def using login_step_inv worker_step_inv env_step_inv by blast

lemma reachable_inv: "reachable \<sigma> \<Longrightarrow> sys_inv \<sigma>"
  by (induction rule: reachable.induct) (simp_all add: init_sys_inv sys_inv_step)

end
