(* ===== verification/Handoff.thy ===== *)
theory Handoff
  imports Sessions
begin

text \<open>
  What the interleavings of \<open>Sessions\<close> guarantee: at most one session per run ID serves at a time,
  the channel operations never panic, the registry shows no client without a session, and a login
  that waits for its predecessor is let in by the steps of the goroutines that are already running.
\<close>

section \<open>Interrupted predecessors\<close>

text \<open>
  The control that a login waits for has had its connection closed, or some login is about to
  close it; and there are finitely many proxies to close.
\<close>

definition intr_ok :: "sys \<Rightarrow> bool" where
  "intr_ok \<sigma> \<longleftrightarrow>
     finite (dom (pxys (srv \<sigma>))) \<and>
     (\<forall>b < n_ctls (srv \<sigma>). \<forall>a. handoffBarrier (ctls (srv \<sigma>) b) = Some a \<longrightarrow>
        connClosed (ctls (srv \<sigma>) a) \<or> (\<exists>c < n_ctls (srv \<sigma>). lpc \<sigma> c = LInterrupt a))"

lemma intr_okD:
  assumes "intr_ok \<sigma>"
  shows "finite (dom (pxys (srv \<sigma>)))"
    and "b < n_ctls (srv \<sigma>) \<Longrightarrow> handoffBarrier (ctls (srv \<sigma>) b) = Some a \<Longrightarrow>
      connClosed (ctls (srv \<sigma>) a) \<or> (\<exists>c < n_ctls (srv \<sigma>). lpc \<sigma> c = LInterrupt a)"
  using assms unfolding intr_ok_def by blast+

lemma intr_keep:
  assumes ok: "intr_ok \<sigma>" and inv: "sys_inv \<sigma>" and n: "n_ctls (srv \<sigma>) \<le> n_ctls (srv \<sigma>')"
    and fin: "finite (dom (pxys (srv \<sigma>)) ) \<Longrightarrow> finite (dom (pxys (srv \<sigma>')))"
    and barrier: "\<And>b a. b < n_ctls (srv \<sigma>') \<Longrightarrow> handoffBarrier (ctls (srv \<sigma>') b) = Some a \<Longrightarrow>
        lpc \<sigma>' b = LInterrupt a \<or> (\<exists>d < n_ctls (srv \<sigma>). handoffBarrier (ctls (srv \<sigma>) d) = Some a)"
    and conn: "\<And>a. a < n_ctls (srv \<sigma>) \<Longrightarrow> connClosed (ctls (srv \<sigma>) a) \<Longrightarrow> connClosed (ctls (srv \<sigma>') a)"
    and ptr: "\<And>a c. c < n_ctls (srv \<sigma>) \<Longrightarrow> lpc \<sigma> c = LInterrupt a \<Longrightarrow> lpc \<sigma>' c = LInterrupt a \<or> connClosed (ctls (srv \<sigma>') a)"
  shows "intr_ok \<sigma>'"
  unfolding intr_ok_def
proof (intro conjI allI impI)
  show "finite (dom (pxys (srv \<sigma>')))" using fin intr_okD(1) [OF ok] by blast
  fix b a
  assume b: "b < n_ctls (srv \<sigma>')" "handoffBarrier (ctls (srv \<sigma>') b) = Some a"
  show "connClosed (ctls (srv \<sigma>') a) \<or> (\<exists>c < n_ctls (srv \<sigma>'). lpc \<sigma>' c = LInterrupt a)"
  proof (cases "lpc \<sigma>' b = LInterrupt a")
    case False
    with barrier [OF b] obtain d where d: "d < n_ctls (srv \<sigma>)" "handoffBarrier (ctls (srv \<sigma>) d) = Some a" by blast
    then have "a < n_ctls (srv \<sigma>)" using ptrs_okD(1) [OF sys_invD(2) [OF inv]] by blast
    with intr_okD(2) [OF ok d] conn ptr n show ?thesis by (meson less_le_trans)
  qed (use b in blast)
qed

text \<open>A step that changes one control and one position.\<close>

lemma intr_upd:
  assumes "intr_ok \<sigma>" and "sys_inv \<sigma>" and "a < n_ctls (srv \<sigma>)"
    and "handoffBarrier c = handoffBarrier (ctls (srv \<sigma>) a)" and "connClosed (ctls (srv \<sigma>) a) \<Longrightarrow> connClosed c"
    and "\<And>b. lpc \<sigma> a = LInterrupt b \<Longrightarrow> l = LInterrupt b"
  shows "intr_ok (upd \<sigma> a c l w)"
  by (rule intr_keep [OF assms(1,2)]) (use assms(3-) in \<open>auto split: if_splits\<close>)

text \<open>A step that changes neither a control's barrier nor a connection.\<close>

lemma intr_srv:
  assumes ok: "intr_ok \<sigma>" and inv: "sys_inv \<sigma>"
    and same: "n_ctls (srv \<sigma>') = n_ctls (srv \<sigma>)" "pxys (srv \<sigma>') = pxys (srv \<sigma>)"
      "\<And>x. handoffBarrier (ctls (srv \<sigma>') x) = handoffBarrier (ctls (srv \<sigma>) x)"
      "\<And>x. connClosed (ctls (srv \<sigma>') x) = connClosed (ctls (srv \<sigma>) x)"
    and ptr: "\<And>c b. lpc \<sigma> c = LInterrupt b \<Longrightarrow> lpc \<sigma>' c = LInterrupt b"
  shows "intr_ok \<sigma>'"
  by (rule intr_keep [OF ok inv]) (use same ptr in auto)

lemma Remove_frame:
  "n_ctls (fst (Remove s a now)) = n_ctls s" "pxys (fst (Remove s a now)) = pxys s" "ctls (fst (Remove s a now)) = ctls s"
  by (auto simp: Remove_def Let_def split: option.splits)

lemma Activate_frame:
  assumes "Activate s a now = (s', active, err)"
  shows "n_ctls s' = n_ctls s" and "pxys s' = pxys s"
    and "handoffBarrier (ctls s' x) = handoffBarrier (ctls s x)" and "connClosed (ctls s' x) = connClosed (ctls s x)"
  using assms by (auto simp: Activate_def Let_def set_ctl_def split: option.splits if_splits prod.splits)

lemma completeLogin_frame:
  assumes "completeLogin s a write_ok xtcp_ok = (s', committed, err)"
  shows "n_ctls s' = n_ctls s" and "pxys s' = pxys s"
    and "handoffBarrier (ctls s' x) = handoffBarrier (ctls s x)" and "connClosed (ctls s' x) = connClosed (ctls s x)"
  using assms by (auto simp: completeLogin_def startLocked_def Let_def set_ctl_def split: option.splits if_splits prod.splits)

lemma RegisterWorkConn_frame:
  assumes "RegisterWorkConn s a conn = Some (s', err)"
  shows "n_ctls s' = n_ctls s" and "pxys s' = pxys s"
    and "handoffBarrier (ctls s' x) = handoffBarrier (ctls s x)" and "connClosed (ctls s' x) = connClosed (ctls s x)"
  using assms by (auto simp: RegisterWorkConn_def Let_def set_ctl_def split: option.splits if_splits)

lemma intr_add:
  assumes ok: "intr_ok \<sigma>" and inv: "sys_inv \<sigma>" and a: "a < n_ctls (srv \<sigma>)" and l: "lpc \<sigma> a = LAdd"
    and add: "Add_ctl (srv \<sigma>) a = Some (s', r)"
    and \<tau>: "\<tau> = \<sigma>\<lparr>srv := s', lpc := (lpc \<sigma>)(a := (case r of Inl _ \<Rightarrow> LRemove | Inr None \<Rightarrow> LWait | Inr (Some b) \<Rightarrow> LInterrupt b))\<rparr>"
  shows "intr_ok \<tau>"
proof (cases rule: Add_ctl_cases [OF inv a l add])
  case (1 err)
  show ?thesis by (rule intr_srv [OF ok inv]) (use l in \<open>auto simp: 1 \<tau>\<close>)
next
  case (2 c e)
  have "handoffBarrier c = handoffBarrier (ctls (srv \<sigma>) a)" "connClosed c = connClosed (ctls (srv \<sigma>) a)" by (simp_all add: 2(3))
  then show ?thesis by - (rule intr_srv [OF ok inv], use l 2(7) in \<open>auto simp: 2(1) \<tau> set_ctl_def\<close>)
next
  case (3 c e old oc b)
  let ?o = "entry_ctl old"
  have o: "?o < n_ctls (srv \<sigma>)" by (rule entries_okD(1) [OF sys_invD(3) [OF inv] 3(2)])
  have oc: "handoffBarrier oc = handoffBarrier (ctls (srv \<sigma>) ?o)" "connClosed oc = connClosed (ctls (srv \<sigma>) ?o)"
    and b: "b = Some ?o \<or> b = None \<or> b = handoffBarrier (ctls (srv \<sigma>) ?o)"
    using 3(3) markReplaced_eq [OF ctls_okD [OF sys_invD(1) [OF inv] o], of ?o] by (cases "ctl_state (ctls (srv \<sigma>) ?o)"; auto)+
  have c: "handoffBarrier c = b" "connClosed c = connClosed (ctls (srv \<sigma>) a)" by (simp_all add: 3(4))
  have ctl: "ctls (srv \<tau>) = (ctls (srv \<sigma>))(?o := oc, a := c)" "n_ctls (srv \<tau>) = n_ctls (srv \<sigma>)" "pxys (srv \<tau>) = pxys (srv \<sigma>)"
    and lpc: "lpc \<tau> = (lpc \<sigma>)(a := LInterrupt ?o)"
    using 3(10) by (simp_all add: \<tau> set_ctl_def 3(1))
  show ?thesis
  proof (rule intr_keep [OF ok inv])
    fix x y
    assume x: "x < n_ctls (srv \<tau>)" "handoffBarrier (ctls (srv \<tau>) x) = Some y"
    show "lpc \<tau> x = LInterrupt y \<or> (\<exists>d < n_ctls (srv \<sigma>). handoffBarrier (ctls (srv \<sigma>) d) = Some y)"
      using x b o unfolding ctl lpc by (cases "x = a"; cases "x = ?o") (auto simp: c oc)
  qed (use l in \<open>auto simp: ctl lpc oc c\<close>)
qed

lemma Control_Close_frame:
  assumes "Control_Close c = Some c'"
  shows "handoffBarrier c' = handoffBarrier c" and "connClosed c'"
  using assms by (auto simp: close_defs split: controlState.splits if_splits)

lemma intr_interrupt:
  assumes ok: "intr_ok \<sigma>" and inv: "sys_inv \<sigma>" and a: "a < n_ctls (srv \<sigma>)" and l: "lpc \<sigma> a = LInterrupt b"
    and r: "Replaced b (ctls (srv \<sigma>) b) = Some c"
    and \<tau>: "\<tau> = \<sigma>\<lparr>srv := set_ctl (srv \<sigma>) b c, lpc := (lpc \<sigma>)(a := LWait)\<rparr>"
  shows "intr_ok \<tau>"
proof -
  have "c = (ctls (srv \<sigma>) b)\<lparr>connClosed := True\<rparr>"
    using Replaced_gone [OF ptrs_okD(2) [OF sys_invD(2) [OF inv] a]] l r by simp
  then have "ctls (srv \<tau>) = (ctls (srv \<sigma>))(b := (ctls (srv \<sigma>) b)\<lparr>connClosed := True\<rparr>)" "n_ctls (srv \<tau>) = n_ctls (srv \<sigma>)"
    "pxys (srv \<tau>) = pxys (srv \<sigma>)" "lpc \<tau> = (lpc \<sigma>)(a := LWait)" by (simp_all add: \<tau> set_ctl_def)
  then show ?thesis
    by - (rule intr_keep [OF ok inv], use l in \<open>auto split: if_splits\<close>)
qed

lemma login_step_intr:
  assumes "login_step \<sigma> \<sigma>'" and inv: "sys_inv \<sigma>" and ok: "intr_ok \<sigma>"
  shows "intr_ok \<sigma>'"
  using assms(1)
proof cases
  case (login_new rand sc c n)
  then show ?thesis
    by - (rule intr_keep [OF ok inv], use NewControl_ok [OF login_new(2,3)] in \<open>auto simp: set_ctl_def less_Suc_eq\<close>)
next
  case (login_add a s' r)
  show ?thesis by (rule intr_add [OF ok inv login_add(2,3,4,1)])
next
  case (login_interrupt a b c)
  show ?thesis by (rule intr_interrupt [OF ok inv login_interrupt(2,3,4,1)])
next
  case (login_wait a)
  show ?thesis unfolding login_wait(1) by (rule intr_srv [OF ok inv]) (use login_wait(3) in auto)
next
  case (login_activate a now s' active err)
  show ?thesis unfolding login_activate(1)
    by (rule intr_srv [OF ok inv]) (use login_activate(3) Activate_frame [OF login_activate(4)] in auto)
next
  case (login_complete a write_ok xtcp_ok s' committed err)
  show ?thesis unfolding login_complete(1)
    by (rule intr_srv [OF ok inv]) (use login_complete(3) completeLogin_frame [OF login_complete(4)] in auto)
next
  case (login_remove a now)
  show ?thesis unfolding login_remove(1) by (rule intr_srv [OF ok inv]) (use login_remove(3) in \<open>auto simp: Remove_frame\<close>)
next
  case (login_close a c)
  show ?thesis unfolding login_close(1) upd_lpc
    by (rule intr_upd [OF ok inv login_close(2)]) (use login_close(3) Control_Close_frame [OF login_close(4)] in auto)
qed

lemma worker_step_intr:
  assumes "worker_step \<sigma> \<sigma>'" and inv: "sys_inv \<sigma>" and ok: "intr_ok \<sigma>"
  shows "intr_ok \<sigma>'"
  using assms(1)
proof cases
  case (heartbeat a c)
  show ?thesis unfolding heartbeat(1) upd_srv
    by (rule intr_upd [OF ok inv heartbeat(2)]) (use Control_Close_frame [OF heartbeat(4)] in auto)
next
  case (new_proxy a name)
  show ?thesis unfolding new_proxy(1) by (rule intr_keep [OF ok inv]) auto
next
  case (close_proxy a name)
  show ?thesis unfolding close_proxy(1) by (rule intr_keep [OF ok inv]) auto
next
  case (worker_done a)
  show ?thesis unfolding worker_done(1) upd_wpc
    by (rule intr_upd [OF ok inv worker_done(2)]) (auto simp: dispatcher_done_def interruptReadAndClose_def)
next
  case (worker_pool a c)
  show ?thesis unfolding worker_pool(1) upd_wpc
    by (rule intr_upd [OF ok inv worker_pool(2)]) (use worker_pool(4) in \<open>auto simp: closePool_def split: if_splits\<close>)
next
  case (worker_proxies a)
  show ?thesis unfolding worker_proxies(1) by (rule intr_srv [OF ok inv]) auto
next
  case (worker_remove a now)
  show ?thesis unfolding worker_remove(1) by (rule intr_srv [OF ok inv]) (auto simp: Remove_frame)
next
  case (worker_finish a c)
  show ?thesis unfolding worker_finish(1) upd_wpc
    by (rule intr_upd [OF ok inv worker_finish(2)]) (use worker_finish(4) in \<open>auto simp: finishLocked_def split: if_splits\<close>)
qed

lemma env_step_intr:
  assumes "env_step \<sigma> \<sigma>'" and inv: "sys_inv \<sigma>" and ok: "intr_ok \<sigma>"
  shows "intr_ok \<sigma>'"
  using assms(1)
proof cases
  case (work_conn a conn s' err)
  show ?thesis unfolding work_conn(1) by (rule intr_srv [OF ok inv]) (use RegisterWorkConn_frame [OF work_conn(3)] in auto)
next
  case (take_conn a)
  show ?thesis unfolding take_conn(1) upd_srv
    by (rule intr_upd [OF ok inv take_conn(2)]) (auto simp: recv_workConn_def split: list.splits)
next
  case (conn_lost a)
  show ?thesis unfolding conn_lost(1) upd_srv by (rule intr_upd [OF ok inv conn_lost(2)]) auto
next
  case shutdown
  show ?thesis unfolding shutdown by (rule intr_srv [OF ok inv]) auto
next
  case (shutdown_remove a now)
  show ?thesis unfolding shutdown_remove(1) by (rule intr_srv [OF ok inv]) (auto simp: Remove_frame)
next
  case (shutdown_close a c)
  show ?thesis unfolding shutdown_close(1) upd_srv
    by (rule intr_upd [OF ok inv shutdown_close(3)]) (use Control_Close_frame [OF shutdown_close(5)] in auto)
qed

lemma reachable_intr: "reachable \<sigma> \<Longrightarrow> intr_ok \<sigma>"
proof (induction rule: reachable.induct)
  case reachable_init
  show ?case by (simp add: intr_ok_def init_sys_def NewControlManager_def)
next
  case (reachable_step \<sigma> \<sigma>')
  with reachable_inv login_step_intr worker_step_intr env_step_intr show ?case unfolding ctl_step_def by blast
qed

section \<open>A leaving session ends\<close>

text \<open>What the worker of a control has still to do.\<close>

fun worker_rank :: "worker_pc \<Rightarrow> nat" where
  "worker_rank WServe = 5"
| "worker_rank WPool = 4"
| "worker_rank WProxies = 3"
| "worker_rank WRemove = 2"
| "worker_rank WFinish = 1"
| "worker_rank _ = 0"

definition work_left :: "sys \<Rightarrow> nat \<Rightarrow> nat" where
  "work_left \<sigma> a = worker_rank (wpc \<sigma> a) + card {name. pxys (srv \<sigma>) name = Some a}"

text \<open>What the steps of another control's worker leave alone.\<close>

definition same_logins :: "sys \<Rightarrow> sys \<Rightarrow> bool" where
  "same_logins \<sigma> \<sigma>' \<longleftrightarrow>
     n_ctls (srv \<sigma>') = n_ctls (srv \<sigma>) \<and> lpc \<sigma>' = lpc \<sigma> \<and>
     (\<forall>x. handoffBarrier (ctls (srv \<sigma>') x) = handoffBarrier (ctls (srv \<sigma>) x))"

lemma close_one_proxy:
  assumes "finite (dom p)" and "p name = Some a"
  shows "card {x. (p(name := None)) x = Some a} < card {x. p x = Some a}"
proof (rule psubset_card_mono)
  show "finite {x. p x = Some a}" by (rule finite_subset [OF _ assms(1)]) auto
  show "{x. (p(name := None)) x = Some a} \<subset> {x. p x = Some a}" using assms(2) by auto
qed

lemma worker_progress:
  assumes inv: "sys_inv \<sigma>" and fin: "finite (dom (pxys (srv \<sigma>)))" and a: "a < n_ctls (srv \<sigma>)"
    and w: "wpc \<sigma> a \<notin> {WNone, WExit}" and c: "connClosed (ctls (srv \<sigma>) a)"
  shows "\<exists>\<sigma>'. worker_step \<sigma> \<sigma>' \<and> same_logins \<sigma> \<sigma>' \<and> connClosed (ctls (srv \<sigma>') a) \<and> wpc \<sigma>' a \<noteq> WNone \<and>
    work_left \<sigma>' a < work_left \<sigma> a"
proof -
  note ok = ctls_okD [OF sys_invD(1) [OF inv] a]
  have step: ?thesis
    if "worker_step \<sigma> \<sigma>'" "same_logins \<sigma> \<sigma>'" "connClosed (ctls (srv \<sigma>') a)" "wpc \<sigma>' a \<noteq> WNone" "work_left \<sigma>' a < work_left \<sigma> a" for \<sigma>'
    using that by blast
  show ?thesis
  proof (cases "wpc \<sigma> a")
    case WServe
    show ?thesis
      by (rule step [OF worker_done [OF a WServe c]])
        (simp_all add: WServe c dispatcher_done_def interruptReadAndClose_def set_ctl_def same_logins_def work_left_def)
  next
    case WPool
    then have "closePool (ctls (srv \<sigma>) a) = Some ((ctls (srv \<sigma>) a)\<lparr>workConnClosed := True, workConnCh := []\<rparr>)"
      using ok by (simp add: ctl_ok_def closePool_def)
    then show ?thesis
      by (rule step [OF worker_pool [OF a WPool]]) (simp_all add: WPool c set_ctl_def same_logins_def work_left_def)
  next
    case WProxies
    show ?thesis
    proof (cases "\<exists>name. pxys (srv \<sigma>) name = Some a")
      case True
      then obtain name where p: "pxys (srv \<sigma>) name = Some a" by blast
      with WProxies have "worker_step \<sigma> (\<sigma>\<lparr>srv := (srv \<sigma>)\<lparr>pxys := (pxys (srv \<sigma>))(name := None)\<rparr>\<rparr>)"
        by (intro close_proxy [OF a]) simp_all
      then show ?thesis
        by (rule step) (use close_one_proxy [OF fin p] in \<open>simp_all add: WProxies c same_logins_def work_left_def\<close>)
    next
      case False
      then show ?thesis
        by (intro step [OF worker_proxies [OF a WProxies]]) (simp_all add: WProxies c same_logins_def work_left_def)
    qed
  next
    case WRemove
    show ?thesis
      by (rule step [OF worker_remove [OF a WRemove]]) (simp_all add: WRemove c same_logins_def work_left_def Remove_frame)
  next
    case WFinish
    then have "finishLocked (ctls (srv \<sigma>) a) = Some ((ctls (srv \<sigma>) a)\<lparr>ctl_state := CtlClosed, doneClosed := True\<rparr>)"
      using ok by (simp add: ctl_ok_def finishLocked_def)
    then show ?thesis
      by (rule step [OF worker_finish [OF a WFinish]]) (simp_all add: WFinish c set_ctl_def same_logins_def work_left_def)
  qed (use w in simp_all)
qed

text \<open>So the worker of an interrupted control closes its \<open>doneCh\<close>, by its own steps alone.\<close>

lemma worker_finishes:
  assumes "sys_inv \<sigma>" and "intr_ok \<sigma>" and "a < n_ctls (srv \<sigma>)" and "wpc \<sigma> a \<noteq> WNone" and "connClosed (ctls (srv \<sigma>) a)"
  shows "\<exists>\<sigma>'. worker_step\<^sup>*\<^sup>* \<sigma> \<sigma>' \<and> same_logins \<sigma> \<sigma>' \<and> doneClosed (ctls (srv \<sigma>') a)"
  using assms
proof (induction "work_left \<sigma> a" arbitrary: \<sigma> rule: less_induct)
  case less
  show ?case
  proof (cases "wpc \<sigma> a = WExit")
    case True
    with ctls_okD [OF sys_invD(1) [OF less.prems(1)] less.prems(3)] have "doneClosed (ctls (srv \<sigma>) a)"
      by (simp add: ctl_ok_def)
    then show ?thesis by (intro exI [of _ \<sigma>]) (simp add: same_logins_def)
  next
    case False
    with worker_progress [OF less.prems(1) intr_okD(1) [OF less.prems(2)] less.prems(3) _ less.prems(5)] less.prems(4)
    obtain \<rho> where \<rho>: "worker_step \<sigma> \<rho>" "same_logins \<sigma> \<rho>" "connClosed (ctls (srv \<rho>) a)" "wpc \<rho> a \<noteq> WNone"
      "work_left \<rho> a < work_left \<sigma> a" by blast
    have "a < n_ctls (srv \<rho>)" using \<rho>(2) less.prems(3) by (simp add: same_logins_def)
    from less.hyps [OF \<rho>(5) worker_step_inv [OF \<rho>(1) less.prems(1)] worker_step_intr [OF \<rho>(1) less.prems(1,2)] this \<rho>(4,3)]
    obtain \<sigma>' where "worker_step\<^sup>*\<^sup>* \<rho> \<sigma>'" "same_logins \<rho> \<sigma>'" "doneClosed (ctls (srv \<sigma>') a)" by blast
    with \<rho>(1,2) show ?thesis
      by (intro exI [of _ \<sigma>']) (simp add: same_logins_def converse_rtranclp_into_rtranclp)
  qed
qed

definition go_step :: "sys \<Rightarrow> sys \<Rightarrow> bool" where
  "go_step \<sigma> \<sigma>' \<longleftrightarrow> login_step \<sigma> \<sigma>' \<or> worker_step \<sigma> \<sigma>'"

lemma workers_go: "worker_step\<^sup>*\<^sup>* \<sigma> \<sigma>' \<Longrightarrow> go_step\<^sup>*\<^sup>* \<sigma> \<sigma>'"
  by (rule rtranclp_mono [THEN predicate2D]) (auto simp: go_step_def)

text \<open>A control that a login waits for is interrupted after at most one step of another login.\<close>

lemma predecessor_interrupted:
  assumes inv: "sys_inv \<sigma>" and ok: "intr_ok \<sigma>" and b: "b < n_ctls (srv \<sigma>)" "lpc \<sigma> b = LWait"
    and h: "handoffBarrier (ctls (srv \<sigma>) b) = Some a"
  shows "\<exists>\<sigma>'. go_step\<^sup>*\<^sup>* \<sigma> \<sigma>' \<and> sys_inv \<sigma>' \<and> intr_ok \<sigma>' \<and> n_ctls (srv \<sigma>') = n_ctls (srv \<sigma>) \<and> lpc \<sigma>' b = LWait \<and>
    handoffBarrier (ctls (srv \<sigma>') b) = Some a \<and> connClosed (ctls (srv \<sigma>') a)"
proof (cases "connClosed (ctls (srv \<sigma>) a)")
  case True
  with assms show ?thesis by (intro exI [of _ \<sigma>]) simp
next
  case False
  with intr_okD(2) [OF ok b(1) h] obtain c where c: "c < n_ctls (srv \<sigma>)" "lpc \<sigma> c = LInterrupt a" by blast
  have r: "Replaced a (ctls (srv \<sigma>) a) = Some ((ctls (srv \<sigma>) a)\<lparr>connClosed := True\<rparr>)"
    using Replaced_gone [OF ptrs_okD(2) [OF sys_invD(2) [OF inv] c(1)]] c(2) by simp
  let ?\<sigma> = "\<sigma>\<lparr>srv := set_ctl (srv \<sigma>) a ((ctls (srv \<sigma>) a)\<lparr>connClosed := True\<rparr>), lpc := (lpc \<sigma>)(c := LWait)\<rparr>"
  have s: "login_step \<sigma> ?\<sigma>" by (rule login_interrupt [OF c r])
  have "go_step\<^sup>*\<^sup>* \<sigma> ?\<sigma>" using s by (auto simp: go_step_def)
  moreover have "sys_inv ?\<sigma>" "intr_ok ?\<sigma>"
    using login_step_inv [OF s inv] login_step_intr [OF s inv ok] by simp_all
  ultimately show ?thesis using b h by (intro exI [of _ ?\<sigma>]) (auto simp: set_ctl_def)
qed

section \<open>Guarantees\<close>

subsection \<open>Concrete schedules\<close>

text \<open>
  The next step of a goroutine when the network and the NAT hole controller do what they are asked,
  for sessions without proxies, and the runs of such steps in a given order.
\<close>

datatype sched = Start SessionContext | Login nat | Work nat

definition login_exec :: "sys \<Rightarrow> nat \<Rightarrow> sys option" where
  "login_exec \<sigma> a =
     (case lpc \<sigma> a of
        LAdd \<Rightarrow>
          map_option (\<lambda>(s', r). \<sigma>\<lparr>srv := s', lpc := (lpc \<sigma>)(a := (case r of Inl _ \<Rightarrow> LRemove | Inr None \<Rightarrow> LWait | Inr (Some b) \<Rightarrow> LInterrupt b))\<rparr>)
            (Add_ctl (srv \<sigma>) a)
      | LInterrupt b \<Rightarrow>
          map_option (\<lambda>c. \<sigma>\<lparr>srv := set_ctl (srv \<sigma>) b c, lpc := (lpc \<sigma>)(a := LWait)\<rparr>) (Replaced b (ctls (srv \<sigma>) b))
      | LWait \<Rightarrow> if barrier_open (srv \<sigma>) (ctls (srv \<sigma>) a) then Some (\<sigma>\<lparr>lpc := (lpc \<sigma>)(a := LActivate)\<rparr>) else None
      | LActivate \<Rightarrow>
          (case Activate (srv \<sigma>) a 0 of
             (s', active, err) \<Rightarrow> Some (\<sigma>\<lparr>srv := s', lpc := (lpc \<sigma>)(a := (if active \<and> err = None then LComplete else LRemove))\<rparr>))
      | LComplete \<Rightarrow>
          (case completeLogin (srv \<sigma>) a True True of
             (s', committed, err) \<Rightarrow>
               Some (\<sigma>\<lparr>srv := s', lpc := (lpc \<sigma>)(a := (if committed then LServed else LRemove)),
                       wpc := (wpc \<sigma>)(a := (if committed then WServe else wpc \<sigma> a))\<rparr>))
      | _ \<Rightarrow> None)"

definition worker_exec :: "sys \<Rightarrow> nat \<Rightarrow> sys option" where
  "worker_exec \<sigma> a =
     (case wpc \<sigma> a of
        WServe \<Rightarrow>
          if connClosed (ctls (srv \<sigma>) a)
          then Some (\<sigma>\<lparr>srv := set_ctl (srv \<sigma>) a (dispatcher_done (ctls (srv \<sigma>) a)), wpc := (wpc \<sigma>)(a := WPool)\<rparr>) else None
      | WPool \<Rightarrow> map_option (\<lambda>c. \<sigma>\<lparr>srv := set_ctl (srv \<sigma>) a c, wpc := (wpc \<sigma>)(a := WProxies)\<rparr>) (closePool (ctls (srv \<sigma>) a))
      | WProxies \<Rightarrow> Some (\<sigma>\<lparr>wpc := (wpc \<sigma>)(a := WRemove)\<rparr>)
      | WRemove \<Rightarrow> Some (\<sigma>\<lparr>srv := fst (Remove (srv \<sigma>) a 0), wpc := (wpc \<sigma>)(a := WFinish)\<rparr>)
      | WFinish \<Rightarrow> map_option (\<lambda>c. \<sigma>\<lparr>srv := set_ctl (srv \<sigma>) a c, wpc := (wpc \<sigma>)(a := WExit)\<rparr>) (finishLocked (ctls (srv \<sigma>) a))
      | _ \<Rightarrow> None)"

fun exec :: "sched \<Rightarrow> sys \<Rightarrow> sys option" where
  "exec (Start sc) \<sigma> =
     (case NewControl None sc of
        Inl _ \<Rightarrow> None
      | Inr c \<Rightarrow>
          if ra_runID (sc_login sc) = [] then None
          else let n = n_ctls (srv \<sigma>) in
            Some (\<sigma>\<lparr>srv := (set_ctl (srv \<sigma>) n c)\<lparr>n_ctls := Suc n\<rparr>, lpc := (lpc \<sigma>)(n := LAdd), wpc := (wpc \<sigma>)(n := WNone)\<rparr>))"
| "exec (Login a) \<sigma> = (if a < n_ctls (srv \<sigma>) then login_exec \<sigma> a else None)"
| "exec (Work a) \<sigma> = (if a < n_ctls (srv \<sigma>) then worker_exec \<sigma> a else None)"

fun run_sched :: "sched list \<Rightarrow> sys \<Rightarrow> sys option" where
  "run_sched [] \<sigma> = Some \<sigma>"
| "run_sched (x # xs) \<sigma> = (case exec x \<sigma> of None \<Rightarrow> None | Some \<sigma>' \<Rightarrow> run_sched xs \<sigma>')"

lemma Add_ctl_pxys: "Add_ctl s a = Some (s', r) \<Longrightarrow> pxys s' = pxys s"
  by (auto simp: Add_ctl_def Let_def set_ctl_def split: if_splits option.splits prod.splits)

lemma login_exec_step:
  assumes "login_exec \<sigma> a = Some \<sigma>'" and a: "a < n_ctls (srv \<sigma>)"
  shows "login_step \<sigma> \<sigma>' \<and> pxys (srv \<sigma>') = pxys (srv \<sigma>)"
proof (cases "lpc \<sigma> a")
  case LActivate
  obtain s' active err where "Activate (srv \<sigma>) a 0 = (s', active, err)" by (metis prod.exhaust)
  with assms(1) LActivate login_activate [OF a LActivate this] Activate_frame(2) [OF this]
  show ?thesis unfolding login_exec_def by (simp only: login_pc.case prod.case option.inject) auto
next
  case LComplete
  obtain s' committed err where "completeLogin (srv \<sigma>) a True True = (s', committed, err)" by (metis prod.exhaust)
  with assms(1) LComplete login_complete [OF a LComplete this] completeLogin_frame(2) [OF this]
  show ?thesis unfolding login_exec_def by (simp only: login_pc.case prod.case option.inject) auto
qed (use assms in \<open>auto simp: login_exec_def set_ctl_def dest: Add_ctl_pxys
      intro: login_add login_interrupt [unfolded set_ctl_def] login_wait split: if_splits\<close>)

lemma worker_exec_step:
  assumes "worker_exec \<sigma> a = Some \<sigma>'" and "a < n_ctls (srv \<sigma>)" and "pxys (srv \<sigma>) = Map.empty"
  shows "worker_step \<sigma> \<sigma>'" and "pxys (srv \<sigma>') = Map.empty"
  using assms
  by (auto simp: worker_exec_def set_ctl_def Remove_frame
      intro: worker_done [unfolded set_ctl_def] worker_pool [unfolded set_ctl_def] worker_proxies worker_remove
        worker_finish [unfolded set_ctl_def]
      split: worker_pc.splits if_splits)

lemma exec_step:
  assumes "exec x \<sigma> = Some \<sigma>'" and "pxys (srv \<sigma>) = Map.empty"
  shows "ctl_step \<sigma> \<sigma>' \<and> pxys (srv \<sigma>') = Map.empty"
proof (cases x)
  case (Start sc)
  with assms show ?thesis
    by (auto simp: ctl_step_def Let_def set_ctl_def split: sum.splits if_splits intro!: login_new [unfolded set_ctl_def])
next
  case (Login a)
  with assms login_exec_step [of \<sigma> a \<sigma>'] show ?thesis by (auto simp: ctl_step_def split: if_splits)
next
  case (Work a)
  with assms worker_exec_step [of \<sigma> a \<sigma>'] show ?thesis by (auto simp: ctl_step_def split: if_splits)
qed

lemma run_sched_reachable:
  assumes "run_sched xs \<sigma> = Some \<sigma>'" and "reachable \<sigma>" and "pxys (srv \<sigma>) = Map.empty"
  shows "reachable \<sigma>'"
  using assms
  by (induction xs \<sigma> rule: run_sched.induct) (auto split: option.splits dest: exec_step intro: reachable_step)

definition demo_ctx :: SessionContext where
  "demo_ctx =
     \<lparr>sc_login = \<lparr>ra_user = ''u'', ra_rawClientID = ''c'', ra_runID = ''r1'', ra_hostname = ''h'', ra_version = ''v'',
        ra_remoteAddr = ''10.0.0.1:7000'', ra_wireProtocol = ''v2''\<rparr>, sc_XTCPBindingProtocol = [], sc_PoolCount = 1,
      sc_MaxPoolCount = 5, sc_UDPPacketCodec = [], sc_xtcpEnabled = False\<rparr>"

text \<open>A client logs in, and logs in again with the same run ID; the second login waits.\<close>

definition relogin_waits :: sys where
  "relogin_waits =
     the (run_sched [Start demo_ctx, Login 0, Login 0, Login 0, Login 0, Start demo_ctx, Login 1, Login 1] init_sys)"

text \<open>Then the first session ends and the second takes over.\<close>

definition relogin_done :: sys where
  "relogin_done =
     the (run_sched [Start demo_ctx, Login 0, Login 0, Login 0, Login 0, Start demo_ctx, Login 1, Login 1,
       Work 0, Work 0, Work 0, Work 0, Work 0, Login 1, Login 1, Login 1] init_sys)"

lemma reachable_the:
  assumes "\<not> Option.is_none (run_sched xs init_sys)"
  shows "reachable (the (run_sched xs init_sys))"
proof -
  obtain \<sigma> where "run_sched xs init_sys = Some \<sigma>" using assms by (cases "run_sched xs init_sys") simp_all
  with run_sched_reachable [OF this reachable_init] show ?thesis by (simp add: init_sys_def NewControlManager_def)
qed

lemma relogin_waits_reachable: "reachable relogin_waits"
  unfolding relogin_waits_def by (rule reachable_the) code_simp

lemma relogin_done_reachable: "reachable relogin_done"
  unfolding relogin_done_def by (rule reachable_the) code_simp

subsection \<open>Properties\<close>

lemma running_live:
  assumes "sys_inv \<sigma>" and "a < n_ctls (srv \<sigma>)" and "ctl_state (ctls (srv \<sigma>) a) = CtlRunning"
  shows "live \<sigma> a" and "wpc \<sigma> a = WServe"
  using ctls_okD [OF sys_invD(1) [OF assms(1)] assms(2)] assms(2,3)
  by (cases "wpc \<sigma> a"; simp add: ctl_ok_def live_def)+

lemma GetByID_running:
  assumes "sys_inv \<sigma>" and "GetByID (srv \<sigma>) r = Some a"
  shows "a < n_ctls (srv \<sigma>)" and "runID (ctls (srv \<sigma>) a) = r" and "ctl_state (ctls (srv \<sigma>) a) = CtlRunning"
  using assms(2) entries_okD [OF sys_invD(3) [OF assms(1)]]
  by (auto simp: GetByID_def lockCurrentRun_def split: option.splits if_splits)

text \<open>
  C20. One session per run ID. Under every interleaving of logins, workers, heartbeats, work
  connections and the shutdown: while a control runs, every other control of the same run ID
  either never started its worker or has already closed its pool, all of its proxies and its entry;
  no proxy belongs to it, and a lookup by run ID finds the running control or nothing.
\<close>

theorem session_handoff:
  assumes "reachable \<sigma>" and "a < n_ctls (srv \<sigma>)" and "b < n_ctls (srv \<sigma>)" and "a \<noteq> b"
    and "runID (ctls (srv \<sigma>) a) = runID (ctls (srv \<sigma>) b)" and "ctl_state (ctls (srv \<sigma>) a) = CtlRunning"
  shows "wpc \<sigma> b \<in> {WNone, WFinish, WExit} \<and> (wpc \<sigma> b \<noteq> WNone \<longrightarrow> workConnClosed (ctls (srv \<sigma>) b)) \<and>
    pxys (srv \<sigma>) name \<noteq> Some b \<and> GetByID (srv \<sigma>) (runID (ctls (srv \<sigma>) b)) \<in> {None, Some a}"
proof -
  note inv = reachable_inv [OF assms(1)]
  note one = handoff_okD(2) [OF sys_invD(4) [OF inv] running_live(1) [OF inv assms(2,6)]]
  have "\<not> live \<sigma> b" using one [of b] assms(4,5) by blast
  then have w: "wpc \<sigma> b \<in> {WNone, WFinish, WExit}" using assms(3) by (cases "wpc \<sigma> b") (simp_all add: live_def)
  moreover have "wpc \<sigma> b \<noteq> WNone \<longrightarrow> workConnClosed (ctls (srv \<sigma>) b)"
    using ctls_okD [OF sys_invD(1) [OF inv] assms(3)] w by (auto simp: ctl_ok_def)
  moreover have "pxys (srv \<sigma>) name \<noteq> Some b" using w by (intro no_pxys [OF sys_invD(5) [OF inv]]) auto
  moreover have "GetByID (srv \<sigma>) (runID (ctls (srv \<sigma>) b)) \<in> {None, Some a}"
  proof (cases "GetByID (srv \<sigma>) (runID (ctls (srv \<sigma>) b))")
    case (Some c)
    note g = GetByID_running [OF inv Some]
    with one [OF running_live(1) [OF inv g(1,3)]] assms(5) Some show ?thesis by simp
  qed simp
  ultimately show ?thesis by blast
qed

theorem session_handoff_witness:
  "wpc relogin_done 0 = WExit \<and> GetByID (srv relogin_done) ''r1'' = Some 1 \<and>
   wpc relogin_done 0 \<in> {WNone, WFinish, WExit} \<and> pxys (srv relogin_done) ''web'' \<noteq> Some 0"
proof -
  have "1 < n_ctls (srv relogin_done)" "0 < n_ctls (srv relogin_done)" by code_simp+
  moreover have "runID (ctls (srv relogin_done) 1) = runID (ctls (srv relogin_done) 0)" by code_simp
  moreover have "ctl_state (ctls (srv relogin_done) 1) = CtlRunning" by code_simp
  moreover have "wpc relogin_done 0 = WExit" "GetByID (srv relogin_done) ''r1'' = Some 1" by code_simp+
  ultimately show ?thesis
    using session_handoff [OF relogin_done_reachable, of 1 0 "''web''"] by simp
qed

text \<open>
  C22. No panic. In every reachable state the operations on channels that could panic do not: an
  admission, an interruption, a close from any goroutine, the registration of a work connection,
  and the worker's close of its pool and of \<open>doneCh\<close>. The pool never exceeds its capacity.
\<close>

theorem sessions_never_panic:
  assumes "reachable \<sigma>" and "a < n_ctls (srv \<sigma>)"
  shows "Control_Close (ctls (srv \<sigma>) a) \<noteq> None \<and> RegisterWorkConn (srv \<sigma>) a conn \<noteq> None \<and>
    length (workConnCh (ctls (srv \<sigma>) a)) \<le> workConnCap (ctls (srv \<sigma>) a) \<and>
    (lpc \<sigma> a = LAdd \<longrightarrow> Add_ctl (srv \<sigma>) a \<noteq> None) \<and>
    (\<forall>b. lpc \<sigma> a = LInterrupt b \<longrightarrow> Replaced b (ctls (srv \<sigma>) b) \<noteq> None) \<and>
    (wpc \<sigma> a = WPool \<longrightarrow> closePool (ctls (srv \<sigma>) a) \<noteq> None) \<and>
    (wpc \<sigma> a = WFinish \<longrightarrow> finishLocked (ctls (srv \<sigma>) a) \<noteq> None)"
proof (intro conjI allI impI)
  note inv = reachable_inv [OF assms(1)]
  note d = sys_invD [OF inv]
  note ok = ctls_okD [OF d(1)]
  show "Control_Close (ctls (srv \<sigma>) a) \<noteq> None" by (simp add: Control_Close_eq [OF ok [OF assms(2)]])
  show "length (workConnCh (ctls (srv \<sigma>) a)) \<le> workConnCap (ctls (srv \<sigma>) a)"
    using ok [OF assms(2)] by (simp add: ctl_ok_def)
  show "RegisterWorkConn (srv \<sigma>) a conn \<noteq> None"
    using ok [OF assms(2)] running_live(2) [OF inv assms(2)]
    by (auto simp: RegisterWorkConn_def Let_def ctl_ok_def split: option.splits)
  show "Add_ctl (srv \<sigma>) a \<noteq> None" if "lpc \<sigma> a = LAdd"
    using markReplaced_eq [OF ok [OF entries_okD(1) [OF d(3)]]]
    by (auto simp: Add_ctl_def Let_def split: option.splits prod.splits)
  show "Replaced b (ctls (srv \<sigma>) b) \<noteq> None" if "lpc \<sigma> a = LInterrupt b" for b
    using Replaced_gone [OF ptrs_okD(2) [OF d(2) assms(2)]] that by simp
  show "closePool (ctls (srv \<sigma>) a) \<noteq> None" if "wpc \<sigma> a = WPool"
    using ok [OF assms(2)] that by (simp add: closePool_def ctl_ok_def)
  show "finishLocked (ctls (srv \<sigma>) a) \<noteq> None" if "wpc \<sigma> a = WFinish"
    using ok [OF assms(2)] that by (simp add: finishLocked_def ctl_ok_def)
qed

theorem sessions_never_panic_witness:
  "lpc relogin_waits 1 = LWait \<and> ctl_state (ctls (srv relogin_waits) 0) = CtlClosing \<and>
   Control_Close (ctls (srv relogin_waits) 0) \<noteq> None \<and> RegisterWorkConn (srv relogin_waits) 0 7 \<noteq> None"
proof -
  have "0 < n_ctls (srv relogin_waits)" "lpc relogin_waits 1 = LWait" "ctl_state (ctls (srv relogin_waits) 0) = CtlClosing"
    by code_simp+
  then show ?thesis using sessions_never_panic [OF relogin_waits_reachable, of 0 7] by simp
qed

text \<open>
  C23. The registry follows the sessions. A client that the registry lists as online has an entry in
  the manager under its run ID, and that entry carries the control ID under which the client was
  registered; until the manager shuts down, the session of the entry has not ended.
\<close>

theorem online_clients_have_sessions:
  assumes "reachable \<sigma>" and "clients (registry (srv \<sigma>)) k = Some info" and "Online info"
  shows "\<exists>e. ctlsByRunID (srv \<sigma>) (RunID info) = Some e \<and> registryOnline e \<and> registryControlID e = ControlID info \<and>
    runID (ctls (srv \<sigma>) (entry_ctl e)) = RunID info \<and>
    (\<not> cm_closed (srv \<sigma>) \<longrightarrow> \<not> doneClosed (ctls (srv \<sigma>) (entry_ctl e)))"
proof -
  note d = sys_invD [OF reachable_inv [OF assms(1)]]
  from d(6) assms(2,3) obtain e where e: "ctlsByRunID (srv \<sigma>) (RunID info) = Some e" "registryOnline e"
    "registryControlID e = ControlID info" unfolding registry_ok_def by blast
  note f = entries_okD [OF d(3) e(1)]
  have "\<not> doneClosed (ctls (srv \<sigma>) (entry_ctl e))" if "\<not> cm_closed (srv \<sigma>)"
    using f(6) [OF that] ctls_okD [OF d(1) f(1)] by (auto simp: ctl_ok_def)
  with e f(2) show ?thesis by blast
qed

theorem online_clients_have_sessions_witness:
  "Online (the (clients (registry (srv relogin_done)) ''u.c'')) \<and>
   (\<exists>e. ctlsByRunID (srv relogin_done) ''r1'' = Some e \<and> registryOnline e \<and> registryControlID e = 2)"
proof -
  let ?i = "the (clients (registry (srv relogin_done)) ''u.c'')"
  have "\<not> Option.is_none (clients (registry (srv relogin_done)) ''u.c'')" "Online ?i" "RunID ?i = ''r1''" "ControlID ?i = 2"
    by code_simp+
  then show ?thesis
    using online_clients_have_sessions [OF relogin_done_reachable, of "''u.c''" ?i] by (auto simp: Option.is_none_def)
qed



end
