(* ===== verification/Util.thy ===== *)
theory Util
  imports Go_Strings
begin

text \<open>
  Helpers of \<open>pkg/util/util\<close> and the port ranges of \<open>pkg/config/types\<close>. Random bytes and MD5
  are arguments; \<open>uni\<close> stands for \<open>strings.TrimSpace\<close> on text that is not ASCII.
\<close>

section \<open>Trimming\<close>

definition is_space :: "char \<Rightarrow> bool" where
  "is_space c \<longleftrightarrow> c = CHR '' '' \<or> (9 \<le> (of_char c :: nat) \<and> (of_char c :: nat) \<le> 13)"

definition TrimSpace :: "(string \<Rightarrow> string) \<Rightarrow> string \<Rightarrow> string" where
  "TrimSpace uni s = (if is_ascii s then rev (dropWhile is_space (rev (dropWhile is_space s))) else uni s)"

lemma dropWhile_none: "list_all (\<lambda>c. \<not> P c) s \<Longrightarrow> dropWhile P s = s"
  by (cases s) auto

lemma TrimSpace_id [go_str]: "is_ascii s \<Longrightarrow> list_all (\<lambda>c. \<not> is_space c) s \<Longrightarrow> TrimSpace uni s = s"
  by (simp add: TrimSpace_def dropWhile_none list_all_iff)

section \<open>Identifiers and keys\<close>

definition hex_digit :: "nat \<Rightarrow> char" where
  "hex_digit d = char_of (if d < 10 then 48 + d else 87 + d)"

text \<open>\<open>fmt.Sprintf("%x", b)\<close> and \<open>hex.EncodeToString\<close>.\<close>

definition hex_of :: "bytes \<Rightarrow> string" where
  "hex_of b = concat (map (\<lambda>v. [hex_digit (unat v div 16), hex_digit (unat v mod 16)]) b)"

definition RandIDWithLen :: "(nat \<Rightarrow> bytes option) \<Rightarrow> int \<Rightarrow> string option" where
  "RandIDWithLen rand idLen =
     (if idLen \<le> 0 then Some []
      else case rand (nat idLen div 2 + 1) of
        None \<Rightarrow> None
      | Some b \<Rightarrow> slice (hex_of b) 0 (nat idLen))"

definition RandID :: "(nat \<Rightarrow> bytes option) \<Rightarrow> string option" where
  "RandID rand = RandIDWithLen rand 16"

definition GetAuthKey :: "(bytes \<Rightarrow> bytes) \<Rightarrow> string \<Rightarrow> int \<Rightarrow> string" where
  "GetAuthKey md5 token timestamp = hex_of (md5 (string_bytes token @ string_bytes (Itoa timestamp)))"

definition JoinHostPort :: "string \<Rightarrow> string \<Rightarrow> string" where
  "JoinHostPort host port =
     (if CHR '':'' \<in> set host then ''['' @ host @ '']:'' @ port else host @ '':'' @ port)"

definition CanonicalAddr :: "string \<Rightarrow> int \<Rightarrow> string" where
  "CanonicalAddr host port =
     (if port = 80 \<or> port = 443 then host else JoinHostPort host (Itoa port))"

definition EmptyOr :: "string \<Rightarrow> string \<Rightarrow> string" where
  "EmptyOr v fallback = (if v = [] then fallback else v)"

lemma length_hex_of [simp]: "length (hex_of b) = 2 * length b"
  by (induction b) (simp_all add: hex_of_def)

lemma RandIDWithLen_length:
  assumes "\<And>n b. rand n = Some b \<Longrightarrow> length b = n" and "rand (nat n div 2 + 1) \<noteq> None"
  shows "\<exists>s. RandIDWithLen rand n = Some s \<and> length s = nat n"
proof (cases "n \<le> 0")
  case True
  then show ?thesis by (simp add: RandIDWithLen_def)
next
  case False
  from assms(2) obtain b where b: "rand (nat n div 2 + 1) = Some b" by blast
  with assms(1) have "length b = nat n div 2 + 1" by blast
  with False b show ?thesis by (simp add: RandIDWithLen_def)
qed

section \<open>Port ranges\<close>

record PortsRange =
  Start :: int
  End :: int
  Single :: int

definition range_String :: "PortsRange \<Rightarrow> string" where
  "range_String v = (if Single v > 0 then Itoa (Single v) else Itoa (Start v) @ ''-'' @ Itoa (End v))"

definition PortsRangeSlice_String :: "PortsRange list \<Rightarrow> string" where
  "PortsRangeSlice_String p = (if p = [] then [] else Join (map range_String p) '','')"

text \<open>One element of the comma-separated list; None is the error \<open>range number is invalid\<close>.\<close>

definition parse_range :: "(string \<Rightarrow> string) \<Rightarrow> string \<Rightarrow> PortsRange option" where
  "parse_range uni s =
     (case Split CHR ''-'' s of
        [a] \<Rightarrow> (case ParseInt (TrimSpace uni a) of
                  None \<Rightarrow> None
                | Some n \<Rightarrow> Some \<lparr>Start = 0, End = 0, Single = n\<rparr>)
      | [a, b] \<Rightarrow> (case ParseInt (TrimSpace uni a) of
                  None \<Rightarrow> None
                | Some m \<Rightarrow>
                    (case ParseInt (TrimSpace uni b) of
                       None \<Rightarrow> None
                     | Some n \<Rightarrow> if n < m then None else Some \<lparr>Start = m, End = n, Single = 0\<rparr>))
      | _ \<Rightarrow> None)"

fun parse_ranges :: "(string \<Rightarrow> string) \<Rightarrow> string list \<Rightarrow> PortsRange list \<Rightarrow> PortsRange list option" where
  "parse_ranges uni [] out = Some out"
| "parse_ranges uni (s # ss) out =
     (case parse_range uni s of None \<Rightarrow> None | Some r \<Rightarrow> parse_ranges uni ss (out @ [r]))"

definition NewPortsRangeSliceFromString :: "(string \<Rightarrow> string) \<Rightarrow> string \<Rightarrow> PortsRange list option" where
  "NewPortsRangeSliceFromString uni str = parse_ranges uni (Split CHR '','' (TrimSpace uni str)) []"

definition range_ok :: "PortsRange \<Rightarrow> bool" where
  "range_ok r \<longleftrightarrow>
     (Start r = 0 \<and> End r = 0 \<and> 0 < Single r \<and> Single r < 2 ^ 63) \<or>
     (Single r = 0 \<and> 0 \<le> Start r \<and> Start r \<le> End r \<and> End r < 2 ^ 63)"

lemma is_digit_plain: "is_digit c \<Longrightarrow> (of_char c :: nat) < 128 \<and> \<not> is_space c \<and> c \<noteq> CHR '','' \<and> c \<noteq> CHR ''-''"
  by (auto simp: is_digit_code is_space_def)

lemma nat_str_plain: "c \<in> set (nat_str n) \<Longrightarrow> (of_char c :: nat) < 128 \<and> \<not> is_space c \<and> c \<noteq> CHR '','' \<and> c \<noteq> CHR ''-''"
  using nat_str_hd is_digit_plain by blast

lemma TrimSpace_nat_str [simp, go_str]: "TrimSpace uni (nat_str n) = nat_str n"
  by (rule TrimSpace_id) (auto simp: is_ascii_def list_all_iff dest: nat_str_plain)

lemma range_String_chars:
  "range_ok r \<Longrightarrow> c \<in> set (range_String r) \<Longrightarrow> (of_char c :: nat) < 128 \<and> \<not> is_space c \<and> c \<noteq> CHR '',''"
proof -
  have "\<not> is_space CHR ''-''" by (simp add: is_space_def)
  then show "range_ok r \<Longrightarrow> c \<in> set (range_String r) \<Longrightarrow> (of_char c :: nat) < 128 \<and> \<not> is_space c \<and> c \<noteq> CHR '',''"
    by (auto simp: range_ok_def range_String_def Itoa_def dest: nat_str_plain)
qed

lemma parse_range_String:
  assumes "range_ok r"
  shows "parse_range uni (range_String r) = Some r"
proof (cases "Single r > 0")
  case True
  then have "Single r < 2 ^ 63" "Start r = 0" "End r = 0" using assms by (auto simp: range_ok_def)
  then show ?thesis
    using True ParseInt_Itoa [of "Single r"]
    by (cases r) (auto simp: parse_range_def range_String_def Itoa_def Split_plain)
next
  case False
  then have "Single r = 0" "0 \<le> Start r" "Start r \<le> End r" "End r < 2 ^ 63" using assms by (auto simp: range_ok_def)
  moreover have "Split CHR ''-'' (nat_str (nat (Start r)) @ CHR ''-'' # nat_str (nat (End r))) =
      [nat_str (nat (Start r)), nat_str (nat (End r))]"
    by (simp add: Split_append Split_plain)
  ultimately show ?thesis
    using ParseInt_Itoa [of "Start r"] ParseInt_Itoa [of "End r"]
    by (cases r) (auto simp: parse_range_def range_String_def Itoa_def)
qed

lemma parse_ranges_map: "list_all range_ok rs \<Longrightarrow> parse_ranges uni (map range_String rs) out = Some (out @ rs)"
  by (induction rs arbitrary: out) (simp_all add: parse_range_String)

lemma Join_chars: "c \<in> set (Join ps sep) \<Longrightarrow> c \<in> set sep \<or> (\<exists>p \<in> set ps. c \<in> set p)"
  by (induction ps sep rule: Join.induct) auto

text \<open>
  The text form of a list of port ranges is read back as the same list, for every
  non-empty list of single ports and ordered ranges of non-negative numbers.
\<close>

lemma ports_range_roundtrip:
  assumes "list_all range_ok rs" and "rs \<noteq> []"
  shows "NewPortsRangeSliceFromString uni (PortsRangeSlice_String rs) = Some rs"
proof -
  let ?s = "Join (map range_String rs) '',''"
  have "\<not> is_space CHR '',''" by (simp add: is_space_def)
  then have "(of_char c :: nat) < 128 \<and> \<not> is_space c" if "c \<in> set ?s" for c
    using Join_chars [OF that] assms(1) range_String_chars by (auto simp: list_all_iff)
  then have "TrimSpace uni ?s = ?s"
    by (intro TrimSpace_id) (auto simp: is_ascii_def list_all_iff)
  moreover have "Split CHR '','' ?s = map range_String rs"
    using assms by (intro Split_Join) (auto simp: list_all_iff dest: range_String_chars)
  ultimately show ?thesis
    using assms by (simp add: NewPortsRangeSliceFromString_def PortsRangeSlice_String_def parse_ranges_map)
qed

theorem ports_range_roundtrip_witness:
  "NewPortsRangeSliceFromString (\<lambda>s. s) (PortsRangeSlice_String
     [\<lparr>Start = 1000, End = 2000, Single = 0\<rparr>, \<lparr>Start = 0, End = 0, Single = 3000\<rparr>]) =
   Some [\<lparr>Start = 1000, End = 2000, Single = 0\<rparr>, \<lparr>Start = 0, End = 0, Single = 3000\<rparr>]"
  by (rule ports_range_roundtrip) (simp_all add: range_ok_def)

end
