(* ===== verification/Ports.thy ===== *)
theory Ports
  imports Util Interfaces
begin

text \<open>
  The port manager of the server (\<open>server/ports/ports.go\<close>). The maps \<open>reservedPorts\<close> and
  \<open>usedPorts\<close> share \<open>PortCtx\<close> objects, so the objects live in a heap \<open>ctxs\<close> and the maps hold
  their addresses (indices). Each operation runs under the manager's mutex. What the operating
  system answers to the probes of one call is the argument \<open>avail\<close>: \<open>avail i p\<close> is the answer
  of the call's probe number \<open>i\<close> on port \<open>p\<close>; \<open>order\<close> is the order in which the map of free
  ports is ranged over and \<open>now\<close> is the clock. The counting loop over a range of ports is a
  set: a range that ended at the largest \<open>int\<close>, where the counter would wrap, is not modelled.
\<close>

section \<open>State and operations\<close>

datatype port_err = ErrPortAlreadyUsed | ErrPortNotAllowed | ErrPortUnAvailable | ErrNoAvailablePort

record PortCtx =
  ctx_ProxyName :: string
  ctx_Port :: int
  Closed :: bool
  UpdateTime :: int

record Manager =
  ctxs :: "PortCtx list"
  reservedPorts :: "string \<rightharpoonup> nat"
  usedPorts :: "int \<rightharpoonup> nat"
  freePorts :: "int set"

definition MinPort :: int where "MinPort = 1"

definition MaxPort :: int where "MaxPort = 65535"

text \<open>Twenty-four hours in nanoseconds.\<close>

definition MaxPortReservedDuration :: int where
  "MaxPortReservedDuration = 24 * 3600 * 1000000000"

definition range_ports :: "PortsRange \<Rightarrow> int set" where
  "range_ports r = (if Single r > 0 then {Single r} else {Start r..End r})"

definition NewManager :: "PortsRange list \<Rightarrow> Manager" where
  "NewManager allowPorts =
     \<lparr>ctxs = [], reservedPorts = Map.empty, usedPorts = Map.empty,
      freePorts = (if allowPorts \<noteq> [] then \<Union> (range_ports ` set allowPorts) else {MinPort..MaxPort})\<rparr>"

definition markPortAcquiredLocked :: "Manager \<Rightarrow> string \<Rightarrow> int \<Rightarrow> nat \<Rightarrow> Manager" where
  "markPortAcquiredLocked pm name port a =
     pm\<lparr>usedPorts := (usedPorts pm)(port \<mapsto> a),
        reservedPorts := (reservedPorts pm)(name \<mapsto> a),
        freePorts := freePorts pm - {port}\<rparr>"

text \<open>The loop over the free ports: at most five probes.\<close>

fun try_ports :: "(nat \<Rightarrow> int \<Rightarrow> bool) \<Rightarrow> nat \<Rightarrow> int list \<Rightarrow> int option" where
  "try_ports avail count [] = None"
| "try_ports avail count (k # ks) =
     (if count + 1 > 5 then None
      else if avail (count + 1) k then Some k
      else try_ports avail (count + 1) ks)"

text \<open>
  A successful acquisition stores the new context and then, in the deferred function, sets its
  port; a context that is not stored is garbage, and the model does not allocate it.
\<close>

definition acquire_port :: "Manager \<Rightarrow> string \<Rightarrow> int \<Rightarrow> int \<Rightarrow> Manager" where
  "acquire_port pm name port now =
     markPortAcquiredLocked
       (pm\<lparr>ctxs := ctxs pm @ [\<lparr>ctx_ProxyName = name, ctx_Port = port, Closed = False, UpdateTime = now\<rparr>]\<rparr>)
       name port (length (ctxs pm))"

definition Acquire ::
    "(nat \<Rightarrow> int \<Rightarrow> bool) \<Rightarrow> int list \<Rightarrow> int \<Rightarrow> Manager \<Rightarrow> string \<Rightarrow> int \<Rightarrow> Manager \<times> (port_err + int)" where
  "Acquire avail order now pm name port =
     (case (if port = 0 then reservedPorts pm name else None) of
        Some a \<Rightarrow>
          if avail 0 (ctx_Port (ctxs pm ! a))
          then (acquire_port pm name (ctx_Port (ctxs pm ! a)) now, Inr (ctx_Port (ctxs pm ! a)))
          else (case try_ports avail 0 order of
                  None \<Rightarrow> (pm, Inl ErrNoAvailablePort)
                | Some k \<Rightarrow> (acquire_port pm name k now, if k = 0 then Inl ErrNoAvailablePort else Inr k))
      | None \<Rightarrow>
          if port = 0
          then (case try_ports avail 0 order of
                  None \<Rightarrow> (pm, Inl ErrNoAvailablePort)
                | Some k \<Rightarrow> (acquire_port pm name k now, if k = 0 then Inl ErrNoAvailablePort else Inr k))
          else if port \<in> freePorts pm
          then if avail 1 port then (acquire_port pm name port now, Inr port)
               else (pm, Inl ErrPortUnAvailable)
          else if usedPorts pm port \<noteq> None then (pm, Inl ErrPortAlreadyUsed)
          else (pm, Inl ErrPortNotAllowed))"

definition Release :: "Manager \<Rightarrow> int \<Rightarrow> int \<Rightarrow> Manager" where
  "Release pm port now =
     (case usedPorts pm port of
        None \<Rightarrow> pm
      | Some a \<Rightarrow>
          pm\<lparr>freePorts := insert port (freePorts pm),
             usedPorts := (usedPorts pm)(port := None),
             ctxs := (ctxs pm)[a := (ctxs pm ! a)\<lparr>Closed := True, UpdateTime := now\<rparr>]\<rparr>)"

text \<open>One round of the cleaner; deletion while ranging does not disturb the iteration.\<close>

definition cleanReservedPortsOnce :: "Manager \<Rightarrow> int \<Rightarrow> Manager" where
  "cleanReservedPortsOnce pm now =
     pm\<lparr>reservedPorts := (\<lambda>name.
        case reservedPorts pm name of
          None \<Rightarrow> None
        | Some a \<Rightarrow>
            if Closed (ctxs pm ! a) \<and> now - UpdateTime (ctxs pm ! a) > MaxPortReservedDuration
            then None else Some a)\<rparr>"

section \<open>Runs\<close>

datatype port_op =
    OpAcquire "nat \<Rightarrow> int \<Rightarrow> bool" "int list" int string int
  | OpRelease int int
  | OpClean int

fun port_step :: "Manager \<Rightarrow> port_op \<Rightarrow> Manager" where
  "port_step pm (OpAcquire avail order now name port) = fst (Acquire avail order now pm name port)"
| "port_step pm (OpRelease port now) = Release pm port now"
| "port_step pm (OpClean now) = cleanReservedPortsOnce pm now"

text \<open>The iteration delivers the keys of the map of free ports, each once.\<close>

fun port_op_ok :: "Manager \<Rightarrow> port_op \<Rightarrow> bool" where
  "port_op_ok pm (OpAcquire avail order now name port) \<longleftrightarrow> distinct order \<and> set order = freePorts pm"
| "port_op_ok pm _ \<longleftrightarrow> True"

definition port_inv :: "int set \<Rightarrow> Manager \<Rightarrow> bool" where
  "port_inv A pm \<longleftrightarrow>
     dom (usedPorts pm) \<inter> freePorts pm = {} \<and> dom (usedPorts pm) \<union> freePorts pm = A \<and>
     (\<forall>p a. usedPorts pm p = Some a \<longrightarrow>
        a < length (ctxs pm) \<and> ctx_Port (ctxs pm ! a) = p \<and> \<not> Closed (ctxs pm ! a)) \<and>
     (\<forall>n a. reservedPorts pm n = Some a \<longrightarrow>
        a < length (ctxs pm) \<and> ctx_Port (ctxs pm ! a) \<in> A \<and> ctx_ProxyName (ctxs pm ! a) = n)"

definition allowed :: "PortsRange list \<Rightarrow> int set" where
  "allowed allowPorts = (if allowPorts = [] then {1..65535} else \<Union> (range_ports ` set allowPorts))"

lemma NewManager_inv: "port_inv (allowed rs) (NewManager rs)"
  by (auto simp: port_inv_def NewManager_def allowed_def MinPort_def MaxPort_def)

lemma try_ports_SomeD: "try_ports avail c ks = Some k \<Longrightarrow> k \<in> set ks \<and> (\<exists>i. avail i k)"
  by (induction ks arbitrary: c) (auto split: if_splits)

lemma acquire_port_inv:
  assumes "port_inv A pm" and "p \<in> A"
  shows "port_inv A (acquire_port pm name p now)"
proof -
  have "ctxs pm ! a = (ctxs pm @ xs) ! a" if "a < length (ctxs pm)" for a xs
    using that by (simp add: nth_append)
  with assms show ?thesis
    by (auto simp: port_inv_def acquire_port_def markPortAcquiredLocked_def nth_append less_Suc_eq split: if_splits)
qed

text \<open>What an acquisition can do: nothing, or take a port that is free or reserved for the name.\<close>

lemma Acquire_cases:
  assumes "port_inv A pm" and "set order = freePorts pm" and "Acquire avail order now pm name port = (pm', r)"
  obtains (fail) e where "pm' = pm" "r = Inl e"
  | (reserved) p where "port = 0" "pm' = acquire_port pm name p now" "r = Inr p" "p \<in> A" "avail 0 p"
      "\<exists>a. reservedPorts pm name = Some a \<and> ctx_Port (ctxs pm ! a) = p"
  | (free) p where "p \<in> freePorts pm" "pm' = acquire_port pm name p now" "port = 0 \<or> port = p"
      "r = (if p = 0 then Inl ErrNoAvailablePort else Inr p)" "\<exists>i. avail i p"
proof (cases "if port = 0 then reservedPorts pm name else None")
  case None
  then show ?thesis
    using assms by (auto simp: Acquire_def split: if_splits option.splits
        dest!: try_ports_SomeD intro: fail free)
next
  case (Some a)
  then have r: "port = 0" "reservedPorts pm name = Some a" by (auto split: if_splits)
  then have A: "ctx_Port (ctxs pm ! a) \<in> A" using assms(1) by (auto simp: port_inv_def)
  show ?thesis
  proof (cases "avail 0 (ctx_Port (ctxs pm ! a))")
    case True
    with assms(3) r A show ?thesis by (auto simp: Acquire_def intro!: reserved)
  next
    case False
    with assms(2,3) r show ?thesis
      by (auto simp: Acquire_def split: option.splits dest!: try_ports_SomeD intro: fail free)
  qed
qed

lemma Release_inv:
  assumes "port_inv A pm"
  shows "port_inv A (Release pm port now)"
proof (cases "usedPorts pm port")
  case None
  with assms show ?thesis by (simp add: Release_def)
next
  case (Some a)
  let ?c = "(ctxs pm)[a := (ctxs pm ! a)\<lparr>Closed := True, UpdateTime := now\<rparr>]"
  have a: "a < length (ctxs pm)" "ctx_Port (ctxs pm ! a) = port" using assms Some by (auto simp: port_inv_def)
  have keep: "ctx_Port (?c ! b) = ctx_Port (ctxs pm ! b) \<and> ctx_ProxyName (?c ! b) = ctx_ProxyName (ctxs pm ! b)" for b
    using a(1) by (cases "b = a") auto
  have "b \<noteq> a" if "usedPorts pm q = Some b" "q \<noteq> port" for q b
    using that assms a by (auto simp: port_inv_def)
  then have "?c ! b = ctxs pm ! b" if "usedPorts pm q = Some b" "q \<noteq> port" for q b
    using that by (metis nth_list_update_neq)
  with assms Some keep show ?thesis
    by (auto simp: port_inv_def Release_def split: if_splits)
qed

lemma clean_inv: "port_inv A pm \<Longrightarrow> port_inv A (cleanReservedPortsOnce pm now)"
  by (auto simp: port_inv_def cleanReservedPortsOnce_def split: option.splits if_splits)

lemma port_step_inv:
  assumes "port_inv A pm" and "port_op_ok pm op"
  shows "port_inv A (port_step pm op)"
proof (cases op)
  case (OpAcquire avail order now name port)
  obtain pm' r where q: "Acquire avail order now pm name port = (pm', r)" by fastforce
  have "set order = freePorts pm" using assms(2) OpAcquire by simp
  from assms(1) this q have "port_inv A pm'"
  proof (cases rule: Acquire_cases)
    case fail
    with assms(1) show ?thesis by simp
  next
    case (reserved p)
    with assms(1) show ?thesis by (simp add: acquire_port_inv)
  next
    case (free p)
    then have "p \<in> A" using assms(1) by (auto simp: port_inv_def)
    with free assms(1) show ?thesis by (simp add: acquire_port_inv)
  qed
  with OpAcquire q show ?thesis by simp
qed (use assms in \<open>simp_all add: Release_inv clean_inv\<close>)

interpretation ports: op_machine port_step port_op_ok "port_inv A" for A
  by unfold_locales (rule port_step_inv)

section \<open>Properties\<close>

text \<open>
  C15. Whatever sequence of acquisitions, releases and cleanings is applied to a new manager,
  and whatever the operating system answers to its probes, the free and the used ports
  partition the configured set: no port is lost, none is handed out from outside the
  configuration, and none is in both maps.
\<close>

theorem ports_partition:
  assumes "ops_ok port_op_ok port_step (NewManager rs) ops"
  shows "let pm = run_ops port_step (NewManager rs) ops in
    dom (usedPorts pm) \<inter> freePorts pm = {} \<and> dom (usedPorts pm) \<union> freePorts pm = allowed rs"
  using ports.run_inv [OF NewManager_inv assms] by (simp add: port_inv_def Let_def)

definition demo_ports :: "PortsRange list" where
  "demo_ports = [\<lparr>Start = 7, End = 8, Single = 0\<rparr>, \<lparr>Start = 0, End = 0, Single = 20\<rparr>]"

theorem ports_partition_witness:
  "let pm = run_ops port_step (NewManager demo_ports)
       [OpAcquire (\<lambda>_ _. True) [20, 7, 8] 0 ''web'' 0, OpRelease 20 5, OpAcquire (\<lambda>_ _. True) [8, 20, 7] 9 ''ssh'' 8]
   in dom (usedPorts pm) \<inter> freePorts pm = {} \<and> dom (usedPorts pm) \<union> freePorts pm = {7, 8, 20}"
proof -
  have "allowed demo_ports = {7, 8, 20}"
    by (auto simp: allowed_def demo_ports_def range_ports_def)
  moreover have "ops_ok port_op_ok port_step (NewManager demo_ports)
      [OpAcquire (\<lambda>_ _. True) [20, 7, 8] 0 ''web'' 0, OpRelease 20 5, OpAcquire (\<lambda>_ _. True) [8, 20, 7] 9 ''ssh'' 8]"
    by (auto simp: NewManager_def demo_ports_def range_ports_def Acquire_def acquire_port_def
        markPortAcquiredLocked_def Release_def)
  ultimately show ?thesis using ports_partition [of demo_ports] by metis
qed

text \<open>
  The outcome of a request for a specific port is decided by the state alone: it is refused
  as not allowed exactly when it is outside the configuration, as already used exactly when a
  proxy holds it, as unavailable exactly when the operating system refuses it, and otherwise
  granted and recorded for that proxy, everything else untouched. A refusal changes nothing.
\<close>

lemma acquire_specific_port:
  assumes "port_inv A pm" and "port \<noteq> 0"
  shows "Acquire avail order now pm name port =
    (if port \<notin> A then (pm, Inl ErrPortNotAllowed)
     else if usedPorts pm port \<noteq> None then (pm, Inl ErrPortAlreadyUsed)
     else if \<not> avail 1 port then (pm, Inl ErrPortUnAvailable)
     else (pm\<lparr>ctxs := ctxs pm @ [\<lparr>ctx_ProxyName = name, ctx_Port = port, Closed = False, UpdateTime = now\<rparr>],
              usedPorts := (usedPorts pm)(port \<mapsto> length (ctxs pm)),
              reservedPorts := (reservedPorts pm)(name \<mapsto> length (ctxs pm)),
              freePorts := freePorts pm - {port}\<rparr>, Inr port))"
  using assms
  by (auto simp: Acquire_def port_inv_def acquire_port_def markPortAcquiredLocked_def)

theorem acquire_specific_port_witness:
  "snd (Acquire (\<lambda>_ _. True) [] 0 (NewManager demo_ports) ''web'' 8) = Inr 8 \<and>
   snd (Acquire (\<lambda>_ _. True) [] 0 (NewManager demo_ports) ''web'' 9) = Inl ErrPortNotAllowed"
  using acquire_specific_port [OF NewManager_inv, of 8 "\<lambda>_ _. True" "[]" 0 demo_ports "''web''"]
    acquire_specific_port [OF NewManager_inv, of 9 "\<lambda>_ _. True" "[]" 0 demo_ports "''web''"]
  by (simp add: allowed_def demo_ports_def range_ports_def NewManager_def)

text \<open>The ports that a sequence of operations grants, in order.\<close>

fun granted :: "Manager \<Rightarrow> port_op \<Rightarrow> int list" where
  "granted pm (OpAcquire avail order now name port) =
     (case snd (Acquire avail order now pm name port) of Inr p \<Rightarrow> [p] | Inl _ \<Rightarrow> [])"
| "granted pm _ = []"

primrec port_grants :: "Manager \<Rightarrow> port_op list \<Rightarrow> int list" where
  "port_grants pm [] = []"
| "port_grants pm (p # ps) = granted pm p @ port_grants (port_step pm p) ps"

text \<open>The operating system refuses a probe on a port that a proxy is listening on.\<close>

fun probes_sound :: "Manager \<Rightarrow> port_op \<Rightarrow> bool" where
  "probes_sound pm (OpAcquire avail order now name port) \<longleftrightarrow>
     (\<forall>i p. avail i p \<longrightarrow> usedPorts pm p = None)"
| "probes_sound pm _ \<longleftrightarrow> True"

fun releases :: "int \<Rightarrow> port_op \<Rightarrow> bool" where
  "releases p (OpRelease q now) \<longleftrightarrow> q = p"
| "releases p _ \<longleftrightarrow> False"

lemma step_keeps_used:
  assumes "port_inv A pm" and "port_op_ok pm op" and "probes_sound pm op" and "\<not> releases p op"
    and "usedPorts pm p = Some a"
  shows "usedPorts (port_step pm op) p = Some a \<and> p \<notin> set (granted pm op)"
proof (cases op)
  case (OpAcquire avail order now name port)
  obtain pm' r where q: "Acquire avail order now pm name port = (pm', r)" by fastforce
  have o: "set order = freePorts pm" using assms(2) OpAcquire by simp
  have na: "\<not> avail i p" for i using assms(3,5) OpAcquire by auto
  from assms(1) o q have "usedPorts pm' p = Some a \<and> r \<noteq> Inr p"
  proof (cases rule: Acquire_cases)
    case fail
    with assms(5) show ?thesis by simp
  next
    case (reserved k)
    with na have "k \<noteq> p" by auto
    with reserved assms(5) show ?thesis by (simp add: acquire_port_def markPortAcquiredLocked_def)
  next
    case (free k)
    with na have "k \<noteq> p" by auto
    with free assms(5) show ?thesis by (simp add: acquire_port_def markPortAcquiredLocked_def)
  qed
  with OpAcquire q show ?thesis by (auto split: sum.splits)
qed (use assms in \<open>auto simp: Release_def cleanReservedPortsOnce_def split: option.splits\<close>)

text \<open>
  A port in use stays with its holder: as long as it is not released and the operating
  system refuses probes on ports that are listened on, no later acquisition by any proxy is
  granted that port, and the manager keeps the holder's entry.
\<close>

lemma port_exclusive:
  assumes "port_inv A pm" and "usedPorts pm p = Some a"
    and "ops_ok (\<lambda>pm op. port_op_ok pm op \<and> probes_sound pm op) port_step pm ops"
    and "\<not> list_ex (releases p) ops"
  shows "usedPorts (run_ops port_step pm ops) p = Some a \<and> p \<notin> set (port_grants pm ops)"
  using assms
proof (induction ops arbitrary: pm)
  case Nil
  then show ?case by simp
next
  case (Cons op ops)
  have k: "usedPorts (port_step pm op) p = Some a \<and> p \<notin> set (granted pm op)"
    using Cons.prems by (intro step_keeps_used [where A = A]) auto
  moreover have "port_inv A (port_step pm op)" using Cons.prems by (simp add: port_step_inv)
  ultimately have "usedPorts (run_ops port_step (port_step pm op) ops) p = Some a \<and>
      p \<notin> set (port_grants (port_step pm op) ops)"
    using Cons.prems by (intro Cons.IH) auto
  with k show ?case by simp
qed

theorem port_exclusive_witness:
  "20 \<notin> set (port_grants (fst (Acquire (\<lambda>_ _. True) [20, 7, 8] 0 (NewManager demo_ports) ''web'' 0))
     [OpAcquire (\<lambda>_ p. p \<noteq> 20) [7, 8] 9 ''ssh'' 0, OpAcquire (\<lambda>_ p. p = 8) [8] 9 ''db'' 20])"
proof -
  let ?pm = "fst (Acquire (\<lambda>_ _. True) [20, 7, 8] 0 (NewManager demo_ports) ''web'' 0)"
  let ?ops = "[OpAcquire (\<lambda>_ p. p \<noteq> 20) [7, 8] 9 ''ssh'' 0, OpAcquire (\<lambda>_ p. p = 8) [8] 9 ''db'' 20]"
  have free: "freePorts (NewManager demo_ports) = {7, 8, 20}"
    by (auto simp: NewManager_def demo_ports_def range_ports_def)
  have i: "port_inv (allowed demo_ports) ?pm"
    using port_step_inv [OF NewManager_inv, of demo_ports "OpAcquire (\<lambda>_ _. True) [20, 7, 8] 0 ''web'' 0"] free by auto
  have u: "usedPorts ?pm 20 = Some 0"
    by (simp add: Acquire_def NewManager_def acquire_port_def markPortAcquiredLocked_def)
  have "ops_ok (\<lambda>pm op. port_op_ok pm op \<and> probes_sound pm op) port_step ?pm ?ops"
    by (auto simp: free Acquire_def NewManager_def demo_ports_def range_ports_def acquire_port_def markPortAcquiredLocked_def)
  then show ?thesis by (rule port_exclusive [OF i u, THEN conjunct2]) simp
qed

text \<open>Operations that leave the reservation of a name, last used at \<open>t\<close>, in place.\<close>

fun spares :: "string \<Rightarrow> int \<Rightarrow> port_op \<Rightarrow> bool" where
  "spares n t (OpAcquire avail order now name port) \<longleftrightarrow> name \<noteq> n"
| "spares n t (OpRelease port now) \<longleftrightarrow> True"
| "spares n t (OpClean now) \<longleftrightarrow> now - t \<le> MaxPortReservedDuration"

definition reserved_for :: "string \<Rightarrow> PortCtx \<Rightarrow> Manager \<Rightarrow> bool" where
  "reserved_for n c pm \<longleftrightarrow>
     (\<exists>a. reservedPorts pm n = Some a \<and> a < length (ctxs pm) \<and> ctxs pm ! a = c \<and> a \<notin> ran (usedPorts pm))"

lemma acquire_port_reserved_for:
  assumes "reserved_for n c pm" and "name \<noteq> n"
  shows "reserved_for n c (acquire_port pm name p now)"
  using assms
  by (auto simp: reserved_for_def acquire_port_def markPortAcquiredLocked_def nth_append ran_def)

lemma Release_reserved_for:
  assumes "reserved_for n c pm"
  shows "reserved_for n c (Release pm p now)"
proof (cases "usedPorts pm p")
  case None
  with assms show ?thesis by (simp add: Release_def)
next
  case (Some b)
  from assms obtain a where a: "reservedPorts pm n = Some a" "a < length (ctxs pm)" "ctxs pm ! a = c"
    "a \<notin> ran (usedPorts pm)" by (auto simp: reserved_for_def)
  then have "a \<noteq> b" using Some by (auto simp: ran_def)
  with a Some show ?thesis
    by (auto simp: reserved_for_def Release_def ran_def)
qed

lemma step_reserved_for:
  assumes "port_inv A pm" and "port_op_ok pm op" and "spares n (UpdateTime c) op" and "reserved_for n c pm"
  shows "reserved_for n c (port_step pm op)"
proof (cases op)
  case (OpAcquire avail order now name port)
  obtain pm' r where q: "Acquire avail order now pm name port = (pm', r)" by fastforce
  have o: "set order = freePorts pm" using assms(2) OpAcquire by simp
  from assms(1) o q have "reserved_for n c pm'"
    using assms(3,4) OpAcquire by (cases rule: Acquire_cases) (auto simp: acquire_port_reserved_for)
  with OpAcquire q show ?thesis by simp
next
  case (OpRelease p now)
  with assms show ?thesis by (simp add: Release_reserved_for)
next
  case (OpClean now)
  with assms show ?thesis by (auto simp: reserved_for_def cleanReservedPortsOnce_def)
qed

lemma run_reserved_for:
  assumes "port_inv A pm" and "ops_ok port_op_ok port_step pm ops" and "list_all (spares n (UpdateTime c)) ops"
    and "reserved_for n c pm"
  shows "reserved_for n c (run_ops port_step pm ops)"
  using assms
proof (induction ops arbitrary: pm)
  case (Cons op ops)
  then show ?case by (simp add: port_step_inv step_reserved_for)
qed simp

text \<open>
  A proxy that asks for any port gets its previous one back: after it has held a port and
  released it, and whatever other proxies acquire and release in the meantime, its next
  request for any port is granted the same port if the operating system allows it, as long as
  the cleaner has not run more than twenty-four hours after the release.
\<close>

lemma reserved_port_sticky:
  assumes "port_inv A pm" and "distinct order" and "set order = freePorts pm"
    and "Acquire avail order now pm n port = (pm1, Inr p)"
    and "pm2 = Release pm1 p t"
    and "ops_ok port_op_ok port_step pm2 ops" and "list_all (spares n t) ops"
    and "avail' 0 p"
  shows "snd (Acquire avail' order' now' (run_ops port_step pm2 ops) n 0) = Inr p"
proof -
  have i1: "port_inv A pm1"
    using port_step_inv [OF assms(1), of "OpAcquire avail order now n port"] assms(2-4) by simp
  have "pm1 = acquire_port pm n p now"
    using assms(1,3,4) by (cases rule: Acquire_cases) (auto split: if_splits)
  then have a: "reservedPorts pm1 n = Some (length (ctxs pm))" "usedPorts pm1 p = Some (length (ctxs pm))"
    "length (ctxs pm1) = Suc (length (ctxs pm))" "ctx_Port (ctxs pm1 ! length (ctxs pm)) = p"
    by (simp_all add: acquire_port_def markPortAcquiredLocked_def)
  let ?c = "(ctxs pm1 ! length (ctxs pm))\<lparr>Closed := True, UpdateTime := t\<rparr>"
  have "q = p" if "usedPorts pm1 q = Some (length (ctxs pm))" for q
    using that i1 a by (auto simp: port_inv_def)
  then have nr: "length (ctxs pm) \<notin> ran ((usedPorts pm1)(p := None))"
    by (auto simp: ran_def split: if_splits)
  have "reserved_for n ?c pm2"
    unfolding reserved_for_def assms(5) Release_def a(2) option.case
    using a nr by (intro exI [of _ "length (ctxs pm)"]) simp
  then have "reserved_for n ?c (run_ops port_step pm2 ops)"
    using assms(5-7) i1 by (intro run_reserved_for [where A = A]) (simp_all add: Release_inv)
  with a assms(8) show ?thesis by (auto simp: reserved_for_def Acquire_def)
qed

theorem reserved_port_sticky_witness:
  "snd (Acquire (\<lambda>_ _. True) [] 99 (run_ops port_step
     (Release (fst (Acquire (\<lambda>_ _. True) [20, 7, 8] 0 (NewManager demo_ports) ''web'' 0)) 20 5)
     [OpAcquire (\<lambda>_ _. True) [8, 20, 7] 9 ''ssh'' 8, OpClean 50]) ''web'' 0) = Inr 20"
proof -
  have free: "freePorts (NewManager demo_ports) = {7, 8, 20}"
    by (auto simp: NewManager_def demo_ports_def range_ports_def)
  have q: "Acquire (\<lambda>_ _. True) [20, 7, 8] 0 (NewManager demo_ports) ''web'' 0 =
      (fst (Acquire (\<lambda>_ _. True) [20, 7, 8] 0 (NewManager demo_ports) ''web'' 0), Inr 20)"
    by (simp add: Acquire_def NewManager_def)
  show ?thesis
    by (rule reserved_port_sticky [OF NewManager_inv _ _ q refl])
      (force simp: free, force simp: free, code_simp, code_simp, simp)
qed

text \<open>
  The reserved path does not look at \<open>usedPorts\<close>. Between an acquisition and the moment its
  proxy starts to listen a probe succeeds, and then a reservation of another proxy is granted
  the same port: \<open>db\<close> holds port 7 and \<open>web\<close>, which once held it, is granted it as well.
\<close>

lemma reserved_port_granted_twice:
  "let pm1 = fst (Acquire (\<lambda>_ _. True) [7, 8, 20] 0 (NewManager demo_ports) ''web'' 0);
       pm2 = Release pm1 7 1;
       (pm3, r3) = Acquire (\<lambda>_ _. True) [7, 8, 20] 2 pm2 ''db'' 7;
       (pm4, r4) = Acquire (\<lambda>_ _. True) [8, 20] 3 pm3 ''web'' 0
   in r3 = Inr 7 \<and> usedPorts pm3 7 \<noteq> None \<and> r4 = Inr 7"
  by code_simp

end
