(* ===== verification/Router.thy ===== *)
theory Router
  imports Go_Strings Interfaces "HOL-Library.Multiset"
begin

text \<open>
  The virtual-host route table (\<open>pkg/util/vhost/router.go\<close>): routes by domain, then by HTTP
  user, then a list in descending order of location. \<open>'p\<close> is the payload type and \<open>uni\<close> stands
  for \<open>strings.ToLower\<close> on text that is not ASCII. \<open>slices.SortFunc\<close> is a sort by location;
  the locations of one list are distinct, so its result is determined
  (\<open>sorted_permutation_unique\<close>).
\<close>

section \<open>State and operations\<close>

record 'p Router =
  domain :: string
  location :: string
  httpUser :: string
  payload :: 'p

type_synonym 'p Routers = "string \<rightharpoonup> (string \<rightharpoonup> 'p Router list)"

definition NewRouters :: "'p Routers" where
  "NewRouters = Map.empty"

definition routers_of :: "'p Routers \<Rightarrow> string \<Rightarrow> string \<Rightarrow> 'p Router list option" where
  "routers_of r host user = Option.bind (r host) (\<lambda>byUser. byUser user)"

fun find_route :: "('p Router \<Rightarrow> bool) \<Rightarrow> 'p Router list \<Rightarrow> 'p Router option" where
  "find_route P [] = None"
| "find_route P (v # vs) = (if P v then Some v else find_route P vs)"

definition exist :: "'p Routers \<Rightarrow> string \<Rightarrow> string \<Rightarrow> string \<Rightarrow> 'p Router option" where
  "exist r host path user =
     (case routers_of r host user of
        None \<Rightarrow> None
      | Some routers \<Rightarrow> find_route (\<lambda>v. path = location v) routers)"

text \<open>Sorting by location, largest first.\<close>

definition sort_desc :: "'p Router list \<Rightarrow> 'p Router list" where
  "sort_desc vrs = rev (sort_key location vrs)"

definition Add ::
    "(string \<Rightarrow> string) \<Rightarrow> 'p Routers \<Rightarrow> string \<Rightarrow> string \<Rightarrow> string \<Rightarrow> 'p \<Rightarrow> 'p Routers option" where
  "Add uni r d loc user pl =
     (let d = ToLower uni d in
      if exist r d loc user \<noteq> None then None
      else
        let byUser = (case r d of None \<Rightarrow> Map.empty | Some m \<Rightarrow> m);
            vrs = (case byUser user of None \<Rightarrow> [] | Some vs \<Rightarrow> vs);
            vr = \<lparr>domain = d, location = loc, httpUser = user, payload = pl\<rparr>
        in Some (r(d \<mapsto> byUser(user \<mapsto> sort_desc (vrs @ [vr])))))"

definition Del :: "(string \<Rightarrow> string) \<Rightarrow> 'p Routers \<Rightarrow> string \<Rightarrow> string \<Rightarrow> string \<Rightarrow> 'p Routers" where
  "Del uni r d loc user =
     (let d = ToLower uni d in
      case r d of
        None \<Rightarrow> r
      | Some byUser \<Rightarrow>
          (case byUser user of
             None \<Rightarrow> r
           | Some vrs \<Rightarrow> r(d \<mapsto> byUser(user \<mapsto> filter (\<lambda>v. location v \<noteq> loc) vrs))))"

definition getLocked :: "'p Routers \<Rightarrow> string \<Rightarrow> string \<Rightarrow> string \<Rightarrow> 'p Router option" where
  "getLocked r host path user =
     (case routers_of r host user of
        None \<Rightarrow> None
      | Some vrs \<Rightarrow> find_route (\<lambda>v. HasPrefix path (location v)) vrs)"

definition Get :: "(string \<Rightarrow> string) \<Rightarrow> 'p Routers \<Rightarrow> string \<Rightarrow> string \<Rightarrow> string \<Rightarrow> 'p Router option" where
  "Get uni r host path user = getLocked r (ToLower uni host) path user"

definition getExactOrAllUsersLocked :: "'p Routers \<Rightarrow> string \<Rightarrow> string \<Rightarrow> string \<Rightarrow> 'p Router option" where
  "getExactOrAllUsersLocked r host path user =
     (case getLocked r host path user of
        Some v \<Rightarrow> Some v
      | None \<Rightarrow> getLocked r host path [])"

text \<open>The walk over wildcard domains, on the labels of the host that remain.\<close>

fun wildcard_walk :: "'p Routers \<Rightarrow> string \<Rightarrow> string \<Rightarrow> string list \<Rightarrow> 'p Router option" where
  "wildcard_walk r path user (l1 # l2 # l3 # ls) =
     (case getExactOrAllUsersLocked r (Join (''*'' # l2 # l3 # ls) ''.'') path user of
        Some v \<Rightarrow> Some v
      | None \<Rightarrow> wildcard_walk r path user (l2 # l3 # ls))"
| "wildcard_walk r path user _ = None"

definition getByRoute ::
    "(string \<Rightarrow> string) \<Rightarrow> 'p Routers \<Rightarrow> string \<Rightarrow> string \<Rightarrow> string \<Rightarrow> 'p Router option" where
  "getByRoute uni r host path user =
     (let host = ToLower uni host in
      case getExactOrAllUsersLocked r host path user of
        Some v \<Rightarrow> Some v
      | None \<Rightarrow>
          (case wildcard_walk r path user (Split CHR ''.'' host) of
             Some v \<Rightarrow> Some v
           | None \<Rightarrow> getExactOrAllUsersLocked r ''*'' path user))"

section \<open>Invariant and abstraction\<close>

text \<open>Every list holds the routes of its domain and user, largest location first, none twice.\<close>

definition list_wf :: "string \<Rightarrow> string \<Rightarrow> 'p Router list \<Rightarrow> bool" where
  "list_wf d u vs \<longleftrightarrow>
     list_all (\<lambda>v. domain v = d \<and> httpUser v = u) vs \<and>
     sorted (rev (map location vs)) \<and> distinct (map location vs)"

definition routers_wf :: "'p Routers \<Rightarrow> bool" where
  "routers_wf r \<longleftrightarrow> (\<forall>d u vs. routers_of r d u = Some vs \<longrightarrow> list_wf d u vs)"

text \<open>The table as a map from domain, location and user to the payload.\<close>

definition route_lookup :: "'p Routers \<Rightarrow> string \<times> string \<times> string \<Rightarrow> 'p option" where
  "route_lookup r = (\<lambda>(d, l, u). map_option payload (exist r d l u))"

lemma find_route_Some: "find_route P vs = Some v \<Longrightarrow> v \<in> set vs \<and> P v"
  by (induction vs) (auto split: if_splits)

lemma find_route_None: "find_route P vs = None \<longleftrightarrow> (\<forall>v \<in> set vs. \<not> P v)"
  by (induction vs) auto

lemma find_location:
  "distinct (map location vs) \<Longrightarrow>
   find_route (\<lambda>v. l = location v) vs = Some v \<longleftrightarrow> v \<in> set vs \<and> location v = l"
  by (induction vs) (auto simp: rev_image_eqI)

lemma sorted_permutation_unique:
  assumes "distinct (map location xs)" and "mset xs = mset ys" and "sorted (rev (map location ys))"
  shows "ys = sort_desc xs"
proof -
  have d: "distinct (map location ys)"
    using assms(1,2) by (metis mset_eq_imp_distinct_iff mset_map)
  have set: "set ys = set xs" using assms(2) by (metis mset_eq_setD)
  have "distinct (map location (sort_key location xs))"
    using assms(1) by (metis mset_eq_imp_distinct_iff mset_map mset_sort)
  then have "map location (rev ys) = map location (sort_key location xs)"
    using assms(3) d set by (intro sorted_distinct_set_unique) (simp_all add: rev_map [symmetric])
  moreover have "inj_on location (set ys)" using d by (simp add: distinct_map)
  ultimately have "rev ys = sort_key location xs"
    using set by (intro map_inj_on [of location]) simp_all
  then show ?thesis by (metis rev_rev_ident sort_desc_def)
qed

lemma sort_desc_wf:
  assumes "list_wf d u vs" and "\<forall>v \<in> set vs. location v \<noteq> l"
  shows "list_wf d u (sort_desc (vs @ [\<lparr>domain = d, location = l, httpUser = u, payload = p\<rparr>]))"
    and "set (sort_desc (vs @ [\<lparr>domain = d, location = l, httpUser = u, payload = p\<rparr>])) =
         insert \<lparr>domain = d, location = l, httpUser = u, payload = p\<rparr> (set vs)"
proof -
  let ?v = "\<lparr>domain = d, location = l, httpUser = u, payload = p\<rparr>"
  have "distinct (map location (vs @ [?v]))" using assms by (auto simp: list_wf_def)
  then have "distinct (map location (sort_key location (vs @ [?v])))"
    by (metis mset_eq_imp_distinct_iff mset_map mset_sort)
  then show "list_wf d u (sort_desc (vs @ [?v]))"
    using assms(1) sorted_sort_key [of location "vs @ [?v]"]
    by (simp add: list_wf_def sort_desc_def rev_map [symmetric] list_all_iff)
  show "set (sort_desc (vs @ [?v])) = insert ?v (set vs)"
    by (simp add: sort_desc_def)
qed

lemma option_eqI: "(\<And>v. a = Some v \<longleftrightarrow> b = Some v) \<Longrightarrow> a = b"
  by (cases a; cases b) auto

lemma routers_of_upd:
  "routers_of (r(d \<mapsto> m(u \<mapsto> vs))) d' u' =
     (if d' = d then if u' = u then Some vs else m u' else routers_of r d' u')"
  by (simp add: routers_of_def)

lemma exist_eq:
  assumes "routers_wf r"
  shows "exist r d l u = Some v \<longleftrightarrow> (\<exists>vs. routers_of r d u = Some vs \<and> v \<in> set vs \<and> location v = l)"
proof (cases "routers_of r d u")
  case (Some vs)
  then have "distinct (map location vs)" using assms by (auto simp: routers_wf_def list_wf_def)
  with Some show ?thesis by (simp add: exist_def find_location)
qed (simp add: exist_def)

lemma Add_SomeD:
  assumes "Add uni r d l u p = Some r'" and "routers_wf r"
  obtains m vs where "r' = r(ToLower uni d \<mapsto> m(u \<mapsto> sort_desc (vs @ [\<lparr>domain = ToLower uni d, location = l, httpUser = u, payload = p\<rparr>])))"
    "\<And>u'. u' \<noteq> u \<Longrightarrow> m u' = routers_of r (ToLower uni d) u'"
    "vs = (case routers_of r (ToLower uni d) u of None \<Rightarrow> [] | Some vs \<Rightarrow> vs)"
    "list_wf (ToLower uni d) u vs" "\<forall>v \<in> set vs. location v \<noteq> l"
proof -
  let ?d = "ToLower uni d"
  define m where "m = (case r ?d of None \<Rightarrow> Map.empty | Some m \<Rightarrow> m)"
  define vs where "vs = (case m u of None \<Rightarrow> [] | Some vs \<Rightarrow> vs)"
  have mu: "m u' = routers_of r ?d u'" for u' by (simp add: m_def routers_of_def split: option.splits)
  have e: "exist r ?d l u = None" using assms(1) by (auto simp: Add_def Let_def split: if_splits)
  have "r' = r(?d \<mapsto> m(u \<mapsto> sort_desc (vs @ [\<lparr>domain = ?d, location = l, httpUser = u, payload = p\<rparr>])))"
    using assms(1) e by (simp add: Add_def Let_def m_def vs_def)
  moreover have "vs = (case routers_of r ?d u of None \<Rightarrow> [] | Some vs \<Rightarrow> vs)" by (simp add: vs_def mu)
  moreover from this have "list_wf ?d u vs" using assms(2) by (auto simp: routers_wf_def list_wf_def split: option.splits)
  moreover have "\<forall>v \<in> set vs. location v \<noteq> l"
    using e by (auto simp: exist_def vs_def mu find_route_None split: option.splits)
  ultimately show ?thesis using that mu by blast
qed

lemma Add_wf:
  assumes "Add uni r d l u p = Some r'" and "routers_wf r"
  shows "routers_wf r'"
  using assms
proof (rule Add_SomeD)
  fix m vs
  assume *: "r' = r(ToLower uni d \<mapsto> m(u \<mapsto> sort_desc (vs @ [\<lparr>domain = ToLower uni d, location = l, httpUser = u, payload = p\<rparr>])))"
    "\<And>u'. u' \<noteq> u \<Longrightarrow> m u' = routers_of r (ToLower uni d) u'"
    "list_wf (ToLower uni d) u vs" "\<forall>v \<in> set vs. location v \<noteq> l"
  have "list_wf (ToLower uni d) u (sort_desc (vs @ [\<lparr>domain = ToLower uni d, location = l, httpUser = u, payload = p\<rparr>]))"
    by (rule sort_desc_wf [OF *(3,4)])
  then show ?thesis
    using assms(2) *(2) unfolding *(1) routers_wf_def routers_of_upd by (auto split: if_splits)
qed

lemma filter_wf: "list_wf d u vs \<Longrightarrow> list_wf d u (filter P vs)"
  by (auto simp: list_wf_def list_all_iff distinct_map_filter rev_map rev_filter sorted_filter)

lemma Del_eq:
  "Del uni r d l u =
     (case routers_of r (ToLower uni d) u of
        None \<Rightarrow> r
      | Some vrs \<Rightarrow> r(ToLower uni d \<mapsto> (the (r (ToLower uni d)))(u \<mapsto> filter (\<lambda>v. location v \<noteq> l) vrs)))"
  by (auto simp: Del_def routers_of_def Let_def split: option.splits)

lemma routers_of_Del:
  "routers_of (Del uni r d l u) d' u' =
     (if d' = ToLower uni d \<and> u' = u
      then map_option (filter (\<lambda>v. location v \<noteq> l)) (routers_of r d' u')
      else routers_of r d' u')"
  by (auto simp: Del_eq routers_of_upd split: option.splits) (auto simp: routers_of_def split: option.splits Option.bind_splits)

lemma Del_wf: "routers_wf r \<Longrightarrow> routers_wf (Del uni r d l u)"
  by (auto simp: routers_wf_def routers_of_Del filter_wf split: if_splits)

lemma route_lookup_Add:
  assumes "Add uni r d l u p = Some r'" and "routers_wf r"
  shows "route_lookup r' = (route_lookup r)((ToLower uni d, l, u) \<mapsto> p)"
    and "route_lookup r (ToLower uni d, l, u) = None"
proof -
  let ?d = "ToLower uni d" let ?v = "\<lparr>domain = ?d, location = l, httpUser = u, payload = p\<rparr>"
  obtain m vs where *: "r' = r(?d \<mapsto> m(u \<mapsto> sort_desc (vs @ [?v])))" "\<And>u'. u' \<noteq> u \<Longrightarrow> m u' = routers_of r ?d u'"
    "vs = (case routers_of r ?d u of None \<Rightarrow> [] | Some vs \<Rightarrow> vs)" "list_wf ?d u vs" "\<forall>v \<in> set vs. location v \<noteq> l"
    using assms by (rule Add_SomeD) (rule that)
  have e': "exist r' d' l' u' = Some v \<longleftrightarrow>
      (if (d', l', u') = (?d, l, u) then v = ?v else exist r d' l' u' = Some v)" for d' l' u' v
    unfolding exist_eq [OF assms(2)] exist_eq [OF Add_wf [OF assms]]
    using * sort_desc_wf(2) [OF *(4,5)] unfolding *(1) routers_of_upd by (auto split: option.splits if_splits)
  then have "exist r' d' l' u' = (if (d', l', u') = (?d, l, u) then Some ?v else exist r d' l' u')" for d' l' u'
    by (intro option_eqI) (auto simp: e')
  then show "route_lookup r' = (route_lookup r)((?d, l, u) \<mapsto> p)"
    by (auto simp: route_lookup_def fun_eq_iff)
  show "route_lookup r (?d, l, u) = None"
    using assms(1) by (auto simp: route_lookup_def Add_def Let_def split: if_splits)
qed

lemma route_lookup_Del:
  assumes "routers_wf r"
  shows "route_lookup (Del uni r d l u) = (route_lookup r)((ToLower uni d, l, u) := None)"
proof -
  have e: "exist (Del uni r d l u) d' l' u' = Some v \<longleftrightarrow>
      (d', l', u') \<noteq> (ToLower uni d, l, u) \<and> exist r d' l' u' = Some v" for d' l' u' v
    unfolding exist_eq [OF assms] exist_eq [OF Del_wf [OF assms]] routers_of_Del by auto
  then have "exist (Del uni r d l u) d' l' u' = (if (d', l', u') = (ToLower uni d, l, u) then None else exist r d' l' u')"
    for d' l' u'
    by (intro option_eqI) (simp add: e)
  then show ?thesis by (auto simp: route_lookup_def fun_eq_iff)
qed

section \<open>The table interface\<close>

text \<open>
  What the clients of a route table rely on: an insertion is refused exactly when the key is
  taken, and otherwise adds exactly that key; a deletion removes exactly that key. \<open>norm\<close> is
  the normal form of a key (a domain is compared in lower case).
\<close>

locale route_table =
  fixes add :: "'t \<Rightarrow> 'k \<Rightarrow> 'p \<Rightarrow> 't option"
    and del :: "'t \<Rightarrow> 'k \<Rightarrow> 't"
    and look :: "'t \<Rightarrow> 'k \<Rightarrow> 'p option"
    and norm :: "'k \<Rightarrow> 'k"
    and wf :: "'t \<Rightarrow> bool"
  assumes add_Some: "wf t \<Longrightarrow> add t k p = Some t' \<Longrightarrow> wf t' \<and> look t' = (look t)(norm k \<mapsto> p)"
    and add_None: "wf t \<Longrightarrow> add t k p = None \<longleftrightarrow> look t (norm k) \<noteq> None"
    and del_wf: "wf t \<Longrightarrow> wf (del t k)"
    and del_look: "wf t \<Longrightarrow> look (del t k) = (look t)(norm k := None)"
begin

lemma add_del: "wf t \<Longrightarrow> add t k p = Some t' \<Longrightarrow> look (del t' k) = look t"
  using add_Some [of t k p t'] add_None [of t k p] by (auto simp: del_look)

lemma add_other: "wf t \<Longrightarrow> add t k p = Some t' \<Longrightarrow> norm k' \<noteq> norm k \<Longrightarrow> look t' (norm k') = look t (norm k')"
  using add_Some by fastforce

end

text \<open>
  Registering several routes one after the other; on a conflict the routes registered so far
  are deleted again, newest first. The result carries the success of the whole.
\<close>

fun add_all :: "('t \<Rightarrow> 'k \<Rightarrow> 'p \<Rightarrow> 't option) \<Rightarrow> ('t \<Rightarrow> 'k \<Rightarrow> 't) \<Rightarrow> 't \<Rightarrow> 'k list \<Rightarrow> ('k \<times> 'p) list \<Rightarrow> 't \<times> bool" where
  "add_all add del t done [] = (t, True)"
| "add_all add del t done ((k, p) # ks) =
     (case add t k p of
        Some t' \<Rightarrow> add_all add del t' (k # done) ks
      | None \<Rightarrow> (fold (\<lambda>k t. del t k) done t, False))"

context route_table
begin

lemma fold_del: "wf t \<Longrightarrow> wf (fold (\<lambda>k t. del t k) ks t) \<and>
    look (fold (\<lambda>k t. del t k) ks t) = (\<lambda>k. if k \<in> norm ` set ks then None else look t k)"
  by (induction ks arbitrary: t) (auto simp: del_wf del_look fun_eq_iff)

lemma add_all_rollback:
  assumes "wf t" and "add_all add del t done ks = (t', False)"
  shows "wf t' \<and> look t' = (\<lambda>k. if k \<in> norm ` set done then None else look t k)"
  using assms
proof (induction ks arbitrary: t "done")
  case Nil
  then show ?case by simp
next
  case (Cons kp ks)
  obtain k p where kp: "kp = (k, p)" by fastforce
  show ?case
  proof (cases "add t k p")
    case None
    with Cons.prems kp fold_del show ?thesis by auto
  next
    case (Some t1)
    have t1: "wf t1" "look t1 = (look t)(norm k \<mapsto> p)" using add_Some [OF Cons.prems(1) Some] by auto
    have "look t (norm k) = None" using add_None [OF Cons.prems(1)] Some by (metis option.simps(3))
    with Cons.IH [of t1 "k # done"] Cons.prems Some kp t1 show ?thesis by (auto simp: fun_eq_iff)
  qed
qed

lemma add_all_success:
  assumes "wf t" and "add_all add del t done ks = (t', True)"
  shows "wf t' \<and> (\<forall>x \<in> set ks. look t (norm (fst x)) = None) \<and> distinct (map (\<lambda>x. norm (fst x)) ks) \<and>
    look t' = look t ++ map_of (map (\<lambda>x. (norm (fst x), snd x)) ks)"
  using assms
proof (induction ks arbitrary: t "done")
  case Nil
  then show ?case by simp
next
  case (Cons kp ks)
  obtain k p where kp: "kp = (k, p)" by fastforce
  then obtain t1 where a: "add t k p = Some t1" "add_all add del t1 (k # done) ks = (t', True)"
    using Cons.prems by (auto split: option.splits)
  have t1: "wf t1" "look t1 = (look t)(norm k \<mapsto> p)" using add_Some [OF Cons.prems(1) a(1)] by auto
  have free: "look t (norm k) = None" using add_None [OF Cons.prems(1), of k p] a(1) by auto
  from Cons.IH [OF t1(1) a(2)] have *: "wf t'" "\<forall>x \<in> set ks. look t1 (norm (fst x)) = None"
    "distinct (map (\<lambda>x. norm (fst x)) ks)" "look t' = look t1 ++ map_of (map (\<lambda>x. (norm (fst x), snd x)) ks)"
    by auto
  then have n: "norm k \<notin> (\<lambda>x. norm (fst x)) ` set ks" using t1(2) by auto
  then have "map_of (map (\<lambda>x. (norm (fst x), snd x)) ks) (norm k) = None"
    by (auto simp: map_of_eq_None_iff image_iff)
  then have L: "look t' = look t ++ map_of (map (\<lambda>x. (norm (fst x), snd x)) (kp # ks))"
    using *(4) t1(2) kp by (auto simp: fun_eq_iff map_add_def split: option.splits)
  have "look t (norm (fst x)) = None" if "x \<in> set ks" for x
    using *(2) t1(2) that by (auto split: if_splits)
  with *(1,3) n kp free show ?case by (intro conjI L) auto
qed

end

definition route_norm :: "(string \<Rightarrow> string) \<Rightarrow> string \<times> string \<times> string \<Rightarrow> string \<times> string \<times> string" where
  "route_norm uni = (\<lambda>(d, l, u). (ToLower uni d, l, u))"

interpretation routes: route_table "\<lambda>r (d, l, u) p. Add uni r d l u p" "\<lambda>r (d, l, u). Del uni r d l u"
  route_lookup "route_norm uni" routers_wf for uni
proof (unfold_locales, goal_cases)
  case (1 t k p t')
  then show ?case
    by (cases k) (auto simp: route_norm_def Add_wf route_lookup_Add(1))
next
  case (2 t k p)
  then show ?case
    by (cases k) (auto simp: route_norm_def route_lookup_def Add_def Let_def)
next
  case (3 t k)
  then show ?case by (cases k) (simp add: Del_wf)
next
  case (4 t k)
  then show ?case by (cases k) (simp add: route_lookup_Del route_norm_def)
qed

section \<open>Which route is chosen\<close>

definition registered :: "'p Routers \<Rightarrow> 'p Router \<Rightarrow> bool" where
  "registered r v \<longleftrightarrow> exist r (domain v) (location v) (httpUser v) = Some v"

definition route_matches :: "'p Routers \<Rightarrow> string \<Rightarrow> string \<Rightarrow> string \<Rightarrow> 'p Router \<Rightarrow> bool" where
  "route_matches r h path u v \<longleftrightarrow> registered r v \<and> domain v = h \<and> httpUser v = u \<and> prefix (location v) path"

fun wildcard_hosts :: "string list \<Rightarrow> string list" where
  "wildcard_hosts (l1 # l2 # l3 # ls) = Join (''*'' # l2 # l3 # ls) ''.'' # wildcard_hosts (l2 # l3 # ls)"
| "wildcard_hosts _ = []"

text \<open>The domains under which a host is looked up, in order of precedence.\<close>

definition route_hosts :: "(string \<Rightarrow> string) \<Rightarrow> string \<Rightarrow> string list" where
  "route_hosts uni host =
     ToLower uni host # wildcard_hosts (Split CHR ''.'' (ToLower uni host)) @ [''*'']"

lemma registered_iff:
  assumes "routers_wf r"
  shows "registered r v \<longleftrightarrow> (\<exists>vs. routers_of r (domain v) (httpUser v) = Some vs \<and> v \<in> set vs)"
  using assms by (auto simp: registered_def exist_eq)

lemma route_matches_iff:
  assumes "routers_wf r"
  shows "route_matches r h path u v \<longleftrightarrow>
    (\<exists>vs. routers_of r h u = Some vs \<and> v \<in> set vs \<and> prefix (location v) path)"
proof -
  have "domain v = h \<and> httpUser v = u" if "routers_of r h u = Some vs" "v \<in> set vs" for vs
    using assms that by (auto simp: routers_wf_def list_wf_def list_all_iff)
  then show ?thesis by (auto simp: route_matches_def registered_iff [OF assms])
qed

lemma prefix_le: "prefix a b \<Longrightarrow> a \<le> (b :: string)"
proof (induction a arbitrary: b)
  case Nil
  then show ?case by simp
next
  case (Cons x a)
  then obtain c where "b = x # c" "prefix a c" by (auto simp: prefix_def)
  with Cons.IH show ?case by simp
qed

lemma find_route_longest:
  assumes "sorted (rev (map location vs))" and "distinct (map location vs)"
    and "find_route (\<lambda>v. HasPrefix path (location v)) vs = Some v"
    and "w \<in> set vs" and "prefix (location w) path"
  shows "length (location w) \<le> length (location v)"
  using assms
proof (induction vs)
  case Nil
  then show ?case by simp
next
  case (Cons x vs)
  show ?case
  proof (cases "HasPrefix path (location x)")
    case True
    with Cons.prems(3) have x: "x = v" by simp
    show ?thesis
    proof (cases "w = x")
      case False
      then have "location w \<le> location x"
        using Cons.prems(1,4) by (auto simp: sorted_append)
      moreover have "prefix (location x) path" using True by (simp add: HasPrefix_def)
      ultimately show ?thesis
        using Cons.prems(5) prefix_le x by (metis order_antisym prefix_length_le prefix_same_cases)
    qed (simp add: x)
  next
    case False
    then have "w \<noteq> x" using Cons.prems(5) by (auto simp: HasPrefix_def)
    with False Cons show ?thesis by (auto simp: sorted_append)
  qed
qed

lemma getLocked_Some:
  assumes "routers_wf r" and "getLocked r h path u = Some v"
  shows "route_matches r h path u v"
    and "route_matches r h path u w \<Longrightarrow> length (location w) \<le> length (location v)"
proof -
  obtain vs where vs: "routers_of r h u = Some vs" "find_route (\<lambda>v. HasPrefix path (location v)) vs = Some v"
    using assms(2) by (auto simp: getLocked_def split: option.splits)
  have wf: "list_wf h u vs" using assms(1) vs(1) by (auto simp: routers_wf_def)
  show "route_matches r h path u v"
    using find_route_Some [OF vs(2)] vs(1) by (auto simp: route_matches_iff [OF assms(1)] HasPrefix_def)
  show "length (location w) \<le> length (location v)" if "route_matches r h path u w"
    using that vs wf by (auto simp: route_matches_iff [OF assms(1)] list_wf_def intro: find_route_longest)
qed

lemma getLocked_None:
  assumes "routers_wf r"
  shows "getLocked r h path u = None \<longleftrightarrow> (\<forall>v. \<not> route_matches r h path u v)"
  by (auto simp: getLocked_def route_matches_iff [OF assms] find_route_None HasPrefix_def split: option.splits)

fun first_some :: "('a \<Rightarrow> 'b option) \<Rightarrow> 'a list \<Rightarrow> 'b option" where
  "first_some f [] = None"
| "first_some f (x # xs) = (case f x of Some y \<Rightarrow> Some y | None \<Rightarrow> first_some f xs)"

lemma first_some_append: "first_some f (xs @ ys) = (case first_some f xs of Some y \<Rightarrow> Some y | None \<Rightarrow> first_some f ys)"
  by (induction xs) (auto split: option.splits)

lemma first_some_None: "first_some f xs = None \<longleftrightarrow> (\<forall>x \<in> set xs. f x = None)"
  by (induction xs) (auto split: option.splits)

lemma first_some_SomeD:
  "first_some f xs = Some y \<Longrightarrow> \<exists>as x bs. xs = as @ x # bs \<and> (\<forall>a \<in> set as. f a = None) \<and> f x = Some y"
proof (induction xs)
  case Nil
  then show ?case by simp
next
  case (Cons x xs)
  show ?case
  proof (cases "f x")
    case None
    with Cons obtain as z bs where "xs = as @ z # bs" "\<forall>a \<in> set as. f a = None" "f z = Some y" by auto
    with None have "x # xs = (x # as) @ z # bs \<and> (\<forall>a \<in> set (x # as). f a = None) \<and> f z = Some y" by simp
    then show ?thesis by blast
  next
    case (Some z)
    with Cons.prems have "x # xs = [] @ x # xs \<and> (\<forall>a \<in> set []. f a = None) \<and> f x = Some y" by simp
    then show ?thesis by blast
  qed
qed

lemma wildcard_walk_eq:
  "wildcard_walk r path user ls = first_some (\<lambda>h. getExactOrAllUsersLocked r h path user) (wildcard_hosts ls)"
  by (induction ls rule: wildcard_hosts.induct) (auto split: option.splits)

lemma getByRoute_eq:
  "getByRoute uni r host path user =
     first_some (\<lambda>h. getExactOrAllUsersLocked r h path user) (route_hosts uni host)"
  by (simp add: getByRoute_def route_hosts_def Let_def wildcard_walk_eq first_some_append split: option.splits)

lemma getExactOrAllUsers_None:
  assumes "routers_wf r"
  shows "getExactOrAllUsersLocked r h path user = None \<longleftrightarrow>
    (\<forall>u \<in> {user, []}. \<forall>v. \<not> route_matches r h path u v)"
  by (auto simp: getExactOrAllUsersLocked_def getLocked_None [OF assms] split: option.splits)
    (metis assms getLocked_None option.distinct(1))

text \<open>
  C17. The route chosen for a request is the best registered one: its domain is the first of
  the host itself, the wildcard domains from the most to the least specific one, and \<open>*\<close>, for
  which any route matches; within that domain a route for the request's user is preferred to
  one for all users; and within those it has the longest location that is a prefix of the
  path. If no route is returned then none of the registered routes matches. Two-label hosts
  are not matched by a wildcard.
\<close>

theorem route_best_match:
  assumes "routers_wf r"
  shows "case getByRoute uni r host path user of
      None \<Rightarrow> (\<forall>h \<in> set (route_hosts uni host). \<forall>u \<in> {user, []}. \<forall>v. \<not> route_matches r h path u v)
    | Some v \<Rightarrow>
        (\<exists>hs1 hs2. route_hosts uni host = hs1 @ domain v # hs2 \<and>
           (\<forall>h \<in> set hs1. \<forall>u \<in> {user, []}. \<forall>w. \<not> route_matches r h path u w)) \<and>
        route_matches r (domain v) path (httpUser v) v \<and>
        (httpUser v = user \<or> httpUser v = [] \<and> (\<forall>w. \<not> route_matches r (domain v) path user w)) \<and>
        (\<forall>w. route_matches r (domain v) path (httpUser v) w \<longrightarrow> length (location w) \<le> length (location v))"
proof (cases "getByRoute uni r host path user")
  case None
  show ?thesis
    unfolding None option.case
    using None [unfolded getByRoute_eq first_some_None] getExactOrAllUsers_None [OF assms] by blast
next
  case (Some v)
  from first_some_SomeD [OF Some [unfolded getByRoute_eq]] obtain as h bs where s: "route_hosts uni host = as @ h # bs"
    "\<forall>a \<in> set as. getExactOrAllUsersLocked r a path user = None" "getExactOrAllUsersLocked r h path user = Some v"
    by blast
  then obtain u where u: "getLocked r h path u = Some v"
    "u = user \<or> u = [] \<and> (\<forall>w. \<not> route_matches r h path user w)"
    using getLocked_None [OF assms] by (auto simp: getExactOrAllUsersLocked_def split: option.splits)
  note m = getLocked_Some [OF assms u(1)]
  from m(1) have d: "domain v = h" "httpUser v = u" by (auto simp: route_matches_def)
  show ?thesis
    unfolding Some option.case d
    using s(1,2) u(2) m getExactOrAllUsers_None [OF assms] by blast
qed

lemma NewRouters_wf: "routers_wf NewRouters"
  by (simp add: routers_wf_def NewRouters_def routers_of_def)

definition demo_routes :: "string Routers" where
  "demo_routes =
     (case Add (\<lambda>s. s) NewRouters ''*.Example.com'' ''/'' [] ''all'' of
        None \<Rightarrow> NewRouters
      | Some r \<Rightarrow> (case Add (\<lambda>s. s) r ''*.example.com'' ''/api'' [] ''api'' of None \<Rightarrow> r | Some r' \<Rightarrow> r'))"

lemma demo_routes_wf: "routers_wf demo_routes"
proof (cases "Add (\<lambda>s. s) NewRouters ''*.Example.com'' ''/'' [] ''all''")
  case (Some r)
  then have "routers_wf r" using NewRouters_wf by (rule Add_wf)
  then show ?thesis
    using Some by (cases "Add (\<lambda>s. s) r ''*.example.com'' ''/api'' [] ''api''") (simp_all add: demo_routes_def Add_wf)
qed (simp add: demo_routes_def NewRouters_wf)

theorem route_best_match_witness:
  "\<exists>v. getByRoute (\<lambda>s. s) demo_routes ''www.Example.com'' ''/api/x'' ''bob'' = Some v \<and> payload v = ''api'' \<and>
     httpUser v = [] \<and> (\<forall>w. \<not> route_matches demo_routes (domain v) ''/api/x'' ''bob'' w)"
proof -
  have "map_option (\<lambda>v. (payload v, httpUser v)) (getByRoute (\<lambda>s. s) demo_routes ''www.Example.com'' ''/api/x'' ''bob'') = Some (''api'', [])"
    by code_simp
  then show ?thesis
    using route_best_match [OF demo_routes_wf, where uni = "\<lambda>s. s" and host = "''www.Example.com''"
        and path = "''/api/x''" and user = "''bob''"] by auto
qed

text \<open>
  C18. Registering and unregistering routes is exact: \<open>Add\<close> is refused exactly when the same
  domain in lower case, location and user is taken, and otherwise adds that one route and
  changes no other; \<open>Del\<close> removes exactly that route. Both keep the order on which the
  longest-match lookup relies.
\<close>

theorem route_table_exact:
  assumes "routers_wf r"
  shows "(case Add uni r d l u p of
            None \<Rightarrow> route_lookup r (ToLower uni d, l, u) \<noteq> None
          | Some r' \<Rightarrow>
              routers_wf r' \<and> route_lookup r (ToLower uni d, l, u) = None \<and>
              route_lookup r' = (route_lookup r)((ToLower uni d, l, u) \<mapsto> p)) \<and>
    routers_wf (Del uni r d l u) \<and>
    route_lookup (Del uni r d l u) = (route_lookup r)((ToLower uni d, l, u) := None)"
proof -
  have "(case Add uni r d l u p of
            None \<Rightarrow> route_lookup r (ToLower uni d, l, u) \<noteq> None
          | Some r' \<Rightarrow>
              routers_wf r' \<and> route_lookup r (ToLower uni d, l, u) = None \<and>
              route_lookup r' = (route_lookup r)((ToLower uni d, l, u) \<mapsto> p))"
    using assms Add_wf route_lookup_Add routes.add_None [OF assms, of uni "(d, l, u)" p]
    by (auto simp: route_norm_def split: option.splits)
  then show ?thesis using assms by (simp add: Del_wf route_lookup_Del)
qed

theorem route_table_exact_witness:
  "Add (\<lambda>s. s) demo_routes ''*.EXAMPLE.com'' ''/api'' [] ''again'' = None \<and>
   route_lookup (Del (\<lambda>s. s) demo_routes ''*.EXAMPLE.com'' ''/api'' []) (''*.example.com'', ''/api'', []) = None"
proof -
  have "ToLower (\<lambda>s. s) ''*.EXAMPLE.com'' = ''*.example.com''"
    "route_lookup demo_routes (''*.example.com'', ''/api'', []) = Some ''api''"
    by code_simp+
  then show ?thesis
    using route_table_exact [OF demo_routes_wf, of "\<lambda>s. s" "''*.EXAMPLE.com''" "''/api''" "[]" "''again''"]
    by (auto split: option.splits)
qed

end
