(* ===== verification/Vhost.thy ===== *)
theory Vhost
  imports Router
begin

text \<open>
  The clients of the route table: the muxer for HTTPS and tcpmux proxies
  (\<open>pkg/util/vhost/vhost.go\<close>), the HTTP reverse proxy (\<open>pkg/util/vhost/http.go\<close>) and the
  helpers they use (\<open>pkg/util/http/http.go\<close>). Base64 is an argument (\<open>enc\<close>, \<open>dec\<close>); what a
  handler decides about a connection or a request is a value of an outcome type. The body of
  the forwarding itself (\<open>net/http/httputil\<close>) and the copying of headers are not modelled.
\<close>

section \<open>Hosts and credentials\<close>

definition hasPort :: "string \<Rightarrow> bool" where
  "hasPort host =
     (let colons = length (filter (\<lambda>c. c = CHR '':'') host) in
      if colons = 0 then False
      else if colons = 1 then True
      else hd host = CHR ''['' \<and> sublist '']:'' host)"

definition TrimSuffix :: "string \<Rightarrow> string \<Rightarrow> string" where
  "TrimSuffix s t = (if HasSuffix s t then take (length s - length t) s else s)"

definition CanonicalHost :: "(string \<Rightarrow> string) \<Rightarrow> string \<Rightarrow> string" where
  "CanonicalHost uni host =
     (let host = ToLower uni host in
      if hasPort host
      then (case SplitHostPort host of None \<Rightarrow> [] | Some (h, _) \<Rightarrow> TrimSuffix h ''.'')
      else TrimSuffix host ''.'')"

fun Cut :: "char \<Rightarrow> string \<Rightarrow> (string \<times> string) option" where
  "Cut c [] = None"
| "Cut c (x # xs) = (if x = c then Some ([], xs) else map_option (map_prod ((#) x) id) (Cut c xs))"

definition ParseBasicAuth :: "(string \<Rightarrow> string option) \<Rightarrow> string \<Rightarrow> (string \<times> string) option" where
  "ParseBasicAuth dec auth =
     (if length auth < 6 \<or> map lower_char (take 6 auth) \<noteq> ''basic '' then None
      else case dec (drop 6 auth) of
        None \<Rightarrow> None
      | Some cs \<Rightarrow> Cut CHR '':'' cs)"

definition BasicAuth :: "(string \<Rightarrow> string) \<Rightarrow> string \<Rightarrow> string \<Rightarrow> string" where
  "BasicAuth enc username passwd = ''Basic '' @ enc (username @ '':'' @ passwd)"

lemma Cut_append: "c \<notin> set u \<Longrightarrow> Cut c (u @ c # p) = Some (u, p)"
  by (induction u) auto

lemma ParseBasicAuth_BasicAuth:
  assumes "\<And>s. dec (enc s) = Some s" and "CHR '':'' \<notin> set u"
  shows "ParseBasicAuth dec (BasicAuth enc u p) = Some (u, p)"
proof -
  have "map lower_char ''Basic '' = ''basic ''" by code_simp
  with assms show ?thesis by (simp add: ParseBasicAuth_def BasicAuth_def Cut_append)
qed

section \<open>The muxer\<close>

record Listener =
  l_name :: string
  l_location :: string
  l_routeByHTTPUser :: string
  l_rewriteHost :: string
  l_username :: string
  l_password :: string

definition Muxer_Listen :: "(string \<Rightarrow> string) \<Rightarrow> Listener Routers \<Rightarrow> Listener \<Rightarrow> Listener Routers option" where
  "Muxer_Listen uni r l = Add uni r (l_name l) (l_location l) (l_routeByHTTPUser l) l"

definition Listener_Close :: "(string \<Rightarrow> string) \<Rightarrow> Listener Routers \<Rightarrow> Listener \<Rightarrow> Listener Routers" where
  "Listener_Close uni r l = Del uni r (l_name l) (l_location l) (l_routeByHTTPUser l)"

definition getListener ::
    "(string \<Rightarrow> string) \<Rightarrow> Listener Routers \<Rightarrow> string \<Rightarrow> string \<Rightarrow> string \<Rightarrow> Listener option" where
  "getListener uni r name path user = map_option payload (getByRoute uni r name path user)"

text \<open>
  What the muxer does with an accepted connection. The arguments are the answers of the hooks
  it was set up with: \<open>info\<close> is the result of \<open>vhostFunc\<close>, \<open>success\<close> and \<open>auth\<close> the hooks, None
  when they are not set; \<open>dl1\<close> and \<open>dl2\<close> say whether the deadlines can be set.
\<close>

datatype mux_outcome = MuxClose | MuxFailHook | MuxDeliver Listener

definition Muxer_handle ::
    "(string \<Rightarrow> string) \<Rightarrow> Listener Routers \<Rightarrow> bool \<Rightarrow> (string \<rightharpoonup> string) option \<Rightarrow> bool option \<Rightarrow>
     (string \<Rightarrow> string \<Rightarrow> bool) option \<Rightarrow> bool \<Rightarrow> mux_outcome" where
  "Muxer_handle uni r dl1 info success auth dl2 =
     (if \<not> dl1 then MuxClose
      else case info of
        None \<Rightarrow> MuxClose
      | Some m \<Rightarrow>
          let field = (\<lambda>k. case m k of None \<Rightarrow> [] | Some v \<Rightarrow> v);
              name = ToLower uni (field ''Host'');
              path = ToLower uni (field ''Path'')
          in (case getListener uni r name path (field ''HTTPUser'') of
                None \<Rightarrow> MuxFailHook
              | Some l \<Rightarrow>
                  if success = Some False then MuxClose
                  else if (case auth of None \<Rightarrow> False
                             | Some check \<Rightarrow> l_username l \<noteq> [] \<and> \<not> check (l_username l) (l_password l))
                  then MuxClose
                  else if \<not> dl2 then MuxClose
                  else MuxDeliver l))"

section \<open>The HTTP reverse proxy\<close>

record 'c RouteConfig =
  Domain :: string
  Location :: string
  RewriteHost :: string
  Username :: string
  Password :: string
  RouteByHTTPUser :: string
  CreateConnFn :: "(string \<Rightarrow> 'c) option"
  ChooseEndpointFn :: "string option"
  CreateConnByEndpointFn :: "(string \<Rightarrow> string \<Rightarrow> 'c) option"

record http_request =
  Method :: string
  URL_Host :: string
  URL_Path :: string
  Host :: string
  ReqRemoteAddr :: string
  ProxyAuthorization :: string
  Authorization :: string

record RequestRouteInfo =
  URL :: string
  InfoHost :: string
  HTTPUser :: string
  InfoRemoteAddr :: string
  URLHost :: string
  Endpoint :: string

definition HTTP_Register ::
    "(string \<Rightarrow> string) \<Rightarrow> 'c RouteConfig Routers \<Rightarrow> 'c RouteConfig \<Rightarrow> 'c RouteConfig Routers option" where
  "HTTP_Register uni r rc = Add uni r (Domain rc) (Location rc) (RouteByHTTPUser rc) rc"

definition HTTP_UnRegister ::
    "(string \<Rightarrow> string) \<Rightarrow> 'c RouteConfig Routers \<Rightarrow> 'c RouteConfig \<Rightarrow> 'c RouteConfig Routers" where
  "HTTP_UnRegister uni r rc = Del uni r (Domain rc) (Location rc) (RouteByHTTPUser rc)"

definition GetRouteConfig ::
    "(string \<Rightarrow> string) \<Rightarrow> 'c RouteConfig Routers \<Rightarrow> string \<Rightarrow> string \<Rightarrow> string \<Rightarrow> 'c RouteConfig option" where
  "GetRouteConfig uni r d loc user = map_option payload (getByRoute uni r d loc user)"

definition CreateConnection ::
    "(string \<Rightarrow> string) \<Rightarrow> 'c RouteConfig Routers \<Rightarrow> RequestRouteInfo \<Rightarrow> bool \<Rightarrow> 'c option" where
  "CreateConnection uni r info byEndpoint =
     (case getByRoute uni r (CanonicalHost uni (InfoHost info)) (URL info) (HTTPUser info) of
        None \<Rightarrow> None
      | Some v \<Rightarrow>
          (case (if byEndpoint then CreateConnByEndpointFn (payload v) else None) of
             Some fn \<Rightarrow> Some (fn (Endpoint info) (InfoRemoteAddr info))
           | None \<Rightarrow>
               (case CreateConnFn (payload v) of
                  Some fn \<Rightarrow> Some (fn (InfoRemoteAddr info))
                | None \<Rightarrow> None)))"

definition req_BasicAuth :: "(string \<Rightarrow> string option) \<Rightarrow> http_request \<Rightarrow> (string \<times> string) option" where
  "req_BasicAuth dec req =
     (if Authorization req = [] then None else ParseBasicAuth dec (Authorization req))"

definition checkRouteAuthByRequest ::
    "(string \<Rightarrow> string option) \<Rightarrow> http_request \<Rightarrow> 'c RouteConfig option \<Rightarrow> bool" where
  "checkRouteAuthByRequest dec req rc =
     (case rc of
        None \<Rightarrow> True
      | Some c \<Rightarrow>
          if Username c = [] \<and> Password c = [] then True
          else if URL_Host req \<noteq> []
          then if ProxyAuthorization req = [] then False
               else ParseBasicAuth dec (ProxyAuthorization req) = Some (Username c, Password c)
          else req_BasicAuth dec req = Some (Username c, Password c))"

definition auth_user :: "(string \<times> string) option \<Rightarrow> string" where
  "auth_user a = (case a of None \<Rightarrow> [] | Some (u, _) \<Rightarrow> u)"

definition getRequestRouteUser :: "(string \<Rightarrow> string option) \<Rightarrow> http_request \<Rightarrow> string" where
  "getRequestRouteUser dec req =
     (if URL_Host req \<noteq> []
      then if ProxyAuthorization req = [] then auth_user (req_BasicAuth dec req)
           else auth_user (ParseBasicAuth dec (ProxyAuthorization req))
      else auth_user (req_BasicAuth dec req))"

definition request_info :: "(string \<Rightarrow> string option) \<Rightarrow> http_request \<Rightarrow> RequestRouteInfo" where
  "request_info dec req =
     \<lparr>URL = URL_Path req, InfoHost = Host req, HTTPUser = getRequestRouteUser dec req,
      InfoRemoteAddr = ReqRemoteAddr req, URLHost = URL_Host req, Endpoint = []\<rparr>"

definition injectRequestInfoToCtx ::
    "(string \<Rightarrow> string) \<Rightarrow> (string \<Rightarrow> string option) \<Rightarrow> 'c RouteConfig Routers \<Rightarrow> http_request \<Rightarrow>
     RequestRouteInfo \<times> 'c RouteConfig option" where
  "injectRequestInfoToCtx uni dec r req =
     (let info = request_info dec req
      in (info, GetRouteConfig uni r (CanonicalHost uni (InfoHost info)) (URL info) (HTTPUser info)))"

text \<open>
  The name under which the transport looks for an idle connection to reuse, and the endpoint
  that the rewrite chooses.
\<close>

definition rewrite_endpoint :: "'c RouteConfig option \<Rightarrow> string" where
  "rewrite_endpoint rc =
     (case rc of
        None \<Rightarrow> []
      | Some c \<Rightarrow> (case ChooseEndpointFn c of None \<Rightarrow> [] | Some e \<Rightarrow> e))"

definition rewrite_url_host :: "(string \<Rightarrow> string) \<Rightarrow> 'c RouteConfig option \<Rightarrow> http_request \<Rightarrow> string" where
  "rewrite_url_host enc rc req =
     (case rc of
        Some c \<Rightarrow>
          Domain c @ ''.'' @ enc (Location c) @ ''.'' @ enc (RouteByHTTPUser c) @ ''.'' @ enc (rewrite_endpoint rc)
      | None \<Rightarrow> Host req)"

datatype 'c http_outcome =
    ProxyAuthRequired
  | Unauthorized
  | ConnectTunnel "'c option"
  | Forward string RequestRouteInfo

definition ServeHTTP ::
    "(string \<Rightarrow> string) \<Rightarrow> (string \<Rightarrow> string) \<Rightarrow> (string \<Rightarrow> string option) \<Rightarrow> 'c RouteConfig Routers \<Rightarrow>
     http_request \<Rightarrow> 'c http_outcome" where
  "ServeHTTP uni enc dec r req =
     (case injectRequestInfoToCtx uni dec r req of
        (info, rc) \<Rightarrow>
          if \<not> checkRouteAuthByRequest dec req rc
          then if URL_Host req \<noteq> [] then ProxyAuthRequired else Unauthorized
          else if Method req = ''CONNECT'' then ConnectTunnel (CreateConnection uni r info False)
          else Forward (rewrite_url_host enc rc req) (info\<lparr>Endpoint := rewrite_endpoint rc\<rparr>))"

section \<open>Properties\<close>

text \<open>
  A connection that the muxer hands to a listener goes to the listener registered for the
  best match of its host, path and user, and if that listener asks for credentials and a check
  is configured, only after the check has accepted them.
\<close>

lemma muxer_delivery:
  assumes "routers_wf r" and "Muxer_handle uni r dl1 (Some m) success auth dl2 = MuxDeliver l"
  shows "\<exists>v. getByRoute uni r (ToLower uni (case m ''Host'' of None \<Rightarrow> [] | Some h \<Rightarrow> h))
        (ToLower uni (case m ''Path'' of None \<Rightarrow> [] | Some p \<Rightarrow> p))
        (case m ''HTTPUser'' of None \<Rightarrow> [] | Some u \<Rightarrow> u) = Some v \<and>
      registered r v \<and> payload v = l \<and>
      (\<forall>check. auth = Some check \<and> l_username l \<noteq> [] \<longrightarrow> check (l_username l) (l_password l))"
proof -
  let ?get = "getByRoute uni r (ToLower uni (case m ''Host'' of None \<Rightarrow> [] | Some h \<Rightarrow> h))
      (ToLower uni (case m ''Path'' of None \<Rightarrow> [] | Some p \<Rightarrow> p)) (case m ''HTTPUser'' of None \<Rightarrow> [] | Some u \<Rightarrow> u)"
  obtain v where v: "?get = Some v" "payload v = l"
    "\<forall>check. auth = Some check \<and> l_username l \<noteq> [] \<longrightarrow> check (l_username l) (l_password l)"
    using assms(2) by (auto simp: Muxer_handle_def getListener_def Let_def split: if_splits option.splits)
  then obtain h where "getExactOrAllUsersLocked r h (ToLower uni (case m ''Path'' of None \<Rightarrow> [] | Some p \<Rightarrow> p))
      (case m ''HTTPUser'' of None \<Rightarrow> [] | Some u \<Rightarrow> u) = Some v"
    using first_some_SomeD [OF v(1) [unfolded getByRoute_eq]] by blast
  then have "registered r v"
    using getLocked_Some(1) [OF assms(1)]
    by (fastforce simp: getExactOrAllUsersLocked_def route_matches_def split: option.splits)
  with v show ?thesis by blast
qed

definition demo_listener :: Listener where
  "demo_listener = \<lparr>l_name = ''ssh.example.com'', l_location = [], l_routeByHTTPUser = [], l_rewriteHost = [],
     l_username = ''bob'', l_password = ''pw''\<rparr>"

theorem muxer_delivery_witness:
  "\<exists>r. Muxer_Listen (\<lambda>s. s) NewRouters demo_listener = Some r \<and>
     (\<exists>v. getByRoute (\<lambda>s. s) r ''ssh.example.com'' [] [] = Some v \<and> payload v = demo_listener)"
proof -
  obtain r where r: "Muxer_Listen (\<lambda>s. s) NewRouters demo_listener = Some r"
    by (simp add: Muxer_Listen_def Add_def exist_def routers_of_def NewRouters_def Let_def)
  then have "routers_wf r" using NewRouters_wf unfolding Muxer_Listen_def by (rule Add_wf)
  moreover have "Muxer_handle (\<lambda>s. s) (the (Muxer_Listen (\<lambda>s. s) NewRouters demo_listener)) True
      (Some [''Host'' \<mapsto> ''SSH.example.com'']) None (Some (\<lambda>u p. u = ''bob'' \<and> p = ''pw'')) True = MuxDeliver demo_listener"
    by code_simp
  ultimately have "\<exists>v. getByRoute (\<lambda>s. s) r (ToLower (\<lambda>s. s) ''SSH.example.com'') (ToLower (\<lambda>s. s) []) [] = Some v \<and>
      registered r v \<and> payload v = demo_listener \<and>
      (\<forall>check. Some (\<lambda>u p. u = ''bob'' \<and> p = ''pw'') = Some check \<and> l_username demo_listener \<noteq> [] \<longrightarrow>
        check (l_username demo_listener) (l_password demo_listener))"
    using r muxer_delivery [of r "\<lambda>s. s" True "[''Host'' \<mapsto> ''SSH.example.com'']" None
        "Some (\<lambda>u p. u = ''bob'' \<and> p = ''pw'')" True demo_listener]
    by simp
  moreover have "ToLower (\<lambda>s. s) ''SSH.example.com'' = ''ssh.example.com''" "ToLower (\<lambda>s. s) [] = []" by code_simp+
  ultimately show ?thesis using r by auto
qed


definition demo_route :: "string RouteConfig" where
  "demo_route = \<lparr>Domain = ''app.example.com'', Location = ''/'', RewriteHost = [], Username = ''bob'', Password = ''pw'',
     RouteByHTTPUser = [], CreateConnFn = Some (\<lambda>a. a), ChooseEndpointFn = None, CreateConnByEndpointFn = None\<rparr>"

definition demo_table :: "string RouteConfig Routers" where
  "demo_table = the (HTTP_Register (\<lambda>s. s) NewRouters demo_route)"

definition demo_req :: http_request where
  "demo_req = \<lparr>Method = ''GET'', URL_Host = [], URL_Path = ''/admin'', Host = ''app.example.com'', ReqRemoteAddr = ''1.2.3.4'',
     ProxyAuthorization = [], Authorization = ''Basic bob:no''\<rparr>"


lemma dot_split_right:
  assumes "a @ ''.'' @ b = a' @ ''.'' @ b'" and "CHR ''.'' \<notin> set b" and "CHR ''.'' \<notin> set b'"
  shows "a = a' \<and> b = b'"
  using assms by (auto simp: append_eq_append_conv2 Cons_eq_append_conv append_eq_Cons_conv)

text \<open>
  The name that decides which idle connections a forwarded request may reuse identifies the
  route: two routed requests share it only if their routes have the same domain, location and
  user and the same endpoint was chosen. The hypotheses on \<open>enc\<close> are that base64 is injective
  and does not produce a dot.
\<close>

lemma pool_name_identifies_route:
  assumes "\<And>s t. enc s = enc t \<Longrightarrow> s = t" and "\<And>s. CHR ''.'' \<notin> set (enc s)"
    and "rewrite_url_host enc (Some c) req = rewrite_url_host enc (Some c') req'"
  shows "Domain c = Domain c' \<and> Location c = Location c' \<and> RouteByHTTPUser c = RouteByHTTPUser c' \<and>
    rewrite_endpoint (Some c) = rewrite_endpoint (Some c')"
proof -
  let ?e = "enc (rewrite_endpoint (Some c))" and ?e' = "enc (rewrite_endpoint (Some c'))"
  have "((Domain c @ ''.'' @ enc (Location c)) @ ''.'' @ enc (RouteByHTTPUser c)) @ ''.'' @ ?e =
      ((Domain c' @ ''.'' @ enc (Location c')) @ ''.'' @ enc (RouteByHTTPUser c')) @ ''.'' @ ?e'"
    using assms(3) by (simp add: rewrite_url_host_def)
  from dot_split_right [OF this assms(2) assms(2)]
  have 1: "(Domain c @ ''.'' @ enc (Location c)) @ ''.'' @ enc (RouteByHTTPUser c) =
      (Domain c' @ ''.'' @ enc (Location c')) @ ''.'' @ enc (RouteByHTTPUser c')" "?e = ?e'" by auto
  from dot_split_right [OF 1(1) assms(2) assms(2)]
  have 2: "Domain c @ ''.'' @ enc (Location c) = Domain c' @ ''.'' @ enc (Location c')"
    "enc (RouteByHTTPUser c) = enc (RouteByHTTPUser c')" by auto
  from dot_split_right [OF 2(1) assms(2) assms(2)] 1(2) 2(2) show ?thesis
    using assms(1) by blast
qed

text \<open>An injective encoding without dots, for the witness.\<close>

definition demo_enc :: "string \<Rightarrow> string" where
  "demo_enc s = concat (map (\<lambda>c. replicate (of_char c) CHR ''a'' @ ''b'') s)"

lemma demo_enc_props: "demo_enc s = demo_enc t \<Longrightarrow> s = t" "CHR ''.'' \<notin> set (demo_enc s)"
proof -
  have r: "replicate m CHR ''a'' @ CHR ''b'' # xs = replicate n CHR ''a'' @ CHR ''b'' # ys \<Longrightarrow> m = n \<and> xs = ys" for m n xs ys
  proof (induction m arbitrary: n)
    case 0
    then show ?case by (cases n) auto
  next
    case (Suc m)
    then show ?case by (cases n) auto
  qed
  show "CHR ''.'' \<notin> set (demo_enc s)" by (auto simp: demo_enc_def)
  show "demo_enc s = demo_enc t \<Longrightarrow> s = t"
  proof (induction s arbitrary: t)
    case Nil
    then show ?case by (cases t) (auto simp: demo_enc_def)
  next
    case (Cons x s)
    then obtain y u where t: "t = y # u" by (cases t) (auto simp: demo_enc_def)
    with Cons.prems have "replicate (of_char x) CHR ''a'' @ CHR ''b'' # demo_enc s =
        replicate (of_char y) CHR ''a'' @ CHR ''b'' # demo_enc u" by (simp add: demo_enc_def)
    from r [OF this] have "(of_char x :: nat) = of_char y" "demo_enc s = demo_enc u" by auto
    with Cons.IH t show ?case by simp
  qed
qed

theorem pool_name_identifies_route_witness:
  "Location demo_route = Location (demo_route\<lparr>RewriteHost := ''internal''\<rparr>)"
proof -
  have "rewrite_url_host demo_enc (Some demo_route) demo_req =
      rewrite_url_host demo_enc (Some (demo_route\<lparr>RewriteHost := ''internal''\<rparr>)) demo_req"
    by (simp add: rewrite_url_host_def rewrite_endpoint_def)
  from pool_name_identifies_route [OF demo_enc_props this] show ?thesis by blast
qed

text \<open>
  A request that matches no route is forwarded under its own \<open>Host\<close> header, which the client
  chooses, and without any check of credentials. With the header below it carries the reuse
  name of the protected route above (base64 of \<open>/\<close> is \<open>Lw==\<close>), so an idle connection of that
  route can serve it.
\<close>

lemma unrouted_request_forges_pool_name:
  "let enc = (\<lambda>s. if s = ''/'' then ''Lw=='' else s);
       req = demo_req\<lparr>Host := ''app.example.com.Lw==..'', Authorization := []\<rparr>
   in (case ServeHTTP (\<lambda>s. s) enc Some demo_table req of
         Forward name _ \<Rightarrow> name = rewrite_url_host enc (Some demo_route) demo_req
       | _ \<Rightarrow> False)"
  by code_simp

end
