(* ===== verification/LoadGroups.thy ===== *)
theory LoadGroups
  imports Ports Vhost
begin

text \<open>
  Load-balancing groups (\<open>server/group\<close>): several proxies share one port or one route. The
  listener-based groups (TCP, HTTPS, tcpmux) share \<open>baseGroup\<close> and \<open>groupRegistry\<close>; a group
  object lives in a heap, because a caller may hold on to a group that is no longer registered
  (the stale references that \<open>isCurrent\<close> detects). HTTP groups keep callbacks and choose among
  their members in turn. Each method runs under the group's mutex and is one step; a result
  \<open>None\<close> of \<open>closeListener\<close> is the panic of closing a closed channel. The copying of accepted
  connections by the worker goroutine is not modelled.
\<close>

section \<open>Shared plumbing\<close>

datatype group_err =
    ErrGroupAuthFailed
  | ErrGroupParamsInvalid
  | ErrListenerClosed
  | ErrGroupDifferentPort
  | ErrProxyRepeated
  | ErrGroupStale
  | ErrPort port_err
  | ErrListen
  | ErrRouterConflict
  | ErrUnknownMultiplexer string

record baseGroup =
  group :: string
  groupKey :: string
  lns :: "nat list"
  acceptOpen :: bool

text \<open>
  A controller: the registry of groups, the heap of group objects, the resource that the real
  listeners are taken from and the number of the next listener.
\<close>

record ('x, 'e) groupCtl =
  groups :: "string \<rightharpoonup> nat"
  heap :: "'x baseGroup_scheme list"
  res :: 'e
  fresh :: nat

definition getOrCreate :: "('x, 'e) groupCtl \<Rightarrow> string \<Rightarrow> 'x baseGroup_scheme \<Rightarrow> ('x, 'e) groupCtl \<times> nat" where
  "getOrCreate c key new =
     (case groups c key of
        Some a \<Rightarrow> (c, a)
      | None \<Rightarrow> (c\<lparr>groups := (groups c)(key \<mapsto> length (heap c)), heap := heap c @ [new]\<rparr>, length (heap c)))"

definition get :: "('x, 'e) groupCtl \<Rightarrow> string \<Rightarrow> nat option" where
  "get c key = groups c key"

definition isCurrent :: "('x, 'e) groupCtl \<Rightarrow> string \<Rightarrow> nat \<Rightarrow> bool" where
  "isCurrent c key a \<longleftrightarrow> groups c key = Some a"

definition removeIf :: "('x, 'e) groupCtl \<Rightarrow> string \<Rightarrow> nat \<Rightarrow> ('x, 'e) groupCtl" where
  "removeIf c key a = (if groups c key = Some a then c\<lparr>groups := (groups c)(key := None)\<rparr> else c)"

definition initBase :: "'x baseGroup_scheme \<Rightarrow> string \<Rightarrow> string \<Rightarrow> 'x baseGroup_scheme" where
  "initBase g grp key = g\<lparr>group := grp, groupKey := key, acceptOpen := True\<rparr>"

definition newListener :: "('x, 'e) groupCtl \<Rightarrow> nat \<Rightarrow> ('x, 'e) groupCtl \<times> nat" where
  "newListener c a =
     (c\<lparr>heap := (heap c)[a := (heap c ! a)\<lparr>lns := lns (heap c ! a) @ [fresh c]\<rparr>], fresh := fresh c + 1\<rparr>, fresh c)"

text \<open>
  \<open>cleanup g c\<close> is what closing the real listener of the group \<open>g\<close> and its \<open>cleanupFn\<close> do to the
  controller.
\<close>

definition closeListener ::
    "('x baseGroup_scheme \<Rightarrow> nat \<Rightarrow> ('x, 'e) groupCtl \<Rightarrow> ('x, 'e) groupCtl) \<Rightarrow> ('x, 'e) groupCtl \<Rightarrow> nat \<Rightarrow> nat \<Rightarrow>
     ('x, 'e) groupCtl option" where
  "closeListener cleanup c a ln =
     (let g = heap c ! a; ls = remove1 ln (lns g) in
      if ls = []
      then if \<not> acceptOpen g then None
           else Some (cleanup g a (c\<lparr>heap := (heap c)[a := g\<lparr>lns := ls, acceptOpen := False\<rparr>]\<rparr>))
      else Some (c\<lparr>heap := (heap c)[a := g\<lparr>lns := ls\<rparr>]\<rparr>))"

section \<open>TCP groups\<close>

record TCPGroup = baseGroup +
  addr :: string
  port :: int
  realPort :: int

type_synonym TCPGroupCtl =
  "(\<lparr>addr :: string, port :: int, realPort :: int\<rparr>, Manager) groupCtl"

definition NewTCPGroup :: TCPGroup where
  "NewTCPGroup = \<lparr>group = [], groupKey = [], lns = [], acceptOpen = False, addr = [], port = 0, realPort = 0\<rparr>"

text \<open>
  The environment of one call: what the port manager's probes and iteration see, whether
  \<open>net.Listen\<close> succeeds on the port that was acquired, and the clock.
\<close>

record tcp_env =
  probe :: "nat \<Rightarrow> int \<Rightarrow> bool"
  iter :: "int list"
  listen_ok :: bool
  clock :: int

record tcp_args =
  ta_proxyName :: string
  ta_group :: string
  ta_groupKey :: string
  ta_addr :: string
  ta_port :: int

definition TCPGroup_Listen ::
    "TCPGroupCtl \<Rightarrow> nat \<Rightarrow> tcp_env \<Rightarrow> tcp_args \<Rightarrow> TCPGroupCtl \<times> (group_err + nat \<times> int)" where
  "TCPGroup_Listen c a env x =
     (let tg = heap c ! a in
      if \<not> isCurrent c (ta_group x) a then (c, Inl ErrGroupStale)
      else if lns tg = []
      then (case Acquire (probe env) (iter env) (clock env) (res c) (ta_proxyName x) (ta_port x) of
              (pm, Inl e) \<Rightarrow> (c\<lparr>res := pm\<rparr>, Inl (ErrPort e))
            | (pm, Inr rp) \<Rightarrow>
                if \<not> listen_ok env then (c\<lparr>res := Release pm rp (clock env)\<rparr>, Inl ErrListen)
                else
                  let tg' = initBase (tg\<lparr>addr := ta_addr x, port := ta_port x, realPort := rp\<rparr>)
                              (ta_group x) (ta_groupKey x)
                  in (case newListener (c\<lparr>res := pm, heap := (heap c)[a := tg']\<rparr>) a of
                        (c', ln) \<Rightarrow> (c', Inr (ln, rp))))
      else if group tg \<noteq> ta_group x \<or> addr tg \<noteq> ta_addr x then (c, Inl ErrGroupParamsInvalid)
      else if port tg \<noteq> ta_port x then (c, Inl ErrGroupDifferentPort)
      else if groupKey tg \<noteq> ta_groupKey x then (c, Inl ErrGroupAuthFailed)
      else (case newListener c a of (c', ln) \<Rightarrow> (c', Inr (ln, realPort tg))))"

text \<open>
  One round of the loop in \<open>TCPGroupCtl.Listen\<close>; the loop repeats it while the result is
  \<open>ErrGroupStale\<close>.
\<close>

definition TCPGroupCtl_Listen ::
    "TCPGroupCtl \<Rightarrow> tcp_env \<Rightarrow> tcp_args \<Rightarrow> TCPGroupCtl \<times> (group_err + nat \<times> int)" where
  "TCPGroupCtl_Listen c env x =
     (case getOrCreate c (ta_group x) NewTCPGroup of (c', a) \<Rightarrow> TCPGroup_Listen c' a env x)"

definition tcp_cleanup :: "int \<Rightarrow> TCPGroup \<Rightarrow> nat \<Rightarrow> TCPGroupCtl \<Rightarrow> TCPGroupCtl" where
  "tcp_cleanup now g a c = removeIf (c\<lparr>res := Release (res c) (realPort g) now\<rparr>) (group g) a"

definition TCPGroup_close :: "TCPGroupCtl \<Rightarrow> nat \<Rightarrow> nat \<Rightarrow> int \<Rightarrow> TCPGroupCtl option" where
  "TCPGroup_close c a ln now = closeListener (tcp_cleanup now) c a ln"

section \<open>HTTPS and tcpmux groups\<close>

record HTTPSGroup = baseGroup +
  hs_route :: Listener

type_synonym HTTPSGroupCtl = "(\<lparr>hs_route :: Listener\<rparr>, Listener Routers) groupCtl"

definition NewHTTPSGroup :: HTTPSGroup where
  "NewHTTPSGroup =
     \<lparr>group = [], groupKey = [], lns = [], acceptOpen = False,
      hs_route = \<lparr>l_name = [], l_location = [], l_routeByHTTPUser = [], l_rewriteHost = [],
                  l_username = [], l_password = []\<rparr>\<rparr>"

text \<open>
  \<open>hs_route\<close> is the vhost listener of the current cycle, whose domain is the group's \<open>domain\<close>.
\<close>

definition HTTPSGroup_Listen ::
    "(string \<Rightarrow> string) \<Rightarrow> HTTPSGroupCtl \<Rightarrow> nat \<Rightarrow> string \<Rightarrow> string \<Rightarrow> Listener \<Rightarrow> HTTPSGroupCtl \<times> (group_err + nat)" where
  "HTTPSGroup_Listen uni c a grp key l =
     (let g = heap c ! a in
      if \<not> isCurrent c grp a then (c, Inl ErrGroupStale)
      else if lns g = []
      then (case Muxer_Listen uni (res c) l of
              None \<Rightarrow> (c, Inl ErrRouterConflict)
            | Some r \<Rightarrow>
                map_prod id Inr
                  (newListener (c\<lparr>res := r, heap := (heap c)[a := initBase (g\<lparr>hs_route := l\<rparr>) grp key]\<rparr>) a))
      else if group g \<noteq> grp \<or> l_name (hs_route g) \<noteq> l_name l then (c, Inl ErrGroupParamsInvalid)
      else if groupKey g \<noteq> key then (c, Inl ErrGroupAuthFailed)
      else map_prod id Inr (newListener c a))"

definition HTTPSGroupController_Listen ::
    "(string \<Rightarrow> string) \<Rightarrow> HTTPSGroupCtl \<Rightarrow> string \<Rightarrow> string \<Rightarrow> Listener \<Rightarrow> HTTPSGroupCtl \<times> (group_err + nat)" where
  "HTTPSGroupController_Listen uni c grp key l =
     (case getOrCreate c grp NewHTTPSGroup of (c', a) \<Rightarrow> HTTPSGroup_Listen uni c' a grp key l)"

definition vhost_cleanup :: "(string \<Rightarrow> string) \<Rightarrow> HTTPSGroup \<Rightarrow> nat \<Rightarrow> HTTPSGroupCtl \<Rightarrow> HTTPSGroupCtl" where
  "vhost_cleanup uni g a c = removeIf (c\<lparr>res := Listener_Close uni (res c) (hs_route g)\<rparr>) (group g) a"

definition HTTPSGroup_close :: "(string \<Rightarrow> string) \<Rightarrow> HTTPSGroupCtl \<Rightarrow> nat \<Rightarrow> nat \<Rightarrow> HTTPSGroupCtl option" where
  "HTTPSGroup_close uni c a ln = closeListener (vhost_cleanup uni) c a ln"

text \<open>A tcpmux group compares the whole route configuration, credentials included.\<close>

definition HTTPConnectListen ::
    "(string \<Rightarrow> string) \<Rightarrow> HTTPSGroupCtl \<Rightarrow> nat \<Rightarrow> string \<Rightarrow> string \<Rightarrow> Listener \<Rightarrow> HTTPSGroupCtl \<times> (group_err + nat)" where
  "HTTPConnectListen uni c a grp key l =
     (let g = heap c ! a in
      if \<not> isCurrent c grp a then (c, Inl ErrGroupStale)
      else if lns g = []
      then (case Muxer_Listen uni (res c) l of
              None \<Rightarrow> (c, Inl ErrRouterConflict)
            | Some r \<Rightarrow>
                map_prod id Inr
                  (newListener (c\<lparr>res := r, heap := (heap c)[a := initBase (g\<lparr>hs_route := l\<rparr>) grp key]\<rparr>) a))
      else if group g \<noteq> grp \<or> l_name (hs_route g) \<noteq> l_name l \<or>
              l_routeByHTTPUser (hs_route g) \<noteq> l_routeByHTTPUser l \<or>
              l_username (hs_route g) \<noteq> l_username l \<or> l_password (hs_route g) \<noteq> l_password l
      then (c, Inl ErrGroupParamsInvalid)
      else if groupKey g \<noteq> key then (c, Inl ErrGroupAuthFailed)
      else map_prod id Inr (newListener c a))"

definition TCPMuxGroupCtl_Listen ::
    "(string \<Rightarrow> string) \<Rightarrow> HTTPSGroupCtl \<Rightarrow> string \<Rightarrow> string \<Rightarrow> string \<Rightarrow> Listener \<Rightarrow> HTTPSGroupCtl \<times> (group_err + nat)" where
  "TCPMuxGroupCtl_Listen uni c multiplexer grp key l =
     (case getOrCreate c grp NewHTTPSGroup of
        (c', a) \<Rightarrow>
          if multiplexer = ''httpconnect'' then HTTPConnectListen uni c' a grp key l
          else (c', Inl (ErrUnknownMultiplexer multiplexer)))"

section \<open>The contract of a listener-based group\<close>

text \<open>
  Registered groups exist and are registered once; a group has members exactly while its accept
  channel is open, and then it is registered under its own name; a listener belongs to one
  group.
\<close>

definition base_inv :: "('x, 'e) groupCtl \<Rightarrow> bool" where
  "base_inv c \<longleftrightarrow>
     (\<forall>k a. groups c k = Some a \<longrightarrow> a < length (heap c)) \<and>
     (\<forall>k k' a. groups c k = Some a \<and> groups c k' = Some a \<longrightarrow> k = k') \<and>
     (\<forall>a < length (heap c).
        acceptOpen (heap c ! a) = (lns (heap c ! a) \<noteq> []) \<and>
        (lns (heap c ! a) \<noteq> [] \<longrightarrow> groups c (group (heap c ! a)) = Some a) \<and>
        distinct (lns (heap c ! a)) \<and> (\<forall>l \<in> set (lns (heap c ! a)). l < fresh c)) \<and>
     (\<forall>a < length (heap c). \<forall>b < length (heap c). a \<noteq> b \<longrightarrow>
        set (lns (heap c ! a)) \<inter> set (lns (heap c ! b)) = {})"

datatype 'a group_op = OpGet string | OpListen nat 'a | OpClose nat nat

text \<open>
  The calls of concurrent proxies, in any order. A caller may present any group object, also one
  that was removed from the registry; it closes listeners that it was given and not yet closed.
  The second part of the state records the group key each listener was admitted with.
\<close>

definition group_step ::
    "(('x, 'e) groupCtl \<Rightarrow> nat \<Rightarrow> 'a \<Rightarrow> ('x, 'e) groupCtl \<times> (group_err + nat)) \<Rightarrow>
     ('x baseGroup_scheme \<Rightarrow> nat \<Rightarrow> ('x, 'e) groupCtl \<Rightarrow> ('x, 'e) groupCtl) \<Rightarrow> 'x baseGroup_scheme \<Rightarrow>
     ('a \<Rightarrow> string) \<Rightarrow> ('x, 'e) groupCtl \<times> (nat \<rightharpoonup> string) \<Rightarrow> 'a group_op \<Rightarrow>
     ('x, 'e) groupCtl \<times> (nat \<rightharpoonup> string)" where
  "group_step listen cleanup new key s p =
     (case p of
        OpGet k \<Rightarrow> (fst (getOrCreate (fst s) k new), snd s)
      | OpListen a x \<Rightarrow>
          (case listen (fst s) a x of
             (c', Inl e) \<Rightarrow> (c', snd s)
           | (c', Inr ln) \<Rightarrow> (c', (snd s)(ln \<mapsto> key x)))
      | OpClose a ln \<Rightarrow>
          (case closeListener cleanup (fst s) a ln of None \<Rightarrow> s | Some c' \<Rightarrow> (c', snd s)))"

definition group_ok :: "('x, 'e) groupCtl \<times> (nat \<rightharpoonup> string) \<Rightarrow> 'a group_op \<Rightarrow> bool" where
  "group_ok s p =
     (case p of
        OpGet k \<Rightarrow> True
      | OpListen a x \<Rightarrow> a < length (heap (fst s))
      | OpClose a ln \<Rightarrow> a < length (heap (fst s)) \<and> ln \<in> set (lns (heap (fst s) ! a)))"

definition group_inv :: "('x, 'e) groupCtl \<times> (nat \<rightharpoonup> string) \<Rightarrow> bool" where
  "group_inv s \<longleftrightarrow>
     base_inv (fst s) \<and>
     (\<forall>a < length (heap (fst s)). \<forall>l \<in> set (lns (heap (fst s) ! a)).
        snd s l = Some (groupKey (heap (fst s) ! a)))"

locale listener_group =
  fixes listen :: "('x, 'e) groupCtl \<Rightarrow> nat \<Rightarrow> 'a \<Rightarrow> ('x, 'e) groupCtl \<times> (group_err + nat)"
    and cleanup :: "'x baseGroup_scheme \<Rightarrow> nat \<Rightarrow> ('x, 'e) groupCtl \<Rightarrow> ('x, 'e) groupCtl"
    and new :: "'x baseGroup_scheme"
    and name :: "'a \<Rightarrow> string"
    and key :: "'a \<Rightarrow> string"
    and compat :: "'x baseGroup_scheme \<Rightarrow> 'a \<Rightarrow> bool"
  assumes stale: "groups c (name x) \<noteq> Some a \<Longrightarrow> listen c a x = (c, Inl ErrGroupStale)"
    and fail: "listen c a x = (c', Inl e) \<Longrightarrow> groups c' = groups c \<and> heap c' = heap c \<and> fresh c' = fresh c"
    and first: "groups c (name x) = Some a \<Longrightarrow> a < length (heap c) \<Longrightarrow> lns (heap c ! a) = [] \<Longrightarrow>
      listen c a x = (c', Inr ln) \<Longrightarrow>
      ln = fresh c \<and> fresh c' = Suc (fresh c) \<and> groups c' = groups c \<and>
      (\<exists>g. heap c' = (heap c)[a := g] \<and> group g = name x \<and> groupKey g = key x \<and> lns g = [ln] \<and>
           acceptOpen g \<and> compat g x)"
    and join: "groups c (name x) = Some a \<Longrightarrow> a < length (heap c) \<Longrightarrow> lns (heap c ! a) \<noteq> [] \<Longrightarrow>
      listen c a x = (c', Inr ln) \<Longrightarrow>
      groupKey (heap c ! a) = key x \<and> compat (heap c ! a) x \<and> ln = fresh c \<and>
      c' = c\<lparr>heap := (heap c)[a := (heap c ! a)\<lparr>lns := lns (heap c ! a) @ [ln]\<rparr>], fresh := Suc (fresh c)\<rparr>"
    and cleanup: "heap (cleanup g a c) = heap c \<and> fresh (cleanup g a c) = fresh c \<and>
      groups (cleanup g a c) = (if groups c (group g) = Some a then (groups c)(group g := None) else groups c)"
    and new: "lns new = [] \<and> \<not> acceptOpen new"
begin

lemma getOrCreate_inv:
  assumes "base_inv c"
  shows "base_inv (fst (getOrCreate c k new))"
proof (cases "groups c k")
  case None
  have "a < length (heap c)" if "groups c k' = Some a" for k' a
    using assms that by (auto simp: base_inv_def)
  with assms None new show ?thesis
    by (auto simp: base_inv_def getOrCreate_def nth_append less_Suc_eq)
qed (use assms in \<open>simp add: getOrCreate_def\<close>)

lemma listen_Inr:
  assumes "base_inv c" and "a < length (heap c)" and "listen c a x = (c', Inr ln)"
  obtains g where "heap c' = (heap c)[a := g]" and "groups c' = groups c" and "fresh c' = Suc (fresh c)"
    and "lns g = lns (heap c ! a) @ [ln]" and "ln = fresh c" and "acceptOpen g" and "group g = name x"
    and "groupKey g = key x" and "lns (heap c ! a) \<noteq> [] \<Longrightarrow> groupKey (heap c ! a) = key x"
    and "groups c (name x) = Some a"
proof -
  have cur: "groups c (name x) = Some a" using stale [of c x a] assms(3) by auto
  show thesis
  proof (cases "lns (heap c ! a) = []")
    case True
    with first [OF cur assms(2) True assms(3)] that cur show ?thesis by auto
  next
    case False
    from join [OF cur assms(2) False assms(3)] assms(1,2) False cur that show ?thesis
      by (force simp: base_inv_def)
  qed
qed

lemma listen_Inr_inv:
  assumes "base_inv c" and "a < length (heap c)" and "listen c a x = (c', Inr ln)"
  shows "base_inv c'"
proof -
  obtain g where g: "heap c' = (heap c)[a := g]" "groups c' = groups c" "fresh c' = Suc (fresh c)"
    "lns g = lns (heap c ! a) @ [fresh c]" "acceptOpen g" "group g = name x" and cur: "groups c (name x) = Some a"
    by (rule listen_Inr [OF assms]) blast
  have fr: "fresh c \<notin> set (lns (heap c ! b))" if "b < length (heap c)" for b
    using assms(1) that by (auto simp: base_inv_def)
  have h: "heap c' ! b = (if b = a then g else heap c ! b)" if "b < length (heap c)" for b
    using g(1) that by simp
  show ?thesis
    unfolding base_inv_def
  proof (intro conjI allI impI)
    show "k = k'" if "groups c' k = Some b \<and> groups c' k' = Some b" for k k' b
      using assms(1) g(2) that by (auto simp: base_inv_def)
    show "b < length (heap c')" if "groups c' k = Some b" for k b
      using assms(1) g(1,2) that by (auto simp: base_inv_def)
    fix b
    assume "b < length (heap c')"
    then have b: "b < length (heap c)" using g(1) by simp
    show "acceptOpen (heap c' ! b) = (lns (heap c' ! b) \<noteq> [])"
      using h [OF b] assms(1) b g(4,5) by (auto simp: base_inv_def)
    show "groups c' (group (heap c' ! b)) = Some b" if "lns (heap c' ! b) \<noteq> []"
      using h [OF b] assms(1) b g(2,6) cur that by (auto simp: base_inv_def split: if_splits)
    show "distinct (lns (heap c' ! b))"
      using h [OF b] assms(1) b fr [OF b] g(4) by (auto simp: base_inv_def)
    show "\<forall>l \<in> set (lns (heap c' ! b)). l < fresh c'"
      using h [OF b] assms(1) b g(3,4) by (auto simp: base_inv_def less_Suc_eq)
    fix d
    assume "d < length (heap c')" "b \<noteq> d"
    then have d: "d < length (heap c)" using g(1) by simp
    show "set (lns (heap c' ! b)) \<inter> set (lns (heap c' ! d)) = {}"
      using h [OF b] h [OF d] assms(1) b d fr [OF b] fr [OF d] g(4) \<open>b \<noteq> d\<close>
      by (auto simp: base_inv_def split: if_splits)
  qed
qed

lemma close_Some:
  assumes "base_inv c" and "a < length (heap c)" and "ln \<in> set (lns (heap c ! a))"
  obtains c' where "closeListener cleanup c a ln = Some c'" and "base_inv c'"
    and "heap c' = (heap c)[a := heap c' ! a]"
    and "lns (heap c' ! a) = remove1 ln (lns (heap c ! a))"
    and "groupKey (heap c' ! a) = groupKey (heap c ! a)" and "group (heap c' ! a) = group (heap c ! a)"
proof -
  let ?g = "heap c ! a" and ?ls = "remove1 ln (lns (heap c ! a))"
  have op: "acceptOpen ?g" and gr: "groups c (group ?g) = Some a" and dl: "distinct (lns ?g)"
    using assms by (auto simp: base_inv_def)
  define g' where "g' = (if ?ls = [] then ?g\<lparr>lns := ?ls, acceptOpen := False\<rparr> else ?g\<lparr>lns := ?ls\<rparr>)"
  define c' where "c' = (let d = c\<lparr>heap := (heap c)[a := g']\<rparr> in if ?ls = [] then cleanup ?g a d else d)"
  have cl: "closeListener cleanup c a ln = Some c'"
    using op by (simp add: closeListener_def c'_def g'_def Let_def)
  have heap: "heap c' = (heap c)[a := g']" "fresh c' = fresh c"
    by (simp_all add: c'_def cleanup Let_def)
  have gs: "groups c' = (if ?ls = [] then (groups c)(group ?g := None) else groups c)"
    by (simp add: c'_def cleanup Let_def gr)
  have g': "lns g' = ?ls" "acceptOpen g' = (?ls \<noteq> [])" "group g' = group ?g" "groupKey g' = groupKey ?g"
    using op by (simp_all add: g'_def)
  have h: "heap c' ! b = (if b = a then g' else heap c ! b)" if "b < length (heap c)" for b
    using heap(1) that by simp
  have other: "group (heap c ! b) \<noteq> group ?g" if "b < length (heap c)" "lns (heap c ! b) \<noteq> []" "b \<noteq> a" for b
    using assms(1) that gr by (auto simp: base_inv_def)
  have inv: "base_inv c'"
    unfolding base_inv_def
  proof (intro conjI allI impI)
    show "b < length (heap c')" if "groups c' k = Some b" for k b
      using assms(1) heap gs that by (auto simp: base_inv_def split: if_splits)
    show "k = k'" if "groups c' k = Some b \<and> groups c' k' = Some b" for k k' b
      using assms(1) gs that by (auto simp: base_inv_def split: if_splits)
    fix b
    assume "b < length (heap c')"
    then have b: "b < length (heap c)" using heap by simp
    show "acceptOpen (heap c' ! b) = (lns (heap c' ! b) \<noteq> [])"
      using h [OF b] assms(1) b g' by (auto simp: base_inv_def)
    show "groups c' (group (heap c' ! b)) = Some b" if "lns (heap c' ! b) \<noteq> []"
      using h [OF b] assms(1) b g' gs gr that other [OF b] by (auto simp: base_inv_def split: if_splits)
    show "distinct (lns (heap c' ! b))"
      using h [OF b] assms(1) b g'(1) dl by (auto simp: base_inv_def)
    show "\<forall>l \<in> set (lns (heap c' ! b)). l < fresh c'"
      using h [OF b] assms(1) b g'(1) heap(2) dl by (auto simp: base_inv_def)
    fix d
    assume "d < length (heap c')" "b \<noteq> d"
    then have d: "d < length (heap c)" using heap by simp
    have disj: "set (lns (heap c ! b)) \<inter> set (lns (heap c ! d)) = {}"
      using assms(1) b d \<open>b \<noteq> d\<close> by (auto simp: base_inv_def)
    have sub: "set (lns (heap c' ! e)) \<subseteq> set (lns (heap c ! e))" if "e < length (heap c)" for e
      unfolding h [OF that] using g'(1) by (simp add: set_remove1_subset)
    show "set (lns (heap c' ! b)) \<inter> set (lns (heap c' ! d)) = {}"
      using disj sub [OF b] sub [OF d] by blast
  qed
  show thesis
    by (rule that [OF cl inv]) (use h [OF assms(2)] heap g' in simp_all)
qed

lemma step_group_inv:
  assumes "group_inv s" and "group_ok s p"
  shows "group_inv (group_step listen cleanup new key s p)"
proof (cases p)
  case (OpGet k)
  have inv: "base_inv (fst s)" using assms(1) by (simp add: group_inv_def)
  have "heap (fst (getOrCreate (fst s) k new)) = heap (fst s) \<or>
        heap (fst (getOrCreate (fst s) k new)) = heap (fst s) @ [new]"
    by (simp add: getOrCreate_def split: option.splits)
  with OpGet assms(1) getOrCreate_inv [OF inv, of k] new show ?thesis
    by (auto simp: group_inv_def group_step_def nth_append less_Suc_eq)
next
  case (OpListen a x)
  have a: "a < length (heap (fst s))" using assms(2) OpListen by (simp add: group_ok_def)
  have inv: "base_inv (fst s)" using assms(1) by (simp add: group_inv_def)
  obtain c' r where r: "listen (fst s) a x = (c', r)" by fastforce
  show ?thesis
  proof (cases r)
    case (Inl e)
    with r fail [of "fst s" a x c' e] assms(1) OpListen show ?thesis
      by (auto simp: group_inv_def group_step_def base_inv_def)
  next
    case (Inr ln)
    obtain g where g: "heap c' = (heap (fst s))[a := g]" "lns g = lns (heap (fst s) ! a) @ [ln]"
      "ln = fresh (fst s)" "groupKey g = key x"
      "lns (heap (fst s) ! a) \<noteq> [] \<Longrightarrow> groupKey (heap (fst s) ! a) = key x"
      by (rule listen_Inr [OF inv a]) (use r Inr in auto)
    have "base_inv c'" by (rule listen_Inr_inv [OF inv a]) (use r Inr in simp)
    moreover have "((snd s)(ln \<mapsto> key x)) l = Some (groupKey (heap c' ! b))"
      if b: "b < length (heap c')" and l: "l \<in> set (lns (heap c' ! b))" for b l
    proof (cases "l = ln")
      case True
      have "ln \<notin> set (lns (heap (fst s) ! b))" using inv b g(1,3) by (auto simp: base_inv_def)
      with True b l g(1-4) show ?thesis by (cases "b = a") auto
    next
      case False
      have "snd s l = Some (groupKey (heap (fst s) ! b))" if "l \<in> set (lns (heap (fst s) ! b))"
        using assms(1) b g(1) that by (auto simp: group_inv_def)
      moreover have "lns (heap (fst s) ! b) \<noteq> []" if "l \<in> set (lns (heap (fst s) ! b))" using that by auto
      ultimately show ?thesis using False b l g by (cases "b = a") auto
    qed
    ultimately show ?thesis using OpListen r Inr by (auto simp: group_inv_def group_step_def)
  qed
next
  case (OpClose a ln)
  have inv: "base_inv (fst s)" using assms(1) by (simp add: group_inv_def)
  have a: "a < length (heap (fst s))" "ln \<in> set (lns (heap (fst s) ! a))"
    using assms(2) OpClose by (simp_all add: group_ok_def)
  obtain c' where c': "closeListener cleanup (fst s) a ln = Some c'" "base_inv c'"
    "heap c' = (heap (fst s))[a := heap c' ! a]"
    "lns (heap c' ! a) = remove1 ln (lns (heap (fst s) ! a))"
    "groupKey (heap c' ! a) = groupKey (heap (fst s) ! a)"
    by (rule close_Some [OF inv a])
  have len: "length (heap c') = length (heap (fst s))" using arg_cong [OF c'(3), of length] by simp
  have "snd s l = Some (groupKey (heap c' ! b))" if "b < length (heap c')" "l \<in> set (lns (heap c' ! b))" for b l
  proof (cases "b = a")
    case True
    with that c'(4,5) len assms(1) show ?thesis
      by (auto simp: group_inv_def dest!: notin_set_remove1)
  next
    case False
    with c'(3) have "heap c' ! b = heap (fst s) ! b" by (metis nth_list_update_neq)
    with that len assms(1) show ?thesis by (auto simp: group_inv_def)
  qed
  with OpClose c'(1,2) show ?thesis by (auto simp: group_inv_def group_step_def)
qed

end

sublocale listener_group \<subseteq> op_machine "group_step listen cleanup new key" group_ok group_inv
  by unfold_locales (rule step_group_inv)

text \<open>The three kinds of listener-based groups keep the contract.\<close>

definition tcp_listen ::
    "TCPGroupCtl \<Rightarrow> nat \<Rightarrow> tcp_env \<times> tcp_args \<Rightarrow> TCPGroupCtl \<times> (group_err + nat)" where
  "tcp_listen c a x = map_prod id (map_sum id fst) (TCPGroup_Listen c a (fst x) (snd x))"

record vhost_args =
  va_group :: string
  va_groupKey :: string
  va_route :: Listener

interpretation tcp_group: listener_group tcp_listen "tcp_cleanup now" NewTCPGroup
  "\<lambda>x. ta_group (snd x)" "\<lambda>x. ta_groupKey (snd x)"
  "\<lambda>g x. addr g = ta_addr (snd x) \<and> port g = ta_port (snd x)" for now
  by unfold_locales
    (auto simp: tcp_listen_def TCPGroup_Listen_def isCurrent_def newListener_def initBase_def
       tcp_cleanup_def removeIf_def NewTCPGroup_def Let_def split: if_splits prod.splits sum.splits)

interpretation https_group: listener_group
  "\<lambda>c a x. HTTPSGroup_Listen uni c a (va_group x) (va_groupKey x) (va_route x)" "vhost_cleanup uni"
  NewHTTPSGroup va_group va_groupKey "\<lambda>g x. l_name (hs_route g) = l_name (va_route x)" for uni
  by unfold_locales
    (auto simp: HTTPSGroup_Listen_def isCurrent_def newListener_def initBase_def
       vhost_cleanup_def removeIf_def NewHTTPSGroup_def Let_def split: if_splits prod.splits option.splits)

interpretation tcpmux_group: listener_group
  "\<lambda>c a x. HTTPConnectListen uni c a (va_group x) (va_groupKey x) (va_route x)" "vhost_cleanup uni"
  NewHTTPSGroup va_group va_groupKey
  "\<lambda>g x. l_name (hs_route g) = l_name (va_route x) \<and>
         l_routeByHTTPUser (hs_route g) = l_routeByHTTPUser (va_route x) \<and>
         l_username (hs_route g) = l_username (va_route x) \<and> l_password (hs_route g) = l_password (va_route x)" for uni
  by unfold_locales
    (auto simp: HTTPConnectListen_def isCurrent_def newListener_def initBase_def
       vhost_cleanup_def removeIf_def NewHTTPSGroup_def Let_def split: if_splits prod.splits option.splits)

section \<open>TCP groups and the port manager\<close>

text \<open>
  The port manager is shared with the proxies that are not in a group, whose operations are the
  second constructor. Probes are sound: the operating system refuses a port that is listened on.
\<close>

datatype tcp_op = GroupOp int "(tcp_env \<times> tcp_args) group_op" | PortOp port_op

definition tcp_step :: "TCPGroupCtl \<times> (nat \<rightharpoonup> string) \<Rightarrow> tcp_op \<Rightarrow> TCPGroupCtl \<times> (nat \<rightharpoonup> string)" where
  "tcp_step s p =
     (case p of
        GroupOp now q \<Rightarrow> group_step tcp_listen (tcp_cleanup now) NewTCPGroup (\<lambda>x. ta_groupKey (snd x)) s q
      | PortOp q \<Rightarrow> ((fst s)\<lparr>res := port_step (res (fst s)) q\<rparr>, snd s))"

definition tcp_active :: "TCPGroupCtl \<Rightarrow> nat set" where
  "tcp_active c = {a. a < length (heap c) \<and> lns (heap c ! a) \<noteq> []}"

definition tcp_ok :: "TCPGroupCtl \<times> (nat \<rightharpoonup> string) \<Rightarrow> tcp_op \<Rightarrow> bool" where
  "tcp_ok s p =
     (case p of
        GroupOp now q \<Rightarrow>
          group_ok s q \<and>
          (case q of
             OpListen a x \<Rightarrow>
               port_op_ok (res (fst s)) (OpAcquire (probe (fst x)) (iter (fst x)) (clock (fst x)) (ta_proxyName (snd x)) (ta_port (snd x))) \<and>
               probes_sound (res (fst s)) (OpAcquire (probe (fst x)) (iter (fst x)) (clock (fst x)) (ta_proxyName (snd x)) (ta_port (snd x)))
           | _ \<Rightarrow> True)
      | PortOp q \<Rightarrow>
          port_op_ok (res (fst s)) q \<and> probes_sound (res (fst s)) q \<and>
          (\<forall>a \<in> tcp_active (fst s). \<not> releases (realPort (heap (fst s) ! a)) q))"

definition tcp_ports :: "TCPGroupCtl \<Rightarrow> bool" where
  "tcp_ports c \<longleftrightarrow>
     (\<forall>a \<in> tcp_active c. usedPorts (res c) (realPort (heap c ! a)) \<noteq> None) \<and>
     inj_on (\<lambda>a. realPort (heap c ! a)) (tcp_active c)"

definition tcp_inv :: "int set \<Rightarrow> TCPGroupCtl \<times> (nat \<rightharpoonup> string) \<Rightarrow> bool" where
  "tcp_inv A s \<longleftrightarrow> group_inv s \<and> port_inv A (res (fst s)) \<and> tcp_ports (fst s)"

lemma Acquire_used:
  assumes "port_inv A pm" and "set order = freePorts pm" and "\<And>i q. avail i q \<Longrightarrow> usedPorts pm q = None"
    and "Acquire avail order now pm name p = (pm', r)"
  shows "port_inv A pm' \<and> (\<forall>q. usedPorts pm q \<noteq> None \<longrightarrow> usedPorts pm' q \<noteq> None) \<and>
    (\<forall>k. r = Inr k \<longrightarrow> usedPorts pm k = None \<and> usedPorts pm' k \<noteq> None)"
  using assms(1,2,4)
proof (cases rule: Acquire_cases)
  case fail
  with assms show ?thesis by simp
next
  case (reserved k)
  with assms(1,3) show ?thesis
    by (auto simp: acquire_port_inv) (auto simp: acquire_port_def markPortAcquiredLocked_def)
next
  case (free k)
  have "k \<in> A" using assms(1) free(1) by (auto simp: port_inv_def)
  with free assms(1,3) show ?thesis
    by (auto simp: acquire_port_inv split: if_splits) (auto simp: acquire_port_def markPortAcquiredLocked_def)
qed

lemma Release_used: "usedPorts (Release pm p now) q = (if q = p then None else usedPorts pm q)"
  by (simp add: Release_def split: option.splits)

lemma TCPGroup_Listen_ports:
  assumes "port_inv A (res c)" and "set (iter env) = freePorts (res c)"
    and "\<And>i q. probe env i q \<Longrightarrow> usedPorts (res c) q = None"
    and "a < length (heap c)" and "TCPGroup_Listen c a env x = (c', r)" and "tcp_ports c"
  shows "port_inv A (res c') \<and> tcp_ports c'"
proof (cases "isCurrent c (ta_group x) a \<and> lns (heap c ! a) = []")
  case False
  with assms(4,5) have h: "res c' = res c" "length (heap c') = length (heap c)"
    "realPort (heap c' ! b) = realPort (heap c ! b) \<and> (lns (heap c' ! b) = []) = (lns (heap c ! b) = [])" for b
    by (cases "b = a"; auto simp: TCPGroup_Listen_def newListener_def Let_def split: if_splits)+
  then have "tcp_active c' = tcp_active c" by (simp add: tcp_active_def)
  with h assms(1,6) show ?thesis by (simp add: tcp_ports_def)
next
  case True
  obtain pm q where q: "Acquire (probe env) (iter env) (clock env) (res c) (ta_proxyName x) (ta_port x) = (pm, q)"
    by fastforce
  have u: "port_inv A pm" "\<And>k. usedPorts (res c) k \<noteq> None \<Longrightarrow> usedPorts pm k \<noteq> None"
    "\<And>k. q = Inr k \<Longrightarrow> usedPorts (res c) k = None \<and> usedPorts pm k \<noteq> None"
    using Acquire_used [OF assms(1,2) _ q] assms(3) by blast+
  show ?thesis
  proof (cases q)
    case (Inl e)
    with True q assms(5,6) u(1,2) show ?thesis
      by (auto simp: TCPGroup_Listen_def tcp_ports_def tcp_active_def)
  next
    case (Inr rp)
    have fresh_port: "usedPorts (res c) rp = None" and "usedPorts pm rp \<noteq> None" using u(3) Inr by auto
    then have other: "realPort (heap c ! b) \<noteq> rp" if "b \<in> tcp_active c" for b
      using assms(6) that by (auto simp: tcp_ports_def)
    show ?thesis
    proof (cases "listen_ok env")
      case False
      with True q Inr assms(5,6) u(1,2) other show ?thesis
        by (auto simp: TCPGroup_Listen_def tcp_ports_def tcp_active_def Release_inv Release_used)
    next
      case ok: True
      with True q Inr assms(4,5) obtain g where g: "heap c' = (heap c)[a := g]" "realPort g = rp" "lns g \<noteq> []" "res c' = pm"
        by (auto simp: TCPGroup_Listen_def newListener_def initBase_def Let_def)
      have act: "tcp_active c' = insert a (tcp_active c)"
        using g assms(4) True by (auto simp: tcp_active_def nth_list_update split: if_splits)
      have h: "realPort (heap c' ! b) = (if b = a then rp else realPort (heap c ! b))" for b
        using g(1,2) assms(4) by simp
      have "a \<notin> tcp_active c" using True by (simp add: tcp_active_def)
      with assms(6) other u(1,2) g(4) \<open>usedPorts pm rp \<noteq> None\<close> show ?thesis
        by (auto simp: tcp_ports_def act h inj_on_def)
    qed
  qed
qed

lemma TCPGroup_close_ports:
  assumes "a < length (heap c)" and "closeListener (tcp_cleanup now) c a ln = Some c'"
    and "ln \<in> set (lns (heap c ! a))" and "port_inv A (res c)" and "tcp_ports c"
  shows "port_inv A (res c') \<and> tcp_ports c'"
proof -
  let ?ls = "remove1 ln (lns (heap c ! a))"
  have h: "realPort (heap c' ! b) = realPort (heap c ! b)" "length (heap c') = length (heap c)"
    "lns (heap c' ! b) = (if b = a then ?ls else lns (heap c ! b))" for b
    using assms(1,2)
    by (cases "b = a"; auto simp: closeListener_def tcp_cleanup_def removeIf_def Let_def split: if_splits)+
  have r: "res c' = (if ?ls = [] then Release (res c) (realPort (heap c ! a)) now else res c)"
    using assms(2) by (auto simp: closeListener_def tcp_cleanup_def removeIf_def Let_def split: if_splits)
  have a: "a \<in> tcp_active c" using assms(1,3) by (auto simp: tcp_active_def)
  have act: "tcp_active c' = (if ?ls = [] then tcp_active c - {a} else tcp_active c)"
    using a by (auto simp: tcp_active_def h)
  have "realPort (heap c ! b) \<noteq> realPort (heap c ! a)" if "b \<in> tcp_active c" "b \<noteq> a" for b
    using assms(5) a that by (auto simp: tcp_ports_def inj_on_def)
  with assms(4,5) show ?thesis
    by (auto simp: tcp_ports_def act h(1) r Release_inv Release_used intro: inj_on_diff)
qed

lemma tcp_step_inv:
  assumes "tcp_inv A s" and "tcp_ok s p"
  shows "tcp_inv A (tcp_step s p)"
proof (cases p)
  case (PortOp q)
  have "usedPorts (port_step (res (fst s)) q) (realPort (heap (fst s) ! a)) \<noteq> None" if "a \<in> tcp_active (fst s)" for a
    using step_keeps_used [of A "res (fst s)" q "realPort (heap (fst s) ! a)"] assms PortOp that
    by (auto simp: tcp_inv_def tcp_ok_def tcp_ports_def)
  with assms PortOp show ?thesis
    by (auto simp: tcp_inv_def tcp_ok_def tcp_step_def tcp_ports_def tcp_active_def group_inv_def base_inv_def port_step_inv)
next
  case (GroupOp now q)
  have g: "group_inv (tcp_step s p)"
    using tcp_group.step_inv [of s q now] assms GroupOp by (simp add: tcp_inv_def tcp_ok_def tcp_step_def)
  have inv: "base_inv (fst s)" "port_inv A (res (fst s))" "tcp_ports (fst s)"
    using assms(1) by (simp_all add: tcp_inv_def group_inv_def)
  have "port_inv A (res (fst (tcp_step s p))) \<and> tcp_ports (fst (tcp_step s p))"
  proof (cases q)
    case (OpGet k)
    have "tcp_active (fst (getOrCreate (fst s) k NewTCPGroup)) = tcp_active (fst s)"
      by (auto simp: tcp_active_def getOrCreate_def NewTCPGroup_def nth_append less_Suc_eq split: option.splits)
    moreover have "res (fst (getOrCreate (fst s) k NewTCPGroup)) = res (fst s)"
      and "realPort (heap (fst (getOrCreate (fst s) k NewTCPGroup)) ! b) = realPort (heap (fst s) ! b)"
      if "b \<in> tcp_active (fst s)" for b
      using that by (auto simp: tcp_active_def getOrCreate_def nth_append split: option.splits)
    moreover have "res (fst (getOrCreate (fst s) k NewTCPGroup)) = res (fst s)"
      by (simp add: getOrCreate_def split: option.splits)
    ultimately show ?thesis
      using inv OpGet GroupOp by (simp add: tcp_step_def group_step_def tcp_ports_def inj_on_def)
  next
    case (OpListen a x)
    obtain c' r where r: "TCPGroup_Listen (fst s) a (fst x) (snd x) = (c', r)" by fastforce
    have "port_inv A (res c') \<and> tcp_ports c'"
      by (rule TCPGroup_Listen_ports [OF inv(2) _ _ _ r inv(3)])
        (use assms(2) GroupOp OpListen in \<open>auto simp: tcp_ok_def group_ok_def\<close>)
    then show ?thesis
      using GroupOp OpListen r by (cases r) (simp_all add: tcp_step_def group_step_def tcp_listen_def)
  next
    case (OpClose a ln)
    have a: "a < length (heap (fst s))" "ln \<in> set (lns (heap (fst s) ! a))"
      using assms(2) GroupOp OpClose by (auto simp: tcp_ok_def group_ok_def)
    obtain c' where c': "closeListener (tcp_cleanup now) (fst s) a ln = Some c'"
      by (rule tcp_group.close_Some [OF inv(1) a])
    from TCPGroup_close_ports [OF a(1) c' a(2) inv(2,3)] show ?thesis
      using GroupOp OpClose c' by (simp add: tcp_step_def group_step_def)
  qed
  with g show ?thesis by (simp add: tcp_inv_def)
qed

interpretation tcp_groups: op_machine tcp_step tcp_ok "tcp_inv A" for A
  by unfold_locales (rule tcp_step_inv)

definition NewTCPGroupCtl :: "Manager \<Rightarrow> TCPGroupCtl" where
  "NewTCPGroupCtl pm = \<lparr>groups = Map.empty, heap = [], res = pm, fresh = 0\<rparr>"

lemma NewTCPGroupCtl_inv: "port_inv A pm \<Longrightarrow> tcp_inv A (NewTCPGroupCtl pm, Map.empty)"
  by (simp add: tcp_inv_def group_inv_def base_inv_def NewTCPGroupCtl_def tcp_ports_def tcp_active_def)

section \<open>Properties\<close>

text \<open>
  Whatever the order in which proxies look up groups, listen (also on a group object that
  has meanwhile been removed), close, and acquire and release other ports: two listeners that
  share a TCP group were admitted with the same group key; a group with members is the one
  registered under its name; its port is recorded as used by the port manager, and no other group
  with members has the same port; closing any of its listeners does not panic, and when the
  last one is closed the port is free again and the group is gone from the registry.
\<close>

lemma tcp_groups_sound:
  assumes "ops_ok tcp_ok tcp_step (NewTCPGroupCtl (NewManager rs), Map.empty) ps"
    and "run_ops tcp_step (NewTCPGroupCtl (NewManager rs), Map.empty) ps = (c, admitted)"
    and "a < length (heap c)" and "l \<in> set (lns (heap c ! a))"
  shows "(\<forall>l' \<in> set (lns (heap c ! a)). admitted l' = admitted l) \<and>
    get c (group (heap c ! a)) = Some a \<and>
    usedPorts (res c) (realPort (heap c ! a)) \<noteq> None \<and>
    (\<forall>b < length (heap c). b \<noteq> a \<and> lns (heap c ! b) \<noteq> [] \<longrightarrow> realPort (heap c ! b) \<noteq> realPort (heap c ! a)) \<and>
    (\<exists>c'. TCPGroup_close c a l now = Some c' \<and>
       (lns (heap c ! a) = [l] \<longrightarrow>
          realPort (heap c ! a) \<in> freePorts (res c') \<and> get c' (group (heap c ! a)) = None))"
proof -
  have inv: "tcp_inv (allowed rs) (c, admitted)"
    using tcp_groups.run_inv [OF NewTCPGroupCtl_inv [OF NewManager_inv] assms(1)] assms(2) by simp
  then have b: "base_inv c" and g: "group_inv (c, admitted)" and p: "tcp_ports c"
    by (simp_all add: tcp_inv_def group_inv_def)
  have act: "a \<in> tcp_active c" using assms(3,4) by (auto simp: tcp_active_def)
  have cur: "groups c (group (heap c ! a)) = Some a" and op: "acceptOpen (heap c ! a)"
    using b assms(3,4) by (auto simp: base_inv_def)
  obtain u where u: "usedPorts (res c) (realPort (heap c ! a)) = Some u"
    using p act by (auto simp: tcp_ports_def)
  obtain c' where c': "TCPGroup_close c a l now = Some c'"
    using tcp_group.close_Some [OF b assms(3,4)] unfolding TCPGroup_close_def by metis
  have "realPort (heap c ! a) \<in> freePorts (res c') \<and> get c' (group (heap c ! a)) = None"
    if "lns (heap c ! a) = [l]"
    using c' that cur op u
    by (auto simp: TCPGroup_close_def closeListener_def tcp_cleanup_def removeIf_def get_def Release_def Let_def)
  moreover have "\<forall>l' \<in> set (lns (heap c ! a)). admitted l' = admitted l"
    using g assms(3,4) by (auto simp: group_inv_def)
  moreover have "\<forall>b < length (heap c). b \<noteq> a \<and> lns (heap c ! b) \<noteq> [] \<longrightarrow> realPort (heap c ! b) \<noteq> realPort (heap c ! a)"
    using p act by (auto simp: tcp_ports_def tcp_active_def inj_on_def)
  ultimately show ?thesis using cur u c' by (simp add: get_def)
qed

definition demo_tcp_ops :: "tcp_op list" where
  "demo_tcp_ops =
     [GroupOp 0 (OpGet ''g''),
      GroupOp 0 (OpListen 0 (\<lparr>probe = \<lambda>_ _. True, iter = [7, 8, 20], listen_ok = True, clock = 1\<rparr>,
        \<lparr>ta_proxyName = ''web1'', ta_group = ''g'', ta_groupKey = ''k'', ta_addr = [], ta_port = 8\<rparr>)),
      PortOp (OpAcquire (\<lambda>_ p. p \<noteq> 8) [7, 20] 2 ''db'' 7),
      GroupOp 0 (OpListen 0 (\<lparr>probe = \<lambda>_ p. p = 20, iter = [20], listen_ok = True, clock = 3\<rparr>,
        \<lparr>ta_proxyName = ''web2'', ta_group = ''g'', ta_groupKey = ''k'', ta_addr = [], ta_port = 8\<rparr>))]"

theorem tcp_groups_sound_witness:
  "let s = run_ops tcp_step (NewTCPGroupCtl (NewManager demo_ports), Map.empty) demo_tcp_ops in
   snd s 1 = snd s 0 \<and> snd s 0 = Some ''k'' \<and> usedPorts (res (fst s)) 8 \<noteq> None \<and>
   (\<exists>c'. TCPGroup_close (fst s) 0 0 9 = Some c')"
proof -
  let ?s = "run_ops tcp_step (NewTCPGroupCtl (NewManager demo_ports), Map.empty) demo_tcp_ops"
  note ev = demo_tcp_ops_def tcp_step_def group_step_def tcp_listen_def TCPGroup_Listen_def getOrCreate_def
    NewTCPGroupCtl_def isCurrent_def newListener_def initBase_def NewTCPGroup_def
    Acquire_def NewManager_def demo_ports_def range_ports_def acquire_port_def markPortAcquiredLocked_def
  have ok: "ops_ok tcp_ok tcp_step (NewTCPGroupCtl (NewManager demo_ports), Map.empty) demo_tcp_ops"
    by (auto simp: ev tcp_ok_def group_ok_def tcp_active_def)
  have v: "length (heap (fst ?s)) = 1" "lns (heap (fst ?s) ! 0) = [0, 1]" "realPort (heap (fst ?s) ! 0) = 8"
    "snd ?s 0 = Some ''k''"
    by (code_simp, code_simp, code_simp, code_simp)
  have "?s = (fst ?s, snd ?s)" by simp
  from tcp_groups_sound [OF ok this, of 0 0 9] v show ?thesis by (auto simp: Let_def)
qed

end
