(* ===== verification/HttpGroups.thy ===== *)
theory HttpGroups
  imports LoadGroups
begin

text \<open>
  HTTP groups (\<open>server/group/http.go\<close>): the members of a group share one route of the reverse
  proxy, and requests go to them in turn. The group objects live in a heap as in \<open>LoadGroups\<close>. The
  router's entry carries the route configuration and the group object whose methods are its
  callbacks. The Go map of callbacks is an association list with distinct keys.
\<close>

record 'c HTTPGroup =
  hg_group :: string
  hg_groupKey :: string
  hg_domain :: string
  hg_location :: string
  hg_routeByHTTPUser :: string
  createFuncs :: "(string \<times> (string \<Rightarrow> 'c) option) list"
  pxyNames :: "string list"
  index :: "64 word"

record 'c HTTPGroupController =
  hgroups :: "string \<rightharpoonup> nat"
  hheap :: "'c HTTPGroup list"
  vhostRouter :: "('c RouteConfig \<times> nat option) Routers"

definition NewHTTPGroup :: "'c HTTPGroup" where
  "NewHTTPGroup =
     \<lparr>hg_group = [], hg_groupKey = [], hg_domain = [], hg_location = [], hg_routeByHTTPUser = [],
      createFuncs = [], pxyNames = [], index = 0\<rparr>"

definition NewHTTPGroupController :: "('c RouteConfig \<times> nat option) Routers \<Rightarrow> 'c HTTPGroupController" where
  "NewHTTPGroupController r = \<lparr>hgroups = Map.empty, hheap = [], vhostRouter = r\<rparr>"

definition http_getOrCreate :: "'c HTTPGroupController \<Rightarrow> string \<Rightarrow> 'c HTTPGroupController \<times> nat" where
  "http_getOrCreate c key =
     (case hgroups c key of
        Some a \<Rightarrow> (c, a)
      | None \<Rightarrow> (c\<lparr>hgroups := (hgroups c)(key \<mapsto> length (hheap c)), hheap := hheap c @ [NewHTTPGroup]\<rparr>, length (hheap c)))"

definition add_member ::
    "'c HTTPGroupController \<Rightarrow> nat \<Rightarrow> string \<Rightarrow> (string \<Rightarrow> 'c) option \<Rightarrow> 'c HTTPGroupController \<times> group_err option" where
  "add_member c a proxyName fn =
     (let g = hheap c ! a in
      if map_of (createFuncs g) proxyName \<noteq> None then (c, Some ErrProxyRepeated)
      else (c\<lparr>hheap := (hheap c)[a := g\<lparr>createFuncs := createFuncs g @ [(proxyName, fn)],
                                          pxyNames := pxyNames g @ [proxyName]\<rparr>]\<rparr>, None))"

definition HTTPGroup_Register ::
    "(string \<Rightarrow> string) \<Rightarrow> 'c HTTPGroupController \<Rightarrow> nat \<Rightarrow> string \<Rightarrow> string \<Rightarrow> string \<Rightarrow> 'c RouteConfig \<Rightarrow>
     'c HTTPGroupController \<times> group_err option" where
  "HTTPGroup_Register uni c a proxyName grp key rc =
     (let g = hheap c ! a in
      if hgroups c grp \<noteq> Some a then (c, Some ErrGroupStale)
      else if createFuncs g = []
      then (case Add uni (vhostRouter c) (Domain rc) (Location rc) (RouteByHTTPUser rc) (rc, Some a) of
              None \<Rightarrow> (c, Some ErrRouterConflict)
            | Some r \<Rightarrow>
                add_member
                  (c\<lparr>vhostRouter := r,
                     hheap := (hheap c)[a := g\<lparr>hg_group := grp, hg_groupKey := key, hg_domain := Domain rc,
                                               hg_location := Location rc, hg_routeByHTTPUser := RouteByHTTPUser rc\<rparr>]\<rparr>)
                  a proxyName (CreateConnFn rc))
      else if hg_group g \<noteq> grp \<or> hg_domain g \<noteq> Domain rc \<or> hg_location g \<noteq> Location rc \<or>
              hg_routeByHTTPUser g \<noteq> RouteByHTTPUser rc
      then (c, Some ErrGroupParamsInvalid)
      else if hg_groupKey g \<noteq> key then (c, Some ErrGroupAuthFailed)
      else add_member c a proxyName (CreateConnFn rc))"

text \<open>One round of the loop of the controller's \<open>Register\<close>.\<close>

definition HTTPGroupController_Register ::
    "(string \<Rightarrow> string) \<Rightarrow> 'c HTTPGroupController \<Rightarrow> string \<Rightarrow> string \<Rightarrow> string \<Rightarrow> 'c RouteConfig \<Rightarrow>
     'c HTTPGroupController \<times> group_err option" where
  "HTTPGroupController_Register uni c proxyName grp key rc =
     (case http_getOrCreate c grp of (c', a) \<Rightarrow> HTTPGroup_Register uni c' a proxyName grp key rc)"

definition HTTPGroup_UnRegister ::
    "(string \<Rightarrow> string) \<Rightarrow> 'c HTTPGroupController \<Rightarrow> nat \<Rightarrow> string \<Rightarrow> 'c HTTPGroupController" where
  "HTTPGroup_UnRegister uni c a proxyName =
     (let g = hheap c ! a;
          g' = g\<lparr>createFuncs := filter (\<lambda>e. fst e \<noteq> proxyName) (createFuncs g),
                 pxyNames := remove1 proxyName (pxyNames g)\<rparr>;
          c' = c\<lparr>hheap := (hheap c)[a := g']\<rparr>
      in if createFuncs g' = []
         then c'\<lparr>vhostRouter := Del uni (vhostRouter c) (hg_domain g) (hg_location g) (hg_routeByHTTPUser g),
                 hgroups := if hgroups c (hg_group g) = Some a then (hgroups c)(hg_group g := None) else hgroups c\<rparr>
         else c')"

definition HTTPGroupController_UnRegister ::
    "(string \<Rightarrow> string) \<Rightarrow> 'c HTTPGroupController \<Rightarrow> string \<Rightarrow> string \<Rightarrow> 'c HTTPGroupController" where
  "HTTPGroupController_UnRegister uni c proxyName grp =
     (case hgroups c grp of None \<Rightarrow> c | Some a \<Rightarrow> HTTPGroup_UnRegister uni c a proxyName)"

text \<open>The callbacks; the counter is advanced before the group is locked.\<close>

definition choose_name :: "'c HTTPGroup \<Rightarrow> 'c HTTPGroup \<times> string option" where
  "choose_name g =
     (let i = index g + 1; g' = g\<lparr>index := i\<rparr>
      in (g', if pxyNames g = [] then None else Some (pxyNames g ! (unat i mod length (pxyNames g)))))"

definition lookup_fn :: "'c HTTPGroup \<Rightarrow> string \<Rightarrow> (string \<Rightarrow> 'c) option" where
  "lookup_fn g name = (case map_of (createFuncs g) name of None \<Rightarrow> None | Some f \<Rightarrow> f)"

definition createConn :: "'c HTTPGroup \<Rightarrow> string \<Rightarrow> 'c HTTPGroup \<times> 'c option" where
  "createConn g remoteAddr =
     (case choose_name g of
        (g', n) \<Rightarrow> (g', case Option.bind n (lookup_fn g') of None \<Rightarrow> None | Some f \<Rightarrow> Some (f remoteAddr)))"

definition chooseEndpoint :: "'c HTTPGroup \<Rightarrow> 'c HTTPGroup \<times> string option" where
  "chooseEndpoint g =
     (case choose_name g of (g', n) \<Rightarrow> (g', case n of None \<Rightarrow> None | Some s \<Rightarrow> if s = [] then None else Some s))"

definition createConnByEndpoint :: "'c HTTPGroup \<Rightarrow> string \<Rightarrow> string \<Rightarrow> 'c option" where
  "createConnByEndpoint g endpoint remoteAddr =
     (case lookup_fn g endpoint of None \<Rightarrow> None | Some f \<Rightarrow> Some (f remoteAddr))"

section \<open>Round robin\<close>

primrec choose_many :: "nat \<Rightarrow> 'c HTTPGroup \<Rightarrow> string option list" where
  "choose_many 0 g = []"
| "choose_many (Suc n) g = (case chooseEndpoint g of (g', r) \<Rightarrow> r # choose_many n g')"

lemma unat_add_one: "unat (i :: 64 word) + 1 < 2 ^ 64 \<Longrightarrow> unat (i + 1) = unat i + 1"
  by (simp add: unat_word_ariths)

lemma choose_many_eq:
  assumes "pxyNames g \<noteq> []" and "[] \<notin> set (pxyNames g)" and "unat (index g) + n < 2 ^ 64"
  shows "choose_many n g =
    map (\<lambda>i. Some (pxyNames g ! ((unat (index g) + 1 + i) mod length (pxyNames g)))) [0..<n]"
  using assms
proof (induction n arbitrary: g)
  case (Suc n)
  let ?g = "g\<lparr>index := index g + 1\<rparr>"
  have u: "unat (index g + 1) = unat (index g) + 1" using Suc.prems by (intro unat_add_one) simp
  have "pxyNames g ! (k mod length (pxyNames g)) \<noteq> []" for k
    using Suc.prems(1,2) by (metis length_greater_0_conv mod_less_divisor nth_mem)
  then have "choose_many (Suc n) g =
      Some (pxyNames g ! ((unat (index g) + 1) mod length (pxyNames g))) # choose_many n ?g"
    using Suc.prems u by (simp add: chooseEndpoint_def choose_name_def Let_def)
  also have "choose_many n ?g =
      map (\<lambda>i. Some (pxyNames g ! ((unat (index g) + 1 + Suc i) mod length (pxyNames g)))) [0..<n]"
    using Suc.IH [of ?g] Suc.prems u by simp
  finally show ?case by (simp add: upt_conv_Cons map_Suc_upt [symmetric] comp_def del: upt_Suc)
qed simp

lemma rotate_nth_map: "map (\<lambda>i. xs ! ((m + i) mod length xs)) [0..<length xs] = rotate m xs"
  by (rule nth_equalityI) (simp_all add: nth_rotate)

lemma map_upt_cycles:
  "map (\<lambda>i. xs ! ((m + i) mod length xs)) [0..<k * length xs] = concat (replicate k (rotate m xs))"
proof (induction k)
  case (Suc k)
  have "[0..<Suc k * length xs] = [0..<k * length xs] @ map (\<lambda>i. k * length xs + i) [0..<length xs]"
    by (rule nth_equalityI) (simp_all add: nth_append)
  moreover have "(m + (k * length xs + i)) mod length xs = (m + i) mod length xs" for i
    by (metis add.left_commute mod_mult_self3)
  ultimately have "map (\<lambda>i. xs ! ((m + i) mod length xs)) [0..<Suc k * length xs] =
      concat (replicate k (rotate m xs)) @ rotate m xs"
    using Suc.IH by (simp add: comp_def rotate_nth_map)
  also have "\<dots> = concat (replicate (Suc k) (rotate m xs))"
    by (simp add: replicate_append_same [symmetric] del: replicate_append_same)
  finally show ?case .
qed simp

section \<open>Routes and members\<close>

text \<open>
  The calls on the shared router, in any order: those of the groups, on any group object, and
  the registrations of proxies outside groups. A proxy leaves a group that it is a member of,
  and a plain proxy removes its own route.
\<close>

datatype 'c http_op =
    HGet string
  | HRegister nat string string string "'c RouteConfig"
  | HUnRegister nat string
  | PlainRegister "'c RouteConfig"
  | PlainUnRegister "'c RouteConfig"

definition route_key :: "(string \<Rightarrow> string) \<Rightarrow> 'c RouteConfig \<Rightarrow> string \<times> string \<times> string" where
  "route_key uni rc = (ToLower uni (Domain rc), Location rc, RouteByHTTPUser rc)"

definition group_key :: "(string \<Rightarrow> string) \<Rightarrow> 'c HTTPGroup \<Rightarrow> string \<times> string \<times> string" where
  "group_key uni g = (ToLower uni (hg_domain g), hg_location g, hg_routeByHTTPUser g)"

definition http_step :: "(string \<Rightarrow> string) \<Rightarrow> 'c HTTPGroupController \<Rightarrow> 'c http_op \<Rightarrow> 'c HTTPGroupController" where
  "http_step uni c p =
     (case p of
        HGet k \<Rightarrow> fst (http_getOrCreate c k)
      | HRegister a n grp key rc \<Rightarrow> fst (HTTPGroup_Register uni c a n grp key rc)
      | HUnRegister a n \<Rightarrow> HTTPGroup_UnRegister uni c a n
      | PlainRegister rc \<Rightarrow>
          (case Add uni (vhostRouter c) (Domain rc) (Location rc) (RouteByHTTPUser rc) (rc, None) of
             None \<Rightarrow> c | Some r \<Rightarrow> c\<lparr>vhostRouter := r\<rparr>)
      | PlainUnRegister rc \<Rightarrow>
          c\<lparr>vhostRouter := Del uni (vhostRouter c) (Domain rc) (Location rc) (RouteByHTTPUser rc)\<rparr>)"

definition http_ok :: "(string \<Rightarrow> string) \<Rightarrow> 'c HTTPGroupController \<Rightarrow> 'c http_op \<Rightarrow> bool" where
  "http_ok uni c p =
     (case p of
        HGet k \<Rightarrow> True
      | HRegister a n grp key rc \<Rightarrow> a < length (hheap c) \<and> \<not> Option.is_none (CreateConnFn rc)
      | HUnRegister a n \<Rightarrow> a < length (hheap c) \<and> n \<in> set (pxyNames (hheap c ! a))
      | PlainRegister rc \<Rightarrow> True
      | PlainUnRegister rc \<Rightarrow> (case route_lookup (vhostRouter c) (route_key uni rc) of Some (_, None) \<Rightarrow> True | _ \<Rightarrow> False))"

definition members_inv :: "'c HTTPGroup \<Rightarrow> bool" where
  "members_inv g \<longleftrightarrow>
     map fst (createFuncs g) = pxyNames g \<and> distinct (pxyNames g) \<and> (\<forall>f \<in> snd ` set (createFuncs g). f \<noteq> None)"

definition http_inv :: "(string \<Rightarrow> string) \<Rightarrow> 'c HTTPGroupController \<Rightarrow> bool" where
  "http_inv uni c \<longleftrightarrow>
     routers_wf (vhostRouter c) \<and>
     (\<forall>k a. hgroups c k = Some a \<longrightarrow> a < length (hheap c)) \<and>
     (\<forall>a < length (hheap c). members_inv (hheap c ! a)) \<and>
     (\<forall>a < length (hheap c). pxyNames (hheap c ! a) \<noteq> [] \<longrightarrow>
        hgroups c (hg_group (hheap c ! a)) = Some a \<and>
        (\<exists>rc. route_lookup (vhostRouter c) (group_key uni (hheap c ! a)) = Some (rc, Some a))) \<and>
     (\<forall>k rc a. route_lookup (vhostRouter c) k = Some (rc, Some a) \<longrightarrow>
        a < length (hheap c) \<and> pxyNames (hheap c ! a) \<noteq> [] \<and> k = group_key uni (hheap c ! a))"

lemma http_invD:
  assumes "http_inv uni c"
  shows "routers_wf (vhostRouter c)"
    and "hgroups c k = Some a \<Longrightarrow> a < length (hheap c)"
    and "a < length (hheap c) \<Longrightarrow> members_inv (hheap c ! a)"
    and "a < length (hheap c) \<Longrightarrow> pxyNames (hheap c ! a) \<noteq> [] \<Longrightarrow> hgroups c (hg_group (hheap c ! a)) = Some a"
    and "a < length (hheap c) \<Longrightarrow> pxyNames (hheap c ! a) \<noteq> [] \<Longrightarrow>
      \<exists>rc. route_lookup (vhostRouter c) (group_key uni (hheap c ! a)) = Some (rc, Some a)"
    and "route_lookup (vhostRouter c) k' = Some (rc, Some a) \<Longrightarrow>
      a < length (hheap c) \<and> pxyNames (hheap c ! a) \<noteq> [] \<and> k' = group_key uni (hheap c ! a)"
  using assms unfolding http_inv_def by blast+

lemma members_inv_empty: "members_inv g \<Longrightarrow> createFuncs g = [] \<longleftrightarrow> pxyNames g = []"
  by (auto simp: members_inv_def)

lemma members_inv_fresh: "members_inv g \<Longrightarrow> map_of (createFuncs g) n = None \<longleftrightarrow> n \<notin> set (pxyNames g)"
  unfolding members_inv_def map_of_eq_None_iff by (metis list.set_map)

lemma members_inv_add:
  assumes "members_inv g" and "map_of (createFuncs g) n = None" and "f \<noteq> None"
  shows "members_inv (g\<lparr>createFuncs := createFuncs g @ [(n, f)], pxyNames := pxyNames g @ [n]\<rparr>)"
  using assms members_inv_fresh [OF assms(1), of n] by (auto simp: members_inv_def)

lemma members_inv_del:
  assumes "members_inv g"
  shows "members_inv (g\<lparr>createFuncs := filter (\<lambda>e. fst e \<noteq> n) (createFuncs g), pxyNames := remove1 n (pxyNames g)\<rparr>)"
proof -
  have "remove1 n (pxyNames g) = filter (\<lambda>m. m \<noteq> n) (pxyNames g)"
    using assms distinct_remove1_removeAll [of "pxyNames g" n]
    by (auto simp: members_inv_def removeAll_filter_not_eq intro!: filter_cong)
  moreover have "map fst (filter (\<lambda>e. fst e \<noteq> n) (createFuncs g)) = filter (\<lambda>m. m \<noteq> n) (map fst (createFuncs g))"
    by (simp add: filter_map comp_def)
  ultimately show ?thesis using assms by (auto simp: members_inv_def)
qed

text \<open>Replacing one group object, together with the part of the table and registry it concerns.\<close>

lemma http_inv_update:
  assumes inv: "http_inv uni c" and a: "a < length (hheap c)"
    and heap: "hheap c' = (hheap c)[a := g']" and wf: "routers_wf (vhostRouter c')" and mem: "members_inv g'"
    and reg: "\<And>k b. b \<noteq> a \<Longrightarrow> hgroups c' k = Some b \<longleftrightarrow> hgroups c k = Some b"
    and route: "\<And>k b rc. b \<noteq> Some a \<Longrightarrow> route_lookup (vhostRouter c') k = Some (rc, b) \<longleftrightarrow> route_lookup (vhostRouter c) k = Some (rc, b)"
    and active: "pxyNames g' \<noteq> [] \<Longrightarrow> hgroups c' (hg_group g') = Some a \<and>
      (\<exists>rc. route_lookup (vhostRouter c') (group_key uni g') = Some (rc, Some a))"
    and own: "\<And>k rc. route_lookup (vhostRouter c') k = Some (rc, Some a) \<Longrightarrow> pxyNames g' \<noteq> [] \<and> k = group_key uni g'"
  shows "http_inv uni c'"
  unfolding http_inv_def
proof (intro conjI allI impI)
  have h: "hheap c' ! b = (if b = a then g' else hheap c ! b)" for b using heap a by simp
  have len: "length (hheap c') = length (hheap c)" using heap by simp
  show "routers_wf (vhostRouter c')" by (rule wf)
  show "b < length (hheap c')" if "hgroups c' k = Some b" for k b
    using that reg a http_invD(2) [OF inv] unfolding len by (cases "b = a") auto
  fix b
  show "members_inv (hheap c' ! b)" if "b < length (hheap c')"
    using that http_invD(3) [OF inv] mem unfolding h len by simp
  show "hgroups c' (hg_group (hheap c' ! b)) = Some b" if "b < length (hheap c')" "pxyNames (hheap c' ! b) \<noteq> []"
    using that http_invD(4) [OF inv, of b] active reg unfolding h len by (cases "b = a") auto
  show "\<exists>rc. route_lookup (vhostRouter c') (group_key uni (hheap c' ! b)) = Some (rc, Some b)"
    if "b < length (hheap c')" "pxyNames (hheap c' ! b) \<noteq> []"
    using that http_invD(5) [OF inv, of b] active route [of "Some b"] unfolding h len by (cases "b = a") auto
  fix k rc
  assume r: "route_lookup (vhostRouter c') k = Some (rc, Some b)"
  then have old: "b \<noteq> a \<Longrightarrow> b < length (hheap c) \<and> pxyNames (hheap c ! b) \<noteq> [] \<and> k = group_key uni (hheap c ! b)"
    using route [of "Some b"] http_invD(6) [OF inv, of k rc b] by simp
  show "b < length (hheap c')" using old a len by (cases "b = a") auto
  show "pxyNames (hheap c' ! b) \<noteq> []" using old own r h by (cases "b = a") auto
  show "k = group_key uni (hheap c' ! b)" using old own r h by (cases "b = a") auto
qed

lemma HTTPGroup_Register_inv:
  assumes inv: "http_inv uni c" and a: "a < length (hheap c)" and fn: "CreateConnFn rc \<noteq> None"
  shows "http_inv uni (fst (HTTPGroup_Register uni c a n grp key rc))"
proof (cases "hgroups c grp = Some a")
  case False
  with inv show ?thesis by (simp add: HTTPGroup_Register_def)
next
  case cur: True
  let ?g = "hheap c ! a"
  have m: "members_inv ?g" by (rule http_invD(3) [OF inv a])
  show ?thesis
  proof (cases "createFuncs ?g = []")
    case empty: True
    then have no: "pxyNames ?g = []" using members_inv_empty [OF m] by simp
    show ?thesis
    proof (cases "Add uni (vhostRouter c) (Domain rc) (Location rc) (RouteByHTTPUser rc) (rc, Some a)")
      case None
      with inv cur empty show ?thesis by (simp add: HTTPGroup_Register_def)
    next
      case (Some r)
      have wf: "routers_wf (vhostRouter c)" by (rule http_invD(1) [OF inv])
      let ?k = "(ToLower uni (Domain rc), Location rc, RouteByHTTPUser rc)"
      have look: "route_lookup (vhostRouter c) ?k = None" "route_lookup r = (route_lookup (vhostRouter c))(?k \<mapsto> (rc, Some a))"
        and wf': "routers_wf r"
        using route_lookup_Add [OF Some wf] Add_wf [OF Some wf] by simp_all
      have mine: "route_lookup (vhostRouter c) k \<noteq> Some (rc', Some a)" for k rc'
        using http_invD(6) [OF inv, of k rc' a] no by auto
      show ?thesis
        by (rule http_inv_update [OF inv a, where g' = "?g\<lparr>hg_group := grp, hg_groupKey := key, hg_domain := Domain rc,
              hg_location := Location rc, hg_routeByHTTPUser := RouteByHTTPUser rc,
              createFuncs := createFuncs ?g @ [(n, CreateConnFn rc)], pxyNames := pxyNames ?g @ [n]\<rparr>"])
          (use a cur empty Some look wf' mine no fn in
            \<open>auto simp: HTTPGroup_Register_def add_member_def group_key_def members_inv_def Let_def split: if_splits\<close>)
    qed
  next
    case False
    then have some: "pxyNames ?g \<noteq> []" using members_inv_empty [OF m] by simp
    show ?thesis
    proof (cases "snd (HTTPGroup_Register uni c a n grp key rc)")
      case (Some e)
      with inv cur False show ?thesis
        by (auto simp: HTTPGroup_Register_def add_member_def Let_def split: if_splits)
    next
      case None
      with cur False have fresh: "map_of (createFuncs ?g) n = None"
        and c': "fst (HTTPGroup_Register uni c a n grp key rc) =
          c\<lparr>hheap := (hheap c)[a := ?g\<lparr>createFuncs := createFuncs ?g @ [(n, CreateConnFn rc)], pxyNames := pxyNames ?g @ [n]\<rparr>]\<rparr>"
        by (auto simp: HTTPGroup_Register_def add_member_def Let_def split: if_splits)
      show ?thesis
        unfolding c'
        by (rule http_inv_update [OF inv a refl [THEN trans]])
          (use http_invD [OF inv] a some members_inv_add [OF m fresh fn] in \<open>auto simp: group_key_def\<close>)
    qed
  qed
qed

lemma HTTPGroup_UnRegister_inv:
  assumes inv: "http_inv uni c" and a: "a < length (hheap c)" and n: "n \<in> set (pxyNames (hheap c ! a))"
  shows "http_inv uni (HTTPGroup_UnRegister uni c a n)"
proof -
  let ?g = "hheap c ! a" and ?c = "HTTPGroup_UnRegister uni c a n"
  let ?g' = "?g\<lparr>createFuncs := filter (\<lambda>e. fst e \<noteq> n) (createFuncs ?g), pxyNames := remove1 n (pxyNames ?g)\<rparr>"
  have m': "members_inv ?g'" by (rule members_inv_del [OF http_invD(3) [OF inv a]])
  have empty: "createFuncs ?g' = [] \<longleftrightarrow> pxyNames ?g' = []" by (rule members_inv_empty [OF m'])
  from n have some: "pxyNames ?g \<noteq> []" by auto
  have cur: "hgroups c (hg_group ?g) = Some a" by (rule http_invD(4) [OF inv a some])
  obtain rc where rc: "route_lookup (vhostRouter c) (group_key uni ?g) = Some (rc, Some a)"
    using http_invD(5) [OF inv a some] by blast
  have wf: "routers_wf (vhostRouter c)" by (rule http_invD(1) [OF inv])
  have own: "k = group_key uni ?g" if "route_lookup (vhostRouter c) k = Some (rc', Some a)" for k rc'
    using http_invD(6) [OF inv that] by simp
  show ?thesis
  proof (cases "pxyNames ?g' = []")
    case True
    then have e: "createFuncs ?g' = []" using empty by blast
    have c': "?c = c\<lparr>hheap := (hheap c)[a := ?g'],
        vhostRouter := Del uni (vhostRouter c) (hg_domain ?g) (hg_location ?g) (hg_routeByHTTPUser ?g),
        hgroups := (hgroups c)(hg_group ?g := None)\<rparr>"
      using e cur by (simp add: HTTPGroup_UnRegister_def Let_def)
    have look: "route_lookup (vhostRouter ?c) = (route_lookup (vhostRouter c))(group_key uni ?g := None)"
      unfolding c' using route_lookup_Del [OF wf] by (simp add: group_key_def)
    show ?thesis
    proof (rule http_inv_update [OF inv a _ _ m'])
      show "routers_wf (vhostRouter ?c)" unfolding c' by (simp add: Del_wf [OF wf])
      show "route_lookup (vhostRouter ?c) k = Some (rc', b) \<longleftrightarrow> route_lookup (vhostRouter c) k = Some (rc', b)"
        if "b \<noteq> Some a" for k b rc' unfolding look using rc that by auto
      show "pxyNames ?g' \<noteq> [] \<and> k = group_key uni ?g'" if "route_lookup (vhostRouter ?c) k = Some (rc', Some a)" for k rc'
        using own [of k rc'] that unfolding look by (auto split: if_splits)
      show "hheap ?c = (hheap c)[a := ?g']" unfolding c' by simp
      show "hgroups ?c k = Some b \<longleftrightarrow> hgroups c k = Some b" if "b \<noteq> a" for k b
        unfolding c' using cur that by simp
    qed (use True in simp)
  next
    case False
    then have c': "?c = c\<lparr>hheap := (hheap c)[a := ?g']\<rparr>"
      using empty by (simp add: HTTPGroup_UnRegister_def Let_def)
    have key: "group_key uni ?g' = group_key uni ?g" by (simp add: group_key_def)
    have same: "vhostRouter ?c = vhostRouter c" "hgroups ?c = hgroups c" unfolding c' by simp_all
    show ?thesis
    proof (rule http_inv_update [OF inv a _ _ m'])
      show "hheap ?c = (hheap c)[a := ?g']" unfolding c' by simp
      show "pxyNames ?g' \<noteq> [] \<and> k = group_key uni ?g'" if "route_lookup (vhostRouter ?c) k = Some (rc', Some a)" for k rc'
        using own [of k rc'] that False unfolding same key by blast
      show "hgroups ?c (hg_group ?g') = Some a \<and> (\<exists>rc. route_lookup (vhostRouter ?c) (group_key uni ?g') = Some (rc, Some a))"
        unfolding same key using cur rc by simp
    qed (use wf in \<open>simp_all add: same\<close>)
  qed
qed

lemma http_step_inv:
  assumes "http_inv uni c" and "http_ok uni c p"
  shows "http_inv uni (http_step uni c p)"
proof (cases p)
  case (HGet k)
  have "a < length (hheap c)" if "hgroups c k' = Some a" for k' a by (rule http_invD(2) [OF assms(1) that])
  with assms(1) HGet show ?thesis
    by (auto simp: http_step_def http_getOrCreate_def http_inv_def nth_append less_Suc_eq members_inv_def NewHTTPGroup_def
        split: option.splits)
next
  case (PlainRegister rc)
  show ?thesis
  proof (cases "Add uni (vhostRouter c) (Domain rc) (Location rc) (RouteByHTTPUser rc) (rc, None)")
    case (Some r)
    note look = route_lookup_Add [OF Some http_invD(1) [OF assms(1)]]
    have "routers_wf r" using Add_wf [OF Some] http_invD(1) [OF assms(1)] by blast
    with look Some PlainRegister assms(1) show ?thesis
      by (auto simp: http_step_def http_inv_def split: if_splits)
  qed (use assms PlainRegister in \<open>simp add: http_step_def\<close>)
next
  case (PlainUnRegister rc)
  have look: "route_lookup (Del uni (vhostRouter c) (Domain rc) (Location rc) (RouteByHTTPUser rc)) =
      (route_lookup (vhostRouter c))(route_key uni rc := None)"
    using route_lookup_Del [OF http_invD(1) [OF assms(1)]] by (simp add: route_key_def)
  obtain rc' where "route_lookup (vhostRouter c) (route_key uni rc) = Some (rc', None)"
    using assms(2) PlainUnRegister by (auto simp: http_ok_def split: option.splits prod.splits)
  then have "group_key uni (hheap c ! a) \<noteq> route_key uni rc" if "a < length (hheap c)" "pxyNames (hheap c ! a) \<noteq> []" for a
    using http_invD(5) [OF assms(1) that] by auto
  with look Del_wf [OF http_invD(1) [OF assms(1)]] PlainUnRegister assms(1) show ?thesis
    by (auto simp: http_step_def http_inv_def)
qed (use assms in \<open>simp_all add: http_step_def http_ok_def Option.is_none_def HTTPGroup_Register_inv HTTPGroup_UnRegister_inv\<close>)

interpretation http_groups: op_machine "http_step uni" "http_ok uni" "http_inv uni" for uni
  by unfold_locales (rule http_step_inv)

lemma NewHTTPGroupController_inv: "http_inv uni (NewHTTPGroupController NewRouters)"
  using NewRouters_wf
  by (simp add: http_inv_def NewHTTPGroupController_def route_lookup_def exist_def NewRouters_def routers_of_def)

section \<open>Properties\<close>

text \<open>
  Requests are spread evenly over an HTTP group: while the membership does not change and
  the 64-bit counter does not wrap, any \<open>k\<close> times as many requests as the group has members visit the
  members in the order of registration, starting after the last one chosen, \<open>k\<close> times over.
\<close>

lemma http_group_round_robin:
  assumes "pxyNames g \<noteq> []" and "[] \<notin> set (pxyNames g)"
    and "unat (index g) + k * length (pxyNames g) < 2 ^ 64"
  shows "choose_many (k * length (pxyNames g)) g =
    map Some (concat (replicate k (rotate (unat (index g) + 1) (pxyNames g))))"
proof -
  let ?f = "\<lambda>i. pxyNames g ! ((unat (index g) + 1 + i) mod length (pxyNames g))"
  have "choose_many (k * length (pxyNames g)) g = map Some (map ?f [0..<k * length (pxyNames g)])"
    unfolding choose_many_eq [OF assms] map_map comp_def ..
  then show ?thesis unfolding map_upt_cycles .
qed

definition demo_group :: "string HTTPGroup" where
  "demo_group = NewHTTPGroup\<lparr>createFuncs := [(''a'', Some (\<lambda>r. ''conn a'')), (''b'', Some (\<lambda>r. ''conn b''))],
     pxyNames := [''a'', ''b'']\<rparr>"

theorem http_group_round_robin_witness:
  "choose_many 4 demo_group = [Some ''b'', Some ''a'', Some ''b'', Some ''a'']"
proof -
  have "pxyNames demo_group = [''a'', ''b'']" "index demo_group = 0"
    by (simp_all add: demo_group_def NewHTTPGroup_def)
  moreover have "replicate 2 xs = [xs, xs]" for xs :: "string list" by (simp add: numeral_2_eq_2)
  ultimately show ?thesis using http_group_round_robin [of demo_group 2] by simp
qed

text \<open>
  The router and the groups agree: after any sequence of registrations and removals, by the
  members of groups and by proxies outside groups, the route of a group is in the router
  exactly while the group has members, the group is then the one registered under its name,
  and a request that reaches the group's route gets a connection from one of the members.
\<close>

lemma http_group_routes:
  assumes "ops_ok (http_ok uni) (http_step uni) (NewHTTPGroupController NewRouters) ps"
    and "c = run_ops (http_step uni) (NewHTTPGroupController NewRouters) ps"
    and "a < length (hheap c)"
  shows "(pxyNames (hheap c ! a) \<noteq> [] \<longleftrightarrow> (\<exists>k rc. route_lookup (vhostRouter c) k = Some (rc, Some a))) \<and>
    (pxyNames (hheap c ! a) \<noteq> [] \<longrightarrow>
       hgroups c (hg_group (hheap c ! a)) = Some a \<and>
       (\<exists>n f. n \<in> set (pxyNames (hheap c ! a)) \<and> (n, Some f) \<in> set (createFuncs (hheap c ! a)) \<and>
          snd (createConn (hheap c ! a) remoteAddr) = Some (f remoteAddr)))"
proof -
  let ?g = "hheap c ! a"
  have inv: "http_inv uni c"
    using http_groups.run_inv [OF NewHTTPGroupController_inv assms(1)] assms(2) by simp
  have m: "members_inv ?g" by (rule http_invD(3) [OF inv assms(3)])
  have "\<exists>n f. n \<in> set (pxyNames ?g) \<and> (n, Some f) \<in> set (createFuncs ?g) \<and> snd (createConn ?g remoteAddr) = Some (f remoteAddr)"
    if some: "pxyNames ?g \<noteq> []"
  proof -
    define i where "i = unat (index ?g + 1) mod length (pxyNames ?g)"
    define n where "n = pxyNames ?g ! i"
    have i: "i < length (pxyNames ?g)" using some by (simp add: i_def)
    then have n: "n \<in> set (pxyNames ?g)" by (simp add: n_def)
    then obtain f where f: "map_of (createFuncs ?g) n = Some f"
      using members_inv_fresh [OF m, of n] by fastforce
    moreover have "f \<noteq> None" using m map_of_SomeD [OF f] by (force simp: members_inv_def)
    ultimately obtain f' where "map_of (createFuncs ?g) n = Some (Some f')" by blast
    with n some show ?thesis
      by (auto simp: createConn_def choose_name_def lookup_fn_def Let_def i_def [symmetric] n_def [symmetric] dest: map_of_SomeD)
  qed
  moreover have "pxyNames ?g \<noteq> [] \<longleftrightarrow> (\<exists>k rc. route_lookup (vhostRouter c) k = Some (rc, Some a))"
    using http_invD(5) [OF inv assms(3)] http_invD(6) [OF inv] by blast
  ultimately show ?thesis using http_invD(4) [OF inv assms(3)] by blast
qed

definition demo_http_ops :: "string http_op list" where
  "demo_http_ops =
     (let rc = (\<lambda>d n. \<lparr>Domain = d, Location = ''/'', RewriteHost = [], Username = [], Password = [], RouteByHTTPUser = [],
           CreateConnFn = Some (\<lambda>r. n @ r), ChooseEndpointFn = None, CreateConnByEndpointFn = None\<rparr>)
      in [PlainRegister (rc ''x.io'' ''p:''), HGet ''g'', HRegister 0 ''a'' ''g'' ''k'' (rc ''y.io'' ''a:''),
          HRegister 0 ''b'' ''g'' ''k'' (rc ''y.io'' ''b:''), HRegister 0 ''c'' ''g'' ''no'' (rc ''y.io'' ''c:''),
          HUnRegister 0 ''a'', PlainUnRegister (rc ''x.io'' [])])"

theorem http_group_routes_witness:
  "let c = run_ops (http_step (\<lambda>s. s)) (NewHTTPGroupController NewRouters) demo_http_ops in
   pxyNames (hheap c ! 0) = [''b''] \<and> hgroups c ''g'' = Some 0 \<and>
   (\<exists>k rc. route_lookup (vhostRouter c) k = Some (rc, Some 0))"
proof -
  let ?c = "run_ops (http_step (\<lambda>s. s)) (NewHTTPGroupController NewRouters) demo_http_ops"
  have ok: "ops_ok (http_ok (\<lambda>s. s)) (http_step (\<lambda>s. s)) (NewHTTPGroupController NewRouters) demo_http_ops"
    by code_simp
  have v: "0 < length (hheap ?c)" "pxyNames (hheap ?c ! 0) = [''b'']" "hg_group (hheap ?c ! 0) = ''g''"
    by (code_simp, code_simp, code_simp)
  from http_group_routes [OF ok refl v(1)] v(2,3) show ?thesis by (simp add: Let_def)
qed

end
