(* ===== verification/NatAnalysis.thy ===== *)
theory NatAnalysis
  imports Go_Strings Interfaces
begin

text \<open>
  How the server chooses a hole-punching strategy: the classification of the NATs of the two peers
  (\<open>pkg/nathole/classify.go\<close>), the tables of behaviours per mode, and the analyzer that keeps a
  score per behaviour and pair of peers (\<open>pkg/nathole/analysis.go\<close>). The scores are the pointers of
  the Go slice in order; the clock is an argument.
\<close>

section \<open>Classification\<close>

datatype nat_type = EasyNAT | HardNAT

datatype nat_behavior = BehaviorNoChange | BehaviorIPChanged | BehaviorPortChanged | BehaviorBothChanged

record NatFeature =
  NatType :: nat_type
  Behavior :: nat_behavior
  PortsDifference :: int
  RegularPortsChange :: bool
  PublicNetwork :: bool

text \<open>The variables of the loop over the addresses.\<close>

record classify_vars =
  cv_baseIP :: string
  cv_basePort :: string
  cv_portMax :: int
  cv_portMin :: int
  cv_ipChanged :: bool
  cv_portChanged :: bool
  cv_public :: bool

fun classify_loop :: "string list \<Rightarrow> string list \<Rightarrow> classify_vars \<Rightarrow> classify_vars option" where
  "classify_loop localIPs [] v = Some v"
| "classify_loop localIPs (addr # addrs) v =
     (case SplitHostPort addr of
        None \<Rightarrow> None
      | Some (ip, port) \<Rightarrow>
          (case Atoi port of
             None \<Rightarrow> None
           | Some portNum \<Rightarrow>
               let v1 = v\<lparr>cv_public := cv_public v \<or> ip \<in> set localIPs\<rparr> in
               if cv_baseIP v1 = []
               then classify_loop localIPs addrs
                 (v1\<lparr>cv_baseIP := ip, cv_basePort := port, cv_portMax := portNum, cv_portMin := portNum\<rparr>)
               else classify_loop localIPs addrs
                 (v1\<lparr>cv_portMax := max (cv_portMax v1) portNum, cv_portMin := min (cv_portMin v1) portNum,
                     cv_ipChanged := cv_ipChanged v1 \<or> cv_baseIP v1 \<noteq> ip,
                     cv_portChanged := cv_portChanged v1 \<or> cv_basePort v1 \<noteq> port\<rparr>)))"

definition classify_init :: classify_vars where
  "classify_init =
     \<lparr>cv_baseIP = [], cv_basePort = [], cv_portMax = 0, cv_portMin = 0, cv_ipChanged = False, cv_portChanged = False,
      cv_public = False\<rparr>"

definition feature_of :: "classify_vars \<Rightarrow> NatFeature" where
  "feature_of v =
     (let b = (if cv_ipChanged v \<and> cv_portChanged v then BehaviorBothChanged
               else if cv_ipChanged v then BehaviorIPChanged
               else if cv_portChanged v then BehaviorPortChanged
               else BehaviorNoChange);
          d = (if b = BehaviorPortChanged then cv_portMax v - cv_portMin v else 0)
      in \<lparr>NatType = (if b = BehaviorNoChange then EasyNAT else HardNAT), Behavior = b, PortsDifference = d,
          RegularPortsChange = (b = BehaviorPortChanged \<and> d \<le> 5 \<and> d \<ge> 1), PublicNetwork = cv_public v\<rparr>)"

definition ClassifyNATFeature :: "string list \<Rightarrow> string list \<Rightarrow> NatFeature option" where
  "ClassifyNATFeature addresses localIPs =
     (if length addresses \<le> 1 then None
      else map_option feature_of (classify_loop localIPs addresses classify_init))"

definition ClassifyFeatureCount :: "NatFeature list \<Rightarrow> nat \<times> nat \<times> nat" where
  "ClassifyFeatureCount features =
     fold (\<lambda>f (easyCount, hardCount, regularCount).
             if NatType f = EasyNAT then (easyCount + 1, hardCount, regularCount)
             else (easyCount, hardCount + 1, if RegularPortsChange f then regularCount + 1 else regularCount))
       features (0, 0, 0)"

section \<open>Behaviours\<close>

datatype detect_role = NoRole | DetectRoleSender | DetectRoleReceiver

record RecommandBehavior =
  rb_Role :: detect_role
  rb_TTL :: int
  rb_SendDelayMs :: int
  rb_PortsRangeNumber :: int
  rb_PortsRandomNumber :: int
  rb_ListenRandomPorts :: int

definition zero_behavior :: RecommandBehavior where
  "zero_behavior =
     \<lparr>rb_Role = NoRole, rb_TTL = 0, rb_SendDelayMs = 0, rb_PortsRangeNumber = 0, rb_PortsRandomNumber = 0, rb_ListenRandomPorts = 0\<rparr>"

abbreviation sender :: RecommandBehavior where "sender \<equiv> zero_behavior\<lparr>rb_Role := DetectRoleSender\<rparr>"

abbreviation receiver :: RecommandBehavior where "receiver \<equiv> zero_behavior\<lparr>rb_Role := DetectRoleReceiver\<rparr>"

definition mode0Behaviors :: "(RecommandBehavior \<times> RecommandBehavior) list" where
  "mode0Behaviors =
     [(sender, receiver\<lparr>rb_TTL := 7\<rparr>),
      (receiver\<lparr>rb_TTL := 7\<rparr>, sender),
      (sender, receiver\<lparr>rb_TTL := 4\<rparr>),
      (receiver\<lparr>rb_TTL := 4\<rparr>, sender),
      (sender, receiver),
      (receiver, sender),
      (sender\<lparr>rb_SendDelayMs := 5000\<rparr>, receiver),
      (sender\<lparr>rb_SendDelayMs := 10000\<rparr>, receiver),
      (receiver, sender\<lparr>rb_SendDelayMs := 5000\<rparr>),
      (receiver, sender\<lparr>rb_SendDelayMs := 10000\<rparr>)]"

definition mode1Behaviors :: "(RecommandBehavior \<times> RecommandBehavior) list" where
  "mode1Behaviors =
     [(sender, receiver\<lparr>rb_TTL := 7, rb_PortsRangeNumber := 10\<rparr>),
      (sender\<lparr>rb_SendDelayMs := 2000\<rparr>, receiver\<lparr>rb_TTL := 7, rb_PortsRangeNumber := 10\<rparr>),
      (sender, receiver\<lparr>rb_TTL := 4, rb_PortsRangeNumber := 10\<rparr>),
      (sender\<lparr>rb_SendDelayMs := 2000\<rparr>, receiver\<lparr>rb_TTL := 4, rb_PortsRangeNumber := 10\<rparr>),
      (sender, receiver\<lparr>rb_PortsRangeNumber := 10\<rparr>),
      (sender\<lparr>rb_SendDelayMs := 2000\<rparr>, receiver\<lparr>rb_PortsRangeNumber := 10\<rparr>)]"

definition mode2Behaviors :: "(RecommandBehavior \<times> RecommandBehavior) list" where
  "mode2Behaviors =
     [(sender\<lparr>rb_PortsRandomNumber := 1000, rb_SendDelayMs := 3000\<rparr>, receiver\<lparr>rb_ListenRandomPorts := 256, rb_TTL := 7\<rparr>),
      (sender\<lparr>rb_PortsRandomNumber := 1000, rb_SendDelayMs := 3000\<rparr>, receiver\<lparr>rb_ListenRandomPorts := 256, rb_TTL := 4\<rparr>),
      (sender\<lparr>rb_PortsRandomNumber := 1000, rb_SendDelayMs := 3000\<rparr>, receiver\<lparr>rb_ListenRandomPorts := 256\<rparr>)]"

definition mode3Behaviors :: "(RecommandBehavior \<times> RecommandBehavior) list" where
  "mode3Behaviors =
     [(sender\<lparr>rb_PortsRangeNumber := 10\<rparr>, receiver\<lparr>rb_TTL := 7, rb_PortsRangeNumber := 10\<rparr>),
      (sender\<lparr>rb_PortsRangeNumber := 10\<rparr>, receiver\<lparr>rb_TTL := 4, rb_PortsRangeNumber := 10\<rparr>),
      (sender\<lparr>rb_PortsRangeNumber := 10\<rparr>, receiver\<lparr>rb_PortsRangeNumber := 10\<rparr>),
      (receiver\<lparr>rb_TTL := 7, rb_PortsRangeNumber := 10\<rparr>, sender\<lparr>rb_PortsRangeNumber := 10\<rparr>),
      (receiver\<lparr>rb_TTL := 4, rb_PortsRangeNumber := 10\<rparr>, sender\<lparr>rb_PortsRangeNumber := 10\<rparr>),
      (receiver\<lparr>rb_PortsRangeNumber := 10\<rparr>, sender\<lparr>rb_PortsRangeNumber := 10\<rparr>)]"

definition mode4Behaviors :: "(RecommandBehavior \<times> RecommandBehavior) list" where
  "mode4Behaviors =
     [(sender\<lparr>rb_PortsRandomNumber := 1000, rb_SendDelayMs := 3000\<rparr>,
       receiver\<lparr>rb_ListenRandomPorts := 256, rb_TTL := 7, rb_PortsRangeNumber := 2\<rparr>),
      (sender\<lparr>rb_PortsRandomNumber := 1000, rb_SendDelayMs := 3000\<rparr>,
       receiver\<lparr>rb_ListenRandomPorts := 256, rb_TTL := 4, rb_PortsRangeNumber := 2\<rparr>),
      (sender\<lparr>rb_PortsRandomNumber := 1000, rb_SendDelayMs := 3000\<rparr>,
       receiver\<lparr>rb_ListenRandomPorts := 256, rb_PortsRangeNumber := 2\<rparr>)]"

definition getBehaviorByMode :: "nat \<Rightarrow> (RecommandBehavior \<times> RecommandBehavior) list" where
  "getBehaviorByMode mode =
     (if mode = 0 then mode0Behaviors
      else if mode = 1 then mode1Behaviors
      else if mode = 2 then mode2Behaviors
      else if mode = 3 then mode3Behaviors
      else if mode = 4 then mode4Behaviors
      else mode0Behaviors)"

definition getBehaviorByModeAndIndex :: "nat \<Rightarrow> nat \<Rightarrow> RecommandBehavior \<times> RecommandBehavior" where
  "getBehaviorByModeAndIndex mode idx =
     (let behaviors = getBehaviorByMode mode in
      if idx \<ge> length behaviors then (zero_behavior, zero_behavior) else behaviors ! idx)"

section \<open>Scores\<close>

record behaviorScore =
  bs_Mode :: nat
  bs_Index :: nat
  Score :: int

definition getBehaviorScoresByMode2 :: "nat \<Rightarrow> int \<Rightarrow> int \<Rightarrow> behaviorScore list" where
  "getBehaviorScoresByMode2 mode senderScore receiverScore =
     (let behaviors = getBehaviorByMode mode in
      map (\<lambda>i. \<lparr>bs_Mode = mode, bs_Index = i,
                Score = (if rb_Role (fst (behaviors ! i)) = DetectRoleSender then senderScore else receiverScore)\<rparr>)
        [0..<length behaviors])"

definition getBehaviorScoresByMode :: "nat \<Rightarrow> int \<Rightarrow> behaviorScore list" where
  "getBehaviorScoresByMode mode defaultScore = getBehaviorScoresByMode2 mode defaultScore defaultScore"

record makeHoleRecords =
  scores :: "behaviorScore list"
  lastUpdateTime :: int

definition mode0_scores :: "NatFeature \<Rightarrow> NatFeature \<Rightarrow> behaviorScore list" where
  "mode0_scores c v =
     (if PublicNetwork c then getBehaviorScoresByMode2 0 0 1
      else if PublicNetwork v then getBehaviorScoresByMode2 0 1 0
      else getBehaviorScoresByMode 0 0)"

definition newMakeHoleRecords :: "NatFeature \<Rightarrow> NatFeature \<Rightarrow> int \<Rightarrow> makeHoleRecords" where
  "newMakeHoleRecords c v now =
     (case ClassifyFeatureCount [c, v] of
        (easyCount, hardCount, regularCount) \<Rightarrow>
          \<lparr>scores =
             (if easyCount = 2 then mode0_scores c v
              else if hardCount = 1 \<and> regularCount = 1
              then getBehaviorScoresByMode 1 0 @ getBehaviorScoresByMode 2 0 @ mode0_scores c v
              else if hardCount = 1 \<and> regularCount = 0
              then getBehaviorScoresByMode 2 0 @ getBehaviorScoresByMode 1 0 @ mode0_scores c v
              else if hardCount = 2 \<and> regularCount = 2
              then getBehaviorScoresByMode 3 0 @ getBehaviorScoresByMode 4 0
              else if hardCount = 2 \<and> regularCount = 1
              then getBehaviorScoresByMode 4 0
              else getBehaviorScoresByMode 0 1 @ getBehaviorScoresByMode 1 1 @ getBehaviorScoresByMode 3 1),
           lastUpdateTime = now\<rparr>)"

primrec report_scores :: "nat \<Rightarrow> nat \<Rightarrow> behaviorScore list \<Rightarrow> behaviorScore list" where
  "report_scores mode idx [] = []"
| "report_scores mode idx (s # ss) =
     (if bs_Mode s \<noteq> mode \<or> bs_Index s \<noteq> idx then s # report_scores mode idx ss
      else s\<lparr>Score := min (Score s + 2) 10\<rparr> # ss)"

definition reportSuccess :: "makeHoleRecords \<Rightarrow> nat \<Rightarrow> nat \<Rightarrow> int \<Rightarrow> makeHoleRecords" where
  "reportSuccess mhr mode idx now =
     mhr\<lparr>scores := report_scores mode idx (scores mhr), lastUpdateTime := now\<rparr>"

text \<open>\<open>slices.MaxFunc\<close>: the position of the first element with the greatest score.\<close>

primrec max_loop :: "behaviorScore list \<Rightarrow> nat \<Rightarrow> nat \<Rightarrow> int \<Rightarrow> nat" where
  "max_loop [] i best v = best"
| "max_loop (x # xs) i best v =
     (if v < Score x then max_loop xs (Suc i) i (Score x) else max_loop xs (Suc i) best v)"

definition MaxFunc :: "behaviorScore list \<Rightarrow> nat" where
  "MaxFunc xs = (case xs of [] \<Rightarrow> 0 | x # ys \<Rightarrow> max_loop ys 1 0 (Score x))"

definition recommand :: "makeHoleRecords \<Rightarrow> int \<Rightarrow> makeHoleRecords \<times> nat \<times> nat" where
  "recommand mhr now =
     (if scores mhr = [] then (mhr, 0, 0)
      else let k = MaxFunc (scores mhr); s = scores mhr ! k
           in (mhr\<lparr>scores := (scores mhr)[k := s\<lparr>Score := Score s - 1\<rparr>], lastUpdateTime := now\<rparr>, bs_Mode s, bs_Index s))"

section \<open>The analyzer\<close>

record Analyzer =
  records :: "string \<rightharpoonup> makeHoleRecords"
  dataReserveDuration :: int

definition NewAnalyzer :: "int \<Rightarrow> Analyzer" where
  "NewAnalyzer d = \<lparr>records = Map.empty, dataReserveDuration = d\<rparr>"

definition orient :: "nat \<Rightarrow> NatFeature \<Rightarrow> RecommandBehavior \<times> RecommandBehavior \<Rightarrow> RecommandBehavior \<times> RecommandBehavior" where
  "orient mode c b =
     (if mode = 1 then (if NatType c = EasyNAT then prod.swap b else b)
      else if mode = 2 then (if NatType c = HardNAT then prod.swap b else b)
      else if mode = 4 then (if \<not> RegularPortsChange c then prod.swap b else b)
      else b)"

definition GetRecommandBehaviors ::
    "Analyzer \<Rightarrow> string \<Rightarrow> NatFeature \<Rightarrow> NatFeature \<Rightarrow> int \<Rightarrow>
     Analyzer \<times> nat \<times> nat \<times> RecommandBehavior \<times> RecommandBehavior" where
  "GetRecommandBehaviors a key c v now =
     (let r = (case records a key of None \<Rightarrow> newMakeHoleRecords c v now | Some r \<Rightarrow> r) in
      case recommand r now of
        (r', mode, idx) \<Rightarrow>
          (a\<lparr>records := (records a)(key \<mapsto> r')\<rparr>, mode, idx, orient mode c (getBehaviorByModeAndIndex mode idx)))"

definition ReportSuccess :: "Analyzer \<Rightarrow> string \<Rightarrow> nat \<Rightarrow> nat \<Rightarrow> int \<Rightarrow> Analyzer" where
  "ReportSuccess a key mode idx now =
     (case records a key of
        None \<Rightarrow> a
      | Some r \<Rightarrow> a\<lparr>records := (records a)(key \<mapsto> reportSuccess r mode idx now)\<rparr>)"

definition Clean :: "Analyzer \<Rightarrow> int \<Rightarrow> Analyzer" where
  "Clean a now =
     a\<lparr>records := (\<lambda>k. case records a k of
                          None \<Rightarrow> None
                        | Some r \<Rightarrow> if now - lastUpdateTime r > dataReserveDuration a then None else Some r)\<rparr>"

section \<open>Choosing a behaviour\<close>

lemma max_loop_cases:
  "(max_loop ys i best v = best \<and> (\<forall>y \<in> set ys. Score y \<le> v)) \<or>
   (\<exists>k < length ys. max_loop ys i best v = i + k \<and> v \<le> Score (ys ! k) \<and> (\<forall>y \<in> set ys. Score y \<le> Score (ys ! k)))"
proof (induction ys arbitrary: i best v)
  case (Cons x xs)
  show ?case
  proof (cases "v < Score x")
    case True
    from Cons.IH [of "Suc i" i "Score x"] show ?thesis
    proof (elim disjE exE conjE)
      assume "max_loop xs (Suc i) i (Score x) = i" "\<forall>y\<in>set xs. Score y \<le> Score x"
      with True show ?thesis by (intro disjI2 exI [of _ 0]) auto
    next
      fix k
      assume "k < length xs" "max_loop xs (Suc i) i (Score x) = Suc i + k" "Score x \<le> Score (xs ! k)"
        "\<forall>y\<in>set xs. Score y \<le> Score (xs ! k)"
      with True show ?thesis by (intro disjI2 exI [of _ "Suc k"]) auto
    qed
  next
    case False
    from Cons.IH [of "Suc i" best v] show ?thesis
    proof (elim disjE exE conjE)
      assume "max_loop xs (Suc i) best v = best" "\<forall>y\<in>set xs. Score y \<le> v"
      with False show ?thesis by (intro disjI1) auto
    next
      fix k
      assume "k < length xs" "max_loop xs (Suc i) best v = Suc i + k" "v \<le> Score (xs ! k)"
        "\<forall>y\<in>set xs. Score y \<le> Score (xs ! k)"
      with False show ?thesis by (intro disjI2 exI [of _ "Suc k"]) auto
    qed
  qed
qed simp

lemma MaxFunc_max:
  assumes "xs \<noteq> []"
  shows "MaxFunc xs < length xs" and "s \<in> set xs \<Longrightarrow> Score s \<le> Score (xs ! MaxFunc xs)"
proof -
  obtain x ys where xs: "xs = x # ys" using assms by (cases xs) auto
  have "MaxFunc xs < length xs \<and> (\<forall>s \<in> set xs. Score s \<le> Score (xs ! MaxFunc xs))"
    using max_loop_cases [of ys 1 0 "Score x"] by (auto simp: xs MaxFunc_def)
  then show "MaxFunc xs < length xs" and "s \<in> set xs \<Longrightarrow> Score s \<le> Score (xs ! MaxFunc xs)" by auto
qed

text \<open>What a successful choice changes: the score of the chosen behaviour, by one.\<close>

lemma recommand_eq:
  assumes "scores r \<noteq> []" and "k = MaxFunc (scores r)"
  shows "recommand r now =
    (r\<lparr>scores := (scores r)[k := (scores r ! k)\<lparr>Score := Score (scores r ! k) - 1\<rparr>], lastUpdateTime := now\<rparr>,
     bs_Mode (scores r ! k), bs_Index (scores r ! k))"
  using assms by (simp add: recommand_def Let_def)

primrec recommand_many :: "makeHoleRecords \<Rightarrow> int list \<Rightarrow> (nat \<times> nat) list" where
  "recommand_many r [] = []"
| "recommand_many r (t # ts) = (case recommand r t of (r', mi) \<Rightarrow> mi # recommand_many r' ts)"

text \<open>How often other behaviours can come before the one at position \<open>j\<close>.\<close>

definition ahead :: "makeHoleRecords \<Rightarrow> nat \<Rightarrow> nat" where
  "ahead r j = sum_list (map (\<lambda>s. nat (Score s - Score (scores r ! j) + 1)) (scores r))"

lemma sum_list_map_update:
  "k < length xs \<Longrightarrow> sum_list (map f (xs[k := y])) = sum_list (map f xs) + f y - (f (xs ! k) :: nat)"
  by (simp add: map_update sum_list_update)

lemma nth_le_sum: "k < length xs \<Longrightarrow> f (xs ! k) \<le> (sum_list (map f xs) :: nat)"
  by (simp add: elem_le_sum_list [of k "map f xs", simplified])

lemma ahead_decreases:
  assumes "j < length (scores r)" and "recommand r now = (r', mi)" and "mi \<noteq> (bs_Mode (scores r ! j), bs_Index (scores r ! j))"
  shows "ahead r' j < ahead r j \<and> length (scores r') = length (scores r) \<and>
    bs_Mode (scores r' ! j) = bs_Mode (scores r ! j) \<and> bs_Index (scores r' ! j) = bs_Index (scores r ! j)"
proof -
  let ?ss = "scores r" and ?k = "MaxFunc (scores r)"
  let ?f = "\<lambda>s. nat (Score s - Score (?ss ! j) + 1)"
  let ?s = "(?ss ! ?k)\<lparr>Score := Score (?ss ! ?k) - 1\<rparr>"
  have ne: "?ss \<noteq> []" using assms(1) by auto
  note e = recommand_eq [OF ne refl, of now] and m = MaxFunc_max [OF ne]
  have r': "scores r' = ?ss[?k := ?s]" "mi = (bs_Mode (?ss ! ?k), bs_Index (?ss ! ?k))" using assms(2) e by auto
  have kj: "?k \<noteq> j" using assms(3) r'(2) by auto
  have "Score (?ss ! j) \<le> Score (?ss ! ?k)" using m(2) assms(1) by simp
  then have "?f ?s < ?f (?ss ! ?k)" by simp
  moreover have "ahead r' j = sum_list (map ?f (?ss[?k := ?s]))" unfolding ahead_def r'(1) using kj by simp
  ultimately have "ahead r' j < ahead r j"
    using nth_le_sum [OF m(1), of ?f] by (simp add: sum_list_map_update [OF m(1)] ahead_def)
  with kj r'(1) show ?thesis by simp
qed

lemma eventually_recommanded:
  assumes "j < length (scores r)" and "ahead r j \<le> length ts"
  shows "(bs_Mode (scores r ! j), bs_Index (scores r ! j)) \<in> set (recommand_many r ts)"
  using assms
proof (induction ts arbitrary: r)
  case Nil
  have "nat (Score (scores r ! j) - Score (scores r ! j) + 1) \<le> ahead r j"
    unfolding ahead_def by (rule nth_le_sum [OF Nil(1), of "\<lambda>s. nat (Score s - Score (scores r ! j) + 1)"])
  with Nil show ?case by simp
next
  case (Cons t ts)
  obtain r' mi where r': "recommand r t = (r', mi)" by (metis prod.exhaust)
  show ?case
  proof (cases "mi = (bs_Mode (scores r ! j), bs_Index (scores r ! j))")
    case False
    from ahead_decreases [OF Cons.prems(1) r' False] Cons.IH [of r'] Cons.prems r' show ?thesis by simp
  qed (simp add: r')
qed

section \<open>Invariant of the scores\<close>

definition score_ok :: "behaviorScore \<Rightarrow> bool" where
  "score_ok s \<longleftrightarrow> bs_Mode s \<le> 4 \<and> bs_Index s < length (getBehaviorByMode (bs_Mode s)) \<and> Score s \<le> 10"

definition records_ok :: "makeHoleRecords \<Rightarrow> bool" where
  "records_ok r \<longleftrightarrow> scores r \<noteq> [] \<and> list_all score_ok (scores r)"

definition analyzer_ok :: "Analyzer \<Rightarrow> bool" where
  "analyzer_ok a \<longleftrightarrow> (\<forall>k r. records a k = Some r \<longrightarrow> records_ok r)"

lemma mode_tables_nonempty: "getBehaviorByMode m \<noteq> []"
  by (simp add: getBehaviorByMode_def mode0Behaviors_def mode1Behaviors_def mode2Behaviors_def mode3Behaviors_def mode4Behaviors_def)

definition fresh_score :: "behaviorScore \<Rightarrow> bool" where
  "fresh_score s \<longleftrightarrow> bs_Mode s \<le> 4 \<and> bs_Index s < length (getBehaviorByMode (bs_Mode s)) \<and> 0 \<le> Score s \<and> Score s \<le> 1"

lemma fresh_mode:
  "m \<le> 4 \<Longrightarrow> 0 \<le> a \<Longrightarrow> a \<le> 1 \<Longrightarrow> 0 \<le> b \<Longrightarrow> b \<le> 1 \<Longrightarrow> list_all fresh_score (getBehaviorScoresByMode2 m a b)"
  by (simp add: getBehaviorScoresByMode2_def Let_def list_all_iff fresh_score_def)

lemma fresh_scores: "list_all fresh_score (scores (newMakeHoleRecords c v now))"
  by (simp add: newMakeHoleRecords_def mode0_scores_def getBehaviorScoresByMode_def fresh_mode split: prod.splits)

lemma fresh_nonempty: "scores (newMakeHoleRecords c v now) \<noteq> []"
  by (simp add: newMakeHoleRecords_def mode0_scores_def getBehaviorScoresByMode_def getBehaviorScoresByMode2_def Let_def
      mode_tables_nonempty split: prod.splits)

lemma fresh_ok: "records_ok (newMakeHoleRecords c v now)"
  using fresh_scores [of c v now] fresh_nonempty [of c v now]
  by (auto simp: records_ok_def list_all_iff score_ok_def fresh_score_def)

lemma recommand_ok:
  assumes "records_ok r" and "recommand r now = (r', mode, idx)"
  shows "records_ok r'" and "mode \<le> 4" and "idx < length (getBehaviorByMode mode)"
proof -
  let ?s = "scores r ! MaxFunc (scores r)"
  have ne: "scores r \<noteq> []" using assms(1) by (simp add: records_ok_def)
  have s: "score_ok ?s" using assms(1) MaxFunc_max(1) [OF ne] by (simp add: records_ok_def list_all_length)
  have r': "r' = r\<lparr>scores := (scores r)[MaxFunc (scores r) := ?s\<lparr>Score := Score ?s - 1\<rparr>], lastUpdateTime := now\<rparr>"
    "mode = bs_Mode ?s" "idx = bs_Index ?s" using assms(2) by (simp_all add: recommand_eq [OF ne refl])
  have "score_ok (?s\<lparr>Score := Score ?s - 1\<rparr>)" using s by (simp add: score_ok_def)
  then show "records_ok r'"
    using assms(1) ne MaxFunc_max(1) [OF ne] by (auto simp: records_ok_def r'(1) list_all_length nth_list_update)
  show "mode \<le> 4" "idx < length (getBehaviorByMode mode)" using s by (simp_all add: r' score_ok_def)
qed

lemma report_ok: "list_all score_ok ss \<Longrightarrow> list_all score_ok (report_scores mode idx ss)"
  by (induction ss) (auto simp: score_ok_def)

lemma reportSuccess_ok: "records_ok r \<Longrightarrow> records_ok (reportSuccess r mode idx now)"
  by (cases "scores r") (auto simp: records_ok_def reportSuccess_def score_ok_def report_ok)

text \<open>The calls of concurrent sessions on the analyzer, in any order.\<close>

datatype analyzer_op = OpRecommand string NatFeature NatFeature int | OpReport string nat nat int | OpClean int

fun analyzer_step :: "Analyzer \<Rightarrow> analyzer_op \<Rightarrow> Analyzer" where
  "analyzer_step a (OpRecommand key c v now) = fst (GetRecommandBehaviors a key c v now)"
| "analyzer_step a (OpReport key mode idx now) = ReportSuccess a key mode idx now"
| "analyzer_step a (OpClean now) = Clean a now"

lemma recommand_record_ok:
  assumes "analyzer_ok a"
  shows "records_ok (case records a key of None \<Rightarrow> newMakeHoleRecords c v now | Some r \<Rightarrow> r)"
  using assms fresh_ok by (auto simp: analyzer_ok_def split: option.splits)

interpretation analyzer: op_machine analyzer_step "\<lambda>_ _. True" analyzer_ok
proof
  fix a p
  assume a: "analyzer_ok a"
  show "analyzer_ok (analyzer_step a p)"
  proof (cases p)
    case (OpRecommand key c v now)
    let ?r = "case records a key of None \<Rightarrow> newMakeHoleRecords c v now | Some r \<Rightarrow> r"
    obtain r' mode idx where r: "recommand ?r now = (r', mode, idx)" by (metis prod.exhaust)
    with recommand_ok(1) [OF recommand_record_ok [OF a] r] a show ?thesis
      by (simp add: OpRecommand GetRecommandBehaviors_def Let_def analyzer_ok_def)
  next
    case (OpReport key mode idx now)
    with a reportSuccess_ok show ?thesis by (auto simp: ReportSuccess_def analyzer_ok_def split: option.splits)
  next
    case (OpClean now)
    with a show ?thesis by (auto simp: Clean_def analyzer_ok_def split: option.splits if_splits)
  qed
qed

lemma analyzer_reachable: "analyzer_ok (run_ops analyzer_step (NewAnalyzer d) ps)"
  by (rule analyzer.run_inv) (simp_all add: NewAnalyzer_def analyzer_ok_def)

section \<open>Properties\<close>

text \<open>The tables: the two columns have opposite roles; in modes 1, 2 and 4 the first one sends.\<close>

definition opposite :: "RecommandBehavior \<times> RecommandBehavior \<Rightarrow> bool" where
  "opposite b \<longleftrightarrow> {rb_Role (fst b), rb_Role (snd b)} = {DetectRoleSender, DetectRoleReceiver}"

lemma tables_opposite: "b \<in> set (getBehaviorByMode m) \<Longrightarrow> opposite b"
  by (auto simp: getBehaviorByMode_def mode0Behaviors_def mode1Behaviors_def mode2Behaviors_def mode3Behaviors_def
      mode4Behaviors_def opposite_def split: if_splits)

lemma tables_first_sends:
  "m \<in> {1, 2, 4} \<Longrightarrow> b \<in> set (getBehaviorByMode m) \<Longrightarrow> rb_Role (fst b) = DetectRoleSender \<and> rb_Role (snd b) = DetectRoleReceiver"
  by (auto simp: getBehaviorByMode_def mode1Behaviors_def mode2Behaviors_def mode4Behaviors_def split: if_splits)

text \<open>
  The two peers get complementary roles. After any history of recommendations, success reports
  and clean-ups, a recommendation makes one peer the sender and the other the receiver; in mode 1
  with one hard and one easy NAT the hard one sends, in mode 2 the hard one receives, and in mode 4
  with one regular NAT the regular one sends.
\<close>

lemma hole_roles:
  assumes "GetRecommandBehaviors (run_ops analyzer_step (NewAnalyzer d) ps) key c v now = (a', mode, idx, cB, vB)"
  shows "{rb_Role cB, rb_Role vB} = {DetectRoleSender, DetectRoleReceiver} \<and> mode \<le> 4 \<and>
    (mode = 1 \<and> NatType c \<noteq> NatType v \<longrightarrow> rb_Role (if NatType c = HardNAT then cB else vB) = DetectRoleSender) \<and>
    (mode = 2 \<and> NatType c \<noteq> NatType v \<longrightarrow> rb_Role (if NatType c = HardNAT then cB else vB) = DetectRoleReceiver) \<and>
    (mode = 4 \<and> RegularPortsChange c \<noteq> RegularPortsChange v \<longrightarrow>
       rb_Role (if RegularPortsChange c then cB else vB) = DetectRoleSender)"
proof -
  let ?a = "run_ops analyzer_step (NewAnalyzer d) ps"
  let ?r = "case records ?a key of None \<Rightarrow> newMakeHoleRecords c v now | Some r \<Rightarrow> r"
  obtain r' where r: "recommand ?r now = (r', mode, idx)" and o: "(cB, vB) = orient mode c (getBehaviorByModeAndIndex mode idx)"
    using assms by (auto simp: GetRecommandBehaviors_def Let_def split: prod.splits)
  note k = recommand_ok(2,3) [OF recommand_record_ok [OF analyzer_reachable] r]
  define b where "b = getBehaviorByModeAndIndex mode idx"
  have b: "b \<in> set (getBehaviorByMode mode)" using k(2) by (simp add: b_def getBehaviorByModeAndIndex_def Let_def)
  have cv: "(cB, vB) = b \<or> (cB, vB) = prod.swap b" using o by (auto simp: orient_def simp flip: b_def split: if_splits)
  then have "{rb_Role cB, rb_Role vB} = {rb_Role (fst b), rb_Role (snd b)}" by (cases b) auto
  then have "{rb_Role cB, rb_Role vB} = {DetectRoleSender, DetectRoleReceiver}"
    using tables_opposite [OF b] by (simp add: opposite_def)
  moreover have "NatType c = EasyNAT \<longleftrightarrow> NatType c \<noteq> HardNAT" by (cases "NatType c") auto
  ultimately show ?thesis
    using o tables_first_sends [OF _ b] k(1) by (cases b) (auto simp: orient_def simp flip: b_def split: if_splits)
qed

definition demo_easy :: NatFeature where
  "demo_easy = \<lparr>NatType = EasyNAT, Behavior = BehaviorNoChange, PortsDifference = 0, RegularPortsChange = False, PublicNetwork = False\<rparr>"

definition demo_hard :: NatFeature where
  "demo_hard = \<lparr>NatType = HardNAT, Behavior = BehaviorPortChanged, PortsDifference = 3, RegularPortsChange = True, PublicNetwork = False\<rparr>"

theorem hole_roles_witness:
  "\<exists>a' idx cB vB.
     GetRecommandBehaviors (run_ops analyzer_step (NewAnalyzer 60) [OpRecommand ''k'' demo_hard demo_easy 1, OpReport ''k'' 1 0 2])
       ''k'' demo_hard demo_easy 3 = (a', 1, idx, cB, vB) \<and> rb_Role cB = DetectRoleSender \<and> rb_Role vB = DetectRoleReceiver"
proof -
  let ?g = "GetRecommandBehaviors (run_ops analyzer_step (NewAnalyzer 60) [OpRecommand ''k'' demo_hard demo_easy 1, OpReport ''k'' 1 0 2])
       ''k'' demo_hard demo_easy 3"
  obtain a' mode idx cB vB where g: "?g = (a', mode, idx, cB, vB)" by (metis prod.exhaust)
  have "fst (snd ?g) = 1" by code_simp
  then have "mode = 1" using g by simp
  moreover have "NatType demo_hard = HardNAT" "NatType demo_easy = EasyNAT" by (simp_all add: demo_hard_def demo_easy_def)
  ultimately show ?thesis using hole_roles [OF g] g by (auto simp: doubleton_eq_iff)
qed

lemma sum_list_map_le: "(\<And>x. x \<in> set xs \<Longrightarrow> f x \<le> (c :: nat)) \<Longrightarrow> sum_list (map f xs) \<le> length xs * c"
  by (induction xs) (auto simp: add_mono)

lemma fresh_ahead:
  assumes "j < length (scores (newMakeHoleRecords c v now))"
  shows "ahead (newMakeHoleRecords c v now) j \<le> 2 * length (scores (newMakeHoleRecords c v now))"
proof -
  let ?ss = "scores (newMakeHoleRecords c v now)"
  have f: "fresh_score s" if "s \<in> set ?ss" for s using fresh_scores that by (simp add: list_all_iff)
  have "nat (Score s - Score (?ss ! j) + 1) \<le> 2" if "s \<in> set ?ss" for s
    using f [OF that] f [OF nth_mem [OF assms]] unfolding fresh_score_def by linarith
  then have "sum_list (map (\<lambda>s. nat (Score s - Score (?ss ! j) + 1)) ?ss) \<le> length ?ss * 2" by (rule sum_list_map_le)
  then show ?thesis by (simp add: ahead_def mult.commute)
qed

text \<open>
  No behaviour is starved. When a pair of peers meets for the first time and no attempt succeeds,
  every behaviour in the list for their kind of NATs is recommended within twice as many attempts as
  the list is long, and only behaviours from the tables are recommended.
\<close>

lemma every_behavior_tried:
  assumes "r = newMakeHoleRecords c v now" and "2 * length (scores r) \<le> length ts"
  shows "scores r \<noteq> [] \<and> (\<lambda>s. (bs_Mode s, bs_Index s)) ` set (scores r) \<subseteq> set (recommand_many r ts) \<and>
    (\<forall>s \<in> set (scores r). bs_Index s < length (getBehaviorByMode (bs_Mode s)))"
proof (intro conjI subsetI ballI)
  show "scores r \<noteq> []" unfolding assms(1) by (rule fresh_nonempty)
  show "bs_Index s < length (getBehaviorByMode (bs_Mode s))" if "s \<in> set (scores r)" for s
    using fresh_scores [of c v now] that by (simp add: assms(1) list_all_iff fresh_score_def)
  fix x
  assume "x \<in> (\<lambda>s. (bs_Mode s, bs_Index s)) ` set (scores r)"
  then obtain j where j: "j < length (scores r)" "x = (bs_Mode (scores r ! j), bs_Index (scores r ! j))"
    by (auto simp: in_set_conv_nth)
  have "ahead r j \<le> length ts" using fresh_ahead j(1) assms by fastforce
  with eventually_recommanded [OF j(1)] j(2) show "x \<in> set (recommand_many r ts)" by simp
qed

theorem every_behavior_tried_witness:
  "(4, 2) \<in> set (recommand_many (newMakeHoleRecords demo_hard (demo_hard\<lparr>RegularPortsChange := False\<rparr>) 0) [1, 2, 3, 4, 5, 6])"
proof -
  let ?r = "newMakeHoleRecords demo_hard (demo_hard\<lparr>RegularPortsChange := False\<rparr>) 0"
  have m: "map (\<lambda>s. (bs_Mode s, bs_Index s)) (scores ?r) = [(4, 0), (4, 1), (4, 2)]" by code_simp
  have l: "length (scores ?r) = 3" by code_simp
  have "(\<lambda>s. (bs_Mode s, bs_Index s)) ` set (scores ?r) = set [(4, 0), (4, 1), (4, 2)]" unfolding m [symmetric] by simp
  with l every_behavior_tried [of ?r demo_hard "demo_hard\<lparr>RegularPortsChange := False\<rparr>" 0 "[1, 2, 3, 4, 5, 6]"]
  show ?thesis by auto
qed

text \<open>
  Two things that the comments promise and the scores do not keep: the peer on a public network is
  preferred as the receiver, but after five unsuccessful attempts it is made the sender; and a score
  that only ever falls leaves the interval from -10 to 10.
\<close>

lemma public_network_becomes_sender:
  "let r = newMakeHoleRecords (demo_easy\<lparr>PublicNetwork := True\<rparr>) demo_easy 0 in
   map (\<lambda>(m, i). rb_Role (fst (getBehaviorByModeAndIndex m i))) (recommand_many r [1, 2, 3, 4, 5, 6]) =
     [DetectRoleReceiver, DetectRoleReceiver, DetectRoleReceiver, DetectRoleReceiver, DetectRoleReceiver, DetectRoleSender]"
  by code_simp

primrec recommand_n :: "nat \<Rightarrow> makeHoleRecords \<Rightarrow> makeHoleRecords" where
  "recommand_n 0 r = r"
| "recommand_n (Suc n) r = recommand_n n (fst (recommand r 0))"

lemma score_below_minus_ten:
  "list_all (\<lambda>s. Score s = - 11) (scores (recommand_n 33 (newMakeHoleRecords demo_hard (demo_hard\<lparr>RegularPortsChange := False\<rparr>) 0)))"
  by code_simp

subsection \<open>Classification\<close>

definition addr_host :: "string \<Rightarrow> string" where "addr_host a = fst (the (SplitHostPort a))"

definition addr_port :: "string \<Rightarrow> string" where "addr_port a = snd (the (SplitHostPort a))"

definition addr_num :: "string \<Rightarrow> int" where "addr_num a = the (Atoi (addr_port a))"

definition addr_ok :: "string \<Rightarrow> bool" where
  "addr_ok a = (case SplitHostPort a of None \<Rightarrow> False | Some (h, p) \<Rightarrow> h \<noteq> [] \<and> \<not> Option.is_none (Atoi p))"

lemma addr_okD:
  assumes "addr_ok a"
  shows "SplitHostPort a = Some (addr_host a, addr_port a)" and "Atoi (addr_port a) = Some (addr_num a)" and "addr_host a \<noteq> []"
  using assms by (auto simp: addr_ok_def addr_host_def addr_port_def addr_num_def Option.is_none_def split: option.splits)

lemma classify_loop_eq:
  assumes "cv_baseIP v \<noteq> []" and "list_all addr_ok addrs"
  shows "classify_loop L addrs v = Some (v
    \<lparr>cv_portMax := fold max (map addr_num addrs) (cv_portMax v), cv_portMin := fold min (map addr_num addrs) (cv_portMin v),
     cv_ipChanged := cv_ipChanged v \<or> (\<exists>a \<in> set addrs. addr_host a \<noteq> cv_baseIP v),
     cv_portChanged := cv_portChanged v \<or> (\<exists>a \<in> set addrs. addr_port a \<noteq> cv_basePort v),
     cv_public := cv_public v \<or> (\<exists>a \<in> set addrs. addr_host a \<in> set L)\<rparr>)"
  using assms
proof (induction addrs arbitrary: v)
  case (Cons a addrs)
  note a = addr_okD [of a] and ok = Cons.prems(2)
  let ?v = "v\<lparr>cv_public := cv_public v \<or> addr_host a \<in> set L, cv_portMax := max (cv_portMax v) (addr_num a),
    cv_portMin := min (cv_portMin v) (addr_num a), cv_ipChanged := cv_ipChanged v \<or> cv_baseIP v \<noteq> addr_host a,
    cv_portChanged := cv_portChanged v \<or> cv_basePort v \<noteq> addr_port a\<rparr>"
  have "classify_loop L (a # addrs) v = classify_loop L addrs ?v"
    using a ok Cons.prems(1) by (simp add: Let_def)
  also have "\<dots> = Some (?v
    \<lparr>cv_portMax := fold max (map addr_num addrs) (cv_portMax ?v), cv_portMin := fold min (map addr_num addrs) (cv_portMin ?v),
     cv_ipChanged := cv_ipChanged ?v \<or> (\<exists>a \<in> set addrs. addr_host a \<noteq> cv_baseIP ?v),
     cv_portChanged := cv_portChanged ?v \<or> (\<exists>a \<in> set addrs. addr_port a \<noteq> cv_basePort ?v),
     cv_public := cv_public ?v \<or> (\<exists>a \<in> set addrs. addr_host a \<in> set L)\<rparr>)"
    by (rule Cons.IH) (use Cons.prems in simp_all)
  also have "\<dots> = Some (v
    \<lparr>cv_portMax := fold max (map addr_num (a # addrs)) (cv_portMax v), cv_portMin := fold min (map addr_num (a # addrs)) (cv_portMin v),
     cv_ipChanged := cv_ipChanged v \<or> (\<exists>a \<in> set (a # addrs). addr_host a \<noteq> cv_baseIP v),
     cv_portChanged := cv_portChanged v \<or> (\<exists>a \<in> set (a # addrs). addr_port a \<noteq> cv_basePort v),
     cv_public := cv_public v \<or> (\<exists>a \<in> set (a # addrs). addr_host a \<in> set L)\<rparr>)"
    by (intro arg_cong [where f = Some] classify_vars.equality) (auto simp: max.commute min.commute)
  finally show ?case .
qed simp

text \<open>
  The classification of a NAT. For at least two addresses with a host and a numeric port, the NAT
  is easy exactly when all the mapped addresses agree in host and port; the behaviour says which of
  the two differ; a change of ports is regular exactly when the hosts agree and the ports lie one to
  five apart; and the network is public exactly when some mapped host is a local address.
\<close>

lemma classify_correct:
  assumes "length addrs \<ge> 2" and "list_all addr_ok addrs"
  shows "\<exists>f. ClassifyNATFeature addrs L = Some f \<and>
    (let sameHost = (\<forall>a \<in> set addrs. addr_host a = addr_host (hd addrs));
         samePort = (\<forall>a \<in> set addrs. addr_port a = addr_port (hd addrs));
         d = Max (addr_num ` set addrs) - Min (addr_num ` set addrs)
     in (NatType f = EasyNAT \<longleftrightarrow> sameHost \<and> samePort) \<and>
        (Behavior f = BehaviorNoChange \<longleftrightarrow> sameHost \<and> samePort) \<and>
        (Behavior f = BehaviorIPChanged \<longleftrightarrow> \<not> sameHost \<and> samePort) \<and>
        (Behavior f = BehaviorPortChanged \<longleftrightarrow> sameHost \<and> \<not> samePort) \<and>
        (RegularPortsChange f \<longleftrightarrow> sameHost \<and> \<not> samePort \<and> 1 \<le> d \<and> d \<le> 5) \<and>
        (PublicNetwork f \<longleftrightarrow> (\<exists>a \<in> set addrs. addr_host a \<in> set L)))"
proof -
  obtain a as where as: "addrs = a # as" using assms(1) by (cases addrs) auto
  note a = addr_okD [of a]
  let ?v = "classify_init\<lparr>cv_public := addr_host a \<in> set L, cv_baseIP := addr_host a, cv_basePort := addr_port a,
    cv_portMax := addr_num a, cv_portMin := addr_num a\<rparr>"
  have l: "classify_loop L addrs classify_init = classify_loop L as ?v"
    using assms(2) a by (simp add: as Let_def classify_init_def)
  have e: "classify_loop L as ?v = Some (?v
    \<lparr>cv_portMax := fold max (map addr_num as) (cv_portMax ?v), cv_portMin := fold min (map addr_num as) (cv_portMin ?v),
     cv_ipChanged := cv_ipChanged ?v \<or> (\<exists>a \<in> set as. addr_host a \<noteq> cv_baseIP ?v),
     cv_portChanged := cv_portChanged ?v \<or> (\<exists>a \<in> set as. addr_port a \<noteq> cv_basePort ?v),
     cv_public := cv_public ?v \<or> (\<exists>a \<in> set as. addr_host a \<in> set L)\<rparr>)"
    by (rule classify_loop_eq) (use assms(2) a in \<open>simp_all add: as\<close>)
  have mm: "fold max (map addr_num as) (addr_num a) = Max (addr_num ` set addrs)"
    "fold min (map addr_num as) (addr_num a) = Min (addr_num ` set addrs)"
    by (simp_all add: as Max.set_eq_fold [of "addr_num a" "map addr_num as", simplified, symmetric]
        Min.set_eq_fold [of "addr_num a" "map addr_num as", simplified, symmetric])
  have r: "ClassifyNATFeature addrs L = Some (feature_of (?v
    \<lparr>cv_portMax := Max (addr_num ` set addrs), cv_portMin := Min (addr_num ` set addrs),
     cv_ipChanged := \<exists>a' \<in> set as. addr_host a' \<noteq> addr_host a, cv_portChanged := \<exists>a' \<in> set as. addr_port a' \<noteq> addr_port a,
     cv_public := addr_host a \<in> set L \<or> (\<exists>a' \<in> set as. addr_host a' \<in> set L)\<rparr>))"
    using assms(1) unfolding ClassifyNATFeature_def l e by (simp add: mm classify_init_def)
  show ?thesis unfolding r by (rule exI, rule conjI [OF refl]) (auto simp: feature_of_def Let_def as)
qed

theorem classify_correct_witness:
  "\<exists>f. ClassifyNATFeature [''9.9.9.9:4001'', ''9.9.9.9:4004''] [] = Some f \<and> RegularPortsChange f \<and> NatType f \<noteq> EasyNAT"
proof -
  let ?as = "[''9.9.9.9:4001'', ''9.9.9.9:4004'']"
  have "list_all addr_ok ?as" by code_simp
  moreover have "map addr_host ?as = [''9.9.9.9'', ''9.9.9.9'']" "map addr_port ?as = [''4001'', ''4004'']"
    "map addr_num ?as = [4001, 4004]" by code_simp+
  ultimately show ?thesis using classify_correct [of ?as "[]"] by (auto simp: Let_def)
qed

end
