(* ===== verification/PeerTls.thy ===== *)
theory PeerTls
  imports Binding
begin

text \<open>
  The certificates of the XTCP peers and the TLS configuration that pins them
  (\<open>pkg/xtcpbinding/peer.go\<close>). A parsed certificate is a record of what the code reads of it; parsing
  and the verdicts of \<open>crypto/x509\<close> (host name, signature, chain) are its fields, because they are
  computed by that library. The two sides are named as in \<open>Binding\<close>.
\<close>

datatype ext_key_usage = ServerAuth | ClientAuth | OtherUsage

record san_name =
  sn_ContextSpecific :: bool
  sn_Tag :: nat
  sn_IsCompound :: bool
  sn_Bytes :: string

record Certificate =
  c_PublicKey_P256 :: bool
  c_RawSPKI :: bytes
  c_DNSNames :: "string list"
  c_IPAddresses :: "string list"
  c_EmailAddresses :: "string list"
  c_URIs :: "string list"
  c_KeyUsageDigitalSignature :: bool
  c_SAN_Extensions :: "san_name list option list"
  c_VerifyHostname :: "string \<Rightarrow> bool"
  c_CheckSignature :: bool
  c_ExtKeyUsage :: "ext_key_usage list"
  c_UnknownExtKeyUsage :: nat
  c_Verify :: "ext_key_usage \<Rightarrow> string \<Rightarrow> bool"

definition PeerName :: "byte \<Rightarrow> string" where
  "PeerName role =
     (if role = Provider then ''esp-frp-xtcp-provider'' else if role = Visitor then ''esp-frp-xtcp-visitor'' else [])"

text \<open>A subject alternative name extension is \<open>None\<close> when it does not parse or leaves a rest.\<close>

definition san_ok :: "byte \<Rightarrow> san_name list option \<Rightarrow> bool" where
  "san_ok role ext =
     (case ext of
        Some [n] \<Rightarrow> sn_ContextSpecific n \<and> sn_Tag n = 2 \<and> \<not> sn_IsCompound n \<and> sn_Bytes n = PeerName role
      | _ \<Rightarrow> False)"

definition cert_usage :: "byte \<Rightarrow> ext_key_usage" where
  "cert_usage role = (if role = Visitor then ClientAuth else ServerAuth)"

definition ValidateCertificate ::
    "(bytes \<Rightarrow> bytes) \<Rightarrow> (bytes \<Rightarrow> Certificate option) \<Rightarrow> byte \<Rightarrow> bytes \<Rightarrow> bytes \<Rightarrow> Certificate option" where
  "ValidateCertificate H parse role der expectedSPKI =
     (if der = [] \<or> length der > 1024 \<or> length expectedSPKI \<noteq> 32 \<or> PeerName role = [] then None
      else case parse der of
        None \<Rightarrow> None
      | Some cert \<Rightarrow>
          if \<not> c_PublicKey_P256 cert then None
          else if H (c_RawSPKI cert) \<noteq> expectedSPKI then None
          else if length (c_DNSNames cert) \<noteq> 1 \<or> hd (c_DNSNames cert) \<noteq> PeerName role \<or> c_IPAddresses cert \<noteq> [] \<or>
                  c_EmailAddresses cert \<noteq> [] \<or> c_URIs cert \<noteq> [] \<or> \<not> c_KeyUsageDigitalSignature cert
          then None
          else if \<not> list_all (san_ok role) (c_SAN_Extensions cert) then None
          else if \<not> c_VerifyHostname cert (PeerName role) then None
          else if \<not> c_CheckSignature cert then None
          else if length (c_ExtKeyUsage cert) \<noteq> 1 \<or> hd (c_ExtKeyUsage cert) \<noteq> cert_usage role \<or> c_UnknownExtKeyUsage cert \<noteq> 0
          then None
          else if \<not> c_Verify cert (cert_usage role) (PeerName role) then None
          else Some cert)"

text \<open>The part of \<open>tls.Config\<close> that a peer sets, and what a finished handshake shows of the other side.\<close>

record tls_config =
  tc_Root :: Certificate
  tc_ServerName :: string
  tc_NextProto :: string
  tc_TLS13_only :: bool
  tc_RequireClientCert :: bool
  tc_pin :: bytes

record connection_state =
  cs_NegotiatedProtocol :: string
  cs_TLS13 :: bool
  cs_PeerCertificates :: "Certificate list"

definition PeerTLS ::
    "(bytes \<Rightarrow> bytes) \<Rightarrow> (bytes \<Rightarrow> Certificate option) \<Rightarrow> bool \<Rightarrow> bytes \<Rightarrow> Manifest \<Rightarrow> byte \<Rightarrow> tls_config option" where
  "PeerTLS H parse haveLocal peerDER m role =
     (if \<not> haveLocal \<or> (role \<noteq> Provider \<and> role \<noteq> Visitor) then None
      else
        let peerRole = (if role = Visitor then Provider else Visitor);
            expected = (if role = Visitor then ProviderSPKI m else VisitorSPKI m)
        in (case ValidateCertificate H parse peerRole peerDER expected of
              None \<Rightarrow> None
            | Some cert \<Rightarrow>
                Some \<lparr>tc_Root = cert, tc_ServerName = PeerName peerRole, tc_NextProto = ALPN, tc_TLS13_only = True,
                      tc_RequireClientCert = (role = Provider), tc_pin = expected\<rparr>))"

definition VerifyConnection :: "(bytes \<Rightarrow> bytes) \<Rightarrow> tls_config \<Rightarrow> connection_state \<Rightarrow> bool" where
  "VerifyConnection H cfg s =
     (if cs_NegotiatedProtocol s \<noteq> ALPN \<or> \<not> cs_TLS13 s \<or> length (cs_PeerCertificates s) \<noteq> 1 then False
      else H (c_RawSPKI (hd (cs_PeerCertificates s))) = tc_pin cfg)"

section \<open>Properties\<close>

lemma Provider_Visitor [simp]: "Provider \<noteq> Visitor" "Visitor \<noteq> Provider"
  by (simp_all add: Provider_def Visitor_def)

lemma ValidateCertificate_SomeD:
  assumes "ValidateCertificate H parse role der spki = Some cert"
  shows "parse der = Some cert" and "H (c_RawSPKI cert) = spki" and "length spki = 32" and "role = Provider \<or> role = Visitor"
    and "c_DNSNames cert = [PeerName role]" and "c_ExtKeyUsage cert = [cert_usage role]"
  using assms
  by (auto simp: ValidateCertificate_def PeerName_def length_Suc_conv split: if_splits option.splits)


definition demo_cert :: Certificate where
  "demo_cert =
     \<lparr>c_PublicKey_P256 = True, c_RawSPKI = replicate 32 6, c_DNSNames = [PeerName Provider], c_IPAddresses = [],
      c_EmailAddresses = [], c_URIs = [], c_KeyUsageDigitalSignature = True,
      c_SAN_Extensions = [Some [\<lparr>sn_ContextSpecific = True, sn_Tag = 2, sn_IsCompound = False, sn_Bytes = PeerName Provider\<rparr>]],
      c_VerifyHostname = (\<lambda>n. n = PeerName Provider), c_CheckSignature = True, c_ExtKeyUsage = [ServerAuth],
      c_UnknownExtKeyUsage = 0, c_Verify = (\<lambda>u n. u = ServerAuth \<and> n = PeerName Provider)\<rparr>"


end
