(* ===== verification/NatHole.thy ===== *)
theory NatHole
  imports NatAnalysis PeerTls Util Msg
begin

text \<open>
  The rendezvous of XTCP peers (\<open>pkg/nathole/controller.go\<close>). Providers and sessions are objects that
  goroutines keep after they were taken out of the controller's maps, so they live in heaps; a
  channel that is only closed is a flag, and \<open>None\<close> is the panic of closing it twice. The goroutine of
  a visitor (\<open>HandleVisitor\<close>) is a sequence of steps; every other method holds the mutex and is one
  step. The clock, the random bytes, HMAC, MD5, SHA-256 and the certificate parser are arguments.
\<close>

section \<open>Data\<close>

record ClientCfg =
  cc_name :: string
  cc_sk :: string
  cc_allowUsers :: "string list"
  cc_ownerControl :: bytes
  cc_closed :: bool

record Session =
  s_sid :: string
  s_analysisKey :: string
  s_recommandMode :: nat
  s_recommandIndex :: nat
  s_visitorMsg :: NatHoleVisitor
  s_visitorTransporter :: nat
  s_clientMsg :: "NatHoleClient option"
  s_clientTransporter :: nat
  s_notify :: bool
  s_visitorControl :: bytes
  s_providerControl :: bytes
  s_done :: bool
  s_cfg :: nat

text \<open>\<open>sent\<close> records the responses that were given to a transporter.\<close>

record Controller =
  controls :: "bytes set"
  clientCfgs :: "string \<rightharpoonup> nat"
  sessions :: "string \<rightharpoonup> nat"
  analyzer :: Analyzer
  cfgs :: "nat \<Rightarrow> ClientCfg"
  n_cfgs :: nat
  sess :: "nat \<Rightarrow> Session"
  n_sess :: nat
  sent :: "(nat \<times> NatHoleResp) list"

record nh_env =
  e_mac :: "bytes \<Rightarrow> bytes \<Rightarrow> bytes"
  e_sha256 :: "bytes \<Rightarrow> bytes"
  e_md5 :: "bytes \<Rightarrow> bytes"
  e_parse :: "bytes \<Rightarrow> Certificate option"

definition NatHoleTimeout :: int where "NatHoleTimeout = 10"

definition set_sess :: "Controller \<Rightarrow> nat \<Rightarrow> Session \<Rightarrow> Controller" where
  "set_sess c q s = c\<lparr>sess := (sess c)(q := s)\<rparr>"

definition send_resp :: "nat \<Rightarrow> NatHoleResp \<Rightarrow> Controller \<Rightarrow> Controller" where
  "send_resp t r c = c\<lparr>sent := sent c @ [(t, r)]\<rparr>"

definition no_behavior :: NatHoleDetectBehavior where
  "no_behavior =
     \<lparr>Role = [], Mode = 0, TTL = 0, SendDelayMs = 0, ReadTimeoutMs = 0, CandidatePorts = [], SendRandomPorts = 0,
      ListenRandomPorts = 0\<rparr>"

definition GenNatHoleResponse :: "string \<Rightarrow> Session option \<Rightarrow> string \<Rightarrow> NatHoleResp" where
  "GenNatHoleResponse transactionID session errInfo =
     \<lparr>hr_BindingManifest = [], hr_PeerCertificate = [], hr_TransactionID = transactionID,
      hr_Sid = (case session of None \<Rightarrow> [] | Some s \<Rightarrow> s_sid s), hr_Protocol = [],
      hr_CandidateAddrs = [], hr_AssistedAddrs = [], hr_DetectBehavior = no_behavior, hr_Error = errInfo\<rparr>"

section \<open>Controls and providers\<close>

definition NewController :: "int \<Rightarrow> (nat \<Rightarrow> ClientCfg) \<Rightarrow> (nat \<Rightarrow> Session) \<Rightarrow> Controller" where
  "NewController reserve cs ss =
     \<lparr>controls = {}, clientCfgs = Map.empty, sessions = Map.empty, analyzer = NewAnalyzer reserve, cfgs = cs, n_cfgs = 0,
      sess = ss, n_sess = 0, sent = []\<rparr>"

definition RegisterControl :: "Controller \<Rightarrow> bytes \<Rightarrow> Controller \<times> binding_err option" where
  "RegisterControl c controlID =
     (case ID controlID of
        Inl e \<Rightarrow> (c, Some e)
      | Inr i \<Rightarrow> if i \<in> controls c then (c, Some ErrBinding) else (c\<lparr>controls := insert i (controls c)\<rparr>, None))"

datatype listen_err = ListenBinding binding_err | ListenRepeated string

definition ListenClient ::
    "Controller \<Rightarrow> string \<Rightarrow> string \<Rightarrow> string list \<Rightarrow> bytes \<Rightarrow> Controller \<times> (listen_err + nat)" where
  "ListenClient c name sk allowUsers ownerControlID =
     (case ID ownerControlID of
        Inl e \<Rightarrow> (c, Inl (ListenBinding e))
      | Inr owner \<Rightarrow>
          if owner \<notin> controls c then (c, Inl (ListenBinding ErrBinding))
          else if \<not> Option.is_none (clientCfgs c name) then (c, Inl (ListenRepeated name))
          else let p = n_cfgs c;
                   cfg = \<lparr>cc_name = name, cc_sk = sk, cc_allowUsers = allowUsers, cc_ownerControl = owner, cc_closed = False\<rparr>
               in (c\<lparr>clientCfgs := (clientCfgs c)(name \<mapsto> p), cfgs := (cfgs c)(p := cfg), n_cfgs := Suc p\<rparr>, Inr p))"

text \<open>
  \<open>delete\<close> from a map and \<open>close\<close> of the object's channel, which panics if it is closed: the loops that
  delete while they iterate, over the keys in the order of the iteration.
\<close>

fun drop_objs ::
    "('o \<Rightarrow> bool) \<Rightarrow> ('o \<Rightarrow> bool) \<Rightarrow> ('o \<Rightarrow> 'o) \<Rightarrow> 'k list \<Rightarrow> ('k \<rightharpoonup> nat) \<times> (nat \<Rightarrow> 'o) \<Rightarrow>
     (('k \<rightharpoonup> nat) \<times> (nat \<Rightarrow> 'o)) option" where
  "drop_objs P closed mark [] mh = Some mh"
| "drop_objs P closed mark (k # ks) (m, h) =
     (case m k of
        None \<Rightarrow> drop_objs P closed mark ks (m, h)
      | Some a \<Rightarrow>
          if P (h a)
          then if closed (h a) then None
               else drop_objs P closed mark ks (m(k := None), h(a := mark (h a)))
          else drop_objs P closed mark ks (m, h))"

definition drop_cfgs :: "(ClientCfg \<Rightarrow> bool) \<Rightarrow> string list \<Rightarrow> Controller \<Rightarrow> Controller option" where
  "drop_cfgs P names c =
     map_option (\<lambda>mh. c\<lparr>clientCfgs := fst mh, cfgs := snd mh\<rparr>)
       (drop_objs P cc_closed (\<lambda>cfg. cfg\<lparr>cc_closed := True\<rparr>) names (clientCfgs c, cfgs c))"

definition drop_sessions :: "(Session \<Rightarrow> bool) \<Rightarrow> string list \<Rightarrow> Controller \<Rightarrow> Controller option" where
  "drop_sessions P sids c =
     map_option (\<lambda>mh. c\<lparr>sessions := fst mh, sess := snd mh\<rparr>)
       (drop_objs P s_done (\<lambda>s. s\<lparr>s_done := True\<rparr>) sids (sessions c, sess c))"

definition CloseClient :: "Controller \<Rightarrow> string list \<Rightarrow> string \<Rightarrow> bytes \<Rightarrow> Controller option" where
  "CloseClient c sids name ownerControlID =
     (case clientCfgs c name of
        None \<Rightarrow> Some c
      | Some p \<Rightarrow>
          let owner = cc_ownerControl (cfgs c p) in
          if ownerControlID \<noteq> owner then Some c
          else (case drop_cfgs (\<lambda>_. True) [name] c of
                  None \<Rightarrow> None
                | Some c' \<Rightarrow>
                    drop_sessions (\<lambda>s. hv_ProxyName (s_visitorMsg s) = name \<and> s_providerControl s = owner) sids c'))"

definition CloseControl :: "Controller \<Rightarrow> string list \<Rightarrow> string list \<Rightarrow> bytes \<Rightarrow> Controller option" where
  "CloseControl c names sids controlID =
     (case ID controlID of
        Inl _ \<Rightarrow> Some c
      | Inr i \<Rightarrow>
          (case drop_cfgs (\<lambda>cfg. cc_ownerControl cfg = controlID) names (c\<lparr>controls := controls c - {i}\<rparr>) of
             None \<Rightarrow> None
           | Some c' \<Rightarrow>
               drop_sessions (\<lambda>s. s_providerControl s = controlID \<or> s_visitorControl s = controlID) sids c'))"

section \<open>Visitors\<close>

definition ErrBinding_text :: string where "ErrBinding_text = ''XTCP candidate binding rejected''"

definition GenSid :: "bytes option \<Rightarrow> string" where
  "GenSid rand = (case rand of None \<Rightarrow> [] | Some b \<Rightarrow> hex_of b)"

definition user_allowed :: "ClientCfg \<Rightarrow> string \<Rightarrow> bool" where
  "user_allowed cfg user \<longleftrightarrow> user \<in> set (cc_allowUsers cfg) \<or> ''*'' \<in> set (cc_allowUsers cfg)"

definition no_server :: "string \<Rightarrow> string" where
  "no_server name = ''xtcp server for ['' @ name @ ''] doesn't exist''"

definition not_allowed :: "string \<Rightarrow> string \<Rightarrow> string" where
  "not_allowed user name = ''xtcp visitor user ['' @ user @ ''] not allowed for ['' @ name @ '']''"

text \<open>
  The checks that \<open>HandleVisitor\<close> makes under the mutex before it publishes the session. The texts of
  errors that come from \<open>crypto/x509\<close> are not distinguished.
\<close>

definition visitor_admitted :: "nh_env \<Rightarrow> Controller \<Rightarrow> int \<Rightarrow> NatHoleVisitor \<Rightarrow> string \<Rightarrow> bytes \<Rightarrow> string + nat" where
  "visitor_admitted env c now m user caller =
     (if caller \<notin> controls c then Inl ErrBinding_text
      else case clientCfgs c (hv_ProxyName m) of
        None \<Rightarrow> Inl (no_server (hv_ProxyName m))
      | Some p \<Rightarrow>
          let cfg = cfgs c p in
          if \<not> user_allowed cfg user then Inl (not_allowed user (hv_ProxyName m))
          else if hv_Protocol m \<noteq> ''quic'' \<or> now - hv_Timestamp m > 5 \<or> hv_Timestamp m - now > 5 \<or> hv_ControlID m \<noteq> caller
          then Inl ErrBinding_text
          else if SignalProof (e_mac env) (cc_sk cfg) Visitor (hv_ProxyName m) (hv_ControlID m) (hv_Nonce m) (hv_SPKISHA256 m)
                    (hv_Timestamp m) \<noteq> Inr (hv_SignalProof m)
          then Inl ErrBinding_text
          else (case ValidateCertificate (e_sha256 env) (e_parse env) Visitor (hv_Certificate m) (hv_SPKISHA256 m) of
                  None \<Rightarrow> Inl ErrBinding_text
                | Some _ \<Rightarrow> Inr p))"

definition pre_check :: "Controller \<Rightarrow> NatHoleVisitor \<Rightarrow> string \<Rightarrow> bytes \<Rightarrow> string" where
  "pre_check c m user caller =
     (if caller \<notin> controls c then ''closed control''
      else case clientCfgs c (hv_ProxyName m) of
        None \<Rightarrow> no_server (hv_ProxyName m)
      | Some p \<Rightarrow> if \<not> user_allowed (cfgs c p) user then not_allowed user (hv_ProxyName m) else [])"

text \<open>The first part of \<open>HandleVisitor\<close>; the result is the session that was published, if any.\<close>

definition HandleVisitor_admit ::
    "nh_env \<Rightarrow> bytes option \<Rightarrow> int \<Rightarrow> Controller \<Rightarrow> NatHoleVisitor \<Rightarrow> nat \<Rightarrow> string \<Rightarrow> bytes \<Rightarrow> Controller \<times> nat option" where
  "HandleVisitor_admit env rand now c m t user callerControlID =
     (let fail = (\<lambda>err. (send_resp t (GenNatHoleResponse (hv_TransactionID m) None err) c, None)) in
      case ID callerControlID of
        Inl _ \<Rightarrow> fail ''candidate authenticated control required''
      | Inr caller \<Rightarrow>
          if hv_PreCheck m then fail (pre_check c m user caller)
          else
            let sid = GenSid rand in
            if sid = [] then fail ''SID entropy failure''
            else (case visitor_admitted env c now m user caller of
                    Inl err \<Rightarrow> fail err
                  | Inr p \<Rightarrow>
                      let q = n_sess c;
                          s = \<lparr>s_sid = sid, s_analysisKey = [], s_recommandMode = 0, s_recommandIndex = 0, s_visitorMsg = m,
                               s_visitorTransporter = t, s_clientMsg = None, s_clientTransporter = 0, s_notify = False,
                               s_visitorControl = caller, s_providerControl = cc_ownerControl (cfgs c p), s_done = False,
                               s_cfg = p\<rparr>
                      in ((set_sess c q s)\<lparr>sessions := (sessions c)(sid \<mapsto> q), n_sess := Suc q\<rparr>, Some q)))"

text \<open>The deferred function of \<open>HandleVisitor\<close>.\<close>

definition visitor_cleanup :: "Controller \<Rightarrow> nat \<Rightarrow> Controller option" where
  "visitor_cleanup c q =
     (if sessions c (s_sid (sess c q)) = Some q then drop_sessions (\<lambda>_. True) [s_sid (sess c q)] c else Some c)"

section \<open>Providers\<close>

definition HandleClient ::
    "nh_env \<Rightarrow> int \<Rightarrow> Controller \<Rightarrow> NatHoleClient \<Rightarrow> nat \<Rightarrow> bytes \<Rightarrow> Controller" where
  "HandleClient env now c m t callerControlID =
     (case ID callerControlID of
        Inl _ \<Rightarrow> c
      | Inr caller \<Rightarrow>
          if caller \<notin> controls c then c
          else case sessions c (hc_Sid m) of
            None \<Rightarrow> c
          | Some q \<Rightarrow>
              let s = sess c q in
              if \<not> Option.is_none (s_clientMsg s) \<or> hc_ProxyName m \<noteq> hv_ProxyName (s_visitorMsg s) \<or>
                 callerControlID \<noteq> s_providerControl s \<or> hc_ControlID m \<noteq> callerControlID
              then c
              else case clientCfgs c (hc_ProxyName m) of
                None \<Rightarrow> c
              | Some p \<Rightarrow>
                  if cc_ownerControl (cfgs c p) \<noteq> s_providerControl s \<or> now - hc_Timestamp m > 5 \<or> hc_Timestamp m - now > 5
                  then c
                  else if SignalProof (e_mac env) (cc_sk (cfgs c p)) Provider (hc_ProxyName m) (hc_ControlID m) (hc_Nonce m)
                            (hc_SPKISHA256 m) (hc_Timestamp m) \<noteq> Inr (hc_SignalProof m)
                  then c
                  else (case ValidateCertificate (e_sha256 env) (e_parse env) Provider (hc_Certificate m) (hc_SPKISHA256 m) of
                          None \<Rightarrow> c
                        | Some _ \<Rightarrow> set_sess c q (s\<lparr>s_clientMsg := Some m, s_clientTransporter := t, s_notify := True\<rparr>)))"

definition HandleReport :: "int \<Rightarrow> Controller \<Rightarrow> NatHoleReport \<Rightarrow> bytes \<Rightarrow> Controller" where
  "HandleReport now c m callerControlID =
     (case sessions c (rp_Sid m) of
        None \<Rightarrow> c
      | Some q \<Rightarrow>
          (case ID callerControlID of
             Inl _ \<Rightarrow> c
           | Inr caller \<Rightarrow>
               if caller \<notin> controls c then c
               else if callerControlID \<noteq> s_providerControl (sess c q) \<and> callerControlID \<noteq> s_visitorControl (sess c q) then c
               else if rp_Success m
               then c\<lparr>analyzer := ReportSuccess (analyzer c) (s_analysisKey (sess c q)) (s_recommandMode (sess c q))
                        (s_recommandIndex (sess c q)) now\<rparr>
               else c))"

section \<open>The decision\<close>

definition parseIPs :: "string list \<Rightarrow> string list" where
  "parseIPs addrs = List.map_filter (\<lambda>a. map_option fst (SplitHostPort a)) addrs"

text \<open>\<open>slices.Compact\<close>: the result, and the argument's array, whose obsolete elements it clears.\<close>

definition Compact :: "string list \<Rightarrow> string list" where
  "Compact xs = remdups_adj xs"

definition Compact_array :: "string list \<Rightarrow> string list" where
  "Compact_array xs = Compact xs @ replicate (length xs - length (Compact xs)) []"

fun behavior_text :: "nat_behavior \<Rightarrow> string" where
  "behavior_text BehaviorNoChange = ''BehaviorNoChange''"
| "behavior_text BehaviorIPChanged = ''BehaviorIPChanged''"
| "behavior_text BehaviorPortChanged = ''BehaviorPortChanged''"
| "behavior_text BehaviorBothChanged = ''BehaviorBothChanged''"

fun type_text :: "nat_type \<Rightarrow> string" where
  "type_text EasyNAT = ''EasyNAT''"
| "type_text HardNAT = ''HardNAT''"

definition key_part :: "string list \<Rightarrow> NatFeature \<Rightarrow> string" where
  "key_part addrs f =
     (case Compact (parseIPs addrs) of [] \<Rightarrow> [] | ip # _ \<Rightarrow> ip) @ type_text (NatType f) @ behavior_text (Behavior f) @
     (if RegularPortsChange f then ''true'' else ''false'')"

definition genAnalysisKey :: "(bytes \<Rightarrow> bytes) \<Rightarrow> NatHoleVisitor \<Rightarrow> NatFeature \<Rightarrow> NatHoleClient \<Rightarrow> NatFeature \<Rightarrow> string" where
  "genAnalysisKey md5 vm vf cm cf =
     hex_of (md5 (string_bytes (key_part (hv_MappedAddrs vm) vf @ key_part (hc_MappedAddrs cm) cf)))"

definition getRangePorts :: "string list \<Rightarrow> int \<Rightarrow> int \<Rightarrow> PortsRange list" where
  "getRangePorts addrs difference maxNumber =
     (if maxNumber \<le> 0 \<or> addrs = [] then []
      else case SplitHostPort (last addrs) of
        None \<Rightarrow> []
      | Some (_, portStr) \<Rightarrow>
          (case Atoi portStr of
             None \<Rightarrow> []
           | Some port \<Rightarrow>
               [\<lparr>From = max (max (port - difference - 5) (port - maxNumber)) 1,
                 To = min (min (port + difference + 5) (port + maxNumber)) 65535\<rparr>]))"

fun role_text :: "detect_role \<Rightarrow> string" where
  "role_text NoRole = []"
| "role_text DetectRoleSender = ''sender''"
| "role_text DetectRoleReceiver = ''receiver''"

definition newNatHoleResponse ::
    "string \<Rightarrow> string \<Rightarrow> string \<Rightarrow> nat \<Rightarrow> string list \<Rightarrow> string list \<Rightarrow> RecommandBehavior \<Rightarrow> int \<Rightarrow> int \<Rightarrow> NatHoleResp" where
  "newNatHoleResponse transactionID sid protocol mode candidateAddrs assistedAddrs b readTimeoutMs portsDifference =
     \<lparr>hr_BindingManifest = [], hr_PeerCertificate = [], hr_TransactionID = transactionID, hr_Sid = sid, hr_Protocol = protocol,
      hr_CandidateAddrs = Compact candidateAddrs, hr_AssistedAddrs = Compact assistedAddrs,
      hr_DetectBehavior =
        \<lparr>Role = role_text (rb_Role b), Mode = int mode, TTL = rb_TTL b, SendDelayMs = rb_SendDelayMs b,
         ReadTimeoutMs = readTimeoutMs,
         CandidatePorts = getRangePorts (Compact_array candidateAddrs) portsDifference (rb_PortsRangeNumber b),
         SendRandomPorts = rb_PortsRandomNumber b, ListenRandomPorts = rb_ListenRandomPorts b\<rparr>,
      hr_Error = []\<rparr>"

definition hex_val :: "char \<Rightarrow> nat option" where
  "hex_val ch =
     (let n = of_char ch :: nat in
      if 48 \<le> n \<and> n \<le> 57 then Some (n - 48)
      else if 97 \<le> n \<and> n \<le> 102 then Some (n - 87)
      else if 65 \<le> n \<and> n \<le> 70 then Some (n - 55)
      else None)"

fun hex_DecodeString :: "string \<Rightarrow> bytes option" where
  "hex_DecodeString [] = Some []"
| "hex_DecodeString [_] = None"
| "hex_DecodeString (a # b # s) =
     (case (hex_val a, hex_val b, hex_DecodeString s) of
        (Some x, Some y, Some r) \<Rightarrow> Some (word_of_nat (16 * x + y) # r)
      | _ \<Rightarrow> None)"

definition copy32 :: "bytes \<Rightarrow> bytes" where
  "copy32 b = take 32 b @ replicate (32 - length b) 0"

definition session_manifest :: "Session \<Rightarrow> NatHoleVisitor \<Rightarrow> NatHoleClient \<Rightarrow> bytes \<Rightarrow> int \<Rightarrow> Manifest" where
  "session_manifest s vm cm sidBytes now =
     \<lparr>ProxyName = hv_ProxyName vm, SID = copy32 sidBytes, ProviderControl = s_providerControl s,
      VisitorControl = s_visitorControl s, ProviderNonce = copy32 (hc_Nonce cm), VisitorNonce = copy32 (hv_Nonce vm),
      ProviderSPKI = copy32 (hc_SPKISHA256 cm), VisitorSPKI = copy32 (hv_SPKISHA256 vm),
      IssuedAt = word_of_int now, ExpiresAt = word_of_int now + 60\<rparr>"

text \<open>\<open>analysis\<close>: what it stores in the session and the analyzer, and the two responses.\<close>

definition analysis ::
    "nh_env \<Rightarrow> int \<Rightarrow> Controller \<Rightarrow> nat \<Rightarrow> NatHoleClient \<Rightarrow> Controller \<times> (string + NatHoleResp \<times> NatHoleResp)" where
  "analysis env now c q cm =
     (let s = sess c q; vm = s_visitorMsg s in
      case ClassifyNATFeature (hc_MappedAddrs cm) (parseIPs (hc_AssistedAddrs cm)) of
        None \<Rightarrow> (c, Inl ''classify client nat feature error'')
      | Some cf \<Rightarrow>
          (case ClassifyNATFeature (hv_MappedAddrs vm) (parseIPs (hv_AssistedAddrs vm)) of
             None \<Rightarrow> (c, Inl ''classify visitor nat feature error'')
           | Some vf \<Rightarrow>
               let key = genAnalysisKey (e_md5 env) vm vf cm cf in
               (case GetRecommandBehaviors (analyzer c) key cf vf now of
                  (an, mode, idx, cB, vB) \<Rightarrow>
                    let c1 = (set_sess c q (s\<lparr>s_analysisKey := key, s_recommandMode := mode, s_recommandIndex := idx\<rparr>))
                               \<lparr>analyzer := an\<rparr>;
                        timeoutMs = max (rb_SendDelayMs cB) (rb_SendDelayMs vB) + 5000 +
                          (if rb_ListenRandomPorts cB > 0 \<or> rb_ListenRandomPorts vB > 0 then 30000 else 0);
                        vResp = newNatHoleResponse (hv_TransactionID vm) (s_sid s) (hv_Protocol vm) mode (hc_MappedAddrs cm)
                          (hc_AssistedAddrs cm) vB (timeoutMs - rb_SendDelayMs vB) (PortsDifference cf);
                        cResp = newNatHoleResponse (hc_TransactionID cm) (s_sid s) (hv_Protocol vm) mode (hv_MappedAddrs vm)
                          (hv_AssistedAddrs vm) cB (timeoutMs - rb_SendDelayMs cB) (PortsDifference vf)
                    in (case hex_DecodeString (s_sid s) of
                          None \<Rightarrow> (c1, Inl ErrBinding_text)
                        | Some sidBytes \<Rightarrow>
                            if length sidBytes \<noteq> 32 then (c1, Inl ErrBinding_text)
                            else (case Encode (session_manifest s vm cm sidBytes now) of
                                    Inl _ \<Rightarrow> (c1, Inl ErrBinding_text)
                                  | Inr w \<Rightarrow>
                                      (c1, Inr (vResp\<lparr>hr_BindingManifest := w, hr_PeerCertificate := hc_Certificate cm\<rparr>,
                                                cResp\<lparr>hr_BindingManifest := w, hr_PeerCertificate := hv_Certificate vm\<rparr>)))))))"

section \<open>Interleavings\<close>

text \<open>
  Where the goroutine of a visitor is after its admission: offering the session ID to the provider's
  proxy, waiting for the provider's message, deciding, keeping the session for late reports, and the
  deferred cleanup.
\<close>

datatype visitor_pc = VOffer | VWait | VCheck | VLinger | VClean | VEnd

record nh_sys =
  nh :: Controller
  vpc :: "nat \<Rightarrow> visitor_pc"

definition stopped :: "Controller \<Rightarrow> nat \<Rightarrow> bool" where
  "stopped c q \<longleftrightarrow> s_done (sess c q) \<or> cc_closed (cfgs c (s_cfg (sess c q)))"

text \<open>The two responses of a decision, in the order in which the goroutines send them.\<close>

definition decide :: "nh_env \<Rightarrow> int \<Rightarrow> bool \<Rightarrow> Controller \<Rightarrow> nat \<Rightarrow> NatHoleClient \<Rightarrow> Controller" where
  "decide env now vFirst c q cm =
     (case analysis env now c q cm of
        (c', r) \<Rightarrow>
          let s = sess c q;
              resps = (case r of
                 Inl err \<Rightarrow> (GenNatHoleResponse (hv_TransactionID (s_visitorMsg s)) None err, GenNatHoleResponse (hc_TransactionID cm) None err)
               | Inr p \<Rightarrow> p);
              v = (s_visitorTransporter s, fst resps); cl = (s_clientTransporter s, snd resps)
          in c'\<lparr>sent := sent c' @ (if vFirst then [v, cl] else [cl, v])\<rparr>)"

inductive nh_step :: "nh_env \<Rightarrow> nh_sys \<Rightarrow> nh_sys \<Rightarrow> bool" for env where
  register: "nh_step env \<sigma> (\<sigma>\<lparr>nh := fst (RegisterControl (nh \<sigma>) i)\<rparr>)"
| listen: "nh_step env \<sigma> (\<sigma>\<lparr>nh := fst (ListenClient (nh \<sigma>) name sk users owner)\<rparr>)"
| close_client:
    "iter_order (sessions (nh \<sigma>)) sids \<Longrightarrow> CloseClient (nh \<sigma>) sids name owner = Some c' \<Longrightarrow> nh_step env \<sigma> (\<sigma>\<lparr>nh := c'\<rparr>)"
| close_control:
    "iter_order (clientCfgs (nh \<sigma>)) names \<Longrightarrow> iter_order (sessions (nh \<sigma>)) sids \<Longrightarrow>
     CloseControl (nh \<sigma>) names sids i = Some c' \<Longrightarrow> nh_step env \<sigma> (\<sigma>\<lparr>nh := c'\<rparr>)"
| visitor:
    "(case rand of None \<Rightarrow> True | Some b \<Rightarrow> length b = 32) \<Longrightarrow>
     HandleVisitor_admit env rand now (nh \<sigma>) m t user caller = (c', started) \<Longrightarrow>
     nh_step env \<sigma> (\<sigma>\<lparr>nh := c', vpc := (case started of None \<Rightarrow> vpc \<sigma> | Some q \<Rightarrow> (vpc \<sigma>)(q := VOffer))\<rparr>)"
| offered: "q < n_sess (nh \<sigma>) \<Longrightarrow> vpc \<sigma> q = VOffer \<Longrightarrow> nh_step env \<sigma> (\<sigma>\<lparr>vpc := (vpc \<sigma>)(q := VWait)\<rparr>)"
| give_up:
    "q < n_sess (nh \<sigma>) \<Longrightarrow> vpc \<sigma> q \<in> {VOffer, VWait, VCheck} \<Longrightarrow> stopped (nh \<sigma>) q \<Longrightarrow>
     nh_step env \<sigma> (\<sigma>\<lparr>vpc := (vpc \<sigma>)(q := VClean)\<rparr>)"
| wait_timeout: "q < n_sess (nh \<sigma>) \<Longrightarrow> vpc \<sigma> q = VWait \<Longrightarrow> nh_step env \<sigma> (\<sigma>\<lparr>vpc := (vpc \<sigma>)(q := VClean)\<rparr>)"
| notified:
    "q < n_sess (nh \<sigma>) \<Longrightarrow> vpc \<sigma> q = VWait \<Longrightarrow> s_notify (sess (nh \<sigma>) q) \<Longrightarrow>
     nh_step env \<sigma> (\<sigma>\<lparr>nh := set_sess (nh \<sigma>) q ((sess (nh \<sigma>) q)\<lparr>s_notify := False\<rparr>), vpc := (vpc \<sigma>)(q := VCheck)\<rparr>)"
| decided:
    "q < n_sess (nh \<sigma>) \<Longrightarrow> vpc \<sigma> q = VCheck \<Longrightarrow> \<not> stopped (nh \<sigma>) q \<Longrightarrow> s_clientMsg (sess (nh \<sigma>) q) = Some cm \<Longrightarrow>
     nh_step env \<sigma> (\<sigma>\<lparr>nh := decide env now vFirst (nh \<sigma>) q cm, vpc := (vpc \<sigma>)(q := VLinger)\<rparr>)"
| lingered: "q < n_sess (nh \<sigma>) \<Longrightarrow> vpc \<sigma> q = VLinger \<Longrightarrow> nh_step env \<sigma> (\<sigma>\<lparr>vpc := (vpc \<sigma>)(q := VClean)\<rparr>)"
| cleaned:
    "q < n_sess (nh \<sigma>) \<Longrightarrow> vpc \<sigma> q = VClean \<Longrightarrow> visitor_cleanup (nh \<sigma>) q = Some c' \<Longrightarrow>
     nh_step env \<sigma> (\<sigma>\<lparr>nh := c', vpc := (vpc \<sigma>)(q := VEnd)\<rparr>)"
| client: "nh_step env \<sigma> (\<sigma>\<lparr>nh := HandleClient env now (nh \<sigma>) cm t caller\<rparr>)"
| report: "nh_step env \<sigma> (\<sigma>\<lparr>nh := HandleReport now (nh \<sigma>) r caller\<rparr>)"
| clean_worker: "nh_step env \<sigma> (\<sigma>\<lparr>nh := (nh \<sigma>)\<lparr>analyzer := Clean (analyzer (nh \<sigma>)) now\<rparr>\<rparr>)"

definition nh_init :: "int \<Rightarrow> (nat \<Rightarrow> ClientCfg) \<Rightarrow> (nat \<Rightarrow> Session) \<Rightarrow> nh_sys" where
  "nh_init reserve cs ss = \<lparr>nh = NewController reserve cs ss, vpc = \<lambda>_. VEnd\<rparr>"

inductive nh_reachable :: "nh_env \<Rightarrow> nh_sys \<Rightarrow> bool" for env where
  nh_start: "nh_reachable env (nh_init reserve cs ss)"
| nh_next: "nh_reachable env \<sigma> \<Longrightarrow> nh_step env \<sigma> \<sigma>' \<Longrightarrow> nh_reachable env \<sigma>'"

section \<open>Invariants\<close>

definition cfg_ok :: "Controller \<Rightarrow> bool" where
  "cfg_ok c \<longleftrightarrow>
     (\<forall>name p. clientCfgs c name = Some p \<longrightarrow>
        p < n_cfgs c \<and> \<not> cc_closed (cfgs c p) \<and> cc_name (cfgs c p) = name \<and> cc_ownerControl (cfgs c p) \<in> controls c)"

definition sess_ok :: "Controller \<Rightarrow> bool" where
  "sess_ok c \<longleftrightarrow>
     (\<forall>sid q. sessions c sid = Some q \<longrightarrow>
        q < n_sess c \<and> \<not> s_done (sess c q) \<and> s_sid (sess c q) = sid \<and> s_providerControl (sess c q) \<in> controls c \<and>
        s_visitorControl (sess c q) \<in> controls c \<and>
        clientCfgs c (hv_ProxyName (s_visitorMsg (sess c q))) = Some (s_cfg (sess c q)))"

text \<open>What a visitor, and a provider, had to show before their message was stored.\<close>

definition visitor_auth :: "nh_env \<Rightarrow> ClientCfg \<Rightarrow> Session \<Rightarrow> bool" where
  "visitor_auth env cfg s \<longleftrightarrow>
     (let vm = s_visitorMsg s in
      hv_ControlID vm = s_visitorControl s \<and> hv_ProxyName vm = cc_name cfg \<and> hv_Protocol vm = ''quic'' \<and>
      SignalProof (e_mac env) (cc_sk cfg) Visitor (hv_ProxyName vm) (hv_ControlID vm) (hv_Nonce vm) (hv_SPKISHA256 vm)
        (hv_Timestamp vm) = Inr (hv_SignalProof vm) \<and>
      \<not> Option.is_none (ValidateCertificate (e_sha256 env) (e_parse env) Visitor (hv_Certificate vm) (hv_SPKISHA256 vm)))"

definition client_auth :: "nh_env \<Rightarrow> ClientCfg \<Rightarrow> Session \<Rightarrow> NatHoleClient \<Rightarrow> bool" where
  "client_auth env cfg s cm \<longleftrightarrow>
     hc_ControlID cm = s_providerControl s \<and> hc_ProxyName cm = cc_name cfg \<and>
     SignalProof (e_mac env) (cc_sk cfg) Provider (hc_ProxyName cm) (hc_ControlID cm) (hc_Nonce cm) (hc_SPKISHA256 cm)
       (hc_Timestamp cm) = Inr (hc_SignalProof cm) \<and>
     \<not> Option.is_none (ValidateCertificate (e_sha256 env) (e_parse env) Provider (hc_Certificate cm) (hc_SPKISHA256 cm))"

definition session_auth :: "nh_env \<Rightarrow> Controller \<Rightarrow> Session \<Rightarrow> bool" where
  "session_auth env c s \<longleftrightarrow>
     s_cfg s < n_cfgs c \<and> cc_ownerControl (cfgs c (s_cfg s)) = s_providerControl s \<and>
     (\<exists>b. length b = 32 \<and> s_sid s = hex_of b) \<and> visitor_auth env (cfgs c (s_cfg s)) s \<and>
     (\<forall>cm. s_clientMsg s = Some cm \<longrightarrow> client_auth env (cfgs c (s_cfg s)) s cm) \<and>
     (s_notify s \<longrightarrow> s_clientMsg s \<noteq> None)"

definition c_inv :: "nh_env \<Rightarrow> Controller \<Rightarrow> bool" where
  "c_inv env c \<longleftrightarrow>
     cfg_ok c \<and> sess_ok c \<and> (\<forall>q < n_sess c. session_auth env c (sess c q)) \<and> (\<forall>i \<in> controls c. ID i = Inr i)"

definition nh_inv :: "nh_env \<Rightarrow> nh_sys \<Rightarrow> bool" where
  "nh_inv env \<sigma> \<longleftrightarrow>
     c_inv env (nh \<sigma>) \<and> (\<forall>q < n_sess (nh \<sigma>). vpc \<sigma> q = VCheck \<longrightarrow> s_clientMsg (sess (nh \<sigma>) q) \<noteq> None)"

lemma cfg_okD:
  assumes "cfg_ok c" and "clientCfgs c name = Some p"
  shows "p < n_cfgs c" and "\<not> cc_closed (cfgs c p)" and "cc_name (cfgs c p) = name" and "cc_ownerControl (cfgs c p) \<in> controls c"
  using assms unfolding cfg_ok_def by blast+

lemma sess_okD:
  assumes "sess_ok c" and "sessions c sid = Some q"
  shows "q < n_sess c" and "\<not> s_done (sess c q)" and "s_sid (sess c q) = sid" and "s_providerControl (sess c q) \<in> controls c"
    and "s_visitorControl (sess c q) \<in> controls c"
    and "clientCfgs c (hv_ProxyName (s_visitorMsg (sess c q))) = Some (s_cfg (sess c q))"
  using assms unfolding sess_ok_def by blast+

lemma c_invD:
  assumes "c_inv env c"
  shows "cfg_ok c" and "sess_ok c" and "q < n_sess c \<Longrightarrow> session_auth env c (sess c q)" and "i \<in> controls c \<Longrightarrow> ID i = Inr i"
  using assms unfolding c_inv_def by blast+

lemma session_authD:
  assumes "session_auth env c s"
  shows "s_cfg s < n_cfgs c" and "cc_ownerControl (cfgs c (s_cfg s)) = s_providerControl s"
    and "visitor_auth env (cfgs c (s_cfg s)) s" and "s_clientMsg s = Some cm \<Longrightarrow> client_auth env (cfgs c (s_cfg s)) s cm"
    and "s_notify s \<Longrightarrow> s_clientMsg s \<noteq> None" and "\<exists>b. length b = 32 \<and> s_sid s = hex_of b"
  using assms unfolding session_auth_def by blast+

text \<open>Closing a provider or a session changes nothing but its flag.\<close>

lemma auth_closed [simp]:
  "visitor_auth env (cfg\<lparr>cc_closed := b\<rparr>) s = visitor_auth env cfg s"
  "client_auth env (cfg\<lparr>cc_closed := b\<rparr>) s cm = client_auth env cfg s cm"
  "visitor_auth env cfg (s\<lparr>s_done := b\<rparr>) = visitor_auth env cfg s"
  "client_auth env cfg (s\<lparr>s_done := b\<rparr>) cm = client_auth env cfg s cm"
  by (simp_all add: visitor_auth_def client_auth_def)

lemma session_auth_done [simp]: "session_auth env c (s\<lparr>s_done := b\<rparr>) = session_auth env c s"
  by (simp add: session_auth_def)

lemma session_auth_mono:
  assumes "session_auth env c s" and "n_cfgs c \<le> n_cfgs c'"
    and "\<And>p. p < n_cfgs c \<Longrightarrow> cfgs c' p = cfgs c p \<or> cfgs c' p = (cfgs c p)\<lparr>cc_closed := True\<rparr>"
  shows "session_auth env c' s"
proof -
  note d = session_authD [OF assms(1)]
  have "cfgs c' (s_cfg s) = cfgs c (s_cfg s) \<or> cfgs c' (s_cfg s) = (cfgs c (s_cfg s))\<lparr>cc_closed := True\<rparr>"
    by (rule assms(3) [OF d(1)])
  then show ?thesis
    using d assms(2) unfolding session_auth_def by (elim disjE) auto
qed

text \<open>What the loops leave: they do not panic when the map leads to open objects that know their key.\<close>

definition dropped ::
    "('o \<Rightarrow> bool) \<Rightarrow> ('o \<Rightarrow> 'o) \<Rightarrow> 'k set \<Rightarrow> ('k \<rightharpoonup> nat) \<Rightarrow> (nat \<Rightarrow> 'o) \<Rightarrow> ('k \<rightharpoonup> nat) \<Rightarrow> (nat \<Rightarrow> 'o) \<Rightarrow> bool" where
  "dropped P mark K m h m' h' \<longleftrightarrow>
     (\<forall>a. h' a = h a \<or> h' a = mark (h a)) \<and>
     (\<forall>k a. m' k = Some a \<longrightarrow> m k = Some a \<and> h' a = h a \<and> \<not> (k \<in> K \<and> P (h a))) \<and>
     (\<forall>k a. m k = Some a \<longrightarrow> \<not> (k \<in> K \<and> P (h a)) \<longrightarrow> m' k = Some a)"

lemma droppedD:
  assumes "dropped P mark K m h m' h'"
  shows "h' a = h a \<or> h' a = mark (h a)" and "m' k = Some a \<Longrightarrow> m k = Some a" and "m' k = Some a \<Longrightarrow> h' a = h a"
    and "m' k = Some a \<Longrightarrow> k \<in> K \<Longrightarrow> \<not> P (h a)" and "m k = Some a \<Longrightarrow> \<not> (k \<in> K \<and> P (h a)) \<Longrightarrow> m' k = Some a"
  using assms unfolding dropped_def by blast+

lemma droppedI:
  assumes "\<And>a. h' a = h a \<or> h' a = mark (h a)"
    and "\<And>k a. m' k = Some a \<Longrightarrow> m k = Some a \<and> h' a = h a \<and> \<not> (k \<in> K \<and> P (h a))"
    and "\<And>k a. m k = Some a \<Longrightarrow> \<not> (k \<in> K \<and> P (h a)) \<Longrightarrow> m' k = Some a"
  shows "dropped P mark K m h m' h'"
  using assms unfolding dropped_def by blast

definition open_objs :: "('o \<Rightarrow> bool) \<Rightarrow> ('o \<Rightarrow> 'k) \<Rightarrow> ('k \<rightharpoonup> nat) \<Rightarrow> (nat \<Rightarrow> 'o) \<Rightarrow> bool" where
  "open_objs closed key m h \<longleftrightarrow> (\<forall>k a. m k = Some a \<longrightarrow> \<not> closed (h a) \<and> key (h a) = k)"

lemma open_objs_drop:
  assumes "open_objs closed key m h" and "m k = Some a"
  shows "open_objs closed key (m(k := None)) (h(a := x))" and "m j = Some a \<Longrightarrow> j = k" and "\<not> closed (h a)"
  using assms unfolding open_objs_def by (auto split: if_splits)

lemma drop_objs_ok:
  assumes "open_objs closed key m h" and P: "\<And>x. P (mark x) = P x" and mark: "\<And>x. mark (mark x) = mark x"
  shows "\<exists>m' h'. drop_objs P closed mark ks (m, h) = Some (m', h') \<and> dropped P mark (set ks) m h m' h'"
  using assms(1)
proof (induction ks arbitrary: m h)
  case Nil
  then show ?case by (simp add: dropped_def)
next
  case (Cons k ks)
  show ?case
  proof (cases "\<exists>a. m k = Some a \<and> P (h a)")
    case True
    then obtain a where a: "m k = Some a" "P (h a)" by (elim exE conjE)
    note o = open_objs_drop [OF Cons.prems a(1)]
    from Cons.IH [OF o(1) [of "mark (h a)"]] obtain m' h' where
      r: "drop_objs P closed mark ks (m(k := None), h(a := mark (h a))) = Some (m', h')"
        "dropped P mark (set ks) (m(k := None)) (h(a := mark (h a))) m' h'" by (elim exE conjE)
    note d = droppedD [OF r(2)]
    have "dropped P mark (set (k # ks)) m h m' h'"
    proof (rule droppedI)
      show "h' x = h x \<or> h' x = mark (h x)" for x using d(1) [of x] by (cases "x = a") (simp_all add: mark)
      show "m j = Some x \<and> h' x = h x \<and> \<not> (j \<in> set (k # ks) \<and> P (h x))" if j: "m' j = Some x" for j x
      proof -
        have "j \<noteq> k" "m j = Some x" using d(2) [OF j] by (simp_all split: if_splits)
        moreover from this have "x \<noteq> a" using o(2) [of j] by auto
        ultimately show ?thesis using d(3) [OF j] d(4) [OF j] by auto
      qed
      show "m' j = Some x" if "m j = Some x" "\<not> (j \<in> set (k # ks) \<and> P (h x))" for j x
      proof -
        have "j \<noteq> k" using that a by auto
        moreover from this have "x \<noteq> a" using o(2) [of j] that(1) by blast
        ultimately show ?thesis using d(5) [of j x] that by simp
      qed
    qed
    moreover have "drop_objs P closed mark (k # ks) (m, h) = Some (m', h')" using a o(3) r(1) by simp
    ultimately show ?thesis by blast
  next
    case False
    then have e: "drop_objs P closed mark (k # ks) (m, h) = drop_objs P closed mark ks (m, h)" by (cases "m k") simp_all
    from Cons.IH [OF Cons.prems] obtain m' h' where
      r: "drop_objs P closed mark ks (m, h) = Some (m', h')" "dropped P mark (set ks) m h m' h'" by (elim exE conjE)
    note d = droppedD [OF r(2)]
    have "dropped P mark (set (k # ks)) m h m' h'"
    proof (rule droppedI)
      show "h' x = h x \<or> h' x = mark (h x)" for x by (rule d(1))
      show "m j = Some x \<and> h' x = h x \<and> \<not> (j \<in> set (k # ks) \<and> P (h x))" if j: "m' j = Some x" for j x
        using d(2,3,4) [OF j] False by auto
      show "m' j = Some x" if "m j = Some x" "\<not> (j \<in> set (k # ks) \<and> P (h x))" for j x
        using that d(5) [of j x] by auto
    qed
    with e r(1) show ?thesis by simp
  qed
qed

lemma drop_cfgs_ok:
  assumes "cfg_ok c" and "\<And>cfg. P (cfg\<lparr>cc_closed := True\<rparr>) = P cfg"
  shows "\<exists>m' h'. drop_objs P cc_closed (\<lambda>cfg. cfg\<lparr>cc_closed := True\<rparr>) names (clientCfgs c, cfgs c) = Some (m', h') \<and>
    dropped P (\<lambda>cfg. cfg\<lparr>cc_closed := True\<rparr>) (set names) (clientCfgs c) (cfgs c) m' h'"
proof -
  have "open_objs cc_closed cc_name (clientCfgs c) (cfgs c)"
    unfolding open_objs_def using cfg_okD(2,3) [OF assms(1)] by blast
  from drop_objs_ok [OF this, of P "\<lambda>cfg. cfg\<lparr>cc_closed := True\<rparr>" names] assms(2) show ?thesis
    by auto
qed

lemma drop_sessions_ok:
  assumes "sess_ok c" and "\<And>s. P (s\<lparr>s_done := True\<rparr>) = P s"
  shows "\<exists>m' h'. drop_objs P s_done (\<lambda>s. s\<lparr>s_done := True\<rparr>) sids (sessions c, sess c) = Some (m', h') \<and>
    dropped P (\<lambda>s. s\<lparr>s_done := True\<rparr>) (set sids) (sessions c) (sess c) m' h'"
proof -
  have "open_objs s_done s_sid (sessions c) (sess c)"
    unfolding open_objs_def using sess_okD(2,3) [OF assms(1)] by blast
  from drop_objs_ok [OF this, of P "\<lambda>s. s\<lparr>s_done := True\<rparr>" sids] assms(2) show ?thesis
    by auto
qed

text \<open>
  Dropping providers and sessions keeps the invariant when every session that is left still finds its
  provider and both of its controls.
\<close>

lemma c_inv_dropped:
  assumes inv: "c_inv env c" and K: "K \<subseteq> controls c"
    and dc: "dropped P (\<lambda>cfg. cfg\<lparr>cc_closed := True\<rparr>) N (clientCfgs c) (cfgs c) m1 h1"
    and ds: "dropped Q (\<lambda>s. s\<lparr>s_done := True\<rparr>) S (sessions c) (sess c) m2 h2"
    and owner: "\<And>n p. m1 n = Some p \<Longrightarrow> cc_ownerControl (cfgs c p) \<in> K"
    and left: "\<And>sid q. m2 sid = Some q \<Longrightarrow> s_providerControl (sess c q) \<in> K \<and> s_visitorControl (sess c q) \<in> K \<and>
        m1 (hv_ProxyName (s_visitorMsg (sess c q))) = Some (s_cfg (sess c q))"
  shows "c_inv env (c\<lparr>controls := K, clientCfgs := m1, cfgs := h1, sessions := m2, sess := h2\<rparr>)"
proof -
  note i = c_invD [OF inv] and a = droppedD [OF dc] and b = droppedD [OF ds]
  let ?c = "c\<lparr>controls := K, clientCfgs := m1, cfgs := h1, sessions := m2, sess := h2\<rparr>"
  have "cfg_ok ?c"
    unfolding cfg_ok_def
  proof (intro allI impI)
    fix n p assume "clientCfgs ?c n = Some p"
    then have n: "m1 n = Some p" by simp
    from cfg_okD [OF i(1) a(2) [OF n]] a(3) [OF n] owner [OF n]
    show "p < n_cfgs ?c \<and> \<not> cc_closed (cfgs ?c p) \<and> cc_name (cfgs ?c p) = n \<and> cc_ownerControl (cfgs ?c p) \<in> controls ?c" by simp
  qed
  moreover have "sess_ok ?c"
    unfolding sess_ok_def
  proof (intro allI impI)
    fix sid q assume "sessions ?c sid = Some q"
    then have n: "m2 sid = Some q" by simp
    from sess_okD [OF i(2) b(2) [OF n]] b(3) [OF n] left [OF n]
    show "q < n_sess ?c \<and> \<not> s_done (sess ?c q) \<and> s_sid (sess ?c q) = sid \<and> s_providerControl (sess ?c q) \<in> controls ?c \<and>
        s_visitorControl (sess ?c q) \<in> controls ?c \<and>
        clientCfgs ?c (hv_ProxyName (s_visitorMsg (sess ?c q))) = Some (s_cfg (sess ?c q))" by simp
  qed
  moreover have "session_auth env ?c (sess ?c q)" if "q < n_sess ?c" for q
  proof -
    have "session_auth env c (sess c q)" using i(3) that by simp
    then have "session_auth env ?c (sess c q)" by (rule session_auth_mono) (use a(1) in simp_all)
    then show ?thesis using b(1) [of q] by (elim disjE) simp_all
  qed
  moreover have "ID i = Inr i" if "i \<in> controls ?c" for i using i(4) K that by auto
  ultimately show ?thesis unfolding c_inv_def by blast
qed

lemma dropped_none: "dropped P mark K m h m h" if "\<And>k a. m k = Some a \<Longrightarrow> \<not> (k \<in> K \<and> P (h a))"
  using that by (intro droppedI) auto

lemma CloseControl_ok:
  assumes inv: "c_inv env c" and it: "iter_order (clientCfgs c) names" "iter_order (sessions c) sids"
  shows "\<exists>c'. CloseControl c names sids i = Some c' \<and> c_inv env c' \<and> n_sess c' = n_sess c \<and>
    (\<forall>q. s_clientMsg (sess c' q) = s_clientMsg (sess c q)) \<and>
    (ID i = Inr i \<longrightarrow> i \<notin> controls c' \<and> (\<forall>n p. clientCfgs c' n = Some p \<longrightarrow> cc_ownerControl (cfgs c' p) \<noteq> i) \<and>
      (\<forall>sid q. sessions c' sid = Some q \<longrightarrow> s_providerControl (sess c' q) \<noteq> i \<and> s_visitorControl (sess c' q) \<noteq> i))"
proof (cases "ID i")
  case (Inl e)
  with inv show ?thesis by (simp add: CloseControl_def)
next
  case (Inr j)
  then have j: "j = i" by (simp add: ID_def split: if_splits)
  let ?c = "c\<lparr>controls := controls c - {i}\<rparr>" and ?P = "\<lambda>cfg. cc_ownerControl cfg = i"
    and ?Q = "\<lambda>s. s_providerControl s = i \<or> s_visitorControl s = i"
  note d = c_invD [OF inv]
  from drop_cfgs_ok [OF d(1), of ?P names] obtain m1 h1 where
    r1: "drop_objs ?P cc_closed (\<lambda>cfg. cfg\<lparr>cc_closed := True\<rparr>) names (clientCfgs c, cfgs c) = Some (m1, h1)"
      "dropped ?P (\<lambda>cfg. cfg\<lparr>cc_closed := True\<rparr>) (set names) (clientCfgs c) (cfgs c) m1 h1" by auto
  from drop_sessions_ok [OF d(2), of ?Q sids] obtain m2 h2 where
    r2: "drop_objs ?Q s_done (\<lambda>s. s\<lparr>s_done := True\<rparr>) sids (sessions c, sess c) = Some (m2, h2)"
      "dropped ?Q (\<lambda>s. s\<lparr>s_done := True\<rparr>) (set sids) (sessions c) (sess c) m2 h2" by auto
  let ?c' = "c\<lparr>controls := controls c - {i}, clientCfgs := m1, cfgs := h1, sessions := m2, sess := h2\<rparr>"
  note a = droppedD [OF r1(2)] and b = droppedD [OF r2(2)]
  have own: "cc_ownerControl (cfgs c p) \<noteq> i" if "m1 n = Some p" for n p
    using a(2,4) [OF that] it(1) by (auto simp: iter_order_def)
  have q: "\<not> ?Q (sess c q)" if "m2 sid = Some q" for sid q
    using b(2,4) [OF that] it(2) by (auto simp: iter_order_def)
  have "CloseControl c names sids i = Some ?c'"
    using r1(1) r2(1) by (auto simp: CloseControl_def Inr j drop_cfgs_def drop_sessions_def)
  moreover have "c_inv env ?c'"
  proof (rule c_inv_dropped [OF inv _ r1(2) r2(2)])
    show "cc_ownerControl (cfgs c p) \<in> controls c - {i}" if "m1 n = Some p" for n p
      using cfg_okD(4) [OF d(1) a(2) [OF that]] own [OF that] by simp
    fix sid x assume x: "m2 sid = Some x"
    note s = sess_okD [OF d(2) b(2) [OF x]]
    have "m1 (hv_ProxyName (s_visitorMsg (sess c x))) = Some (s_cfg (sess c x))"
      by (rule a(5) [OF s(6)]) (use session_authD(2) [OF d(3) [OF s(1)]] q [OF x] in simp)
    with s q [OF x] show "s_providerControl (sess c x) \<in> controls c - {i} \<and> s_visitorControl (sess c x) \<in> controls c - {i} \<and>
        m1 (hv_ProxyName (s_visitorMsg (sess c x))) = Some (s_cfg (sess c x))" by simp
  qed simp
  moreover have "s_clientMsg (h2 x) = s_clientMsg (sess c x)" for x using b(1) [of x] by (elim disjE) simp_all
  ultimately show ?thesis
    using own q a(3) b(3) by (intro exI [of _ ?c']) simp
qed

lemma CloseClient_ok:
  assumes inv: "c_inv env c" and it: "iter_order (sessions c) sids"
  shows "\<exists>c'. CloseClient c sids name owner = Some c' \<and> c_inv env c' \<and> n_sess c' = n_sess c \<and>
    (\<forall>q. s_clientMsg (sess c' q) = s_clientMsg (sess c q)) \<and>
    (\<forall>p. clientCfgs c name = Some p \<longrightarrow> cc_ownerControl (cfgs c p) = owner \<longrightarrow> clientCfgs c' name = None \<and>
      (\<forall>sid q. sessions c' sid = Some q \<longrightarrow> hv_ProxyName (s_visitorMsg (sess c' q)) \<noteq> name))"
proof (cases "\<exists>p. clientCfgs c name = Some p \<and> cc_ownerControl (cfgs c p) = owner")
  case False
  with inv show ?thesis by (auto simp: CloseClient_def Let_def split: option.splits)
next
  case True
  then obtain p where p: "clientCfgs c name = Some p" "cc_ownerControl (cfgs c p) = owner" by blast
  let ?P = "\<lambda>_::ClientCfg. True" and ?Q = "\<lambda>s. hv_ProxyName (s_visitorMsg s) = name \<and> s_providerControl s = owner"
  note d = c_invD [OF inv]
  from drop_cfgs_ok [OF d(1), of ?P "[name]"] obtain m1 h1 where
    r1: "drop_objs ?P cc_closed (\<lambda>cfg. cfg\<lparr>cc_closed := True\<rparr>) [name] (clientCfgs c, cfgs c) = Some (m1, h1)"
      "dropped ?P (\<lambda>cfg. cfg\<lparr>cc_closed := True\<rparr>) (set [name]) (clientCfgs c) (cfgs c) m1 h1" by auto
  from drop_sessions_ok [OF d(2), of ?Q sids] obtain m2 h2 where
    r2: "drop_objs ?Q s_done (\<lambda>s. s\<lparr>s_done := True\<rparr>) sids (sessions c, sess c) = Some (m2, h2)"
      "dropped ?Q (\<lambda>s. s\<lparr>s_done := True\<rparr>) (set sids) (sessions c) (sess c) m2 h2" by auto
  let ?c' = "c\<lparr>clientCfgs := m1, cfgs := h1, sessions := m2, sess := h2\<rparr>"
  note a = droppedD [OF r1(2)] and b = droppedD [OF r2(2)]
  have gone: "m1 name = None" using a(4) [of name] by (cases "m1 name") auto
  have other: "hv_ProxyName (s_visitorMsg (sess c x)) \<noteq> name" if x: "m2 sid = Some x" for sid x
  proof
    assume n: "hv_ProxyName (s_visitorMsg (sess c x)) = name"
    note s = sess_okD [OF d(2) b(2) [OF x]]
    have "s_providerControl (sess c x) = owner" using session_authD(2) [OF d(3) [OF s(1)]] s(6) n p by simp
    with n b(2,4) [OF x] it show False by (auto simp: iter_order_def)
  qed
  have "CloseClient c sids name owner = Some ?c'"
    using r1(1) r2(1) p by (simp add: CloseClient_def drop_cfgs_def drop_sessions_def)
  moreover have "c_inv env (c\<lparr>controls := controls c, clientCfgs := m1, cfgs := h1, sessions := m2, sess := h2\<rparr>)"
  proof (rule c_inv_dropped [OF inv _ r1(2) r2(2)])
    show "cc_ownerControl (cfgs c n) \<in> controls c" if "m1 k = Some n" for k n
      by (rule cfg_okD(4) [OF d(1) a(2) [OF that]])
    fix sid x assume x: "m2 sid = Some x"
    note s = sess_okD [OF d(2) b(2) [OF x]]
    show "s_providerControl (sess c x) \<in> controls c \<and> s_visitorControl (sess c x) \<in> controls c \<and>
        m1 (hv_ProxyName (s_visitorMsg (sess c x))) = Some (s_cfg (sess c x))"
      using s(4,5) a(5) [OF s(6)] other [OF x] by simp
  qed simp
  moreover have "s_clientMsg (h2 x) = s_clientMsg (sess c x)" for x using b(1) [of x] by (elim disjE) simp_all
  ultimately show ?thesis
    using gone other b(3) by (intro exI [of _ ?c']) simp
qed

lemma visitor_cleanup_ok:
  assumes inv: "c_inv env c"
  shows "\<exists>c'. visitor_cleanup c q = Some c' \<and> c_inv env c' \<and> n_sess c' = n_sess c \<and>
    (\<forall>q. s_clientMsg (sess c' q) = s_clientMsg (sess c q))"
proof (cases "sessions c (s_sid (sess c q)) = Some q")
  case False
  with inv show ?thesis by (simp add: visitor_cleanup_def)
next
  case True
  let ?Q = "\<lambda>_::Session. True"
  note d = c_invD [OF inv]
  from drop_sessions_ok [OF d(2), of ?Q "[s_sid (sess c q)]"] obtain m2 h2 where
    r: "drop_objs ?Q s_done (\<lambda>s. s\<lparr>s_done := True\<rparr>) [s_sid (sess c q)] (sessions c, sess c) = Some (m2, h2)"
      "dropped ?Q (\<lambda>s. s\<lparr>s_done := True\<rparr>) (set [s_sid (sess c q)]) (sessions c) (sess c) m2 h2" by auto
  note b = droppedD [OF r(2)]
  have "c_inv env (c\<lparr>controls := controls c, clientCfgs := clientCfgs c, cfgs := cfgs c, sessions := m2, sess := h2\<rparr>)"
    by (rule c_inv_dropped [OF inv _ dropped_none [where P = "\<lambda>_. False"] r(2)])
      (use cfg_okD [OF d(1)] sess_okD [OF d(2) b(2)] in auto)
  moreover have "s_clientMsg (h2 x) = s_clientMsg (sess c x)" for x using b(1) [of x] by (elim disjE) simp_all
  ultimately show ?thesis
    using True r(1) by (simp add: visitor_cleanup_def drop_sessions_def)
qed

text \<open>The other operations.\<close>

lemma c_inv_ghost [simp]:
  "c_inv env (c\<lparr>sent := x\<rparr>) = c_inv env c" "c_inv env (c\<lparr>analyzer := an\<rparr>) = c_inv env c"
  by (simp_all add: c_inv_def cfg_ok_def sess_ok_def session_auth_def)

lemma ID_self: "ID i = Inr j \<Longrightarrow> j = i"
  by (simp add: ID_def split: if_splits)

lemma RegisterControl_ok: "c_inv env (fst (RegisterControl c i))" if inv: "c_inv env c"
proof -
  note d = c_invD [OF inv]
  have "c_inv env (c\<lparr>controls := insert i (controls c)\<rparr>)" if i: "ID i = Inr i"
    using d i unfolding c_inv_def cfg_ok_def sess_ok_def session_auth_def by auto
  with inv show ?thesis by (auto simp: RegisterControl_def dest: ID_self split: sum.split)
qed

lemma ListenClient_ok: "c_inv env (fst (ListenClient c name sk users owner))" if inv: "c_inv env c"
proof (cases "ID owner = Inr owner \<and> owner \<in> controls c \<and> clientCfgs c name = None")
  case False
  with inv show ?thesis by (auto simp: ListenClient_def Let_def dest: ID_self split: sum.split)
next
  case True
  let ?cfg = "\<lparr>cc_name = name, cc_sk = sk, cc_allowUsers = users, cc_ownerControl = owner, cc_closed = False\<rparr>"
  let ?c = "c\<lparr>clientCfgs := (clientCfgs c)(name \<mapsto> n_cfgs c), cfgs := (cfgs c)(n_cfgs c := ?cfg), n_cfgs := Suc (n_cfgs c)\<rparr>"
  note d = c_invD [OF inv]
  have "cfg_ok ?c"
    unfolding cfg_ok_def using cfg_okD [OF d(1)] True by (auto simp: less_Suc_eq)
  moreover have "sess_ok ?c"
    unfolding sess_ok_def using sess_okD [OF d(2)] True by (auto dest: sess_okD(6) [OF d(2)])
  moreover have "session_auth env ?c x" if "session_auth env c x" for x
    using that by (rule session_auth_mono) simp_all
  ultimately have "c_inv env ?c" unfolding c_inv_def using d(3,4) by simp
  with True show ?thesis by (simp add: ListenClient_def Let_def)
qed

text \<open>Replacing the contents of a session by contents that are as well authenticated.\<close>

lemma set_sess_ok:
  assumes inv: "c_inv env c" and "session_auth env c s" and "s_done s = s_done (sess c q)" and "s_sid s = s_sid (sess c q)"
    and "s_providerControl s = s_providerControl (sess c q)" and "s_visitorControl s = s_visitorControl (sess c q)"
    and "s_visitorMsg s = s_visitorMsg (sess c q)" and "s_cfg s = s_cfg (sess c q)"
  shows "c_inv env (set_sess c q s)"
proof -
  note d = c_invD [OF inv]
  have "sess_ok (set_sess c q s)"
    unfolding sess_ok_def set_sess_def using sess_okD [OF d(2)] assms(3-) by simp
  moreover have "session_auth env (set_sess c q s) x" if "session_auth env c x" for x
    using that by (rule session_auth_mono) (simp_all add: set_sess_def)
  ultimately show ?thesis
    using d assms(2) unfolding c_inv_def cfg_ok_def by (simp add: set_sess_def)
qed

lemma HandleVisitor_admit_ok:
  assumes inv: "c_inv env c" and rand: "\<And>b. rand = Some b \<Longrightarrow> length b = 32"
    and h: "HandleVisitor_admit env rand now c m t user caller = (c', started)"
  shows "c_inv env c' \<and> (\<forall>q < n_sess c. sess c' q = sess c q) \<and>
    (started = None \<and> n_sess c' = n_sess c \<or> started = Some (n_sess c) \<and> n_sess c' = Suc (n_sess c))"
proof (cases started)
  case None
  with h inv show ?thesis
    by (auto simp: HandleVisitor_admit_def send_resp_def Let_def split: sum.splits if_splits)
next
  case (Some q)
  then obtain p b where s: "rand = Some b" "ID caller = Inr caller" "visitor_admitted env c now m user caller = Inr p"
    using h by (auto simp: HandleVisitor_admit_def Let_def GenSid_def dest: ID_self split: sum.splits if_splits option.splits)
  let ?s = "\<lparr>s_sid = GenSid rand, s_analysisKey = [], s_recommandMode = 0, s_recommandIndex = 0, s_visitorMsg = m,
    s_visitorTransporter = t, s_clientMsg = None, s_clientTransporter = 0, s_notify = False,
    s_visitorControl = caller, s_providerControl = cc_ownerControl (cfgs c p), s_done = False, s_cfg = p\<rparr>"
  let ?c = "(set_sess c (n_sess c) ?s)\<lparr>sessions := (sessions c)(GenSid rand \<mapsto> n_sess c), n_sess := Suc (n_sess c)\<rparr>"
  have c': "c' = ?c" "q = n_sess c"
    using h Some s by (auto simp: HandleVisitor_admit_def Let_def split: if_splits)
  note d = c_invD [OF inv]
  have p: "caller \<in> controls c" "clientCfgs c (hv_ProxyName m) = Some p"
    using s(3) by (auto simp: visitor_admitted_def Let_def split: if_splits option.splits)
  note f = cfg_okD [OF d(1) p(2)]
  have "visitor_auth env (cfgs c p) ?s"
    using s(3) p f(3) by (auto simp: visitor_admitted_def visitor_auth_def Let_def split: if_splits option.splits)
  then have "session_auth env c ?s"
    unfolding session_auth_def using f s(1) rand by (auto simp: GenSid_def)
  moreover have "session_auth env ?c x" if "session_auth env c x" for x
    using that by (rule session_auth_mono) (simp_all add: set_sess_def)
  moreover have "sess_ok ?c"
    unfolding sess_ok_def using sess_okD [OF d(2)] p f by (auto simp: set_sess_def less_Suc_eq)
  ultimately have "c_inv env ?c"
    unfolding c_inv_def cfg_ok_def using d cfg_okD [OF d(1)] by (auto simp: set_sess_def less_Suc_eq)
  with c' Some show ?thesis by (simp add: set_sess_def)
qed

lemma HandleClient_ok:
  assumes inv: "c_inv env c"
  shows "c_inv env (HandleClient env now c cm t caller) \<and> n_sess (HandleClient env now c cm t caller) = n_sess c \<and>
    (\<forall>q. s_clientMsg (sess c q) \<noteq> None \<longrightarrow>
      s_clientMsg (sess (HandleClient env now c cm t caller) q) = s_clientMsg (sess c q))"
proof (cases "HandleClient env now c cm t caller = c")
  case True
  with inv show ?thesis by simp
next
  case False
  then obtain q where q: "sessions c (hc_Sid cm) = Some q" "Option.is_none (s_clientMsg (sess c q))"
    "hc_ProxyName cm = hv_ProxyName (s_visitorMsg (sess c q))" "caller = s_providerControl (sess c q)" "hc_ControlID cm = caller"
    and h: "HandleClient env now c cm t caller =
        set_sess c q ((sess c q)\<lparr>s_clientMsg := Some cm, s_clientTransporter := t, s_notify := True\<rparr>)"
    and p: "\<And>p. clientCfgs c (hc_ProxyName cm) = Some p \<Longrightarrow>
        SignalProof (e_mac env) (cc_sk (cfgs c p)) Provider (hc_ProxyName cm) (hc_ControlID cm) (hc_Nonce cm) (hc_SPKISHA256 cm)
          (hc_Timestamp cm) = Inr (hc_SignalProof cm)"
      "\<not> Option.is_none (ValidateCertificate (e_sha256 env) (e_parse env) Provider (hc_Certificate cm) (hc_SPKISHA256 cm))"
    by (auto simp: HandleClient_def Let_def split: sum.splits if_splits option.splits)
  let ?s = "(sess c q)\<lparr>s_clientMsg := Some cm, s_clientTransporter := t, s_notify := True\<rparr>"
  note d = c_invD [OF inv]
  note s = sess_okD [OF d(2) q(1)]
  note a = session_authD [OF d(3) [OF s(1)]]
  have "cc_name (cfgs c (s_cfg (sess c q))) = hc_ProxyName cm" using cfg_okD(3) [OF d(1) s(6)] q(3) by simp
  then have "client_auth env (cfgs c (s_cfg (sess c q))) ?s cm"
    unfolding client_auth_def using q(3-5) p s(6) by simp
  moreover have "visitor_auth env (cfgs c (s_cfg (sess c q))) ?s" using a(3) by (simp add: visitor_auth_def)
  ultimately have "session_auth env c ?s" unfolding session_auth_def using a by simp
  then have "c_inv env (set_sess c q ?s)" by (rule set_sess_ok [OF inv]) simp_all
  with h q(2) show ?thesis by (simp add: set_sess_def Option.is_none_def)
qed

lemma HandleReport_ok:
  "c_inv env (HandleReport now c r caller) = c_inv env c" "sess (HandleReport now c r caller) = sess c"
  "n_sess (HandleReport now c r caller) = n_sess c" "sessions (HandleReport now c r caller) = sessions c"
  by (simp_all add: HandleReport_def split: option.split sum.split)

text \<open>The decision changes only the bookkeeping of its session.\<close>

lemma analysis_state:
  "\<exists>key mode idx an. fst (analysis env now c q cm) =
     (set_sess c q ((sess c q)\<lparr>s_analysisKey := key, s_recommandMode := mode, s_recommandIndex := idx\<rparr>))\<lparr>analyzer := an\<rparr>"
proof -
  have same: "c = (set_sess c q ((sess c q)\<lparr>s_analysisKey := s_analysisKey (sess c q),
      s_recommandMode := s_recommandMode (sess c q), s_recommandIndex := s_recommandIndex (sess c q)\<rparr>))\<lparr>analyzer := analyzer c\<rparr>"
    by (simp add: set_sess_def)
  show ?thesis
  proof (cases "ClassifyNATFeature (hc_MappedAddrs cm) (parseIPs (hc_AssistedAddrs cm)) = None \<or>
      ClassifyNATFeature (hv_MappedAddrs (s_visitorMsg (sess c q))) (parseIPs (hv_AssistedAddrs (s_visitorMsg (sess c q)))) = None")
    case True
    then have "fst (analysis env now c q cm) = c"
      by (auto simp: analysis_def Let_def split: option.split)
    with same show ?thesis by metis
  next
    case False
    then show ?thesis
      by (auto simp: analysis_def Let_def split: option.split sum.split prod.split)
  qed
qed

lemma book_auth [simp]:
  "visitor_auth env cfg (s\<lparr>s_analysisKey := key, s_recommandMode := mode, s_recommandIndex := idx\<rparr>) = visitor_auth env cfg s"
  "client_auth env cfg (s\<lparr>s_analysisKey := key, s_recommandMode := mode, s_recommandIndex := idx\<rparr>) cm = client_auth env cfg s cm"
  "visitor_auth env cfg (s\<lparr>s_notify := b\<rparr>) = visitor_auth env cfg s"
  "client_auth env cfg (s\<lparr>s_notify := b\<rparr>) cm = client_auth env cfg s cm"
  by (simp_all add: visitor_auth_def client_auth_def)

lemma session_auth_book:
  assumes "session_auth env c s"
  shows "session_auth env c (s\<lparr>s_analysisKey := key, s_recommandMode := mode, s_recommandIndex := idx\<rparr>)"
    and "session_auth env c (s\<lparr>s_notify := False\<rparr>)"
  using assms by (simp_all add: session_auth_def)

lemma decide_ok:
  assumes inv: "c_inv env c" and q: "q < n_sess c"
  shows "c_inv env (decide env now vFirst c q cm)" and "n_sess (decide env now vFirst c q cm) = n_sess c"
    and "s_clientMsg (sess (decide env now vFirst c q cm) x) = s_clientMsg (sess c x)"
proof -
  from analysis_state [of env now c q cm] obtain key mode idx an where
    e: "fst (analysis env now c q cm) = (set_sess c q ((sess c q)\<lparr>s_analysisKey := key, s_recommandMode := mode,
      s_recommandIndex := idx\<rparr>))\<lparr>analyzer := an\<rparr>" by blast
  have "\<exists>sn. decide env now vFirst c q cm = (fst (analysis env now c q cm))\<lparr>sent := sn\<rparr>"
    unfolding decide_def Let_def by (cases "analysis env now c q cm") (simp only: prod.case fst_conv, rule exI, rule refl)
  then obtain sn where d: "decide env now vFirst c q cm = (fst (analysis env now c q cm))\<lparr>sent := sn\<rparr>" by blast
  have "c_inv env (set_sess c q ((sess c q)\<lparr>s_analysisKey := key, s_recommandMode := mode, s_recommandIndex := idx\<rparr>))"
    by (rule set_sess_ok [OF inv session_auth_book(1) [OF c_invD(3) [OF inv q]]]) simp_all
  then show "c_inv env (decide env now vFirst c q cm)" by (simp add: d e)
  show "n_sess (decide env now vFirst c q cm) = n_sess c" "s_clientMsg (sess (decide env now vFirst c q cm) x) = s_clientMsg (sess c x)"
    by (simp_all add: d e set_sess_def)
qed

lemma nh_inv_step: "nh_inv env \<sigma>'" if s: "nh_step env \<sigma> \<sigma>'" and inv: "nh_inv env \<sigma>"
proof -
  from inv have i: "c_inv env (nh \<sigma>)"
    and v: "\<And>q. q < n_sess (nh \<sigma>) \<Longrightarrow> vpc \<sigma> q = VCheck \<Longrightarrow> s_clientMsg (sess (nh \<sigma>) q) \<noteq> None"
    unfolding nh_inv_def by blast+
  from s show ?thesis
  proof cases
    case (register j)
    with i v RegisterControl_ok [OF i, of j] show ?thesis
      by (simp add: nh_inv_def RegisterControl_def split: sum.split)
  next
    case (listen name sk users owner)
    with i v ListenClient_ok [OF i, of name sk users owner] show ?thesis
      by (simp add: nh_inv_def ListenClient_def Let_def split: sum.split)
  next
    case (close_client sids name owner c')
    with v CloseClient_ok [OF i close_client(2), of name owner] show ?thesis by (auto simp: nh_inv_def)
  next
    case (close_control names sids j c')
    with v CloseControl_ok [OF i close_control(2,3), of j] show ?thesis by (auto simp: nh_inv_def)
  next
    case (visitor rand now m t user caller c' started)
    have "\<And>b. rand = Some b \<Longrightarrow> length b = 32" using visitor(2) by simp
    from HandleVisitor_admit_ok [OF i this visitor(3)] v show ?thesis
      unfolding visitor(1) nh_inv_def by (auto simp: less_Suc_eq)
  next
    case (notified q)
    then have "c_inv env (set_sess (nh \<sigma>) q ((sess (nh \<sigma>) q)\<lparr>s_notify := False\<rparr>))"
      by (intro set_sess_ok [OF i session_auth_book(2) [OF c_invD(3) [OF i]]]) simp_all
    with v session_authD(5) [OF c_invD(3) [OF i notified(2)] notified(4)] show ?thesis
      unfolding notified(1) nh_inv_def by (auto simp: set_sess_def)
  next
    case (decided q cm now vFirst)
    with v decide_ok [OF i decided(2), of now vFirst cm] show ?thesis by (simp add: nh_inv_def)
  next
    case (cleaned q c')
    with v visitor_cleanup_ok [OF i, of q] show ?thesis by (auto simp: nh_inv_def)
  next
    case (client now cm t caller)
    with v HandleClient_ok [OF i, of now cm t caller] show ?thesis by (simp add: nh_inv_def)
  qed (use i v in \<open>simp_all add: nh_inv_def HandleReport_ok\<close>)
qed

lemma nh_inv_reachable: "nh_inv env \<sigma>" if "nh_reachable env \<sigma>"
  using that
  by induction (simp_all add: nh_inv_step, simp add: nh_inv_def nh_init_def NewController_def c_inv_def cfg_ok_def sess_ok_def)

lemmas reachable_c_inv = nh_inv_reachable [unfolded nh_inv_def, THEN conjunct1]
lemmas reachable_notified = nh_inv_reachable [unfolded nh_inv_def, THEN conjunct2, rule_format]

section \<open>Properties\<close>

text \<open>
  C32. The rendezvous controller never panics on its channels and forgets a closed control completely.
  In every reachable state, whatever the order in which Go iterates over the maps: closing a control,
  closing a provider, and the cleanup of a visitor close no channel twice; a visitor that was notified
  finds the provider's message; after \<open>CloseControl\<close> the control is gone, and no registered provider
  and no session in the table belongs to it on either side.
\<close>

theorem rendezvous_close_safe:
  assumes "nh_reachable env \<sigma>" and "iter_order (clientCfgs (nh \<sigma>)) names" and "iter_order (sessions (nh \<sigma>)) sids"
  shows "(\<exists>c'. CloseControl (nh \<sigma>) names sids i = Some c' \<and>
      (ID i = Inr i \<longrightarrow> i \<notin> controls c' \<and>
        (\<forall>n p. clientCfgs c' n = Some p \<longrightarrow> cc_ownerControl (cfgs c' p) \<noteq> i) \<and>
        (\<forall>sid q. sessions c' sid = Some q \<longrightarrow> s_providerControl (sess c' q) \<noteq> i \<and> s_visitorControl (sess c' q) \<noteq> i))) \<and>
    CloseClient (nh \<sigma>) sids name owner \<noteq> None \<and> visitor_cleanup (nh \<sigma>) q \<noteq> None \<and>
    (q < n_sess (nh \<sigma>) \<longrightarrow> vpc \<sigma> q = VCheck \<longrightarrow> s_clientMsg (sess (nh \<sigma>) q) \<noteq> None)"
proof -
  note i = reachable_c_inv [OF assms(1)]
  have "CloseClient (nh \<sigma>) sids name owner \<noteq> None" "visitor_cleanup (nh \<sigma>) q \<noteq> None"
    using CloseClient_ok [OF i assms(3), of name owner] visitor_cleanup_ok [OF i, of q] by auto
  moreover have "q < n_sess (nh \<sigma>) \<longrightarrow> vpc \<sigma> q = VCheck \<longrightarrow> s_clientMsg (sess (nh \<sigma>) q) \<noteq> None"
    using reachable_notified [OF assms(1)] by blast
  ultimately show ?thesis
    using CloseControl_ok [OF i assms(2,3), of i] by (elim exE conjE) (intro conjI exI; assumption)
qed

lemma hex_val_digit [simp]: "d < 16 \<Longrightarrow> hex_val (hex_digit d) = Some d"
  by (auto simp: hex_val_def hex_digit_def Let_def)

lemma hex_Decode_hex_of [simp]: "hex_DecodeString (hex_of b) = Some b"
  proof (induction b)
  case (Cons v b)
  have "unat v < 256" using unat_less_pow [of v] by simp
  then have "hex_val (hex_digit (unat v div 16)) = Some (unat v div 16)" "hex_val (hex_digit (unat v mod 16)) = Some (unat v mod 16)"
    by simp_all
  with Cons show ?case by (simp add: hex_of_def)
qed (simp add: hex_of_def)

lemma copy32_id [simp]: "length b = 32 \<Longrightarrow> copy32 b = b"
  by (simp add: copy32_def)

lemma analysis_InrD:
  assumes "analysis env now c q cm = (c', Inr (vResp, cResp))" and "s_sid (sess c q) = hex_of b" and "length b = 32"
  shows "Encode (session_manifest (sess c q) (s_visitorMsg (sess c q)) cm b now) = Inr (hr_BindingManifest vResp)"
    and "hr_BindingManifest cResp = hr_BindingManifest vResp"
    and "hr_PeerCertificate vResp = hc_Certificate cm" and "hr_PeerCertificate cResp = hv_Certificate (s_visitorMsg (sess c q))"
    and "hr_Sid vResp = hex_of b" and "hr_Sid cResp = hex_of b"
  using assms
  by (auto simp: analysis_def Let_def newNatHoleResponse_def split: option.splits prod.splits sum.splits if_splits)

lemma visitor_authD:
  assumes "visitor_auth env cfg s" and "vm = s_visitorMsg s"
  shows "hv_ControlID vm = s_visitorControl s" and "hv_ProxyName vm = cc_name cfg"
    and "SignalProof (e_mac env) (cc_sk cfg) Visitor (hv_ProxyName vm) (s_visitorControl s) (hv_Nonce vm) (hv_SPKISHA256 vm)
      (hv_Timestamp vm) = Inr (hv_SignalProof vm)"
    and "\<not> Option.is_none (ValidateCertificate (e_sha256 env) (e_parse env) Visitor (hv_Certificate vm) (hv_SPKISHA256 vm))"
  using assms by (auto simp: visitor_auth_def Let_def)

lemma client_authD:
  assumes "client_auth env cfg s cm"
  shows "hc_ControlID cm = s_providerControl s" and "hc_ProxyName cm = cc_name cfg"
    and "SignalProof (e_mac env) (cc_sk cfg) Provider (cc_name cfg) (s_providerControl s) (hc_Nonce cm) (hc_SPKISHA256 cm)
      (hc_Timestamp cm) = Inr (hc_SignalProof cm)"
    and "\<not> Option.is_none (ValidateCertificate (e_sha256 env) (e_parse env) Provider (hc_Certificate cm) (hc_SPKISHA256 cm))"
  using assms by (auto simp: client_auth_def)

lemma PeerTLS_ok:
  "\<not> Option.is_none (ValidateCertificate H parse Provider der (ProviderSPKI m)) \<Longrightarrow> PeerTLS H parse True der m Visitor \<noteq> None"
  "\<not> Option.is_none (ValidateCertificate H parse Visitor der (VisitorSPKI m)) \<Longrightarrow> PeerTLS H parse True der m Provider \<noteq> None"
  by (auto simp: PeerTLS_def Let_def Option.is_none_def split: option.split)

text \<open>
  C27. A traversal is authenticated end to end. When the controller decides a session in a reachable
  state, visitor and provider have both proved knowledge of the same proxy's secret for their own control
  connection, key and nonce. Both are sent the same manifest, in a wire form that decodes to a manifest of
  this proxy and session that each side finds to name its own control, nonce and key, and each is sent the
  certificate with which it can build the pinned TLS configuration for the other.
\<close>

theorem traversal_authentic:
  assumes "nh_reachable env \<sigma>" and "q < n_sess (nh \<sigma>)" and "s_clientMsg (sess (nh \<sigma>) q) = Some cm"
    and "analysis env now (nh \<sigma>) q cm = (c', Inr (vResp, cResp))"
  shows "let s = sess (nh \<sigma>) q; vm = s_visitorMsg s; secret = cc_sk (cfgs (nh \<sigma>) (s_cfg s)) in
    SignalProof (e_mac env) secret Visitor (hv_ProxyName vm) (s_visitorControl s) (hv_Nonce vm) (hv_SPKISHA256 vm)
      (hv_Timestamp vm) = Inr (hv_SignalProof vm) \<and>
    SignalProof (e_mac env) secret Provider (hv_ProxyName vm) (s_providerControl s) (hc_Nonce cm) (hc_SPKISHA256 cm)
      (hc_Timestamp cm) = Inr (hc_SignalProof cm) \<and>
    hr_BindingManifest cResp = hr_BindingManifest vResp \<and>
    (\<exists>m. Decode (hr_BindingManifest vResp) (word_of_int now) = Some (Inr m) \<and>
       ProxyName m = hv_ProxyName vm \<and> hex_of (SID m) = hr_Sid vResp \<and> hr_Sid cResp = hr_Sid vResp \<and>
       CheckLocal m Visitor (hv_ControlID vm) (hv_Nonce vm) (hv_SPKISHA256 vm) = None \<and>
       CheckLocal m Provider (hc_ControlID cm) (hc_Nonce cm) (hc_SPKISHA256 cm) = None \<and>
       PeerTLS (e_sha256 env) (e_parse env) True (hr_PeerCertificate vResp) m Visitor \<noteq> None \<and>
       PeerTLS (e_sha256 env) (e_parse env) True (hr_PeerCertificate cResp) m Provider \<noteq> None)"
proof -
  let ?s = "sess (nh \<sigma>) q"
  let ?vm = "s_visitorMsg ?s"
  note a = session_authD [OF c_invD(3) [OF reachable_c_inv [OF assms(1)] assms(2)]]
  obtain b where b: "length b = 32" "s_sid ?s = hex_of b" using a(6) by blast
  note v = visitor_authD [OF a(3) refl] and cl = client_authD [OF a(4) [OF assms(3)]]
  note r = analysis_InrD [OF assms(4) b(2,1)] and l = SignalProof_InrD(2-4) [OF v(3)] SignalProof_InrD(2-4) [OF cl(3)]
  let ?m = "session_manifest ?s ?vm cm b now"
  have m: "?m = \<lparr>ProxyName = hv_ProxyName ?vm, SID = b, ProviderControl = hc_ControlID cm, VisitorControl = hv_ControlID ?vm,
      ProviderNonce = hc_Nonce cm, VisitorNonce = hv_Nonce ?vm, ProviderSPKI = hc_SPKISHA256 cm,
      VisitorSPKI = hv_SPKISHA256 ?vm, IssuedAt = word_of_int now, ExpiresAt = word_of_int now + 60\<rparr>"
    using l b(1) by (simp add: session_manifest_def v(1) cl(1))
  have "manifest_wf ?m" using l b(1) v(1) cl(1) by (simp add: m manifest_wf_def manifest_fields_def)
  moreover have "IssuedAt ?m < ExpiresAt ?m" using r(1) by (simp add: Encode_iff manifest_valid_def)
  ultimately have "Decode (hr_BindingManifest vResp) (word_of_int now) = Some (Inr ?m)"
    using Decode_iff r(1) by (simp add: m)
  moreover have "CheckLocal ?m Visitor (hv_ControlID ?vm) (hv_Nonce ?vm) (hv_SPKISHA256 ?vm) = None"
    "CheckLocal ?m Provider (hc_ControlID cm) (hc_Nonce cm) (hc_SPKISHA256 cm) = None"
    by (simp_all add: CheckLocal_def r(1)) (simp_all add: m)
  moreover have "PeerTLS (e_sha256 env) (e_parse env) True (hr_PeerCertificate vResp) ?m Visitor \<noteq> None"
    "PeerTLS (e_sha256 env) (e_parse env) True (hr_PeerCertificate cResp) ?m Provider \<noteq> None"
    by (rule PeerTLS_ok; simp only: m r(3,4) Manifest.simps v(4) cl(4) not_False_eq_True)+
  moreover have "ProxyName ?m = hv_ProxyName ?vm" "hex_of (SID ?m) = hr_Sid vResp" "hr_Sid cResp = hr_Sid vResp"
    using r by (simp_all add: m)
  ultimately show ?thesis
    unfolding Let_def using v(3) cl(3) [folded v(2)] r(2) by - (intro conjI exI [of _ ?m]; assumption)
qed

text \<open>
  The candidate ports are computed from the addresses after \<open>slices.Compact\<close> has worked in place on the
  same array: if two neighbours of the list are equal, the last element was cleared, and the range
  around the last observed port is lost.
\<close>

lemma remdups_adj_shorter: "remdups_adj xs \<noteq> xs \<Longrightarrow> length (remdups_adj xs) < length xs"
proof (induction xs rule: remdups_adj.induct)
  case (3 x y xs)
  then show ?case using remdups_adj_length [of "y # xs"] by (auto simp: less_Suc_eq_le split: if_splits)
qed simp_all

lemma candidate_ports_lost:
  assumes "remdups_adj addrs \<noteq> addrs"
  shows "CandidatePorts (hr_DetectBehavior (newNatHoleResponse tid sid protocol mode addrs assisted b timeout difference)) = []"
proof -
  have "last (Compact_array addrs) = []"
    using remdups_adj_shorter [OF assms] by (simp add: Compact_array_def Compact_def)
  moreover have "SplitHostPort [] = None" by code_simp
  ultimately show ?thesis by (simp add: newNatHoleResponse_def getRangePorts_def)
qed

section \<open>A concrete traversal\<close>

definition demo_env :: nh_env where
  "demo_env = \<lparr>e_mac = (\<lambda>_ _. [9]), e_sha256 = id, e_md5 = (\<lambda>_. [8]),
     e_parse = (\<lambda>der. Some (if der = [1] then demo_cert\<lparr>c_RawSPKI := replicate 32 7, c_DNSNames := [PeerName Visitor],
         c_SAN_Extensions := [], c_VerifyHostname := (\<lambda>_. True), c_ExtKeyUsage := [ClientAuth], c_Verify := (\<lambda>_ _. True)\<rparr>
       else demo_cert))\<rparr>"

definition demo_vm :: NatHoleVisitor where
  "demo_vm = \<lparr>hv_ControlID = replicate 32 3, hv_Nonce = replicate 32 5, hv_SPKISHA256 = replicate 32 7, hv_Certificate = [1],
     hv_SignalProof = [9], hv_TransactionID = ''t1'',
     hv_ProxyName = ''cam'', hv_PreCheck = False, hv_Protocol = ''quic'', hv_SignKey = [], hv_Timestamp = 1000,
     hv_MappedAddrs = [''1.2.3.4:1000'', ''1.2.3.4:1000''], hv_AssistedAddrs = []\<rparr>"

definition demo_sid :: string where "demo_sid = hex_of (replicate 32 1)"

definition demo_cm :: NatHoleClient where
  "demo_cm = \<lparr>hc_ControlID = replicate 32 2, hc_Nonce = replicate 32 4, hc_SPKISHA256 = replicate 32 6, hc_Certificate = [2],
     hc_SignalProof = [9], hc_Timestamp = 1000,
     hc_TransactionID = ''t2'', hc_ProxyName = ''cam'', hc_Sid = demo_sid,
     hc_MappedAddrs = [''5.6.7.8:2000'', ''5.6.7.8:2001''], hc_AssistedAddrs = []\<rparr>"

definition demo_ctl :: Controller where
  "demo_ctl =
     (let c0 = NewController 0 (\<lambda>_. \<lparr>cc_name = [], cc_sk = [], cc_allowUsers = [], cc_ownerControl = [], cc_closed = False\<rparr>)
            (\<lambda>_. \<lparr>s_sid = [], s_analysisKey = [], s_recommandMode = 0, s_recommandIndex = 0, s_visitorMsg = demo_vm,
              s_visitorTransporter = 0, s_clientMsg = None, s_clientTransporter = 0, s_notify = False, s_visitorControl = [],
              s_providerControl = [], s_done = False, s_cfg = 0\<rparr>);
          c1 = fst (RegisterControl c0 (replicate 32 2));
          c2 = fst (RegisterControl c1 (replicate 32 3));
          c3 = fst (ListenClient c2 ''cam'' ''key'' [''*''] (replicate 32 2));
          c4 = fst (HandleVisitor_admit demo_env (Some (replicate 32 1)) 1000 c3 demo_vm 10 ''bob'' (replicate 32 3))
      in HandleClient demo_env 1002 c4 demo_cm 20 (replicate 32 2))"

lemma reach_ops:
  assumes "\<exists>\<sigma>. nh_reachable env \<sigma> \<and> nh \<sigma> = c"
  shows "\<exists>\<sigma>. nh_reachable env \<sigma> \<and> nh \<sigma> = fst (RegisterControl c i)"
    and "\<exists>\<sigma>. nh_reachable env \<sigma> \<and> nh \<sigma> = fst (ListenClient c name sk users owner)"
    and "length b = 32 \<Longrightarrow> \<exists>\<sigma>. nh_reachable env \<sigma> \<and> nh \<sigma> = fst (HandleVisitor_admit env (Some b) now c vm t user caller)"
    and "\<exists>\<sigma>. nh_reachable env \<sigma> \<and> nh \<sigma> = HandleClient env now c cm t caller"
proof -
  from assms obtain \<sigma> where s: "nh_reachable env \<sigma>" "nh \<sigma> = c" by blast
  show "\<exists>\<sigma>. nh_reachable env \<sigma> \<and> nh \<sigma> = fst (RegisterControl c i)"
    using nh_next [OF s(1) register [of env \<sigma> i]] s(2) by force
  show "\<exists>\<sigma>. nh_reachable env \<sigma> \<and> nh \<sigma> = fst (ListenClient c name sk users owner)"
    using nh_next [OF s(1) listen [of env \<sigma> name sk users owner]] s(2) by force
  show "\<exists>\<sigma>. nh_reachable env \<sigma> \<and> nh \<sigma> = fst (HandleVisitor_admit env (Some b) now c vm t user caller)" if "length b = 32"
    using nh_next [OF s(1) visitor [of "Some b" env now \<sigma> vm t user caller, OF _ prod.collapse [symmetric]]] s(2) that by force
  show "\<exists>\<sigma>. nh_reachable env \<sigma> \<and> nh \<sigma> = HandleClient env now c cm t caller"
    using nh_next [OF s(1) client [of env \<sigma> now cm t caller]] s(2) by force
qed

lemma reach_start: "\<exists>\<sigma>. nh_reachable env \<sigma> \<and> nh \<sigma> = NewController reserve cs ss"
  using nh_start [of env reserve cs ss] by (force simp: nh_init_def)

lemma demo_run: "\<exists>\<sigma>. nh_reachable demo_env \<sigma> \<and> nh \<sigma> = demo_ctl"
  unfolding demo_ctl_def Let_def
  by (intro reach_ops reach_start) simp

lemma demo_ctl_facts:
  "n_sess demo_ctl = 1" "s_clientMsg (sess demo_ctl 0) = Some demo_cm" "s_visitorMsg (sess demo_ctl 0) = demo_vm"
  "s_providerControl (sess demo_ctl 0) = replicate 32 2" "\<not> isl (snd (analysis demo_env 1003 demo_ctl 0 demo_cm))"
      apply code_simp
     apply code_simp
    apply code_simp
   apply code_simp
  apply code_simp
  done

text \<open>Which table entries the operations of the run make.\<close>

lemma run_maps:
  "clientCfgs (fst (RegisterControl c i)) = clientCfgs c" "sessions (fst (RegisterControl c i)) = sessions c"
  "sessions (fst (ListenClient c name sk users owner)) = sessions c"
  "clientCfgs (fst (ListenClient c name sk users owner)) =
     (if isl (snd (ListenClient c name sk users owner)) then clientCfgs c else (clientCfgs c)(name \<mapsto> n_cfgs c))"
  "clientCfgs (fst (HandleVisitor_admit env rand now c vm t user caller)) = clientCfgs c"
  "sessions (fst (HandleVisitor_admit env rand now c vm t user caller)) =
     (if Option.is_none (snd (HandleVisitor_admit env rand now c vm t user caller)) then sessions c
      else (sessions c)(GenSid rand \<mapsto> n_sess c))"
  "clientCfgs (HandleClient env now c cm t caller) = clientCfgs c"
  "sessions (HandleClient env now c cm t caller) = sessions c"
  by (auto simp: RegisterControl_def ListenClient_def HandleVisitor_admit_def HandleClient_def Let_def send_resp_def set_sess_def
      split: sum.split option.split)

lemma demo_ctl_maps: "dom (clientCfgs demo_ctl) = {''cam''}" "dom (sessions demo_ctl) = {demo_sid}"
proof -
  have "Option.is_none (clientCfgs demo_ctl ''cam'') = False" "Option.is_none (sessions demo_ctl demo_sid) = False" by code_simp+
  moreover have "dom (clientCfgs demo_ctl) \<subseteq> {''cam''}" "dom (sessions demo_ctl) \<subseteq> {demo_sid}"
    by (simp_all add: demo_ctl_def Let_def run_maps NewController_def demo_sid_def GenSid_def)
  ultimately show "dom (clientCfgs demo_ctl) = {''cam''}" "dom (sessions demo_ctl) = {demo_sid}"
    by (auto simp: Option.is_none_def)
qed

theorem traversal_authentic_witness:
  "\<exists>\<sigma> c' vResp cResp. nh_reachable demo_env \<sigma> \<and> analysis demo_env 1003 (nh \<sigma>) 0 demo_cm = (c', Inr (vResp, cResp)) \<and>
     (\<exists>m. Decode (hr_BindingManifest vResp) 1003 = Some (Inr m) \<and> ProxyName m = ''cam'' \<and>
       PeerTLS (e_sha256 demo_env) (e_parse demo_env) True (hr_PeerCertificate cResp) m Provider \<noteq> None)"
proof -
  from demo_run obtain \<sigma> where s: "nh_reachable demo_env \<sigma>" "nh \<sigma> = demo_ctl" by blast
  obtain c' vResp cResp where a: "analysis demo_env 1003 (nh \<sigma>) 0 demo_cm = (c', Inr (vResp, cResp))"
    using demo_ctl_facts(5) s(2)
    by (cases "analysis demo_env 1003 demo_ctl 0 demo_cm"; cases "snd (analysis demo_env 1003 demo_ctl 0 demo_cm)") auto
  have "0 < n_sess (nh \<sigma>)" "s_clientMsg (sess (nh \<sigma>) 0) = Some demo_cm"
    by (simp_all add: s(2) demo_ctl_facts)
  note t = traversal_authentic [OF s(1) this a, unfolded s(2) demo_ctl_facts(3) Let_def]
  have "hv_ProxyName demo_vm = ''cam''" by (simp add: demo_vm_def)
  with t obtain m where "Decode (hr_BindingManifest vResp) 1003 = Some (Inr m)" "ProxyName m = ''cam''"
    "PeerTLS (e_sha256 demo_env) (e_parse demo_env) True (hr_PeerCertificate cResp) m Provider \<noteq> None"
    by (elim conjE exE) simp
  with s(1) a show ?thesis by blast
qed

theorem rendezvous_close_safe_witness:
  "\<exists>\<sigma> names sids c'. nh_reachable demo_env \<sigma> \<and> s_providerControl (sess (nh \<sigma>) 0) = replicate 32 2 \<and>
     CloseControl (nh \<sigma>) names sids (replicate 32 2) = Some c' \<and> replicate 32 2 \<notin> controls c' \<and>
     (\<forall>sid q. sessions c' sid = Some q \<longrightarrow> s_providerControl (sess c' q) \<noteq> replicate 32 2)"
proof -
  from demo_run obtain \<sigma> where s: "nh_reachable demo_env \<sigma>" "nh \<sigma> = demo_ctl" by blast
  have i: "ID (replicate 32 2) = Inr (replicate 32 2)" by code_simp
  have k: "iter_order (clientCfgs (nh \<sigma>)) [''cam'']" "iter_order (sessions (nh \<sigma>)) [demo_sid]"
    by (simp_all add: s(2) demo_ctl_maps iter_order_def)
  from rendezvous_close_safe [OF s(1) k, of "replicate 32 2"] i obtain c' where
    "CloseControl (nh \<sigma>) [''cam''] [demo_sid] (replicate 32 2) = Some c'" "replicate 32 2 \<notin> controls c'"
    "\<forall>sid q. sessions c' sid = Some q \<longrightarrow> s_providerControl (sess c' q) \<noteq> replicate 32 2 \<and> s_visitorControl (sess c' q) \<noteq> replicate 32 2"
    by blast
  moreover have "s_providerControl (sess (nh \<sigma>) 0) = replicate 32 2" by (simp add: s(2) demo_ctl_facts)
  ultimately show ?thesis using s(1) by blast
qed

end
