(* ===== verification/VisitorManager.thy ===== *)
theory VisitorManager
  imports Util Interfaces
begin

text \<open>
  The listeners that stcp and sudp proxies offer to visitors (\<open>server/visitor/visitor.go\<close>) and the
  in-process listener they use (\<open>pkg/util/net/listener.go\<close>). A listener is shared by the manager's
  table and by the proxy that accepts from it, so listeners live in a heap. MD5 and the outcome of
  setting up encryption are arguments; the wrapped connection records what was wrapped around it.
\<close>

section \<open>The in-process listener\<close>

record visitor_conn =
  vc_conn :: nat
  vc_encryption :: "string option"
  vc_compression :: bool
  vc_wireProtocol :: string
  vc_udpPacketCodec :: string

record InternalListener =
  acceptCh :: "visitor_conn list"
  il_closed :: bool

definition acceptCh_cap :: nat where "acceptCh_cap = 128"

definition NewInternalListener :: InternalListener where
  "NewInternalListener = \<lparr>acceptCh = [], il_closed = False\<rparr>"

datatype put_result = PutQueued | PutDropped | PutClosed

text \<open>A send to a closed channel panics, which \<open>PanicToError\<close> turns into an error; a full channel drops the connection.\<close>

definition PutConn :: "InternalListener \<Rightarrow> visitor_conn \<Rightarrow> InternalListener \<times> put_result" where
  "PutConn l conn =
     (if il_closed l then (l, PutClosed)
      else if length (acceptCh l) < acceptCh_cap then (l\<lparr>acceptCh := acceptCh l @ [conn]\<rparr>, PutQueued)
      else (l, PutDropped))"

text \<open>\<open>Accept\<close> blocks on an open empty channel (\<open>None\<close>); a closed channel is drained first.\<close>

definition Accept_conn :: "InternalListener \<Rightarrow> (InternalListener \<times> visitor_conn option) option" where
  "Accept_conn l =
     (case acceptCh l of
        c # cs \<Rightarrow> Some (l\<lparr>acceptCh := cs\<rparr>, Some c)
      | [] \<Rightarrow> if il_closed l then Some (l, None) else None)"

definition InternalListener_Close :: "InternalListener \<Rightarrow> InternalListener" where
  "InternalListener_Close l = l\<lparr>il_closed := True\<rparr>"

section \<open>The manager\<close>

record listenerBundle =
  lb_l :: nat
  lb_sk :: string
  lb_allowUsers :: "string list"

record VisitorManager =
  vm_listeners :: "string \<rightharpoonup> listenerBundle"
  vm_heap :: "InternalListener list"

definition NewVisitorManager :: VisitorManager where
  "NewVisitorManager = \<lparr>vm_listeners = Map.empty, vm_heap = []\<rparr>"

datatype visitor_err =
    VErrRepeated string
  | VErrAuth string
  | VErrUser string string
  | VErrEncryption
  | VErrClosed
  | VErrNoListener string

definition Visitor_Listen :: "VisitorManager \<Rightarrow> string \<Rightarrow> string \<Rightarrow> string list \<Rightarrow> VisitorManager \<times> (visitor_err + nat)" where
  "Visitor_Listen vm name sk allowUsers =
     (if \<not> Option.is_none (vm_listeners vm name) then (vm, Inl (VErrRepeated name))
      else let a = length (vm_heap vm)
           in (vm\<lparr>vm_listeners := (vm_listeners vm)(name \<mapsto> \<lparr>lb_l = a, lb_sk = sk, lb_allowUsers = allowUsers\<rparr>),
                  vm_heap := vm_heap vm @ [NewInternalListener]\<rparr>, Inr a))"

record visitor_request =
  vr_name :: string
  vr_conn :: nat
  vr_timestamp :: int
  vr_signKey :: string
  vr_useEncryption :: bool
  vr_useCompression :: bool
  vr_user :: string
  vr_wireProtocol :: string
  vr_udpPacketCodec :: string

definition wrapped :: "listenerBundle \<Rightarrow> visitor_request \<Rightarrow> visitor_conn" where
  "wrapped b r =
     \<lparr>vc_conn = vr_conn r, vc_encryption = (if vr_useEncryption r then Some (lb_sk b) else None),
      vc_compression = vr_useCompression r, vc_wireProtocol = vr_wireProtocol r, vc_udpPacketCodec = vr_udpPacketCodec r\<rparr>"

definition Visitor_NewConn ::
    "(bytes \<Rightarrow> bytes) \<Rightarrow> bool \<Rightarrow> VisitorManager \<Rightarrow> visitor_request \<Rightarrow> VisitorManager \<times> visitor_err option" where
  "Visitor_NewConn md5 encOK vm r =
     (case vm_listeners vm (vr_name r) of
        None \<Rightarrow> (vm, Some (VErrNoListener (vr_name r)))
      | Some b \<Rightarrow>
          if GetAuthKey md5 (lb_sk b) (vr_timestamp r) \<noteq> vr_signKey r then (vm, Some (VErrAuth (vr_name r)))
          else if vr_user r \<notin> set (lb_allowUsers b) \<and> ''*'' \<notin> set (lb_allowUsers b)
          then (vm, Some (VErrUser (vr_name r) (vr_user r)))
          else if vr_useEncryption r \<and> \<not> encOK then (vm, Some VErrEncryption)
          else (case PutConn (vm_heap vm ! lb_l b) (wrapped b r) of
                  (l, res) \<Rightarrow> (vm\<lparr>vm_heap := (vm_heap vm)[lb_l b := l]\<rparr>, if res = PutClosed then Some VErrClosed else None)))"

definition CloseListener :: "VisitorManager \<Rightarrow> string \<Rightarrow> VisitorManager" where
  "CloseListener vm name = vm\<lparr>vm_listeners := (vm_listeners vm)(name := None)\<rparr>"

text \<open>The proxy's side: closing the listener it was given.\<close>

definition close_internal :: "VisitorManager \<Rightarrow> nat \<Rightarrow> VisitorManager" where
  "close_internal vm a = vm\<lparr>vm_heap := (vm_heap vm)[a := InternalListener_Close (vm_heap vm ! a)]\<rparr>"

section \<open>Properties\<close>

definition vm_inv :: "VisitorManager \<Rightarrow> bool" where
  "vm_inv vm \<longleftrightarrow>
     (\<forall>name b. vm_listeners vm name = Some b \<longrightarrow> lb_l b < length (vm_heap vm)) \<and>
     (\<forall>n n' b b'. vm_listeners vm n = Some b \<longrightarrow> vm_listeners vm n' = Some b' \<longrightarrow> lb_l b = lb_l b' \<longrightarrow> n = n') \<and>
     list_all (\<lambda>l. length (acceptCh l) \<le> acceptCh_cap) (vm_heap vm)"

lemma vm_invD:
  assumes "vm_inv vm"
  shows "vm_listeners vm name = Some b \<Longrightarrow> lb_l b < length (vm_heap vm)"
    and "vm_listeners vm n = Some b1 \<Longrightarrow> vm_listeners vm n' = Some b2 \<Longrightarrow> lb_l b1 = lb_l b2 \<Longrightarrow> n = n'"
    and "a < length (vm_heap vm) \<Longrightarrow> length (acceptCh (vm_heap vm ! a)) \<le> acceptCh_cap"
  using assms unfolding vm_inv_def list_all_length by blast+

lemma NewVisitorManager_inv: "vm_inv NewVisitorManager"
  by (simp add: vm_inv_def NewVisitorManager_def)

lemma Visitor_Listen_inv: "vm_inv (fst (Visitor_Listen vm name sk users))" if "vm_inv vm"
  using that vm_invD(1) [OF that]
  by (auto simp: vm_inv_def Visitor_Listen_def NewInternalListener_def Let_def less_Suc_eq nat_neq_iff)

lemma CloseListener_inv: "vm_inv (CloseListener vm name)" if "vm_inv vm"
  using that by (auto simp: vm_inv_def CloseListener_def)

lemma vm_heap_inv:
  assumes "vm_inv vm" and "a < length (vm_heap vm) \<Longrightarrow> length (acceptCh l) \<le> acceptCh_cap"
  shows "vm_inv (vm\<lparr>vm_heap := (vm_heap vm)[a := l]\<rparr>)"
proof -
  have "length (acceptCh ((vm_heap vm)[a := l] ! k)) \<le> acceptCh_cap" if "k < length (vm_heap vm)" for k
    using assms(2) vm_invD(3) [OF assms(1) that] that by (cases "k = a") simp_all
  with assms(1) show ?thesis unfolding vm_inv_def list_all_length by simp
qed

lemma close_internal_inv: "vm_inv (close_internal vm a)" if "vm_inv vm"
  unfolding close_internal_def
  by (rule vm_heap_inv [OF that]) (use vm_invD(3) [OF that] in \<open>simp add: InternalListener_Close_def\<close>)

lemma Visitor_NewConn_cases:
  "Visitor_NewConn md5 encOK vm r = (vm', e) \<Longrightarrow>
   vm' = vm \<and> e \<noteq> None \<and> e \<noteq> Some VErrClosed \<or>
   (\<exists>b. vm_listeners vm (vr_name r) = Some b \<and> GetAuthKey md5 (lb_sk b) (vr_timestamp r) = vr_signKey r \<and>
      (vr_user r \<in> set (lb_allowUsers b) \<or> ''*'' \<in> set (lb_allowUsers b)) \<and>
      vm' = vm\<lparr>vm_heap := (vm_heap vm)[lb_l b := fst (PutConn (vm_heap vm ! lb_l b) (wrapped b r))]\<rparr> \<and>
      (e = None \<or> e = Some VErrClosed \<and> il_closed (vm_heap vm ! lb_l b)))"
  by (auto simp: Visitor_NewConn_def PutConn_def split: option.splits if_splits prod.splits)

lemma Visitor_NewConn_inv: "vm_inv (fst (Visitor_NewConn md5 encOK vm r))" if "vm_inv vm"
proof -
  obtain vm' e where n: "Visitor_NewConn md5 encOK vm r = (vm', e)" by fastforce
  have "length (acceptCh (fst (PutConn (vm_heap vm ! a) c))) \<le> acceptCh_cap" if "a < length (vm_heap vm)" for a c
    using vm_invD(3) [OF \<open>vm_inv vm\<close> that] by (simp add: PutConn_def)
  with Visitor_NewConn_cases [OF n] that show ?thesis unfolding n by (auto intro!: vm_heap_inv)
qed

text \<open>The calls in any order.\<close>

datatype visitor_op =
    VListen string string "string list"
  | VNewConn bool visitor_request
  | VCloseListener string
  | VCloseInternal nat
  | VAccept nat

definition visitor_step :: "(bytes \<Rightarrow> bytes) \<Rightarrow> VisitorManager \<Rightarrow> visitor_op \<Rightarrow> VisitorManager" where
  "visitor_step md5 vm p =
     (case p of
        VListen name sk users \<Rightarrow> fst (Visitor_Listen vm name sk users)
      | VNewConn encOK r \<Rightarrow> fst (Visitor_NewConn md5 encOK vm r)
      | VCloseListener name \<Rightarrow> CloseListener vm name
      | VCloseInternal a \<Rightarrow> close_internal vm a
      | VAccept a \<Rightarrow>
          (case Accept_conn (vm_heap vm ! a) of None \<Rightarrow> vm | Some (l, _) \<Rightarrow> vm\<lparr>vm_heap := (vm_heap vm)[a := l]\<rparr>))"

interpretation visitors: op_machine "visitor_step md5" "\<lambda>_ _. True" vm_inv for md5
proof (unfold_locales, goal_cases)
  case (1 s p)
  then show ?case
  proof (cases p)
    case (VAccept a)
    have "length (acceptCh l) \<le> acceptCh_cap" if "Accept_conn (vm_heap s ! a) = Some (l, x)" "a < length (vm_heap s)" for l x
      using that vm_invD(3) [OF 1(1) that(2)] by (auto simp: Accept_conn_def split: list.splits if_splits)
    with 1(1) VAccept show ?thesis by (auto simp: visitor_step_def intro: vm_heap_inv split: option.split)
  qed (use 1 in \<open>simp_all add: visitor_step_def Visitor_Listen_inv Visitor_NewConn_inv CloseListener_inv close_internal_inv\<close>)
qed

text \<open>
  C28. Only authorised visitors reach a secret proxy. After any calls on the visitor manager, a new
  connection changes nothing unless its proxy offers a listener, the signature was made with that
  listener's secret and the visitor's user is allowed; then it changes at most the queue of that
  listener, by appending the connection, encrypted under that secret if it asked for encryption. No queue
  ever holds more than 128 connections.
\<close>

theorem visitor_admission:
  assumes "vm = run_ops (visitor_step md5) NewVisitorManager ops" and "Visitor_NewConn md5 encOK vm r = (vm', e)"
  shows "(vm' \<noteq> vm \<longrightarrow>
      (\<exists>b. vm_listeners vm (vr_name r) = Some b \<and> GetAuthKey md5 (lb_sk b) (vr_timestamp r) = vr_signKey r \<and>
         (vr_user r \<in> set (lb_allowUsers b) \<or> ''*'' \<in> set (lb_allowUsers b)) \<and>
         vm_listeners vm' = vm_listeners vm \<and>
         acceptCh (vm_heap vm' ! lb_l b) = acceptCh (vm_heap vm ! lb_l b) @ [wrapped b r] \<and>
         (\<forall>a. a \<noteq> lb_l b \<longrightarrow> vm_heap vm' ! a = vm_heap vm ! a))) \<and>
    (\<forall>l \<in> set (vm_heap vm'). length (acceptCh l) \<le> 128)"
proof -
  have inv: "vm_inv vm" using visitors.run_inv [OF NewVisitorManager_inv] assms(1) by simp
  have "vm_inv vm'" using Visitor_NewConn_inv [OF inv, of md5 encOK r] assms(2) by simp
  then have "\<forall>l \<in> set (vm_heap vm'). length (acceptCh l) \<le> 128" by (simp add: vm_inv_def list_all_iff acceptCh_cap_def)
  moreover have "\<exists>b. vm_listeners vm (vr_name r) = Some b \<and> GetAuthKey md5 (lb_sk b) (vr_timestamp r) = vr_signKey r \<and>
      (vr_user r \<in> set (lb_allowUsers b) \<or> ''*'' \<in> set (lb_allowUsers b)) \<and> vm_listeners vm' = vm_listeners vm \<and>
      acceptCh (vm_heap vm' ! lb_l b) = acceptCh (vm_heap vm ! lb_l b) @ [wrapped b r] \<and>
      (\<forall>a. a \<noteq> lb_l b \<longrightarrow> vm_heap vm' ! a = vm_heap vm ! a)" if ch: "vm' \<noteq> vm"
  proof -
    from Visitor_NewConn_cases [OF assms(2)] ch obtain b where
      b: "vm_listeners vm (vr_name r) = Some b" "GetAuthKey md5 (lb_sk b) (vr_timestamp r) = vr_signKey r"
        "vr_user r \<in> set (lb_allowUsers b) \<or> ''*'' \<in> set (lb_allowUsers b)"
      and v: "vm' = vm\<lparr>vm_heap := (vm_heap vm)[lb_l b := fst (PutConn (vm_heap vm ! lb_l b) (wrapped b r))]\<rparr>"
      by (elim disjE exE conjE) blast+
    have "fst (PutConn (vm_heap vm ! lb_l b) (wrapped b r)) \<noteq> vm_heap vm ! lb_l b" using ch v by auto
    then have "acceptCh (fst (PutConn (vm_heap vm ! lb_l b) (wrapped b r))) = acceptCh (vm_heap vm ! lb_l b) @ [wrapped b r]"
      by (auto simp: PutConn_def split: if_splits)
    with b v vm_invD(1) [OF inv b(1)] show ?thesis by (intro exI [of _ b]) simp
  qed
  ultimately show ?thesis by blast
qed

definition demo_request :: visitor_request where
  "demo_request = \<lparr>vr_name = ''ssh'', vr_conn = 7, vr_timestamp = 5, vr_signKey = ''09'', vr_useEncryption = True,
     vr_useCompression = False, vr_user = ''bob'', vr_wireProtocol = ''v2'', vr_udpPacketCodec = []\<rparr>"

theorem visitor_admission_witness:
  "\<exists>vm vm'. Visitor_NewConn (\<lambda>_. [9]) True vm demo_request = (vm', None) \<and> vm' \<noteq> vm \<and>
     map vc_encryption (acceptCh (vm_heap vm' ! 0)) = [Some ''key''] \<and> (\<forall>l \<in> set (vm_heap vm'). length (acceptCh l) \<le> 128)"
proof -
  define vm where "vm = run_ops (visitor_step (\<lambda>_. [9])) NewVisitorManager [VListen ''ssh'' ''key'' [''alice'', ''bob'']]"
  have v: "vm = \<lparr>vm_listeners = [''ssh'' \<mapsto> \<lparr>lb_l = 0, lb_sk = ''key'', lb_allowUsers = [''alice'', ''bob'']\<rparr>],
      vm_heap = [NewInternalListener]\<rparr>"
    by (simp add: vm_def visitor_step_def Visitor_Listen_def NewVisitorManager_def)
  have k: "GetAuthKey (\<lambda>_. [9]) ''key'' 5 = ''09''" by code_simp
  obtain vm' e where n: "Visitor_NewConn (\<lambda>_. [9]) True vm demo_request = (vm', e)" by fastforce
  then have e: "e = None" "map vc_encryption (acceptCh (vm_heap vm' ! 0)) = [Some ''key'']"
    by (auto simp: v Visitor_NewConn_def demo_request_def k PutConn_def NewInternalListener_def acceptCh_cap_def wrapped_def)
  then have "vm' \<noteq> vm" by (auto simp: v NewInternalListener_def)
  moreover from visitor_admission [OF vm_def n] have "\<forall>l \<in> set (vm_heap vm'). length (acceptCh l) \<le> 128" by simp
  ultimately show ?thesis using n [unfolded e(1)] e(2) by - (intro exI conjI; assumption)
qed

end
