(* ===== verification/ResourcePools.thy ===== *)
theory ResourcePools
  imports HttpGroups NatHole VisitorManager
begin

text \<open>
  The contract that the proxies of the server rely on: a pool hands out handles for resources and takes
  them back. Taking either fails and changes nothing that anyone holds, or makes exactly one new resource
  held; giving a held resource back does not panic and makes exactly that resource free. The port
  managers, the groups, the route tables, the visitor manager and the rendezvous controller keep this
  contract; what they hold is a set of keys. A port or a route that belongs to a group with members is
  the group's, so its holders are the members.
\<close>

section \<open>Pools\<close>

fun take_all :: "('x \<Rightarrow> 's \<Rightarrow> 's \<times> ('e + 'h)) \<Rightarrow> 'x list \<Rightarrow> 'h list \<Rightarrow> 's \<Rightarrow> 's \<times> 'h list \<times> 'e option" where
  "take_all acq [] hs s = (s, hs, None)"
| "take_all acq (x # xs) hs s =
     (case acq x s of
        (s', Inl e) \<Rightarrow> (s', hs, Some e)
      | (s', Inr h) \<Rightarrow> take_all acq xs (hs @ [h]) s')"

fun give_all :: "('h \<Rightarrow> 's \<Rightarrow> 's option) \<Rightarrow> 'h list \<Rightarrow> 's \<Rightarrow> 's option" where
  "give_all rel [] s = Some s"
| "give_all rel (h # hs) s = Option.bind (rel h s) (give_all rel hs)"

locale resource_pool =
  fixes inv :: "'s \<Rightarrow> bool"
    and held :: "'s \<Rightarrow> 'k set"
    and adm :: "'x \<Rightarrow> 's \<Rightarrow> bool"
    and acq :: "'x \<Rightarrow> 's \<Rightarrow> 's \<times> ('e + 'h)"
    and rel :: "'h \<Rightarrow> 's \<Rightarrow> 's option"
    and key :: "'h \<Rightarrow> 'k"
    and good :: "'h \<Rightarrow> bool"
  assumes take_Inl: "inv s \<Longrightarrow> adm x s \<Longrightarrow> acq x s = (s', Inl e) \<Longrightarrow> inv s' \<and> held s' = held s"
    and take_Inr: "inv s \<Longrightarrow> adm x s \<Longrightarrow> acq x s = (s', Inr h) \<Longrightarrow>
      inv s' \<and> good h \<and> key h \<notin> held s \<and> held s' = insert (key h) (held s)"
    and give_Some: "inv s \<Longrightarrow> good h \<Longrightarrow> key h \<in> held s \<Longrightarrow> \<exists>s'. rel h s = Some s' \<and> inv s' \<and> held s' = held s - {key h}"
begin

lemma give_all_ok:
  assumes "inv s" and "list_all good hs" and "distinct (map key hs)" and "key ` set hs \<subseteq> held s"
  shows "\<exists>s'. give_all rel hs s = Some s' \<and> inv s' \<and> held s' = held s - key ` set hs"
  using assms
proof (induction hs arbitrary: s)
  case (Cons h hs)
  from give_Some [OF Cons.prems(1), of h] Cons.prems(2,4) obtain s1 where
    s1: "rel h s = Some s1" "inv s1" "held s1 = held s - {key h}" by auto
  have "key ` set hs \<subseteq> held s1" using Cons.prems(3,4) s1(3) by (auto simp: rev_image_eqI)
  from Cons.IH [OF s1(2) _ _ this] Cons.prems(2,3) s1 show ?case by auto
qed simp

text \<open>A loop that takes several resources, in states where each request is admissible.\<close>

lemma take_all_ok:
  assumes "inv s" and adm: "\<And>x s. x \<in> set xs \<Longrightarrow> inv s \<Longrightarrow> adm x s" and "take_all acq xs hs0 s = (s', hs, r)"
  shows "inv s' \<and> (\<exists>new. hs = hs0 @ new \<and> list_all good new \<and> distinct (map key new) \<and> key ` set new \<inter> held s = {} \<and>
    held s' = held s \<union> key ` set new)"
  using assms
proof (induction xs arbitrary: s hs0)
  case Nil
  then show ?case by auto
next
  case (Cons x xs)
  have a: "adm x s" using Cons.prems by simp
  obtain s1 t where t: "acq x s = (s1, t)" by fastforce
  show ?case
  proof (cases t)
    case (Inl e)
    with t Cons.prems(3) take_Inl [OF Cons.prems(1) a] show ?thesis by auto
  next
    case (Inr h)
    note s1 = take_Inr [OF Cons.prems(1) a t [unfolded Inr]]
    from Cons.IH [of s1 "hs0 @ [h]"] s1 Cons.prems(2,3) t Inr obtain new where
      "inv s'" "hs = hs0 @ [h] @ new" "list_all good new" "distinct (map key new)" "key ` set new \<inter> held s1 = {}" "held s' = held s1 \<union> key ` set new"
      by auto
    with s1 show ?thesis by (intro conjI exI [of _ "h # new"]) auto
  qed
qed

text \<open>Rolling back a failed loop, and giving everything back after a successful one.\<close>

lemma take_all_undo:
  assumes "inv s" and adm: "\<And>x s. x \<in> set xs \<Longrightarrow> inv s \<Longrightarrow> adm x s" and "take_all acq xs [] s = (s', hs, r)"
  shows "\<exists>s''. give_all rel hs s' = Some s'' \<and> inv s'' \<and> held s'' = held s"
proof -
  from take_all_ok [OF assms] obtain new where n: "inv s'" "hs = new" "list_all good new" "distinct (map key new)" "key ` set new \<inter> held s = {}"
    "held s' = held s \<union> key ` set new" by auto
  have "held s \<union> key ` set new - key ` set new = held s" using n(5) by blast
  with give_all_ok [OF n(1,3,4)] n(2,6) show ?thesis by auto
qed

end

section \<open>A resource shared with groups\<close>

text \<open>
  The resource of a group controller is used by plain proxies and by groups. Each group with members
  uses one element of the resource, which no other group uses.
\<close>

datatype 'k pool_key = Resource 'k | Member nat nat

definition active_groups :: "('x, 'e) groupCtl \<Rightarrow> nat set" where
  "active_groups c = {a. a < length (heap c) \<and> lns (heap c ! a) \<noteq> []}"

definition group_elems :: "('x baseGroup_scheme \<Rightarrow> 'k) \<Rightarrow> ('x, 'e) groupCtl \<Rightarrow> 'k set" where
  "group_elems gkey c = (\<lambda>a. gkey (heap c ! a)) ` active_groups c"

definition pool_members :: "('x, 'e) groupCtl \<Rightarrow> 'k pool_key set" where
  "pool_members c = {Member a ln | a ln. a < length (heap c) \<and> ln \<in> set (lns (heap c ! a))}"

definition pool_inv :: "('e \<Rightarrow> bool) \<Rightarrow> ('e \<Rightarrow> 'k set) \<Rightarrow> ('x baseGroup_scheme \<Rightarrow> 'k) \<Rightarrow> ('x, 'e) groupCtl \<Rightarrow> bool" where
  "pool_inv rinv used gkey c \<longleftrightarrow>
     base_inv c \<and> rinv (res c) \<and> inj_on (\<lambda>a. gkey (heap c ! a)) (active_groups c) \<and> group_elems gkey c \<subseteq> used (res c)"

definition pool_held :: "('e \<Rightarrow> 'k set) \<Rightarrow> ('x baseGroup_scheme \<Rightarrow> 'k) \<Rightarrow> ('x, 'e) groupCtl \<Rightarrow> 'k pool_key set" where
  "pool_held used gkey c = Resource ` (used (res c) - group_elems gkey c) \<union> pool_members c"

lemma pool_res [simp]:
  "active_groups (c\<lparr>res := r\<rparr>) = active_groups c" "group_elems gkey (c\<lparr>res := r\<rparr>) = group_elems gkey c"
  "pool_members (c\<lparr>res := r\<rparr>) = pool_members c" "base_inv (c\<lparr>res := r\<rparr>) = base_inv c"
  by (simp_all add: active_groups_def group_elems_def pool_members_def base_inv_def)

lemma Resource_members [simp]: "Resource k \<notin> pool_members c"
  by (auto simp: pool_members_def)

lemma plain_same:
  assumes "pool_inv rinv used gkey c" and "rinv r" and "used r = used (res c)"
  shows "pool_inv rinv used gkey (c\<lparr>res := r\<rparr>) \<and> pool_held used gkey (c\<lparr>res := r\<rparr>) = pool_held used gkey c"
  using assms by (simp add: pool_inv_def pool_held_def)

lemma plain_take:
  assumes "pool_inv rinv used gkey c" and "rinv r" and "k \<notin> used (res c)" and "used r = insert k (used (res c))"
  shows "pool_inv rinv used gkey (c\<lparr>res := r\<rparr>) \<and> Resource k \<notin> pool_held used gkey c \<and>
    pool_held used gkey (c\<lparr>res := r\<rparr>) = insert (Resource k) (pool_held used gkey c)"
  using assms by (auto simp: pool_inv_def pool_held_def)

lemma plain_give:
  assumes "pool_inv rinv used gkey c" and "Resource k \<in> pool_held used gkey c" and "rinv r" and "used r = used (res c) - {k}"
  shows "pool_inv rinv used gkey (c\<lparr>res := r\<rparr>) \<and>
    pool_held used gkey (c\<lparr>res := r\<rparr>) = pool_held used gkey c - {Resource k}"
  using assms by (auto simp: pool_inv_def pool_held_def)

locale pooled_group =
  listener_group listen cleanup new name key compat
  for listen :: "('x, 'e) groupCtl \<Rightarrow> nat \<Rightarrow> 'a \<Rightarrow> ('x, 'e) groupCtl \<times> (group_err + nat)"
    and cleanup and new and name and key and compat +
  fixes rinv :: "'e \<Rightarrow> bool"
    and used :: "'e \<Rightarrow> 'k set"
    and gkey :: "'x baseGroup_scheme \<Rightarrow> 'k"
    and adm :: "'a \<Rightarrow> 'e \<Rightarrow> bool"
  assumes res_fail: "rinv (res c) \<Longrightarrow> adm x (res c) \<Longrightarrow> listen c a x = (c', Inl e) \<Longrightarrow>
      rinv (res c') \<and> used (res c') = used (res c)"
    and res_first: "rinv (res c) \<Longrightarrow> adm x (res c) \<Longrightarrow> a < length (heap c) \<Longrightarrow> lns (heap c ! a) = [] \<Longrightarrow>
      listen c a x = (c', Inr ln) \<Longrightarrow>
      rinv (res c') \<and> gkey (heap c' ! a) \<notin> used (res c) \<and> used (res c') = insert (gkey (heap c' ! a)) (used (res c))"
    and gkey_lns: "gkey (g\<lparr>lns := ls\<rparr>) = gkey g"
    and gkey_open: "gkey (g\<lparr>acceptOpen := b\<rparr>) = gkey g"
    and res_cleanup: "rinv (res c) \<Longrightarrow> gkey g \<in> used (res c) \<Longrightarrow>
      rinv (res (cleanup g a c)) \<and> used (res (cleanup g a c)) = used (res c) - {gkey g}"
begin

lemma getOrCreate_pool:
  assumes "pool_inv rinv used gkey c" and "getOrCreate c k new = (c1, a)"
  shows "pool_inv rinv used gkey c1 \<and> pool_held used gkey c1 = pool_held used gkey c \<and> res c1 = res c \<and>
    groups c1 k = Some a \<and> a < length (heap c1)"
proof -
  have b: "base_inv c1" using getOrCreate_inv [of c k] assms by (simp add: pool_inv_def)
  have r: "res c1 = res c" and g: "groups c1 k = Some a"
    using assms(2) by (auto simp: getOrCreate_def split: option.splits)
  have a: "a < length (heap c1)" using b g by (auto simp: base_inv_def)
  have act: "active_groups c1 = active_groups c"
    using assms(2) new by (auto simp: active_groups_def getOrCreate_def nth_append less_Suc_eq split: option.splits)
  have same: "gkey (heap c1 ! x) = gkey (heap c ! x)" if "x \<in> active_groups c" for x
    using assms(2) that by (auto simp: active_groups_def getOrCreate_def nth_append split: option.splits)
  then have "group_elems gkey c1 = group_elems gkey c" unfolding group_elems_def act by (intro image_cong) simp_all
  moreover have "(pool_members c1 :: 'k pool_key set) = pool_members c"
    using assms(2) new by (auto simp: pool_members_def getOrCreate_def nth_append less_Suc_eq split: option.splits if_splits)
  moreover have "inj_on (\<lambda>x. gkey (heap c1 ! x)) (active_groups c1)"
    using assms(1) same unfolding act pool_inv_def by (simp add: inj_on_def)
  ultimately show ?thesis using assms(1) b r g a by (simp add: pool_inv_def pool_held_def)
qed

lemma listen_Inl_pool:
  assumes "pool_inv rinv used gkey c" and "adm x (res c)" and "listen c a x = (c', Inl e)"
  shows "pool_inv rinv used gkey c' \<and> pool_held used gkey c' = pool_held used gkey c"
proof -
  have "groups c' = groups c" "heap c' = heap c" "groupCtl.fresh c' = groupCtl.fresh c" using fail [OF assms(3)] by simp_all
  moreover from this have "base_inv c' = base_inv c" by (simp add: base_inv_def)
  moreover have "rinv (res c') \<and> used (res c') = used (res c)"
    using res_fail [OF _ assms(2,3)] assms(1) by (simp add: pool_inv_def)
  ultimately show ?thesis
    using assms(1) by (simp add: pool_inv_def pool_held_def active_groups_def group_elems_def pool_members_def)
qed

lemma listen_Inr_pool:
  assumes inv: "pool_inv rinv used gkey c" and adm: "adm x (res c)" and a: "a < length (heap c)" and l: "listen c a x = (c', Inr ln)"
  shows "pool_inv rinv used gkey c' \<and> Member a ln \<notin> pool_held used gkey c \<and> groups c' = groups c \<and>
    pool_held used gkey c' = insert (Member a ln) (pool_held used gkey c)"
proof -
  have b: "base_inv c" and ri: "rinv (res c)" and inj: "inj_on (\<lambda>a. gkey (heap c ! a)) (active_groups c)"
    and sub: "group_elems gkey c \<subseteq> used (res c)" using inv by (simp_all add: pool_inv_def)
  have b': "base_inv c'" by (rule listen_Inr_inv [OF b a l])
  obtain g where g: "heap c' = (heap c)[a := g]" "lns g = lns (heap c ! a) @ [ln]" "ln = groupCtl.fresh c" "groups c' = groups c"
    and cur: "groups c (name x) = Some a" by (rule listen_Inr [OF b a l]) blast
  have h: "heap c' ! y = (if y = a then g else heap c ! y)" for y using g(1) a by simp
  have len: "length (heap c') = length (heap c)" using g(1) by simp
  have new: "ln \<notin> set (lns (heap c ! a))" using b a g(3) by (auto simp: base_inv_def)
  have act: "active_groups c' = insert a (active_groups c)"
    using g(2) a unfolding active_groups_def len by (auto simp: h split: if_splits)
  have mem: "(pool_members c' :: 'k pool_key set) = insert (Member a ln) (pool_members c)"
    using g(2) a unfolding pool_members_def len by (auto simp: h split: if_splits)
  show ?thesis
  proof (cases "lns (heap c ! a) = []")
    case True
    note r = res_first [OF ri adm a True l]
    have "a \<notin> active_groups c" using True by (simp add: active_groups_def)
    then have e: "group_elems gkey c' = insert (gkey g) (group_elems gkey c)"
      unfolding group_elems_def act by (auto simp: h image_iff)
    have "inj_on (\<lambda>y. gkey (heap c' ! y)) (active_groups c')"
    proof (unfold act, rule inj_on_insert [THEN iffD2], intro conjI)
      have same: "gkey (heap c' ! y) = gkey (heap c ! y)" if "y \<in> active_groups c" for y
        using that \<open>a \<notin> active_groups c\<close> h by auto
      with inj show "inj_on (\<lambda>y. gkey (heap c' ! y)) (active_groups c)" by (simp cong: inj_on_cong)
      have "gkey (heap c' ! a) \<notin> group_elems gkey c" using r sub by blast
      then show "gkey (heap c' ! a) \<notin> (\<lambda>y. gkey (heap c' ! y)) ` (active_groups c - {a})"
        using same by (auto simp: group_elems_def)
    qed
    moreover have "used (res c') - group_elems gkey c' = used (res c) - group_elems gkey c"
      unfolding e using r by (auto simp: h)
    ultimately show ?thesis
      using b' r sub new g(4) a mem e by (auto simp: pool_inv_def pool_held_def h pool_members_def)
  next
    case False
    from join [OF cur a False l] have r: "res c' = res c" and "heap c' ! a = (heap c ! a)\<lparr>lns := lns (heap c ! a) @ [ln]\<rparr>"
      using a by simp_all
    then have k: "gkey g = gkey (heap c ! a)" using h [of a] gkey_lns by simp
    have "active_groups c' = active_groups c" using act False a by (auto simp: active_groups_def)
    moreover from this k have "group_elems gkey c' = group_elems gkey c" by (auto simp: group_elems_def h)
    moreover have "(\<lambda>y. gkey (heap c' ! y)) = (\<lambda>y. gkey (heap c ! y))" using k by (auto simp: h)
    with inj have "inj_on (\<lambda>y. gkey (heap c' ! y)) (active_groups c)" by simp
    ultimately show ?thesis
      using b' ri sub new g(4) r mem by (auto simp: pool_inv_def pool_held_def pool_members_def)
  qed
qed

lemma close_pool:
  assumes inv: "pool_inv rinv used gkey c" and m: "Member a ln \<in> pool_held used gkey c"
  shows "\<exists>c'. closeListener cleanup c a ln = Some c' \<and> pool_inv rinv used gkey c' \<and>
    pool_held used gkey c' = pool_held used gkey c - {Member a ln}"
proof -
  have b: "base_inv c" and ri: "rinv (res c)" and inj: "inj_on (\<lambda>a. gkey (heap c ! a)) (active_groups c)"
    and sub: "group_elems gkey c \<subseteq> used (res c)" using inv by (simp_all add: pool_inv_def)
  have a: "a < length (heap c)" and ln: "ln \<in> set (lns (heap c ! a))" using m by (auto simp: pool_held_def pool_members_def)
  let ?ls = "remove1 ln (lns (heap c ! a))"
  obtain c' where c': "closeListener cleanup c a ln = Some c'" "base_inv c'" "heap c' = (heap c)[a := heap c' ! a]"
    "lns (heap c' ! a) = ?ls" by (rule close_Some [OF b a ln])
  have k: "gkey (heap c' ! a) = gkey (heap c ! a)"
    using c'(1) a by (auto simp: closeListener_def cleanup gkey_lns gkey_open Let_def split: if_splits)
  have h: "heap c' ! y = (if y = a then heap c' ! a else heap c ! y)" for y
    using c'(3) by (metis nth_list_update_neq)
  have len: "length (heap c') = length (heap c)" using c'(3) by (metis length_list_update)
  have gk: "gkey (heap c' ! y) = gkey (heap c ! y)" for y using h k by metis
  have ls: "lns (heap c' ! y) = (if y = a then ?ls else lns (heap c ! y))" for y using h c'(4) by metis
  have act: "active_groups c' = (if ?ls = [] then active_groups c - {a} else active_groups c)"
    using ln a unfolding active_groups_def len by (auto simp: ls)
  have inA: "a \<in> active_groups c" using ln a by (auto simp: active_groups_def)
  have dl: "distinct (lns (heap c ! a))" using b a by (simp add: base_inv_def)
  have mem: "(pool_members c' :: 'k pool_key set) = pool_members c - {Member a ln}"
    using dl unfolding pool_members_def len by (auto simp: ls split: if_splits)
  have e: "group_elems gkey c' = (if ?ls = [] then group_elems gkey c - {gkey (heap c ! a)} else group_elems gkey c)"
    unfolding group_elems_def act using inj inA by (auto simp: gk inj_on_def)
  have r: "rinv (res c') \<and> used (res c') = (if ?ls = [] then used (res c) - {gkey (heap c ! a)} else used (res c))"
  proof (cases "?ls = []")
    case True
    have "gkey (heap c ! a) \<in> used (res c)" using sub inA by (auto simp: group_elems_def)
    with c'(1) True ri res_cleanup [of "c\<lparr>heap := (heap c)[a := (heap c ! a)\<lparr>lns := [], acceptOpen := False\<rparr>]\<rparr>" "heap c ! a" a]
    show ?thesis by (auto simp: closeListener_def Let_def split: if_splits)
  qed (use c'(1) ri in \<open>auto simp: closeListener_def Let_def\<close>)
  have "inj_on (\<lambda>y. gkey (heap c' ! y)) (active_groups c')" using inj unfolding act by (simp add: gk inj_on_def)
  moreover have "used (res c') - group_elems gkey c' = used (res c) - group_elems gkey c" using r e sub inA by (auto simp: group_elems_def)
  ultimately show ?thesis
    using c'(1,2) r e sub mem by (intro exI [of _ c']) (auto simp: pool_inv_def pool_held_def)
qed

end

section \<open>TCP ports and TCP groups\<close>

lemma Acquire_dom:
  assumes "port_inv A pm" and "0 \<notin> A" and "set order = freePorts pm" and "\<And>i q. avail i q \<Longrightarrow> usedPorts pm q = None"
    and "Acquire avail order now pm name p = (pm', r)"
  shows "port_inv A pm' \<and>
    (case r of Inl _ \<Rightarrow> pm' = pm | Inr k \<Rightarrow> usedPorts pm k = None \<and> dom (usedPorts pm') = insert k (dom (usedPorts pm)))"
  using assms(1,3,5)
proof (cases rule: Acquire_cases)
  case fail
  with assms(1) show ?thesis by simp
next
  case (reserved k)
  with assms(1,4) show ?thesis
    by (simp add: acquire_port_inv) (simp add: acquire_port_def markPortAcquiredLocked_def)
next
  case (free k)
  have "k \<in> A" using assms(1) free(1) by (auto simp: port_inv_def)
  moreover from this have "k \<noteq> 0" using assms(2) by auto
  ultimately show ?thesis
    using free assms(1,4) by (simp add: acquire_port_inv) (auto simp: acquire_port_def markPortAcquiredLocked_def)
qed

lemma Release_dom: "dom (usedPorts (Release pm p now)) = dom (usedPorts pm) - {p}"
  by (auto simp: Release_used split: if_splits)

text \<open>The iteration lists the free ports, and the operating system refuses a port that is in use.\<close>

definition env_ok :: "tcp_env \<Rightarrow> Manager \<Rightarrow> bool" where
  "env_ok env pm \<longleftrightarrow> set (iter env) = freePorts pm \<and> (\<forall>i q. probe env i q \<longrightarrow> usedPorts pm q = None)"

definition ports_ok :: "int set \<Rightarrow> Manager \<Rightarrow> bool" where
  "ports_ok A pm \<longleftrightarrow> 0 \<notin> A \<and> port_inv A pm"

definition used_ports :: "Manager \<Rightarrow> int set" where
  "used_ports pm = dom (usedPorts pm)"

lemma used_ports_Release: "used_ports (Release pm p now) = used_ports pm - {p}"
  by (simp add: used_ports_def Release_dom)

lemma Acquire_ok:
  assumes "ports_ok A pm" and "env_ok env pm" and "Acquire (probe env) (iter env) (clock env) pm name p = (pm', r)"
  shows "ports_ok A pm' \<and>
    (case r of Inl _ \<Rightarrow> pm' = pm | Inr k \<Rightarrow> k \<notin> used_ports pm \<and> used_ports pm' = insert k (used_ports pm))"
  using Acquire_dom [of A pm "iter env" "probe env" "clock env" name p pm' r] assms
  by (simp add: ports_ok_def env_ok_def used_ports_def domIff split: sum.splits)

lemma Release_ok: "ports_ok A pm \<Longrightarrow> ports_ok A (Release pm p now)"
  by (simp add: ports_ok_def Release_inv)

lemma tcp_listen_res:
  assumes "ports_ok A (res c)" and "env_ok (fst x) (res c)" and "tcp_listen c a x = (c', r)"
  shows "ports_ok A (res c') \<and> (\<forall>e. r = Inl e \<longrightarrow> used_ports (res c') = used_ports (res c)) \<and>
    (\<forall>ln. r = Inr ln \<longrightarrow> a < length (heap c) \<longrightarrow> lns (heap c ! a) = [] \<longrightarrow>
       realPort (heap c' ! a) \<notin> used_ports (res c) \<and>
       used_ports (res c') = insert (realPort (heap c' ! a)) (used_ports (res c)))"
proof -
  obtain env y where x: "x = (env, y)" by fastforce
  obtain pm q where q: "Acquire (probe env) (iter env) (clock env) (res c) (ta_proxyName y) (ta_port y) = (pm, q)" by fastforce
  note k = Acquire_ok [OF assms(1) _ q]
  have "used_ports (Release pm rp (clock env)) = used_ports (res c)" if "q = Inr rp" for rp
    using k assms(2) that x by (auto simp: used_ports_Release)
  with assms k q x show ?thesis
    by (auto simp: tcp_listen_def TCPGroup_Listen_def isCurrent_def newListener_def initBase_def Let_def Release_ok
        split: if_splits sum.splits)
qed

interpretation tcp_pool: pooled_group tcp_listen "tcp_cleanup now" NewTCPGroup
  "\<lambda>x. ta_group (snd x)" "\<lambda>x. ta_groupKey (snd x)"
  "\<lambda>g x. addr g = ta_addr (snd x) \<and> port g = ta_port (snd x)"
  "ports_ok A" used_ports realPort "\<lambda>x. env_ok (fst x)" for now A
proof (unfold_locales, goal_cases)
  case (5 c g a)
  then show ?case by (simp add: tcp_cleanup_def removeIf_def Release_ok used_ports_Release)
qed (use tcp_listen_res in blast | simp)+

text \<open>A port for a proxy outside groups, and a listener of a group.\<close>

definition tcp_held :: "TCPGroupCtl \<Rightarrow> int pool_key set" where
  "tcp_held = pool_held used_ports realPort"

definition tcp_pool_inv :: "int set \<Rightarrow> TCPGroupCtl \<Rightarrow> bool" where
  "tcp_pool_inv A = pool_inv (ports_ok A) used_ports realPort"

lemma TCPGroupCtl_Listen_pool:
  assumes "tcp_pool_inv A c" and "env_ok env (res c)" and "TCPGroupCtl_Listen c env x = (c', r)"
  shows "tcp_pool_inv A c' \<and>
    (case r of
       Inl _ \<Rightarrow> tcp_held c' = tcp_held c
     | Inr (ln, _) \<Rightarrow> let k = Member (the (groups c' (ta_group x))) ln in k \<notin> tcp_held c \<and> tcp_held c' = insert k (tcp_held c))"
proof -
  obtain c1 a where g: "getOrCreate c (ta_group x) NewTCPGroup = (c1, a)" by fastforce
  note c1 = tcp_pool.getOrCreate_pool [OF assms(1) [unfolded tcp_pool_inv_def] g]
  then have adm: "env_ok (fst (env, x)) (res c1)" using assms(2) by simp
  have l: "TCPGroup_Listen c1 a env x = (c', r)" using assms(3) g by (simp add: TCPGroupCtl_Listen_def)
  show ?thesis
  proof (cases r)
    case (Inl e)
    with l have "tcp_listen c1 a (env, x) = (c', Inl e)" by (simp add: tcp_listen_def)
    with tcp_pool.listen_Inl_pool [where A = A, OF _ adm this] c1 Inl show ?thesis by (simp add: tcp_pool_inv_def tcp_held_def)
  next
    case (Inr z)
    with l have "tcp_listen c1 a (env, x) = (c', Inr (fst z))" by (simp add: tcp_listen_def)
    with tcp_pool.listen_Inr_pool [where A = A, OF _ adm _ this] c1 Inr show ?thesis
      by (auto simp: tcp_pool_inv_def tcp_held_def Let_def split: prod.split)
  qed
qed

lemma TCPGroup_close_pool:
  assumes "tcp_pool_inv A c" and "Member a ln \<in> tcp_held c"
  shows "\<exists>c'. TCPGroup_close c a ln now = Some c' \<and> tcp_pool_inv A c' \<and> tcp_held c' = tcp_held c - {Member a ln}"
  using tcp_pool.close_pool [of A c a ln now] assms by (simp add: tcp_pool_inv_def tcp_held_def TCPGroup_close_def)

section \<open>Routes of the HTTPS and tcpmux muxers\<close>

definition used_routes :: "'p Routers \<Rightarrow> (string \<times> string \<times> string) set" where
  "used_routes r = dom (route_lookup r)"

definition listener_route :: "(string \<Rightarrow> string) \<Rightarrow> Listener \<Rightarrow> string \<times> string \<times> string" where
  "listener_route uni l = (ToLower uni (l_name l), l_location l, l_routeByHTTPUser l)"

lemma Muxer_Listen_ok:
  assumes "routers_wf r" and "Muxer_Listen uni r l = Some r'"
  shows "routers_wf r' \<and> listener_route uni l \<notin> used_routes r \<and> used_routes r' = insert (listener_route uni l) (used_routes r)"
  using assms route_lookup_Add [of uni r _ _ _ l r'] Add_wf [of uni r _ _ _ l r']
  by (auto simp: Muxer_Listen_def used_routes_def listener_route_def)

lemma Listener_Close_ok:
  assumes "routers_wf r"
  shows "routers_wf (Listener_Close uni r l) \<and> used_routes (Listener_Close uni r l) = used_routes r - {listener_route uni l}"
  using Del_wf [OF assms] route_lookup_Del [OF assms] by (simp add: Listener_Close_def used_routes_def listener_route_def)

interpretation https_pool: pooled_group
  "\<lambda>c a x. HTTPSGroup_Listen uni c a (va_group x) (va_groupKey x) (va_route x)" "vhost_cleanup uni"
  NewHTTPSGroup va_group va_groupKey "\<lambda>g x. l_name (hs_route g) = l_name (va_route x)"
  routers_wf used_routes "\<lambda>g. listener_route uni (hs_route g)" "\<lambda>_ _. True" for uni
proof (unfold_locales, goal_cases)
  case (2 c x a c' ln)
  then show ?case
    using Muxer_Listen_ok [of "res c" uni "va_route x"]
    by (auto simp: HTTPSGroup_Listen_def isCurrent_def newListener_def initBase_def Let_def split: if_splits option.splits)
next
  case (5 c g a)
  then show ?case by (simp add: vhost_cleanup_def removeIf_def Listener_Close_ok)
qed (auto simp: HTTPSGroup_Listen_def newListener_def Let_def split: if_splits option.splits)

interpretation tcpmux_pool: pooled_group
  "\<lambda>c a x. HTTPConnectListen uni c a (va_group x) (va_groupKey x) (va_route x)" "vhost_cleanup uni"
  NewHTTPSGroup va_group va_groupKey
  "\<lambda>g x. l_name (hs_route g) = l_name (va_route x) \<and>
         l_routeByHTTPUser (hs_route g) = l_routeByHTTPUser (va_route x) \<and>
         l_username (hs_route g) = l_username (va_route x) \<and> l_password (hs_route g) = l_password (va_route x)"
  routers_wf used_routes "\<lambda>g. listener_route uni (hs_route g)" "\<lambda>_ _. True" for uni
proof (unfold_locales, goal_cases)
  case (2 c x a c' ln)
  then show ?case
    using Muxer_Listen_ok [of "res c" uni "va_route x"]
    by (auto simp: HTTPConnectListen_def isCurrent_def newListener_def initBase_def Let_def split: if_splits option.splits)
next
  case (5 c g a)
  then show ?case by (simp add: vhost_cleanup_def removeIf_def Listener_Close_ok)
qed (auto simp: HTTPConnectListen_def newListener_def Let_def split: if_splits option.splits)

definition vhost_held :: "(string \<Rightarrow> string) \<Rightarrow> HTTPSGroupCtl \<Rightarrow> (string \<times> string \<times> string) pool_key set" where
  "vhost_held uni = pool_held used_routes (\<lambda>g. listener_route uni (hs_route g))"

definition vhost_pool_inv :: "(string \<Rightarrow> string) \<Rightarrow> HTTPSGroupCtl \<Rightarrow> bool" where
  "vhost_pool_inv uni = pool_inv routers_wf used_routes (\<lambda>g. listener_route uni (hs_route g))"

definition takes_member :: "(string \<Rightarrow> string) \<Rightarrow> string \<Rightarrow> HTTPSGroupCtl \<Rightarrow> HTTPSGroupCtl \<times> (group_err + nat) \<Rightarrow> bool" where
  "takes_member uni grp c q \<longleftrightarrow>
     vhost_pool_inv uni (fst q) \<and>
     (case snd q of
        Inl _ \<Rightarrow> vhost_held uni (fst q) = vhost_held uni c
      | Inr ln \<Rightarrow> let k = Member (the (groups (fst q) grp)) ln
                  in k \<notin> vhost_held uni c \<and> vhost_held uni (fst q) = insert k (vhost_held uni c))"

lemma HTTPSGroupController_Listen_pool:
  assumes "vhost_pool_inv uni c"
  shows "takes_member uni grp c (HTTPSGroupController_Listen uni c grp key l)"
proof -
  obtain c1 a where g: "getOrCreate c grp NewHTTPSGroup = (c1, a)" by fastforce
  note c1 = https_pool.getOrCreate_pool [OF assms [unfolded vhost_pool_inv_def] g]
  obtain c' r where r: "HTTPSGroup_Listen uni c1 a grp key l = (c', r)" by fastforce
  let ?x = "\<lparr>va_group = grp, va_groupKey = key, va_route = l\<rparr>"
  have e: "HTTPSGroupController_Listen uni c grp key l = (c', r)" using g r by (simp add: HTTPSGroupController_Listen_def)
  show ?thesis
    unfolding e takes_member_def vhost_pool_inv_def vhost_held_def
    using https_pool.listen_Inl_pool [where uni = uni and c = c1 and x = ?x and a = a and c' = c'] https_pool.listen_Inr_pool [where uni = uni and c = c1 and x = ?x and a = a and c' = c'] c1 r
    by (auto simp: Let_def split: sum.split)
qed

lemma TCPMuxGroupCtl_Listen_pool:
  assumes "vhost_pool_inv uni c"
  shows "takes_member uni grp c (TCPMuxGroupCtl_Listen uni c multiplexer grp key l)"
proof -
  obtain c1 a where g: "getOrCreate c grp NewHTTPSGroup = (c1, a)" by fastforce
  note c1 = tcpmux_pool.getOrCreate_pool [OF assms [unfolded vhost_pool_inv_def] g]
  let ?x = "\<lparr>va_group = grp, va_groupKey = key, va_route = l\<rparr>"
  show ?thesis
  proof (cases "multiplexer = ''httpconnect''")
    case True
    obtain c' r where r: "HTTPConnectListen uni c1 a grp key l = (c', r)" by fastforce
    have e: "TCPMuxGroupCtl_Listen uni c multiplexer grp key l = (c', r)" using g r True by (simp add: TCPMuxGroupCtl_Listen_def)
    show ?thesis
      unfolding e takes_member_def vhost_pool_inv_def vhost_held_def
      using tcpmux_pool.listen_Inl_pool [where uni = uni and c = c1 and x = ?x and a = a and c' = c'] tcpmux_pool.listen_Inr_pool [where uni = uni and c = c1 and x = ?x and a = a and c' = c'] c1 r
      by (auto simp: Let_def split: sum.split)
  next
    case False
    with g c1 show ?thesis by (simp add: TCPMuxGroupCtl_Listen_def takes_member_def vhost_pool_inv_def vhost_held_def)
  qed
qed

lemma HTTPSGroup_close_pool:
  assumes "vhost_pool_inv uni c" and "Member a ln \<in> vhost_held uni c"
  shows "\<exists>c'. HTTPSGroup_close uni c a ln = Some c' \<and> vhost_pool_inv uni c' \<and> vhost_held uni c' = vhost_held uni c - {Member a ln}"
  using https_pool.close_pool [of uni c a ln] assms by (simp add: vhost_pool_inv_def vhost_held_def HTTPSGroup_close_def)

section \<open>Routes of the HTTP reverse proxy\<close>

datatype http_key = HttpRoute "string \<times> string \<times> string" | HttpMember string string

definition http_plain :: "'c HTTPGroupController \<Rightarrow> (string \<times> string \<times> string) set" where
  "http_plain c = {k. \<exists>rc. route_lookup (vhostRouter c) k = Some (rc, None)}"

definition http_members :: "'c HTTPGroupController \<Rightarrow> (string \<times> string) set" where
  "http_members c = {(hg_group (hheap c ! a), n) | a n. a < length (hheap c) \<and> n \<in> set (pxyNames (hheap c ! a))}"

definition http_held :: "'c HTTPGroupController \<Rightarrow> http_key set" where
  "http_held c = HttpRoute ` http_plain c \<union> (\<lambda>(g, n). HttpMember g n) ` http_members c"

lemma http_held_mem [simp]:
  "HttpRoute k \<in> http_held c \<longleftrightarrow> k \<in> http_plain c" "HttpMember g n \<in> http_held c \<longleftrightarrow> (g, n) \<in> http_members c"
  by (auto simp: http_held_def)

lemma http_held_eqI:
  assumes "\<And>k. k \<in> http_plain c' \<longleftrightarrow> HttpRoute k \<in> X" and "\<And>g n. (g, n) \<in> http_members c' \<longleftrightarrow> HttpMember g n \<in> X"
  shows "http_held c' = X"
proof (rule set_eqI)
  show "x \<in> http_held c' \<longleftrightarrow> x \<in> X" for x using assms by (cases x) auto
qed

lemma http_getOrCreate_held:
  assumes "http_inv uni c" and "http_getOrCreate c k = (c1, a)"
  shows "http_inv uni c1 \<and> http_held c1 = http_held c \<and> hgroups c1 k = Some a \<and> a < length (hheap c1)"
proof -
  have i: "http_inv uni c1" using http_step_inv [OF assms(1), of "HGet k"] assms(2) by (simp add: http_step_def http_ok_def)
  have g: "hgroups c1 k = Some a" and p: "http_plain c1 = http_plain c"
    using assms(2) by (auto simp: http_getOrCreate_def http_plain_def split: option.splits)
  have m: "http_members c1 = http_members c"
    using assms(2) by (auto simp: http_getOrCreate_def http_members_def NewHTTPGroup_def nth_append less_Suc_eq split: option.splits) blast+
  show ?thesis using i g http_invD(2) [OF i g] p m by (simp add: http_held_def)
qed

text \<open>The members after one group object was replaced, in a controller where the group has the name.\<close>

lemma http_members_update:
  assumes inv: "http_inv uni c" and a: "a < length (hheap c)" and cur: "hgroups c grp = Some a"
    and heap: "hheap c' = (hheap c)[a := g']" and name: "hg_group g' = grp"
    and old: "pxyNames (hheap c ! a) \<noteq> [] \<Longrightarrow> hg_group (hheap c ! a) = grp"
  shows "(g, n) \<in> http_members c' \<longleftrightarrow> (if g = grp then n \<in> set (pxyNames g') else (g, n) \<in> http_members c)"
    and "(grp, n) \<in> http_members c \<longleftrightarrow> n \<in> set (pxyNames (hheap c ! a))"
proof -
  have uniq: "b = a" if "b < length (hheap c)" "n \<in> set (pxyNames (hheap c ! b))" "hg_group (hheap c ! b) = grp" for b n
    using http_invD(4) [OF inv that(1)] that cur by force
  show "(grp, n) \<in> http_members c \<longleftrightarrow> n \<in> set (pxyNames (hheap c ! a))"
    using a old uniq by (force simp: http_members_def)
  have h: "hheap c' ! b = (if b = a then g' else hheap c ! b)" for b using heap a by simp
  have len: "length (hheap c') = length (hheap c)" using heap by simp
  have eq: "(g, n) \<in> http_members c' \<longleftrightarrow> g = grp \<and> n \<in> set (pxyNames g') \<or>
      (\<exists>b < length (hheap c). b \<noteq> a \<and> hg_group (hheap c ! b) = g \<and> n \<in> set (pxyNames (hheap c ! b)))"
    using a name unfolding http_members_def len by (auto simp: h)
  show "(g, n) \<in> http_members c' \<longleftrightarrow> (if g = grp then n \<in> set (pxyNames g') else (g, n) \<in> http_members c)"
  proof (cases "g = grp")
    case True
    with eq uniq show ?thesis by auto
  next
    case False
    have "(g, n) \<in> http_members c \<longleftrightarrow> (\<exists>b < length (hheap c). b \<noteq> a \<and> hg_group (hheap c ! b) = g \<and> n \<in> set (pxyNames (hheap c ! b)))"
      using False old unfolding http_members_def by fastforce
    with eq False show ?thesis by simp
  qed
qed

lemma HTTPGroup_Register_held:
  assumes inv: "http_inv uni c" and a: "a < length (hheap c)" and cur: "hgroups c grp = Some a"
    and r: "HTTPGroup_Register uni c a n grp key rc = (c', e)"
  shows "case e of Some _ \<Rightarrow> http_held c' = http_held c
    | None \<Rightarrow> HttpMember grp n \<notin> http_held c \<and> http_held c' = insert (HttpMember grp n) (http_held c)"
proof -
  let ?g = "hheap c ! a"
  have m: "members_inv ?g" by (rule http_invD(3) [OF inv a])
  have old: "hg_group ?g = grp" if "pxyNames ?g \<noteq> []" "createFuncs ?g = [] \<or> hg_group ?g = grp"
    using that members_inv_empty [OF m] by auto
  show ?thesis
  proof (cases e)
    case (Some x)
    have "c' = c"
      using r cur a Some by (auto simp: HTTPGroup_Register_def add_member_def Let_def split: if_splits option.splits)
    with Some show ?thesis by simp
  next
    case None
    obtain g' where g': "hheap c' = (hheap c)[a := g']" "hg_group g' = grp" "pxyNames g' = pxyNames ?g @ [n]"
      and fresh: "n \<notin> set (pxyNames ?g)" and ok: "createFuncs ?g = [] \<or> hg_group ?g = grp"
      using r cur None a members_inv_fresh [OF m, of n]
      by (auto simp: HTTPGroup_Register_def add_member_def Let_def split: if_splits option.splits)
    have plain: "http_plain c' = http_plain c"
    proof (cases "createFuncs ?g = []")
      case True
      obtain t where t: "Add uni (vhostRouter c) (Domain rc) (Location rc) (RouteByHTTPUser rc) (rc, Some a) = Some t" "vhostRouter c' = t"
        using r cur None True by (auto simp: HTTPGroup_Register_def add_member_def Let_def split: if_splits option.splits)
      with route_lookup_Add [OF t(1) http_invD(1) [OF inv]] show ?thesis by (auto simp: http_plain_def split: if_splits)
    next
      case False
      then have "vhostRouter c' = vhostRouter c"
        using r cur None by (auto simp: HTTPGroup_Register_def add_member_def Let_def split: if_splits option.splits)
      then show ?thesis by (simp add: http_plain_def)
    qed
    note u = http_members_update [OF inv a cur g'(1,2) old [OF _ ok]]
    have "http_held c' = insert (HttpMember grp n) (http_held c)"
      by (rule http_held_eqI) (auto simp: plain u g'(3))
    with None u(2) fresh show ?thesis by simp
  qed
qed

lemma HTTPGroup_UnRegister_held:
  assumes inv: "http_inv uni c" and m: "HttpMember grp n \<in> http_held c"
  shows "http_inv uni (HTTPGroupController_UnRegister uni c n grp) \<and>
    http_held (HTTPGroupController_UnRegister uni c n grp) = http_held c - {HttpMember grp n}"
proof -
  obtain a where a: "a < length (hheap c)" "n \<in> set (pxyNames (hheap c ! a))" and g: "hg_group (hheap c ! a) = grp"
    using m by (auto simp: http_members_def)
  have cur: "hgroups c grp = Some a" using http_invD(4) [OF inv a(1)] a(2) g by force
  let ?c = "HTTPGroup_UnRegister uni c a n" and ?g = "hheap c ! a"
  have e: "HTTPGroupController_UnRegister uni c n grp = ?c" using cur by (simp add: HTTPGroupController_UnRegister_def)
  obtain g' where g': "hheap ?c = (hheap c)[a := g']" "hg_group g' = grp" "pxyNames g' = remove1 n (pxyNames ?g)"
  proof
    show "hheap ?c = (hheap c)[a := ?g\<lparr>createFuncs := filter (\<lambda>e. fst e \<noteq> n) (createFuncs ?g), pxyNames := remove1 n (pxyNames ?g)\<rparr>]"
      by (simp add: HTTPGroup_UnRegister_def Let_def)
  qed (use g in simp_all)
  have dist: "distinct (pxyNames ?g)" using http_invD(3) [OF inv a(1)] by (simp add: members_inv_def)
  obtain rc where rc: "route_lookup (vhostRouter c) (group_key uni ?g) = Some (rc, Some a)"
    using http_invD(5) [OF inv a(1)] a(2) by fastforce
  have plain: "http_plain ?c = http_plain c"
    using rc route_lookup_Del [OF http_invD(1) [OF inv]]
    by (auto simp: http_plain_def HTTPGroup_UnRegister_def Let_def group_key_def split: if_splits)
  note u = http_members_update [OF inv a(1) cur g'(1,2) g]
  have "http_held ?c = http_held c - {HttpMember grp n}"
    by (rule http_held_eqI) (auto simp: plain u g'(3) dist)
  with e HTTPGroup_UnRegister_inv [OF inv a] show ?thesis by simp
qed

end
