(* ===== verification/ProxyConfig.thy ===== *)
theory ProxyConfig
  imports Util Msg
begin

text \<open>
  Proxy configurations (\<open>pkg/config/v1/proxy.go\<close>, \<open>proxy_plugin.go\<close>), their validation on the client
  and on the server (\<open>pkg/config/v1/validation\<close>), and the way a configuration travels from the client
  to the server in a \<open>NewProxy\<close> message (\<open>NewProxyConfigurerFromMsg\<close> in \<open>pkg/config/load.go\<close>).

  The parts of the environment that a function consults are the fields of \<open>cfg_env\<close>: Unicode case
  mapping and trimming outside ASCII, \<open>ParseFloat\<close> scaled to bytes, the qualified-name check of
  Kubernetes, and the order in which Go iterates over a map.
\<close>

section \<open>Data\<close>

record cfg_env =
  ce_lower :: "string \<Rightarrow> string"
  ce_trim :: "string \<Rightarrow> string"
  ce_float :: "string \<Rightarrow> int \<Rightarrow> int option"
  ce_IsQualifiedName :: "string \<Rightarrow> string list"
  ce_keys :: "str_map \<Rightarrow> string list"

record BandwidthQuantity =
  bq_s :: string
  bq_i :: int

definition MB :: int where "MB = 1024 * 1024"

definition KB :: int where "KB = 1024"

definition CutSuffix :: "string \<Rightarrow> string \<Rightarrow> string option" where
  "CutSuffix s suf = (if HasSuffix s suf then Some (take (length s - length suf) s) else None)"

text \<open>On an error the receiver keeps its old value; the second component says that there is none.\<close>

definition bandwidth_UnmarshalString :: "cfg_env \<Rightarrow> BandwidthQuantity \<Rightarrow> string \<Rightarrow> BandwidthQuantity \<times> bool" where
  "bandwidth_UnmarshalString env q s0 =
     (let s = TrimSpace (ce_trim env) s0 in
      if s = [] then (q, True)
      else
        (case CutSuffix s ''MB'' of
           Some f \<Rightarrow> (case ce_float env f MB of None \<Rightarrow> (q, False) | Some i \<Rightarrow> (\<lparr>bq_s = s, bq_i = i\<rparr>, True))
         | None \<Rightarrow>
             (case CutSuffix s ''KB'' of
                Some f \<Rightarrow> (case ce_float env f KB of None \<Rightarrow> (q, False) | Some i \<Rightarrow> (\<lparr>bq_s = s, bq_i = i\<rparr>, True))
              | None \<Rightarrow> (q, False))))"

definition NewBandwidthQuantity :: "cfg_env \<Rightarrow> string \<Rightarrow> BandwidthQuantity \<times> bool" where
  "NewBandwidthQuantity env s = bandwidth_UnmarshalString env \<lparr>bq_s = [], bq_i = 0\<rparr> s"

record ProxyTransport =
  pt_UseEncryption :: bool
  pt_UseCompression :: bool
  pt_BandwidthLimit :: BandwidthQuantity
  pt_BandwidthLimitMode :: string
  pt_ProxyProtocolVersion :: string

record LoadBalancerConfig =
  lb_Group :: string
  lb_GroupKey :: string

record HealthCheckConfig =
  hc_Type :: string
  hc_TimeoutSeconds :: int
  hc_MaxFailed :: int
  hc_IntervalSeconds :: int
  hc_Path :: string
  hc_HTTPHeaders :: "(string \<times> string) list"

record DomainConfig =
  CustomDomains :: "string list"
  SubDomain :: string

datatype ClientPluginOptions =
    HTTP2HTTPSPluginOptions (LocalAddr: string) (HostRewrite: string) (Headers_Set: str_map)
  | HTTPProxyPluginOptions (HTTPUser: string) (HTTPPassword: string)
  | HTTPS2HTTPPluginOptions (LocalAddr: string) (HostRewrite: string) (Headers_Set: str_map) (EnableHTTP2: "bool option")
      (CrtPath: string) (KeyPath: string)
  | HTTPS2HTTPSPluginOptions (LocalAddr: string) (HostRewrite: string) (Headers_Set: str_map) (EnableHTTP2: "bool option")
      (CrtPath: string) (KeyPath: string)
  | HTTP2HTTPPluginOptions (LocalAddr: string) (HostRewrite: string) (Headers_Set: str_map)
  | Socks5PluginOptions (Username: string) (Password: string)
  | StaticFilePluginOptions (LocalPath: string) (StripPrefix: string) (HTTPUser: string) (HTTPPassword: string)
  | UnixDomainSocketPluginOptions (UnixPath: string)
  | TLS2RawPluginOptions (LocalAddr: string) (CrtPath: string) (KeyPath: string)
  | VirtualNetPluginOptions

fun plugin_Complete :: "ClientPluginOptions \<Rightarrow> ClientPluginOptions" where
  "plugin_Complete (HTTPS2HTTPPluginOptions a h s e c k) =
     HTTPS2HTTPPluginOptions a h s (Some (case e of None \<Rightarrow> True | Some b \<Rightarrow> b)) c k"
| "plugin_Complete (HTTPS2HTTPSPluginOptions a h s e c k) =
     HTTPS2HTTPSPluginOptions a h s (Some (case e of None \<Rightarrow> True | Some b \<Rightarrow> b)) c k"
| "plugin_Complete p = p"

record ProxyBaseConfig =
  pb_Name :: string
  pb_Type :: string
  pb_Enabled :: "bool option"
  pb_Annotations :: str_map
  pb_Transport :: ProxyTransport
  pb_Metadatas :: str_map
  pb_LoadBalancer :: LoadBalancerConfig
  pb_HealthCheck :: HealthCheckConfig
  pb_LocalIP :: string
  pb_LocalPort :: int
  pb_PluginType :: string
  pb_Plugin :: "ClientPluginOptions option"

definition zero_base :: ProxyBaseConfig where
  "zero_base =
     \<lparr>pb_Name = [], pb_Type = [], pb_Enabled = None, pb_Annotations = Map.empty,
      pb_Transport = \<lparr>pt_UseEncryption = False, pt_UseCompression = False, pt_BandwidthLimit = \<lparr>bq_s = [], bq_i = 0\<rparr>,
        pt_BandwidthLimitMode = [], pt_ProxyProtocolVersion = []\<rparr>,
      pb_Metadatas = Map.empty, pb_LoadBalancer = \<lparr>lb_Group = [], lb_GroupKey = []\<rparr>,
      pb_HealthCheck = \<lparr>hc_Type = [], hc_TimeoutSeconds = 0, hc_MaxFailed = 0, hc_IntervalSeconds = 0, hc_Path = [],
        hc_HTTPHeaders = []\<rparr>,
      pb_LocalIP = [], pb_LocalPort = 0, pb_PluginType = [], pb_Plugin = None\<rparr>"

definition base_Complete :: "ProxyBaseConfig \<Rightarrow> ProxyBaseConfig" where
  "base_Complete c =
     c\<lparr>pb_LocalIP := EmptyOr (pb_LocalIP c) ''127.0.0.1'',
       pb_Transport := (pb_Transport c)\<lparr>pt_BandwidthLimitMode := EmptyOr (pt_BandwidthLimitMode (pb_Transport c)) ''client''\<rparr>,
       pb_Plugin := map_option plugin_Complete (pb_Plugin c)\<rparr>"

definition base_MarshalToMsg :: "ProxyBaseConfig \<Rightarrow> NewProxy \<Rightarrow> NewProxy" where
  "base_MarshalToMsg c m =
     m\<lparr>np_ProxyName := pb_Name c, np_ProxyType := pb_Type c,
       np_UseEncryption := pt_UseEncryption (pb_Transport c), np_UseCompression := pt_UseCompression (pb_Transport c),
       np_BandwidthLimit := bq_s (pt_BandwidthLimit (pb_Transport c)),
       np_BandwidthLimitMode :=
         (if pt_BandwidthLimitMode (pb_Transport c) \<noteq> ''client'' then pt_BandwidthLimitMode (pb_Transport c)
          else np_BandwidthLimitMode m),
       np_Group := lb_Group (pb_LoadBalancer c), np_GroupKey := lb_GroupKey (pb_LoadBalancer c),
       np_Metas := pb_Metadatas c, np_Annotations := pb_Annotations c\<rparr>"

definition base_UnmarshalFromMsg :: "cfg_env \<Rightarrow> NewProxy \<Rightarrow> ProxyBaseConfig \<Rightarrow> ProxyBaseConfig" where
  "base_UnmarshalFromMsg env m c =
     c\<lparr>pb_Name := np_ProxyName m, pb_Type := np_ProxyType m,
       pb_Transport := (pb_Transport c)
         \<lparr>pt_UseEncryption := np_UseEncryption m, pt_UseCompression := np_UseCompression m,
          pt_BandwidthLimit :=
            (if np_BandwidthLimit m \<noteq> [] then fst (NewBandwidthQuantity env (np_BandwidthLimit m))
             else pt_BandwidthLimit (pb_Transport c)),
          pt_BandwidthLimitMode :=
            (if np_BandwidthLimitMode m \<noteq> [] then np_BandwidthLimitMode m else pt_BandwidthLimitMode (pb_Transport c))\<rparr>,
       pb_LoadBalancer := \<lparr>lb_Group = np_Group m, lb_GroupKey = np_GroupKey m\<rparr>,
       pb_Metadatas := np_Metas m, pb_Annotations := np_Annotations m\<rparr>"

section \<open>The proxy types\<close>

record TCPProxyConfig =
  tcp_RemotePort :: int

record UDPProxyConfig =
  udp_RemotePort :: int

record HTTPProxyConfig =
  http_Domain :: DomainConfig
  http_Locations :: "string list"
  http_User :: string
  http_Password :: string
  http_HostHeaderRewrite :: string
  http_RequestHeaders :: str_map
  http_ResponseHeaders :: str_map
  http_RouteByHTTPUser :: string

record HTTPSProxyConfig =
  https_Domain :: DomainConfig

record TCPMuxProxyConfig =
  mux_Domain :: DomainConfig
  mux_HTTPUser :: string
  mux_HTTPPassword :: string
  mux_RouteByHTTPUser :: string
  mux_Multiplexer :: string

record STCPProxyConfig =
  stcp_Secretkey :: string
  stcp_AllowUsers :: "string list"

record XTCPProxyConfig =
  xtcp_Secretkey :: string
  xtcp_AllowUsers :: "string list"
  xtcp_DisableAssistedAddrs :: "bool option"

record SUDPProxyConfig =
  sudp_Secretkey :: string
  sudp_AllowUsers :: "string list"

text \<open>A \<open>ProxyConfigurer\<close> holds a pointer to one of the structures; each embeds the base configuration.\<close>

datatype proxy_details =
    TCP_cfg TCPProxyConfig
  | UDP_cfg UDPProxyConfig
  | TCPMux_cfg TCPMuxProxyConfig
  | HTTP_cfg HTTPProxyConfig
  | HTTPS_cfg HTTPSProxyConfig
  | STCP_cfg STCPProxyConfig
  | XTCP_cfg XTCPProxyConfig
  | SUDP_cfg SUDPProxyConfig

record ProxyConfigurer =
  pc_base :: ProxyBaseConfig
  pc_details :: proxy_details

definition zero_domain :: DomainConfig where
  "zero_domain = \<lparr>CustomDomains = [], SubDomain = []\<rparr>"

text \<open>The reflected type of each \<open>ProxyType\<close>, with the zero value that \<open>reflect.New\<close> makes.\<close>

definition proxyConfigTypeMap :: "(string \<times> proxy_details) list" where
  "proxyConfigTypeMap =
     [(''tcp'', TCP_cfg \<lparr>tcp_RemotePort = 0\<rparr>),
      (''udp'', UDP_cfg \<lparr>udp_RemotePort = 0\<rparr>),
      (''http'', HTTP_cfg \<lparr>http_Domain = zero_domain, http_Locations = [], http_User = [], http_Password = [],
         http_HostHeaderRewrite = [], http_RequestHeaders = Map.empty, http_ResponseHeaders = Map.empty,
         http_RouteByHTTPUser = []\<rparr>),
      (''https'', HTTPS_cfg \<lparr>https_Domain = zero_domain\<rparr>),
      (''tcpmux'', TCPMux_cfg \<lparr>mux_Domain = zero_domain, mux_HTTPUser = [], mux_HTTPPassword = [], mux_RouteByHTTPUser = [],
         mux_Multiplexer = []\<rparr>),
      (''stcp'', STCP_cfg \<lparr>stcp_Secretkey = [], stcp_AllowUsers = []\<rparr>),
      (''xtcp'', XTCP_cfg \<lparr>xtcp_Secretkey = [], xtcp_AllowUsers = [], xtcp_DisableAssistedAddrs = None\<rparr>),
      (''sudp'', SUDP_cfg \<lparr>sudp_Secretkey = [], sudp_AllowUsers = []\<rparr>)]"

definition NewProxyConfigurerByType :: "string \<Rightarrow> ProxyConfigurer option" where
  "NewProxyConfigurerByType t =
     map_option (\<lambda>d. \<lparr>pc_base = zero_base\<lparr>pb_Type := t\<rparr>, pc_details = d\<rparr>) (map_of proxyConfigTypeMap t)"

definition Complete :: "ProxyConfigurer \<Rightarrow> ProxyConfigurer" where
  "Complete c = c\<lparr>pc_base := base_Complete (pc_base c)\<rparr>"

text \<open>What each proxy type adds to the message of its base, and takes from it.\<close>

definition TCP_MarshalToMsg :: "TCPProxyConfig \<Rightarrow> NewProxy \<Rightarrow> NewProxy" where
  "TCP_MarshalToMsg c m =
     m\<lparr>np_RemotePort := tcp_RemotePort c\<rparr>"

definition TCP_UnmarshalFromMsg :: "TCPProxyConfig \<Rightarrow> NewProxy \<Rightarrow> TCPProxyConfig" where
  "TCP_UnmarshalFromMsg c m =
     c\<lparr>tcp_RemotePort := np_RemotePort m\<rparr>"

definition UDP_MarshalToMsg :: "UDPProxyConfig \<Rightarrow> NewProxy \<Rightarrow> NewProxy" where
  "UDP_MarshalToMsg c m =
     m\<lparr>np_RemotePort := udp_RemotePort c\<rparr>"

definition UDP_UnmarshalFromMsg :: "UDPProxyConfig \<Rightarrow> NewProxy \<Rightarrow> UDPProxyConfig" where
  "UDP_UnmarshalFromMsg c m =
     c\<lparr>udp_RemotePort := np_RemotePort m\<rparr>"

definition HTTP_MarshalToMsg :: "HTTPProxyConfig \<Rightarrow> NewProxy \<Rightarrow> NewProxy" where
  "HTTP_MarshalToMsg c m =
     m\<lparr>np_CustomDomains := CustomDomains (http_Domain c), np_SubDomain := SubDomain (http_Domain c),
       np_Locations := http_Locations c, np_HostHeaderRewrite := http_HostHeaderRewrite c,
       np_HTTPUser := http_User c, np_HTTPPwd := http_Password c, np_Headers := http_RequestHeaders c,
       np_ResponseHeaders := http_ResponseHeaders c, np_RouteByHTTPUser := http_RouteByHTTPUser c\<rparr>"

definition HTTP_UnmarshalFromMsg :: "HTTPProxyConfig \<Rightarrow> NewProxy \<Rightarrow> HTTPProxyConfig" where
  "HTTP_UnmarshalFromMsg c m =
     c\<lparr>http_Domain := \<lparr>CustomDomains = np_CustomDomains m, SubDomain = np_SubDomain m\<rparr>,
       http_Locations := np_Locations m, http_HostHeaderRewrite := np_HostHeaderRewrite m,
       http_User := np_HTTPUser m, http_Password := np_HTTPPwd m, http_RequestHeaders := np_Headers m,
       http_ResponseHeaders := np_ResponseHeaders m, http_RouteByHTTPUser := np_RouteByHTTPUser m\<rparr>"

definition HTTPS_MarshalToMsg :: "HTTPSProxyConfig \<Rightarrow> NewProxy \<Rightarrow> NewProxy" where
  "HTTPS_MarshalToMsg c m =
     m\<lparr>np_CustomDomains := CustomDomains (https_Domain c), np_SubDomain := SubDomain (https_Domain c)\<rparr>"

definition HTTPS_UnmarshalFromMsg :: "HTTPSProxyConfig \<Rightarrow> NewProxy \<Rightarrow> HTTPSProxyConfig" where
  "HTTPS_UnmarshalFromMsg c m =
     c\<lparr>https_Domain := \<lparr>CustomDomains = np_CustomDomains m, SubDomain = np_SubDomain m\<rparr>\<rparr>"

definition TCPMux_MarshalToMsg :: "TCPMuxProxyConfig \<Rightarrow> NewProxy \<Rightarrow> NewProxy" where
  "TCPMux_MarshalToMsg c m =
     m\<lparr>np_CustomDomains := CustomDomains (mux_Domain c), np_SubDomain := SubDomain (mux_Domain c),
       np_Multiplexer := mux_Multiplexer c, np_HTTPUser := mux_HTTPUser c, np_HTTPPwd := mux_HTTPPassword c,
       np_RouteByHTTPUser := mux_RouteByHTTPUser c\<rparr>"

definition TCPMux_UnmarshalFromMsg :: "TCPMuxProxyConfig \<Rightarrow> NewProxy \<Rightarrow> TCPMuxProxyConfig" where
  "TCPMux_UnmarshalFromMsg c m =
     c\<lparr>mux_Domain := \<lparr>CustomDomains = np_CustomDomains m, SubDomain = np_SubDomain m\<rparr>,
       mux_Multiplexer := np_Multiplexer m, mux_HTTPUser := np_HTTPUser m, mux_HTTPPassword := np_HTTPPwd m,
       mux_RouteByHTTPUser := np_RouteByHTTPUser m\<rparr>"

definition STCP_MarshalToMsg :: "STCPProxyConfig \<Rightarrow> NewProxy \<Rightarrow> NewProxy" where
  "STCP_MarshalToMsg c m =
     m\<lparr>np_Sk := stcp_Secretkey c, np_AllowUsers := stcp_AllowUsers c\<rparr>"

definition STCP_UnmarshalFromMsg :: "STCPProxyConfig \<Rightarrow> NewProxy \<Rightarrow> STCPProxyConfig" where
  "STCP_UnmarshalFromMsg c m =
     c\<lparr>stcp_Secretkey := np_Sk m, stcp_AllowUsers := np_AllowUsers m\<rparr>"

definition XTCP_MarshalToMsg :: "XTCPProxyConfig \<Rightarrow> NewProxy \<Rightarrow> NewProxy" where
  "XTCP_MarshalToMsg c m =
     m\<lparr>np_Sk := xtcp_Secretkey c, np_AllowUsers := xtcp_AllowUsers c\<rparr>"

definition XTCP_UnmarshalFromMsg :: "XTCPProxyConfig \<Rightarrow> NewProxy \<Rightarrow> XTCPProxyConfig" where
  "XTCP_UnmarshalFromMsg c m =
     c\<lparr>xtcp_Secretkey := np_Sk m, xtcp_AllowUsers := np_AllowUsers m\<rparr>"

definition SUDP_MarshalToMsg :: "SUDPProxyConfig \<Rightarrow> NewProxy \<Rightarrow> NewProxy" where
  "SUDP_MarshalToMsg c m =
     m\<lparr>np_Sk := sudp_Secretkey c, np_AllowUsers := sudp_AllowUsers c\<rparr>"

definition SUDP_UnmarshalFromMsg :: "SUDPProxyConfig \<Rightarrow> NewProxy \<Rightarrow> SUDPProxyConfig" where
  "SUDP_UnmarshalFromMsg c m =
     c\<lparr>sudp_Secretkey := np_Sk m, sudp_AllowUsers := np_AllowUsers m\<rparr>"

fun details_MarshalToMsg :: "proxy_details \<Rightarrow> NewProxy \<Rightarrow> NewProxy" where
  "details_MarshalToMsg (TCP_cfg c) m = TCP_MarshalToMsg c m"
| "details_MarshalToMsg (UDP_cfg c) m = UDP_MarshalToMsg c m"
| "details_MarshalToMsg (HTTP_cfg c) m = HTTP_MarshalToMsg c m"
| "details_MarshalToMsg (HTTPS_cfg c) m = HTTPS_MarshalToMsg c m"
| "details_MarshalToMsg (TCPMux_cfg c) m = TCPMux_MarshalToMsg c m"
| "details_MarshalToMsg (STCP_cfg c) m = STCP_MarshalToMsg c m"
| "details_MarshalToMsg (XTCP_cfg c) m = XTCP_MarshalToMsg c m"
| "details_MarshalToMsg (SUDP_cfg c) m = SUDP_MarshalToMsg c m"

fun details_UnmarshalFromMsg :: "NewProxy \<Rightarrow> proxy_details \<Rightarrow> proxy_details" where
  "details_UnmarshalFromMsg m (TCP_cfg c) = TCP_cfg (TCP_UnmarshalFromMsg c m)"
| "details_UnmarshalFromMsg m (UDP_cfg c) = UDP_cfg (UDP_UnmarshalFromMsg c m)"
| "details_UnmarshalFromMsg m (HTTP_cfg c) = HTTP_cfg (HTTP_UnmarshalFromMsg c m)"
| "details_UnmarshalFromMsg m (HTTPS_cfg c) = HTTPS_cfg (HTTPS_UnmarshalFromMsg c m)"
| "details_UnmarshalFromMsg m (TCPMux_cfg c) = TCPMux_cfg (TCPMux_UnmarshalFromMsg c m)"
| "details_UnmarshalFromMsg m (STCP_cfg c) = STCP_cfg (STCP_UnmarshalFromMsg c m)"
| "details_UnmarshalFromMsg m (XTCP_cfg c) = XTCP_cfg (XTCP_UnmarshalFromMsg c m)"
| "details_UnmarshalFromMsg m (SUDP_cfg c) = SUDP_cfg (SUDP_UnmarshalFromMsg c m)"

lemmas type_MarshalToMsg_defs =
  TCP_MarshalToMsg_def UDP_MarshalToMsg_def HTTP_MarshalToMsg_def HTTPS_MarshalToMsg_def TCPMux_MarshalToMsg_def STCP_MarshalToMsg_def XTCP_MarshalToMsg_def SUDP_MarshalToMsg_def

lemmas type_UnmarshalFromMsg_defs =
  TCP_UnmarshalFromMsg_def UDP_UnmarshalFromMsg_def HTTP_UnmarshalFromMsg_def HTTPS_UnmarshalFromMsg_def TCPMux_UnmarshalFromMsg_def STCP_UnmarshalFromMsg_def XTCP_UnmarshalFromMsg_def SUDP_UnmarshalFromMsg_def

definition MarshalToMsg :: "ProxyConfigurer \<Rightarrow> NewProxy \<Rightarrow> NewProxy" where
  "MarshalToMsg c m = details_MarshalToMsg (pc_details c) (base_MarshalToMsg (pc_base c) m)"

definition UnmarshalFromMsg :: "cfg_env \<Rightarrow> NewProxy \<Rightarrow> ProxyConfigurer \<Rightarrow> ProxyConfigurer" where
  "UnmarshalFromMsg env m c =
     \<lparr>pc_base = base_UnmarshalFromMsg env m (pc_base c), pc_details = details_UnmarshalFromMsg m (pc_details c)\<rparr>"

section \<open>Validation\<close>

text \<open>The fields of the server's configuration that proxies depend on.\<close>

record ServerConfig =
  SubDomainHost :: string
  VhostHTTPPort :: int
  VhostHTTPSPort :: int
  TCPMuxHTTPConnectPort :: int
  ProxyBindAddr :: string
  MaxPortsPerClient :: int

datatype val_err =
    ErrEmptyName
  | ErrAnnotations "string list"
  | ErrProxyProtocolVersion string
  | ErrBandwidthLimitMode
  | ErrPort string int
  | ErrHealthCheckType string
  | ErrHealthCheckPath
  | ErrPluginOption string
  | ErrNoDomain
  | ErrMultiplexer string
  | ErrCustomDomain string
  | ErrSubDomainDisabled
  | ErrSubDomainChars
  | ErrTCPMuxDisabled
  | ErrVhostHTTPDisabled
  | ErrVhostHTTPSDisabled
  | ErrUnknownProxyType string

text \<open>A validation returns the first error, \<open>first_err [c1, c2]\<close> being \<open>if err := c1; err != nil { return err }; return c2\<close>.\<close>

fun first_err :: "'e option list \<Rightarrow> 'e option" where
  "first_err [] = None"
| "first_err (None # es) = first_err es"
| "first_err (Some e # es) = Some e"

definition TotalAnnotationSizeLimitB :: int where "TotalAnnotationSizeLimitB = 256 * 2 ^ 10"

definition ValidateAnnotationsSize :: "cfg_env \<Rightarrow> str_map \<Rightarrow> string list" where
  "ValidateAnnotationsSize env annotations =
     (let totalSize = sum_list (map (\<lambda>k. int (length k) + int (length (the (annotations k)))) (ce_keys env annotations))
      in if totalSize > TotalAnnotationSizeLimitB then [''annotations size is larger than limit''] else [])"

definition ValidateAnnotations :: "cfg_env \<Rightarrow> str_map \<Rightarrow> val_err option" where
  "ValidateAnnotations env annotations =
     (let ks = ce_keys env annotations;
          errs = concat (map (\<lambda>k. ce_IsQualifiedName env (ToLower (ce_lower env) k)) ks) @ ValidateAnnotationsSize env annotations
      in if ks = [] \<or> errs = [] then None else Some (ErrAnnotations errs))"

definition ValidatePort :: "int \<Rightarrow> string \<Rightarrow> val_err option" where
  "ValidatePort p field = (if 0 \<le> p \<and> p \<le> 65535 then None else Some (ErrPort field p))"

fun ValidateClientPluginOptions :: "ClientPluginOptions \<Rightarrow> val_err option" where
  "ValidateClientPluginOptions (HTTP2HTTPSPluginOptions a _ _) = (if a = [] then Some (ErrPluginOption ''localAddr'') else None)"
| "ValidateClientPluginOptions (HTTPS2HTTPPluginOptions a _ _ _ _ _) = (if a = [] then Some (ErrPluginOption ''localAddr'') else None)"
| "ValidateClientPluginOptions (HTTPS2HTTPSPluginOptions a _ _ _ _ _) = (if a = [] then Some (ErrPluginOption ''localAddr'') else None)"
| "ValidateClientPluginOptions (StaticFilePluginOptions p _ _ _) = (if p = [] then Some (ErrPluginOption ''localPath'') else None)"
| "ValidateClientPluginOptions (UnixDomainSocketPluginOptions p) = (if p = [] then Some (ErrPluginOption ''unixPath'') else None)"
| "ValidateClientPluginOptions (TLS2RawPluginOptions a _ _) = (if a = [] then Some (ErrPluginOption ''localAddr'') else None)"
| "ValidateClientPluginOptions _ = None"

definition validateProxyBaseConfigForClient :: "cfg_env \<Rightarrow> ProxyBaseConfig \<Rightarrow> val_err option" where
  "validateProxyBaseConfigForClient env c =
     first_err
       [if pb_Name c = [] then Some ErrEmptyName else None,
        ValidateAnnotations env (pb_Annotations c),
        if pt_ProxyProtocolVersion (pb_Transport c) \<notin> set ['''', ''v1'', ''v2'']
        then Some (ErrProxyProtocolVersion (pt_ProxyProtocolVersion (pb_Transport c))) else None,
        if pt_BandwidthLimitMode (pb_Transport c) \<notin> set [''client'', ''server''] then Some ErrBandwidthLimitMode else None,
        if pb_PluginType c = [] then ValidatePort (pb_LocalPort c) ''localPort'' else None,
        if hc_Type (pb_HealthCheck c) \<notin> set ['''', ''tcp'', ''http''] then Some (ErrHealthCheckType (hc_Type (pb_HealthCheck c))) else None,
        if hc_Type (pb_HealthCheck c) \<noteq> [] \<and> hc_Type (pb_HealthCheck c) = ''http'' \<and> hc_Path (pb_HealthCheck c) = []
        then Some ErrHealthCheckPath else None,
        if pb_PluginType c \<noteq> [] then (case pb_Plugin c of None \<Rightarrow> None | Some p \<Rightarrow> ValidateClientPluginOptions p) else None]"

definition validateProxyBaseConfigForServer :: "cfg_env \<Rightarrow> ProxyBaseConfig \<Rightarrow> val_err option" where
  "validateProxyBaseConfigForServer env c = ValidateAnnotations env (pb_Annotations c)"

definition validateDomainConfigForClient :: "DomainConfig \<Rightarrow> val_err option" where
  "validateDomainConfigForClient c = (if SubDomain c = [] \<and> CustomDomains c = [] then Some ErrNoDomain else None)"

definition bad_custom_domain :: "cfg_env \<Rightarrow> string \<Rightarrow> string \<Rightarrow> bool" where
  "bad_custom_domain env subDomainHost domain =
     (let canonicalDomain = ToLower (ce_lower env) domain in
      subDomainHost \<noteq> [] \<and> length (Split (CHR ''.'') subDomainHost) < length (Split (CHR ''.'') canonicalDomain) \<and>
      HasSuffix canonicalDomain (''.'' @ subDomainHost))"

definition validateDomainConfigForServer :: "cfg_env \<Rightarrow> DomainConfig \<Rightarrow> ServerConfig \<Rightarrow> val_err option" where
  "validateDomainConfigForServer env c s =
     (let subDomainHost = ToLower (ce_lower env) (SubDomainHost s) in
      case find (bad_custom_domain env subDomainHost) (CustomDomains c) of
        Some domain \<Rightarrow> Some (ErrCustomDomain domain)
      | None \<Rightarrow>
          if SubDomain c \<noteq> []
          then if SubDomainHost s = [] then Some ErrSubDomainDisabled
               else if CHR ''.'' \<in> set (SubDomain c) \<or> CHR ''*'' \<in> set (SubDomain c) then Some ErrSubDomainChars
               else None
          else None)"

definition validateTCPMuxProxyConfigForClient :: "TCPMuxProxyConfig \<Rightarrow> val_err option" where
  "validateTCPMuxProxyConfigForClient c =
     first_err [validateDomainConfigForClient (mux_Domain c),
       if mux_Multiplexer c \<notin> set [''httpconnect''] then Some (ErrMultiplexer (mux_Multiplexer c)) else None]"

fun validate_details_client :: "proxy_details \<Rightarrow> val_err option" where
  "validate_details_client (TCP_cfg c) = None"
| "validate_details_client (UDP_cfg c) = None"
| "validate_details_client (TCPMux_cfg c) = validateTCPMuxProxyConfigForClient c"
| "validate_details_client (HTTP_cfg c) = validateDomainConfigForClient (http_Domain c)"
| "validate_details_client (HTTPS_cfg c) = validateDomainConfigForClient (https_Domain c)"
| "validate_details_client (STCP_cfg c) = None"
| "validate_details_client (XTCP_cfg c) = None"
| "validate_details_client (SUDP_cfg c) = None"

definition ValidateProxyConfigurerForClient :: "cfg_env \<Rightarrow> ProxyConfigurer \<Rightarrow> val_err option" where
  "ValidateProxyConfigurerForClient env c =
     first_err [validateProxyBaseConfigForClient env (pc_base c), validate_details_client (pc_details c)]"

definition validateTCPMuxProxyConfigForServer :: "cfg_env \<Rightarrow> TCPMuxProxyConfig \<Rightarrow> ServerConfig \<Rightarrow> val_err option" where
  "validateTCPMuxProxyConfigForServer env c s =
     (if mux_Multiplexer c = ''httpconnect'' \<and> TCPMuxHTTPConnectPort s = 0 then Some ErrTCPMuxDisabled
      else validateDomainConfigForServer env (mux_Domain c) s)"

definition validateHTTPProxyConfigForServer :: "cfg_env \<Rightarrow> HTTPProxyConfig \<Rightarrow> ServerConfig \<Rightarrow> val_err option" where
  "validateHTTPProxyConfigForServer env c s =
     (if VhostHTTPPort s = 0 then Some ErrVhostHTTPDisabled else validateDomainConfigForServer env (http_Domain c) s)"

definition validateHTTPSProxyConfigForServer :: "cfg_env \<Rightarrow> HTTPSProxyConfig \<Rightarrow> ServerConfig \<Rightarrow> val_err option" where
  "validateHTTPSProxyConfigForServer env c s =
     (if VhostHTTPSPort s = 0 then Some ErrVhostHTTPSDisabled else validateDomainConfigForServer env (https_Domain c) s)"

fun validate_details_server :: "cfg_env \<Rightarrow> proxy_details \<Rightarrow> ServerConfig \<Rightarrow> val_err option" where
  "validate_details_server env (TCP_cfg c) s = None"
| "validate_details_server env (UDP_cfg c) s = None"
| "validate_details_server env (TCPMux_cfg c) s = validateTCPMuxProxyConfigForServer env c s"
| "validate_details_server env (HTTP_cfg c) s = validateHTTPProxyConfigForServer env c s"
| "validate_details_server env (HTTPS_cfg c) s = validateHTTPSProxyConfigForServer env c s"
| "validate_details_server env (STCP_cfg c) s = None"
| "validate_details_server env (XTCP_cfg c) s = None"
| "validate_details_server env (SUDP_cfg c) s = None"

lemmas type_validate_server_defs =
  validateTCPMuxProxyConfigForServer_def validateHTTPProxyConfigForServer_def validateHTTPSProxyConfigForServer_def

definition ValidateProxyConfigurerForServer :: "cfg_env \<Rightarrow> ProxyConfigurer \<Rightarrow> ServerConfig \<Rightarrow> val_err option" where
  "ValidateProxyConfigurerForServer env c s =
     first_err [validateProxyBaseConfigForServer env (pc_base c), validate_details_server env (pc_details c) s]"

definition NewProxyConfigurerFromMsg :: "cfg_env \<Rightarrow> NewProxy \<Rightarrow> ServerConfig \<Rightarrow> val_err + ProxyConfigurer" where
  "NewProxyConfigurerFromMsg env m0 s =
     (let m = m0\<lparr>np_ProxyType := EmptyOr (np_ProxyType m0) ''tcp''\<rparr> in
      case NewProxyConfigurerByType (np_ProxyType m) of
        None \<Rightarrow> Inl (ErrUnknownProxyType (np_ProxyType m))
      | Some c0 \<Rightarrow>
          let c = Complete (UnmarshalFromMsg env m c0) in
          (case ValidateProxyConfigurerForServer env c s of
             Some e \<Rightarrow> Inl e
           | None \<Rightarrow> Inr c))"

text \<open>The domains of a proxy that the server registers, and the same for each proxy type that has some.\<close>

definition buildDomains :: "ServerConfig \<Rightarrow> string list \<Rightarrow> string \<Rightarrow> string list" where
  "buildDomains s customDomains subDomain =
     filter (\<lambda>d. d \<noteq> []) customDomains @ (if subDomain \<noteq> [] then [subDomain @ ''.'' @ SubDomainHost s] else [])"

fun details_domain :: "proxy_details \<Rightarrow> DomainConfig option" where
  "details_domain (TCPMux_cfg c) = Some (mux_Domain c)"
| "details_domain (HTTP_cfg c) = Some (http_Domain c)"
| "details_domain (HTTPS_cfg c) = Some (https_Domain c)"
| "details_domain _ = None"

section \<open>What the server makes of a client's proxy\<close>

fun details_type :: "proxy_details \<Rightarrow> string" where
  "details_type (TCP_cfg _) = ''tcp''"
| "details_type (UDP_cfg _) = ''udp''"
| "details_type (TCPMux_cfg _) = ''tcpmux''"
| "details_type (HTTP_cfg _) = ''http''"
| "details_type (HTTPS_cfg _) = ''https''"
| "details_type (STCP_cfg _) = ''stcp''"
| "details_type (XTCP_cfg _) = ''xtcp''"
| "details_type (SUDP_cfg _) = ''sudp''"

text \<open>
  What of a configuration concerns the server: the backend, the health check, the proxy protocol
  version, the switch and the NAT traversal options stay with the client.
\<close>

fun server_details :: "proxy_details \<Rightarrow> proxy_details" where
  "server_details (XTCP_cfg c) = XTCP_cfg (c\<lparr>xtcp_DisableAssistedAddrs := None\<rparr>)"
| "server_details d = d"

definition server_view :: "ProxyConfigurer \<Rightarrow> ProxyConfigurer" where
  "server_view c =
     (let b = pc_base c in
      \<lparr>pc_base = zero_base\<lparr>pb_Name := pb_Name b, pb_Type := pb_Type b, pb_Annotations := pb_Annotations b,
         pb_Transport := (pb_Transport b)\<lparr>pt_ProxyProtocolVersion := []\<rparr>, pb_Metadatas := pb_Metadatas b,
         pb_LoadBalancer := pb_LoadBalancer b, pb_LocalIP := ''127.0.0.1''\<rparr>,
       pc_details = server_details (pc_details c)\<rparr>)"

definition empty_NewProxy :: NewProxy where
  "empty_NewProxy =
     \<lparr>np_ProxyName = [], np_ProxyType = [], np_UseEncryption = False, np_UseCompression = False, np_BandwidthLimit = [],
      np_BandwidthLimitMode = [], np_Group = [], np_GroupKey = [], np_Metas = Map.empty, np_Annotations = Map.empty,
      np_RemotePort = 0, np_CustomDomains = [], np_SubDomain = [], np_Locations = [], np_HTTPUser = [], np_HTTPPwd = [],
      np_HostHeaderRewrite = [], np_Headers = Map.empty, np_ResponseHeaders = Map.empty, np_RouteByHTTPUser = [],
      np_Sk = [], np_AllowUsers = [], np_Multiplexer = []\<rparr>"

lemma NewProxyConfigurerByType_details:
  "\<exists>d. NewProxyConfigurerByType (details_type x) = Some \<lparr>pc_base = zero_base\<lparr>pb_Type := details_type x\<rparr>, pc_details = d\<rparr> \<and>
       details_UnmarshalFromMsg (details_MarshalToMsg x m) d = server_details x"
  by (cases x)
    (simp_all add: NewProxyConfigurerByType_def proxyConfigTypeMap_def zero_domain_def type_MarshalToMsg_defs
      type_UnmarshalFromMsg_defs)

lemma details_MarshalToMsg_frame [simp]:
  "np_ProxyType (details_MarshalToMsg d m) = np_ProxyType m" "np_ProxyName (details_MarshalToMsg d m) = np_ProxyName m"
  "np_UseEncryption (details_MarshalToMsg d m) = np_UseEncryption m"
  "np_UseCompression (details_MarshalToMsg d m) = np_UseCompression m"
  "np_BandwidthLimit (details_MarshalToMsg d m) = np_BandwidthLimit m"
  "np_BandwidthLimitMode (details_MarshalToMsg d m) = np_BandwidthLimitMode m"
  "np_Group (details_MarshalToMsg d m) = np_Group m" "np_GroupKey (details_MarshalToMsg d m) = np_GroupKey m"
  "np_Metas (details_MarshalToMsg d m) = np_Metas m" "np_Annotations (details_MarshalToMsg d m) = np_Annotations m"
  by (cases d; simp add: type_MarshalToMsg_defs)+

lemma details_type_nonempty [simp]: "details_type d \<noteq> []"
  by (cases d) simp_all

lemma trim_idem:
  defines "trim \<equiv> \<lambda>P s. rev (dropWhile P (rev (dropWhile P s)))"
  shows "trim P (trim P s) = trim P (s :: 'a list)"
proof (cases "dropWhile P s")
  case Nil
  then have "trim P s = []" "trim P [] = []" by (simp_all only: trim_def rev.simps dropWhile.simps)
  then show ?thesis by simp
next
  case (Cons y ys)
  then have "\<not> P y" by (simp add: dropWhile_eq_Cons_conv)
  then have "trim P s = y # rev (dropWhile P (rev ys))" "dropWhile P (dropWhile P (rev ys) @ [y]) = dropWhile P (rev ys) @ [y]"
    by (simp_all add: trim_def Cons dropWhile_append3 dropWhile_idem)
  with \<open>\<not> P y\<close> show ?thesis by (simp add: trim_def)
qed

lemma TrimSpace_ascii: "is_ascii s \<Longrightarrow> is_ascii (TrimSpace uni s)"
  unfolding TrimSpace_def is_ascii_def list_all_iff by (auto) (metis set_dropWhileD set_rev)

lemma TrimSpace_idem: "is_ascii s \<Longrightarrow> TrimSpace uni (TrimSpace uni s) = TrimSpace uni s"
  using TrimSpace_ascii [of s uni] trim_idem [of is_space s] by (simp add: TrimSpace_def)

text \<open>The text of a quantity parses to the quantity.\<close>

lemma NewBandwidthQuantity_text:
  assumes "is_ascii s" and "NewBandwidthQuantity env s = (q, True)"
  shows "q = \<lparr>bq_s = [], bq_i = 0\<rparr> \<or> bq_s q \<noteq> [] \<and> NewBandwidthQuantity env (bq_s q) = (q, True)"
proof -
  define t where "t = TrimSpace (ce_trim env) s"
  have i: "TrimSpace (ce_trim env) t = t" unfolding t_def by (rule TrimSpace_idem [OF assms(1)])
  show ?thesis
  proof (cases "t = []")
    case True
    with assms(2) show ?thesis by (auto simp: NewBandwidthQuantity_def bandwidth_UnmarshalString_def Let_def simp flip: t_def)
  next
    case False
    with assms(2) have "bq_s q = t"
      by (auto simp: NewBandwidthQuantity_def bandwidth_UnmarshalString_def Let_def simp flip: t_def split: option.splits)
    moreover have "NewBandwidthQuantity env t = NewBandwidthQuantity env s"
      by (simp add: NewBandwidthQuantity_def bandwidth_UnmarshalString_def i flip: t_def)
    ultimately show ?thesis using assms(2) False by simp
  qed
qed

lemma base_roundtrip:
  assumes "is_ascii lim" and "NewBandwidthQuantity env lim = (pt_BandwidthLimit (pb_Transport b), True)"
  shows "base_Complete (base_UnmarshalFromMsg env (details_MarshalToMsg d (base_MarshalToMsg (base_Complete b) empty_NewProxy))
      (zero_base\<lparr>pb_Type := pb_Type b\<rparr>)) =
    zero_base\<lparr>pb_Name := pb_Name b, pb_Type := pb_Type b, pb_Annotations := pb_Annotations b,
      pb_Transport := (pb_Transport (base_Complete b))\<lparr>pt_ProxyProtocolVersion := []\<rparr>, pb_Metadatas := pb_Metadatas b,
      pb_LoadBalancer := pb_LoadBalancer b, pb_LocalIP := ''127.0.0.1''\<rparr>"
  using NewBandwidthQuantity_text [OF assms]
  by (cases "pb_Transport b")
    (auto simp: base_Complete_def base_UnmarshalFromMsg_def base_MarshalToMsg_def zero_base_def empty_NewProxy_def EmptyOr_def)

text \<open>
  C24. A proxy reaches the server as its owner wrote it. For every proxy type, the configuration that
  the server builds from the client's \<open>NewProxy\<close> message is the client's completed configuration
  restricted to what concerns the server (name, type, annotations, metadata, load balancer, transport
  and all the settings of the type); the server accepts it exactly when that configuration is valid.
\<close>

theorem proxy_config_roundtrip:
  assumes "pb_Type (pc_base c) = details_type (pc_details c)" and "is_ascii lim"
    and "NewBandwidthQuantity env lim = (pt_BandwidthLimit (pb_Transport (pc_base c)), True)"
  shows "NewProxyConfigurerFromMsg env (MarshalToMsg (Complete c) empty_NewProxy) s =
    (case ValidateProxyConfigurerForServer env (server_view (Complete c)) s of
       Some e \<Rightarrow> Inl e
     | None \<Rightarrow> Inr (server_view (Complete c)))"
proof -
  let ?m = "MarshalToMsg (Complete c) empty_NewProxy"
  have t: "np_ProxyType ?m = details_type (pc_details c)"
    using assms(1) by (simp add: MarshalToMsg_def base_MarshalToMsg_def base_Complete_def Complete_def)
  obtain d where d: "NewProxyConfigurerByType (details_type (pc_details c)) =
      Some \<lparr>pc_base = zero_base\<lparr>pb_Type := details_type (pc_details c)\<rparr>, pc_details = d\<rparr>"
    "details_UnmarshalFromMsg ?m d = server_details (pc_details c)"
    using NewProxyConfigurerByType_details by (metis MarshalToMsg_def Complete_def ProxyConfigurer.select_convs(2)
      ProxyConfigurer.surjective ProxyConfigurer.update_convs(1))
  have m: "EmptyOr (np_ProxyType ?m) ''tcp'' = np_ProxyType ?m" "?m\<lparr>np_ProxyType := np_ProxyType ?m\<rparr> = ?m"
    by (simp_all add: t EmptyOr_def)
  have b: "base_Complete (base_UnmarshalFromMsg env ?m (zero_base\<lparr>pb_Type := details_type (pc_details c)\<rparr>)) = pc_base (server_view (Complete c))"
    using base_roundtrip [OF assms(2,3), of "pc_details c"] assms(1)
    by (simp add: MarshalToMsg_def Complete_def server_view_def Let_def base_Complete_def)
  have "Complete (UnmarshalFromMsg env ?m \<lparr>pc_base = zero_base\<lparr>pb_Type := details_type (pc_details c)\<rparr>, pc_details = d\<rparr>) = server_view (Complete c)"
    using b d(2) by (simp add: Complete_def UnmarshalFromMsg_def server_view_def Let_def)
  then show ?thesis
    unfolding NewProxyConfigurerFromMsg_def Let_def m using d(1) by (simp add: t cong: option.case_cong)
qed

definition demo_env :: cfg_env where
  "demo_env =
     \<lparr>ce_lower = id, ce_trim = id, ce_float = (\<lambda>f base. map_option (\<lambda>n. n * base) (Atoi f)), ce_IsQualifiedName = (\<lambda>_. []),
      ce_keys = (\<lambda>_. [])\<rparr>"

definition demo_server :: ServerConfig where
  "demo_server =
     \<lparr>SubDomainHost = ''Frps.com'', VhostHTTPPort = 80, VhostHTTPSPort = 443, TCPMuxHTTPConnectPort = 1337,
      ProxyBindAddr = ''0.0.0.0'', MaxPortsPerClient = 2\<rparr>"

definition demo_http :: ProxyConfigurer where
  "demo_http =
     \<lparr>pc_base = zero_base\<lparr>pb_Name := ''web'', pb_Type := ''http'', pb_LocalPort := 8080,
        pb_Transport := (pb_Transport zero_base)\<lparr>pt_BandwidthLimit := \<lparr>bq_s = ''2MB'', bq_i = 2 * MB\<rparr>,
          pt_BandwidthLimitMode := ''server'', pt_ProxyProtocolVersion := ''v2''\<rparr>\<rparr>,
      pc_details = HTTP_cfg \<lparr>http_Domain = \<lparr>CustomDomains = [''www.example.org''], SubDomain = ''web''\<rparr>,
        http_Locations = [''/'', ''/api''], http_User = ''u'', http_Password = ''p'', http_HostHeaderRewrite = ''h'',
        http_RequestHeaders = [''x'' \<mapsto> ''1''], http_ResponseHeaders = Map.empty, http_RouteByHTTPUser = ''u''\<rparr>\<rparr>"

theorem proxy_config_roundtrip_witness:
  "NewProxyConfigurerFromMsg demo_env (MarshalToMsg (Complete demo_http) empty_NewProxy) demo_server =
     Inr (server_view (Complete demo_http)) \<and> pb_Name (pc_base (server_view (Complete demo_http))) = ''web''"
proof -
  have "NewBandwidthQuantity demo_env '' 2MB'' = (pt_BandwidthLimit (pb_Transport (pc_base demo_http)), True)" by code_simp
  moreover have "is_ascii '' 2MB''" by code_simp
  moreover have "pb_Type (pc_base demo_http) = details_type (pc_details demo_http)" by code_simp
  moreover have "ValidateProxyConfigurerForServer demo_env (server_view (Complete demo_http)) demo_server = None"
    by code_simp
  ultimately show ?thesis
    using proxy_config_roundtrip [of demo_http "'' 2MB''" demo_env demo_server]
    by (simp add: server_view_def Let_def Complete_def base_Complete_def demo_http_def)
qed

subsection \<open>Custom domains and subdomains\<close>

lemma Split_length_append: "c \<notin> set p \<Longrightarrow> length (Split c (p @ c # s)) = Suc (length (Split c s))"
  by (simp add: Split_append)

lemma lower_char_dot: "lower_char c = CHR ''.'' \<longleftrightarrow> c = CHR ''.''"
proof (cases "CHR ''A'' \<le> c \<and> c \<le> CHR ''Z''")
  case True
  then have "65 \<le> (of_char c :: nat)" "(of_char c :: nat) \<le> 90" by (simp_all add: less_eq_char_def)
  moreover have "(of_char (char_of (of_char c + 32 :: nat)) :: nat) = (of_char c + 32) mod 256" by simp
  ultimately have "(of_char (char_of (of_char c + 32 :: nat)) :: nat) \<noteq> of_char (CHR ''.'')" by simp
  then have "char_of (of_char c + 32 :: nat) \<noteq> CHR ''.''" by metis
  with True show ?thesis by (auto simp: lower_char_def less_eq_char_def)
qed (auto simp: lower_char_def)

lemma is_ascii_append [simp]: "is_ascii (s @ t) \<longleftrightarrow> is_ascii s \<and> is_ascii t"
  by (simp add: is_ascii_def)

lemma ToLower_append: "is_ascii s \<Longrightarrow> is_ascii t \<Longrightarrow> ToLower uni (s @ t) = ToLower uni s @ ToLower uni t"
  by (simp add: ToLower_def)

text \<open>Every host below the subdomain host is refused as a custom domain, in any spelling.\<close>

lemma subdomain_is_bad:
  assumes "is_ascii sub" and "is_ascii host" and "CHR ''.'' \<notin> set sub" and "host \<noteq> []"
    and "ToLower (ce_lower env) d = ToLower (ce_lower env) (sub @ ''.'' @ host)"
  shows "bad_custom_domain env (ToLower (ce_lower env) host) d"
proof -
  let ?l = "ToLower (ce_lower env)"
  have dot: "is_ascii ''.''" "?l ''.'' = ''.''" by (simp_all add: is_ascii_def ToLower_def lower_char_dot)
  have d: "?l d = ?l sub @ CHR ''.'' # ?l host"
    using assms(1,2) dot by (simp only: assms(5) ToLower_append is_ascii_append) simp
  have "CHR ''.'' \<notin> set (?l sub)" using assms(1,3) by (auto simp: ToLower_def) (metis lower_char_dot)
  moreover have "?l host \<noteq> []" using assms(2,4) by (simp add: ToLower_def)
  ultimately show ?thesis
    by (simp add: bad_custom_domain_def Let_def d Split_length_append HasSuffix_def suffix_def)
qed

lemma accepted_domains:
  assumes "NewProxyConfigurerFromMsg env m s = Inr c" and "details_domain (pc_details c) = Some d"
  shows "validateDomainConfigForServer env d s = None"
proof -
  have "validate_details_server env (pc_details c) s = None"
    using assms(1) unfolding NewProxyConfigurerFromMsg_def ValidateProxyConfigurerForServer_def Let_def
    by (auto split: option.splits) (metis (no_types) first_err.simps not_None_eq)
  then show ?thesis using assms(2) by (cases "pc_details c") (auto simp: type_validate_server_defs split: if_splits)
qed

text \<open>
  C25. Custom domains stay out of the subdomain host. If the server accepts a proxy with a custom
  domain and another one (of any client and type) with a subdomain, then the two do not name the
  same host, whatever their letter case, so that no client can take over the subdomain of another
  by listing it as a custom domain.
\<close>

theorem custom_domain_separation:
  assumes "NewProxyConfigurerFromMsg env m1 s = Inr c1" and "details_domain (pc_details c1) = Some d1"
    and "NewProxyConfigurerFromMsg env m2 s = Inr c2" and "details_domain (pc_details c2) = Some d2"
    and "x \<in> set (CustomDomains d1)" and "SubDomain d2 \<noteq> []" and "is_ascii (SubDomain d2)" and "is_ascii (SubDomainHost s)"
  shows "ToLower (ce_lower env) x \<noteq> ToLower (ce_lower env) (last (buildDomains s (CustomDomains d2) (SubDomain d2)))"
proof
  assume "ToLower (ce_lower env) x = ToLower (ce_lower env) (last (buildDomains s (CustomDomains d2) (SubDomain d2)))"
  then have eq: "ToLower (ce_lower env) x = ToLower (ce_lower env) (SubDomain d2 @ ''.'' @ SubDomainHost s)"
    using assms(6) by (simp add: buildDomains_def)
  have v2: "SubDomainHost s \<noteq> []" "CHR ''.'' \<notin> set (SubDomain d2)"
    using accepted_domains [OF assms(3,4)] assms(6)
    by (auto simp: validateDomainConfigForServer_def Let_def split: option.splits if_splits)
  have "bad_custom_domain env (ToLower (ce_lower env) (SubDomainHost s)) x"
    by (rule subdomain_is_bad [OF assms(7,8) v2(2,1) eq])
  moreover have "find (bad_custom_domain env (ToLower (ce_lower env) (SubDomainHost s))) (CustomDomains d1) = None"
    using accepted_domains [OF assms(1,2)] by (auto simp: validateDomainConfigForServer_def Let_def split: option.splits)
  ultimately show False using assms(5) by (auto simp: find_None_iff)
qed

theorem custom_domain_separation_witness:
  "ToLower id ''www.example.org'' \<noteq> ToLower id (last (buildDomains demo_server [''www.example.org''] ''web'')) \<and>
   isl (NewProxyConfigurerFromMsg demo_env
     (empty_NewProxy\<lparr>np_ProxyType := ''https'', np_CustomDomains := [''WEB.frps.com'']\<rparr>) demo_server)"
proof -
  let ?m = "MarshalToMsg demo_http empty_NewProxy"
  let ?r = "NewProxyConfigurerFromMsg demo_env ?m demo_server"
  let ?d = "\<lparr>CustomDomains = [''www.example.org''], SubDomain = ''web''\<rparr>"
  have "\<not> isl ?r" by code_simp
  then have r: "?r = Inr (projr ?r)" by (cases ?r) simp_all
  have d: "details_domain (pc_details (projr ?r)) = Some ?d" by code_simp
  have "is_ascii ''web''" "is_ascii (SubDomainHost demo_server)" by code_simp+
  moreover have "isl (NewProxyConfigurerFromMsg demo_env
     (empty_NewProxy\<lparr>np_ProxyType := ''https'', np_CustomDomains := [''WEB.frps.com'']\<rparr>) demo_server)" by code_simp
  ultimately show ?thesis
    using custom_domain_separation [OF r d r d, of "''www.example.org''"] by (simp add: demo_env_def)
qed

end
