(* ===== verification/ServerProxy.thy ===== *)
theory ServerProxy
  imports ResourcePools ProxyConfig
begin

text \<open>
  The proxies of the server (\<open>server/proxy\<close>): what each type takes from the shared resource
  controller (\<open>server/controller/resource.go\<close>) when it runs, and what it gives back when it is closed.
  The controller is composed of the components that the earlier theories model; the TCP port manager is
  the one inside the TCP group controller, and each muxer's route table is the one inside its group
  controller, because the code shares them. The sockets of the operating system, address resolution,
  and the order of map iterations are arguments. A result \<open>None\<close> of closing is a panic.
\<close>

section \<open>The resource controller and proxy objects\<close>

record 'c ResourceController =
  rc_visitors :: VisitorManager
  rc_tcp :: TCPGroupCtl
  rc_udp :: Manager
  rc_http :: "'c HTTPGroupController"
  rc_https :: HTTPSGroupCtl
  rc_tcpmux :: HTTPSGroupCtl
  rc_nathole :: "Controller option"

text \<open>What one call of \<open>Run\<close> or \<open>Close\<close> sees of its environment.\<close>

record 'c run_env =
  re_uni :: "string \<Rightarrow> string"
  re_tcp :: tcp_env
  re_resolve :: bool
  re_sids :: "string list"
  re_realConn :: "string \<Rightarrow> string \<Rightarrow> 'c"

datatype listener =
    NetListener int
  | TCPGroupListener nat nat
  | HTTPSListener Listener
  | HTTPSGroupListener nat nat
  | TCPMuxListener Listener
  | TCPMuxGroupListener nat nat
  | VisitorListener nat

datatype 'c close_fn = UnRegisterGroup string | UnRegisterRoute "'c RouteConfig"

record 'c BaseProxy =
  px_name :: string
  px_configurer :: ProxyConfigurer
  px_listeners :: "listener list"
  px_usedPortsNum :: int
  px_poolCount :: int
  px_user :: string
  px_wireProtocol :: string
  px_udpPacketCodec :: string
  px_xtcpControlID :: bytes
  px_realBindPort :: int
  px_closeFuncs :: "'c close_fn list"
  px_baseClosed :: bool
  px_isClosed :: bool

datatype run_err =
    RunPort port_err
  | RunGroup group_err
  | RunResolve
  | RunListen
  | RunConflict
  | RunVisitor visitor_err
  | RunMultiplexer string
  | RunWireV2
  | RunOwner
  | RunNoNatHole
  | RunNatHole listen_err

section \<open>Creation\<close>

record proxy_options =
  po_user :: string
  po_poolCount :: int
  po_wireProtocol :: string
  po_udpPacketCodec :: string
  po_xtcpControlID :: bytes

text \<open>The constructors of the types: a TCP or UDP proxy counts as one port.\<close>

definition NewServerProxy :: "ProxyConfigurer \<Rightarrow> proxy_options \<Rightarrow> 'c BaseProxy" where
  "NewServerProxy c opt =
     \<lparr>px_name = pb_Name (pc_base c), px_configurer = c, px_listeners = [],
      px_usedPortsNum = (case pc_details c of TCP_cfg _ \<Rightarrow> 1 | UDP_cfg _ \<Rightarrow> 1 | _ \<Rightarrow> 0),
      px_poolCount = po_poolCount opt, px_user = po_user opt, px_wireProtocol = po_wireProtocol opt,
      px_udpPacketCodec = po_udpPacketCodec opt, px_xtcpControlID = po_xtcpControlID opt, px_realBindPort = 0,
      px_closeFuncs = [], px_baseClosed = False, px_isClosed = False\<rparr>"

definition px_group :: "'c BaseProxy \<Rightarrow> string" where
  "px_group p = lb_Group (pb_LoadBalancer (pc_base (px_configurer p)))"

definition px_groupKey :: "'c BaseProxy \<Rightarrow> string" where
  "px_groupKey p = lb_GroupKey (pb_LoadBalancer (pc_base (px_configurer p)))"

definition set_RemotePort :: "int \<Rightarrow> ProxyConfigurer \<Rightarrow> ProxyConfigurer" where
  "set_RemotePort k c =
     c\<lparr>pc_details := (case pc_details c of
         TCP_cfg t \<Rightarrow> TCP_cfg (t\<lparr>tcp_RemotePort := k\<rparr>)
       | UDP_cfg u \<Rightarrow> UDP_cfg (u\<lparr>udp_RemotePort := k\<rparr>)
       | d \<Rightarrow> d)\<rparr>"

definition bind_port :: "int \<Rightarrow> 'c BaseProxy \<Rightarrow> 'c BaseProxy" where
  "bind_port k p = p\<lparr>px_realBindPort := k, px_configurer := set_RemotePort k (px_configurer p)\<rparr>"

section \<open>Closing\<close>

text \<open>
  Group listeners close once (\<open>sync.Once\<close>): a listener is in its group until it is closed. Sockets and
  in-process listeners may be closed again. A listener of a muxer panics when it is closed twice.
\<close>

definition close_listener ::
    "'c run_env \<Rightarrow> bool \<Rightarrow> listener \<Rightarrow> 'c ResourceController \<Rightarrow> 'c ResourceController option" where
  "close_listener env again l rc =
     (case l of
        NetListener _ \<Rightarrow> Some rc
      | TCPGroupListener a ln \<Rightarrow>
          if ln \<in> set (lns (heap (rc_tcp rc) ! a))
          then map_option (\<lambda>c. rc\<lparr>rc_tcp := c\<rparr>) (TCPGroup_close (rc_tcp rc) a ln (clock (re_tcp env)))
          else Some rc
      | HTTPSListener l \<Rightarrow>
          if again then None
          else Some (rc\<lparr>rc_https := (rc_https rc)\<lparr>res := Listener_Close (re_uni env) (res (rc_https rc)) l\<rparr>\<rparr>)
      | HTTPSGroupListener a ln \<Rightarrow>
          if ln \<in> set (lns (heap (rc_https rc) ! a))
          then map_option (\<lambda>c. rc\<lparr>rc_https := c\<rparr>) (HTTPSGroup_close (re_uni env) (rc_https rc) a ln)
          else Some rc
      | TCPMuxListener l \<Rightarrow>
          if again then None
          else Some (rc\<lparr>rc_tcpmux := (rc_tcpmux rc)\<lparr>res := Listener_Close (re_uni env) (res (rc_tcpmux rc)) l\<rparr>\<rparr>)
      | TCPMuxGroupListener a ln \<Rightarrow>
          if ln \<in> set (lns (heap (rc_tcpmux rc) ! a))
          then map_option (\<lambda>c. rc\<lparr>rc_tcpmux := c\<rparr>) (HTTPSGroup_close (re_uni env) (rc_tcpmux rc) a ln)
          else Some rc
      | VisitorListener a \<Rightarrow> Some (rc\<lparr>rc_visitors := close_internal (rc_visitors rc) a\<rparr>))"

fun close_listeners ::
    "'c run_env \<Rightarrow> bool \<Rightarrow> listener list \<Rightarrow> 'c ResourceController \<Rightarrow> 'c ResourceController option" where
  "close_listeners env again [] rc = Some rc"
| "close_listeners env again (l # ls) rc = Option.bind (close_listener env again l rc) (close_listeners env again ls)"

definition Base_Close ::
    "'c run_env \<Rightarrow> 'c ResourceController \<Rightarrow> 'c BaseProxy \<Rightarrow> ('c ResourceController \<times> 'c BaseProxy) option" where
  "Base_Close env rc p =
     map_option (\<lambda>rc'. (rc', p\<lparr>px_baseClosed := True\<rparr>)) (close_listeners env (px_baseClosed p) (px_listeners p) rc)"

definition tcp_release :: "int \<Rightarrow> int \<Rightarrow> 'c ResourceController \<Rightarrow> 'c ResourceController" where
  "tcp_release k now rc = rc\<lparr>rc_tcp := (rc_tcp rc)\<lparr>res := Release (res (rc_tcp rc)) k now\<rparr>\<rparr>"

definition TCP_Close ::
    "'c run_env \<Rightarrow> 'c ResourceController \<Rightarrow> 'c BaseProxy \<Rightarrow> ('c ResourceController \<times> 'c BaseProxy) option" where
  "TCP_Close env rc p =
     map_option (\<lambda>(rc', p'). (if px_group p = [] then tcp_release (px_realBindPort p) (clock (re_tcp env)) rc' else rc', p'))
       (Base_Close env rc p)"

text \<open>A UDP proxy gives its port back on every call.\<close>

definition UDP_Close ::
    "'c run_env \<Rightarrow> 'c ResourceController \<Rightarrow> 'c BaseProxy \<Rightarrow> ('c ResourceController \<times> 'c BaseProxy) option" where
  "UDP_Close env rc p =
     map_option (\<lambda>(rc', p'). (rc'\<lparr>rc_udp := Release (rc_udp rc') (px_realBindPort p) (clock (re_tcp env))\<rparr>, p'))
       (if px_isClosed p then Some (rc, p)
        else map_option (map_prod id (\<lambda>p'. p'\<lparr>px_isClosed := True\<rparr>)) (Base_Close env rc p))"

definition call_close_fn :: "'c run_env \<Rightarrow> string \<Rightarrow> 'c close_fn \<Rightarrow> 'c HTTPGroupController \<Rightarrow> 'c HTTPGroupController" where
  "call_close_fn env name f c =
     (case f of
        UnRegisterGroup grp \<Rightarrow> HTTPGroupController_UnRegister (re_uni env) c name grp
      | UnRegisterRoute rc \<Rightarrow>
          c\<lparr>vhostRouter := Del (re_uni env) (vhostRouter c) (Domain rc) (Location rc) (RouteByHTTPUser rc)\<rparr>)"

definition HTTP_Close ::
    "'c run_env \<Rightarrow> 'c ResourceController \<Rightarrow> 'c BaseProxy \<Rightarrow> ('c ResourceController \<times> 'c BaseProxy) option" where
  "HTTP_Close env rc p =
     map_option (\<lambda>(rc', p'). (rc'\<lparr>rc_http := fold (call_close_fn env (px_name p)) (px_closeFuncs p) (rc_http rc')\<rparr>, p'))
       (Base_Close env rc p)"

definition Visitor_Close ::
    "'c run_env \<Rightarrow> 'c ResourceController \<Rightarrow> 'c BaseProxy \<Rightarrow> ('c ResourceController \<times> 'c BaseProxy) option" where
  "Visitor_Close env rc p =
     map_option (\<lambda>(rc', p'). (rc'\<lparr>rc_visitors := CloseListener (rc_visitors rc') (px_name p)\<rparr>, p')) (Base_Close env rc p)"

text \<open>\<open>Close\<close> dereferences the NAT hole controller; \<open>closeOnce\<close> makes a second call do nothing.\<close>

definition XTCP_Close ::
    "'c run_env \<Rightarrow> 'c ResourceController \<Rightarrow> 'c BaseProxy \<Rightarrow> ('c ResourceController \<times> 'c BaseProxy) option" where
  "XTCP_Close env rc p =
     (if px_isClosed p then Some (rc, p)
      else case Base_Close env rc p of
        None \<Rightarrow> None
      | Some (rc', p') \<Rightarrow>
          (case rc_nathole rc' of
             None \<Rightarrow> None
           | Some c \<Rightarrow>
               map_option (\<lambda>c'. (rc'\<lparr>rc_nathole := Some c'\<rparr>, p'\<lparr>px_isClosed := True\<rparr>))
                 (CloseClient c (re_sids env) (px_name p) (px_xtcpControlID p))))"

definition Proxy_Close ::
    "'c run_env \<Rightarrow> 'c ResourceController \<Rightarrow> 'c BaseProxy \<Rightarrow> ('c ResourceController \<times> 'c BaseProxy) option" where
  "Proxy_Close env rc p =
     (case pc_details (px_configurer p) of
        TCP_cfg _ \<Rightarrow> TCP_Close env rc p
      | UDP_cfg _ \<Rightarrow> UDP_Close env rc p
      | HTTP_cfg _ \<Rightarrow> HTTP_Close env rc p
      | HTTPS_cfg _ \<Rightarrow> Base_Close env rc p
      | TCPMux_cfg _ \<Rightarrow> Base_Close env rc p
      | STCP_cfg _ \<Rightarrow> Visitor_Close env rc p
      | XTCP_cfg _ \<Rightarrow> XTCP_Close env rc p
      | SUDP_cfg _ \<Rightarrow> Visitor_Close env rc p)"

section \<open>Running\<close>

text \<open>
  The proxy is returned with its fields updated; after an error the caller drops it, and the error value
  that \<open>Acquire\<close> returns as the port is not recorded.
\<close>

type_synonym 'c run_result = "'c ResourceController \<times> 'c BaseProxy \<times> (run_err + string)"

definition TCP_Run :: "'c run_env \<Rightarrow> ServerConfig \<Rightarrow> 'c ResourceController \<Rightarrow> 'c BaseProxy \<Rightarrow> TCPProxyConfig \<Rightarrow> 'c run_result" where
  "TCP_Run env s rc p cfg =
     (if px_group p \<noteq> []
      then (case TCPGroupCtl_Listen (rc_tcp rc) (re_tcp env)
                  \<lparr>ta_proxyName = px_name p, ta_group = px_group p, ta_groupKey = px_groupKey p, ta_addr = ProxyBindAddr s,
                   ta_port = tcp_RemotePort cfg\<rparr> of
              (c, Inl e) \<Rightarrow> (rc\<lparr>rc_tcp := c\<rparr>, p, Inl (RunGroup e))
            | (c, Inr (ln, rp)) \<Rightarrow>
                (rc\<lparr>rc_tcp := c\<rparr>,
                 bind_port rp (p\<lparr>px_listeners := px_listeners p @ [TCPGroupListener (the (groups c (px_group p))) ln]\<rparr>),
                 Inr ('':'' @ Itoa rp)))
      else (case Acquire (probe (re_tcp env)) (iter (re_tcp env)) (clock (re_tcp env)) (res (rc_tcp rc)) (px_name p)
                  (tcp_RemotePort cfg) of
              (pm, Inl e) \<Rightarrow> (rc\<lparr>rc_tcp := (rc_tcp rc)\<lparr>res := pm\<rparr>\<rparr>, p, Inl (RunPort e))
            | (pm, Inr rp) \<Rightarrow>
                let rc1 = rc\<lparr>rc_tcp := (rc_tcp rc)\<lparr>res := pm\<rparr>\<rparr> in
                if \<not> listen_ok (re_tcp env) then (tcp_release rp (clock (re_tcp env)) rc1, p\<lparr>px_realBindPort := rp\<rparr>, Inl RunListen)
                else (rc1, bind_port rp (p\<lparr>px_listeners := px_listeners p @ [NetListener rp]\<rparr>), Inr ('':'' @ Itoa rp))))"

definition UDP_Run :: "'c run_env \<Rightarrow> 'c ResourceController \<Rightarrow> 'c BaseProxy \<Rightarrow> UDPProxyConfig \<Rightarrow> 'c run_result" where
  "UDP_Run env rc p cfg =
     (case Acquire (probe (re_tcp env)) (iter (re_tcp env)) (clock (re_tcp env)) (rc_udp rc) (px_name p) (udp_RemotePort cfg) of
        (pm, Inl e) \<Rightarrow> (rc\<lparr>rc_udp := pm\<rparr>, p, Inl (RunPort e))
      | (pm, Inr rp) \<Rightarrow>
          let fail = (\<lambda>e. (rc\<lparr>rc_udp := Release pm rp (clock (re_tcp env))\<rparr>, bind_port rp p, Inl e)) in
          if \<not> re_resolve env then fail RunResolve
          else if \<not> listen_ok (re_tcp env) then fail RunListen
          else (rc\<lparr>rc_udp := pm\<rparr>, bind_port rp p, Inr ('':'' @ Itoa rp)))"

text \<open>The routes of an HTTP proxy, in the order of the two loops.\<close>

definition http_route :: "'c run_env \<Rightarrow> 'c BaseProxy \<Rightarrow> HTTPProxyConfig \<Rightarrow> string \<times> string \<Rightarrow> 'c RouteConfig" where
  "http_route env p cfg dl =
     \<lparr>Domain = fst dl, Location = snd dl, RewriteHost = http_HostHeaderRewrite cfg, Username = http_User cfg,
      Password = http_Password cfg, RouteByHTTPUser = http_RouteByHTTPUser cfg,
      CreateConnFn = Some (re_realConn env (px_name p)), ChooseEndpointFn = None, CreateConnByEndpointFn = None\<rparr>"

definition http_locations :: "HTTPProxyConfig \<Rightarrow> string list" where
  "http_locations cfg = (if http_Locations cfg = [] then [[]] else http_Locations cfg)"

definition http_routes :: "'c run_env \<Rightarrow> ServerConfig \<Rightarrow> 'c BaseProxy \<Rightarrow> HTTPProxyConfig \<Rightarrow> 'c RouteConfig list" where
  "http_routes env s p cfg =
     map (http_route env p cfg)
       (List.product (buildDomains s (CustomDomains (http_Domain cfg)) (SubDomain (http_Domain cfg))) (http_locations cfg))"

definition http_register :: "'c run_env \<Rightarrow> 'c BaseProxy \<Rightarrow> 'c RouteConfig \<Rightarrow> 'c HTTPGroupController \<Rightarrow>
    'c HTTPGroupController \<times> (run_err + 'c close_fn)" where
  "http_register env p r c =
     (if px_group p \<noteq> []
      then (case HTTPGroupController_Register (re_uni env) c (px_name p) (px_group p) (px_groupKey p) r of
              (c', Some e) \<Rightarrow> (c', Inl (RunGroup e))
            | (c', None) \<Rightarrow> (c', Inr (UnRegisterGroup (px_group p))))
      else (case Add (re_uni env) (vhostRouter c) (Domain r) (Location r) (RouteByHTTPUser r) (r, None) of
              None \<Rightarrow> (c, Inl RunConflict)
            | Some t \<Rightarrow> (c\<lparr>vhostRouter := t\<rparr>, Inr (UnRegisterRoute r))))"

fun http_loop :: "'c run_env \<Rightarrow> 'c BaseProxy \<Rightarrow> 'c RouteConfig list \<Rightarrow> 'c close_fn list \<Rightarrow> 'c HTTPGroupController \<Rightarrow>
    'c HTTPGroupController \<times> 'c close_fn list \<times> run_err option" where
  "http_loop env p [] fs c = (c, fs, None)"
| "http_loop env p (r # rs) fs c =
     (case http_register env p r c of
        (c', Inl e) \<Rightarrow> (c', fs, Some e)
      | (c', Inr f) \<Rightarrow> http_loop env p rs (fs @ [f]) c')"

text \<open>A failure closes what the loop has opened; the outer \<open>None\<close> is a panic of that \<open>Close\<close>.\<close>

definition HTTP_Run ::
    "'c run_env \<Rightarrow> ServerConfig \<Rightarrow> 'c ResourceController \<Rightarrow> 'c BaseProxy \<Rightarrow> HTTPProxyConfig \<Rightarrow> 'c run_result option" where
  "HTTP_Run env s rc p cfg =
     (let rs = http_routes env s p cfg in
      case http_loop env p rs (px_closeFuncs p) (rc_http rc) of
        (c, fs, r) \<Rightarrow>
          let rc1 = rc\<lparr>rc_http := c\<rparr>; p1 = p\<lparr>px_closeFuncs := fs\<rparr> in
          (case r of
             None \<Rightarrow> Some (rc1, p1, Inr (Join (map (\<lambda>r. CanonicalAddr (Domain r) (VhostHTTPPort s)) rs) '',''))
           | Some e \<Rightarrow> map_option (\<lambda>(rc2, p2). (rc2, p2, Inl e)) (HTTP_Close env rc1 p1)))"

definition vhost_route :: "string \<Rightarrow> string \<Rightarrow> string \<Rightarrow> string \<Rightarrow> Listener" where
  "vhost_route d byUser user pwd =
     \<lparr>l_name = d, l_location = [], l_routeByHTTPUser = byUser, l_rewriteHost = [], l_username = user, l_password = pwd\<rparr>"

definition listenForDomain ::
    "'c run_env \<Rightarrow> 'c BaseProxy \<Rightarrow> Listener \<Rightarrow> 'c ResourceController \<Rightarrow> 'c ResourceController \<times> (run_err + listener)" where
  "listenForDomain env p l rc =
     (if px_group p \<noteq> []
      then (case HTTPSGroupController_Listen (re_uni env) (rc_https rc) (px_group p) (px_groupKey p) l of
              (c, Inl e) \<Rightarrow> (rc\<lparr>rc_https := c\<rparr>, Inl (RunGroup e))
            | (c, Inr ln) \<Rightarrow> (rc\<lparr>rc_https := c\<rparr>, Inr (HTTPSGroupListener (the (groups c (px_group p))) ln)))
      else (case Muxer_Listen (re_uni env) (res (rc_https rc)) l of
              None \<Rightarrow> (rc, Inl RunConflict)
            | Some t \<Rightarrow> (rc\<lparr>rc_https := (rc_https rc)\<lparr>res := t\<rparr>\<rparr>, Inr (HTTPSListener l))))"

definition httpConnectListen ::
    "'c run_env \<Rightarrow> 'c BaseProxy \<Rightarrow> string \<Rightarrow> Listener \<Rightarrow> 'c ResourceController \<Rightarrow> 'c ResourceController \<times> (run_err + listener)" where
  "httpConnectListen env p multiplexer l rc =
     (if px_group p \<noteq> []
      then (case TCPMuxGroupCtl_Listen (re_uni env) (rc_tcpmux rc) multiplexer (px_group p) (px_groupKey p) l of
              (c, Inl e) \<Rightarrow> (rc\<lparr>rc_tcpmux := c\<rparr>, Inl (RunGroup e))
            | (c, Inr ln) \<Rightarrow> (rc\<lparr>rc_tcpmux := c\<rparr>, Inr (TCPMuxGroupListener (the (groups c (px_group p))) ln)))
      else (case Muxer_Listen (re_uni env) (res (rc_tcpmux rc)) l of
              None \<Rightarrow> (rc, Inl RunConflict)
            | Some t \<Rightarrow> (rc\<lparr>rc_tcpmux := (rc_tcpmux rc)\<lparr>res := t\<rparr>\<rparr>, Inr (TCPMuxListener l))))"

text \<open>The loop over the domains, with the listening function of the type.\<close>

fun listen_loop ::
    "(Listener \<Rightarrow> 'c ResourceController \<Rightarrow> 'c ResourceController \<times> (run_err + listener)) \<Rightarrow> Listener list \<Rightarrow>
     listener list \<Rightarrow> 'c ResourceController \<Rightarrow> 'c ResourceController \<times> listener list \<times> run_err option" where
  "listen_loop f [] ls rc = (rc, ls, None)"
| "listen_loop f (d # ds) ls rc =
     (case f d rc of
        (rc', Inl e) \<Rightarrow> (rc', ls, Some e)
      | (rc', Inr l) \<Rightarrow> listen_loop f ds (ls @ [l]) rc')"

definition run_listeners ::
    "'c run_env \<Rightarrow> int \<Rightarrow> (Listener \<Rightarrow> 'c ResourceController \<Rightarrow> 'c ResourceController \<times> (run_err + listener)) \<Rightarrow>
     Listener list \<Rightarrow> 'c ResourceController \<Rightarrow> 'c BaseProxy \<Rightarrow> 'c run_result option" where
  "run_listeners env vport f ds rc p =
     (case listen_loop f ds (px_listeners p) rc of
        (rc1, ls, r) \<Rightarrow>
          let p1 = p\<lparr>px_listeners := ls\<rparr> in
          (case r of
             None \<Rightarrow> Some (rc1, p1, Inr (Join (map (\<lambda>l. CanonicalAddr (l_name l) vport) ds) '',''))
           | Some e \<Rightarrow> map_option (\<lambda>(rc2, p2). (rc2, p2, Inl e)) (Base_Close env rc1 p1)))"

definition HTTPS_Run ::
    "'c run_env \<Rightarrow> ServerConfig \<Rightarrow> 'c ResourceController \<Rightarrow> 'c BaseProxy \<Rightarrow> HTTPSProxyConfig \<Rightarrow> 'c run_result option" where
  "HTTPS_Run env s rc p cfg =
     run_listeners env (VhostHTTPSPort s) (listenForDomain env p)
       (map (\<lambda>d. vhost_route d [] [] []) (buildDomains s (CustomDomains (https_Domain cfg)) (SubDomain (https_Domain cfg)))) rc p"

definition TCPMux_Run ::
    "'c run_env \<Rightarrow> ServerConfig \<Rightarrow> 'c ResourceController \<Rightarrow> 'c BaseProxy \<Rightarrow> TCPMuxProxyConfig \<Rightarrow> 'c run_result option" where
  "TCPMux_Run env s rc p cfg =
     (if mux_Multiplexer cfg = ''httpconnect''
      then run_listeners env (TCPMuxHTTPConnectPort s) (httpConnectListen env p (mux_Multiplexer cfg))
             (map (\<lambda>d. vhost_route d (mux_RouteByHTTPUser cfg) (mux_HTTPUser cfg) (mux_HTTPPassword cfg))
                (buildDomains s (CustomDomains (mux_Domain cfg)) (SubDomain (mux_Domain cfg)))) rc p
      else map_option (\<lambda>(rc', p'). (rc', p', Inl (RunMultiplexer (mux_Multiplexer cfg)))) (Base_Close env rc p))"

definition default_users :: "'c BaseProxy \<Rightarrow> string list \<Rightarrow> string list" where
  "default_users p allowUsers = (if allowUsers = [] then [px_user p] else allowUsers)"

definition startVisitorListener ::
    "'c ResourceController \<Rightarrow> 'c BaseProxy \<Rightarrow> string \<Rightarrow> string list \<Rightarrow> 'c run_result" where
  "startVisitorListener rc p secretKey allowUsers =
     (case Visitor_Listen (rc_visitors rc) (px_name p) secretKey (default_users p allowUsers) of
        (vm, Inl e) \<Rightarrow> (rc\<lparr>rc_visitors := vm\<rparr>, p, Inl (RunVisitor e))
      | (vm, Inr a) \<Rightarrow> (rc\<lparr>rc_visitors := vm\<rparr>, p\<lparr>px_listeners := px_listeners p @ [VisitorListener a]\<rparr>, Inr []))"

definition XTCP_Run :: "'c ResourceController \<Rightarrow> 'c BaseProxy \<Rightarrow> XTCPProxyConfig \<Rightarrow> 'c run_result" where
  "XTCP_Run rc p cfg =
     (if px_wireProtocol p \<noteq> ''v2'' then (rc, p, Inl RunWireV2)
      else if isl (ID (px_xtcpControlID p)) then (rc, p, Inl RunOwner)
      else case rc_nathole rc of
        None \<Rightarrow> (rc, p, Inl RunNoNatHole)
      | Some c \<Rightarrow>
          (case ListenClient c (px_name p) (xtcp_Secretkey cfg) (default_users p (xtcp_AllowUsers cfg)) (px_xtcpControlID p) of
             (c', Inl e) \<Rightarrow> (rc\<lparr>rc_nathole := Some c'\<rparr>, p, Inl (RunNatHole e))
           | (c', Inr _) \<Rightarrow> (rc\<lparr>rc_nathole := Some c'\<rparr>, p, Inr [])))"

definition Proxy_Run ::
    "'c run_env \<Rightarrow> ServerConfig \<Rightarrow> 'c ResourceController \<Rightarrow> 'c BaseProxy \<Rightarrow> 'c run_result option" where
  "Proxy_Run env s rc p =
     (case pc_details (px_configurer p) of
        TCP_cfg cfg \<Rightarrow> Some (TCP_Run env s rc p cfg)
      | UDP_cfg cfg \<Rightarrow> Some (UDP_Run env rc p cfg)
      | HTTP_cfg cfg \<Rightarrow> HTTP_Run env s rc p cfg
      | HTTPS_cfg cfg \<Rightarrow> HTTPS_Run env s rc p cfg
      | TCPMux_cfg cfg \<Rightarrow> TCPMux_Run env s rc p cfg
      | STCP_cfg cfg \<Rightarrow> Some (startVisitorListener rc p (stcp_Secretkey cfg) (stcp_AllowUsers cfg))
      | XTCP_cfg cfg \<Rightarrow> Some (XTCP_Run rc p cfg)
      | SUDP_cfg cfg \<Rightarrow> Some (startVisitorListener rc p (sudp_Secretkey cfg) (sudp_AllowUsers cfg)))"

section \<open>What a proxy holds\<close>

datatype rc_key =
    KTcp "int pool_key"
  | KUdp int
  | KHttp http_key
  | KHttps "(string \<times> string \<times> string) pool_key"
  | KTcpmux "(string \<times> string \<times> string) pool_key"
  | KVisitor string
  | KNat string bytes

definition nat_held :: "Controller \<Rightarrow> (string \<times> bytes) set" where
  "nat_held c = {(n, cc_ownerControl (cfgs c q)) | n q. clientCfgs c n = Some q}"

definition rc_held :: "(string \<Rightarrow> string) \<Rightarrow> 'c ResourceController \<Rightarrow> rc_key set" where
  "rc_held uni rc =
     KTcp ` tcp_held (rc_tcp rc) \<union> KUdp ` used_ports (rc_udp rc) \<union> KHttp ` http_held (rc_http rc) \<union>
     KHttps ` vhost_held uni (rc_https rc) \<union> KTcpmux ` vhost_held uni (rc_tcpmux rc) \<union>
     KVisitor ` dom (vm_listeners (rc_visitors rc)) \<union>
     (case rc_nathole rc of None \<Rightarrow> {} | Some c \<Rightarrow> (\<lambda>(n, i). KNat n i) ` nat_held c)"

definition rc_inv :: "int set \<Rightarrow> int set \<Rightarrow> nh_env \<Rightarrow> bytes set option \<Rightarrow> (string \<Rightarrow> string) \<Rightarrow> 'c ResourceController \<Rightarrow> bool" where
  "rc_inv A B ne K uni rc \<longleftrightarrow>
     tcp_pool_inv A (rc_tcp rc) \<and> ports_ok B (rc_udp rc) \<and> http_inv uni (rc_http rc) \<and>
     vhost_pool_inv uni (rc_https rc) \<and> vhost_pool_inv uni (rc_tcpmux rc) \<and>
     (\<forall>c. rc_nathole rc = Some c \<longrightarrow> c_inv ne c) \<and> map_option controls (rc_nathole rc) = K"

lemma rc_held_mem [simp]:
  "KTcp k \<in> rc_held uni rc \<longleftrightarrow> k \<in> tcp_held (rc_tcp rc)"
  "KUdp q \<in> rc_held uni rc \<longleftrightarrow> q \<in> used_ports (rc_udp rc)"
  "KHttp h \<in> rc_held uni rc \<longleftrightarrow> h \<in> http_held (rc_http rc)"
  "KHttps v \<in> rc_held uni rc \<longleftrightarrow> v \<in> vhost_held uni (rc_https rc)"
  "KTcpmux v \<in> rc_held uni rc \<longleftrightarrow> v \<in> vhost_held uni (rc_tcpmux rc)"
  "KVisitor n \<in> rc_held uni rc \<longleftrightarrow> n \<in> dom (vm_listeners (rc_visitors rc))"
  "KNat n i \<in> rc_held uni rc \<longleftrightarrow> (\<exists>c. rc_nathole rc = Some c \<and> (n, i) \<in> nat_held c)"
  by (auto simp: rc_held_def split: option.split)

lemma rc_held_eqI:
  assumes "\<And>k. k \<in> tcp_held (rc_tcp rc) \<longleftrightarrow> KTcp k \<in> X" and "\<And>k. k \<in> used_ports (rc_udp rc) \<longleftrightarrow> KUdp k \<in> X"
    and "\<And>k. k \<in> http_held (rc_http rc) \<longleftrightarrow> KHttp k \<in> X" and "\<And>k. k \<in> vhost_held uni (rc_https rc) \<longleftrightarrow> KHttps k \<in> X"
    and "\<And>k. k \<in> vhost_held uni (rc_tcpmux rc) \<longleftrightarrow> KTcpmux k \<in> X"
    and "\<And>k. k \<in> dom (vm_listeners (rc_visitors rc)) \<longleftrightarrow> KVisitor k \<in> X"
    and "\<And>n i. (\<exists>c. rc_nathole rc = Some c \<and> (n, i) \<in> nat_held c) \<longleftrightarrow> KNat n i \<in> X"
  shows "rc_held uni rc = X"
proof (rule set_eqI)
  show "k \<in> rc_held uni rc \<longleftrightarrow> k \<in> X" for k
    by (cases k) (simp_all only: rc_held_mem assms)
qed

lemma rc_held_same:
  "tcp_held t = tcp_held (rc_tcp rc) \<Longrightarrow> rc_held uni (rc\<lparr>rc_tcp := t\<rparr>) = rc_held uni rc"
  "used_ports u = used_ports (rc_udp rc) \<Longrightarrow> rc_held uni (rc\<lparr>rc_udp := u\<rparr>) = rc_held uni rc"
  "http_held h = http_held (rc_http rc) \<Longrightarrow> rc_held uni (rc\<lparr>rc_http := h\<rparr>) = rc_held uni rc"
  "vhost_held uni v = vhost_held uni (rc_https rc) \<Longrightarrow> rc_held uni (rc\<lparr>rc_https := v\<rparr>) = rc_held uni rc"
  "vhost_held uni v = vhost_held uni (rc_tcpmux rc) \<Longrightarrow> rc_held uni (rc\<lparr>rc_tcpmux := v\<rparr>) = rc_held uni rc"
  "vm_listeners vm = vm_listeners (rc_visitors rc) \<Longrightarrow> rc_held uni (rc\<lparr>rc_visitors := vm\<rparr>) = rc_held uni rc"
  "rc_nathole rc = Some c \<Longrightarrow> nat_held c' = nat_held c \<Longrightarrow> rc_held uni (rc\<lparr>rc_nathole := Some c'\<rparr>) = rc_held uni rc"
  by (rule rc_held_eqI; simp)+

lemma rc_held_insert:
  "tcp_held t = insert kt (tcp_held (rc_tcp rc)) \<Longrightarrow> rc_held uni (rc\<lparr>rc_tcp := t\<rparr>) = insert (KTcp kt) (rc_held uni rc)"
  "used_ports u = insert ku (used_ports (rc_udp rc)) \<Longrightarrow> rc_held uni (rc\<lparr>rc_udp := u\<rparr>) = insert (KUdp ku) (rc_held uni rc)"
  "http_held h = insert kh (http_held (rc_http rc)) \<Longrightarrow> rc_held uni (rc\<lparr>rc_http := h\<rparr>) = insert (KHttp kh) (rc_held uni rc)"
  "vhost_held uni v = insert kv (vhost_held uni (rc_https rc)) \<Longrightarrow> rc_held uni (rc\<lparr>rc_https := v\<rparr>) = insert (KHttps kv) (rc_held uni rc)"
  "vhost_held uni v = insert kv (vhost_held uni (rc_tcpmux rc)) \<Longrightarrow> rc_held uni (rc\<lparr>rc_tcpmux := v\<rparr>) = insert (KTcpmux kv) (rc_held uni rc)"
  "dom (vm_listeners vm) = insert n (dom (vm_listeners (rc_visitors rc))) \<Longrightarrow>
     rc_held uni (rc\<lparr>rc_visitors := vm\<rparr>) = insert (KVisitor n) (rc_held uni rc)"
  "rc_nathole rc = Some c \<Longrightarrow> nat_held c' = insert (n, i) (nat_held c) \<Longrightarrow>
     rc_held uni (rc\<lparr>rc_nathole := Some c'\<rparr>) = insert (KNat n i) (rc_held uni rc)"
  by (rule rc_held_eqI; simp)+

lemma rc_held_remove:
  "tcp_held t = tcp_held (rc_tcp rc) - {kt} \<Longrightarrow> rc_held uni (rc\<lparr>rc_tcp := t\<rparr>) = rc_held uni rc - {KTcp kt}"
  "used_ports u = used_ports (rc_udp rc) - {ku} \<Longrightarrow> rc_held uni (rc\<lparr>rc_udp := u\<rparr>) = rc_held uni rc - {KUdp ku}"
  "http_held h = http_held (rc_http rc) - {kh} \<Longrightarrow> rc_held uni (rc\<lparr>rc_http := h\<rparr>) = rc_held uni rc - {KHttp kh}"
  "vhost_held uni v = vhost_held uni (rc_https rc) - {kv} \<Longrightarrow> rc_held uni (rc\<lparr>rc_https := v\<rparr>) = rc_held uni rc - {KHttps kv}"
  "vhost_held uni v = vhost_held uni (rc_tcpmux rc) - {kv} \<Longrightarrow> rc_held uni (rc\<lparr>rc_tcpmux := v\<rparr>) = rc_held uni rc - {KTcpmux kv}"
  "dom (vm_listeners vm) = dom (vm_listeners (rc_visitors rc)) - {n} \<Longrightarrow>
     rc_held uni (rc\<lparr>rc_visitors := vm\<rparr>) = rc_held uni rc - {KVisitor n}"
  "rc_nathole rc = Some c \<Longrightarrow> nat_held c' = nat_held c - {(n, i)} \<Longrightarrow>
     rc_held uni (rc\<lparr>rc_nathole := Some c'\<rparr>) = rc_held uni rc - {KNat n i}"
  by (rule rc_held_eqI; simp)+

fun listener_key :: "(string \<Rightarrow> string) \<Rightarrow> listener \<Rightarrow> rc_key" where
  "listener_key uni (NetListener k) = KTcp (Resource k)"
| "listener_key uni (TCPGroupListener a ln) = KTcp (Member a ln)"
| "listener_key uni (HTTPSListener l) = KHttps (Resource (listener_route uni l))"
| "listener_key uni (HTTPSGroupListener a ln) = KHttps (Member a ln)"
| "listener_key uni (TCPMuxListener l) = KTcpmux (Resource (listener_route uni l))"
| "listener_key uni (TCPMuxGroupListener a ln) = KTcpmux (Member a ln)"
| "listener_key uni (VisitorListener a) = KVisitor []"

fun close_fn_key :: "(string \<Rightarrow> string) \<Rightarrow> string \<Rightarrow> 'c close_fn \<Rightarrow> http_key" where
  "close_fn_key uni name (UnRegisterGroup grp) = HttpMember grp name"
| "close_fn_key uni name (UnRegisterRoute r) = HttpRoute (route_key uni r)"

definition owned :: "(string \<Rightarrow> string) \<Rightarrow> 'c BaseProxy \<Rightarrow> rc_key set" where
  "owned uni p =
     (case pc_details (px_configurer p) of
        TCP_cfg _ \<Rightarrow> if px_group p = [] then {KTcp (Resource (px_realBindPort p))} else listener_key uni ` set (px_listeners p)
      | UDP_cfg _ \<Rightarrow> {KUdp (px_realBindPort p)}
      | HTTP_cfg _ \<Rightarrow> KHttp ` close_fn_key uni (px_name p) ` set (px_closeFuncs p)
      | HTTPS_cfg _ \<Rightarrow> listener_key uni ` set (px_listeners p)
      | TCPMux_cfg _ \<Rightarrow> listener_key uni ` set (px_listeners p)
      | STCP_cfg _ \<Rightarrow> {KVisitor (px_name p)}
      | SUDP_cfg _ \<Rightarrow> {KVisitor (px_name p)}
      | XTCP_cfg _ \<Rightarrow> {KNat (px_name p) (px_xtcpControlID p)})"

fun vhost_listener :: "listener \<Rightarrow> bool" where
  "vhost_listener (HTTPSListener _) = True"
| "vhost_listener (HTTPSGroupListener _ _) = True"
| "vhost_listener (TCPMuxListener _) = True"
| "vhost_listener (TCPMuxGroupListener _ _) = True"
| "vhost_listener _ = False"

text \<open>The shape of a proxy that runs.\<close>

definition running :: "(string \<Rightarrow> string) \<Rightarrow> 'c BaseProxy \<Rightarrow> bool" where
  "running uni p \<longleftrightarrow>
     \<not> px_isClosed p \<and> \<not> px_baseClosed p \<and>
     (case pc_details (px_configurer p) of
        TCP_cfg _ \<Rightarrow> (if px_group p = [] then \<exists>k. px_listeners p = [NetListener k]
                       else \<exists>a ln. px_listeners p = [TCPGroupListener a ln])
      | UDP_cfg _ \<Rightarrow> px_listeners p = []
      | HTTP_cfg _ \<Rightarrow> px_listeners p = [] \<and> distinct (map (close_fn_key uni (px_name p)) (px_closeFuncs p))
      | HTTPS_cfg _ \<Rightarrow> list_all vhost_listener (px_listeners p) \<and> distinct (map (listener_key uni) (px_listeners p))
      | TCPMux_cfg _ \<Rightarrow> list_all vhost_listener (px_listeners p) \<and> distinct (map (listener_key uni) (px_listeners p))
      | STCP_cfg _ \<Rightarrow> \<exists>a. px_listeners p = [VisitorListener a]
      | SUDP_cfg _ \<Rightarrow> \<exists>a. px_listeners p = [VisitorListener a]
      | XTCP_cfg _ \<Rightarrow> px_listeners p = [])"

lemma rc_invD:
  assumes "rc_inv A B ne K uni rc"
  shows "tcp_pool_inv A (rc_tcp rc)" "ports_ok B (rc_udp rc)" "http_inv uni (rc_http rc)" "vhost_pool_inv uni (rc_https rc)"
    "vhost_pool_inv uni (rc_tcpmux rc)" "rc_nathole rc = Some c \<Longrightarrow> c_inv ne c" "rc_nathole rc = Some c \<Longrightarrow> Some (controls c) = K"
  using assms by (simp_all add: rc_inv_def)

lemma rc_inv_upd:
  assumes "rc_inv A B ne K uni rc"
  shows "tcp_pool_inv A t \<Longrightarrow> rc_inv A B ne K uni (rc\<lparr>rc_tcp := t\<rparr>)" "ports_ok B u \<Longrightarrow> rc_inv A B ne K uni (rc\<lparr>rc_udp := u\<rparr>)"
    "http_inv uni h \<Longrightarrow> rc_inv A B ne K uni (rc\<lparr>rc_http := h\<rparr>)" "vhost_pool_inv uni v \<Longrightarrow> rc_inv A B ne K uni (rc\<lparr>rc_https := v\<rparr>)"
    "vhost_pool_inv uni v \<Longrightarrow> rc_inv A B ne K uni (rc\<lparr>rc_tcpmux := v\<rparr>)" "rc_inv A B ne K uni (rc\<lparr>rc_visitors := vm\<rparr>)"
    "c_inv ne c \<Longrightarrow> Some (controls c) = K \<Longrightarrow> rc_inv A B ne K uni (rc\<lparr>rc_nathole := Some c\<rparr>)"
  using assms by (simp_all add: rc_inv_def)

lemma rc_inv_nat:
  assumes "rc_inv A B ne K uni rc" and "rc_nathole rc = Some c" and "c_inv ne c'" and "controls c' = controls c"
  shows "rc_inv A B ne K uni (rc\<lparr>rc_nathole := Some c'\<rparr>)"
  using assms by (auto simp: rc_inv_def)

lemma vhost_plain_take:
  assumes "vhost_pool_inv uni c" and "Muxer_Listen uni (res c) l = Some t"
  shows "vhost_pool_inv uni (c\<lparr>res := t\<rparr>) \<and> Resource (listener_route uni l) \<notin> vhost_held uni c \<and>
    vhost_held uni (c\<lparr>res := t\<rparr>) = insert (Resource (listener_route uni l)) (vhost_held uni c)"
proof -
  have "routers_wf (res c)" using assms(1) by (simp add: vhost_pool_inv_def pool_inv_def)
  from Muxer_Listen_ok [OF this assms(2)] show ?thesis
    using plain_take [OF assms(1) [unfolded vhost_pool_inv_def], of t "listener_route uni l"]
    by (simp add: vhost_pool_inv_def vhost_held_def)
qed

lemma vhost_plain_give:
  assumes "vhost_pool_inv uni c" and "Resource (listener_route uni l) \<in> vhost_held uni c"
  shows "vhost_pool_inv uni (c\<lparr>res := Listener_Close uni (res c) l\<rparr>) \<and>
    vhost_held uni (c\<lparr>res := Listener_Close uni (res c) l\<rparr>) = vhost_held uni c - {Resource (listener_route uni l)}"
proof -
  have "routers_wf (res c)" using assms(1) by (simp add: vhost_pool_inv_def pool_inv_def)
  from Listener_Close_ok [OF this] show ?thesis
    using plain_give [OF assms(1) [unfolded vhost_pool_inv_def] assms(2) [unfolded vhost_held_def]]
    by (simp add: vhost_pool_inv_def vhost_held_def)
qed

lemma member_listed:
  "Member a ln \<in> vhost_held uni v \<Longrightarrow> ln \<in> set (lns (heap v ! a))"
  "Member a ln \<in> tcp_held t \<Longrightarrow> ln \<in> set (lns (heap t ! a))"
  by (auto simp: vhost_held_def tcp_held_def pool_held_def pool_members_def)

lemma close_vhost_listener:
  assumes inv: "rc_inv A B ne K (re_uni env) rc" and l: "vhost_listener l" and h: "listener_key (re_uni env) l \<in> rc_held (re_uni env) rc"
  shows "\<exists>rc'. close_listener env False l rc = Some rc' \<and> rc_inv A B ne K (re_uni env) rc' \<and>
    rc_held (re_uni env) rc' = rc_held (re_uni env) rc - {listener_key (re_uni env) l}"
proof (cases l)
  case (HTTPSListener r)
  note k = vhost_plain_give [OF rc_invD(4) [OF inv], of r]
  show ?thesis
    using k h HTTPSListener by (auto simp: close_listener_def intro!: rc_inv_upd(4) [OF inv] rc_held_remove)
next
  case (TCPMuxListener r)
  note k = vhost_plain_give [OF rc_invD(5) [OF inv], of r]
  show ?thesis
    using k h TCPMuxListener by (auto simp: close_listener_def intro!: rc_inv_upd(5) [OF inv] rc_held_remove)
next
  case (HTTPSGroupListener a ln)
  with h have m: "Member a ln \<in> vhost_held (re_uni env) (rc_https rc)" by simp
  from HTTPSGroup_close_pool [OF rc_invD(4) [OF inv] m] obtain c' where c': "HTTPSGroup_close (re_uni env) (rc_https rc) a ln = Some c'"
    "vhost_pool_inv (re_uni env) c'" "vhost_held (re_uni env) c' = vhost_held (re_uni env) (rc_https rc) - {Member a ln}" by blast
  show ?thesis
    using c' member_listed(1) [OF m] HTTPSGroupListener
    by (auto simp: close_listener_def intro!: rc_inv_upd(4) [OF inv] rc_held_remove)
next
  case (TCPMuxGroupListener a ln)
  with h have m: "Member a ln \<in> vhost_held (re_uni env) (rc_tcpmux rc)" by simp
  from HTTPSGroup_close_pool [OF rc_invD(5) [OF inv] m] obtain c' where c': "HTTPSGroup_close (re_uni env) (rc_tcpmux rc) a ln = Some c'"
    "vhost_pool_inv (re_uni env) c'" "vhost_held (re_uni env) c' = vhost_held (re_uni env) (rc_tcpmux rc) - {Member a ln}" by blast
  show ?thesis
    using c' member_listed(1) [OF m] TCPMuxGroupListener
    by (auto simp: close_listener_def intro!: rc_inv_upd(5) [OF inv] rc_held_remove)
qed (use l in simp_all)

definition took :: "int set \<Rightarrow> int set \<Rightarrow> nh_env \<Rightarrow> bytes set option \<Rightarrow> (string \<Rightarrow> string) \<Rightarrow> 'c ResourceController \<Rightarrow>
    'c ResourceController \<times> (run_err + listener) \<Rightarrow> bool" where
  "took A B ne K uni rc q \<longleftrightarrow>
     rc_inv A B ne K uni (fst q) \<and>
     (case snd q of
        Inl _ \<Rightarrow> rc_held uni (fst q) = rc_held uni rc
      | Inr l \<Rightarrow> vhost_listener l \<and> listener_key uni l \<notin> rc_held uni rc \<and>
                 rc_held uni (fst q) = insert (listener_key uni l) (rc_held uni rc))"

lemma listenForDomain_took:
  assumes inv: "rc_inv A B ne K (re_uni env) rc"
  shows "took A B ne K (re_uni env) rc (listenForDomain env p l rc)"
proof (cases "px_group p = []")
  case True
  show ?thesis
    using vhost_plain_take [OF rc_invD(4) [OF inv], of l] True inv
    by (auto simp: took_def listenForDomain_def split: option.split intro!: rc_inv_upd(4) [OF inv] rc_held_same rc_held_insert)
next
  case False
  obtain c' r where r: "HTTPSGroupController_Listen (re_uni env) (rc_https rc) (px_group p) (px_groupKey p) l = (c', r)" by fastforce
  show ?thesis
    using HTTPSGroupController_Listen_pool [OF rc_invD(4) [OF inv], of "px_group p" "px_groupKey p" l] r False
    by (auto simp: took_def takes_member_def listenForDomain_def Let_def split: sum.splits
        intro!: rc_inv_upd(4) [OF inv] rc_held_same rc_held_insert)
qed

lemma httpConnectListen_took:
  assumes inv: "rc_inv A B ne K (re_uni env) rc"
  shows "took A B ne K (re_uni env) rc (httpConnectListen env p multiplexer l rc)"
proof (cases "px_group p = []")
  case True
  show ?thesis
    using vhost_plain_take [OF rc_invD(5) [OF inv], of l] True inv
    by (auto simp: took_def httpConnectListen_def split: option.split intro!: rc_inv_upd(5) [OF inv] rc_held_same rc_held_insert)
next
  case False
  obtain c' r where r: "TCPMuxGroupCtl_Listen (re_uni env) (rc_tcpmux rc) multiplexer (px_group p) (px_groupKey p) l = (c', r)" by fastforce
  show ?thesis
    using TCPMuxGroupCtl_Listen_pool [OF rc_invD(5) [OF inv], of "px_group p" multiplexer "px_groupKey p" l] r False
    by (auto simp: took_def takes_member_def httpConnectListen_def Let_def split: sum.splits
        intro!: rc_inv_upd(5) [OF inv] rc_held_same rc_held_insert)
qed

lemma took_pool:
  assumes "took A B ne K uni rc (rc', r)"
  shows "rc_inv A B ne K uni rc'" "r = Inl e \<Longrightarrow> rc_held uni rc' = rc_held uni rc"
    "r = Inr l \<Longrightarrow> vhost_listener l \<and> listener_key uni l \<notin> rc_held uni rc \<and>
       rc_held uni rc' = insert (listener_key uni l) (rc_held uni rc)"
  using assms by (simp_all add: took_def)

interpretation https_listeners: resource_pool "rc_inv A B ne K (re_uni env)" "rc_held (re_uni env)" "\<lambda>_ _. True"
  "listenForDomain env p" "close_listener env False" "listener_key (re_uni env)" vhost_listener for A B ne K env p
  by unfold_locales (use listenForDomain_took took_pool close_vhost_listener in \<open>metis+\<close>)

interpretation tcpmux_listeners: resource_pool "rc_inv A B ne K (re_uni env)" "rc_held (re_uni env)" "\<lambda>_ _. True"
  "httpConnectListen env p multiplexer" "close_listener env False" "listener_key (re_uni env)" vhost_listener for A B ne K env p multiplexer
  by unfold_locales (use httpConnectListen_took took_pool close_vhost_listener in \<open>metis+\<close>)

lemma http_plain_take:
  assumes inv: "http_inv uni c" and r: "Add uni (vhostRouter c) (Domain r) (Location r) (RouteByHTTPUser r) (r, None) = Some t"
  shows "http_inv uni (c\<lparr>vhostRouter := t\<rparr>) \<and> HttpRoute (route_key uni r) \<notin> http_held c \<and>
    http_held (c\<lparr>vhostRouter := t\<rparr>) = insert (HttpRoute (route_key uni r)) (http_held c)"
proof -
  note look = route_lookup_Add [OF r http_invD(1) [OF inv]]
  have "http_inv uni (c\<lparr>vhostRouter := t\<rparr>)"
    using http_step_inv [OF inv, of "PlainRegister r"] r by (simp add: http_step_def http_ok_def)
  moreover have "http_held (c\<lparr>vhostRouter := t\<rparr>) = insert (HttpRoute (route_key uni r)) (http_held c)"
    by (rule http_held_eqI) (auto simp: http_plain_def http_members_def look route_key_def)
  ultimately show ?thesis using look(2) by (simp add: http_plain_def route_key_def)
qed

lemma http_plain_give:
  fixes c :: "'c HTTPGroupController" and r :: "'c RouteConfig"
  assumes inv: "http_inv uni c" and h: "HttpRoute (route_key uni r) \<in> http_held c"
  shows "http_inv uni (c\<lparr>vhostRouter := Del uni (vhostRouter c) (Domain r) (Location r) (RouteByHTTPUser r)\<rparr>) \<and>
    http_held (c\<lparr>vhostRouter := Del uni (vhostRouter c) (Domain r) (Location r) (RouteByHTTPUser r)\<rparr>) =
      http_held c - {HttpRoute (route_key uni r)}" (is "http_inv uni ?c \<and> _")
proof
  note look = route_lookup_Del [OF http_invD(1) [OF inv]]
  show "http_inv uni ?c"
    using http_step_inv [OF inv, of "PlainUnRegister r"] h by (auto simp: http_step_def http_ok_def http_plain_def)
  show "http_held ?c = http_held c - {HttpRoute (route_key uni r)}"
    by (rule http_held_eqI) (auto simp: http_plain_def http_members_def look route_key_def)
qed

lemma http_register_pool:
  assumes inv: "http_inv (re_uni env) c" and fn: "CreateConnFn r \<noteq> None" and q: "http_register env p r c = (c', q)"
  shows "http_inv (re_uni env) c' \<and>
    (case q of
       Inl _ \<Rightarrow> http_held c' = http_held c
     | Inr f \<Rightarrow> close_fn_key (re_uni env) (px_name p) f \<notin> http_held c \<and>
                http_held c' = insert (close_fn_key (re_uni env) (px_name p) f) (http_held c))"
proof (cases "px_group p = []")
  case True
  with q http_plain_take [OF inv, of r] inv show ?thesis by (auto simp: http_register_def split: option.splits)
next
  case False
  obtain c1 a where g: "http_getOrCreate c (px_group p) = (c1, a)" by fastforce
  note c1 = http_getOrCreate_held [OF inv g]
  obtain c2 e where r: "HTTPGroup_Register (re_uni env) c1 a (px_name p) (px_group p) (px_groupKey p) r = (c2, e)" by fastforce
  have "http_inv (re_uni env) c2" using HTTPGroup_Register_inv [of "re_uni env" c1 a r] c1 fn r by (metis fst_conv)
  moreover have "case e of Some _ \<Rightarrow> http_held c2 = http_held c
    | None \<Rightarrow> HttpMember (px_group p) (px_name p) \<notin> http_held c \<and> http_held c2 = insert (HttpMember (px_group p) (px_name p)) (http_held c)"
    using HTTPGroup_Register_held [OF _ _ _ r] c1 by (auto split: option.splits)
  ultimately show ?thesis
    using q False g r by (auto simp: http_register_def HTTPGroupController_Register_def split: option.splits)
qed

interpretation http_callbacks: resource_pool "http_inv (re_uni env)" http_held "\<lambda>r _. CreateConnFn r \<noteq> None"
  "http_register env p" "\<lambda>f c. Some (call_close_fn env (px_name p) f c)" "close_fn_key (re_uni env) (px_name p)" "\<lambda>_. True" for env p
proof (unfold_locales, goal_cases)
  case (3 c f)
  then show ?case
    using HTTPGroup_UnRegister_held [of "re_uni env" c] http_plain_give [of "re_uni env" c]
    by (cases f) (auto simp: call_close_fn_def)
qed (use http_register_pool in fastforce)+

text \<open>The loops of the code are the loops of the contract.\<close>

lemma http_loop_eq: "http_loop env p rs fs c = take_all (http_register env p) rs fs c"
  by (induction rs arbitrary: fs c) (simp_all split: prod.split sum.split)

lemma listen_loop_eq: "listen_loop f ds ls rc = take_all f ds ls rc"
  by (induction ds arbitrary: ls rc) (simp_all split: prod.split sum.split)

lemma close_listeners_eq: "close_listeners env again ls rc = give_all (close_listener env again) ls rc"
  by (induction ls arbitrary: rc) (simp_all cong: Option.bind_cong)

lemma fold_close_fns: "give_all (\<lambda>f c. Some (call_close_fn env name f c)) fs c = Some (fold (call_close_fn env name) fs c)"
  by (induction fs arbitrary: c) simp_all

section \<open>Running and closing keep account of the resources\<close>

text \<open>The control of an XTCP proxy is known to the rendezvous controller.\<close>

definition known :: "bytes set option \<Rightarrow> 'c BaseProxy \<Rightarrow> bool" where
  "known K p \<longleftrightarrow>
     (case pc_details (px_configurer p) of
        XTCP_cfg _ \<Rightarrow> (case K of None \<Rightarrow> False | Some ids \<Rightarrow> px_xtcpControlID p \<in> ids)
      | _ \<Rightarrow> True)"

definition run_sound :: "int set \<Rightarrow> int set \<Rightarrow> nh_env \<Rightarrow> bytes set option \<Rightarrow> (string \<Rightarrow> string) \<Rightarrow> 'c ResourceController \<Rightarrow> 'c run_result \<Rightarrow> bool" where
  "run_sound A B ne K uni rc q \<longleftrightarrow>
     (case q of (rc', p', r) \<Rightarrow>
        rc_inv A B ne K uni rc' \<and>
        (case r of
           Inl _ \<Rightarrow> rc_held uni rc' = rc_held uni rc
         | Inr _ \<Rightarrow> running uni p' \<and> known K p' \<and> owned uni p' \<inter> rc_held uni rc = {} \<and> rc_held uni rc' = rc_held uni rc \<union> owned uni p'))"

definition close_sound :: "int set \<Rightarrow> int set \<Rightarrow> nh_env \<Rightarrow> bytes set option \<Rightarrow> (string \<Rightarrow> string) \<Rightarrow> 'c ResourceController \<Rightarrow> 'c BaseProxy \<Rightarrow>
    ('c ResourceController \<times> 'c BaseProxy) option \<Rightarrow> bool" where
  "close_sound A B ne K uni rc p q \<longleftrightarrow>
     (\<exists>rc' p'. q = Some (rc', p') \<and> rc_inv A B ne K uni rc' \<and> rc_held uni rc' = rc_held uni rc - owned uni p)"

definition idle :: "'c BaseProxy \<Rightarrow> bool" where
  "idle p \<longleftrightarrow> px_listeners p = [] \<and> px_closeFuncs p = [] \<and> \<not> px_baseClosed p \<and> \<not> px_isClosed p"

lemma NewServerProxy_idle: "idle (NewServerProxy cfg opt)"
  by (simp add: NewServerProxy_def idle_def)

lemma NewServerProxy_simps [simp]:
  "px_configurer (NewServerProxy cfg opt) = cfg" "px_listeners (NewServerProxy cfg opt) = []"
  by (simp_all add: NewServerProxy_def)

lemma bind_port_simps [simp]:
  "px_group (bind_port k p) = px_group p" "px_listeners (bind_port k p) = px_listeners p" "px_realBindPort (bind_port k p) = k"
  "px_baseClosed (bind_port k p) = px_baseClosed p" "px_isClosed (bind_port k p) = px_isClosed p"
  "pc_details (px_configurer (bind_port k p)) = pc_details (set_RemotePort k (px_configurer p))"
  by (simp_all add: bind_port_def px_group_def set_RemotePort_def)

lemma px_group_listeners [simp]: "px_group (p\<lparr>px_listeners := ls\<rparr>) = px_group p"
  by (simp add: px_group_def)

lemma tcp_plain_take:
  assumes "tcp_pool_inv A c" and "env_ok env (res c)" and "Acquire (probe env) (iter env) (clock env) (res c) name p = (pm, r)"
  shows "case r of
      Inl _ \<Rightarrow> pm = res c
    | Inr k \<Rightarrow> tcp_pool_inv A (c\<lparr>res := pm\<rparr>) \<and> Resource k \<notin> tcp_held c \<and> tcp_held (c\<lparr>res := pm\<rparr>) = insert (Resource k) (tcp_held c)"
proof -
  have "ports_ok A (res c)" using assms(1) by (simp add: tcp_pool_inv_def pool_inv_def)
  from Acquire_ok [OF this assms(2,3)] plain_take [OF assms(1) [unfolded tcp_pool_inv_def], of pm]
  show ?thesis by (auto simp: tcp_pool_inv_def tcp_held_def split: sum.splits)
qed

lemma tcp_plain_give:
  assumes "tcp_pool_inv A c" and "Resource k \<in> tcp_held c"
  shows "tcp_pool_inv A (c\<lparr>res := Release (res c) k now\<rparr>) \<and> tcp_held (c\<lparr>res := Release (res c) k now\<rparr>) = tcp_held c - {Resource k}"
proof -
  have "ports_ok A (res c)" using assms(1) by (simp add: tcp_pool_inv_def pool_inv_def)
  then show ?thesis
    using plain_give [OF assms(1) [unfolded tcp_pool_inv_def] assms(2) [unfolded tcp_held_def], of "Release (res c) k now"]
    by (simp add: tcp_pool_inv_def tcp_held_def Release_ok used_ports_Release)
qed

lemma TCP_Run_ran:
  assumes inv: "rc_inv A B ne K uni rc" and e: "env_ok (re_tcp env) (res (rc_tcp rc))"
    and p: "idle p" "pc_details (px_configurer p) = TCP_cfg cfg"
  shows "run_sound A B ne K uni rc (TCP_Run env s rc p cfg)"
proof (cases "px_group p = []")
  case True
  obtain pm r where q: "Acquire (probe (re_tcp env)) (iter (re_tcp env)) (clock (re_tcp env)) (res (rc_tcp rc)) (px_name p)
    (tcp_RemotePort cfg) = (pm, r)" by fastforce
  note k = tcp_plain_take [OF rc_invD(1) [OF inv] e q]
  show ?thesis
  proof (cases r)
    case (Inl x)
    with k q True inv show ?thesis by (simp add: run_sound_def TCP_Run_def)
  next
    case (Inr rp)
    let ?c = "(rc_tcp rc)\<lparr>res := pm\<rparr>"
    have c: "tcp_pool_inv A ?c" "Resource rp \<notin> tcp_held (rc_tcp rc)" "tcp_held ?c = insert (Resource rp) (tcp_held (rc_tcp rc))"
      using k Inr by simp_all
    have "tcp_pool_inv A (?c\<lparr>res := Release pm rp (clock (re_tcp env))\<rparr>)"
      "tcp_held (?c\<lparr>res := Release pm rp (clock (re_tcp env))\<rparr>) = tcp_held (rc_tcp rc)"
      using tcp_plain_give [OF c(1), of rp] c(2,3) by simp_all
    with c q Inr True p show ?thesis
      by (auto simp: run_sound_def TCP_Run_def tcp_release_def running_def known_def owned_def idle_def set_RemotePort_def Let_def
          intro!: rc_inv_upd(1) [OF inv] rc_held_same rc_held_insert)
  qed
next
  case False
  let ?x = "\<lparr>ta_proxyName = px_name p, ta_group = px_group p, ta_groupKey = px_groupKey p, ta_addr = ProxyBindAddr s, ta_port = tcp_RemotePort cfg\<rparr>"
  obtain c' r where q: "TCPGroupCtl_Listen (rc_tcp rc) (re_tcp env) ?x = (c', r)" by fastforce
  note k = TCPGroupCtl_Listen_pool [OF rc_invD(1) [OF inv] e q]
  show ?thesis
  proof (cases r)
    case (Inl x)
    with k q False p show ?thesis
      by (auto simp: run_sound_def TCP_Run_def intro!: rc_inv_upd(1) [OF inv] rc_held_same)
  next
    case (Inr z)
    let ?m = "Member (the (groups c' (px_group p))) (fst z)"
    have c': "tcp_pool_inv A c'" "?m \<notin> tcp_held (rc_tcp rc)" "tcp_held c' = insert ?m (tcp_held (rc_tcp rc))"
      using k Inr by (auto simp: Let_def split: prod.splits)
    have "rc_held uni (rc\<lparr>rc_tcp := c'\<rparr>) = insert (KTcp ?m) (rc_held uni rc)" by (rule rc_held_insert(1) [OF c'(3)])
    with c' q Inr False p show ?thesis
      by (auto simp: run_sound_def TCP_Run_def running_def known_def owned_def idle_def set_RemotePort_def
          split: prod.splits intro!: rc_inv_upd(1) [OF inv])
  qed
qed

lemma TCP_Close_closed:
  assumes inv: "rc_inv A B ne K uni rc" and p: "running uni p" "pc_details (px_configurer p) = TCP_cfg cfg"
    and o: "owned uni p \<subseteq> rc_held uni rc"
  shows "close_sound A B ne K uni rc p (TCP_Close env rc p)"
proof (cases "px_group p = []")
  case True
  then obtain k where l: "px_listeners p = [NetListener k]" using p by (auto simp: running_def)
  have h: "Resource (px_realBindPort p) \<in> tcp_held (rc_tcp rc)" using o True p(2) by (simp add: owned_def)
  show ?thesis
    using tcp_plain_give [OF rc_invD(1) [OF inv] h, of "clock (re_tcp env)"] True l p(2)
    by (auto simp: close_sound_def TCP_Close_def Base_Close_def close_listener_def tcp_release_def owned_def
        intro!: rc_inv_upd(1) [OF inv] rc_held_remove)
next
  case False
  then obtain a ln where l: "px_listeners p = [TCPGroupListener a ln]" using p by (auto simp: running_def)
  have h: "Member a ln \<in> tcp_held (rc_tcp rc)" using o False p(2) l by (simp add: owned_def)
  from TCPGroup_close_pool [OF rc_invD(1) [OF inv] h, of "clock (re_tcp env)"] show ?thesis
    using member_listed(2) [OF h] False l p(2)
    by (auto simp: close_sound_def TCP_Close_def Base_Close_def close_listener_def owned_def
        intro!: rc_inv_upd(1) [OF inv] rc_held_remove)
qed

lemma UDP_Run_ran:
  assumes inv: "rc_inv A B ne K uni rc" and e: "env_ok (re_tcp env) (rc_udp rc)"
    and p: "idle p" "pc_details (px_configurer p) = UDP_cfg cfg"
  shows "run_sound A B ne K uni rc (UDP_Run env rc p cfg)"
proof -
  obtain pm r where q: "Acquire (probe (re_tcp env)) (iter (re_tcp env)) (clock (re_tcp env)) (rc_udp rc) (px_name p)
    (udp_RemotePort cfg) = (pm, r)" by fastforce
  note k = Acquire_ok [OF rc_invD(2) [OF inv] e q]
  have u: "used_ports (Release pm rp (clock (re_tcp env))) = used_ports (rc_udp rc)" if "r = Inr rp" for rp
    using k that by (auto simp: used_ports_Release)
  show ?thesis
  proof (cases r)
    case (Inl x)
    with k q inv show ?thesis by (simp add: run_sound_def UDP_Run_def)
  next
    case (Inr rp)
    with k u q p show ?thesis
      by (auto simp: run_sound_def UDP_Run_def running_def known_def owned_def idle_def set_RemotePort_def Let_def Release_ok
          intro!: rc_inv_upd(2) [OF inv] rc_held_same rc_held_insert)
  qed
qed

lemma UDP_Close_closed:
  assumes inv: "rc_inv A B ne K uni rc" and p: "running uni p" "pc_details (px_configurer p) = UDP_cfg cfg"
  shows "close_sound A B ne K uni rc p (UDP_Close env rc p)"
  using p rc_invD(2) [OF inv]
  by (auto simp: close_sound_def UDP_Close_def Base_Close_def running_def known_def owned_def used_ports_Release Release_ok
      intro!: rc_inv_upd(2) [OF inv] rc_held_remove)

lemma http_close_fns:
  fixes env :: "'c run_env" and p :: "'c BaseProxy"
  assumes "http_inv (re_uni env) c" and "distinct (map (close_fn_key (re_uni env) (px_name p)) fs)"
    and "close_fn_key (re_uni env) (px_name p) ` set fs \<subseteq> http_held c"
  shows "http_inv (re_uni env) (fold (call_close_fn env (px_name p)) fs c) \<and>
    http_held (fold (call_close_fn env (px_name p)) fs c) = http_held c - close_fn_key (re_uni env) (px_name p) ` set fs"
  using http_callbacks.give_all_ok [OF assms(1) _ assms(2,3)] by (simp add: fold_close_fns list_all_iff)

lemma rc_held_http:
  "http_held h = http_held (rc_http rc) \<union> H \<Longrightarrow> rc_held uni (rc\<lparr>rc_http := h\<rparr>) = rc_held uni rc \<union> KHttp ` H"
  "http_held h = http_held (rc_http rc) - H \<Longrightarrow> rc_held uni (rc\<lparr>rc_http := h\<rparr>) = rc_held uni rc - KHttp ` H"
  by (rule rc_held_eqI; auto)+

lemma http_routes_fn: "r \<in> set (http_routes env s p cfg) \<Longrightarrow> CreateConnFn r \<noteq> None"
  by (auto simp: http_routes_def http_route_def)

lemma HTTP_Run_ran:
  assumes inv: "rc_inv A B ne K (re_uni env) rc" and p: "idle p" "pc_details (px_configurer p) = HTTP_cfg cfg"
  shows "\<exists>q. HTTP_Run env s rc p cfg = Some q \<and> run_sound A B ne K (re_uni env) rc q"
proof -
  let ?rs = "http_routes env s p cfg" and ?key = "close_fn_key (re_uni env) (px_name p)"
  obtain c fs r where l: "http_loop env p ?rs [] (rc_http rc) = (c, fs, r)" by (metis prod_cases3)
  have t: "http_inv (re_uni env) c" "distinct (map ?key fs)" "?key ` set fs \<inter> http_held (rc_http rc) = {}"
    "http_held c = http_held (rc_http rc) \<union> ?key ` set fs"
    using http_callbacks.take_all_ok [OF rc_invD(3) [OF inv] http_routes_fn l [unfolded http_loop_eq]] by auto
  have e: "px_closeFuncs p = []" "px_listeners p = []" "\<not> px_baseClosed p" "\<not> px_isClosed p" using p by (simp_all add: idle_def)
  show ?thesis
  proof (cases r)
    case None
    have "owned (re_uni env) (p\<lparr>px_closeFuncs := fs\<rparr>) = KHttp ` ?key ` set fs" using p(2) by (simp add: owned_def)
    then have "run_sound A B ne K (re_uni env) rc (rc\<lparr>rc_http := c\<rparr>, p\<lparr>px_closeFuncs := fs\<rparr>, Inr x)" for x
      using t p(2) e rc_held_http(1) [OF t(4)] by (auto simp: run_sound_def running_def known_def intro!: rc_inv_upd(3) [OF inv])
    with l None e show ?thesis by (simp add: HTTP_Run_def)
  next
    case (Some x)
    let ?c = "fold (call_close_fn env (px_name p)) fs c"
    have "http_held c - ?key ` set fs = http_held (rc_http rc)" unfolding t(4) using t(3) by blast
    then have "http_inv (re_uni env) ?c" "http_held ?c = http_held (rc_http rc)" using http_close_fns [OF t(1,2)] t(4) by auto
    then have "run_sound A B ne K (re_uni env) rc (rc\<lparr>rc_http := ?c\<rparr>, q, Inl x)" for q
      by (auto simp: run_sound_def intro!: rc_inv_upd(3) [OF inv] rc_held_same)
    with l Some e show ?thesis by (simp add: HTTP_Run_def HTTP_Close_def Base_Close_def)
  qed
qed

lemma HTTP_Close_closed:
  assumes inv: "rc_inv A B ne K (re_uni env) rc" and p: "running (re_uni env) p" "pc_details (px_configurer p) = HTTP_cfg cfg"
    and o: "owned (re_uni env) p \<subseteq> rc_held (re_uni env) rc"
  shows "close_sound A B ne K (re_uni env) rc p (HTTP_Close env rc p)"
proof -
  let ?key = "close_fn_key (re_uni env) (px_name p)" and ?c = "fold (call_close_fn env (px_name p)) (px_closeFuncs p) (rc_http rc)"
  have "?key ` set (px_closeFuncs p) \<subseteq> http_held (rc_http rc)" using o p(2) by (simp add: owned_def image_subset_iff)
  then have c: "http_inv (re_uni env) ?c" "http_held ?c = http_held (rc_http rc) - ?key ` set (px_closeFuncs p)"
    using http_close_fns [OF rc_invD(3) [OF inv]] p by (simp_all add: running_def)
  show ?thesis
    using c rc_held_http(2) [OF c(2)] p
    by (auto simp: close_sound_def HTTP_Close_def Base_Close_def running_def known_def owned_def intro!: rc_inv_upd(3) [OF inv])
qed

text \<open>The HTTPS and tcpmux types, for either listening function.\<close>

lemma run_listeners_ran:
  fixes f :: "Listener \<Rightarrow> 'c ResourceController \<Rightarrow> 'c ResourceController \<times> (run_err + listener)"
  assumes pool: "resource_pool (rc_inv A B ne K (re_uni env)) (rc_held (re_uni env)) (\<lambda>_ _. True) f (close_listener env False)
      (listener_key (re_uni env)) vhost_listener"
    and inv: "rc_inv A B ne K (re_uni env) rc" and p: "idle p"
    and kind: "(\<exists>cfg. pc_details (px_configurer p) = HTTPS_cfg cfg) \<or> (\<exists>cfg. pc_details (px_configurer p) = TCPMux_cfg cfg)"
  shows "\<exists>q. run_listeners env vport f ds rc p = Some q \<and> run_sound A B ne K (re_uni env) rc q"
proof -
  let ?key = "listener_key (re_uni env)" and ?held = "rc_held (re_uni env)"
  obtain rc1 ls r where l: "listen_loop f ds [] rc = (rc1, ls, r)" by (metis prod_cases3)
  have t: "rc_inv A B ne K (re_uni env) rc1" "list_all vhost_listener ls" "distinct (map ?key ls)" "?key ` set ls \<inter> ?held rc = {}"
    "?held rc1 = ?held rc \<union> ?key ` set ls"
    using resource_pool.take_all_ok [OF pool inv _ l [unfolded listen_loop_eq]] by auto
  have e: "px_listeners p = []" "\<not> px_baseClosed p" "\<not> px_isClosed p" using p by (simp_all add: idle_def)
  show ?thesis
  proof (cases r)
    case None
    have "owned (re_uni env) (p\<lparr>px_listeners := ls\<rparr>) = ?key ` set ls" using kind by (auto simp: owned_def)
    then have "run_sound A B ne K (re_uni env) rc (rc1, p\<lparr>px_listeners := ls\<rparr>, Inr x)" for x
      using t kind e by (auto simp: run_sound_def running_def known_def)
    with l None e show ?thesis by (simp add: run_listeners_def)
  next
    case (Some x)
    have "?held rc \<union> ?key ` set ls - ?key ` set ls = ?held rc" using t(4) by blast
    with resource_pool.give_all_ok [OF pool t(1-3)] t(5) obtain rc2 where
      "give_all (close_listener env False) ls rc1 = Some rc2" "rc_inv A B ne K (re_uni env) rc2" "?held rc2 = ?held rc" by auto
    with l Some e show ?thesis by (simp add: run_listeners_def Base_Close_def close_listeners_eq run_sound_def)
  qed
qed

lemma vhost_Close_closed:
  assumes inv: "rc_inv A B ne K (re_uni env) rc" and p: "running (re_uni env) p"
    and kind: "(\<exists>cfg. pc_details (px_configurer p) = HTTPS_cfg cfg) \<or> (\<exists>cfg. pc_details (px_configurer p) = TCPMux_cfg cfg)"
    and o: "owned (re_uni env) p \<subseteq> rc_held (re_uni env) rc"
  shows "close_sound A B ne K (re_uni env) rc p (Base_Close env rc p)"
proof -
  have "listener_key (re_uni env) ` set (px_listeners p) = owned (re_uni env) p" using kind by (auto simp: owned_def)
  with https_listeners.give_all_ok [OF inv, of "px_listeners p"] p kind o obtain rc' where
    "give_all (close_listener env False) (px_listeners p) rc = Some rc'" "rc_inv A B ne K (re_uni env) rc'"
    "rc_held (re_uni env) rc' = rc_held (re_uni env) rc - owned (re_uni env) p" by (auto simp: running_def)
  with p show ?thesis by (simp add: close_sound_def Base_Close_def close_listeners_eq running_def)
qed

lemma startVisitorListener_ran:
  assumes inv: "rc_inv A B ne K uni rc" and p: "idle p"
    and kind: "(\<exists>cfg. pc_details (px_configurer p) = STCP_cfg cfg) \<or> (\<exists>cfg. pc_details (px_configurer p) = SUDP_cfg cfg)"
  shows "run_sound A B ne K uni rc (startVisitorListener rc p sk users)"
proof (cases "vm_listeners (rc_visitors rc) (px_name p)")
  case (Some b)
  then show ?thesis using inv by (simp add: run_sound_def startVisitorListener_def Visitor_Listen_def Let_def)
next
  case None
  obtain vm a where v: "Visitor_Listen (rc_visitors rc) (px_name p) sk (default_users p users) = (vm, Inr a)"
    and d: "dom (vm_listeners vm) = insert (px_name p) (dom (vm_listeners (rc_visitors rc)))"
    using None by (simp add: Visitor_Listen_def Let_def)
  let ?p = "p\<lparr>px_listeners := [VisitorListener a]\<rparr>"
  have "owned uni ?p = {KVisitor (px_name p)}" "running uni ?p" "known K ?p"
    using p kind by (auto simp: owned_def known_def running_def idle_def)
  moreover have "KVisitor (px_name p) \<notin> rc_held uni rc" using None by (simp add: domIff)
  ultimately show ?thesis
    using v rc_held_insert(6) [OF d, of uni] p rc_inv_upd(6) [OF inv]
    by (simp add: run_sound_def startVisitorListener_def idle_def)
qed

lemma Visitor_Close_closed:
  assumes inv: "rc_inv A B ne K uni rc" and p: "running uni p"
    and kind: "(\<exists>cfg. pc_details (px_configurer p) = STCP_cfg cfg) \<or> (\<exists>cfg. pc_details (px_configurer p) = SUDP_cfg cfg)"
  shows "close_sound A B ne K uni rc p (Visitor_Close env rc p)"
proof -
  obtain a where l: "px_listeners p = [VisitorListener a]" using p kind by (auto simp: running_def)
  let ?vm = "CloseListener (close_internal (rc_visitors rc) a) (px_name p)"
  have d: "dom (vm_listeners ?vm) = dom (vm_listeners (rc_visitors rc)) - {px_name p}"
    by (auto simp: CloseListener_def close_internal_def split: if_splits)
  have "owned uni p = {KVisitor (px_name p)}" using kind by (auto simp: owned_def)
  then show ?thesis
    using l rc_held_remove(6) [OF d, of uni]
    by (simp add: close_sound_def Visitor_Close_def Base_Close_def close_listener_def rc_inv_upd(6) [OF inv])
qed

lemma nat_held_iff: "(m, i) \<in> nat_held c \<longleftrightarrow> (\<exists>p. clientCfgs c m = Some p \<and> cc_ownerControl (cfgs c p) = i)"
  by (auto simp: nat_held_def)

lemma ListenClient_held:
  assumes inv: "c_inv ne c" and l: "ListenClient c name sk users owner = (c', r)"
  shows "c_inv ne c' \<and> controls c' = controls c \<and>
    (case r of Inl _ \<Rightarrow> nat_held c' = nat_held c
     | Inr _ \<Rightarrow> owner \<in> controls c \<and> (name, owner) \<notin> nat_held c \<and> nat_held c' = insert (name, owner) (nat_held c))"
proof (cases r)
  case (Inl e)
  with l have "c' = c" by (auto simp: ListenClient_def Let_def split: sum.splits if_splits)
  with Inl inv show ?thesis by simp
next
  case (Inr q)
  let ?cfg = "\<lparr>cc_name = name, cc_sk = sk, cc_allowUsers = users, cc_ownerControl = owner, cc_closed = False\<rparr>"
  have n: "clientCfgs c name = None" and
    c': "clientCfgs c' = (clientCfgs c)(name \<mapsto> n_cfgs c)" "cfgs c' = (cfgs c)(n_cfgs c := ?cfg)"
      "controls c' = controls c" and mem: "owner \<in> controls c"
    using l Inr by (auto simp: ListenClient_def Let_def Option.is_none_def dest: ID_self split: sum.splits if_splits)
  have lt: "p < n_cfgs c" if "clientCfgs c m = Some p" for m p using cfg_okD(1) [OF c_invD(1) [OF inv] that] .
  have "(m, i) \<in> nat_held c' \<longleftrightarrow> m = name \<and> i = owner \<or> (m, i) \<in> nat_held c" for m i
  proof (cases "m = name")
    case False
    have "cfgs c' p = cfgs c p" if "clientCfgs c m = Some p" for p using lt [OF that] c'(2) by simp
    with False show ?thesis unfolding nat_held_iff c'(1) by auto
  qed (use n c' in \<open>auto simp: nat_held_iff\<close>)
  then have "nat_held c' = insert (name, owner) (nat_held c)" by auto
  moreover have "c_inv ne c'" using ListenClient_ok [OF inv, of name sk users owner] l by simp
  ultimately show ?thesis using Inr n c'(3) mem by (simp add: nat_held_iff)
qed

lemma CloseClient_held:
  assumes inv: "c_inv ne c" and it: "iter_order (sessions c) sids"
  shows "\<exists>c'. CloseClient c sids name owner = Some c' \<and> c_inv ne c' \<and> controls c' = controls c \<and>
    nat_held c' = nat_held c - {(name, owner)}"
proof (cases "(name, owner) \<in> nat_held c")
  case False
  then have "CloseClient c sids name owner = Some c" by (auto simp: CloseClient_def nat_held_iff Let_def split: option.split)
  with False inv show ?thesis by simp
next
  case True
  then obtain p where p: "clientCfgs c name = Some p" "cc_ownerControl (cfgs c p) = owner" by (auto simp: nat_held_iff)
  obtain c' where c': "CloseClient c sids name owner = Some c'" "c_inv ne c'" using CloseClient_ok [OF inv it] by blast
  then have e: "clientCfgs c' = (clientCfgs c)(name := None)" "cfgs c' = (cfgs c)(p := (cfgs c p)\<lparr>cc_closed := True\<rparr>)"
    "controls c' = controls c"
    using p by (auto simp: CloseClient_def drop_cfgs_def drop_sessions_def Let_def split: if_splits)
  have "(m, i) \<in> nat_held c' \<longleftrightarrow> (m, i) \<in> nat_held c \<and> (m, i) \<noteq> (name, owner)" for m i
    unfolding nat_held_iff e using p by auto
  then have "nat_held c' = nat_held c - {(name, owner)}" by auto
  with c' e(3) show ?thesis by blast
qed

lemma CloseControl_held:
  assumes inv: "c_inv ne c" and it: "iter_order (clientCfgs c) names" "iter_order (sessions c) sids"
  shows "\<exists>c'. CloseControl c names sids i = Some c' \<and> c_inv ne c' \<and> controls c' = controls c - {i} \<and>
    nat_held c' = nat_held c - {(n, j) | n j. j = i}"
proof (cases "ID i")
  case (Inl e)
  then have no: "i \<notin> controls c" using c_invD(4) [OF inv, of i] by auto
  moreover have "(n, i) \<notin> nat_held c" for n using no cfg_okD(4) [OF c_invD(1) [OF inv]] by (auto simp: nat_held_iff)
  ultimately show ?thesis using Inl inv by (auto simp: CloseControl_def)
next
  case (Inr k)
  then have k: "k = i" by (rule ID_self)
  let ?P = "\<lambda>cfg. cc_ownerControl cfg = i" and ?mark = "\<lambda>cfg. cfg\<lparr>cc_closed := True\<rparr>"
  from drop_cfgs_ok [OF c_invD(1) [OF inv], of ?P names] obtain m h where
    r: "drop_objs ?P cc_closed ?mark names (clientCfgs c, cfgs c) = Some (m, h)" and
    d: "dropped ?P ?mark (set names) (clientCfgs c) (cfgs c) m h" by auto
  obtain c' where c': "CloseControl c names sids i = Some c'" "c_inv ne c'" using CloseControl_ok [OF inv it] by blast
  then have e: "clientCfgs c' = m" "cfgs c' = h" "controls c' = controls c - {i}"
    using r Inr k by (auto simp: CloseControl_def drop_cfgs_def drop_sessions_def)
  have own: "cc_ownerControl (h p) = cc_ownerControl (cfgs c p)" for p using droppedD(1) [OF d, of p] by auto
  have "n \<in> set names" if "clientCfgs c n = Some p" for n p using it(1) that by (auto simp: iter_order_def)
  then have "m n = Some p \<longleftrightarrow> clientCfgs c n = Some p \<and> cc_ownerControl (cfgs c p) \<noteq> i" for n p
    using droppedD(2,4,5) [OF d, of n p] by blast
  then have "(n, j) \<in> nat_held c' \<longleftrightarrow> (n, j) \<in> nat_held c \<and> j \<noteq> i" for n j
    unfolding nat_held_iff e own by auto
  then have "nat_held c' = nat_held c - {(n, j) | n j. j = i}" by auto
  with c' e(3) show ?thesis by blast
qed

lemma XTCP_Run_ran:
  assumes inv: "rc_inv A B ne K uni rc" and p: "idle p" "pc_details (px_configurer p) = XTCP_cfg cfg"
  shows "run_sound A B ne K uni rc (XTCP_Run rc p cfg)"
proof (cases "px_wireProtocol p \<noteq> ''v2'' \<or> isl (ID (px_xtcpControlID p)) \<or> rc_nathole rc = None")
  case True
  with inv show ?thesis by (auto simp: run_sound_def XTCP_Run_def)
next
  case False
  then obtain c where c: "rc_nathole rc = Some c" by blast
  obtain c' r where l: "ListenClient c (px_name p) (xtcp_Secretkey cfg) (default_users p (xtcp_AllowUsers cfg)) (px_xtcpControlID p) = (c', r)"
    by fastforce
  note k = ListenClient_held [OF rc_invD(6) [OF inv c] l]
  show ?thesis
  proof (cases r)
    case (Inl e)
    with k l c False show ?thesis
      by (auto simp: run_sound_def XTCP_Run_def intro!: rc_inv_nat [OF inv c] rc_held_same(7) [OF c])
  next
    case (Inr a)
    then have h: "nat_held c' = insert (px_name p, px_xtcpControlID p) (nat_held c)" using k by simp
    have "known K p" using k Inr p(2) rc_invD(7) [OF inv c] by (auto simp: known_def)
    then show ?thesis
      using k l c False Inr p rc_held_insert(7) [OF c h, of uni]
      by (auto simp: run_sound_def XTCP_Run_def running_def owned_def idle_def intro!: rc_inv_nat [OF inv c])
  qed
qed

lemma XTCP_Close_closed:
  assumes inv: "rc_inv A B ne K uni rc" and p: "running uni p" "pc_details (px_configurer p) = XTCP_cfg cfg"
    and o: "rc_nathole rc \<noteq> None" and it: "\<And>c. rc_nathole rc = Some c \<Longrightarrow> iter_order (sessions c) (re_sids env)"
  shows "close_sound A B ne K uni rc p (XTCP_Close env rc p)"
proof -
  obtain c where c: "rc_nathole rc = Some c" using o by auto
  obtain c' where c': "CloseClient c (re_sids env) (px_name p) (px_xtcpControlID p) = Some c'" "c_inv ne c'"
    "nat_held c' = nat_held c - {(px_name p, px_xtcpControlID p)}" "controls c' = controls c"
    using CloseClient_held [OF rc_invD(6) [OF inv c] it [OF c]] by blast
  show ?thesis
    using c c' p rc_held_remove(7) [OF c c'(3), of uni]
    by (auto simp: close_sound_def XTCP_Close_def Base_Close_def running_def known_def owned_def intro!: rc_inv_nat [OF inv c])
qed

text \<open>What running and closing leave alone in the proxy object.\<close>

definition same_proxy :: "'c BaseProxy \<Rightarrow> 'c BaseProxy \<Rightarrow> bool" where
  "same_proxy p q \<longleftrightarrow> px_name q = px_name p \<and> px_usedPortsNum q = px_usedPortsNum p \<and> px_xtcpControlID q = px_xtcpControlID p"

lemma same_proxy_upd [simp]:
  "same_proxy p p" "same_proxy p (q\<lparr>px_listeners := ls\<rparr>) = same_proxy p q" "same_proxy p (q\<lparr>px_closeFuncs := fs\<rparr>) = same_proxy p q"
  "same_proxy p (q\<lparr>px_realBindPort := k\<rparr>) = same_proxy p q" "same_proxy p (q\<lparr>px_baseClosed := b\<rparr>) = same_proxy p q"
  "same_proxy p (q\<lparr>px_isClosed := b\<rparr>) = same_proxy p q" "same_proxy p (bind_port k q) = same_proxy p q"
  by (simp_all add: same_proxy_def bind_port_def)

lemma Base_Close_same: "Base_Close env rc p = Some (rc', p') \<Longrightarrow> same_proxy q p' = same_proxy q p"
  by (auto simp: Base_Close_def)

lemma Proxy_Close_same: "Proxy_Close env rc p = Some (rc', p') \<Longrightarrow> same_proxy p p'"
  by (auto simp: Proxy_Close_def TCP_Close_def UDP_Close_def HTTP_Close_def Visitor_Close_def XTCP_Close_def Base_Close_same
      split: proxy_details.splits if_splits option.splits)

lemma run_listeners_same: "run_listeners env vport f ds rc p = Some (rc', p', r) \<Longrightarrow> same_proxy p p'"
  by (auto simp: run_listeners_def Let_def Base_Close_same split: prod.splits option.splits)

lemma Proxy_Run_same: "Proxy_Run env s rc p = Some (rc', p', r) \<Longrightarrow> same_proxy p p'"
  by (auto simp: Proxy_Run_def TCP_Run_def UDP_Run_def HTTP_Run_def HTTPS_Run_def TCPMux_Run_def startVisitorListener_def XTCP_Run_def
      HTTP_Close_def Base_Close_same Let_def dest: run_listeners_same
      split: proxy_details.splits if_splits option.splits prod.splits sum.splits)

section \<open>Proxies that come and go\<close>

text \<open>
  What the environment has to do: the iteration order of a port manager lists its free ports and the
  operating system refuses ports that are in use; the order in which the sessions are iterated lists them.
\<close>

definition start_env :: "'c run_env \<Rightarrow> ProxyConfigurer \<Rightarrow> 'c ResourceController \<Rightarrow> bool" where
  "start_env env cfg rc \<longleftrightarrow>
     (case pc_details cfg of
        TCP_cfg _ \<Rightarrow> env_ok (re_tcp env) (res (rc_tcp rc))
      | UDP_cfg _ \<Rightarrow> env_ok (re_tcp env) (rc_udp rc)
      | _ \<Rightarrow> True)"

definition stop_env :: "'c run_env \<Rightarrow> 'c ResourceController \<Rightarrow> bool" where
  "stop_env env rc \<longleftrightarrow> (\<forall>c. rc_nathole rc = Some c \<longrightarrow> iter_order (sessions c) (re_sids env))"

lemma Proxy_Run_ran:
  assumes inv: "rc_inv A B ne K (re_uni env) rc" and e: "start_env env cfg rc"
  shows "\<exists>q. Proxy_Run env s rc (NewServerProxy cfg opt) = Some q \<and> run_sound A B ne K (re_uni env) rc q"
proof (cases "pc_details cfg")
  case (HTTPS_cfg h)
  show ?thesis
    using run_listeners_ran [OF https_listeners.resource_pool_axioms inv NewServerProxy_idle] HTTPS_cfg
    by (simp add: Proxy_Run_def HTTPS_Run_def)
next
  case (TCPMux_cfg m)
  have "run_sound A B ne K (re_uni env) rc (rc, q, Inl x)" for q x using inv by (simp add: run_sound_def)
  then show ?thesis
    using run_listeners_ran [OF tcpmux_listeners.resource_pool_axioms inv NewServerProxy_idle] TCPMux_cfg
    by (auto simp: Proxy_Run_def TCPMux_Run_def Base_Close_def)
qed (use e TCP_Run_ran [OF inv _ NewServerProxy_idle] UDP_Run_ran [OF inv _ NewServerProxy_idle] HTTP_Run_ran [OF inv NewServerProxy_idle]
      startVisitorListener_ran [OF inv NewServerProxy_idle] XTCP_Run_ran [OF inv NewServerProxy_idle]
     in \<open>simp_all add: Proxy_Run_def start_env_def\<close>)

text \<open>
  A proxy may be closed while it holds what it owns; the entry of an XTCP proxy may have been dropped
  before, with its control.
\<close>

definition backed :: "(string \<Rightarrow> string) \<Rightarrow> 'c ResourceController \<Rightarrow> 'c BaseProxy \<Rightarrow> bool" where
  "backed uni rc p \<longleftrightarrow>
     (case pc_details (px_configurer p) of
        XTCP_cfg _ \<Rightarrow> \<not> Option.is_none (rc_nathole rc)
      | _ \<Rightarrow> owned uni p \<subseteq> rc_held uni rc)"

lemma owned_backed: "owned uni p \<subseteq> rc_held uni rc \<Longrightarrow> backed uni rc p"
  by (auto simp: backed_def owned_def split: proxy_details.split)

lemma Proxy_Close_closed:
  assumes inv: "rc_inv A B ne K (re_uni env) rc" and p: "running (re_uni env) p" and o: "backed (re_uni env) rc p"
    and e: "stop_env env rc"
  shows "close_sound A B ne K (re_uni env) rc p (Proxy_Close env rc p)"
  using TCP_Close_closed [OF inv p] UDP_Close_closed [OF inv p] HTTP_Close_closed [OF inv p] vhost_Close_closed [OF inv p]
    Visitor_Close_closed [OF inv p] XTCP_Close_closed [OF inv p] e o
  by (cases "pc_details (px_configurer p)") (simp_all add: Proxy_Close_def stop_env_def backed_def Option.is_none_def)

datatype 'c proxy_op =
    StartProxy "'c run_env" ProxyConfigurer proxy_options
  | StopProxy "'c run_env" nat
  | Join_control bytes

text \<open>
  The state is the controller and the proxies that run. \<open>None\<close> is a panic. A control is made known to the
  rendezvous controller before its proxies start.
\<close>

definition proxy_step :: "ServerConfig \<Rightarrow> 'c ResourceController \<times> 'c BaseProxy list \<Rightarrow> 'c proxy_op \<Rightarrow>
    ('c ResourceController \<times> 'c BaseProxy list) option" where
  "proxy_step s st op =
     (case (st, op) of
        ((rc, live), StartProxy env cfg opt) \<Rightarrow>
          map_option (\<lambda>(rc', p, r). (rc', case r of Inl _ \<Rightarrow> live | Inr _ \<Rightarrow> live @ [p])) (Proxy_Run env s rc (NewServerProxy cfg opt))
      | ((rc, live), StopProxy env i) \<Rightarrow>
          map_option (\<lambda>(rc', _). (rc', take i live @ drop (Suc i) live)) (Proxy_Close env rc (live ! i))
      | ((rc, live), Join_control i) \<Rightarrow>
          Some (rc\<lparr>rc_nathole := map_option (\<lambda>c. fst (RegisterControl c i)) (rc_nathole rc)\<rparr>, live))"

fun proxy_run :: "ServerConfig \<Rightarrow> 'c proxy_op list \<Rightarrow> 'c ResourceController \<times> 'c BaseProxy list \<Rightarrow>
    ('c ResourceController \<times> 'c BaseProxy list) option" where
  "proxy_run s [] st = Some st"
| "proxy_run s (op # ops) st = Option.bind (proxy_step s st op) (proxy_run s ops)"

fun op_env :: "(string \<Rightarrow> string) \<Rightarrow> 'c ResourceController \<times> 'c BaseProxy list \<Rightarrow> 'c proxy_op \<Rightarrow> bool" where
  "op_env uni (rc, live) (StartProxy env cfg opt) \<longleftrightarrow> re_uni env = uni \<and> start_env env cfg rc"
| "op_env uni (rc, live) (StopProxy env i) \<longleftrightarrow> re_uni env = uni \<and> i < length live \<and> stop_env env rc"
| "op_env uni (rc, live) (Join_control i) \<longleftrightarrow> True"

fun ops_env :: "(string \<Rightarrow> string) \<Rightarrow> ServerConfig \<Rightarrow> 'c proxy_op list \<Rightarrow> 'c ResourceController \<times> 'c BaseProxy list \<Rightarrow> bool" where
  "ops_env uni s [] st \<longleftrightarrow> True"
| "ops_env uni s (op # ops) st \<longleftrightarrow> op_env uni st op \<and> (case proxy_step s st op of None \<Rightarrow> True | Some st' \<Rightarrow> ops_env uni s ops st')"

text \<open>What is held is what the running proxies own, and no two of them own the same.\<close>

definition accounted :: "int set \<Rightarrow> int set \<Rightarrow> nh_env \<Rightarrow> (string \<Rightarrow> string) \<Rightarrow> 'c ResourceController \<times> 'c BaseProxy list \<Rightarrow> bool" where
  "accounted A B ne uni st \<longleftrightarrow>
     (case st of (rc, live) \<Rightarrow>
        (\<exists>K. rc_inv A B ne K uni rc) \<and> list_all (running uni) live \<and> rc_held uni rc = \<Union> (owned uni ` set live) \<and>
        (\<forall>i < length live. \<forall>j < length live. i \<noteq> j \<longrightarrow> owned uni (live ! i) \<inter> owned uni (live ! j) = {}))"

lemma disjoint_snoc:
  assumes "\<forall>i < length xs. \<forall>j < length xs. i \<noteq> j \<longrightarrow> f (xs ! i) \<inter> f (xs ! j) = {}" and "f x \<inter> \<Union> (f ` set xs) = {}"
  shows "\<forall>i < length (xs @ [x]). \<forall>j < length (xs @ [x]). i \<noteq> j \<longrightarrow> f ((xs @ [x]) ! i) \<inter> f ((xs @ [x]) ! j) = {}"
proof -
  have "f (xs ! i) \<inter> f x = {}" if "i < length xs" for i using assms(2) nth_mem [OF that] by blast
  with assms(1) show ?thesis by (auto simp: nth_append less_Suc_eq disjoint_iff)
qed

lemma disjoint_remove:
  assumes d: "\<forall>i < length xs. \<forall>j < length xs. i \<noteq> j \<longrightarrow> f (xs ! i) \<inter> f (xs ! j) = {}" and k: "k < length xs"
  defines "ys \<equiv> take k xs @ drop (Suc k) xs"
  shows "\<forall>i < length ys. \<forall>j < length ys. i \<noteq> j \<longrightarrow> f (ys ! i) \<inter> f (ys ! j) = {}"
    and "\<Union> (f ` set ys) = \<Union> (f ` set xs) - f (xs ! k)"
proof -
  have n: "ys ! i = xs ! (if i < k then i else Suc i)" "length ys = length xs - 1" if "i < length ys" for i
    using that k by (auto simp: ys_def nth_append min_def)
  show "\<forall>i < length ys. \<forall>j < length ys. i \<noteq> j \<longrightarrow> f (ys ! i) \<inter> f (ys ! j) = {}"
  proof (intro allI impI)
    fix i j
    assume ij: "i < length ys" "j < length ys" "i \<noteq> j"
    show "f (ys ! i) \<inter> f (ys ! j) = {}"
      unfolding n(1) [OF ij(1)] n(1) [OF ij(2)]
      by (rule d [rule_format]) (use ij n(2) [OF ij(1)] in \<open>auto split: if_splits\<close>)
  qed
  have xs: "xs = take k xs @ xs ! k # drop (Suc k) xs" using k by (rule id_take_nth_drop)
  have "set xs = insert (xs ! k) (set ys)" by (subst xs) (auto simp: ys_def)
  moreover have "f y \<inter> f (xs ! k) = {}" if "y \<in> set ys" for y
  proof -
    from that obtain i where i: "i < length ys" "y = ys ! i" by (auto simp: in_set_conv_nth)
    show ?thesis
      unfolding i(2) n(1) [OF i(1)]
      by (rule d [rule_format]) (use i k n(2) [OF i(1)] in \<open>auto split: if_splits\<close>)
  qed
  ultimately show "\<Union> (f ` set ys) = \<Union> (f ` set xs) - f (xs ! k)" by auto
qed

lemma proxy_step_accounted:
  assumes acc: "accounted A B ne uni st" and e: "op_env uni st op"
  shows "\<exists>st'. proxy_step s st op = Some st' \<and> accounted A B ne uni st'"
proof -
  obtain rc live where st: "st = (rc, live)" by fastforce
  obtain K where inv: "rc_inv A B ne K uni rc" and r: "list_all (running uni) live" and h: "rc_held uni rc = \<Union> (owned uni ` set live)"
    and d: "\<forall>i < length live. \<forall>j < length live. i \<noteq> j \<longrightarrow> owned uni (live ! i) \<inter> owned uni (live ! j) = {}"
    using acc by (auto simp: accounted_def st)
  show ?thesis
  proof (cases op)
    case (StartProxy env cfg opt)
    with e st have u: "re_uni env = uni" "start_env env cfg rc" by simp_all
    from Proxy_Run_ran [of A B ne K env rc cfg s opt] inv u obtain rc' p q where
      q: "Proxy_Run env s rc (NewServerProxy cfg opt) = Some (rc', p, q)" "run_sound A B ne K uni rc (rc', p, q)" by auto
    show ?thesis
      using q StartProxy st r h d disjoint_snoc [OF d, of p] by (cases q) (auto simp: proxy_step_def accounted_def run_sound_def)
  next
    case (StopProxy env i)
    with e st have u: "re_uni env = uni" "i < length live" "stop_env env rc" by simp_all
    have i: "live ! i \<in> set live" using u(2) by simp
    have "running uni (live ! i)" "backed uni rc (live ! i)" using r h i by (auto simp: list_all_iff intro!: owned_backed)
    with Proxy_Close_closed [of A B ne K env rc "live ! i"] inv u obtain rc' p where
      q: "Proxy_Close env rc (live ! i) = Some (rc', p)" "rc_inv A B ne K uni rc'" "rc_held uni rc' = rc_held uni rc - owned uni (live ! i)"
      by (auto simp: close_sound_def)
    have "list_all (running uni) (take i live @ drop (Suc i) live)" using r by (auto simp: list_all_iff dest: in_set_takeD in_set_dropD)
    then show ?thesis
      using q StopProxy st h disjoint_remove [OF d u(2)] by (auto simp: proxy_step_def accounted_def)
  next
    case (Join_control i)
    have "\<exists>K. rc_inv A B ne K uni (rc\<lparr>rc_nathole := map_option (\<lambda>c. fst (RegisterControl c i)) (rc_nathole rc)\<rparr>)"
      using inv RegisterControl_ok by (auto simp: rc_inv_def)
    moreover have "nat_held (fst (RegisterControl c i)) = nat_held c" for c
      by (simp add: nat_held_def RegisterControl_def split: sum.split)
    then have "rc_held uni (rc\<lparr>rc_nathole := map_option (\<lambda>c. fst (RegisterControl c i)) (rc_nathole rc)\<rparr>) = rc_held uni rc"
      by (simp add: rc_held_def split: option.split)
    ultimately show ?thesis using Join_control st acc by (simp add: proxy_step_def accounted_def)
  qed
qed

lemma proxy_run_accounted:
  assumes "accounted A B ne uni st" and "ops_env uni s ops st"
  shows "\<exists>st'. proxy_run s ops st = Some st' \<and> accounted A B ne uni st'"
  using assms
proof (induction ops arbitrary: st)
  case (Cons op ops)
  from proxy_step_accounted [OF Cons.prems(1), of op s] Cons.prems(2) obtain st1 where
    "proxy_step s st op = Some st1" "accounted A B ne uni st1" by auto
  with Cons.IH [of st1] Cons.prems(2) show ?case by auto
qed simp

definition NewResourceController :: "Util.PortsRange list \<Rightarrow> Util.PortsRange list \<Rightarrow> Controller option \<Rightarrow> 'c ResourceController" where
  "NewResourceController tcp udp nathole =
     \<lparr>rc_visitors = NewVisitorManager, rc_tcp = NewTCPGroupCtl (NewManager tcp), rc_udp = NewManager udp,
      rc_http = NewHTTPGroupController NewRouters,
      rc_https = \<lparr>groups = Map.empty, heap = [], res = NewRouters, fresh = 0\<rparr>,
      rc_tcpmux = \<lparr>groups = Map.empty, heap = [], res = NewRouters, fresh = 0\<rparr>, rc_nathole = nathole\<rparr>"

lemma pool_held_empty:
  assumes "pool_held used gkey c = {}"
  shows "used (res c) = {}"
proof -
  have "Member a ln \<notin> pool_held used gkey c" for a ln using assms by simp
  then have "lns (heap c ! a) = []" if "a < length (heap c)" for a
    using that unfolding pool_held_def pool_members_def by (cases "lns (heap c ! a)") (auto, metis list.set_intros(1))
  then have "active_groups c = {}" by (simp add: active_groups_def)
  with assms show ?thesis by (simp add: pool_held_def group_elems_def)
qed

lemma http_held_empty:
  assumes inv: "http_inv uni c" and h: "http_held c = {}"
  shows "route_lookup (vhostRouter c) k = None"
proof (rule ccontr)
  assume "route_lookup (vhostRouter c) k \<noteq> None"
  then obtain rc b where r: "route_lookup (vhostRouter c) k = Some (rc, b)" by auto
  show False
  proof (cases b)
    case None
    with r have "HttpRoute k \<in> http_held c" by (auto simp: http_plain_def)
    with h show ?thesis by simp
  next
    case (Some a)
    with http_invD(6) [OF inv, of k rc a] r have a: "a < length (hheap c)" "pxyNames (hheap c ! a) \<noteq> []" by simp_all
    then have "HttpMember (hg_group (hheap c ! a)) (hd (pxyNames (hheap c ! a))) \<in> http_held c"
      by (auto simp: http_members_def)
    with h show ?thesis by simp
  qed
qed

lemma rc_held_empty:
  assumes inv: "rc_inv A B ne K uni rc" and h: "rc_held uni rc = {}"
  shows "freePorts (res (rc_tcp rc)) = A" "freePorts (rc_udp rc) = B" "route_lookup (vhostRouter (rc_http rc)) k = None"
    "route_lookup (res (rc_https rc)) k = None" "route_lookup (res (rc_tcpmux rc)) k = None"
    "vm_listeners (rc_visitors rc) = Map.empty" "rc_nathole rc = Some c \<Longrightarrow> clientCfgs c = Map.empty"
proof -
  have e: "tcp_held (rc_tcp rc) = {}" "used_ports (rc_udp rc) = {}" "http_held (rc_http rc) = {}" "vhost_held uni (rc_https rc) = {}"
    "vhost_held uni (rc_tcpmux rc) = {}" "dom (vm_listeners (rc_visitors rc)) = {}" "rc_nathole rc = Some c \<Longrightarrow> nat_held c = {}"
    using h by (auto simp: rc_held_def)
  have "used_ports (res (rc_tcp rc)) = {}" by (rule pool_held_empty [OF e(1) [unfolded tcp_held_def]])
  then show "freePorts (res (rc_tcp rc)) = A"
    using rc_invD(1) [OF inv] by (simp add: tcp_pool_inv_def pool_inv_def ports_ok_def port_inv_def used_ports_def)
  show "freePorts (rc_udp rc) = B"
    using rc_invD(2) [OF inv] e(2) by (simp add: ports_ok_def port_inv_def used_ports_def)
  show "route_lookup (vhostRouter (rc_http rc)) k = None" by (rule http_held_empty [OF rc_invD(3) [OF inv] e(3)])
  show "route_lookup (res (rc_https rc)) k = None" "route_lookup (res (rc_tcpmux rc)) k = None"
    using pool_held_empty [OF e(4) [unfolded vhost_held_def]] pool_held_empty [OF e(5) [unfolded vhost_held_def]]
    by (simp_all add: used_routes_def)
  show "vm_listeners (rc_visitors rc) = Map.empty" using e(6) by simp
  show "clientCfgs c = Map.empty" if "rc_nathole rc = Some c" using e(7) [OF that] by (auto simp: nat_held_def)
qed

lemma no_routes: "route_lookup NewRouters = Map.empty"
  by (auto simp: route_lookup_def exist_def NewRouters_def routers_of_def)

lemma NewResourceController_accounted:
  assumes "0 \<notin> allowed tcp" and "0 \<notin> allowed udp" and "nathole \<in> {None, Some (NewController reserve cs ss)}"
  shows "accounted (allowed tcp) (allowed udp) ne uni (NewResourceController tcp udp nathole, [])"
proof -
  have "c_inv ne (NewController reserve cs ss)" "nat_held (NewController reserve cs ss) = {}"
    by (simp_all add: c_inv_def cfg_ok_def sess_ok_def NewController_def nat_held_def)
  then show ?thesis
    using assms NewManager_inv [of tcp] NewManager_inv [of udp] NewRouters_wf
      NewHTTPGroupController_inv [of uni]
    by (auto simp: accounted_def NewResourceController_def rc_inv_def rc_held_def tcp_pool_inv_def vhost_pool_inv_def pool_inv_def
        tcp_held_def vhost_held_def pool_held_def pool_members_def active_groups_def group_elems_def base_inv_def NewTCPGroupCtl_def
        ports_ok_def used_ports_def used_routes_def http_held_def http_plain_def http_members_def NewHTTPGroupController_def
        NewVisitorManager_def NewManager_def no_routes)
qed

section \<open>Properties\<close>

text \<open>
  C29. No proxy of the server leaks a resource, whatever its type. Proxies of the eight types are started and
  stopped in any order, each stopped once, with starts failing at any point: taking a resource, resolving or
  listening on an address, registering the second of several domains. Then no operation panics, running
  proxies never own the same port, route, group membership, visitor name or rendezvous entry, and when
  none runs any more, every allowed port is free again, the three route tables are empty, and no visitor
  listener and no rendezvous provider is left.
\<close>

theorem no_resource_leak:
  assumes "0 \<notin> allowed tcp" and "0 \<notin> allowed udp" and "nathole \<in> {None, Some (NewController reserve cs ss)}"
    and "ops_env uni s ops (NewResourceController tcp udp nathole, [])"
  shows "\<exists>rc live. proxy_run s ops (NewResourceController tcp udp nathole, []) = Some (rc, live) \<and>
    (\<forall>i < length live. \<forall>j < length live. i \<noteq> j \<longrightarrow> owned uni (live ! i) \<inter> owned uni (live ! j) = {}) \<and>
    (live = [] \<longrightarrow>
       freePorts (res (rc_tcp rc)) = allowed tcp \<and> freePorts (rc_udp rc) = allowed udp \<and>
       (\<forall>k. route_lookup (vhostRouter (rc_http rc)) k = None \<and> route_lookup (res (rc_https rc)) k = None \<and>
            route_lookup (res (rc_tcpmux rc)) k = None) \<and>
       vm_listeners (rc_visitors rc) = Map.empty \<and> (\<forall>c. rc_nathole rc = Some c \<longrightarrow> clientCfgs c = Map.empty))"
proof -
  from proxy_run_accounted [OF NewResourceController_accounted [OF assms(1-3), of undefined] assms(4)]
  obtain rc live where run: "proxy_run s ops (NewResourceController tcp udp nathole, []) = Some (rc, live)"
    and acc: "accounted (allowed tcp) (allowed udp) undefined uni (rc, live)" by auto
  obtain K where inv: "rc_inv (allowed tcp) (allowed udp) undefined K uni rc" using acc by (auto simp: accounted_def)
  have d: "\<forall>i < length live. \<forall>j < length live. i \<noteq> j \<longrightarrow> owned uni (live ! i) \<inter> owned uni (live ! j) = {}"
    and h: "live = [] \<Longrightarrow> rc_held uni rc = {}"
    using acc by (simp_all add: accounted_def)
  show ?thesis using run d rc_held_empty [OF inv h] by blast
qed

definition demo_run_env :: "int list \<Rightarrow> (int \<Rightarrow> bool) \<Rightarrow> unit run_env" where
  "demo_run_env free ok =
     \<lparr>re_uni = id, re_tcp = \<lparr>probe = \<lambda>_. ok, iter = free, listen_ok = True, clock = 0\<rparr>, re_resolve = True, re_sids = [],
      re_realConn = \<lambda>_ _. ()\<rparr>"

definition demo_proxy :: "string \<Rightarrow> proxy_details \<Rightarrow> ProxyConfigurer" where
  "demo_proxy name d = \<lparr>pc_base = zero_base\<lparr>pb_Name := name\<rparr>, pc_details = d\<rparr>"

definition demo_options :: proxy_options where
  "demo_options = \<lparr>po_user = [], po_poolCount = 0, po_wireProtocol = ''v2'', po_udpPacketCodec = [], po_xtcpControlID = []\<rparr>"

definition demo_one :: "Util.PortsRange list" where
  "demo_one = [\<lparr>Start = 0, End = 0, Single = 20\<rparr>]"

definition demo_lifecycle :: "unit proxy_op list" where
  "demo_lifecycle =
     [StartProxy (demo_run_env [20] (\<lambda>k. k = 20)) (demo_proxy ''ssh'' (TCP_cfg \<lparr>tcp_RemotePort = 20\<rparr>)) demo_options,
      StartProxy (demo_run_env [] (\<lambda>_. False)) (demo_proxy ''ssh2'' (TCP_cfg \<lparr>tcp_RemotePort = 20\<rparr>)) demo_options,
      StopProxy (demo_run_env [] (\<lambda>_. False)) 0]"

lemma demo_allowed: "allowed demo_one = {20}" "freePorts (NewManager demo_one) = {20}"
  by (auto simp: allowed_def demo_one_def range_ports_def NewManager_def)

lemmas demo_simps =
  demo_lifecycle_def demo_run_env_def demo_proxy_def demo_options_def zero_base_def proxy_step_def Proxy_Run_def Proxy_Close_def
  TCP_Run_def TCP_Close_def Base_Close_def close_listener_def tcp_release_def NewServerProxy_def NewResourceController_def
  NewTCPGroupCtl_def px_group_def bind_port_def set_RemotePort_def Acquire_def acquire_port_def markPortAcquiredLocked_def
  start_env_def stop_env_def env_ok_def demo_allowed Let_def

lemma demo_lifecycle_env: "ops_env id demo_server demo_lifecycle (NewResourceController demo_one demo_one None, [])"
  by (simp add: demo_simps) (simp add: NewManager_def)

theorem no_resource_leak_witness:
  "\<exists>rc. proxy_run demo_server demo_lifecycle (NewResourceController demo_one demo_one None, []) = Some (rc, []) \<and>
     freePorts (res (rc_tcp rc)) = {20}"
proof -
  have "map_option snd (proxy_run demo_server demo_lifecycle (NewResourceController demo_one demo_one None, [])) = Some []"
    by (simp add: demo_simps)
  then show ?thesis
    using no_resource_leak [of demo_one demo_one None undefined undefined undefined id demo_server demo_lifecycle] demo_lifecycle_env
    by (auto simp: demo_allowed)
qed

text \<open>
  A UDP proxy that is closed again, as its forwarding goroutine does when the socket is gone, frees its old
  port even if another proxy has acquired it meanwhile.
\<close>

lemma udp_close_releases_again:
  assumes "px_isClosed p" and "usedPorts (rc_udp rc) (px_realBindPort p) = Some u"
  shows "\<exists>rc'. UDP_Close env rc p = Some (rc', p) \<and> usedPorts (rc_udp rc') (px_realBindPort p) = None \<and>
    px_realBindPort p \<in> freePorts (rc_udp rc')"
  using assms by (simp add: UDP_Close_def Release_def)

end
