(* ===== verification/ProxyTable.thy ===== *)
theory ProxyTable
  imports ServerProxy
begin

text \<open>
  How the controls of the server register and close proxies: \<open>RegisterProxy\<close>, \<open>CloseProxy\<close>, \<open>closeProxy\<close> and
  the end of \<open>worker\<close> in \<open>server/control.go\<close>, and the name table \<open>Manager\<close> in \<open>server/proxy/proxy.go\<close>. A control
  handles its messages one after the other, but controls run concurrently: between the steps of one, others
  may take any step. A step is the code up to the next point where no lock is held. Proxy objects are
  addresses in a heap. The set of running proxies and the set of dropped control identifiers are
  bookkeeping; nothing reads them.
\<close>

section \<open>The name table and the quota\<close>

definition Manager_Add :: "(string \<rightharpoonup> nat) \<Rightarrow> string \<Rightarrow> nat \<Rightarrow> (string \<rightharpoonup> nat) option" where
  "Manager_Add pxys name a = (if \<not> Option.is_none (pxys name) then None else Some (pxys(name \<mapsto> a)))"

definition Manager_Exist :: "(string \<rightharpoonup> nat) \<Rightarrow> string \<Rightarrow> bool" where
  "Manager_Exist pxys name \<longleftrightarrow> \<not> Option.is_none (pxys name)"

definition Manager_Del :: "(string \<rightharpoonup> nat) \<Rightarrow> string \<Rightarrow> (string \<rightharpoonup> nat)" where
  "Manager_Del pxys name = pxys(name := None)"

definition Manager_GetByName :: "(string \<rightharpoonup> nat) \<Rightarrow> string \<Rightarrow> nat option" where
  "Manager_GetByName pxys name = pxys name"

text \<open>
  Where a control is in \<open>RegisterProxy\<close> (with the proxy and the name of the message), or in closing
  proxies (with the proxies that are still to be closed, and the one whose name is still to be deleted).
\<close>

datatype reg_pc =
    RIdle
  | RQuota nat string
  | RExist nat string
  | RRan nat string
  | RAdded nat
  | RClosing "nat list"
  | RDel nat "nat list"

record ctl_state =
  ct_portsUsedNum :: int
  ct_proxies :: "string \<rightharpoonup> nat"
  ct_pc :: reg_pc
  ct_gone :: bool

record 'c table =
  tb_rc :: "'c ResourceController"
  tb_pxys :: "string \<rightharpoonup> nat"
  tb_objs :: "nat \<Rightarrow> 'c BaseProxy"
  tb_n :: nat
  tb_ctls :: "nat \<Rightarrow> ctl_state"
  tb_owner :: "nat \<Rightarrow> nat"
  tb_live :: "nat set"
  tb_dropped :: "bytes set"

definition set_ctl :: "nat \<Rightarrow> ctl_state \<Rightarrow> 'c table \<Rightarrow> 'c table" where
  "set_ctl i ct \<sigma> = \<sigma>\<lparr>tb_ctls := (tb_ctls \<sigma>)(i := ct)\<rparr>"

definition set_pc :: "nat \<Rightarrow> reg_pc \<Rightarrow> 'c table \<Rightarrow> 'c table" where
  "set_pc i pc \<sigma> = set_ctl i ((tb_ctls \<sigma> i)\<lparr>ct_pc := pc\<rparr>) \<sigma>"

definition take_quota :: "ServerConfig \<Rightarrow> ctl_state \<Rightarrow> 'c BaseProxy \<Rightarrow> ctl_state option" where
  "take_quota s ct p =
     (if MaxPortsPerClient s > 0
      then if ct_portsUsedNum ct + px_usedPortsNum p > MaxPortsPerClient s then None
           else Some (ct\<lparr>ct_portsUsedNum := ct_portsUsedNum ct + px_usedPortsNum p\<rparr>)
      else Some ct)"

definition return_quota :: "ServerConfig \<Rightarrow> ctl_state \<Rightarrow> 'c BaseProxy \<Rightarrow> ctl_state" where
  "return_quota s ct p =
     (if MaxPortsPerClient s > 0 then ct\<lparr>ct_portsUsedNum := ct_portsUsedNum ct - px_usedPortsNum p\<rparr> else ct)"

section \<open>Registering\<close>

text \<open>The deferred functions of \<open>RegisterProxy\<close> after an error.\<close>

definition reg_fail :: "ServerConfig \<Rightarrow> nat \<Rightarrow> nat \<Rightarrow> 'c table \<Rightarrow> 'c table" where
  "reg_fail s i a \<sigma> = set_ctl i ((return_quota s (tb_ctls \<sigma> i) (tb_objs \<sigma> a))\<lparr>ct_pc := RIdle\<rparr>) \<sigma>"

definition reg_begin :: "ServerConfig \<Rightarrow> proxy_options \<Rightarrow> cfg_env \<Rightarrow> NewProxy \<Rightarrow> nat \<Rightarrow> 'c table \<Rightarrow> 'c table" where
  "reg_begin s opt cenv m i \<sigma> =
     (case NewProxyConfigurerFromMsg cenv m s of
        Inl _ \<Rightarrow> \<sigma>
      | Inr cfg \<Rightarrow>
          let p = NewServerProxy cfg opt; a = tb_n \<sigma> in
          (case take_quota s (tb_ctls \<sigma> i) p of
             None \<Rightarrow> \<sigma>
           | Some ct \<Rightarrow>
               set_ctl i (ct\<lparr>ct_pc := RQuota a (np_ProxyName m)\<rparr>)
                 (\<sigma>\<lparr>tb_objs := (tb_objs \<sigma>)(a := p), tb_n := Suc a, tb_owner := (tb_owner \<sigma>)(a := i)\<rparr>)))"

definition reg_exist :: "ServerConfig \<Rightarrow> nat \<Rightarrow> nat \<Rightarrow> string \<Rightarrow> 'c table \<Rightarrow> 'c table" where
  "reg_exist s i a name \<sigma> =
     (if Manager_Exist (tb_pxys \<sigma>) name then reg_fail s i a \<sigma> else set_pc i (RExist a name) \<sigma>)"

definition reg_run :: "'c run_env \<Rightarrow> ServerConfig \<Rightarrow> nat \<Rightarrow> nat \<Rightarrow> string \<Rightarrow> 'c table \<Rightarrow> 'c table option" where
  "reg_run env s i a name \<sigma> =
     (case Proxy_Run env s (tb_rc \<sigma>) (tb_objs \<sigma> a) of
        None \<Rightarrow> None
      | Some (rc, p, Inl _) \<Rightarrow> Some (reg_fail s i a (\<sigma>\<lparr>tb_rc := rc, tb_objs := (tb_objs \<sigma>)(a := p)\<rparr>))
      | Some (rc, p, Inr _) \<Rightarrow>
          Some (set_pc i (RRan a name)
                  (\<sigma>\<lparr>tb_rc := rc, tb_objs := (tb_objs \<sigma>)(a := p), tb_live := insert a (tb_live \<sigma>)\<rparr>)))"

text \<open>Closing a proxy object.\<close>

definition close_obj :: "'c run_env \<Rightarrow> nat \<Rightarrow> 'c table \<Rightarrow> 'c table option" where
  "close_obj env a \<sigma> =
     map_option (\<lambda>(rc, p). \<sigma>\<lparr>tb_rc := rc, tb_objs := (tb_objs \<sigma>)(a := p), tb_live := tb_live \<sigma> - {a}\<rparr>)
       (Proxy_Close env (tb_rc \<sigma>) (tb_objs \<sigma> a))"

definition reg_add :: "'c run_env \<Rightarrow> ServerConfig \<Rightarrow> nat \<Rightarrow> nat \<Rightarrow> string \<Rightarrow> 'c table \<Rightarrow> 'c table option" where
  "reg_add env s i a name \<sigma> =
     (case Manager_Add (tb_pxys \<sigma>) name a of
        None \<Rightarrow> map_option (reg_fail s i a) (close_obj env a \<sigma>)
      | Some pxys \<Rightarrow> Some (set_pc i (RAdded a) (\<sigma>\<lparr>tb_pxys := pxys\<rparr>)))"

definition reg_record :: "nat \<Rightarrow> nat \<Rightarrow> 'c table \<Rightarrow> 'c table" where
  "reg_record i a \<sigma> =
     (let ct = tb_ctls \<sigma> i in
      set_ctl i (ct\<lparr>ct_proxies := (ct_proxies ct)(px_name (tb_objs \<sigma> a) \<mapsto> a), ct_pc := RIdle\<rparr>) \<sigma>)"

section \<open>Closing\<close>

definition close_begin :: "ServerConfig \<Rightarrow> string \<Rightarrow> nat \<Rightarrow> 'c table \<Rightarrow> 'c table" where
  "close_begin s name i \<sigma> =
     (let ct = tb_ctls \<sigma> i in
      case ct_proxies ct name of
        None \<Rightarrow> \<sigma>
      | Some a \<Rightarrow>
          set_ctl i ((return_quota s ct (tb_objs \<sigma> a))\<lparr>ct_proxies := (ct_proxies ct)(name := None), ct_pc := RClosing [a]\<rparr>) \<sigma>)"

text \<open>The end of \<open>worker\<close> takes all proxies, in the order of the iteration over the map.\<close>

definition teardown_begin :: "nat list \<Rightarrow> nat \<Rightarrow> 'c table \<Rightarrow> 'c table" where
  "teardown_begin order i \<sigma> =
     set_ctl i ((tb_ctls \<sigma> i)\<lparr>ct_proxies := Map.empty, ct_pc := RClosing order, ct_gone := True\<rparr>) \<sigma>"

definition close_one :: "'c run_env \<Rightarrow> nat \<Rightarrow> nat \<Rightarrow> nat list \<Rightarrow> 'c table \<Rightarrow> 'c table option" where
  "close_one env i a rest \<sigma> = map_option (set_pc i (RDel a rest)) (close_obj env a \<sigma>)"

definition close_del :: "nat \<Rightarrow> nat \<Rightarrow> nat list \<Rightarrow> 'c table \<Rightarrow> 'c table" where
  "close_del i a rest \<sigma> =
     set_pc i (if rest = [] then RIdle else RClosing rest)
       (\<sigma>\<lparr>tb_pxys := Manager_Del (tb_pxys \<sigma>) (px_name (tb_objs \<sigma> a))\<rparr>)"

text \<open>
  \<open>interruptReadAndClose\<close> drops what the rendezvous controller keeps for the control, before its proxies
  are closed.
\<close>

definition interrupt :: "string list \<Rightarrow> string list \<Rightarrow> proxy_options \<Rightarrow> 'c table \<Rightarrow> 'c table option" where
  "interrupt names sids opt \<sigma> =
     (case rc_nathole (tb_rc \<sigma>) of
        None \<Rightarrow> Some \<sigma>
      | Some c \<Rightarrow>
          map_option (\<lambda>c'. \<sigma>\<lparr>tb_rc := (tb_rc \<sigma>)\<lparr>rc_nathole := Some c'\<rparr>, tb_dropped := insert (po_xtcpControlID opt) (tb_dropped \<sigma>)\<rparr>)
            (CloseControl c names sids (po_xtcpControlID opt)))"

definition join_control :: "proxy_options \<Rightarrow> 'c table \<Rightarrow> 'c table" where
  "join_control opt \<sigma> =
     \<sigma>\<lparr>tb_rc := (tb_rc \<sigma>)\<lparr>rc_nathole := map_option (\<lambda>c. fst (RegisterControl c (po_xtcpControlID opt))) (rc_nathole (tb_rc \<sigma>))\<rparr>\<rparr>"

section \<open>Interleavings\<close>

datatype 'c ctl_ev =
    EvJoin
  | EvNewProxy cfg_env NewProxy
  | EvNext "'c run_env"
  | EvCloseProxy string
  | EvTeardown "nat list"
  | EvInterrupt "string list" "string list"

definition ctl_next :: "'c run_env \<Rightarrow> ServerConfig \<Rightarrow> nat \<Rightarrow> 'c table \<Rightarrow> 'c table option" where
  "ctl_next env s i \<sigma> =
     (case ct_pc (tb_ctls \<sigma> i) of
        RIdle \<Rightarrow> Some \<sigma>
      | RQuota a name \<Rightarrow> Some (reg_exist s i a name \<sigma>)
      | RExist a name \<Rightarrow> reg_run env s i a name \<sigma>
      | RRan a name \<Rightarrow> reg_add env s i a name \<sigma>
      | RAdded a \<Rightarrow> Some (reg_record i a \<sigma>)
      | RClosing [] \<Rightarrow> Some (set_pc i RIdle \<sigma>)
      | RClosing (a # rest) \<Rightarrow> close_one env i a rest \<sigma>
      | RDel a rest \<Rightarrow> Some (close_del i a rest \<sigma>))"

text \<open>An event that is not possible where the control stands changes nothing.\<close>

definition ctl_step :: "ServerConfig \<Rightarrow> (nat \<Rightarrow> proxy_options) \<Rightarrow> 'c table \<Rightarrow> nat \<times> 'c ctl_ev \<Rightarrow> 'c table option" where
  "ctl_step s opts \<sigma> e =
     (case e of (i, ev) \<Rightarrow>
        let ready = ct_pc (tb_ctls \<sigma> i) = RIdle \<and> \<not> ct_gone (tb_ctls \<sigma> i) in
        (case ev of
           EvJoin \<Rightarrow> Some (join_control (opts i) \<sigma>)
         | EvNewProxy cenv m \<Rightarrow> Some (if ready then reg_begin s (opts i) cenv m i \<sigma> else \<sigma>)
         | EvNext env \<Rightarrow> ctl_next env s i \<sigma>
         | EvCloseProxy name \<Rightarrow> Some (if ready then close_begin s name i \<sigma> else \<sigma>)
         | EvTeardown order \<Rightarrow> Some (if ready then teardown_begin order i \<sigma> else \<sigma>)
         | EvInterrupt names sids \<Rightarrow> interrupt names sids (opts i) \<sigma>))"

fun table_run :: "ServerConfig \<Rightarrow> (nat \<Rightarrow> proxy_options) \<Rightarrow> (nat \<times> 'c ctl_ev) list \<Rightarrow> 'c table \<Rightarrow> 'c table option" where
  "table_run s opts [] \<sigma> = Some \<sigma>"
| "table_run s opts (e # es) \<sigma> = Option.bind (ctl_step s opts \<sigma> e) (table_run s opts es)"

definition new_table :: "'c ResourceController \<Rightarrow> (nat \<Rightarrow> 'c BaseProxy) \<Rightarrow> 'c table" where
  "new_table rc objs =
     \<lparr>tb_rc = rc, tb_pxys = Map.empty, tb_objs = objs, tb_n = 0,
      tb_ctls = (\<lambda>_. \<lparr>ct_portsUsedNum = 0, ct_proxies = Map.empty, ct_pc = RIdle, ct_gone = False\<rparr>),
      tb_owner = (\<lambda>_. 0), tb_live = {}, tb_dropped = {}\<rparr>"

text \<open>
  What the environment has to do: sound probes and iteration orders as in \<open>ServerProxy\<close>, the iteration over a
  control's proxies lists them, and a control identifier is not used again after its control was dropped.
\<close>

definition ev_env :: "(string \<Rightarrow> string) \<Rightarrow> (nat \<Rightarrow> proxy_options) \<Rightarrow> 'c table \<Rightarrow> nat \<times> 'c ctl_ev \<Rightarrow> bool" where
  "ev_env uni opts \<sigma> e \<longleftrightarrow>
     (case e of (i, ev) \<Rightarrow>
        (case ev of
           EvJoin \<Rightarrow> po_xtcpControlID (opts i) \<notin> tb_dropped \<sigma>
         | EvNewProxy _ _ \<Rightarrow> True
         | EvNext env \<Rightarrow>
             re_uni env = uni \<and> stop_env env (tb_rc \<sigma>) \<and>
             (case ct_pc (tb_ctls \<sigma> i) of
                RExist a _ \<Rightarrow> start_env env (px_configurer (tb_objs \<sigma> a)) (tb_rc \<sigma>)
              | _ \<Rightarrow> True)
         | EvCloseProxy _ \<Rightarrow> True
         | EvTeardown order \<Rightarrow> distinct order \<and> set order = ran (ct_proxies (tb_ctls \<sigma> i))
         | EvInterrupt names sids \<Rightarrow>
             (\<forall>c. rc_nathole (tb_rc \<sigma>) = Some c \<longrightarrow> iter_order (clientCfgs c) names \<and> iter_order (sessions c) sids)))"

fun evs_env :: "(string \<Rightarrow> string) \<Rightarrow> ServerConfig \<Rightarrow> (nat \<Rightarrow> proxy_options) \<Rightarrow> (nat \<times> 'c ctl_ev) list \<Rightarrow> 'c table \<Rightarrow> bool" where
  "evs_env uni s opts [] \<sigma> \<longleftrightarrow> True"
| "evs_env uni s opts (e # es) \<sigma> \<longleftrightarrow>
     ev_env uni opts \<sigma> e \<and> (case ctl_step s opts \<sigma> e of None \<Rightarrow> True | Some \<sigma>' \<Rightarrow> evs_env uni s opts es \<sigma>')"

section \<open>Pointers\<close>

fun pc_ptrs :: "reg_pc \<Rightarrow> nat set" where
  "pc_ptrs RIdle = {}"
| "pc_ptrs (RQuota a _) = {a}"
| "pc_ptrs (RExist a _) = {a}"
| "pc_ptrs (RRan a _) = {a}"
| "pc_ptrs (RAdded a) = {a}"
| "pc_ptrs (RClosing as) = set as"
| "pc_ptrs (RDel a as) = insert a (set as)"

text \<open>Those that run, those that are in the name table, and those whose ports count for the registration.\<close>

fun pc_live :: "reg_pc \<Rightarrow> nat set" where
  "pc_live (RRan a _) = {a}"
| "pc_live (RAdded a) = {a}"
| "pc_live (RClosing as) = set as"
| "pc_live (RDel a as) = set as"
| "pc_live _ = {}"

fun pc_reg :: "reg_pc \<Rightarrow> nat set" where
  "pc_reg (RAdded a) = {a}"
| "pc_reg (RClosing as) = set as"
| "pc_reg (RDel a as) = insert a (set as)"
| "pc_reg _ = {}"

fun pc_used :: "reg_pc \<Rightarrow> nat set" where
  "pc_used (RQuota a _) = {a}"
| "pc_used (RExist a _) = {a}"
| "pc_used (RRan a _) = {a}"
| "pc_used (RAdded a) = {a}"
| "pc_used _ = {}"

fun pc_ok :: "(nat \<Rightarrow> 'c BaseProxy) \<Rightarrow> reg_pc \<Rightarrow> bool" where
  "pc_ok objs (RQuota a n) \<longleftrightarrow> px_name (objs a) = n \<and> (\<exists>cfg opt. objs a = NewServerProxy cfg opt)"
| "pc_ok objs (RExist a n) \<longleftrightarrow> px_name (objs a) = n \<and> (\<exists>cfg opt. objs a = NewServerProxy cfg opt)"
| "pc_ok objs (RRan a n) \<longleftrightarrow> px_name (objs a) = n"
| "pc_ok objs (RClosing as) \<longleftrightarrow> distinct as"
| "pc_ok objs (RDel a as) \<longleftrightarrow> distinct (a # as)"
| "pc_ok objs _ \<longleftrightarrow> True"

definition ctl_ptrs :: "ctl_state \<Rightarrow> nat set" where
  "ctl_ptrs ct = ran (ct_proxies ct) \<union> pc_ptrs (ct_pc ct)"

definition ctl_live :: "ctl_state \<Rightarrow> nat set" where
  "ctl_live ct = ran (ct_proxies ct) \<union> pc_live (ct_pc ct)"

definition ctl_reg :: "ctl_state \<Rightarrow> nat set" where
  "ctl_reg ct = ran (ct_proxies ct) \<union> pc_reg (ct_pc ct)"

definition ctl_ok :: "nat \<Rightarrow> (nat \<Rightarrow> nat) \<Rightarrow> (nat \<Rightarrow> 'c BaseProxy) \<Rightarrow> (string \<rightharpoonup> nat) \<Rightarrow> nat \<Rightarrow> ctl_state \<Rightarrow> bool" where
  "ctl_ok n owner objs pxys i ct \<longleftrightarrow>
     (\<forall>a \<in> ctl_ptrs ct. a < n \<and> owner a = i) \<and> ran (ct_proxies ct) \<inter> pc_ptrs (ct_pc ct) = {} \<and> pc_ok objs (ct_pc ct) \<and>
     (\<forall>name a. ct_proxies ct name = Some a \<longrightarrow> px_name (objs a) = name) \<and>
     (\<forall>a \<in> ctl_reg ct. pxys (px_name (objs a)) = Some a)"

definition ptr_inv :: "'c table \<Rightarrow> bool" where
  "ptr_inv \<sigma> \<longleftrightarrow>
     (\<forall>i. ctl_ok (tb_n \<sigma>) (tb_owner \<sigma>) (tb_objs \<sigma>) (tb_pxys \<sigma>) i (tb_ctls \<sigma> i)) \<and>
     (\<forall>name a. tb_pxys \<sigma> name = Some a \<longrightarrow> a \<in> ctl_reg (tb_ctls \<sigma> (tb_owner \<sigma> a)) \<and> px_name (tb_objs \<sigma> a) = name) \<and>
     tb_live \<sigma> = (\<Union>i. ctl_live (tb_ctls \<sigma> i))"

lemma ptr_invD:
  assumes "ptr_inv \<sigma>"
  shows "ctl_ok (tb_n \<sigma>) (tb_owner \<sigma>) (tb_objs \<sigma>) (tb_pxys \<sigma>) i (tb_ctls \<sigma> i)"
    and "tb_pxys \<sigma> name = Some a \<Longrightarrow> a \<in> ctl_reg (tb_ctls \<sigma> (tb_owner \<sigma> a)) \<and> px_name (tb_objs \<sigma> a) = name"
    and "tb_live \<sigma> = (\<Union>i. ctl_live (tb_ctls \<sigma> i))"
  using assms unfolding ptr_inv_def by blast+

lemma ctl_okD:
  assumes "ctl_ok n owner objs pxys i ct"
  shows "a \<in> ctl_ptrs ct \<Longrightarrow> a < n \<and> owner a = i" and "ran (ct_proxies ct) \<inter> pc_ptrs (ct_pc ct) = {}" and "pc_ok objs (ct_pc ct)"
    and "ct_proxies ct name = Some a \<Longrightarrow> px_name (objs a) = name" and "a \<in> ctl_reg ct \<Longrightarrow> pxys (px_name (objs a)) = Some a"
  using assms unfolding ctl_ok_def by blast+

lemma pc_subsets: "pc_live pc \<subseteq> pc_ptrs pc" "pc_reg pc \<subseteq> pc_ptrs pc" "pc_used pc \<subseteq> pc_ptrs pc"
  by (cases pc; auto)+

lemma ctl_subsets: "ctl_live ct \<subseteq> ctl_ptrs ct" "ctl_reg ct \<subseteq> ctl_ptrs ct"
  using pc_subsets by (auto simp: ctl_live_def ctl_ptrs_def ctl_reg_def)

text \<open>A pointer belongs to one control.\<close>

lemma ptr_unique: "ptr_inv \<sigma> \<Longrightarrow> a \<in> ctl_ptrs (tb_ctls \<sigma> i) \<Longrightarrow> a \<in> ctl_ptrs (tb_ctls \<sigma> j) \<Longrightarrow> i = j"
  using ctl_okD(1) [OF ptr_invD(1)] by metis

text \<open>
  What a step of control \<open>i\<close> does to pointers: it replaces its own state and its own objects, and the table
  changes only at names of its own.
\<close>

lemma ptr_inv_step:
  assumes inv: "ptr_inv \<sigma>"
    and ctls: "tb_ctls \<sigma>' = (tb_ctls \<sigma>)(i := ct)"
    and ok: "ctl_ok (tb_n \<sigma>') (tb_owner \<sigma>') (tb_objs \<sigma>') (tb_pxys \<sigma>') i ct"
    and n: "tb_n \<sigma> \<le> tb_n \<sigma>'" and owner: "\<And>a. a < tb_n \<sigma> \<Longrightarrow> tb_owner \<sigma>' a = tb_owner \<sigma> a"
    and objs: "\<And>a. a < tb_n \<sigma> \<Longrightarrow> tb_owner \<sigma> a \<noteq> i \<Longrightarrow> tb_objs \<sigma>' a = tb_objs \<sigma> a"
    and others: "\<And>name a. tb_owner \<sigma>' a \<noteq> i \<Longrightarrow> tb_pxys \<sigma>' name = Some a \<longleftrightarrow> tb_pxys \<sigma> name = Some a"
    and mine: "\<And>name a. tb_pxys \<sigma>' name = Some a \<Longrightarrow> tb_owner \<sigma>' a = i \<Longrightarrow> a \<in> ctl_reg ct \<and> px_name (tb_objs \<sigma>' a) = name"
    and live: "tb_live \<sigma>' = tb_live \<sigma> - ctl_live (tb_ctls \<sigma> i) \<union> ctl_live ct"
  shows "ptr_inv \<sigma>'"
  unfolding ptr_inv_def
proof (intro conjI allI impI)
  have oth: "a < tb_n \<sigma> \<and> tb_owner \<sigma> a = j \<and> tb_owner \<sigma>' a = j \<and> tb_objs \<sigma>' a = tb_objs \<sigma> a"
    if "a \<in> ctl_ptrs (tb_ctls \<sigma> j)" "j \<noteq> i" for a j
    using ctl_okD(1) [OF ptr_invD(1) [OF inv] that(1)] owner objs that(2) by auto
  fix j
  show "ctl_ok (tb_n \<sigma>') (tb_owner \<sigma>') (tb_objs \<sigma>') (tb_pxys \<sigma>') j (tb_ctls \<sigma>' j)"
  proof (cases "j = i")
    case False
    note d = ctl_okD [OF ptr_invD(1) [OF inv, of j]]
    have "pc_ok (tb_objs \<sigma>') (ct_pc (tb_ctls \<sigma> j))"
      using d(3) oth [OF _ False] by (cases "ct_pc (tb_ctls \<sigma> j)") (auto simp: ctl_ptrs_def)
    moreover have "px_name (tb_objs \<sigma>' a) = name" if "ct_proxies (tb_ctls \<sigma> j) name = Some a" for name a
    proof -
      have "a \<in> ctl_ptrs (tb_ctls \<sigma> j)" using that by (auto simp: ctl_ptrs_def ran_def)
      with d(4) [OF that] oth [OF _ False, of a] show ?thesis by simp
    qed
    moreover have "tb_pxys \<sigma>' (px_name (tb_objs \<sigma>' a)) = Some a" if "a \<in> ctl_reg (tb_ctls \<sigma> j)" for a
    proof -
      have "a \<in> ctl_ptrs (tb_ctls \<sigma> j)" using that ctl_subsets(2) by blast
      with d(5) [OF that] oth [OF _ False, of a] others [of a] False show ?thesis by simp
    qed
    moreover have "a < tb_n \<sigma>' \<and> tb_owner \<sigma>' a = j" if "a \<in> ctl_ptrs (tb_ctls \<sigma> j)" for a
      using oth [OF that False] n by simp
    ultimately show ?thesis
      using False d(2) unfolding ctl_ok_def ctls by simp
  qed (use ok ctls in simp)
  fix name a
  assume p: "tb_pxys \<sigma>' name = Some a"
  show "a \<in> ctl_reg (tb_ctls \<sigma>' (tb_owner \<sigma>' a))" "px_name (tb_objs \<sigma>' a) = name"
  proof -
    have "a \<in> ctl_reg (tb_ctls \<sigma>' (tb_owner \<sigma>' a)) \<and> px_name (tb_objs \<sigma>' a) = name"
    proof (cases "tb_owner \<sigma>' a = i")
      case False
      with others p have q: "tb_pxys \<sigma> name = Some a" by simp
      note r = ptr_invD(2) [OF inv q]
      then have "a \<in> ctl_ptrs (tb_ctls \<sigma> (tb_owner \<sigma> a))" using ctl_subsets by blast
      then have lt: "a < tb_n \<sigma>" using ctl_okD(1) [OF ptr_invD(1) [OF inv]] by blast
      with False r owner objs show ?thesis by (simp add: ctls)
    qed (use mine p ctls in simp)
    then show "a \<in> ctl_reg (tb_ctls \<sigma>' (tb_owner \<sigma>' a))" "px_name (tb_objs \<sigma>' a) = name" by simp_all
  qed
next
  have "a \<notin> ctl_live (tb_ctls \<sigma> j)" if "j \<noteq> i" "a \<in> ctl_live (tb_ctls \<sigma> i)" for a j
    using ptr_unique [OF inv] ctl_subsets(1) that by blast
  then show "tb_live \<sigma>' = (\<Union>j. ctl_live (tb_ctls \<sigma>' j))"
    unfolding live ptr_invD(3) [OF inv] ctls by (auto split: if_splits)
qed

lemma set_ctl_simps [simp]:
  "tb_rc (set_ctl i ct \<sigma>) = tb_rc \<sigma>" "tb_pxys (set_ctl i ct \<sigma>) = tb_pxys \<sigma>" "tb_objs (set_ctl i ct \<sigma>) = tb_objs \<sigma>"
  "tb_n (set_ctl i ct \<sigma>) = tb_n \<sigma>" "tb_owner (set_ctl i ct \<sigma>) = tb_owner \<sigma>" "tb_live (set_ctl i ct \<sigma>) = tb_live \<sigma>"
  "tb_dropped (set_ctl i ct \<sigma>) = tb_dropped \<sigma>" "tb_ctls (set_ctl i ct \<sigma>) = (tb_ctls \<sigma>)(i := ct)"
  by (simp_all add: set_ctl_def)

lemma return_quota_simps [simp]:
  "ct_proxies (return_quota s ct p) = ct_proxies ct" "ct_pc (return_quota s ct p) = ct_pc ct" "ct_gone (return_quota s ct p) = ct_gone ct"
  by (simp_all add: return_quota_def)

text \<open>A step that only moves the program counter or the quota.\<close>

lemma ptr_inv_ctl:
  assumes "ptr_inv \<sigma>" and "ctl_ok (tb_n \<sigma>) (tb_owner \<sigma>) (tb_objs \<sigma>) (tb_pxys \<sigma>) i ct"
    and "ctl_reg ct = ctl_reg (tb_ctls \<sigma> i)" and "ctl_live ct = ctl_live (tb_ctls \<sigma> i)"
  shows "ptr_inv (set_ctl i ct \<sigma>)"
proof (rule ptr_inv_step [OF assms(1), where i = i and ct = ct])
  show "a \<in> ctl_reg ct \<and> px_name (tb_objs (set_ctl i ct \<sigma>) a) = name"
    if "tb_pxys (set_ctl i ct \<sigma>) name = Some a" "tb_owner (set_ctl i ct \<sigma>) a = i" for name a
    using that ptr_invD(2) [OF assms(1), of name a] assms(3) by simp
  show "tb_live (set_ctl i ct \<sigma>) = tb_live \<sigma> - ctl_live (tb_ctls \<sigma> i) \<union> ctl_live ct"
    using ptr_invD(3) [OF assms(1)] assms(4) by auto
qed (use assms(2) in simp_all)

lemma ctl_ok_pc:
  assumes "ctl_ok n owner objs pxys i ct" and "ct_proxies ct' = ct_proxies ct" and "pc_ptrs (ct_pc ct') \<subseteq> pc_ptrs (ct_pc ct)"
    and "pc_reg (ct_pc ct') \<subseteq> pc_reg (ct_pc ct)" and "pc_ok objs (ct_pc ct')"
  shows "ctl_ok n owner objs pxys i ct'"
  using assms unfolding ctl_ok_def ctl_ptrs_def ctl_reg_def by (simp add: subset_iff disjoint_iff) blast

lemma reg_begin_ptr:
  assumes inv: "ptr_inv \<sigma>" and pc: "ct_pc (tb_ctls \<sigma> i) = RIdle"
  shows "ptr_inv (reg_begin s opt cenv m i \<sigma>)"
proof -
  let ?a = "tb_n \<sigma>"
  have "ptr_inv (set_ctl i (ct\<lparr>ct_pc := RQuota ?a (np_ProxyName m)\<rparr>)
      (\<sigma>\<lparr>tb_objs := (tb_objs \<sigma>)(?a := NewServerProxy cfg opt), tb_n := Suc ?a, tb_owner := (tb_owner \<sigma>)(?a := i)\<rparr>))"
    if q: "take_quota s (tb_ctls \<sigma> i) (NewServerProxy cfg opt :: 'a BaseProxy) = Some ct" and c: "NewProxyConfigurerFromMsg cenv m s = Inr cfg" for cfg ct
  proof -
    have p: "ct_proxies ct = ct_proxies (tb_ctls \<sigma> i)" using q by (auto simp: take_quota_def split: if_splits)
    have nm: "px_name (NewServerProxy cfg opt :: 'a BaseProxy) = np_ProxyName m"
      using c by (auto simp: NewProxyConfigurerFromMsg_def NewServerProxy_def Complete_def base_Complete_def UnmarshalFromMsg_def
          base_UnmarshalFromMsg_def Let_def split: option.splits)
    note d = ctl_okD [OF ptr_invD(1) [OF inv, of i]]
    have old: "b < ?a \<and> tb_owner \<sigma> b = i" if "b \<in> ran (ct_proxies (tb_ctls \<sigma> i))" for b using d(1) that by (simp add: ctl_ptrs_def)
    have reg: "b < ?a" if "tb_pxys \<sigma> name = Some b" for name b
      using ptr_invD(2) [OF inv that] ctl_subsets(2) ctl_okD(1) [OF ptr_invD(1) [OF inv]] by blast
    have nin: "?a \<notin> ran (ct_proxies (tb_ctls \<sigma> i))" using old by auto
    show ?thesis
    proof (rule ptr_inv_step [OF inv, where i = i and ct = "ct\<lparr>ct_pc := RQuota ?a (np_ProxyName m)\<rparr>"], goal_cases)
      case 2
      have "px_name (((tb_objs \<sigma>)(?a := NewServerProxy cfg opt)) b) = name" if "ct_proxies (tb_ctls \<sigma> i) name = Some b" for name b
        using d(4) [OF that] nin that by (auto simp: ran_def)
      moreover have "tb_pxys \<sigma> (px_name (((tb_objs \<sigma>)(?a := NewServerProxy cfg opt)) b)) = Some b"
        if "b \<in> ran (ct_proxies (tb_ctls \<sigma> i))" for b
        using d(5) [of b] nin that by (auto simp: ctl_reg_def)
      ultimately show ?case
        using old nin nm by (auto simp: ctl_ok_def ctl_ptrs_def ctl_reg_def p less_Suc_eq)
    next
      case (7 name b)
      then show ?case using ptr_invD(2) [OF inv, of name b] reg [of name b] pc by (auto simp: ctl_reg_def p split: if_splits)
    next
      case 8
      then show ?case using ptr_invD(3) [OF inv] pc by (auto simp: ctl_live_def p)
    qed (use reg in \<open>auto dest: reg\<close>)
  qed
  then show ?thesis
    using inv by (auto simp: reg_begin_def Let_def split: sum.split option.split)
qed

lemma reg_fail_ptr:
  assumes inv: "ptr_inv \<sigma>" and pc: "pc_live (ct_pc (tb_ctls \<sigma> i)) = {}" "pc_reg (ct_pc (tb_ctls \<sigma> i)) = {}"
  shows "ptr_inv (reg_fail s i a \<sigma>)"
  unfolding reg_fail_def
  by (rule ptr_inv_ctl [OF inv ctl_ok_pc [OF ptr_invD(1) [OF inv]]]) (use pc in \<open>simp_all add: ctl_reg_def ctl_live_def\<close>)

lemma reg_exist_ptr:
  assumes inv: "ptr_inv \<sigma>" and pc: "ct_pc (tb_ctls \<sigma> i) = RQuota a name"
  shows "ptr_inv (reg_exist s i a name \<sigma>)"
proof -
  have "ptr_inv (set_pc i (RExist a name) \<sigma>)"
    unfolding set_pc_def
    by (rule ptr_inv_ctl [OF inv ctl_ok_pc [OF ptr_invD(1) [OF inv]]])
      (use pc ctl_okD(3) [OF ptr_invD(1) [OF inv, of i]] in \<open>simp_all add: ctl_reg_def ctl_live_def\<close>)
  with reg_fail_ptr [OF inv] pc show ?thesis by (simp add: reg_exist_def)
qed

text \<open>Running or closing an object of the control.\<close>

lemma obj_ptr:
  assumes inv: "ptr_inv \<sigma>" and a: "a \<in> pc_ptrs (ct_pc (tb_ctls \<sigma> i))" and same: "same_proxy (tb_objs \<sigma> a) p"
    and ct: "ct_proxies ct = ct_proxies (tb_ctls \<sigma> i)" "pc_ptrs (ct_pc ct) \<subseteq> pc_ptrs (ct_pc (tb_ctls \<sigma> i))"
      "pc_reg (ct_pc ct) = pc_reg (ct_pc (tb_ctls \<sigma> i))" "pc_ok ((tb_objs \<sigma>)(a := p)) (ct_pc ct)"
    and live: "L = tb_live \<sigma> - pc_live (ct_pc (tb_ctls \<sigma> i)) \<union> pc_live (ct_pc ct)"
  shows "ptr_inv (set_ctl i ct (\<sigma>\<lparr>tb_rc := rc, tb_objs := (tb_objs \<sigma>)(a := p), tb_live := L\<rparr>))"
proof -
  note d = ctl_okD [OF ptr_invD(1) [OF inv, of i]]
  have own: "tb_owner \<sigma> a = i" using d(1) a by (simp add: ctl_ptrs_def)
  have nm: "px_name (((tb_objs \<sigma>)(a := p)) b) = px_name (tb_objs \<sigma> b)" for b using same by (simp add: same_proxy_def)
  have dis: "ran (ct_proxies (tb_ctls \<sigma> i)) \<inter> pc_live (ct_pc (tb_ctls \<sigma> i)) = {}" using d(2) pc_subsets(1) by blast
  show ?thesis
  proof (rule ptr_inv_step [OF inv, where i = i and ct = ct], goal_cases)
    case 2
    show ?case
      using ct d(1,2,4,5) by (auto simp: ctl_ok_def ctl_ptrs_def ctl_reg_def nm simp del: fun_upd_apply)
  next
    case (7 name b)
    with ptr_invD(2) [OF inv, of name b] show ?case by (simp add: ctl_reg_def ct(1,3) nm del: fun_upd_apply)
  next
    case 8
    show ?case using dis ptr_invD(3) [OF inv] by (auto simp: ctl_live_def ct(1) live)
  qed (use own in auto)
qed

lemma live_split:
  assumes "ptr_inv \<sigma>"
  shows "ctl_live (tb_ctls \<sigma> i) \<subseteq> tb_live \<sigma>" "pc_live (ct_pc (tb_ctls \<sigma> i)) \<subseteq> tb_live \<sigma>"
  using ptr_invD(3) [OF assms] by (auto simp: ctl_live_def)

lemma reg_add_ptr:
  assumes inv: "ptr_inv \<sigma>" and pc: "ct_pc (tb_ctls \<sigma> i) = RRan a name" and add: "Manager_Add (tb_pxys \<sigma>) name a = Some pxys"
  shows "ptr_inv (set_pc i (RAdded a) (\<sigma>\<lparr>tb_pxys := pxys\<rparr>))"
proof -
  note d = ctl_okD [OF ptr_invD(1) [OF inv, of i]]
  have own: "tb_owner \<sigma> a = i" "a < tb_n \<sigma>" and nm: "px_name (tb_objs \<sigma> a) = name" using d(1,3) pc by (simp_all add: ctl_ptrs_def)
  have fr: "tb_pxys \<sigma> name = None" and p: "pxys = (tb_pxys \<sigma>)(name \<mapsto> a)"
    using add by (auto simp: Manager_Add_def Option.is_none_def split: if_splits)
  let ?ct = "(tb_ctls \<sigma> i)\<lparr>ct_pc := RAdded a\<rparr>"
  have reg: "ctl_reg ?ct = insert a (ctl_reg (tb_ctls \<sigma> i))" using pc by (simp add: ctl_reg_def)
  have e: "tb_pxys \<sigma> (px_name (tb_objs \<sigma> b)) = Some b" "px_name (tb_objs \<sigma> b) \<noteq> name" if "b \<in> ran (ct_proxies (tb_ctls \<sigma> i))" for b
    using d(5) [of b] that fr by (auto simp: ctl_reg_def)
  show ?thesis
    unfolding set_pc_def
  proof (rule ptr_inv_step [OF inv, where i = i and ct = ?ct], goal_cases)
    case 2
    show ?case
      using d(1,2,4) own pc nm e by (auto simp: ctl_ok_def ctl_ptrs_def ctl_reg_def p)
  next
    case (7 n b)
    then show ?case using ptr_invD(2) [OF inv, of n b] nm by (auto simp: reg p split: if_splits)
  next
    case 8
    show ?case using live_split [OF inv, of i] pc by (auto simp: ctl_live_def)
  qed (use own fr p in \<open>auto split: if_splits\<close>)
qed

lemma reg_record_ptr:
  assumes inv: "ptr_inv \<sigma>" and pc: "ct_pc (tb_ctls \<sigma> i) = RAdded a"
  shows "ptr_inv (reg_record i a \<sigma>)"
proof -
  note d = ctl_okD [OF ptr_invD(1) [OF inv, of i]]
  let ?n = "px_name (tb_objs \<sigma> a)"
  have a: "a < tb_n \<sigma>" "tb_owner \<sigma> a = i" "tb_pxys \<sigma> ?n = Some a" using d(1,5) pc by (simp_all add: ctl_ptrs_def ctl_reg_def)
  have "ct_proxies (tb_ctls \<sigma> i) ?n = None"
  proof (rule ccontr)
    assume "ct_proxies (tb_ctls \<sigma> i) ?n \<noteq> None"
    then obtain b where b: "ct_proxies (tb_ctls \<sigma> i) ?n = Some b" by auto
    then have r: "b \<in> ran (ct_proxies (tb_ctls \<sigma> i))" by (auto simp: ran_def)
    then have "b \<in> ctl_reg (tb_ctls \<sigma> i)" by (simp add: ctl_reg_def)
    note e = d(5) [OF this]
    have "b = a" using e unfolding d(4) [OF b] a(3) by simp
    with r d(2) pc show False by simp
  qed
  then have r: "ran ((ct_proxies (tb_ctls \<sigma> i))(?n \<mapsto> a)) = insert a (ran (ct_proxies (tb_ctls \<sigma> i)))" by (rule ran_map_upd)
  let ?ct = "(tb_ctls \<sigma> i)\<lparr>ct_proxies := (ct_proxies (tb_ctls \<sigma> i))(?n \<mapsto> a), ct_pc := RIdle\<rparr>"
  have s: "ctl_ptrs ?ct = ctl_ptrs (tb_ctls \<sigma> i)" "ctl_reg ?ct = ctl_reg (tb_ctls \<sigma> i)" "ctl_live ?ct = ctl_live (tb_ctls \<sigma> i)"
    using pc r by (simp_all add: ctl_ptrs_def ctl_reg_def ctl_live_def)
  have "ctl_ok (tb_n \<sigma>) (tb_owner \<sigma>) (tb_objs \<sigma>) (tb_pxys \<sigma>) i ?ct"
    unfolding ctl_ok_def s using d(1,4,5) by simp
  then show ?thesis
    unfolding reg_record_def Let_def by (rule ptr_inv_ctl [OF inv _ s(2,3)])
qed

lemma close_begin_ptr:
  assumes inv: "ptr_inv \<sigma>" and pc: "ct_pc (tb_ctls \<sigma> i) = RIdle"
  shows "ptr_inv (close_begin s name i \<sigma>)"
proof (cases "ct_proxies (tb_ctls \<sigma> i) name")
  case (Some a)
  note d = ctl_okD [OF ptr_invD(1) [OF inv, of i]]
  let ?ct = "(return_quota s (tb_ctls \<sigma> i) (tb_objs \<sigma> a))\<lparr>ct_proxies := (ct_proxies (tb_ctls \<sigma> i))(name := None), ct_pc := RClosing [a]\<rparr>"
  have "a = b \<longleftrightarrow> n = name" if "ct_proxies (tb_ctls \<sigma> i) n = Some b" for n b
  proof
    show "n = name" if "a = b" using d(4) [OF \<open>ct_proxies (tb_ctls \<sigma> i) n = Some b\<close>] d(4) [OF Some] that by simp
    show "a = b" if "n = name" using \<open>ct_proxies (tb_ctls \<sigma> i) n = Some b\<close> Some that by simp
  qed
  then have r: "ran ((ct_proxies (tb_ctls \<sigma> i))(name := None)) = ran (ct_proxies (tb_ctls \<sigma> i)) - {a}"
    by (auto simp: ran_def split: if_splits)
  have a: "a \<in> ran (ct_proxies (tb_ctls \<sigma> i))" using Some by (auto simp: ran_def)
  have s: "ctl_ptrs ?ct = ctl_ptrs (tb_ctls \<sigma> i)" "ctl_reg ?ct = ctl_reg (tb_ctls \<sigma> i)" "ctl_live ?ct = ctl_live (tb_ctls \<sigma> i)"
    using pc r a by (auto simp: ctl_ptrs_def ctl_reg_def ctl_live_def)
  have "ctl_ok (tb_n \<sigma>) (tb_owner \<sigma>) (tb_objs \<sigma>) (tb_pxys \<sigma>) i ?ct"
    unfolding ctl_ok_def s using d(1,4,5) r by simp
  then show ?thesis
    using Some ptr_inv_ctl [OF inv _ s(2,3)] by (simp add: close_begin_def Let_def)
qed (use inv in \<open>simp add: close_begin_def Let_def\<close>)

lemma teardown_begin_ptr:
  assumes inv: "ptr_inv \<sigma>" and pc: "ct_pc (tb_ctls \<sigma> i) = RIdle" and o: "distinct order" "set order = ran (ct_proxies (tb_ctls \<sigma> i))"
  shows "ptr_inv (teardown_begin order i \<sigma>)"
proof -
  note d = ctl_okD [OF ptr_invD(1) [OF inv, of i]]
  let ?ct = "(tb_ctls \<sigma> i)\<lparr>ct_proxies := Map.empty, ct_pc := RClosing order, ct_gone := True\<rparr>"
  have s: "ctl_ptrs ?ct = ctl_ptrs (tb_ctls \<sigma> i)" "ctl_reg ?ct = ctl_reg (tb_ctls \<sigma> i)" "ctl_live ?ct = ctl_live (tb_ctls \<sigma> i)"
    using pc o(2) by (simp_all add: ctl_ptrs_def ctl_reg_def ctl_live_def)
  have "ctl_ok (tb_n \<sigma>) (tb_owner \<sigma>) (tb_objs \<sigma>) (tb_pxys \<sigma>) i ?ct"
    unfolding ctl_ok_def s using d(1,5) o(1) by simp
  then show ?thesis
    unfolding teardown_begin_def by (rule ptr_inv_ctl [OF inv _ s(2,3)])
qed

lemma close_del_ptr:
  assumes inv: "ptr_inv \<sigma>" and pc: "ct_pc (tb_ctls \<sigma> i) = RDel a rest"
  shows "ptr_inv (close_del i a rest \<sigma>)"
proof -
  note d = ctl_okD [OF ptr_invD(1) [OF inv, of i]]
  let ?n = "px_name (tb_objs \<sigma> a)" and ?ct = "(tb_ctls \<sigma> i)\<lparr>ct_pc := if rest = [] then RIdle else RClosing rest\<rparr>"
  have a: "tb_owner \<sigma> a = i" "tb_pxys \<sigma> ?n = Some a" using d(1,5) pc by (simp_all add: ctl_ptrs_def ctl_reg_def)
  have dist: "a \<notin> set rest" "distinct rest" using d(3) pc by simp_all
  have reg: "ctl_reg ?ct = ctl_reg (tb_ctls \<sigma> i) - {a}" and ptrs: "ctl_ptrs ?ct \<subseteq> ctl_ptrs (tb_ctls \<sigma> i)"
    and lv: "ctl_live ?ct = ctl_live (tb_ctls \<sigma> i)"
    using pc dist d(2) by (auto simp: ctl_reg_def ctl_ptrs_def ctl_live_def)
  have inj: "px_name (tb_objs \<sigma> b) \<noteq> ?n" if "b \<in> ctl_reg (tb_ctls \<sigma> i)" "b \<noteq> a" for b
    using d(5) [OF that(1)] a(2) that(2) by auto
  show ?thesis
    unfolding close_del_def set_pc_def
  proof (rule ptr_inv_step [OF inv, where i = i and ct = ?ct], goal_cases)
    case 2
    have "ran (ct_proxies (tb_ctls \<sigma> i)) \<inter> pc_ptrs (ct_pc ?ct) = {}" "pc_ok (tb_objs \<sigma>) (ct_pc ?ct)" using d(2) pc dist by auto
    then show ?case
      unfolding ctl_ok_def reg using ptrs d(1,4,5) inj by (auto simp: Manager_Del_def)
  next
    case (7 n b)
    then show ?case using ptr_invD(2) [OF inv, of n b] a(2) unfolding reg by (auto simp: Manager_Del_def split: if_splits)
  next
    case 8
    show ?case using live_split(1) [OF inv, of i] unfolding lv by auto
  qed (use a in \<open>auto simp: Manager_Del_def split: if_splits\<close>)
qed

section \<open>Resources\<close>

definition is_xtcp :: "'c BaseProxy \<Rightarrow> bool" where
  "is_xtcp p \<longleftrightarrow> (case pc_details (px_configurer p) of XTCP_cfg _ \<Rightarrow> True | _ \<Rightarrow> False)"

definition dropped_keys :: "bytes set \<Rightarrow> rc_key set" where
  "dropped_keys D = {KNat n i | n i. i \<in> D}"

text \<open>
  What is held is what the running proxies own, less the rendezvous entries of dropped controls.
\<close>

definition nh_ids :: "'c ResourceController \<Rightarrow> bytes set option" where
  "nh_ids rc = map_option controls (rc_nathole rc)"

definition res_inv :: "int set \<Rightarrow> int set \<Rightarrow> nh_env \<Rightarrow> (string \<Rightarrow> string) \<Rightarrow> 'c table \<Rightarrow> bool" where
  "res_inv A B ne uni \<sigma> \<longleftrightarrow>
     rc_inv A B ne (nh_ids (tb_rc \<sigma>)) uni (tb_rc \<sigma>) \<and> (\<forall>ids. nh_ids (tb_rc \<sigma>) = Some ids \<longrightarrow> ids \<inter> tb_dropped \<sigma> = {}) \<and>
     (\<forall>a \<in> tb_live \<sigma>. running uni (tb_objs \<sigma> a) \<and> (is_xtcp (tb_objs \<sigma> a) \<longrightarrow> nh_ids (tb_rc \<sigma>) \<noteq> None)) \<and>
     rc_held uni (tb_rc \<sigma>) = (\<Union>a \<in> tb_live \<sigma>. owned uni (tb_objs \<sigma> a)) - dropped_keys (tb_dropped \<sigma>) \<and>
     (\<forall>a \<in> tb_live \<sigma>. \<forall>b \<in> tb_live \<sigma>. a \<noteq> b \<longrightarrow> owned uni (tb_objs \<sigma> a) \<inter> owned uni (tb_objs \<sigma> b) = {})"

lemma res_invD:
  assumes "res_inv A B ne uni \<sigma>"
  shows "rc_inv A B ne (nh_ids (tb_rc \<sigma>)) uni (tb_rc \<sigma>)" "nh_ids (tb_rc \<sigma>) = Some ids \<Longrightarrow> ids \<inter> tb_dropped \<sigma> = {}"
    "a \<in> tb_live \<sigma> \<Longrightarrow> running uni (tb_objs \<sigma> a)" "a \<in> tb_live \<sigma> \<Longrightarrow> is_xtcp (tb_objs \<sigma> a) \<Longrightarrow> nh_ids (tb_rc \<sigma>) \<noteq> None"
    "rc_held uni (tb_rc \<sigma>) = (\<Union>a \<in> tb_live \<sigma>. owned uni (tb_objs \<sigma> a)) - dropped_keys (tb_dropped \<sigma>)"
    "a \<in> tb_live \<sigma> \<Longrightarrow> b \<in> tb_live \<sigma> \<Longrightarrow> a \<noteq> b \<Longrightarrow> owned uni (tb_objs \<sigma> a) \<inter> owned uni (tb_objs \<sigma> b) = {}"
proof -
  note c = assms [unfolded res_inv_def]
  note c1 = c [THEN conjunct2] and c2 = c [THEN conjunct2, THEN conjunct2] and c3 = c [THEN conjunct2, THEN conjunct2, THEN conjunct2]
  show "rc_inv A B ne (nh_ids (tb_rc \<sigma>)) uni (tb_rc \<sigma>)" by (rule c [THEN conjunct1])
  show "nh_ids (tb_rc \<sigma>) = Some ids \<Longrightarrow> ids \<inter> tb_dropped \<sigma> = {}" using c1 [THEN conjunct1] by blast
  show "a \<in> tb_live \<sigma> \<Longrightarrow> running uni (tb_objs \<sigma> a)" "a \<in> tb_live \<sigma> \<Longrightarrow> is_xtcp (tb_objs \<sigma> a) \<Longrightarrow> nh_ids (tb_rc \<sigma>) \<noteq> None"
    using c2 [THEN conjunct1] by blast+
  show "rc_held uni (tb_rc \<sigma>) = (\<Union>a \<in> tb_live \<sigma>. owned uni (tb_objs \<sigma> a)) - dropped_keys (tb_dropped \<sigma>)"
    by (rule c3 [THEN conjunct1])
  show "a \<in> tb_live \<sigma> \<Longrightarrow> b \<in> tb_live \<sigma> \<Longrightarrow> a \<noteq> b \<Longrightarrow> owned uni (tb_objs \<sigma> a) \<inter> owned uni (tb_objs \<sigma> b) = {}"
    using c3 [THEN conjunct2, THEN bspec, THEN bspec, THEN mp] by simp
qed

lemma res_invI:
  assumes "rc_inv A B ne (nh_ids (tb_rc \<sigma>)) uni (tb_rc \<sigma>)" "\<And>ids. nh_ids (tb_rc \<sigma>) = Some ids \<Longrightarrow> ids \<inter> tb_dropped \<sigma> = {}"
    "\<And>a. a \<in> tb_live \<sigma> \<Longrightarrow> running uni (tb_objs \<sigma> a) \<and> (is_xtcp (tb_objs \<sigma> a) \<longrightarrow> nh_ids (tb_rc \<sigma>) \<noteq> None)"
    "rc_held uni (tb_rc \<sigma>) = (\<Union>a \<in> tb_live \<sigma>. owned uni (tb_objs \<sigma> a)) - dropped_keys (tb_dropped \<sigma>)"
    "\<And>a b. a \<in> tb_live \<sigma> \<Longrightarrow> b \<in> tb_live \<sigma> \<Longrightarrow> a \<noteq> b \<Longrightarrow> owned uni (tb_objs \<sigma> a) \<inter> owned uni (tb_objs \<sigma> b) = {}"
  shows "res_inv A B ne uni \<sigma>"
  unfolding res_inv_def using assms by (intro conjI allI impI ballI) simp_all

lemma listener_key_nat: "listener_key uni l \<noteq> KNat n i"
  by (cases l) simp_all

lemma owned_nat: "KNat n i \<in> owned uni p \<Longrightarrow> is_xtcp p \<and> i = px_xtcpControlID p"
  using listener_key_nat [of uni _ n i, THEN not_sym]
  by (auto simp: owned_def is_xtcp_def split: proxy_details.splits if_splits)

lemma owned_kept: "\<not> is_xtcp p \<or> px_xtcpControlID p \<notin> D \<Longrightarrow> owned uni p \<inter> dropped_keys D = {}"
  using owned_nat by (fastforce simp: dropped_keys_def)

lemma rc_inv_ids: "rc_inv A B ne K uni rc \<Longrightarrow> nh_ids rc = K"
  by (simp add: rc_inv_def nh_ids_def)

lemma res_inv_cong:
  assumes "tb_rc \<sigma>' = tb_rc \<sigma>" "tb_live \<sigma>' = tb_live \<sigma>" "tb_dropped \<sigma>' = tb_dropped \<sigma>"
    and "\<And>a. a \<in> tb_live \<sigma> \<Longrightarrow> tb_objs \<sigma>' a = tb_objs \<sigma> a"
  shows "res_inv A B ne uni \<sigma>' = res_inv A B ne uni \<sigma>"
  using assms by (simp add: res_inv_def)

lemma run_res:
  assumes inv: "res_inv A B ne uni \<sigma>" and a: "a \<notin> tb_live \<sigma>" and p: "tb_objs \<sigma> a = NewServerProxy cfg opt"
    and e: "start_env env cfg (tb_rc \<sigma>)" "re_uni env = uni"
  obtains rc p r where "Proxy_Run env s (tb_rc \<sigma>) (tb_objs \<sigma> a) = Some (rc, p, r)"
    "case r of
       Inl _ \<Rightarrow> res_inv A B ne uni (\<sigma>\<lparr>tb_rc := rc, tb_objs := (tb_objs \<sigma>)(a := p)\<rparr>)
     | Inr _ \<Rightarrow> res_inv A B ne uni (\<sigma>\<lparr>tb_rc := rc, tb_objs := (tb_objs \<sigma>)(a := p), tb_live := insert a (tb_live \<sigma>)\<rparr>)"
proof -
  let ?K = "nh_ids (tb_rc \<sigma>)"
  note k = res_invD [OF inv]
  obtain rc q r where run: "Proxy_Run env s (tb_rc \<sigma>) (tb_objs \<sigma> a) = Some (rc, q, r)" and ok: "run_sound A B ne ?K uni (tb_rc \<sigma>) (rc, q, r)"
    using Proxy_Run_ran [of A B ne ?K env "tb_rc \<sigma>" cfg s opt] k(1) e p by auto
  have i: "rc_inv A B ne ?K uni rc" using ok by (simp add: run_sound_def)
  note nh = rc_inv_ids [OF i]
  have objs: "((tb_objs \<sigma>)(a := q)) b = tb_objs \<sigma> b" if "b \<in> tb_live \<sigma>" for b using that a by auto
  show thesis
  proof (cases r)
    case (Inl x)
    have "res_inv A B ne uni (\<sigma>\<lparr>tb_rc := rc, tb_objs := (tb_objs \<sigma>)(a := q)\<rparr>)"
      by (rule res_invI) (use ok k i nh Inl objs in \<open>simp_all add: run_sound_def del: fun_upd_apply\<close>)
    with run Inl show ?thesis by (intro that) auto
  next
    case (Inr x)
    have o: "running uni q" "known ?K q" "owned uni q \<inter> rc_held uni (tb_rc \<sigma>) = {}" "rc_held uni rc = rc_held uni (tb_rc \<sigma>) \<union> owned uni q"
      using ok Inr by (simp_all add: run_sound_def)
    have x: "is_xtcp q \<Longrightarrow> ?K \<noteq> None \<and> px_xtcpControlID q \<notin> tb_dropped \<sigma>"
      using o(2) k(2) by (auto simp: known_def is_xtcp_def split: proxy_details.splits option.splits)
    then have n: "owned uni q \<inter> dropped_keys (tb_dropped \<sigma>) = {}" using owned_kept by blast
    have d: "owned uni q \<inter> owned uni (tb_objs \<sigma> b) = {}" if "b \<in> tb_live \<sigma>" for b
      using o(3) n that unfolding k(5) by blast
    let ?\<sigma> = "\<sigma>\<lparr>tb_rc := rc, tb_objs := (tb_objs \<sigma>)(a := q), tb_live := insert a (tb_live \<sigma>)\<rparr>"
    have "(\<Union>b \<in> insert a (tb_live \<sigma>). owned uni (((tb_objs \<sigma>)(a := q)) b)) = owned uni q \<union> (\<Union>b \<in> tb_live \<sigma>. owned uni (tb_objs \<sigma> b))"
      using objs by auto
    then have "rc_held uni rc = (\<Union>b \<in> insert a (tb_live \<sigma>). owned uni (((tb_objs \<sigma>)(a := q)) b)) - dropped_keys (tb_dropped \<sigma>)"
      using n by (simp only: o(4) k(5)) (simp add: Un_Diff Diff_triv Un_commute)
    moreover have "owned uni (((tb_objs \<sigma>)(a := q)) b) \<inter> owned uni (((tb_objs \<sigma>)(a := q)) c) = {}"
      if "b \<in> insert a (tb_live \<sigma>)" "c \<in> insert a (tb_live \<sigma>)" "b \<noteq> c" for b c
      using that d k(6) [of b c] by (auto simp: Int_commute)
    moreover have "running uni (((tb_objs \<sigma>)(a := q)) b) \<and> (is_xtcp (((tb_objs \<sigma>)(a := q)) b) \<longrightarrow> ?K \<noteq> None)"
      if "b \<in> insert a (tb_live \<sigma>)" for b
      using that o(1) x k(3,4) [of b] by auto
    ultimately have "res_inv A B ne uni ?\<sigma>"
      by (intro res_invI) (use i k(2) nh in \<open>simp_all del: fun_upd_apply\<close>)
    with run Inr show ?thesis by (intro that) auto
  qed
qed

lemma close_res:
  assumes inv: "res_inv A B ne uni \<sigma>" and a: "a \<in> tb_live \<sigma>" and e: "stop_env env (tb_rc \<sigma>)" "re_uni env = uni"
  obtains rc p where "Proxy_Close env (tb_rc \<sigma>) (tb_objs \<sigma> a) = Some (rc, p)"
    "res_inv A B ne uni (\<sigma>\<lparr>tb_rc := rc, tb_objs := (tb_objs \<sigma>)(a := p), tb_live := tb_live \<sigma> - {a}\<rparr>)"
proof -
  let ?K = "nh_ids (tb_rc \<sigma>)"
  note k = res_invD [OF inv]
  have "owned uni (tb_objs \<sigma> a) \<subseteq> rc_held uni (tb_rc \<sigma>)" if "\<not> is_xtcp (tb_objs \<sigma> a)"
    using owned_kept [of "tb_objs \<sigma> a" "tb_dropped \<sigma>" uni] that a unfolding k(5) by blast
  then have "backed uni (tb_rc \<sigma>) (tb_objs \<sigma> a)"
    using k(4) [OF a] by (auto simp: backed_def is_xtcp_def nh_ids_def Option.is_none_def split: proxy_details.splits)
  with Proxy_Close_closed [of A B ne ?K env "tb_rc \<sigma>" "tb_objs \<sigma> a"] k(1) k(3) [OF a] e
  obtain rc p where c: "Proxy_Close env (tb_rc \<sigma>) (tb_objs \<sigma> a) = Some (rc, p)" and i: "rc_inv A B ne ?K uni rc"
    and h: "rc_held uni rc = rc_held uni (tb_rc \<sigma>) - owned uni (tb_objs \<sigma> a)"
    by (auto simp: close_sound_def)
  have "(\<Union>b \<in> tb_live \<sigma> - {a}. owned uni (tb_objs \<sigma> b)) = (\<Union>b \<in> tb_live \<sigma>. owned uni (tb_objs \<sigma> b)) - owned uni (tb_objs \<sigma> a)"
    (is "?L = ?R")
  proof (rule equalityI; rule subsetI)
    show "x \<in> ?R" if "x \<in> ?L" for x using that k(6) [OF _ a] by (auto simp: disjoint_iff)
    show "x \<in> ?L" if "x \<in> ?R" for x using that by auto
  qed
  then have "rc_held uni rc = (\<Union>b \<in> tb_live \<sigma> - {a}. owned uni (tb_objs \<sigma> b)) - dropped_keys (tb_dropped \<sigma>)"
    by (simp only: h k(5)) (simp add: Diff_Diff_Int Diff_eq Int_ac)
  then have "res_inv A B ne uni (\<sigma>\<lparr>tb_rc := rc, tb_objs := (tb_objs \<sigma>)(a := p), tb_live := tb_live \<sigma> - {a}\<rparr>)"
    by (intro res_invI) (use i rc_inv_ids [OF i] k(2,3,4,6) in auto)
  with c show thesis by (rule that)
qed

lemma interrupt_res:
  assumes inv: "res_inv A B ne uni \<sigma>"
    and it: "\<And>c. rc_nathole (tb_rc \<sigma>) = Some c \<Longrightarrow> iter_order (clientCfgs c) names \<and> iter_order (sessions c) sids"
  shows "\<exists>\<sigma>'. interrupt names sids opt \<sigma> = Some \<sigma>' \<and> res_inv A B ne uni \<sigma>' \<and> tb_ctls \<sigma>' = tb_ctls \<sigma> \<and>
    tb_pxys \<sigma>' = tb_pxys \<sigma> \<and> tb_objs \<sigma>' = tb_objs \<sigma> \<and> tb_n \<sigma>' = tb_n \<sigma> \<and> tb_owner \<sigma>' = tb_owner \<sigma> \<and> tb_live \<sigma>' = tb_live \<sigma>"
proof (cases "rc_nathole (tb_rc \<sigma>)")
  case None
  then show ?thesis using inv by (simp add: interrupt_def)
next
  case (Some c)
  note k = res_invD [OF inv]
  let ?i = "po_xtcpControlID opt"
  obtain c' where c': "CloseControl c names sids ?i = Some c'" "c_inv ne c'" "controls c' = controls c - {?i}"
    "nat_held c' = nat_held c - {(n, j) | n j. j = ?i}"
    using CloseControl_held [OF rc_invD(6) [OF k(1) Some]] it [OF Some] by blast
  let ?rc = "(tb_rc \<sigma>)\<lparr>rc_nathole := Some c'\<rparr>"
  have "rc_inv A B ne (nh_ids ?rc) uni ?rc" using k(1) c'(2) by (simp add: rc_inv_def nh_ids_def)
  moreover have "rc_held uni ?rc = rc_held uni (tb_rc \<sigma>) - dropped_keys {?i}"
    by (rule rc_held_eqI) (auto simp: Some c'(4) dropped_keys_def)
  then have "rc_held uni ?rc = (\<Union>a \<in> tb_live \<sigma>. owned uni (tb_objs \<sigma> a)) - dropped_keys (insert ?i (tb_dropped \<sigma>))"
    unfolding k(5) by (auto simp: dropped_keys_def)
  ultimately have "res_inv A B ne uni (\<sigma>\<lparr>tb_rc := ?rc, tb_dropped := insert ?i (tb_dropped \<sigma>)\<rparr>)"
    by (intro res_invI) (use k(2,3,4,6) Some c'(3) in \<open>auto simp: nh_ids_def\<close>)
  with c'(1) Some show ?thesis by (auto simp: interrupt_def)
qed

lemma join_res:
  assumes inv: "res_inv A B ne uni \<sigma>" and f: "po_xtcpControlID opt \<notin> tb_dropped \<sigma>"
  shows "res_inv A B ne uni (join_control opt \<sigma>)"
proof (cases "rc_nathole (tb_rc \<sigma>)")
  case None
  then have e: "(tb_rc \<sigma>)\<lparr>rc_nathole := None\<rparr> = tb_rc \<sigma>" by (intro ResourceController.equality) simp_all
  have "join_control opt \<sigma> = \<sigma>" unfolding join_control_def None option.map e by simp
  with inv show ?thesis by simp
next
  case (Some c)
  note k = res_invD [OF inv]
  let ?c = "fst (RegisterControl c (po_xtcpControlID opt))" let ?rc = "(tb_rc \<sigma>)\<lparr>rc_nathole := Some ?c\<rparr>"
  have ids: "controls ?c \<subseteq> insert (po_xtcpControlID opt) (controls c)" and h: "nat_held ?c = nat_held c"
    by (auto simp: RegisterControl_def nat_held_def dest: ID_self split: sum.split)
  have e: "tb_rc (join_control opt \<sigma>) = ?rc" "tb_live (join_control opt \<sigma>) = tb_live \<sigma>" "tb_objs (join_control opt \<sigma>) = tb_objs \<sigma>"
    "tb_dropped (join_control opt \<sigma>) = tb_dropped \<sigma>" by (simp_all add: join_control_def Some)
  have nh: "nh_ids ?rc = Some (controls ?c)" "nh_ids (tb_rc \<sigma>) = Some (controls c)" using Some by (simp_all add: nh_ids_def)
  show ?thesis
  proof (rule res_invI; unfold e)
    show "rc_inv A B ne (nh_ids ?rc) uni ?rc"
      using k(1) RegisterControl_ok [OF rc_invD(6) [OF k(1) Some]] by (simp add: rc_inv_def nh_ids_def)
    show "ids \<inter> tb_dropped \<sigma> = {}" if "nh_ids ?rc = Some ids" for ids using k(2) [OF nh(2)] ids f that nh(1) by auto
    show "running uni (tb_objs \<sigma> a) \<and> (is_xtcp (tb_objs \<sigma> a) \<longrightarrow> nh_ids ?rc \<noteq> None)" if "a \<in> tb_live \<sigma>" for a
      using k(3) [OF that] nh(1) by simp
    show "rc_held uni ?rc = (\<Union>a \<in> tb_live \<sigma>. owned uni (tb_objs \<sigma> a)) - dropped_keys (tb_dropped \<sigma>)"
      using rc_held_same(7) [OF Some h] k(5) by simp
  qed (rule k(6))
qed

section \<open>The quota\<close>

definition ctl_used :: "(nat \<Rightarrow> 'c BaseProxy) \<Rightarrow> ctl_state \<Rightarrow> int" where
  "ctl_used objs ct = (\<Sum>a \<in> ran (ct_proxies ct) \<union> pc_used (ct_pc ct). px_usedPortsNum (objs a))"

definition quota_ok :: "ServerConfig \<Rightarrow> (nat \<Rightarrow> 'c BaseProxy) \<Rightarrow> ctl_state \<Rightarrow> bool" where
  "quota_ok s objs ct \<longleftrightarrow>
     finite (ran (ct_proxies ct)) \<and> ct_portsUsedNum ct \<le> MaxPortsPerClient s \<and>
     (\<not> ct_gone ct \<longrightarrow> ct_portsUsedNum ct = ctl_used objs ct)"

definition quota_inv :: "ServerConfig \<Rightarrow> 'c table \<Rightarrow> bool" where
  "quota_inv s \<sigma> \<longleftrightarrow>
     (\<forall>a < tb_n \<sigma>. px_usedPortsNum (tb_objs \<sigma> a) \<ge> 0) \<and> (MaxPortsPerClient s > 0 \<longrightarrow> (\<forall>i. quota_ok s (tb_objs \<sigma>) (tb_ctls \<sigma> i)))"

lemma finite_pc_used: "finite (pc_used pc)"
  by (cases pc) simp_all

lemma quota_step:
  assumes q: "quota_inv s \<sigma>" and inv: "ptr_inv \<sigma>" and ctls: "tb_ctls \<sigma>' = (tb_ctls \<sigma>)(i := ct)"
    and objs: "\<And>a. a < tb_n \<sigma> \<Longrightarrow> px_usedPortsNum (tb_objs \<sigma>' a) = px_usedPortsNum (tb_objs \<sigma> a)"
    and new: "\<And>a. tb_n \<sigma> \<le> a \<Longrightarrow> a < tb_n \<sigma>' \<Longrightarrow> px_usedPortsNum (tb_objs \<sigma>' a) \<ge> 0"
    and ok: "MaxPortsPerClient s > 0 \<Longrightarrow> quota_ok s (tb_objs \<sigma>') ct"
  shows "quota_inv s \<sigma>'"
proof -
  have "quota_ok s (tb_objs \<sigma>') (tb_ctls \<sigma>' j)" if m: "MaxPortsPerClient s > 0" for j
  proof (cases "j = i")
    case False
    have "a < tb_n \<sigma>" if "a \<in> ran (ct_proxies (tb_ctls \<sigma> j)) \<union> pc_used (ct_pc (tb_ctls \<sigma> j))" for a
      using that pc_subsets(3) ctl_okD(1) [OF ptr_invD(1) [OF inv]] by (auto simp: ctl_ptrs_def)
    then have "ctl_used (tb_objs \<sigma>') (tb_ctls \<sigma> j) = ctl_used (tb_objs \<sigma>) (tb_ctls \<sigma> j)"
      unfolding ctl_used_def by (intro sum.cong) (simp_all add: objs)
    with q m False show ?thesis by (simp add: quota_inv_def quota_ok_def ctls)
  qed (use ok m ctls in simp)
  moreover have "px_usedPortsNum (tb_objs \<sigma>' a) \<ge> 0" if "a < tb_n \<sigma>'" for a
    using q new [of a] objs [of a] that by (cases "a < tb_n \<sigma>") (auto simp: quota_inv_def)
  ultimately show ?thesis unfolding quota_inv_def by blast
qed

text \<open>What a failed registration, or a proxy that is taken out, gives back.\<close>

lemma quota_return:
  assumes q: "quota_ok s objs ct" and m: "MaxPortsPerClient s > 0" and nonneg: "px_usedPortsNum p \<ge> 0"
    and p: "px_usedPortsNum p = px_usedPortsNum (objs a)" and a: "a \<in> ran (ct_proxies ct) \<union> pc_used (ct_pc ct)"
    and ct: "ran (ct_proxies ct') \<union> pc_used (ct_pc ct') = ran (ct_proxies ct) \<union> pc_used (ct_pc ct) - {a}"
    and gone: "ct_gone ct' = ct_gone ct" and num: "ct_portsUsedNum ct' = ct_portsUsedNum (return_quota s ct p)"
  shows "quota_ok s objs ct'"
proof -
  have f: "finite (ran (ct_proxies ct) \<union> pc_used (ct_pc ct))" using q finite_pc_used by (simp add: quota_ok_def)
  then have "finite (ran (ct_proxies ct') \<union> pc_used (ct_pc ct'))" unfolding ct by simp
  moreover have "ctl_used objs ct' = ctl_used objs ct - px_usedPortsNum (objs a)"
    unfolding ctl_used_def ct using f a by (simp add: sum_diff1)
  ultimately show ?thesis using q m nonneg p gone num by (simp add: quota_ok_def return_quota_def)
qed

lemma quota_same:
  assumes "quota_ok s objs ct" and "ran (ct_proxies ct') \<union> pc_used (ct_pc ct') = ran (ct_proxies ct) \<union> pc_used (ct_pc ct)"
    and "ct_gone ct' = ct_gone ct" and "ct_portsUsedNum ct' = ct_portsUsedNum ct"
    and "\<And>a. a \<in> ran (ct_proxies ct) \<union> pc_used (ct_pc ct) \<Longrightarrow> px_usedPortsNum (objs' a) = px_usedPortsNum (objs a)"
  shows "quota_ok s objs' ct'"
proof -
  have "finite (ran (ct_proxies ct') \<union> pc_used (ct_pc ct'))" unfolding assms(2) using assms(1) finite_pc_used by (simp add: quota_ok_def)
  moreover have "ctl_used objs' ct' = ctl_used objs ct" unfolding ctl_used_def assms(2) by (rule sum.cong) (simp_all add: assms(5))
  ultimately show ?thesis using assms(1,3,4) by (simp add: quota_ok_def)
qed

lemma quota_gone:
  assumes "quota_ok s objs ct" and "ct_gone ct'" and "finite (ran (ct_proxies ct'))" and "ct_portsUsedNum ct' = ct_portsUsedNum ct"
  shows "quota_ok s objs' ct'"
  using assms by (simp add: quota_ok_def)

lemma NewServerProxy_used: "px_usedPortsNum (NewServerProxy cfg opt) \<ge> 0"
  by (simp add: NewServerProxy_def split: proxy_details.split)

lemma reg_begin_quota:
  assumes q: "quota_inv s \<sigma>" and inv: "ptr_inv \<sigma>" and pc: "ct_pc (tb_ctls \<sigma> i) = RIdle"
  shows "quota_inv s (reg_begin s opt cenv m i \<sigma>)"
proof -
  let ?a = "tb_n \<sigma>"
  have "quota_inv s (set_ctl i (ct\<lparr>ct_pc := RQuota ?a (np_ProxyName m)\<rparr>)
      (\<sigma>\<lparr>tb_objs := (tb_objs \<sigma>)(?a := p), tb_n := Suc ?a, tb_owner := (tb_owner \<sigma>)(?a := i)\<rparr>))"
    if t: "take_quota s (tb_ctls \<sigma> i) p = Some ct" and nonneg: "px_usedPortsNum p \<ge> 0" for p ct
  proof (rule quota_step [OF q inv, where i = i and ct = "ct\<lparr>ct_pc := RQuota ?a (np_ProxyName m)\<rparr>"], goal_cases)
    case 4
    let ?R = "ran (ct_proxies (tb_ctls \<sigma> i))"
    have ok: "quota_ok s (tb_objs \<sigma>) (tb_ctls \<sigma> i)" using q 4 by (simp add: quota_inv_def)
    have nin: "?a \<notin> ?R" using ctl_okD(1) [OF ptr_invD(1) [OF inv, of i], of ?a] by (auto simp: ctl_ptrs_def)
    have c: "ct_proxies ct = ct_proxies (tb_ctls \<sigma> i)" "ct_gone ct = ct_gone (tb_ctls \<sigma> i)"
      "ct_portsUsedNum ct = ct_portsUsedNum (tb_ctls \<sigma> i) + px_usedPortsNum p" "ct_portsUsedNum ct \<le> MaxPortsPerClient s"
      using t 4 by (auto simp: take_quota_def split: if_splits)
    have f: "finite ?R" using ok by (simp add: quota_ok_def)
    have "(\<Sum>b \<in> ?R. px_usedPortsNum (((tb_objs \<sigma>)(?a := p)) b)) = (\<Sum>b \<in> ?R. px_usedPortsNum (tb_objs \<sigma> b))"
      using nin by (intro sum.cong) auto
    then have "ctl_used ((tb_objs \<sigma>)(?a := p)) (ct\<lparr>ct_pc := RQuota ?a (np_ProxyName m)\<rparr>) = ctl_used (tb_objs \<sigma>) (tb_ctls \<sigma> i) + px_usedPortsNum p"
      using f nin pc by (simp add: ctl_used_def c(1))
    then show ?case using ok c f by (simp add: quota_ok_def)
  qed (use nonneg in \<open>auto simp: less_Suc_eq\<close>)
  then show ?thesis
    using q NewServerProxy_used by (auto simp: reg_begin_def Let_def split: sum.split option.split)
qed

text \<open>A step that keeps the account of its control, and one that gives the ports of a proxy back.\<close>

lemma quota_step_same:
  assumes q: "quota_inv s \<sigma>" and inv: "ptr_inv \<sigma>" and ctls: "tb_ctls \<sigma>' = (tb_ctls \<sigma>)(i := ct)" and n: "tb_n \<sigma>' = tb_n \<sigma>"
    and objs: "\<And>a. px_usedPortsNum (tb_objs \<sigma>' a) = px_usedPortsNum (tb_objs \<sigma> a)"
    and ct: "ran (ct_proxies ct) \<union> pc_used (ct_pc ct) = ran (ct_proxies (tb_ctls \<sigma> i)) \<union> pc_used (ct_pc (tb_ctls \<sigma> i))"
      "ct_gone ct = ct_gone (tb_ctls \<sigma> i)" "ct_portsUsedNum ct = ct_portsUsedNum (tb_ctls \<sigma> i)"
  shows "quota_inv s \<sigma>'"
proof (rule quota_step [OF q inv ctls])
  assume "MaxPortsPerClient s > 0"
  then have "quota_ok s (tb_objs \<sigma>) (tb_ctls \<sigma> i)" using q by (simp add: quota_inv_def)
  then show "quota_ok s (tb_objs \<sigma>') ct" using ct objs by (rule quota_same)
qed (use objs n in auto)

lemma quota_step_return:
  assumes q: "quota_inv s \<sigma>" and inv: "ptr_inv \<sigma>" and ctls: "tb_ctls \<sigma>' = (tb_ctls \<sigma>)(i := ct)" and n: "tb_n \<sigma>' = tb_n \<sigma>"
    and objs: "\<And>a. px_usedPortsNum (tb_objs \<sigma>' a) = px_usedPortsNum (tb_objs \<sigma> a)"
    and a: "a \<in> ran (ct_proxies (tb_ctls \<sigma> i)) \<union> pc_used (ct_pc (tb_ctls \<sigma> i))"
    and ct: "ran (ct_proxies ct) \<union> pc_used (ct_pc ct) = ran (ct_proxies (tb_ctls \<sigma> i)) \<union> pc_used (ct_pc (tb_ctls \<sigma> i)) - {a}"
      "ct_gone ct = ct_gone (tb_ctls \<sigma> i)" "ct_portsUsedNum ct = ct_portsUsedNum (return_quota s (tb_ctls \<sigma> i) (tb_objs \<sigma>' a))"
  shows "quota_inv s \<sigma>'"
proof (rule quota_step [OF q inv ctls])
  assume m: "MaxPortsPerClient s > 0"
  have "a \<in> ctl_ptrs (tb_ctls \<sigma> i)" using a pc_subsets(3) by (auto simp: ctl_ptrs_def)
  then have nn: "px_usedPortsNum (tb_objs \<sigma>' a) \<ge> 0" using q objs ctl_okD(1) [OF ptr_invD(1) [OF inv]] by (simp add: quota_inv_def)
  have "quota_ok s (tb_objs \<sigma>) (tb_ctls \<sigma> i)" using q m by (simp add: quota_inv_def)
  then have "quota_ok s (tb_objs \<sigma>') (tb_ctls \<sigma> i)" by (rule quota_same) (simp_all add: objs)
  from quota_return [where objs = "tb_objs \<sigma>'" and ct = "tb_ctls \<sigma> i" and p = "tb_objs \<sigma>' a" and a = a and ct' = ct, OF this m nn refl a ct]
  show "quota_ok s (tb_objs \<sigma>') ct" .
qed (use objs n in auto)

section \<open>Every step keeps the invariants\<close>

definition table_inv :: "int set \<Rightarrow> int set \<Rightarrow> nh_env \<Rightarrow> (string \<Rightarrow> string) \<Rightarrow> ServerConfig \<Rightarrow> 'c table \<Rightarrow> bool" where
  "table_inv A B ne uni s \<sigma> \<longleftrightarrow> ptr_inv \<sigma> \<and> res_inv A B ne uni \<sigma> \<and> quota_inv s \<sigma>"

lemma not_live:
  assumes inv: "ptr_inv \<sigma>" and a: "a \<in> pc_ptrs (ct_pc (tb_ctls \<sigma> i))" "a \<notin> pc_live (ct_pc (tb_ctls \<sigma> i))"
  shows "a \<notin> tb_live \<sigma>"
proof
  assume "a \<in> tb_live \<sigma>"
  then obtain j where j: "a \<in> ctl_live (tb_ctls \<sigma> j)" unfolding ptr_invD(3) [OF inv] by blast
  have "j = i" by (rule ptr_unique [OF inv]) (use j a ctl_subsets in \<open>auto simp: ctl_ptrs_def\<close>)
  with j a ctl_okD(2) [OF ptr_invD(1) [OF inv, of i]] show False by (auto simp: ctl_live_def)
qed

lemma res_set_ctl: "res_inv A B ne uni (set_ctl i ct \<sigma>) = res_inv A B ne uni \<sigma>"
  by (rule res_inv_cong) simp_all

lemma reg_begin_res:
  assumes inv: "ptr_inv \<sigma>" and r: "res_inv A B ne uni \<sigma>"
  shows "res_inv A B ne uni (reg_begin s opt cenv m i \<sigma>)"
proof -
  have "a < tb_n \<sigma>" if "a \<in> tb_live \<sigma>" for a
    using that ctl_subsets(1) ctl_okD(1) [OF ptr_invD(1) [OF inv]] unfolding ptr_invD(3) [OF inv] by blast
  then have "res_inv A B ne uni (\<sigma>\<lparr>tb_objs := (tb_objs \<sigma>)(tb_n \<sigma> := p), tb_n := n, tb_owner := ow\<rparr>)" for p n ow
    using r by (subst res_inv_cong [of _ \<sigma>]) auto
  with r show ?thesis by (auto simp: reg_begin_def Let_def res_set_ctl split: sum.split option.split)
qed

lemma reg_run_inv:
  assumes inv: "table_inv A B ne uni s \<sigma>" and pc: "ct_pc (tb_ctls \<sigma> i) = RExist a name"
    and e: "start_env env (px_configurer (tb_objs \<sigma> a)) (tb_rc \<sigma>)" "re_uni env = uni"
  shows "\<exists>\<sigma>'. reg_run env s i a name \<sigma> = Some \<sigma>' \<and> table_inv A B ne uni s \<sigma>'"
proof -
  have i: "ptr_inv \<sigma>" "res_inv A B ne uni \<sigma>" "quota_inv s \<sigma>" using inv by (simp_all add: table_inv_def)
  note d = ctl_okD [OF ptr_invD(1) [OF i(1), of i]]
  obtain cfg opt where p: "tb_objs \<sigma> a = NewServerProxy cfg opt" and nm: "px_name (tb_objs \<sigma> a) = name" using d(3) pc by auto
  have nl: "a \<notin> tb_live \<sigma>" and nr: "a \<notin> ran (ct_proxies (tb_ctls \<sigma> i))"
    using not_live [OF i(1), of a i] d(2) pc by auto
  obtain rc q r where run: "Proxy_Run env s (tb_rc \<sigma>) (tb_objs \<sigma> a) = Some (rc, q, r)" and res: "case r of
       Inl _ \<Rightarrow> res_inv A B ne uni (\<sigma>\<lparr>tb_rc := rc, tb_objs := (tb_objs \<sigma>)(a := q)\<rparr>)
     | Inr _ \<Rightarrow> res_inv A B ne uni (\<sigma>\<lparr>tb_rc := rc, tb_objs := (tb_objs \<sigma>)(a := q), tb_live := insert a (tb_live \<sigma>)\<rparr>)"
    by (rule run_res [OF i(2) nl p, of env s]) (use e p in simp_all)
  have same: "same_proxy (tb_objs \<sigma> a) q" using Proxy_Run_same [OF run] .
  have u: "px_usedPortsNum (((tb_objs \<sigma>)(a := q)) b) = px_usedPortsNum (tb_objs \<sigma> b)" for b using same by (simp add: same_proxy_def)
  show ?thesis
  proof (cases r)
    case (Inl x)
    let ?ct = "(return_quota s (tb_ctls \<sigma> i) q)\<lparr>ct_pc := RIdle\<rparr>"
    let ?\<sigma> = "set_ctl i ?ct (\<sigma>\<lparr>tb_rc := rc, tb_objs := (tb_objs \<sigma>)(a := q), tb_live := tb_live \<sigma>\<rparr>)"
    have "ptr_inv ?\<sigma>" by (rule obj_ptr [OF i(1) _ same]) (use pc in simp_all)
    moreover have "quota_inv s ?\<sigma>"
      by (rule quota_step_return [OF i(3,1), where i = i and a = a and ct = ?ct]) (use pc u nr in auto)
    ultimately show ?thesis
      using run res Inl by (simp add: reg_run_def reg_fail_def table_inv_def res_set_ctl)
  next
    case (Inr x)
    let ?ct = "(tb_ctls \<sigma> i)\<lparr>ct_pc := RRan a name\<rparr>"
    let ?\<sigma> = "set_ctl i ?ct (\<sigma>\<lparr>tb_rc := rc, tb_objs := (tb_objs \<sigma>)(a := q), tb_live := insert a (tb_live \<sigma>)\<rparr>)"
    have "ptr_inv ?\<sigma>" by (rule obj_ptr [OF i(1) _ same]) (use pc nm same in \<open>simp_all add: same_proxy_def\<close>)
    moreover have "quota_inv s ?\<sigma>"
      by (rule quota_step_same [OF i(3,1), where i = i and ct = ?ct]) (use pc u in simp_all)
    ultimately show ?thesis
      using run res Inr by (simp add: reg_run_def set_pc_def table_inv_def res_set_ctl)
  qed
qed

text \<open>Closing an object that runs, with the state of the control afterwards.\<close>

lemma close_obj_inv:
  assumes inv: "table_inv A B ne uni s \<sigma>" and a: "a \<in> pc_live (ct_pc (tb_ctls \<sigma> i))" and e: "stop_env env (tb_rc \<sigma>)" "re_uni env = uni"
    and ct: "\<And>q. ct_proxies (ct q) = ct_proxies (tb_ctls \<sigma> i)" "\<And>q. pc_ptrs (ct_pc (ct q)) \<subseteq> pc_ptrs (ct_pc (tb_ctls \<sigma> i))"
      "\<And>q. pc_reg (ct_pc (ct q)) = pc_reg (ct_pc (tb_ctls \<sigma> i))" "\<And>q. pc_ok ((tb_objs \<sigma>)(a := q)) (ct_pc (ct q))"
      "\<And>q. pc_live (ct_pc (ct q)) = pc_live (ct_pc (tb_ctls \<sigma> i)) - {a}"
    and quota: "\<And>rc q. same_proxy (tb_objs \<sigma> a) q \<Longrightarrow>
      quota_inv s (set_ctl i (ct q) (\<sigma>\<lparr>tb_rc := rc, tb_objs := (tb_objs \<sigma>)(a := q), tb_live := tb_live \<sigma> - {a}\<rparr>))"
  shows "\<exists>\<sigma>1. close_obj env a \<sigma> = Some \<sigma>1 \<and> tb_ctls \<sigma>1 = tb_ctls \<sigma> \<and> table_inv A B ne uni s (set_ctl i (ct (tb_objs \<sigma>1 a)) \<sigma>1)"
proof -
  have i: "ptr_inv \<sigma>" "res_inv A B ne uni \<sigma>" using inv by (simp_all add: table_inv_def)
  have l: "a \<in> tb_live \<sigma>" using live_split(2) [OF i(1)] a by blast
  obtain rc q where c: "Proxy_Close env (tb_rc \<sigma>) (tb_objs \<sigma> a) = Some (rc, q)" and
    res: "res_inv A B ne uni (\<sigma>\<lparr>tb_rc := rc, tb_objs := (tb_objs \<sigma>)(a := q), tb_live := tb_live \<sigma> - {a}\<rparr>)"
    by (rule close_res [OF i(2) l e])
  have same: "same_proxy (tb_objs \<sigma> a) q" using Proxy_Close_same [OF c] .
  let ?\<sigma> = "\<sigma>\<lparr>tb_rc := rc, tb_objs := (tb_objs \<sigma>)(a := q), tb_live := tb_live \<sigma> - {a}\<rparr>"
  have "ptr_inv (set_ctl i (ct q) ?\<sigma>)"
    by (rule obj_ptr [OF i(1) _ same]) (use a pc_subsets(1) ct live_split(2) [OF i(1), of i] in auto)
  with c quota [OF same] res show ?thesis by (simp add: close_obj_def table_inv_def res_set_ctl)
qed

lemma reg_add_inv:
  assumes inv: "table_inv A B ne uni s \<sigma>" and pc: "ct_pc (tb_ctls \<sigma> i) = RRan a name"
    and e: "stop_env env (tb_rc \<sigma>)" "re_uni env = uni"
  shows "\<exists>\<sigma>'. reg_add env s i a name \<sigma> = Some \<sigma>' \<and> table_inv A B ne uni s \<sigma>'"
proof (cases "Manager_Add (tb_pxys \<sigma>) name a")
  case (Some pxys)
  have i: "ptr_inv \<sigma>" "res_inv A B ne uni \<sigma>" "quota_inv s \<sigma>" using inv by (simp_all add: table_inv_def)
  let ?\<sigma> = "set_pc i (RAdded a) (\<sigma>\<lparr>tb_pxys := pxys\<rparr>)"
  have "quota_inv s ?\<sigma>"
    by (rule quota_step_same [OF i(3,1), where i = i and ct = "(tb_ctls \<sigma> i)\<lparr>ct_pc := RAdded a\<rparr>"]) (use pc in \<open>simp_all add: set_pc_def\<close>)
  moreover have "res_inv A B ne uni ?\<sigma>" using i(2) by (subst res_inv_cong [of _ \<sigma>]) (simp_all add: set_pc_def)
  ultimately show ?thesis using reg_add_ptr [OF i(1) pc Some] Some by (simp add: reg_add_def table_inv_def)
next
  case None
  have i: "ptr_inv \<sigma>" "quota_inv s \<sigma>" using inv by (simp_all add: table_inv_def)
  have nr: "a \<notin> ran (ct_proxies (tb_ctls \<sigma> i))" using ctl_okD(2) [OF ptr_invD(1) [OF i(1), of i]] pc by auto
  let ?ct = "\<lambda>q. (return_quota s (tb_ctls \<sigma> i) q)\<lparr>ct_pc := RIdle\<rparr>"
  have "\<exists>\<sigma>1. close_obj env a \<sigma> = Some \<sigma>1 \<and> tb_ctls \<sigma>1 = tb_ctls \<sigma> \<and> table_inv A B ne uni s (set_ctl i (?ct (tb_objs \<sigma>1 a)) \<sigma>1)"
  proof (rule close_obj_inv [OF inv _ e])
    show "quota_inv s (set_ctl i (?ct q) (\<sigma>\<lparr>tb_rc := rc, tb_objs := (tb_objs \<sigma>)(a := q), tb_live := tb_live \<sigma> - {a}\<rparr>))"
      if "same_proxy (tb_objs \<sigma> a) q" for rc q
      by (rule quota_step_return [OF i(2,1), where i = i and a = a and ct = "?ct q"])
        (use pc nr that in \<open>auto simp: same_proxy_def\<close>)
  qed (use pc in simp_all)
  then show ?thesis using None by (auto simp: reg_add_def reg_fail_def)
qed

lemma close_one_inv:
  assumes inv: "table_inv A B ne uni s \<sigma>" and pc: "ct_pc (tb_ctls \<sigma> i) = RClosing (a # rest)"
    and e: "stop_env env (tb_rc \<sigma>)" "re_uni env = uni"
  shows "\<exists>\<sigma>'. close_one env i a rest \<sigma> = Some \<sigma>' \<and> table_inv A B ne uni s \<sigma>'"
proof -
  have i: "ptr_inv \<sigma>" "quota_inv s \<sigma>" using inv by (simp_all add: table_inv_def)
  have d: "distinct (a # rest)" using ctl_okD(3) [OF ptr_invD(1) [OF i(1), of i]] pc by simp
  let ?ct = "\<lambda>q. (tb_ctls \<sigma> i)\<lparr>ct_pc := RDel a rest\<rparr>"
  have "\<exists>\<sigma>1. close_obj env a \<sigma> = Some \<sigma>1 \<and> tb_ctls \<sigma>1 = tb_ctls \<sigma> \<and> table_inv A B ne uni s (set_ctl i (?ct (tb_objs \<sigma>1 a)) \<sigma>1)"
  proof (rule close_obj_inv [OF inv _ e])
    show "quota_inv s (set_ctl i (?ct q) (\<sigma>\<lparr>tb_rc := rc, tb_objs := (tb_objs \<sigma>)(a := q), tb_live := tb_live \<sigma> - {a}\<rparr>))"
      if "same_proxy (tb_objs \<sigma> a) q" for rc q
      by (rule quota_step_same [OF i(2,1), where i = i and ct = "?ct q"]) (use pc that in \<open>auto simp: same_proxy_def\<close>)
  qed (use pc d in auto)
  then show ?thesis by (auto simp: close_one_def set_pc_def)
qed

lemma reg_exist_inv:
  assumes inv: "table_inv A B ne uni s \<sigma>" and pc: "ct_pc (tb_ctls \<sigma> i) = RQuota a name"
  shows "table_inv A B ne uni s (reg_exist s i a name \<sigma>)"
proof -
  have i: "ptr_inv \<sigma>" "res_inv A B ne uni \<sigma>" "quota_inv s \<sigma>" using inv by (simp_all add: table_inv_def)
  have nr: "a \<notin> ran (ct_proxies (tb_ctls \<sigma> i))" using ctl_okD(2) [OF ptr_invD(1) [OF i(1), of i]] pc by auto
  have "quota_inv s (reg_fail s i a \<sigma>)"
    unfolding reg_fail_def
    by (rule quota_step_return [OF i(3,1), where i = i and a = a and ct = "(return_quota s (tb_ctls \<sigma> i) (tb_objs \<sigma> a))\<lparr>ct_pc := RIdle\<rparr>"])
      (use pc nr in auto)
  moreover have "quota_inv s (set_pc i (RExist a name) \<sigma>)"
    unfolding set_pc_def
    by (rule quota_step_same [OF i(3,1), where i = i and ct = "(tb_ctls \<sigma> i)\<lparr>ct_pc := RExist a name\<rparr>"]) (use pc in simp_all)
  ultimately have "quota_inv s (reg_exist s i a name \<sigma>)" by (simp add: reg_exist_def)
  moreover have "res_inv A B ne uni (reg_exist s i a name \<sigma>)"
    using i(2) by (simp add: reg_exist_def reg_fail_def set_pc_def res_set_ctl)
  ultimately show ?thesis using reg_exist_ptr [OF i(1) pc] by (simp add: table_inv_def)
qed

lemma reg_record_inv:
  assumes inv: "table_inv A B ne uni s \<sigma>" and pc: "ct_pc (tb_ctls \<sigma> i) = RAdded a"
  shows "table_inv A B ne uni s (reg_record i a \<sigma>)"
proof -
  have i: "ptr_inv \<sigma>" "res_inv A B ne uni \<sigma>" "quota_inv s \<sigma>" using inv by (simp_all add: table_inv_def)
  let ?ct = "(tb_ctls \<sigma> i)\<lparr>ct_proxies := (ct_proxies (tb_ctls \<sigma> i))(px_name (tb_objs \<sigma> a) \<mapsto> a), ct_pc := RIdle\<rparr>"
  have "ctl_reg ?ct = ctl_reg (tb_ctls \<sigma> i)"
  proof -
    note d = ctl_okD [OF ptr_invD(1) [OF i(1), of i]]
    have "tb_pxys \<sigma> (px_name (tb_objs \<sigma> a)) = Some a" using d(5) pc by (simp add: ctl_reg_def)
    moreover have "ct_proxies (tb_ctls \<sigma> i) (px_name (tb_objs \<sigma> a)) = None"
    proof (rule ccontr)
      assume "\<not> ?thesis"
      then obtain b where b: "ct_proxies (tb_ctls \<sigma> i) (px_name (tb_objs \<sigma> a)) = Some b" by auto
      then have r: "b \<in> ran (ct_proxies (tb_ctls \<sigma> i))" by (auto simp: ran_def)
      then have "b \<in> ctl_reg (tb_ctls \<sigma> i)" by (simp add: ctl_reg_def)
      from d(5) [OF this] have "b = a" unfolding d(4) [OF b] calculation by simp
      with r d(2) pc show False by simp
    qed
    ultimately show ?thesis using pc by (simp add: ctl_reg_def)
  qed
  then have "ran (ct_proxies ?ct) = insert a (ran (ct_proxies (tb_ctls \<sigma> i)))" using pc by (simp add: ctl_reg_def)
  then have "quota_inv s (reg_record i a \<sigma>)"
    unfolding reg_record_def Let_def
    by (intro quota_step_same [OF i(3,1), where i = i and ct = ?ct]) (use pc in simp_all)
  with reg_record_ptr [OF i(1) pc] i(2) show ?thesis by (simp add: table_inv_def reg_record_def Let_def res_set_ctl)
qed

lemma close_begin_inv:
  assumes inv: "table_inv A B ne uni s \<sigma>" and pc: "ct_pc (tb_ctls \<sigma> i) = RIdle"
  shows "table_inv A B ne uni s (close_begin s name i \<sigma>)"
proof (cases "ct_proxies (tb_ctls \<sigma> i) name")
  case (Some a)
  have i: "ptr_inv \<sigma>" "res_inv A B ne uni \<sigma>" "quota_inv s \<sigma>" using inv by (simp_all add: table_inv_def)
  let ?ct = "(return_quota s (tb_ctls \<sigma> i) (tb_objs \<sigma> a))\<lparr>ct_proxies := (ct_proxies (tb_ctls \<sigma> i))(name := None), ct_pc := RClosing [a]\<rparr>"
  have n: "n = name \<longleftrightarrow> b = a" if "ct_proxies (tb_ctls \<sigma> i) n = Some b" for n b
    using that Some ctl_okD(4) [OF ptr_invD(1) [OF i(1), of i]] by (metis option.inject)
  have "ran ((ct_proxies (tb_ctls \<sigma> i))(name := None)) = ran (ct_proxies (tb_ctls \<sigma> i)) - {a}"
    unfolding ran_def using n by (auto split: if_splits)
  then have "quota_inv s (set_ctl i ?ct \<sigma>)"
    by (intro quota_step_return [OF i(3,1), where i = i and a = a and ct = ?ct]) (use pc Some in \<open>auto simp: ranI\<close>)
  moreover have "close_begin s name i \<sigma> = set_ctl i ?ct \<sigma>" using Some by (simp add: close_begin_def Let_def)
  ultimately show ?thesis using close_begin_ptr [OF i(1) pc, of s name] i(2) by (simp add: table_inv_def res_set_ctl)
qed (use inv in \<open>simp add: close_begin_def\<close>)

lemma teardown_begin_inv:
  assumes inv: "table_inv A B ne uni s \<sigma>" and pc: "ct_pc (tb_ctls \<sigma> i) = RIdle"
    and o: "distinct order" "set order = ran (ct_proxies (tb_ctls \<sigma> i))"
  shows "table_inv A B ne uni s (teardown_begin order i \<sigma>)"
proof -
  have i: "ptr_inv \<sigma>" "res_inv A B ne uni \<sigma>" "quota_inv s \<sigma>" using inv by (simp_all add: table_inv_def)
  have "quota_inv s (teardown_begin order i \<sigma>)" unfolding teardown_begin_def
  proof (rule quota_step [OF i(3,1), where i = i])
    assume "MaxPortsPerClient s > 0"
    then have "quota_ok s (tb_objs \<sigma>) (tb_ctls \<sigma> i)" using i(3) by (simp add: quota_inv_def)
    then show "quota_ok s (tb_objs (set_ctl i ((tb_ctls \<sigma> i)\<lparr>ct_proxies := Map.empty, ct_pc := RClosing order, ct_gone := True\<rparr>) \<sigma>))
        ((tb_ctls \<sigma> i)\<lparr>ct_proxies := Map.empty, ct_pc := RClosing order, ct_gone := True\<rparr>)"
      by (rule quota_gone) simp_all
  qed simp_all
  with teardown_begin_ptr [OF i(1) pc o] i(2) show ?thesis by (simp add: table_inv_def teardown_begin_def res_set_ctl)
qed

lemma close_del_inv:
  assumes inv: "table_inv A B ne uni s \<sigma>" and pc: "ct_pc (tb_ctls \<sigma> i) = RDel a rest"
  shows "table_inv A B ne uni s (close_del i a rest \<sigma>)"
proof -
  have i: "ptr_inv \<sigma>" "res_inv A B ne uni \<sigma>" "quota_inv s \<sigma>" using inv by (simp_all add: table_inv_def)
  have "quota_inv s (close_del i a rest \<sigma>)" unfolding close_del_def set_pc_def
    by (rule quota_step_same [OF i(3,1), where i = i and ct = "(tb_ctls \<sigma> i)\<lparr>ct_pc := if rest = [] then RIdle else RClosing rest\<rparr>"])
      (use pc in simp_all)
  moreover have "res_inv A B ne uni (close_del i a rest \<sigma>)"
    using i(2) by (subst res_inv_cong [of _ \<sigma>]) (simp_all add: close_del_def set_pc_def)
  ultimately show ?thesis using close_del_ptr [OF i(1) pc] by (simp add: table_inv_def)
qed

lemma closing_done_inv:
  assumes inv: "table_inv A B ne uni s \<sigma>" and pc: "ct_pc (tb_ctls \<sigma> i) = RClosing []"
  shows "table_inv A B ne uni s (set_pc i RIdle \<sigma>)"
proof -
  have i: "ptr_inv \<sigma>" "res_inv A B ne uni \<sigma>" "quota_inv s \<sigma>" using inv by (simp_all add: table_inv_def)
  have "quota_inv s (set_pc i RIdle \<sigma>)" unfolding set_pc_def
    by (rule quota_step_same [OF i(3,1), where i = i and ct = "(tb_ctls \<sigma> i)\<lparr>ct_pc := RIdle\<rparr>"]) (use pc in simp_all)
  moreover have "ptr_inv (set_pc i RIdle \<sigma>)" unfolding set_pc_def
    by (rule ptr_inv_ctl [OF i(1) ctl_ok_pc [OF ptr_invD(1) [OF i(1)]]]) (use pc in \<open>simp_all add: ctl_reg_def ctl_live_def\<close>)
  ultimately show ?thesis using i(2) by (simp add: table_inv_def set_pc_def res_set_ctl)
qed

lemma ctl_next_inv:
  assumes inv: "table_inv A B ne uni s \<sigma>" and e: "ev_env uni opts \<sigma> (i, EvNext env)"
  shows "\<exists>\<sigma>'. ctl_next env s i \<sigma> = Some \<sigma>' \<and> table_inv A B ne uni s \<sigma>'"
proof (cases "ct_pc (tb_ctls \<sigma> i)")
  case (RExist a name)
  with e show ?thesis using reg_run_inv [OF inv RExist, of env] by (simp add: ev_env_def ctl_next_def)
next
  case (RRan a name)
  with e show ?thesis using reg_add_inv [OF inv RRan, of env] by (simp add: ev_env_def ctl_next_def)
next
  case (RClosing as)
  show ?thesis
  proof (cases as)
    case Nil
    with RClosing show ?thesis using closing_done_inv [OF inv] by (simp add: ctl_next_def)
  next
    case (Cons a rest)
    with RClosing e show ?thesis using close_one_inv [OF inv, of i a rest env] by (simp add: ev_env_def ctl_next_def)
  qed
qed (use inv reg_exist_inv [OF inv] reg_record_inv [OF inv] close_del_inv [OF inv] in \<open>simp_all add: ctl_next_def\<close>)

lemma ctl_step_inv:
  assumes inv: "table_inv A B ne uni s \<sigma>" and e: "ev_env uni opts \<sigma> (i, ev)"
  shows "\<exists>\<sigma>'. ctl_step s opts \<sigma> (i, ev) = Some \<sigma>' \<and> table_inv A B ne uni s \<sigma>'"
proof (cases ev)
  case EvJoin
  have "ptr_inv (join_control (opts i) \<sigma>) = ptr_inv \<sigma>" "quota_inv s (join_control (opts i) \<sigma>) = quota_inv s \<sigma>"
    by (simp_all add: ptr_inv_def quota_inv_def join_control_def)
  with EvJoin inv e join_res [of A B ne uni \<sigma> "opts i"] show ?thesis by (simp add: ctl_step_def ev_env_def table_inv_def)
next
  case (EvNewProxy cenv m)
  have "table_inv A B ne uni s (reg_begin s (opts i) cenv m i \<sigma>)" if "ct_pc (tb_ctls \<sigma> i) = RIdle"
    using inv that by (simp add: table_inv_def reg_begin_ptr reg_begin_res reg_begin_quota)
  with EvNewProxy inv show ?thesis by (simp add: ctl_step_def)
next
  case (EvInterrupt names sids)
  with e obtain \<sigma>' where s': "interrupt names sids (opts i) \<sigma> = Some \<sigma>'" "res_inv A B ne uni \<sigma>'" and
    f: "tb_ctls \<sigma>' = tb_ctls \<sigma>" "tb_pxys \<sigma>' = tb_pxys \<sigma>" "tb_objs \<sigma>' = tb_objs \<sigma>" "tb_n \<sigma>' = tb_n \<sigma>" "tb_owner \<sigma>' = tb_owner \<sigma>"
      "tb_live \<sigma>' = tb_live \<sigma>"
    using interrupt_res [of A B ne uni \<sigma> names sids "opts i"] inv by (auto simp: ev_env_def table_inv_def)
  have "ptr_inv \<sigma>' = ptr_inv \<sigma>" "quota_inv s \<sigma>' = quota_inv s \<sigma>" unfolding ptr_inv_def quota_inv_def f by (rule refl)+
  with EvInterrupt inv s' show ?thesis by (simp add: ctl_step_def table_inv_def)
qed (use inv e ctl_next_inv [OF inv] close_begin_inv [OF inv] teardown_begin_inv [OF inv] in \<open>simp_all add: ctl_step_def ev_env_def\<close>)

lemma table_run_inv:
  assumes "table_inv A B ne uni s \<sigma>" and "evs_env uni s opts es \<sigma>"
  shows "\<exists>\<sigma>'. table_run s opts es \<sigma> = Some \<sigma>' \<and> table_inv A B ne uni s \<sigma>'"
  using assms
proof (induction es arbitrary: \<sigma>)
  case (Cons e es)
  obtain i ev where e: "e = (i, ev)" by (cases e)
  from ctl_step_inv [OF Cons.prems(1), of opts i ev] Cons.prems(2) e
  obtain \<sigma>1 where s1: "ctl_step s opts \<sigma> e = Some \<sigma>1" and i1: "table_inv A B ne uni s \<sigma>1" by auto
  with Cons.IH [OF i1] Cons.prems(2) show ?case by simp
qed simp

lemma new_table_inv:
  fixes objs :: "nat \<Rightarrow> 'c BaseProxy"
  assumes "0 \<notin> allowed tcp" and "0 \<notin> allowed udp" and "nathole \<in> {None, Some (NewController reserve cs ss)}"
  shows "table_inv (allowed tcp) (allowed udp) ne uni s (new_table (NewResourceController tcp udp nathole) objs)"
proof -
  let ?rc = "NewResourceController tcp udp nathole :: 'c ResourceController"
  from NewResourceController_accounted [OF assms, of ne uni]
  obtain K where "rc_inv (allowed tcp) (allowed udp) ne K uni ?rc" and h: "rc_held uni ?rc = {}"
    by (auto simp: accounted_def)
  then have "rc_inv (allowed tcp) (allowed udp) ne (nh_ids ?rc) uni ?rc" using rc_inv_ids by metis
  then have "res_inv (allowed tcp) (allowed udp) ne uni (new_table ?rc objs)"
    using h by (simp add: res_inv_def new_table_def)
  moreover have "ptr_inv (new_table ?rc objs)"
    by (simp add: ptr_inv_def new_table_def ctl_ok_def ctl_ptrs_def ctl_reg_def ctl_live_def)
  moreover have "quota_inv s (new_table ?rc objs)" by (simp add: quota_inv_def new_table_def quota_ok_def ctl_used_def)
  ultimately show ?thesis by (simp add: table_inv_def)
qed

section \<open>Properties\<close>


text \<open>
  C31. A client never gets more ports than its quota. With \<open>maxPortsPerClient\<close> set, in every interleaving the
  proxies a connected control lists use at most so many ports together, also after registrations that failed
  at any step and after proxies were closed; and while the control handles no message, the number it keeps
  is exactly what its proxies use, so no part of the quota is lost.
\<close>

theorem ports_per_client:
  assumes "0 \<notin> allowed tcp" and "0 \<notin> allowed udp" and "nathole \<in> {None, Some (NewController reserve cs ss)}"
    and "evs_env uni s opts es (new_table (NewResourceController tcp udp nathole) objs)" and "MaxPortsPerClient s > 0"
  shows "\<exists>\<sigma>. table_run s opts es (new_table (NewResourceController tcp udp nathole) objs) = Some \<sigma> \<and>
    (\<forall>i. \<not> ct_gone (tb_ctls \<sigma> i) \<longrightarrow>
       (\<Sum>a \<in> ran (ct_proxies (tb_ctls \<sigma> i)). px_usedPortsNum (tb_objs \<sigma> a)) \<le> MaxPortsPerClient s \<and>
       (ct_pc (tb_ctls \<sigma> i) = RIdle \<longrightarrow>
          ct_portsUsedNum (tb_ctls \<sigma> i) = (\<Sum>a \<in> ran (ct_proxies (tb_ctls \<sigma> i)). px_usedPortsNum (tb_objs \<sigma> a))))"
proof -
  from table_run_inv [OF new_table_inv [OF assms(1-3), of undefined] assms(4)]
  obtain \<sigma> where run: "table_run s opts es (new_table (NewResourceController tcp udp nathole) objs) = Some \<sigma>"
    and p: "ptr_inv \<sigma>" and q: "quota_inv s \<sigma>" by (auto simp: table_inv_def)
  have ok: "quota_ok s (tb_objs \<sigma>) (tb_ctls \<sigma> i)" for i using q assms(5) by (simp add: quota_inv_def)
  have n: "px_usedPortsNum (tb_objs \<sigma> a) \<ge> 0" if "a \<in> ctl_ptrs (tb_ctls \<sigma> i)" for a i
    using that q ctl_okD(1) [OF ptr_invD(1) [OF p]] by (simp add: quota_inv_def)
  have le: "(\<Sum>a \<in> ran (ct_proxies (tb_ctls \<sigma> i)). px_usedPortsNum (tb_objs \<sigma> a)) \<le> ctl_used (tb_objs \<sigma>) (tb_ctls \<sigma> i)" for i
    unfolding ctl_used_def
  proof (rule sum_mono2)
    show "finite (ran (ct_proxies (tb_ctls \<sigma> i)) \<union> pc_used (ct_pc (tb_ctls \<sigma> i)))"
      using ok [of i] finite_pc_used by (simp add: quota_ok_def)
    show "px_usedPortsNum (tb_objs \<sigma> b) \<ge> 0"
      if "b \<in> ran (ct_proxies (tb_ctls \<sigma> i)) \<union> pc_used (ct_pc (tb_ctls \<sigma> i)) - ran (ct_proxies (tb_ctls \<sigma> i))" for b
      using that pc_subsets(3) by (intro n [of b i]) (auto simp: ctl_ptrs_def)
  qed simp
  have "(\<Sum>a \<in> ran (ct_proxies (tb_ctls \<sigma> i)). px_usedPortsNum (tb_objs \<sigma> a)) \<le> MaxPortsPerClient s"
    and "ct_pc (tb_ctls \<sigma> i) = RIdle \<Longrightarrow>
      ct_portsUsedNum (tb_ctls \<sigma> i) = (\<Sum>a \<in> ran (ct_proxies (tb_ctls \<sigma> i)). px_usedPortsNum (tb_objs \<sigma> a))"
    if "\<not> ct_gone (tb_ctls \<sigma> i)" for i
    using that ok [of i] le [of i] by (simp_all add: quota_ok_def ctl_used_def)
  with run show ?thesis by blast
qed

text \<open>
  Two controls with a quota of one port: the first registers a proxy, the second is refused the same name
  and, later, a second port; the first closes its proxy.
\<close>

definition demo_quota_server :: ServerConfig where
  "demo_quota_server = demo_server\<lparr>MaxPortsPerClient := 1\<rparr>"

definition demo_msg :: NewProxy where
  "demo_msg = empty_NewProxy\<lparr>np_ProxyName := ''ssh'', np_ProxyType := ''tcp'', np_RemotePort := 20\<rparr>"

definition demo_cfg :: ProxyConfigurer where
  "demo_cfg = projr (NewProxyConfigurerFromMsg demo_env demo_msg demo_quota_server)"

lemma demo_cfg_accepted: "NewProxyConfigurerFromMsg demo_env demo_msg demo_quota_server = Inr demo_cfg"
proof -
  have "\<not> isl (NewProxyConfigurerFromMsg demo_env demo_msg demo_quota_server)" by code_simp
  then show ?thesis by (auto simp: demo_cfg_def isl_def intro: sum.exhaust_sel)
qed

lemma demo_cfg_details: "pc_details demo_cfg = TCP_cfg \<lparr>tcp_RemotePort = 20\<rparr>"
proof -
  have "(case pc_details demo_cfg of TCP_cfg t \<Rightarrow> t = \<lparr>tcp_RemotePort = 20\<rparr> | _ \<Rightarrow> False)" by code_simp
  then show ?thesis by (simp split: proxy_details.splits)
qed

lemma demo_cfg_simps:
  "pb_Name (pc_base demo_cfg) = ''ssh''" "lb_Group (pb_LoadBalancer (pc_base demo_cfg)) = []" "np_ProxyName demo_msg = ''ssh''" 
  "MaxPortsPerClient demo_quota_server = 1"
  by code_simp+

definition demo_next :: "unit ctl_ev" where
  "demo_next = EvNext (demo_run_env [] (\<lambda>k. k = 20))"

definition demo_register :: "(nat \<times> unit ctl_ev) list" where
  "demo_register =
     [(0, EvJoin), (1, EvJoin), (0, EvNewProxy demo_env demo_msg), (1, EvNewProxy demo_env demo_msg), (0, demo_next),
      (0, EvNext (demo_run_env [20] (\<lambda>k. k = 20))), (0, demo_next), (1, demo_next), (0, demo_next)]"

definition demo_close :: "(nat \<times> unit ctl_ev) list" where
  "demo_close = [(0, EvNewProxy demo_env demo_msg), (0, EvCloseProxy ''ssh''), (0, demo_next), (0, demo_next)]"

definition demo_table :: "unit table" where
  "demo_table = new_table (NewResourceController demo_one demo_one None) (\<lambda>_. NewServerProxy demo_cfg demo_options)"

lemmas table_simps =
  demo_register_def demo_close_def demo_next_def demo_table_def new_table_def ctl_step_def ctl_next_def reg_begin_def reg_exist_def
  reg_run_def reg_add_def reg_record_def reg_fail_def close_begin_def close_one_def close_del_def close_obj_def set_pc_def set_ctl_def
  take_quota_def return_quota_def Manager_Add_def Manager_Exist_def Manager_Del_def join_control_def ev_env_def demo_cfg_simps demo_cfg_accepted demo_cfg_details

lemma demo_register_env:
  "evs_env id demo_quota_server (\<lambda>_. demo_options) demo_register demo_table"
  by (simp add: table_simps demo_simps) (simp add: NewManager_def)

lemma demo_close_env:
  "evs_env id demo_quota_server (\<lambda>_. demo_options) (demo_register @ demo_close) demo_table"
  by (simp add: table_simps demo_simps) (simp add: NewManager_def)

lemma demo_register_run:
  "map_option (\<lambda>\<sigma>. (ct_proxies (tb_ctls \<sigma> 0), ct_gone (tb_ctls \<sigma> 0), ct_pc (tb_ctls \<sigma> 0), tb_ctls \<sigma> 1))
     (table_run demo_quota_server (\<lambda>_. demo_options) demo_register demo_table) =
   Some ([''ssh'' \<mapsto> 0], False, RIdle, \<lparr>ct_portsUsedNum = 0, ct_proxies = Map.empty, ct_pc = RIdle, ct_gone = False\<rparr>)"
  by (simp add: table_simps demo_simps) 

lemma demo_close_run:
  "map_option (\<lambda>\<sigma>. tb_ctls \<sigma>) (table_run demo_quota_server (\<lambda>_. demo_options) (demo_register @ demo_close) demo_table) =
   Some (\<lambda>_. \<lparr>ct_portsUsedNum = 0, ct_proxies = Map.empty, ct_pc = RIdle, ct_gone = False\<rparr>)"
  by (simp add: table_simps demo_simps fun_eq_iff)


theorem ports_per_client_witness:
  "\<exists>\<sigma>. table_run demo_quota_server (\<lambda>_. demo_options) demo_register demo_table = Some \<sigma> \<and>
     ct_proxies (tb_ctls \<sigma> 0) = [''ssh'' \<mapsto> 0] \<and> px_usedPortsNum (tb_objs \<sigma> 0) \<le> 1 \<and>
     ct_portsUsedNum (tb_ctls \<sigma> 0) = px_usedPortsNum (tb_objs \<sigma> 0)"
proof -
  from ports_per_client [where nathole = None, OF _ _ _ demo_register_env [unfolded demo_table_def]]
  obtain \<sigma> where s: "table_run demo_quota_server (\<lambda>_. demo_options) demo_register demo_table = Some \<sigma>"
    and e: "\<And>i. \<not> ct_gone (tb_ctls \<sigma> i) \<Longrightarrow>
       (\<Sum>a \<in> ran (ct_proxies (tb_ctls \<sigma> i)). px_usedPortsNum (tb_objs \<sigma> a)) \<le> 1 \<and>
       (ct_pc (tb_ctls \<sigma> i) = RIdle \<longrightarrow>
          ct_portsUsedNum (tb_ctls \<sigma> i) = (\<Sum>a \<in> ran (ct_proxies (tb_ctls \<sigma> i)). px_usedPortsNum (tb_objs \<sigma> a)))"
    by (auto simp: demo_allowed demo_table_def demo_cfg_simps)
  moreover have "ct_proxies (tb_ctls \<sigma> 0) = [''ssh'' \<mapsto> 0]" "\<not> ct_gone (tb_ctls \<sigma> 0)" "ct_pc (tb_ctls \<sigma> 0) = RIdle"
    using demo_register_run unfolding s by simp_all
  ultimately show ?thesis using e [of 0] by simp
qed

end
