(* ===== verification/Backoff.thy ===== *)
theory Backoff
  imports Complex_Main
begin

text \<open>
  Retrying with increasing delays: \<open>pkg/util/wait/backoff.go\<close>, which the client uses to log in, to reconnect
  and to send heartbeats (\<open>client/service.go\<close>, \<open>client/control.go\<close>). Durations and times are nanoseconds, the
  zero time is \<open>None\<close>. The product of a duration and a floating-point factor, converted back to a duration, is
  the argument \<open>fm\<close>; the random number of a call and the time of a call are arguments too. A ticker panics
  when it is given a duration that is not positive, so that a loop has the panic as one of its results.
\<close>

section \<open>The backoff manager\<close>

record FastBackoffOptions =
  Duration :: int
  Factor :: rat
  JitterFactor :: rat
  MaxDuration :: int
  InitDurationIfFail :: int
  FastRetryCount :: int
  FastRetryDelay :: int
  FastRetryJitter :: rat
  FastRetryWindow :: int

record fastBackoffImpl =
  lastCalledTime :: "int option"
  consecutiveErrCount :: int
  fastRetryCutoffTime :: "int option"
  countsInFastRetryWindow :: int

definition NewFastBackoffManager :: fastBackoffImpl where
  "NewFastBackoffManager =
     \<lparr>lastCalledTime = None, consecutiveErrCount = 0, fastRetryCutoffTime = None, countsInFastRetryWindow = 1\<rparr>"

definition EmptyOr :: "int \<Rightarrow> int \<Rightarrow> int" where
  "EmptyOr v fallback = (if v = 0 then fallback else v)"

definition Jitter :: "(rat \<Rightarrow> int \<Rightarrow> int) \<Rightarrow> rat \<Rightarrow> int \<Rightarrow> rat \<Rightarrow> int" where
  "Jitter fm r d maxFactor = (let mf = if maxFactor \<le> 0 then 1 else maxFactor in d + fm (r * mf) d)"

definition Second :: int where
  "Second = 1000000000"

definition after_cutoff :: "int \<Rightarrow> int option \<Rightarrow> bool" where
  "after_cutoff now c = (case c of None \<Rightarrow> True | Some t \<Rightarrow> now > t)"

text \<open>The delay after an error outside the fast retries.\<close>

definition slow_delay :: "(rat \<Rightarrow> int \<Rightarrow> int) \<Rightarrow> FastBackoffOptions \<Rightarrow> int \<Rightarrow> int \<Rightarrow> rat \<Rightarrow> int" where
  "slow_delay fm opt errs prev r =
     (let d0 = EmptyOr (if errs = 1 then EmptyOr (InitDurationIfFail opt) prev else prev) Second;
          d1 = if Factor opt \<noteq> 0 then fm (Factor opt) d0 else d0;
          d2 = if JitterFactor opt > 0 then Jitter fm r d1 (JitterFactor opt) else d1
      in if MaxDuration opt > 0 \<and> d2 > MaxDuration opt then MaxDuration opt else d2)"

definition Backoff_call ::
    "(rat \<Rightarrow> int \<Rightarrow> int) \<Rightarrow> FastBackoffOptions \<Rightarrow> fastBackoffImpl \<Rightarrow> int \<Rightarrow> bool \<Rightarrow> int \<Rightarrow> rat \<Rightarrow> fastBackoffImpl \<times> int" where
  "Backoff_call fm opt f prev err now r =
     (if lastCalledTime f = None then (f\<lparr>lastCalledTime := Some now\<rparr>, Duration opt)
      else
        let f1 = f\<lparr>lastCalledTime := Some now, consecutiveErrCount := (if err then consecutiveErrCount f + 1 else 0)\<rparr> in
        if FastRetryCount opt > 0 \<and> err
        then let f2 = f1\<lparr>countsInFastRetryWindow := countsInFastRetryWindow f1 + 1\<rparr> in
             if countsInFastRetryWindow f2 \<le> FastRetryCount opt then (f2, Jitter fm r (FastRetryDelay opt) (FastRetryJitter opt))
             else let f3 = (if after_cutoff now (fastRetryCutoffTime f2)
                            then f2\<lparr>fastRetryCutoffTime := Some (now + FastRetryWindow opt), countsInFastRetryWindow := 0\<rparr>
                            else f2)
                  in (f3, slow_delay fm opt (consecutiveErrCount f3) prev r)
        else if err then (f1, slow_delay fm opt (consecutiveErrCount f1) prev r)
        else (f1, Duration opt))"

section \<open>The retry loop\<close>

text \<open>
  One round of \<open>BackoffUntil\<close> as its environment decides it: whether the stop channel is closed at the two
  places where the loop looks, what the function returns, and the time and the random number of the call
  of \<open>Backoff\<close>.
\<close>

datatype outcome = FDone | FErr | FOk

record round =
  stop_before :: bool
  result :: outcome
  stop_after :: bool
  now :: int
  rnd :: rat

datatype loop_end = LoopStopped | LoopDone | LoopPanic | LoopRunning

text \<open>
  The loop with \<open>sliding\<close>, which all callers pass: the delay is computed after the function has returned. The
  result has the delays that were waited for.
\<close>

fun backoff_rounds ::
    "(rat \<Rightarrow> int \<Rightarrow> int) \<Rightarrow> FastBackoffOptions \<Rightarrow> fastBackoffImpl \<Rightarrow> int \<Rightarrow> round list \<Rightarrow> loop_end \<times> int list" where
  "backoff_rounds fm opt f delay [] = (LoopRunning, [])"
| "backoff_rounds fm opt f delay (e # es) =
     (if stop_before e then (LoopStopped, [])
      else if result e = FDone then (LoopDone, [])
      else case Backoff_call fm opt f delay (result e = FErr) (now e) (rnd e) of
        (f', d) \<Rightarrow>
          if d \<le> 0 then (LoopPanic, [])
          else if stop_after e then (LoopStopped, [d])
          else map_prod id (Cons d) (backoff_rounds fm opt f' d es))"

definition BackoffUntil :: "(rat \<Rightarrow> int \<Rightarrow> int) \<Rightarrow> FastBackoffOptions \<Rightarrow> int \<Rightarrow> rat \<Rightarrow> round list \<Rightarrow> loop_end \<times> int list" where
  "BackoffUntil fm opt t0 r0 es =
     (case Backoff_call fm opt NewFastBackoffManager 0 False t0 r0 of
        (f, d) \<Rightarrow> if d \<le> 0 then (LoopPanic, []) else backoff_rounds fm opt f 0 es)"

text \<open>The options of the two loops of the client service.\<close>

definition login_options :: "int \<Rightarrow> FastBackoffOptions" where
  "login_options maxInterval =
     \<lparr>Duration = Second, Factor = 2, JitterFactor = 1 / 10, MaxDuration = maxInterval, InitDurationIfFail = 0, FastRetryCount = 0,
      FastRetryDelay = 0, FastRetryJitter = 0, FastRetryWindow = 0\<rparr>"

definition keep_options :: FastBackoffOptions where
  "keep_options =
     \<lparr>Duration = Second, Factor = 2, JitterFactor = 1 / 10, MaxDuration = 20 * Second, InitDurationIfFail = 0, FastRetryCount = 3,
      FastRetryDelay = 200000000, FastRetryJitter = 1 / 2, FastRetryWindow = 60 * Second\<rparr>"

section \<open>Delays\<close>

text \<open>
  What is used of floating-point multiplication, for durations that a double holds exactly: the result is
  not negative, a factor of at least one keeps a positive duration positive, a factor of at most one
  does not increase it, and multiplication by two is exact.
\<close>

definition float_ok :: "(rat \<Rightarrow> int \<Rightarrow> int) \<Rightarrow> bool" where
  "float_ok fm \<longleftrightarrow>
     (\<forall>x d. 0 \<le> x \<longrightarrow> 0 \<le> d \<longrightarrow> 0 \<le> fm x d) \<and> (\<forall>x d. 1 \<le> x \<longrightarrow> 0 < d \<longrightarrow> 0 < fm x d) \<and>
     (\<forall>x d. 0 \<le> x \<longrightarrow> x \<le> 1 \<longrightarrow> 0 \<le> d \<longrightarrow> d < 2 ^ 53 \<longrightarrow> fm x d \<le> d) \<and>
     (\<forall>d. 0 \<le> d \<longrightarrow> d < 2 ^ 53 \<longrightarrow> fm 2 d = 2 * d)"

definition options_ok :: "FastBackoffOptions \<Rightarrow> bool" where
  "options_ok opt \<longleftrightarrow>
     0 < Duration opt \<and> Duration opt \<le> MaxDuration opt \<and> 0 \<le> InitDurationIfFail opt \<and> (Factor opt = 0 \<or> Factor opt \<ge> 1) \<and>
     (FastRetryCount opt > 0 \<longrightarrow> 0 < FastRetryDelay opt \<and> FastRetryDelay opt < 2 ^ 53 \<and> 0 \<le> FastRetryWindow opt) \<and>
     FastRetryJitter opt \<le> 1"

definition rounds_ok :: "round list \<Rightarrow> bool" where
  "rounds_ok es \<longleftrightarrow> (\<forall>e \<in> set es. 0 \<le> rnd e \<and> rnd e < 1)"

definition delay_bound :: "FastBackoffOptions \<Rightarrow> int" where
  "delay_bound opt = (if FastRetryCount opt > 0 then max (MaxDuration opt) (2 * FastRetryDelay opt) else MaxDuration opt)"

lemma Jitter_bounds:
  assumes "float_ok fm" "0 \<le> r" "r < 1" "0 < d"
  shows "d \<le> Jitter fm r d m" and "m \<le> 1 \<Longrightarrow> d < 2 ^ 53 \<Longrightarrow> Jitter fm r d m \<le> 2 * d"
proof -
  let ?m = "if m \<le> 0 then 1 else m"
  have m: "0 \<le> r * ?m" using assms(2) by simp
  then show "d \<le> Jitter fm r d m" using assms by (auto simp: Jitter_def float_ok_def Let_def)
  show "Jitter fm r d m \<le> 2 * d" if "m \<le> 1" "d < 2 ^ 53"
  proof -
    have "r * ?m \<le> 1" using that assms(2,3) by (intro mult_le_one) simp_all
    then have "fm (r * ?m) d \<le> d" using m that assms by (simp add: float_ok_def)
    then show ?thesis by (simp add: Jitter_def Let_def)
  qed
qed

lemma slow_delay_bounds:
  assumes "float_ok fm" "options_ok opt" "0 \<le> r" "r < 1" "0 \<le> prev"
  shows "0 < slow_delay fm opt n prev r" "slow_delay fm opt n prev r \<le> MaxDuration opt"
proof -
  define d0 where "d0 = EmptyOr (if n = 1 then EmptyOr (InitDurationIfFail opt) prev else prev) Second"
  define d1 where "d1 = (if Factor opt \<noteq> 0 then fm (Factor opt) d0 else d0)"
  have 0: "0 < d0" using assms(2,5) by (auto simp: d0_def EmptyOr_def Second_def options_ok_def)
  have 1: "0 < d1" using 0 assms(1,2) by (auto simp: d1_def float_ok_def options_ok_def)
  show "0 < slow_delay fm opt n prev r" "slow_delay fm opt n prev r \<le> MaxDuration opt"
    using 1 Jitter_bounds(1) [OF assms(1,3,4) 1, of "JitterFactor opt"] assms(2)
    unfolding slow_delay_def Let_def d0_def [symmetric] d1_def [symmetric] by (auto simp: options_ok_def)
qed

lemma Backoff_call_bounds:
  assumes ok: "float_ok fm" "options_ok opt" and r: "0 \<le> r" "r < 1" "0 \<le> prev" and c: "Backoff_call fm opt f prev err t r = (f', d)"
  shows "0 < d \<and> d \<le> delay_bound opt"
proof -
  note s = slow_delay_bounds [OF ok r]
  have "0 < Jitter fm r (FastRetryDelay opt) (FastRetryJitter opt) \<and>
      Jitter fm r (FastRetryDelay opt) (FastRetryJitter opt) \<le> 2 * FastRetryDelay opt" if "FastRetryCount opt > 0"
    using that ok(2) Jitter_bounds [OF ok(1) r(1,2), of "FastRetryDelay opt" "FastRetryJitter opt"] by (auto simp: options_ok_def)
  then show ?thesis
    using c s [of "consecutiveErrCount f + 1"] ok(2)
    by (auto simp: Backoff_call_def Let_def delay_bound_def options_ok_def le_max_iff_disj split: if_splits)
qed

lemma backoff_rounds_sound:
  assumes "float_ok fm" "options_ok opt" "rounds_ok es" "0 \<le> delay" "backoff_rounds fm opt f delay es = (e, ds)"
  shows "e \<noteq> LoopPanic \<and> (\<forall>d \<in> set ds. 0 < d \<and> d \<le> delay_bound opt)"
  using assms(3-5)
proof (induction es arbitrary: f delay e ds)
  case (Cons x es)
  obtain f' d where c: "Backoff_call fm opt f delay (result x = FErr) (now x) (rnd x) = (f', d)" by fastforce
  have b: "0 < d \<and> d \<le> delay_bound opt"
    by (rule Backoff_call_bounds [OF assms(1,2) _ _ Cons.prems(2) c]) (use Cons.prems(1) in \<open>simp_all add: rounds_ok_def\<close>)
  obtain e' ds' where rec: "backoff_rounds fm opt f' d es = (e', ds')" by fastforce
  have "e' \<noteq> LoopPanic \<and> (\<forall>d \<in> set ds'. 0 < d \<and> d \<le> delay_bound opt)"
    by (rule Cons.IH [OF _ _ rec]) (use Cons.prems(1) b in \<open>simp_all add: rounds_ok_def\<close>)
  then show ?case using Cons.prems(3) c b rec by (auto split: if_splits)
qed simp

text \<open>Which calls are fast retries, and how many of the rounds have one.\<close>

definition is_fast :: "FastBackoffOptions \<Rightarrow> fastBackoffImpl \<Rightarrow> bool \<Rightarrow> bool" where
  "is_fast opt f err \<longleftrightarrow>
     lastCalledTime f \<noteq> None \<and> FastRetryCount opt > 0 \<and> err \<and> countsInFastRetryWindow f + 1 \<le> FastRetryCount opt"

fun fast_rounds :: "(rat \<Rightarrow> int \<Rightarrow> int) \<Rightarrow> FastBackoffOptions \<Rightarrow> fastBackoffImpl \<Rightarrow> int \<Rightarrow> round list \<Rightarrow> int" where
  "fast_rounds fm opt f delay [] = 0"
| "fast_rounds fm opt f delay (e # es) =
     (if stop_before e \<or> result e = FDone then 0
      else case Backoff_call fm opt f delay (result e = FErr) (now e) (rnd e) of
        (f', d) \<Rightarrow>
          if d \<le> 0 then 0
          else (if is_fast opt f (result e = FErr) then 1 else 0) + (if stop_after e then 0 else fast_rounds fm opt f' d es))"

text \<open>How many fast retries a state still allows until time \<open>T\<close>.\<close>

definition fast_budget :: "FastBackoffOptions \<Rightarrow> int \<Rightarrow> int \<Rightarrow> fastBackoffImpl \<Rightarrow> int" where
  "fast_budget opt t0 T f =
     max 0 (FastRetryCount opt - countsInFastRetryWindow f) +
     (case fastRetryCutoffTime f of
        None \<Rightarrow> FastRetryCount opt * (1 + (T - t0) div FastRetryWindow opt)
      | Some u \<Rightarrow> if T > u then FastRetryCount opt * (1 + (T - u) div FastRetryWindow opt) else 0)"

lemma div_next: "(0::int) < W \<Longrightarrow> 1 + (x - W) div W = x div W"
  using div_add_self2 [of W "x - W"] by simp

lemma fast_budget_step:
  assumes n: "0 < FastRetryCount opt" "0 < FastRetryWindow opt" and t: "t0 \<le> t" "t \<le> T" "lastCalledTime f \<noteq> None"
    and c: "Backoff_call fm opt f delay err t r = (f', d)"
  shows "(if is_fast opt f err then 1 else 0) + fast_budget opt t0 T f' \<le> fast_budget opt t0 T f" and "lastCalledTime f' \<noteq> None"
proof -
  let ?N = "FastRetryCount opt" and ?W = "FastRetryWindow opt"
  have reset: "?N + (if T > t + ?W then ?N * (1 + (T - (t + ?W)) div ?W) else 0) \<le> ?N * (1 + (T - u) div ?W)" if "u \<le> t" for u
  proof -
    have "1 + (T - (t + ?W)) div ?W = (T - t) div ?W" using div_next [OF n(2), of "T - t"] by (simp add: algebra_simps)
    moreover have "(T - t) div ?W \<le> (T - u) div ?W" using that n(2) by (intro zdiv_mono1) simp_all
    moreover have "0 \<le> (T - u) div ?W" using that t n(2) by (simp add: pos_imp_zdiv_nonneg_iff)
    ultimately show ?thesis using n(1) by (simp add: distrib_left mult_left_mono)
  qed
  show "(if is_fast opt f err then 1 else 0) + fast_budget opt t0 T f' \<le> fast_budget opt t0 T f"
  proof (cases "err \<and> countsInFastRetryWindow f + 1 > ?N \<and> after_cutoff t (fastRetryCutoffTime f)")
    case True
    then have "f' = f\<lparr>lastCalledTime := Some t, consecutiveErrCount := consecutiveErrCount f + 1, countsInFastRetryWindow := 0,
        fastRetryCutoffTime := Some (t + ?W)\<rparr>"
      using c t(3) n(1) by (auto simp: Backoff_call_def Let_def)
    then show ?thesis
      using True reset [of t0] reset t n(1)
      by (auto simp: fast_budget_def is_fast_def after_cutoff_def split: option.splits)
  next
    case False
    then show ?thesis using c t(3) n(1) by (auto simp: fast_budget_def is_fast_def Backoff_call_def Let_def split: if_splits option.splits)
  qed
  show "lastCalledTime f' \<noteq> None" using c by (auto simp: Backoff_call_def Let_def split: if_splits)
qed

lemma fast_rounds_budget:
  assumes n: "0 < FastRetryCount opt" "0 < FastRetryWindow opt"
    and t: "\<forall>e \<in> set es. t0 \<le> now e \<and> now e \<le> T" "lastCalledTime f \<noteq> None" "t0 \<le> T"
  shows "fast_rounds fm opt f delay es \<le> fast_budget opt t0 T f"
  using t(1,2)
proof (induction es arbitrary: f delay)
  case Nil
  have "0 \<le> (T - t0) div FastRetryWindow opt" using t(3) n(2) by (simp add: pos_imp_zdiv_nonneg_iff)
  then show ?case using n by (auto simp: fast_budget_def pos_imp_zdiv_nonneg_iff split: option.splits)
next
  case (Cons x es)
  obtain f' d where c: "Backoff_call fm opt f delay (result x = FErr) (now x) (rnd x) = (f', d)" by fastforce
  have s: "(if is_fast opt f (result x = FErr) then 1 else 0) + fast_budget opt t0 T f' \<le> fast_budget opt t0 T f" "lastCalledTime f' \<noteq> None"
    using fast_budget_step [OF n _ _ Cons.prems(2) c, of t0 T] Cons.prems(1) by auto
  have "0 \<le> fast_budget opt t0 T g" for g
    using n t(3) by (auto simp: fast_budget_def pos_imp_zdiv_nonneg_iff split: option.splits)
  from this [of f] this [of f'] have "0 \<le> fast_budget opt t0 T f" "0 \<le> fast_budget opt t0 T f'" .
  moreover have "fast_rounds fm opt f' d es \<le> fast_budget opt t0 T f'" using Cons.IH [OF _ s(2)] Cons.prems(1) by simp
  ultimately show ?case using s(1) by (simp add: c)
qed

section \<open>Properties\<close>

lemma backoff_rounds_done:
  assumes "float_ok fm" "options_ok opt" "rounds_ok es" "0 \<le> delay" "k < length es" "result (es ! k) = FDone"
    and "\<And>j. j < k \<Longrightarrow> result (es ! j) \<noteq> FDone \<and> \<not> stop_after (es ! j)" and "\<And>j. j \<le> k \<Longrightarrow> \<not> stop_before (es ! j)"
  shows "\<exists>ds. backoff_rounds fm opt f delay es = (LoopDone, ds) \<and> length ds = k"
  using assms(3-)
proof (induction es arbitrary: f delay k)
  case (Cons x es)
  obtain f' d where c: "Backoff_call fm opt f delay (result x = FErr) (now x) (rnd x) = (f', d)" by fastforce
  have b: "0 < d"
    using Backoff_call_bounds [OF assms(1,2) _ _ Cons.prems(2) c] Cons.prems(1) by (simp add: rounds_ok_def)
  have x: "\<not> stop_before x" using Cons.prems(6) [of 0] by simp
  show ?case
  proof (cases k)
    case 0
    then show ?thesis using x Cons.prems(4) by simp
  next
    case (Suc m)
    have "\<exists>ds. backoff_rounds fm opt f' d es = (LoopDone, ds) \<and> length ds = m"
    proof (rule Cons.IH)
      show "result (es ! j) \<noteq> FDone \<and> \<not> stop_after (es ! j)" if "j < m" for j using Cons.prems(5) [of "Suc j"] that Suc by simp
      show "\<not> stop_before (es ! j)" if "j \<le> m" for j using Cons.prems(6) [of "Suc j"] that Suc by simp
    qed (use Cons.prems Suc b in \<open>simp_all add: rounds_ok_def\<close>)
    then show ?thesis using x Cons.prems(5) [of 0] Suc c b by auto
  qed
qed simp

lemma BackoffUntil_rounds:
  assumes "options_ok opt"
  shows "BackoffUntil fm opt t0 r0 es = backoff_rounds fm opt (NewFastBackoffManager\<lparr>lastCalledTime := Some t0\<rparr>) 0 es"
  using assms by (simp add: BackoffUntil_def Backoff_call_def NewFastBackoffManager_def options_ok_def)


text \<open>A product that is rounded down.\<close>

definition demo_float :: "rat \<Rightarrow> int \<Rightarrow> int" where
  "demo_float x d = \<lfloor>x * of_int d\<rfloor>"

lemma demo_float_ok: "float_ok demo_float"
proof -
  have "0 \<le> \<lfloor>x * of_int d\<rfloor>" if "0 \<le> x" "0 \<le> d" for x :: rat and d :: int using that by simp
  moreover have "0 < \<lfloor>x * of_int d\<rfloor>" if x: "1 \<le> x" and d: "0 < d" for x :: rat and d :: int
  proof -
    have "1 * 1 \<le> x * of_int d" using x d by (intro mult_mono) simp_all
    then show ?thesis by simp
  qed
  moreover have "\<lfloor>x * of_int d\<rfloor> \<le> d" if "0 \<le> x" "x \<le> 1" "0 \<le> d" for x :: rat and d :: int
  proof -
    have "x * of_int d \<le> 1 * of_int d" using that by (intro mult_right_mono) simp_all
    then show ?thesis by (simp add: floor_le_iff)
  qed
  moreover have "\<lfloor>(2 :: rat) * of_int d\<rfloor> = 2 * d" for d :: int
    by (rule floor_unique) simp_all
  ultimately show ?thesis by (simp add: float_ok_def demo_float_def)
qed

definition demo_round :: "outcome \<Rightarrow> int \<Rightarrow> round" where
  "demo_round out t = \<lparr>stop_before = False, result = out, stop_after = False, now = t, rnd = 0\<rparr>"


lemma keep_slow:
  assumes fm: "float_ok fm" and r: "0 \<le> r" "r < 1" and p: "prev = 0 \<or> 200000000 \<le> prev" "prev \<le> 20 * Second"
  shows "400000000 \<le> slow_delay fm keep_options n prev r"
proof -
  let ?d = "EmptyOr prev Second"
  have d: "200000000 \<le> ?d" "?d < 2 ^ 53" using p by (auto simp: EmptyOr_def Second_def)
  then have f: "fm 2 ?d = 2 * ?d" using fm by (simp add: float_ok_def)
  have "2 * ?d \<le> Jitter fm r (2 * ?d) (1 / 10)" using d by (intro Jitter_bounds(1) [OF fm r]) simp
  moreover have "slow_delay fm keep_options n prev r = min (20 * Second) (Jitter fm r (fm 2 ?d) (1 / 10))"
    by (simp add: slow_delay_def keep_options_def Let_def EmptyOr_def Second_def)
  ultimately show ?thesis using d(1) unfolding f by (simp add: Second_def)
qed

lemma keep_delays:
  assumes fm: "float_ok fm" and es: "rounds_ok es" and p: "prev = 0 \<or> 200000000 \<le> prev" "prev \<le> 20 * Second"
  shows "int (length (filter (\<lambda>d. d < 400000000) (snd (backoff_rounds fm keep_options f prev es)))) \<le> fast_rounds fm keep_options f prev es"
  using es p
proof (induction es arbitrary: f prev)
  case (Cons x es)
  obtain f' d where c: "Backoff_call fm keep_options f prev (result x = FErr) (now x) (rnd x) = (f', d)" by fastforce
  have ok: "options_ok keep_options" by (simp add: options_ok_def keep_options_def Second_def)
  have r: "0 \<le> rnd x" "rnd x < 1" using Cons.prems(1) by (simp_all add: rounds_ok_def)
  have b: "0 < d" "d \<le> 20 * Second"
    using Backoff_call_bounds [OF fm ok r _ c] Cons.prems(2) by (auto simp: delay_bound_def keep_options_def Second_def)
  have "200000000 \<le> Jitter fm (rnd x) 200000000 (1 / 2)" using Jitter_bounds(1) [OF fm r, of 200000000] by simp
  then have d: "200000000 \<le> d" "\<not> is_fast keep_options f (result x = FErr) \<Longrightarrow> 400000000 \<le> d"
    using c keep_slow [OF fm r Cons.prems(2,3), of "consecutiveErrCount f + 1"]
    by (auto simp: Backoff_call_def is_fast_def keep_options_def Second_def Let_def split: if_splits)
  have "int (length (filter (\<lambda>d. d < 400000000) (snd (backoff_rounds fm keep_options f' d es)))) \<le> fast_rounds fm keep_options f' d es"
    by (rule Cons.IH) (use Cons.prems(1) b d in \<open>simp_all add: rounds_ok_def\<close>)
  then show ?case using c b d by (auto simp: split: if_splits)
qed simp

text \<open>
  A server that accepts logins and drops the session at once is not flooded with reconnections. In the loop
  that keeps the client connected, over any stretch of time at most three short delays per full minute are waited for,
  and fewer than six more: all other delays are at least 400 ms.
\<close>

lemma reconnect_rate:
  assumes "float_ok fm" "rounds_ok es" "t0 \<le> T" and "\<forall>e \<in> set es. t0 \<le> now e \<and> now e \<le> T"
  shows "int (length (filter (\<lambda>d. d < 400000000) (snd (BackoffUntil fm keep_options t0 r0 es)))) < 3 * (2 + (T - t0) div (60 * Second))"
proof -
  let ?f = "NewFastBackoffManager\<lparr>lastCalledTime := Some t0\<rparr>"
  have ok: "options_ok keep_options" by (simp add: options_ok_def keep_options_def Second_def)
  have "fast_rounds fm keep_options ?f 0 es \<le> fast_budget keep_options t0 T ?f"
    by (rule fast_rounds_budget) (use assms in \<open>simp_all add: keep_options_def Second_def\<close>)
  also have "\<dots> < 3 * (2 + (T - t0) div (60 * Second))"
    by (simp add: fast_budget_def keep_options_def NewFastBackoffManager_def Second_def)
  finally show ?thesis using keep_delays [OF assms(1,2), of 0 ?f] by (simp add: BackoffUntil_rounds [OF ok] Second_def)
qed

theorem reconnect_rate_witness:
  "snd (BackoffUntil demo_float keep_options 0 0 [demo_round FErr 1]) = [200000000] \<and>
   int (length (filter (\<lambda>d. d < 400000000) (snd (BackoffUntil demo_float keep_options 0 0 [demo_round FErr 1])))) < 6"
proof -
  have "int (length (filter (\<lambda>d. d < 400000000) (snd (BackoffUntil demo_float keep_options 0 0 [demo_round FErr 1])))) <
      3 * (2 + (1 - 0) div (60 * Second))"
    by (rule reconnect_rate [OF demo_float_ok]) (simp_all add: rounds_ok_def demo_round_def)
  moreover have "snd (BackoffUntil demo_float keep_options 0 0 [demo_round FErr 1]) = [200000000]"
    by (simp add: BackoffUntil_def Backoff_call_def keep_options_def demo_round_def NewFastBackoffManager_def Second_def Jitter_def
        demo_float_def Let_def)
  ultimately show ?thesis by (simp add: Second_def)
qed

text \<open>
  The first minute has short delays before the first and second retry, a long one before the third, and three
  short ones again: the counter starts at one and is set to zero when the window opens.
\<close>

lemma first_minute_delays:
  "snd (BackoffUntil demo_float keep_options 0 0 (map (demo_round FErr) [1, 2, 3, 4, 5, 6, 7])) =
     [200000000, 200000000, 400000000, 200000000, 200000000, 200000000, 400000000]"
  by (simp add: BackoffUntil_def Backoff_call_def keep_options_def demo_round_def NewFastBackoffManager_def Second_def Jitter_def
      demo_float_def slow_delay_def EmptyOr_def after_cutoff_def Let_def)

end
