(* ===== verification/Metrics.thy ===== *)
theory Metrics
  imports Prelude
begin

text \<open>
  The statistics of the server: the counters of \<open>pkg/util/metric\<close> and the collector in memory
  (\<open>pkg/metrics/mem/server.go\<close>). Times are nanoseconds, the zero time is \<open>None\<close>; the clock is an argument of every
  operation, and so is \<open>sod\<close>, the start of the day in the location of the clock. Hours and their quotient by 24 are
  computed in floating point by the code; differences of midnights are whole seconds, for which the
  truncated quotient is exact. Counters have the width of the code and wrap around.
\<close>

section \<open>Counters\<close>

type_synonym int32 = "32 word"
type_synonym int64 = "64 word"

definition Counter_Inc :: "int32 \<Rightarrow> int32 \<Rightarrow> int32" where
  "Counter_Inc c n = c + n"

definition Counter_Dec :: "int32 \<Rightarrow> int32 \<Rightarrow> int32" where
  "Counter_Dec c n = c + - n"

record StandardDateCounter =
  reserveDays :: int
  counts :: "int64 list"
  lastUpdateDate :: int

definition newStandardDateCounter :: "(int \<Rightarrow> int) \<Rightarrow> int \<Rightarrow> int \<Rightarrow> StandardDateCounter" where
  "newStandardDateCounter sod now reserve =
     \<lparr>reserveDays = reserve, counts = replicate (nat reserve) 0, lastUpdateDate = sod now\<rparr>"

definition NewDateCounter :: "(int \<Rightarrow> int) \<Rightarrow> int \<Rightarrow> int \<Rightarrow> StandardDateCounter" where
  "NewDateCounter sod now reserve = newStandardDateCounter sod now (if reserve \<le> 0 then 1 else reserve)"

definition Day :: int where
  "Day = 24 * 3600 * 1000000000"

text \<open>\<open>Sub\<close> of two times gives the nearest representable duration.\<close>

definition Time_Sub :: "int \<Rightarrow> int \<Rightarrow> int" where
  "Time_Sub a b = max (- (2 ^ 63)) (min (2 ^ 63 - 1) (a - b))"

definition days_between :: "int \<Rightarrow> int \<Rightarrow> int" where
  "days_between a b = (let d = Time_Sub a b in if d \<ge> 0 then d div Day else - (- d div Day))"

definition rotate_counter :: "(int \<Rightarrow> int) \<Rightarrow> int \<Rightarrow> StandardDateCounter \<Rightarrow> StandardDateCounter" where
  "rotate_counter sod t c =
     (let now = sod t; days = days_between now (lastUpdateDate c) in
      if days \<le> 0 then c
      else if days \<ge> reserveDays c then c\<lparr>counts := replicate (nat (reserveDays c)) 0, lastUpdateDate := now\<rparr>
      else c\<lparr>counts := replicate (nat days) 0 @ take (nat (reserveDays c - days)) (counts c), lastUpdateDate := now\<rparr>)"

definition TodayCount :: "(int \<Rightarrow> int) \<Rightarrow> int \<Rightarrow> StandardDateCounter \<Rightarrow> StandardDateCounter \<times> int64" where
  "TodayCount sod t c = (let c' = rotate_counter sod t c in (c', counts c' ! 0))"

text \<open>A negative number of days makes \<open>make\<close> panic.\<close>

definition GetLastDaysCount :: "(int \<Rightarrow> int) \<Rightarrow> int \<Rightarrow> int \<Rightarrow> StandardDateCounter \<Rightarrow> (StandardDateCounter \<times> int64 list) option" where
  "GetLastDaysCount sod t lastdays c =
     (let n = (if lastdays > reserveDays c then reserveDays c else lastdays) in
      if n < 0 then None
      else let c' = rotate_counter sod t c in Some (c', take (nat n) (counts c')))"

definition DateCounter_Inc :: "(int \<Rightarrow> int) \<Rightarrow> int \<Rightarrow> int64 \<Rightarrow> StandardDateCounter \<Rightarrow> StandardDateCounter" where
  "DateCounter_Inc sod t n c = (let c' = rotate_counter sod t c in c'\<lparr>counts := (counts c')[0 := counts c' ! 0 + n]\<rparr>)"

definition DateCounter_Dec :: "(int \<Rightarrow> int) \<Rightarrow> int \<Rightarrow> int64 \<Rightarrow> StandardDateCounter \<Rightarrow> StandardDateCounter" where
  "DateCounter_Dec sod t n c = (let c' = rotate_counter sod t c in c'\<lparr>counts := (counts c')[0 := counts c' ! 0 - n]\<rparr>)"

definition DateCounter_Snapshot :: "(int \<Rightarrow> int) \<Rightarrow> int \<Rightarrow> StandardDateCounter \<Rightarrow> StandardDateCounter" where
  "DateCounter_Snapshot sod t c =
     (let tmp = newStandardDateCounter sod t (reserveDays c) in
      tmp\<lparr>counts := take (length (counts tmp)) (counts c) @ drop (length (counts c)) (counts tmp)\<rparr>)"

definition DateCounter_Clear :: "StandardDateCounter \<Rightarrow> StandardDateCounter" where
  "DateCounter_Clear c = c\<lparr>counts := replicate (length (counts c)) 0\<rparr>"

section \<open>The collector\<close>

definition ReserveDays :: int where
  "ReserveDays = 7"

record ProxyStatistics =
  ps_Name :: string
  ps_ProxyType :: string
  ps_User :: string
  ps_ClientID :: string
  ps_TrafficIn :: StandardDateCounter
  ps_TrafficOut :: StandardDateCounter
  ps_CurConns :: int32
  ps_LastStartTime :: "int option"
  ps_LastCloseTime :: "int option"

record serverMetrics =
  sm_TotalTrafficIn :: StandardDateCounter
  sm_TotalTrafficOut :: StandardDateCounter
  sm_CurConns :: int32
  sm_ClientCounts :: int32
  sm_ProxyTypeCounts :: "string \<rightharpoonup> int32"
  sm_ProxyStatistics :: "string \<rightharpoonup> ProxyStatistics"

definition newServerMetrics :: "(int \<Rightarrow> int) \<Rightarrow> int \<Rightarrow> serverMetrics" where
  "newServerMetrics sod now =
     \<lparr>sm_TotalTrafficIn = NewDateCounter sod now ReserveDays, sm_TotalTrafficOut = NewDateCounter sod now ReserveDays,
      sm_CurConns = 0, sm_ClientCounts = 0, sm_ProxyTypeCounts = Map.empty, sm_ProxyStatistics = Map.empty\<rparr>"

text \<open>A start time that is zero is before every time.\<close>

definition shouldClearProxyStats :: "int \<Rightarrow> int \<Rightarrow> ProxyStatistics \<Rightarrow> bool" where
  "shouldClearProxyStats now d ps \<longleftrightarrow>
     (case ps_LastCloseTime ps of
        None \<Rightarrow> False
      | Some c \<Rightarrow> (case ps_LastStartTime ps of None \<Rightarrow> True | Some s \<Rightarrow> s < c) \<and> Time_Sub now c > d)"

text \<open>The loop over the map, in the order \<open>names\<close> of the iteration; the result has the numbers of removed and of all entries.\<close>

definition clear_one :: "int \<Rightarrow> int \<Rightarrow> string \<Rightarrow> serverMetrics \<times> nat \<Rightarrow> serverMetrics \<times> nat" where
  "clear_one now d name = (\<lambda>(m, count).
     case sm_ProxyStatistics m name of
       None \<Rightarrow> (m, count)
     | Some ps \<Rightarrow>
         if shouldClearProxyStats now d ps
         then (m\<lparr>sm_ProxyStatistics := (sm_ProxyStatistics m)(name := None)\<rparr>, Suc count) else (m, count))"

definition clearUselessInfo :: "int \<Rightarrow> int \<Rightarrow> string list \<Rightarrow> serverMetrics \<Rightarrow> serverMetrics \<times> nat \<times> nat" where
  "clearUselessInfo now d names m = (case fold (clear_one now d) names (m, 0) of (m', count) \<Rightarrow> (m', count, length names))"

definition ClearOfflineProxies :: "int \<Rightarrow> string list \<Rightarrow> serverMetrics \<Rightarrow> serverMetrics \<times> nat \<times> nat" where
  "ClearOfflineProxies now names m = clearUselessInfo now 0 names m"

text \<open>One tick of the cleaner, every twelve hours.\<close>

definition run_tick :: "int \<Rightarrow> string list \<Rightarrow> serverMetrics \<Rightarrow> serverMetrics" where
  "run_tick now names m = fst (clearUselessInfo now (7 * Day) names m)"

definition Metrics_NewClient :: "serverMetrics \<Rightarrow> serverMetrics" where
  "Metrics_NewClient m = m\<lparr>sm_ClientCounts := Counter_Inc (sm_ClientCounts m) 1\<rparr>"

definition Metrics_CloseClient :: "serverMetrics \<Rightarrow> serverMetrics" where
  "Metrics_CloseClient m = m\<lparr>sm_ClientCounts := Counter_Dec (sm_ClientCounts m) 1\<rparr>"

definition Metrics_NewProxy :: "(int \<Rightarrow> int) \<Rightarrow> int \<Rightarrow> string \<Rightarrow> string \<Rightarrow> string \<Rightarrow> string \<Rightarrow> serverMetrics \<Rightarrow> serverMetrics" where
  "Metrics_NewProxy sod now name ty user clientID m =
     (let counter = (case sm_ProxyTypeCounts m ty of None \<Rightarrow> 0 | Some c \<Rightarrow> c);
          new = \<lparr>ps_Name = name, ps_ProxyType = ty, ps_User = [], ps_ClientID = [],
                 ps_TrafficIn = NewDateCounter sod now ReserveDays, ps_TrafficOut = NewDateCounter sod now ReserveDays,
                 ps_CurConns = 0, ps_LastStartTime = None, ps_LastCloseTime = None\<rparr>;
          ps = (case sm_ProxyStatistics m name of None \<Rightarrow> new | Some p \<Rightarrow> if ps_ProxyType p \<noteq> ty then new else p)
      in m\<lparr>sm_ProxyTypeCounts := (sm_ProxyTypeCounts m)(ty \<mapsto> Counter_Inc counter 1),
           sm_ProxyStatistics := (sm_ProxyStatistics m)
             (name \<mapsto> ps\<lparr>ps_User := user, ps_ClientID := clientID, ps_LastStartTime := Some now\<rparr>)\<rparr>)"

text \<open>A change of the statistics of one name, where there are any.\<close>

definition update_stats :: "string \<Rightarrow> (ProxyStatistics \<Rightarrow> ProxyStatistics) \<Rightarrow> serverMetrics \<Rightarrow> serverMetrics" where
  "update_stats name f m =
     (case sm_ProxyStatistics m name of
        None \<Rightarrow> m
      | Some ps \<Rightarrow> m\<lparr>sm_ProxyStatistics := (sm_ProxyStatistics m)(name \<mapsto> f ps)\<rparr>)"

definition Metrics_CloseProxy :: "int \<Rightarrow> string \<Rightarrow> string \<Rightarrow> serverMetrics \<Rightarrow> serverMetrics" where
  "Metrics_CloseProxy now name ty m =
     update_stats name (\<lambda>ps. ps\<lparr>ps_LastCloseTime := Some now\<rparr>)
       (case sm_ProxyTypeCounts m ty of
          None \<Rightarrow> m
        | Some c \<Rightarrow> m\<lparr>sm_ProxyTypeCounts := (sm_ProxyTypeCounts m)(ty \<mapsto> Counter_Dec c 1)\<rparr>)"

definition OpenConnection :: "string \<Rightarrow> serverMetrics \<Rightarrow> serverMetrics" where
  "OpenConnection name m =
     update_stats name (\<lambda>ps. ps\<lparr>ps_CurConns := Counter_Inc (ps_CurConns ps) 1\<rparr>) (m\<lparr>sm_CurConns := Counter_Inc (sm_CurConns m) 1\<rparr>)"

definition CloseConnection :: "string \<Rightarrow> serverMetrics \<Rightarrow> serverMetrics" where
  "CloseConnection name m =
     update_stats name (\<lambda>ps. ps\<lparr>ps_CurConns := Counter_Dec (ps_CurConns ps) 1\<rparr>) (m\<lparr>sm_CurConns := Counter_Dec (sm_CurConns m) 1\<rparr>)"

definition AddTrafficIn :: "(int \<Rightarrow> int) \<Rightarrow> int \<Rightarrow> string \<Rightarrow> int64 \<Rightarrow> serverMetrics \<Rightarrow> serverMetrics" where
  "AddTrafficIn sod now name n m =
     update_stats name (\<lambda>ps. ps\<lparr>ps_TrafficIn := DateCounter_Inc sod now n (ps_TrafficIn ps)\<rparr>)
       (m\<lparr>sm_TotalTrafficIn := DateCounter_Inc sod now n (sm_TotalTrafficIn m)\<rparr>)"

definition AddTrafficOut :: "(int \<Rightarrow> int) \<Rightarrow> int \<Rightarrow> string \<Rightarrow> int64 \<Rightarrow> serverMetrics \<Rightarrow> serverMetrics" where
  "AddTrafficOut sod now name n m =
     update_stats name (\<lambda>ps. ps\<lparr>ps_TrafficOut := DateCounter_Inc sod now n (ps_TrafficOut ps)\<rparr>)
       (m\<lparr>sm_TotalTrafficOut := DateCounter_Inc sod now n (sm_TotalTrafficOut m)\<rparr>)"

section \<open>Reading the statistics\<close>

record ServerStats =
  ss_TotalTrafficIn :: int64
  ss_TotalTrafficOut :: int64
  ss_CurConns :: int
  ss_ClientCounts :: int
  ss_ProxyTypeCounts :: "string \<rightharpoonup> int"

definition GetServer :: "(int \<Rightarrow> int) \<Rightarrow> int \<Rightarrow> serverMetrics \<Rightarrow> serverMetrics \<times> ServerStats" where
  "GetServer sod now m =
     (let (cin, tin) = TodayCount sod now (sm_TotalTrafficIn m); (cout, tout) = TodayCount sod now (sm_TotalTrafficOut m) in
      (m\<lparr>sm_TotalTrafficIn := cin, sm_TotalTrafficOut := cout\<rparr>,
       \<lparr>ss_TotalTrafficIn = tin, ss_TotalTrafficOut = tout, ss_CurConns = sint (sm_CurConns m),
        ss_ClientCounts = sint (sm_ClientCounts m), ss_ProxyTypeCounts = (\<lambda>ty. map_option sint (sm_ProxyTypeCounts m ty))\<rparr>))"

record ProxyStats =
  st_Name :: string
  st_Type :: string
  st_User :: string
  st_ClientID :: string
  st_TodayTrafficIn :: int64
  st_TodayTrafficOut :: int64
  st_LastStartTime :: string
  st_LastCloseTime :: string
  st_LastStartAt :: int
  st_LastCloseAt :: int
  st_CurConns :: int

text \<open>\<open>fmt\<close> prints a time as month, day and time of day.\<close>

definition toProxyStats :: "(int \<Rightarrow> int) \<Rightarrow> (int \<Rightarrow> string) \<Rightarrow> int \<Rightarrow> string \<Rightarrow> ProxyStatistics \<Rightarrow> ProxyStatistics \<times> ProxyStats" where
  "toProxyStats sod fmt now name ps =
     (let (cin, tin) = TodayCount sod now (ps_TrafficIn ps); (cout, tout) = TodayCount sod now (ps_TrafficOut ps);
          txt = (\<lambda>t. case t of None \<Rightarrow> [] | Some x \<Rightarrow> fmt x); unix = (\<lambda>t. case t of None \<Rightarrow> 0 | Some x \<Rightarrow> x div 1000000000) in
      (ps\<lparr>ps_TrafficIn := cin, ps_TrafficOut := cout\<rparr>,
       \<lparr>st_Name = name, st_Type = ps_ProxyType ps, st_User = ps_User ps, st_ClientID = ps_ClientID ps, st_TodayTrafficIn = tin,
        st_TodayTrafficOut = tout, st_LastStartTime = txt (ps_LastStartTime ps), st_LastCloseTime = txt (ps_LastCloseTime ps),
        st_LastStartAt = unix (ps_LastStartTime ps), st_LastCloseAt = unix (ps_LastCloseTime ps), st_CurConns = sint (ps_CurConns ps)\<rparr>))"

definition GetProxyByName ::
    "(int \<Rightarrow> int) \<Rightarrow> (int \<Rightarrow> string) \<Rightarrow> int \<Rightarrow> string \<Rightarrow> serverMetrics \<Rightarrow> serverMetrics \<times> ProxyStats option" where
  "GetProxyByName sod fmt now name m =
     (case sm_ProxyStatistics m name of
        None \<Rightarrow> (m, None)
      | Some ps \<Rightarrow>
          (case toProxyStats sod fmt now name ps of
             (ps', st) \<Rightarrow> (m\<lparr>sm_ProxyStatistics := (sm_ProxyStatistics m)(name \<mapsto> ps')\<rparr>, Some st)))"

definition GetProxiesByTypeAndName ::
    "(int \<Rightarrow> int) \<Rightarrow> (int \<Rightarrow> string) \<Rightarrow> int \<Rightarrow> string \<Rightarrow> string \<Rightarrow> serverMetrics \<Rightarrow> serverMetrics \<times> ProxyStats option" where
  "GetProxiesByTypeAndName sod fmt now ty name m =
     (case sm_ProxyStatistics m name of
        Some ps \<Rightarrow> if ps_ProxyType ps = ty then GetProxyByName sod fmt now name m else (m, None)
      | None \<Rightarrow> (m, None))"

text \<open>The loop over the map, in the order \<open>names\<close> of the iteration.\<close>

fun GetProxiesByType ::
    "(int \<Rightarrow> int) \<Rightarrow> (int \<Rightarrow> string) \<Rightarrow> int \<Rightarrow> string \<Rightarrow> string list \<Rightarrow> serverMetrics \<Rightarrow> serverMetrics \<times> ProxyStats list" where
  "GetProxiesByType sod fmt now ty [] m = (m, [])"
| "GetProxiesByType sod fmt now ty (name # names) m =
     (case GetProxiesByTypeAndName sod fmt now ty name m of
        (m1, r) \<Rightarrow>
          (case GetProxiesByType sod fmt now ty names m1 of
             (m2, rs) \<Rightarrow> (m2, (case r of None \<Rightarrow> rs | Some st \<Rightarrow> st # rs))))"

definition GetProxyTraffic ::
    "(int \<Rightarrow> int) \<Rightarrow> int \<Rightarrow> string \<Rightarrow> serverMetrics \<Rightarrow> (serverMetrics \<times> (int64 list \<times> int64 list) option) option" where
  "GetProxyTraffic sod now name m =
     (case sm_ProxyStatistics m name of
        None \<Rightarrow> Some (m, None)
      | Some ps \<Rightarrow>
          Option.bind (GetLastDaysCount sod now ReserveDays (ps_TrafficIn ps)) (\<lambda>(cin, tin).
          map_option (\<lambda>(cout, tout).
              (m\<lparr>sm_ProxyStatistics := (sm_ProxyStatistics m)(name \<mapsto> ps\<lparr>ps_TrafficIn := cin, ps_TrafficOut := cout\<rparr>)\<rparr>, Some (tin, tout)))
            (GetLastDaysCount sod now ReserveDays (ps_TrafficOut ps))))"

section \<open>What a counter of days promises\<close>

text \<open>
  The interface \<open>DateCounter\<close>: a counter stands for a history, the amount of every day. Its operations see
  times that do not decrease; \<open>rep c t h\<close> says that after the operations up to \<open>t\<close>, \<open>c\<close> stands for \<open>h\<close>.
\<close>

definition add_day :: "(int \<Rightarrow> int) \<Rightarrow> int \<times> int64 \<Rightarrow> (int \<Rightarrow> int64) \<Rightarrow> int \<Rightarrow> int64" where
  "add_day day e h = h(day (fst e) := h (day (fst e)) + snd e)"

definition day_total :: "(int \<Rightarrow> int) \<Rightarrow> (int \<times> int64) list \<Rightarrow> int \<Rightarrow> int64" where
  "day_total day es d = sum_list (map snd (filter (\<lambda>e. day (fst e) = d) es))"

locale date_counter =
  fixes day :: "int \<Rightarrow> int" and rep :: "'c \<Rightarrow> int \<Rightarrow> (int \<Rightarrow> int64) \<Rightarrow> bool" and inc :: "int \<Rightarrow> int64 \<Rightarrow> 'c \<Rightarrow> 'c"
    and today :: "int \<Rightarrow> 'c \<Rightarrow> 'c \<times> int64" and lastdays :: "int \<Rightarrow> 'c \<Rightarrow> ('c \<times> int64 list) option" and days :: nat
  assumes inc_law: "rep c t h \<Longrightarrow> t \<le> t' \<Longrightarrow> rep (inc t' n c) t' (add_day day (t', n) h)"
    and today_law: "rep c t h \<Longrightarrow> t \<le> t' \<Longrightarrow> \<exists>c'. today t' c = (c', h (day t')) \<and> rep c' t' h"
    and lastdays_law: "rep c t h \<Longrightarrow> t \<le> t' \<Longrightarrow>
      \<exists>c'. lastdays t' c = Some (c', map (\<lambda>k. h (day t' - int k)) [0..<days]) \<and> rep c' t' h"
begin

text \<open>The client sees the totals of its additions.\<close>

lemma additions:
  assumes "rep c t h" and "sorted (t # map fst es)"
  shows "rep (fold (\<lambda>(t, n). inc t n) es c) (last (t # map fst es)) (\<lambda>d. h d + day_total day es d)"
  using assms
proof (induction es arbitrary: c t h)
  case (Cons e es)
  obtain u n where e: "e = (u, n)" by (cases e)
  have "rep (inc u n c) u (add_day day (u, n) h)" using inc_law Cons.prems e by simp
  from Cons.IH [OF this] Cons.prems(2) e
  have "rep (fold (\<lambda>(t, n). inc t n) es (inc u n c)) (last (u # map fst es)) (\<lambda>d. add_day day (u, n) h d + day_total day es d)" by simp
  moreover have "(\<lambda>d. add_day day (u, n) h d + day_total day es d) = (\<lambda>d. h d + day_total day (e # es) d)"
    by (auto simp: add_day_def day_total_def e fun_eq_iff add.assoc)
  ultimately show ?case using e by simp
qed (simp add: day_total_def)

lemma totals:
  assumes "rep c t (\<lambda>_. 0)" and "sorted (t # map fst es @ [T])"
  shows "snd (today T (fold (\<lambda>(t, n). inc t n) es c)) = day_total day es (day T)"
    and "map_option snd (lastdays T (fold (\<lambda>(t, n). inc t n) es c)) = Some (map (\<lambda>k. day_total day es (day T - int k)) [0..<days])"
proof -
  have s: "sorted (t # map fst es)" and l: "last (t # map fst es) \<le> T"
    using assms(2) by (auto simp: sorted_append last_map)
  note r = additions [OF assms(1) s]
  from today_law [OF r l] show "snd (today T (fold (\<lambda>(t, n). inc t n) es c)) = day_total day es (day T)" by auto
  from lastdays_law [OF r l]
  show "map_option snd (lastdays T (fold (\<lambda>(t, n). inc t n) es c)) = Some (map (\<lambda>k. day_total day es (day T - int k)) [0..<days])"
    by auto
qed

end

section \<open>Days of twenty-four hours\<close>

definition day_of :: "int \<Rightarrow> int \<Rightarrow> int" where
  "day_of off t = (t + off) div Day"

text \<open>The start of the day at a fixed offset from UTC.\<close>

definition utc_sod :: "int \<Rightarrow> int \<Rightarrow> int" where
  "utc_sod off t = day_of off t * Day - off"

definition cnt_days :: "int \<Rightarrow> StandardDateCounter \<Rightarrow> int \<Rightarrow> (int \<Rightarrow> int64) \<Rightarrow> bool" where
  "cnt_days off c ld h \<longleftrightarrow>
     0 < reserveDays c \<and> reserveDays c \<le> 1000 \<and> length (counts c) = nat (reserveDays c) \<and> lastUpdateDate c = ld * Day - off \<and>
     (\<forall>k < length (counts c). counts c ! k = h (ld - int k)) \<and> (\<forall>d > ld. h d = 0)"

definition cnt_rep :: "int \<Rightarrow> nat \<Rightarrow> StandardDateCounter \<Rightarrow> int \<Rightarrow> (int \<Rightarrow> int64) \<Rightarrow> bool" where
  "cnt_rep off n c t h \<longleftrightarrow> (\<exists>ld \<le> day_of off t. cnt_days off c ld h) \<and> reserveDays c = int n"

lemma days_between_days:
  assumes "n \<ge> 0"
  shows "days_between ((ld + n) * Day - off) (ld * Day - off) = min n ((2 ^ 63 - 1) div Day)"
proof -
  have d: "(ld + n) * Day - off - (ld * Day - off) = n * Day" by (simp add: algebra_simps)
  have p: "(0::int) < Day" by (simp add: Day_def)
  have nn: "0 \<le> n * Day" using assms p by simp
  then have t: "Time_Sub ((ld + n) * Day - off) (ld * Day - off) = min (2 ^ 63 - 1) (n * Day)" unfolding Time_Sub_def d by simp
  have "min (2 ^ 63 - 1) (n * Day) div Day = min n ((2 ^ 63 - 1) div Day)"
  proof (cases "n * Day \<le> 2 ^ 63 - 1")
    case True
    then have "n \<le> (2 ^ 63 - 1) div Day" using zdiv_mono1 [OF True p] p by simp
    with True p show ?thesis by (simp add: min_def)
  next
    case False
    then have "(2 ^ 63 - 1) div Day \<le> n" using zdiv_mono1 [of "2 ^ 63 - 1" "n * Day" Day] p by simp
    with False p show ?thesis by (simp add: min_def)
  qed
  then show ?thesis using nn unfolding days_between_def Let_def t by simp
qed

lemma rotate_days:
  assumes r: "cnt_days off c ld h" and t: "ld \<le> day_of off t"
  shows "cnt_days off (rotate_counter (utc_sod off) t c) (day_of off t) h"
    and "reserveDays (rotate_counter (utc_sod off) t c) = reserveDays c"
proof -
  define n where "n = day_of off t - ld"
  have n: "0 \<le> n" "day_of off t = ld + n" using t by (simp_all add: n_def)
  have "(1000::int) \<le> (2 ^ 63 - 1) div Day" by (simp add: Day_def)
  then have b: "min n ((2 ^ 63 - 1) div Day) \<ge> reserveDays c \<longleftrightarrow> n \<ge> reserveDays c" using r by (auto simp: cnt_days_def)
  have e: "days_between (utc_sod off t) (lastUpdateDate c) = min n ((2 ^ 63 - 1) div Day)"
    using days_between_days [OF n(1), of ld off] r by (simp add: cnt_days_def utc_sod_def n(2))
  show "reserveDays (rotate_counter (utc_sod off) t c) = reserveDays c" by (simp add: rotate_counter_def Let_def)
  consider "n = 0" | "n > 0" "n \<ge> reserveDays c" | "n > 0" "n < reserveDays c" using n(1) by linarith
  then show "cnt_days off (rotate_counter (utc_sod off) t c) (day_of off t) h"
  proof cases
    case 1
    then show ?thesis using r e n by (simp add: rotate_counter_def Let_def Day_def)
  next
    case 2
    have "rotate_counter (utc_sod off) t c = c\<lparr>counts := replicate (nat (reserveDays c)) 0, lastUpdateDate := utc_sod off t\<rparr>"
      using 2 b r unfolding rotate_counter_def Let_def e by (auto simp: cnt_days_def Day_def)
    then show ?thesis using r 2 n by (auto simp: cnt_days_def utc_sod_def)
  next
    case 3
    then have "\<not> min n ((2 ^ 63 - 1) div Day) \<ge> reserveDays c" "min n ((2 ^ 63 - 1) div Day) = n"
      using b r by (auto simp: cnt_days_def Day_def)
    then have "rotate_counter (utc_sod off) t c =
        c\<lparr>counts := replicate (nat n) 0 @ take (nat (reserveDays c - n)) (counts c), lastUpdateDate := utc_sod off t\<rparr>"
      using 3 unfolding rotate_counter_def Let_def e by simp
    then show ?thesis using r 3 n by (auto simp: cnt_days_def utc_sod_def nth_append diff_diff_eq2)
  qed
qed

lemma cnt_new: "cnt_rep off 7 (NewDateCounter (utc_sod off) t ReserveDays) t (\<lambda>_. 0)"
  by (auto simp: cnt_rep_def cnt_days_def NewDateCounter_def newStandardDateCounter_def ReserveDays_def utc_sod_def)

lemma cnt_rotate:
  assumes "cnt_rep off n c t h" "t \<le> t'"
  shows "cnt_days off (rotate_counter (utc_sod off) t' c) (day_of off t') h" and "reserveDays (rotate_counter (utc_sod off) t' c) = int n"
    and "counts (rotate_counter (utc_sod off) t' c) \<noteq> []"
proof -
  obtain ld where ld: "ld \<le> day_of off t" "cnt_days off c ld h" using assms(1) by (auto simp: cnt_rep_def)
  have "day_of off t \<le> day_of off t'" using assms(2) by (auto simp: day_of_def Day_def intro: zdiv_mono1)
  with ld rotate_days [OF ld(2), of t'] assms(1)
  show 1: "cnt_days off (rotate_counter (utc_sod off) t' c) (day_of off t') h"
    and "reserveDays (rotate_counter (utc_sod off) t' c) = int n" by (auto simp: cnt_rep_def)
  show "counts (rotate_counter (utc_sod off) t' c) \<noteq> []" using 1 by (auto simp: cnt_days_def)
qed

lemma cnt_inc:
  assumes "cnt_rep off n c t h" "t \<le> t'"
  shows "cnt_rep off n (DateCounter_Inc (utc_sod off) t' x c) t' (add_day (day_of off) (t', x) h)"
  using cnt_rotate [OF assms]
  by (auto simp: cnt_rep_def cnt_days_def DateCounter_Inc_def add_day_def Let_def nth_list_update intro!: exI [of _ "day_of off t'"])

interpretation traffic: date_counter "day_of off" "cnt_rep off 7" "DateCounter_Inc (utc_sod off)" "TodayCount (utc_sod off)"
  "\<lambda>t. GetLastDaysCount (utc_sod off) t ReserveDays" 7
  for off
proof (unfold_locales, goal_cases)
  case (1 c t h t' n)
  then show ?case by (rule cnt_inc)
next
  case (2 c t h t')
  note r = cnt_rotate [OF 2]
  have "counts (rotate_counter (utc_sod off) t' c) ! 0 = h (day_of off t')" using r(1,3) by (simp add: cnt_days_def)
  then show ?case using r by (auto simp: TodayCount_def Let_def cnt_rep_def)
next
  case (3 c t h t')
  note r = cnt_rotate [OF 3]
  have "take 7 (counts (rotate_counter (utc_sod off) t' c)) = map (\<lambda>k. h (day_of off t' - int k)) [0..<7]"
    using r(1,2) by (intro nth_equalityI) (auto simp: cnt_days_def)
  moreover have "reserveDays c = 7" using 3 by (simp add: cnt_rep_def)
  ultimately show ?case using r by (auto simp: GetLastDaysCount_def Let_def cnt_rep_def ReserveDays_def)
qed

lemma cnt_mono:
  assumes "cnt_rep off n c t h" "t \<le> t'"
  shows "cnt_rep off n c t' h"
proof -
  have "day_of off t \<le> day_of off t'" using assms(2) by (auto simp: day_of_def Day_def intro: zdiv_mono1)
  with assms(1) show ?thesis unfolding cnt_rep_def using order_trans by blast
qed

section \<open>The statistics of a proxy\<close>

datatype sm_ev =
    SNewClient
  | SCloseClient
  | SNewProxy string string string string
  | SCloseProxy string string
  | SOpen string
  | SClose string
  | SIn string int64
  | SOut string int64
  | SRead string
  | SClear int "string list"

fun sm_step :: "(int \<Rightarrow> int) \<Rightarrow> int \<times> sm_ev \<Rightarrow> serverMetrics \<Rightarrow> serverMetrics" where
  "sm_step sod (t, SNewClient) m = Metrics_NewClient m"
| "sm_step sod (t, SCloseClient) m = Metrics_CloseClient m"
| "sm_step sod (t, SNewProxy name ty user cid) m = Metrics_NewProxy sod t name ty user cid m"
| "sm_step sod (t, SCloseProxy name ty) m = Metrics_CloseProxy t name ty m"
| "sm_step sod (t, SOpen name) m = OpenConnection name m"
| "sm_step sod (t, SClose name) m = CloseConnection name m"
| "sm_step sod (t, SIn name n) m = AddTrafficIn sod t name n m"
| "sm_step sod (t, SOut name n) m = AddTrafficOut sod t name n m"
| "sm_step sod (t, SRead name) m = fst (GetProxyByName sod (\<lambda>_. []) t name m)"
| "sm_step sod (t, SClear d names) m = fst (clearUselessInfo t d names m)"

definition ins :: "string \<Rightarrow> (int \<times> sm_ev) list \<Rightarrow> (int \<times> int64) list" where
  "ins name es = concat (map (\<lambda>(t, e). case e of SIn m n \<Rightarrow> if m = name then [(t, n)] else [] | _ \<Rightarrow> []) es)"

definition outs :: "string \<Rightarrow> (int \<times> sm_ev) list \<Rightarrow> (int \<times> int64) list" where
  "outs name es = concat (map (\<lambda>(t, e). case e of SOut m n \<Rightarrow> if m = name then [(t, n)] else [] | _ \<Rightarrow> []) es)"

definition opened :: "string \<Rightarrow> (int \<times> sm_ev) list \<Rightarrow> int32" where
  "opened name es = sum_list (map (\<lambda>(t, e). if e = SOpen name then 1 else if e = SClose name then - 1 else 0) es)"

text \<open>Nothing removes the statistics of the name or starts them again.\<close>

definition keeps :: "string \<Rightarrow> string \<Rightarrow> (int \<times> sm_ev) list \<Rightarrow> bool" where
  "keeps name ty es \<longleftrightarrow>
     (\<forall>(t, e) \<in> set es. case e of SNewProxy n ty' _ _ \<Rightarrow> n = name \<longrightarrow> ty' = ty | SClear _ _ \<Rightarrow> False | _ \<Rightarrow> True)"

definition stats_rep ::
    "int \<Rightarrow> string \<Rightarrow> string \<Rightarrow> serverMetrics \<Rightarrow> int \<Rightarrow> (int \<Rightarrow> int64) \<Rightarrow> (int \<Rightarrow> int64) \<Rightarrow> int32 \<Rightarrow> bool" where
  "stats_rep off name ty m t hi ho c \<longleftrightarrow>
     (\<exists>ps. sm_ProxyStatistics m name = Some ps \<and> ps_ProxyType ps = ty \<and> cnt_rep off 7 (ps_TrafficIn ps) t hi \<and>
        cnt_rep off 7 (ps_TrafficOut ps) t ho \<and> ps_CurConns ps = c)"

lemma stats_step:
  assumes r: "stats_rep off name ty m t hi ho c" and t: "t \<le> u" and k: "keeps name ty [(u, e)]"
  shows "stats_rep off name ty (sm_step (utc_sod off) (u, e) m) u (\<lambda>d. hi d + day_total (day_of off) (ins name [(u, e)]) d)
    (\<lambda>d. ho d + day_total (day_of off) (outs name [(u, e)]) d) (c + opened name [(u, e)])"
proof -
  obtain ps where ps: "sm_ProxyStatistics m name = Some ps" "ps_ProxyType ps = ty" "ps_CurConns ps = c"
    and i: "cnt_rep off 7 (ps_TrafficIn ps) u hi" and o: "cnt_rep off 7 (ps_TrafficOut ps) u ho"
    using r cnt_mono [OF _ t] by (auto simp: stats_rep_def)
  have ai: "(\<lambda>d. h d + day_total (day_of off) [(u, n)] d) = add_day (day_of off) (u, n) h" for h n
    by (auto simp: add_day_def day_total_def fun_eq_iff)
  have rd: "\<exists>c'. TodayCount (utc_sod off) u c = (c', h (day_of off u)) \<and> cnt_rep off 7 c' u h" if "cnt_rep off 7 c u h" for c h
    using traffic.today_law [OF that order_refl] .
  show ?thesis
  proof (cases e)
    case (SIn x n)
    then show ?thesis using ps i o cnt_inc [OF i order_refl, of n] ai
      by (cases "sm_ProxyStatistics m x")
        (auto simp: stats_rep_def ins_def outs_def opened_def day_total_def AddTrafficIn_def update_stats_def add_day_def fun_upd_def)
  next
    case (SOut x n)
    then show ?thesis using ps i o cnt_inc [OF o order_refl, of n] ai
      by (cases "sm_ProxyStatistics m x")
        (auto simp: stats_rep_def ins_def outs_def opened_def day_total_def AddTrafficOut_def update_stats_def add_day_def fun_upd_def)
  next
    case (SRead x)
    then show ?thesis using ps i o rd [OF i] rd [OF o]
      by (cases "sm_ProxyStatistics m x")
        (auto simp: stats_rep_def ins_def outs_def opened_def day_total_def GetProxyByName_def toProxyStats_def Let_def
          split: prod.split)
  qed (use ps i o k in \<open>auto simp: stats_rep_def ins_def outs_def opened_def day_total_def keeps_def Metrics_NewClient_def
      Metrics_CloseClient_def Metrics_NewProxy_def Metrics_CloseProxy_def OpenConnection_def CloseConnection_def update_stats_def
      Counter_Inc_def Counter_Dec_def Let_def split: option.splits\<close>)
qed

lemma stats_run:
  assumes "stats_rep off name ty m t hi ho c" and "sorted (t # map fst es)" and "keeps name ty es"
  shows "stats_rep off name ty (fold (sm_step (utc_sod off)) es m) (last (t # map fst es))
    (\<lambda>d. hi d + day_total (day_of off) (ins name es) d) (\<lambda>d. ho d + day_total (day_of off) (outs name es) d) (c + opened name es)"
  using assms
proof (induction es arbitrary: m t hi ho c)
  case (Cons x es)
  obtain u e where x: "x = (u, e)" by (cases x)
  have "t \<le> u" "keeps name ty [(u, e)]" using Cons.prems x by (simp_all add: keeps_def)
  from Cons.IH [OF stats_step [OF Cons.prems(1) this]] Cons.prems(2,3) x show ?case
    by (simp add: keeps_def ins_def outs_def opened_def day_total_def add.assoc)
qed (simp add: ins_def outs_def opened_def day_total_def)

section \<open>Properties\<close>


definition demo_events :: "(int \<times> sm_ev) list" where
  "demo_events = [(1, SOpen ''ssh''), (2, SIn ''ssh'' 10), (3, SIn ''web'' 7), (Day, SIn ''ssh'' 5), (Day + 1, SRead ''ssh'')]"


text \<open>
  On the day after a day of 23 hours, as summer time brings it, nothing is rotated: the bytes of both days are
  shown as those of today.
\<close>

lemma short_day_not_rotated:
  assumes "sod t1 = start" "sod t2 = start + 23 * 3600 * 1000000000"
  shows "snd (TodayCount sod t2 (DateCounter_Inc sod t1 n (NewDateCounter sod t1 ReserveDays))) = n"
  using assms
  by (simp add: TodayCount_def DateCounter_Inc_def NewDateCounter_def newStandardDateCounter_def ReserveDays_def rotate_counter_def
      days_between_def Time_Sub_def Day_def Let_def)

text \<open>A snapshot is taken without rotating: it shows yesterday's bytes as today's.\<close>

lemma snapshot_not_rotated:
  "snd (TodayCount (utc_sod 0) Day (DateCounter_Snapshot (utc_sod 0) Day
     (DateCounter_Inc (utc_sod 0) 0 n (NewDateCounter (utc_sod 0) 0 ReserveDays)))) = n \<and>
   snd (TodayCount (utc_sod 0) Day (DateCounter_Inc (utc_sod 0) 0 n (NewDateCounter (utc_sod 0) 0 ReserveDays))) = 0"
  by (simp add: TodayCount_def DateCounter_Inc_def NewDateCounter_def newStandardDateCounter_def ReserveDays_def rotate_counter_def
      DateCounter_Snapshot_def utc_sod_def day_of_def days_between_def Time_Sub_def Day_def Let_def nth_append)

text \<open>
  A name that is registered again with another type while a connection is open starts at no connection and is
  at minus one when the old connection ends.
\<close>

lemma connections_below_zero:
  assumes "ps_ProxyType p \<noteq> ty" "sm_ProxyStatistics m name = Some p"
  shows "map_option st_CurConns (snd (GetProxyByName sod fmt t name
    (CloseConnection name (Metrics_NewProxy sod t name ty user cid (OpenConnection name m))))) = Some (- 1)"
  using assms
  by (simp add: GetProxyByName_def toProxyStats_def CloseConnection_def OpenConnection_def update_stats_def Metrics_NewProxy_def
      Counter_Inc_def Counter_Dec_def Let_def split: prod.split)

end
