(* ===== verification/AdminApi.thy ===== *)
theory AdminApi
  imports Metrics Registry ProxyConfig "HOL-Library.Product_Lexorder"
begin

text \<open>
  The dashboard API of the server: \<open>server/http/controller_v2.go\<close> and the parts of \<open>server/http/controller.go\<close> that it
  shares. A request is its parsed query, a map from keys to values; the table of running proxies is the map
  from names to their configurations. Orders of map iterations are arguments. Reading statistics can
  rotate the day counters, so that readers return the collector as well.
\<close>

section \<open>Requests\<close>

type_synonym query = "string \<rightharpoonup> string list"

datatype api_err = HttpError int string | PlainError string

definition Query :: "query \<Rightarrow> string \<Rightarrow> string" where
  "Query q key = (case q key of Some (v # _) \<Rightarrow> v | _ \<Rightarrow> [])"

definition queryValue :: "query \<Rightarrow> string \<Rightarrow> string \<times> bool" where
  "queryValue q key = (case q key of None \<Rightarrow> ([], False) | Some [] \<Rightarrow> ([], True) | Some (v # _) \<Rightarrow> (v, True))"

definition defaultV2Page :: int where "defaultV2Page = 1"
definition defaultV2PageSize :: int where "defaultV2PageSize = 50"
definition maxV2PageSize :: int where "maxV2PageSize = 200"
definition MaxInt64 :: int where "MaxInt64 = 2 ^ 63 - 1"

definition parseV2PositiveInt :: "string \<Rightarrow> int \<Rightarrow> string \<Rightarrow> api_err + int" where
  "parseV2PositiveInt raw dflt name =
     (if raw = [] then Inr dflt
      else case Atoi raw of
        None \<Rightarrow> Inl (HttpError 400 (name @ '' must be a positive integer''))
      | Some v \<Rightarrow> if v < 1 then Inl (HttpError 400 (name @ '' must be a positive integer'')) else Inr v)"

definition parseV2PageParams :: "query \<Rightarrow> api_err + int \<times> int" where
  "parseV2PageParams q =
     (case parseV2PositiveInt (Query q ''page'') defaultV2Page ''page'' of
        Inl e \<Rightarrow> Inl e
      | Inr page \<Rightarrow>
          (case parseV2PositiveInt (Query q ''pageSize'') defaultV2PageSize ''pageSize'' of
             Inl e \<Rightarrow> Inl e
           | Inr pageSize \<Rightarrow>
               if pageSize > maxV2PageSize then Inl (HttpError 400 (''pageSize must be between 1 and '' @ Itoa maxV2PageSize))
               else if page > MaxInt64 div pageSize then Inl (HttpError 400 ''page is too large'')
               else Inr (page, pageSize)))"

definition parseV2StatusFilter :: "(string \<Rightarrow> string) \<Rightarrow> string \<Rightarrow> api_err + string" where
  "parseV2StatusFilter uni raw =
     (let status = ToLower uni raw in
      if status \<in> {[], ''all'', ''online'', ''offline''} then Inr status
      else Inl (HttpError 400 ''status must be one of all, online, offline''))"

definition apiV2ProxyTypes :: "string list" where
  "apiV2ProxyTypes = [''tcp'', ''udp'', ''http'', ''https'', ''tcpmux'', ''stcp'', ''xtcp'', ''sudp'']"

definition parseV2ProxyTypeFilter :: "(string \<Rightarrow> string) \<Rightarrow> string \<Rightarrow> api_err + string" where
  "parseV2ProxyTypeFilter uni raw =
     (let ty = ToLower uni raw in
      if ty = [] then Inr []
      else if ty \<in> set apiV2ProxyTypes then Inr ty
      else Inl (HttpError 400 ''type must be one of tcp, udp, http, https, tcpmux, stcp, xtcp, sudp''))"

definition parseV2SystemPruneType :: "(string \<Rightarrow> string) \<Rightarrow> string \<Rightarrow> api_err + string" where
  "parseV2SystemPruneType uni raw =
     (let ty = ToLower uni raw in
      if ty = [] then Inl (HttpError 400 ''type is required'')
      else if ty = ''offline_proxies'' then Inr ty
      else Inl (HttpError 400 ''type must be one of offline_proxies''))"

definition matchV2StatusFilter :: "bool \<Rightarrow> string \<Rightarrow> bool" where
  "matchV2StatusFilter online want =
     (if want \<in> {[], ''all''} then True else if want = ''online'' then online
      else if want = ''offline'' then \<not> online else True)"

definition containsV2Query :: "(string \<Rightarrow> string) \<Rightarrow> string \<Rightarrow> string list \<Rightarrow> bool" where
  "containsV2Query uni q values = list_ex (\<lambda>v. sublist q (ToLower uni v)) values"

text \<open>\<open>url.PathUnescape\<close>: every percent sign is followed by two hexadecimal digits.\<close>

definition unhex :: "char \<Rightarrow> nat option" where
  "unhex c =
     (let n = of_char c in
      if 48 \<le> n \<and> n \<le> 57 then Some (n - 48) else if 97 \<le> n \<and> n \<le> 102 then Some (n - 87)
      else if 65 \<le> n \<and> n \<le> 70 then Some (n - 55) else None)"

fun PathUnescape :: "string \<Rightarrow> string option" where
  "PathUnescape [] = Some []"
| "PathUnescape (c # cs) =
     (if c = CHR ''%''
      then (case cs of
              a # b # rest \<Rightarrow>
                (case (unhex a, unhex b) of
                   (Some x, Some y) \<Rightarrow> map_option (Cons (char_of (16 * x + y))) (PathUnescape rest)
                 | _ \<Rightarrow> None)
            | _ \<Rightarrow> None)
      else map_option (Cons c) (PathUnescape cs))"

definition decodeV2PathParam :: "string \<Rightarrow> string \<Rightarrow> api_err + string" where
  "decodeV2PathParam raw label =
     (if raw = [] then Inl (PlainError (''missing '' @ label))
      else case PathUnescape raw of
        None \<Rightarrow> Inl (HttpError 400 (''invalid '' @ label))
      | Some s \<Rightarrow> Inr s)"

section \<open>Pages\<close>

record 'a V2PageResp =
  pr_Total :: int
  pr_Page :: int
  pr_PageSize :: int
  pr_Items :: "'a list"

text \<open>The product and the sum are computed in 64 bits.\<close>

definition wrap64 :: "int \<Rightarrow> int" where
  "wrap64 i = (i + 2 ^ 63) mod 2 ^ 64 - 2 ^ 63"

definition paginateV2Items :: "'a list \<Rightarrow> int \<Rightarrow> int \<Rightarrow> 'a list" where
  "paginateV2Items items page pageSize =
     (let start = wrap64 ((page - 1) * pageSize) in
      if start \<ge> int (length items) then []
      else let end = min (wrap64 (start + pageSize)) (int (length items)) in
           take (nat (end - start)) (drop (nat start) items))"

definition buildV2PageResp :: "'a list \<Rightarrow> int \<Rightarrow> int \<Rightarrow> 'a V2PageResp" where
  "buildV2PageResp items page pageSize =
     \<lparr>pr_Total = int (length items), pr_Page = page, pr_PageSize = pageSize, pr_Items = paginateV2Items items page pageSize\<rparr>"

section \<open>Clients\<close>

record ClientInfoResp =
  cr_Key :: string
  cr_User :: string
  cr_ClientID :: string
  cr_RunID :: string
  cr_Version :: string
  cr_WireProtocol :: string
  cr_Hostname :: string
  cr_ClientIP :: string
  cr_FirstConnectedAt :: int
  cr_LastConnectedAt :: int
  cr_DisconnectedAt :: int
  cr_Online :: bool

definition toUnix :: "int \<Rightarrow> int" where
  "toUnix t = (if t = 0 then 0 else t div 1000000000)"

definition buildClientInfoResp :: "ClientInfo \<Rightarrow> ClientInfoResp" where
  "buildClientInfoResp info =
     \<lparr>cr_Key = Key info, cr_User = User info, cr_ClientID = ClientID info, cr_RunID = RunID info, cr_Version = Version info,
      cr_WireProtocol = WireProtocol info, cr_Hostname = Hostname info, cr_ClientIP = ClientIP info,
      cr_FirstConnectedAt = toUnix (FirstConnectedAt info), cr_LastConnectedAt = toUnix (LastConnectedAt info),
      cr_DisconnectedAt = (if DisconnectedAt info \<noteq> 0 then DisconnectedAt info div 1000000000 else 0), cr_Online = Online info\<rparr>"

definition matchV2ClientQuery :: "(string \<Rightarrow> string) \<Rightarrow> ClientInfoResp \<Rightarrow> string \<Rightarrow> bool" where
  "matchV2ClientQuery uni r q =
     containsV2Query uni q
       [cr_Key r, cr_User r, cr_ClientID r, cr_RunID r, cr_Version r, cr_WireProtocol r, cr_Hostname r, cr_ClientIP r]"

definition client_order :: "ClientInfoResp \<Rightarrow> string \<times> string \<times> string" where
  "client_order r = (cr_User r, cr_ClientID r, cr_Key r)"

text \<open>
  The filters of the list of clients, in the order of the loop. \<open>slices.SortFunc\<close> orders by user, client identifier and
  key; keys differ, so that the order of the result does not depend on the algorithm.
\<close>

definition client_wanted :: "(string \<Rightarrow> string) \<Rightarrow> query \<Rightarrow> string \<Rightarrow> ClientInfo \<Rightarrow> bool" where
  "client_wanted uni q status info =
     (case queryValue q ''user'' of
        (user, byUser) \<Rightarrow>
          \<not> (byUser \<and> User info \<noteq> user) \<and> \<not> (Query q ''clientID'' \<noteq> [] \<and> ClientID info \<noteq> Query q ''clientID'') \<and>
          \<not> (Query q ''runID'' \<noteq> [] \<and> RunID info \<noteq> Query q ''runID'') \<and> matchV2StatusFilter (Online info) status \<and>
          \<not> (ToLower uni (Query q ''q'') \<noteq> [] \<and> \<not> matchV2ClientQuery uni (buildClientInfoResp info) (ToLower uni (Query q ''q''))))"

definition APIV2ClientList ::
    "(string \<Rightarrow> string) \<Rightarrow> ClientRegistry option \<Rightarrow> string list \<Rightarrow> query \<Rightarrow> api_err + ClientInfoResp V2PageResp" where
  "APIV2ClientList uni reg keys q =
     (case parseV2PageParams q of
        Inl e \<Rightarrow> Inl e
      | Inr (page, pageSize) \<Rightarrow>
          (case reg of
             None \<Rightarrow> Inl (PlainError ''client registry unavailable'')
           | Some cr \<Rightarrow>
               (case parseV2StatusFilter uni (Query q ''status'') of
                  Inl e \<Rightarrow> Inl e
                | Inr status \<Rightarrow>
                    Inr (buildV2PageResp
                      (sort_key client_order (map buildClientInfoResp (filter (client_wanted uni q status) (ListClients cr keys))))
                      page pageSize))))"

section \<open>Proxies\<close>

record V2ProxyTransportSpec =
  ts_UseEncryption :: bool
  ts_UseCompression :: bool
  ts_BandwidthLimit :: string
  ts_BandwidthLimitMode :: string

record V2ProxyBaseSpec =
  bs_Annotations :: str_map
  bs_Metadatas :: str_map
  bs_Transport :: "V2ProxyTransportSpec option"
  bs_Group :: "string option"

datatype V2ProxySpecBlock =
    V2TCP V2ProxyBaseSpec "int option"
  | V2UDP V2ProxyBaseSpec "int option"
  | V2HTTP V2ProxyBaseSpec "string list" string "string list" string
  | V2HTTPS V2ProxyBaseSpec "string list" string
  | V2TCPMux V2ProxyBaseSpec "string list" string string string
  | V2STCP V2ProxyBaseSpec
  | V2SUDP V2ProxyBaseSpec
  | V2XTCP V2ProxyBaseSpec
  | V2None

record V2ProxySpec =
  sp_Type :: string
  sp_block :: V2ProxySpecBlock

definition zero_base_spec :: V2ProxyBaseSpec where
  "zero_base_spec = \<lparr>bs_Annotations = Map.empty, bs_Metadatas = Map.empty, bs_Transport = None, bs_Group = None\<rparr>"

definition buildV2ProxyBaseSpec :: "ProxyBaseConfig \<Rightarrow> V2ProxyBaseSpec" where
  "buildV2ProxyBaseSpec base =
     \<lparr>bs_Annotations = pb_Annotations base, bs_Metadatas = pb_Metadatas base,
      bs_Transport = Some \<lparr>ts_UseEncryption = pt_UseEncryption (pb_Transport base), ts_UseCompression = pt_UseCompression (pb_Transport base),
        ts_BandwidthLimit = bq_s (pt_BandwidthLimit (pb_Transport base)), ts_BandwidthLimitMode = pt_BandwidthLimitMode (pb_Transport base)\<rparr>,
      bs_Group = Some (lb_Group (pb_LoadBalancer base))\<rparr>"

definition buildV2ProxySpec :: "string \<Rightarrow> ProxyConfigurer option \<Rightarrow> V2ProxySpec" where
  "buildV2ProxySpec ty cfg =
     (let base = (case cfg of None \<Rightarrow> zero_base_spec | Some c \<Rightarrow> buildV2ProxyBaseSpec (pc_base c));
          d = map_option pc_details cfg in
      \<lparr>sp_Type = ty, sp_block =
        (if ty = ''tcp'' then (case d of Some (TCP_cfg c) \<Rightarrow> V2TCP base (Some (tcp_RemotePort c)) | _ \<Rightarrow> V2TCP zero_base_spec None)
         else if ty = ''udp'' then (case d of Some (UDP_cfg c) \<Rightarrow> V2UDP base (Some (udp_RemotePort c)) | _ \<Rightarrow> V2UDP zero_base_spec None)
         else if ty = ''http''
         then (case d of
                 Some (HTTP_cfg c) \<Rightarrow> V2HTTP base (CustomDomains (http_Domain c)) (SubDomain (http_Domain c)) (http_Locations c)
                   (http_HostHeaderRewrite c)
               | _ \<Rightarrow> V2HTTP zero_base_spec [] [] [] [])
         else if ty = ''https''
         then (case d of
                 Some (HTTPS_cfg c) \<Rightarrow> V2HTTPS base (CustomDomains (https_Domain c)) (SubDomain (https_Domain c))
               | _ \<Rightarrow> V2HTTPS zero_base_spec [] [])
         else if ty = ''tcpmux''
         then (case d of
                 Some (TCPMux_cfg c) \<Rightarrow> V2TCPMux base (CustomDomains (mux_Domain c)) (SubDomain (mux_Domain c)) (mux_Multiplexer c)
                   (mux_RouteByHTTPUser c)
               | _ \<Rightarrow> V2TCPMux zero_base_spec [] [] [] [])
         else if ty = ''stcp'' then (case d of Some (STCP_cfg _) \<Rightarrow> V2STCP base | _ \<Rightarrow> V2STCP zero_base_spec)
         else if ty = ''sudp'' then (case d of Some (SUDP_cfg _) \<Rightarrow> V2SUDP base | _ \<Rightarrow> V2SUDP zero_base_spec)
         else if ty = ''xtcp'' then (case d of Some (XTCP_cfg _) \<Rightarrow> V2XTCP base | _ \<Rightarrow> V2XTCP zero_base_spec)
         else V2None)\<rparr>)"

record V2ProxyResp =
  vp_Name :: string
  vp_User :: string
  vp_ClientID :: string
  vp_Spec :: V2ProxySpec
  vp_State :: string
  vp_TodayTrafficIn :: int64
  vp_TodayTrafficOut :: int64
  vp_CurConns :: int
  vp_LastStartAt :: int
  vp_LastCloseAt :: int

text \<open>The table of running proxies may be missing; it maps a name to the configuration of the proxy.\<close>

definition buildV2ProxyResp :: "(string \<rightharpoonup> ProxyConfigurer) option \<Rightarrow> ProxyStats \<Rightarrow> V2ProxyResp" where
  "buildV2ProxyResp pxys ps =
     (let cfg = (case pxys of None \<Rightarrow> None | Some m \<Rightarrow> m (st_Name ps)) in
      \<lparr>vp_Name = st_Name ps, vp_User = st_User ps, vp_ClientID = st_ClientID ps, vp_Spec = buildV2ProxySpec (st_Type ps) cfg,
       vp_State = (if cfg = None then ''offline'' else ''online''), vp_TodayTrafficIn = st_TodayTrafficIn ps,
       vp_TodayTrafficOut = st_TodayTrafficOut ps, vp_CurConns = st_CurConns ps, vp_LastStartAt = st_LastStartAt ps,
       vp_LastCloseAt = st_LastCloseAt ps\<rparr>)"

definition matchV2ProxyQuery :: "(string \<Rightarrow> string) \<Rightarrow> V2ProxyResp \<Rightarrow> string \<Rightarrow> bool" where
  "matchV2ProxyQuery uni r q =
     containsV2Query uni q
       ([vp_Name r, sp_Type (vp_Spec r), vp_User r, vp_ClientID r, vp_State r] @
        (case sp_block (vp_Spec r) of
           V2TCP _ (Some p) \<Rightarrow> [Itoa p]
         | V2UDP _ (Some p) \<Rightarrow> [Itoa p]
         | V2HTTP _ ds sub _ _ \<Rightarrow> ds @ [sub]
         | V2HTTPS _ ds sub \<Rightarrow> ds @ [sub]
         | V2TCPMux _ ds sub _ _ \<Rightarrow> ds @ [sub]
         | _ \<Rightarrow> []))"

text \<open>What a reader of the statistics sees: the clock, the location and the order of the map for each call.\<close>

record read_env =
  rd_sod :: "int \<Rightarrow> int"
  rd_fmt :: "int \<Rightarrow> string"
  rd_now :: int
  rd_order :: "string \<Rightarrow> string list"

fun list_types :: "read_env \<Rightarrow> string list \<Rightarrow> serverMetrics \<Rightarrow> serverMetrics \<times> ProxyStats list" where
  "list_types env [] m = (m, [])"
| "list_types env (ty # tys) m =
     (case GetProxiesByType (rd_sod env) (rd_fmt env) (rd_now env) ty (rd_order env ty) m of
        (m1, xs) \<Rightarrow> (case list_types env tys m1 of (m2, ys) \<Rightarrow> (m2, xs @ ys)))"

definition listV2ProxyStats :: "read_env \<Rightarrow> string \<Rightarrow> serverMetrics \<Rightarrow> serverMetrics \<times> ProxyStats list" where
  "listV2ProxyStats env ty m =
     (if ty \<noteq> [] then GetProxiesByType (rd_sod env) (rd_fmt env) (rd_now env) ty (rd_order env ty) m
      else list_types env apiV2ProxyTypes m)"

definition proxy_wanted :: "(string \<Rightarrow> string) \<Rightarrow> query \<Rightarrow> string \<Rightarrow> V2ProxyResp \<Rightarrow> bool" where
  "proxy_wanted uni q status r =
     (case queryValue q ''user'' of
        (user, byUser) \<Rightarrow>
          \<not> (byUser \<and> vp_User r \<noteq> user) \<and> \<not> (Query q ''clientID'' \<noteq> [] \<and> vp_ClientID r \<noteq> Query q ''clientID'') \<and>
          matchV2StatusFilter (vp_State r = ''online'') status \<and>
          \<not> (ToLower uni (Query q ''q'') \<noteq> [] \<and> \<not> matchV2ProxyQuery uni r (ToLower uni (Query q ''q''))))"

definition proxy_order :: "V2ProxyResp \<Rightarrow> string \<times> string" where
  "proxy_order r = (sp_Type (vp_Spec r), vp_Name r)"

definition APIV2ProxyList ::
    "(string \<Rightarrow> string) \<Rightarrow> read_env \<Rightarrow> (string \<rightharpoonup> ProxyConfigurer) option \<Rightarrow> query \<Rightarrow> serverMetrics \<Rightarrow>
     serverMetrics \<times> (api_err + V2ProxyResp V2PageResp)" where
  "APIV2ProxyList uni env pxys q m =
     (case parseV2PageParams q of
        Inl e \<Rightarrow> (m, Inl e)
      | Inr (page, pageSize) \<Rightarrow>
          (case parseV2StatusFilter uni (Query q ''status'') of
             Inl e \<Rightarrow> (m, Inl e)
           | Inr status \<Rightarrow>
               (case parseV2ProxyTypeFilter uni (Query q ''type'') of
                  Inl e \<Rightarrow> (m, Inl e)
                | Inr ty \<Rightarrow>
                    (case listV2ProxyStats env ty m of
                       (m', stats) \<Rightarrow>
                         (m', Inr (buildV2PageResp
                            (sort_key proxy_order (filter (proxy_wanted uni q status) (map (buildV2ProxyResp pxys) stats)))
                            page pageSize))))))"

definition APIV2ProxyDetail ::
    "read_env \<Rightarrow> (string \<rightharpoonup> ProxyConfigurer) option \<Rightarrow> string \<Rightarrow> serverMetrics \<Rightarrow> serverMetrics \<times> (api_err + V2ProxyResp)" where
  "APIV2ProxyDetail env pxys raw m =
     (case decodeV2PathParam raw ''proxy name'' of
        Inl e \<Rightarrow> (m, Inl e)
      | Inr name \<Rightarrow>
          (case GetProxyByName (rd_sod env) (rd_fmt env) (rd_now env) name m of
             (m', None) \<Rightarrow> (m', Inl (HttpError 404 ''no proxy info found''))
           | (m', Some ps) \<Rightarrow> (m', Inr (buildV2ProxyResp pxys ps))))"

section \<open>Users, details and pruning\<close>

record V2UserResp =
  vu_User :: string
  vu_ClientCount :: int
  vu_ProxyCount :: int

definition getOrCreateV2User :: "(string \<rightharpoonup> V2UserResp) \<Rightarrow> string \<Rightarrow> V2UserResp" where
  "getOrCreateV2User items user =
     (case items user of None \<Rightarrow> \<lparr>vu_User = user, vu_ClientCount = 0, vu_ProxyCount = 0\<rparr> | Some i \<Rightarrow> i)"

definition count_client :: "ClientInfo \<Rightarrow> (string \<rightharpoonup> V2UserResp) \<Rightarrow> (string \<rightharpoonup> V2UserResp)" where
  "count_client info items =
     (let i = getOrCreateV2User items (User info) in items(User info \<mapsto> i\<lparr>vu_ClientCount := vu_ClientCount i + 1\<rparr>))"

definition count_proxy :: "ProxyStats \<Rightarrow> (string \<rightharpoonup> V2UserResp) \<Rightarrow> (string \<rightharpoonup> V2UserResp)" where
  "count_proxy ps items =
     (let i = getOrCreateV2User items (st_User ps) in items(st_User ps \<mapsto> i\<lparr>vu_ProxyCount := vu_ProxyCount i + 1\<rparr>))"

definition userStats :: "ClientInfo list \<Rightarrow> ProxyStats list \<Rightarrow> (string \<rightharpoonup> V2UserResp)" where
  "userStats infos stats = fold count_proxy stats (fold count_client infos Map.empty)"

text \<open>\<open>users\<close> is the order of the iteration over the map of users.\<close>

definition APIV2UserList ::
    "(string \<Rightarrow> string) \<Rightarrow> read_env \<Rightarrow> ClientRegistry option \<Rightarrow> string list \<Rightarrow> string list \<Rightarrow> query \<Rightarrow> serverMetrics \<Rightarrow>
     serverMetrics \<times> (api_err + V2UserResp V2PageResp)" where
  "APIV2UserList uni env reg keys users q m =
     (case parseV2PageParams q of
        Inl e \<Rightarrow> (m, Inl e)
      | Inr (page, pageSize) \<Rightarrow>
          (case reg of
             None \<Rightarrow> (m, Inl (PlainError ''client registry unavailable''))
           | Some cr \<Rightarrow>
               (case listV2ProxyStats env [] m of
                  (m', stats) \<Rightarrow>
                    let items = userStats (ListClients cr keys) stats; s = ToLower uni (Query q ''q'') in
                    (m', Inr (buildV2PageResp
                       (sort_key vu_User (filter (\<lambda>i. \<not> (s \<noteq> [] \<and> \<not> sublist s (ToLower uni (vu_User i)))) (List.map_filter items users)))
                       page pageSize)))))"

record V2ClientStatusResp =
  cs_State :: string
  cs_CurConns :: int
  cs_ProxyCount :: int

definition buildV2ClientStatus :: "ClientInfo \<Rightarrow> ProxyStats list \<Rightarrow> V2ClientStatusResp" where
  "buildV2ClientStatus info stats =
     fold (\<lambda>ps r. if st_User ps \<noteq> User info \<or> st_ClientID ps \<noteq> ClientID info then r
                   else r\<lparr>cs_CurConns := cs_CurConns r + st_CurConns ps, cs_ProxyCount := cs_ProxyCount r + 1\<rparr>)
       stats \<lparr>cs_State = (if Online info then ''online'' else ''offline''), cs_CurConns = 0, cs_ProxyCount = 0\<rparr>"

definition APIV2ClientDetail ::
    "read_env \<Rightarrow> ClientRegistry option \<Rightarrow> string \<Rightarrow> serverMetrics \<Rightarrow>
     serverMetrics \<times> (api_err + ClientInfoResp \<times> V2ClientStatusResp)" where
  "APIV2ClientDetail env reg raw m =
     (case decodeV2PathParam raw ''client key'' of
        Inl e \<Rightarrow> (m, Inl e)
      | Inr key \<Rightarrow>
          (case reg of
             None \<Rightarrow> (m, Inl (PlainError ''client registry unavailable''))
           | Some cr \<Rightarrow>
               (case GetByKey cr key of
                  None \<Rightarrow> (m, Inl (HttpError 404 (''client '' @ key @ '' not found'')))
                | Some info \<Rightarrow>
                    (case listV2ProxyStats env [] m of
                       (m', stats) \<Rightarrow> (m', Inr (buildClientInfoResp info, buildV2ClientStatus info stats))))))"

record V2ProxyTrafficPointResp =
  tp_Date :: string
  tp_TrafficIn :: int64
  tp_TrafficOut :: int64

definition v2TrafficValueAt :: "int64 list \<Rightarrow> nat \<Rightarrow> int64" where
  "v2TrafficValueAt values i = (if i \<ge> length values then 0 else values ! i)"

text \<open>\<open>date\<close> prints the day so many days ago; the oldest day comes first.\<close>

definition buildV2ProxyTrafficResp :: "(nat \<Rightarrow> string) \<Rightarrow> int64 list \<times> int64 list \<Rightarrow> V2ProxyTrafficPointResp list" where
  "buildV2ProxyTrafficResp date traffic =
     map (\<lambda>age. \<lparr>tp_Date = date age, tp_TrafficIn = v2TrafficValueAt (fst traffic) age, tp_TrafficOut = v2TrafficValueAt (snd traffic) age\<rparr>)
       (rev [0..<7])"

definition APIV2ProxyTraffic ::
    "read_env \<Rightarrow> (nat \<Rightarrow> string) \<Rightarrow> string \<Rightarrow> serverMetrics \<Rightarrow> (serverMetrics \<times> (api_err + V2ProxyTrafficPointResp list)) option" where
  "APIV2ProxyTraffic env date raw m =
     (case decodeV2PathParam raw ''proxy name'' of
        Inl e \<Rightarrow> Some (m, Inl e)
      | Inr name \<Rightarrow>
          map_option (\<lambda>(m', r). (m', case r of
              None \<Rightarrow> Inl (HttpError 404 ''no proxy info found'')
            | Some traffic \<Rightarrow> Inr (buildV2ProxyTrafficResp date traffic)))
          (GetProxyTraffic (rd_sod env) (rd_now env) name m))"

definition APIV2SystemPrune ::
    "(string \<Rightarrow> string) \<Rightarrow> int \<Rightarrow> string list \<Rightarrow> query \<Rightarrow> serverMetrics \<Rightarrow> serverMetrics \<times> (api_err + string \<times> nat \<times> nat)" where
  "APIV2SystemPrune uni now names q m =
     (case parseV2SystemPruneType uni (Query q ''type'') of
        Inl e \<Rightarrow> (m, Inl e)
      | Inr ty \<Rightarrow> (case ClearOfflineProxies now names m of (m', cleared, tot) \<Rightarrow> (m', Inr (ty, cleared, tot))))"

section \<open>Pages without overflow\<close>

lemma parseV2PositiveInt_pos: "parseV2PositiveInt raw d name = Inr v \<Longrightarrow> 1 \<le> d \<Longrightarrow> 1 \<le> v"
  by (auto simp: parseV2PositiveInt_def split: if_splits option.splits)

lemma parseV2PageParams_bounds:
  assumes "parseV2PageParams q = Inr (page, pageSize)"
  shows "1 \<le> page" "1 \<le> pageSize" "pageSize \<le> 200" "page * pageSize \<le> MaxInt64"
proof -
  have p: "1 \<le> page \<and> 1 \<le> pageSize \<and> pageSize \<le> 200 \<and> page \<le> MaxInt64 div pageSize"
    using assms parseV2PositiveInt_pos
    by (auto simp: parseV2PageParams_def defaultV2Page_def defaultV2PageSize_def maxV2PageSize_def split: sum.splits if_splits dest!: parseV2PositiveInt_pos)
  then show "1 \<le> page" "1 \<le> pageSize" "pageSize \<le> 200" by simp_all
  have "page * pageSize \<le> MaxInt64 div pageSize * pageSize" using p by (intro mult_right_mono) simp_all
  also have "\<dots> \<le> MaxInt64" using p pos_mod_sign [of pageSize MaxInt64] by (simp add: minus_mod_eq_div_mult [symmetric])
  finally show "page * pageSize \<le> MaxInt64" .
qed

lemma wrap64_id: "0 \<le> i \<Longrightarrow> i \<le> MaxInt64 \<Longrightarrow> wrap64 i = i"
  by (simp add: wrap64_def MaxInt64_def)

lemma paginate_page:
  assumes "1 \<le> page" "1 \<le> pageSize" "page * pageSize \<le> MaxInt64"
  shows "paginateV2Items items page pageSize = take (nat pageSize) (drop (nat ((page - 1) * pageSize)) items)"
proof -
  define st where "st = (page - 1) * pageSize"
  have s: "0 \<le> st" "st + pageSize = page * pageSize" using assms by (simp_all add: st_def algebra_simps)
  then have w: "wrap64 st = st" "wrap64 (st + pageSize) = st + pageSize" using assms by (auto intro!: wrap64_id)
  have "paginateV2Items items page pageSize = take (nat pageSize) (drop (nat st) items)"
  proof (cases "st \<ge> int (length items)")
    case True
    then show ?thesis by (simp add: paginateV2Items_def st_def [symmetric] w)
  next
    case False
    have "take (nat (min (st + pageSize) (int (length items)) - st)) (drop (nat st) items) = take (nat pageSize) (drop (nat st) items)"
      using False by (cases "st + pageSize \<le> int (length items)") (simp_all add: min_def)
    then show ?thesis using False by (simp add: paginateV2Items_def st_def [symmetric] w Let_def)
  qed
  then show ?thesis by (simp add: st_def)
qed

section \<open>Properties\<close>

lemma sort_key_unique:
  assumes "inj_on f (set xs)" "distinct xs" "distinct ys" "set ys = set xs"
  shows "sort_key f xs = sort_key f ys"
proof (rule map_sorted_distinct_set_unique [of f])
  show "distinct (map f (sort_key f xs))" "distinct (map f (sort_key f ys))" using assms by (simp_all add: distinct_map)
qed (use assms in simp_all)

lemma wanted_clients:
  assumes inv: "reg_inv cr" and it: "iter_order (clients cr) keys"
  shows "distinct (map buildClientInfoResp (filter P (ListClients cr keys)))"
    and "inj_on client_order (set (map buildClientInfoResp (filter P (ListClients cr keys))))"
    and "set (map buildClientInfoResp (filter P (ListClients cr keys))) = buildClientInfoResp ` {info \<in> ran (clients cr). P info}"
proof -
  have "List.map_filter (clients cr) ks = map (the \<circ> clients cr) ks" if "set ks \<subseteq> dom (clients cr)" for ks
    using that by (induction ks) (auto simp: map_filter_simps)
  then have l: "ListClients cr keys = map (the \<circ> clients cr) keys" using it by (simp add: ListClients_def iter_order_def)
  have s: "set (ListClients cr keys) = ran (clients cr)"
    unfolding l using it by (force simp: iter_order_def ran_def dom_def)
  have k: "clients cr (Key info) = Some info" if "info \<in> ran (clients cr)" for info
    using that inv unfolding reg_inv_def ran_def by fastforce
  have n: "clients cr k = Some info \<Longrightarrow> Key info = k" for k info using inv by (simp add: reg_inv_def)
  have i: "inj_on Key (ran (clients cr))" using k by (metis inj_onI option.inject)
  have "inj_on (the \<circ> clients cr) (set keys)"
  proof (rule inj_onI)
    fix x y assume "x \<in> set keys" "y \<in> set keys" and e: "(the \<circ> clients cr) x = (the \<circ> clients cr) y"
    then obtain a b where "clients cr x = Some a" "clients cr y = Some b" using it by (fastforce simp: iter_order_def)
    with e n [of x a] n [of y b] show "x = y" by simp
  qed
  then have d: "distinct (ListClients cr keys)" unfolding l using it by (simp add: distinct_map iter_order_def)
  have "inj_on buildClientInfoResp (ran (clients cr))"
    using i by (auto simp: inj_on_def buildClientInfoResp_def)
  then show "distinct (map buildClientInfoResp (filter P (ListClients cr keys)))"
    using d s by (auto simp: distinct_map intro: inj_on_subset)
  show "inj_on client_order (set (map buildClientInfoResp (filter P (ListClients cr keys))))"
    using i s by (auto simp: inj_on_def client_order_def buildClientInfoResp_def)
  show "set (map buildClientInfoResp (filter P (ListClients cr keys))) = buildClientInfoResp ` {info \<in> ran (clients cr). P info}"
    using s by auto
qed

text \<open>
  C35. A page of the client list is exactly the requested part of one well-defined list. For every accepted
  request there is a list that has every registered client that passes the filters, and no other, once, in
  the order of user, client identifier and key; the response has its length and the requested page of it, whatever the
  order in which the registry's map is walked. The offsets of the page do not overflow for any accepted
  page number and size.
\<close>

theorem client_pages_exact:
  assumes "reg_inv cr" and "iter_order (clients cr) keys" and "iter_order (clients cr) keys'"
    and "parseV2PageParams q = Inr (page, pageSize)" and "parseV2StatusFilter uni (Query q ''status'') = Inr status"
  shows "\<exists>L. distinct L \<and> sorted (map client_order L) \<and> set L = buildClientInfoResp ` {info \<in> ran (clients cr). client_wanted uni q status info} \<and>
    APIV2ClientList uni (Some cr) keys q =
      Inr \<lparr>pr_Total = int (length L), pr_Page = page, pr_PageSize = pageSize,
           pr_Items = take (nat pageSize) (drop (nat ((page - 1) * pageSize)) L)\<rparr> \<and>
    APIV2ClientList uni (Some cr) keys' q = APIV2ClientList uni (Some cr) keys q \<and> page * pageSize \<le> MaxInt64"
proof -
  note b = parseV2PageParams_bounds [OF assms(4)]
  let ?xs = "\<lambda>keys. map buildClientInfoResp (filter (client_wanted uni q status) (ListClients cr keys))"
  note w = wanted_clients [OF assms(1,2), of "client_wanted uni q status"] and w' = wanted_clients [OF assms(1,3), of "client_wanted uni q status"]
  have "sort_key client_order (?xs keys') = sort_key client_order (?xs keys)"
    by (rule sort_key_unique) (use w w' in \<open>simp_all only:\<close>)
  then show ?thesis
    using w assms(4,5) b
    by (intro exI [of _ "sort_key client_order (?xs keys)"]) (simp add: APIV2ClientList_def buildV2PageResp_def paginate_page)
qed

definition demo_registry :: ClientRegistry where
  "demo_registry = fst (RegisterWithControlID NewClientRegistry demo_login 1 5)"

lemma demo_registry_clients:
  "clients demo_registry =
     [''alice.pi'' \<mapsto> (fill_info (new_info ''alice.pi'' ''alice'' 5) demo_login 1 5)]"
  by (simp add: demo_registry_def RegisterWithControlID_def NewClientRegistry_def demo_login_def client_key_def composeClientKey_def
      drop_previous_def fill_info_def new_info_def Let_def)

theorem client_pages_exact_witness:
  "\<exists>L. length L = 1 \<and> sorted (map client_order L) \<and>
     APIV2ClientList id (Some demo_registry) [''alice.pi''] (\<lambda>_. None) =
       Inr \<lparr>pr_Total = int (length L), pr_Page = 1, pr_PageSize = 50, pr_Items = take 50 L\<rparr>"
proof -
  have "demo_registry = run_ops reg_step NewClientRegistry [OpRegister demo_login 1 5]" by (simp add: demo_registry_def)
  then have inv: "reg_inv demo_registry" using registry.run_inv [OF NewClientRegistry_inv, of "[OpRegister demo_login 1 5]"] by simp
  have it: "iter_order (clients demo_registry) [''alice.pi'']" by (simp add: iter_order_def demo_registry_clients)
  have p: "parseV2PageParams (\<lambda>_. None) = Inr (1, 50)" "parseV2StatusFilter id (Query (\<lambda>_. None) ''status'') = Inr []"
    by code_simp+
  have w: "client_wanted id (\<lambda>_. None) [] i" for i
    by (simp add: client_wanted_def queryValue_def Query_def ToLower_def is_ascii_def matchV2StatusFilter_def)
  from client_pages_exact [OF inv it it p] obtain L where
    L: "distinct L" "sorted (map client_order L)" "card (set L) = 1"
      "APIV2ClientList id (Some demo_registry) [''alice.pi''] (\<lambda>_. None) =
       Inr \<lparr>pr_Total = int (length L), pr_Page = 1, pr_PageSize = 50, pr_Items = take 50 L\<rparr>"
    by (auto simp: w demo_registry_clients)
  then show ?thesis by (auto simp: distinct_card)
qed

text \<open>
  The secrets of a configuration: the keys of visitors and groups, the passwords, and what only the client
  needs.
\<close>

fun redact_details :: "proxy_details \<Rightarrow> proxy_details" where
  "redact_details (HTTP_cfg c) = HTTP_cfg (c\<lparr>http_User := [], http_Password := [], http_RequestHeaders := Map.empty,
     http_ResponseHeaders := Map.empty, http_RouteByHTTPUser := []\<rparr>)"
| "redact_details (TCPMux_cfg c) = TCPMux_cfg (c\<lparr>mux_HTTPUser := [], mux_HTTPPassword := []\<rparr>)"
| "redact_details (STCP_cfg c) = STCP_cfg (c\<lparr>stcp_Secretkey := [], stcp_AllowUsers := []\<rparr>)"
| "redact_details (XTCP_cfg c) = XTCP_cfg (c\<lparr>xtcp_Secretkey := [], xtcp_AllowUsers := []\<rparr>)"
| "redact_details (SUDP_cfg c) = SUDP_cfg (c\<lparr>sudp_Secretkey := [], sudp_AllowUsers := []\<rparr>)"
| "redact_details d = d"

definition redact :: "ProxyConfigurer \<Rightarrow> ProxyConfigurer" where
  "redact c =
     \<lparr>pc_base = (pc_base c)\<lparr>pb_LoadBalancer := (pb_LoadBalancer (pc_base c))\<lparr>lb_GroupKey := []\<rparr>, pb_LocalIP := [], pb_LocalPort := 0,
        pb_PluginType := [], pb_Plugin := None\<rparr>,
      pc_details = redact_details (pc_details c)\<rparr>"

lemma buildV2ProxySpec_redact: "buildV2ProxySpec ty (map_option redact cfg) = buildV2ProxySpec ty cfg"
proof (cases cfg)
  case (Some c)
  have b: "buildV2ProxyBaseSpec (pc_base (redact c)) = buildV2ProxyBaseSpec (pc_base c)" "pc_details (redact c) = redact_details (pc_details c)"
    by (simp_all add: buildV2ProxyBaseSpec_def redact_def)
  show ?thesis by (cases "pc_details c") (simp_all add: buildV2ProxySpec_def Some b Let_def)
qed simp

text \<open>
  The dashboard shows no secret. Whatever the statistics and the request, the list of proxies and the
  details of a proxy are the same when in every configuration the visitor keys, the group key, the user
  names, passwords and headers of HTTP and the client's own addresses and plugin are blanked: no response,
  error or search result depends on them.
\<close>

lemma dashboard_hides_secrets:
  "APIV2ProxyList uni env (Some (\<lambda>name. map_option redact (pxys name))) q m = APIV2ProxyList uni env (Some pxys) q m \<and>
   APIV2ProxyDetail env (Some (\<lambda>name. map_option redact (pxys name))) raw m = APIV2ProxyDetail env (Some pxys) raw m"
proof -
  have b: "buildV2ProxyResp (Some (\<lambda>name. map_option redact (pxys name))) = buildV2ProxyResp (Some pxys)"
    by (simp add: buildV2ProxyResp_def buildV2ProxySpec_redact fun_eq_iff Let_def)
  show ?thesis unfolding APIV2ProxyList_def APIV2ProxyDetail_def b by simp
qed

end
