(* ===== verification/ClientConfig.thy ===== *)
theory ClientConfig
  imports ProxyConfig
begin

text \<open>
  The configuration of a client: its structures and their completion (\<open>pkg/config/v1/client.go\<close>,
  \<open>common.go\<close>, \<open>visitor.go\<close>, \<open>value_source.go\<close>), feature gates and unsafe features (\<open>pkg/policy\<close>), the
  validation of a whole client configuration (\<open>pkg/config/v1/validation\<close>) and the filters that decide
  which entries run (\<open>pkg/config/load.go\<close>).

  An error of the validation is the list of the messages that \<open>errors.Join\<close> collects; the empty list is
  \<open>nil\<close>. The file system, the process runner and URL parsing are arguments.
\<close>

definition EmptyOrInt :: "int \<Rightarrow> int \<Rightarrow> int" where
  "EmptyOrInt v fallback = (if v = 0 then fallback else v)"

definition EmptyOrPtr :: "'a option \<Rightarrow> 'a option \<Rightarrow> 'a option" where
  "EmptyOrPtr v fallback = (if v = None then fallback else v)"

definition FromPtr :: "bool option \<Rightarrow> bool" where
  "FromPtr p = (p = Some True)"

section \<open>Structures\<close>

record ExecSource =
  es_Command :: string
  es_Args :: "string list"
  es_Env :: "(string \<times> string) list"

record ValueSource =
  vs_Type :: string
  vs_File :: "string option"
  vs_Exec :: "ExecSource option"

record AuthOIDCClientConfig =
  oc_ClientID :: string
  oc_ClientSecret :: string
  oc_Audience :: string
  oc_Scope :: string
  oc_TokenEndpointURL :: string
  oc_AdditionalEndpointParams :: "(string \<times> string) list"
  oc_TrustedCaFile :: string
  oc_InsecureSkipVerify :: bool
  oc_ProxyURL :: string
  oc_TokenSource :: "ValueSource option"

record AuthClientConfig =
  ac_Method :: string
  ac_AdditionalScopes :: "string list"
  ac_Token :: string
  ac_TokenSource :: "ValueSource option"
  ac_OIDC :: AuthOIDCClientConfig

record TLSConfig =
  tls_CertFile :: string
  tls_KeyFile :: string
  tls_TrustedCaFile :: string
  tls_ServerName :: string

record TLSClientConfig =
  tc_Enable :: "bool option"
  tc_DisableCustomTLSFirstByte :: "bool option"
  tc_TLSConfig :: TLSConfig

record QUICOptions =
  qo_KeepalivePeriod :: int
  qo_MaxIdleTimeout :: int
  qo_MaxIncomingStreams :: int

record ClientTransportConfig =
  ct_Protocol :: string
  ct_WireProtocol :: string
  ct_DialServerTimeout :: int
  ct_DialServerKeepAlive :: int
  ct_ConnectServerLocalIP :: string
  ct_ProxyURL :: string
  ct_PoolCount :: int
  ct_TCPMux :: "bool option"
  ct_TCPMuxKeepaliveInterval :: int
  ct_QUIC :: QUICOptions
  ct_HeartbeatInterval :: int
  ct_HeartbeatTimeout :: int
  ct_TLS :: TLSClientConfig

record WebServerConfig =
  ws_Addr :: string
  ws_Port :: int
  ws_User :: string
  ws_Password :: string
  ws_AssetsDir :: string
  ws_PprofEnable :: bool
  ws_TLS :: "TLSConfig option"

record LogConfig =
  lc_To :: string
  lc_Level :: string
  lc_MaxDays :: int
  lc_DisablePrintColor :: bool

record ClientCommonConfig =
  co_Auth :: AuthClientConfig
  co_User :: string
  co_ClientID :: string
  co_XTCPControlID :: bytes
  co_ServerAddr :: string
  co_ServerPort :: int
  co_NatHoleSTUNServer :: string
  co_DNSServer :: string
  co_LoginFailExit :: "bool option"
  co_Start :: "string list"
  co_Log :: LogConfig
  co_WebServer :: WebServerConfig
  co_Transport :: ClientTransportConfig
  co_VirtualNetAddress :: string
  co_FeatureGates :: "string \<rightharpoonup> bool"
  co_UDPPacketSize :: int
  co_Metadatas :: str_map
  co_IncludeConfigFiles :: "string list"
  co_StorePath :: string

section \<open>Completion\<close>

definition QUICOptions_Complete :: "QUICOptions \<Rightarrow> QUICOptions" where
  "QUICOptions_Complete c =
     c\<lparr>qo_KeepalivePeriod := EmptyOrInt (qo_KeepalivePeriod c) 10, qo_MaxIdleTimeout := EmptyOrInt (qo_MaxIdleTimeout c) 30,
       qo_MaxIncomingStreams := EmptyOrInt (qo_MaxIncomingStreams c) 100000\<rparr>"

definition TLSClient_Complete :: "TLSClientConfig \<Rightarrow> TLSClientConfig" where
  "TLSClient_Complete c =
     c\<lparr>tc_Enable := EmptyOrPtr (tc_Enable c) (Some True),
       tc_DisableCustomTLSFirstByte := EmptyOrPtr (tc_DisableCustomTLSFirstByte c) (Some True)\<rparr>"

text \<open>\<open>http_proxy\<close> is the value of that environment variable.\<close>

definition Transport_Complete :: "string \<Rightarrow> ClientTransportConfig \<Rightarrow> ClientTransportConfig" where
  "Transport_Complete http_proxy c =
     (let mux = EmptyOrPtr (ct_TCPMux c) (Some True) in
      c\<lparr>ct_Protocol := EmptyOr (ct_Protocol c) ''tcp'',
        ct_WireProtocol := EmptyOr (ct_WireProtocol c) ''v1'',
        ct_DialServerTimeout := EmptyOrInt (ct_DialServerTimeout c) 10,
        ct_DialServerKeepAlive := EmptyOrInt (ct_DialServerKeepAlive c) 7200,
        ct_ProxyURL := EmptyOr (ct_ProxyURL c) http_proxy,
        ct_PoolCount := EmptyOrInt (ct_PoolCount c) 1,
        ct_TCPMux := mux,
        ct_TCPMuxKeepaliveInterval := EmptyOrInt (ct_TCPMuxKeepaliveInterval c) 30,
        ct_HeartbeatInterval := EmptyOrInt (ct_HeartbeatInterval c) (if FromPtr mux then -1 else 30),
        ct_HeartbeatTimeout := EmptyOrInt (ct_HeartbeatTimeout c) (if FromPtr mux then -1 else 90),
        ct_QUIC := QUICOptions_Complete (ct_QUIC c),
        ct_TLS := TLSClient_Complete (ct_TLS c)\<rparr>)"

definition Auth_Complete :: "AuthClientConfig \<Rightarrow> AuthClientConfig" where
  "Auth_Complete c = c\<lparr>ac_Method := EmptyOr (ac_Method c) ''token''\<rparr>"

definition Log_Complete :: "LogConfig \<Rightarrow> LogConfig" where
  "Log_Complete c =
     c\<lparr>lc_To := EmptyOr (lc_To c) ''console'', lc_Level := EmptyOr (lc_Level c) ''info'', lc_MaxDays := EmptyOrInt (lc_MaxDays c) 3\<rparr>"

definition WebServer_Complete :: "WebServerConfig \<Rightarrow> WebServerConfig" where
  "WebServer_Complete c = c\<lparr>ws_Addr := EmptyOr (ws_Addr c) ''127.0.0.1''\<rparr>"

definition Common_Complete :: "string \<Rightarrow> ClientCommonConfig \<Rightarrow> ClientCommonConfig" where
  "Common_Complete http_proxy c =
     c\<lparr>co_ServerAddr := EmptyOr (co_ServerAddr c) ''0.0.0.0'',
       co_ServerPort := EmptyOrInt (co_ServerPort c) 7000,
       co_LoginFailExit := EmptyOrPtr (co_LoginFailExit c) (Some True),
       co_NatHoleSTUNServer := EmptyOr (co_NatHoleSTUNServer c) ''stun.easyvoip.com:3478'',
       co_Auth := Auth_Complete (co_Auth c),
       co_Log := Log_Complete (co_Log c),
       co_Transport := Transport_Complete http_proxy (co_Transport c),
       co_WebServer := WebServer_Complete (co_WebServer c),
       co_UDPPacketSize := EmptyOrInt (co_UDPPacketSize c) 1500\<rparr>"

section \<open>Visitors\<close>

record VisitorTransport =
  vt_UseEncryption :: bool
  vt_UseCompression :: bool

record VisitorBaseConfig =
  vb_Name :: string
  vb_Type :: string
  vb_Enabled :: "bool option"
  vb_Transport :: VisitorTransport
  vb_SecretKey :: string
  vb_ServerUser :: string
  vb_ServerName :: string
  vb_BindAddr :: string
  vb_BindPort :: int
  vb_PluginType :: string
  vb_DestinationIP :: "string option"

record XTCPVisitorConfig =
  xv_Protocol :: string
  xv_KeepTunnelOpen :: bool
  xv_MaxRetriesAnHour :: int
  xv_MinRetryInterval :: int
  xv_FallbackTo :: string
  xv_FallbackTimeoutMs :: int
  xv_DisableAssistedAddrs :: "bool option"

text \<open>The only options of a visitor plugin are those of the virtual network: an address.\<close>

datatype visitor_details = STCP_visitor | SUDP_visitor | XTCP_visitor XTCPVisitorConfig

record VisitorConfigurer =
  vc_base :: VisitorBaseConfig
  vc_details :: visitor_details

definition zero_visitor_base :: VisitorBaseConfig where
  "zero_visitor_base =
     \<lparr>vb_Name = [], vb_Type = [], vb_Enabled = None, vb_Transport = \<lparr>vt_UseEncryption = False, vt_UseCompression = False\<rparr>,
      vb_SecretKey = [], vb_ServerUser = [], vb_ServerName = [], vb_BindAddr = [], vb_BindPort = 0, vb_PluginType = [],
      vb_DestinationIP = None\<rparr>"

definition visitorConfigTypeMap :: "(string \<times> visitor_details) list" where
  "visitorConfigTypeMap =
     [(''stcp'', STCP_visitor),
      (''xtcp'', XTCP_visitor \<lparr>xv_Protocol = [], xv_KeepTunnelOpen = False, xv_MaxRetriesAnHour = 0, xv_MinRetryInterval = 0,
         xv_FallbackTo = [], xv_FallbackTimeoutMs = 0, xv_DisableAssistedAddrs = None\<rparr>),
      (''sudp'', SUDP_visitor)]"

definition NewVisitorConfigurerByType :: "string \<Rightarrow> VisitorConfigurer option" where
  "NewVisitorConfigurerByType t =
     map_option (\<lambda>d. \<lparr>vc_base = zero_visitor_base\<lparr>vb_Type := t\<rparr>, vc_details = d\<rparr>) (map_of visitorConfigTypeMap t)"

definition VisitorBase_Complete :: "VisitorBaseConfig \<Rightarrow> VisitorBaseConfig" where
  "VisitorBase_Complete c = (if vb_BindAddr c = [] then c\<lparr>vb_BindAddr := ''127.0.0.1''\<rparr> else c)"

definition XTCPVisitor_Complete :: "XTCPVisitorConfig \<Rightarrow> XTCPVisitorConfig" where
  "XTCPVisitor_Complete c =
     c\<lparr>xv_Protocol := EmptyOr (xv_Protocol c) ''quic'',
       xv_MaxRetriesAnHour := EmptyOrInt (xv_MaxRetriesAnHour c) 8,
       xv_MinRetryInterval := EmptyOrInt (xv_MinRetryInterval c) 90,
       xv_FallbackTimeoutMs := EmptyOrInt (xv_FallbackTimeoutMs c) 1000\<rparr>"

definition Visitor_Complete :: "VisitorConfigurer \<Rightarrow> VisitorConfigurer" where
  "Visitor_Complete c =
     c\<lparr>vc_base := VisitorBase_Complete (vc_base c),
       vc_details := (case vc_details c of XTCP_visitor x \<Rightarrow> XTCP_visitor (XTCPVisitor_Complete x) | d \<Rightarrow> d)\<rparr>"

definition visitor_name :: "VisitorConfigurer \<Rightarrow> string" where
  "visitor_name c = vb_Name (vc_base c)"

section \<open>Which entries run\<close>

definition enabled :: "bool option \<Rightarrow> bool" where
  "enabled e \<longleftrightarrow> e \<noteq> Some False"

definition FilterClientConfigurers ::
    "string list \<Rightarrow> ProxyConfigurer list \<Rightarrow> VisitorConfigurer list \<Rightarrow> ProxyConfigurer list \<times> VisitorConfigurer list" where
  "FilterClientConfigurers start proxies visitors =
     (let ps = (if start \<noteq> [] then filter (\<lambda>c. pb_Name (pc_base c) \<in> set start) proxies else proxies);
          vs = (if start \<noteq> [] then filter (\<lambda>c. visitor_name c \<in> set start) visitors else visitors)
      in (filter (\<lambda>c. enabled (pb_Enabled (pc_base c))) ps, filter (\<lambda>c. enabled (vb_Enabled (vc_base c))) vs))"

definition CompleteProxyConfigurers :: "ProxyConfigurer list \<Rightarrow> ProxyConfigurer list" where
  "CompleteProxyConfigurers = map Complete"

definition CompleteVisitorConfigurers :: "VisitorConfigurer list \<Rightarrow> VisitorConfigurer list" where
  "CompleteVisitorConfigurers = map Visitor_Complete"

definition requires_VirtualNet :: "ClientCommonConfig \<Rightarrow> ProxyConfigurer list \<Rightarrow> VisitorConfigurer list \<Rightarrow> bool" where
  "requires_VirtualNet common proxies visitors \<longleftrightarrow>
     co_VirtualNetAddress common \<noteq> [] \<or> (\<exists>c \<in> set proxies. pb_PluginType (pc_base c) = ''virtual_net'') \<or>
     (\<exists>c \<in> set visitors. vb_PluginType (vc_base c) = ''virtual_net'')"

section \<open>Feature gates and unsafe features\<close>

record FeatureSpec =
  fs_Default :: bool
  fs_LockToDefault :: bool
  fs_Stage :: string

record featureGate =
  fg_known :: "string \<rightharpoonup> FeatureSpec"
  fg_enabled :: "string \<rightharpoonup> bool"
  fg_closed :: bool

definition defaultFeatures :: "string \<rightharpoonup> FeatureSpec" where
  "defaultFeatures = [''VirtualNet'' \<mapsto> \<lparr>fs_Default = False, fs_LockToDefault = False, fs_Stage = ''ALPHA''\<rparr>]"

definition NewFeatureGate :: featureGate where
  "NewFeatureGate = \<lparr>fg_known = defaultFeatures, fg_enabled = Map.empty, fg_closed = False\<rparr>"

datatype gate_err = UnrecognizedGate string | LockedGate string bool bool | GateClosed | GateExists string

text \<open>The loop over the settings, in the order \<open>ks\<close>; an error leaves the gate as it was.\<close>

fun apply_gates :: "(string \<rightharpoonup> FeatureSpec) \<Rightarrow> (string \<rightharpoonup> bool) \<Rightarrow> string list \<Rightarrow> (string \<rightharpoonup> bool) \<Rightarrow> gate_err + (string \<rightharpoonup> bool)" where
  "apply_gates known m [] on = Inr on"
| "apply_gates known m (k # ks) on =
     (case known k of
        None \<Rightarrow> Inl (UnrecognizedGate k)
      | Some spec \<Rightarrow>
          let v = the (m k) in
          if fs_LockToDefault spec \<and> fs_Default spec \<noteq> v then Inl (LockedGate k v (fs_Default spec))
          else apply_gates known m ks (on(k \<mapsto> v)))"

definition SetFromMap :: "(string \<rightharpoonup> bool) \<Rightarrow> string list \<Rightarrow> featureGate \<Rightarrow> gate_err option \<times> featureGate" where
  "SetFromMap m ks f =
     (case apply_gates (fg_known f) m ks (fg_enabled f) of
        Inl e \<Rightarrow> (Some e, f)
      | Inr on \<Rightarrow> (None, f\<lparr>fg_enabled := on\<rparr>))"

fun add_features :: "(string \<times> FeatureSpec) list \<Rightarrow> (string \<rightharpoonup> FeatureSpec) \<Rightarrow> gate_err + (string \<rightharpoonup> FeatureSpec)" where
  "add_features [] known = Inr known"
| "add_features ((name, spec) # fs) known =
     (case known name of
        Some old \<Rightarrow> if old = spec then add_features fs known else Inl (GateExists name)
      | None \<Rightarrow> add_features fs (known(name \<mapsto> spec)))"

definition Gate_Add :: "(string \<times> FeatureSpec) list \<Rightarrow> featureGate \<Rightarrow> gate_err option \<times> featureGate" where
  "Gate_Add fs f =
     (if fg_closed f then (Some GateClosed, f)
      else case add_features fs (fg_known f) of
        Inl e \<Rightarrow> (Some e, f)
      | Inr known \<Rightarrow> (None, f\<lparr>fg_known := known\<rparr>))"

definition Gate_Enabled :: "featureGate \<Rightarrow> string \<Rightarrow> bool" where
  "Gate_Enabled f key =
     (case fg_enabled f key of
        Some v \<Rightarrow> v
      | None \<Rightarrow> (case fg_known f key of Some spec \<Rightarrow> fs_Default spec | None \<Rightarrow> False))"

text \<open>A nil pointer to \<open>UnsafeFeatures\<close> is \<open>None\<close>.\<close>

definition NewUnsafeFeatures :: "string list \<Rightarrow> (string \<rightharpoonup> bool) option" where
  "NewUnsafeFeatures allowed = Some (fold (\<lambda>f m. m(f \<mapsto> True)) allowed Map.empty)"

definition IsEnabled :: "(string \<rightharpoonup> bool) option \<Rightarrow> string \<Rightarrow> bool" where
  "IsEnabled u feature = (case u of None \<Rightarrow> False | Some m \<Rightarrow> m feature = Some True)"

section \<open>Value sources\<close>

datatype src_err = FileRequired | ExecRequired | UnsupportedSource string | EmptyPath | EmptyCommand | EmptyEnvName | BadEnvName |
  ReadFailed string | ExecFailed string

definition FileSource_Validate :: "string \<Rightarrow> src_err option" where
  "FileSource_Validate path = (if path = [] then Some EmptyPath else None)"

fun env_err :: "(string \<times> string) list \<Rightarrow> src_err option" where
  "env_err [] = None"
| "env_err ((n, _) # es) = (if n = [] then Some EmptyEnvName else if CHR ''='' \<in> set n then Some BadEnvName else env_err es)"

definition ExecSource_Validate :: "ExecSource \<Rightarrow> src_err option" where
  "ExecSource_Validate e = (if es_Command e = [] then Some EmptyCommand else env_err (es_Env e))"

definition ValueSource_Validate :: "ValueSource \<Rightarrow> src_err option" where
  "ValueSource_Validate v =
     (if vs_Type v = ''file'' then (case vs_File v of None \<Rightarrow> Some FileRequired | Some p \<Rightarrow> FileSource_Validate p)
      else if vs_Type v = ''exec'' then (case vs_Exec v of None \<Rightarrow> Some ExecRequired | Some e \<Rightarrow> ExecSource_Validate e)
      else Some (UnsupportedSource (vs_Type v)))"

text \<open>
  Reading a file and running a command are arguments; a command gets its arguments and, when the
  source lists variables, the environment \<open>environ\<close> with them appended.
\<close>

definition ExecSource_Resolve ::
    "(string \<Rightarrow> string) \<Rightarrow> (string \<Rightarrow> string list \<Rightarrow> string list option \<Rightarrow> string option) \<Rightarrow> string list \<Rightarrow> ExecSource \<Rightarrow> src_err + string" where
  "ExecSource_Resolve uni exec environ e =
     (case ExecSource_Validate e of
        Some err \<Rightarrow> Inl err
      | None \<Rightarrow>
          (let env = (if es_Env e \<noteq> [] then Some (environ @ map (\<lambda>(n, v). n @ ''='' @ v) (es_Env e)) else None) in
           case exec (es_Command e) (es_Args e) env of
             None \<Rightarrow> Inl (ExecFailed (es_Command e))
           | Some out \<Rightarrow> Inr (TrimSpace uni out)))"

definition FileSource_Resolve :: "(string \<Rightarrow> string) \<Rightarrow> (string \<Rightarrow> string option) \<Rightarrow> string \<Rightarrow> src_err + string" where
  "FileSource_Resolve uni read path =
     (case FileSource_Validate path of
        Some err \<Rightarrow> Inl err
      | None \<Rightarrow> (case read path of None \<Rightarrow> Inl (ReadFailed path) | Some s \<Rightarrow> Inr (TrimSpace uni s)))"

definition ValueSource_Resolve ::
    "(string \<Rightarrow> string) \<Rightarrow> (string \<Rightarrow> string option) \<Rightarrow> (string \<Rightarrow> string list \<Rightarrow> string list option \<Rightarrow> string option) \<Rightarrow> string list \<Rightarrow>
     ValueSource \<Rightarrow> src_err + string" where
  "ValueSource_Resolve uni read exec environ v =
     (case ValueSource_Validate v of
        Some err \<Rightarrow> Inl err
      | None \<Rightarrow>
          if vs_Type v = ''file'' then FileSource_Resolve uni read (the (vs_File v))
          else ExecSource_Resolve uni exec environ (the (vs_Exec v)))"

section \<open>Validation\<close>

datatype cfg_err =
    GateErr gate_err | VirtualNetDisabled | BadAuthMethod | BadAuthScopes | TokenAndSource | UnsafeNotEnabled string |
    SourceErr src_err | OIDCSourceAndField | OIDCErr "string list" | BadLogLevel | NoCertFile | NoKeyFile | PortErr val_err |
    HeartbeatErr | BadProtocol | BadWireProtocol | IncludeParse string | IncludeMissing string |
    ProxyErr string val_err | NoVisitorName | NoServerName | NoBindPort | HasFallback | NotQuic | VisitorErr string cfg_err

definition validateAuthTokenSource :: "(string \<rightharpoonup> bool) option \<Rightarrow> string \<Rightarrow> ValueSource option \<Rightarrow> cfg_err list" where
  "validateAuthTokenSource unsafe token src =
     (if token \<noteq> [] \<and> src \<noteq> None then [TokenAndSource] else []) @
     (case src of
        None \<Rightarrow> []
      | Some s \<Rightarrow>
          (if vs_Type s = ''exec'' \<and> \<not> IsEnabled unsafe ''TokenSourceExec'' then [UnsafeNotEnabled ''TokenSourceExec''] else []) @
          (case ValueSource_Validate s of None \<Rightarrow> [] | Some e \<Rightarrow> [SourceErr e]))"

definition validateOIDCConfig :: "(string \<rightharpoonup> bool) option \<Rightarrow> AuthOIDCClientConfig \<Rightarrow> cfg_err list" where
  "validateOIDCConfig unsafe c =
     (case oc_TokenSource c of
        None \<Rightarrow> []
      | Some s \<Rightarrow>
          (if oc_ClientID c \<noteq> [] \<or> oc_ClientSecret c \<noteq> [] \<or> oc_Audience c \<noteq> [] \<or> oc_Scope c \<noteq> [] \<or> oc_TokenEndpointURL c \<noteq> [] \<or>
              oc_AdditionalEndpointParams c \<noteq> [] \<or> oc_TrustedCaFile c \<noteq> [] \<or> oc_InsecureSkipVerify c \<or> oc_ProxyURL c \<noteq> []
           then [OIDCSourceAndField] else []) @
          (if vs_Type s = ''exec'' \<and> \<not> IsEnabled unsafe ''TokenSourceExec'' then [UnsafeNotEnabled ''TokenSourceExec''] else []) @
          (case ValueSource_Validate s of None \<Rightarrow> [] | Some e \<Rightarrow> [SourceErr e]))"

text \<open>\<open>parse\<close> is \<open>url.Parse\<close>, giving scheme and host.\<close>

definition ValidateOIDCClientCredentialsConfig :: "(string \<Rightarrow> (string \<times> string) option) \<Rightarrow> AuthOIDCClientConfig \<Rightarrow> string list" where
  "ValidateOIDCClientCredentialsConfig parse c =
     (if oc_ClientID c = [] then [''auth.oidc.clientID is required''] else []) @
     (if oc_TokenEndpointURL c = [] then [''auth.oidc.tokenEndpointURL is required'']
      else case parse (oc_TokenEndpointURL c) of
        None \<Rightarrow> [''auth.oidc.tokenEndpointURL must be an absolute http or https URL'']
      | Some (scheme, host) \<Rightarrow>
          if scheme = [] \<or> host = [] then [''auth.oidc.tokenEndpointURL must be an absolute http or https URL'']
          else if scheme \<noteq> ''http'' \<and> scheme \<noteq> ''https'' then [''auth.oidc.tokenEndpointURL must use http or https''] else []) @
     (if map_of (oc_AdditionalEndpointParams c) ''scope'' \<noteq> None
      then [''auth.oidc.additionalEndpointParams.scope is not allowed; use auth.oidc.scope instead''] else []) @
     (if oc_Audience c \<noteq> [] \<and> map_of (oc_AdditionalEndpointParams c) ''audience'' \<noteq> None
      then [''cannot specify both auth.oidc.audience and auth.oidc.additionalEndpointParams.audience''] else [])"

definition SupportedAuthMethods :: "string list" where
  "SupportedAuthMethods = [''token'', ''oidc'']"

definition SupportedAuthAdditionalScopes :: "string list" where
  "SupportedAuthAdditionalScopes = [''HeartBeats'', ''NewWorkConns'']"

definition validateAuthConfig ::
    "(string \<Rightarrow> (string \<times> string) option) \<Rightarrow> (string \<rightharpoonup> bool) option \<Rightarrow> AuthClientConfig \<Rightarrow> cfg_err list" where
  "validateAuthConfig parse unsafe c =
     (if ac_Method c \<notin> set SupportedAuthMethods then [BadAuthMethod] else []) @
     (if \<not> set (ac_AdditionalScopes c) \<subseteq> set SupportedAuthAdditionalScopes then [BadAuthScopes] else []) @
     validateAuthTokenSource unsafe (ac_Token c) (ac_TokenSource c) @
     validateOIDCConfig unsafe (ac_OIDC c) @
     (if ac_Method c = ''oidc'' \<and> oc_TokenSource (ac_OIDC c) = None then
        (case ValidateOIDCClientCredentialsConfig parse (ac_OIDC c) of [] \<Rightarrow> [] | es \<Rightarrow> [OIDCErr es])
      else [])"

definition validateFeatureGates :: "string list \<Rightarrow> ClientCommonConfig \<Rightarrow> cfg_err list" where
  "validateFeatureGates ks c =
     (case SetFromMap (co_FeatureGates c) ks NewFeatureGate of
        (Some e, _) \<Rightarrow> [GateErr e]
      | (None, g) \<Rightarrow> if co_VirtualNetAddress c \<noteq> [] \<and> \<not> Gate_Enabled g ''VirtualNet'' then [VirtualNetDisabled] else [])"

definition SupportedLogLevels :: "string list" where
  "SupportedLogLevels = [''trace'', ''debug'', ''info'', ''warn'', ''error'']"

definition validateLogConfig :: "LogConfig \<Rightarrow> cfg_err list" where
  "validateLogConfig c = (if lc_Level c \<notin> set SupportedLogLevels then [BadLogLevel] else [])"

definition validateWebServerConfig :: "WebServerConfig \<Rightarrow> cfg_err list" where
  "validateWebServerConfig c =
     (if ws_TLS c \<noteq> None \<and> tls_CertFile (the (ws_TLS c)) = [] then [NoCertFile]
      else if ws_TLS c \<noteq> None \<and> tls_KeyFile (the (ws_TLS c)) = [] then [NoKeyFile]
      else case ValidatePort (ws_Port c) ''webServer.port'' of None \<Rightarrow> [] | Some e \<Rightarrow> [PortErr e])"

definition SupportedTransportProtocols :: "string list" where
  "SupportedTransportProtocols = [''tcp'', ''kcp'', ''quic'', ''websocket'', ''wss'']"

definition SupportedWireProtocols :: "string list" where
  "SupportedWireProtocols = [''v1'', ''v2'']"

text \<open>The warnings are the names of the TLS fields that have no effect.\<close>

definition validateTransportConfig :: "ClientTransportConfig \<Rightarrow> string list \<times> cfg_err list" where
  "validateTransportConfig c =
     (let t = tc_TLSConfig (ct_TLS c);
          warn = (\<lambda>name v. if v \<noteq> [] then [name] else [])
      in (if \<not> FromPtr (tc_Enable (ct_TLS c)) then
            warn ''transport.tls.certFile'' (tls_CertFile t) @ warn ''transport.tls.keyFile'' (tls_KeyFile t) @
            warn ''transport.tls.trustedCaFile'' (tls_TrustedCaFile t)
          else [],
          (if ct_HeartbeatTimeout c > 0 \<and> ct_HeartbeatInterval c > 0 \<and> ct_HeartbeatTimeout c < ct_HeartbeatInterval c
           then [HeartbeatErr] else []) @
          (if ct_Protocol c \<notin> set SupportedTransportProtocols then [BadProtocol] else []) @
          (if ct_WireProtocol c \<notin> set SupportedWireProtocols then [BadWireProtocol] else [])))"

text \<open>\<open>abs_dir\<close> gives the absolute directory of a file, \<open>missing\<close> says that a directory does not exist.\<close>

definition validateIncludeFiles :: "(string \<Rightarrow> string option) \<Rightarrow> (string \<Rightarrow> bool) \<Rightarrow> string list \<Rightarrow> cfg_err list" where
  "validateIncludeFiles abs_dir missing files =
     concat (map (\<lambda>f. case abs_dir f of None \<Rightarrow> [IncludeParse f] | Some d \<Rightarrow> if missing d then [IncludeMissing f] else []) files)"

record val_env =
  ve_cfg :: cfg_env
  ve_parse :: "string \<Rightarrow> (string \<times> string) option"
  ve_abs_dir :: "string \<Rightarrow> string option"
  ve_missing :: "string \<Rightarrow> bool"
  ve_gates :: "string list"

definition ValidateClientCommonConfig :: "val_env \<Rightarrow> (string \<rightharpoonup> bool) option \<Rightarrow> ClientCommonConfig \<Rightarrow> string list \<times> cfg_err list" where
  "ValidateClientCommonConfig env unsafe c =
     (fst (validateTransportConfig (co_Transport c)),
      validateFeatureGates (ve_gates env) c @ validateAuthConfig (ve_parse env) unsafe (co_Auth c) @ validateLogConfig (co_Log c) @
      validateWebServerConfig (co_WebServer c) @ snd (validateTransportConfig (co_Transport c)) @
      validateIncludeFiles (ve_abs_dir env) (ve_missing env) (co_IncludeConfigFiles c))"

definition validateVisitorBaseConfig :: "VisitorBaseConfig \<Rightarrow> cfg_err option" where
  "validateVisitorBaseConfig c =
     (if vb_Name c = [] then Some NoVisitorName
      else if vb_ServerName c = [] then Some NoServerName
      else if vb_BindPort c = 0 then Some NoBindPort else None)"

definition validateXTCPVisitorConfig :: "XTCPVisitorConfig \<Rightarrow> cfg_err option" where
  "validateXTCPVisitorConfig c =
     (if xv_FallbackTo c \<noteq> [] then Some HasFallback else if xv_Protocol c \<noteq> ''quic'' then Some NotQuic else None)"

definition ValidateVisitorConfigurer :: "VisitorConfigurer \<Rightarrow> cfg_err option" where
  "ValidateVisitorConfigurer c =
     (case validateVisitorBaseConfig (vc_base c) of
        Some e \<Rightarrow> Some e
      | None \<Rightarrow> (case vc_details c of XTCP_visitor x \<Rightarrow> validateXTCPVisitorConfig x | _ \<Rightarrow> None))"

fun first_bad :: "('a \<Rightarrow> 'e option) \<Rightarrow> 'a list \<Rightarrow> ('a \<times> 'e) option" where
  "first_bad f [] = None"
| "first_bad f (x # xs) = (case f x of Some e \<Rightarrow> Some (x, e) | None \<Rightarrow> first_bad f xs)"

definition ValidateAllClientConfig ::
    "val_env \<Rightarrow> (string \<rightharpoonup> bool) option \<Rightarrow> ClientCommonConfig option \<Rightarrow> ProxyConfigurer list \<Rightarrow> VisitorConfigurer list \<Rightarrow>
     string list \<times> cfg_err list" where
  "ValidateAllClientConfig env unsafe common proxies visitors =
     (let (warnings, errs) = (case common of None \<Rightarrow> ([], []) | Some c \<Rightarrow> ValidateClientCommonConfig env unsafe c) in
      if errs \<noteq> [] then (warnings, errs)
      else case first_bad (ValidateProxyConfigurerForClient (ve_cfg env)) proxies of
        Some (c, e) \<Rightarrow> (warnings, [ProxyErr (pb_Name (pc_base c)) e])
      | None \<Rightarrow>
          (case first_bad ValidateVisitorConfigurer visitors of
             Some (c, e) \<Rightarrow> (warnings, [VisitorErr (visitor_name c) e])
           | None \<Rightarrow> (warnings, [])))"

section \<open>What an accepted configuration satisfies\<close>

lemma first_bad_none: "first_bad f xs = None \<longleftrightarrow> (\<forall>x \<in> set xs. f x = None)"
  by (induction xs) (auto split: option.splits)

lemma ValidateAll_ok:
  assumes "snd (ValidateAllClientConfig env unsafe (Some c) proxies visitors) = []"
  shows "snd (ValidateClientCommonConfig env unsafe c) = []"
    and "\<forall>p \<in> set proxies. ValidateProxyConfigurerForClient (ve_cfg env) p = None"
    and "\<forall>v \<in> set visitors. ValidateVisitorConfigurer v = None"
  using assms by (auto simp: ValidateAllClientConfig_def split: prod.splits option.splits if_splits simp flip: first_bad_none)

lemma apply_gates_spec:
  assumes "apply_gates known m ks on = Inr on'" "distinct ks"
  shows "on' k = (if k \<in> set ks then Some (the (m k)) else on k)" and "set ks \<subseteq> dom known"
  using assms by (induction ks arbitrary: on) (auto simp: Let_def split: option.splits if_splits)

text \<open>Settings of feature gates apply as given, whatever the order of the map; all others keep their value.\<close>

lemma gates_set:
  assumes "iter_order m ks" and "SetFromMap m ks f = (None, f')"
  shows "Gate_Enabled f' k = (case m k of Some v \<Rightarrow> v | None \<Rightarrow> Gate_Enabled f k)"
proof -
  obtain on where on: "apply_gates (fg_known f) m ks (fg_enabled f) = Inr on" "f' = f\<lparr>fg_enabled := on\<rparr>"
    using assms(2) by (auto simp: SetFromMap_def split: sum.splits)
  have "on k = (if k \<in> dom m then Some (the (m k)) else fg_enabled f k)"
    using apply_gates_spec(1) [OF on(1)] assms(1) by (simp add: iter_order_def)
  then show ?thesis by (auto simp: Gate_Enabled_def on(2) split: option.split)
qed

lemma virtual_net_needs_gate:
  assumes "iter_order (co_FeatureGates c) (ve_gates env)" "snd (ValidateClientCommonConfig env unsafe c) = []" "co_VirtualNetAddress c \<noteq> []"
  shows "co_FeatureGates c ''VirtualNet'' = Some True"
proof -
  obtain g where g: "SetFromMap (co_FeatureGates c) (ve_gates env) NewFeatureGate = (None, g)" "Gate_Enabled g ''VirtualNet''"
    using assms(2,3) by (auto simp: ValidateClientCommonConfig_def validateFeatureGates_def split: prod.splits option.splits if_splits)
  with gates_set [OF assms(1) g(1), of "''VirtualNet''"] show ?thesis
    by (auto simp: Gate_Enabled_def NewFeatureGate_def defaultFeatures_def split: option.splits)
qed

lemma exec_source_allowed:
  assumes "snd (ValidateClientCommonConfig env unsafe c) = []"
    and "ac_TokenSource (co_Auth c) = Some s \<or> oc_TokenSource (ac_OIDC (co_Auth c)) = Some s"
  shows "ValueSource_Validate s = None" and "vs_Type s = ''exec'' \<Longrightarrow> IsEnabled unsafe ''TokenSourceExec''"
  using assms
  by (auto simp: ValidateClientCommonConfig_def validateAuthConfig_def validateAuthTokenSource_def validateOIDCConfig_def
      split: option.splits if_splits)

text \<open>
  C37. No configuration makes the client run a program unless this was allowed when the client was started.
  When a client configuration passes its validation and the feature \<open>TokenSourceExec\<close> is not enabled, every
  token source in it resolves to the trimmed content of a file with a non-empty path, or fails for that
  file; the program runner is never asked.
\<close>

theorem exec_needs_permission:
  assumes "snd (ValidateAllClientConfig env unsafe (Some c) proxies visitors) = []" and "\<not> IsEnabled unsafe ''TokenSourceExec''"
    and "ac_TokenSource (co_Auth c) = Some s \<or> oc_TokenSource (ac_OIDC (co_Auth c)) = Some s"
  shows "\<exists>path. path \<noteq> [] \<and> ValueSource_Resolve uni read exec environ s =
    (case read path of None \<Rightarrow> Inl (ReadFailed path) | Some content \<Rightarrow> Inr (TrimSpace uni content))"
proof -
  note ok = exec_source_allowed [OF ValidateAll_ok(1) [OF assms(1)] assms(3)]
  have "vs_Type s = ''file''" using ok assms(2) by (auto simp: ValueSource_Validate_def split: if_splits)
  moreover obtain path where "vs_File s = Some path" "path \<noteq> []"
    using ok(1) \<open>vs_Type s = ''file''\<close> by (auto simp: ValueSource_Validate_def FileSource_Validate_def split: option.splits if_splits)
  ultimately show ?thesis
    using ok(1) by (auto simp: ValueSource_Resolve_def FileSource_Resolve_def FileSource_Validate_def)
qed

definition demo_oidc :: AuthOIDCClientConfig where
  "demo_oidc = \<lparr>oc_ClientID = [], oc_ClientSecret = [], oc_Audience = [], oc_Scope = [], oc_TokenEndpointURL = [],
     oc_AdditionalEndpointParams = [], oc_TrustedCaFile = [], oc_InsecureSkipVerify = False, oc_ProxyURL = [], oc_TokenSource = None\<rparr>"

definition demo_auth :: AuthClientConfig where
  "demo_auth = \<lparr>ac_Method = ''token'', ac_AdditionalScopes = [], ac_Token = ''secret'', ac_TokenSource = None, ac_OIDC = demo_oidc\<rparr>"

definition demo_transport :: ClientTransportConfig where
  "demo_transport =
     \<lparr>ct_Protocol = [], ct_WireProtocol = ''v2'', ct_DialServerTimeout = 0, ct_DialServerKeepAlive = 0, ct_ConnectServerLocalIP = [],
      ct_ProxyURL = [], ct_PoolCount = 0, ct_TCPMux = None, ct_TCPMuxKeepaliveInterval = 0,
      ct_QUIC = \<lparr>qo_KeepalivePeriod = 0, qo_MaxIdleTimeout = 0, qo_MaxIncomingStreams = 0\<rparr>, ct_HeartbeatInterval = 0, ct_HeartbeatTimeout = 0,
      ct_TLS = \<lparr>tc_Enable = None, tc_DisableCustomTLSFirstByte = None,
        tc_TLSConfig = \<lparr>tls_CertFile = [], tls_KeyFile = [], tls_TrustedCaFile = ''ca.pem'', tls_ServerName = []\<rparr>\<rparr>\<rparr>"

definition demo_common :: ClientCommonConfig where
  "demo_common =
     Common_Complete [] \<lparr>co_Auth = demo_auth, co_User = ''u'', co_ClientID = [], co_XTCPControlID = [], co_ServerAddr = [], co_ServerPort = 0,
       co_NatHoleSTUNServer = [], co_DNSServer = [], co_LoginFailExit = None, co_Start = [],
       co_Log = \<lparr>lc_To = [], lc_Level = [], lc_MaxDays = 0, lc_DisablePrintColor = False\<rparr>,
       co_WebServer = \<lparr>ws_Addr = [], ws_Port = 0, ws_User = [], ws_Password = [], ws_AssetsDir = [], ws_PprofEnable = False, ws_TLS = None\<rparr>,
       co_Transport = demo_transport, co_VirtualNetAddress = [], co_FeatureGates = Map.empty, co_UDPPacketSize = 0,
       co_Metadatas = Map.empty, co_IncludeConfigFiles = [], co_StorePath = []\<rparr>"

definition demo_val_env :: val_env where
  "demo_val_env = \<lparr>ve_cfg = demo_env, ve_parse = \<lambda>_. None, ve_abs_dir = Some, ve_missing = \<lambda>_. False, ve_gates = []\<rparr>"

definition demo_file_source :: ValueSource where
  "demo_file_source = \<lparr>vs_Type = ''file'', vs_File = Some ''token.txt'', vs_Exec = None\<rparr>"

theorem exec_needs_permission_witness:
  "let c = demo_common\<lparr>co_Auth := demo_auth\<lparr>ac_Token := [], ac_TokenSource := Some demo_file_source\<rparr>\<rparr> in
   snd (ValidateAllClientConfig demo_val_env (NewUnsafeFeatures []) (Some c) [] []) = [] \<and>
   (\<exists>path. path \<noteq> [] \<and> ValueSource_Resolve id (\<lambda>_. Some '' t '') (\<lambda>_ _ _. None) [] demo_file_source =
      (case (Some '' t '' :: string option) of None \<Rightarrow> Inl (ReadFailed path) | Some content \<Rightarrow> Inr (TrimSpace id content)))"
proof -
  let ?c = "demo_common\<lparr>co_Auth := demo_auth\<lparr>ac_Token := [], ac_TokenSource := Some demo_file_source\<rparr>\<rparr>"
  have ok: "snd (ValidateAllClientConfig demo_val_env (NewUnsafeFeatures []) (Some ?c) [] []) = []" by code_simp
  have "\<not> IsEnabled (NewUnsafeFeatures []) ''TokenSourceExec''" by code_simp
  moreover have "ac_TokenSource (co_Auth ?c) = Some demo_file_source \<or> oc_TokenSource (ac_OIDC (co_Auth ?c)) = Some demo_file_source" by simp
  ultimately show ?thesis
    unfolding Let_def using ok exec_needs_permission [OF ok, of demo_file_source id "\<lambda>_. Some '' t ''" "\<lambda>_ _ _. None" "[]"] by blast
qed

end
