(* ===== verification/ClientProxies.thy ===== *)
theory ClientProxies
  imports ProxyConfig
begin

text \<open>
  The proxies of the client: the wrapper that registers a proxy at the server and keeps it registered
  (\<open>client/proxy/proxy_wrapper.go\<close>), the manager that follows the configuration (\<open>client/proxy/proxy_manager.go\<close>), the health
  monitor (\<open>client/health/health.go\<close>) and the names on the wire (\<open>pkg/naming/names.go\<close>). Wrappers are addresses in a heap: a wrapper
  that was removed from the manager still has its goroutine. A step is a critical section of the code.
  Messages to the server are queued in the order they are sent.
\<close>

section \<open>Names\<close>

definition AddUserPrefix :: "string \<Rightarrow> string \<Rightarrow> string" where
  "AddUserPrefix user name = (if user = [] then name else user @ ''.'' @ name)"

definition StripUserPrefix :: "string \<Rightarrow> string \<Rightarrow> string" where
  "StripUserPrefix user name =
     (if user = [] then name else if prefix (user @ ''.'') name then drop (length user + 1) name else name)"

definition BuildTargetServerProxyName :: "string \<Rightarrow> string \<Rightarrow> string \<Rightarrow> string" where
  "BuildTargetServerProxyName localUser serverUser serverName =
     (if serverUser \<noteq> [] then AddUserPrefix serverUser serverName else AddUserPrefix localUser serverName)"

lemma Strip_Add [simp]: "StripUserPrefix user (AddUserPrefix user name) = name"
  by (simp add: StripUserPrefix_def AddUserPrefix_def)

lemma AddUserPrefix_inj [simp]: "AddUserPrefix user a = AddUserPrefix user b \<longleftrightarrow> a = b"
  by (simp add: AddUserPrefix_def)

section \<open>Health monitor\<close>

record Monitor =
  maxFailedTimes :: int
  failedTimes :: "64 word"
  statusOK :: bool

definition NewMonitor :: "HealthCheckConfig \<Rightarrow> Monitor" where
  "NewMonitor cfg = \<lparr>maxFailedTimes = (if hc_MaxFailed cfg \<le> 0 then 1 else hc_MaxFailed cfg), failedTimes = 0, statusOK = False\<rparr>"

definition monitor_url :: "HealthCheckConfig \<Rightarrow> string \<Rightarrow> string" where
  "monitor_url cfg addr =
     (if hc_Type cfg = ''http'' \<and> hc_Path cfg \<noteq> []
      then ''http://'' @ addr @ (if HasPrefix (hc_Path cfg) ''/'' then [] else ''/'') @ hc_Path cfg else [])"

text \<open>One round of the monitor with the outcome of its check; the result has the callback it calls, if any.\<close>

definition monitor_round :: "bool \<Rightarrow> Monitor \<Rightarrow> Monitor \<times> bool option" where
  "monitor_round ok m =
     (if ok then if \<not> statusOK m then (m\<lparr>statusOK := True\<rparr>, Some True) else (m, None)
      else let m1 = m\<lparr>failedTimes := failedTimes m + 1\<rparr> in
           if statusOK m1 \<and> sint (failedTimes m1) \<ge> maxFailedTimes m1 then (m1\<lparr>statusOK := False\<rparr>, Some False) else (m1, None))"

text \<open>\<open>doCheck\<close> with what the dial or the request gives: an error, or the status code of the response.\<close>

definition doCheck :: "HealthCheckConfig \<Rightarrow> string \<Rightarrow> bool \<Rightarrow> int option \<Rightarrow> bool" where
  "doCheck cfg addr dial resp =
     (if hc_Type cfg = ''tcp'' then addr = [] \<or> dial
      else if hc_Type cfg = ''http'' then (case resp of None \<Rightarrow> False | Some code \<Rightarrow> code div 100 = 2)
      else False)"

section \<open>Wrapper\<close>

datatype phase = PhaseNew | PhaseWaitStart | PhaseStartErr | PhaseRunning | PhaseCheckFailed | PhaseClosed

record Wrapper =
  w_Name :: string
  w_Type :: string
  w_Phase :: phase
  w_Err :: string
  w_Cfg :: ProxyConfigurer
  w_RemoteAddr :: string
  w_wireName :: string
  w_health_failed :: bool
  w_monitor :: "Monitor option"
  w_lastSendStartMsg :: int
  w_lastStartErr :: int

datatype c_msg = MNew NewProxy | MClose string

definition Sec :: int where "Sec = 1000000000"
definition waitResponseTimeout :: int where "waitResponseTimeout = 20 * Sec"
definition startErrTimeout :: int where "startErrTimeout = 30 * Sec"

definition NewWrapper :: "string \<Rightarrow> ProxyConfigurer \<Rightarrow> Wrapper" where
  "NewWrapper user cfg =
     (let b = pc_base cfg; check = hc_Type (pb_HealthCheck b) \<noteq> [] \<and> pb_LocalPort b > 0 in
      \<lparr>w_Name = pb_Name b, w_Type = pb_Type b, w_Phase = PhaseNew, w_Err = [], w_Cfg = cfg, w_RemoteAddr = [],
       w_wireName = AddUserPrefix user (pb_Name b), w_health_failed = check,
       w_monitor = (if check then Some (NewMonitor (pb_HealthCheck b)) else None), w_lastSendStartMsg = 0, w_lastStartErr = 0\<rparr>)"

text \<open>\<open>close\<close> only sends the message.\<close>

definition close_msg :: "Wrapper \<Rightarrow> c_msg" where
  "close_msg w = MClose (w_wireName w)"

definition start_msg :: "Wrapper \<Rightarrow> c_msg" where
  "start_msg w = MNew ((MarshalToMsg (w_Cfg w) empty_NewProxy)\<lparr>np_ProxyName := w_wireName w\<rparr>)"

definition SetRunningStatus :: "string \<Rightarrow> string \<Rightarrow> bool \<Rightarrow> string \<Rightarrow> int \<Rightarrow> Wrapper \<Rightarrow> Wrapper \<times> c_msg list \<times> bool" where
  "SetRunningStatus remoteAddr respErr runOk runErr now w =
     (if w_Phase w \<noteq> PhaseWaitStart then (w, [], False)
      else
        let w1 = w\<lparr>w_RemoteAddr := remoteAddr\<rparr> in
        if respErr \<noteq> [] then (w1\<lparr>w_Phase := PhaseStartErr, w_Err := respErr, w_lastStartErr := now\<rparr>, [], False)
        else if \<not> runOk then (w1\<lparr>w_Phase := PhaseStartErr, w_Err := runErr, w_lastStartErr := now\<rparr>, [close_msg w], False)
        else (w1\<lparr>w_Phase := PhaseRunning, w_Err := []\<rparr>, [], True))"

definition Wrapper_Stop :: "Wrapper \<Rightarrow> Wrapper \<times> c_msg list" where
  "Wrapper_Stop w = (w\<lparr>w_Phase := PhaseClosed\<rparr>, [close_msg w])"

text \<open>One round of \<open>checkWorker\<close>.\<close>

definition start_due :: "int \<Rightarrow> Wrapper \<Rightarrow> bool" where
  "start_due now w \<longleftrightarrow>
     w_Phase w = PhaseNew \<or> w_Phase w = PhaseCheckFailed \<or>
     (w_Phase w = PhaseWaitStart \<and> now > w_lastSendStartMsg w + waitResponseTimeout) \<or>
     (w_Phase w = PhaseStartErr \<and> now > w_lastStartErr w + startErrTimeout)"

definition checkWorker_round :: "int \<Rightarrow> Wrapper \<Rightarrow> Wrapper \<times> c_msg list" where
  "checkWorker_round now w =
     (if \<not> w_health_failed w
      then if start_due now w then (w\<lparr>w_Phase := PhaseWaitStart, w_lastSendStartMsg := now\<rparr>, [start_msg w]) else (w, [])
      else if w_Phase w = PhaseRunning \<or> w_Phase w = PhaseWaitStart then (w\<lparr>w_Phase := PhaseCheckFailed\<rparr>, [close_msg w]) else (w, []))"

text \<open>A round of the monitor ends in one of the two status callbacks, or in none.\<close>

definition health_round :: "bool \<Rightarrow> Wrapper \<Rightarrow> Wrapper" where
  "health_round ok w =
     (case w_monitor w of
        None \<Rightarrow> w
      | Some m \<Rightarrow>
          (case monitor_round ok m of
             (m', None) \<Rightarrow> w\<lparr>w_monitor := Some m'\<rparr>
           | (m', Some up) \<Rightarrow> w\<lparr>w_monitor := Some m', w_health_failed := \<not> up\<rparr>))"

text \<open>Whether a work connection is handed to the proxy; otherwise it is closed.\<close>

definition InWorkConn :: "Wrapper \<Rightarrow> bool" where
  "InWorkConn w \<longleftrightarrow> w_Phase w = PhaseRunning"

section \<open>Manager\<close>

record Manager_state =
  pm_proxies :: "string \<rightharpoonup> nat"
  pm_heap :: "nat \<Rightarrow> Wrapper"
  pm_next :: nat
  pm_user :: string

definition cfg_name :: "ProxyConfigurer \<Rightarrow> string" where
  "cfg_name c = pb_Name (pc_base c)"

text \<open>\<open>lo.KeyBy\<close>: the last of several entries with the same key stays.\<close>

definition KeyBy :: "('a \<Rightarrow> string) \<Rightarrow> 'a list \<Rightarrow> (string \<rightharpoonup> 'a)" where
  "KeyBy f xs = fold (\<lambda>x m. m(f x \<mapsto> x)) xs Map.empty"

definition stop_at :: "nat \<Rightarrow> Manager_state \<Rightarrow> Manager_state \<times> c_msg list" where
  "stop_at a pm = (case Wrapper_Stop (pm_heap pm a) of (w, ms) \<Rightarrow> (pm\<lparr>pm_heap := (pm_heap pm)(a := w)\<rparr>, ms))"

fun delete_stale ::
    "(ProxyConfigurer \<Rightarrow> ProxyConfigurer \<Rightarrow> bool) \<Rightarrow> (string \<rightharpoonup> ProxyConfigurer) \<Rightarrow> string list \<Rightarrow> Manager_state \<Rightarrow> Manager_state \<times> c_msg list" where
  "delete_stale deep cfgs [] pm = (pm, [])"
| "delete_stale deep cfgs (name # names) pm =
     (case pm_proxies pm name of
        None \<Rightarrow> delete_stale deep cfgs names pm
      | Some a \<Rightarrow>
          if (case cfgs name of None \<Rightarrow> True | Some c \<Rightarrow> \<not> deep (w_Cfg (pm_heap pm a)) c)
          then (case stop_at a (pm\<lparr>pm_proxies := (pm_proxies pm)(name := None)\<rparr>) of
                  (pm1, ms1) \<Rightarrow> (case delete_stale deep cfgs names pm1 of (pm2, ms2) \<Rightarrow> (pm2, ms1 @ ms2)))
          else delete_stale deep cfgs names pm)"

definition add_cfg :: "ProxyConfigurer \<Rightarrow> Manager_state \<Rightarrow> Manager_state" where
  "add_cfg cfg pm =
     (case pm_proxies pm (cfg_name cfg) of
        Some _ \<Rightarrow> pm
      | None \<Rightarrow>
          pm\<lparr>pm_proxies := (pm_proxies pm)(cfg_name cfg \<mapsto> pm_next pm),
             pm_heap := (pm_heap pm)(pm_next pm := NewWrapper (pm_user pm) cfg), pm_next := Suc (pm_next pm)\<rparr>)"

text \<open>\<open>names\<close> is the order of the iteration over the manager's map.\<close>

definition PM_UpdateAll ::
    "(ProxyConfigurer \<Rightarrow> ProxyConfigurer \<Rightarrow> bool) \<Rightarrow> string list \<Rightarrow> ProxyConfigurer list \<Rightarrow> Manager_state \<Rightarrow> Manager_state \<times> c_msg list" where
  "PM_UpdateAll deep names cfgs pm =
     (case delete_stale deep (KeyBy cfg_name cfgs) names pm of (pm1, ms) \<Rightarrow> (fold add_cfg cfgs pm1, ms))"

fun stop_all :: "string list \<Rightarrow> Manager_state \<Rightarrow> Manager_state \<times> c_msg list" where
  "stop_all [] pm = (pm, [])"
| "stop_all (name # names) pm =
     (case pm_proxies pm name of
        None \<Rightarrow> stop_all names pm
      | Some a \<Rightarrow> (case stop_at a pm of (pm1, ms1) \<Rightarrow> (case stop_all names pm1 of (pm2, ms2) \<Rightarrow> (pm2, ms1 @ ms2))))"

definition PM_Close :: "string list \<Rightarrow> Manager_state \<Rightarrow> Manager_state \<times> c_msg list" where
  "PM_Close names pm = (case stop_all names pm of (pm1, ms) \<Rightarrow> (pm1\<lparr>pm_proxies := Map.empty\<rparr>, ms))"

text \<open>\<open>handleNewProxyResp\<close> of \<open>client/control.go\<close> and \<open>StartProxy\<close>.\<close>

definition StartProxy :: "string \<Rightarrow> string \<Rightarrow> string \<Rightarrow> bool \<Rightarrow> string \<Rightarrow> int \<Rightarrow> Manager_state \<Rightarrow> Manager_state \<times> c_msg list" where
  "StartProxy name remoteAddr respErr runOk runErr now pm =
     (case pm_proxies pm name of
        None \<Rightarrow> (pm, [])
      | Some a \<Rightarrow>
          (case SetRunningStatus remoteAddr respErr runOk runErr now (pm_heap pm a) of
             (w, ms, _) \<Rightarrow> (pm\<lparr>pm_heap := (pm_heap pm)(a := w)\<rparr>, ms)))"

definition handleNewProxyResp :: "NewProxyResp \<Rightarrow> bool \<Rightarrow> string \<Rightarrow> int \<Rightarrow> Manager_state \<Rightarrow> Manager_state \<times> c_msg list" where
  "handleNewProxyResp m runOk runErr now pm =
     StartProxy (StripUserPrefix (pm_user pm) (nr_ProxyName m)) (nr_RemoteAddr m) (nr_Error m) runOk runErr now pm"

definition HandleWorkConn :: "string \<Rightarrow> Manager_state \<Rightarrow> bool" where
  "HandleWorkConn name pm = (case pm_proxies pm name of None \<Rightarrow> False | Some a \<Rightarrow> InWorkConn (pm_heap pm a))"

definition GetProxyStatus :: "string \<Rightarrow> Manager_state \<Rightarrow> Wrapper option" where
  "GetProxyStatus name pm = map_option (pm_heap pm) (pm_proxies pm name)"

definition New_manager :: "string \<Rightarrow> (nat \<Rightarrow> Wrapper) \<Rightarrow> Manager_state" where
  "New_manager user hp = \<lparr>pm_proxies = Map.empty, pm_heap = hp, pm_next = 0, pm_user = user\<rparr>"

section \<open>The client and its server\<close>

text \<open>
  The manager with the two directions of the control connection and the names that the server has
  registered for this client. The server answers a registration with an error when it has the name
  already, and for any other reason (\<open>err\<close>); it handles messages in order.
\<close>

record link =
  ln_pm :: Manager_state
  ln_c2s :: "c_msg list"
  ln_s2c :: "NewProxyResp list"
  ln_srv :: "string set"

definition server_step :: "string \<Rightarrow> string \<Rightarrow> link \<Rightarrow> link" where
  "server_step err raddr l =
     (case ln_c2s l of
        [] \<Rightarrow> l
      | MClose n # ms \<Rightarrow> l\<lparr>ln_c2s := ms, ln_srv := ln_srv l - {n}\<rparr>
      | MNew m # ms \<Rightarrow>
          let n = np_ProxyName m; e = (if n \<in> ln_srv l then ''proxy already exists'' else err) in
          l\<lparr>ln_c2s := ms, ln_s2c := ln_s2c l @ [\<lparr>nr_ProxyName = n, nr_RemoteAddr = (if e = [] then raddr else []), nr_Error = e\<rparr>],
            ln_srv := (if e = [] then insert n (ln_srv l) else ln_srv l)\<rparr>)"

datatype link_ev =
    LUpdate "string list" "ProxyConfigurer list"
  | LCheck nat int
  | LHealth nat bool
  | LServer string string
  | LResp bool string int

definition post :: "Manager_state \<times> c_msg list \<Rightarrow> link \<Rightarrow> link" where
  "post r l = l\<lparr>ln_pm := fst r, ln_c2s := ln_c2s l @ snd r\<rparr>"

definition link_step :: "(ProxyConfigurer \<Rightarrow> ProxyConfigurer \<Rightarrow> bool) \<Rightarrow> link \<Rightarrow> link_ev \<Rightarrow> link" where
  "link_step deep l e =
     (let pm = ln_pm l in
      case e of
        LUpdate names cfgs \<Rightarrow> post (PM_UpdateAll deep names cfgs pm) l
      | LCheck a now \<Rightarrow>
          if a < pm_next pm
          then (case checkWorker_round now (pm_heap pm a) of (w, ms) \<Rightarrow> post (pm\<lparr>pm_heap := (pm_heap pm)(a := w)\<rparr>, ms) l)
          else l
      | LHealth a ok \<Rightarrow>
          if a < pm_next pm then l\<lparr>ln_pm := pm\<lparr>pm_heap := (pm_heap pm)(a := health_round ok (pm_heap pm a))\<rparr>\<rparr> else l
      | LServer err raddr \<Rightarrow> server_step err raddr l
      | LResp runOk runErr now \<Rightarrow>
          (case ln_s2c l of [] \<Rightarrow> l | r # rs \<Rightarrow> post (handleNewProxyResp r runOk runErr now pm) (l\<lparr>ln_s2c := rs\<rparr>)))"

definition New_link :: "string \<Rightarrow> (nat \<Rightarrow> Wrapper) \<Rightarrow> link" where
  "New_link user hp = \<lparr>ln_pm = New_manager user hp, ln_c2s = [], ln_s2c = [], ln_srv = {}\<rparr>"

fun msg_name :: "c_msg \<Rightarrow> string" where
  "msg_name (MNew m) = np_ProxyName m"
| "msg_name (MClose n) = n"

fun is_new :: "c_msg \<Rightarrow> bool" where
  "is_new (MNew m) \<longleftrightarrow> True"
| "is_new (MClose n) \<longleftrightarrow> False"

definition for_name :: "string \<Rightarrow> c_msg list \<Rightarrow> c_msg list" where
  "for_name w ms = filter (\<lambda>m. msg_name m = w) ms"

definition answers :: "string \<Rightarrow> NewProxyResp list \<Rightarrow> NewProxyResp list" where
  "answers w rs = filter (\<lambda>r. nr_ProxyName r = w) rs"

text \<open>A registration that has no answer yet.\<close>

definition unanswered :: "string \<Rightarrow> link \<Rightarrow> bool" where
  "unanswered w l \<longleftrightarrow> list_ex is_new (for_name w (ln_c2s l)) \<or> answers w (ln_s2c l) \<noteq> []"

text \<open>
  The environment: the manager's map is iterated completely, and a wrapper does not send a registration
  while an earlier one for the name, its own or that of a wrapper before it, is unanswered.
\<close>

definition patient :: "link \<Rightarrow> link_ev \<Rightarrow> bool" where
  "patient l e \<longleftrightarrow>
     (case e of
        LUpdate names _ \<Rightarrow> iter_order (pm_proxies (ln_pm l)) names
      | LCheck a now \<Rightarrow>
          let w = pm_heap (ln_pm l) a in
          a < pm_next (ln_pm l) \<and> \<not> w_health_failed w \<and> start_due now w \<longrightarrow> \<not> unanswered (w_wireName w) l
      | _ \<Rightarrow> True)"

fun all_patient :: "(ProxyConfigurer \<Rightarrow> ProxyConfigurer \<Rightarrow> bool) \<Rightarrow> link_ev list \<Rightarrow> link \<Rightarrow> bool" where
  "all_patient deep [] l \<longleftrightarrow> True"
| "all_patient deep (e # es) l \<longleftrightarrow> patient l e \<and> all_patient deep es (link_step deep l e)"

section \<open>Invariant\<close>

definition pm_ok :: "Manager_state \<Rightarrow> bool" where
  "pm_ok pm \<longleftrightarrow>
     (\<forall>a < pm_next pm. w_wireName (pm_heap pm a) = AddUserPrefix (pm_user pm) (w_Name (pm_heap pm a)) \<and>
        (w_Phase (pm_heap pm a) \<noteq> PhaseClosed \<longrightarrow> pm_proxies pm (w_Name (pm_heap pm a)) = Some a)) \<and>
     (\<forall>name a. pm_proxies pm name = Some a \<longrightarrow> a < pm_next pm \<and> w_Name (pm_heap pm a) = name)"

definition cur_phase :: "Manager_state \<Rightarrow> string \<Rightarrow> phase option" where
  "cur_phase pm name = map_option (\<lambda>a. w_Phase (pm_heap pm a)) (pm_proxies pm name)"

text \<open>After all messages are handled, the server does not have the name.\<close>

definition gone :: "string \<Rightarrow> c_msg list \<Rightarrow> string set \<Rightarrow> bool" where
  "gone w c srv \<longleftrightarrow> (if c = [] then w \<notin> srv else \<not> is_new (last c))"

definition waiting :: "string \<Rightarrow> c_msg list \<Rightarrow> NewProxyResp list \<Rightarrow> string set \<Rightarrow> bool" where
  "waiting w c s srv \<longleftrightarrow>
     (s = [] \<and> (\<exists>k m. c = replicate k (MClose w) @ [MNew m] \<and> (k = 0 \<longrightarrow> w \<notin> srv))) \<or>
     (c = [] \<and> (\<exists>r. s = [r] \<and> (nr_Error r = [] \<longleftrightarrow> w \<in> srv)))"

definition agree :: "string \<Rightarrow> phase option \<Rightarrow> c_msg list \<Rightarrow> NewProxyResp list \<Rightarrow> string set \<Rightarrow> bool" where
  "agree w ph c s srv \<longleftrightarrow>
     (if ph = Some PhaseRunning then c = [] \<and> s = [] \<and> w \<in> srv
      else if ph = Some PhaseWaitStart then waiting w c s srv else gone w c srv)"

definition link_ok :: "link \<Rightarrow> bool" where
  "link_ok l \<longleftrightarrow>
     pm_ok (ln_pm l) \<and>
     (\<forall>m \<in> set (ln_c2s l). \<exists>name. msg_name m = AddUserPrefix (pm_user (ln_pm l)) name) \<and>
     (\<forall>r \<in> set (ln_s2c l). \<exists>name. nr_ProxyName r = AddUserPrefix (pm_user (ln_pm l)) name) \<and>
     (\<forall>name. agree (AddUserPrefix (pm_user (ln_pm l)) name) (cur_phase (ln_pm l) name)
        (for_name (AddUserPrefix (pm_user (ln_pm l)) name) (ln_c2s l)) (answers (AddUserPrefix (pm_user (ln_pm l)) name) (ln_s2c l)) (ln_srv l))"

lemma for_name_append [simp]: "for_name w (xs @ ys) = for_name w xs @ for_name w ys"
  by (simp add: for_name_def)

lemma for_name_mem: "m \<in> set (for_name w ms) \<Longrightarrow> msg_name m = w"
  by (simp add: for_name_def)

text \<open>A wrapper step: one wrapper changes, keeping its names, and sends messages of its own name.\<close>

lemma post_wrapper:
  assumes ok: "link_ok l" and a: "pm_proxies (ln_pm l) name = Some a"
    and w: "w_Name w = name" "w_wireName w = w_wireName (pm_heap (ln_pm l) a)" "w_Phase w \<noteq> PhaseClosed"
    and ms: "\<And>m. m \<in> set ms \<Longrightarrow> msg_name m = AddUserPrefix (pm_user (ln_pm l)) name"
    and rs: "set rs \<subseteq> set (ln_s2c l)" "\<And>x. x \<noteq> AddUserPrefix (pm_user (ln_pm l)) name \<Longrightarrow> answers x rs = answers x (ln_s2c l)"
    and ag: "agree (AddUserPrefix (pm_user (ln_pm l)) name) (Some (w_Phase w))
      (for_name (AddUserPrefix (pm_user (ln_pm l)) name) (ln_c2s l) @ ms) (answers (AddUserPrefix (pm_user (ln_pm l)) name) rs) (ln_srv l)"
  shows "link_ok (post ((ln_pm l)\<lparr>pm_heap := (pm_heap (ln_pm l))(a := w)\<rparr>, ms) (l\<lparr>ln_s2c := rs\<rparr>))"
proof -
  let ?u = "pm_user (ln_pm l)" and ?pm = "(ln_pm l)\<lparr>pm_heap := (pm_heap (ln_pm l))(a := w)\<rparr>"
  have pm: "pm_ok (ln_pm l)" using ok by (simp add: link_ok_def)
  have other: "pm_proxies (ln_pm l) n \<noteq> Some a" if "n \<noteq> name" for n
    using that a pm unfolding pm_ok_def by metis
  then have same: "pm_proxies (ln_pm l) n = Some a \<Longrightarrow> n = name" for n by blast
  have "pm_ok ?pm" using pm a w unfolding pm_ok_def by (auto dest!: same)
  moreover have "cur_phase ?pm n = (if n = name then Some (w_Phase w) else cur_phase (ln_pm l) n)" for n
    using a other by (auto simp: cur_phase_def map_option_case split: option.split)
  moreover have "for_name (AddUserPrefix ?u n) ms = (if n = name then ms else [])" for n
    using ms by (auto simp: for_name_def filter_id_conv filter_empty_conv)
  moreover have "answers (AddUserPrefix ?u n) rs = answers (AddUserPrefix ?u n) (ln_s2c l)" if "n \<noteq> name" for n
    using rs(2) that by simp
  ultimately show ?thesis using ok ag ms rs(1) unfolding link_ok_def post_def by auto
qed

lemma link_okD:
  assumes "link_ok l"
  shows "pm_ok (ln_pm l)" "m \<in> set (ln_c2s l) \<Longrightarrow> \<exists>name. msg_name m = AddUserPrefix (pm_user (ln_pm l)) name"
    "r \<in> set (ln_s2c l) \<Longrightarrow> \<exists>name. nr_ProxyName r = AddUserPrefix (pm_user (ln_pm l)) name"
    "agree (AddUserPrefix (pm_user (ln_pm l)) name) (cur_phase (ln_pm l) name)
      (for_name (AddUserPrefix (pm_user (ln_pm l)) name) (ln_c2s l)) (answers (AddUserPrefix (pm_user (ln_pm l)) name) (ln_s2c l)) (ln_srv l)"
  using assms unfolding link_ok_def by blast+

lemma pm_okD:
  assumes "pm_ok pm"
  shows "pm_proxies pm name = Some a \<Longrightarrow> a < pm_next pm \<and> w_Name (pm_heap pm a) = name"
    "a < pm_next pm \<Longrightarrow> w_wireName (pm_heap pm a) = AddUserPrefix (pm_user pm) (w_Name (pm_heap pm a))"
    "a < pm_next pm \<Longrightarrow> w_Phase (pm_heap pm a) \<noteq> PhaseClosed \<Longrightarrow> pm_proxies pm (w_Name (pm_heap pm a)) = Some a"
  using assms unfolding pm_ok_def by blast+

lemma pm_okI:
  assumes "\<And>a. a < pm_next pm \<Longrightarrow> w_wireName (pm_heap pm a) = AddUserPrefix (pm_user pm) (w_Name (pm_heap pm a))"
    and "\<And>a. a < pm_next pm \<Longrightarrow> w_Phase (pm_heap pm a) \<noteq> PhaseClosed \<Longrightarrow> pm_proxies pm (w_Name (pm_heap pm a)) = Some a"
    and "\<And>name a. pm_proxies pm name = Some a \<Longrightarrow> a < pm_next pm \<and> w_Name (pm_heap pm a) = name"
  shows "pm_ok pm"
  using assms unfolding pm_ok_def by blast

text \<open>Sending a registration or a close.\<close>

lemma agree_start:
  assumes "agree w ph c s srv" "ph \<noteq> Some PhaseRunning" "\<not> list_ex is_new c" "s = []" "\<And>m. m \<in> set c \<Longrightarrow> msg_name m = w"
  shows "agree w (Some PhaseWaitStart) (c @ [MNew m]) s srv"
proof -
  have "x = MClose w" if "x \<in> set c" for x
    using assms(5) [OF that] assms(3) that by (cases x) (auto simp: list_ex_iff)
  then have "c = replicate (length c) (MClose w)" by (simp add: replicate_eqI)
  moreover have "c = [] \<Longrightarrow> w \<notin> srv" using assms by (auto simp: agree_def waiting_def gone_def split: if_splits)
  ultimately show ?thesis using assms(4) by (auto simp: agree_def waiting_def)
qed

lemma agree_close: "ph \<noteq> Some PhaseRunning \<Longrightarrow> ph \<noteq> Some PhaseWaitStart \<Longrightarrow> agree w ph (c @ [MClose n]) s srv"
  by (simp add: agree_def gone_def)

lemma link_ok_check:
  assumes ok: "link_ok l" and p: "patient l (LCheck a now)"
  shows "link_ok (link_step deep l (LCheck a now))"
proof (cases "a < pm_next (ln_pm l)")
  case True
  let ?w = "pm_heap (ln_pm l) a" and ?u = "pm_user (ln_pm l)"
  note pm = pm_okD [OF link_okD(1) [OF ok]]
  obtain w ms where c: "checkWorker_round now ?w = (w, ms)" by fastforce
  show ?thesis
  proof (cases "w_Phase ?w = PhaseClosed")
    case closed: True
    then have "w = ?w" "ms = []" using c by (auto simp: checkWorker_round_def start_due_def split: if_splits)
    then have "link_step deep l (LCheck a now) = l" using True c by (simp add: link_step_def post_def Let_def)
    with ok show ?thesis by simp
  next
    case False
    define n where "n = w_Name ?w"
    have a: "pm_proxies (ln_pm l) n = Some a" and wire: "w_wireName ?w = AddUserPrefix ?u n" unfolding n_def using pm(2,3) True False by auto
    note ag = link_okD(4) [OF ok, of n]
    have ph: "cur_phase (ln_pm l) n = Some (w_Phase ?w)" using a by (simp add: cur_phase_def)
    have "agree (AddUserPrefix ?u n) (Some (w_Phase w)) (for_name (AddUserPrefix ?u n) (ln_c2s l) @ ms) (answers (AddUserPrefix ?u n) (ln_s2c l)) (ln_srv l)"
    proof (cases "\<not> w_health_failed ?w \<and> start_due now ?w")
      case due: True
      then have "\<not> unanswered (AddUserPrefix ?u n) l" using p True wire by (simp add: patient_def Let_def)
      then have u: "\<not> list_ex is_new (for_name (AddUserPrefix ?u n) (ln_c2s l))" "answers (AddUserPrefix ?u n) (ln_s2c l) = []"
        by (auto simp: unanswered_def)
      have "w = ?w\<lparr>w_Phase := PhaseWaitStart, w_lastSendStartMsg := now\<rparr>" "ms = [start_msg ?w]" using c due by (auto simp: checkWorker_round_def)
      then show ?thesis
        using agree_start [OF ag _ u] due for_name_mem ph by (auto simp: start_msg_def start_due_def)
    next
      case False
      then show ?thesis using c ag ph by (auto simp: checkWorker_round_def agree_close close_msg_def split: if_splits)
    qed
    moreover have "w_Name w = n" "w_wireName w = w_wireName ?w" "w_Phase w \<noteq> PhaseClosed" "\<And>m. m \<in> set ms \<Longrightarrow> msg_name m = AddUserPrefix ?u n"
      using c False wire by (auto simp: checkWorker_round_def close_msg_def start_msg_def n_def split: if_splits)
    ultimately have "link_ok (post ((ln_pm l)\<lparr>pm_heap := (pm_heap (ln_pm l))(a := w)\<rparr>, ms) (l\<lparr>ln_s2c := ln_s2c l\<rparr>))"
      by (intro post_wrapper [OF ok a]) simp_all
    then show ?thesis using True c by (simp add: link_step_def Let_def)
  qed
qed (use ok in \<open>simp add: link_step_def\<close>)

lemma link_ok_health:
  assumes ok: "link_ok l"
  shows "link_ok (link_step deep l (LHealth a up))"
proof -
  let ?pm = "(ln_pm l)\<lparr>pm_heap := (pm_heap (ln_pm l))(a := health_round up (pm_heap (ln_pm l) a))\<rparr>"
  have h: "w_Phase (health_round up w) = w_Phase w" "w_Name (health_round up w) = w_Name w" "w_wireName (health_round up w) = w_wireName w" for w
    by (auto simp: health_round_def split: option.split prod.split)
  have "pm_ok ?pm" using link_okD(1) [OF ok] unfolding pm_ok_def by (auto simp: h)
  moreover have "cur_phase ?pm n = cur_phase (ln_pm l) n" for n
    by (auto simp: cur_phase_def h map_option_case split: option.split)
  ultimately show ?thesis using ok by (simp add: link_step_def link_ok_def Let_def)
qed

lemma link_ok_resp:
  assumes ok: "link_ok l"
  shows "link_ok (link_step deep l (LResp runOk runErr now))"
proof (cases "ln_s2c l")
  case (Cons r rs)
  let ?u = "pm_user (ln_pm l)"
  obtain n where n: "nr_ProxyName r = AddUserPrefix ?u n" using link_okD(3) [OF ok, of r] Cons by auto
  have ans: "answers (AddUserPrefix ?u n) (ln_s2c l) = r # answers (AddUserPrefix ?u n) rs"
    "\<And>x. x \<noteq> AddUserPrefix ?u n \<Longrightarrow> answers x (ln_s2c l) = answers x rs" using Cons n by (simp_all add: answers_def)
  note ag = link_okD(4) [OF ok, of n, unfolded ans(1)]
  have step: "link_step deep l (LResp runOk runErr now) =
      post (StartProxy n (nr_RemoteAddr r) (nr_Error r) runOk runErr now (ln_pm l)) (l\<lparr>ln_s2c := rs\<rparr>)"
    using Cons n by (simp add: link_step_def handleNewProxyResp_def Let_def)
  show ?thesis
  proof (cases "pm_proxies (ln_pm l) n")
    case None
    have "agree (AddUserPrefix ?u x) (cur_phase (ln_pm l) x) (for_name (AddUserPrefix ?u x) (ln_c2s l)) (answers (AddUserPrefix ?u x) rs) (ln_srv l)" for x
      using link_okD(4) [OF ok, of x] ans(2) None by (cases "x = n") (auto simp: agree_def cur_phase_def)
    then show ?thesis using ok None Cons unfolding step by (simp add: StartProxy_def post_def link_ok_def)
  next
    case (Some a)
    let ?w = "pm_heap (ln_pm l) a"
    obtain w ms b where c: "SetRunningStatus (nr_RemoteAddr r) (nr_Error r) runOk runErr now ?w = (w, ms, b)" by (metis prod_cases3)
    have pm: "a < pm_next (ln_pm l)" "w_Name ?w = n" "w_wireName ?w = AddUserPrefix ?u n" using pm_okD [OF link_okD(1) [OF ok]] Some by auto
    have ph: "cur_phase (ln_pm l) n = Some (w_Phase ?w)" using Some by (simp add: cur_phase_def)
    show ?thesis
    proof (cases "w_Phase ?w = PhaseClosed")
      case True
      then have "w = ?w" "ms = []" using c by (auto simp: SetRunningStatus_def)
      moreover have "agree (AddUserPrefix ?u x) (cur_phase (ln_pm l) x) (for_name (AddUserPrefix ?u x) (ln_c2s l)) (answers (AddUserPrefix ?u x) rs) (ln_srv l)" for x
        using link_okD(4) [OF ok, of x] ans(2) ph True by (cases "x = n") (auto simp: agree_def)
      ultimately show ?thesis using ok c Some Cons unfolding step by (simp add: StartProxy_def post_def link_ok_def)
    next
      case False
      have "agree (AddUserPrefix ?u n) (Some (w_Phase w)) (for_name (AddUserPrefix ?u n) (ln_c2s l) @ ms) (answers (AddUserPrefix ?u n) rs) (ln_srv l)"
        using c ag ph by (auto simp: SetRunningStatus_def Let_def agree_def waiting_def gone_def close_msg_def split: if_splits)
      moreover have "w_Name w = n" "w_wireName w = w_wireName ?w" "w_Phase w \<noteq> PhaseClosed" "\<And>m. m \<in> set ms \<Longrightarrow> msg_name m = AddUserPrefix ?u n"
        using c False pm by (auto simp: SetRunningStatus_def Let_def close_msg_def split: if_splits)
      ultimately show ?thesis
        unfolding step using Some c Cons ans(2) by (simp add: StartProxy_def) (rule post_wrapper [OF ok Some]; auto)
    qed
  qed
qed (use ok in \<open>simp add: link_step_def\<close>)

text \<open>The server handles the first message for a name.\<close>

lemma agree_pop_close:
  assumes "agree w ph (MClose w # c) s srv"
  shows "agree w ph c s (srv - {w})"
proof (cases "ph = Some PhaseWaitStart")
  case True
  then obtain k m where s: "s = []" and k: "MClose w # c = replicate k (MClose w) @ [MNew m]"
    using assms by (auto simp: agree_def waiting_def)
  then obtain j where "c = replicate j (MClose w) @ [MNew m]" by (cases k) auto
  with s True show ?thesis by (auto simp: agree_def waiting_def)
qed (use assms in \<open>auto simp: agree_def gone_def split: if_splits\<close>)

lemma agree_pop_new:
  assumes "agree w ph (MNew m # c) s srv" and "nr_Error r = (if w \<in> srv then x # xs else err)"
  shows "agree w ph c (s @ [r]) (if nr_Error r = [] then insert w srv else srv)"
proof (cases "ph = Some PhaseWaitStart")
  case True
  then obtain k m' where s: "s = []" and k: "MNew m # c = replicate k (MClose w) @ [MNew m']" "k = 0 \<longrightarrow> w \<notin> srv"
    using assms by (auto simp: agree_def waiting_def)
  then have "k = 0" "c = []" by (cases k; simp)+
  with s k True assms(2) show ?thesis by (auto simp: agree_def waiting_def)
qed (use assms in \<open>auto simp: agree_def gone_def split: if_splits\<close>)

lemma agree_other:
  assumes "agree w ph c s srv" and "w \<in> srv' \<longleftrightarrow> w \<in> srv"
  shows "agree w ph c s srv'"
  using assms(1) unfolding agree_def waiting_def gone_def assms(2) .

lemma link_ok_server:
  assumes ok: "link_ok l"
  shows "link_ok (link_step deep l (LServer err raddr))"
proof (cases "ln_c2s l")
  case (Cons m ms)
  let ?u = "pm_user (ln_pm l)" and ?l = "server_step err raddr l"
  obtain n where n: "msg_name m = AddUserPrefix ?u n" using link_okD(2) [OF ok, of m] Cons by auto
  define w where "w = AddUserPrefix ?u n"
  have c: "for_name w (ln_c2s l) = m # for_name w ms" "\<And>x. x \<noteq> w \<Longrightarrow> for_name x (ln_c2s l) = for_name x ms"
    using Cons n by (simp_all add: for_name_def w_def)
  have l: "ln_pm ?l = ln_pm l" "ln_c2s ?l = ms" "\<And>x. x \<noteq> w \<Longrightarrow> answers x (ln_s2c ?l) = answers x (ln_s2c l)"
    "\<And>x. x \<noteq> w \<Longrightarrow> x \<in> ln_srv ?l \<longleftrightarrow> x \<in> ln_srv l" "\<And>r. r \<in> set (ln_s2c ?l) \<Longrightarrow> r \<in> set (ln_s2c l) \<or> nr_ProxyName r = w"
    using Cons n by (cases m; auto simp: server_step_def answers_def w_def Let_def split: if_splits)+
  note ag = link_okD(4) [OF ok, of n, folded w_def, unfolded c(1)]
  have "agree w (cur_phase (ln_pm l) n) (for_name w ms) (answers w (ln_s2c ?l)) (ln_srv ?l)"
  proof (cases m)
    case (MClose x)
    then have "ln_srv ?l = ln_srv l - {w}" "ln_s2c ?l = ln_s2c l" "x = w" using Cons n by (simp_all add: server_step_def w_def)
    then show ?thesis using agree_pop_close ag MClose by simp
  next
    case (MNew x)
    let ?e = "if w \<in> ln_srv l then ''proxy already exists'' else err"
    let ?r = "\<lparr>nr_ProxyName = w, nr_RemoteAddr = (if ?e = [] then raddr else []), nr_Error = ?e\<rparr>"
    have "ln_srv ?l = (if ?e = [] then insert w (ln_srv l) else ln_srv l)" "answers w (ln_s2c ?l) = answers w (ln_s2c l) @ [?r]"
      using Cons n MNew by (simp_all add: server_step_def w_def Let_def answers_def)
    moreover have "agree w (cur_phase (ln_pm l) n) (for_name w ms) (answers w (ln_s2c l) @ [?r]) (if nr_Error ?r = [] then insert w (ln_srv l) else ln_srv l)"
      by (rule agree_pop_new [OF ag [unfolded MNew], where err = err and x = "CHR ''p''" and xs = "''roxy already exists''"]) simp
    ultimately show ?thesis by simp
  qed
  moreover have "agree (AddUserPrefix ?u x) (cur_phase (ln_pm l) x) (for_name (AddUserPrefix ?u x) ms)
      (answers (AddUserPrefix ?u x) (ln_s2c ?l)) (ln_srv ?l)" if "x \<noteq> n" for x
  proof -
    have "AddUserPrefix ?u x \<noteq> w" using that by (simp add: w_def)
    then show ?thesis using agree_other [OF link_okD(4) [OF ok, of x]] c(2) l(3,4) by simp
  qed
  ultimately have "agree (AddUserPrefix ?u x) (cur_phase (ln_pm l) x) (for_name (AddUserPrefix ?u x) ms)
      (answers (AddUserPrefix ?u x) (ln_s2c ?l)) (ln_srv ?l)" for x by (cases "x = n") (simp_all add: w_def)
  moreover have "\<exists>x. nr_ProxyName r = AddUserPrefix ?u x" if "r \<in> set (ln_s2c ?l)" for r
    using l(5) [OF that] link_okD(3) [OF ok, of r] w_def by auto
  ultimately show ?thesis using ok Cons unfolding link_step_def link_ok_def by (simp add: l Let_def)
qed (use ok in \<open>simp add: link_step_def server_step_def\<close>)

section \<open>Following the configuration\<close>

text \<open>What deleting stale entries does: the entries that differ go, their wrappers are stopped, each with its message.\<close>

definition stale :: "(ProxyConfigurer \<Rightarrow> ProxyConfigurer \<Rightarrow> bool) \<Rightarrow> (string \<rightharpoonup> ProxyConfigurer) \<Rightarrow> Manager_state \<Rightarrow> string \<Rightarrow> bool" where
  "stale deep cfgs pm name \<longleftrightarrow>
     (case pm_proxies pm name of
        None \<Rightarrow> False
      | Some a \<Rightarrow> (case cfgs name of None \<Rightarrow> True | Some c \<Rightarrow> \<not> deep (w_Cfg (pm_heap pm a)) c))"

lemma delete_stale_spec:
  assumes "pm_ok pm" "distinct names" "delete_stale deep cfgs names pm = (pm', ms)"
  shows "pm_ok pm' \<and> pm_user pm' = pm_user pm \<and> pm_next pm' = pm_next pm \<and>
    (\<forall>n. pm_proxies pm' n = (if n \<in> set names \<and> stale deep cfgs pm n then None else pm_proxies pm n)) \<and>
    (\<forall>n a. pm_proxies pm' n = Some a \<longrightarrow> pm_heap pm' a = pm_heap pm a) \<and>
    (\<forall>n. for_name (AddUserPrefix (pm_user pm) n) ms = (if n \<in> set names \<and> stale deep cfgs pm n then [MClose (AddUserPrefix (pm_user pm) n)] else [])) \<and>
    (\<forall>m \<in> set ms. \<exists>n. msg_name m = AddUserPrefix (pm_user pm) n)"
  using assms
proof (induction names arbitrary: pm pm' ms)
  case Nil
  then show ?case by (simp add: for_name_def)
next
  case (Cons x names)
  show ?case
  proof (cases "stale deep cfgs pm x")
    case False
    then have "delete_stale deep cfgs (x # names) pm = delete_stale deep cfgs names pm" by (auto simp: stale_def split: option.splits)
    with Cons.IH [of pm pm' ms] Cons.prems False show ?thesis by (auto simp del: delete_stale.simps)
  next
    case True
    then obtain a where a: "pm_proxies pm x = Some a" by (auto simp: stale_def split: option.splits)
    let ?w = "pm_heap pm a" and ?pm = "pm\<lparr>pm_proxies := (pm_proxies pm)(x := None), pm_heap := (pm_heap pm)(a := (pm_heap pm a)\<lparr>w_Phase := PhaseClosed\<rparr>)\<rparr>"
    have w: "a < pm_next pm" "w_Name ?w = x" "w_wireName ?w = AddUserPrefix (pm_user pm) x" using pm_okD [OF Cons.prems(1)] a by auto
    have inj: "pm_proxies pm n = Some a \<Longrightarrow> n = x" for n using pm_okD(1) [OF Cons.prems(1)] w by auto
    obtain pm2 ms2 where rec: "delete_stale deep cfgs names ?pm = (pm2, ms2)" by fastforce
    have res: "pm' = pm2" "ms = MClose (AddUserPrefix (pm_user pm) x) # ms2"
      using Cons.prems(3) True a rec w by (auto simp: stale_def stop_at_def Wrapper_Stop_def close_msg_def)
    have ok: "pm_ok ?pm"
    proof (rule pm_okI)
      show "w_wireName (pm_heap ?pm b) = AddUserPrefix (pm_user ?pm) (w_Name (pm_heap ?pm b))" if "b < pm_next ?pm" for b
        using pm_okD(2) [OF Cons.prems(1), of b] that by auto
      show "pm_proxies ?pm (w_Name (pm_heap ?pm b)) = Some b" if "b < pm_next ?pm" "w_Phase (pm_heap ?pm b) \<noteq> PhaseClosed" for b
        using pm_okD(3) [OF Cons.prems(1), of b] that a by (cases "b = a") auto
      show "b < pm_next ?pm \<and> w_Name (pm_heap ?pm b) = n" if "pm_proxies ?pm n = Some b" for n b
        using pm_okD(1) [OF Cons.prems(1), of n b] that by (auto split: if_splits)
    qed
    have st: "stale deep cfgs ?pm n = (n \<noteq> x \<and> stale deep cfgs pm n)" for n
      using inj [of n] by (auto simp: stale_def split: option.splits if_splits)
    have d: "x \<notin> set names" "distinct names" using Cons.prems(2) by auto
    note ih = Cons.IH [OF ok d(2) rec]
    show ?thesis
      unfolding res
    proof (intro conjI allI impI ballI)
      show "pm_ok pm2" "pm_user pm2 = pm_user pm" "pm_next pm2 = pm_next pm" using ih by simp_all
      show p: "pm_proxies pm2 n = (if n \<in> set (x # names) \<and> stale deep cfgs pm n then None else pm_proxies pm n)" for n
      proof -
        have "pm_proxies pm2 n = (if n \<in> set names \<and> stale deep cfgs ?pm n then None else pm_proxies ?pm n)" using ih by blast
        then show ?thesis using True by (simp add: st)
      qed
      show "pm_heap pm2 b = pm_heap pm b" if "pm_proxies pm2 n = Some b" for n b
      proof -
        have "pm_proxies pm n = Some b" "n \<noteq> x" using that True unfolding p by (auto split: if_splits)
        then have "b \<noteq> a" using inj by auto
        moreover have "pm_heap pm2 b = pm_heap ?pm b" using ih that by blast
        ultimately show ?thesis by simp
      qed
      show "for_name (AddUserPrefix (pm_user pm) n) (MClose (AddUserPrefix (pm_user pm) x) # ms2) =
          (if n \<in> set (x # names) \<and> stale deep cfgs pm n then [MClose (AddUserPrefix (pm_user pm) n)] else [])" for n
      proof -
        have "for_name (AddUserPrefix (pm_user pm) n) ms2 =
            (if n \<in> set names \<and> stale deep cfgs ?pm n then [MClose (AddUserPrefix (pm_user pm) n)] else [])" using ih by simp
        then show ?thesis using True by (auto simp: for_name_def st)
      qed
      show "\<exists>n. msg_name m = AddUserPrefix (pm_user pm) n" if "m \<in> set (MClose (AddUserPrefix (pm_user pm) x) # ms2)" for m
        using that ih by auto
    qed
  qed
qed

lemma add_cfg_ok:
  assumes "pm_ok pm"
  shows "pm_ok (add_cfg c pm)" "pm_user (add_cfg c pm) = pm_user pm"
proof -
  note d = pm_okD [OF assms]
  show "pm_user (add_cfg c pm) = pm_user pm" by (simp add: add_cfg_def split: option.split)
  show "pm_ok (add_cfg c pm)"
  proof (cases "pm_proxies pm (cfg_name c)")
    case None
    let ?pm = "pm\<lparr>pm_proxies := (pm_proxies pm)(cfg_name c \<mapsto> pm_next pm),
             pm_heap := (pm_heap pm)(pm_next pm := NewWrapper (pm_user pm) c), pm_next := Suc (pm_next pm)\<rparr>"
    have "pm_ok ?pm"
    proof (rule pm_okI)
      show "w_wireName (pm_heap ?pm b) = AddUserPrefix (pm_user ?pm) (w_Name (pm_heap ?pm b))" if "b < pm_next ?pm" for b
        using d(2) [of b] that by (auto simp: NewWrapper_def Let_def less_Suc_eq)
      show "pm_proxies ?pm (w_Name (pm_heap ?pm b)) = Some b" if "b < pm_next ?pm" "w_Phase (pm_heap ?pm b) \<noteq> PhaseClosed" for b
        using d(3) [of b] that None by (auto simp: NewWrapper_def Let_def less_Suc_eq cfg_name_def split: if_splits)
      show "b < pm_next ?pm \<and> w_Name (pm_heap ?pm b) = n" if "pm_proxies ?pm n = Some b" for n b
        using d(1) [of n b] that by (auto simp: NewWrapper_def Let_def cfg_name_def split: if_splits)
    qed
    then show ?thesis using None by (simp add: add_cfg_def)
  qed (use assms in \<open>simp add: add_cfg_def\<close>)
qed

text \<open>The first configuration of a name that is not there yet gets a new wrapper.\<close>

definition added :: "ProxyConfigurer list \<Rightarrow> string \<Rightarrow> ProxyConfigurer option" where
  "added cfgs n = find (\<lambda>c. cfg_name c = n) cfgs"

lemma fold_add_spec:
  assumes "pm_ok pm"
  shows "pm_ok (fold add_cfg cfgs pm) \<and> pm_user (fold add_cfg cfgs pm) = pm_user pm \<and>
    (\<forall>n a. pm_proxies pm n = Some a \<longrightarrow> pm_proxies (fold add_cfg cfgs pm) n = Some a \<and> pm_heap (fold add_cfg cfgs pm) a = pm_heap pm a) \<and>
    (\<forall>n. pm_proxies pm n = None \<longrightarrow>
       (case added cfgs n of
          None \<Rightarrow> pm_proxies (fold add_cfg cfgs pm) n = None
        | Some c \<Rightarrow> \<exists>a. pm_proxies (fold add_cfg cfgs pm) n = Some a \<and> pm_heap (fold add_cfg cfgs pm) a = NewWrapper (pm_user pm) c))"
  using assms
proof (induction cfgs arbitrary: pm)
  case Nil
  then show ?case by (simp add: added_def)
next
  case (Cons c cfgs)
  let ?pm = "add_cfg c pm"
  note ok = add_cfg_ok [OF Cons.prems, of c]
  note ih = Cons.IH [OF ok(1)]
  have keep: "pm_proxies ?pm n = Some a \<and> pm_heap ?pm a = pm_heap pm a" if "pm_proxies pm n = Some a" for n a
    using that pm_okD(1) [OF Cons.prems that] by (auto simp: add_cfg_def split: option.split)
  have new: "pm_proxies ?pm n = (if n = cfg_name c then Some (pm_next pm) else None)"
    "n = cfg_name c \<Longrightarrow> pm_heap ?pm (pm_next pm) = NewWrapper (pm_user pm) c" if "pm_proxies pm n = None" for n
    using that by (auto simp: add_cfg_def split: option.split)
  show ?case unfolding fold.simps comp_def
  proof (intro conjI allI impI)
    show "pm_ok (fold add_cfg cfgs ?pm)" "pm_user (fold add_cfg cfgs ?pm) = pm_user pm" using ih ok(2) by simp_all
    show "pm_proxies (fold add_cfg cfgs ?pm) n = Some a" "pm_heap (fold add_cfg cfgs ?pm) a = pm_heap pm a" if "pm_proxies pm n = Some a" for n a
      using ih keep [OF that] by auto
    show "case added (c # cfgs) n of
          None \<Rightarrow> pm_proxies (fold add_cfg cfgs ?pm) n = None
        | Some c \<Rightarrow> \<exists>a. pm_proxies (fold add_cfg cfgs ?pm) n = Some a \<and> pm_heap (fold add_cfg cfgs ?pm) a = NewWrapper (pm_user pm) c"
      if n: "pm_proxies pm n = None" for n
    proof (cases "n = cfg_name c")
      case True
      then show ?thesis using ih new [OF n] by (auto simp: added_def)
    next
      case False
      then have e: "added (c # cfgs) n = added cfgs n" "pm_proxies ?pm n = None" using new [OF n] by (auto simp: added_def)
      show ?thesis unfolding e(1) using ih e(2) unfolding ok(2) by blast
    qed
  qed
qed

lemma KeyBy_none: "n \<notin> f ` set xs \<Longrightarrow> KeyBy f xs n = None"
proof -
  have "fold (\<lambda>x m. m(f x \<mapsto> x)) xs m n = m n" if "n \<notin> f ` set xs" for m using that by (induction xs arbitrary: m) auto
  then show "n \<notin> f ` set xs \<Longrightarrow> KeyBy f xs n = None" by (simp add: KeyBy_def)
qed

lemma KeyBy_some:
  assumes "distinct (map f xs)" "x \<in> set xs"
  shows "KeyBy f xs (f x) = Some x"
proof -
  have skip: "fold (\<lambda>x m. m(f x \<mapsto> x)) ys m n = m n" if "n \<notin> f ` set ys" for ys m n using that by (induction ys arbitrary: m) auto
  have "fold (\<lambda>x m. m(f x \<mapsto> x)) xs m (f x) = Some x" for m
    using assms by (induction xs arbitrary: m) (auto simp: skip)
  then show ?thesis by (simp add: KeyBy_def)
qed

lemma added_none: "n \<notin> cfg_name ` set cfgs \<Longrightarrow> added cfgs n = None"
  by (auto simp: added_def find_None_iff)

lemma added_some: "distinct (map cfg_name cfgs) \<Longrightarrow> c \<in> set cfgs \<Longrightarrow> added cfgs (cfg_name c) = Some c"
  unfolding added_def by (induction cfgs) (auto simp: image_iff)

lemma agree_new: "agree w None c s srv \<Longrightarrow> agree w (Some PhaseNew) c s srv"
  by (simp add: agree_def)

lemma link_ok_update:
  assumes ok: "link_ok l" and it: "iter_order (pm_proxies (ln_pm l)) names"
  shows "link_ok (link_step deep l (LUpdate names cfgs))"
proof -
  let ?u = "pm_user (ln_pm l)"
  obtain pm1 ms where d: "delete_stale deep (KeyBy cfg_name cfgs) names (ln_pm l) = (pm1, ms)" by fastforce
  have dn: "distinct names" using it by (simp add: iter_order_def)
  note s = delete_stale_spec [OF link_okD(1) [OF ok] dn d]
  have ok1: "pm_ok pm1" and u: "pm_user pm1 = ?u" using s by simp_all
  note a = fold_add_spec [OF ok1, of cfgs, unfolded u]
  let ?pm = "fold add_cfg cfgs pm1"
  have ph: "cur_phase ?pm n = cur_phase pm1 n \<or> (cur_phase pm1 n = None \<and> cur_phase ?pm n = Some PhaseNew)" for n
  proof (cases "pm_proxies pm1 n")
    case None
    then show ?thesis using a [THEN conjunct2, THEN conjunct2, THEN conjunct2, rule_format, OF None]
      by (auto simp: cur_phase_def NewWrapper_def Let_def split: option.splits)
  next
    case (Some b)
    then show ?thesis using a by (auto simp: cur_phase_def)
  qed
  have "agree (AddUserPrefix ?u n) (cur_phase ?pm n) (for_name (AddUserPrefix ?u n) (ln_c2s l @ ms)) (answers (AddUserPrefix ?u n) (ln_s2c l)) (ln_srv l)" for n
  proof -
    have p: "pm_proxies pm1 n = (if n \<in> set names \<and> stale deep (KeyBy cfg_name cfgs) (ln_pm l) n then None else pm_proxies (ln_pm l) n)"
      and f: "for_name (AddUserPrefix ?u n) ms = (if n \<in> set names \<and> stale deep (KeyBy cfg_name cfgs) (ln_pm l) n then [MClose (AddUserPrefix ?u n)] else [])"
      and h: "\<And>b. pm_proxies pm1 n = Some b \<Longrightarrow> pm_heap pm1 b = pm_heap (ln_pm l) b" using s by blast+
    show ?thesis
    proof (cases "n \<in> set names \<and> stale deep (KeyBy cfg_name cfgs) (ln_pm l) n")
      case True
      then have "cur_phase pm1 n = None" using p by (simp add: cur_phase_def)
      then show ?thesis using True f ph [of n] by (auto intro!: agree_close)
    next
      case False
      have "pm_proxies pm1 n = pm_proxies (ln_pm l) n" using p unfolding if_not_P [OF False] .
      then have c: "cur_phase pm1 n = cur_phase (ln_pm l) n" unfolding cur_phase_def using h by (cases "pm_proxies (ln_pm l) n") simp_all
      have "for_name (AddUserPrefix ?u n) (ln_c2s l @ ms) = for_name (AddUserPrefix ?u n) (ln_c2s l)" using False f by simp
      with link_okD(4) [OF ok, of n] ph [of n] agree_new show ?thesis unfolding c by metis
    qed
  qed
  moreover have "\<exists>n. msg_name m = AddUserPrefix ?u n" if "m \<in> set ms" for m using s that by blast
  ultimately show ?thesis using ok a d unfolding link_ok_def by (auto simp: link_step_def PM_UpdateAll_def post_def Let_def)
qed

lemma link_step_ok:
  assumes "link_ok l" "patient l e"
  shows "link_ok (link_step deep l e)"
  using assms link_ok_check link_ok_health link_ok_server link_ok_resp link_ok_update
  by (cases e) (auto simp: patient_def)

lemma link_run_ok: "link_ok l \<Longrightarrow> all_patient deep es l \<Longrightarrow> link_ok (foldl (link_step deep) l es)"
  by (induction es arbitrary: l) (auto simp: link_step_ok)

lemma New_link_ok: "link_ok (New_link user hp)"
  by (simp add: link_ok_def New_link_def New_manager_def pm_ok_def agree_def gone_def for_name_def cur_phase_def)

lemma link_run_user: "link_ok k \<Longrightarrow> all_patient deep es k \<Longrightarrow> pm_user (ln_pm (foldl (link_step deep) k es)) = pm_user (ln_pm k)"
proof (induction es arbitrary: k)
  case (Cons e es)
  have "pm_user (ln_pm (link_step deep k e)) = pm_user (ln_pm k)"
  proof (cases e)
    case (LUpdate names cfgs)
    obtain pm1 ms where d: "delete_stale deep (KeyBy cfg_name cfgs) names (ln_pm k) = (pm1, ms)" by fastforce
    have "distinct names" using Cons.prems(2) LUpdate by (simp add: patient_def iter_order_def)
    from delete_stale_spec [OF link_okD(1) [OF Cons.prems(1)] this d] have "pm_ok pm1" "pm_user pm1 = pm_user (ln_pm k)" by simp_all
    with fold_add_spec [of pm1 cfgs] d show ?thesis by (simp add: LUpdate link_step_def PM_UpdateAll_def post_def Let_def)
  qed (auto simp: link_step_def post_def server_step_def handleNewProxyResp_def StartProxy_def Let_def
      split: prod.split option.split list.split c_msg.split)
  moreover have "link_ok (link_step deep k e)" "all_patient deep es (link_step deep k e)" using Cons.prems link_step_ok by auto
  ultimately show ?case using Cons.IH by simp
qed simp

section \<open>Properties\<close>

text \<open>
  C36. The client and the server agree on what runs. The configuration is reloaded, health checks pass and fail,
  registrations succeed and fail, all in any order, as long as no registration is sent while an earlier one
  for the same name is unanswered. Then whenever no message about a name is on the way, the server serves
  the name if and only if the client's current proxy for it is running; and a proxy is only ever shown as
  running, and given work connections, while the server has it.
\<close>

theorem client_server_agree:
  assumes "all_patient deep es (New_link user hp)"
  shows "let l = foldl (link_step deep) (New_link user hp) es; w = AddUserPrefix user name in
    (HandleWorkConn name (ln_pm l) \<longrightarrow> w \<in> ln_srv l) \<and>
    (for_name w (ln_c2s l) = [] \<and> answers w (ln_s2c l) = [] \<longrightarrow>
       (w \<in> ln_srv l \<longleftrightarrow> map_option w_Phase (GetProxyStatus name (ln_pm l)) = Some PhaseRunning))"
proof -
  define l where "l = foldl (link_step deep) (New_link user hp) es"
  have ok: "link_ok l" unfolding l_def by (rule link_run_ok [OF New_link_ok assms])
  from link_run_user [OF New_link_ok assms] have u: "pm_user (ln_pm l) = user" unfolding l_def by (simp add: New_link_def New_manager_def)
  note ag = link_okD(4) [OF ok, of name, unfolded u]
  have "HandleWorkConn name (ln_pm l) \<Longrightarrow> cur_phase (ln_pm l) name = Some PhaseRunning"
    by (auto simp: HandleWorkConn_def InWorkConn_def cur_phase_def split: option.splits)
  moreover have "map_option w_Phase (GetProxyStatus name (ln_pm l)) = cur_phase (ln_pm l) name"
    by (simp add: GetProxyStatus_def cur_phase_def option.map_comp comp_def)
  ultimately show ?thesis using ag unfolding l_def [symmetric] Let_def by (auto simp: agree_def waiting_def gone_def split: if_splits)
qed

definition demo_client_cfg :: "int \<Rightarrow> ProxyConfigurer" where
  "demo_client_cfg k = \<lparr>pc_base = zero_base\<lparr>pb_Name := ''ssh'', pb_Type := ''tcp''\<rparr>, pc_details = TCP_cfg \<lparr>tcp_RemotePort = k\<rparr>\<rparr>"

definition demo_wrapper :: Wrapper where
  "demo_wrapper = NewWrapper [] (demo_client_cfg 0)"

definition demo_events :: "link_ev list" where
  "demo_events = [LUpdate [] [demo_client_cfg 1], LCheck 0 1, LServer [] '':1'', LResp True [] 2]"

lemmas link_simps =
  link_step_def New_link_def New_manager_def post_def PM_UpdateAll_def KeyBy_def add_cfg_def cfg_name_def NewWrapper_def checkWorker_round_def
  start_due_def server_step_def handleNewProxyResp_def StartProxy_def SetRunningStatus_def demo_client_cfg_def zero_base_def start_msg_def
  close_msg_def MarshalToMsg_def base_MarshalToMsg_def TCP_MarshalToMsg_def empty_NewProxy_def AddUserPrefix_def StripUserPrefix_def Let_def

theorem client_server_agree_witness:
  "AddUserPrefix ''u'' ''ssh'' \<in> ln_srv (foldl (link_step (=)) (New_link ''u'' (\<lambda>_. demo_wrapper)) demo_events) \<and>
   HandleWorkConn ''ssh'' (ln_pm (foldl (link_step (=)) (New_link ''u'' (\<lambda>_. demo_wrapper)) demo_events))"
proof -
  have "all_patient (=) demo_events (New_link ''u'' (\<lambda>_. demo_wrapper))"
    by (simp add: demo_events_def patient_def unanswered_def for_name_def answers_def link_simps)
  moreover have "HandleWorkConn ''ssh'' (ln_pm (foldl (link_step (=)) (New_link ''u'' (\<lambda>_. demo_wrapper)) demo_events))"
    by (simp add: demo_events_def HandleWorkConn_def InWorkConn_def link_simps)
  ultimately show ?thesis using client_server_agree [of "(=)" demo_events "''u''" "\<lambda>_. demo_wrapper" "''ssh''"] by (simp add: Let_def)
qed

text \<open>
  Without that condition they disagree. A reload replaces a proxy whose registration is unanswered: the answer
  to the old registration, which succeeded, makes the new proxy running; the answer to the new one, which failed, is
  ignored.
\<close>

definition demo_race :: "link_ev list" where
  "demo_race =
     [LUpdate [] [demo_client_cfg 1], LCheck 0 1, LServer [] '':1'', LUpdate [''ssh''] [demo_client_cfg 2], LCheck 1 2,
      LServer [] [], LServer ''port already used'' [], LResp True [] 3, LResp True [] 4]"

lemma stale_answer_accepted:
  "let l = foldl (link_step (=)) (New_link ''u'' (\<lambda>_. demo_wrapper)) demo_race in
   HandleWorkConn ''ssh'' (ln_pm l) \<and> ln_c2s l = [] \<and> ln_s2c l = [] \<and> ln_srv l = {}"
  by (simp add: demo_race_def stop_at_def Wrapper_Stop_def HandleWorkConn_def InWorkConn_def link_simps)

text \<open>
  Reloading the configuration does exactly what changed. With one configuration per name, afterwards the
  manager has a proxy for each configured name and for no other, each with its configuration; a proxy whose
  configuration is unchanged is the same object in the same state, every other one starts afresh; and
  the server is told to close exactly the proxies that were removed or changed, once each.
\<close>

lemma update_all_exact:
  assumes "pm_ok pm" and "iter_order (pm_proxies pm) names" and "distinct (map cfg_name cfgs)" and "\<And>x y. deep x y \<Longrightarrow> x = y"
    and "PM_UpdateAll deep names cfgs pm = (pm', ms)"
  shows "pm_ok pm' \<and> dom (pm_proxies pm') = cfg_name ` set cfgs \<and>
    (\<forall>c \<in> set cfgs. \<exists>a. pm_proxies pm' (cfg_name c) = Some a \<and> w_Cfg (pm_heap pm' a) = c \<and>
       (if \<exists>b. pm_proxies pm (cfg_name c) = Some b \<and> deep (w_Cfg (pm_heap pm b)) c
        then pm_proxies pm (cfg_name c) = Some a \<and> pm_heap pm' a = pm_heap pm a
        else pm_heap pm' a = NewWrapper (pm_user pm) c)) \<and>
    (\<forall>n. for_name (AddUserPrefix (pm_user pm) n) ms =
       (if stale deep (KeyBy cfg_name cfgs) pm n then [MClose (AddUserPrefix (pm_user pm) n)] else []))"
proof -
  obtain pm1 where d: "delete_stale deep (KeyBy cfg_name cfgs) names pm = (pm1, ms)" and f: "pm' = fold add_cfg cfgs pm1"
    using assms(5) by (auto simp: PM_UpdateAll_def split: prod.splits)
  have dn: "distinct names" and nm: "n \<in> set names \<longleftrightarrow> n \<in> dom (pm_proxies pm)" for n using assms(2) by (auto simp: iter_order_def)
  note s = delete_stale_spec [OF assms(1) dn d]
  have ok1: "pm_ok pm1" and u: "pm_user pm1 = pm_user pm" and h1: "\<And>n a. pm_proxies pm1 n = Some a \<Longrightarrow> pm_heap pm1 a = pm_heap pm a"
    using s by simp_all
  have st: "stale deep (KeyBy cfg_name cfgs) pm n \<Longrightarrow> n \<in> set names" for n unfolding nm by (auto simp: stale_def split: option.splits)
  have p1: "pm_proxies pm1 n = (if stale deep (KeyBy cfg_name cfgs) pm n then None else pm_proxies pm n)"
    and m1: "for_name (AddUserPrefix (pm_user pm) n) ms = (if stale deep (KeyBy cfg_name cfgs) pm n then [MClose (AddUserPrefix (pm_user pm) n)] else [])"
    for n using s st [of n] by auto
  note a = fold_add_spec [OF ok1, of cfgs, folded f, unfolded u]
  have old: "pm_proxies pm1 n = Some b \<Longrightarrow> pm_proxies pm' n = Some b \<and> pm_heap pm' b = pm_heap pm b" for n b using a h1 by simp
  have new: "pm_proxies pm1 n = None \<Longrightarrow> (case added cfgs n of None \<Rightarrow> pm_proxies pm' n = None
      | Some c \<Rightarrow> \<exists>a. pm_proxies pm' n = Some a \<and> pm_heap pm' a = NewWrapper (pm_user pm) c)" for n using a by blast
  have gone: "pm_proxies pm' n = None" if "n \<notin> cfg_name ` set cfgs" for n
    using that new [of n] KeyBy_none [OF that] p1 [of n] added_none [OF that] by (auto simp: stale_def split: option.splits)
  have cfg: "\<exists>a. pm_proxies pm' (cfg_name c) = Some a \<and> w_Cfg (pm_heap pm' a) = c \<and>
       (if \<exists>b. pm_proxies pm (cfg_name c) = Some b \<and> deep (w_Cfg (pm_heap pm b)) c
        then pm_proxies pm (cfg_name c) = Some a \<and> pm_heap pm' a = pm_heap pm a
        else pm_heap pm' a = NewWrapper (pm_user pm) c)" if c: "c \<in> set cfgs" for c
  proof (cases "\<exists>b. pm_proxies pm (cfg_name c) = Some b \<and> deep (w_Cfg (pm_heap pm b)) c")
    case True
    then obtain b where b: "pm_proxies pm (cfg_name c) = Some b" "deep (w_Cfg (pm_heap pm b)) c" by blast
    then have "pm_proxies pm1 (cfg_name c) = Some b" using p1 KeyBy_some [OF assms(3) c] by (simp add: stale_def)
    from old [OF this] b assms(4) show ?thesis by auto
  next
    case False
    then have "pm_proxies pm1 (cfg_name c) = None"
      using p1 [of "cfg_name c"] KeyBy_some [OF assms(3) c] by (auto simp: stale_def split: option.splits)
    from new [OF this] added_some [OF assms(3) c] False show ?thesis by (auto simp: NewWrapper_def Let_def)
  qed
  have "dom (pm_proxies pm') = cfg_name ` set cfgs"
  proof (intro equalityI subsetI)
    show "n \<in> cfg_name ` set cfgs" if "n \<in> dom (pm_proxies pm')" for n using that gone by (metis domD option.distinct(1))
    show "n \<in> dom (pm_proxies pm')" if n: "n \<in> cfg_name ` set cfgs" for n
    proof -
      obtain c where "n = cfg_name c" "c \<in> set cfgs" using n by blast
      then show ?thesis using cfg [of c] by auto
    qed
  qed
  then show ?thesis using a m1 cfg by (intro conjI allI ballI) simp_all
qed

definition demo_running :: Manager_state where
  "demo_running = ln_pm (foldl (link_step (=)) (New_link ''u'' (\<lambda>_. demo_wrapper)) demo_events)"

theorem update_all_exact_witness:
  "\<exists>pm' ms. PM_UpdateAll (=) [''ssh''] [demo_client_cfg 1] demo_running = (pm', ms) \<and>
     dom (pm_proxies pm') = {''ssh''} \<and> HandleWorkConn ''ssh'' pm' \<and> for_name ''u.ssh'' ms = []"
proof -
  obtain pm' ms where u: "PM_UpdateAll (=) [''ssh''] [demo_client_cfg 1] demo_running = (pm', ms)" by fastforce
  have r: "pm_proxies demo_running = [''ssh'' \<mapsto> 0]" "pm_user demo_running = ''u''" "w_Cfg (pm_heap demo_running 0) = demo_client_cfg 1"
    "w_Phase (pm_heap demo_running 0) = PhaseRunning"
    by (simp_all add: demo_running_def demo_events_def link_simps)
  have "all_patient (=) demo_events (New_link ''u'' (\<lambda>_. demo_wrapper))"
    by (simp add: demo_events_def patient_def unanswered_def for_name_def answers_def link_simps)
  then have ok: "pm_ok demo_running" unfolding demo_running_def by (intro link_okD(1) link_run_ok New_link_ok)
  have "iter_order (pm_proxies demo_running) [''ssh'']" by (simp add: r iter_order_def)
  note x = update_all_exact [OF ok this _ _ u]
  have n: "cfg_name (demo_client_cfg 1) = ''ssh''" by (simp add: cfg_name_def demo_client_cfg_def)
  have "\<not> stale (=) (KeyBy cfg_name [demo_client_cfg 1]) demo_running ''ssh''" by (simp add: stale_def r KeyBy_def n)
  with x show ?thesis using u by (auto simp: r n HandleWorkConn_def InWorkConn_def AddUserPrefix_def)
qed

text \<open>
  Failures are counted from the start and not in a row: with a limit of three, the third failure makes the
  check fail although every failure was followed by a success.
\<close>

lemma failures_not_in_a_row:
  assumes "hc_MaxFailed cfg = 3"
  shows "map snd (snd (foldl (\<lambda>(m, out) ok. case monitor_round ok m of (m', c) \<Rightarrow> (m', out @ [(ok, c)]))
    (NewMonitor cfg, []) [True, False, True, False, True, False])) = [Some True, None, None, None, None, Some False]"
  using assms by (simp add: NewMonitor_def monitor_round_def)

end
