(* ===== verification/ClientVisitors.thy ===== *)
theory ClientVisitors
  imports ClientConfig ClientProxies VisitorManager
begin

text \<open>
  Visitors on the client: starting one (\<open>client/visitor/visitor.go\<close>, \<open>stcp.go\<close>, \<open>sudp.go\<close>, \<open>xtcp.go\<close>),
  the manager that keeps the configured ones running (\<open>client/visitor/visitor_manager.go\<close>), and the
  exchange with which a visitor asks the server for a connection to a secret proxy.

  Whether a plugin can be created and a port bound is an argument of each call. A panic ends the client
  and is \<open>None\<close>. Started visitors live in a list of objects, so that one that nobody closes any more stays
  visible.
\<close>

section \<open>Starting a visitor\<close>

text \<open>The product of a number of seconds and \<open>time.Second\<close> wraps around in 64 bits.\<close>

definition dur_seconds :: "int \<Rightarrow> int" where
  "dur_seconds n = (n * 1000000000 + 2 ^ 63) mod 2 ^ 64 - 2 ^ 63"

record run_oracle =
  ro_plugin :: bool
  ro_listen :: bool

datatype run_out = RunOk | RunErr | RunPanic

text \<open>\<open>NewVisitor\<close> fails only when its plugin cannot be created.\<close>

definition NewVisitor :: "run_oracle \<Rightarrow> VisitorConfigurer \<Rightarrow> bool" where
  "NewVisitor o1 c \<longleftrightarrow> vb_PluginType (vc_base c) = [] \<or> ro_plugin o1"

definition STCP_visitor_Run :: "run_oracle \<Rightarrow> VisitorBaseConfig \<Rightarrow> run_out" where
  "STCP_visitor_Run o1 b = (if vb_BindPort b > 0 \<and> \<not> ro_listen o1 then RunErr else RunOk)"

text \<open>A sudp visitor always binds its port.\<close>

definition SUDP_visitor_Run :: "run_oracle \<Rightarrow> VisitorBaseConfig \<Rightarrow> run_out" where
  "SUDP_visitor_Run o1 b = (if ro_listen o1 then RunOk else RunErr)"

text \<open>
  \<open>Run\<close> divides an hour by \<open>MaxRetriesAnHour\<close>, and its goroutine makes a ticker of \<open>MinRetryInterval\<close>
  seconds, which panics unless that is positive.
\<close>

definition XTCP_visitor_Run :: "ClientCommonConfig \<Rightarrow> run_oracle \<Rightarrow> VisitorBaseConfig \<Rightarrow> XTCPVisitorConfig \<Rightarrow> run_out" where
  "XTCP_visitor_Run common o1 b x =
     (if xv_Protocol x \<noteq> ''quic'' \<or> xv_FallbackTo x \<noteq> [] \<or> ct_WireProtocol (co_Transport common) \<noteq> ''v2'' \<or>
         length (co_XTCPControlID common) \<noteq> 32 then RunErr
      else if vb_BindPort b > 0 \<and> \<not> ro_listen o1 then RunErr
      else if xv_KeepTunnelOpen x \<and> (xv_MaxRetriesAnHour x = 0 \<or> dur_seconds (xv_MinRetryInterval x) \<le> 0) then RunPanic
      else RunOk)"

definition Visitor_Run :: "ClientCommonConfig \<Rightarrow> run_oracle \<Rightarrow> VisitorConfigurer \<Rightarrow> run_out" where
  "Visitor_Run common o1 c =
     (case vc_details c of
        STCP_visitor \<Rightarrow> STCP_visitor_Run o1 (vc_base c)
      | SUDP_visitor \<Rightarrow> SUDP_visitor_Run o1 (vc_base c)
      | XTCP_visitor x \<Rightarrow> XTCP_visitor_Run common o1 (vc_base c) x)"

section \<open>The manager\<close>

record visitor_obj =
  vo_cfg :: VisitorConfigurer
  vo_open :: bool

record VisitorsManager =
  cv_common :: ClientCommonConfig
  cv_cfgs :: "string \<rightharpoonup> VisitorConfigurer"
  cv_visitors :: "string \<rightharpoonup> nat"
  cv_heap :: "visitor_obj list"
  cv_keeping :: bool
  cv_stopped :: bool

definition NewVisitorsManager :: "ClientCommonConfig \<Rightarrow> VisitorsManager" where
  "NewVisitorsManager common =
     \<lparr>cv_common = common, cv_cfgs = Map.empty, cv_visitors = Map.empty, cv_heap = [], cv_keeping = False, cv_stopped = False\<rparr>"

definition startVisitor :: "run_oracle \<Rightarrow> VisitorConfigurer \<Rightarrow> VisitorsManager \<Rightarrow> VisitorsManager option" where
  "startVisitor o1 c vm =
     (if \<not> NewVisitor o1 c then Some vm
      else case Visitor_Run (cv_common vm) o1 c of
        RunPanic \<Rightarrow> None
      | RunErr \<Rightarrow> Some vm
      | RunOk \<Rightarrow>
          Some (vm\<lparr>cv_visitors := (cv_visitors vm)(visitor_name c \<mapsto> length (cv_heap vm)),
                   cv_heap := cv_heap vm @ [\<lparr>vo_cfg = c, vo_open = True\<rparr>]\<rparr>))"

definition close_visitor :: "nat \<Rightarrow> VisitorsManager \<Rightarrow> VisitorsManager" where
  "close_visitor a vm = vm\<lparr>cv_heap := (cv_heap vm)[a := (cv_heap vm ! a)\<lparr>vo_open := False\<rparr>]\<rparr>"

fun delete_old :: "(VisitorConfigurer \<Rightarrow> VisitorConfigurer \<Rightarrow> bool) \<Rightarrow> (string \<rightharpoonup> VisitorConfigurer) \<Rightarrow> string list \<Rightarrow> VisitorsManager \<Rightarrow> VisitorsManager" where
  "delete_old deep cfgs [] vm = vm"
| "delete_old deep cfgs (name # names) vm =
     (case cv_cfgs vm name of
        None \<Rightarrow> delete_old deep cfgs names vm
      | Some old \<Rightarrow>
          if (case cfgs name of None \<Rightarrow> True | Some c \<Rightarrow> \<not> deep old c) then
            (let vm1 = vm\<lparr>cv_cfgs := (cv_cfgs vm)(name := None)\<rparr>;
                 vm2 = (case cv_visitors vm1 name of None \<Rightarrow> vm1 | Some a \<Rightarrow> close_visitor a vm1)
             in delete_old deep cfgs names (vm2\<lparr>cv_visitors := (cv_visitors vm2)(name := None)\<rparr>))
          else delete_old deep cfgs names vm)"

fun add_new :: "(VisitorConfigurer \<Rightarrow> run_oracle) \<Rightarrow> VisitorConfigurer list \<Rightarrow> VisitorsManager \<Rightarrow> VisitorsManager option" where
  "add_new ora [] vm = Some vm"
| "add_new ora (c # cs) vm =
     (case cv_cfgs vm (visitor_name c) of
        Some _ \<Rightarrow> add_new ora cs vm
      | None \<Rightarrow>
          (case startVisitor (ora c) c (vm\<lparr>cv_cfgs := (cv_cfgs vm)(visitor_name c \<mapsto> c)\<rparr>) of
             None \<Rightarrow> None
           | Some vm1 \<Rightarrow> add_new ora cs vm1))"

definition VM_UpdateAll ::
    "(VisitorConfigurer \<Rightarrow> VisitorConfigurer \<Rightarrow> bool) \<Rightarrow> (VisitorConfigurer \<Rightarrow> run_oracle) \<Rightarrow> string list \<Rightarrow> VisitorConfigurer list \<Rightarrow>
     VisitorsManager \<Rightarrow> VisitorsManager option" where
  "VM_UpdateAll deep ora names cfgs vm =
     add_new ora cfgs (delete_old deep (KeyBy visitor_name cfgs) names (vm\<lparr>cv_keeping := cv_keeping vm \<or> cfgs \<noteq> []\<rparr>))"

text \<open>One tick of \<open>keepVisitorsRunning\<close>; the loop goes over the configurations in the order \<open>names\<close>.\<close>

fun start_missing :: "(VisitorConfigurer \<Rightarrow> run_oracle) \<Rightarrow> string list \<Rightarrow> VisitorsManager \<Rightarrow> VisitorsManager option" where
  "start_missing ora [] vm = Some vm"
| "start_missing ora (n # ns) vm =
     (case cv_cfgs vm n of
        None \<Rightarrow> start_missing ora ns vm
      | Some c \<Rightarrow>
          if cv_visitors vm (visitor_name c) \<noteq> None then start_missing ora ns vm
          else (case startVisitor (ora c) c vm of None \<Rightarrow> None | Some vm1 \<Rightarrow> start_missing ora ns vm1))"

definition keepVisitorsRunning_tick :: "(VisitorConfigurer \<Rightarrow> run_oracle) \<Rightarrow> string list \<Rightarrow> VisitorsManager \<Rightarrow> VisitorsManager option" where
  "keepVisitorsRunning_tick ora names vm = (if cv_keeping vm \<and> \<not> cv_stopped vm then start_missing ora names vm else Some vm)"

definition close_named :: "string \<Rightarrow> VisitorsManager \<Rightarrow> VisitorsManager" where
  "close_named n vm = (case cv_visitors vm n of None \<Rightarrow> vm | Some a \<Rightarrow> close_visitor a vm)"

definition VM_Close :: "string list \<Rightarrow> VisitorsManager \<Rightarrow> VisitorsManager" where
  "VM_Close names vm = (fold close_named names vm)\<lparr>cv_stopped := True\<rparr>"

definition GetVisitorCfg :: "string \<Rightarrow> VisitorsManager \<Rightarrow> VisitorConfigurer option" where
  "GetVisitorCfg name vm = cv_cfgs vm name"

definition TransferConn :: "string \<Rightarrow> VisitorsManager \<Rightarrow> nat option" where
  "TransferConn name vm = cv_visitors vm name"

section \<open>Invariant\<close>

definition cv_ok :: "VisitorsManager \<Rightarrow> bool" where
  "cv_ok vm \<longleftrightarrow>
     (\<forall>n a. cv_visitors vm n = Some a \<longrightarrow> a < length (cv_heap vm) \<and> cv_cfgs vm n = Some (vo_cfg (cv_heap vm ! a)) \<and>
        (cv_stopped vm \<or> vo_open (cv_heap vm ! a))) \<and>
     (\<forall>a < length (cv_heap vm). vo_open (cv_heap vm ! a) \<longrightarrow> cv_visitors vm (visitor_name (vo_cfg (cv_heap vm ! a))) = Some a) \<and>
     (\<forall>n c. cv_cfgs vm n = Some c \<longrightarrow> visitor_name c = n)"

lemma cv_okD:
  assumes "cv_ok vm"
  shows "cv_visitors vm n = Some a \<Longrightarrow> a < length (cv_heap vm)"
    and "cv_visitors vm n = Some a \<Longrightarrow> cv_cfgs vm n = Some (vo_cfg (cv_heap vm ! a))"
    and "cv_visitors vm n = Some a \<Longrightarrow> \<not> cv_stopped vm \<Longrightarrow> vo_open (cv_heap vm ! a)"
    and "a < length (cv_heap vm) \<Longrightarrow> vo_open (cv_heap vm ! a) \<Longrightarrow> cv_visitors vm (visitor_name (vo_cfg (cv_heap vm ! a))) = Some a"
    and "cv_cfgs vm n = Some c \<Longrightarrow> visitor_name c = n"
    and "cv_cfgs vm n = None \<Longrightarrow> cv_visitors vm n = None"
proof -
  show "cv_visitors vm n = Some a \<Longrightarrow> a < length (cv_heap vm)" "cv_visitors vm n = Some a \<Longrightarrow> cv_cfgs vm n = Some (vo_cfg (cv_heap vm ! a))"
    "cv_visitors vm n = Some a \<Longrightarrow> \<not> cv_stopped vm \<Longrightarrow> vo_open (cv_heap vm ! a)"
    "a < length (cv_heap vm) \<Longrightarrow> vo_open (cv_heap vm ! a) \<Longrightarrow> cv_visitors vm (visitor_name (vo_cfg (cv_heap vm ! a))) = Some a"
    "cv_cfgs vm n = Some c \<Longrightarrow> visitor_name c = n"
    using assms unfolding cv_ok_def by blast+
  then show "cv_cfgs vm n = None \<Longrightarrow> cv_visitors vm n = None"
    using assms unfolding cv_ok_def by (metis option.distinct(1) option.exhaust)
qed

lemma cv_okI:
  assumes "\<And>n a. cv_visitors vm n = Some a \<Longrightarrow> a < length (cv_heap vm) \<and> cv_cfgs vm n = Some (vo_cfg (cv_heap vm ! a)) \<and>
      (cv_stopped vm \<or> vo_open (cv_heap vm ! a))"
    and "\<And>a. a < length (cv_heap vm) \<Longrightarrow> vo_open (cv_heap vm ! a) \<Longrightarrow> cv_visitors vm (visitor_name (vo_cfg (cv_heap vm ! a))) = Some a"
    and "\<And>n c. cv_cfgs vm n = Some c \<Longrightarrow> visitor_name c = n"
  shows "cv_ok vm"
  using assms unfolding cv_ok_def by blast

lemma new_visitors_ok: "cv_ok (NewVisitorsManager common)"
  by (simp add: cv_ok_def NewVisitorsManager_def)

lemma startVisitor_cases:
  assumes "startVisitor o1 c vm = Some vm'"
  obtains "vm' = vm" "NewVisitor o1 c \<Longrightarrow> Visitor_Run (cv_common vm) o1 c = RunErr"
  | "vm' = vm\<lparr>cv_visitors := (cv_visitors vm)(visitor_name c \<mapsto> length (cv_heap vm)), cv_heap := cv_heap vm @ [\<lparr>vo_cfg = c, vo_open = True\<rparr>]\<rparr>"
    "NewVisitor o1 c" "Visitor_Run (cv_common vm) o1 c = RunOk"
  using assms by (auto simp: startVisitor_def split: if_splits run_out.splits)

lemma startVisitor_ok:
  assumes ok: "cv_ok vm" and c: "cv_cfgs vm (visitor_name c) = Some c" and f: "cv_visitors vm (visitor_name c) = None"
    and st: "startVisitor o1 c vm = Some vm'"
  shows "cv_ok vm'"
  using st
proof (cases rule: startVisitor_cases)
  case 2
  note d = cv_okD [OF ok]
  show ?thesis unfolding 2(1)
  proof (rule cv_okI, goal_cases)
    case (1 n a)
    then show ?case using d(1-3) [of n a] f c by (cases "n = visitor_name c") (auto simp: nth_append)
  next
    case (2 a)
    then show ?case using d(4) [of a] f by (cases "a = length (cv_heap vm)") (auto simp: nth_append less_Suc_eq)
  qed (use d(5) in simp)
qed (use ok in simp)

lemma startVisitor_frame:
  assumes "startVisitor o1 c vm = Some vm'"
  shows "cv_cfgs vm' = cv_cfgs vm" "cv_common vm' = cv_common vm" "cv_keeping vm' = cv_keeping vm" "cv_stopped vm' = cv_stopped vm"
    "n \<noteq> visitor_name c \<Longrightarrow> cv_visitors vm' n = cv_visitors vm n"
    "a < length (cv_heap vm) \<Longrightarrow> cv_heap vm' ! a = cv_heap vm ! a"
    "length (cv_heap vm) \<le> length (cv_heap vm')"
  using assms by (cases rule: startVisitor_cases; simp add: nth_append)+

text \<open>Deleting: the entries that are gone or differ lose their visitor, which is closed.\<close>

definition differs :: "(VisitorConfigurer \<Rightarrow> VisitorConfigurer \<Rightarrow> bool) \<Rightarrow> (string \<rightharpoonup> VisitorConfigurer) \<Rightarrow> VisitorsManager \<Rightarrow> string \<Rightarrow> bool" where
  "differs deep cfgs vm n \<longleftrightarrow>
     (case cv_cfgs vm n of None \<Rightarrow> False | Some old \<Rightarrow> (case cfgs n of None \<Rightarrow> True | Some c \<Rightarrow> \<not> deep old c))"

definition drop_visitor :: "string \<Rightarrow> VisitorsManager \<Rightarrow> VisitorsManager" where
  "drop_visitor n vm =
     (let vm1 = vm\<lparr>cv_cfgs := (cv_cfgs vm)(n := None)\<rparr>
      in (case cv_visitors vm1 n of None \<Rightarrow> vm1 | Some a \<Rightarrow> close_visitor a vm1)\<lparr>cv_visitors := (cv_visitors vm)(n := None)\<rparr>)"

lemma delete_old_Cons:
  "delete_old deep cfgs (n # ns) vm = delete_old deep cfgs ns (if differs deep cfgs vm n then drop_visitor n vm else vm)"
  by (auto simp: differs_def drop_visitor_def close_visitor_def Let_def split: option.split)

lemma drop_visitor_ok: "cv_ok vm \<Longrightarrow> cv_ok (drop_visitor n vm)"
proof -
  assume ok: "cv_ok vm"
  note d = cv_okD [OF ok]
  show ?thesis
  proof (cases "cv_visitors vm n")
    case None
    then have e: "drop_visitor n vm = vm\<lparr>cv_cfgs := (cv_cfgs vm)(n := None), cv_visitors := (cv_visitors vm)(n := None)\<rparr>"
      by (simp add: drop_visitor_def Let_def)
    show ?thesis unfolding e
    proof (rule cv_okI, goal_cases)
      case (1 m a)
      then show ?case using d(1-3) [of m a] by (cases "m = n") auto
    next
      case (2 a)
      then show ?case using d(4) [of a] None by auto
    qed (use d(5) in \<open>auto split: if_splits\<close>)
  next
    case (Some a)
    have o: "cv_visitors vm m = Some a \<Longrightarrow> m = n" for m using d(2,5) Some by (metis option.inject)
    show ?thesis
    proof (rule cv_okI)
      fix m b assume "cv_visitors (drop_visitor n vm) m = Some b"
      then have m: "m \<noteq> n" "cv_visitors vm m = Some b" using Some by (auto simp: drop_visitor_def close_visitor_def Let_def split: if_splits)
      then have "b \<noteq> a" using o by auto
      then show "b < length (cv_heap (drop_visitor n vm)) \<and> cv_cfgs (drop_visitor n vm) m = Some (vo_cfg (cv_heap (drop_visitor n vm) ! b)) \<and>
          (cv_stopped (drop_visitor n vm) \<or> vo_open (cv_heap (drop_visitor n vm) ! b))"
        using d(1-3) [OF m(2)] m(1) Some by (auto simp: drop_visitor_def close_visitor_def Let_def)
    next
      fix b assume b: "b < length (cv_heap (drop_visitor n vm))" "vo_open (cv_heap (drop_visitor n vm) ! b)"
      then have "b \<noteq> a" "b < length (cv_heap vm)" using Some by (auto simp: drop_visitor_def close_visitor_def Let_def)
      moreover from this have "vo_open (cv_heap vm ! b)" using Some b(2) by (simp add: drop_visitor_def close_visitor_def Let_def)
      ultimately have "b \<noteq> a" "b < length (cv_heap vm)" "vo_open (cv_heap vm ! b)" by auto
      moreover from this have "visitor_name (vo_cfg (cv_heap vm ! b)) \<noteq> n" using d(4) Some by fastforce
      ultimately show "cv_visitors (drop_visitor n vm) (visitor_name (vo_cfg (cv_heap (drop_visitor n vm) ! b))) = Some b"
        using d(4) Some by (simp add: drop_visitor_def close_visitor_def Let_def)
    qed (use d(5) Some in \<open>auto simp: drop_visitor_def close_visitor_def Let_def split: if_splits\<close>)
  qed
qed

lemma drop_visitor_frame:
  "cv_cfgs (drop_visitor n vm) = (cv_cfgs vm)(n := None)" "cv_visitors (drop_visitor n vm) = (cv_visitors vm)(n := None)"
  "cv_common (drop_visitor n vm) = cv_common vm" "cv_keeping (drop_visitor n vm) = cv_keeping vm" "cv_stopped (drop_visitor n vm) = cv_stopped vm"
  by (auto simp: drop_visitor_def close_visitor_def Let_def split: option.split)

lemma delete_old_spec:
  assumes "cv_ok vm" "distinct names"
  shows "cv_ok (delete_old deep cfgs names vm)"
    and "cv_cfgs (delete_old deep cfgs names vm) n = (if n \<in> set names \<and> differs deep cfgs vm n then None else cv_cfgs vm n)"
    and "cv_visitors (delete_old deep cfgs names vm) n = (if n \<in> set names \<and> differs deep cfgs vm n then None else cv_visitors vm n)"
    and "cv_common (delete_old deep cfgs names vm) = cv_common vm" "cv_keeping (delete_old deep cfgs names vm) = cv_keeping vm"
    and "cv_stopped (delete_old deep cfgs names vm) = cv_stopped vm"
proof -
  have s: "differs deep cfgs (drop_visitor m vm) n = (n \<noteq> m \<and> differs deep cfgs vm n)" for m n vm
    by (simp add: differs_def drop_visitor_frame)
  have "cv_ok (delete_old deep cfgs names vm) \<and>
    cv_cfgs (delete_old deep cfgs names vm) n = (if n \<in> set names \<and> differs deep cfgs vm n then None else cv_cfgs vm n) \<and>
    cv_visitors (delete_old deep cfgs names vm) n = (if n \<in> set names \<and> differs deep cfgs vm n then None else cv_visitors vm n) \<and>
    cv_common (delete_old deep cfgs names vm) = cv_common vm \<and> cv_keeping (delete_old deep cfgs names vm) = cv_keeping vm \<and>
    cv_stopped (delete_old deep cfgs names vm) = cv_stopped vm"
    using assms
  proof (induction names arbitrary: vm)
    case (Cons m names)
    let ?vm = "if differs deep cfgs vm m then drop_visitor m vm else vm"
    have ok: "cv_ok ?vm" using drop_visitor_ok Cons.prems by simp
    have "distinct names" "m \<notin> set names" using Cons.prems by auto
    with Cons.IH [OF ok] show ?case
      unfolding delete_old_Cons by (auto simp: s drop_visitor_frame)
  qed simp
  then show "cv_ok (delete_old deep cfgs names vm)"
    "cv_cfgs (delete_old deep cfgs names vm) n = (if n \<in> set names \<and> differs deep cfgs vm n then None else cv_cfgs vm n)"
    "cv_visitors (delete_old deep cfgs names vm) n = (if n \<in> set names \<and> differs deep cfgs vm n then None else cv_visitors vm n)"
    "cv_common (delete_old deep cfgs names vm) = cv_common vm" "cv_keeping (delete_old deep cfgs names vm) = cv_keeping vm"
    "cv_stopped (delete_old deep cfgs names vm) = cv_stopped vm" by blast+
qed

text \<open>Whether a visitor can run now.\<close>

definition runs :: "VisitorsManager \<Rightarrow> run_oracle \<Rightarrow> VisitorConfigurer \<Rightarrow> bool" where
  "runs vm o1 c \<longleftrightarrow> NewVisitor o1 c \<and> Visitor_Run (cv_common vm) o1 c = RunOk"

lemma startVisitor_visitor:
  assumes "startVisitor o1 c vm = Some vm'" "cv_visitors vm (visitor_name c) = None"
  shows "cv_visitors vm' (visitor_name c) \<noteq> None \<longleftrightarrow> runs vm o1 c"
  using assms(1) by (cases rule: startVisitor_cases) (auto simp: runs_def assms(2))

lemma add_new_spec:
  assumes "cv_ok vm" "add_new ora cfgs vm = Some vm'" "distinct (map visitor_name cfgs)"
  shows "cv_ok vm' \<and> cv_common vm' = cv_common vm \<and> cv_keeping vm' = cv_keeping vm \<and> cv_stopped vm' = cv_stopped vm \<and>
    (\<forall>n. cv_cfgs vm n \<noteq> None \<or> n \<notin> visitor_name ` set cfgs \<longrightarrow> cv_cfgs vm' n = cv_cfgs vm n \<and> cv_visitors vm' n = cv_visitors vm n) \<and>
    (\<forall>c \<in> set cfgs. cv_cfgs vm (visitor_name c) = None \<longrightarrow>
       cv_cfgs vm' (visitor_name c) = Some c \<and> (cv_visitors vm' (visitor_name c) \<noteq> None \<longleftrightarrow> runs vm (ora c) c))"
  using assms
proof (induction cfgs arbitrary: vm)
  case (Cons c cfgs)
  have nm: "visitor_name c \<notin> visitor_name ` set cfgs" "distinct (map visitor_name cfgs)" using Cons.prems(3) by auto
  show ?case
  proof (cases "cv_cfgs vm (visitor_name c)")
    case (Some x)
    then have "add_new ora cfgs vm = Some vm'" using Cons.prems(2) by simp
    from Cons.IH [OF Cons.prems(1) this nm(2)] Some show ?thesis by auto
  next
    case None
    let ?vm = "vm\<lparr>cv_cfgs := (cv_cfgs vm)(visitor_name c \<mapsto> c)\<rparr>"
    have v: "cv_visitors vm (visitor_name c) = None" using cv_okD(6) [OF Cons.prems(1) None] .
    obtain vm1 where s: "startVisitor (ora c) c ?vm = Some vm1" "add_new ora cfgs vm1 = Some vm'"
      using Cons.prems(2) None by (auto split: option.splits)
    have "cv_ok ?vm"
    proof (rule cv_okI, goal_cases)
      case (1 n a)
      then show ?case using cv_okD(1-3) [OF Cons.prems(1), of n a] v by (cases "n = visitor_name c") auto
    next
      case (2 a)
      then show ?case using cv_okD(4) [OF Cons.prems(1), of a] by auto
    qed (use cv_okD(5) [OF Cons.prems(1)] in \<open>auto split: if_splits\<close>)
    then have ok: "cv_ok vm1" using startVisitor_ok [OF _ _ _ s(1)] v by simp
    note f = startVisitor_frame [OF s(1)]
    have r: "cv_visitors vm1 (visitor_name c) \<noteq> None \<longleftrightarrow> runs vm (ora c) c"
      using startVisitor_visitor [OF s(1)] v by (simp add: runs_def)
    have rr: "runs vm1 o1 d = runs vm o1 d" for o1 d using f(2) by (simp add: runs_def)
    note ih = Cons.IH [OF ok s(2) nm(2)]
    show ?thesis
    proof (intro conjI allI ballI impI)
      show "cv_ok vm'" "cv_common vm' = cv_common vm" "cv_keeping vm' = cv_keeping vm" "cv_stopped vm' = cv_stopped vm"
        using ih f by auto
      fix n assume n: "cv_cfgs vm n \<noteq> None \<or> n \<notin> visitor_name ` set (c # cfgs)"
      then have "n \<noteq> visitor_name c" using None by auto
      then show "cv_cfgs vm' n = cv_cfgs vm n" "cv_visitors vm' n = cv_visitors vm n" using ih f(1,5) n by auto
    next
      fix d assume d: "d \<in> set (c # cfgs)" "cv_cfgs vm (visitor_name d) = None"
      have "cv_cfgs vm' (visitor_name d) = Some d \<and> (cv_visitors vm' (visitor_name d) \<noteq> None \<longleftrightarrow> runs vm (ora d) d)"
      proof (cases "d \<in> set cfgs")
        case True
        then have "visitor_name d \<noteq> visitor_name c" using nm(1) by (metis image_eqI)
        then have "cv_cfgs vm1 (visitor_name d) = None" using d(2) f(1) by simp
        then show ?thesis using ih True by (simp add: rr)
      next
        case False
        then have "d = c" using d(1) by simp
        then show ?thesis using ih nm(1) f(1) r by simp
      qed
      then show "cv_cfgs vm' (visitor_name d) = Some d" "cv_visitors vm' (visitor_name d) \<noteq> None \<longleftrightarrow> runs vm (ora d) d" by blast+
    qed
  qed
qed simp

text \<open>Closing the manager closes every visitor.\<close>

lemma close_named_frame:
  "cv_visitors (close_named n vm) = cv_visitors vm" "cv_cfgs (close_named n vm) = cv_cfgs vm"
  "length (cv_heap (close_named n vm)) = length (cv_heap vm)"
  by (simp_all add: close_named_def close_visitor_def split: option.split)

lemma close_named_heap:
  assumes "a < length (cv_heap vm)"
  shows "vo_cfg (cv_heap (close_named n vm) ! a) = vo_cfg (cv_heap vm ! a)"
    and "vo_open (cv_heap (close_named n vm) ! a) \<longleftrightarrow> vo_open (cv_heap vm ! a) \<and> cv_visitors vm n \<noteq> Some a"
  using assms by (cases "cv_visitors vm n = Some a"; auto simp: close_named_def close_visitor_def split: option.split;
      metis nth_list_update_neq)+

lemma close_fold_frame:
  "cv_visitors (fold close_named names vm) = cv_visitors vm" "cv_cfgs (fold close_named names vm) = cv_cfgs vm"
  "length (cv_heap (fold close_named names vm)) = length (cv_heap vm)"
  by (induction names arbitrary: vm) (simp_all add: close_named_frame)

lemma close_fold_heap:
  assumes "a < length (cv_heap vm)"
  shows "vo_cfg (cv_heap (fold close_named names vm) ! a) = vo_cfg (cv_heap vm ! a)"
    and "vo_open (cv_heap (fold close_named names vm) ! a) \<longleftrightarrow> vo_open (cv_heap vm ! a) \<and> (\<forall>n \<in> set names. cv_visitors vm n \<noteq> Some a)"
  using assms by (induction names arbitrary: vm) (simp_all add: close_named_frame close_named_heap)

lemma VM_Close_spec:
  assumes ok: "cv_ok vm" and it: "iter_order (cv_visitors vm) names"
  shows "cv_ok (VM_Close names vm)" and "\<forall>v \<in> set (cv_heap (VM_Close names vm)). \<not> vo_open v"
proof -
  note d = cv_okD [OF ok] and f = close_fold_frame [of names vm]
  have closed: "\<not> vo_open (cv_heap (VM_Close names vm) ! a)" if "a < length (cv_heap vm)" for a
    using close_fold_heap(2) [OF that, of names] d(4) [OF that] it by (auto simp: VM_Close_def iter_order_def)
  then show "\<forall>v \<in> set (cv_heap (VM_Close names vm)). \<not> vo_open v" by (auto simp: in_set_conv_nth VM_Close_def f(3))
  show "cv_ok (VM_Close names vm)"
  proof (rule cv_okI, goal_cases)
    case (1 n a)
    then show ?case using d(1,2) [of n a] f close_fold_heap(1) [of a vm names] by (simp add: VM_Close_def)
  next
    case (2 a)
    then show ?case using closed [of a] f(3) by (simp add: VM_Close_def)
  qed (use d(5) f in \<open>simp add: VM_Close_def\<close>)
qed

lemma start_missing_spec:
  assumes "cv_ok vm" "start_missing ora names vm = Some vm'"
  shows "cv_ok vm' \<and> cv_cfgs vm' = cv_cfgs vm \<and> cv_common vm' = cv_common vm \<and> cv_stopped vm' = cv_stopped vm \<and>
    (\<forall>n. cv_visitors vm n \<noteq> None \<longrightarrow> cv_visitors vm' n = cv_visitors vm n) \<and>
    (\<forall>n \<in> set names. \<forall>c. cv_cfgs vm n = Some c \<longrightarrow> runs vm (ora c) c \<longrightarrow> cv_visitors vm' n \<noteq> None)"
  using assms
proof (induction names arbitrary: vm)
  case (Cons m names)
  show ?case
  proof (cases "\<exists>c. cv_cfgs vm m = Some c \<and> cv_visitors vm m = None")
    case False
    then have "start_missing ora names vm = Some vm'"
      using Cons.prems cv_okD(5) [OF Cons.prems(1), of m] by (auto split: option.splits if_splits)
    from Cons.IH [OF Cons.prems(1) this] False show ?thesis by fastforce
  next
    case True
    then obtain c where c: "cv_cfgs vm m = Some c" "cv_visitors vm m = None" by blast
    have m: "visitor_name c = m" using cv_okD(5) [OF Cons.prems(1) c(1)] .
    obtain vm1 where s: "startVisitor (ora c) c vm = Some vm1" "start_missing ora names vm1 = Some vm'"
      using Cons.prems(2) c m by (auto split: option.splits)
    have ok: "cv_ok vm1" using startVisitor_ok [OF Cons.prems(1) _ _ s(1)] c m by simp
    note f = startVisitor_frame [OF s(1)] and r = startVisitor_visitor [OF s(1)]
    have rr: "runs vm1 o1 d = runs vm o1 d" for o1 d using f(2) by (simp add: runs_def)
    note ih = Cons.IH [OF ok s(2)]
    show ?thesis
    proof (intro conjI allI ballI impI)
      show "cv_ok vm'" "cv_cfgs vm' = cv_cfgs vm" "cv_common vm' = cv_common vm" "cv_stopped vm' = cv_stopped vm" using ih f by auto
      show "cv_visitors vm' n = cv_visitors vm n" if "cv_visitors vm n \<noteq> None" for n
        using that ih f(5) [of n] c(2) m by (metis)
      show "cv_visitors vm' n \<noteq> None" if "n \<in> set (m # names)" "cv_cfgs vm n = Some d" "runs vm (ora d) d" for n d
      proof (cases "n = m")
        case True
        then have "cv_visitors vm1 m \<noteq> None" using r that c m by simp
        then show ?thesis using ih True by metis
      next
        case False
        then show ?thesis using ih that f(1) by (simp add: rr)
      qed
    qed
  qed
qed simp

section \<open>Properties of the manager\<close>

inductive vm_reach :: "(VisitorConfigurer \<Rightarrow> VisitorConfigurer \<Rightarrow> bool) \<Rightarrow> ClientCommonConfig \<Rightarrow> VisitorsManager \<Rightarrow> bool"
  for deep common where
  vm_new: "vm_reach deep common (NewVisitorsManager common)"
| vm_update: "vm_reach deep common vm \<Longrightarrow> iter_order (cv_cfgs vm) names \<Longrightarrow> distinct (map visitor_name cfgs) \<Longrightarrow>
    VM_UpdateAll deep ora names cfgs vm = Some vm' \<Longrightarrow> vm_reach deep common vm'"
| vm_tick: "vm_reach deep common vm \<Longrightarrow> iter_order (cv_cfgs vm) names \<Longrightarrow> keepVisitorsRunning_tick ora names vm = Some vm' \<Longrightarrow>
    vm_reach deep common vm'"
| vm_close: "vm_reach deep common vm \<Longrightarrow> iter_order (cv_visitors vm) names \<Longrightarrow> vm_reach deep common (VM_Close names vm)"

lemma cv_ok_keeping [simp]: "cv_ok (vm\<lparr>cv_keeping := k\<rparr>) = cv_ok vm"
  by (simp add: cv_ok_def)

lemma VM_UpdateAll_ok:
  assumes "cv_ok vm" "iter_order (cv_cfgs vm) names" "distinct (map visitor_name cfgs)" "VM_UpdateAll deep ora names cfgs vm = Some vm'"
  shows "cv_ok vm'"
  using add_new_spec [OF _ assms(4) [unfolded VM_UpdateAll_def] assms(3)] delete_old_spec(1) assms(1,2) by (simp add: iter_order_def)

lemma vm_reach_ok: "vm_reach deep common vm \<Longrightarrow> cv_ok vm"
proof (induction rule: vm_reach.induct)
  case (vm_tick vm names ora vm')
  then show ?case using start_missing_spec by (auto simp: keepVisitorsRunning_tick_def split: if_splits)
qed (simp_all add: new_visitors_ok VM_UpdateAll_ok VM_Close_spec(1))

lemma map_of_KeyBy: "distinct (map f xs) \<Longrightarrow> KeyBy f xs n = map_of (map (\<lambda>x. (f x, x)) xs) n"
proof (cases "n \<in> f ` set xs")
  case False
  then have "map_of (map (\<lambda>x. (f x, x)) xs) n = None" by (auto simp: map_of_eq_None_iff)
  with False show ?thesis by (simp add: KeyBy_none)
next
  case True
  assume d: "distinct (map f xs)"
  from True obtain x where x: "x \<in> set xs" "n = f x" by blast
  then have "map_of (map (\<lambda>x. (f x, x)) xs) n = Some x" using d by (intro map_of_is_SomeI) (auto simp: comp_def)
  then show ?thesis using KeyBy_some [OF d x(1)] x(2) by simp
qed

lemma update_visitors:
  assumes ok: "cv_ok vm" and it: "iter_order (cv_cfgs vm) names" and d: "distinct (map visitor_name cfgs)"
    and deep: "\<And>a b. deep a b \<longleftrightarrow> a = b" and up: "VM_UpdateAll deep ora names cfgs vm = Some vm'"
  shows "cv_cfgs vm' = map_of (map (\<lambda>c. (visitor_name c, c)) cfgs)"
    and "c \<in> set cfgs \<Longrightarrow> cv_cfgs vm (visitor_name c) = Some c \<Longrightarrow> cv_visitors vm' (visitor_name c) = cv_visitors vm (visitor_name c)"
    and "c \<in> set cfgs \<Longrightarrow> cv_cfgs vm (visitor_name c) \<noteq> Some c \<Longrightarrow> cv_visitors vm' (visitor_name c) \<noteq> None \<longleftrightarrow> runs vm (ora c) c"
proof -
  define vm0 where "vm0 = vm\<lparr>cv_keeping := cv_keeping vm \<or> cfgs \<noteq> []\<rparr>"
  define vm1 where "vm1 = delete_old deep (KeyBy visitor_name cfgs) names vm0"
  let ?M = "map_of (map (\<lambda>c. (visitor_name c, c)) cfgs)"
  have 0: "cv_ok vm0" "cv_cfgs vm0 = cv_cfgs vm" "cv_visitors vm0 = cv_visitors vm" "cv_common vm0 = cv_common vm"
    using ok by (simp_all add: vm0_def)
  have nd: "distinct names" "set names = dom (cv_cfgs vm)" using it by (simp_all add: iter_order_def)
  note s = delete_old_spec [OF 0(1) nd(1), of deep "KeyBy visitor_name cfgs", folded vm1_def]
  have a: "add_new ora cfgs vm1 = Some vm'" using up by (simp add: VM_UpdateAll_def vm1_def vm0_def)
  note A = add_new_spec [OF s(1) a d]
  have M: "?M n = (if n \<in> visitor_name ` set cfgs then ?M n else None)" for n by (auto simp: map_of_eq_None_iff)
  have Mc: "?M (visitor_name c) = Some c" if "c \<in> set cfgs" for c using d that by (intro map_of_is_SomeI) (auto simp: comp_def)
  have df: "differs deep (KeyBy visitor_name cfgs) vm0 n \<longleftrightarrow> cv_cfgs vm n \<noteq> None \<and> cv_cfgs vm n \<noteq> ?M n" for n
    by (auto simp: differs_def 0 map_of_KeyBy [OF d] deep split: option.splits)
  have one: "cv_cfgs vm1 n = (if cv_cfgs vm n = ?M n then ?M n else None)" for n
    using s(2) [of n] nd(2) by (auto simp: df 0)
  have r1: "runs vm1 o1 c = runs vm o1 c" for o1 c using s(4) by (simp add: runs_def 0)
  have new: "cv_cfgs vm' (visitor_name c) = Some c \<and> (cv_visitors vm' (visitor_name c) \<noteq> None \<longleftrightarrow> runs vm (ora c) c)"
    if "c \<in> set cfgs" "cv_cfgs vm (visitor_name c) \<noteq> Some c" for c
    using A that one [of "visitor_name c"] Mc [OF that(1)] by (simp add: r1)
  have kept: "cv_cfgs vm' (visitor_name c) = Some c \<and> cv_visitors vm' (visitor_name c) = cv_visitors vm (visitor_name c)"
    if c: "c \<in> set cfgs" "cv_cfgs vm (visitor_name c) = Some c" for c
  proof -
    have "cv_cfgs vm1 (visitor_name c) = Some c" "cv_visitors vm1 (visitor_name c) = cv_visitors vm (visitor_name c)"
      using one [of "visitor_name c"] s(3) [of "visitor_name c"] Mc [OF c(1)] c(2) by (auto simp: df 0)
    then show ?thesis using A by simp
  qed
  show "cv_cfgs vm' = ?M"
  proof
    fix n show "cv_cfgs vm' n = ?M n"
    proof (cases "n \<in> visitor_name ` set cfgs")
      case True
      then obtain c where "c \<in> set cfgs" "n = visitor_name c" by blast
      then show ?thesis using new kept Mc by (cases "cv_cfgs vm n = Some c") auto
    next
      case False
      then have "cv_cfgs vm' n = cv_cfgs vm1 n" using A by blast
      moreover have "?M n = None" using M [of n] False by simp
      ultimately show ?thesis using one [of n] by simp
    qed
  qed
  show "c \<in> set cfgs \<Longrightarrow> cv_cfgs vm (visitor_name c) = Some c \<Longrightarrow> cv_visitors vm' (visitor_name c) = cv_visitors vm (visitor_name c)"
    using kept by blast
  show "c \<in> set cfgs \<Longrightarrow> cv_cfgs vm (visitor_name c) \<noteq> Some c \<Longrightarrow> cv_visitors vm' (visitor_name c) \<noteq> None \<longleftrightarrow> runs vm (ora c) c"
    using new by blast
qed

text \<open>
  C38. The visitor manager runs exactly what is configured. After any calls on it, an update with a new list of
  configurations makes this list the configured one, leaves visitors whose configuration has not changed
  untouched, and starts each of the others if it can run. A visitor that is open after any call belongs to
  exactly one configured name, so none is leaked; a tick of the background loop starts every missing
  visitor that can run, and closing the manager closes all.
\<close>

theorem visitors_managed:
  assumes "vm_reach (=) common vm" and "iter_order (cv_cfgs vm) names" and "distinct (map visitor_name cfgs)"
    and "VM_UpdateAll (=) ora names cfgs vm = Some vm1"
    and "iter_order (cv_cfgs vm1) names1" and "keepVisitorsRunning_tick ora1 names1 vm1 = Some vm2" and "iter_order (cv_visitors vm2) names2"
  shows "cv_cfgs vm1 = map_of (map (\<lambda>c. (visitor_name c, c)) cfgs) \<and>
    (\<forall>c \<in> set cfgs. if cv_cfgs vm (visitor_name c) = Some c then cv_visitors vm1 (visitor_name c) = cv_visitors vm (visitor_name c)
       else cv_visitors vm1 (visitor_name c) \<noteq> None \<longleftrightarrow> runs vm (ora c) c) \<and>
    (cfgs \<noteq> [] \<and> \<not> cv_stopped vm \<longrightarrow> (\<forall>c \<in> set cfgs. runs vm (ora1 c) c \<longrightarrow>
       (\<exists>a < length (cv_heap vm2). cv_visitors vm2 (visitor_name c) = Some a \<and> cv_heap vm2 ! a = \<lparr>vo_cfg = c, vo_open = True\<rparr>))) \<and>
    (\<forall>a < length (cv_heap vm2). vo_open (cv_heap vm2 ! a) \<longrightarrow>
       vo_cfg (cv_heap vm2 ! a) \<in> set cfgs \<and> cv_visitors vm2 (visitor_name (vo_cfg (cv_heap vm2 ! a))) = Some a) \<and>
    (\<forall>v \<in> set (cv_heap (VM_Close names2 vm2)). \<not> vo_open v)"
proof -
  have ok: "cv_ok vm" "cv_ok vm1" "cv_ok vm2"
    using vm_reach_ok [OF assms(1)] vm_reach_ok [OF vm_update [OF assms(1-4)]]
      vm_reach_ok [OF vm_tick [OF vm_update [OF assms(1-4)] assms(5,6)]] by simp_all
  let ?M = "map_of (map (\<lambda>c. (visitor_name c, c)) cfgs)"
  note u = update_visitors [OF ok(1) assms(2,3) refl assms(4)]
  have fr: "cv_common vm1 = cv_common vm" "cv_stopped vm1 = cv_stopped vm" "cv_keeping vm1 = (cv_keeping vm \<or> cfgs \<noteq> [])"
    using add_new_spec [OF _ assms(4) [unfolded VM_UpdateAll_def] assms(3)] delete_old_spec [of "vm\<lparr>cv_keeping := cv_keeping vm \<or> cfgs \<noteq> []\<rparr>" names]
      ok(1) assms(2) by (simp_all add: iter_order_def)
  have c2: "cv_cfgs vm2 = ?M" "cv_stopped vm2 = cv_stopped vm"
    using start_missing_spec [OF ok(2), of ora1 names1 vm2] assms(6) u(1) fr(2) by (auto simp: keepVisitorsRunning_tick_def split: if_splits)
  have Mc: "?M (visitor_name c) = Some c" if "c \<in> set cfgs" for c using assms(3) that by (intro map_of_is_SomeI) (auto simp: comp_def)
  have run2: "\<exists>a < length (cv_heap vm2). cv_visitors vm2 (visitor_name c) = Some a \<and> cv_heap vm2 ! a = \<lparr>vo_cfg = c, vo_open = True\<rparr>"
    if c: "c \<in> set cfgs" "runs vm (ora1 c) c" and live: "cfgs \<noteq> []" "\<not> cv_stopped vm" for c
  proof -
    have sm: "start_missing ora1 names1 vm1 = Some vm2" using assms(6) live by (simp add: keepVisitorsRunning_tick_def fr)
    have "visitor_name c \<in> set names1" "cv_cfgs vm1 (visitor_name c) = Some c" "runs vm1 (ora1 c) c"
      using assms(5) u(1) Mc [OF c(1)] c(2) fr(1) by (auto simp: iter_order_def runs_def dom_def)
    then have "cv_visitors vm2 (visitor_name c) \<noteq> None" using start_missing_spec [OF ok(2) sm] by simp
    then obtain a where a: "cv_visitors vm2 (visitor_name c) = Some a" by blast
    then have "vo_cfg (cv_heap vm2 ! a) = c" "vo_open (cv_heap vm2 ! a)" "a < length (cv_heap vm2)"
      using cv_okD(1-3) [OF ok(3) a] c2 live(2) Mc [OF c(1)] by auto
    then show ?thesis using a by (intro exI [of _ a]) (cases "cv_heap vm2 ! a", simp)
  qed
  have open2: "vo_cfg (cv_heap vm2 ! a) \<in> set cfgs \<and> cv_visitors vm2 (visitor_name (vo_cfg (cv_heap vm2 ! a))) = Some a"
    if "a < length (cv_heap vm2)" "vo_open (cv_heap vm2 ! a)" for a
  proof -
    have v: "cv_visitors vm2 (visitor_name (vo_cfg (cv_heap vm2 ! a))) = Some a" using cv_okD(4) [OF ok(3) that] .
    then have "?M (visitor_name (vo_cfg (cv_heap vm2 ! a))) = Some (vo_cfg (cv_heap vm2 ! a))" using cv_okD(2) [OF ok(3) v] c2(1) by simp
    then show ?thesis using v by (auto dest: map_of_SomeD)
  qed
  show ?thesis using u run2 open2 VM_Close_spec(2) [OF ok(3) assms(7)] by auto
qed

definition demo_visitor :: VisitorConfigurer where
  "demo_visitor = \<lparr>vc_base = zero_visitor_base\<lparr>vb_Name := ''v'', vb_Type := ''stcp'', vb_SecretKey := ''key'', vb_ServerName := ''ssh'', vb_BindPort := 9000\<rparr>,
     vc_details = STCP_visitor\<rparr>"

definition port_busy :: "VisitorConfigurer \<Rightarrow> run_oracle" where
  "port_busy = (\<lambda>_. \<lparr>ro_plugin = True, ro_listen = False\<rparr>)"

definition port_free :: "VisitorConfigurer \<Rightarrow> run_oracle" where
  "port_free = (\<lambda>_. \<lparr>ro_plugin = True, ro_listen = True\<rparr>)"

theorem visitors_managed_witness:
  "\<exists>vm1 vm2. VM_UpdateAll (=) port_busy [] [demo_visitor] (NewVisitorsManager demo_common) = Some vm1 \<and> cv_visitors vm1 ''v'' = None \<and>
     keepVisitorsRunning_tick port_free [''v''] vm1 = Some vm2 \<and> cv_visitors vm2 ''v'' = Some 0 \<and>
     (\<forall>v \<in> set (cv_heap (VM_Close [''v''] vm2)). \<not> vo_open v)"
proof -
  let ?vm = "NewVisitorsManager demo_common"
  define vm1 where "vm1 = ?vm\<lparr>cv_keeping := True, cv_cfgs := [''v'' \<mapsto> demo_visitor]\<rparr>"
  define vm2 where "vm2 = vm1\<lparr>cv_visitors := [''v'' \<mapsto> 0], cv_heap := [\<lparr>vo_cfg = demo_visitor, vo_open = True\<rparr>]\<rparr>"
  have n: "visitor_name demo_visitor = ''v''" by (simp add: demo_visitor_def visitor_name_def)
  have r: "Visitor_Run c (port_busy d) demo_visitor = RunErr" "Visitor_Run c (port_free d) demo_visitor = RunOk"
    "NewVisitor o1 demo_visitor" for c d o1
    by (simp_all add: Visitor_Run_def NewVisitor_def demo_visitor_def STCP_visitor_Run_def port_busy_def port_free_def zero_visitor_base_def)
  have u: "VM_UpdateAll (=) port_busy [] [demo_visitor] ?vm = Some vm1"
    by (simp add: VM_UpdateAll_def startVisitor_def r n vm1_def NewVisitorsManager_def)
  have t: "keepVisitorsRunning_tick port_free [''v''] vm1 = Some vm2"
    by (simp add: keepVisitorsRunning_tick_def startVisitor_def r n vm1_def vm2_def NewVisitorsManager_def)
  have o: "iter_order (cv_cfgs ?vm) []" "iter_order (cv_cfgs vm1) [''v'']" "iter_order (cv_visitors vm2) [''v'']"
    by (auto simp: NewVisitorsManager_def vm1_def vm2_def iter_order_def)
  have "\<forall>v \<in> set (cv_heap (VM_Close [''v''] vm2)). \<not> vo_open v"
    using visitors_managed [OF vm_new o(1) _ u o(2) t o(3)] by simp
  moreover have "cv_visitors vm1 ''v'' = None" "cv_visitors vm2 ''v'' = Some 0" by (simp_all add: vm1_def vm2_def NewVisitorsManager_def)
  ultimately show ?thesis using u t by blast
qed

text \<open>
  A negative \<open>minRetryInterval\<close> passes completion and validation, and then the ticker of the visitor's
  goroutine panics, which ends the client.
\<close>

lemma negative_interval_crashes:
  assumes "xv_KeepTunnelOpen x" "xv_MinRetryInterval x = -1" "xv_FallbackTo x = []" "xv_Protocol x = ''quic''"
    and "vc_base c = zero_visitor_base\<lparr>vb_Name := ''v'', vb_ServerName := ''s'', vb_BindPort := -1\<rparr>" "vc_details c = XTCP_visitor x"
    and "ct_WireProtocol (co_Transport (cv_common vm)) = ''v2''" "length (co_XTCPControlID (cv_common vm)) = 32"
  shows "ValidateVisitorConfigurer (Visitor_Complete c) = None \<and> startVisitor o1 (Visitor_Complete c) vm = None"
  using assms
  by (simp add: ValidateVisitorConfigurer_def Visitor_Complete_def validateVisitorBaseConfig_def validateXTCPVisitorConfig_def
      VisitorBase_Complete_def XTCPVisitor_Complete_def zero_visitor_base_def EmptyOr_def EmptyOrInt_def startVisitor_def NewVisitor_def
      Visitor_Run_def XTCP_visitor_Run_def dur_seconds_def)

section \<open>Asking the server for a connection\<close>

definition visitor_conn_msg :: "(bytes \<Rightarrow> bytes) \<Rightarrow> string \<Rightarrow> string \<Rightarrow> int \<Rightarrow> VisitorBaseConfig \<Rightarrow> NewVisitorConn" where
  "visitor_conn_msg md5 runID user now cfg =
     \<lparr>nv_RunID = runID, nv_ProxyName = BuildTargetServerProxyName user (vb_ServerUser cfg) (vb_ServerName cfg),
      nv_SignKey = GetAuthKey md5 (vb_SecretKey cfg) now, nv_Timestamp = now,
      nv_UseEncryption = vt_UseEncryption (vb_Transport cfg), nv_UseCompression = vt_UseCompression (vb_Transport cfg)\<rparr>"

datatype dial_err = DialConnect | DialSend | DialRead | DialRejected string

text \<open>
  \<open>reply\<close> is the server: \<open>None\<close> when the answer cannot be read. A connection that is not returned is closed.
\<close>

definition dialRawVisitorConn ::
    "(bytes \<Rightarrow> bytes) \<Rightarrow> string \<Rightarrow> string \<Rightarrow> int \<Rightarrow> nat option \<Rightarrow> bool \<Rightarrow> (NewVisitorConn \<Rightarrow> NewVisitorConnResp option) \<Rightarrow> VisitorBaseConfig \<Rightarrow>
     dial_err + nat" where
  "dialRawVisitorConn md5 runID user now dialled sent reply cfg =
     (case dialled of
        None \<Rightarrow> Inl DialConnect
      | Some k \<Rightarrow>
          if \<not> sent then Inl DialSend
          else (case reply (visitor_conn_msg md5 runID user now cfg) of
            None \<Rightarrow> Inl DialRead
          | Some resp \<Rightarrow> if vr_Error resp \<noteq> [] then Inl (DialRejected (vr_Error resp)) else Inr k))"

text \<open>The layers around the connection: encryption under the secret key, compression outside it.\<close>

definition wrapVisitorConn :: "bool \<Rightarrow> VisitorBaseConfig \<Rightarrow> (string option \<times> bool) option" where
  "wrapVisitorConn encOK cfg =
     (if vt_UseEncryption (vb_Transport cfg) \<and> \<not> encOK then None
      else Some (if vt_UseEncryption (vb_Transport cfg) then Some (vb_SecretKey cfg) else None, vt_UseCompression (vb_Transport cfg)))"

end
