(* ===== verification/ConfigSources.thy ===== *)
theory ConfigSources
  imports ClientConfig
begin

text \<open>
  Where a client gets its proxies and visitors from (\<open>pkg/config/source\<close>): the source filled from the
  configuration file, the store that is kept in a file of its own, and the aggregator that merges the two.

  The file system holds the store's file and its temporary file. Each system call of a save can fail, and
  the list of all file system states that a save goes through is part of its result, so that a crash
  between two calls can be described. The order of map iteration, the JSON codec and the failures are
  arguments. Cloning a configuration yields an equal value.
\<close>

section \<open>In-memory sources\<close>

record baseSource =
  bs_proxies :: "string \<rightharpoonup> ProxyConfigurer"
  bs_visitors :: "string \<rightharpoonup> VisitorConfigurer"

definition newBaseSource :: baseSource where
  "newBaseSource = \<lparr>bs_proxies = Map.empty, bs_visitors = Map.empty\<rparr>"

datatype source_err =
    NilConfigurer | EmptyName | AlreadyExists string | NotFound string | NoSources |
    ErrMarshal | ErrMkdir | ErrCreate | ErrWrite | ErrSync | ErrClose | ErrRename |
    PathRequired | ReadError | ParseError | DecodeError

definition proxy_name :: "ProxyConfigurer \<Rightarrow> string" where
  "proxy_name c = pb_Name (pc_base c)"

definition validateProxyName :: "ProxyConfigurer option \<Rightarrow> source_err + string" where
  "validateProxyName p =
     (case p of None \<Rightarrow> Inl NilConfigurer | Some c \<Rightarrow> if proxy_name c = [] then Inl EmptyName else Inr (proxy_name c))"

definition validateVisitorName :: "VisitorConfigurer option \<Rightarrow> source_err + string" where
  "validateVisitorName v =
     (case v of None \<Rightarrow> Inl NilConfigurer | Some c \<Rightarrow> if visitor_name c = [] then Inl EmptyName else Inr (visitor_name c))"

fun collect :: "('a option \<Rightarrow> source_err + string) \<Rightarrow> 'a option list \<Rightarrow> (string \<rightharpoonup> 'a) \<Rightarrow> source_err + (string \<rightharpoonup> 'a)" where
  "collect f [] m = Inr m"
| "collect f (x # xs) m = (case f x of Inl e \<Rightarrow> Inl e | Inr n \<Rightarrow> collect f xs (m(n := x)))"

definition ReplaceAll ::
    "ProxyConfigurer option list \<Rightarrow> VisitorConfigurer option list \<Rightarrow> baseSource \<Rightarrow> baseSource \<times> source_err option" where
  "ReplaceAll proxies visitors s =
     (case collect validateProxyName proxies Map.empty of
        Inl e \<Rightarrow> (s, Some e)
      | Inr ps \<Rightarrow>
          (case collect validateVisitorName visitors Map.empty of
             Inl e \<Rightarrow> (s, Some e)
           | Inr vs \<Rightarrow> (\<lparr>bs_proxies = ps, bs_visitors = vs\<rparr>, None)))"

record load_order =
  lo_proxies :: "string list"
  lo_visitors :: "string list"

definition Source_Load :: "load_order \<Rightarrow> baseSource \<Rightarrow> ProxyConfigurer list \<times> VisitorConfigurer list" where
  "Source_Load ord s =
     (filter (\<lambda>p. enabled (pb_Enabled (pc_base p))) (List.map_filter (bs_proxies s) (lo_proxies ord)),
      filter (\<lambda>v. enabled (vb_Enabled (vc_base v))) (List.map_filter (bs_visitors s) (lo_visitors ord)))"

section \<open>The aggregator\<close>

record Aggregator =
  ag_config :: baseSource
  ag_store :: "baseSource option"

definition NewAggregator :: "baseSource option \<Rightarrow> Aggregator" where
  "NewAggregator c = \<lparr>ag_config = (case c of None \<Rightarrow> newBaseSource | Some b \<Rightarrow> b), ag_store = None\<rparr>"

definition SetStoreSource :: "baseSource option \<Rightarrow> Aggregator \<Rightarrow> Aggregator" where
  "SetStoreSource s a = a\<lparr>ag_store := s\<rparr>"

definition overlay :: "('a \<Rightarrow> string) \<Rightarrow> 'a list \<Rightarrow> (string \<rightharpoonup> 'a) \<Rightarrow> (string \<rightharpoonup> 'a)" where
  "overlay nm xs m = fold (\<lambda>x m. m(nm x \<mapsto> x)) xs m"

text \<open>
  The orders are those of the two sources and of the two merged maps. Sorting by names that are all
  different has one result, so the sort may be any.
\<close>

definition sorted_values :: "('a \<Rightarrow> string) \<Rightarrow> string list \<Rightarrow> (string \<rightharpoonup> 'a) \<Rightarrow> 'a list" where
  "sorted_values nm ks m = sort_key nm (List.map_filter m ks)"

definition mapsToSortedSlices ::
    "load_order \<Rightarrow> (string \<rightharpoonup> ProxyConfigurer) \<Rightarrow> (string \<rightharpoonup> VisitorConfigurer) \<Rightarrow> ProxyConfigurer list \<times> VisitorConfigurer list" where
  "mapsToSortedSlices ord ps vs = (sorted_values proxy_name (lo_proxies ord) ps, sorted_values visitor_name (lo_visitors ord) vs)"

definition merged :: "load_order \<Rightarrow> load_order \<Rightarrow> Aggregator \<Rightarrow> (string \<rightharpoonup> ProxyConfigurer) \<times> (string \<rightharpoonup> VisitorConfigurer)" where
  "merged co so a =
     (let (p1, v1) = Source_Load co (ag_config a);
          (p2, v2) = (case ag_store a of None \<Rightarrow> ([], []) | Some s \<Rightarrow> Source_Load so s)
      in (overlay proxy_name p2 (overlay proxy_name p1 Map.empty), overlay visitor_name v2 (overlay visitor_name v1 Map.empty)))"

definition Aggregator_Load :: "load_order \<Rightarrow> load_order \<Rightarrow> load_order \<Rightarrow> Aggregator \<Rightarrow> ProxyConfigurer list \<times> VisitorConfigurer list" where
  "Aggregator_Load co so mo a = (case merged co so a of (ps, vs) \<Rightarrow> mapsToSortedSlices mo ps vs)"

section \<open>The store\<close>

record disk =
  dk_file :: "bytes option"
  dk_tmp :: "bytes option"

record save_env =
  se_proxies :: "(string \<rightharpoonup> ProxyConfigurer) \<Rightarrow> string list"
  se_visitors :: "(string \<rightharpoonup> VisitorConfigurer) \<Rightarrow> string list"
  se_mkdir :: bool
  se_open :: bool
  se_written :: "nat option"
  se_sync :: bool
  se_close :: bool
  se_rename :: bool
  se_remove :: bool

text \<open>\<open>jsonx\<close> and the decoders of single entries.\<close>

record 'r codec =
  cd_marshal :: "ProxyConfigurer list \<Rightarrow> VisitorConfigurer list \<Rightarrow> bytes option"
  cd_unmarshal :: "bytes \<Rightarrow> ('r list \<times> 'r list) option"
  cd_proxy :: "'r \<Rightarrow> ProxyConfigurer option"
  cd_visitor :: "'r \<Rightarrow> VisitorConfigurer option"

text \<open>
  The states of the file system after each call that changes it. A write that stops early has left
  \<open>n\<close> bytes; \<open>os.Remove\<close> can fail, too.
\<close>

definition saveToFileUnlocked :: "'r codec \<Rightarrow> save_env \<Rightarrow> baseSource \<Rightarrow> disk \<Rightarrow> disk list \<times> source_err option" where
  "saveToFileUnlocked cd env s d =
     (case cd_marshal cd (List.map_filter (bs_proxies s) (se_proxies env (bs_proxies s)))
           (List.map_filter (bs_visitors s) (se_visitors env (bs_visitors s))) of
        None \<Rightarrow> ([], Some ErrMarshal)
      | Some data \<Rightarrow>
          if \<not> se_mkdir env then ([], Some ErrMkdir)
          else if \<not> se_open env then ([], Some ErrCreate)
          else
            let d1 = d\<lparr>dk_tmp := Some []\<rparr>;
                remove = (\<lambda>d. if se_remove env then d\<lparr>dk_tmp := None\<rparr> else d)
            in case se_written env of
                 Some n \<Rightarrow> (let d2 = d1\<lparr>dk_tmp := Some (take n data)\<rparr> in ([d1, d2, remove d2], Some ErrWrite))
               | None \<Rightarrow>
                   let d2 = d1\<lparr>dk_tmp := Some data\<rparr>
                   in if \<not> se_sync env then ([d1, d2, remove d2], Some ErrSync)
                      else if \<not> se_close env then ([d1, d2, remove d2], Some ErrClose)
                      else if \<not> se_rename env then ([d1, d2, remove d2], Some ErrRename)
                      else ([d1, d2, d2\<lparr>dk_file := Some data, dk_tmp := None\<rparr>], None))"

text \<open>
  A store operation gives the new store, the file system states on the way and the error. The
  in-memory change is taken back when it cannot be saved.
\<close>

type_synonym store_result = "baseSource \<times> disk list \<times> source_err option"

definition persistOrRollbackUnlocked :: "'r codec \<Rightarrow> save_env \<Rightarrow> (baseSource \<Rightarrow> baseSource) \<Rightarrow> baseSource \<Rightarrow> disk \<Rightarrow> store_result" where
  "persistOrRollbackUnlocked cd env rollback s d =
     (case saveToFileUnlocked cd env s d of
        (tr, None) \<Rightarrow> (s, tr, None)
      | (tr, Some e) \<Rightarrow> (rollback s, tr, Some e))"

text \<open>\<open>get\<close> and \<open>upd\<close> select one of the two maps, as \<open>entriesFn\<close> does.\<close>

definition addStoreEntry ::
    "(baseSource \<Rightarrow> (string \<rightharpoonup> 'a)) \<Rightarrow> (((string \<rightharpoonup> 'a) \<Rightarrow> (string \<rightharpoonup> 'a)) \<Rightarrow> baseSource \<Rightarrow> baseSource) \<Rightarrow> 'r codec \<Rightarrow> save_env \<Rightarrow>
     string \<Rightarrow> 'a \<Rightarrow> baseSource \<Rightarrow> disk \<Rightarrow> store_result" where
  "addStoreEntry get upd cd env name v s d =
     (if get s name \<noteq> None then (s, [], Some (AlreadyExists name))
      else persistOrRollbackUnlocked cd env (upd (\<lambda>m. m(name := None))) (upd (\<lambda>m. m(name \<mapsto> v)) s) d)"

definition updateStoreEntry ::
    "(baseSource \<Rightarrow> (string \<rightharpoonup> 'a)) \<Rightarrow> (((string \<rightharpoonup> 'a) \<Rightarrow> (string \<rightharpoonup> 'a)) \<Rightarrow> baseSource \<Rightarrow> baseSource) \<Rightarrow> 'r codec \<Rightarrow> save_env \<Rightarrow>
     string \<Rightarrow> 'a \<Rightarrow> baseSource \<Rightarrow> disk \<Rightarrow> store_result" where
  "updateStoreEntry get upd cd env name v s d =
     (case get s name of
        None \<Rightarrow> (s, [], Some (NotFound name))
      | Some old \<Rightarrow> persistOrRollbackUnlocked cd env (upd (\<lambda>m. m(name \<mapsto> old))) (upd (\<lambda>m. m(name \<mapsto> v)) s) d)"

definition removeStoreEntry ::
    "(baseSource \<Rightarrow> (string \<rightharpoonup> 'a)) \<Rightarrow> (((string \<rightharpoonup> 'a) \<Rightarrow> (string \<rightharpoonup> 'a)) \<Rightarrow> baseSource \<Rightarrow> baseSource) \<Rightarrow> 'r codec \<Rightarrow> save_env \<Rightarrow>
     string \<Rightarrow> baseSource \<Rightarrow> disk \<Rightarrow> store_result" where
  "removeStoreEntry get upd cd env name s d =
     (if name = [] then (s, [], Some EmptyName)
      else case get s name of
        None \<Rightarrow> (s, [], Some (NotFound name))
      | Some old \<Rightarrow> persistOrRollbackUnlocked cd env (upd (\<lambda>m. m(name \<mapsto> old))) (upd (\<lambda>m. m(name := None)) s) d)"

definition AddProxy :: "'r codec \<Rightarrow> save_env \<Rightarrow> ProxyConfigurer option \<Rightarrow> baseSource \<Rightarrow> disk \<Rightarrow> store_result" where
  "AddProxy cd env p s d =
     (case validateProxyName p of
        Inl e \<Rightarrow> (s, [], Some e)
      | Inr name \<Rightarrow> addStoreEntry bs_proxies bs_proxies_update cd env name (the p) s d)"

definition UpdateProxy :: "'r codec \<Rightarrow> save_env \<Rightarrow> ProxyConfigurer option \<Rightarrow> baseSource \<Rightarrow> disk \<Rightarrow> store_result" where
  "UpdateProxy cd env p s d =
     (case validateProxyName p of
        Inl e \<Rightarrow> (s, [], Some e)
      | Inr name \<Rightarrow> updateStoreEntry bs_proxies bs_proxies_update cd env name (the p) s d)"

definition RemoveProxy :: "'r codec \<Rightarrow> save_env \<Rightarrow> string \<Rightarrow> baseSource \<Rightarrow> disk \<Rightarrow> store_result" where
  "RemoveProxy cd env name s d = removeStoreEntry bs_proxies bs_proxies_update cd env name s d"

definition AddVisitor :: "'r codec \<Rightarrow> save_env \<Rightarrow> VisitorConfigurer option \<Rightarrow> baseSource \<Rightarrow> disk \<Rightarrow> store_result" where
  "AddVisitor cd env v s d =
     (case validateVisitorName v of
        Inl e \<Rightarrow> (s, [], Some e)
      | Inr name \<Rightarrow> addStoreEntry bs_visitors bs_visitors_update cd env name (the v) s d)"

definition UpdateVisitor :: "'r codec \<Rightarrow> save_env \<Rightarrow> VisitorConfigurer option \<Rightarrow> baseSource \<Rightarrow> disk \<Rightarrow> store_result" where
  "UpdateVisitor cd env v s d =
     (case validateVisitorName v of
        Inl e \<Rightarrow> (s, [], Some e)
      | Inr name \<Rightarrow> updateStoreEntry bs_visitors bs_visitors_update cd env name (the v) s d)"

definition RemoveVisitor :: "'r codec \<Rightarrow> save_env \<Rightarrow> string \<Rightarrow> baseSource \<Rightarrow> disk \<Rightarrow> store_result" where
  "RemoveVisitor cd env name s d = removeStoreEntry bs_visitors bs_visitors_update cd env name s d"

definition GetProxy :: "string \<Rightarrow> baseSource \<Rightarrow> ProxyConfigurer option" where
  "GetProxy name s = bs_proxies s name"

definition GetVisitor :: "string \<Rightarrow> baseSource \<Rightarrow> VisitorConfigurer option" where
  "GetVisitor name s = bs_visitors s name"

definition GetAllProxies :: "string list \<Rightarrow> baseSource \<Rightarrow> ProxyConfigurer list" where
  "GetAllProxies ks s = List.map_filter (bs_proxies s) ks"

definition GetAllVisitors :: "string list \<Rightarrow> baseSource \<Rightarrow> VisitorConfigurer list" where
  "GetAllVisitors ks s = List.map_filter (bs_visitors s) ks"

fun load_entries :: "('r \<Rightarrow> 'a option) \<Rightarrow> ('a \<Rightarrow> string) \<Rightarrow> 'r list \<Rightarrow> (string \<rightharpoonup> 'a) \<Rightarrow> source_err + (string \<rightharpoonup> 'a)" where
  "load_entries dec nm [] m = Inr m"
| "load_entries dec nm (r # rs) m =
     (case dec r of
        None \<Rightarrow> Inl DecodeError
      | Some x \<Rightarrow> if nm x = [] then Inl EmptyName else load_entries dec nm rs (m(nm x \<mapsto> x)))"

definition loadFromFileUnlocked :: "'r codec \<Rightarrow> bytes \<Rightarrow> source_err + baseSource" where
  "loadFromFileUnlocked cd data =
     (case cd_unmarshal cd data of
        None \<Rightarrow> Inl ParseError
      | Some (rp, rv) \<Rightarrow>
          (case load_entries (cd_proxy cd) proxy_name rp Map.empty of
             Inl e \<Rightarrow> Inl e
           | Inr ps \<Rightarrow>
               (case load_entries (cd_visitor cd) visitor_name rv Map.empty of
                  Inl e \<Rightarrow> Inl e
                | Inr vs \<Rightarrow> Inr \<lparr>bs_proxies = ps, bs_visitors = vs\<rparr>)))"

text \<open>\<open>readable\<close> is false when reading an existing file fails. A file that does not exist is an empty store.\<close>

definition NewStoreSource :: "'r codec \<Rightarrow> string \<Rightarrow> bool \<Rightarrow> disk \<Rightarrow> source_err + baseSource" where
  "NewStoreSource cd path readable d =
     (if path = [] then Inl PathRequired
      else case dk_file d of
        None \<Rightarrow> Inr newBaseSource
      | Some data \<Rightarrow> if readable then loadFromFileUnlocked cd data else Inl ReadError)"

section \<open>What a store keeps\<close>

text \<open>
  The three changes of one of the store's maps, for any map that can be read and updated in place; the
  maps of proxies and of visitors are the two instances.
\<close>

locale entry_map =
  fixes get :: "baseSource \<Rightarrow> (string \<rightharpoonup> 'a)" and upd :: "((string \<rightharpoonup> 'a) \<Rightarrow> (string \<rightharpoonup> 'a)) \<Rightarrow> baseSource \<Rightarrow> baseSource"
  assumes get_upd: "get (upd f s) = f (get s)"
    and upd_upd: "upd f (upd g s) = upd (\<lambda>m. f (g m)) s"
    and upd_same: "f (get s) = get s \<Longrightarrow> upd f s = s"
begin

lemma persist_rollback:
  assumes "upd g (upd f s) = s"
  shows "persistOrRollbackUnlocked cd env (upd g) (upd f s) d =
    (case saveToFileUnlocked cd env (upd f s) d of (tr, e) \<Rightarrow> (if e = None then upd f s else s, tr, e))"
  by (simp add: persistOrRollbackUnlocked_def assms split: prod.split option.split)

lemma undo:
  "get s name = None \<Longrightarrow> upd (\<lambda>m. m(name := None)) (upd (\<lambda>m. m(name \<mapsto> v)) s) = s"
  "get s name = Some old \<Longrightarrow> upd (\<lambda>m. m(name \<mapsto> old)) (upd (\<lambda>m. m(name \<mapsto> v)) s) = s"
  "get s name = Some old \<Longrightarrow> upd (\<lambda>m. m(name \<mapsto> old)) (upd (\<lambda>m. m(name := None)) s) = s"
  unfolding upd_upd by (intro upd_same, auto)+

lemma add_entry:
  "addStoreEntry get upd cd env name v s d =
     (if get s name \<noteq> None then (s, [], Some (AlreadyExists name))
      else case saveToFileUnlocked cd env (upd (\<lambda>m. m(name \<mapsto> v)) s) d of
        (tr, e) \<Rightarrow> (if e = None then upd (\<lambda>m. m(name \<mapsto> v)) s else s, tr, e))"
  using persist_rollback [OF undo(1)] by (cases "get s name") (simp_all add: addStoreEntry_def)

lemma update_entry:
  "updateStoreEntry get upd cd env name v s d =
     (if get s name = None then (s, [], Some (NotFound name))
      else case saveToFileUnlocked cd env (upd (\<lambda>m. m(name \<mapsto> v)) s) d of
        (tr, e) \<Rightarrow> (if e = None then upd (\<lambda>m. m(name \<mapsto> v)) s else s, tr, e))"
  using persist_rollback [OF undo(2)] by (cases "get s name") (simp_all add: updateStoreEntry_def)

lemma remove_entry:
  "removeStoreEntry get upd cd env name s d =
     (if name = [] then (s, [], Some EmptyName)
      else if get s name = None then (s, [], Some (NotFound name))
      else case saveToFileUnlocked cd env (upd (\<lambda>m. m(name := None)) s) d of
        (tr, e) \<Rightarrow> (if e = None then upd (\<lambda>m. m(name := None)) s else s, tr, e))"
  by (cases "get s name") (simp_all add: removeStoreEntry_def persist_rollback [OF undo(3)])

end

interpretation proxy_entries: entry_map bs_proxies bs_proxies_update
  by unfold_locales (auto simp: comp_def intro: baseSource.equality)

interpretation visitor_entries: entry_map bs_visitors bs_visitors_update
  by unfold_locales (auto simp: comp_def intro: baseSource.equality)

text \<open>
  What a store holds: finitely many entries under their own non-empty names, each one that the JSON
  codec can take (\<open>okP\<close>, \<open>okV\<close>); and the codec's promise for such entries.
\<close>

definition entries_ok :: "('a \<Rightarrow> string) \<Rightarrow> ('a \<Rightarrow> bool) \<Rightarrow> (string \<rightharpoonup> 'a) \<Rightarrow> bool" where
  "entries_ok nm good m \<longleftrightarrow> finite (dom m) \<and> (\<forall>n x. m n = Some x \<longrightarrow> nm x = n \<and> n \<noteq> [] \<and> good x)"

definition store_ok :: "(ProxyConfigurer \<Rightarrow> bool) \<Rightarrow> (VisitorConfigurer \<Rightarrow> bool) \<Rightarrow> baseSource \<Rightarrow> bool" where
  "store_ok okP okV s \<longleftrightarrow> entries_ok proxy_name okP (bs_proxies s) \<and> entries_ok visitor_name okV (bs_visitors s)"

definition codec_ok :: "(ProxyConfigurer \<Rightarrow> bool) \<Rightarrow> (VisitorConfigurer \<Rightarrow> bool) \<Rightarrow> 'r codec \<Rightarrow> bool" where
  "codec_ok okP okV cd \<longleftrightarrow>
     (\<forall>ps vs data. list_all okP ps \<longrightarrow> list_all okV vs \<longrightarrow> cd_marshal cd ps vs = Some data \<longrightarrow>
        (\<exists>rp rv. cd_unmarshal cd data = Some (rp, rv) \<and> map (cd_proxy cd) rp = map Some ps \<and> map (cd_visitor cd) rv = map Some vs))"

definition orders_ok :: "save_env \<Rightarrow> bool" where
  "orders_ok env \<longleftrightarrow>
     (\<forall>m. finite (dom m) \<longrightarrow> iter_order m (se_proxies env m)) \<and> (\<forall>m. finite (dom m) \<longrightarrow> iter_order m (se_visitors env m))"

lemma overlay_skip: "n \<notin> nm ` set xs \<Longrightarrow> overlay nm xs m n = m n"
  unfolding overlay_def by (induction xs arbitrary: m) auto

lemma overlay_hit:
  assumes "distinct (map nm xs)" "x \<in> set xs"
  shows "overlay nm xs m (nm x) = Some x"
proof -
  have "overlay nm (y # ys) m = overlay nm ys (m(nm y \<mapsto> y))" for y ys m by (simp add: overlay_def)
  with assms show ?thesis by (induction xs arbitrary: m) (auto simp: overlay_skip)
qed

lemma map_filter_set: "set (List.map_filter m ks) = {x. \<exists>n \<in> set ks. m n = Some x}"
  by (induction ks) (auto simp: map_filter_simps split: option.splits)

lemma map_filter_names:
  assumes "\<And>n x. m n = Some x \<Longrightarrow> nm x = n" "set ks \<subseteq> dom m"
  shows "map nm (List.map_filter m ks) = ks"
  using assms by (induction ks) (auto simp: map_filter_simps)

lemma overlay_values:
  assumes "\<And>n x. m n = Some x \<Longrightarrow> nm x = n" "iter_order m ks"
  shows "overlay nm (List.map_filter m ks) Map.empty = m"
proof
  fix n
  have ks: "distinct ks" "set ks = dom m" using assms(2) by (simp_all add: iter_order_def)
  have f: "map nm (List.map_filter m ks) = ks" using map_filter_names assms(1) ks(2) by (metis subset_refl)
  show "overlay nm (List.map_filter m ks) Map.empty n = m n"
  proof (cases "m n")
    case None
    then have "n \<notin> nm ` set (List.map_filter m ks)" using ks assms(1) by (auto simp: map_filter_set)
    then show ?thesis using None by (simp add: overlay_skip)
  next
    case (Some x)
    then have "x \<in> set (List.map_filter m ks)" using ks by (auto simp: map_filter_set)
    then show ?thesis using overlay_hit [of nm "List.map_filter m ks" x] f ks assms(1) [OF Some] Some by simp
  qed
qed

lemma load_entries_overlay:
  assumes "map dec rs = map Some xs" "\<forall>x \<in> set xs. nm x \<noteq> []"
  shows "load_entries dec nm rs m = Inr (overlay nm xs m)"
  using assms
proof (induction rs arbitrary: xs m)
  case (Cons r rs)
  then obtain y ys where "xs = y # ys" "dec r = Some y" "map dec rs = map Some ys" by (cases xs) auto
  with Cons show ?case by (simp add: overlay_def)
qed (simp add: overlay_def)

lemma load_saved:
  assumes cd: "codec_ok okP okV cd" and s: "store_ok okP okV s" and env: "orders_ok env"
    and m: "cd_marshal cd (List.map_filter (bs_proxies s) (se_proxies env (bs_proxies s)))
      (List.map_filter (bs_visitors s) (se_visitors env (bs_visitors s))) = Some data"
  shows "loadFromFileUnlocked cd data = Inr s"
proof -
  let ?ps = "List.map_filter (bs_proxies s) (se_proxies env (bs_proxies s))"
  let ?vs = "List.map_filter (bs_visitors s) (se_visitors env (bs_visitors s))"
  have e: "entries_ok proxy_name okP (bs_proxies s)" "entries_ok visitor_name okV (bs_visitors s)" using s by (simp_all add: store_ok_def)
  have o: "iter_order (bs_proxies s) (se_proxies env (bs_proxies s))" "iter_order (bs_visitors s) (se_visitors env (bs_visitors s))"
    using e env by (simp_all add: entries_ok_def orders_ok_def)
  have p: "\<And>n x. bs_proxies s n = Some x \<Longrightarrow> proxy_name x = n" "\<And>n x. bs_visitors s n = Some x \<Longrightarrow> visitor_name x = n"
    using e by (simp_all add: entries_ok_def)
  have el: "\<forall>x \<in> set ?ps. okP x \<and> proxy_name x \<noteq> []" "\<forall>x \<in> set ?vs. okV x \<and> visitor_name x \<noteq> []"
    using e by (auto simp: entries_ok_def map_filter_set)
  then obtain rp rv where r: "cd_unmarshal cd data = Some (rp, rv)" "map (cd_proxy cd) rp = map Some ?ps" "map (cd_visitor cd) rv = map Some ?vs"
    using cd m unfolding codec_ok_def list_all_iff by meson
  show ?thesis
    using load_entries_overlay [OF r(2), of proxy_name] load_entries_overlay [OF r(3), of visitor_name] el
    by (simp add: loadFromFileUnlocked_def r(1) overlay_values [OF p(1) o(1)] overlay_values [OF p(2) o(2)])
qed

section \<open>Durability\<close>

datatype store_op =
    OpAddProxy "ProxyConfigurer option"
  | OpUpdateProxy "ProxyConfigurer option"
  | OpRemoveProxy string
  | OpAddVisitor "VisitorConfigurer option"
  | OpUpdateVisitor "VisitorConfigurer option"
  | OpRemoveVisitor string

fun store_step :: "'r codec \<Rightarrow> save_env \<Rightarrow> store_op \<Rightarrow> baseSource \<Rightarrow> disk \<Rightarrow> store_result" where
  "store_step cd env (OpAddProxy p) s d = AddProxy cd env p s d"
| "store_step cd env (OpUpdateProxy p) s d = UpdateProxy cd env p s d"
| "store_step cd env (OpRemoveProxy n) s d = RemoveProxy cd env n s d"
| "store_step cd env (OpAddVisitor v) s d = AddVisitor cd env v s d"
| "store_step cd env (OpUpdateVisitor v) s d = UpdateVisitor cd env v s d"
| "store_step cd env (OpRemoveVisitor n) s d = RemoveVisitor cd env n s d"

fun op_good :: "(ProxyConfigurer \<Rightarrow> bool) \<Rightarrow> (VisitorConfigurer \<Rightarrow> bool) \<Rightarrow> store_op \<Rightarrow> bool" where
  "op_good okP okV (OpAddProxy p) = (case p of None \<Rightarrow> True | Some c \<Rightarrow> okP c)"
| "op_good okP okV (OpUpdateProxy p) = (case p of None \<Rightarrow> True | Some c \<Rightarrow> okP c)"
| "op_good okP okV (OpAddVisitor v) = (case v of None \<Rightarrow> True | Some c \<Rightarrow> okV c)"
| "op_good okP okV (OpUpdateVisitor v) = (case v of None \<Rightarrow> True | Some c \<Rightarrow> okV c)"
| "op_good okP okV _ = True"

text \<open>What the operation asks for: the store with the change made.\<close>

fun op_effect :: "store_op \<Rightarrow> baseSource \<Rightarrow> baseSource" where
  "op_effect (OpAddProxy p) s = bs_proxies_update (\<lambda>m. m(proxy_name (the p) := p)) s"
| "op_effect (OpUpdateProxy p) s = bs_proxies_update (\<lambda>m. m(proxy_name (the p) := p)) s"
| "op_effect (OpRemoveProxy n) s = bs_proxies_update (\<lambda>m. m(n := None)) s"
| "op_effect (OpAddVisitor v) s = bs_visitors_update (\<lambda>m. m(visitor_name (the v) := v)) s"
| "op_effect (OpUpdateVisitor v) s = bs_visitors_update (\<lambda>m. m(visitor_name (the v) := v)) s"
| "op_effect (OpRemoveVisitor n) s = bs_visitors_update (\<lambda>m. m(n := None)) s"

lemmas store_defs = AddProxy_def UpdateProxy_def RemoveProxy_def AddVisitor_def UpdateVisitor_def RemoveVisitor_def
  validateProxyName_def validateVisitorName_def
lemmas entry_eqs = proxy_entries.add_entry proxy_entries.update_entry proxy_entries.remove_entry
  visitor_entries.add_entry visitor_entries.update_entry visitor_entries.remove_entry

definition check_name :: "source_err + string \<Rightarrow> bool \<Rightarrow> (string \<rightharpoonup> 'a) \<Rightarrow> source_err option" where
  "check_name v present m =
     (case v of
        Inl e \<Rightarrow> Some e
      | Inr n \<Rightarrow> if present \<and> m n = None then Some (NotFound n) else if \<not> present \<and> m n \<noteq> None then Some (AlreadyExists n) else None)"

text \<open>The errors that are found before anything is written.\<close>

fun op_error :: "store_op \<Rightarrow> baseSource \<Rightarrow> source_err option" where
  "op_error (OpAddProxy p) s = check_name (validateProxyName p) False (bs_proxies s)"
| "op_error (OpUpdateProxy p) s = check_name (validateProxyName p) True (bs_proxies s)"
| "op_error (OpRemoveProxy n) s = check_name (if n = [] then Inl EmptyName else Inr n) True (bs_proxies s)"
| "op_error (OpAddVisitor v) s = check_name (validateVisitorName v) False (bs_visitors s)"
| "op_error (OpUpdateVisitor v) s = check_name (validateVisitorName v) True (bs_visitors s)"
| "op_error (OpRemoveVisitor n) s = check_name (if n = [] then Inl EmptyName else Inr n) True (bs_visitors s)"

lemma validate_names:
  "validateProxyName p = Inr n \<longleftrightarrow> (\<exists>c. p = Some c \<and> proxy_name c = n \<and> n \<noteq> [])"
  "validateVisitorName v = Inr n \<longleftrightarrow> (\<exists>c. v = Some c \<and> visitor_name c = n \<and> n \<noteq> [])"
  by (auto simp: validateProxyName_def validateVisitorName_def split: option.splits)

lemma store_step_eq:
  "store_step cd env p s d =
     (case op_error p s of
        Some e \<Rightarrow> (s, [], Some e)
      | None \<Rightarrow> (case saveToFileUnlocked cd env (op_effect p s) d of (tr, e) \<Rightarrow> (if e = None then op_effect p s else s, tr, e)))"
proof (cases p)
  case (OpAddProxy c)
  then show ?thesis by (cases c) (simp_all add: store_defs entry_eqs check_name_def split: prod.split)
next
  case (OpUpdateProxy c)
  then show ?thesis by (cases c) (simp_all add: store_defs entry_eqs check_name_def split: prod.split)
next
  case (OpAddVisitor c)
  then show ?thesis by (cases c) (simp_all add: store_defs entry_eqs check_name_def split: prod.split)
next
  case (OpUpdateVisitor c)
  then show ?thesis by (cases c) (simp_all add: store_defs entry_eqs check_name_def split: prod.split)
qed (simp_all add: store_defs entry_eqs check_name_def split: prod.split)

lemma entries_ok_upd:
  assumes "entries_ok nm good m"
  shows "nm x \<noteq> [] \<Longrightarrow> good x \<Longrightarrow> entries_ok nm good (m(nm x \<mapsto> x))" and "entries_ok nm good (m(n := None))"
  using assms by (auto simp: entries_ok_def split: if_splits)

lemma op_effect_ok:
  assumes "store_ok okP okV s" "op_good okP okV p" "op_error p s = None"
  shows "store_ok okP okV (op_effect p s)"
proof (cases p)
  case (OpAddProxy c)
  then obtain x where "c = Some x" "proxy_name x \<noteq> []" using assms(3) by (cases "validateProxyName c") (auto simp: check_name_def validate_names)
  then show ?thesis using assms OpAddProxy by (simp add: store_ok_def entries_ok_upd)
next
  case (OpUpdateProxy c)
  then obtain x where "c = Some x" "proxy_name x \<noteq> []" using assms(3) by (cases "validateProxyName c") (auto simp: check_name_def validate_names)
  then show ?thesis using assms OpUpdateProxy by (simp add: store_ok_def entries_ok_upd)
next
  case (OpAddVisitor c)
  then obtain x where "c = Some x" "visitor_name x \<noteq> []" using assms(3) by (cases "validateVisitorName c") (auto simp: check_name_def validate_names)
  then show ?thesis using assms OpAddVisitor by (simp add: store_ok_def entries_ok_upd)
next
  case (OpUpdateVisitor c)
  then obtain x where "c = Some x" "visitor_name x \<noteq> []" using assms(3) by (cases "validateVisitorName c") (auto simp: check_name_def validate_names)
  then show ?thesis using assms OpUpdateVisitor by (simp add: store_ok_def entries_ok_upd)
qed (use assms in \<open>simp_all add: store_ok_def entries_ok_upd\<close>)

text \<open>A save leaves the old file in place until the last call, which puts the new one there.\<close>

lemma save_states:
  assumes "saveToFileUnlocked cd env s d = (tr, e)"
  shows "e \<noteq> None \<Longrightarrow> \<forall>d' \<in> set tr. dk_file d' = dk_file d"
    and "e = None \<Longrightarrow> \<exists>d1 d2 d3 data. tr = [d1, d2, d3] \<and> dk_file d1 = dk_file d \<and> dk_file d2 = dk_file d \<and> dk_file d3 = Some data \<and>
      cd_marshal cd (List.map_filter (bs_proxies s) (se_proxies env (bs_proxies s)))
        (List.map_filter (bs_visitors s) (se_visitors env (bs_visitors s))) = Some data"
  using assms by (auto simp: saveToFileUnlocked_def Let_def split: option.splits if_splits)

definition restart :: "'r codec \<Rightarrow> disk \<Rightarrow> source_err + baseSource" where
  "restart cd d = NewStoreSource cd ''store.json'' True d"

lemma restart_file: "dk_file d' = dk_file d \<Longrightarrow> restart cd d' = restart cd d"
  by (simp add: restart_def NewStoreSource_def)

lemma step_durable:
  assumes cd: "codec_ok okP okV cd" and env: "orders_ok env" and good: "op_good okP okV p"
    and s: "store_ok okP okV s" "restart cd d = Inr s" and st: "store_step cd env p s d = (s', tr, e)"
  shows "store_ok okP okV s' \<and> restart cd (last (d # tr)) = Inr s' \<and> (\<forall>d' \<in> set tr. restart cd d' = Inr s \<or> restart cd d' = Inr s') \<and>
    (if e = None then s' = op_effect p s else s' = s)"
proof (cases "op_error p s")
  case (Some x)
  then show ?thesis using s st by (auto simp: store_step_eq)
next
  case None
  then obtain sv: "saveToFileUnlocked cd env (op_effect p s) d = (tr, e)" "s' = (if e = None then op_effect p s else s)"
    using st by (auto simp: store_step_eq split: prod.splits)
  show ?thesis
  proof (cases e)
    case (Some x)
    then have "\<forall>d' \<in> set tr. restart cd d' = Inr s" using save_states(1) [OF sv(1)] restart_file s(2) by (metis option.distinct(1))
    moreover from this have "restart cd (last (d # tr)) = Inr s" using s(2) by (cases tr) auto
    ultimately show ?thesis using sv(2) s Some by simp
  next
    case None
    then obtain d1 d2 d3 data where tr: "tr = [d1, d2, d3]" "dk_file d1 = dk_file d" "dk_file d2 = dk_file d" "dk_file d3 = Some data"
      and m: "cd_marshal cd (List.map_filter (bs_proxies (op_effect p s)) (se_proxies env (bs_proxies (op_effect p s))))
        (List.map_filter (bs_visitors (op_effect p s)) (se_visitors env (bs_visitors (op_effect p s)))) = Some data"
      using save_states(2) [OF sv(1)] by blast
    have ok: "store_ok okP okV (op_effect p s)" using op_effect_ok [OF s(1) good \<open>op_error p s = None\<close>] .
    have "restart cd d3 = Inr (op_effect p s)"
      using load_saved [OF cd ok env m] tr(4) by (simp add: restart_def NewStoreSource_def)
    moreover have "restart cd d1 = Inr s" "restart cd d2 = Inr s" using restart_file tr(2,3) s(2) by metis+
    ultimately show ?thesis using sv(2) None ok tr(1) by simp
  qed
qed

text \<open>
  Runs of a client with a store: operations with any failures, and crashes in the middle of one, after
  which the store is read again from what is on disk.
\<close>

inductive st_reach :: "(ProxyConfigurer \<Rightarrow> bool) \<Rightarrow> (VisitorConfigurer \<Rightarrow> bool) \<Rightarrow> 'r codec \<Rightarrow> baseSource \<Rightarrow> disk \<Rightarrow> bool"
  for okP okV cd where
  st_start: "restart cd d = Inr s \<Longrightarrow> store_ok okP okV s \<Longrightarrow> st_reach okP okV cd s d"
| st_op: "st_reach okP okV cd s d \<Longrightarrow> orders_ok env \<Longrightarrow> op_good okP okV p \<Longrightarrow> store_step cd env p s d = (s', tr, e) \<Longrightarrow>
    st_reach okP okV cd s' (last (d # tr))"
| st_crash: "st_reach okP okV cd s d \<Longrightarrow> orders_ok env \<Longrightarrow> op_good okP okV p \<Longrightarrow> store_step cd env p s d = (s', tr, e) \<Longrightarrow>
    d' \<in> set tr \<Longrightarrow> restart cd d' = Inr s'' \<Longrightarrow> st_reach okP okV cd s'' d'"

lemma st_reach_inv:
  assumes "codec_ok okP okV cd" "st_reach okP okV cd s d"
  shows "store_ok okP okV s \<and> restart cd d = Inr s"
  using assms(2)
proof (induction rule: st_reach.induct)
  case (st_op s d env p s' tr e)
  then show ?case using step_durable [OF assms(1)] by blast
next
  case (st_crash s d env p s' tr e d' s'')
  then have "restart cd d' = Inr s \<or> restart cd d' = Inr s'" "store_ok okP okV s'" using step_durable [OF assms(1)] by blast+
  then show ?case using st_crash by auto
qed simp

text \<open>
  C39. The store survives crashes and failed writes. After any operations, failed saves and crashes, every
  operation either does what it asks and returns no error, or returns an error and changes nothing; a missing
  or doubled name is reported before anything is written. What a restart reads from disk is exactly what is in memory. At every moment during the operation the
  file holds the complete store from before or from after it.
\<close>

theorem store_durable:
  assumes "codec_ok okP okV cd" and "st_reach okP okV cd s d" and "orders_ok env" and "op_good okP okV p"
    and "store_step cd env p s d = (s', tr, e)"
  shows "(if e = None then s' = op_effect p s else s' = s) \<and> (op_error p s \<noteq> None \<longrightarrow> e = op_error p s \<and> tr = []) \<and>
    restart cd (last (d # tr)) = Inr s' \<and>
    (\<forall>d' \<in> set tr. restart cd d' = Inr s \<or> restart cd d' = Inr s')"
  using step_durable [OF assms(1,3,4) _ _ assms(5)] st_reach_inv [OF assms(1,2)] assms(5) by (auto simp: store_step_eq)

definition demo_codec :: "nat codec" where
  "demo_codec =
     \<lparr>cd_marshal = \<lambda>ps vs. Some (replicate (length ps) 1), cd_unmarshal = \<lambda>b. Some (map (\<lambda>_. 0) b, []),
      cd_proxy = \<lambda>_. Some demo_http, cd_visitor = \<lambda>_. None\<rparr>"

definition demo_save :: save_env where
  "demo_save =
     \<lparr>se_proxies = \<lambda>m. sorted_list_of_set (dom m), se_visitors = \<lambda>m. sorted_list_of_set (dom m), se_mkdir = True, se_open = True,
      se_written = None, se_sync = True, se_close = True, se_rename = True, se_remove = True\<rparr>"

lemma demo_codec_ok: "codec_ok (\<lambda>p. p = demo_http) (\<lambda>_. False) demo_codec"
proof -
  have "map (\<lambda>_. Some demo_http) (replicate (length ps) (1 :: byte)) = map Some ps" if "list_all (\<lambda>p. p = demo_http) ps" for ps
    using that by (induction ps) auto
  moreover have "vs = []" if "list_all (\<lambda>_. False) vs" for vs :: "VisitorConfigurer list" using that by (cases vs) auto
  ultimately show ?thesis by (auto simp: codec_ok_def demo_codec_def comp_def)
qed

lemma demo_save_ok: "orders_ok demo_save"
  by (simp add: orders_ok_def demo_save_def iter_order_def)

theorem store_durable_witness:
  "\<exists>s' tr. store_step demo_codec demo_save (OpAddProxy (Some demo_http)) newBaseSource \<lparr>dk_file = None, dk_tmp = None\<rparr> = (s', tr, None) \<and>
     bs_proxies s' ''web'' = Some demo_http \<and> restart demo_codec (last tr) = Inr s'"
proof -
  let ?s = newBaseSource and ?d = "\<lparr>dk_file = None, dk_tmp = None\<rparr>" and ?p = "OpAddProxy (Some demo_http)"
  have n: "proxy_name demo_http = ''web''" by (simp add: proxy_name_def demo_http_def)
  have r: "st_reach (\<lambda>p. p = demo_http) (\<lambda>_. False) demo_codec ?s ?d"
    by (rule st_start) (simp_all add: restart_def NewStoreSource_def store_ok_def entries_ok_def newBaseSource_def)
  obtain s' tr e where st: "store_step demo_codec demo_save ?p ?s ?d = (s', tr, e)" by (cases "store_step demo_codec demo_save ?p ?s ?d") auto
  have e: "e = None" and tr: "tr \<noteq> []" using st
    by (auto simp: store_step_eq check_name_def validateProxyName_def n newBaseSource_def saveToFileUnlocked_def demo_codec_def demo_save_def Let_def
        simp del: store_step.simps)
  have "op_good (\<lambda>p. p = demo_http) (\<lambda>_. False) ?p" by simp
  from store_durable [OF demo_codec_ok r demo_save_ok this st] have "s' = op_effect ?p ?s" "restart demo_codec (last tr) = Inr s'"
    using e tr by simp_all
  moreover from this(1) have "bs_proxies s' ''web'' = Some demo_http" by (simp add: n newBaseSource_def)
  ultimately show ?thesis using st e by blast
qed

section \<open>What the aggregator loads\<close>

lemma sorted_values_spec:
  assumes "\<And>n x. m n = Some x \<Longrightarrow> nm x = n" "iter_order m ks"
  shows "sorted (map nm (sorted_values nm ks m))" "distinct (map nm (sorted_values nm ks m))"
    and "set (sorted_values nm ks m) = {x. m (nm x) = Some x}"
proof -
  have ks: "distinct ks" "set ks = dom m" using assms(2) by (simp_all add: iter_order_def)
  have "map nm (List.map_filter m ks) = ks" using map_filter_names assms(1) ks(2) by (metis subset_refl)
  moreover have "mset (map nm (sorted_values nm ks m)) = mset (map nm (List.map_filter m ks))" by (simp add: sorted_values_def)
  ultimately show "distinct (map nm (sorted_values nm ks m))" using ks(1) by (metis mset_eq_imp_distinct_iff)
  show "sorted (map nm (sorted_values nm ks m))" by (simp add: sorted_values_def)
  show "set (sorted_values nm ks m) = {x. m (nm x) = Some x}" using ks assms(1) by (auto simp: sorted_values_def map_filter_set)
qed

text \<open>The entry of a name after merging: the store's if it is enabled there, else the file's if it is enabled there.\<close>

definition live_entry :: "('a \<Rightarrow> bool option) \<Rightarrow> (string \<rightharpoonup> 'a) \<Rightarrow> (string \<rightharpoonup> 'a)" where
  "live_entry en m n = (case m n of None \<Rightarrow> None | Some x \<Rightarrow> if enabled (en x) then Some x else None)"

lemma overlay_live:
  assumes "\<And>n x. m n = Some x \<Longrightarrow> nm x = n" "iter_order m ks"
  shows "overlay nm (filter (\<lambda>x. enabled (en x)) (List.map_filter m ks)) base = base ++ live_entry en m"
proof
  fix n
  let ?xs = "filter (\<lambda>x. enabled (en x)) (List.map_filter m ks)"
  have ks: "distinct ks" "set ks = dom m" using assms(2) by (simp_all add: iter_order_def)
  have "map nm (List.map_filter m ks) = ks" using map_filter_names assms(1) ks(2) by (metis subset_refl)
  then have d: "distinct (map nm ?xs)" using ks(1) by (simp add: distinct_map_filter)
  have mem: "x \<in> set ?xs \<longleftrightarrow> m (nm x) = Some x \<and> enabled (en x)" for x using ks assms(1) by (auto simp: map_filter_set)
  show "overlay nm ?xs base n = (base ++ live_entry en m) n"
  proof (cases "live_entry en m n")
    case None
    have "n \<notin> nm ` set ?xs"
    proof
      assume "n \<in> nm ` set ?xs"
      then obtain x where "x \<in> set ?xs" "n = nm x" by blast
      then show False using None mem [of x] by (simp add: live_entry_def)
    qed
    then show ?thesis using None by (simp add: overlay_skip map_add_def)
  next
    case (Some x)
    then have "m n = Some x" "enabled (en x)" by (auto simp: live_entry_def split: option.splits if_splits)
    then have "x \<in> set ?xs" "nm x = n" using mem assms(1) by auto
    then show ?thesis using overlay_hit [OF d] Some by (auto simp: map_add_def)
  qed
qed

definition named :: "baseSource \<Rightarrow> bool" where
  "named s \<longleftrightarrow> (\<forall>n p. bs_proxies s n = Some p \<longrightarrow> proxy_name p = n) \<and> (\<forall>n v. bs_visitors s n = Some v \<longrightarrow> visitor_name v = n)"

definition order_of :: "baseSource \<Rightarrow> load_order \<Rightarrow> bool" where
  "order_of s ord \<longleftrightarrow> iter_order (bs_proxies s) (lo_proxies ord) \<and> iter_order (bs_visitors s) (lo_visitors ord)"

definition live_proxies :: "baseSource \<Rightarrow> (string \<rightharpoonup> ProxyConfigurer)" where
  "live_proxies s = live_entry (\<lambda>p. pb_Enabled (pc_base p)) (bs_proxies s)"

definition live_visitors :: "baseSource \<Rightarrow> (string \<rightharpoonup> VisitorConfigurer)" where
  "live_visitors s = live_entry (\<lambda>v. vb_Enabled (vc_base v)) (bs_visitors s)"

definition store_of :: "Aggregator \<Rightarrow> baseSource" where
  "store_of a = (case ag_store a of None \<Rightarrow> newBaseSource | Some s \<Rightarrow> s)"

lemma load_overlay:
  assumes "named s" "order_of s ord"
  shows "overlay proxy_name (fst (Source_Load ord s)) base = base ++ live_proxies s"
    and "overlay visitor_name (snd (Source_Load ord s)) base' = base' ++ live_visitors s"
  using assms overlay_live [of "bs_proxies s" proxy_name "lo_proxies ord"] overlay_live [of "bs_visitors s" visitor_name "lo_visitors ord"]
  by (simp_all add: Source_Load_def named_def order_of_def live_proxies_def live_visitors_def)

lemma merged_eq:
  assumes "named (ag_config a)" "named (store_of a)" "order_of (ag_config a) co" "order_of (store_of a) so"
  shows "merged co so a = (live_proxies (ag_config a) ++ live_proxies (store_of a), live_visitors (ag_config a) ++ live_visitors (store_of a))"
proof -
  have "(case ag_store a of None \<Rightarrow> ([], []) | Some s \<Rightarrow> Source_Load so s) = Source_Load so (store_of a)"
    using assms(4) by (simp add: store_of_def order_of_def newBaseSource_def Source_Load_def map_filter_simps split: option.splits)
  then show ?thesis
    by (simp add: merged_def split_beta load_overlay [OF assms(1,3)] load_overlay [OF assms(2,4)])
qed

text \<open>
  C40. The client runs the store on top of its configuration file. Whatever order the maps are iterated in, the
  aggregator returns lists that are sorted by name without a name twice. They hold exactly the entries that the
  store has enabled and, for names that the store does not enable, the entries that the file has enabled.
\<close>

theorem aggregator_load_exact:
  assumes "named (ag_config a)" "named (store_of a)" "order_of (ag_config a) co" "order_of (store_of a) so"
    and "merged co so a = (mp, mv)" "iter_order mp (lo_proxies mo)" "iter_order mv (lo_visitors mo)"
    and "Aggregator_Load co so mo a = (ps, vs)"
  shows "sorted (map proxy_name ps) \<and> distinct (map proxy_name ps) \<and> sorted (map visitor_name vs) \<and> distinct (map visitor_name vs) \<and>
    set ps = {p. case live_proxies (store_of a) (proxy_name p) of
                   Some q \<Rightarrow> p = q | None \<Rightarrow> live_proxies (ag_config a) (proxy_name p) = Some p} \<and>
    set vs = {v. case live_visitors (store_of a) (visitor_name v) of
                   Some q \<Rightarrow> v = q | None \<Rightarrow> live_visitors (ag_config a) (visitor_name v) = Some v}"
proof -
  have m: "mp = live_proxies (ag_config a) ++ live_proxies (store_of a)" "mv = live_visitors (ag_config a) ++ live_visitors (store_of a)"
    using merged_eq [OF assms(1-4)] assms(5) by simp_all
  have n: "proxy_name x = n" if "mp n = Some x" for n x
    using that assms(1,2) by (auto simp: m map_add_def live_proxies_def live_entry_def named_def split: option.splits if_splits)
  have w: "visitor_name x = n" if "mv n = Some x" for n x
    using that assms(1,2) by (auto simp: m map_add_def live_visitors_def live_entry_def named_def split: option.splits if_splits)
  have l: "ps = sorted_values proxy_name (lo_proxies mo) mp" "vs = sorted_values visitor_name (lo_visitors mo) mv"
    using assms(5,8) by (simp_all add: Aggregator_Load_def mapsToSortedSlices_def)
  note P = sorted_values_spec [of mp proxy_name, OF n assms(6), folded l]
    and V = sorted_values_spec [of mv visitor_name, OF w assms(7), folded l]
  have "mp (proxy_name p) = Some p \<longleftrightarrow> (case live_proxies (store_of a) (proxy_name p) of
      Some q \<Rightarrow> p = q | None \<Rightarrow> live_proxies (ag_config a) (proxy_name p) = Some p)" for p
    by (auto simp: m map_add_def split: option.split)
  moreover have "mv (visitor_name v) = Some v \<longleftrightarrow> (case live_visitors (store_of a) (visitor_name v) of
      Some q \<Rightarrow> v = q | None \<Rightarrow> live_visitors (ag_config a) (visitor_name v) = Some v)" for v
    by (auto simp: m map_add_def split: option.split)
  ultimately show ?thesis using P V by auto
qed

definition demo_agg :: Aggregator where
  "demo_agg =
     \<lparr>ag_config = \<lparr>bs_proxies = [''web'' \<mapsto> demo_http], bs_visitors = Map.empty\<rparr>,
      ag_store = Some \<lparr>bs_proxies = [''web'' \<mapsto> demo_http\<lparr>pc_base := (pc_base demo_http)\<lparr>pb_Enabled := Some False\<rparr>\<rparr>], bs_visitors = Map.empty\<rparr>\<rparr>"

theorem aggregator_load_exact_witness:
  "\<exists>ps vs. Aggregator_Load \<lparr>lo_proxies = [''web''], lo_visitors = []\<rparr> \<lparr>lo_proxies = [''web''], lo_visitors = []\<rparr>
     \<lparr>lo_proxies = [''web''], lo_visitors = []\<rparr> demo_agg = (ps, vs) \<and> demo_http \<in> set ps \<and> distinct (map proxy_name ps)"
proof -
  let ?o = "\<lparr>lo_proxies = [''web''], lo_visitors = []\<rparr>"
  obtain ps vs where l: "Aggregator_Load ?o ?o ?o demo_agg = (ps, vs)" by fastforce
  have n: "proxy_name demo_http = ''web''" by (simp add: proxy_name_def demo_http_def)
  have nm: "named (ag_config demo_agg)" "named (store_of demo_agg)"
    by (auto simp: named_def store_of_def demo_agg_def proxy_name_def demo_http_def split: if_splits)
  have o: "order_of (ag_config demo_agg) ?o" "order_of (store_of demo_agg) ?o"
    by (auto simp: order_of_def store_of_def demo_agg_def iter_order_def)
  have live: "live_proxies (ag_config demo_agg) = [''web'' \<mapsto> demo_http]" "live_proxies (store_of demo_agg) = Map.empty"
    "live_visitors (ag_config demo_agg) = Map.empty" "live_visitors (store_of demo_agg) = Map.empty"
    by (auto simp: live_proxies_def live_visitors_def live_entry_def store_of_def demo_agg_def demo_http_def zero_base_def enabled_def)
  have m: "merged ?o ?o demo_agg = ([''web'' \<mapsto> demo_http], Map.empty)" using merged_eq [OF nm o] by (simp add: live)
  have "iter_order [''web'' \<mapsto> demo_http] (lo_proxies ?o)" "iter_order Map.empty (lo_visitors ?o)" by (auto simp: iter_order_def)
  from aggregator_load_exact [OF nm o m this l] have "distinct (map proxy_name ps)" "demo_http \<in> set ps" by (simp_all add: live n)
  then show ?thesis using l by blast
qed

end
