(* ===== verification/EspMemory.thy ===== *)
theory EspMemory
  imports UdpBinary
begin

text \<open>
  The memory of the firmware in C (\<open>src/src\<close>, \<open>src/include\<close>) and the two facts of its text handling that every
  codec needs. A buffer is the list of its bytes and a pointer that may be null an option. Reading or
  writing outside of a buffer is undefined behaviour; it is the result \<open>None\<close>, so that a theorem about a result
  \<open>Some\<close> says that it does not happen. A \<open>size_t\<close> is a natural number: the sources compare before they subtract.
\<close>

section \<open>Results and buffers\<close>

datatype efrp_result_t =
    EFRP_OK
  | EFRP_WOULD_BLOCK
  | EFRP_EOF
  | EFRP_INVALID_ARGUMENT
  | EFRP_PROTOCOL_ERROR
  | EFRP_CAPACITY_EXCEEDED
  | EFRP_CALLBACK_REJECTED
  | EFRP_TRUNCATED
  | EFRP_INVALID_STATE
  | EFRP_SESSION_CLOSED
  | EFRP_STREAM_RESET
  | EFRP_TIMEOUT
  | EFRP_CRYPTO_ERROR
  | EFRP_AUTHENTICATION_FAILED
  | EFRP_COUNTER_EXHAUSTED
  | EFRP_NEGOTIATION_FAILED
  | EFRP_LOGIN_REJECTED
  | EFRP_TLS_TRUST_ERROR
  | EFRP_TLS_ERROR
  | EFRP_NETWORK_ERROR
  | EFRP_TIME_UNTRUSTED
  | EFRP_CANCELLED
  | EFRP_NO_MEMORY
  | EFRP_DNS_ERROR
  | EFRP_PROXY_REJECTED
  | EFRP_WORK_REJECTED
  | EFRP_STORAGE_ERROR

text \<open>The largest payload of a frame (\<open>esp_frp_wire.h\<close>).\<close>

definition EFRP_WIRE_MAX_PAYLOAD :: nat where "EFRP_WIRE_MAX_PAYLOAD = 65536"

text \<open>\<open>memcpy(b + i, src, length)\<close> for the whole of \<open>src\<close>, and reading \<open>n\<close> bytes at \<open>b + i\<close>.\<close>

definition memcpy :: "bytes \<Rightarrow> nat \<Rightarrow> bytes \<Rightarrow> bytes option" where
  "memcpy b i src = (if i + length src \<le> length b then Some (take i b @ src @ drop (i + length src) b) else None)"

definition mem :: "bytes \<Rightarrow> nat \<Rightarrow> nat \<Rightarrow> bytes option" where
  "mem b i n = slice b i (i + n)"

lemma memcpy_at [codec]:
  "i = length pre \<Longrightarrow> length src \<le> length post \<Longrightarrow> memcpy (pre @ post) i src = Some (pre @ src @ drop (length src) post)"
  by (simp add: memcpy_def)

lemma memcpy_length: "memcpy b i src = Some b' \<Longrightarrow> length b' = length b"
  by (auto simp: memcpy_def split: if_splits)

lemma mem_Some [simp]: "i + n \<le> length b \<Longrightarrow> mem b i n = Some (take n (drop i b))"
  by (simp add: mem_def)

text \<open>Big-endian integers.\<close>

definition put_u16 :: "bytes \<Rightarrow> nat \<Rightarrow> 16 word \<Rightarrow> bytes option" where
  "put_u16 b i v = memcpy b i (PutUint16 v)"

definition get_u16 :: "bytes \<Rightarrow> nat \<Rightarrow> 16 word option" where
  "get_u16 b i = map_option Uint16 (mem b i 2)"

section \<open>UTF-8\<close>

text \<open>
  \<open>valid_utf8\<close>: the first byte of a sequence gives the number of bytes that follow and the bounds of the first of
  them. The loop is the recursion over the position.
\<close>

definition utf8_lead :: "byte \<Rightarrow> (nat \<times> byte \<times> byte) option" where
  "utf8_lead first =
     (if 0xc2 \<le> first \<and> first \<le> 0xdf then Some (1, 0x80, 0xbf)
      else if 0xe0 \<le> first \<and> first \<le> 0xef
      then Some (2, (if first = 0xe0 then 0xa0 else 0x80), (if first = 0xed then 0x9f else 0xbf))
      else if 0xf0 \<le> first \<and> first \<le> 0xf4
      then Some (3, (if first = 0xf0 then 0x90 else 0x80), (if first = 0xf4 then 0x8f else 0xbf))
      else None)"

fun utf8_continuation :: "bytes \<Rightarrow> nat \<Rightarrow> nat \<Rightarrow> bool option" where
  "utf8_continuation b i 0 = Some True"
| "utf8_continuation b i (Suc k) = do {
     x \<leftarrow> index b i;
     (if x < 0x80 \<or> 0xbf < x then Some False else utf8_continuation b (i + 1) k)}"

function utf8_loop :: "bytes \<Rightarrow> nat \<Rightarrow> nat \<Rightarrow> bool option" where
  "utf8_loop b n i =
     (if n \<le> i then Some True
      else do {
        first \<leftarrow> index b i;
        (if first < 0x80 then utf8_loop b n (i + 1)
         else (case utf8_lead first of
             None \<Rightarrow> Some False
           | Some (tail, low, high) \<Rightarrow>
               if n - (i + 1) < tail then Some False
               else do {
                 x \<leftarrow> index b (i + 1);
                 (if x < low \<or> high < x then Some False
                  else do {
                    ok \<leftarrow> utf8_continuation b (i + 2) (tail - 1);
                    (if ok then utf8_loop b n (i + 1 + tail) else Some False)})}))})"
  by pat_completeness auto
termination by (relation "measure (\<lambda>(b, n, i). n - i)") auto

declare utf8_loop.simps [simp del]

definition valid_utf8 :: "bytes \<Rightarrow> nat \<Rightarrow> bool option" where
  "valid_utf8 b n = utf8_loop b n 0"

text \<open>It is the test of the Go library.\<close>

definition from_to :: "'a list \<Rightarrow> nat \<Rightarrow> nat \<Rightarrow> 'a list" where
  "from_to b n i = take (n - i) (drop i b)"

lemma from_to_Nil: "n \<le> i \<Longrightarrow> from_to b n i = []"
  by (simp add: from_to_def)

lemma from_to_Cons: "i < n \<Longrightarrow> n \<le> length b \<Longrightarrow> from_to b n i = b ! i # from_to b n (Suc i)"
  unfolding from_to_def by (subst Cons_nth_drop_Suc [symmetric]) (simp_all add: take_Cons' Suc_diff_Suc)

lemma utf8_lead_cases:
  assumes "\<not> a < 128"
  shows "utf8_Valid (a # bs) \<longleftrightarrow> (case utf8_lead a of
      None \<Rightarrow> False
    | Some (tail, low, high) \<Rightarrow> tail \<le> length bs \<and> low \<le> bs ! 0 \<and> bs ! 0 \<le> high \<and>
        list_all cont (take (tail - 1) (drop 1 bs)) \<and> utf8_Valid (drop tail bs))"
  using assms by (auto simp: utf8_lead_def cont_def split: list.splits)

lemma utf8_continuation_eq: "i + k \<le> length b \<Longrightarrow> utf8_continuation b i k = Some (list_all cont (take k (drop i b)))"
proof (induction k arbitrary: i)
  case (Suc k)
  have "take (Suc k) (drop i b) = b ! i # take k (drop (Suc i) b)"
    using Suc.prems by (simp add: Cons_nth_drop_Suc [symmetric])
  then show ?case using Suc by (auto simp: cont_def)
qed simp

lemma utf8_loop_eq: "n \<le> length b \<Longrightarrow> utf8_loop b n i = Some (utf8_Valid (from_to b n i))"
  supply utf8_Valid.simps(2) [simp del]
proof (induction "n - i" arbitrary: i rule: less_induct)
  case less
  consider "n \<le> i" | "i < n" "b ! i < 128" | "i < n" "\<not> b ! i < 128" by linarith
  then show ?case
  proof cases
    case 1
    then show ?thesis by (simp add: utf8_loop.simps from_to_Nil)
  next
    case 2
    then show ?thesis using less by (simp add: utf8_loop.simps [of b n i] from_to_Cons utf8_Valid.simps(2))
  next
    case 3
    let ?bs = "from_to b n (Suc i)"
    have i: "index b i = Some (b ! i)" using less.prems 3 by simp
    have l: "length ?bs = n - Suc i" using less.prems by (simp add: from_to_def)
    show ?thesis
    proof (cases "utf8_lead (b ! i)")
      case None
      then show ?thesis using 3 i less.prems by (simp add: utf8_loop.simps [of b n i] from_to_Cons utf8_lead_cases)
    next
      case (Some p)
      obtain tail low high where p: "p = (tail, low, high)" by (cases p) auto
      then have pos: "0 < tail" using Some by (auto simp: utf8_lead_def split: if_splits)
      show ?thesis
      proof (cases "n - Suc i < tail")
        case True
        then show ?thesis using 3 i less.prems Some p l by (simp add: utf8_loop.simps [of b n i] from_to_Cons utf8_lead_cases)
      next
        case False
        then have b: "?bs ! 0 = b ! Suc i" "index b (Suc i) = Some (b ! Suc i)" and d: "drop tail ?bs = from_to b n (Suc i + tail)"
          and t: "take (tail - 1) (drop 1 ?bs) = take (tail - 1) (drop (i + 2) b)"
          using pos less.prems 3 by (simp_all add: from_to_def drop_take add.commute)
        have ih: "utf8_loop b n (Suc i + tail) = Some (utf8_Valid (from_to b n (Suc i + tail)))"
          using less.hyps [of "Suc i + tail"] less.prems 3 by simp
        have c: "utf8_continuation b (i + 2) (tail - 1) = Some (list_all cont (take (tail - 1) (drop (i + 2) b)))"
          using False pos less.prems by (intro utf8_continuation_eq) simp
        have v: "utf8_Valid (from_to b n i) \<longleftrightarrow> low \<le> b ! Suc i \<and> b ! Suc i \<le> high \<and>
            list_all cont (take (tail - 1) (drop (i + 2) b)) \<and> utf8_Valid (from_to b n (Suc i + tail))"
          using 3 False l b(1) less.prems unfolding from_to_Cons [OF 3(1) less.prems] utf8_lead_cases [OF 3(2)]
          by (simp only: Some p option.case prod.case d t) simp
        show ?thesis
          unfolding utf8_loop.simps [of b n i] v using 3 i b(2) ih c False Some p by (simp add: not_less [symmetric])
      qed
    qed
  qed
qed

lemma valid_utf8_eq: "n \<le> length b \<Longrightarrow> valid_utf8 b n = Some (utf8_Valid (take n b))"
  using utf8_loop_eq [of n b 0] by (simp add: valid_utf8_def from_to_def)

end
