(* ===== verification/EspUdp.thy ===== *)
theory EspUdp
  imports EspMemory
begin

text \<open>
  The binary UDP packets of the firmware (\<open>src/src/udp_codec.c\<close>, \<open>src/include/esp_frp_udp.h\<close>). The encoder fills a buffer of
  the caller through offsets, the decoder keeps pointers into its input, and the header decoder works on
  the bytes that have arrived so far. The buffer behind a pointer may be shorter than the length field
  that goes with it; such a call has undefined behaviour, \<open>None\<close>.
\<close>

section \<open>Packets\<close>

definition EFRP_UDP_MAX_PAYLOAD_SIZE :: nat where "EFRP_UDP_MAX_PAYLOAD_SIZE = 65507"

definition EFRP_UDP_MAX_ZONE_SIZE :: nat where "EFRP_UDP_MAX_ZONE_SIZE = 255"

definition EFRP_UDP_BINARY_TYPE :: "16 word" where "EFRP_UDP_BINARY_TYPE = 19"

definition EFRP_UDP_MAX_HEADER_SIZE :: nat where "EFRP_UDP_MAX_HEADER_SIZE = 555"

record efrp_udp_address_t =
  ua_family :: byte
  ua_ip :: bytes
  ua_port :: "16 word"
  ua_zone :: "bytes option"
  ua_zone_length :: nat

record efrp_udp_packet_t =
  up_has_local_address :: bool
  up_local_address :: efrp_udp_address_t
  up_remote_address :: efrp_udp_address_t
  up_payload :: "bytes option"
  up_payload_length :: nat

definition zero_address :: efrp_udp_address_t where
  "zero_address = \<lparr>ua_family = 0, ua_ip = replicate 16 0, ua_port = 0, ua_zone = None, ua_zone_length = 0\<rparr>"

definition zero_packet :: efrp_udp_packet_t where
  "zero_packet = \<lparr>up_has_local_address = False, up_local_address = zero_address, up_remote_address = zero_address,
     up_payload = None, up_payload_length = 0\<rparr>"

definition buffer :: "bytes option \<Rightarrow> bytes" where
  "buffer p = (case p of None \<Rightarrow> [] | Some b \<Rightarrow> b)"

section \<open>Encoding\<close>

definition mapped_ipv4 :: "efrp_udp_address_t \<Rightarrow> bool" where
  "mapped_ipv4 a \<longleftrightarrow> ua_family a = 6 \<and> take 12 (ua_ip a) = v4_prefix"

definition address_size :: "efrp_udp_address_t \<Rightarrow> (efrp_result_t + nat) option" where
  "address_size a =
     (let ipv4 = ua_family a = 4 \<or> mapped_ipv4 a in
      if ua_family a \<noteq> 4 \<and> ua_family a \<noteq> 6 then Some (Inl EFRP_INVALID_ARGUMENT)
      else if EFRP_UDP_MAX_ZONE_SIZE < ua_zone_length a \<or> (ua_zone a = None \<and> ua_zone_length a \<noteq> 0) \<or>
        (ipv4 \<and> ua_zone_length a \<noteq> 0) then Some (Inl EFRP_INVALID_ARGUMENT)
      else do {
        ok \<leftarrow> valid_utf8 (buffer (ua_zone a)) (ua_zone_length a);
        Some (if \<not> ok then Inl EFRP_INVALID_ARGUMENT else Inr (4 + (if ipv4 then 4 else 16) + ua_zone_length a))})"

definition put_address :: "bytes \<Rightarrow> nat \<Rightarrow> efrp_udp_address_t \<Rightarrow> (bytes \<times> nat) option" where
  "put_address out offset a = do {
     let mapped = mapped_ipv4 a;
     let ipv4 = (ua_family a = 4 \<or> mapped);
     let ip_length = (if ipv4 then 4 else 16);
     out \<leftarrow> memcpy out offset [if ipv4 then 4 else 6];
     let offset = offset + 1;
     ip \<leftarrow> mem (ua_ip a) (if mapped then 12 else 0) ip_length;
     out \<leftarrow> memcpy out offset ip;
     let offset = offset + ip_length;
     out \<leftarrow> put_u16 out offset (ua_port a);
     let offset = offset + 2;
     out \<leftarrow> memcpy out offset [word_of_nat (ua_zone_length a)];
     let offset = offset + 1;
     out \<leftarrow> (if ua_zone_length a \<noteq> 0
            then do {z \<leftarrow> mem (buffer (ua_zone a)) 0 (ua_zone_length a); memcpy out offset z} else Some out);
     Some (out, offset + ua_zone_length a)}"

definition put_packet :: "efrp_udp_packet_t \<Rightarrow> bytes \<Rightarrow> bytes option" where
  "put_packet p out = do {
     out \<leftarrow> put_u16 out 0 EFRP_UDP_BINARY_TYPE;
     out \<leftarrow> memcpy out 2 [2 OR (if up_has_local_address p then 1 else 0)];
     (out, offset) \<leftarrow> (if up_has_local_address p then put_address out 3 (up_local_address p) else Some (out, 3));
     (out, offset) \<leftarrow> put_address out offset (up_remote_address p);
     out \<leftarrow> put_u16 out offset (word_of_nat (up_payload_length p));
     (if up_payload_length p \<noteq> 0
      then do {d \<leftarrow> mem (buffer (up_payload p)) 0 (up_payload_length p); memcpy out (offset + 2) d} else Some out)}"

text \<open>The result, the output buffer afterwards, and \<open>*length\<close>. Null pointers are \<open>None\<close>; \<open>lp\<close> says whether \<open>length\<close> is given.\<close>

definition efrp_udp_packet_encode ::
    "efrp_udp_packet_t option \<Rightarrow> bytes option \<Rightarrow> nat \<Rightarrow> bool \<Rightarrow> (efrp_result_t \<times> bytes option \<times> nat) option" where
  "efrp_udp_packet_encode packet out capacity lp =
     (case (packet, out) of
        (Some p, Some b) \<Rightarrow>
          if \<not> lp \<or> (up_payload p = None \<and> up_payload_length p \<noteq> 0) then Some (EFRP_INVALID_ARGUMENT, out, 0)
          else if EFRP_UDP_MAX_PAYLOAD_SIZE < up_payload_length p then Some (EFRP_CAPACITY_EXCEEDED, out, 0)
          else do {
            r \<leftarrow> address_size (up_remote_address p);
            (case r of
               Inl e \<Rightarrow> Some (e, out, 0)
             | Inr remote_length \<Rightarrow> do {
                 l \<leftarrow> (if up_has_local_address p then address_size (up_local_address p) else Some (Inr 0));
                 (case l of
                    Inl e \<Rightarrow> Some (e, out, 0)
                  | Inr local_length \<Rightarrow>
                      let n = 5 + local_length + remote_length + up_payload_length p in
                      if EFRP_WIRE_MAX_PAYLOAD < n \<or> capacity < n then Some (EFRP_CAPACITY_EXCEEDED, out, 0)
                      else do {b' \<leftarrow> put_packet p b; Some (EFRP_OK, Some b', n)})})}
      | _ \<Rightarrow> Some (EFRP_INVALID_ARGUMENT, out, 0))"

section \<open>Decoding\<close>

text \<open>\<open>read_address\<close> returns its result, the address it has filled in and the new offset.\<close>

definition read_address :: "bytes \<Rightarrow> nat \<Rightarrow> nat \<Rightarrow> (efrp_result_t \<times> efrp_udp_address_t \<times> nat) option" where
  "read_address inp n offset =
     (let a = zero_address in
      if offset = n then Some (EFRP_TRUNCATED, a, offset)
      else do {
        f \<leftarrow> index inp offset;
        let a = a\<lparr>ua_family := f\<rparr>;
        let offset = offset + 1;
        (if f \<noteq> 4 \<and> f \<noteq> 6 then Some (EFRP_PROTOCOL_ERROR, a, offset)
         else let ip_length = (if f = 4 then 4 else 16) in
           if n - offset < ip_length + 3 then Some (EFRP_TRUNCATED, a, offset)
           else do {
             src \<leftarrow> mem inp offset ip_length;
             ip' \<leftarrow> memcpy (ua_ip a) 0 src;
             let offset = offset + ip_length;
             p \<leftarrow> get_u16 inp offset;
             let offset = offset + 2;
             z \<leftarrow> index inp offset;
             let offset = offset + 1;
             let a = a\<lparr>ua_ip := ip', ua_port := p, ua_zone_length := unat z\<rparr>;
             (if n - offset < unat z then Some (EFRP_TRUNCATED, a, offset)
              else do {
                ok \<leftarrow> (if f = 4 \<and> unat z \<noteq> 0 then Some False else valid_utf8 (drop offset inp) (unat z));
                (if \<not> ok then Some (EFRP_PROTOCOL_ERROR, a, offset)
                 else Some (EFRP_OK, (if unat z \<noteq> 0 then a\<lparr>ua_zone := Some (drop offset inp)\<rparr> else a), offset + unat z))})})})"

definition efrp_udp_packet_header_decode ::
    "bytes option \<Rightarrow> nat \<Rightarrow> nat \<Rightarrow> (efrp_result_t \<times> efrp_udp_packet_t \<times> nat) option" where
  "efrp_udp_packet_header_decode inp n frame_length =
     (let cleared = (\<lambda>e. Some (e, zero_packet, 0));
          incomplete = (if n < frame_length then EFRP_WOULD_BLOCK else EFRP_TRUNCATED);
          stop = (\<lambda>e. cleared (if e = EFRP_TRUNCATED then incomplete else e));
          b = buffer inp
      in if (inp = None \<and> n \<noteq> 0) \<or> frame_length < n then cleared EFRP_INVALID_ARGUMENT
      else if EFRP_WIRE_MAX_PAYLOAD < frame_length then cleared EFRP_CAPACITY_EXCEEDED
      else if n < 3 then cleared incomplete
      else do {
        t \<leftarrow> get_u16 b 0;
        flags \<leftarrow> index b 2;
        (if t \<noteq> EFRP_UDP_BINARY_TYPE \<or> flags AND NOT 3 \<noteq> 0 \<or> flags AND 2 = 0 then cleared EFRP_PROTOCOL_ERROR
         else let decoded = zero_packet\<lparr>up_has_local_address := flags AND 1 \<noteq> 0\<rparr> in do {
           (e, local_addr, offset) \<leftarrow> (if up_has_local_address decoded then read_address b n 3
                                   else Some (EFRP_OK, zero_address, 3));
           (if e \<noteq> EFRP_OK then stop e
            else do {
              (e, remote_addr, offset) \<leftarrow> read_address b n offset;
              (if e \<noteq> EFRP_OK then stop e
               else if n - offset < 2 then cleared incomplete
               else do {
                 len \<leftarrow> get_u16 b offset;
                 let offset = offset + 2;
                 (if EFRP_UDP_MAX_PAYLOAD_SIZE < unat len then cleared EFRP_CAPACITY_EXCEEDED
                  else if frame_length - offset < unat len then cleared EFRP_TRUNCATED
                  else if unat len < frame_length - offset then cleared EFRP_PROTOCOL_ERROR
                  else Some (EFRP_OK, decoded\<lparr>up_local_address := local_addr, up_remote_address := remote_addr,
                               up_payload_length := unat len\<rparr>, offset))})})})})"

definition efrp_udp_packet_decode :: "bytes option \<Rightarrow> nat \<Rightarrow> (efrp_result_t \<times> efrp_udp_packet_t) option" where
  "efrp_udp_packet_decode inp n = do {
     (e, packet, offset) \<leftarrow> efrp_udp_packet_header_decode inp n n;
     Some (e, if e = EFRP_OK then packet\<lparr>up_payload := Some (drop offset (buffer inp))\<rparr> else packet)}"

section \<open>Agreement with the Go decoder\<close>

text \<open>What a packet of the firmware means to the Go program.\<close>

definition go_addr :: "efrp_udp_address_t \<Rightarrow> UDPAddr" where
  "go_addr a = \<lparr>IP = take (if ua_family a = 4 then 4 else 16) (ua_ip a), Port = uint (ua_port a),
     Zone = bytes_string (take (ua_zone_length a) (buffer (ua_zone a)))\<rparr>"

definition go_packet :: "efrp_udp_packet_t \<Rightarrow> UDPPacket" where
  "go_packet p = \<lparr>Content = take (up_payload_length p) (buffer (up_payload p)),
     LocalAddr = (if up_has_local_address p then Some (go_addr (up_local_address p)) else None),
     RemoteAddr = Some (go_addr (up_remote_address p))\<rparr>"

lemma index_drop [simp]: "index (drop k b) i = index b (k + i)"
  by (auto simp: index_def)

lemma slice_drop [simp]: "k \<le> length b \<Longrightarrow> slice (drop k b) i j = slice b (k + i) (k + j)"
  by (auto simp: slice_def add.commute)

lemma buffer_Some [simp]: "buffer (Some b) = b" and buffer_None [simp]: "buffer None = []"
  by (simp_all add: buffer_def)

lemma get_u16_Some [simp]: "i + 2 \<le> length b \<Longrightarrow> get_u16 b i = Some (Uint16 (take 2 (drop i b)))"
  by (simp add: get_u16_def)

text \<open>Addresses are read at the same places with the same outcome.\<close>

definition filled :: "byte \<Rightarrow> bytes \<Rightarrow> 16 word \<Rightarrow> nat \<Rightarrow> bytes \<Rightarrow> efrp_udp_address_t" where
  "filled f ip' p z rest = \<lparr>ua_family = f, ua_ip = ip' @ replicate (16 - length ip') 0, ua_port = p,
     ua_zone = (if z = 0 then None else Some rest), ua_zone_length = z\<rparr>"

lemma read_address_parts:
  assumes b: "b = pre @ f # ip' @ pp @ z # rest" and i: "i = length pre" and f: "f = 4 \<and> length ip' = 4 \<or> f = 6 \<and> length ip' = 16"
    and p: "length pp = 2" and n: "n \<le> length b" "i + length ip' + 4 \<le> n"
  shows "\<exists>e a. read_address b n i = (if n < i + length ip' + 4 + unat z then Some (EFRP_TRUNCATED, a, i + length ip' + 4)
     else if (f = 4 \<and> z \<noteq> 0) \<or> \<not> utf8_Valid (take (unat z) rest) then Some (EFRP_PROTOCOL_ERROR, a, i + length ip' + 4)
     else Some (EFRP_OK, filled f ip' (Uint16 pp) (unat z) rest, i + length ip' + 4 + unat z))"
proof -
  let ?o = "i + length ip' + 4"
  have x: "index b i = Some f" "mem b (i + 1) (length ip') = Some ip'" "get_u16 b (i + 1 + length ip') = Some (Uint16 pp)"
    "index b (i + 1 + length ip' + 2) = Some z" "drop ?o b = rest"
    using p by (simp_all add: b i nth_append drop_Cons')
  have o: "i + 1 + length ip' + 2 + 1 = ?o" by simp
  have c: "memcpy (ua_ip zero_address) 0 ip' = Some (ip' @ replicate (16 - length ip') 0)"
    using f by (auto simp: zero_address_def memcpy_def)
  have l: "(if f = 4 then 4 else 16) = length ip'" "f = 4 \<or> f = 6" using f by auto
  have u: "n \<ge> ?o + unat z \<Longrightarrow> valid_utf8 rest (unat z) = Some (utf8_Valid (take (unat z) rest))"
    using n p by (intro valid_utf8_eq) (simp add: b i)
  have "\<not> n - Suc i < length ip' + 3" "i \<noteq> n" "(n - ?o < unat z) = (n < ?o + unat z)" using n by linarith+
  moreover have "Suc (Suc (Suc (Suc (i + length ip')))) = ?o" by simp
  ultimately show ?thesis
    using x c l u unfolding read_address_def Let_def filled_def
    by (cases "n < ?o + unat z") (auto simp: zero_address_def unat_gt_0 unat_eq_zero)
qed

lemma readBinaryUDPAddr_parts:
  assumes b: "b = pre @ f # ip' @ pp @ z # rest" and i: "i = length pre" and f: "f = 4 \<and> length ip' = 4 \<or> f = 6 \<and> length ip' = 16"
    and p: "length pp = 2"
  shows "readBinaryUDPAddr b i = Some (if length b < i + length ip' + 4 + unat z then Inl (ETruncated ''zone'')
     else if f = 4 \<and> z \<noteq> 0 then Inl EIPv4Zone
     else if \<not> utf8_Valid (take (unat z) rest) then Inl EZoneUTF8
     else Inr (\<lparr>IP = ip', Port = uint (Uint16 pp), Zone = bytes_string (take (unat z) rest)\<rparr>, i + length ip' + 4 + unat z))"
proof -
  let ?o = "i + length ip' + 4"
  have x: "index b i = Some f" "slice b (i + 1) (i + 1 + length ip') = Some ip'"
    "slice b (i + 1 + length ip') (i + 1 + length ip' + 2) = Some pp"
    "index b (i + 1 + length ip' + 2) = Some z" "drop ?o b = rest"
    using p by (simp_all add: b i nth_append drop_Cons')
  have l: "(if f = 4 then 4 else 16) = length ip'" "f = 4 \<or> f = 6" using f by auto
  have "\<not> length b - Suc i < length ip' + 3" "\<not> length b \<le> i" "(length b - ?o < unat z) = (length b < ?o + unat z)"
    using p by (simp_all add: b i)
  moreover have "Suc (Suc (Suc (Suc (i + length ip')))) = ?o" by simp
  moreover have "?o + unat z \<le> length b \<Longrightarrow> slice b ?o (?o + unat z) = Some (take (unat z) rest)" by (simp add: x(5))
  ultimately show ?thesis
    using x l unfolding readBinaryUDPAddr_def Let_def
    by (cases "length b < ?o + unat z"; cases "f = 4"; cases "z = 0") (simp_all add: unat_gt_0 unat_eq_zero)
qed

lemma address_parts:
  assumes "i + k + 4 \<le> length b"
  obtains ip' pp z rest where "b = take i b @ b ! i # ip' @ pp @ z # rest" "length ip' = k" "length pp = 2"
proof
  show "b = take i b @ b ! i # take k (drop (i + 1) b) @ take 2 (drop (i + 1 + k) b) @ b ! (i + k + 3) # drop (i + k + 4) b"
  proof -
    have "drop (i + 1) b = take k (drop (i + 1) b) @ take 2 (drop (i + 1 + k) b) @ drop (i + 3 + k) b"
      using append_take_drop_id [of k "drop (i + 1) b"] append_take_drop_id [of 2 "drop (i + 1 + k) b"] by (simp add: ac_simps eval_nat_numeral)
    moreover have "drop (i + 3 + k) b = b ! (i + k + 3) # drop (i + k + 4) b"
      using Cons_nth_drop_Suc [of "i + k + 3" b] assms by (simp add: ac_simps numeral_eq_Suc)
    ultimately show ?thesis using assms id_take_nth_drop [of i b] by simp
  qed
qed (use assms in simp_all)

lemma address_stops:
  assumes "i < length b" and "(b ! i \<noteq> 4 \<and> b ! i \<noteq> 6) \<or> length b < i + (if b ! i = 4 then 4 else 16) + 4"
  shows "\<exists>e. readBinaryUDPAddr b i = Some (Inl e)" "\<exists>e a j. read_address b (length b) i = Some (e, a, j) \<and> e \<noteq> EFRP_OK"
proof -
  have i: "index b i = Some (b ! i)" "i \<noteq> length b" using assms by simp_all
  have "b ! i = 4 \<or> b ! i = 6 \<Longrightarrow> length b - (i + 1) < (if b ! i = 4 then 4 else 16) + 3" using assms by auto
  then show "\<exists>e. readBinaryUDPAddr b i = Some (Inl e)" "\<exists>e a j. read_address b (length b) i = Some (e, a, j) \<and> e \<noteq> EFRP_OK"
    using i assms(1) unfolding readBinaryUDPAddr_def read_address_def Let_def by (simp_all del: One_nat_def)
qed

lemma read_address_go:
  assumes "2 \<le> i" "i \<le> length b"
  shows "case readBinaryUDPAddr (drop 2 b) (i - 2) of
      None \<Rightarrow> False
    | Some (Inl _) \<Rightarrow> \<exists>e a j. read_address b (length b) i = Some (e, a, j) \<and> e \<noteq> EFRP_OK
    | Some (Inr (ga, j)) \<Rightarrow> \<exists>a. read_address b (length b) i = Some (EFRP_OK, a, j + 2) \<and> go_addr a = ga \<and> j + 2 \<le> length b"
proof -
  let ?f = "b ! i"
  let ?k = "if ?f = 4 then 4 else 16 :: nat"
  have d2: "i < length b \<Longrightarrow> drop 2 b ! (i - 2) = ?f" using assms by (simp del: add_2_eq_Suc)
  consider "i = length b" | "i < length b" "?f \<noteq> 4 \<and> ?f \<noteq> 6" | "i < length b" "?f = 4 \<or> ?f = 6" "length b < i + ?k + 4"
    | "?f = 4 \<or> ?f = 6" "i + ?k + 4 \<le> length b" using assms by linarith
  then show ?thesis
  proof cases
    case 1
    then show ?thesis using assms by (simp add: readBinaryUDPAddr_def read_address_def)
  next
    case 2
    then have "drop 2 b ! (i - 2) = ?f" "i - 2 < length (drop 2 b)" using assms d2 by simp_all
    then obtain e where "readBinaryUDPAddr (drop 2 b) (i - 2) = Some (Inl e)"
      using address_stops(1) [of "i - 2" "drop 2 b"] 2 by auto
    then show ?thesis using address_stops(2) [of i b] 2 by simp
  next
    case 3
    then have "drop 2 b ! (i - 2) = ?f" "i - 2 < length (drop 2 b)" "length (drop 2 b) < i - 2 + ?k + 4" using assms d2 by simp_all
    then obtain e where "readBinaryUDPAddr (drop 2 b) (i - 2) = Some (Inl e)"
      using address_stops(1) [of "i - 2" "drop 2 b"] by metis
    then show ?thesis using address_stops(2) [of i b] 3 by simp
  next
    case 4
    obtain ip' pp z rest where b: "b = take i b @ ?f # ip' @ pp @ z # rest" and l: "length ip' = ?k" "length pp = 2"
      using address_parts [OF 4(2)] .
    have f: "?f = 4 \<and> length ip' = 4 \<or> ?f = 6 \<and> length ip' = 16" using 4(1) l by auto
    have d: "drop 2 b = drop 2 (take i b) @ ?f # ip' @ pp @ z # rest" using assms by (subst b) simp
    have c: "readBinaryUDPAddr (drop 2 b) (i - 2) = Some (if length (drop 2 b) < i - 2 + length ip' + 4 + unat z then Inl (ETruncated ''zone'')
       else if ?f = 4 \<and> z \<noteq> 0 then Inl EIPv4Zone else if \<not> utf8_Valid (take (unat z) rest) then Inl EZoneUTF8
       else Inr (\<lparr>IP = ip', Port = uint (Uint16 pp), Zone = bytes_string (take (unat z) rest)\<rparr>, i - 2 + length ip' + 4 + unat z))"
      by (rule readBinaryUDPAddr_parts [OF d _ f l(2)]) (use assms in simp)
    obtain e a where r: "read_address b (length b) i = (if length b < i + length ip' + 4 + unat z then Some (EFRP_TRUNCATED, a, i + length ip' + 4)
       else if (?f = 4 \<and> z \<noteq> 0) \<or> \<not> utf8_Valid (take (unat z) rest) then Some (EFRP_PROTOCOL_ERROR, a, i + length ip' + 4)
       else Some (EFRP_OK, filled ?f ip' (Uint16 pp) (unat z) rest, i + length ip' + 4 + unat z))"
      using read_address_parts [OF b _ f l(2)] assms 4(2) l by auto
    have "length (drop 2 b) < i - 2 + length ip' + 4 + unat z \<longleftrightarrow> length b < i + length ip' + 4 + unat z" using assms by simp linarith
    moreover have "go_addr (filled ?f ip' (Uint16 pp) (unat z) rest) =
        \<lparr>IP = ip', Port = uint (Uint16 pp), Zone = bytes_string (take (unat z) rest)\<rparr>"
      using f by (auto simp: go_addr_def filled_def)
    ultimately show ?thesis unfolding c r using assms by auto
  qed
qed

lemma read_address_cases:
  assumes "2 \<le> i" "i \<le> length b"
  obtains (bad) ge e a j where "readBinaryUDPAddr (drop 2 b) (i - 2) = Some (Inl ge)" "read_address b (length b) i = Some (e, a, j)" "e \<noteq> EFRP_OK"
  | (good) a j where "readBinaryUDPAddr (drop 2 b) (i - 2) = Some (Inr (go_addr a, j - 2))" "read_address b (length b) i = Some (EFRP_OK, a, j)"
      "2 \<le> j" "j \<le> length b"
  using read_address_go [OF assms] bad good
  by (cases "readBinaryUDPAddr (drop 2 b) (i - 2)") (fastforce split: sum.splits prod.splits)+

definition c_decoded :: "bytes \<Rightarrow> UDPPacket option" where
  "c_decoded b = (case efrp_udp_packet_decode (Some b) (length b) of Some (EFRP_OK, p) \<Rightarrow> Some (go_packet p) | _ \<Rightarrow> None)"

definition go_decoded :: "bytes \<Rightarrow> UDPPacket option" where
  "go_decoded b = (case decodeV2BinaryUDPPacketFrame \<lparr>Type = FrameTypeMessage, Flags = 0, Payload = b\<rparr> of
     Some (Inr p) \<Rightarrow> Some p | _ \<Rightarrow> None)"

definition header_good :: "bytes \<Rightarrow> bool" where
  "header_good b \<longleftrightarrow> 3 \<le> length b \<and> length b \<le> 65536 \<and> Uint16 (take 2 b) = 19 \<and> b ! 2 AND NOT 3 = 0 \<and> b ! 2 AND 2 \<noteq> 0"

lemma unat_frame_limit: "unat DefaultMaxFramePayloadSize = 65536"
  by (simp add: DefaultMaxFramePayloadSize_def)

lemma udp_flags: "NOT udpPacketValidFlags = NOT 3" "udpPacketFlagRemoteAddr = 2" "udpPacketFlagLocalAddr = 1"
  by (simp_all add: udpPacketValidFlags_def udpPacketFlagLocalAddr_def udpPacketFlagRemoteAddr_def)

lemmas c_decode_defs = efrp_udp_packet_decode_def efrp_udp_packet_header_decode_def EFRP_WIRE_MAX_PAYLOAD_def
  EFRP_UDP_BINARY_TYPE_def EFRP_UDP_MAX_PAYLOAD_SIZE_def Let_def

lemmas go_decode_defs = decodeV2BinaryUDPPacketFrame_def DecodeUDPPacketBinary_def V2TypeUDPPacketBinary_def MaxUDPPayloadSize_def
  unat_frame_limit udp_flags Let_def

lemma bad_header:
  assumes "\<not> header_good b"
  shows "c_decoded b = None" "go_decoded b = None" "efrp_udp_packet_decode (Some b) (length b) \<noteq> None"
  using assms unfolding header_good_def c_decoded_def go_decoded_def c_decode_defs go_decode_defs
  by (auto split: option.splits sum.splits)

text \<open>The rest of a packet once its addresses are known: the length of the datagram must be what is left.\<close>

definition rest_good :: "bytes \<Rightarrow> nat \<Rightarrow> bool" where
  "rest_good b j \<longleftrightarrow> j + 2 \<le> length b \<and>
     (let n = unat (Uint16 (take 2 (drop j b))) in n \<le> 65507 \<and> length b - (j + 2) = n)"

lemma good_header_c:
  assumes "header_good b"
    and "(if b ! 2 AND 1 \<noteq> 0 then read_address b (length b) 3 else Some (EFRP_OK, zero_address, 3)) = Some (e1, a1, j1)"
    and "e1 = EFRP_OK \<Longrightarrow> read_address b (length b) j1 = Some (e2, a2, j2)" and "e1 = EFRP_OK \<Longrightarrow> e2 = EFRP_OK \<Longrightarrow> j2 \<le> length b"
  shows "efrp_udp_packet_decode (Some b) (length b) \<noteq> None \<and>
    c_decoded b = (if e1 = EFRP_OK \<and> e2 = EFRP_OK \<and> rest_good b j2
      then Some \<lparr>Content = drop (j2 + 2) b, LocalAddr = (if b ! 2 AND 1 \<noteq> 0 then Some (go_addr a1) else None), RemoteAddr = Some (go_addr a2)\<rparr>
      else None)"
proof -
  let ?l = "if b ! 2 AND 1 \<noteq> 0 then read_address b (length b) 3 else Some (EFRP_OK, zero_address, 3)"
  have h: "get_u16 b 0 = Some 19" "index b 2 = Some (b ! 2)" "\<not> length b < 3" "\<not> 65536 < length b" "b ! 2 AND NOT 3 = 0" "b ! 2 AND 2 \<noteq> 0"
    using assms(1) by (simp_all add: header_good_def)
  consider "e1 \<noteq> EFRP_OK" | "e1 = EFRP_OK" "e2 \<noteq> EFRP_OK" | "e1 = EFRP_OK" "e2 = EFRP_OK" by blast
  then show ?thesis
  proof cases
    case 1
    then have "efrp_udp_packet_decode (Some b) (length b) = Some (e1, zero_packet)"
      using h assms(2) unfolding c_decode_defs by (cases "b ! 2 AND 1 = 0") simp_all
    then show ?thesis using 1 by (cases e1) (simp_all add: c_decoded_def)
  next
    case 2
    then have "efrp_udp_packet_decode (Some b) (length b) = Some (e2, zero_packet)"
      using h assms(2,3) unfolding c_decode_defs by (cases "b ! 2 AND 1 = 0") simp_all
    then show ?thesis using 2 by (cases e2) (simp_all add: c_decoded_def)
  next
    case 3
    let ?p = "\<lambda>n. zero_packet\<lparr>up_has_local_address := b ! 2 AND 1 \<noteq> 0, up_local_address := a1, up_remote_address := a2,
      up_payload_length := n, up_payload := Some (drop (j2 + 2) b)\<rparr>"
    have d: "efrp_udp_packet_decode (Some b) (length b) =
      (if length b - j2 < 2 then Some (EFRP_TRUNCATED, zero_packet)
       else do {
         len \<leftarrow> get_u16 b j2;
         (if 65507 < unat len then Some (EFRP_CAPACITY_EXCEEDED, zero_packet)
          else if length b - (j2 + 2) < unat len then Some (EFRP_TRUNCATED, zero_packet)
          else if unat len < length b - (j2 + 2) then Some (EFRP_PROTOCOL_ERROR, zero_packet)
          else Some (EFRP_OK, ?p (unat len)))})"
      using 3 h assms(2-4) unfolding c_decode_defs by (cases "b ! 2 AND 1 = 0"; cases "get_u16 b j2") simp_all
    show ?thesis
    proof (cases "length b - j2 < 2")
      case True
      then have "\<not> rest_good b j2" by (auto simp: rest_good_def)
      then show ?thesis using 3 True by (simp add: c_decoded_def d)
    next
      case False
      define w where "w = Uint16 (take 2 (drop j2 b))"
      have g: "get_u16 b j2 = Some w" and r: "rest_good b j2 \<longleftrightarrow> unat w \<le> 65507 \<and> length b - (j2 + 2) = unat w"
        using False by (auto simp: w_def rest_good_def Let_def)
      consider "65507 < unat w" | "length b - (j2 + 2) < unat w" | "unat w < length b - (j2 + 2)" | "rest_good b j2"
        unfolding r by linarith
      then show ?thesis
        using False 3 g r by cases (simp_all add: c_decoded_def d go_packet_def del: get_u16_Some)
    qed
  qed
qed

lemma good_header_go:
  assumes "header_good b" and "5 \<le> length b" and "b ! 2 AND 1 \<noteq> 0 \<Longrightarrow> readBinaryUDPAddr (drop 2 b) 1 = Some r0"
    and "r1 = (if b ! 2 AND 1 \<noteq> 0 then map_sum id (map_prod Some id) r0 else Inr (None, 1))"
    and "\<And>l j. r1 = Inr (l, j) \<Longrightarrow> readBinaryUDPAddr (drop 2 b) j = Some r2" and "\<And>a j. r2 = Inr (a, j) \<Longrightarrow> j + 2 \<le> length b"
  shows "go_decoded b = (case r1 of Inl _ \<Rightarrow> None | Inr (l, _) \<Rightarrow> (case r2 of Inl _ \<Rightarrow> None | Inr (a, j) \<Rightarrow>
      if rest_good b (j + 2) then Some \<lparr>Content = drop (j + 2 + 2) b, LocalAddr = l, RemoteAddr = Some a\<rparr> else None))"
proof -
  have h: "Uint16 (take 2 b) = 19" "index (drop 2 b) 0 = Some (b ! 2)" "\<not> length (drop 2 b) < 3" "\<not> 65536 < 2 + length (drop 2 b)"
    "b ! 2 AND NOT 3 = 0" "b ! 2 AND 2 \<noteq> 0" "\<not> length b < 2"
    using assms(1,2) by (auto simp: header_good_def)
  have d: "decodeV2BinaryUDPPacketFrame \<lparr>Type = FrameTypeMessage, Flags = 0, Payload = b\<rparr> =
    (case r1 of Inl e \<Rightarrow> Some (Inl e) | Inr (l, _) \<Rightarrow> (case r2 of Inl e \<Rightarrow> Some (Inl e) | Inr (a, j) \<Rightarrow>
      (if length (drop 2 b) - j < 2 then Some (Inl (ETruncated ''UDP payload length''))
       else do {
         n \<leftarrow> slice (drop 2 b) j (j + 2);
         (if unat (Uint16 n) > 65507 then Some (Inl (EPayloadLen (unat (Uint16 n))))
          else if length (drop 2 b) - (j + 2) < unat (Uint16 n) then Some (Inl (ETruncated ''UDP payload''))
          else if length (drop 2 b) - (j + 2) > unat (Uint16 n)
          then Some (Inl (ETrailing (length (drop 2 b) - (j + 2) - unat (Uint16 n))))
          else do {
            content \<leftarrow> slice (drop 2 b) (j + 2) (j + 2 + unat (Uint16 n));
            Some (Inr \<lparr>Content = content, LocalAddr = l, RemoteAddr = Some a\<rparr>)})})))"
    using h assms(3-5) unfolding go_decode_defs
    by (cases "b ! 2 AND 1 = 0"; cases r0; cases r2) (simp_all split: prod.splits)
  have t: "(case (if length (drop 2 b) - j < 2 then Some (Inl (ETruncated ''UDP payload length''))
       else do {
         n \<leftarrow> slice (drop 2 b) j (j + 2);
         (if unat (Uint16 n) > 65507 then Some (Inl (EPayloadLen (unat (Uint16 n))))
          else if length (drop 2 b) - (j + 2) < unat (Uint16 n) then Some (Inl (ETruncated ''UDP payload''))
          else if length (drop 2 b) - (j + 2) > unat (Uint16 n)
          then Some (Inl (ETrailing (length (drop 2 b) - (j + 2) - unat (Uint16 n))))
          else do {
            content \<leftarrow> slice (drop 2 b) (j + 2) (j + 2 + unat (Uint16 n));
            Some (Inr \<lparr>Content = content, LocalAddr = l, RemoteAddr = Some a\<rparr>)})}) of Some (Inr p) \<Rightarrow> Some p | _ \<Rightarrow> None) =
     (if rest_good b (j + 2) then Some \<lparr>Content = drop (j + 2 + 2) b, LocalAddr = l, RemoteAddr = Some a\<rparr> else None)"
    if "r2 = Inr (a, j)" for a l j
  proof (cases "length (drop 2 b) - j < 2")
    case True
    then have "\<not> rest_good b (j + 2)" by (auto simp: rest_good_def)
    then show ?thesis using True by simp
  next
    case False
    define w where "w = Uint16 (take 2 (drop (j + 2) b))"
    have n: "slice (drop 2 b) j (j + 2) = Some (take 2 (drop (j + 2) b))" using False by simp
    have l: "length (drop 2 b) - (j + 2) = length b - (j + 2 + 2)" "\<not> length b < j + 2 + 2" using False by simp_all
    have r: "rest_good b (j + 2) \<longleftrightarrow> unat w \<le> 65507 \<and> length b - (j + 2 + 2) = unat w"
      using False by (auto simp: w_def rest_good_def Let_def)
    have c: "rest_good b (j + 2) \<Longrightarrow> slice (drop 2 b) (j + 2) (j + 2 + unat w) = Some (drop (j + 2 + 2) b)"
    proof -
      assume "rest_good b (j + 2)"
      then have "unat w = length (drop (j + 2 + 2) b)" using r by simp
      then show ?thesis using l(2) unfolding slice_def by auto
    qed
    consider "65507 < unat w" | "length b - (j + 2 + 2) < unat w" | "unat w < length b - (j + 2 + 2)" | "rest_good b (j + 2)"
      unfolding r by linarith
    then show ?thesis
      unfolding l(1) n bind.simps w_def [symmetric] using False r c by cases (simp_all del: length_drop)
  qed
  consider e where "r1 = Inl e" | l j1 e where "r1 = Inr (l, j1)" "r2 = Inl e" | l j1 a j where "r1 = Inr (l, j1)" "r2 = Inr (a, j)"
    by (metis sum.exhaust surj_pair)
  then show ?thesis
  proof cases
    case 3
    show ?thesis unfolding go_decoded_def d 3 sum.case prod.case by (rule t [OF 3(2)])
  qed (simp_all add: go_decoded_def d)
qed


lemma local_outcome:
  assumes "5 \<le> length b"
  obtains r0 e1 a1 j1 where "b ! 2 AND 1 \<noteq> 0 \<longrightarrow> readBinaryUDPAddr (drop 2 b) 1 = Some r0"
    "(if b ! 2 AND 1 \<noteq> 0 then read_address b (length b) 3 else Some (EFRP_OK, zero_address, 3)) = Some (e1, a1, j1)"
    "if e1 = EFRP_OK then (if b ! 2 AND 1 \<noteq> 0 then map_sum id (map_prod Some id) r0 else Inr (None, 1)) =
        Inr (if b ! 2 AND 1 \<noteq> 0 then Some (go_addr a1) else None, j1 - 2) \<and> 2 \<le> j1 \<and> j1 \<le> length b
      else \<exists>e. (if b ! 2 AND 1 \<noteq> 0 then map_sum id (map_prod Some id) r0 else Inr (None, 1)) = Inl e"
proof (cases "b ! 2 AND 1 = 0")
  case True
  then show ?thesis using that [of "Inl EIPv4Zone" EFRP_OK zero_address 3] assms by simp
next
  case False
  have 3: "2 \<le> (3 :: nat)" "3 \<le> length b" using assms by simp_all
  show ?thesis
    using 3
  proof (cases rule: read_address_cases)
    case (bad ge e a j)
    then show ?thesis using that [of "Inl ge" e a j] False by simp
  next
    case (good a j)
    then show ?thesis using that [of "Inr (go_addr a, j - 2)" EFRP_OK a j] False by simp
  qed
qed

text \<open>
  C9. The firmware and the Go program decode the same UDP messages: on every payload of a message frame the
  decoder in C stays inside its buffer, and it accepts exactly the payloads that the Go decoder accepts,
  with the same datagram and the same addresses.
\<close>

theorem udp_decoders_agree:
  "efrp_udp_packet_decode (Some b) (length b) \<noteq> None \<and> c_decoded b = go_decoded b"
proof (cases "header_good b")
  case False
  then show ?thesis using bad_header by simp
next
  case True
  then have n: "3 \<le> length b" by (simp add: header_good_def)
  show ?thesis
  proof (cases "5 \<le> length b")
    case False
    then have "\<exists>e a j. read_address b (length b) 3 = Some (e, a, j) \<and> e \<noteq> EFRP_OK"
      using n address_stops(2) [of 3 b] by (cases "length b = 3") (simp_all add: read_address_def)
    then obtain e a j where r: "read_address b (length b) 3 = Some (e, a, j)" "e \<noteq> EFRP_OK" by blast
    have "length (drop 2 b) < 3" using False by simp
    then have "go_decoded b = None" by (simp add: go_decoded_def go_decode_defs)
    then show ?thesis
      using r good_header_c [OF True, of e a j] good_header_c [OF True, of EFRP_OK zero_address 3 e a j] by (cases "b ! 2 AND 1 = 0") auto
  next
    case n5: True
    obtain r0 e1 a1 j1 where r0: "b ! 2 AND 1 \<noteq> 0 \<longrightarrow> readBinaryUDPAddr (drop 2 b) 1 = Some r0"
      and c1: "(if b ! 2 AND 1 \<noteq> 0 then read_address b (length b) 3 else Some (EFRP_OK, zero_address, 3)) = Some (e1, a1, j1)"
      and l: "if e1 = EFRP_OK then (if b ! 2 AND 1 \<noteq> 0 then map_sum id (map_prod Some id) r0 else Inr (None, 1)) =
          Inr (if b ! 2 AND 1 \<noteq> 0 then Some (go_addr a1) else None, j1 - 2) \<and> 2 \<le> j1 \<and> j1 \<le> length b
        else \<exists>e. (if b ! 2 AND 1 \<noteq> 0 then map_sum id (map_prod Some id) r0 else Inr (None, 1)) = Inl e"
      by (rule local_outcome [OF n5])
    show ?thesis
    proof (cases "e1 = EFRP_OK")
      case False
      then show ?thesis using l good_header_c [OF True c1] good_header_go [OF True n5 r0 [rule_format] refl, of "Inl EIPv4Zone"] by auto
    next
      case ok: True
      then have j1: "2 \<le> j1" "j1 \<le> length b" using l by simp_all
      show ?thesis
        using j1
      proof (cases rule: read_address_cases)
        case (bad ge e a j)
        then show ?thesis using ok l good_header_c [OF True c1, of e a j] good_header_go [OF True n5 r0 [rule_format] refl, of "Inl ge"] by simp
      next
        case (good a j)
        then obtain k where k: "j = k + 2" using le_Suc_ex by (metis add.commute)
        show ?thesis
          using k good ok l good_header_c [OF True c1, of EFRP_OK a j] good_header_go [OF True n5 r0 [rule_format] refl, of "Inr (go_addr a, k)"]
          by simp
      qed
    qed
  qed
qed

section \<open>Agreement with the Go encoder\<close>

text \<open>A packet whose pointers have the memory that their lengths promise, and the address it is written as.\<close>

definition address_backed :: "efrp_udp_address_t \<Rightarrow> bool" where
  "address_backed a \<longleftrightarrow> length (ua_ip a) = 16 \<and> (ua_zone a = None \<or> ua_zone_length a \<le> length (buffer (ua_zone a)))"

definition packet_backed :: "efrp_udp_packet_t \<Rightarrow> bool" where
  "packet_backed p \<longleftrightarrow> address_backed (up_local_address p) \<and> address_backed (up_remote_address p) \<and>
     (up_payload p = None \<or> up_payload_length p \<le> length (buffer (up_payload p)))"

definition written_as :: "efrp_udp_address_t \<Rightarrow> binaryUDPAddr" where
  "written_as a =
     (let ipv4 = ua_family a = 4 \<or> mapped_ipv4 a
      in \<lparr>family = (if ipv4 then 4 else 6),
          ip = (if mapped_ipv4 a then drop 12 (ua_ip a) else take (if ipv4 then 4 else 16) (ua_ip a)), port = ua_port a,
          zone = bytes_string (take (ua_zone_length a) (buffer (ua_zone a)))\<rparr>)"

lemma To4_go:
  assumes "length (ua_ip a) = 16" "ua_family a = 4 \<or> ua_family a = 6"
  shows "To4 (IP (go_addr a)) = (if ua_family a = 4 \<or> mapped_ipv4 a then Some (ip (written_as a)) else None)"
    "To16 (IP (go_addr a)) \<noteq> None" "\<not> (ua_family a = 4 \<or> mapped_ipv4 a) \<Longrightarrow> To16 (IP (go_addr a)) = Some (ip (written_as a))"
  using assms by (auto simp: To4_def To16_def go_addr_def written_as_def mapped_ipv4_def Let_def)

lemma port_word [simp]: "word_of_int (uint (p :: 16 word)) = p" "\<not> uint (p :: 16 word) < 0" "\<not> 65535 < uint (p :: 16 word)"
  using uint_lt2p [of p] by simp_all

lemma address_size_go:
  assumes "address_backed a" "ua_zone a = None \<Longrightarrow> ua_zone_length a = 0" "ua_family a = 4 \<or> ua_family a = 6"
  shows "\<exists>r. address_size a = Some r \<and> (case r of
      Inl e \<Rightarrow> e \<noteq> EFRP_OK \<and> isl (validateBinaryUDPAddr (go_addr a))
    | Inr n \<Rightarrow> validateBinaryUDPAddr (go_addr a) = Inr (written_as a) \<and> n = binaryUDPAddrLen (written_as a))"
proof -
  let ?z = "ua_zone_length a" and ?zone = "take (ua_zone_length a) (buffer (ua_zone a))"
  let ?v4 = "ua_family a = 4 \<or> mapped_ipv4 a"
  have l: "length (ua_ip a) = 16" "?z \<le> length (buffer (ua_zone a))"
    using assms(1,2) by (auto simp: address_backed_def)
  have z: "Zone (go_addr a) = bytes_string ?zone" "length ?zone = ?z" "Port (go_addr a) = uint (ua_port a)" using l by (simp_all add: go_addr_def)
  have zn: "Zone (go_addr a) \<noteq> [] \<longleftrightarrow> ?z \<noteq> 0" using z by (metis length_bytes_string length_greater_0_conv neq0_conv)
  have u: "valid_utf8 (buffer (ua_zone a)) ?z = Some (utf8_ValidString (Zone (go_addr a)))" using valid_utf8_eq [OF l(2)] z by simp
  note t = To4_go [OF l(1) assms(3)]
  have iplen: "length (ip (written_as a)) = (if ?v4 then 4 else 16)" using l by (auto simp: written_as_def Let_def)
  have n: "binaryUDPAddrLen (written_as a) = 4 + (if ?v4 then 4 else 16) + ?z"
    using iplen l by (simp add: binaryUDPAddrLen_def written_as_def Let_def)
  have zw: "zone (written_as a) = Zone (go_addr a)" "port (written_as a) = ua_port a" "family (written_as a) = (if ?v4 then 4 else 6)"
    using z by (simp_all add: written_as_def Let_def)
  show ?thesis
  proof (cases ?v4)
    case True
    have "validateBinaryUDPAddr (go_addr a) = (if ?z \<noteq> 0 then Inl EIPv4Zone else Inr (written_as a))"
      using True t zn zw z by (simp add: validateBinaryUDPAddr_def)
    moreover have "address_size a = Some (if ?z \<noteq> 0 then Inl EFRP_INVALID_ARGUMENT else Inr (binaryUDPAddrLen (written_as a)))"
      using True assms(3) u zn n by (auto simp: address_size_def Let_def)
    ultimately show ?thesis by simp
  next
    case False
    have "validateBinaryUDPAddr (go_addr a) = (if 255 < ?z then Inl EZoneLen
        else if \<not> utf8_ValidString (Zone (go_addr a)) then Inl EZoneUTF8 else Inr (written_as a))"
      using False t zw z by (simp add: validateBinaryUDPAddr_def)
    moreover have "address_size a = Some (if 255 < ?z \<or> \<not> utf8_ValidString (Zone (go_addr a)) then Inl EFRP_INVALID_ARGUMENT
        else Inr (binaryUDPAddrLen (written_as a)))"
      using False assms(2,3) u n by (cases "ua_zone a") (auto simp: address_size_def Let_def EFRP_UDP_MAX_ZONE_SIZE_def)
    ultimately show ?thesis by simp
  qed
qed

lemma memcpy_next: "i = length pre \<Longrightarrow> length src \<le> length post \<Longrightarrow> memcpy (pre @ post) i src = Some ((pre @ src) @ drop (length src) post)"
  by (simp add: memcpy_def)

lemma put_address_at:
  assumes "length (ua_ip a) = 16" "ua_family a = 4 \<or> ua_family a = 6" "ua_zone_length a \<le> length (buffer (ua_zone a))"
    and "binaryUDPAddrLen (written_as a) \<le> length post"
  shows "put_address (pre @ post) (length pre) a =
    Some ((pre @ addr_bytes (written_as a)) @ drop (binaryUDPAddrLen (written_as a)) post, length pre + binaryUDPAddrLen (written_as a))"
proof -
  let ?m = "mapped_ipv4 a" and ?z = "ua_zone_length a" and ?zone = "take (ua_zone_length a) (buffer (ua_zone a))"
  let ?v4 = "ua_family a = 4 \<or> ?m"
  let ?k = "if ?v4 then 4 else 16 :: nat"
  define ip' where "ip' = take ?k (drop (if ?m then 12 else 0) (ua_ip a))"
  define f :: byte where "f = (if ?v4 then 4 else 6)"
  have ip: "mem (ua_ip a) (if ?m then 12 else 0) ?k = Some ip'" "length ip' = ?k" using assms(1) by (auto simp: ip'_def)
  have w: "addr_bytes (written_as a) = [f] @ ip' @ PutUint16 (ua_port a) @ [word_of_nat ?z] @ ?zone"
    "binaryUDPAddrLen (written_as a) = 1 + length ip' + 2 + 1 + ?z"
    using assms(1,3) by (auto simp: addr_bytes_def binaryUDPAddrLen_def written_as_def Let_def f_def ip'_def min_def)
  have l: "1 + length ip' + 2 + 1 + ?z \<le> length post" using assms(4) unfolding w(2) .
  have s1: "memcpy (pre @ post) (length pre) [f] = Some ((pre @ [f]) @ drop 1 post)" using l by (intro memcpy_next [THEN trans]) simp_all
  have s2: "memcpy ((pre @ [f]) @ drop 1 post) (length pre + 1) ip' = Some ((pre @ [f] @ ip') @ drop (1 + length ip') post)"
    using l by (subst memcpy_next) simp_all
  have s3: "put_u16 ((pre @ [f] @ ip') @ drop (1 + length ip') post) (length pre + 1 + ?k) (ua_port a) =
      Some ((pre @ [f] @ ip' @ PutUint16 (ua_port a)) @ drop (1 + length ip' + 2) post)"
    unfolding put_u16_def using l ip(2) by (subst memcpy_next) (simp_all add: ac_simps)
  have s4: "memcpy ((pre @ [f] @ ip' @ PutUint16 (ua_port a)) @ drop (1 + length ip' + 2) post) (length pre + 1 + ?k + 2) [word_of_nat ?z] =
      Some ((pre @ [f] @ ip' @ PutUint16 (ua_port a) @ [word_of_nat ?z]) @ drop (1 + length ip' + 2 + 1) post)"
    using l ip(2) by (subst memcpy_next) (simp_all add: ac_simps)
  have s5: "memcpy ((pre @ [f] @ ip' @ PutUint16 (ua_port a) @ [word_of_nat ?z]) @ drop (1 + length ip' + 2 + 1) post) (length pre + 1 + ?k + 2 + 1) ?zone =
      Some ((pre @ addr_bytes (written_as a)) @ drop (binaryUDPAddrLen (written_as a)) post)"
    unfolding w using l ip(2) assms(3) by (subst memcpy_next) (simp_all add: ac_simps)
  have z0: "?z = 0 \<Longrightarrow> (pre @ [f] @ ip' @ PutUint16 (ua_port a) @ [word_of_nat ?z]) @ drop (1 + length ip' + 2 + 1) post =
      (pre @ addr_bytes (written_as a)) @ drop (binaryUDPAddrLen (written_as a)) post"
    unfolding w by simp
  have z: "mem (buffer (ua_zone a)) 0 ?z = Some ?zone" using assms(3) by simp
  show ?thesis
    unfolding put_address_def Let_def f_def [symmetric] s1 ip(1) bind.simps s2 s3 s4 z
    using s5 z0 ip(2) by (cases "?z = 0") (simp_all add: w(2) del: append_assoc)
qed

text \<open>The contract of the encoder's callers: known address families, and pointers that match their lengths.\<close>

definition address_wf :: "efrp_udp_address_t \<Rightarrow> bool" where
  "address_wf a \<longleftrightarrow> address_backed a \<and> (ua_zone a = None \<longrightarrow> ua_zone_length a = 0) \<and> (ua_family a = 4 \<or> ua_family a = 6)"

definition packet_wf :: "efrp_udp_packet_t \<Rightarrow> bool" where
  "packet_wf p \<longleftrightarrow> (up_has_local_address p \<longrightarrow> address_wf (up_local_address p)) \<and> address_wf (up_remote_address p) \<and>
     up_payload_length p \<le> length (buffer (up_payload p))"

lemma address_wf_put:
  assumes "address_wf a" "binaryUDPAddrLen (written_as a) \<le> length post" "i = length pre"
  shows "put_address (pre @ post) i a =
    Some ((pre @ addr_bytes (written_as a)) @ drop (binaryUDPAddrLen (written_as a)) post, i + binaryUDPAddrLen (written_as a))"
  using assms put_address_at [of a post pre] by (auto simp: address_wf_def address_backed_def)

definition written_local :: "efrp_udp_packet_t \<Rightarrow> binaryUDPAddr option" where
  "written_local p = (if up_has_local_address p then Some (written_as (up_local_address p)) else None)"

abbreviation content :: "efrp_udp_packet_t \<Rightarrow> bytes" where
  "content p \<equiv> take (up_payload_length p) (buffer (up_payload p))"

lemma put_packet_eq:
  assumes "packet_wf p" and "2 + length (body_bytes (written_local p) (written_as (up_remote_address p)) (content p)) \<le> length out"
  shows "put_packet p out = Some (PutUint16 19 @ body_bytes (written_local p) (written_as (up_remote_address p)) (content p) @
    drop (2 + length (body_bytes (written_local p) (written_as (up_remote_address p)) (content p))) out)"
proof -
  let ?w = "\<lambda>l. binaryUDPAddrLen l" and ?r = "written_as (up_remote_address p)" and ?n = "up_payload_length p"
  define fl where "fl = (2 :: byte) OR (if up_has_local_address p then 1 else 0)"
  define L where "L = (case written_local p of None \<Rightarrow> [] | Some a \<Rightarrow> addr_bytes a)"
  have r: "address_wf (up_remote_address p)" and lw: "up_has_local_address p \<Longrightarrow> address_wf (up_local_address p)" and c: "length (content p) = ?n"
    using assms(1) by (auto simp: packet_wf_def)
  have b: "body_bytes (written_local p) ?r (content p) = [fl] @ L @ addr_bytes ?r @ PutUint16 (word_of_nat ?n) @ content p"
    using c by (simp add: body_bytes_def L_def fl_def written_local_def udp_flags or.commute)
  have n: "3 + length L + ?w ?r + 2 + ?n \<le> length out" using assms(2) c unfolding b by simp
  have t: "2 + length (body_bytes (written_local p) ?r (content p)) = 3 + length L + ?w ?r + 2 + ?n" unfolding b using c by simp
  have s1: "put_u16 out 0 EFRP_UDP_BINARY_TYPE = Some (PutUint16 19 @ drop 2 out)"
    using n by (simp add: put_u16_def memcpy_def EFRP_UDP_BINARY_TYPE_def numeral_2_eq_2)
  have s2: "memcpy (PutUint16 19 @ drop 2 out) 2 [fl] = Some ((PutUint16 19 @ [fl]) @ drop 3 out)"
    using n by (subst memcpy_next) (simp_all add: numeral_3_eq_3 numeral_2_eq_2)
  have s3: "(if up_has_local_address p then put_address ((PutUint16 19 @ [fl]) @ drop 3 out) 3 (up_local_address p)
      else Some ((PutUint16 19 @ [fl]) @ drop 3 out, 3)) = Some ((PutUint16 19 @ [fl] @ L) @ drop (3 + length L) out, 3 + length L)"
  proof (cases "up_has_local_address p")
    case True
    have "put_address ((PutUint16 19 @ [fl]) @ drop 3 out) 3 (up_local_address p) =
        Some (((PutUint16 19 @ [fl]) @ L) @ drop (length L) (drop 3 out), 3 + length L)"
      using True n by (subst address_wf_put [OF lw]) (simp_all add: L_def written_local_def)
    then show ?thesis using True by (simp add: add.commute)
  next
    case False
    then show ?thesis by (simp add: L_def written_local_def)
  qed
  have s4: "put_address ((PutUint16 19 @ [fl] @ L) @ drop (3 + length L) out) (3 + length L) (up_remote_address p) =
      Some ((PutUint16 19 @ [fl] @ L @ addr_bytes ?r) @ drop (3 + length L + ?w ?r) out, 3 + length L + ?w ?r)"
    using n by (subst address_wf_put [OF r]) (simp_all add: ac_simps)
  have s5: "put_u16 ((PutUint16 19 @ [fl] @ L @ addr_bytes ?r) @ drop (3 + length L + ?w ?r) out) (3 + length L + ?w ?r) (word_of_nat ?n) =
      Some ((PutUint16 19 @ [fl] @ L @ addr_bytes ?r @ PutUint16 (word_of_nat ?n)) @ drop (3 + length L + ?w ?r + 2) out)"
    unfolding put_u16_def using n by (subst memcpy_next) (simp_all add: ac_simps)
  have s6: "memcpy ((PutUint16 19 @ [fl] @ L @ addr_bytes ?r @ PutUint16 (word_of_nat ?n)) @ drop (3 + length L + ?w ?r + 2) out)
      (3 + length L + ?w ?r + 2) (content p) =
      Some ((PutUint16 19 @ [fl] @ L @ addr_bytes ?r @ PutUint16 (word_of_nat ?n) @ content p) @ drop (3 + length L + ?w ?r + 2 + ?n) out)"
    using n c by (subst memcpy_next) (simp_all add: ac_simps)
  have m: "mem (buffer (up_payload p)) 0 ?n = Some (content p)" using assms(1) by (simp add: packet_wf_def)
  show ?thesis
    unfolding put_packet_def fl_def [symmetric] s1 bind.simps s2 s3 prod.case s4 s5 m t unfolding b
    using s6 c by (cases "?n = 0") simp_all
qed

lemma local_size_go:
  assumes "up_has_local_address p \<Longrightarrow> address_wf (up_local_address p)"
  shows "\<exists>y. (if up_has_local_address p then address_size (up_local_address p) else Some (Inr 0)) = Some y \<and> (case y of
      Inl e \<Rightarrow> e \<noteq> EFRP_OK \<and> isl (validateLocal (go_packet p))
    | Inr n \<Rightarrow> validateLocal (go_packet p) = Inr (written_local p) \<and> n = (case written_local p of None \<Rightarrow> 0 | Some a \<Rightarrow> binaryUDPAddrLen a))"
proof (cases "up_has_local_address p")
  case False
  then show ?thesis by (simp add: validateLocal_def go_packet_def written_local_def)
next
  case True
  let ?a = "up_local_address p"
  obtain r where "address_size ?a = Some r" and "case r of
      Inl e \<Rightarrow> e \<noteq> EFRP_OK \<and> isl (validateBinaryUDPAddr (go_addr ?a))
    | Inr n \<Rightarrow> validateBinaryUDPAddr (go_addr ?a) = Inr (written_as ?a) \<and> n = binaryUDPAddrLen (written_as ?a)"
    using address_size_go [of ?a] assms [OF True] unfolding address_wf_def by blast
  then show ?thesis
    using True by (cases r; cases "validateBinaryUDPAddr (go_addr ?a)") (simp_all add: validateLocal_def go_packet_def written_local_def)
qed

text \<open>
  C10. The firmware writes what the Go program writes. For a packet with valid pointers the encoder in C writes
  at the start of the output buffer the message type and exactly the body that the Go encoder produces for
  the same packet, and nothing behind it; when the Go encoder refuses the packet or the buffer is too
  small, it reports an error and leaves the buffer unchanged.
\<close>

theorem udp_encoders_agree:
  assumes "packet_wf p" "capacity \<le> length out"
  shows "case EncodeUDPPacketBinary (Some (go_packet p)) of
      None \<Rightarrow> False
    | Some (Inl _) \<Rightarrow> (\<exists>e. e \<noteq> EFRP_OK \<and> efrp_udp_packet_encode (Some p) (Some out) capacity True = Some (e, Some out, 0))
    | Some (Inr body) \<Rightarrow> efrp_udp_packet_encode (Some p) (Some out) capacity True =
        Some (if 2 + length body \<le> capacity
              then (EFRP_OK, Some (PutUint16 19 @ body @ drop (2 + length body) out), 2 + length body)
              else (EFRP_CAPACITY_EXCEEDED, Some out, 0))"
proof -
  let ?r = "written_as (up_remote_address p)" and ?n = "up_payload_length p"
  have r: "address_wf (up_remote_address p)" and lw: "up_has_local_address p \<Longrightarrow> address_wf (up_local_address p)"
    and c: "?n \<le> length (buffer (up_payload p))" using assms(1) by (auto simp: packet_wf_def)
  have null: "\<not> (up_payload p = None \<and> ?n \<noteq> 0)" using c by (cases "up_payload p") auto
  have g: "RemoteAddr (go_packet p) = Some (go_addr (up_remote_address p))" "Content (go_packet p) = content p" by (simp_all add: go_packet_def)
  have cl: "length (content p) = ?n" using c by simp
  obtain x where x: "address_size (up_remote_address p) = Some x" and x': "case x of
      Inl e \<Rightarrow> e \<noteq> EFRP_OK \<and> isl (validateBinaryUDPAddr (go_addr (up_remote_address p)))
    | Inr n \<Rightarrow> validateBinaryUDPAddr (go_addr (up_remote_address p)) = Inr ?r \<and> n = binaryUDPAddrLen ?r"
    using address_size_go [of "up_remote_address p"] r unfolding address_wf_def by blast
  obtain y where y: "(if up_has_local_address p then address_size (up_local_address p) else Some (Inr 0)) = Some y" and y': "case y of
      Inl e \<Rightarrow> e \<noteq> EFRP_OK \<and> isl (validateLocal (go_packet p))
    | Inr n \<Rightarrow> validateLocal (go_packet p) = Inr (written_local p) \<and> n = (case written_local p of None \<Rightarrow> 0 | Some a \<Rightarrow> binaryUDPAddrLen a)"
    using local_size_go [OF lw] by blast
  let ?body = "body_bytes (written_local p) ?r (content p)"
  have n: "5 + (case written_local p of None \<Rightarrow> 0 | Some a \<Rightarrow> binaryUDPAddrLen a) + binaryUDPAddrLen ?r + ?n = 2 + length ?body"
    using c by (cases "written_local p") (simp_all add: body_bytes_def)
  note e = EncodeUDPPacketBinary_eq [of "go_packet p", unfolded g option.case MaxUDPPayloadSize_def unat_frame_limit cl]
  note d = efrp_udp_packet_encode_def EFRP_UDP_MAX_PAYLOAD_SIZE_def EFRP_WIRE_MAX_PAYLOAD_def
  consider "65507 < ?n" | f where "\<not> 65507 < ?n" "x = Inl f" | f k where "\<not> 65507 < ?n" "x = Inr k" "y = Inl f"
    | k j where "\<not> 65507 < ?n" "x = Inr k" "y = Inr j" by (metis sum.exhaust)
  then show ?thesis
  proof cases
    case 4
    then have v: "validateLocal (go_packet p) = Inr (written_local p)" "validateBinaryUDPAddr (go_addr (up_remote_address p)) = Inr ?r"
      and kj: "5 + j + k + ?n = 2 + length ?body" using x' y' n by simp_all
    have "efrp_udp_packet_encode (Some p) (Some out) capacity True =
        (if 65536 < 5 + j + k + ?n \<or> capacity < 5 + j + k + ?n then Some (EFRP_CAPACITY_EXCEEDED, Some out, 0)
         else do {b' \<leftarrow> put_packet p out; Some (EFRP_OK, Some b', 5 + j + k + ?n)})"
      unfolding d using null 4 x y by (cases "up_payload p") simp_all
    moreover have "2 + length ?body \<le> capacity \<Longrightarrow> put_packet p out = Some (PutUint16 19 @ ?body @ drop (2 + length ?body) out)"
      using put_packet_eq [OF assms(1), of out] assms(2) by simp
    ultimately show ?thesis unfolding e kj using 4(1) v by simp
  next
    case 1
    then show ?thesis unfolding e d using null by simp
  next
    case 2
    then have "isl (validateBinaryUDPAddr (go_addr (up_remote_address p)))" "f \<noteq> EFRP_OK" using x' by simp_all
    then show ?thesis unfolding e d using 2 null x by (cases "validateLocal (go_packet p)") (auto simp: isl_def)
  next
    case 3
    then have "isl (validateLocal (go_packet p))" "f \<noteq> EFRP_OK" using y' by simp_all
    then show ?thesis unfolding e d using 3 null x y by (auto simp: isl_def)
  qed
qed

definition demo_udp :: efrp_udp_packet_t where
  "demo_udp = \<lparr>up_has_local_address = True,
     up_local_address = \<lparr>ua_family = 6, ua_ip = [254, 128, 0, 0, 0, 0, 0, 0, 0, 0, 0, 0, 0, 0, 0, 1], ua_port = 53,
       ua_zone = Some (string_bytes ''eth0''), ua_zone_length = 4\<rparr>,
     up_remote_address = \<lparr>ua_family = 6, ua_ip = v4_prefix @ [10, 0, 0, 1], ua_port = 4096, ua_zone = None, ua_zone_length = 0\<rparr>,
     up_payload = Some [1, 2, 3], up_payload_length = 3\<rparr>"

theorem udp_encoders_agree_witness:
  "efrp_udp_packet_encode (Some demo_udp) (Some (replicate 64 7)) 64 True = Some (EFRP_OK, Some ([0, 19] @ demo_body @ replicate 24 7), 40)"
proof -
  have w: "packet_wf demo_udp" "64 \<le> length (replicate 64 (7 :: byte))"
    by (simp_all add: demo_udp_def packet_wf_def address_wf_def address_backed_def v4_prefix_def)
  have "EncodeUDPPacketBinary (Some (go_packet demo_udp)) = Some (Inr demo_body)" by code_simp
  moreover have "length demo_body = 38" "PutUint16 19 = [0, 19]" "drop 40 (replicate 64 (7 :: byte)) = replicate 24 7" by code_simp+
  ultimately show ?thesis using udp_encoders_agree [OF w] by simp
qed

section \<open>Headers that arrive in pieces\<close>

lemma read_address_more:
  assumes "read_address b n i = Some (e, a, j)" "e \<noteq> EFRP_TRUNCATED" "n \<le> m" "i \<le> n"
  shows "read_address b m i = Some (e, a, j) \<and> j \<le> n"
proof -
  have i: "i \<noteq> n" "i \<noteq> m" using assms by (auto simp: read_address_def Let_def)
  then obtain f where f: "index b i = Some f" using assms(1) by (cases "index b i") (simp_all add: read_address_def Let_def)
  show ?thesis
  proof (cases "f = 4 \<or> f = 6")
    case False
    then show ?thesis using assms i f by (simp add: read_address_def Let_def)
  next
    case True
    let ?k = "if f = 4 then 4 else 16 :: nat"
    let ?o = "i + 1 + ?k + 2 + 1"
    have k: "\<not> n - (i + 1) < ?k + 3" using assms(1,2) i f True by (auto simp: read_address_def Let_def)
    then have k': "\<not> m - (i + 1) < ?k + 3" using assms(3) by linarith
    obtain src ip' p z where x: "mem b (i + 1) ?k = Some src" "memcpy (ua_ip zero_address) 0 src = Some ip'"
      "get_u16 b (i + 1 + ?k) = Some p" "index b (i + 1 + ?k + 2) = Some z"
      using assms(1) i f True k by (auto simp: read_address_def Let_def simp del: One_nat_def split: Option.bind_splits)
    let ?a = "zero_address\<lparr>ua_family := f, ua_ip := ip', ua_port := p, ua_zone_length := unat z\<rparr>"
    have r: "read_address b l i = (if l - ?o < unat z then Some (EFRP_TRUNCATED, ?a, ?o)
        else do {
          ok \<leftarrow> (if f = 4 \<and> unat z \<noteq> 0 then Some False else valid_utf8 (drop ?o b) (unat z));
          (if \<not> ok then Some (EFRP_PROTOCOL_ERROR, ?a, ?o)
           else Some (EFRP_OK, (if unat z \<noteq> 0 then ?a\<lparr>ua_zone := Some (drop ?o b)\<rparr> else ?a), ?o + unat z))})"
      if "\<not> l - (i + 1) < ?k + 3" for l
      using that f x True by (auto simp: read_address_def Let_def simp del: One_nat_def add_2_eq_Suc')
    have z: "\<not> n - ?o < unat z" using assms(1,2) unfolding r [OF k] by auto
    then have z': "\<not> m - ?o < unat z" using assms(3) k by linarith
    have "j \<le> ?o + unat z" using assms(1) z unfolding r [OF k] by (auto split: Option.bind_splits if_splits)
    moreover have "?o + unat z \<le> n" using z k by linarith
    ultimately show ?thesis using assms(1) z z' unfolding r [OF k] r [OF k'] by simp
  qed
qed

lemma read_address_enough:
  assumes "read_address b n i = Some (e, a, j)" "i + 275 \<le> n"
  shows "e \<noteq> EFRP_TRUNCATED \<and> (e = EFRP_OK \<longrightarrow> j \<le> i + 275)"
proof -
  have z: "unat (z :: byte) \<le> 255" for z using unat_less_pow [of z] by simp
  have y: "n - (8 + i) < unat z \<Longrightarrow> False" "n - (20 + i) < unat z \<Longrightarrow> False" for z :: byte using z [of z] assms(2) by linarith+
  have "i \<noteq> n" using assms by auto
  with assms show ?thesis
    unfolding read_address_def Let_def using z
    by (auto split: if_splits Option.bind_splits dest: y)
qed

definition header_tail :: "bytes \<Rightarrow> nat \<Rightarrow> nat \<Rightarrow> byte \<Rightarrow> efrp_udp_address_t \<Rightarrow> nat \<Rightarrow> (efrp_result_t \<times> efrp_udp_packet_t \<times> nat) option" where
  "header_tail b n frame flags a1 i = do {
     (e, a2, j) \<leftarrow> read_address b n i;
     (if e \<noteq> EFRP_OK then Some (if e = EFRP_TRUNCATED then if n < frame then EFRP_WOULD_BLOCK else EFRP_TRUNCATED else e, zero_packet, 0)
      else if n - j < 2 then Some (if n < frame then EFRP_WOULD_BLOCK else EFRP_TRUNCATED, zero_packet, 0)
      else do {
        len \<leftarrow> get_u16 b j;
        (if EFRP_UDP_MAX_PAYLOAD_SIZE < unat len then Some (EFRP_CAPACITY_EXCEEDED, zero_packet, 0)
         else if frame - (j + 2) < unat len then Some (EFRP_TRUNCATED, zero_packet, 0)
         else if unat len < frame - (j + 2) then Some (EFRP_PROTOCOL_ERROR, zero_packet, 0)
         else Some (EFRP_OK, zero_packet\<lparr>up_has_local_address := flags AND 1 \<noteq> 0, up_local_address := a1, up_remote_address := a2,
                      up_payload_length := unat len\<rparr>, j + 2))})}"

lemma header_decode_eq:
  assumes "get_u16 b 0 = Some t" "index b 2 = Some flags" "3 \<le> n" "n \<le> frame" "frame \<le> 65536"
  shows "efrp_udp_packet_header_decode (Some b) n frame =
    (if t \<noteq> EFRP_UDP_BINARY_TYPE \<or> flags AND NOT 3 \<noteq> 0 \<or> flags AND 2 = 0 then Some (EFRP_PROTOCOL_ERROR, zero_packet, 0)
     else do {
       (e, a1, i) \<leftarrow> (if flags AND 1 \<noteq> 0 then read_address b n 3 else Some (EFRP_OK, zero_address, 3));
       (if e \<noteq> EFRP_OK then Some (if e = EFRP_TRUNCATED then if n < frame then EFRP_WOULD_BLOCK else EFRP_TRUNCATED else e, zero_packet, 0)
        else header_tail b n frame flags a1 i)})"
  using assms unfolding efrp_udp_packet_header_decode_def header_tail_def Let_def EFRP_WIRE_MAX_PAYLOAD_def buffer_Some
  by (cases "n < frame") simp_all

lemma header_tail_more:
  assumes "header_tail b n frame flags a1 i = Some (e, p, off)" "n \<le> m" "m \<le> frame" "i \<le> n"
  shows "e \<noteq> EFRP_WOULD_BLOCK \<longrightarrow> header_tail b m frame flags a1 i = Some (e, p, off)" "i + 277 \<le> n \<Longrightarrow> e \<noteq> EFRP_WOULD_BLOCK"
proof -
  obtain e2 a2 j where r: "read_address b n i = Some (e2, a2, j)" using assms(1) by (auto simp: header_tail_def split: Option.bind_splits)
  have wb: "e2 \<noteq> EFRP_WOULD_BLOCK" using r by (auto simp: read_address_def Let_def split: if_splits Option.bind_splits)
  have same: "e2 \<noteq> EFRP_TRUNCATED \<Longrightarrow> read_address b m i = Some (e2, a2, j) \<and> j \<le> n" using read_address_more [OF r _ assms(2,4)] .
  have stop: "m = n" if "\<not> n < frame" using that assms(2,3) by simp
  show "e \<noteq> EFRP_WOULD_BLOCK \<longrightarrow> header_tail b m frame flags a1 i = Some (e, p, off)"
  proof (cases "m = n \<or> e2 = EFRP_TRUNCATED \<or> e2 \<noteq> EFRP_OK")
    case True
    then show ?thesis using assms(1) r same stop by (auto simp: header_tail_def split: if_splits)
  next
    case False
    have "n - j < 2 \<Longrightarrow> n < frame" using stop False by blast
    moreover have "\<not> n - j < 2 \<Longrightarrow> \<not> m - j < 2" using assms(2) by linarith
    ultimately show ?thesis using assms(1) r same False by (cases "n - j < 2") (simp_all add: header_tail_def)
  qed
  assume "i + 277 \<le> n"
  then show "e \<noteq> EFRP_WOULD_BLOCK"
    using read_address_enough [OF r] assms(1) r wb by (auto simp: header_tail_def split: if_splits Option.bind_splits)
qed

text \<open>
  A header can be decoded as it arrives. Once the header decoder gives an answer other than to wait for more bytes,
  the answer stays the same with every longer part of the same frame; and with 555 bytes it does not wait
  any more.
\<close>

lemma udp_header_incremental:
  assumes "efrp_udp_packet_header_decode (Some b) n frame = Some (e, p, off)" "n \<le> m" "m \<le> frame"
  shows "(e \<noteq> EFRP_WOULD_BLOCK \<longrightarrow> efrp_udp_packet_header_decode (Some b) m frame = Some (e, p, off)) \<and>
    (EFRP_UDP_MAX_HEADER_SIZE \<le> n \<longrightarrow> e \<noteq> EFRP_WOULD_BLOCK)"
proof -
  consider "65536 < frame" | "n = m" "n < 3" | "n < m" "n < 3" "frame \<le> 65536" | "3 \<le> n" "frame \<le> 65536" using assms(2) by linarith
  then show ?thesis
  proof cases
    case 4
    obtain t flags where tf: "get_u16 b 0 = Some t" "index b 2 = Some flags"
      using assms 4 by (auto simp: efrp_udp_packet_header_decode_def Let_def EFRP_WIRE_MAX_PAYLOAD_def split: Option.bind_splits)
    have n: "n \<le> frame" and m: "3 \<le> m" using assms 4 by simp_all
    note en = header_decode_eq [OF tf 4(1) n 4(2)] and em = header_decode_eq [OF tf m assms(3) 4(2)]
    show ?thesis
    proof (cases "t \<noteq> EFRP_UDP_BINARY_TYPE \<or> flags AND NOT 3 \<noteq> 0 \<or> flags AND 2 = 0")
      case True
      then show ?thesis using assms(1) unfolding en em by auto
    next
      case False
      obtain e1 a1 i where r: "(if flags AND 1 \<noteq> 0 then read_address b n 3 else Some (EFRP_OK, zero_address, 3)) = Some (e1, a1, i)"
        using assms(1) False unfolding en by (auto split: Option.bind_splits)
      have more: "e1 \<noteq> EFRP_TRUNCATED \<Longrightarrow> (if flags AND 1 \<noteq> 0 then read_address b m 3 else Some (EFRP_OK, zero_address, 3)) = Some (e1, a1, i) \<and> i \<le> n"
        using r read_address_more [of b n 3 e1 a1 i m] 4(1) assms(2) by (auto split: if_splits)
      have enough: "555 \<le> n \<Longrightarrow> e1 \<noteq> EFRP_TRUNCATED \<and> (e1 = EFRP_OK \<longrightarrow> i \<le> 278)"
        using r read_address_enough [of b n 3 e1 a1 i] by (auto split: if_splits)
      have wb: "e1 \<noteq> EFRP_WOULD_BLOCK" using r by (auto simp: read_address_def Let_def split: if_splits Option.bind_splits)
      consider "e1 = EFRP_TRUNCATED" | "e1 \<noteq> EFRP_TRUNCATED" "e1 \<noteq> EFRP_OK" | "e1 = EFRP_OK" by blast
      then show ?thesis
      proof cases
        case 1
        have "n < frame \<or> m = n" using assms(2,3) by linarith
        then show ?thesis
        proof
          assume "n < frame"
          then show ?thesis using 1 assms(1) enough r False unfolding en EFRP_UDP_MAX_HEADER_SIZE_def by auto
        next
          assume "m = n"
          then show ?thesis using 1 assms(1) enough r False unfolding en em EFRP_UDP_MAX_HEADER_SIZE_def by auto
        qed
      next
        case 2
        then show ?thesis using assms(1) more r wb False unfolding en em by simp
      next
        case 3
        then have "header_tail b n frame flags a1 i = Some (e, p, off)" "i \<le> n" using assms(1) r False more unfolding en by simp_all
        note t = header_tail_more [OF this(1) assms(2,3) this(2)]
        have "555 \<le> n \<Longrightarrow> e \<noteq> EFRP_WOULD_BLOCK" using t(2) enough 3 by simp
        then show ?thesis using t(1) 3 more False unfolding em EFRP_UDP_MAX_HEADER_SIZE_def by simp
      qed
    qed
  qed (use assms in \<open>auto simp: efrp_udp_packet_header_decode_def EFRP_WIRE_MAX_PAYLOAD_def EFRP_UDP_MAX_HEADER_SIZE_def\<close>)
qed

theorem udp_header_incremental_witness:
  "\<exists>p. efrp_udp_packet_header_decode (Some ([0, 19] @ demo_body)) 37 40 = Some (EFRP_OK, p, 37) \<and>
     efrp_udp_packet_header_decode (Some ([0, 19] @ demo_body)) 40 40 = Some (EFRP_OK, p, 37)"
proof -
  have "map_option (\<lambda>(e, p, off). (e, off)) (efrp_udp_packet_header_decode (Some ([0, 19] @ demo_body)) 37 40) = Some (EFRP_OK, 37)"
    by code_simp
  then obtain p where "efrp_udp_packet_header_decode (Some ([0, 19] @ demo_body)) 37 40 = Some (EFRP_OK, p, 37)" by auto
  from udp_header_incremental [OF this, of 40] this show ?thesis by auto
qed

end
