(* ===== verification/EspWire.thy ===== *)
theory EspWire
  imports EspMemory "HOL-Library.Sublist"
begin

text \<open>
  The incremental reader of frames of the firmware (\<open>src/src/frame_reader.c\<close>, \<open>src/include/esp_frp_wire.h\<close>). It is fed
  with pieces of the stream as they arrive, keeps what is incomplete in a buffer of its owner, and calls a
  handler for every complete frame. The handler is a function of its context that returns the new context
  and whether it accepts the frame. The unread part of the input is a list; \<open>*consumed\<close> is what is no longer in it.
\<close>

section \<open>The reader\<close>

definition EFRP_WIRE_HEADER_SIZE :: nat where "EFRP_WIRE_HEADER_SIZE = 8"

definition EFRP_WIRE_MAGIC_SIZE :: nat where "EFRP_WIRE_MAGIC_SIZE = 7"

definition efrp_wire_magic :: bytes where
  "efrp_wire_magic = [of_char (CHR ''F''), of_char (CHR ''R''), of_char (CHR ''P''), 0, 2, 13, 10]"

type_synonym 'c frame_handler = "'c \<Rightarrow> 16 word \<Rightarrow> bytes \<Rightarrow> bool \<times> 'c"

record efrp_wire_reader_t =
  wr_header :: bytes
  wr_payload :: bytes
  wr_capacity :: nat
  wr_header_used :: nat
  wr_payload_used :: nat
  wr_payload_expected :: nat
  wr_magic_used :: nat
  wr_expect_magic :: bool
  wr_failure :: efrp_result_t
  wr_kind :: "16 word"

definition valid_kind :: "16 word \<Rightarrow> bool" where
  "valid_kind k \<longleftrightarrow> k = 1 \<or> k = 2 \<or> k = 16"

text \<open>The reader, its storage and its handler are given.\<close>

definition efrp_wire_init :: "bytes \<Rightarrow> nat \<Rightarrow> bool \<Rightarrow> efrp_result_t + efrp_wire_reader_t" where
  "efrp_wire_init storage capacity expect_magic =
     (if capacity = 0 \<or> EFRP_WIRE_MAX_PAYLOAD < capacity then Inl EFRP_INVALID_ARGUMENT
      else Inr \<lparr>wr_header = replicate 8 0, wr_payload = storage, wr_capacity = capacity, wr_header_used = 0,
        wr_payload_used = 0, wr_payload_expected = 0, wr_magic_used = 0, wr_expect_magic = expect_magic,
        wr_failure = EFRP_OK, wr_kind = 0\<rparr>)"

definition efrp_wire_header :: "16 word \<Rightarrow> nat \<Rightarrow> efrp_result_t + bytes" where
  "efrp_wire_header kind n =
     (if \<not> valid_kind kind then Inl EFRP_INVALID_ARGUMENT
      else if EFRP_WIRE_MAX_PAYLOAD < n then Inl EFRP_CAPACITY_EXCEEDED
      else Inr [word_of_nat (unat kind div 256), word_of_nat (unat kind), 0, 0,
                word_of_nat (n div 2 ^ 24), word_of_nat (n div 2 ^ 16), word_of_nat (n div 2 ^ 8), word_of_nat n])"

text \<open>
  One iteration of the loop in \<open>feed\<close> has three parts. A byte of the header can leave the header incomplete, be its last
  byte, or show that the header is bad.
\<close>

datatype header_status = HMore | HBad efrp_result_t | HReady

definition header_byte :: "efrp_wire_reader_t \<Rightarrow> byte \<Rightarrow> header_status \<times> efrp_wire_reader_t" where
  "header_byte r x =
     (let r = r\<lparr>wr_header := (wr_header r)[wr_header_used r := x], wr_header_used := wr_header_used r + 1\<rparr> in
      if wr_header_used r \<noteq> EFRP_WIRE_HEADER_SIZE then (HMore, r)
      else let kind = Uint16 (wr_header r) in
        if \<not> valid_kind kind \<or> wr_header r ! 2 \<noteq> 0 \<or> wr_header r ! 3 \<noteq> 0 then (HBad EFRP_PROTOCOL_ERROR, r)
        else let r = r\<lparr>wr_kind := kind, wr_payload_expected := unat (Uint32 (drop 4 (wr_header r)))\<rparr> in
          if wr_capacity r < wr_payload_expected r then (HBad EFRP_CAPACITY_EXCEEDED, r) else (HReady, r))"

text \<open>
  What is available of the payload is copied. No operation makes \<open>payload_used\<close> larger than \<open>payload_expected\<close>, for which
  the difference of the code would wrap around.
\<close>

definition take_payload :: "efrp_wire_reader_t \<Rightarrow> bytes \<Rightarrow> (efrp_wire_reader_t \<times> bytes) option" where
  "take_payload r rest =
     (if wr_payload_expected r < wr_payload_used r then None
      else let n = min (wr_payload_expected r - wr_payload_used r) (length rest) in do {
        buf \<leftarrow> (if n \<noteq> 0 then memcpy (wr_payload r) (wr_payload_used r) (take n rest) else Some (wr_payload r));
        Some (r\<lparr>wr_payload := buf, wr_payload_used := wr_payload_used r + n\<rparr>, drop n rest)})"

definition magic_byte :: "efrp_wire_reader_t \<Rightarrow> bool" where
  "magic_byte r \<longleftrightarrow> wr_expect_magic r \<and> wr_magic_used r < EFRP_WIRE_MAGIC_SIZE"

function feed_loop :: "'c frame_handler \<Rightarrow> bool \<Rightarrow> efrp_wire_reader_t \<Rightarrow> 'c \<Rightarrow> bytes \<Rightarrow>
    (efrp_result_t \<times> efrp_wire_reader_t \<times> 'c \<times> bytes) option" where
  "feed_loop handler one r ctx [] = Some (EFRP_OK, r, ctx, [])"
| "feed_loop handler one r ctx (x # xs) =
     (if magic_byte r
      then let r' = r\<lparr>wr_magic_used := wr_magic_used r + 1\<rparr> in
        if x \<noteq> efrp_wire_magic ! wr_magic_used r
        then Some (EFRP_PROTOCOL_ERROR, r'\<lparr>wr_failure := EFRP_PROTOCOL_ERROR\<rparr>, ctx, xs)
        else feed_loop handler one r' ctx xs
      else (case (if wr_header_used r < EFRP_WIRE_HEADER_SIZE then (header_byte r x, xs) else ((HReady, r), x # xs)) of
          ((HMore, r'), rest) \<Rightarrow> feed_loop handler one r' ctx xs
        | ((HBad e, r'), rest) \<Rightarrow> Some (e, r'\<lparr>wr_failure := e\<rparr>, ctx, rest)
        | ((HReady, r'), rest) \<Rightarrow>
            (case take_payload r' rest of
               None \<Rightarrow> None
             | Some (r2, rest2) \<Rightarrow>
                 if wr_payload_used r2 = wr_payload_expected r2
                 then (case handler ctx (wr_kind r2) (take (wr_payload_expected r2) (wr_payload r2)) of (ok, ctx') \<Rightarrow>
                   if \<not> ok then Some (EFRP_CALLBACK_REJECTED, r2\<lparr>wr_failure := EFRP_CALLBACK_REJECTED\<rparr>, ctx', rest2)
                   else let r3 = r2\<lparr>wr_header_used := 0, wr_payload_used := 0, wr_payload_expected := 0\<rparr> in
                     if one then Some (EFRP_OK, r3, ctx', rest2) else feed_loop handler one r3 ctx' rest2)
                 else feed_loop handler one r2 ctx rest2)))"
  by pat_completeness auto

lemma take_payload_SomeD:
  assumes "take_payload r rest = Some (r', rest')"
  shows "length rest' \<le> length rest" "wr_payload_used r' \<noteq> wr_payload_expected r' \<Longrightarrow> rest' = []"
    "r' = r\<lparr>wr_payload := wr_payload r', wr_payload_used := wr_payload_used r'\<rparr>"
  using assms by (auto simp: take_payload_def Let_def split: if_splits Option.bind_splits)

lemma header_byte_used: "header_byte r x = (st, r') \<Longrightarrow> wr_header_used r' = wr_header_used r + 1"
  by (auto simp: header_byte_def Let_def split: if_splits)

termination feed_loop
proof (relation "measure (\<lambda>(_, _, r, _, bs). 2 * length bs + (if wr_header_used r < 8 then 0 else 1))", goal_cases)
qed (auto simp: EFRP_WIRE_HEADER_SIZE_def split: if_splits dest: take_payload_SomeD header_byte_used)


declare feed_loop.simps(2) [simp del]

definition efrp_wire_feed :: "'c frame_handler \<Rightarrow> efrp_wire_reader_t \<Rightarrow> 'c \<Rightarrow> bytes \<Rightarrow>
    (efrp_result_t \<times> efrp_wire_reader_t \<times> 'c \<times> bytes) option" where
  "efrp_wire_feed handler r ctx bs =
     (if wr_failure r \<noteq> EFRP_OK then Some (wr_failure r, r, ctx, bs) else feed_loop handler False r ctx bs)"

definition efrp_wire_feed_one :: "'c frame_handler \<Rightarrow> efrp_wire_reader_t \<Rightarrow> 'c \<Rightarrow> bytes \<Rightarrow>
    (efrp_result_t \<times> efrp_wire_reader_t \<times> 'c \<times> bytes) option" where
  "efrp_wire_feed_one handler r ctx bs =
     (if wr_failure r \<noteq> EFRP_OK then Some (wr_failure r, r, ctx, bs) else feed_loop handler True r ctx bs)"

definition efrp_wire_finish :: "efrp_wire_reader_t \<Rightarrow> efrp_result_t" where
  "efrp_wire_finish r =
     (if wr_failure r \<noteq> EFRP_OK then wr_failure r
      else if (wr_expect_magic r \<and> wr_magic_used r \<noteq> EFRP_WIRE_MAGIC_SIZE) \<or> wr_header_used r \<noteq> 0 then EFRP_TRUNCATED
      else EFRP_OK)"

section \<open>The invariant\<close>

definition reader_ok :: "efrp_wire_reader_t \<Rightarrow> bool" where
  "reader_ok r \<longleftrightarrow> length (wr_header r) = 8 \<and> wr_capacity r \<le> length (wr_payload r) \<and> wr_magic_used r \<le> 7 \<and>
     (wr_header_used r < 8 \<and> wr_payload_used r = 0 \<and> wr_payload_expected r = 0 \<or>
      wr_header_used r = 8 \<and> wr_payload_used r < wr_payload_expected r \<and> wr_payload_expected r \<le> wr_capacity r) \<and>
     (magic_byte r \<longrightarrow> wr_header_used r = 0)"

text \<open>The state between the header and the handler: the payload may be complete.\<close>

definition body_ok :: "efrp_wire_reader_t \<Rightarrow> bool" where
  "body_ok r \<longleftrightarrow> length (wr_header r) = 8 \<and> wr_capacity r \<le> length (wr_payload r) \<and> wr_magic_used r \<le> 7 \<and> \<not> magic_byte r \<and>
     wr_header_used r = 8 \<and> wr_payload_used r \<le> wr_payload_expected r \<and> wr_payload_expected r \<le> wr_capacity r"

lemma header_byte_ok:
  assumes "reader_ok r" "\<not> magic_byte r" "wr_header_used r < 8" "header_byte r x = (st, r')"
  shows "case st of HMore \<Rightarrow> reader_ok r' \<and> \<not> magic_byte r' | HBad e \<Rightarrow> e \<noteq> EFRP_OK | HReady \<Rightarrow> body_ok r' \<and> wr_payload_used r' = 0"
  using assms by (auto simp: header_byte_def reader_ok_def body_ok_def magic_byte_def Let_def EFRP_WIRE_HEADER_SIZE_def split: if_splits)

lemma take_payload_ok:
  assumes "body_ok r"
  shows "\<exists>r' rest'. take_payload r rest = Some (r', rest') \<and> body_ok r'"
  using assms by (auto simp: take_payload_def body_ok_def magic_byte_def memcpy_def Let_def)

text \<open>The loop from the end of a header on.\<close>

definition deliver :: "'c frame_handler \<Rightarrow> bool \<Rightarrow> efrp_wire_reader_t \<Rightarrow> 'c \<Rightarrow> bytes \<Rightarrow>
    (efrp_result_t \<times> efrp_wire_reader_t \<times> 'c \<times> bytes) option" where
  "deliver handler one r ctx rest =
     (case take_payload r rest of
        None \<Rightarrow> None
      | Some (r2, rest2) \<Rightarrow>
          if wr_payload_used r2 = wr_payload_expected r2
          then (case handler ctx (wr_kind r2) (take (wr_payload_expected r2) (wr_payload r2)) of (ok, ctx') \<Rightarrow>
            if \<not> ok then Some (EFRP_CALLBACK_REJECTED, r2\<lparr>wr_failure := EFRP_CALLBACK_REJECTED\<rparr>, ctx', rest2)
            else let r3 = r2\<lparr>wr_header_used := 0, wr_payload_used := 0, wr_payload_expected := 0\<rparr> in
              if one then Some (EFRP_OK, r3, ctx', rest2) else feed_loop handler one r3 ctx' rest2)
          else feed_loop handler one r2 ctx rest2)"

lemma feed_magic:
  "magic_byte r \<Longrightarrow> feed_loop h one r ctx (x # xs) =
     (let r' = r\<lparr>wr_magic_used := wr_magic_used r + 1\<rparr> in
      if x \<noteq> efrp_wire_magic ! wr_magic_used r then Some (EFRP_PROTOCOL_ERROR, r'\<lparr>wr_failure := EFRP_PROTOCOL_ERROR\<rparr>, ctx, xs)
      else feed_loop h one r' ctx xs)"
  by (simp add: feed_loop.simps(2))

lemma feed_header:
  "\<not> magic_byte r \<Longrightarrow> wr_header_used r < 8 \<Longrightarrow> feed_loop h one r ctx (x # xs) =
     (case header_byte r x of
        (HMore, r') \<Rightarrow> feed_loop h one r' ctx xs
      | (HBad e, r') \<Rightarrow> Some (e, r'\<lparr>wr_failure := e\<rparr>, ctx, xs)
      | (HReady, r') \<Rightarrow> deliver h one r' ctx xs)"
  by (simp add: feed_loop.simps(2) EFRP_WIRE_HEADER_SIZE_def deliver_def split: prod.splits header_status.splits)

lemma feed_body:
  "\<not> magic_byte r \<Longrightarrow> wr_header_used r = 8 \<Longrightarrow> xs \<noteq> [] \<Longrightarrow> feed_loop h one r ctx xs = deliver h one r ctx xs"
  by (cases xs) (simp_all add: feed_loop.simps(2) EFRP_WIRE_HEADER_SIZE_def deliver_def)

definition feed_good :: "efrp_wire_reader_t \<Rightarrow> bytes \<Rightarrow> (efrp_result_t \<times> efrp_wire_reader_t \<times> 'c \<times> bytes) option \<Rightarrow> bool" where
  "feed_good r bs out \<longleftrightarrow> (\<exists>e r' ctx' rest. out = Some (e, r', ctx', rest) \<and> suffix rest bs \<and>
     (e = EFRP_OK \<longrightarrow> reader_ok r' \<and> wr_failure r' = wr_failure r) \<and> (e \<noteq> EFRP_OK \<longrightarrow> wr_failure r' = e))"

lemma feed_good_suffix: "feed_good r' rest out \<Longrightarrow> suffix rest bs \<Longrightarrow> wr_failure r' = wr_failure r \<Longrightarrow> feed_good r bs out"
  unfolding feed_good_def by (auto dest: suffix_order.trans)

lemma take_payload_suffix: "take_payload r rest = Some (r', rest') \<Longrightarrow> suffix rest' rest"
  by (auto simp: take_payload_def Let_def suffix_drop split: if_splits Option.bind_splits)

lemma header_byte_failure: "header_byte r x = (st, r') \<Longrightarrow> wr_failure r' = wr_failure r"
  by (auto simp: header_byte_def Let_def split: if_splits)

lemma take_payload_frame:
  assumes "take_payload r rest = Some (r', rest')"
  shows "wr_failure r' = wr_failure r" "wr_header r' = wr_header r" "wr_kind r' = wr_kind r" "wr_payload_expected r' = wr_payload_expected r"
    "wr_header_used r' = wr_header_used r"
  using assms by (auto simp: take_payload_def Let_def split: if_splits Option.bind_splits)

lemma body_reader_ok:
  assumes "body_ok r"
  shows "wr_payload_used r \<noteq> wr_payload_expected r \<Longrightarrow> reader_ok r"
    "reader_ok (r\<lparr>wr_header_used := 0, wr_payload_used := 0, wr_payload_expected := 0\<rparr>)"
  using assms by (auto simp: body_ok_def reader_ok_def magic_byte_def)

lemma deliver_good:
  assumes "body_ok r"
    and ih: "\<And>r' ctx' bs. length bs < length rest \<or> (length bs = length rest \<and> wr_header_used r' = 0) \<Longrightarrow> reader_ok r' \<Longrightarrow>
      feed_good r' bs (feed_loop h one r' ctx' bs)"
  shows "feed_good r rest (deliver h one r ctx rest)"
proof -
  obtain r2 rest2 where t: "take_payload r rest = Some (r2, rest2)" and ok: "body_ok r2" using take_payload_ok [OF assms(1)] by blast
  note f = take_payload_frame [OF t] and s = take_payload_suffix [OF t]
  let ?r3 = "r2\<lparr>wr_header_used := 0, wr_payload_used := 0, wr_payload_expected := 0\<rparr>"
  obtain acc ctx' where h: "h ctx (wr_kind r2) (take (wr_payload_expected r2) (wr_payload r2)) = (acc, ctx')" by fastforce
  consider "wr_payload_used r2 \<noteq> wr_payload_expected r2" | "wr_payload_used r2 = wr_payload_expected r2" "\<not> acc"
    | "wr_payload_used r2 = wr_payload_expected r2" "acc" "one" | "wr_payload_used r2 = wr_payload_expected r2" "acc" "\<not> one" by blast
  then show ?thesis
  proof cases
    case 1
    then have "rest2 = []" using take_payload_SomeD(2) [OF t] by simp
    then show ?thesis using 1 t f(1) s body_reader_ok(1) [OF ok] by (simp add: deliver_def feed_good_def)
  next
    case 2
    then show ?thesis using t h s by (simp add: deliver_def feed_good_def)
  next
    case 3
    then show ?thesis using t h s f body_reader_ok(2) [OF ok] by (simp add: deliver_def feed_good_def)
  next
    case 4
    have "length rest2 < length rest \<or> length rest2 = length rest \<and> wr_header_used ?r3 = 0"
      using take_payload_SomeD(1) [OF t] by auto
    then have "feed_good ?r3 rest2 (feed_loop h one ?r3 ctx' rest2)" using ih body_reader_ok(2) [OF ok] by blast
    from feed_good_suffix [OF this s, of r] show ?thesis using 4 t h f by (simp add: deliver_def)
  qed
qed

lemma feed_loop_good: "reader_ok r \<Longrightarrow> feed_good r bs (feed_loop h one r ctx bs)"
proof (induction "2 * length bs + (if wr_header_used r < 8 then 0 else 1)" arbitrary: r ctx bs rule: less_induct)
  case less
  have ih: "feed_good r' bs' (feed_loop h one r' ctx' bs')"
    if "length bs' < length bs \<or> (length bs' = length bs \<and> wr_header_used r' = 0 \<and> wr_header_used r = 8)" "reader_ok r'" for r' ctx' bs'
    using less.hyps [of bs' r' ctx'] that by (auto split: if_splits)
  show ?case
  proof (cases bs)
    case Nil
    then show ?thesis using less.prems by (simp add: feed_good_def)
  next
    case (Cons x xs)
    have sx: "suffix xs bs" using Cons by (simp add: suffix_ConsI)
    consider "magic_byte r" | "\<not> magic_byte r" "wr_header_used r < 8" | "\<not> magic_byte r" "wr_header_used r = 8"
      using less.prems by (auto simp: reader_ok_def)
    then show ?thesis
    proof cases
      case 1
      let ?r = "r\<lparr>wr_magic_used := wr_magic_used r + 1\<rparr>"
      have "reader_ok ?r" using 1 less.prems by (auto simp: reader_ok_def magic_byte_def EFRP_WIRE_MAGIC_SIZE_def)
      then have "feed_good ?r xs (feed_loop h one ?r ctx xs)" using ih Cons by simp
      then have "feed_good r bs (feed_loop h one ?r ctx xs)" by (rule feed_good_suffix [OF _ sx]) simp
      then show ?thesis using 1 sx by (auto simp: Cons feed_magic Let_def feed_good_def)
    next
      case 2
      obtain st r' where hb: "header_byte r x = (st, r')" by fastforce
      note ok = header_byte_ok [OF less.prems 2 hb] and f = header_byte_failure [OF hb]
      have d: "feed_good r' xs (deliver h one r' ctx xs)" if "body_ok r'"
        using that ih Cons by (intro deliver_good) auto
      show ?thesis
      proof (cases st)
        case HMore
        then have "feed_good r' xs (feed_loop h one r' ctx xs)" using ih ok Cons by simp
        from feed_good_suffix [OF this sx f] show ?thesis using HMore 2 hb by (simp add: Cons feed_header)
      next
        case (HBad e)
        then show ?thesis using 2 hb ok sx by (simp add: Cons feed_header feed_good_def)
      next
        case HReady
        then have "feed_good r' xs (deliver h one r' ctx xs)" using d ok by simp
        from feed_good_suffix [OF this sx f] show ?thesis using HReady 2 hb by (simp add: Cons feed_header)
      qed
    next
      case 3
      then have "body_ok r" using less.prems by (auto simp: reader_ok_def body_ok_def)
      then have "feed_good r bs (deliver h one r ctx bs)" using ih 3 less.prems Cons by (intro deliver_good) auto
      then show ?thesis using 3 Cons by (simp add: feed_body)
    qed
  qed
qed


section \<open>The pieces do not matter\<close>

definition then_feed :: "'c frame_handler \<Rightarrow> (efrp_result_t \<times> efrp_wire_reader_t \<times> 'c \<times> bytes) option \<Rightarrow> bytes \<Rightarrow>
    (efrp_result_t \<times> efrp_wire_reader_t \<times> 'c \<times> bytes) option" where
  "then_feed h out b = (case out of None \<Rightarrow> None | Some (e, r, ctx, rest) \<Rightarrow>
     if e = EFRP_OK then feed_loop h False r ctx b else Some (e, r, ctx, rest @ b))"

lemma take_payload_eq:
  assumes "wr_payload_used r \<le> wr_payload_expected r" "wr_payload_expected r \<le> length (wr_payload r)"
    and "n = min (wr_payload_expected r - wr_payload_used r) (length rest)"
  shows "take_payload r rest = Some (r\<lparr>wr_payload := take (wr_payload_used r) (wr_payload r) @ take n rest @
      drop (wr_payload_used r + n) (wr_payload r), wr_payload_used := wr_payload_used r + n\<rparr>, drop n rest)"
proof -
  have "length (take n rest) = n" "wr_payload_used r + n \<le> length (wr_payload r)" using assms by simp_all
  then show ?thesis using assms(1) by (auto simp: take_payload_def memcpy_def Let_def assms(3) [symmetric])
qed

lemma take_payload_append:
  assumes "body_ok r" "take_payload r a = Some (r2, rest2)"
  shows "wr_payload_used r2 = wr_payload_expected r2 \<Longrightarrow> take_payload r (a @ b) = Some (r2, rest2 @ b)"
    "wr_payload_used r2 \<noteq> wr_payload_expected r2 \<Longrightarrow> take_payload r (a @ b) = take_payload r2 b"
proof -
  let ?n = "wr_payload_expected r - wr_payload_used r" and ?u = "wr_payload_used r" and ?p = "wr_payload r"
  have u: "?u \<le> wr_payload_expected r" "wr_payload_expected r \<le> length ?p" using assms(1) by (auto simp: body_ok_def)
  note e = take_payload_eq [OF u refl]
  have r2: "r2 = r\<lparr>wr_payload := take ?u ?p @ take (min ?n (length a)) a @ drop (?u + min ?n (length a)) ?p,
      wr_payload_used := ?u + min ?n (length a)\<rparr>" "rest2 = drop (min ?n (length a)) a"
    using assms(2) unfolding e by simp_all
  {
    assume "wr_payload_used r2 = wr_payload_expected r2"
    then have "?n \<le> length a" using r2 u by simp
    then show "take_payload r (a @ b) = Some (r2, rest2 @ b)" unfolding e r2 by simp
  next
    assume "wr_payload_used r2 \<noteq> wr_payload_expected r2"
    then have l: "length a < ?n" using r2 u by (simp add: min_def split: if_splits)
    let ?k = "min (?n - length a) (length b)"
    have r2': "r2 = r\<lparr>wr_payload := take ?u ?p @ a @ drop (?u + length a) ?p, wr_payload_used := ?u + length a\<rparr>" using l unfolding r2 by simp
    have k: "min ?n (length (a @ b)) = length a + ?k" using l by simp
    have "take_payload r2 b = Some (r2\<lparr>wr_payload := take (?u + length a) (wr_payload r2) @ take ?k b @ drop (?u + length a + ?k) (wr_payload r2),
        wr_payload_used := ?u + length a + ?k\<rparr>, drop ?k b)"
      using take_payload_eq [of r2 ?k b] u l unfolding r2' by simp
    moreover have "take (?u + length a) (wr_payload r2) = take ?u ?p @ a" "drop (?u + length a + ?k) (wr_payload r2) = drop (?u + (length a + ?k)) ?p"
      using u l unfolding r2' by (simp_all add: ac_simps)
    ultimately show "take_payload r (a @ b) = take_payload r2 b" unfolding e k using r2' by (simp add: ac_simps)
  }
qed

lemma deliver_append:
  assumes "body_ok r"
    and ih: "\<And>r' ctx' bs. length bs < length a \<or> (length bs = length a \<and> wr_header_used r' = 0) \<Longrightarrow> reader_ok r' \<Longrightarrow>
      feed_loop h False r' ctx' (bs @ b) = then_feed h (feed_loop h False r' ctx' bs) b"
  shows "deliver h False r ctx (a @ b) = then_feed h (deliver h False r ctx a) b"
proof -
  obtain r2 rest2 where t: "take_payload r a = Some (r2, rest2)" and ok: "body_ok r2" using take_payload_ok [OF assms(1)] by blast
  note ap = take_payload_append [OF assms(1) t, of b]
  let ?r3 = "r2\<lparr>wr_header_used := 0, wr_payload_used := 0, wr_payload_expected := 0\<rparr>"
  show ?thesis
  proof (cases "wr_payload_used r2 = wr_payload_expected r2")
    case True
    have "length rest2 < length a \<or> length rest2 = length a \<and> wr_header_used ?r3 = 0" using take_payload_SomeD(1) [OF t] by auto
    then have i: "feed_loop h False ?r3 ctx' (rest2 @ b) = then_feed h (feed_loop h False ?r3 ctx' rest2) b" for ctx'
      using ih body_reader_ok(2) [OF ok] by blast
    show ?thesis using True ap(1) t i by (simp add: deliver_def then_feed_def split: prod.split)
  next
    case False
    then have "rest2 = []" using take_payload_SomeD(2) [OF t] by simp
    then have d: "deliver h False r ctx a = Some (EFRP_OK, r2, ctx, [])" using False t by (simp add: deliver_def)
    show ?thesis
    proof (cases "b = []")
      case True
      then show ?thesis by (simp add: d then_feed_def)
    next
      case b: False
      have "deliver h False r ctx (a @ b) = deliver h False r2 ctx b" using ap(2) False by (simp add: deliver_def)
      then show ?thesis using b ok by (simp add: d then_feed_def feed_body body_ok_def)
    qed
  qed
qed

lemma feed_loop_append: "reader_ok r \<Longrightarrow> feed_loop h False r ctx (a @ b) = then_feed h (feed_loop h False r ctx a) b"
proof (induction "2 * length a + (if wr_header_used r < 8 then 0 else 1)" arbitrary: r ctx a rule: less_induct)
  case less
  have ih: "feed_loop h False r' ctx' (bs @ b) = then_feed h (feed_loop h False r' ctx' bs) b"
    if "length bs < length a \<or> (length bs = length a \<and> wr_header_used r' = 0 \<and> wr_header_used r = 8)" "reader_ok r'" for r' ctx' bs
    using less.hyps [of bs r' ctx'] that by (auto split: if_splits)
  show ?case
  proof (cases a)
    case Nil
    then show ?thesis by (simp add: then_feed_def)
  next
    case (Cons x xs)
    consider "magic_byte r" | "\<not> magic_byte r" "wr_header_used r < 8" | "\<not> magic_byte r" "wr_header_used r = 8"
      using less.prems by (auto simp: reader_ok_def)
    then show ?thesis
    proof cases
      case 1
      let ?r = "r\<lparr>wr_magic_used := wr_magic_used r + 1\<rparr>"
      have "reader_ok ?r" using 1 less.prems by (auto simp: reader_ok_def magic_byte_def EFRP_WIRE_MAGIC_SIZE_def)
      then have "feed_loop h False ?r ctx (xs @ b) = then_feed h (feed_loop h False ?r ctx xs) b" using ih Cons by simp
      then show ?thesis using 1 by (simp add: Cons feed_magic Let_def then_feed_def)
    next
      case 2
      obtain st r' where hb: "header_byte r x = (st, r')" by fastforce
      note ok = header_byte_ok [OF less.prems 2 hb]
      have d: "deliver h False r' ctx (xs @ b) = then_feed h (deliver h False r' ctx xs) b" if "body_ok r'"
        using that ih Cons by (intro deliver_append) auto
      have m: "feed_loop h False r' ctx (xs @ b) = then_feed h (feed_loop h False r' ctx xs) b" if "reader_ok r'"
        using that ih Cons by simp
      show ?thesis using 2 hb ok d m by (cases st) (simp_all add: Cons feed_header then_feed_def)
    next
      case 3
      then have "body_ok r" using less.prems by (auto simp: reader_ok_def body_ok_def)
      then have "deliver h False r ctx (a @ b) = then_feed h (deliver h False r ctx a) b" using ih 3 Cons by (intro deliver_append) auto
      then show ?thesis using 3 Cons by (simp add: feed_body)
    qed
  qed
qed

section \<open>Reading frames\<close>

definition idle_reader :: "efrp_wire_reader_t \<Rightarrow> bool" where
  "idle_reader r \<longleftrightarrow> reader_ok r \<and> \<not> magic_byte r \<and> wr_header_used r = 0"

lemma feed_header_bytes:
  assumes "idle_reader r" "length hs \<le> 7"
  shows "feed_loop h one r ctx (hs @ rest) =
    feed_loop h one (r\<lparr>wr_header := hs @ drop (length hs) (wr_header r), wr_header_used := length hs\<rparr>) ctx rest"
  using assms(2)
proof (induction hs arbitrary: rest rule: rev_induct)
  case Nil
  have "r\<lparr>wr_header := wr_header r, wr_header_used := 0\<rparr> = r" using assms(1) by (simp add: idle_reader_def)
  then show ?case by simp
next
  case (snoc x hs)
  let ?r = "r\<lparr>wr_header := hs @ drop (length hs) (wr_header r), wr_header_used := length hs\<rparr>"
  have l: "length (wr_header r) = 8" "\<not> magic_byte ?r" using assms(1) by (simp_all add: idle_reader_def reader_ok_def magic_byte_def)
  have d: "drop (length hs) (wr_header r) = wr_header r ! length hs # drop (Suc (length hs)) (wr_header r)"
    using l(1) snoc.prems by (simp add: Cons_nth_drop_Suc)
  have "header_byte ?r x = (HMore, r\<lparr>wr_header := (hs @ [x]) @ drop (length (hs @ [x])) (wr_header r), wr_header_used := length (hs @ [x])\<rparr>)"
    using snoc.prems by (simp add: header_byte_def EFRP_WIRE_HEADER_SIZE_def d)
  then show ?case using snoc l(2) by (simp add: feed_header)
qed

lemma feed_header_complete:
  assumes "idle_reader r" "length hs = 8" "valid_kind (Uint16 hs)" "hs ! 2 = 0" "hs ! 3 = 0" "unat (Uint32 (drop 4 hs)) \<le> wr_capacity r"
  shows "feed_loop h one r ctx (hs @ rest) = deliver h one (r\<lparr>wr_header := hs, wr_header_used := 8, wr_kind := Uint16 hs,
    wr_payload_expected := unat (Uint32 (drop 4 hs))\<rparr>) ctx rest"
proof -
  obtain h7 x where hs: "hs = h7 @ [x]" using assms(2) by (cases hs rule: rev_cases) auto
  then have l: "length h7 = 7" using assms(2) by simp
  let ?r = "r\<lparr>wr_header := h7 @ drop 7 (wr_header r), wr_header_used := 7\<rparr>"
  have "length (wr_header r) = 8" using assms(1) by (simp add: idle_reader_def reader_ok_def)
  then obtain y where d: "drop 7 (wr_header r) = [y]"
    using length_drop [of 7 "wr_header r"] by (cases "drop 7 (wr_header r)"; cases "tl (drop 7 (wr_header r))") simp_all
  have m: "\<not> magic_byte ?r" using assms(1) by (simp add: idle_reader_def magic_byte_def)
  have "header_byte ?r x = (HReady, r\<lparr>wr_header := hs, wr_header_used := 8, wr_kind := Uint16 hs,
      wr_payload_expected := unat (Uint32 (drop 4 hs))\<rparr>)"
    using assms(3-6) l by (simp add: header_byte_def d hs EFRP_WIRE_HEADER_SIZE_def Let_def list_update_append)
  moreover have "feed_loop h one r ctx (h7 @ x # rest) = feed_loop h one ?r ctx (x # rest)"
    using feed_header_bytes [OF assms(1), of h7 h one ctx "x # rest"] l by simp
  ultimately show ?thesis using m by (simp add: hs feed_header)
qed

definition same_setup :: "efrp_wire_reader_t \<Rightarrow> efrp_wire_reader_t \<Rightarrow> bool" where
  "same_setup r r' \<longleftrightarrow> wr_capacity r' = wr_capacity r \<and> wr_failure r' = wr_failure r \<and> wr_expect_magic r' = wr_expect_magic r \<and>
     wr_magic_used r' = wr_magic_used r"

lemma feed_frame:
  assumes "idle_reader r" "valid_kind (Type f)" "Flags f = 0" "length (Payload f) \<le> wr_capacity r" "wr_capacity r \<le> 65536"
    and "h ctx (Type f) (Payload f) = (True, ctx')"
  shows "\<exists>r'. idle_reader r' \<and> same_setup r r' \<and> feed_loop h False r ctx (frame_bytes f @ rest) = feed_loop h False r' ctx' rest"
proof -
  let ?n = "length (Payload f)"
  define hs where "hs = PutUint16 (Type f) @ PutUint16 0 @ PutUint32 (word_of_nat ?n)"
  have fb: "frame_bytes f = hs @ Payload f" using assms(3) by (simp add: frame_bytes_def hs_def)
  have "unat (word_of_nat ?n :: 32 word) = ?n" using assms(4,5) by (simp add: unat_of_nat)
  moreover have "drop 4 hs = PutUint32 (word_of_nat ?n)" "Uint16 hs = Type f" "length hs = 8" by (simp_all add: hs_def)
  moreover have "PutUint16 0 = [0, 0]" by code_simp
  then have "hs ! 2 = 0" "hs ! 3 = 0" by (simp_all add: hs_def nth_append)
  ultimately have hs: "length hs = 8" "valid_kind (Uint16 hs)" "hs ! 2 = 0" "hs ! 3 = 0" "unat (Uint32 (drop 4 hs)) = ?n" "Uint16 hs = Type f"
    using assms(2) by simp_all
  let ?r = "r\<lparr>wr_header := hs, wr_header_used := 8, wr_kind := Type f, wr_payload_expected := ?n\<rparr>"
  have z: "wr_payload_used r = 0" "wr_capacity r \<le> length (wr_payload r)" using assms(1) by (auto simp: idle_reader_def reader_ok_def)
  have "feed_loop h False r ctx (frame_bytes f @ rest) = deliver h False ?r ctx (Payload f @ rest)"
    using feed_header_complete [OF assms(1) hs(1-4), of h False ctx "Payload f @ rest"] hs assms(4) by (simp add: fb)
  also have "\<dots> = feed_loop h False (?r\<lparr>wr_payload := Payload f @ drop ?n (wr_payload r), wr_header_used := 0, wr_payload_used := 0,
      wr_payload_expected := 0\<rparr>) ctx' rest" (is "_ = feed_loop h False ?r' ctx' rest")
    using take_payload_eq [of ?r ?n "Payload f @ rest"] z assms(4,6) by (simp add: deliver_def)
  finally have "feed_loop h False r ctx (frame_bytes f @ rest) = feed_loop h False ?r' ctx' rest" .
  moreover have "idle_reader ?r'" "same_setup r ?r'"
    using assms(1,4) z hs(1) by (simp_all add: idle_reader_def reader_ok_def same_setup_def magic_byte_def)
  ultimately show ?thesis by blast
qed

text \<open>Feeding one piece after the other, up to the first error.\<close>

primrec feed_all :: "'c frame_handler \<Rightarrow> efrp_wire_reader_t \<Rightarrow> 'c \<Rightarrow> bytes list \<Rightarrow> (efrp_result_t \<times> efrp_wire_reader_t \<times> 'c) option" where
  "feed_all h r ctx [] = Some (EFRP_OK, r, ctx)"
| "feed_all h r ctx (b # bs) = do {
     (e, r', ctx', rest) \<leftarrow> efrp_wire_feed h r ctx b;
     (if e = EFRP_OK then feed_all h r' ctx' bs else Some (e, r', ctx'))}"

lemma feed_all_concat:
  assumes "reader_ok r" "wr_failure r = EFRP_OK"
  shows "feed_all h r ctx bs = map_option (\<lambda>(e, r', ctx', rest). (e, r', ctx')) (feed_loop h False r ctx (concat bs))"
  using assms
proof (induction bs arbitrary: r ctx)
  case (Cons b bs)
  obtain e r' ctx' rest where f: "feed_loop h False r ctx b = Some (e, r', ctx', rest)"
    and ok: "e = EFRP_OK \<Longrightarrow> reader_ok r' \<and> wr_failure r' = EFRP_OK"
    using feed_loop_good [OF Cons.prems(1), of b h False ctx] Cons.prems(2) unfolding feed_good_def by auto
  show ?case
    using Cons.IH [of r' ctx'] ok f Cons.prems by (simp add: efrp_wire_feed_def feed_loop_append then_feed_def)
qed simp

lemma efrp_wire_init_ok:
  assumes "efrp_wire_init storage capacity magic = Inr r" "capacity \<le> length storage"
  shows "reader_ok r" "wr_failure r = EFRP_OK" "wr_capacity r = capacity" "capacity \<le> 65536" "wr_expect_magic r = magic" "wr_magic_used r = 0"
    "wr_header_used r = 0"
  using assms by (auto simp: efrp_wire_init_def reader_ok_def EFRP_WIRE_MAX_PAYLOAD_def split: if_splits)

lemma efrp_wire_magic_eq: "efrp_wire_magic = MagicV2"
  by code_simp

lemma feed_magic_bytes:
  assumes "reader_ok r" "wr_expect_magic r" "wr_magic_used r \<le> 7" "wr_header_used r = 0"
  shows "feed_loop h one r ctx (drop (wr_magic_used r) efrp_wire_magic @ rest) = feed_loop h one (r\<lparr>wr_magic_used := 7\<rparr>) ctx rest"
  using assms
proof (induction "7 - wr_magic_used r" arbitrary: r)
  case 0
  have l: "length efrp_wire_magic = 7" by (simp add: efrp_wire_magic_def)
  have "wr_magic_used r = 7" using 0 by simp
  then have e: "r\<lparr>wr_magic_used := 7\<rparr> = r" by (cases r) simp
  show ?case unfolding e using 0 l by simp
next
  case (Suc k)
  let ?r = "r\<lparr>wr_magic_used := wr_magic_used r + 1\<rparr>"
  have m: "magic_byte r" using Suc by (simp add: magic_byte_def EFRP_WIRE_MAGIC_SIZE_def)
  have "wr_magic_used r < length efrp_wire_magic" using Suc by (simp add: efrp_wire_magic_def)
  then have "drop (wr_magic_used r) efrp_wire_magic = efrp_wire_magic ! wr_magic_used r # drop (Suc (wr_magic_used r)) efrp_wire_magic"
    by (simp add: Cons_nth_drop_Suc)
  moreover have "reader_ok ?r" using Suc by (auto simp: reader_ok_def magic_byte_def)
  ultimately show ?case using Suc.hyps(1) [of ?r] Suc.hyps(2) Suc.prems m by (simp add: feed_magic Let_def)
qed

definition record_frame :: "(16 word \<times> bytes) list frame_handler" where
  "record_frame log k p = (True, log @ [(k, p)])"

lemma feed_frames:
  assumes "idle_reader r" "wr_capacity r \<le> 65536" "\<forall>f \<in> set fs. valid_kind (Type f) \<and> Flags f = 0 \<and> length (Payload f) \<le> wr_capacity r"
  shows "\<exists>r'. idle_reader r' \<and> same_setup r r' \<and>
    feed_loop record_frame False r log (concat (map frame_bytes fs)) = Some (EFRP_OK, r', log @ map (\<lambda>f. (Type f, Payload f)) fs, [])"
  using assms
proof (induction fs arbitrary: r log)
  case Nil
  then show ?case by (auto simp: same_setup_def)
next
  case (Cons f fs)
  obtain r1 where r1: "idle_reader r1" "same_setup r r1"
    and f: "feed_loop record_frame False r log (frame_bytes f @ concat (map frame_bytes fs)) =
      feed_loop record_frame False r1 (log @ [(Type f, Payload f)]) (concat (map frame_bytes fs))"
    using feed_frame [OF Cons.prems(1), of f record_frame log "log @ [(Type f, Payload f)]"] Cons.prems(2,3) by (auto simp: record_frame_def)
  then show ?case using Cons.IH [OF r1(1), of "log @ [(Type f, Payload f)]"] Cons.prems(2,3) by (fastforce simp: same_setup_def)
qed

text \<open>
  C11. The firmware reads what the Go program writes. Let the Go side write frames of the kinds that the
  protocol has, each small enough for the buffer of the reader, and let the stream arrive in any pieces,
  behind the protocol magic if the reader expects it. Then every call of the reader succeeds, its handler
  is called with exactly these frames in this order, and the reader ends between two frames.
\<close>

theorem esp_reads_go_frames:
  assumes "WriteFrames c fs = (None, c')" and "efrp_wire_init storage capacity magic = Inr r" "capacity \<le> length storage"
    and "\<forall>f \<in> set fs. valid_kind (Type f) \<and> length (Payload f) \<le> capacity"
    and "concat pieces = (if magic then MagicV2 else []) @ drop (length (wr (rw c))) (wr (rw c'))"
  shows "\<exists>r'. feed_all record_frame r [] pieces = Some (EFRP_OK, r', map (\<lambda>f. (Type f, Payload f)) fs) \<and> efrp_wire_finish r' = EFRP_OK"
proof -
  note w = WriteFrames_success [OF assms(1)] and i = efrp_wire_init_ok [OF assms(2,3)]
  have s: "concat pieces = (if magic then efrp_wire_magic else []) @ concat (map frame_bytes fs)"
    using w assms(5) by (simp add: efrp_wire_magic_eq)
  let ?r = "if magic then r\<lparr>wr_magic_used := 7\<rparr> else r"
  have f: "feed_loop record_frame False r [] (concat pieces) = feed_loop record_frame False ?r [] (concat (map frame_bytes fs))"
    using feed_magic_bytes [OF i(1), of record_frame False "[]" "concat (map frame_bytes fs)"] i by (simp add: s)
  have idle: "idle_reader ?r" using i by (auto simp: idle_reader_def reader_ok_def magic_byte_def EFRP_WIRE_MAGIC_SIZE_def)
  have fs: "\<forall>f \<in> set fs. valid_kind (Type f) \<and> Flags f = 0 \<and> length (Payload f) \<le> wr_capacity ?r"
    using assms(4) w i(3) by (auto simp: frame_ok_def list_all_iff)
  have cap: "wr_capacity ?r \<le> 65536" using i(3,4) by simp
  obtain r' where r': "idle_reader r'" "same_setup ?r r'"
    "feed_loop record_frame False ?r [] (concat (map frame_bytes fs)) = Some (EFRP_OK, r', map (\<lambda>f. (Type f, Payload f)) fs, [])"
    using feed_frames [OF idle cap fs, of "[]"] by auto
  then have "feed_all record_frame r [] pieces = Some (EFRP_OK, r', map (\<lambda>f. (Type f, Payload f)) fs)"
    using feed_all_concat [OF i(1,2), of record_frame "[]" pieces] f by simp
  moreover have "efrp_wire_finish r' = EFRP_OK"
    using r'(1,2) i by (auto simp: efrp_wire_finish_def idle_reader_def same_setup_def EFRP_WIRE_MAGIC_SIZE_def)
  ultimately show ?thesis by blast
qed


theorem esp_reads_go_frames_witness:
  "\<exists>r r'. efrp_wire_init (replicate 64 0) 64 True = Inr r \<and>
     feed_all record_frame r [] (map (\<lambda>x. [x]) (MagicV2 @ concat (map frame_bytes demo_frames))) =
       Some (EFRP_OK, r', map (\<lambda>f. (Type f, Payload f)) demo_frames) \<and> efrp_wire_finish r' = EFRP_OK"
proof -
  obtain r where r: "efrp_wire_init (replicate 64 0) 64 True = Inr r" by (simp add: efrp_wire_init_def EFRP_WIRE_MAX_PAYLOAD_def)
  have k: "\<forall>f \<in> set demo_frames. valid_kind (Type f) \<and> length (Payload f) \<le> 64" by (simp add: demo_frames_def valid_kind_def)
  have "concat (map (\<lambda>x. [x]) (MagicV2 @ concat (map frame_bytes demo_frames))) =
      (if True then MagicV2 else []) @ drop (length (wr (rw (NewConn idle)))) (wr (rw (NewConn (idle\<lparr>wr := concat (map frame_bytes demo_frames)\<rparr>))))"
    by (simp add: NewConn_def idle_def)
  from esp_reads_go_frames [OF demo_frames_written r _ k this] show ?thesis using r by simp
qed

text \<open>
  C12. How the stream is cut into pieces makes no difference, whatever the bytes are: from a fresh reader and with any
  handler, the calls end with the same result, the same state of the reader and the same state of the
  handler, the reader stays inside its buffers, and after an error it accepts nothing more.
\<close>

theorem esp_reader_pieces:
  assumes "efrp_wire_init storage capacity magic = Inr r" "capacity \<le> length storage" "concat bs = concat cs"
  shows "\<exists>e r' ctx'. feed_all h r ctx bs = Some (e, r', ctx') \<and> feed_all h r ctx cs = Some (e, r', ctx') \<and>
    (e \<noteq> EFRP_OK \<longrightarrow> efrp_wire_feed h r' ctx' b = Some (e, r', ctx', b))"
proof -
  note i = efrp_wire_init_ok [OF assms(1,2)]
  obtain e r' ctx' rest where f: "feed_loop h False r ctx (concat bs) = Some (e, r', ctx', rest)" and "e \<noteq> EFRP_OK \<longrightarrow> wr_failure r' = e"
    using feed_loop_good [OF i(1), of "concat bs" h False ctx] unfolding feed_good_def by blast
  then show ?thesis
    using assms(3) feed_all_concat [OF i(1,2), of h ctx bs] feed_all_concat [OF i(1,2), of h ctx cs] by (simp add: efrp_wire_feed_def)
qed

theorem esp_reader_pieces_witness:
  "\<exists>r e r' log. efrp_wire_init (replicate 64 0) 64 False = Inr r \<and> feed_all record_frame r [] [[0, 16, 0], [1]] = Some (e, r', log) \<and>
     feed_all record_frame r [] [[0, 16, 0, 1]] = Some (e, r', log)"
proof -
  obtain r where r: "efrp_wire_init (replicate 64 0) 64 False = Inr r" by (simp add: efrp_wire_init_def EFRP_WIRE_MAX_PAYLOAD_def)
  from esp_reader_pieces [OF r, of "[[0, 16, 0], [1]]" "[[0, 16, 0, 1]]" record_frame "[]" "[]"] r show ?thesis by auto
qed

lemma efrp_wire_header_go:
  assumes "valid_kind k" "n \<le> 65536"
  shows "efrp_wire_header k n = Inr (PutUint16 k @ PutUint16 0 @ PutUint32 (word_of_nat n))"
proof -
  have w: "word_of_nat (a mod 256) = (word_of_nat a :: byte)" for a :: nat by (simp add: word_unat_eq_iff unat_of_nat)
  have "unat (word_of_nat n :: 32 word) = n" using assms(2) by (simp add: unat_of_nat)
  moreover have four: "4 = Suc (Suc (Suc (Suc 0)))" and two: "2 = Suc (Suc 0)" by simp_all
  have "be_put 4 n = [word_of_nat (n div 2 ^ 24), word_of_nat (n div 2 ^ 16), word_of_nat (n div 2 ^ 8), word_of_nat n]"
    unfolding four be_put.simps by (simp add: w div_mult2_eq [symmetric])
  moreover have "be_put 2 (unat k) = [word_of_nat (unat k div 256), word_of_nat (unat k)]" "be_put 2 0 = [0, 0]"
    unfolding two be_put.simps by (simp_all add: w)
  ultimately show ?thesis
    using assms by (simp add: efrp_wire_header_def PutUint16_def PutUint32_def EFRP_WIRE_MAX_PAYLOAD_def)
qed

end
