(* ===== verification/EspBinding.thy ===== *)
theory EspBinding
  imports EspMemory Binding
begin

text \<open>
  The candidate binding of the firmware (\<open>src/src/xtcp_binding.c\<close>) and the test of UTF-8 text it shares with the JSON
  helpers (\<open>efrp_json_utf8\<close> in \<open>src/src/json_internal.c\<close>). SHA-256 is the argument \<open>H\<close>, as it is for the Go program; its
  failure in the crypto backend is the argument \<open>up\<close>. HMAC is built from it in C, while the Go program takes
  it from its library. Arrays of 32 bytes are lists of that length. Output buffers are results; that they
  are cleared on failure is the absence of a result.
\<close>

section \<open>Text\<close>

definition json_lead :: "byte \<Rightarrow> (nat \<times> 32 word \<times> 32 word) option" where
  "json_lead first =
     (if 0xc2 \<le> first \<and> first \<le> 0xdf then Some (1, 0x80, ucast first AND 31)
      else if 0xe0 \<le> first \<and> first \<le> 0xef then Some (2, 0x800, ucast first AND 15)
      else if 0xf0 \<le> first \<and> first \<le> 0xf4 then Some (3, 0x10000, ucast first AND 7)
      else None)"

definition json_shift :: "32 word \<Rightarrow> byte \<Rightarrow> 32 word" where
  "json_shift cp c = push_bit 6 cp OR (ucast c AND 63)"

text \<open>The inner loop returns the code point, or nothing when a byte is no continuation byte.\<close>

fun json_continuation :: "bytes \<Rightarrow> nat \<Rightarrow> nat \<Rightarrow> 32 word \<Rightarrow> 32 word option option" where
  "json_continuation p i 0 cp = Some (Some cp)"
| "json_continuation p i (Suc k) cp = do {
     c \<leftarrow> index p i;
     (if c AND 0xc0 \<noteq> 0x80 then Some None
      else json_continuation p (i + 1) k (json_shift cp c))}"

function json_utf8_loop :: "bytes \<Rightarrow> nat \<Rightarrow> nat \<Rightarrow> bool option" where
  "json_utf8_loop p n i =
     (if n \<le> i then Some True
      else do {
        first \<leftarrow> index p i;
        (if first = 0 then Some False
         else if first < 128 then json_utf8_loop p n (i + 1)
         else (case json_lead first of
             None \<Rightarrow> Some False
           | Some (extra, minimum, cp) \<Rightarrow>
               if n - (i + 1) < extra then Some False
               else do {
                 r \<leftarrow> json_continuation p (i + 1) extra cp;
                 (case r of
                    None \<Rightarrow> Some False
                  | Some cp \<Rightarrow>
                      if cp < minimum \<or> 0x10ffff < cp \<or> (0xd800 \<le> cp \<and> cp \<le> 0xdfff) then Some False
                      else json_utf8_loop p n (i + 1 + extra))}))})"
  by pat_completeness auto
termination by (relation "measure (\<lambda>(p, n, i). n - i)") auto

declare json_utf8_loop.simps [simp del]

definition efrp_json_utf8 :: "bytes \<Rightarrow> nat \<Rightarrow> bool option" where
  "efrp_json_utf8 p n = json_utf8_loop p n 0"

section \<open>Manifests\<close>

record efrp_xtcp_binding_manifest_t =
  bm_proxy_name :: "bytes option"
  bm_proxy_name_length :: nat
  bm_sid :: bytes
  bm_provider_control_id :: bytes
  bm_visitor_control_id :: bytes
  bm_provider_nonce :: bytes
  bm_visitor_nonce :: bytes
  bm_provider_spki_sha256 :: bytes
  bm_visitor_spki_sha256 :: bytes
  bm_issued_at_seconds :: "64 word"
  bm_expires_at_seconds :: "64 word"

definition manifest_magic :: bytes where
  "manifest_magic = map of_char [CHR ''E'', CHR ''F'', CHR ''R'', CHR ''P'', CHR ''X'', CHR ''T'', CHR ''C'', CHR ''1'']"

definition proof_magic :: bytes where
  "proof_magic = map of_char [CHR ''X'', CHR ''T'', CHR ''P'', CHR ''1'']"

definition nonzero :: "bytes \<Rightarrow> bool" where
  "nonzero b \<longleftrightarrow> foldl (OR) 0 b \<noteq> 0"

definition equal_bytes :: "bytes \<Rightarrow> bytes \<Rightarrow> nat \<Rightarrow> bool" where
  "equal_bytes l r n \<longleftrightarrow> foldl (\<lambda>m i. m OR (l ! i XOR r ! i)) 0 [0..<n] = 0"

definition role_valid :: "byte \<Rightarrow> bool" where
  "role_valid role \<longleftrightarrow> role = 1 \<or> role = 2"

definition binding_fields :: "efrp_xtcp_binding_manifest_t \<Rightarrow> bytes list" where
  "binding_fields m = [bm_sid m, bm_provider_control_id m, bm_visitor_control_id m, bm_provider_nonce m, bm_visitor_nonce m,
     bm_provider_spki_sha256 m, bm_visitor_spki_sha256 m]"

definition shape :: "efrp_xtcp_binding_manifest_t option \<Rightarrow> efrp_result_t option" where
  "shape mp =
     (case mp of
        None \<Rightarrow> Some EFRP_INVALID_ARGUMENT
      | Some m \<Rightarrow>
          (case bm_proxy_name m of
             None \<Rightarrow> Some EFRP_INVALID_ARGUMENT
           | Some name \<Rightarrow>
               if bm_proxy_name_length m = 0 \<or> 128 < bm_proxy_name_length m then Some EFRP_INVALID_ARGUMENT
               else do {
                 ok \<leftarrow> efrp_json_utf8 name (bm_proxy_name_length m);
                 (if \<not> ok \<or> bm_issued_at_seconds m = 0 \<or> bm_expires_at_seconds m \<le> bm_issued_at_seconds m \<or>
                    60 < bm_expires_at_seconds m - bm_issued_at_seconds m then Some EFRP_INVALID_ARGUMENT
                  else do {
                    cs \<leftarrow> mem name 0 (bm_proxy_name_length m);
                    (if list_ex (\<lambda>c. c < 0x20 \<or> c = 0x7f) cs then Some EFRP_INVALID_ARGUMENT
                     else if \<not> list_all nonzero (binding_fields m) then Some EFRP_INVALID_ARGUMENT
                     else Some EFRP_OK)})}))"

definition efrp_xtcp_binding_validate :: "efrp_xtcp_binding_manifest_t option \<Rightarrow> 64 word \<Rightarrow> efrp_result_t option" where
  "efrp_xtcp_binding_validate mp now = do {
     e \<leftarrow> shape mp;
     Some (if e \<noteq> EFRP_OK then e
           else if now < bm_issued_at_seconds (the mp) \<or> bm_expires_at_seconds (the mp) \<le> now then EFRP_TIMEOUT else EFRP_OK)}"

text \<open>The spans that are hashed or written one after the other.\<close>

definition make_spans :: "efrp_xtcp_binding_manifest_t \<Rightarrow> bytes list option" where
  "make_spans m = do {
     name \<leftarrow> mem (case bm_proxy_name m of None \<Rightarrow> [] | Some b \<Rightarrow> b) 0 (bm_proxy_name_length m);
     Some ([manifest_magic, [word_of_nat (bm_proxy_name_length m)], name] @ binding_fields m @
       [PutUint64 (bm_issued_at_seconds m) @ PutUint64 (bm_expires_at_seconds m)])}"

definition efrp_xtcp_binding_encode :: "efrp_xtcp_binding_manifest_t option \<Rightarrow> nat \<Rightarrow> (efrp_result_t + bytes) option" where
  "efrp_xtcp_binding_encode mp capacity = do {
     e \<leftarrow> shape mp;
     (if e \<noteq> EFRP_OK then Some (Inl e)
      else if capacity < 249 + bm_proxy_name_length (the mp) then Some (Inl EFRP_CAPACITY_EXCEEDED)
      else do {spans \<leftarrow> make_spans (the mp); Some (Inr (concat spans))})}"

fun load_fields :: "bytes \<Rightarrow> nat \<Rightarrow> nat \<Rightarrow> bytes list option" where
  "load_fields wire offset 0 = Some []"
| "load_fields wire offset (Suc n) = do {
     f \<leftarrow> mem wire offset 32;
     fs \<leftarrow> load_fields wire (offset + 32) n;
     Some (f # fs)}"

definition efrp_xtcp_binding_decode :: "bytes \<Rightarrow> 64 word \<Rightarrow> (efrp_result_t + efrp_xtcp_binding_manifest_t) option" where
  "efrp_xtcp_binding_decode wire now =
     (let n = length wire in
      if n < 250 \<or> 377 < n then Some (Inl EFRP_PROTOCOL_ERROR)
      else do {
        k \<leftarrow> index wire 8;
        (if \<not> equal_bytes wire manifest_magic 8 \<or> k = 0 \<or> 128 < k \<or> n \<noteq> 249 + unat k then Some (Inl EFRP_PROTOCOL_ERROR)
         else let offset = 9 + unat k in do {
           fs \<leftarrow> load_fields wire offset 7;
           t1 \<leftarrow> mem wire (offset + 224) 8;
           t2 \<leftarrow> mem wire (offset + 232) 8;
           let m = \<lparr>bm_proxy_name = Some (drop 9 wire), bm_proxy_name_length = unat k, bm_sid = fs ! 0,
             bm_provider_control_id = fs ! 1, bm_visitor_control_id = fs ! 2, bm_provider_nonce = fs ! 3, bm_visitor_nonce = fs ! 4,
             bm_provider_spki_sha256 = fs ! 5, bm_visitor_spki_sha256 = fs ! 6, bm_issued_at_seconds = Uint64 t1,
             bm_expires_at_seconds = Uint64 t2\<rparr>;
           e \<leftarrow> efrp_xtcp_binding_validate (Some m) now;
           Some (if e = EFRP_OK then Inr m else Inl (if e = EFRP_INVALID_ARGUMENT then EFRP_PROTOCOL_ERROR else e))})})"

section \<open>Proofs\<close>

text \<open>\<open>efrp_crypto_hash\<close> of spans: \<open>up\<close> says whether the backend works.\<close>

definition crypto_hash :: "(bytes \<Rightarrow> bytes) \<Rightarrow> bool \<Rightarrow> bytes list \<Rightarrow> efrp_result_t + bytes" where
  "crypto_hash H up spans = (if up then Inr (H (concat spans)) else Inl EFRP_CRYPTO_ERROR)"

definition efrp_xtcp_binding_hash :: "(bytes \<Rightarrow> bytes) \<Rightarrow> bool \<Rightarrow> efrp_xtcp_binding_manifest_t option \<Rightarrow> (efrp_result_t + bytes) option" where
  "efrp_xtcp_binding_hash H up mp = do {
     e \<leftarrow> shape mp;
     (if e \<noteq> EFRP_OK then Some (Inl e) else do {spans \<leftarrow> make_spans (the mp); Some (crypto_hash H up spans)})}"

definition efrp_xtcp_binding_check_local ::
    "efrp_xtcp_binding_manifest_t option \<Rightarrow> byte \<Rightarrow> bytes \<Rightarrow> bytes \<Rightarrow> bytes \<Rightarrow> efrp_result_t option" where
  "efrp_xtcp_binding_check_local mp role control nonce spki = do {
     e \<leftarrow> shape mp;
     Some (if e \<noteq> EFRP_OK then e
           else if \<not> role_valid role then EFRP_INVALID_ARGUMENT
           else let m = the mp;
                    (c, n, s) = (if role = 1 then (bm_provider_control_id m, bm_provider_nonce m, bm_provider_spki_sha256 m)
                                 else (bm_visitor_control_id m, bm_visitor_nonce m, bm_visitor_spki_sha256 m))
             in if equal_bytes spki s 32 \<and> equal_bytes nonce n 32 \<and> equal_bytes control c 32 then EFRP_OK else EFRP_AUTHENTICATION_FAILED)}"

definition efrp_xtcp_binding_hmac :: "(bytes \<Rightarrow> bytes) \<Rightarrow> bool \<Rightarrow> bytes \<Rightarrow> bytes list \<Rightarrow> efrp_result_t + bytes" where
  "efrp_xtcp_binding_hmac H up key parts =
     (if key = [] \<or> 128 < length key \<or> 8 < length parts then Inl EFRP_INVALID_ARGUMENT
      else (case (if 64 < length key then crypto_hash H up [key] else Inr key) of
          Inl e \<Rightarrow> Inl e
        | Inr key \<Rightarrow>
            let pad = (\<lambda>c. map (\<lambda>i. (if i < length key then key ! i else 0) XOR c) [0..<64]) in
            (case crypto_hash H up (pad 0x36 # parts) of
               Inl e \<Rightarrow> Inl e
             | Inr inner \<Rightarrow> crypto_hash H up [pad 0x5c, inner])))"

definition proof_mac :: "(bytes \<Rightarrow> bytes) \<Rightarrow> bool \<Rightarrow> bytes \<Rightarrow> byte \<Rightarrow> bytes \<Rightarrow> efrp_result_t + bytes" where
  "proof_mac H up exporter role digest =
     efrp_xtcp_binding_hmac H up exporter [string_bytes ''esp-frp-xtcp-proof-v1'', [role], digest]"

definition efrp_xtcp_binding_signal_proof ::
    "(bytes \<Rightarrow> bytes) \<Rightarrow> bool \<Rightarrow> bytes \<Rightarrow> byte \<Rightarrow> bytes \<Rightarrow> bytes \<Rightarrow> bytes \<Rightarrow> bytes \<Rightarrow> int \<Rightarrow> (efrp_result_t + bytes) option" where
  "efrp_xtcp_binding_signal_proof H up secret role proxy control nonce spki timestamp =
     (if secret = [] \<or> 128 < length secret \<or> \<not> role_valid role \<or> proxy = [] \<or> 128 < length proxy
      then Some (Inl EFRP_INVALID_ARGUMENT)
      else do {
        ok \<leftarrow> efrp_json_utf8 proxy (length proxy);
        (if \<not> ok \<or> \<not> nonzero control \<or> \<not> nonzero nonce \<or> \<not> nonzero spki \<or> timestamp \<le> 0 then Some (Inl EFRP_INVALID_ARGUMENT)
         else Some (efrp_xtcp_binding_hmac H up secret
           [string_bytes ''esp-frp-xtcp-signal-v1'', [role, word_of_nat (length proxy)], proxy, control, nonce, spki,
            PutUint64 (word_of_int timestamp)]))})"

definition efrp_xtcp_binding_make_proof ::
    "(bytes \<Rightarrow> bytes) \<Rightarrow> bool \<Rightarrow> efrp_xtcp_binding_manifest_t option \<Rightarrow> byte \<Rightarrow> bytes \<Rightarrow> (efrp_result_t + bytes) option" where
  "efrp_xtcp_binding_make_proof H up mp role exporter =
     (if \<not> role_valid role \<or> \<not> nonzero exporter then Some (Inl EFRP_INVALID_ARGUMENT)
      else do {
        d \<leftarrow> efrp_xtcp_binding_hash H up mp;
        Some (case d of
            Inl e \<Rightarrow> Inl e
          | Inr digest \<Rightarrow> map_sum id (\<lambda>t. proof_magic @ [role] @ digest @ t) (proof_mac H up exporter role digest))})"

definition efrp_xtcp_binding_verify_proof ::
    "(bytes \<Rightarrow> bytes) \<Rightarrow> bool \<Rightarrow> efrp_xtcp_binding_manifest_t option \<Rightarrow> byte \<Rightarrow> bytes \<Rightarrow> bytes \<Rightarrow> efrp_result_t option" where
  "efrp_xtcp_binding_verify_proof H up mp role exporter proof =
     (if \<not> role_valid role then Some EFRP_INVALID_ARGUMENT
      else if length proof \<noteq> 69 \<or> \<not> equal_bytes proof proof_magic 4 \<or> proof ! 4 \<noteq> role then Some EFRP_PROTOCOL_ERROR
      else do {
        r \<leftarrow> efrp_xtcp_binding_make_proof H up mp role exporter;
        Some (case r of
            Inl e \<Rightarrow> e
          | Inr expected \<Rightarrow> if equal_bytes proof expected 69 then EFRP_OK else EFRP_AUTHENTICATION_FAILED)})"

section \<open>Comparisons and text\<close>

lemma foldl_or_zero: "foldl (\<lambda>m x. m OR f x) a xs = (0 :: byte) \<longleftrightarrow> a = 0 \<and> (\<forall>x \<in> set xs. f x = 0)"
  by (induction xs arbitrary: a) (auto simp: or_eq_0_iff)

lemma nonzero_Nonzero: "nonzero b = Nonzero b"
  using foldl_or_zero [of "\<lambda>x. x" 0 b] by (auto simp: nonzero_def Nonzero_def list_ex_iff)

lemma xor_zero_iff: "(x :: byte) XOR y = 0 \<longleftrightarrow> x = y"
  by (metis xor.left_neutral xor.right_neutral xor_self_eq xor.assoc)

lemma equal_bytes_iff: "n \<le> length l \<Longrightarrow> n \<le> length r \<Longrightarrow> equal_bytes l r n \<longleftrightarrow> take n l = take n r"
  unfolding equal_bytes_def foldl_or_zero by (auto simp: xor_zero_iff list_eq_iff_nth_eq)

lemma unat_take_bit: "unat (take_bit n (w :: 'a::len word)) = unat w mod 2 ^ n"
  using unsigned_take_bit_eq [of n w] by (simp add: take_bit_eq_mod del: unsigned_take_bit_eq)

lemma unat_push_bit: "unat (w :: 'a::len word) * 2 ^ n < 2 ^ LENGTH('a) \<Longrightarrow> unat (push_bit n w) = unat w * 2 ^ n"
proof -
  assume "unat w * 2 ^ n < 2 ^ LENGTH('a)"
  then have "take_bit LENGTH('a) (push_bit n (unat w)) = unat w * 2 ^ n" by (simp add: push_bit_eq_mult take_bit_nat_eq_self)
  then show ?thesis by (simp only: unsigned_push_bit_eq)
qed

lemma div_64: "u div 64 * 64 = 128 \<longleftrightarrow> 128 \<le> u \<and> u \<le> (191 :: nat)"
  using div_mult_mod_eq [of u 64] mod_less_divisor [of 64 u] by (cases "u div 64 = 2") auto

lemma continuation_bits: "(c AND 0xc0 = (0x80 :: byte)) = cont c"
proof -
  have "c AND 0xc0 = push_bit 6 (drop_bit 6 c)"
  proof (rule bit_eqI)
    fix n
    assume "possible_bit TYPE(8 word) n"
    then have "n = 0 \<or> n = 1 \<or> n = 2 \<or> n = 3 \<or> n = 4 \<or> n = 5 \<or> n = 6 \<or> n = 7" by auto
    then show "bit (c AND 0xc0) n = bit (push_bit 6 (drop_bit 6 c)) n"
      by (auto simp: bit_and_iff bit_push_bit_iff bit_drop_bit_eq)
  qed
  moreover have d: "unat (drop_bit 6 c) = unat c div 64" unfolding unat_drop_bit_eq by (simp add: drop_bit_eq_div)
  have "unat c < 256" using unat_less_pow [of c] by simp
  then have "unat (push_bit 6 (drop_bit 6 c)) = unat c div 64 * 64" using unat_push_bit [of "drop_bit 6 c" 6] d by simp
  ultimately have "(c AND 0xc0 = 0x80) \<longleftrightarrow> unat c div 64 * 64 = 128" by (simp add: word_unat_eq_iff)
  also have "\<dots> \<longleftrightarrow> 128 \<le> unat c \<and> unat c \<le> 191" by (rule div_64)
  finally show ?thesis by (simp add: cont_def word_le_nat_alt)
qed

lemma unat_ucast_byte: "unat (ucast (c :: byte) :: 32 word) = unat c"
  using unat_less_pow [of c] by (simp add: unsigned_ucast_eq take_bit_nat_eq_self)

lemma unat_and_mask: "unat (ucast (c :: byte) AND mask n :: 32 word) = unat c mod 2 ^ n"
  using unat_take_bit [of n "ucast c :: 32 word"] by (simp add: take_bit_eq_mask unat_ucast_byte)

lemma json_bits:
  "unat (ucast c AND 63 :: 32 word) = unat (c :: byte) mod 64" "unat (ucast c AND 31 :: 32 word) = unat c mod 32"
  "unat (ucast c AND 15 :: 32 word) = unat c mod 16" "unat (ucast c AND 7 :: 32 word) = unat c mod 8"
  using unat_and_mask [of c 6] unat_and_mask [of c 5] unat_and_mask [of c 4] unat_and_mask [of c 3]
  by (simp_all add: mask_eq_exp_minus_1)

lemma unat_shift_or:
  assumes "unat (cp :: 32 word) < 2 ^ 20"
  shows "unat (push_bit 6 cp OR (ucast (c :: byte) AND 63)) = unat cp * 64 + unat c mod 64"
proof -
  have "(63 :: 32 word) = mask 6" by (simp add: mask_eq_exp_minus_1)
  then have "push_bit 6 cp AND (ucast c AND 63) = push_bit 6 cp AND (ucast c AND mask 6)" by (simp only:)
  also have "\<dots> = 0" by (intro bit_eqI) (auto simp: bit_and_iff bit_push_bit_iff bit_mask_iff simp del: mask_numeral)
  finally have "push_bit 6 cp AND (ucast c AND 63) = 0" .
  then have "push_bit 6 cp OR (ucast c AND 63) = push_bit 6 cp + (ucast c AND 63)" by (simp add: disjunctive_add_eq_or)
  moreover have p: "unat (push_bit 6 cp) = unat cp * 64" using assms unat_push_bit [of cp 6] by simp
  moreover have "unat c mod 64 < 64" by simp
  then have "unat cp * 64 + unat c mod 64 < 2 ^ 32" using assms by simp
  ultimately show ?thesis using json_bits(1) [of c] p unat_word_ariths(1) [of "push_bit 6 cp" "ucast c AND 63"] by simp
qed

definition cp_of :: "32 word \<Rightarrow> bytes \<Rightarrow> 32 word" where
  "cp_of cp cs = foldl json_shift cp cs"

lemma json_continuation_eq:
  "i + k \<le> length p \<Longrightarrow> json_continuation p i k cp =
     Some (if list_all cont (take k (drop i p)) then Some (cp_of cp (take k (drop i p))) else None)"
proof (induction k arbitrary: i cp)
  case (Suc k)
  have "take (Suc k) (drop i p) = p ! i # take k (drop (Suc i) p)"
    using Suc.prems by (simp add: Cons_nth_drop_Suc [symmetric])
  then show ?case using Suc by (auto simp: continuation_bits cp_of_def)
qed (simp add: cp_of_def)

text \<open>A sequence with its continuation bytes is well formed exactly when the code point is in range.\<close>

definition cp_range :: "32 word \<Rightarrow> 32 word \<Rightarrow> bool" where
  "cp_range minimum cp \<longleftrightarrow> \<not> (cp < minimum \<or> 0x10ffff < cp \<or> (0xd800 \<le> cp \<and> cp \<le> 0xdfff))"

lemma cont_unat: "cont b \<longleftrightarrow> 128 \<le> unat b \<and> unat b \<le> 191"
  by (simp add: cont_def word_le_nat_alt)

lemma mod_off: "x = q * m + r \<Longrightarrow> r < m \<Longrightarrow> x mod m = (r :: nat)"
  by simp

lemma json_shift_unat:
  assumes "unat cp < 2 ^ 20" "unat c = 128 + y" "y < 64"
  shows "unat (json_shift cp c) = unat cp * 64 + y"
  using unat_shift_or [OF assms(1), of c] mod_off [of "unat c" 2 64 y] assms(2,3) by (simp add: json_shift_def)

lemma cont_obtain:
  assumes "cont b"
  obtains y where "unat b = 128 + y" "y < 64"
proof
  show "unat b = 128 + (unat b - 128)" "unat b - 128 < 64" using assms by (auto simp: cont_unat)
qed

lemma two_bytes:
  assumes "unat (a :: byte) = 192 + x" "2 \<le> x" "x < 32" "cont b"
  shows "cp_range 0x80 (cp_of (ucast a AND 31) [b])"
proof -
  obtain y where y: "unat b = 128 + y" "y < 64" using cont_obtain [OF assms(4)] .
  have a: "unat (ucast a AND 31 :: 32 word) = x" using mod_off [of "unat a" 6 32 x] json_bits(2) [of a] assms(1,3) by simp
  have "unat (cp_of (ucast a AND 31) [b]) = x * 64 + y"
    using json_shift_unat [OF _ y, of "ucast a AND 31"] a assms(3) by (simp add: cp_of_def)
  then show ?thesis using assms(2,3) y(2) by (simp add: cp_range_def word_le_nat_alt word_less_nat_alt)
qed

lemma three_bytes:
  assumes "unat (a :: byte) = 224 + x" "x < 16" "cont b" "cont c"
  shows "cp_range 0x800 (cp_of (ucast a AND 15) [b, c]) \<longleftrightarrow> (if x = 0 then 160 else 128) \<le> unat b \<and> unat b \<le> (if x = 13 then 159 else 191)"
proof -
  obtain y where y: "unat b = 128 + y" "y < 64" using cont_obtain [OF assms(3)] .
  obtain z where z: "unat c = 128 + z" "z < 64" using cont_obtain [OF assms(4)] .
  have a: "unat (ucast a AND 15 :: 32 word) = x" using mod_off [of "unat a" 14 16 x] json_bits(3) [of a] assms(1,2) by simp
  have s1: "unat (json_shift (ucast a AND 15) b) = x * 64 + y" using json_shift_unat [OF _ y, of "ucast a AND 15"] a assms(2) by simp
  have "unat (cp_of (ucast a AND 15) [b, c]) = (x * 64 + y) * 64 + z"
    using json_shift_unat [OF _ z, of "json_shift (ucast a AND 15) b"] s1 assms(2) y(2) by (simp add: cp_of_def)
  then show ?thesis using assms(2) y z(2) by (auto simp: cp_range_def word_le_nat_alt word_less_nat_alt)
qed

lemma four_bytes:
  assumes "unat (a :: byte) = 240 + x" "x < 5" "cont b" "cont c" "cont d"
  shows "cp_range 0x10000 (cp_of (ucast a AND 7) [b, c, d]) \<longleftrightarrow> (if x = 0 then 144 else 128) \<le> unat b \<and> unat b \<le> (if x = 4 then 143 else 191)"
proof -
  obtain y where y: "unat b = 128 + y" "y < 64" using cont_obtain [OF assms(3)] .
  obtain z where z: "unat c = 128 + z" "z < 64" using cont_obtain [OF assms(4)] .
  obtain w where w: "unat d = 128 + w" "w < 64" using cont_obtain [OF assms(5)] .
  have a: "unat (ucast a AND 7 :: 32 word) = x" using mod_off [of "unat a" 30 8 x] json_bits(4) [of a] assms(1,2) by simp
  have s1: "unat (json_shift (ucast a AND 7) b) = x * 64 + y" using json_shift_unat [OF _ y, of "ucast a AND 7"] a assms(2) by simp
  have s2: "unat (json_shift (json_shift (ucast a AND 7) b) c) = (x * 64 + y) * 64 + z"
    using json_shift_unat [OF _ z, of "json_shift (ucast a AND 7) b"] s1 assms(2) y(2) by simp
  have "unat (cp_of (ucast a AND 7) [b, c, d]) = ((x * 64 + y) * 64 + z) * 64 + w"
    using json_shift_unat [OF _ w, of "json_shift (json_shift (ucast a AND 7) b) c"] s2 assms(2) y(2) z(2) by (simp add: cp_of_def)
  then show ?thesis using assms(2) y z(2) w(2) by (auto simp: cp_range_def word_le_nat_alt word_less_nat_alt)
qed

lemma cont_bounds:
  assumes "low \<in> {128, 144, 160}" "high \<in> {143, 159, 191}"
  shows "(low \<le> b \<and> b \<le> high) = (cont b \<and> unat low \<le> unat b \<and> unat b \<le> unat (high :: byte))"
  using assms by (auto simp: cont_unat word_le_nat_alt)

lemma json_lead_utf8:
  assumes "\<not> a < 128"
  shows "utf8_Valid (a # bs) \<longleftrightarrow> (case json_lead a of
      None \<Rightarrow> False
    | Some (k, minimum, cp) \<Rightarrow> k \<le> length bs \<and> list_all cont (take k bs) \<and> cp_range minimum (cp_of cp (take k bs)) \<and> utf8_Valid (drop k bs))"
  supply utf8_Valid.simps(2) [simp del]
proof -
  have n: "(194 \<le> a) = (194 \<le> unat a)" "(a \<le> 223) = (unat a \<le> 223)" "(224 \<le> a) = (224 \<le> unat a)" "(a \<le> 239) = (unat a \<le> 239)"
    "(240 \<le> a) = (240 \<le> unat a)" "(a \<le> 244) = (unat a \<le> 244)" by (simp_all add: word_le_nat_alt)
  have "\<not> (194 \<le> unat a \<and> unat a \<le> 244) \<or> (\<exists>x. unat a = 192 + x \<and> 2 \<le> x \<and> x < 32) \<or> (\<exists>x. unat a = 224 + x \<and> x < 16) \<or> (\<exists>x. unat a = 240 + x \<and> x < 5)"
    by presburger
  then consider (no) "\<not> (194 \<le> unat a \<and> unat a \<le> 244)" | (2) x where "unat a = 192 + x" "2 \<le> x" "x < 32"
    | (3) x where "unat a = 224 + x" "x < 16" | (4) x where "unat a = 240 + x" "x < 5" by blast
  then show ?thesis
  proof cases
    case 2
    then have j: "json_lead a = Some (1, 0x80, ucast a AND 31)" and u: "utf8_lead a = Some (1, 0x80, 0xbf)"
      by (simp_all add: json_lead_def utf8_lead_def n)
    show ?thesis
      unfolding utf8_lead_cases [OF assms] j u using two_bytes [OF 2] by (cases bs) (auto simp: cont_def)
  next
    case 3
    have e: "(a = 224) = (x = 0)" "(a = 237) = (x = 13)" using 3 by (auto simp: word_unat_eq_iff)
    let ?l = "if x = 0 then 0xa0 else 0x80 :: byte" and ?h = "if x = 13 then 0x9f else 0xbf :: byte"
    have j: "json_lead a = Some (2, 0x800, ucast a AND 15)" and u: "utf8_lead a = Some (2, ?l, ?h)"
      using 3 by (simp_all add: json_lead_def utf8_lead_def n e)
    have b: "(?l \<le> b \<and> b \<le> ?h) = (cont b \<and> (if x = 0 then 160 else 128) \<le> unat b \<and> unat b \<le> (if x = 13 then 159 else 191))" for b
      using cont_bounds [of ?l ?h b] by simp
    show ?thesis
    proof (cases "2 \<le> length bs")
      case True
      then obtain b c rest where bs: "bs = b # c # rest" by (metis Suc_le_length_iff numeral_2_eq_2)
      show ?thesis unfolding utf8_lead_cases [OF assms] j u option.case prod.case bs using three_bytes [OF 3, of b c] b [of b] by auto
    qed (simp add: utf8_lead_cases [OF assms] j u)
  next
    case 4
    have e: "(a = 240) = (x = 0)" "(a = 244) = (x = 4)" using 4 by (auto simp: word_unat_eq_iff)
    let ?l = "if x = 0 then 0x90 else 0x80 :: byte" and ?h = "if x = 4 then 0x8f else 0xbf :: byte"
    have j: "json_lead a = Some (3, 0x10000, ucast a AND 7)" and u: "utf8_lead a = Some (3, ?l, ?h)"
      using 4 by (simp_all add: json_lead_def utf8_lead_def n e)
    have b: "(?l \<le> b \<and> b \<le> ?h) = (cont b \<and> (if x = 0 then 144 else 128) \<le> unat b \<and> unat b \<le> (if x = 4 then 143 else 191))" for b
      using cont_bounds [of ?l ?h b] by simp
    show ?thesis
    proof (cases "3 \<le> length bs")
      case True
      then obtain b c d rest where bs: "bs = b # c # d # rest" by (metis Suc_le_length_iff numeral_3_eq_3)
      show ?thesis unfolding utf8_lead_cases [OF assms] j u option.case prod.case bs using four_bytes [OF 4, of b c d] b [of b] by auto
    qed (simp add: utf8_lead_cases [OF assms] j u)
  next
    case no
    then have "json_lead a = None" "utf8_lead a = None" by (auto simp: json_lead_def utf8_lead_def n)
    then show ?thesis by (simp add: utf8_lead_cases [OF assms])
  qed
qed


text \<open>The test of the firmware is the one of the Go library, except that it refuses the zero byte.\<close>

lemma json_utf8_loop_eq: "n \<le> length p \<Longrightarrow> json_utf8_loop p n i = Some (utf8_Valid (from_to p n i) \<and> 0 \<notin> set (from_to p n i))"
  supply utf8_Valid.simps(2) [simp del]
proof (induction "n - i" arbitrary: i rule: less_induct)
  case less
  consider "n \<le> i" | "i < n" "p ! i < 128" | "i < n" "\<not> p ! i < 128" by linarith
  then show ?case
  proof cases
    case 1
    then show ?thesis by (simp add: json_utf8_loop.simps from_to_Nil)
  next
    case 2
    then show ?thesis using less by (auto simp add: json_utf8_loop.simps [of p n i] from_to_Cons utf8_Valid.simps(2))
  next
    case 3
    let ?bs = "from_to p n (Suc i)"
    have i: "index p i = Some (p ! i)" "p ! i \<noteq> 0" using less.prems 3 by auto
    have l: "length ?bs = n - Suc i" using less.prems by (simp add: from_to_def)
    note u = json_utf8_loop.simps [of p n i] and v = from_to_Cons [OF 3(1) less.prems] json_lead_utf8 [OF 3(2)]
    show ?thesis
    proof (cases "json_lead (p ! i)")
      case None
      then show ?thesis using 3 i by (simp add: u v)
    next
      case (Some q)
      obtain k mn cp where q: "q = (k, mn, cp)" by (cases q) auto
      show ?thesis
      proof (cases "n - Suc i < k")
        case True
        then show ?thesis using 3 i Some q l by (simp add: u v)
      next
        case False
        then have d: "drop k ?bs = from_to p n (Suc i + k)" and t: "take k ?bs = take k (drop (i + 1) p)"
          using less.prems 3 by (simp_all add: from_to_def drop_take add.commute)
        have ih: "json_utf8_loop p n (Suc i + k) = Some (utf8_Valid (from_to p n (Suc i + k)) \<and> 0 \<notin> set (from_to p n (Suc i + k)))"
          using less.hyps [of "Suc i + k"] less.prems 3 by simp
        have c: "json_continuation p (i + 1) k cp = Some (if list_all cont (take k ?bs) then Some (cp_of cp (take k ?bs)) else None)"
          unfolding t using False less.prems 3(1) by (intro json_continuation_eq) simp
        have z: "list_all cont (take k ?bs) \<Longrightarrow> (0 \<notin> set ?bs) = (0 \<notin> set (drop k ?bs))"
          using set_append [of "take k ?bs" "drop k ?bs"] by (auto simp: list_all_iff cont_def)
        show ?thesis
          unfolding u v using 3 i ih c z False Some q l d
          by (auto simp: cp_range_def simp del: drop_drop)
      qed
    qed
  qed
qed

lemma efrp_json_utf8_eq: "n \<le> length p \<Longrightarrow> efrp_json_utf8 p n = Some (utf8_Valid (take n p) \<and> 0 \<notin> set (take n p))"
  using json_utf8_loop_eq [of n p 0] by (simp add: efrp_json_utf8_def from_to_def)

section \<open>Agreement with the Go program\<close>

definition go_manifest :: "efrp_xtcp_binding_manifest_t \<Rightarrow> Manifest" where
  "go_manifest m =
     \<lparr>ProxyName = bytes_string (take (bm_proxy_name_length m) (case bm_proxy_name m of None \<Rightarrow> [] | Some b \<Rightarrow> b)),
      SID = bm_sid m, ProviderControl = bm_provider_control_id m, VisitorControl = bm_visitor_control_id m,
      ProviderNonce = bm_provider_nonce m, VisitorNonce = bm_visitor_nonce m, ProviderSPKI = bm_provider_spki_sha256 m,
      VisitorSPKI = bm_visitor_spki_sha256 m, IssuedAt = bm_issued_at_seconds m, ExpiresAt = bm_expires_at_seconds m\<rparr>"

text \<open>A manifest whose name is in memory.\<close>

definition name_backed :: "efrp_xtcp_binding_manifest_t \<Rightarrow> bool" where
  "name_backed m \<longleftrightarrow> (\<exists>b. bm_proxy_name m = Some b \<and> bm_proxy_name_length m \<le> length b)"

lemma binding_fields_go: "binding_fields m = manifest_fields (go_manifest m)"
  by (simp add: binding_fields_def manifest_fields_def go_manifest_def)

lemma manifest_magic_eq: "manifest_magic = magic"
  by (simp add: manifest_magic_def magic_def string_bytes_def)

lemma shape_eq:
  assumes "name_backed m"
  shows "shape (Some m) = Some (if manifest_valid (go_manifest m) then EFRP_OK else EFRP_INVALID_ARGUMENT)"
proof -
  obtain b where b: "bm_proxy_name m = Some b" "bm_proxy_name_length m \<le> length b" using assms by (auto simp: name_backed_def)
  let ?n = "take (bm_proxy_name_length m) b"
  have z: "\<not> list_ex (\<lambda>c. c < 0x20 \<or> c = 0x7f) ?n \<Longrightarrow> 0 \<notin> set ?n" by (auto simp: list_ex_iff)
  have g: "ProxyName (go_manifest m) = bytes_string ?n" "IssuedAt (go_manifest m) = bm_issued_at_seconds m"
    "ExpiresAt (go_manifest m) = bm_expires_at_seconds m" using b by (simp_all add: go_manifest_def)
  have nz: "list_all nonzero (binding_fields m) = list_all Nonzero (manifest_fields (go_manifest m))"
    by (simp add: binding_fields_go nonzero_Nonzero [abs_def])
  have v: "manifest_valid (go_manifest m) \<longleftrightarrow> 1 \<le> bm_proxy_name_length m \<and> bm_proxy_name_length m \<le> 128 \<and> utf8_Valid ?n \<and>
      \<not> list_ex (\<lambda>c. c < 0x20 \<or> c = 0x7f) ?n \<and> bm_issued_at_seconds m \<noteq> 0 \<and> bm_issued_at_seconds m < bm_expires_at_seconds m \<and>
      bm_expires_at_seconds m - bm_issued_at_seconds m \<le> 60 \<and> list_all nonzero (binding_fields m)"
    unfolding manifest_valid_def g nz using b(2) by simp
  show ?thesis
    unfolding shape_def v using b efrp_json_utf8_eq [OF b(2)] z by (auto simp: not_less not_le)
qed

lemma make_spans_eq:
  assumes "name_backed m"
  shows "\<exists>spans. make_spans m = Some spans \<and> concat spans = manifest_bytes (go_manifest m)"
proof -
  obtain b where b: "bm_proxy_name m = Some b" "bm_proxy_name_length m \<le> length b" using assms by (auto simp: name_backed_def)
  then show ?thesis
    by (simp add: make_spans_def manifest_bytes_def manifest_magic_eq binding_fields_go) (simp add: go_manifest_def)
qed

lemma load_fields_eq: "load_fields wire i n = read_fields wire i n"
  by (induction n arbitrary: i) (simp_all add: mem_def)

lemma Uint64_take: "Uint64 (take 8 b) = Uint64 b"
  by (simp add: Uint64_def)

lemma unat_byte_less: "unat (k :: byte) < 256"
  using unat_less_pow [of k] by simp

text \<open>
  C13. The firmware and the Go program accept the same binding manifests: whatever bytes arrive and whatever the time is, the decoder
  in C reads only inside the buffer, and it returns a manifest exactly when the Go decoder returns
  one, and then the same.
\<close>

theorem manifest_decoders_agree:
  "map_option (\<lambda>r. case r of Inl _ \<Rightarrow> Inl ErrBinding | Inr m \<Rightarrow> Inr (go_manifest m)) (efrp_xtcp_binding_decode wire now) = Decode wire now"
proof (cases "length wire < 250 \<or> 377 < length wire")
  case True
  then show ?thesis by (auto simp: efrp_xtcp_binding_decode_def Decode_def Let_def)
next
  case False
  have l: "250 \<le> length wire" "length wire \<le> 377" using False by simp_all
  let ?k = "wire ! 8"
  have k: "index wire 8 = Some ?k" "slice wire 0 8 = Some (take 8 wire)" using l by simp_all
  have mg: "equal_bytes wire manifest_magic 8 = (take 8 wire = magic)"
    using l equal_bytes_iff [of 8 wire manifest_magic] by (simp add: manifest_magic_eq)
  show ?thesis
  proof (cases "take 8 wire \<noteq> magic \<or> ?k = 0 \<or> ?k > 128 \<or> length wire \<noteq> 249 + unat ?k")
    case True
    then show ?thesis using l k mg unfolding efrp_xtcp_binding_decode_def Decode_def Let_def by simp
  next
    case good: False
    let ?o = "9 + unat ?k"
    have n: "length wire = 249 + unat ?k" using good by simp
    obtain fs where fs: "read_fields wire ?o 7 = Some fs" "length fs = 7" using read_fields_spec [of ?o 7 wire] n by auto
    have t: "mem wire (?o + 224) 8 = Some (take 8 (drop (?o + 224) wire))" "mem wire (?o + 232) 8 = Some (take 8 (drop (?o + 232) wire))"
      "slice wire (?o + 7 * 32) (length wire) = Some (drop (?o + 224) wire)" "slice wire (?o + 7 * 32 + 8) (length wire) = Some (drop (?o + 232) wire)"
      "slice wire 9 ?o = Some (take (unat ?k) (drop 9 wire))" using n by simp_all
    define m where "m = \<lparr>bm_proxy_name = Some (drop 9 wire), bm_proxy_name_length = unat ?k, bm_sid = fs ! 0,
      bm_provider_control_id = fs ! 1, bm_visitor_control_id = fs ! 2, bm_provider_nonce = fs ! 3, bm_visitor_nonce = fs ! 4,
      bm_provider_spki_sha256 = fs ! 5, bm_visitor_spki_sha256 = fs ! 6, bm_issued_at_seconds = Uint64 (take 8 (drop (?o + 224) wire)),
      bm_expires_at_seconds = Uint64 (take 8 (drop (?o + 232) wire))\<rparr>"
    have nb: "name_backed m" using n by (simp add: m_def name_backed_def)
    have gm: "go_manifest m = \<lparr>ProxyName = bytes_string (take (unat ?k) (drop 9 wire)), SID = fs ! 0, ProviderControl = fs ! 1,
      VisitorControl = fs ! 2, ProviderNonce = fs ! 3, VisitorNonce = fs ! 4, ProviderSPKI = fs ! 5, VisitorSPKI = fs ! 6,
      IssuedAt = Uint64 (drop (?o + 224) wire), ExpiresAt = Uint64 (drop (?o + 232) wire)\<rparr>"
      by (simp add: m_def go_manifest_def Uint64_take)
    have no: "(length wire < 250 \<or> 377 < length wire) = False" using l by simp
    have bad: "(\<not> equal_bytes wire manifest_magic 8 \<or> ?k = 0 \<or> 128 < ?k \<or> length wire \<noteq> 249 + unat ?k) = False"
      "(take 8 wire \<noteq> magic \<or> ?k = 0 \<or> ?k > 128 \<or> length wire \<noteq> 249 + unat ?k) = False" using good mg by simp_all
    have c: "efrp_xtcp_binding_decode wire now = do {
        e \<leftarrow> efrp_xtcp_binding_validate (Some m) now;
        Some (if e = EFRP_OK then Inr m else Inl (if e = EFRP_INVALID_ARGUMENT then EFRP_PROTOCOL_ERROR else e))}"
      unfolding efrp_xtcp_binding_decode_def Let_def load_fields_eq m_def no if_False k bind.bind_lunit bad fs(1) t(1,2) ..
    have g: "Decode wire now = (case Encode (go_manifest m) of Inl e \<Rightarrow> Some (Inl ErrBinding)
        | Inr _ \<Rightarrow> if now < IssuedAt (go_manifest m) \<or> now \<ge> ExpiresAt (go_manifest m) then Some (Inl ErrBinding) else Some (Inr (go_manifest m)))"
      unfolding Decode_def Let_def no if_False k bind.bind_lunit bad fs(1) t(3-5) gm ..
    have "IssuedAt (go_manifest m) = bm_issued_at_seconds m" "ExpiresAt (go_manifest m) = bm_expires_at_seconds m" by (simp_all add: go_manifest_def)
    then show ?thesis unfolding c g efrp_xtcp_binding_validate_def shape_eq [OF nb] Encode_eq by simp
  qed
qed


text \<open>HMAC as the library of Go computes it from a hash with blocks of 64 bytes.\<close>

definition HMAC :: "(bytes \<Rightarrow> bytes) \<Rightarrow> bytes \<Rightarrow> bytes \<Rightarrow> bytes" where
  "HMAC H key msg =
     (let key = (if 64 < length key then H key else key);
          padded = key @ replicate (64 - length key) 0
      in H (map (\<lambda>b. b XOR 0x5c) padded @ H (map (\<lambda>b. b XOR 0x36) padded @ msg)))"

lemma padded_key:
  assumes "length key \<le> 64"
  shows "map (\<lambda>i. (if i < length key then key ! i else 0) XOR c) [0..<64] = map (\<lambda>b. b XOR c) (key @ replicate (64 - length key) (0 :: byte))"
  using assms by (intro nth_equalityI) (auto simp: nth_append)

lemma hmac_eq:
  assumes "\<And>b. length (H b) = 32" "key \<noteq> []" "length key \<le> 128" "length parts \<le> 8"
  shows "efrp_xtcp_binding_hmac H True key parts = Inr (HMAC H key (concat parts))"
proof -
  define k where "k = (if 64 < length key then H key else key)"
  have "length k \<le> 64" using assms(1) by (simp add: k_def)
  note pads = padded_key [OF this]
  have c: "(case (if 64 < length key then crypto_hash H True [key] else Inr key) of Inl e \<Rightarrow> Inl e | Inr x \<Rightarrow> f x) = f k" for f :: "bytes \<Rightarrow> efrp_result_t + bytes"
    by (simp add: k_def crypto_hash_def)
  show ?thesis
    using assms(2-4) unfolding efrp_xtcp_binding_hmac_def HMAC_def c Let_def k_def [symmetric] pads by (simp add: crypto_hash_def)
qed

definition drop_error :: "efrp_result_t + 'a \<Rightarrow> binding_err + 'a" where
  "drop_error r = (case r of Inl _ \<Rightarrow> Inl ErrBinding | Inr x \<Rightarrow> Inr x)"

lemma make_proof_eq:
  assumes "\<And>b. length (H b) = 32" "name_backed m" "length exporter = 32"
  shows "map_option drop_error (efrp_xtcp_binding_make_proof H True (Some m) role exporter) = Some (Proof H (HMAC H) (go_manifest m) role exporter)"
proof -
  obtain spans where s: "make_spans m = Some spans" "concat spans = manifest_bytes (go_manifest m)" using make_spans_eq [OF assms(2)] by blast
  have "exporter \<noteq> []" using assms(3) by auto
  then have h: "proof_mac H True exporter role d = Inr (HMAC H exporter (string_bytes ''esp-frp-xtcp-proof-v1'' @ [role] @ d))" for role d
    using hmac_eq [OF assms(1), of exporter "[string_bytes ''esp-frp-xtcp-proof-v1'', [role], d]"] assms(3) by (simp add: proof_mac_def)
  have p: "proof_magic = string_bytes ''XTP1''" by (simp add: proof_magic_def string_bytes_def)
  have r: "role_valid role = (role = Provider \<or> role = Visitor)" by (simp add: role_valid_def Provider_def Visitor_def)
  show ?thesis
    unfolding efrp_xtcp_binding_make_proof_def efrp_xtcp_binding_hash_def shape_eq [OF assms(2)] Proof_def Hash_def Encode_eq
    using s assms(3) by (auto simp: p r h nonzero_Nonzero crypto_hash_def drop_error_def)
qed

lemma proof_length: "(\<And>b. length (H b) = 32) \<Longrightarrow> Proof H (HMAC H) m role exporter = Inr p \<Longrightarrow> length p = 69 \<and> take 4 p = string_bytes ''XTP1'' \<and> p ! 4 = role"
  by (auto simp: Proof_def HMAC_def Let_def Hash_def Encode_eq string_bytes_def split: if_splits sum.splits)

lemma verify_proof_eq:
  assumes "\<And>b. length (H b) = 32" "name_backed m" "length exporter = 32"
  shows "efrp_xtcp_binding_verify_proof H True (Some m) role exporter pf = Some EFRP_OK \<longleftrightarrow> Verify H (HMAC H) (go_manifest m) role exporter pf = None"
proof -
  obtain r where r: "efrp_xtcp_binding_make_proof H True (Some m) role exporter = Some r" "drop_error r = Proof H (HMAC H) (go_manifest m) role exporter"
    using make_proof_eq [where H = H and role = role, OF assms] by auto
  show ?thesis
  proof (cases r)
    case (Inl e)
    then have g: "Proof H (HMAC H) (go_manifest m) role exporter = Inl ErrBinding" using r(2) by (simp add: drop_error_def)
    obtain spans where s: "make_spans m = Some spans" using make_spans_eq [OF assms(2)] by blast
    have "exporter \<noteq> []" using assms(3) by auto
    then have h: "\<exists>t. proof_mac H True exporter role d = Inr t" for d using hmac_eq [OF assms(1), of exporter] assms(3) by (simp add: proof_mac_def)
    have "e \<noteq> EFRP_OK"
      using r(1) Inl h [of "H (concat spans)"]
      unfolding efrp_xtcp_binding_make_proof_def efrp_xtcp_binding_hash_def shape_eq [OF assms(2)]
      by (auto simp: s crypto_hash_def split: if_splits)
    then show ?thesis using r(1) Inl g by (simp add: efrp_xtcp_binding_verify_proof_def Verify_def)
  next
    case (Inr p)
    then have g: "Proof H (HMAC H) (go_manifest m) role exporter = Inr p" using r(2) by (simp add: drop_error_def)
    have rv: "role_valid role" using r(1) Inr by (auto simp: efrp_xtcp_binding_make_proof_def split: if_splits)
    have l: "length p = 69" "take 4 p = string_bytes ''XTP1''" "p ! 4 = role" using proof_length [OF assms(1) g] by simp_all
    have e: "length pf = 69 \<Longrightarrow> equal_bytes pf p 69 = (pf = p)" using equal_bytes_iff [of 69 pf p] l(1) by simp
    have k: "length pf = 69 \<Longrightarrow> equal_bytes pf proof_magic 4 = (take 4 pf = string_bytes ''XTP1'')"
      using equal_bytes_iff [of 4 pf proof_magic] by (simp add: proof_magic_def string_bytes_def)
    show ?thesis using r(1) Inr g rv l e k by (auto simp: efrp_xtcp_binding_verify_proof_def Verify_def)
  qed
qed

lemma signal_proof_eq:
  assumes "\<And>b. length (H b) = 32" "length control = 32" "length nonce = 32" "length spki = 32" "0 \<notin> set proxy"
  shows "map_option drop_error (efrp_xtcp_binding_signal_proof H True secret role proxy control nonce spki timestamp) =
    Some (SignalProof (HMAC H) (bytes_string secret) role (bytes_string proxy) control nonce spki timestamp)"
proof -
  let ?parts = "[string_bytes ''esp-frp-xtcp-signal-v1'', [role, word_of_nat (length proxy)], proxy, control, nonce, spki, PutUint64 (word_of_int timestamp)]"
  have h: "secret \<noteq> [] \<Longrightarrow> length secret \<le> 128 \<Longrightarrow> efrp_xtcp_binding_hmac H True secret ?parts = Inr (HMAC H secret (concat ?parts))"
    using hmac_eq [OF assms(1), of secret ?parts] by simp
  have r: "role_valid role = (role = Provider \<or> role = Visitor)" by (simp add: role_valid_def Provider_def Visitor_def)
  show ?thesis
    using assms(2-5) h
    by (auto simp: efrp_xtcp_binding_signal_proof_def SignalProof_def efrp_json_utf8_eq r nonzero_Nonzero ID_def drop_error_def
        utf8_ValidString_def signal_message_def Suc_le_eq)
qed

text \<open>
  C14. The two ends of a peer-to-peer session, one running the firmware and one running the Go program, compute the same
  authenticators. For a hash with results of 32 bytes, a manifest whose name is in memory and an exporter of 32 bytes, the
  firmware makes a proof exactly when Go does and the same one, it accepts a proof exactly when Go does, and for a proxy
  name without a zero byte it signs a signalling message exactly as Go does.
\<close>

theorem esp_proofs_agree:
  assumes "\<And>b. length (H b) = 32" "name_backed m" "length exporter = 32"
    "length control = 32" "length nonce = 32" "length spki = 32" "0 \<notin> set proxy"
  shows "map_option drop_error (efrp_xtcp_binding_make_proof H True (Some m) role exporter) = Some (Proof H (HMAC H) (go_manifest m) role exporter) \<and>
    (efrp_xtcp_binding_verify_proof H True (Some m) role exporter pf = Some EFRP_OK \<longleftrightarrow> Verify H (HMAC H) (go_manifest m) role exporter pf = None) \<and>
    map_option drop_error (efrp_xtcp_binding_signal_proof H True secret role proxy control nonce spki timestamp) =
      Some (SignalProof (HMAC H) (bytes_string secret) role (bytes_string proxy) control nonce spki timestamp)"
  using make_proof_eq [where H = H, OF assms(1-3)] verify_proof_eq [where H = H, OF assms(1-3)] signal_proof_eq [where H = H, OF assms(1,4-7)]
  by blast

definition sample_hash :: "bytes \<Rightarrow> bytes" where
  "sample_hash b = replicate 31 1 @ [sum_list b]"

definition sample_binding :: efrp_xtcp_binding_manifest_t where
  "sample_binding = \<lparr>bm_proxy_name = Some [112, 49], bm_proxy_name_length = 2, bm_sid = replicate 32 1, bm_provider_control_id = replicate 32 2,
     bm_visitor_control_id = replicate 32 3, bm_provider_nonce = replicate 32 4, bm_visitor_nonce = replicate 32 5, bm_provider_spki_sha256 = replicate 32 6,
     bm_visitor_spki_sha256 = replicate 32 7, bm_issued_at_seconds = 100, bm_expires_at_seconds = 130\<rparr>"

theorem esp_proofs_agree_witness:
  "map_option drop_error (efrp_xtcp_binding_make_proof sample_hash True (Some sample_binding) 1 (replicate 32 9)) =
     Some (Proof sample_hash (HMAC sample_hash) (go_manifest sample_binding) 1 (replicate 32 9)) \<and>
   map_option isl (efrp_xtcp_binding_make_proof sample_hash True (Some sample_binding) 1 (replicate 32 9)) = Some False"
proof -
  have "\<And>b. length (sample_hash b) = 32" by (simp add: sample_hash_def)
  moreover have "name_backed sample_binding" by (simp add: name_backed_def sample_binding_def)
  ultimately have "map_option drop_error (efrp_xtcp_binding_make_proof sample_hash True (Some sample_binding) 1 (replicate 32 9)) =
     Some (Proof sample_hash (HMAC sample_hash) (go_manifest sample_binding) 1 (replicate 32 9))"
    using esp_proofs_agree [of sample_hash sample_binding "replicate 32 9" "replicate 32 1" "replicate 32 1" "replicate 32 1" "[112]" 1 "[]" "[1]" 1] by simp
  moreover have "map_option isl (efrp_xtcp_binding_make_proof sample_hash True (Some sample_binding) 1 (replicate 32 9)) = Some False" by code_simp
  ultimately show ?thesis by blast
qed

end
