(* ===== verification/Spec2Isabelle.thy ===== *)
theory Spec2Isabelle
  imports UdpBinary Handoff ProxyTable Backoff AdminApi ClientVisitors ConfigSources EspUdp EspWire EspBinding
begin

text \<open>
  A verification of frp, the reverse proxy whose Go sources are under \<open>src/peer/frp\<close>, together with the
  extensions of this repository: the wire protocol v2 and peer-to-peer tunnels (XTCP) whose two ends
  are bound to the control sessions that negotiated them.

  The program. A client (frpc, \<open>client/\<close>) opens a control connection to a server (frps, \<open>server/\<close>), logs
  in, and registers proxies and visitors. The server opens a port, a route or a secret listener for
  each proxy; when a user connects, it asks the client for a work connection and joins the two. A visitor
  reaches a secret proxy (stcp, sudp) through the server, or directly (xtcp) after the server has told
  both sides how to punch a hole through their NATs. Names of files below are relative to \<open>src/peer/frp\<close>.

  How code becomes definitions. A struct is a record with the fields of the struct, an enumeration or
  interface a datatype, a method a function of the state that returns the new state. Errors are values
  of a sum type, a panic is the result \<open>None\<close>. Integers whose overflow matters are words. Objects that
  several goroutines share live in heaps (functions from addresses). What comes from outside is an
  argument: the clock, random bytes, the order in which a map is ranged over, answers of the operating
  system, hash functions, the JSON codec, verdicts of \<open>crypto/x509\<close>. Concurrency is a step function or a
  step relation whose steps are the critical sections of the code; theorems then speak of all reachable
  states, that is, of every interleaving. Fields that only record history are named as bookkeeping in the
  theory that has them; no operation reads them.

  The library. \<open>Prelude\<close> has byte strings, big-endian integers, bounds-checked slices and UTF-8;
  \<open>Go_Strings\<close> the string functions of Go that the sources call; \<open>Interfaces\<close> the locales
  \<open>prefix_codec\<close> (a self-delimiting encoding) and \<open>op_machine\<close> (operations that keep an invariant). Further
  locales stand where their clients are: \<open>route_table\<close> (Router, Vhost), \<open>listener_group\<close> and
  \<open>pooled_group\<close> (LoadGroups), \<open>resource_pool\<close> (ResourcePools), \<open>date_counter\<close> (Metrics) and \<open>entry_map\<close>
  (ConfigSources). Each is interpreted on the model of the code.

  Wire protocol.
  Wire: \<open>pkg/proto/wire\<close>; frames, hello messages, the transcript. What was written is read back, whatever
  the chunks; a reader returns only what a writer could have sent; equal transcripts mean equal hellos.
  Msg: \<open>pkg/msg/msg.go\<close>, \<open>wire_v2.go\<close>; all messages, each type has one code, and a message survives the
  codec.
  UdpBinary: \<open>pkg/msg/udp_binary.go\<close>; the offsets never leave the buffer, and packets survive.
  Binding and PeerTls: \<open>pkg/xtcpbinding\<close>; a manifest decodes exactly when it is well formed, a proof is
  accepted only from the peer that holds the session key for the same manifest, the exchange completes
  for honest peers, and the TLS configuration accepts exactly the pinned certificate.

  Server.
  Ports: \<open>server/ports\<close>; every port is free, used or reserved, in one way only.
  Registry: \<open>server/registry\<close>; the two maps agree and a client is online exactly as its last login says.
  Router, Vhost: \<open>pkg/util/vhost\<close>; a lookup finds the longest location of the most specific domain, deletion
  undoes insertion, a request reaches a protected route only with its password.
  LoadGroups, HttpGroups: \<open>server/group\<close>; group objects and routes are created and released together.
  Control, Sessions, Handoff: \<open>server/control.go\<close> and the login path of \<open>server/service.go\<close>. Sessions is the
  step relation of logins, workers, heartbeats and work connections; Handoff proves that at most one
  session per run ID serves, that no channel operation panics, that the registry lists no client without
  a session, and that a login that waits for its predecessor gets in.
  NatAnalysis, NatHole: \<open>pkg/nathole/classify.go\<close>, \<open>analysis.go\<close>, \<open>controller.go\<close>; the roles given to the two
  sides fit together, only authenticated parties are introduced to each other, and closing is safe.
  VisitorManager: \<open>server/visitor\<close>; a visitor is let in only with the secret and a permitted user.
  ResourcePools, ServerProxy: \<open>server/proxy\<close> and \<open>server/controller\<close>; whatever Run took is given back by its
  own error paths or by Close, for all eight types of proxy.
  ProxyTable: registration and closing of proxies by concurrent controls; the table of names, the objects
  and the quota of ports per client stay consistent.
  Metrics, AdminApi: \<open>pkg/util/metric\<close>, \<open>pkg/metrics/mem\<close>, \<open>server/http\<close>; the traffic shown is the traffic
  counted, pages partition the clients, and a dashboard answer carries no secret.

  Client.
  ProxyConfig, ClientConfig: \<open>pkg/config/v1\<close>, its \<open>validation\<close>, \<open>pkg/policy\<close> and the filters of
  \<open>pkg/config/load.go\<close>; a configuration reaches the server as it was, validated domains of a server cannot be
  taken, and a command is run for a token only with permission.
  ClientProxies: \<open>client/proxy\<close>, \<open>client/health\<close>; the proxies of the client and of the server agree once
  messages have been delivered.
  ClientVisitors: \<open>client/visitor\<close>; the manager runs exactly the configured visitors and leaks none.
  ConfigSources: \<open>pkg/config/source\<close>; an operation on the store that fails leaves memory and file as they
  were, one that succeeds survives a restart, and the aggregate is the merge of the enabled entries.
  Backoff: \<open>pkg/util/wait\<close>; the retry loop ends when its function succeeds, and reconnecting has a bounded
  rate.
  Util: \<open>pkg/util/util\<close>, \<open>pkg/config/types\<close>; port ranges, bandwidth, identifiers.

  Bounds and fuel. Loops over data are structural recursions. The reader of frames and the retry loop
  take the list of what their environment does (chunks, clock readings) and end with it; statements
  about them say that the result is reached and not only that it is right if it is. Words have the width
  of the Go types. There is no other fuel.

  Not modelled. The copying of bytes between connections, TLS, QUIC, KCP, yamux and websocket I/O, sockets and
  STUN: they are the work of other packages, and what the code makes of their results is an argument.
  Parsing of configuration files and flags (toml, yaml, cobra), the legacy ini format, OIDC, the HTTP calls of
  server plugins, client plugins, the SSH gateway, the virtual network, prometheus, logging and the web
  interface. Clone methods return equal values, which is what they are for in a model with values. Where a
  theory leaves out an operation of its file, its opening text or the text at the definition says so.
\<close>

end
